(* ===== verification/Prelude.thy ===== *)
theory Prelude
  imports Main "HOL-Library.Word" "HOL-Library.Monad_Syntax"
begin

text \<open>
  Shared vocabulary of the development: the machine types of the C sources, pointers, the
  completion codes of the network layer, and the generic lemmas on options and lists that the
  component theories use.

  Conventions. A pointer is an \<open>addr option\<close>, \<open>None\<close> being \<open>NULL\<close>. An operation that may
  dereference a bad pointer or read outside a buffer returns an \<open>option\<close>: \<open>None\<close> is
  undefined behaviour (or, for a loop, not returning), so a theorem that an operation yields
  \<open>Some\<close> says that it is memory safe and that it ends.
\<close>

unbundle bit_operations_syntax

type_synonym addr = nat
type_synonym ptr = "addr option"
type_synonym byte = "8 word"
type_synonym bytes = "byte list"

named_theorems rep_simps \<open>unfolding rules of the representation predicates\<close>
named_theorems frame_simps \<open>what an operation leaves unchanged\<close>
named_theorems codec_simps \<open>equations of the byte level readers and writers\<close>

text \<open>First and last element as pointers, with a default for the empty list.\<close>

fun hd_opt :: "'a list \<Rightarrow> 'a option \<Rightarrow> 'a option" where
  "hd_opt [] d = d"
| "hd_opt (x # xs) d = Some x"

fun last_opt :: "'a list \<Rightarrow> 'a option \<Rightarrow> 'a option" where
  "last_opt [] d = d"
| "last_opt (x # xs) d = last_opt xs (Some x)"

lemma hd_opt_append [simp]: "hd_opt (xs @ ys) d = hd_opt xs (hd_opt ys d)"
  by (cases xs) auto

lemma last_opt_append [simp]: "last_opt (xs @ ys) d = last_opt ys (last_opt xs d)"
  by (induction xs arbitrary: d) auto

lemma last_opt_eq: "last_opt xs d = (if xs = [] then d else Some (last xs))"
  by (induction xs arbitrary: d) auto

lemma hd_opt_eq: "hd_opt xs d = (if xs = [] then d else Some (hd xs))"
  by (cases xs) auto

lemma hd_opt_None_iff [simp]: "hd_opt xs None = None \<longleftrightarrow> xs = []"
  by (cases xs) auto

lemma hd_opt_Some_neq_None [simp]: "hd_opt xs (Some z) = None \<longleftrightarrow> False"
  by (cases xs) simp_all

lemma last_opt_Some_neq_None [simp]: "last_opt xs (Some z) = None \<longleftrightarrow> False"
  by (simp add: last_opt_eq)

lemma last_opt_None_iff [simp]: "last_opt xs None = None \<longleftrightarrow> xs = []"
  by (simp add: last_opt_eq)

lemma last_opt_Some_notin: "a \<notin> set xs \<Longrightarrow> last_opt xs None \<noteq> Some a"
  by (auto simp: last_opt_eq)

lemma hd_opt_Some_notin: "a \<notin> set xs \<Longrightarrow> hd_opt xs None \<noteq> Some a"
  by (cases xs) auto

text \<open>The position of the first element with a property.\<close>

fun find_index :: "('a \<Rightarrow> bool) \<Rightarrow> 'a list \<Rightarrow> nat option" where
  "find_index P [] = None"
| "find_index P (x # xs) = (if P x then Some 0 else map_option Suc (find_index P xs))"

lemma find_index_None_iff: "find_index P xs = None \<longleftrightarrow> (\<forall>x\<in>set xs. \<not> P x)"
  by (induction xs) auto

lemma find_index_SomeD:
  "find_index P xs = Some i \<Longrightarrow> i < length xs \<and> P (xs ! i) \<and> (\<forall>j<i. \<not> P (xs ! j))"
proof (induction xs arbitrary: i)
  case (Cons x xs)
  then show ?case by (cases i) (auto simp: less_Suc_eq_0_disj split: if_splits)
qed simp

lemma find_index_append:
  "find_index P (xs @ ys) =
     (case find_index P xs of Some i \<Rightarrow> Some i
      | None \<Rightarrow> map_option (\<lambda>i. length xs + i) (find_index P ys))"
proof (induction xs)
  case Nil
  show ?case by (cases "find_index P ys") auto
next
  case (Cons x xs)
  then show ?case by (cases "find_index P xs"; cases "find_index P ys") auto
qed

lemma find_index_unique:
  assumes "i < length xs" "P (xs ! i)" "\<And>j. j < length xs \<Longrightarrow> P (xs ! j) \<Longrightarrow> j = i"
  shows "find_index P xs = Some i"
proof (cases "find_index P xs")
  case None
  then have "\<not> P (xs ! i)" using assms(1) by (simp add: find_index_None_iff)
  with assms(2) show ?thesis by contradiction
next
  case (Some k)
  then have "k = i" using find_index_SomeD [OF Some] assms(3) by blast
  with Some show ?thesis by simp
qed

text \<open>Removing one position of a list.\<close>

definition remove_nth :: "nat \<Rightarrow> 'a list \<Rightarrow> 'a list" where
  "remove_nth i xs = take i xs @ drop (Suc i) xs"

lemma remove_nth_append [simp]: "remove_nth (length xs) (xs @ y # ys) = xs @ ys"
  by (simp add: remove_nth_def)

lemma length_remove_nth: "i < length xs \<Longrightarrow> length (remove_nth i xs) = length xs - 1"
  by (simp add: remove_nth_def)

lemma map_remove_nth: "map f (remove_nth i xs) = remove_nth i (map f xs)"
  by (simp add: remove_nth_def take_map drop_map)

lemma set_remove_nth_subset: "set (remove_nth i xs) \<subseteq> set xs"
  by (auto simp: remove_nth_def dest: in_set_takeD in_set_dropD)

lemma nth_notin_remove_nth: "distinct xs \<Longrightarrow> i < length xs \<Longrightarrow> xs ! i \<notin> set (remove_nth i xs)"
  using id_take_nth_drop [of i xs] distinct_append [of "take i xs" "xs ! i # drop (Suc i) xs"]
  by (auto simp: remove_nth_def)

section \<open>Runs of a machine and simulations\<close>

text \<open>
  A component is a machine: a step consumes an operation and yields an observable result and the
  next state. Concrete steps may fail (\<open>None\<close>, undefined behaviour); abstract ones cannot.
\<close>

fun run_steps :: "('s \<Rightarrow> 'op \<Rightarrow> ('o \<times> 's) option) \<Rightarrow> 's \<Rightarrow> 'op list \<Rightarrow> ('o list \<times> 's) option" where
  "run_steps step s [] = Some ([], s)"
| "run_steps step s (x # xs) = do {
     (r, s) \<leftarrow> step s x;
     (rs, s) \<leftarrow> run_steps step s xs;
     Some (r # rs, s)
   }"

fun run_spec :: "('a \<Rightarrow> 'op \<Rightarrow> 'o \<times> 'a) \<Rightarrow> 'a \<Rightarrow> 'op list \<Rightarrow> 'o list \<times> 'a" where
  "run_spec astep q [] = ([], q)"
| "run_spec astep q (x # xs) =
     (let (r, q) = astep q x; (rs, q) = run_spec astep q xs in (r # rs, q))"

lemma run_spec_append:
  "run_spec astep q (xs @ ys) =
     (let (rs, q) = run_spec astep q xs; (rs', q) = run_spec astep q ys in (rs @ rs', q))"
  by (induction xs arbitrary: q) (simp_all add: split_beta Let_def)

lemma length_run_spec: "length (fst (run_spec astep q xs)) = length xs"
  by (induction xs arbitrary: q) (simp_all add: split_beta Let_def)

text \<open>
  The contract between a component and its abstract specification: a relation that every step
  preserves, with equal results. \<open>ok xs s\<close> is what the environment owes for the operations
  \<open>xs\<close> (for instance that \<open>malloc\<close> returns unused memory).
\<close>

locale simulation =
  fixes R :: "'s \<Rightarrow> 'a \<Rightarrow> bool"
    and step :: "'s \<Rightarrow> 'op \<Rightarrow> ('o \<times> 's) option"
    and astep :: "'a \<Rightarrow> 'op \<Rightarrow> 'o \<times> 'a"
    and ok :: "'op list \<Rightarrow> 's \<Rightarrow> bool"
  assumes sim_step: "R s q \<Longrightarrow> ok (x # xs) s \<Longrightarrow>
      \<exists>s'. step s x = Some (fst (astep q x), s') \<and> R s' (snd (astep q x)) \<and> ok xs s'"
begin

lemma run_simulates:
  "R s q \<Longrightarrow> ok xs s \<Longrightarrow>
   \<exists>s'. run_steps step s xs = Some (fst (run_spec astep q xs), s') \<and> R s' (snd (run_spec astep q xs))"
proof (induction xs arbitrary: s q)
  case Nil
  then show ?case by simp
next
  case (Cons x xs)
  obtain r q' where a: "astep q x = (r, q')" by (cases "astep q x")
  with sim_step [OF Cons.prems] obtain s1 where s1: "step s x = Some (r, s1)" "R s1 q'" "ok xs s1"
    by auto
  from Cons.IH [OF s1(2,3)] s1 a show ?case
    by (auto simp: split_beta)
qed

end

section \<open>Bytes\<close>

text \<open>Facts about single bytes, by going through the 256 of them.\<close>

lemma byte_all: "list_all (\<lambda>n. P (word_of_nat n :: byte)) [0..<256] \<Longrightarrow> P b"
proof -
  assume a: "list_all (\<lambda>n. P (word_of_nat n :: byte)) [0..<256]"
  have "unat b < 256" using unsigned_less [of b] by simp
  moreover from a have "\<forall>n\<in>{0..<256}. P (word_of_nat n)" by (simp add: list_all_iff)
  ultimately have "P (word_of_nat (unat b))" by (simp only: Ball_def atLeastLessThan_iff) blast
  then show ?thesis by simp
qed

lemma byte_and_128: "(b :: byte) AND 128 = 0 \<longleftrightarrow> unat b < 128"
  by (rule byte_all [where P = "\<lambda>b. b AND 128 = 0 \<longleftrightarrow> unat b < 128"]) code_simp

lemma byte_and_F0: "(b :: byte) AND 0xF0 = 0xF0 \<longleftrightarrow> 240 \<le> unat b"
  by (rule byte_all [where P = "\<lambda>b. b AND 0xF0 = 0xF0 \<longleftrightarrow> 240 \<le> unat b"]) code_simp

lemma byte_and_E0: "(b :: byte) AND 0xE0 = 0xE0 \<longleftrightarrow> 224 \<le> unat b"
  by (rule byte_all [where P = "\<lambda>b. b AND 0xE0 = 0xE0 \<longleftrightarrow> 224 \<le> unat b"]) code_simp

lemma sint_byte: "sint (b :: byte) = (if unat b < 128 then int (unat b) else int (unat b) - 256)"
  by (rule byte_all [where P = "\<lambda>b. sint b = (if unat b < 128 then int (unat b) else int (unat b) - 256)"]) code_simp

lemma byte_and_127: "unat ((b :: byte) AND 127) = unat b mod 128"
proof -
  have "b AND 127 = b mod 128"
    using take_bit_eq_mask [of 7 b] by (simp add: mask_eq_exp_minus_1 take_bit_eq_mod)
  then show ?thesis by (simp add: unat_mod_distrib)
qed

lemma byte_and_3: "unat ((b :: byte) AND 3) = unat b mod 4"
proof -
  have "b AND 3 = b mod 4"
    using take_bit_eq_mask [of 2 b] by (simp add: mask_eq_exp_minus_1 take_bit_eq_mod)
  then show ?thesis by (simp add: unat_mod_distrib)
qed

lemma byte_and_1: "unat ((b :: byte) AND 1) = unat b mod 2"
proof -
  have "b AND 1 = b mod 2"
    using take_bit_eq_mask [of 1 b] by (simp add: mask_eq_exp_minus_1 take_bit_eq_mod)
  then show ?thesis by (simp add: unat_mod_distrib)
qed

lemma byte_drop_bit:
  "unat (drop_bit 1 (b :: byte)) = unat b div 2" "unat (drop_bit 3 b) = unat b div 8"
  "unat (drop_bit 4 b) = unat b div 16"
  by (simp_all add: drop_bit_eq_div unat_div_distrib)

lemma byte_or_80: "unat (b :: byte) < 128 \<Longrightarrow> unat (b OR 0x80) = unat b + 128"
proof -
  assume b: "unat b < 128"
  then have "b OR 0x80 = b + 0x80" using disjunctive_add_eq_or [of b "0x80"] byte_and_128 [of b] by simp
  with b show ?thesis by (simp add: unat_word_ariths)
qed

text \<open>The cast \<open>(int)\<close> of a size: it keeps the low 32 bits.\<close>

definition to_int32 :: "nat \<Rightarrow> int" where
  "to_int32 n = sint (word_of_nat n :: 32 word)"

lemma to_int32_small: "n < 2147483648 \<Longrightarrow> to_int32 n = int n"
  unfolding to_int32_def by (simp add: signed_of_nat take_bit_nat_eq_self signed_take_bit_int_eq_self)

lemma to_int32_large:
  assumes "2147483648 \<le> n" "n < 4294967296"
  shows "to_int32 n = int n - 4294967296"
proof -
  have "(int n + 2147483648) mod 4294967296 = int n - 2147483648"
    by (subst mod_pos_geq) (use assms in \<open>simp_all add: mod_pos_pos_trivial\<close>)
  then show ?thesis by (simp add: to_int32_def signed_of_nat signed_take_bit_eq_take_bit_shift take_bit_eq_mod)
qed

section \<open>Association lists\<close>

lemma find_index_map_of:
  "find_index (\<lambda>x. fst x = k) xs = None \<longleftrightarrow> map_of xs k = None"
  "find_index (\<lambda>x. fst x = k) xs = Some i \<Longrightarrow> map_of xs k = Some (snd (xs ! i)) \<and> i < length xs \<and> fst (xs ! i) = k"
proof -
  show "find_index (\<lambda>x. fst x = k) xs = None \<longleftrightarrow> map_of xs k = None" by (induction xs) auto
  show "find_index (\<lambda>x. fst x = k) xs = Some i \<Longrightarrow> map_of xs k = Some (snd (xs ! i)) \<and> i < length xs \<and> fst (xs ! i) = k"
    by (induction xs arbitrary: i) (auto split: if_splits)
qed

lemma find_index_map: "find_index P (map f xs) = find_index (\<lambda>x. P (f x)) xs"
  by (induction xs) auto

lemma map_of_list_update:
  "i < length xs \<Longrightarrow> distinct (map fst xs) \<Longrightarrow> map_of (xs[i := (fst (xs ! i), v)]) = (map_of xs)(fst (xs ! i) \<mapsto> v)"
proof (induction xs arbitrary: i)
  case (Cons x xs)
  show ?case
  proof (cases i)
    case (Suc j)
    with Cons.prems(1) have "fst (xs ! j) \<in> fst ` set xs" by simp
    moreover have "fst x \<notin> fst ` set xs" using Cons.prems(2) by simp
    ultimately have "fst (xs ! j) \<noteq> fst x" by metis
    with Cons Suc show ?thesis by (cases x) (auto simp: fun_upd_twist)
  qed (cases x, simp add: fun_eq_iff)
qed simp

lemma map_of_remove_nth:
  "i < length xs \<Longrightarrow> distinct (map fst xs) \<Longrightarrow> map_of (remove_nth i xs) = (map_of xs)(fst (xs ! i) := None)"
proof (induction xs arbitrary: i)
  case (Cons x xs)
  show ?case
  proof (cases i)
    case 0
    with Cons have "map_of xs (fst x) = None" by (simp add: map_of_eq_None_iff)
    with 0 show ?thesis by (cases x) (auto simp: remove_nth_def)
  next
    case (Suc j)
    with Cons.prems(1) have "fst (xs ! j) \<in> fst ` set xs" by simp
    moreover have "fst x \<notin> fst ` set xs" using Cons.prems(2) by simp
    ultimately have "fst (xs ! j) \<noteq> fst x" by metis
    with Cons Suc show ?thesis by (cases x) (auto simp: remove_nth_def fun_upd_twist)
  qed
qed simp

lemma distinct_remove_nth: "distinct xs \<Longrightarrow> distinct (remove_nth i xs)"
  unfolding remove_nth_def using set_take_disj_set_drop_if_distinct [of xs i "Suc i"] by auto

lemma set_remove_nth: "distinct xs \<Longrightarrow> i < length xs \<Longrightarrow> set (remove_nth i xs) = set xs - {xs ! i}"
proof -
  assume a: "distinct xs" "i < length xs"
  then have "xs = take i xs @ xs ! i # drop (Suc i) xs" by (simp add: id_take_nth_drop)
  then have "set xs = set (take i xs) \<union> {xs ! i} \<union> set (drop (Suc i) xs)" by (metis Un_insert_right list.simps(15) set_append sup_bot.right_neutral Un_insert_left)
  with nth_notin_remove_nth [OF a] show ?thesis by (auto simp: remove_nth_def)
qed

end
