(* ===== verification/LinkedList.thy ===== *)
theory LinkedList
  imports Prelude
begin

text \<open>
  The doubly linked lists of \<open>lib/LinkedList.c\<close>. The elements live in an explicit store, so that
  the pointer surgery of the source (and the aliasing between \<open>prev\<close>, \<open>next\<close>, \<open>first\<close>, \<open>last\<close> and
  the \<open>current\<close> cursor) is modelled as it is written; contents are opaque \<open>void*\<close> values of a
  type parameter. The second half relates the store to the abstract list with a cursor (\<open>clist\<close>)
  that the other components use.
\<close>

section \<open>The store and the operations\<close>

record 'c ListElement =
  el_prev :: ptr
  el_next :: ptr
  el_content :: 'c

record List =
  l_first :: ptr
  l_last :: ptr
  l_current :: ptr
  l_count :: int
  l_size :: nat

text \<open>
  The store: the live list elements, and the contents handed to \<open>free\<close>, most recent first.
\<close>

record 'c lstore =
  cells :: "addr \<Rightarrow> 'c ListElement option"
  freed :: "'c list"

definition get_el :: "'c lstore \<Rightarrow> ptr \<Rightarrow> 'c ListElement option" where
  "get_el s p = Option.bind p (cells s)"

definition upd_el :: "('c ListElement \<Rightarrow> 'c ListElement) \<Rightarrow> 'c lstore \<Rightarrow> ptr \<Rightarrow> 'c lstore option" where
  "upd_el f s p = (case p of None \<Rightarrow> None
     | Some a \<Rightarrow> (case cells s a of None \<Rightarrow> None
         | Some e \<Rightarrow> Some (s\<lparr>cells := (cells s)(a \<mapsto> f e)\<rparr>)))"

definition set_next :: "'c lstore \<Rightarrow> ptr \<Rightarrow> ptr \<Rightarrow> 'c lstore option" where
  "set_next s p q = upd_el (\<lambda>e. e\<lparr>el_next := q\<rparr>) s p"

definition set_prev :: "'c lstore \<Rightarrow> ptr \<Rightarrow> ptr \<Rightarrow> 'c lstore option" where
  "set_prev s p q = upd_el (\<lambda>e. e\<lparr>el_prev := q\<rparr>) s p"

definition free_el :: "'c lstore \<Rightarrow> ptr \<Rightarrow> 'c lstore option" where
  "free_el s p = (case p of None \<Rightarrow> Some s
     | Some a \<Rightarrow> (case cells s a of None \<Rightarrow> None | Some _ \<Rightarrow> Some (s\<lparr>cells := (cells s)(a := None)\<rparr>)))"

definition free_content :: "'c lstore \<Rightarrow> 'c \<Rightarrow> 'c lstore" where
  "free_content s c = s\<lparr>freed := c # freed s\<rparr>"

text \<open>
  \<open>malloc(sizeof(ListElement))\<close> yields the pointer given as an argument; all three fields are
  written before they are read, so their initial values do not matter.
\<close>

definition malloc_el :: "'c lstore \<Rightarrow> ptr \<Rightarrow> 'c \<Rightarrow> 'c lstore" where
  "malloc_el s p c = (case p of None \<Rightarrow> s
     | Some a \<Rightarrow> s\<lparr>cells := (cells s)(a \<mapsto> \<lparr>el_prev = None, el_next = None, el_content = c\<rparr>)\<rparr>)"

definition ListZero :: List where
  "ListZero = \<lparr>l_first = None, l_last = None, l_current = None, l_count = 0, l_size = 0\<rparr>"

definition ListInitialize :: List where
  "ListInitialize = ListZero"

definition ListAppendNoMalloc ::
    "'c lstore \<Rightarrow> List \<Rightarrow> 'c \<Rightarrow> ptr \<Rightarrow> nat \<Rightarrow> ('c lstore \<times> List) option" where
  "ListAppendNoMalloc s l content newel sz = do {
     s \<leftarrow> upd_el (\<lambda>e. e\<lparr>el_content := content, el_next := None, el_prev := l_last l\<rparr>) s newel;
     (s, l) \<leftarrow> (if l_first l = None then Some (s, l\<lparr>l_first := newel\<rparr>)
               else do { s \<leftarrow> set_next s (l_last l) newel; Some (s, l) });
     Some (s, l\<lparr>l_last := newel, l_count := l_count l + 1, l_size := l_size l + sz\<rparr>)
   }"

definition ListAppend ::
    "'c lstore \<Rightarrow> List \<Rightarrow> 'c \<Rightarrow> nat \<Rightarrow> ptr \<Rightarrow> ('c lstore \<times> List) option" where
  "ListAppend s l content sz newel =
     ListAppendNoMalloc (malloc_el s newel content) l content newel sz"

definition ListInsert ::
    "'c lstore \<Rightarrow> List \<Rightarrow> 'c \<Rightarrow> nat \<Rightarrow> ptr \<Rightarrow> ptr \<Rightarrow> ('c lstore \<times> List) option" where
  "ListInsert s l content sz index newel =
     (let s = malloc_el s newel content in
      if index = None then ListAppendNoMalloc s l content newel sz
      else do {
        ie \<leftarrow> get_el s index;
        s \<leftarrow> upd_el (\<lambda>e. e\<lparr>el_content := content, el_next := index, el_prev := el_prev ie\<rparr>) s newel;
        s \<leftarrow> set_prev s index newel;
        ne \<leftarrow> get_el s newel;
        (s, l) \<leftarrow> (if el_prev ne \<noteq> None then do { s \<leftarrow> set_next s (el_prev ne) newel; Some (s, l) }
                  else Some (s, l\<lparr>l_first := newel\<rparr>));
        Some (s, l\<lparr>l_count := l_count l + 1, l_size := l_size l + sz\<rparr>)
      })"

definition ListNextElement :: "'c lstore \<Rightarrow> List \<Rightarrow> ptr \<Rightarrow> ptr option" where
  "ListNextElement s l pos =
     (if pos = None then Some (l_first l) else do { e \<leftarrow> get_el s pos; Some (el_next e) })"

definition ListPrevElement :: "'c lstore \<Rightarrow> List \<Rightarrow> ptr \<Rightarrow> ptr option" where
  "ListPrevElement s l pos =
     (if pos = None then Some (l_last l) else do { e \<leftarrow> get_el s pos; Some (el_prev e) })"

text \<open>
  The comparison of \<open>ListFindItem\<close>: by content pointer when the callback is \<open>NULL\<close>.
\<close>

definition list_match :: "('c \<Rightarrow> 'c \<Rightarrow> bool) option \<Rightarrow> 'c \<Rightarrow> 'c \<Rightarrow> bool" where
  "list_match callback content x = (case callback of None \<Rightarrow> x = content | Some f \<Rightarrow> f x content)"

text \<open>The search loop of \<open>ListFindItem\<close>; \<open>pos\<close> is its local variable \<open>current\<close>.\<close>

partial_function (option) find_loop :: "('c \<Rightarrow> bool) \<Rightarrow> 'c lstore \<Rightarrow> List \<Rightarrow> ptr \<Rightarrow> ptr option" where
  "find_loop P s l pos =
     Option.bind (ListNextElement s l pos) (\<lambda>pos'.
       if pos' = None then Some None
       else Option.bind (get_el s pos') (\<lambda>e.
         if P (el_content e) then Some pos' else find_loop P s l pos'))"

definition ListFindItem ::
    "'c lstore \<Rightarrow> List \<Rightarrow> 'c \<Rightarrow> ('c \<Rightarrow> 'c \<Rightarrow> bool) option \<Rightarrow> (ptr \<times> List) option" where
  "ListFindItem s l content callback = do {
     hit \<leftarrow> (if l_current l = None then Some False
             else do { e \<leftarrow> get_el s (l_current l); Some (list_match callback content (el_content e)) });
     if hit then Some (l_current l, l)
     else do {
       rc \<leftarrow> find_loop (list_match callback content) s l None;
       Some (rc, if rc \<noteq> None then l\<lparr>l_current := rc\<rparr> else l)
     }
   }"

definition ListFind :: "'c lstore \<Rightarrow> List \<Rightarrow> 'c \<Rightarrow> (ptr \<times> List) option" where
  "ListFind s l content = ListFindItem s l content None"

definition ListUnlink ::
    "'c lstore \<Rightarrow> List \<Rightarrow> 'c \<Rightarrow> ('c \<Rightarrow> 'c \<Rightarrow> bool) option \<Rightarrow> bool \<Rightarrow> (int \<times> 'c lstore \<times> List) option" where
  "ListUnlink s l content callback freeContent = do {
     let saved = l_current l;
     (found, l) \<leftarrow> ListFindItem s l content callback;
     if found = None then Some (0, s, l)
     else do {
       cur \<leftarrow> get_el s (l_current l);
       (s, l) \<leftarrow> (if el_prev cur = None then Some (s, l\<lparr>l_first := el_next cur\<rparr>)
                 else do { s \<leftarrow> set_next s (el_prev cur) (el_next cur); Some (s, l) });
       cur \<leftarrow> get_el s (l_current l);
       (s, l) \<leftarrow> (if el_next cur = None then Some (s, l\<lparr>l_last := el_prev cur\<rparr>)
                 else do { s \<leftarrow> set_prev s (el_next cur) (el_prev cur); Some (s, l) });
       cur \<leftarrow> get_el s (l_current l);
       let next = el_next cur;
       let s = (if freeContent then free_content s (el_content cur) else s);
       let saveddeleted = (saved = l_current l);
       s \<leftarrow> free_el s (l_current l);
       let l = (if saveddeleted then l\<lparr>l_current := next\<rparr> else l\<lparr>l_current := saved\<rparr>);
       Some (1, s, l\<lparr>l_count := l_count l - 1\<rparr>)
     }
   }"

definition ListDetach :: "'c lstore \<Rightarrow> List \<Rightarrow> 'c \<Rightarrow> (int \<times> 'c lstore \<times> List) option" where
  "ListDetach s l content = ListUnlink s l content None False"

definition ListRemove :: "'c lstore \<Rightarrow> List \<Rightarrow> 'c \<Rightarrow> (int \<times> 'c lstore \<times> List) option" where
  "ListRemove s l content = ListUnlink s l content None True"

definition ListDetachItem ::
    "'c lstore \<Rightarrow> List \<Rightarrow> 'c \<Rightarrow> ('c \<Rightarrow> 'c \<Rightarrow> bool) \<Rightarrow> (int \<times> 'c lstore \<times> List) option" where
  "ListDetachItem s l content callback = ListUnlink s l content (Some callback) False"

definition ListRemoveItem ::
    "'c lstore \<Rightarrow> List \<Rightarrow> 'c \<Rightarrow> ('c \<Rightarrow> 'c \<Rightarrow> bool) \<Rightarrow> (int \<times> 'c lstore \<times> List) option" where
  "ListRemoveItem s l content callback = ListUnlink s l content (Some callback) True"

text \<open>\<open>ListDetachHead\<close> and \<open>ListPopTail\<close> return the content, or \<open>NULL\<close> for an empty list.\<close>

definition ListDetachHead :: "'c lstore \<Rightarrow> List \<Rightarrow> ('c option \<times> 'c lstore \<times> List) option" where
  "ListDetachHead s l =
     (if l_count l > 0 then do {
        let first = l_first l;
        fe \<leftarrow> get_el s first;
        let l = (if l_current l = first then l\<lparr>l_current := el_next fe\<rparr> else l);
        let l = (if l_last l = first then l\<lparr>l_last := None\<rparr> else l);
        let content = el_content fe;
        let l = l\<lparr>l_first := el_next fe\<rparr>;
        s \<leftarrow> (if l_first l \<noteq> None then set_prev s (l_first l) None else Some s);
        s \<leftarrow> free_el s first;
        Some (Some content, s, l\<lparr>l_count := l_count l - 1\<rparr>)
      }
      else Some (None, s, l))"

definition ListRemoveHead :: "'c lstore \<Rightarrow> List \<Rightarrow> (int \<times> 'c lstore \<times> List) option" where
  "ListRemoveHead s l = do {
     (c, s, l) \<leftarrow> ListDetachHead s l;
     Some (0, (case c of None \<Rightarrow> s | Some c \<Rightarrow> free_content s c), l)
   }"

definition ListPopTail :: "'c lstore \<Rightarrow> List \<Rightarrow> ('c option \<times> 'c lstore \<times> List) option" where
  "ListPopTail s l =
     (if l_count l > 0 then do {
        let lastel = l_last l;
        le \<leftarrow> get_el s lastel;
        let l = (if l_current l = lastel then l\<lparr>l_current := el_prev le\<rparr> else l);
        let l = (if l_first l = lastel then l\<lparr>l_first := None\<rparr> else l);
        let content = el_content le;
        let l = l\<lparr>l_last := el_prev le\<rparr>;
        s \<leftarrow> (if l_last l \<noteq> None then set_next s (l_last l) None else Some s);
        s \<leftarrow> free_el s lastel;
        Some (Some content, s, l\<lparr>l_count := l_count l - 1\<rparr>)
      }
      else Some (None, s, l))"

text \<open>
  The loops of \<open>ListEmpty\<close> and \<open>ListFreeNoContent\<close>; \<open>isnull\<close> tells a \<open>NULL\<close> content, which
  \<open>ListEmpty\<close> does not pass to \<open>free\<close>.
\<close>

partial_function (option) empty_loop ::
    "('c \<Rightarrow> bool) \<Rightarrow> bool \<Rightarrow> 'c lstore \<Rightarrow> List \<Rightarrow> ('c lstore \<times> List) option" where
  "empty_loop isnull freeContent s l =
     (if l_first l = None then Some (s, l)
      else Option.bind (get_el s (l_first l)) (\<lambda>fe.
        Option.bind (free_el (if freeContent \<and> \<not> isnull (el_content fe)
                              then free_content s (el_content fe) else s) (l_first l)) (\<lambda>s.
          empty_loop isnull freeContent s (l\<lparr>l_first := el_next fe\<rparr>))))"

definition ListEmpty :: "('c \<Rightarrow> bool) \<Rightarrow> 'c lstore \<Rightarrow> List \<Rightarrow> ('c lstore \<times> List) option" where
  "ListEmpty isnull s l = do {
     (s, l) \<leftarrow> empty_loop isnull True s l;
     Some (s, l\<lparr>l_count := 0, l_size := 0, l_current := None, l_first := None, l_last := None\<rparr>)
   }"

definition ListFree :: "('c \<Rightarrow> bool) \<Rightarrow> 'c lstore \<Rightarrow> List \<Rightarrow> 'c lstore option" where
  "ListFree isnull s l = do { (s, l) \<leftarrow> ListEmpty isnull s l; Some s }"

definition ListFreeNoContent :: "'c lstore \<Rightarrow> List \<Rightarrow> 'c lstore option" where
  "ListFreeNoContent s l = do { (s, l) \<leftarrow> empty_loop (\<lambda>_. False) False s l; Some s }"

text \<open>
  The comparison callbacks of the file; the store of the pointed-to objects is an argument.
\<close>

definition intcompare :: "('p \<Rightarrow> int) \<Rightarrow> 'p \<Rightarrow> 'p \<Rightarrow> bool" where
  "intcompare deref a b \<longleftrightarrow> deref a = deref b"

definition stringcompare :: "('p \<Rightarrow> string) \<Rightarrow> 'p \<Rightarrow> 'p \<Rightarrow> bool" where
  "stringcompare deref a b \<longleftrightarrow> deref a = deref b"


section \<open>The abstract list with a cursor\<close>

text \<open>
  What a list promises its callers: a sequence of contents and an optional position in it, the
  \<open>current\<close> element that \<open>ListFindItem\<close> tries first.
\<close>

record 'c clist =
  elems :: "'c list"
  cursor :: "nat option"

definition clist_empty :: "'c clist" where
  "clist_empty = \<lparr>elems = [], cursor = None\<rparr>"

definition clist_append :: "'c \<Rightarrow> 'c clist \<Rightarrow> 'c clist" where
  "clist_append c q = q\<lparr>elems := elems q @ [c]\<rparr>"

definition clist_insert :: "nat \<Rightarrow> 'c \<Rightarrow> 'c clist \<Rightarrow> 'c clist" where
  "clist_insert i c q = \<lparr>elems = take i (elems q) @ c # drop i (elems q),
     cursor = map_option (\<lambda>j. if i \<le> j then Suc j else j) (cursor q)\<rparr>"

definition clist_find :: "('c \<Rightarrow> bool) \<Rightarrow> 'c clist \<Rightarrow> nat option" where
  "clist_find P q = (case cursor q of
       Some i \<Rightarrow> if P (elems q ! i) then Some i else find_index P (elems q)
     | None \<Rightarrow> find_index P (elems q))"

definition clist_seek :: "('c \<Rightarrow> bool) \<Rightarrow> 'c clist \<Rightarrow> 'c clist" where
  "clist_seek P q = (case clist_find P q of None \<Rightarrow> q | Some i \<Rightarrow> q\<lparr>cursor := Some i\<rparr>)"

definition cursor_after_remove :: "nat \<Rightarrow> nat \<Rightarrow> nat option \<Rightarrow> nat option" where
  "cursor_after_remove i n cur = (case cur of None \<Rightarrow> None
     | Some j \<Rightarrow> if j = i then (if Suc i < n then Some i else None)
                else if i < j then Some (j - 1) else Some j)"

definition clist_unlink :: "('c \<Rightarrow> bool) \<Rightarrow> 'c clist \<Rightarrow> 'c clist" where
  "clist_unlink P q = (case clist_find P q of None \<Rightarrow> q
     | Some i \<Rightarrow> \<lparr>elems = remove_nth i (elems q),
                  cursor = cursor_after_remove i (length (elems q)) (cursor q)\<rparr>)"

definition clist_detach_head :: "'c clist \<Rightarrow> 'c clist" where
  "clist_detach_head q = (if elems q = [] then q
     else \<lparr>elems = tl (elems q), cursor = cursor_after_remove 0 (length (elems q)) (cursor q)\<rparr>)"

definition clist_pop_tail :: "'c clist \<Rightarrow> 'c clist" where
  "clist_pop_tail q = (if elems q = [] then q
     else \<lparr>elems = butlast (elems q),
           cursor = (if cursor q = Some (length (elems q) - 1)
                     then (if length (elems q) = 1 then None else Some (length (elems q) - 2))
                     else cursor q)\<rparr>)"

section \<open>The cursor of an abstract list\<close>

definition cursor_in :: "'a clist \<Rightarrow> bool" where
  "cursor_in q \<longleftrightarrow> (case cursor q of None \<Rightarrow> True | Some i \<Rightarrow> i < length (elems q))"

lemma clist_find_None: "cursor_in q \<Longrightarrow> clist_find P q = None \<longleftrightarrow> (\<forall>x\<in>set (elems q). \<not> P x)"
  by (auto simp: cursor_in_def clist_find_def find_index_None_iff split: option.splits)

lemma cursor_in_seek: "cursor_in q \<Longrightarrow> cursor_in (clist_seek P q)"
  by (auto simp: cursor_in_def clist_seek_def clist_find_def split: option.splits if_splits
      dest: find_index_SomeD)

lemma elems_seek [simp]: "elems (clist_seek P q) = elems q"
  by (auto simp: clist_seek_def split: option.splits)

lemma cursor_in_unlink: "cursor_in q \<Longrightarrow> cursor_in (clist_unlink P q)"
  by (auto simp: cursor_in_def clist_unlink_def cursor_after_remove_def clist_find_def remove_nth_def
      split: option.splits if_splits dest!: find_index_SomeD)

lemma find_elem:
  assumes "distinct (elems q)" "cursor_in q"
  shows "clist_find (\<lambda>x. x = a) q = None \<longleftrightarrow> a \<notin> set (elems q)"
    and "clist_find (\<lambda>x. x = a) q = Some i \<longleftrightarrow> i < length (elems q) \<and> elems q ! i = a"
proof -
  have un: "find_index (\<lambda>x. x = a) (elems q) = Some i" if "i < length (elems q)" "elems q ! i = a" for i
    by (rule find_index_unique) (use that assms(1) nth_eq_iff_index_eq in auto)
  show "clist_find (\<lambda>x. x = a) q = None \<longleftrightarrow> a \<notin> set (elems q)"
    using assms(2) by (auto simp: clist_find_def cursor_in_def find_index_None_iff split: option.splits)
  show "clist_find (\<lambda>x. x = a) q = Some i \<longleftrightarrow> i < length (elems q) \<and> elems q ! i = a"
    using assms un [of i] nth_eq_iff_index_eq [OF assms(1)]
    by (auto simp: clist_find_def cursor_in_def split: option.splits dest!: find_index_SomeD)
qed

lemma unlink_elem:
  assumes "distinct (elems q)" "cursor_in q"
  shows "set (elems (clist_unlink (\<lambda>x. x = a) q)) = set (elems q) - {a}"
    and "distinct (elems (clist_unlink (\<lambda>x. x = a) q))"
    and "i < length (elems q) \<Longrightarrow> elems q ! i = a \<Longrightarrow> elems (clist_unlink (\<lambda>x. x = a) q) = remove_nth i (elems q)"
proof -
  show rem: "elems (clist_unlink (\<lambda>x. x = a) q) = remove_nth i (elems q)"
    if "i < length (elems q)" "elems q ! i = a" for i
    using find_elem(2) [OF assms, of a i] that by (simp add: clist_unlink_def)
  show "set (elems (clist_unlink (\<lambda>x. x = a) q)) = set (elems q) - {a}"
  proof (cases "a \<in> set (elems q)")
    case True
    then obtain i where i: "i < length (elems q)" "elems q ! i = a" by (auto simp: in_set_conv_nth)
    with rem [OF i] set_remove_nth [OF assms(1) i(1)] show ?thesis by simp
  next
    case False
    with find_elem(1) [OF assms, of a] show ?thesis by (simp add: clist_unlink_def)
  qed
  show "distinct (elems (clist_unlink (\<lambda>x. x = a) q))"
    using assms(1) by (simp add: clist_unlink_def distinct_remove_nth split: option.splits)
qed

section \<open>The store represents a sequence of elements\<close>

text \<open>
  \<open>dseg h p as n\<close>: the elements at \<open>as\<close> are linked both ways, the first one's \<open>prev\<close> being
  \<open>p\<close> and the last one's \<open>next\<close> being \<open>n\<close>.
\<close>

fun dseg :: "(addr \<Rightarrow> 'c ListElement option) \<Rightarrow> ptr \<Rightarrow> addr list \<Rightarrow> ptr \<Rightarrow> bool" where
  "dseg h p [] n = True"
| "dseg h p (a # as) n =
     ((\<exists>e. h a = Some e \<and> el_prev e = p \<and> el_next e = hd_opt as n) \<and> dseg h (Some a) as n)"

definition list_rep :: "'c lstore \<Rightarrow> List \<Rightarrow> addr list \<Rightarrow> bool" where
  "list_rep s l as \<longleftrightarrow> dseg (cells s) None as None \<and> distinct as \<and>
     l_first l = hd_opt as None \<and> l_last l = last_opt as None \<and> l_count l = int (length as) \<and>
     (case l_current l of None \<Rightarrow> True | Some a \<Rightarrow> a \<in> set as)"

definition contents :: "(addr \<Rightarrow> 'c ListElement option) \<Rightarrow> addr list \<Rightarrow> 'c list" where
  "contents h as = map (\<lambda>a. el_content (the (h a))) as"

definition abs_list :: "'c lstore \<Rightarrow> List \<Rightarrow> addr list \<Rightarrow> 'c clist" where
  "abs_list s l as = \<lparr>elems = contents (cells s) as,
     cursor = Option.bind (l_current l) (\<lambda>a. find_index ((=) a) as)\<rparr>"

text \<open>The elements outside a list, which an operation on it must not touch.\<close>

definition same_outside :: "addr set \<Rightarrow> 'c lstore \<Rightarrow> 'c lstore \<Rightarrow> bool" where
  "same_outside A s s' \<longleftrightarrow> (\<forall>b. b \<notin> A \<longrightarrow> cells s' b = cells s b)"

lemmas store_defs = get_el_def upd_el_def set_next_def set_prev_def free_el_def malloc_el_def
  free_content_def

lemma dseg_append:
  "dseg h p (as @ bs) n \<longleftrightarrow> dseg h p as (hd_opt bs n) \<and> dseg h (last_opt as p) bs n"
  by (induction as arbitrary: p) auto

lemma dseg_frame [simp]: "a \<notin> set as \<Longrightarrow> dseg (h(a := v)) p as n = dseg h p as n"
  by (induction as arbitrary: p) auto

lemma dseg_live: "dseg h p as n \<Longrightarrow> a \<in> set as \<Longrightarrow> \<exists>e. h a = Some e"
  by (induction as arbitrary: p) auto

lemma dseg_cong: "(\<And>a. a \<in> set as \<Longrightarrow> h' a = h a) \<Longrightarrow> dseg h' p as n = dseg h p as n"
  by (induction as arbitrary: p) auto

lemma contents_simps [simp]:
  "contents h [] = []"
  "contents h (a # as) = el_content (the (h a)) # contents h as"
  "contents h (as @ bs) = contents h as @ contents h bs"
  "length (contents h as) = length as"
  by (simp_all add: contents_def)

lemma contents_upd [simp]: "a \<notin> set as \<Longrightarrow> contents (h(a := v)) as = contents h as"
  by (auto simp: contents_def)

lemma nth_contents [simp]: "i < length as \<Longrightarrow> contents h as ! i = el_content (the (h (as ! i)))"
  by (simp add: contents_def)

lemma list_rep_ListZero: "list_rep s ListZero []"
  by (simp add: list_rep_def ListZero_def)

text \<open>
  A list is untouched by an operation that stays outside its elements: how two lists share the
  store.
\<close>

lemma list_rep_same_outside:
  assumes "list_rep s l as" "same_outside A s s'" "set as \<inter> A = {}"
  shows "list_rep s' l as \<and> abs_list s' l as = abs_list s l as"
proof -
  have eq: "cells s' a = cells s a" if "a \<in> set as" for a
    using assms that by (auto simp: same_outside_def)
  then have "contents (cells s') as = contents (cells s) as" by (simp add: contents_def)
  moreover have "dseg (cells s') None as None = dseg (cells s) None as None"
    using eq by (rule dseg_cong)
  ultimately show ?thesis using assms by (simp add: list_rep_def abs_list_def)
qed

section \<open>Appending and inserting\<close>

lemma ListAppend_correct:
  assumes rep: "list_rep s l as" and fresh: "cells s a = None"
  shows "\<exists>s' l'. ListAppend s l c sz (Some a) = Some (s', l') \<and> list_rep s' l' (as @ [a]) \<and>
     abs_list s' l' (as @ [a]) = clist_append c (abs_list s l as) \<and>
     l_size l' = l_size l + sz \<and> freed s' = freed s \<and> same_outside (insert a (set as)) s s'"
proof -
  from rep fresh have anew: "a \<notin> set as"
    by (auto simp: list_rep_def dest: dseg_live)
  show ?thesis
  proof (cases as rule: rev_cases)
    case Nil
    with rep show ?thesis
      by (auto simp: ListAppend_def ListAppendNoMalloc_def store_defs list_rep_def abs_list_def
          clist_append_def same_outside_def split: option.splits)
  next
    case (snoc bs z)
    with rep obtain e where e: "cells s z = Some e" "el_prev e = last_opt bs None" "el_next e = None"
      and seg: "dseg (cells s) None bs (Some z)" "distinct bs" "z \<notin> set bs"
      by (auto simp: list_rep_def dseg_append)
    with rep snoc anew show ?thesis
      by (auto simp: ListAppend_def ListAppendNoMalloc_def store_defs list_rep_def abs_list_def
          clist_append_def same_outside_def dseg_append find_index_append
          split: option.splits)
  qed
qed

text \<open>Inserting before the element \<open>i\<close> puts the new one at its position.\<close>

lemma find_index_insert:
  "x \<noteq> a \<Longrightarrow> find_index ((=) x) (bs @ a # ds) =
     map_option (\<lambda>j. if length bs \<le> j then Suc j else j) (find_index ((=) x) (bs @ ds))"
proof (induction bs)
  case Nil
  then show ?case by (cases "find_index ((=) x) ds") auto
next
  case (Cons b bs)
  then show ?case by (cases "find_index ((=) x) (bs @ ds)") auto
qed

lemma ListInsert_correct:
  assumes rep: "list_rep s l (bs @ i # ds)" and fresh: "cells s a = None"
  shows "\<exists>s' l'. ListInsert s l c sz (Some i) (Some a) = Some (s', l') \<and>
     list_rep s' l' (bs @ a # i # ds) \<and>
     abs_list s' l' (bs @ a # i # ds) = clist_insert (length bs) c (abs_list s l (bs @ i # ds)) \<and>
     l_size l' = l_size l + sz \<and> freed s' = freed s \<and>
     same_outside (insert a (set (bs @ i # ds))) s s'"
proof -
  from rep fresh have anew: "a \<notin> set bs" "a \<noteq> i" "a \<notin> set ds"
    by (auto simp: list_rep_def dest: dseg_live)
  from rep obtain e where e: "cells s i = Some e" "el_prev e = last_opt bs None"
      "el_next e = hd_opt ds None"
    and seg: "dseg (cells s) None bs (Some i)" "dseg (cells s) (Some i) ds None"
      "distinct bs" "distinct ds" "i \<notin> set bs" "i \<notin> set ds" "set bs \<inter> set ds = {}"
    by (auto simp: list_rep_def dseg_append)
  have ne: "l_current l \<noteq> Some a"
    using rep anew by (auto simp: list_rep_def)
  have cur: "Option.bind (l_current l) (\<lambda>x. find_index ((=) x) (bs @ a # i # ds)) =
      map_option (\<lambda>j. if length bs \<le> j then Suc j else j)
        (Option.bind (l_current l) (\<lambda>x. find_index ((=) x) (bs @ i # ds)))"
    using ne by (cases "l_current l") (simp_all add: find_index_insert)
  show ?thesis
  proof (cases bs rule: rev_cases)
    case Nil
    with rep e seg anew cur show ?thesis
      by (auto simp: ListInsert_def Let_def store_defs list_rep_def abs_list_def clist_insert_def
          same_outside_def split: option.splits)
  next
    case (snoc bs' z)
    with seg obtain ez where "cells s z = Some ez" "el_prev ez = last_opt bs' None"
        "el_next ez = Some i" "dseg (cells s) None bs' (Some z)"
      by (auto simp: dseg_append)
    with snoc rep e seg anew cur show ?thesis
      by (auto simp: ListInsert_def Let_def store_defs list_rep_def abs_list_def clist_insert_def
          same_outside_def dseg_append split: option.splits)
  qed
qed

section \<open>Iteration and search\<close>

text \<open>One step of \<open>ListNextElement\<close> and \<open>ListPrevElement\<close> at any point of the list.\<close>

lemma ListNextElement_step:
  assumes "dseg (cells s) None (bs @ ds) None" "l_first l = hd_opt (bs @ ds) None"
  shows "ListNextElement s l (last_opt bs None) = Some (hd_opt ds None)"
  using assms
  by (cases bs rule: rev_cases) (auto simp: ListNextElement_def get_el_def dseg_append)

lemma ListPrevElement_step:
  assumes "dseg (cells s) None (bs @ ds) None" "l_last l = last_opt (bs @ ds) None"
  shows "ListPrevElement s l (hd_opt ds None) = Some (last_opt bs None)"
  using assms by (cases ds) (auto simp: ListPrevElement_def get_el_def dseg_append)

lemma find_loop_from:
  assumes "dseg (cells s) None (bs @ ds) None" "l_first l = hd_opt (bs @ ds) None"
  shows "find_loop P s l (last_opt bs None) =
     Some (map_option (\<lambda>i. ds ! i) (find_index P (contents (cells s) ds)))"
  using assms
proof (induction ds arbitrary: bs)
  case Nil
  then have "ListNextElement s l (last_opt bs None) = Some None"
    using ListNextElement_step [of s bs "[]" l] by simp
  then show ?case by (simp add: find_loop.simps)
next
  case (Cons d ds)
  then have nxt: "ListNextElement s l (last_opt bs None) = Some (Some d)"
    using ListNextElement_step [of s bs "d # ds" l] by simp
  from Cons.prems obtain e where e: "cells s d = Some e"
    by (auto simp: dseg_append)
  have IH: "find_loop P s l (Some d) =
      Some (map_option (\<lambda>i. ds ! i) (find_index P (contents (cells s) ds)))"
    using Cons.IH [of "bs @ [d]"] Cons.prems by simp
  show ?case
    using nxt e IH
    by (cases "find_index P (contents (cells s) ds)")
       (simp_all add: find_loop.simps [of P s l "last_opt bs None"] get_el_def)
qed

lemma find_loop_correct:
  "list_rep s l as \<Longrightarrow> find_loop P s l None =
     Some (map_option (\<lambda>i. as ! i) (find_index P (contents (cells s) as)))"
  using find_loop_from [of s "[]" as l P] by (simp add: list_rep_def)

lemma find_index_nth:
  "distinct as \<Longrightarrow> i < length as \<Longrightarrow> find_index ((=) (as ! i)) as = Some i"
  by (rule find_index_unique) (auto simp: nth_eq_iff_index_eq)

lemma find_index_in: "a \<in> set as \<Longrightarrow> \<exists>i. find_index ((=) a) as = Some i \<and> i < length as \<and> as ! i = a"
  by (cases "find_index ((=) a) as") (auto simp: find_index_None_iff dest: find_index_SomeD)

text \<open>
  \<open>ListFindItem\<close> returns the current element if it matches, else the first match, and moves the
  cursor to what it found.
\<close>

lemma cursor_abs_list:
  assumes "list_rep s l as"
  shows "cursor (abs_list s l as) = Some i \<longleftrightarrow> i < length as \<and> l_current l = Some (as ! i)"
  using assms find_index_nth [of as i]
  by (cases "l_current l") (auto simp: abs_list_def list_rep_def dest: find_index_SomeD)

lemma cursor_abs_list_None:
  assumes "list_rep s l as"
  shows "cursor (abs_list s l as) = None \<longleftrightarrow> l_current l = None"
  using assms find_index_in
  by (cases "l_current l") (fastforce simp: abs_list_def list_rep_def)+

lemma clist_find_bound:
  assumes "list_rep s l as" "clist_find P (abs_list s l as) = Some i"
  shows "i < length as"
  using assms cursor_abs_list [OF assms(1)] find_index_SomeD [of P "contents (cells s) as" i]
  by (auto simp: clist_find_def abs_list_def split: option.splits if_splits)

lemma clist_find_None_iff:
  assumes "list_rep s l as"
  shows "clist_find P (abs_list s l as) = None \<longleftrightarrow> (\<forall>x\<in>set (elems (abs_list s l as)). \<not> P x)"
proof (cases "cursor (abs_list s l as)")
  case None
  then show ?thesis by (simp add: clist_find_def find_index_None_iff)
next
  case (Some i)
  with cursor_abs_list [OF assms] have "i < length (elems (abs_list s l as))"
    by (simp add: abs_list_def)
  then have "elems (abs_list s l as) ! i \<in> set (elems (abs_list s l as))" by (rule nth_mem)
  with Some show ?thesis by (auto simp: clist_find_def find_index_None_iff)
qed

lemma ListFindItem_eq:
  fixes s :: "'c lstore"
  assumes rep: "list_rep s l as"
    and rc_def: "rc = map_option (\<lambda>i. as ! i) (clist_find (list_match cb c) (abs_list s l as))"
  shows "ListFindItem s l c cb = Some (rc, if rc = None then l else l\<lparr>l_current := rc\<rparr>)"
proof -
  let ?P = "list_match cb c"
  have loop: "find_loop ?P s l None =
      Some (map_option (\<lambda>i. as ! i) (find_index ?P (contents (cells s) as)))"
    using rep by (rule find_loop_correct)
  show ?thesis
  proof (cases "cursor (abs_list s l as)")
    case None
    with cursor_abs_list_None [OF rep] loop show ?thesis
      by (simp add: ListFindItem_def rc_def clist_find_def abs_list_def)
  next
    case (Some i)
    with cursor_abs_list [OF rep] have i: "i < length as" "l_current l = Some (as ! i)" by auto
    with rep obtain e where e: "cells s (as ! i) = Some e"
      using dseg_live [of "cells s" None as None "as ! i"] by (auto simp: list_rep_def)
    have same: "l\<lparr>l_current := Some (as ! i)\<rparr> = l" using i by (cases l) simp
    show ?thesis
    proof (cases "?P (el_content e)")
      case True
      with Some i e same show ?thesis
        by (simp add: ListFindItem_def rc_def clist_find_def get_el_def abs_list_def)
    next
      case False
      with Some i e loop show ?thesis
        by (simp add: ListFindItem_def rc_def clist_find_def get_el_def abs_list_def)
    qed
  qed
qed

lemma ListFindItem_correct:
  assumes rep: "list_rep s l as"
  shows "\<exists>rc l'. ListFindItem s l c cb = Some (rc, l') \<and> list_rep s l' as \<and>
     rc = map_option (\<lambda>i. as ! i) (clist_find (list_match cb c) (abs_list s l as)) \<and>
     l' = (if rc = None then l else l\<lparr>l_current := rc\<rparr>) \<and>
     abs_list s l' as = clist_seek (list_match cb c) (abs_list s l as)"
proof (cases "clist_find (list_match cb c) (abs_list s l as)")
  case None
  with rep ListFindItem_eq [OF rep refl, of c cb] show ?thesis by (simp add: clist_seek_def)
next
  case (Some i)
  with rep have "i < length as" by (rule clist_find_bound)
  with rep Some ListFindItem_eq [OF rep refl, of c cb] show ?thesis
    by (simp add: clist_seek_def list_rep_def abs_list_def find_index_nth)
qed

section \<open>Removing\<close>

text \<open>Where a remaining element stands after the removal of one position.\<close>

lemma find_index_remove:
  assumes "distinct (bs @ a # ds)" "x \<noteq> a"
  shows "find_index ((=) x) (bs @ ds) =
     map_option (\<lambda>j. if length bs < j then j - 1 else j) (find_index ((=) x) (bs @ a # ds))"
proof -
  have "j \<noteq> length bs" if "find_index ((=) x) (bs @ a # ds) = Some j" for j
    using find_index_SomeD [OF that] assms(2) by auto
  moreover have "find_index ((=) x) (bs @ a # ds) =
      map_option (\<lambda>j. if length bs \<le> j then Suc j else j) (find_index ((=) x) (bs @ ds))"
    using assms by (rule_tac find_index_insert) simp
  ultimately show ?thesis by (cases "find_index ((=) x) (bs @ ds)") auto
qed

lemma cursor_remove:
  assumes "distinct (bs @ a # ds)" "case cur of None \<Rightarrow> True | Some x \<Rightarrow> x \<in> set (bs @ a # ds)"
  shows "Option.bind (if cur = Some a then hd_opt ds None else cur) (\<lambda>x. find_index ((=) x) (bs @ ds)) =
    cursor_after_remove (length bs) (length (bs @ a # ds))
      (Option.bind cur (\<lambda>x. find_index ((=) x) (bs @ a # ds)))"
proof (cases cur)
  case None
  then show ?thesis by (simp add: cursor_after_remove_def)
next
  case (Some x)
  show ?thesis
  proof (cases "x = a")
    case True
    with assms have "find_index ((=) a) bs = None" by (auto simp: find_index_None_iff)
    moreover have "find_index ((=) d) bs = None" if "ds = d # ds'" for d ds'
      using that assms by (auto simp: find_index_None_iff)
    ultimately show ?thesis using Some True
      by (cases ds) (auto simp: cursor_after_remove_def find_index_append)
  next
    case False
    with Some assms obtain j where j: "find_index ((=) x) (bs @ a # ds) = Some j"
      using find_index_in [of x "bs @ a # ds"] by auto
    moreover from find_index_SomeD [OF j] False have "j \<noteq> length bs" by auto
    moreover have "find_index ((=) x) (bs @ ds) = Some (if length bs < j then j - 1 else j)"
      using find_index_remove [OF assms(1) False] j by simp
    ultimately show ?thesis using Some False by (simp add: cursor_after_remove_def)
  qed
qed

lemma ListUnlink_found:
  assumes rep: "list_rep s l (bs @ a # ds)"
    and find: "ListFindItem s l c cb = Some (Some a, l\<lparr>l_current := Some a\<rparr>)"
    and e: "cells s a = Some e"
  shows "\<exists>s' l'. ListUnlink s l c cb fr = Some (1, s', l') \<and> list_rep s' l' (bs @ ds) \<and>
     abs_list s' l' (bs @ ds) = \<lparr>elems = contents (cells s) (bs @ ds),
       cursor = cursor_after_remove (length bs) (length (bs @ a # ds)) (cursor (abs_list s l (bs @ a # ds)))\<rparr> \<and>
     l_size l' = l_size l \<and> freed s' = (if fr then el_content e # freed s else freed s) \<and>
     cells s' a = None \<and> same_outside (set (bs @ a # ds)) s s'"
proof -
  let ?cur = "if l_current l = Some a then hd_opt ds None else l_current l"
  from rep e have p: "el_prev e = last_opt bs None" "el_next e = hd_opt ds None"
    and seg: "dseg (cells s) None bs (Some a)" "dseg (cells s) (Some a) ds None"
      "distinct bs" "distinct ds" "a \<notin> set bs" "a \<notin> set ds" "set bs \<inter> set ds = {}"
    by (auto simp: list_rep_def dseg_append)
  have cur: "Option.bind ?cur (\<lambda>x. find_index ((=) x) (bs @ ds)) =
      cursor_after_remove (length bs) (length (bs @ a # ds)) (cursor (abs_list s l (bs @ a # ds)))"
    using cursor_remove [of bs a ds "l_current l"] rep by (simp add: list_rep_def abs_list_def)
  have cin: "case ?cur of None \<Rightarrow> True | Some x \<Rightarrow> x \<in> set (bs @ ds)"
    using rep by (cases ds; cases "l_current l") (auto simp: list_rep_def)
  have fin: "\<exists>s' l'. ListUnlink s l c cb fr = Some (1, s', l') \<and> dseg (cells s') None (bs @ ds) None \<and>
      l' = l\<lparr>l_first := hd_opt (bs @ ds) None, l_last := last_opt (bs @ ds) None,
             l_current := ?cur, l_count := l_count l - 1\<rparr> \<and>
      contents (cells s') (bs @ ds) = contents (cells s) (bs @ ds) \<and>
      freed s' = (if fr then el_content e # freed s else freed s) \<and>
      cells s' a = None \<and> same_outside (set (bs @ a # ds)) s s'"
  proof (cases bs rule: rev_cases)
    case Nil
    note bs = Nil
    show ?thesis
    proof (cases ds)
      case Nil
      with bs rep find e p seg show ?thesis
        by (auto simp: ListUnlink_def store_defs list_rep_def same_outside_def)
    next
      case (Cons d ds')
      with seg obtain ed where "cells s d = Some ed" "el_prev ed = Some a" "el_next ed = hd_opt ds' None"
        by auto
      with Cons bs rep find e p seg show ?thesis
        by (auto simp: ListUnlink_def store_defs list_rep_def same_outside_def)
    qed
  next
    case (snoc bs' b)
    with seg obtain eb where b: "cells s b = Some eb" "el_prev eb = last_opt bs' None"
        "el_next eb = Some a" "dseg (cells s) None bs' (Some b)"
      by (auto simp: dseg_append)
    show ?thesis
    proof (cases ds)
      case Nil
      with b snoc rep find e p seg show ?thesis
        by (auto simp: ListUnlink_def store_defs list_rep_def same_outside_def dseg_append)
    next
      case (Cons d ds')
      with seg obtain ed where "cells s d = Some ed" "el_prev ed = Some a" "el_next ed = hd_opt ds' None"
        by auto
      with Cons b snoc rep find e p seg show ?thesis
        by (auto simp: ListUnlink_def store_defs list_rep_def same_outside_def dseg_append)
    qed
  qed
  with cur cin rep seg show ?thesis
    by (auto simp: list_rep_def abs_list_def)
qed

lemma split_at: "i < length as \<Longrightarrow> as = take i as @ as ! i # drop (Suc i) as"
  by (rule id_take_nth_drop)

text \<open>
  \<open>ListUnlink\<close> removes exactly the element \<open>ListFindItem\<close> finds, keeps the cursor on the element
  it was on (or moves it to the next one when that element goes), frees the content when asked
  and reports whether something was removed.
\<close>

lemma ListUnlink_correct:
  assumes rep: "list_rep s l as"
  shows "\<exists>rc s' l' as'. ListUnlink s l c cb fr = Some (rc, s', l') \<and> list_rep s' l' as' \<and>
     abs_list s' l' as' = clist_unlink (list_match cb c) (abs_list s l as) \<and>
     as' = (case clist_find (list_match cb c) (abs_list s l as) of None \<Rightarrow> as | Some i \<Rightarrow> remove_nth i as) \<and>
     rc = (if clist_find (list_match cb c) (abs_list s l as) = None then 0 else 1) \<and>
     freed s' = (case clist_find (list_match cb c) (abs_list s l as) of None \<Rightarrow> freed s
       | Some i \<Rightarrow> if fr then elems (abs_list s l as) ! i # freed s else freed s) \<and>
     l_size l' = l_size l \<and> same_outside (set as) s s'"
proof (cases "clist_find (list_match cb c) (abs_list s l as)")
  case None
  with rep ListFindItem_eq [OF rep refl, of c cb] show ?thesis
    by (simp add: ListUnlink_def clist_unlink_def same_outside_def)
next
  case (Some i)
  with rep have i: "i < length as" by (rule clist_find_bound)
  let ?bs = "take i as" and ?a = "as ! i" and ?ds = "drop (Suc i) as"
  have as: "as = ?bs @ ?a # ?ds" using i by (rule split_at)
  obtain e where e: "cells s ?a = Some e"
    using rep i dseg_live [of "cells s" None as None ?a] by (auto simp: list_rep_def)
  have find: "ListFindItem s l c cb = Some (Some ?a, l\<lparr>l_current := Some ?a\<rparr>)"
    using ListFindItem_eq [OF rep refl, of c cb] Some by simp
  have rep': "list_rep s l (?bs @ ?a # ?ds)" using rep as by simp
  from ListUnlink_found [OF rep' find e, of fr] as [symmetric] obtain s' l' where
    "ListUnlink s l c cb fr = Some (1, s', l')" "list_rep s' l' (remove_nth i as)"
    "abs_list s' l' (remove_nth i as) = \<lparr>elems = contents (cells s) (remove_nth i as),
       cursor = cursor_after_remove i (length as) (cursor (abs_list s l as))\<rparr>"
    "l_size l' = l_size l" "freed s' = (if fr then el_content e # freed s else freed s)"
    "same_outside (set as) s s'"
    using i by (auto simp: remove_nth_def min_def)
  with Some i e show ?thesis
    by (simp add: clist_unlink_def abs_list_def contents_def map_remove_nth)
qed

lemma ListDetachHead_correct:
  assumes rep: "list_rep s l as"
  shows "\<exists>rc s' l'. ListDetachHead s l = Some (rc, s', l') \<and> list_rep s' l' (tl as) \<and>
     abs_list s' l' (tl as) = clist_detach_head (abs_list s l as) \<and>
     rc = hd_opt (elems (abs_list s l as)) None \<and> freed s' = freed s \<and> same_outside (set as) s s'"
proof (cases as)
  case Nil
  with rep show ?thesis
    by (simp add: ListDetachHead_def list_rep_def clist_detach_head_def abs_list_def same_outside_def)
next
  case (Cons a ds)
  with rep obtain e where e: "cells s a = Some e" "el_next e = hd_opt ds None"
    by (auto simp: list_rep_def)
  let ?cur = "if l_current l = Some a then hd_opt ds None else l_current l"
  have cur: "Option.bind ?cur (\<lambda>x. find_index ((=) x) ds) =
      cursor_after_remove 0 (length as) (cursor (abs_list s l as))"
    using cursor_remove [of "[]" a ds "l_current l"] rep Cons
    by (cases "l_current l") (auto simp: list_rep_def abs_list_def)
  have cin: "case ?cur of None \<Rightarrow> True | Some x \<Rightarrow> x \<in> set ds"
    using rep Cons by (cases ds; cases "l_current l") (auto simp: list_rep_def)
  have "\<exists>s' l'. ListDetachHead s l = Some (Some (el_content e), s', l') \<and> dseg (cells s') None ds None \<and>
      l' = l\<lparr>l_first := hd_opt ds None, l_last := last_opt ds None, l_current := ?cur,
             l_count := l_count l - 1\<rparr> \<and>
      contents (cells s') ds = contents (cells s) ds \<and> freed s' = freed s \<and> same_outside (set as) s s'"
  proof (cases ds)
    case Nil
    with rep Cons e show ?thesis
      by (auto simp: ListDetachHead_def store_defs list_rep_def same_outside_def)
  next
    case (Cons d ds')
    with rep \<open>as = a # ds\<close> obtain ed where
      "cells s d = Some ed" "el_prev ed = Some a" "el_next ed = hd_opt ds' None"
      by (auto simp: list_rep_def)
    with rep \<open>as = a # ds\<close> Cons e show ?thesis
      by (auto simp: ListDetachHead_def store_defs list_rep_def same_outside_def last_opt_Some_notin
          last_opt_eq)
  qed
  with cur cin rep Cons e show ?thesis
    by (auto simp: list_rep_def abs_list_def clist_detach_head_def)
qed

lemma ListPopTail_correct:
  assumes rep: "list_rep s l as"
  shows "\<exists>rc s' l'. ListPopTail s l = Some (rc, s', l') \<and> list_rep s' l' (butlast as) \<and>
     abs_list s' l' (butlast as) = clist_pop_tail (abs_list s l as) \<and>
     rc = last_opt (elems (abs_list s l as)) None \<and> freed s' = freed s \<and> same_outside (set as) s s'"
proof (cases as rule: rev_cases)
  case Nil
  with rep show ?thesis
    by (simp add: ListPopTail_def list_rep_def clist_pop_tail_def abs_list_def same_outside_def)
next
  case (snoc bs a)
  with rep obtain e where e: "cells s a = Some e" "el_prev e = last_opt bs None" "el_next e = None"
    by (auto simp: list_rep_def dseg_append)
  let ?cur = "if l_current l = Some a then last_opt bs None else l_current l"
  have dist: "distinct bs" "a \<notin> set bs" using rep snoc by (auto simp: list_rep_def)
  have cur: "Option.bind ?cur (\<lambda>x. find_index ((=) x) bs) = cursor (clist_pop_tail (abs_list s l as))"
  proof (cases "l_current l")
    case None
    then show ?thesis by (simp add: clist_pop_tail_def abs_list_def)
  next
    case (Some x)
    show ?thesis
    proof (cases "x = a")
      case True
      have "find_index ((=) a) bs = None" using dist by (auto simp: find_index_None_iff)
      with True Some snoc show ?thesis
        using find_index_nth [OF dist(1), of "length bs - 1"]
        by (cases "bs = []")
           (auto simp: clist_pop_tail_def abs_list_def find_index_append last_opt_eq last_conv_nth)
    next
      case False
      with Some rep snoc have "x \<in> set bs" by (auto simp: list_rep_def)
      then obtain i where "find_index ((=) x) bs = Some i" "i < length bs"
        using find_index_in by fastforce
      with False Some snoc show ?thesis
        by (auto simp: clist_pop_tail_def abs_list_def find_index_append)
    qed
  qed
  have cin: "case ?cur of None \<Rightarrow> True | Some x \<Rightarrow> x \<in> set bs"
    using rep snoc by (cases "l_current l") (auto simp: list_rep_def last_opt_eq)
  have "\<exists>s' l'. ListPopTail s l = Some (Some (el_content e), s', l') \<and> dseg (cells s') None bs None \<and>
      l' = l\<lparr>l_first := hd_opt bs None, l_last := last_opt bs None, l_current := ?cur,
             l_count := l_count l - 1\<rparr> \<and>
      contents (cells s') bs = contents (cells s) bs \<and> freed s' = freed s \<and> same_outside (set as) s s'"
  proof (cases bs rule: rev_cases)
    case Nil
    with rep snoc e show ?thesis
      by (auto simp: ListPopTail_def store_defs list_rep_def same_outside_def)
  next
    case (snoc bs' b)
    with rep \<open>as = bs @ [a]\<close> obtain eb where
      "cells s b = Some eb" "el_prev eb = last_opt bs' None" "el_next eb = Some a"
      by (auto simp: list_rep_def dseg_append)
    with rep \<open>as = bs @ [a]\<close> snoc e show ?thesis
      by (cases bs') (auto simp: ListPopTail_def store_defs list_rep_def same_outside_def dseg_append)
  qed
  with cur cin rep snoc e show ?thesis
    by (auto simp: list_rep_def abs_list_def clist_pop_tail_def)
qed

section \<open>Emptying and freeing\<close>

text \<open>
  The loop frees every element once, and every content that is not \<open>NULL\<close> when contents are to
  be freed; it always ends on a well-formed list.
\<close>

lemma empty_loop_correct:
  assumes "dseg (cells s) p as None" "distinct as" "l_first l = hd_opt as None"
  shows "\<exists>s' l'. empty_loop isnull fr s l = Some (s', l') \<and> l' = l\<lparr>l_first := None\<rparr> \<and>
     freed s' = (if fr then rev (filter (\<lambda>c. \<not> isnull c) (contents (cells s) as)) else []) @ freed s \<and>
     (\<forall>a. cells s' a = (if a \<in> set as then None else cells s a))"
  using assms
proof (induction as arbitrary: s l p)
  case Nil
  then have "l = l\<lparr>l_first := None\<rparr>" by (cases l) simp
  with Nil show ?case by (simp add: empty_loop.simps)
next
  case (Cons a as)
  from Cons.prems obtain e where e: "cells s a = Some e" "el_next e = hd_opt as None"
    by auto
  let ?s = "if fr \<and> \<not> isnull (el_content e) then free_content s (el_content e) else s"
  let ?s1 = "?s\<lparr>cells := (cells s)(a := None)\<rparr>" and ?l1 = "l\<lparr>l_first := hd_opt as None\<rparr>"
  have "dseg (cells ?s1) (Some a) as None" using Cons.prems by simp
  moreover have "l_first ?l1 = hd_opt as None" "distinct as" using Cons.prems by simp_all
  ultimately obtain s' l' where IH: "empty_loop isnull fr ?s1 ?l1 = Some (s', l')"
      "l' = ?l1\<lparr>l_first := None\<rparr>"
      "freed s' = (if fr then rev (filter (\<lambda>c. \<not> isnull c) (contents (cells ?s1) as)) else []) @ freed ?s1"
      "\<forall>b. cells s' b = (if b \<in> set as then None else cells ?s1 b)"
    using Cons.IH by blast
  have "empty_loop isnull fr s l = empty_loop isnull fr ?s1 ?l1"
    using Cons.prems e by (subst empty_loop.simps) (simp add: get_el_def free_el_def free_content_def)
  with IH Cons.prems e show ?case by (simp add: free_content_def)
qed

lemma ListEmpty_correct:
  assumes rep: "list_rep s l as"
  shows "\<exists>s' l'. ListEmpty isnull s l = Some (s', l') \<and> l' = ListZero \<and> list_rep s' l' [] \<and>
     freed s' = rev (filter (\<lambda>c. \<not> isnull c) (elems (abs_list s l as))) @ freed s \<and>
     (\<forall>a\<in>set as. cells s' a = None) \<and> same_outside (set as) s s'"
proof -
  from rep empty_loop_correct [of s None as l isnull True] obtain s' where
    "empty_loop isnull True s l = Some (s', l\<lparr>l_first := None\<rparr>)"
    "freed s' = rev (filter (\<lambda>c. \<not> isnull c) (contents (cells s) as)) @ freed s"
    "\<forall>a. cells s' a = (if a \<in> set as then None else cells s a)"
    by (auto simp: list_rep_def)
  then show ?thesis
    by (auto simp: ListEmpty_def ListZero_def list_rep_def abs_list_def same_outside_def)
qed

section \<open>Iterating with ListNextElement and ListPrevElement\<close>

text \<open>
  \<^verbatim>\<open>while (ListNextElement(l, &cur)) visit(cur->content);\<close> and the same loop backwards, as the
  callers write them; \<open>fuel\<close> bounds the number of elements visited.
\<close>

fun visit_forward :: "nat \<Rightarrow> 'c lstore \<Rightarrow> List \<Rightarrow> ptr \<Rightarrow> 'c list option" where
  "visit_forward 0 s l pos = None"
| "visit_forward (Suc n) s l pos =
     Option.bind (ListNextElement s l pos) (\<lambda>pos'. if pos' = None then Some []
       else Option.bind (get_el s pos') (\<lambda>e. map_option ((#) (el_content e)) (visit_forward n s l pos')))"

fun visit_backward :: "nat \<Rightarrow> 'c lstore \<Rightarrow> List \<Rightarrow> ptr \<Rightarrow> 'c list option" where
  "visit_backward 0 s l pos = None"
| "visit_backward (Suc n) s l pos =
     Option.bind (ListPrevElement s l pos) (\<lambda>pos'. if pos' = None then Some []
       else Option.bind (get_el s pos') (\<lambda>e. map_option ((#) (el_content e)) (visit_backward n s l pos')))"

lemma visit_forward_from:
  assumes "dseg (cells s) None (bs @ ds) None" "l_first l = hd_opt (bs @ ds) None" "length ds < n"
  shows "visit_forward n s l (last_opt bs None) = Some (contents (cells s) ds)"
  using assms
proof (induction ds arbitrary: bs n)
  case Nil
  then show ?case using ListNextElement_step [of s bs "[]" l] by (cases n) auto
next
  case (Cons d ds)
  then obtain m where m: "n = Suc m" "length ds < m" by (cases n) auto
  from Cons.prems have "ListNextElement s l (last_opt bs None) = Some (Some d)"
    using ListNextElement_step [of s bs "d # ds" l] by simp
  moreover from Cons.prems obtain e where "cells s d = Some e" by (auto simp: dseg_append)
  moreover have "visit_forward m s l (Some d) = Some (contents (cells s) ds)"
    using Cons.IH [of "bs @ [d]" m] Cons.prems m by simp
  ultimately show ?case using m by (simp add: get_el_def)
qed

lemma visit_backward_from:
  assumes "dseg (cells s) None (bs @ ds) None" "l_last l = last_opt (bs @ ds) None" "length bs < n"
  shows "visit_backward n s l (hd_opt ds None) = Some (rev (contents (cells s) bs))"
  using assms
proof (induction bs arbitrary: ds n rule: rev_induct)
  case Nil
  then show ?case using ListPrevElement_step [of s "[]" ds l] by (cases n) auto
next
  case (snoc b bs)
  then obtain m where m: "n = Suc m" "length bs < m" by (cases n) auto
  from snoc.prems have "ListPrevElement s l (hd_opt ds None) = Some (Some b)"
    using ListPrevElement_step [of s "bs @ [b]" ds l] by simp
  moreover from snoc.prems obtain e where "cells s b = Some e" by (auto simp: dseg_append)
  moreover have "visit_backward m s l (Some b) = Some (rev (contents (cells s) bs))"
    using snoc.IH [of "b # ds" m] snoc.prems m by simp
  ultimately show ?case using m by (simp add: get_el_def)
qed

section \<open>Sequences of operations refine the abstract list\<close>

text \<open>
  The list interface as a machine. An operation that allocates carries the address \<open>malloc\<close>
  returns; \<open>OpInsertHere\<close> inserts before the cursor, the way the callers use the element that
  \<open>ListFindItem\<close> has just returned.
\<close>

datatype 'c list_op =
    OpAppend 'c nat addr
  | OpInsertHere 'c nat addr
  | OpFind 'c "('c \<Rightarrow> 'c \<Rightarrow> bool) option"
  | OpUnlink 'c "('c \<Rightarrow> 'c \<Rightarrow> bool) option" bool
  | OpDetachHead
  | OpPopTail
  | OpEmpty

datatype 'c list_out = OutUnit | OutRc int | OutContent "'c option"

fun list_step :: "'c lstore \<times> List \<Rightarrow> 'c list_op \<Rightarrow> ('c list_out \<times> 'c lstore \<times> List) option" where
  "list_step (s, l) (OpAppend c sz a) = map_option (Pair OutUnit) (ListAppend s l c sz (Some a))"
| "list_step (s, l) (OpInsertHere c sz a) =
     map_option (Pair OutUnit) (ListInsert s l c sz (l_current l) (Some a))"
| "list_step (s, l) (OpFind c cb) = do {
     (p, l) \<leftarrow> ListFindItem s l c cb;
     if p = None then Some (OutContent None, s, l)
     else do { e \<leftarrow> get_el s p; Some (OutContent (Some (el_content e)), s, l) } }"
| "list_step (s, l) (OpUnlink c cb fr) =
     map_option (\<lambda>(rc, s, l). (OutRc rc, s, l)) (ListUnlink s l c cb fr)"
| "list_step (s, l) OpDetachHead = map_option (\<lambda>(c, s, l). (OutContent c, s, l)) (ListDetachHead s l)"
| "list_step (s, l) OpPopTail = map_option (\<lambda>(c, s, l). (OutContent c, s, l)) (ListPopTail s l)"
| "list_step (s, l) OpEmpty = map_option (Pair OutUnit) (ListEmpty (\<lambda>_. False) s l)"

fun clist_step :: "'c clist \<Rightarrow> 'c list_op \<Rightarrow> 'c list_out \<times> 'c clist" where
  "clist_step q (OpAppend c sz a) = (OutUnit, clist_append c q)"
| "clist_step q (OpInsertHere c sz a) =
     (OutUnit, case cursor q of None \<Rightarrow> clist_append c q | Some i \<Rightarrow> clist_insert i c q)"
| "clist_step q (OpFind c cb) =
     (OutContent (map_option (\<lambda>i. elems q ! i) (clist_find (list_match cb c) q)),
      clist_seek (list_match cb c) q)"
| "clist_step q (OpUnlink c cb fr) =
     (OutRc (if clist_find (list_match cb c) q = None then 0 else 1), clist_unlink (list_match cb c) q)"
| "clist_step q OpDetachHead = (OutContent (hd_opt (elems q) None), clist_detach_head q)"
| "clist_step q OpPopTail = (OutContent (last_opt (elems q) None), clist_pop_tail q)"
| "clist_step q OpEmpty = (OutUnit, clist_empty)"

fun op_addrs :: "'c list_op \<Rightarrow> addr list" where
  "op_addrs (OpAppend c sz a) = [a]"
| "op_addrs (OpInsertHere c sz a) = [a]"
| "op_addrs _ = []"

text \<open>
  \<open>malloc\<close> returns memory that is not in use at the time of the call; an address may come back once it has been freed.
\<close>

fun fresh_ops :: "'c list_op list \<Rightarrow> 'c lstore \<times> List \<Rightarrow> bool" where
  "fresh_ops [] st \<longleftrightarrow> True"
| "fresh_ops (x # xs) st \<longleftrightarrow> list_all (\<lambda>a. cells (fst st) a = None) (op_addrs x) \<and>
     (case list_step st x of None \<Rightarrow> True | Some (out, st') \<Rightarrow> fresh_ops xs st')"

definition rep_clist :: "'c lstore \<times> List \<Rightarrow> 'c clist \<Rightarrow> bool" where
  "rep_clist st q \<longleftrightarrow> (\<exists>as. list_rep (fst st) (snd st) as \<and> abs_list (fst st) (snd st) as = q)"

lemma ListInsert_here:
  assumes rep: "list_rep s l as" and fresh: "cells s a = None"
  shows "\<exists>s' l' as'. ListInsert s l c sz (l_current l) (Some a) = Some (s', l') \<and> list_rep s' l' as' \<and>
     abs_list s' l' as' = (case cursor (abs_list s l as) of None \<Rightarrow> clist_append c (abs_list s l as)
       | Some i \<Rightarrow> clist_insert i c (abs_list s l as)) \<and>
     same_outside (insert a (set as)) s s'"
proof (cases "cursor (abs_list s l as)")
  case None
  with cursor_abs_list_None [OF rep] have "ListInsert s l c sz (l_current l) (Some a) = ListAppend s l c sz (Some a)"
    by (simp add: ListInsert_def ListAppend_def)
  with None ListAppend_correct [OF rep fresh, of c sz] show ?thesis by auto
next
  case (Some i)
  with cursor_abs_list [OF rep] have i: "i < length as" "l_current l = Some (as ! i)" by auto
  have as: "as = take i as @ as ! i # drop (Suc i) as" using i(1) by (rule split_at)
  with rep have "list_rep s l (take i as @ as ! i # drop (Suc i) as)" by simp
  from ListInsert_correct [OF this fresh, of c sz] as [symmetric] Some i show ?thesis
    by (auto simp: min_def)
qed

lemma list_step_simulates:
  assumes rep: "list_rep s l as" and fresh: "fresh_ops (x # xs) (s, l)"
  shows "\<exists>s' l' as'. list_step (s, l) x = Some (fst (clist_step (abs_list s l as) x), s', l') \<and>
     list_rep s' l' as' \<and> abs_list s' l' as' = snd (clist_step (abs_list s l as) x) \<and>
     same_outside (set (op_addrs x) \<union> set as) s s'"
proof (cases x)
  case (OpAppend c sz a)
  with fresh have "cells s a = None" by simp
  from ListAppend_correct [OF rep this, of c sz] OpAppend show ?thesis by auto
next
  case (OpInsertHere c sz a)
  with fresh have "cells s a = None" by simp
  from ListInsert_here [OF rep this, of c sz] OpInsertHere show ?thesis by auto
next
  case (OpFind c cb)
  from ListFindItem_correct [OF rep, of c cb] obtain rc l' where
    f: "ListFindItem s l c cb = Some (rc, l')" "list_rep s l' as"
      "rc = map_option (\<lambda>i. as ! i) (clist_find (list_match cb c) (abs_list s l as))"
      "abs_list s l' as = clist_seek (list_match cb c) (abs_list s l as)" by blast
  show ?thesis
  proof (cases "clist_find (list_match cb c) (abs_list s l as)")
    case None
    with f OpFind show ?thesis by (auto simp: same_outside_def)
  next
    case (Some i)
    with rep have i: "i < length as" by (rule clist_find_bound)
    with rep obtain e where "cells s (as ! i) = Some e"
      using dseg_live [of "cells s" None as None "as ! i"] by (auto simp: list_rep_def)
    with Some f i OpFind show ?thesis
      by (auto simp: same_outside_def get_el_def abs_list_def)
  qed
next
  case (OpUnlink c cb fr)
  with ListUnlink_correct [OF rep, of c cb fr] show ?thesis by fastforce
next
  case OpDetachHead
  with ListDetachHead_correct [OF rep] show ?thesis by fastforce
next
  case OpPopTail
  with ListPopTail_correct [OF rep] show ?thesis by fastforce
next
  case OpEmpty
  from ListEmpty_correct [OF rep, of "\<lambda>_. False"] obtain s' where
    "ListEmpty (\<lambda>_. False) s l = Some (s', ListZero)" "list_rep s' ListZero []"
    "same_outside (set as) s s'" by auto
  moreover have "abs_list s' ListZero [] = clist_empty"
    by (simp add: abs_list_def ListZero_def clist_empty_def)
  ultimately show ?thesis using OpEmpty by auto
qed

interpretation linked_list: simulation rep_clist list_step clist_step fresh_ops
proof
  fix st :: "'c lstore \<times> List" and q x xs
  assume R: "rep_clist st q" and fresh: "fresh_ops (x # xs) st"
  obtain s l where st: "st = (s, l)" by (cases st)
  with R obtain as where rep: "list_rep s l as" and q: "abs_list s l as = q"
    by (auto simp: rep_clist_def)
  from list_step_simulates [OF rep fresh [unfolded st]] obtain s' l' as' where
    step: "list_step (s, l) x = Some (fst (clist_step q x), s', l')" "list_rep s' l' as'"
      "abs_list s' l' as' = snd (clist_step q x)" "same_outside (set (op_addrs x) \<union> set as) s s'"
    unfolding q by blast
  with fresh st show "\<exists>s'. list_step st x = Some (fst (clist_step q x), s') \<and>
      rep_clist s' (snd (clist_step q x)) \<and> fresh_ops xs s'"
    by (auto simp: rep_clist_def split_beta)
qed

section \<open>Properties\<close>

lemma rep_clist_ListZero: "rep_clist (s, ListZero) clist_empty"
proof -
  have "abs_list s ListZero [] = clist_empty"
    by (simp add: abs_list_def ListZero_def clist_empty_def)
  with list_rep_ListZero [of s] show ?thesis by (auto simp: rep_clist_def)
qed

text \<open>
  C4. Any sequence of list operations on a list that starts empty runs without undefined
  behaviour, every operation returning what the abstract list with a cursor returns, and the
  final store represents the final abstract list. The hypothesis is that each \<open>malloc\<close> succeeds and
  returns memory that is not in use at that time; freed memory may be given out again.
\<close>

theorem list_run_refines:
  assumes "fresh_ops ops (s, ListZero)"
  shows "\<exists>st'. run_steps list_step (s, ListZero) ops = Some (fst (run_spec clist_step clist_empty ops), st')
     \<and> rep_clist st' (snd (run_spec clist_step clist_empty ops))"
  using rep_clist_ListZero assms by (rule linked_list.run_simulates)

definition example_store :: "int lstore" where
  "example_store = \<lparr>cells = Map.empty, freed = []\<rparr>"

lemmas [code] = find_loop.simps empty_loop.simps

text \<open>In the example the address 1 is given out again after it has been freed.\<close>

lemma list_run_refines_witness:
  "\<exists>st'. run_steps list_step (example_store, ListZero)
      [OpAppend 7 4 1, OpAppend 8 4 2, OpFind 8 None, OpInsertHere 9 4 3, OpUnlink 7 None True, OpAppend 6 4 1,
       OpDetachHead, OpDetachHead, OpDetachHead, OpDetachHead] =
      Some ([OutUnit, OutUnit, OutContent (Some 8), OutUnit, OutRc 1, OutUnit, OutContent (Some 9),
             OutContent (Some 8), OutContent (Some 6), OutContent None], st')"
proof -
  let ?ops = "[OpAppend 7 4 1, OpAppend 8 4 2, OpFind 8 None, OpInsertHere 9 4 3, OpUnlink 7 None True, OpAppend 6 4 1,
       OpDetachHead, OpDetachHead, OpDetachHead, OpDetachHead] :: int list_op list"
  have "fresh_ops ?ops (example_store, ListZero)" by code_simp
  moreover have "fst (run_spec clist_step clist_empty ?ops) = [OutUnit, OutUnit, OutContent (Some 8), OutUnit, OutRc 1, OutUnit,
      OutContent (Some 9), OutContent (Some 8), OutContent (Some 6), OutContent None]"
    by code_simp
  ultimately show ?thesis using list_run_refines [of ?ops example_store] by auto
qed

lemma run_spec_appends:
  "run_spec clist_step q (map (\<lambda>(c, sz, a). OpAppend c sz a) xs) =
     (map (\<lambda>_. OutUnit) xs, q\<lparr>elems := elems q @ map fst xs\<rparr>)"
  by (induction xs arbitrary: q) (auto simp: clist_append_def)

lemma run_spec_detach_heads:
  "cursor q = None \<Longrightarrow> run_spec clist_step q (map (\<lambda>_. OpDetachHead) (elems q)) =
     (map (\<lambda>c. OutContent (Some c)) (elems q), clist_empty)"
proof (induction "elems q" arbitrary: q)
  case Nil
  then show ?case by (cases q) (simp add: clist_empty_def)
next
  case (Cons c cs)
  note q = Cons.hyps(2) [symmetric]
  then have "clist_detach_head q = \<lparr>elems = cs, cursor = None\<rparr>"
    using Cons.prems by (simp add: clist_detach_head_def cursor_after_remove_def)
  moreover have "run_spec clist_step \<lparr>elems = cs, cursor = None\<rparr> (map (\<lambda>_. OpDetachHead) cs) =
      (map (\<lambda>c. OutContent (Some c)) cs, clist_empty)"
    using Cons.hyps(1) [of "\<lparr>elems = cs, cursor = None\<rparr>"] by simp
  ultimately show ?case by (simp add: q)
qed

text \<open>
  A list is a first-in first-out queue: appending items and then calling \<open>ListDetachHead\<close> once
  per item returns their contents in the order they were appended, and leaves an empty list.
\<close>

theorem list_fifo:
  assumes "fresh_ops (map (\<lambda>(c, sz, a). OpAppend c sz a) xs @ map (\<lambda>_. OpDetachHead) xs) (s, ListZero)"
  shows "\<exists>st'. run_steps list_step (s, ListZero)
       (map (\<lambda>(c, sz, a). OpAppend c sz a) xs @ map (\<lambda>_. OpDetachHead) xs) =
     Some (map (\<lambda>_. OutUnit) xs @ map (\<lambda>(c, sz, a). OutContent (Some c)) xs, st') \<and>
     rep_clist st' clist_empty"
proof -
  let ?q = "\<lparr>elems = map fst xs, cursor = None\<rparr>"
  have "run_spec clist_step clist_empty (map (\<lambda>(c, sz, a). OpAppend c sz a) xs) = (map (\<lambda>_. OutUnit) xs, ?q)"
    by (simp add: run_spec_appends clist_empty_def)
  moreover have "run_spec clist_step ?q (map (\<lambda>_. OpDetachHead) xs) =
      (map (\<lambda>(c, sz, a). OutContent (Some c)) xs, clist_empty)"
    using run_spec_detach_heads [of ?q] by (simp add: comp_def split_beta)
  ultimately have "run_spec clist_step clist_empty
      (map (\<lambda>(c, sz, a). OpAppend c sz a) xs @ map (\<lambda>_. OpDetachHead) xs) =
      (map (\<lambda>_. OutUnit) xs @ map (\<lambda>(c, sz, a). OutContent (Some c)) xs, clist_empty)"
    by (simp add: run_spec_append)
  with linked_list.run_simulates [OF rep_clist_ListZero assms] show ?thesis by simp
qed

lemma list_fifo_witness:
  "\<exists>st'. run_steps list_step (example_store, ListZero)
       [OpAppend 5 4 1, OpAppend 6 4 2, OpDetachHead, OpDetachHead] =
     Some ([OutUnit, OutUnit, OutContent (Some 5), OutContent (Some 6)], st') \<and> rep_clist st' clist_empty"
proof -
  have "fresh_ops (map (\<lambda>(c, sz, a). OpAppend c sz a) [(5, 4, 1), (6, 4, 2)] @ map (\<lambda>_. OpDetachHead) [(5, 4, 1), (6, 4, 2)])
      (example_store, ListZero)" by code_simp
  from list_fifo [OF this] show ?thesis by simp
qed

text \<open>
  Following \<open>ListNextElement\<close> from \<open>NULL\<close> visits exactly the contents in order, following
  \<open>ListPrevElement\<close> visits them in the reverse order, and both iterations end.
\<close>

theorem list_iteration:
  assumes "list_rep s l as" "length as < n"
  shows "visit_forward n s l None = Some (elems (abs_list s l as)) \<and>
         visit_backward n s l None = Some (rev (elems (abs_list s l as)))"
  using assms visit_forward_from [of s "[]" as l n] visit_backward_from [of s as "[]" l n]
  by (simp add: list_rep_def abs_list_def)

definition two_cells :: "int lstore" where
  "two_cells = \<lparr>cells = [1 \<mapsto> \<lparr>el_prev = None, el_next = Some 2, el_content = 5\<rparr>,
                         2 \<mapsto> \<lparr>el_prev = Some 1, el_next = None, el_content = 6\<rparr>,
                         9 \<mapsto> \<lparr>el_prev = None, el_next = None, el_content = 7\<rparr>], freed = []\<rparr>"

definition two_list :: List where
  "two_list = \<lparr>l_first = Some 1, l_last = Some 2, l_current = Some 2, l_count = 2, l_size = 8\<rparr>"

definition one_list :: List where
  "one_list = \<lparr>l_first = Some 9, l_last = Some 9, l_current = None, l_count = 1, l_size = 4\<rparr>"

lemma two_list_rep: "list_rep two_cells two_list [1, 2]" "list_rep two_cells one_list [9]"
  by (simp_all add: list_rep_def two_cells_def two_list_def one_list_def)

lemma two_list_abs:
  "abs_list two_cells two_list [1, 2] = \<lparr>elems = [5, 6], cursor = Some 1\<rparr>"
  "abs_list two_cells one_list [9] = \<lparr>elems = [7], cursor = None\<rparr>"
  "freed two_cells = []"
  by (simp_all add: abs_list_def two_cells_def two_list_def one_list_def)

lemma list_iteration_witness:
  "visit_forward 3 two_cells two_list None = Some [5, 6] \<and>
   visit_backward 3 two_cells two_list None = Some [6, 5]"
  using list_iteration [OF two_list_rep(1), of 3, unfolded two_list_abs] by simp

text \<open>
  Removing an item returns 1 exactly when some element matches; it removes that one element
  and nothing else, keeps the cursor on the same element (or moves it to the next one when its
  element goes away), hands the content to \<open>free\<close> exactly when asked to, and leaves every other
  list in the store as it was.
\<close>

theorem list_unlink_exact:
  assumes "list_rep s l as" "list_rep s l2 bs" "set as \<inter> set bs = {}"
  shows "\<exists>rc s' l' as'. ListUnlink s l c cb fr = Some (rc, s', l') \<and> list_rep s' l' as' \<and>
     abs_list s' l' as' = clist_unlink (list_match cb c) (abs_list s l as) \<and>
     (rc = 1 \<longleftrightarrow> (\<exists>x\<in>set (elems (abs_list s l as)). list_match cb c x)) \<and>
     freed s' = (case clist_find (list_match cb c) (abs_list s l as) of
         Some i \<Rightarrow> if fr then elems (abs_list s l as) ! i # freed s else freed s
       | None \<Rightarrow> freed s) \<and>
     list_rep s' l2 bs \<and> abs_list s' l2 bs = abs_list s l2 bs"
proof -
  let ?P = "list_match cb c" and ?q = "abs_list s l as"
  from ListUnlink_correct [OF assms(1), of c cb fr] obtain rc s' l' as' where
    u: "ListUnlink s l c cb fr = Some (rc, s', l')" "list_rep s' l' as'"
      "abs_list s' l' as' = clist_unlink ?P ?q" "rc = (if clist_find ?P ?q = None then 0 else 1)"
      "freed s' = (case clist_find ?P ?q of None \<Rightarrow> freed s
         | Some i \<Rightarrow> if fr then elems ?q ! i # freed s else freed s)"
      "same_outside (set as) s s'" by blast
  have "clist_find ?P ?q = None \<longleftrightarrow> (\<forall>x\<in>set (elems ?q). \<not> ?P x)"
    using assms(1) by (rule clist_find_None_iff)
  with u list_rep_same_outside [OF assms(2) u(6)] assms(3) show ?thesis
    by (auto split: option.splits)
qed

lemma list_unlink_exact_witness:
  "\<exists>s' l'. ListUnlink two_cells two_list 5 None True = Some (1, s', l') \<and> freed s' = [5] \<and>
     list_rep s' one_list [9] \<and> elems (abs_list s' one_list [9]) = [7]"
proof -
  from list_unlink_exact [OF two_list_rep, of 5 None True] obtain rc s' l' where
    "ListUnlink two_cells two_list 5 None True = Some (rc, s', l')" "rc = 1" "freed s' = [5]"
    "list_rep s' one_list [9]" "abs_list s' one_list [9] = abs_list two_cells one_list [9]"
    unfolding two_list_abs by (auto simp: clist_find_def list_match_def)
  then show ?thesis by (simp add: two_list_abs)
qed

text \<open>
  \<open>ListEmpty\<close> ends, hands each non-\<open>NULL\<close> content to \<open>free\<close> exactly once in list order, releases
  every element and no other, and leaves the list as \<open>ListZero\<close> does.
\<close>

theorem list_empty_frees_all:
  assumes "list_rep s l as"
  shows "\<exists>s'. ListEmpty isnull s l = Some (s', ListZero) \<and>
     freed s' = rev (filter (\<lambda>c. \<not> isnull c) (elems (abs_list s l as))) @ freed s \<and>
     (\<forall>a. cells s' a = (if a \<in> set as then None else cells s a))"
  using ListEmpty_correct [OF assms, of isnull] by (auto simp: same_outside_def)

lemma list_empty_frees_all_witness:
  "\<exists>s'. ListEmpty (\<lambda>c. c = 5) two_cells two_list = Some (s', ListZero) \<and> freed s' = [6] \<and>
     cells s' 1 = None \<and> cells s' 9 \<noteq> None"
proof -
  have "cells two_cells 9 \<noteq> None" by (simp add: two_cells_def)
  with list_empty_frees_all [OF two_list_rep(1), of "\<lambda>c. c = 5"] show ?thesis
    unfolding two_list_abs by auto
qed

end
