(* ===== verification/Utf8.thy ===== *)
theory Utf8
  imports Prelude
begin

text \<open>
  The UTF-8 checks of \<open>lib/utf-8.c\<close>, which guard client identifiers, topics and will messages.
  A buffer is the list of bytes that may be read from \<open>data\<close> on; a read beyond it is undefined
  behaviour. Whether plain \<open>char\<close> is signed is left to the compiler, so it is a parameter.
\<close>

section \<open>The code\<close>

text \<open>One row of \<open>valid_ranges\<close>: the ranges of the bytes of one kind of character.\<close>

definition valid_ranges :: "(byte \<times> byte) list list" where
  "valid_ranges =
    [[(0x00, 0x7F)],
     [(0xC2, 0xDF), (0x80, 0xBF)],
     [(0xE0, 0xE0), (0xA0, 0xBF), (0x80, 0xBF)],
     [(0xE1, 0xEC), (0x80, 0xBF), (0x80, 0xBF)],
     [(0xED, 0xED), (0x80, 0x9F), (0x80, 0xBF)],
     [(0xEE, 0xEF), (0x80, 0xBF), (0x80, 0xBF)],
     [(0xF0, 0xF0), (0x90, 0xBF), (0x80, 0xBF), (0x80, 0xBF)],
     [(0xF1, 0xF3), (0x80, 0xBF), (0x80, 0xBF), (0x80, 0xBF)],
     [(0xF4, 0xF4), (0x80, 0x8F), (0x80, 0xBF), (0x80, 0xBF)]]"

definition char_val :: "bool \<Rightarrow> byte \<Rightarrow> int" where
  "char_val sg b = (if sg then sint b else uint b)"

definition read_at :: "bytes \<Rightarrow> nat \<Rightarrow> byte option" where
  "read_at mem i = (if i < length mem then Some (mem ! i) else None)"

text \<open>How many bytes the first byte announces.\<close>

definition charlen_of :: "byte \<Rightarrow> nat" where
  "charlen_of b = (if b AND 128 = 0 then 1
     else if b AND 0xF0 = 0xF0 then 4
     else if b AND 0xE0 = 0xE0 then 3 else 2)"

text \<open>The inner loop over the bytes and the outer loop over the rows of \<open>UTF8_char_validate\<close>.\<close>

fun row_matches :: "bool \<Rightarrow> bytes \<Rightarrow> nat \<Rightarrow> (byte \<times> byte) list \<Rightarrow> bool option" where
  "row_matches sg mem pos [] = Some True"
| "row_matches sg mem pos ((lower, upper) # rs) =
     Option.bind (read_at mem pos) (\<lambda>b.
       if char_val sg b < char_val sg lower \<or> char_val sg b > char_val sg upper then Some False
       else row_matches sg mem (Suc pos) rs)"

fun some_row_matches :: "bool \<Rightarrow> bytes \<Rightarrow> nat \<Rightarrow> nat \<Rightarrow> (byte \<times> byte) list list \<Rightarrow> bool option" where
  "some_row_matches sg mem pos charlen [] = Some False"
| "some_row_matches sg mem pos charlen (row # rows) =
     (if length row = charlen then
        Option.bind (row_matches sg mem pos row) (\<lambda>good.
          if good then Some True else some_row_matches sg mem pos charlen rows)
      else some_row_matches sg mem pos charlen rows)"

text \<open>\<open>None\<close>: undefined behaviour; \<open>Some None\<close>: \<open>NULL\<close>; otherwise the next position.\<close>

definition UTF8_char_validate :: "bool \<Rightarrow> int \<Rightarrow> bytes \<Rightarrow> nat \<Rightarrow> nat option option" where
  "UTF8_char_validate sg len mem pos = do {
     b \<leftarrow> read_at mem pos;
     let charlen = charlen_of b;
     if int charlen > len then Some None
     else do {
       good \<leftarrow> some_row_matches sg mem pos charlen valid_ranges;
       Some (if good then Some (pos + charlen) else None)
     }
   }"

lemma UTF8_char_validate_progress:
  "UTF8_char_validate sg len mem pos = Some (Some pos') \<Longrightarrow> pos < pos'"
  by (auto simp: UTF8_char_validate_def charlen_of_def bind_eq_Some_conv split: if_splits)

function validate_loop :: "bool \<Rightarrow> int \<Rightarrow> bytes \<Rightarrow> nat option \<Rightarrow> nat option option" where
  "validate_loop sg len mem cur = (case cur of None \<Rightarrow> Some None
     | Some pos \<Rightarrow> if int pos < len
         then (case UTF8_char_validate sg len mem pos of None \<Rightarrow> None
               | Some cur' \<Rightarrow> validate_loop sg len mem cur')
         else Some cur)"
  by pat_completeness auto
termination
  by (relation "measure (\<lambda>(sg, len, mem, cur). case cur of None \<Rightarrow> 0 | Some pos \<Rightarrow> Suc (nat len - pos))")
     (auto dest: UTF8_char_validate_progress split: option.splits)

declare validate_loop.simps [simp del]

definition UTF8_validate :: "bool \<Rightarrow> int \<Rightarrow> bytes \<Rightarrow> int option" where
  "UTF8_validate sg len mem =
     (if len = 0 then Some 1
      else do {
        cur \<leftarrow> UTF8_char_validate sg len mem 0;
        cur \<leftarrow> validate_loop sg len mem cur;
        Some (if cur \<noteq> None then 1 else 0)
      })"

text \<open>
  A C string is its bytes up to the terminating zero, which is readable too. Its length is cast to \<open>int\<close>.
\<close>

definition UTF8_validateString :: "bool \<Rightarrow> bytes \<Rightarrow> int option" where
  "UTF8_validateString sg str = UTF8_validate sg (to_int32 (length str)) (str @ [0])"

section \<open>Specification: the encoding form of the Unicode Standard\<close>

definition scalar_value :: "nat \<Rightarrow> bool" where
  "scalar_value cp \<longleftrightarrow> cp < 0xD800 \<or> 0xE000 \<le> cp \<and> cp \<le> 0x10FFFF"

definition utf8_encode_nat :: "nat \<Rightarrow> nat list" where
  "utf8_encode_nat cp =
     (if cp < 0x80 then [cp]
      else if cp < 0x800 then [0xC0 + cp div 64, 0x80 + cp mod 64]
      else if cp < 0x10000 then [0xE0 + cp div 4096, 0x80 + cp div 64 mod 64, 0x80 + cp mod 64]
      else [0xF0 + cp div 262144, 0x80 + cp div 4096 mod 64, 0x80 + cp div 64 mod 64, 0x80 + cp mod 64])"

definition utf8_encode :: "nat \<Rightarrow> bytes" where
  "utf8_encode cp = map word_of_nat (utf8_encode_nat cp)"

definition well_formed_utf8 :: "bytes \<Rightarrow> bool" where
  "well_formed_utf8 bs \<longleftrightarrow> (\<exists>cps. (\<forall>cp\<in>set cps. scalar_value cp) \<and> bs = concat (map utf8_encode cps))"

section \<open>The table accepts exactly the encodings of scalar values\<close>

lemma outside_iff:
  assumes "(unat lo < 128) = (unat hi < 128)" "unat lo \<le> unat hi"
  shows "(char_val sg b < char_val sg lo \<or> char_val sg b > char_val sg hi) \<longleftrightarrow>
     \<not> (unat lo \<le> unat b \<and> unat b \<le> unat hi)"
proof -
  have v: "char_val sg x = (if sg \<and> 128 \<le> unat x then int (unat x) - 256 else int (unat x))" for x
    by (simp add: char_val_def sint_byte)
  have "unat b < 256" "unat lo < 256" "unat hi < 256"
    using unsigned_less [of b] unsigned_less [of lo] unsigned_less [of hi] by simp_all
  with assms show ?thesis unfolding v by (auto simp del: of_nat_unat)
qed

text \<open>The ranges of the table as conditions on byte values.\<close>

fun valid_seq :: "nat list \<Rightarrow> bool" where
  "valid_seq [a] \<longleftrightarrow> a \<le> 0x7F"
| "valid_seq [a, b] \<longleftrightarrow> 0xC2 \<le> a \<and> a \<le> 0xDF \<and> 0x80 \<le> b \<and> b \<le> 0xBF"
| "valid_seq [a, b, c] \<longleftrightarrow> 0x80 \<le> b \<and> b \<le> 0xBF \<and> 0x80 \<le> c \<and> c \<le> 0xBF \<and>
     (a = 0xE0 \<and> 0xA0 \<le> b \<or> 0xE1 \<le> a \<and> a \<le> 0xEC \<or> a = 0xED \<and> b \<le> 0x9F \<or> 0xEE \<le> a \<and> a \<le> 0xEF)"
| "valid_seq [a, b, c, d] \<longleftrightarrow>
     0x80 \<le> b \<and> b \<le> 0xBF \<and> 0x80 \<le> c \<and> c \<le> 0xBF \<and> 0x80 \<le> d \<and> d \<le> 0xBF \<and>
     (a = 0xF0 \<and> 0x90 \<le> b \<or> 0xF1 \<le> a \<and> a \<le> 0xF3 \<or> a = 0xF4 \<and> b \<le> 0x8F)"
| "valid_seq _ \<longleftrightarrow> False"

lemma digits64:
  fixes x y z w :: nat
  assumes "y < 64" "z < 64" "w < 64"
  shows "(x * 64 + y) div 64 = x" "(x * 64 + y) mod 64 = y"
    "(x * 4096 + y * 64 + z) div 4096 = x" "(x * 4096 + y * 64 + z) div 64 mod 64 = y"
    "(x * 4096 + y * 64 + z) mod 64 = z"
    "(x * 262144 + y * 4096 + z * 64 + w) div 262144 = x"
    "(x * 262144 + y * 4096 + z * 64 + w) div 4096 mod 64 = y"
    "(x * 262144 + y * 4096 + z * 64 + w) div 64 mod 64 = z"
    "(x * 262144 + y * 4096 + z * 64 + w) mod 64 = w"
proof -
  have b: "(A * 64 + r) div 64 = A" "(A * 64 + r) mod 64 = r" if "r < 64" for A r :: nat
    using that by simp_all
  have d2: "n div 4096 = n div 64 div 64" for n :: nat
    using div_mult2_eq [of n 64 64] by simp
  have d3: "n div 262144 = n div 64 div 64 div 64" for n :: nat
    using div_mult2_eq [of n 64 4096] d2 [of "n div 64"] by simp
  have e: "x * 4096 + y * 64 + z = (x * 64 + y) * 64 + z"
    "x * 262144 + y * 4096 + z * 64 + w = ((x * 64 + y) * 64 + z) * 64 + w" by simp_all
  show "(x * 64 + y) div 64 = x" "(x * 64 + y) mod 64 = y"
    "(x * 4096 + y * 64 + z) div 4096 = x" "(x * 4096 + y * 64 + z) div 64 mod 64 = y"
    "(x * 4096 + y * 64 + z) mod 64 = z"
    "(x * 262144 + y * 4096 + z * 64 + w) div 262144 = x"
    "(x * 262144 + y * 4096 + z * 64 + w) div 4096 mod 64 = y"
    "(x * 262144 + y * 4096 + z * 64 + w) div 64 mod 64 = z"
    "(x * 262144 + y * 4096 + z * 64 + w) mod 64 = w"
    unfolding e d2 d3 using assms by (simp_all only: b)
qed

lemma split64:
  fixes cp :: nat
  obtains x y where "cp = x * 64 + y" "y < 64"
  using that [of "cp div 64" "cp mod 64"] by simp

lemma encode_valid_seq:
  assumes "scalar_value cp"
  shows "valid_seq (utf8_encode_nat cp)"
proof -
  obtain u w where cp: "cp = u * 64 + w" "w < 64" by (rule split64)
  obtain v z where u: "u = v * 64 + z" "z < 64" by (rule split64)
  obtain x y where v: "v = x * 64 + y" "y < 64" by (rule split64)
  have cp': "cp = x * 262144 + y * 4096 + z * 64 + w" "cp = v * 4096 + z * 64 + w"
    using cp u v by simp_all
  consider "cp < 0x80" | "0x80 \<le> cp" "cp < 0x800" | "0x800 \<le> cp" "cp < 0x10000" | "0x10000 \<le> cp"
    by linarith
  then show ?thesis
  proof cases
    case 1
    then show ?thesis by (simp add: utf8_encode_nat_def)
  next
    case 2
    then have "utf8_encode_nat cp = [0xC0 + u, 0x80 + w]"
      by (simp add: utf8_encode_nat_def cp)
    with 2 cp show ?thesis by simp
  next
    case 3
    moreover have "cp div 4096 = v" "cp div 64 mod 64 = z" "cp mod 64 = w"
      unfolding cp'(2) using u(2) cp(2) by (rule digits64(3-5) [of z w 0 v], simp)+
    ultimately have "utf8_encode_nat cp = [0xE0 + v, 0x80 + z, 0x80 + w]"
      by (simp add: utf8_encode_nat_def)
    with 3 assms cp u show ?thesis by (auto simp: scalar_value_def)
  next
    case 4
    moreover have "cp div 262144 = x" "cp div 4096 mod 64 = y" "cp div 64 mod 64 = z" "cp mod 64 = w"
      unfolding cp'(1) using v(2) u(2) cp(2) by (rule digits64(6-9))+
    ultimately have "utf8_encode_nat cp = [0xF0 + x, 0x80 + y, 0x80 + z, 0x80 + w]"
      by (simp add: utf8_encode_nat_def)
    with 4 assms cp u v show ?thesis by (auto simp: scalar_value_def)
  qed
qed

lemma valid_seq_encode:
  assumes "valid_seq ns"
  shows "\<exists>cp. scalar_value cp \<and> ns = utf8_encode_nat cp"
  using assms
proof (cases ns rule: valid_seq.cases)
  case (1 a)
  with assms show ?thesis
    by (intro exI [of _ a]) (simp add: utf8_encode_nat_def scalar_value_def)
next
  case (2 a b)
  with assms obtain x y where xy: "a = 0xC0 + x" "b = 0x80 + y" "2 \<le> x" "x \<le> 31" "y < 64"
    using that [of "a - 0xC0" "b - 0x80"] by auto
  with 2 show ?thesis
    by (intro exI [of _ "x * 64 + y"]) (simp add: utf8_encode_nat_def scalar_value_def)
next
  case (3 a b c)
  with assms obtain x y z where xyz: "a = 0xE0 + x" "b = 0x80 + y" "c = 0x80 + z" "x < 16" "y < 64" "z < 64"
      "x = 0 \<longrightarrow> 32 \<le> y" "x = 13 \<longrightarrow> y < 32"
    using that [of "a - 0xE0" "b - 0x80" "c - 0x80"] by auto
  let ?cp = "x * 4096 + y * 64 + z"
  have "x \<le> 12 \<or> x = 13 \<or> 14 \<le> x" by linarith
  then have "scalar_value ?cp" "0x800 \<le> ?cp" "?cp < 0x10000"
    using xyz by (auto simp: scalar_value_def)
  moreover have "utf8_encode_nat ?cp = [a, b, c]"
    using digits64(3-5) [of y z 0 x] xyz calculation by (simp add: utf8_encode_nat_def)
  ultimately show ?thesis using 3 by metis
next
  case (4 a b c d)
  with assms obtain x y z w where xyz: "a = 0xF0 + x" "b = 0x80 + y" "c = 0x80 + z" "d = 0x80 + w"
      "x \<le> 4" "y < 64" "z < 64" "w < 64" "x = 0 \<longrightarrow> 16 \<le> y" "x = 4 \<longrightarrow> y < 16"
    using that [of "a - 0xF0" "b - 0x80" "c - 0x80" "d - 0x80"] by auto
  let ?cp = "x * 262144 + y * 4096 + z * 64 + w"
  have "x \<le> 3 \<or> x = 4" using xyz by linarith
  then have "scalar_value ?cp" "0x10000 \<le> ?cp"
    using xyz by (auto simp: scalar_value_def)
  moreover have "utf8_encode_nat ?cp = [a, b, c, d]"
    using digits64(6-9) [of y z w x] xyz calculation by (simp add: utf8_encode_nat_def)
  ultimately show ?thesis using 4 by metis
qed simp_all

lemma valid_seq_iff: "valid_seq ns \<longleftrightarrow> (\<exists>cp. scalar_value cp \<and> ns = utf8_encode_nat cp)"
  using valid_seq_encode encode_valid_seq by blast

section \<open>One character\<close>

definition ranges_ok :: "(byte \<times> byte) list \<Rightarrow> bool" where
  "ranges_ok rs \<longleftrightarrow> (\<forall>(lo, hi)\<in>set rs. (unat lo < 128) = (unat hi < 128) \<and> unat lo \<le> unat hi)"

lemma row_matches_within:
  assumes "ranges_ok rs" "pos + length rs \<le> length mem"
  shows "row_matches sg mem pos rs =
     Some (list_all2 (\<lambda>b (lo, hi). unat lo \<le> unat b \<and> unat b \<le> unat hi) (take (length rs) (drop pos mem)) rs)"
  using assms
proof (induction rs arbitrary: pos)
  case Nil
  then show ?case by simp
next
  case (Cons r rs)
  obtain lo hi where r: "r = (lo, hi)" by (cases r)
  from Cons.prems have pos: "pos < length mem" "drop pos mem = mem ! pos # drop (Suc pos) mem"
    by (auto simp: Cons_nth_drop_Suc)
  from Cons r have "row_matches sg mem (Suc pos) rs = Some (list_all2
      (\<lambda>b (lo, hi). unat lo \<le> unat b \<and> unat b \<le> unat hi) (take (length rs) (drop (Suc pos) mem)) rs)"
    by (auto simp: ranges_ok_def)
  moreover from Cons.prems r have "(unat lo < 128) = (unat hi < 128)" "unat lo \<le> unat hi"
    by (auto simp: ranges_ok_def)
  ultimately show ?case using pos outside_iff [of lo hi sg "mem ! pos"]
    by (auto simp: r read_at_def)
qed

text \<open>A zero byte stops the comparison with any multi-byte row: nothing beyond it is read.\<close>

lemma row_matches_stops:
  assumes "ranges_ok rs" "pos \<le> k" "k < length mem" "k < pos + length rs" "mem ! k = 0"
    "\<forall>(lo, hi)\<in>set rs. 128 \<le> unat lo"
  shows "row_matches sg mem pos rs = Some False"
  using assms
proof (induction rs arbitrary: pos)
  case (Cons r rs)
  obtain lo hi where r: "r = (lo, hi)" by (cases r)
  from Cons.prems r have o: "(unat lo < 128) = (unat hi < 128)" "unat lo \<le> unat hi" "128 \<le> unat lo"
    by (auto simp: ranges_ok_def)
  show ?case
  proof (cases "pos = k")
    case True
    with Cons.prems o outside_iff [OF o(1,2), of sg 0] show ?thesis by (auto simp: r read_at_def)
  next
    case False
    with Cons.prems have "row_matches sg mem (Suc pos) rs = Some False"
      by (intro Cons.IH) (auto simp: ranges_ok_def)
    with Cons.prems False show ?thesis by (auto simp: r read_at_def)
  qed
qed simp

lemma charlen_of_eq:
  "charlen_of b = (if unat b < 128 then 1 else if 240 \<le> unat b then 4 else if 224 \<le> unat b then 3 else 2)"
  by (simp add: charlen_of_def byte_and_128 byte_and_F0 byte_and_E0)

lemma table_ranges_ok: "\<forall>row\<in>set valid_ranges. ranges_ok row"
  by (simp add: valid_ranges_def ranges_ok_def)

text \<open>With all bytes of the announced character readable, the rows decide \<open>valid_seq\<close>.\<close>

lemma some_row_matches_within:
  assumes "\<forall>row\<in>set rows. ranges_ok row" "pos + n \<le> length mem"
  shows "some_row_matches sg mem pos n rows =
     Some (\<exists>row\<in>set rows. list_all2 (\<lambda>b (lo, hi). unat lo \<le> unat b \<and> unat b \<le> unat hi)
        (take n (drop pos mem)) row)"
  using assms
proof (induction rows)
  case (Cons row rows)
  show ?case
  proof (cases "length row = n")
    case True
    with Cons row_matches_within [of row pos mem sg] show ?thesis by auto
  next
    case False
    then have "\<not> list_all2 (\<lambda>b (lo, hi). unat lo \<le> unat b \<and> unat b \<le> unat hi) (take n (drop pos mem)) row"
      using Cons.prems by (auto dest: list_all2_lengthD)
    with False Cons show ?thesis by simp
  qed
qed simp

lemma table_valid_seq:
  "(\<exists>row\<in>set valid_ranges. list_all2 (\<lambda>b (lo, hi). unat lo \<le> unat b \<and> unat b \<le> unat hi) bs row) \<longleftrightarrow>
   valid_seq (map unat bs)"
proof -
  consider "bs = []" | a where "bs = [a]" | a b where "bs = [a, b]" | a b c where "bs = [a, b, c]"
    | a b c d where "bs = [a, b, c, d]" | a b c d e cs where "bs = a # b # c # d # e # cs"
    by (metis list.exhaust)
  then show ?thesis
    by cases (auto simp: valid_ranges_def)
qed

lemma UTF8_char_validate_within:
  assumes "pos < length mem" "pos + charlen_of (mem ! pos) \<le> length mem" "int (charlen_of (mem ! pos)) \<le> len"
  shows "UTF8_char_validate sg len mem pos =
    Some (if valid_seq (map unat (take (charlen_of (mem ! pos)) (drop pos mem)))
          then Some (pos + charlen_of (mem ! pos)) else None)"
  using assms some_row_matches_within [OF table_ranges_ok, of pos "charlen_of (mem ! pos)" mem sg]
  by (simp add: UTF8_char_validate_def read_at_def table_valid_seq)

section \<open>Strings\<close>

lemma valid_seq_charlen: "valid_seq (map unat bs) \<Longrightarrow> bs \<noteq> [] \<and> charlen_of (hd bs) = length bs"
  by (cases "map unat bs" rule: valid_seq.cases) (auto simp: charlen_of_eq)

lemma valid_seq_small: "valid_seq ns \<Longrightarrow> n \<in> set ns \<Longrightarrow> n < 256"
  by (cases ns rule: valid_seq.cases) auto

lemma unat_utf8_encode: "scalar_value cp \<Longrightarrow> map unat (utf8_encode cp) = utf8_encode_nat cp"
proof -
  assume "scalar_value cp"
  then have "n < 256" if "n \<in> set (utf8_encode_nat cp)" for n
    using that encode_valid_seq valid_seq_small by blast
  then show ?thesis
    by (auto simp: utf8_encode_def unat_of_nat intro!: map_idI)
qed

lemma valid_seq_utf8_encode: "valid_seq (map unat bs) \<longleftrightarrow> (\<exists>cp. scalar_value cp \<and> bs = utf8_encode cp)"
proof
  assume "valid_seq (map unat bs)"
  then obtain cp where "scalar_value cp" "map unat bs = utf8_encode_nat cp"
    using valid_seq_iff by blast
  moreover have "map word_of_nat (map unat bs) = bs" by (simp add: comp_def)
  ultimately have "scalar_value cp" "bs = utf8_encode cp" by (simp_all add: utf8_encode_def)
  then show "\<exists>cp. scalar_value cp \<and> bs = utf8_encode cp" by blast
next
  assume "\<exists>cp. scalar_value cp \<and> bs = utf8_encode cp"
  then show "valid_seq (map unat bs)" using unat_utf8_encode encode_valid_seq by auto
qed

text \<open>Well-formedness read off the front of the string, the way the code does.\<close>

lemma well_formed_utf8_Nil: "well_formed_utf8 []"
  unfolding well_formed_utf8_def by (rule exI [of _ "[]"]) simp

lemma well_formed_utf8_unfold:
  assumes "bs \<noteq> []"
  defines "n \<equiv> charlen_of (hd bs)"
  shows "well_formed_utf8 bs \<longleftrightarrow>
    n \<le> length bs \<and> valid_seq (map unat (take n bs)) \<and> well_formed_utf8 (drop n bs)"
proof
  assume "well_formed_utf8 bs"
  then obtain cps where cps: "\<forall>cp\<in>set cps. scalar_value cp" "bs = concat (map utf8_encode cps)"
    by (auto simp: well_formed_utf8_def)
  with assms(1) obtain cp cps' where c: "cps = cp # cps'" by (cases cps) auto
  with cps have v: "valid_seq (map unat (utf8_encode cp))" by (auto simp: valid_seq_utf8_encode)
  from valid_seq_charlen [OF v] have "n = length (utf8_encode cp)"
    by (simp add: n_def cps(2) c hd_append)
  with cps c v show "n \<le> length bs \<and> valid_seq (map unat (take n bs)) \<and> well_formed_utf8 (drop n bs)"
    by (auto simp: well_formed_utf8_def)
next
  assume r: "n \<le> length bs \<and> valid_seq (map unat (take n bs)) \<and> well_formed_utf8 (drop n bs)"
  then obtain cp cps where cp: "scalar_value cp" "take n bs = utf8_encode cp"
      "\<forall>c\<in>set cps. scalar_value c" "drop n bs = concat (map utf8_encode cps)"
    by (auto simp: well_formed_utf8_def valid_seq_utf8_encode)
  then have "bs = concat (map utf8_encode (cp # cps))"
    using append_take_drop_id [of n bs] by simp
  moreover have "\<forall>c\<in>set (cp # cps). scalar_value c" using cp by simp
  ultimately show "well_formed_utf8 bs" unfolding well_formed_utf8_def by blast
qed

lemma multibyte_rows: "row \<in> set valid_ranges \<Longrightarrow> 2 \<le> length row \<Longrightarrow> \<forall>(lo, hi)\<in>set row. 128 \<le> unat lo"
  by (auto simp: valid_ranges_def)

lemma some_row_matches_stops:
  assumes "set rows \<subseteq> set valid_ranges" "2 \<le> n" "pos \<le> k" "k < length mem" "k < pos + n" "mem ! k = 0"
  shows "some_row_matches sg mem pos n rows = Some False"
  using assms
proof (induction rows)
  case (Cons row rows)
  have "row_matches sg mem pos row = Some False" if "length row = n"
    using that Cons.prems table_ranges_ok multibyte_rows [of row]
    by (intro row_matches_stops [of row pos k]) auto
  with Cons show ?case by simp
qed simp

lemma UTF8_char_validate_string:
  assumes "pos < length str"
  defines "n \<equiv> charlen_of (str ! pos)"
  shows "UTF8_char_validate sg (int (length str)) (str @ [0]) pos =
    Some (if pos + n \<le> length str \<and> valid_seq (map unat (take n (drop pos str))) then Some (pos + n) else None)"
proof (cases "pos + n \<le> length str")
  case True
  with assms UTF8_char_validate_within [of pos "str @ [0]" "int (length str)" sg] show ?thesis
    by (simp add: nth_append)
next
  case False
  with assms(1) have "2 \<le> n" by (auto simp: n_def charlen_of_eq split: if_splits)
  with False assms some_row_matches_stops [of valid_ranges n pos "length str" "str @ [0]" sg] show ?thesis
    by (simp add: UTF8_char_validate_def read_at_def nth_append n_def Let_def)
qed

lemma validate_loop_string:
  assumes "pos \<le> length str"
  shows "validate_loop sg (int (length str)) (str @ [0]) (Some pos) =
    Some (if well_formed_utf8 (drop pos str) then Some (length str) else None)"
  using assms
proof (induction "length str - pos" arbitrary: pos rule: less_induct)
  case less
  show ?case
  proof (cases "pos < length str")
    case False
    with less.prems show ?thesis
      by (simp add: validate_loop.simps well_formed_utf8_Nil)
  next
    case True
    let ?n = "charlen_of (str ! pos)"
    have hd: "hd (drop pos str) = str ! pos" "drop pos str \<noteq> []" using True by (simp_all add: hd_drop_conv_nth)
    have IH: "validate_loop sg (int (length str)) (str @ [0]) (Some (pos + ?n)) =
        Some (if well_formed_utf8 (drop (pos + ?n) str) then Some (length str) else None)"
      if "pos + ?n \<le> length str"
    proof -
      have "0 < ?n" by (simp add: charlen_of_def)
      with that True show ?thesis by (intro less.hyps) auto
    qed
    have nul: "validate_loop sg l m None = Some None" for l m
      by (simp add: validate_loop.simps)
    show ?thesis
      using True IH nul UTF8_char_validate_string [OF True, of sg]
        well_formed_utf8_unfold [OF hd(2), unfolded hd(1)]
      by (subst validate_loop.simps) (auto simp: add.commute)
  qed
qed

section \<open>Properties\<close>

lemma UTF8_validate_string: "UTF8_validate sg (int (length str)) (str @ [0]) = Some (if well_formed_utf8 str then 1 else 0)"
proof (cases "str = []")
  case True
  then show ?thesis by (simp add: UTF8_validate_def well_formed_utf8_Nil)
next
  case False
  then have "validate_loop sg (int (length str)) (str @ [0]) (Some 0) =
      Option.bind (UTF8_char_validate sg (int (length str)) (str @ [0]) 0)
        (validate_loop sg (int (length str)) (str @ [0]))"
    by (subst validate_loop.simps) (auto split: option.splits)
  with False validate_loop_string [of 0 str sg] show ?thesis
    by (cases "UTF8_char_validate sg (int (length str)) (str @ [0]) 0")
       (auto simp: UTF8_validate_def split: if_splits)
qed

lemma UTF8_validate_negative: "\<lbrakk>len < 0; mem \<noteq> []\<rbrakk> \<Longrightarrow> UTF8_validate sg len mem = Some 0"
  by (auto simp: UTF8_validate_def UTF8_char_validate_def read_at_def validate_loop.simps neq_Nil_conv)

text \<open>
  C31. \<open>UTF8_validateString\<close> returns 1 exactly for the strings that are a sequence of UTF-8 encodings
  of Unicode scalar values (no surrogates, no overlong forms, nothing above 0x10FFFF), whatever the
  signedness of \<open>char\<close>; it always returns and reads nothing beyond the terminating zero. That is for strings of
  less than \<open>2 ^ 31\<close> bytes; from there on the length becomes negative in the cast to \<open>int\<close>, and every string of
  less than \<open>2 ^ 32\<close> bytes is refused.
\<close>

theorem UTF8_validateString_correct:
  assumes "length str < 2 ^ 32"
  shows "UTF8_validateString sg str = Some (if length str < 2 ^ 31 \<and> well_formed_utf8 str then 1 else 0)"
proof (cases "length str < 2 ^ 31")
  case True
  then show ?thesis using UTF8_validate_string by (simp add: UTF8_validateString_def to_int32_small)
next
  case False
  then have "to_int32 (length str) < 0" using assms to_int32_large [of "length str"] by simp
  with False UTF8_validate_negative show ?thesis by (simp add: UTF8_validateString_def)
qed

theorem UTF8_validateString_correct_witness:
  "UTF8_validateString True [0x66, 0xC9, 0xB1] = Some 1 \<and> UTF8_validateString False [0x66, 0xC9] = Some 0"
proof -
  have "[0x66, 0xC9, 0xB1] = concat (map utf8_encode [0x66, 0x271])" by (simp add: utf8_encode_def utf8_encode_nat_def)
  moreover have "\<forall>cp\<in>set [0x66, 0x271]. scalar_value cp" by (simp add: scalar_value_def)
  ultimately have "well_formed_utf8 [0x66, 0xC9, 0xB1]" unfolding well_formed_utf8_def by blast
  moreover have "\<not> well_formed_utf8 [0x66, 0xC9]"
    using well_formed_utf8_unfold [of "[0x66, 0xC9]"] well_formed_utf8_unfold [of "[0xC9]"] by (simp add: charlen_of_eq)
  ultimately show ?thesis
    using UTF8_validateString_correct [of "[0x66, 0xC9, 0xB1]" True] UTF8_validateString_correct [of "[0x66, 0xC9]" False] by simp
qed

text \<open>A string of \<open>2 ^ 32\<close> bytes has the length 0 after the cast, and is accepted whatever it holds.\<close>

lemma UTF8_validateString_wraps: "length str = 2 ^ 32 \<Longrightarrow> UTF8_validateString sg str = Some 1"
  by (simp add: UTF8_validateString_def UTF8_validate_def to_int32_def)

text \<open>
  On a length-delimited buffer \<open>UTF8_validate\<close> passes the whole length, not the remaining one, for
  every character: a last character cut off by the length is completed with bytes beyond the buffer.
  Here the two given bytes are not well-formed, yet the answer depends on the third byte, and with
  no third byte the read is out of bounds.
\<close>

theorem UTF8_validate_overread:
  "UTF8_validate sg 2 [0x66, 0xC9, 0xB1] = Some 1 \<and> UTF8_validate sg 2 [0x66, 0xC9] = None \<and>
   \<not> well_formed_utf8 [0x66, 0xC9]"
proof -
  have "\<not> well_formed_utf8 [0xC9]"
    using well_formed_utf8_unfold [of "[0xC9]"] by (simp add: charlen_of_eq)
  then have "\<not> well_formed_utf8 [0x66, 0xC9]"
    using well_formed_utf8_unfold [of "[0x66, 0xC9]"] by (simp add: charlen_of_eq)
  then show ?thesis
    by (cases sg) (simp_all add: UTF8_validate_def UTF8_char_validate_def
        validate_loop.simps read_at_def charlen_of_eq valid_ranges_def char_val_def)
qed

end
