(* ===== verification/Clients.thy ===== *)
theory Clients
  imports LinkedList
begin

text \<open>
  The data of \<open>lib/Clients.h\<close> shared by the packet, protocol and persistence modules, and the two
  comparison callbacks of \<open>lib/Clients.c\<close>. Messages and publications are objects on the heap,
  referred to by address, so that two messages may share one publication; the lists of a client are
  the abstract lists of the linked list component.
\<close>

record networkHandles =
  nh_socket :: int
  nh_lastSent :: int
  nh_lastReceived :: int

record Publications =
  pbs_topic :: bytes
  pbs_topiclen :: int
  pbs_payload :: bytes
  pbs_payloadlen :: int
  pbs_refcount :: int

record Messages =
  msg_qos :: int
  msg_retain :: int
  msg_msgid :: int
  msg_publish :: addr
  msg_lastTouch :: int
  msg_nextMessageType :: nat
  msg_len :: int

record willMessages =
  will_topic :: bytes
  will_msg :: bytes
  will_retained :: int
  will_qos :: int

text \<open>
  The messages queued for the application (\<open>lib/MQTTPersistence.h\<close>); queue entries are not shared, so
  the queue holds them by value.
\<close>

record MQTTPersistence_message =
  pm_payloadlen :: int
  pm_payload :: bytes
  pm_qos :: int
  pm_retained :: int
  pm_dup :: int
  pm_msgid :: int

record MQTTPersistence_qEntry =
  qe_msg :: MQTTPersistence_message
  qe_topicName :: bytes
  qe_topicLen :: int
  qe_seqno :: "32 word"

record Clients =
  cl_clientID :: bytes
  cl_username :: "bytes option"
  cl_password :: "bytes option"
  cl_cleansession :: bool
  cl_connected :: bool
  cl_good :: bool
  cl_ping_outstanding :: bool
  cl_connect_state :: int
  cl_net :: networkHandles
  cl_msgID :: int
  cl_keepAliveInterval :: int
  cl_retryInterval :: int
  cl_maxInflightMessages :: int
  cl_will :: "willMessages option"
  cl_inboundMsgs :: "addr clist"
  cl_outboundMsgs :: "addr clist"
  cl_messageQueue :: "MQTTPersistence_qEntry clist"
  cl_qentry_seqno :: "32 word"
  cl_phandle :: bytes
  cl_persistence :: bool
  cl_MQTTVersion :: int

text \<open>\<open>strcmp\<close> compares up to the terminating zero.\<close>

definition c_string :: "bytes \<Rightarrow> bytes" where
  "c_string s = takeWhile (\<lambda>b. b \<noteq> 0) s"

definition clientIDCompare :: "Clients \<Rightarrow> bytes \<Rightarrow> bool" where
  "clientIDCompare client b \<longleftrightarrow> c_string (cl_clientID client) = c_string b"

definition clientSocketCompare :: "Clients \<Rightarrow> int \<Rightarrow> bool" where
  "clientSocketCompare client b \<longleftrightarrow> nh_socket (cl_net client) = b"

end
