(* ===== verification/Packet.thy ===== *)
theory Packet
  imports Clients
begin

text \<open>
  Reading and writing MQTT packets: \<open>lib/MQTTPacket.c\<close> and \<open>lib/MQTTPacketOut.c\<close>. Input buffers are
  the bytes that may be read, output buffers carry the size they were allocated with, and a read
  or write beyond either is \<open>None\<close>. The socket layer, the persistence module and the clock are
  arguments (\<open>net_ops\<close>) over an arbitrary world; \<open>Socket_putdatas\<close> and \<open>MQTTPersistence_put\<close> are
  modelled in their own theories.
\<close>

section \<open>Constants and headers\<close>

abbreviation (input) CONNECT :: nat where "CONNECT \<equiv> 1"
abbreviation (input) CONNACK :: nat where "CONNACK \<equiv> 2"
abbreviation (input) PUBLISH :: nat where "PUBLISH \<equiv> 3"
abbreviation (input) PUBACK :: nat where "PUBACK \<equiv> 4"
abbreviation (input) PUBREC :: nat where "PUBREC \<equiv> 5"
abbreviation (input) PUBREL :: nat where "PUBREL \<equiv> 6"
abbreviation (input) PUBCOMP :: nat where "PUBCOMP \<equiv> 7"
abbreviation (input) SUBSCRIBE :: nat where "SUBSCRIBE \<equiv> 8"
abbreviation (input) SUBACK :: nat where "SUBACK \<equiv> 9"
abbreviation (input) UNSUBSCRIBE :: nat where "UNSUBSCRIBE \<equiv> 10"
abbreviation (input) UNSUBACK :: nat where "UNSUBACK \<equiv> 11"
abbreviation (input) PINGREQ :: nat where "PINGREQ \<equiv> 12"
abbreviation (input) PINGRESP :: nat where "PINGRESP \<equiv> 13"
abbreviation (input) DISCONNECT :: nat where "DISCONNECT \<equiv> 14"

abbreviation (input) TCPSOCKET_COMPLETE :: int where "TCPSOCKET_COMPLETE \<equiv> 0"
abbreviation (input) SOCKET_ERROR :: int where "SOCKET_ERROR \<equiv> - 1"
abbreviation (input) TCPSOCKET_INTERRUPTED :: int where "TCPSOCKET_INTERRUPTED \<equiv> - 22"
abbreviation (input) BAD_MQTT_PACKET :: int where "BAD_MQTT_PACKET \<equiv> - 4"

definition packet_names :: "string list" where
  "packet_names =
    [''RESERVED'', ''CONNECT'', ''CONNACK'', ''PUBLISH'', ''PUBACK'', ''PUBREC'', ''PUBREL'',
     ''PUBCOMP'', ''SUBSCRIBE'', ''SUBACK'', ''UNSUBSCRIBE'', ''UNSUBACK'',
     ''PINGREQ'', ''PINGRESP'', ''DISCONNECT'']"

definition MQTTPacket_name :: "int \<Rightarrow> string" where
  "MQTTPacket_name ptype =
     (if ptype \<ge> 0 \<and> ptype \<le> int DISCONNECT then packet_names ! nat ptype else ''UNKNOWN'')"

text \<open>
  The \<open>Header\<close> union: one byte, read and written through its bit fields (retain, two bits of QoS,
  dup and the type nibble, from the least significant bit).
\<close>

type_synonym Header = byte

definition hdr_retain :: "Header \<Rightarrow> nat" where "hdr_retain h = unat (h AND 1)"
definition hdr_qos :: "Header \<Rightarrow> nat" where "hdr_qos h = unat (drop_bit 1 h AND 3)"
definition hdr_dup :: "Header \<Rightarrow> nat" where "hdr_dup h = unat (drop_bit 3 h AND 1)"
definition hdr_type :: "Header \<Rightarrow> nat" where "hdr_type h = unat (drop_bit 4 h)"

text \<open>Assigning all four fields; an assignment keeps the low bits of the value only.\<close>

definition mk_header :: "nat \<Rightarrow> int \<Rightarrow> int \<Rightarrow> int \<Rightarrow> Header" where
  "mk_header type dup qos retain =
     word_of_int ((int type mod 16) * 16 + (dup mod 2) * 8 + (qos mod 4) * 2 + retain mod 2)"

section \<open>Reading from a buffer\<close>

text \<open>A reader takes the buffer and the position of the pointer, and returns the new position.\<close>

definition peek :: "bytes \<Rightarrow> nat \<Rightarrow> byte option" where
  "peek data pos = (if pos < length data then Some (data ! pos) else None)"

definition readInt :: "bytes \<Rightarrow> nat \<Rightarrow> (int \<times> nat) option" where
  "readInt data pos = do {
     hi \<leftarrow> peek data pos;
     lo \<leftarrow> peek data (pos + 1);
     Some (256 * uint hi + uint lo, pos + 2)
   }"

definition readChar :: "bytes \<Rightarrow> nat \<Rightarrow> (byte \<times> nat) option" where
  "readChar data pos = do { c \<leftarrow> peek data pos; Some (c, pos + 1) }"

text \<open>
  \<open>readUTFlen\<close> returns the string (\<open>None\<close> for \<open>NULL\<close>), the length it read, if any, and the
  position. \<open>enddata\<close> is a position too. Copying the string reads the buffer.
\<close>

definition readUTFlen :: "bytes \<Rightarrow> nat \<Rightarrow> nat \<Rightarrow> (bytes option \<times> int option \<times> nat) option" where
  "readUTFlen data pos enddata =
     (if int enddata - int pos > 1 then do {
        (len, pos) \<leftarrow> readInt data pos;
        if int pos + len \<le> int enddata then
          (if pos + nat len \<le> length data
           then Some (Some (take (nat len) (drop pos data)), Some len, pos + nat len) else None)
        else Some (None, Some len, pos)
      }
      else Some (None, None, pos))"

definition readUTF :: "bytes \<Rightarrow> nat \<Rightarrow> nat \<Rightarrow> (bytes option \<times> nat) option" where
  "readUTF data pos enddata = do {
     (s, len, pos) \<leftarrow> readUTFlen data pos enddata;
     Some (s, pos)
   }"

section \<open>Writing to a buffer\<close>

text \<open>
  An output buffer as the writers see it: the size it was allocated with and the bytes written so
  far (the write pointer always stands at their end).
\<close>

record wbuf =
  wb_size :: nat
  wb_data :: bytes

definition wb_malloc :: "nat \<Rightarrow> wbuf" where
  "wb_malloc n = \<lparr>wb_size = n, wb_data = []\<rparr>"

definition wb_put :: "bytes \<Rightarrow> wbuf \<Rightarrow> wbuf option" where
  "wb_put bs w = (if bs = [] \<or> length (wb_data w) + length bs \<le> wb_size w
                  then Some (w\<lparr>wb_data := wb_data w @ bs\<rparr>) else None)"

text \<open>C's division and remainder truncate towards zero.\<close>

definition c_div :: "int \<Rightarrow> int \<Rightarrow> int" where
  "c_div a b = sgn a * sgn b * (\<bar>a\<bar> div \<bar>b\<bar>)"

definition c_mod :: "int \<Rightarrow> int \<Rightarrow> int" where
  "c_mod a b = a - c_div a b * b"

definition writeChar :: "byte \<Rightarrow> wbuf \<Rightarrow> wbuf option" where
  "writeChar c w = wb_put [c] w"

definition int_bytes :: "int \<Rightarrow> bytes" where
  "int_bytes n = [word_of_int (c_div n 256), word_of_int (c_mod n 256)]"

definition writeInt :: "int \<Rightarrow> wbuf \<Rightarrow> wbuf option" where
  "writeInt n w = do {
     w \<leftarrow> writeChar (word_of_int (c_div n 256)) w;
     writeChar (word_of_int (c_mod n 256)) w
   }"

text \<open>A C string: the bytes up to the first zero; \<open>to_int32\<close> is the cast of its length to \<open>int\<close>.\<close>

definition c_strlen :: "bytes \<Rightarrow> nat" where
  "c_strlen s = length (c_string s)"

definition writeUTF :: "bytes \<Rightarrow> wbuf \<Rightarrow> wbuf option" where
  "writeUTF str w = do {
     let len = c_strlen str;
     w \<leftarrow> writeInt (to_int32 len) w;
     wb_put (take len str) w
   }"

section \<open>The remaining length\<close>

text \<open>\<open>MQTTPacket_encode\<close>, the bytes it writes; \<open>length\<close> is a \<open>size_t\<close>.\<close>

fun MQTTPacket_encode :: "nat \<Rightarrow> bytes" where
  "MQTTPacket_encode n =
     (let d = word_of_nat (n mod 128) :: byte in
      if n div 128 > 0 then (d OR 0x80) # MQTTPacket_encode (n div 128) else [d])"

declare MQTTPacket_encode.simps [simp del]

text \<open>
  \<open>MQTTPacket_decode\<close> over any source of characters: \<open>getch\<close> returns a completion code and a
  character. The accumulated value is the one left in \<open>*value\<close>, also when an error is returned.
\<close>

function decode_loop :: "('w \<Rightarrow> int \<times> byte \<times> 'w) \<Rightarrow> nat \<Rightarrow> nat \<Rightarrow> nat \<Rightarrow> 'w \<Rightarrow> int \<times> nat \<times> 'w" where
  "decode_loop getch len multiplier value w =
     (if len + 1 > 4 then (SOCKET_ERROR, value, w)
      else (case getch w of (rc, c, w) \<Rightarrow>
        if rc \<noteq> TCPSOCKET_COMPLETE then (rc, value, w)
        else (let value = value + unat (c AND 127) * multiplier in
          if c AND 128 \<noteq> 0 then decode_loop getch (len + 1) (multiplier * 128) value w
          else (rc, value, w))))"
  by pat_completeness auto
termination
  by (relation "measure (\<lambda>(getch, len, multiplier, value, w). 5 - len)") auto

declare decode_loop.simps [simp del]

definition MQTTPacket_decode :: "('w \<Rightarrow> int \<times> byte \<times> 'w) \<Rightarrow> 'w \<Rightarrow> int \<times> nat \<times> 'w" where
  "MQTTPacket_decode getch w = decode_loop getch 0 1 0 w"

section \<open>Packet structures and their parsers\<close>

record Publish =
  pub_header :: Header
  pub_topic :: "bytes option"
  pub_topiclen :: int
  pub_msgId :: int
  pub_payload :: bytes
  pub_payloadlen :: int

record Ack =
  ack_header :: Header
  ack_msgId :: int

record Connack =
  cack_header :: Header
  cack_flags :: byte
  cack_rc :: byte

record Suback =
  sub_header :: Header
  sub_msgId :: int
  sub_qoss :: "int list"

datatype packet =
    PkPublish Publish
  | PkAck Ack
  | PkConnack Connack
  | PkSuback Suback
  | PkHeader Header

definition MQTTPacket_header_only :: "Header \<Rightarrow> bytes \<Rightarrow> nat \<Rightarrow> packet option" where
  "MQTTPacket_header_only aHeader data datalen = Some (PkHeader aHeader)"

text \<open>
  \<open>MQTTPacket_publish\<close>: \<open>None\<close> is an out-of-bounds read, \<open>Some None\<close> the \<open>NULL\<close> result for a
  topic that does not fit. The payload pointer stands for the readable bytes from there on, of
  which \<open>payloadlen\<close> belong to the packet; that length is computed on \<open>size_t\<close> and cast to
  \<open>int\<close>, so it is negative when the message id was read beyond the packet.
\<close>

definition MQTTPacket_publish :: "Header \<Rightarrow> bytes \<Rightarrow> nat \<Rightarrow> Publish option option" where
  "MQTTPacket_publish aHeader data datalen = do {
     (topic, tlen, cur) \<leftarrow> readUTFlen data 0 datalen;
     if topic = None then Some None
     else do {
       (msgId, cur) \<leftarrow> (if hdr_qos aHeader > 0 then readInt data cur else Some (0, cur));
       let payloadlen = int datalen - int cur;
       Some (Some \<lparr>pub_header = aHeader, pub_topic = topic, pub_topiclen = the tlen, pub_msgId = msgId,
                   pub_payload = take (nat payloadlen) (drop cur data), pub_payloadlen = payloadlen\<rparr>)
     }
   }"

definition MQTTPacket_ack :: "Header \<Rightarrow> bytes \<Rightarrow> nat \<Rightarrow> Ack option" where
  "MQTTPacket_ack aHeader data datalen = do {
     (msgId, cur) \<leftarrow> readInt data 0;
     Some \<lparr>ack_header = aHeader, ack_msgId = msgId\<rparr>
   }"

definition MQTTPacket_connack :: "Header \<Rightarrow> bytes \<Rightarrow> nat \<Rightarrow> Connack option" where
  "MQTTPacket_connack aHeader data datalen = do {
     (flags, cur) \<leftarrow> readChar data 0;
     (rc, cur) \<leftarrow> readChar data cur;
     Some \<lparr>cack_header = aHeader, cack_flags = flags, cack_rc = rc\<rparr>
   }"

function suback_loop :: "bytes \<Rightarrow> nat \<Rightarrow> nat \<Rightarrow> int list option" where
  "suback_loop data datalen cur =
     (if cur < datalen then
        Option.bind (peek data cur) (\<lambda>c. map_option ((#) (uint c)) (suback_loop data datalen (cur + 1)))
      else Some [])"
  by pat_completeness auto
termination
  by (relation "measure (\<lambda>(data, datalen, cur). datalen - cur)") auto

declare suback_loop.simps [simp del]

definition MQTTPacket_suback :: "Header \<Rightarrow> bytes \<Rightarrow> nat \<Rightarrow> Suback option" where
  "MQTTPacket_suback aHeader data datalen = do {
     (msgId, cur) \<leftarrow> readInt data 0;
     qoss \<leftarrow> suback_loop data datalen cur;
     Some \<lparr>sub_header = aHeader, sub_msgId = msgId, sub_qoss = qoss\<rparr>
   }"

text \<open>
  The table \<open>new_packets\<close>: which types have a constructor, and its result (\<open>None\<close> undefined
  behaviour, \<open>Some None\<close> a \<open>NULL\<close> packet).
\<close>

definition new_packets :: "nat \<Rightarrow> (Header \<Rightarrow> bytes \<Rightarrow> nat \<Rightarrow> packet option option) option" where
  "new_packets ptype =
     (if ptype = CONNACK then Some (\<lambda>h d n. map_option (Some \<circ> PkConnack) (MQTTPacket_connack h d n))
      else if ptype = PUBLISH then Some (\<lambda>h d n. map_option (map_option PkPublish) (MQTTPacket_publish h d n))
      else if ptype \<in> {PUBACK, PUBREC, PUBREL, PUBCOMP, UNSUBACK}
        then Some (\<lambda>h d n. map_option (Some \<circ> PkAck) (MQTTPacket_ack h d n))
      else if ptype = SUBACK then Some (\<lambda>h d n. map_option (Some \<circ> PkSuback) (MQTTPacket_suback h d n))
      else if ptype \<in> {PINGREQ, PINGRESP, DISCONNECT}
        then Some (\<lambda>h d n. Some (MQTTPacket_header_only h d n))
      else None)"

section \<open>What the packet layer calls\<close>

record 'w net_ops =
  op_getch :: "'w \<Rightarrow> int \<Rightarrow> int \<times> byte \<times> 'w"
  op_getdata :: "'w \<Rightarrow> int \<Rightarrow> nat \<Rightarrow> bytes option \<times> nat \<times> 'w"
  op_putdatas :: "'w \<Rightarrow> int \<Rightarrow> bytes \<Rightarrow> bytes list \<Rightarrow> bool list \<Rightarrow> (int \<times> 'w) option"
  op_persist_put :: "'w \<Rightarrow> int \<Rightarrow> bytes \<Rightarrow> bytes list \<Rightarrow> nat \<Rightarrow> int \<Rightarrow> int \<Rightarrow> int \<times> 'w"
  op_time :: "'w \<Rightarrow> int"

section \<open>Receiving\<close>

text \<open>
  The last part of \<open>MQTTPacket_Factory\<close>, once all the data of the packet have arrived: the
  constructor of the packet type, persistence of an incoming QoS 2 PUBLISH and the receive time.
  \<open>error\<close> is the code the calls before left.
\<close>

definition factory_construct ::
    "'w net_ops \<Rightarrow> networkHandles \<Rightarrow> int \<Rightarrow> Header \<Rightarrow> bytes \<Rightarrow> nat \<Rightarrow> 'w \<Rightarrow>
     (packet option \<times> int \<times> networkHandles \<times> 'w) option" where
  "factory_construct ops net error header data remaining_length w =
     (case new_packets (hdr_type header) of
        None \<Rightarrow> Some (None, error, net, w)
      | Some f \<Rightarrow> do {
          pack \<leftarrow> f header data remaining_length;
          (case pack of
             None \<Rightarrow> Some (None, BAD_MQTT_PACKET, net, w)
           | Some pk \<Rightarrow>
               let (error, w) = (case pk of
                     PkPublish p \<Rightarrow>
                       if hdr_type header = PUBLISH \<and> hdr_qos header = 2
                       then op_persist_put ops w (nh_socket net)
                              (header # MQTTPacket_encode remaining_length)
                              [take remaining_length data] (hdr_type header) (pub_msgId p) 1
                       else (error, w)
                   | _ \<Rightarrow> (error, w))
               in Some (Some pk, error, net\<lparr>nh_lastReceived := op_time ops w\<rparr>, w))
        })"

text \<open>
  \<open>MQTTPacket_Factory\<close>: the packet, if any, and the error code.
\<close>

definition MQTTPacket_Factory ::
    "'w net_ops \<Rightarrow> networkHandles \<Rightarrow> 'w \<Rightarrow> (packet option \<times> int \<times> networkHandles \<times> 'w) option" where
  "MQTTPacket_Factory ops net w =
     (case op_getch ops w (nh_socket net) of (error, header, w) \<Rightarrow>
      if error \<noteq> TCPSOCKET_COMPLETE then Some (None, error, net, w)
      else case MQTTPacket_decode (\<lambda>w. op_getch ops w (nh_socket net)) w of (error, remaining_length, w) \<Rightarrow>
      if error \<noteq> TCPSOCKET_COMPLETE then Some (None, error, net, w)
      else case op_getdata ops w (nh_socket net) remaining_length of (data, actual_len, w) \<Rightarrow>
      (case data of None \<Rightarrow> Some (None, SOCKET_ERROR, net, w)
       | Some data \<Rightarrow>
         if actual_len \<noteq> remaining_length then Some (None, TCPSOCKET_INTERRUPTED, net, w)
         else factory_construct ops net error header data remaining_length w))"

section \<open>Sending\<close>

definition MQTTPacket_send ::
    "'w net_ops \<Rightarrow> networkHandles \<Rightarrow> Header \<Rightarrow> bytes \<Rightarrow> bool \<Rightarrow> 'w \<Rightarrow> (int \<times> networkHandles \<times> 'w) option" where
  "MQTTPacket_send ops net header buffer free w = do {
     let buf = header # MQTTPacket_encode (length buffer);
     w \<leftarrow> (if hdr_type header = PUBREL then do {
             (msgId, ptraux) \<leftarrow> readInt buffer 0;
             Some (snd (op_persist_put ops w (nh_socket net) buf [buffer] (hdr_type header) msgId 0))
           } else Some w);
     (rc, w) \<leftarrow> op_putdatas ops w (nh_socket net) buf [buffer] [free];
     Some (rc, if rc = TCPSOCKET_COMPLETE then net\<lparr>nh_lastSent := op_time ops w\<rparr> else net, w)
   }"

definition MQTTPacket_sends ::
    "'w net_ops \<Rightarrow> networkHandles \<Rightarrow> Header \<Rightarrow> bytes list \<Rightarrow> bool list \<Rightarrow> 'w \<Rightarrow>
     (int \<times> networkHandles \<times> 'w) option" where
  "MQTTPacket_sends ops net header buffers frees w = do {
     let total = sum_list (map length buffers);
     let buf = header # MQTTPacket_encode total;
     w \<leftarrow> (if hdr_type header = PUBLISH \<and> hdr_qos header \<noteq> 0 then
             (if length buffers \<le> 2 then None else do {
               (msgId, ptraux) \<leftarrow> readInt (buffers ! 2) 0;
               Some (snd (op_persist_put ops w (nh_socket net) buf buffers (hdr_type header) msgId 0))
             }) else Some w);
     (rc, w) \<leftarrow> op_putdatas ops w (nh_socket net) buf buffers frees;
     Some (rc, if rc = TCPSOCKET_COMPLETE then net\<lparr>nh_lastSent := op_time ops w\<rparr> else net, w)
   }"

definition MQTTPacket_send_disconnect ::
    "'w net_ops \<Rightarrow> networkHandles \<Rightarrow> 'w \<Rightarrow> (int \<times> networkHandles \<times> 'w) option" where
  "MQTTPacket_send_disconnect ops net w = MQTTPacket_send ops net (mk_header DISCONNECT 0 0 0) [] False w"

definition MQTTPacket_send_ack ::
    "'w net_ops \<Rightarrow> nat \<Rightarrow> int \<Rightarrow> int \<Rightarrow> networkHandles \<Rightarrow> 'w \<Rightarrow> (int \<times> networkHandles \<times> 'w) option" where
  "MQTTPacket_send_ack ops type msgid dup net w = do {
     let header = mk_header type dup (if type = PUBREL then 1 else 0) 0;
     buf \<leftarrow> writeInt msgid (wb_malloc 2);
     MQTTPacket_send ops net header (wb_data buf) True w
   }"

definition MQTTPacket_send_puback where
  "MQTTPacket_send_puback ops msgid net w = MQTTPacket_send_ack ops PUBACK msgid 0 net w"

definition MQTTPacket_send_pubrec where
  "MQTTPacket_send_pubrec ops msgid net w = MQTTPacket_send_ack ops PUBREC msgid 0 net w"

definition MQTTPacket_send_pubrel where
  "MQTTPacket_send_pubrel ops msgid dup net w = MQTTPacket_send_ack ops PUBREL msgid dup net w"

definition MQTTPacket_send_pubcomp where
  "MQTTPacket_send_pubcomp ops msgid net w = MQTTPacket_send_ack ops PUBCOMP msgid 0 net w"

text \<open>
  \<open>MQTTPacket_send_publish\<close>: the payload buffer must hold the \<open>payloadlen\<close> bytes that are sent.
\<close>

definition MQTTPacket_send_publish ::
    "'w net_ops \<Rightarrow> Publish \<Rightarrow> int \<Rightarrow> int \<Rightarrow> int \<Rightarrow> networkHandles \<Rightarrow> 'w \<Rightarrow>
     (int \<times> networkHandles \<times> 'w) option" where
  "MQTTPacket_send_publish ops pack dup qos retained net w = do {
     topic \<leftarrow> pub_topic pack;
     let header = mk_header PUBLISH dup qos retained;
     payload \<leftarrow> (if 0 \<le> pub_payloadlen pack \<and> nat (pub_payloadlen pack) \<le> length (pub_payload pack)
                 then Some (take (nat (pub_payloadlen pack)) (pub_payload pack)) else None);
     topiclen \<leftarrow> writeInt (to_int32 (c_strlen topic)) (wb_malloc 2);
     if qos > 0 then do {
       buf \<leftarrow> writeInt (pub_msgId pack) (wb_malloc 2);
       MQTTPacket_sends ops net header [wb_data topiclen, c_string topic, wb_data buf, payload]
         [True, False, True, False] w
     }
     else MQTTPacket_sends ops net header [wb_data topiclen, c_string topic, payload] [True, False, False] w
   }"

definition MQTTPacket_send_pingreq ::
    "'w net_ops \<Rightarrow> networkHandles \<Rightarrow> 'w \<Rightarrow> (int \<times> networkHandles \<times> 'w) option" where
  "MQTTPacket_send_pingreq ops net w = MQTTPacket_send ops net (mk_header PINGREQ 0 0 0) [] False w"

text \<open>
  The CONNECT packet. \<open>connect_len\<close> is the size computed for the buffer, \<open>connect_flags\<close> the flags
  byte; the buffer is sent with the computed length, so what was written must fill it.
\<close>

definition connect_len :: "Clients \<Rightarrow> int \<Rightarrow> nat" where
  "connect_len client version =
     (if version = 3 then 12 else 10) + c_strlen (cl_clientID client) + 2 +
     (case cl_will client of None \<Rightarrow> 0
      | Some wm \<Rightarrow> c_strlen (will_topic wm) + 2 + c_strlen (will_msg wm) + 2) +
     (case cl_username client of None \<Rightarrow> 0 | Some u \<Rightarrow> c_strlen u + 2) +
     (case cl_password client of None \<Rightarrow> 0 | Some u \<Rightarrow> c_strlen u + 2)"

definition connect_flags :: "Clients \<Rightarrow> byte" where
  "connect_flags client = word_of_int
     ((if cl_cleansession client then 2 else 0) +
      (case cl_will client of None \<Rightarrow> 0
       | Some wm \<Rightarrow> 4 + (will_qos wm mod 4) * 8 + (will_retained wm mod 2) * 32) +
      (if cl_password client \<noteq> None then 64 else 0) + (if cl_username client \<noteq> None then 128 else 0))"

definition write_opt_UTF :: "bytes option \<Rightarrow> wbuf \<Rightarrow> wbuf option" where
  "write_opt_UTF s b = (case s of None \<Rightarrow> Some b | Some u \<Rightarrow> writeUTF u b)"

definition ascii_bytes :: "string \<Rightarrow> bytes" where
  "ascii_bytes s = map (\<lambda>c. of_char c) s"

definition connect_buffer :: "Clients \<Rightarrow> int \<Rightarrow> wbuf option" where
  "connect_buffer client version = do {
     let b = wb_malloc (connect_len client version);
     b \<leftarrow> writeUTF (ascii_bytes (if version = 3 then ''MQIsdp'' else ''MQTT'')) b;
     b \<leftarrow> writeChar (word_of_int version) b;
     b \<leftarrow> writeChar (connect_flags client) b;
     b \<leftarrow> writeInt (cl_keepAliveInterval client) b;
     b \<leftarrow> writeUTF (cl_clientID client) b;
     b \<leftarrow> (case cl_will client of None \<Rightarrow> Some b
           | Some wm \<Rightarrow> do { b \<leftarrow> writeUTF (will_topic wm) b; writeUTF (will_msg wm) b });
     b \<leftarrow> write_opt_UTF (cl_username client) b;
     write_opt_UTF (cl_password client) b
   }"

definition MQTTPacket_send_connect ::
    "'w net_ops \<Rightarrow> Clients \<Rightarrow> int \<Rightarrow> 'w \<Rightarrow> (int \<times> Clients \<times> 'w) option" where
  "MQTTPacket_send_connect ops client version w =
     (if version \<noteq> 3 \<and> version \<noteq> 4 then Some (-1, client, w)
      else do {
        b \<leftarrow> connect_buffer client version;
        buffer \<leftarrow> (if length (wb_data b) = wb_size b then Some (wb_data b) else None);
        (rc, net, w) \<leftarrow> MQTTPacket_send ops (cl_net client) (mk_header CONNECT 0 0 0) buffer True w;
        Some (rc, client\<lparr>cl_net := net\<rparr>, w)
      })"

text \<open>
  SUBSCRIBE and UNSUBSCRIBE; the QoS list is walked in step with the topics, and dereferencing its
  end is undefined behaviour.
\<close>

fun subscribe_loop :: "bytes list \<Rightarrow> int list \<Rightarrow> wbuf \<Rightarrow> wbuf option" where
  "subscribe_loop [] qoss b = Some b"
| "subscribe_loop (t # ts) [] b = None"
| "subscribe_loop (t # ts) (q # qs) b = do {
     b \<leftarrow> writeUTF t b;
     b \<leftarrow> writeChar (word_of_int q) b;
     subscribe_loop ts qs b
   }"

definition MQTTPacket_send_subscribe ::
    "'w net_ops \<Rightarrow> bytes list \<Rightarrow> int list \<Rightarrow> int \<Rightarrow> int \<Rightarrow> networkHandles \<Rightarrow> 'w \<Rightarrow>
     (int \<times> networkHandles \<times> 'w) option" where
  "MQTTPacket_send_subscribe ops topics qoss msgid dup net w = do {
     let header = mk_header SUBSCRIBE dup 1 0;
     let datalen = 2 + length topics * 3 + sum_list (map c_strlen topics);
     b \<leftarrow> writeInt msgid (wb_malloc datalen);
     b \<leftarrow> subscribe_loop topics qoss b;
     buffer \<leftarrow> (if length (wb_data b) = wb_size b then Some (wb_data b) else None);
     MQTTPacket_send ops net header buffer True w
   }"

fun unsubscribe_loop :: "bytes list \<Rightarrow> wbuf \<Rightarrow> wbuf option" where
  "unsubscribe_loop [] b = Some b"
| "unsubscribe_loop (t # ts) b = do { b \<leftarrow> writeUTF t b; unsubscribe_loop ts b }"

definition MQTTPacket_send_unsubscribe ::
    "'w net_ops \<Rightarrow> bytes list \<Rightarrow> int \<Rightarrow> int \<Rightarrow> networkHandles \<Rightarrow> 'w \<Rightarrow>
     (int \<times> networkHandles \<times> 'w) option" where
  "MQTTPacket_send_unsubscribe ops topics msgid dup net w = do {
     let header = mk_header UNSUBSCRIBE dup 1 0;
     let datalen = 2 + length topics * 2 + sum_list (map c_strlen topics);
     b \<leftarrow> writeInt msgid (wb_malloc datalen);
     b \<leftarrow> unsubscribe_loop topics b;
     buffer \<leftarrow> (if length (wb_data b) = wb_size b then Some (wb_data b) else None);
     MQTTPacket_send ops net header buffer True w
   }"

section \<open>Headers\<close>

lemma hdr_fields:
  "hdr_type h = unat h div 16" "hdr_dup h = unat h div 8 mod 2" "hdr_qos h = unat h div 2 mod 4"
  "hdr_retain h = unat h mod 2"
  by (simp_all add: hdr_type_def hdr_dup_def hdr_qos_def hdr_retain_def byte_and_1 byte_and_3
      byte_drop_bit del: One_nat_def)

lemma field_bounds: "nat (d mod 2) < 2" "nat (q mod 4) < 4" "nat (r mod 2) < 2"
  by (simp_all add: nat_less_iff)

lemma unat_of_nat_byte: "n < 256 \<Longrightarrow> unat (word_of_nat n :: byte) = n"
  by (simp add: unat_of_nat)

lemma unat_mk_header:
  "unat (mk_header t d q r) = (t mod 16) * 16 + nat (d mod 2) * 8 + nat (q mod 4) * 2 + nat (r mod 2)"
proof -
  let ?n = "(t mod 16) * 16 + nat (d mod 2) * 8 + nat (q mod 4) * 2 + nat (r mod 2)"
  have lt: "?n < 256" using field_bounds(1) [of d] field_bounds(2) [of q] field_bounds(3) [of r] mod_less_divisor [of 16 t] by linarith
  have "mk_header t d q r = word_of_nat ?n"
    unfolding mk_header_def zmod_int [of t 16, simplified, symmetric] by simp
  moreover have "unat (word_of_nat ?n :: byte) = ?n" by (rule unat_of_nat_byte [OF lt])
  ultimately show ?thesis by (simp only:)
qed

lemma hdr_mk_header [codec_simps]:
  "hdr_type (mk_header t d q r) = t mod 16" "hdr_dup (mk_header t d q r) = nat (d mod 2)"
  "hdr_qos (mk_header t d q r) = nat (q mod 4)" "hdr_retain (mk_header t d q r) = nat (r mod 2)"
proof -
  have pack: "(a * 16 + b * 8 + c * 2 + e) div 16 = a" "(a * 16 + b * 8 + c * 2 + e) div 8 mod 2 = b"
    "(a * 16 + b * 8 + c * 2 + e) div 2 mod 4 = c" "(a * 16 + b * 8 + c * 2 + e) mod 2 = e"
    if "b < 2" "c < 4" "e < 2" for a b c e :: nat
  proof -
    have "b = 0 \<or> b = 1" "c = 0 \<or> c = 1 \<or> c = 2 \<or> c = 3" "e = 0 \<or> e = 1" using that by auto
    then show "(a * 16 + b * 8 + c * 2 + e) div 16 = a" "(a * 16 + b * 8 + c * 2 + e) div 8 mod 2 = b"
      "(a * 16 + b * 8 + c * 2 + e) div 2 mod 4 = c" "(a * 16 + b * 8 + c * 2 + e) mod 2 = e"
      by (elim disjE; simp; presburger)+
  qed
  note pk = pack [OF field_bounds(1) [of d] field_bounds(2) [of q] field_bounds(3) [of r], of "t mod 16"]
  show "hdr_type (mk_header t d q r) = t mod 16" "hdr_dup (mk_header t d q r) = nat (d mod 2)"
    "hdr_qos (mk_header t d q r) = nat (q mod 4)" "hdr_retain (mk_header t d q r) = nat (r mod 2)"
    unfolding hdr_fields unat_mk_header by (fact pk)+
qed

section \<open>Integers and strings\<close>

lemma c_div_mod_pos: "0 \<le> n \<Longrightarrow> c_div n 256 = n div 256" "0 \<le> n \<Longrightarrow> c_mod n 256 = n mod 256"
  by (auto simp: c_div_def c_mod_def sgn_if minus_div_mult_eq_mod)

lemma readInt_int_bytes:
  assumes "0 \<le> n" "n < 65536"
  shows "readInt (pre @ int_bytes n @ post) (length pre) = Some (n, length pre + 2)"
proof -
  have "uint (word_of_int (n div 256) :: byte) = n div 256"
    using assms by (simp add: uint_word_of_int)
  moreover have "uint (word_of_int (n mod 256) :: byte) = n mod 256"
    by (simp add: uint_word_of_int)
  ultimately show ?thesis
    using assms by (simp add: readInt_def peek_def int_bytes_def nth_append c_div_mod_pos)
qed

lemma length_int_bytes [simp]: "length (int_bytes n) = 2"
  by (simp add: int_bytes_def)

lemma readUTFlen_written:
  assumes "length t < 65536" "length pre + 2 + length t \<le> enddata"
  shows "readUTFlen (pre @ int_bytes (int (length t)) @ t @ post) (length pre) enddata =
    Some (Some t, Some (int (length t)), length pre + 2 + length t)"
  using assms readInt_int_bytes [of "int (length t)" pre "t @ post"]
  by (simp add: readUTFlen_def)

text \<open>Consecutive writes are one write of the concatenation.\<close>

lemma wb_put_put: "Option.bind (wb_put a w) (wb_put b) = wb_put (a @ b) w"
  by (auto simp: wb_put_def)

lemma wb_put_bind:
  "Option.bind (wb_put a w) (\<lambda>w. Option.bind (wb_put b w) f) = Option.bind (wb_put (a @ b) w) f"
  by (auto simp: wb_put_def)

lemma wb_put_Nil [simp]: "wb_put [] w = Some w"
  by (simp add: wb_put_def)

lemma writeInt_put: "writeInt n w = wb_put (int_bytes n) w"
  using wb_put_put [of "[word_of_int (c_div n 256)]" w "[word_of_int (c_mod n 256)]"]
  by (simp add: writeInt_def writeChar_def int_bytes_def)

definition utf_bytes :: "bytes \<Rightarrow> bytes" where
  "utf_bytes s = int_bytes (to_int32 (c_strlen s)) @ c_string s"

lemma take_c_strlen: "take (c_strlen s) s = c_string s"
  unfolding c_strlen_def c_string_def by (metis takeWhile_eq_take)

lemma writeUTF_put: "writeUTF s w = wb_put (utf_bytes s) w"
  using wb_put_put [of "int_bytes (to_int32 (c_strlen s))" w "c_string s"]
  by (simp add: writeUTF_def writeInt_put utf_bytes_def take_c_strlen)

lemma length_utf_bytes [simp]: "length (utf_bytes s) = 2 + c_strlen s"
  by (simp add: utf_bytes_def c_strlen_def)

lemma wb_put_malloc: "wb_put bs (wb_malloc n) = (if length bs \<le> n then Some \<lparr>wb_size = n, wb_data = bs\<rparr> else None)"
  by (simp add: wb_put_def wb_malloc_def)

section \<open>The remaining length\<close>

text \<open>The bytes a source delivers one after the other, each with completion code 0.\<close>

fun gives :: "('w \<Rightarrow> int \<times> byte \<times> 'w) \<Rightarrow> 'w \<Rightarrow> bytes \<Rightarrow> 'w \<Rightarrow> bool" where
  "gives getch w [] w' \<longleftrightarrow> w' = w"
| "gives getch w (b # bs) w' \<longleftrightarrow> (\<exists>w1. getch w = (TCPSOCKET_COMPLETE, b, w1) \<and> gives getch w1 bs w')"

lemma unat_digit: "unat (word_of_nat (n mod 128) :: byte) = n mod 128"
  using mod_less_divisor [of 128 n] by (simp add: unat_of_nat)

lemma digit_bits:
  "unat ((word_of_nat (n mod 128) :: byte) AND 127) = n mod 128"
  "(word_of_nat (n mod 128) :: byte) AND 128 = 0"
  "unat (((word_of_nat (n mod 128) :: byte) OR 0x80) AND 127) = n mod 128"
  "((word_of_nat (n mod 128) :: byte) OR 0x80) AND 128 \<noteq> 0"
  using mod_less_divisor [of 128 n]
  by (simp_all only: byte_and_127 byte_and_128 byte_or_80 unat_digit) simp_all

lemma decode_encode_loop:
  assumes "gives getch w (MQTTPacket_encode n) w'" "len < 4" "n < 128 ^ (4 - len)"
  shows "decode_loop getch len m v w = (TCPSOCKET_COMPLETE, v + n * m, w')"
  using assms
proof (induction n arbitrary: len m v w rule: MQTTPacket_encode.induct)
  case (1 n)
  let ?d = "word_of_nat (n mod 128) :: byte"
  show ?case
  proof (cases "n div 128 > 0")
    case True
    with "1.prems" obtain w1 where w1: "getch w = (0, ?d OR 0x80, w1)"
        "gives getch w1 (MQTTPacket_encode (n div 128)) w'"
      by (auto simp: MQTTPacket_encode.simps [of n] Let_def)
    have len: "len + 1 < 4"
    proof (rule ccontr)
      assume "\<not> len + 1 < 4"
      then have "4 - len = 1" using "1.prems" by simp
      with "1.prems" True show False by simp
    qed
    then have "4 - len = Suc (4 - (len + 1))" by simp
    with "1.prems"(3) have "n < 128 * 128 ^ (4 - (len + 1))" by simp
    then have "n div 128 < 128 ^ (4 - (len + 1))" by (simp add: div_less_iff_less_mult mult.commute)
    with "1.IH" [OF refl True w1(2) len]
    have "decode_loop getch (len + 1) (m * 128) (v + n mod 128 * m) w1 =
        (0, v + n mod 128 * m + n div 128 * (m * 128), w')" by blast
    moreover have "v + n mod 128 * m + n div 128 * (m * 128) = v + n * m"
      by (metis add.assoc add_mult_distrib add.commute div_mult_mod_eq mult.assoc mult.commute)
    ultimately show ?thesis using w1 len
      by (simp add: decode_loop.simps [of getch len] digit_bits)
  next
    case False
    with "1.prems" have "getch w = (0, ?d, w')" "n mod 128 = n"
      by (auto simp: MQTTPacket_encode.simps [of n] Let_def)
    with "1.prems" digit_bits [of n] show ?thesis
      by (simp add: decode_loop.simps [of getch len])
  qed
qed

lemma encode_length_le: "n < 128 ^ Suc k \<Longrightarrow> length (MQTTPacket_encode n) \<le> Suc k"
proof (induction k arbitrary: n)
  case 0
  then show ?case by (subst MQTTPacket_encode.simps) (simp add: Let_def)
next
  case (Suc k)
  then have "n div 128 < 128 ^ Suc k" by (simp add: div_less_iff_less_mult mult.commute)
  with Suc.IH show ?case by (subst MQTTPacket_encode.simps) (simp add: Let_def)
qed

lemma encode_length_gt: "128 ^ Suc k \<le> n \<Longrightarrow> Suc k < length (MQTTPacket_encode n)"
proof (induction k arbitrary: n)
  case 0
  then have "0 < n div 128" by (simp add: div_greater_zero_iff)
  then show ?case
    by (subst MQTTPacket_encode.simps) (simp add: Let_def, subst MQTTPacket_encode.simps, simp add: Let_def)
next
  case (Suc k)
  then have "128 ^ Suc k \<le> n div 128" by (simp add: less_eq_div_iff_mult_less_eq mult.commute)
  moreover from this have "0 < n div 128" by (metis gr0I le_0_eq power_not_zero zero_neq_numeral)
  ultimately show ?case using Suc.IH by (subst MQTTPacket_encode.simps) (simp add: Let_def)
qed

lemma decode_loop_bound:
  assumes "decode_loop getch len m v w = (rc, v', w')" "m = 128 ^ len" "v < 128 ^ len" "len \<le> 4"
  shows "v' < 128 ^ 4"
  using assms
proof (induction getch len m v w rule: decode_loop.induct)
  case (1 getch len m v w)
  show ?case
  proof (cases "len = 4")
    case True
    with 1 show ?thesis by (simp add: decode_loop.simps)
  next
    case False
    obtain r c w1 where g: "getch w = (r, c, w1)" by (cases "getch w") auto
    have small: "v + unat (c AND 127) * m < 128 ^ Suc len"
    proof -
      have "unat (c AND 127) \<le> 127" using mod_less_divisor [of 128 "unat c"] by (simp add: byte_and_127)
      then have "unat (c AND 127) * 128 ^ len \<le> 127 * 128 ^ len" by (rule mult_le_mono1)
      with "1.prems"(2,3) show ?thesis unfolding power_Suc "1.prems"(2) by linarith
    qed
    have le: "(128::nat) ^ k \<le> 128 ^ 4" if "k \<le> 4" for k
      using that by (rule power_increasing) simp
    consider "r \<noteq> 0" | "r = 0" "c AND 128 \<noteq> 0" | "r = 0" "c AND 128 = 0" by blast
    then show ?thesis
    proof cases
      case 1
      with "1.prems" False g le [of len] show ?thesis by (auto simp: decode_loop.simps [of getch len])
    next
      case 2
      with "1.prems" False g small "1.IH" [OF _ g [symmetric] refl] show ?thesis
        by (auto simp: decode_loop.simps [of getch len] mult.commute)
    next
      case 3
      with "1.prems" False g small le [of "Suc len"] show ?thesis
        by (auto simp: decode_loop.simps [of getch len])
    qed
  qed
qed

text \<open>
  The remaining-length codec is a round trip over any source of characters: when the source
  delivers the bytes \<open>MQTTPacket_encode\<close> writes for a length below 268435456 (the MQTT limit),
  \<open>MQTTPacket_decode\<close> returns that length, has consumed exactly these bytes and reports no error.
\<close>

theorem MQTTPacket_decode_encode:
  assumes "gives getch w (MQTTPacket_encode n) w'" and "n < 268435456"
  shows "MQTTPacket_decode getch w = (TCPSOCKET_COMPLETE, n, w')"
  using decode_encode_loop [OF assms(1), of 0 1 0] assms(2) by (simp add: MQTTPacket_decode_def)

definition list_getch :: "bytes \<Rightarrow> int \<times> byte \<times> bytes" where
  "list_getch s = (case s of [] \<Rightarrow> (SOCKET_ERROR, 0, []) | b # bs \<Rightarrow> (TCPSOCKET_COMPLETE, b, bs))"

lemma encode_321: "MQTTPacket_encode 321 = [193, 2]"
  by (simp add: MQTTPacket_encode.simps [of 321] MQTTPacket_encode.simps [of 2])

theorem MQTTPacket_decode_encode_witness:
  "MQTTPacket_decode list_getch [193, 2, 7] = (0, 321, [7])"
  by (rule MQTTPacket_decode_encode) (simp_all add: encode_321 list_getch_def)

text \<open>
  Bounds of the remaining-length codec: an encoded length takes at most four bytes exactly when
  it is below 268435456, and at most nine (so that it fits the ten-byte header buffer of
  \<open>MQTTPacket_send\<close> behind the header byte) exactly when it is below \<open>2 ^ 63\<close>; whatever the source
  delivers, \<open>MQTTPacket_decode\<close> stops and the value it leaves is below 268435456.
\<close>

theorem MQTTPacket_length_bounds:
  "(length (MQTTPacket_encode n) \<le> 4 \<longleftrightarrow> n < 268435456) \<and>
   (length (MQTTPacket_encode n) \<le> 9 \<longleftrightarrow> n < 2 ^ 63) \<and>
   fst (snd (MQTTPacket_decode getch w)) < 268435456"
proof -
  have "length (MQTTPacket_encode n) \<le> Suc k \<longleftrightarrow> n < 128 ^ Suc k" for k
    using encode_length_le [of n k] encode_length_gt [of k n] by (meson linorder_not_le)
  from this [of 3] this [of 8] have "length (MQTTPacket_encode n) \<le> 4 \<longleftrightarrow> n < 268435456"
    "length (MQTTPacket_encode n) \<le> 9 \<longleftrightarrow> n < 2 ^ 63" by simp_all
  moreover obtain rc v w' where "MQTTPacket_decode getch w = (rc, v, w')"
    by (cases "MQTTPacket_decode getch w") auto
  moreover from this decode_loop_bound [of getch 0 1 0 w rc v w'] have "v < 268435456"
    by (simp add: MQTTPacket_decode_def)
  ultimately show ?thesis by simp
qed

section \<open>What is sent\<close>

text \<open>The CONNECT payload, as the MQTT specification lays it out.\<close>

definition opt_utf_bytes :: "bytes option \<Rightarrow> bytes" where
  "opt_utf_bytes s = (case s of None \<Rightarrow> [] | Some u \<Rightarrow> utf_bytes u)"

definition connect_payload :: "Clients \<Rightarrow> int \<Rightarrow> bytes" where
  "connect_payload client version =
     utf_bytes (ascii_bytes (if version = 3 then ''MQIsdp'' else ''MQTT'')) @
     [word_of_int version, connect_flags client] @ int_bytes (cl_keepAliveInterval client) @
     utf_bytes (cl_clientID client) @
     (case cl_will client of None \<Rightarrow> [] | Some wm \<Rightarrow> utf_bytes (will_topic wm) @ utf_bytes (will_msg wm)) @
     opt_utf_bytes (cl_username client) @ opt_utf_bytes (cl_password client)"

lemma write_opt_UTF_put: "write_opt_UTF s = wb_put (opt_utf_bytes s)"
  by (rule ext) (auto simp: write_opt_UTF_def opt_utf_bytes_def writeUTF_put wb_put_def split: option.splits)

lemma c_strlen_names: "c_strlen (ascii_bytes ''MQIsdp'') = 6" "c_strlen (ascii_bytes ''MQTT'') = 4"
  by code_simp+

lemma length_connect_payload:
  "length (connect_payload client version) = connect_len client version"
  by (auto simp: connect_payload_def connect_len_def opt_utf_bytes_def c_strlen_names split: option.splits)

lemma connect_buffer_writes:
  "connect_buffer client version =
     wb_put (connect_payload client version) (wb_malloc (connect_len client version))"
  by (cases "cl_will client")
    (simp_all add: connect_buffer_def connect_payload_def write_opt_UTF_put writeUTF_put [abs_def] writeInt_put
      writeChar_def wb_put_put wb_put_bind)

text \<open>
  \<open>MQTTPacket_send_connect\<close> rejects every protocol version but 3 and 4. Otherwise it stays inside
  the buffer it allocates and fills it completely (protocol name, version, flags, keep alive, client
  id, will, user name and password, each present exactly when the client has it), hands these
  \<open>connect_len\<close> bytes to the socket layer behind a CONNECT header, and records the send time exactly
  when the write completed.
\<close>

theorem MQTTPacket_send_connect_exact:
  "MQTTPacket_send_connect ops client version w =
     (if version = 3 \<or> version = 4 then do {
        (rc, w') \<leftarrow> op_putdatas ops w (nh_socket (cl_net client))
              (mk_header CONNECT 0 0 0 # MQTTPacket_encode (connect_len client version))
              [connect_payload client version] [True];
        Some (rc, if rc = TCPSOCKET_COMPLETE
                  then client\<lparr>cl_net := (cl_net client)\<lparr>nh_lastSent := op_time ops w'\<rparr>\<rparr> else client, w')
      }
      else Some (-1, client, w))"
  by (cases "op_putdatas ops w (nh_socket (cl_net client))
        (mk_header CONNECT 0 0 0 # MQTTPacket_encode (connect_len client version))
        [connect_payload client version] [True]")
    (auto simp: MQTTPacket_send_connect_def MQTTPacket_send_def connect_buffer_writes wb_put_malloc
      length_connect_payload hdr_mk_header)

text \<open>The variable header and payload of a PUBLISH, and the buffers it is sent as.\<close>

definition publish_bytes :: "bytes \<Rightarrow> int \<Rightarrow> int \<Rightarrow> bytes \<Rightarrow> bytes" where
  "publish_bytes topic qos msgId payload =
     utf_bytes topic @ (if qos > 0 then int_bytes msgId else []) @ payload"

definition publish_buffers :: "bytes \<Rightarrow> int \<Rightarrow> int \<Rightarrow> bytes \<Rightarrow> bytes list" where
  "publish_buffers topic qos msgId payload =
     [int_bytes (to_int32 (c_strlen topic)), c_string topic] @
     (if qos > 0 then [int_bytes msgId] else []) @ [payload]"

definition publish_frees :: "int \<Rightarrow> bool list" where
  "publish_frees qos = [True, False] @ (if qos > 0 then [True] else []) @ [False]"

lemma concat_publish_buffers: "concat (publish_buffers t q m p) = publish_bytes t q m p"
  by (simp add: publish_buffers_def publish_bytes_def utf_bytes_def)

lemma send_publish_sends:
  assumes "pub_topic pack = Some t" "pub_payloadlen pack = int (length (pub_payload pack))"
  shows "MQTTPacket_send_publish ops pack dup qos retained net w =
    MQTTPacket_sends ops net (mk_header PUBLISH dup qos retained)
      (publish_buffers t qos (pub_msgId pack) (pub_payload pack)) (publish_frees qos) w"
  using assms by (simp add: MQTTPacket_send_publish_def publish_buffers_def publish_frees_def writeInt_put wb_put_malloc)

lemma MQTTPacket_publish_written:
  assumes "c_string t = t" "length t < 65536" "hdr_qos h > 0 \<longleftrightarrow> qos > 0" "0 \<le> m" "m < 65536"
  shows "MQTTPacket_publish h (publish_bytes t qos m p @ junk) (length (publish_bytes t qos m p)) =
    Some (Some \<lparr>pub_header = h, pub_topic = Some t, pub_topiclen = int (length t),
                pub_msgId = (if qos > 0 then m else 0), pub_payload = p, pub_payloadlen = int (length p)\<rparr>)"
proof -
  let ?ub = "int_bytes (int (length t)) @ t"
  have len: "c_strlen t = length t" using assms(1) by (simp add: c_strlen_def)
  have ub: "utf_bytes t = ?ub"
    using assms(1,2) by (simp add: utf_bytes_def len to_int32_small)
  have r: "readUTFlen (publish_bytes t qos m p @ junk) 0 (length (publish_bytes t qos m p)) =
      Some (Some t, Some (int (length t)), 2 + length t)"
    using readUTFlen_written [of t "[]" "length (publish_bytes t qos m p)"
        "(if qos > 0 then int_bytes m else []) @ p @ junk"] assms(2)
    by (simp add: publish_bytes_def ub len)
  have i: "readInt (publish_bytes t qos m p @ junk) (2 + length t) = Some (m, 4 + length t)" if "qos > 0"
    using readInt_int_bytes [of m ?ub "p @ junk"] assms(4,5) that by (simp add: publish_bytes_def ub)
  show ?thesis
    using i assms(3) by (simp add: MQTTPacket_publish_def r) (simp add: publish_bytes_def ub)
qed

text \<open>
  C32. A PUBLISH that \<open>MQTTPacket_send_publish\<close> hands to the socket layer is read back unchanged: the
  buffers it sends hold the topic length, the topic, the message id when the QoS is positive, and
  the payload, and \<open>MQTTPacket_publish\<close>, given their bytes (whatever follows them in memory), returns
  the topic, message id, payload and payload length of the packet sent, under the header that was
  sent.
\<close>

theorem publish_roundtrip:
  assumes "pub_topic pack = Some t" and "c_string t = t" and "length t < 65536"
    and "pub_payloadlen pack = int (length (pub_payload pack))"
    and "0 \<le> pub_msgId pack" and "pub_msgId pack < 65536" and "qos \<in> {0, 1, 2}"
  shows "MQTTPacket_send_publish ops pack dup qos retained net w =
      MQTTPacket_sends ops net (mk_header PUBLISH dup qos retained)
        (publish_buffers t qos (pub_msgId pack) (pub_payload pack)) (publish_frees qos) w \<and>
    MQTTPacket_publish (mk_header PUBLISH dup qos retained)
        (concat (publish_buffers t qos (pub_msgId pack) (pub_payload pack)) @ junk)
        (length (concat (publish_buffers t qos (pub_msgId pack) (pub_payload pack)))) =
      Some (Some \<lparr>pub_header = mk_header PUBLISH dup qos retained, pub_topic = Some t,
                  pub_topiclen = int (length t),
                  pub_msgId = (if qos > 0 then pub_msgId pack else 0),
                  pub_payload = pub_payload pack, pub_payloadlen = pub_payloadlen pack\<rparr>)"
proof
  show "MQTTPacket_send_publish ops pack dup qos retained net w =
      MQTTPacket_sends ops net (mk_header PUBLISH dup qos retained)
        (publish_buffers t qos (pub_msgId pack) (pub_payload pack)) (publish_frees qos) w"
    by (rule send_publish_sends [OF assms(1,4)])
  have "hdr_qos (mk_header PUBLISH dup qos retained) > 0 \<longleftrightarrow> qos > 0"
    using assms(7) by (auto simp: hdr_mk_header)
  from MQTTPacket_publish_written [OF assms(2,3) this assms(5,6), of "pub_payload pack" junk] assms(4)
  show "MQTTPacket_publish (mk_header PUBLISH dup qos retained)
        (concat (publish_buffers t qos (pub_msgId pack) (pub_payload pack)) @ junk)
        (length (concat (publish_buffers t qos (pub_msgId pack) (pub_payload pack)))) =
      Some (Some \<lparr>pub_header = mk_header PUBLISH dup qos retained, pub_topic = Some t,
                  pub_topiclen = int (length t),
                  pub_msgId = (if qos > 0 then pub_msgId pack else 0),
                  pub_payload = pub_payload pack, pub_payloadlen = pub_payloadlen pack\<rparr>)"
    by (simp only: concat_publish_buffers)
qed

definition demo_publish :: Publish where
  "demo_publish = \<lparr>pub_header = 0, pub_topic = Some [0x61, 0x2F, 0x62], pub_topiclen = 3, pub_msgId = 500,
     pub_payload = [1, 0, 2], pub_payloadlen = 3\<rparr>"

theorem publish_roundtrip_witness:
  "MQTTPacket_publish (mk_header PUBLISH 0 1 0) [0, 3, 0x61, 0x2F, 0x62, 1, 244, 1, 0, 2, 99] 10 =
     Some (Some \<lparr>pub_header = 50, pub_topic = Some [0x61, 0x2F, 0x62], pub_topiclen = 3,
       pub_msgId = 500, pub_payload = [1, 0, 2], pub_payloadlen = 3\<rparr>)"
proof -
  have b: "concat (publish_buffers [0x61, 0x2F, 0x62] 1 500 [1, 0, 2]) = [0, 3, 0x61, 0x2F, 0x62, 1, 244, 1, 0, 2]"
    by code_simp
  have ten: "10 = length [0 :: nat, 0, 0, 0, 0, 0, 0, 0, 0, 0]" by simp
  have c: "c_string [0x61, 0x2F, 0x62] = [0x61, 0x2F, 0x62]" by code_simp
  from publish_roundtrip [of demo_publish "[0x61, 0x2F, 0x62]" 1 undefined 0 0 undefined undefined "[99]"]
  show ?thesis by (simp add: demo_publish_def b c) (auto simp: mk_header_def ten)
qed

section \<open>Subscriptions\<close>

definition subscribe_bytes :: "(bytes \<times> int) list \<Rightarrow> bytes" where
  "subscribe_bytes subs = concat (map (\<lambda>(t, q). utf_bytes t @ [word_of_int q]) subs)"

lemma subscribe_loop_put:
  "length topics \<le> length qoss \<Longrightarrow>
     subscribe_loop topics qoss = wb_put (subscribe_bytes (zip topics qoss))"
proof (induction topics arbitrary: qoss)
  case (Cons t ts)
  then show ?case
    by (cases qoss; intro ext)
      (simp_all add: subscribe_bytes_def writeUTF_put writeChar_def wb_put_bind wb_put_put)
qed (simp add: fun_eq_iff subscribe_bytes_def)

lemma subscribe_loop_short: "length qoss < length topics \<Longrightarrow> subscribe_loop topics qoss = (\<lambda>b. None)"
proof (induction topics arbitrary: qoss)
  case (Cons t ts)
  then show ?case by (cases qoss; intro ext) (simp_all add: bind_eq_None_conv)
qed simp

lemma length_subscribe_bytes:
  "length (subscribe_bytes subs) = length subs * 3 + sum_list (map (c_strlen \<circ> fst) subs)"
  by (induction subs) (auto simp: subscribe_bytes_def)

lemma unsubscribe_loop_put: "unsubscribe_loop topics = wb_put (concat (map utf_bytes topics))"
  by (induction topics; rule ext) (simp_all add: writeUTF_put wb_put_put)

lemma length_unsubscribe_bytes:
  "length (concat (map utf_bytes topics)) = length topics * 2 + sum_list (map c_strlen topics)"
  by (induction topics) auto

text \<open>
  \<open>MQTTPacket_send_subscribe\<close> and \<open>MQTTPacket_send_unsubscribe\<close>: the buffer allocated from the
  number of topics and their lengths is filled exactly, with the message id and every topic (and its
  QoS) in order, and sent as one packet with QoS 1; SUBSCRIBE reads past the end of the QoS list,
  undefined behaviour, exactly when there are fewer QoS values than topics.
\<close>

theorem subscriptions_exact:
  "(MQTTPacket_send_subscribe ops topics qoss msgid dup net w =
     (if length topics \<le> length qoss
      then MQTTPacket_send ops net (mk_header SUBSCRIBE dup 1 0)
             (int_bytes msgid @ subscribe_bytes (zip topics qoss)) True w
      else None)) \<and>
   MQTTPacket_send_unsubscribe ops topics msgid dup net w =
     MQTTPacket_send ops net (mk_header UNSUBSCRIBE dup 1 0)
       (int_bytes msgid @ concat (map utf_bytes topics)) True w"
proof (rule conjI)
  show "MQTTPacket_send_subscribe ops topics qoss msgid dup net w =
     (if length topics \<le> length qoss
      then MQTTPacket_send ops net (mk_header SUBSCRIBE dup 1 0)
             (int_bytes msgid @ subscribe_bytes (zip topics qoss)) True w
      else None)"
  proof (cases "length topics \<le> length qoss")
    case True
    then have "map (c_strlen \<circ> fst) (zip topics qoss) = map c_strlen topics"
      unfolding map_map [symmetric] by (simp add: map_fst_zip_take)
    with True show ?thesis
      by (simp add: MQTTPacket_send_subscribe_def writeInt_put subscribe_loop_put wb_put_bind)
        (simp add: wb_put_malloc length_subscribe_bytes)
  next
    case False
    then show ?thesis
      by (simp add: MQTTPacket_send_subscribe_def subscribe_loop_short writeInt_put wb_put_malloc)
  qed
  show "MQTTPacket_send_unsubscribe ops topics msgid dup net w =
     MQTTPacket_send ops net (mk_header UNSUBSCRIBE dup 1 0)
       (int_bytes msgid @ concat (map utf_bytes topics)) True w"
    by (simp add: MQTTPacket_send_unsubscribe_def writeInt_put unsubscribe_loop_put wb_put_bind)
      (simp add: wb_put_malloc length_unsubscribe_bytes del: length_concat)
qed

section \<open>Received packets shorter than their fields\<close>

text \<open>The length field in front of the topic.\<close>

definition topic_len :: "bytes \<Rightarrow> nat" where
  "topic_len data = 256 * unat (data ! 0) + unat (data ! 1)"

lemma readInt_Some: "readInt data pos = (if pos + 1 < length data
    then Some (256 * uint (data ! pos) + uint (data ! (pos + 1)), pos + 2) else None)"
  by (auto simp: readInt_def peek_def)

lemma suback_loop_total: "datalen \<le> length data \<Longrightarrow> \<exists>qs. suback_loop data datalen cur = Some qs"
proof (induction data datalen cur rule: suback_loop.induct)
  case (1 data datalen cur)
  then show ?case
    by (cases "cur < datalen") (fastforce simp: suback_loop.simps [of data datalen cur] peek_def)+
qed

text \<open>
  Which received packets make the parsers read beyond the packet, when only the bytes of the packet
  are readable: an acknowledgement, a CONNACK or a SUBACK of fewer than two bytes, and a PUBLISH with
  a positive QoS whose topic fits the packet but is followed by fewer than the two bytes of the
  message id. None of the parsers checks these lengths.
\<close>

theorem parser_overreads:
  "(MQTTPacket_ack h data (length data) = None \<longleftrightarrow> length data < 2) \<and>
   (MQTTPacket_connack h data (length data) = None \<longleftrightarrow> length data < 2) \<and>
   (MQTTPacket_suback h data (length data) = None \<longleftrightarrow> length data < 2) \<and>
   (MQTTPacket_publish h data (length data) = None \<longleftrightarrow>
      hdr_qos h > 0 \<and> 2 + topic_len data \<le> length data \<and> length data < 4 + topic_len data)"
proof (intro conjI)
  show "MQTTPacket_ack h data (length data) = None \<longleftrightarrow> length data < 2"
    by (auto simp: MQTTPacket_ack_def readInt_Some)
  show "MQTTPacket_connack h data (length data) = None \<longleftrightarrow> length data < 2"
    by (auto simp: MQTTPacket_connack_def readChar_def peek_def)
  show "MQTTPacket_suback h data (length data) = None \<longleftrightarrow> length data < 2"
    using suback_loop_total [of "length data" data 2]
    by (auto simp: MQTTPacket_suback_def readInt_Some numeral_2_eq_2)
  have int_len: "256 * uint (data ! 0) + uint (data ! 1) = int (topic_len data)"
    by (simp add: topic_len_def)
  show "MQTTPacket_publish h data (length data) = None \<longleftrightarrow>
      hdr_qos h > 0 \<and> 2 + topic_len data \<le> length data \<and> length data < 4 + topic_len data"
    using int_len by (auto simp: MQTTPacket_publish_def readUTFlen_def readInt_Some)
qed

section \<open>Receiving from a socket\<close>

lemma decode_stops:
  assumes "gives getch w pre w1" "MQTTPacket_encode n = pre @ b # post" "len + length pre < 4"
    and "getch w1 = (rc, c, w2)" "rc \<noteq> TCPSOCKET_COMPLETE"
  shows "\<exists>v'. decode_loop getch len m v w = (rc, v', w2)"
  using assms
proof (induction pre arbitrary: n len m v w)
  case Nil
  then show ?case by (auto simp: decode_loop.simps [of getch len])
next
  case (Cons x pre)
  then obtain w0 where w0: "getch w = (0, x, w0)" "gives getch w0 pre w1" by auto
  from Cons.prems(2) have n: "n div 128 > 0" "x = (word_of_nat (n mod 128) :: byte) OR 0x80"
      "MQTTPacket_encode (n div 128) = pre @ b # post"
    by (auto simp: MQTTPacket_encode.simps [of n] Let_def split: if_splits)
  from Cons.IH [OF w0(2) n(3) _ Cons.prems(4,5), of "len + 1" "m * 128" "v + unat (x AND 127) * m"] Cons.prems(3)
  show ?case using w0(1) digit_bits(4) [of n] n(2) by (simp add: decode_loop.simps [of getch len])
qed

text \<open>A complete fixed header, and the remaining length it holds.\<close>

definition header_complete :: "bytes \<Rightarrow> bool" where
  "header_complete hs \<longleftrightarrow> 2 \<le> length hs \<and> last hs AND 128 = 0"

primrec rl_value :: "bytes \<Rightarrow> nat" where
  "rl_value [] = 0"
| "rl_value (b # bs) = unat (b AND 127) + 128 * rl_value bs"

lemma rl_value_encode: "rl_value (MQTTPacket_encode n) = n"
proof (induction n rule: MQTTPacket_encode.induct)
  case (1 n)
  show ?case
  proof (cases "n div 128 > 0")
    case True
    with 1 digit_bits(3) [of n] show ?thesis by (simp add: MQTTPacket_encode.simps [of n])
  next
    case False
    then show ?thesis using digit_bits(1) [of n] by (simp add: MQTTPacket_encode.simps [of n])
  qed
qed

lemma encode_prefix_bits: "MQTTPacket_encode n = pre @ b # post \<Longrightarrow> x \<in> set pre \<Longrightarrow> x AND 128 \<noteq> 0"
proof (induction n arbitrary: pre b post rule: MQTTPacket_encode.induct)
  case (1 n)
  then show ?case
    using digit_bits(4) [of n] by (cases pre) (auto simp: MQTTPacket_encode.simps [of n] Let_def split: if_splits)
qed

lemma encode_last_bit: "MQTTPacket_encode n \<noteq> [] \<and> last (MQTTPacket_encode n) AND 128 = 0"
proof (induction n rule: MQTTPacket_encode.induct)
  case (1 n)
  then show ?case
    using digit_bits(2) [of n] by (cases "n div 128 > 0") (simp_all add: MQTTPacket_encode.simps [of n] Let_def)
qed

lemma header_complete_encode: "header_complete (h # MQTTPacket_encode n)"
  using encode_last_bit [of n] by (cases "MQTTPacket_encode n") (simp_all add: header_complete_def)

lemma header_incomplete_prefix:
  "MQTTPacket_encode n = pre @ b # post \<Longrightarrow> \<not> header_complete (h # pre)"
  using encode_prefix_bits [of n pre b post "last pre"]
  by (cases "pre = []") (auto simp: header_complete_def Suc_le_eq)

text \<open>
  What \<open>MQTTPacket_Factory\<close> relies on of the socket layer, for one socket: in a state \<open>ok hs w\<close>, in
  which the characters \<open>hs\<close> of a packet have been read, and with the bytes \<open>rest w\<close> still to be
  delivered (now or later), a character is either delivered or the read is interrupted, and then
  all the characters of the packet are delivered again by the next attempt; \<open>op_getdata\<close> either
  delivers the bytes asked for, which ends the packet, or is interrupted likewise. The client asks
  for characters until it has a complete header, and then for the data the header announces.
\<close>

locale packet_source =
  fixes ops :: "'w net_ops" and sock :: int and ok :: "bytes \<Rightarrow> 'w \<Rightarrow> bool" and rest :: "'w \<Rightarrow> bytes"
  assumes getch: "ok hs w \<Longrightarrow> \<not> header_complete hs \<Longrightarrow> length hs < 5 \<Longrightarrow> rest w = b # bs \<Longrightarrow>
      (\<exists>w'. op_getch ops w sock = (TCPSOCKET_COMPLETE, b, w') \<and> ok (hs @ [b]) w' \<and> rest w' = bs) \<or>
      (\<exists>c w'. op_getch ops w sock = (TCPSOCKET_INTERRUPTED, c, w') \<and> ok [] w' \<and> rest w' = hs @ rest w)"
    and getdata: "ok hs w \<Longrightarrow> header_complete hs \<Longrightarrow> n = rl_value (tl hs) \<Longrightarrow> n \<le> length (rest w) \<Longrightarrow>
      (\<exists>w' junk. op_getdata ops w sock n = (Some (take n (rest w) @ junk), n, w') \<and> ok [] w' \<and>
        rest w' = drop n (rest w)) \<or>
      (\<exists>w' d m. op_getdata ops w sock n = (Some d, m, w') \<and> m \<noteq> n \<and> ok [] w' \<and> rest w' = hs @ rest w)"
begin

lemma reads_or_stops:
  assumes "ok hs w" "length hs + length bs \<le> 5" "rest w = bs @ after"
    and "\<forall>pre b post. bs = pre @ b # post \<longrightarrow> \<not> header_complete (hs @ pre)"
  shows "(\<exists>w'. gives (\<lambda>w. op_getch ops w sock) w bs w' \<and> ok (hs @ bs) w' \<and> rest w' = after) \<or>
    (\<exists>pre b post w1 c w2. bs = pre @ b # post \<and> gives (\<lambda>w. op_getch ops w sock) w pre w1 \<and>
      op_getch ops w1 sock = (TCPSOCKET_INTERRUPTED, c, w2) \<and> ok [] w2 \<and> rest w2 = hs @ rest w)"
  using assms
proof (induction bs arbitrary: hs w)
  case (Cons b bs)
  from Cons.prems(1-3) Cons.prems(4) [rule_format, of "[]" b bs] getch [of hs w b "bs @ after"] consider
      w1 where "op_getch ops w sock = (0, b, w1)" "ok (hs @ [b]) w1" "rest w1 = bs @ after"
    | c w2 where "op_getch ops w sock = (TCPSOCKET_INTERRUPTED, c, w2)" "ok [] w2" "rest w2 = hs @ rest w"
    by auto
  then show ?case
  proof cases
    case 1
    have five: "length (hs @ [b]) + length bs \<le> 5" using Cons.prems(2) by simp
    have incomplete: "\<forall>pre b' post. bs = pre @ b' # post \<longrightarrow> \<not> header_complete ((hs @ [b]) @ pre)"
      using Cons.prems(4) by simp
    from Cons.IH [OF 1(2) five 1(3) incomplete] show ?thesis
    proof (elim disjE exE conjE)
      fix w' assume "gives (\<lambda>w. op_getch ops w sock) w1 bs w'" "ok ((hs @ [b]) @ bs) w'" "rest w' = after"
      with 1 show ?thesis by (intro disjI1) (auto intro!: exI [of _ w'])
    next
      fix pre b' post w1' c w2
      assume "bs = pre @ b' # post" "gives (\<lambda>w. op_getch ops w sock) w1 pre w1'"
        "op_getch ops w1' sock = (TCPSOCKET_INTERRUPTED, c, w2)" "ok [] w2" "rest w2 = (hs @ [b]) @ rest w1"
      with 1 Cons.prems(3) show ?thesis
        by (intro disjI2 exI [of _ "b # pre"] exI [of _ b'] exI [of _ post] exI [of _ w1'] exI [of _ c]
            exI [of _ w2]) auto
    qed
  next
    case 2
    then show ?thesis by (intro disjI2) (auto intro!: exI [of _ "[]"])
  qed
qed auto

text \<open>
  One attempt at the packet at the front of the stream: either it reaches the packet constructors
  and is consumed, or the attempt is interrupted and nothing is lost.
\<close>

lemma Factory_reads:
  assumes "ok [] w" and "rest w = h # MQTTPacket_encode (length data) @ data @ after"
    and "length data < 268435456" and "nh_socket net = sock"
  shows "(\<exists>w' junk. ok [] w' \<and> rest w' = after \<and> MQTTPacket_Factory ops net w =
        factory_construct ops net TCPSOCKET_COMPLETE h (data @ junk) (length data) w') \<or>
    (\<exists>w'. ok [] w' \<and> rest w' = rest w \<and>
      MQTTPacket_Factory ops net w = Some (None, TCPSOCKET_INTERRUPTED, net, w'))"
proof -
  let ?n = "length data" and ?g = "\<lambda>w. op_getch ops w sock"
  have len: "length (MQTTPacket_encode ?n) \<le> 4" using encode_length_le [of ?n 3] assms(3) by simp
  from getch [OF assms(1) _ _ assms(2)] consider
      w1 where "?g w = (0, h, w1)" "ok [h] w1" "rest w1 = MQTTPacket_encode ?n @ data @ after"
    | c w1 where "?g w = (TCPSOCKET_INTERRUPTED, c, w1)" "ok [] w1" "rest w1 = rest w"
    by (auto simp: header_complete_def)
  then show ?thesis
  proof cases
    case 2
    then show ?thesis using assms(4) by (auto simp: MQTTPacket_Factory_def)
  next
    case 1
    from reads_or_stops [OF 1(2) _ 1(3)] len header_incomplete_prefix [of ?n _ _ _ h] consider
        w2 where "gives ?g w1 (MQTTPacket_encode ?n) w2" "ok (h # MQTTPacket_encode ?n) w2" "rest w2 = data @ after"
      | pre b post w1' c w2 where "MQTTPacket_encode ?n = pre @ b # post" "gives ?g w1 pre w1'"
          "?g w1' = (TCPSOCKET_INTERRUPTED, c, w2)" "ok [] w2" "rest w2 = h # rest w1" by auto
    then show ?thesis
    proof cases
      case 2
      have "\<exists>v. MQTTPacket_decode ?g w1 = (TCPSOCKET_INTERRUPTED, v, w2)"
        unfolding MQTTPacket_decode_def by (rule decode_stops [OF 2(2,1) _ 2(3)]) (use len 2(1) in simp_all)
      with 1 2 assms(2,4) show ?thesis by (auto simp: MQTTPacket_Factory_def)
    next
      case all: 1
      then have "MQTTPacket_decode ?g w1 = (0, ?n, w2)"
        using decode_encode_loop [of ?g w1 ?n w2 0 1 0] assms(3) by (simp add: MQTTPacket_decode_def)
      with 1 assms(4) have F: "MQTTPacket_Factory ops net w = (case op_getdata ops w2 sock ?n of
          (None, m, w3) \<Rightarrow> Some (None, SOCKET_ERROR, net, w3)
        | (Some d, m, w3) \<Rightarrow> if m \<noteq> ?n then Some (None, TCPSOCKET_INTERRUPTED, net, w3)
            else factory_construct ops net TCPSOCKET_COMPLETE h d ?n w3)"
        by (auto simp: MQTTPacket_Factory_def split: prod.split option.split)
      have "?n \<le> length (rest w2)" "?n = rl_value (tl (h # MQTTPacket_encode ?n))"
        using all(3) rl_value_encode [of ?n] by simp_all
      from getdata [OF all(2) header_complete_encode this(2,1)] show ?thesis
      proof (elim disjE exE conjE)
        fix w' junk assume "op_getdata ops w2 sock ?n = (Some (take ?n (rest w2) @ junk), ?n, w')"
          "ok [] w'" "rest w' = drop ?n (rest w2)"
        with all(3) F show ?thesis by (intro disjI1 exI [of _ w'] exI [of _ junk]) simp
      next
        fix w' d m assume "op_getdata ops w2 sock ?n = (Some d, m, w')" "m \<noteq> ?n" "ok [] w'"
          "rest w' = (h # MQTTPacket_encode ?n) @ rest w2"
        with all(3) F assms(2) show ?thesis by (intro disjI2 exI [of _ w']) simp
      qed
    qed
  qed
qed

end

end
