(* ===== verification/SocketBuffer.thy ===== *)
theory SocketBuffer
  imports LinkedList
begin

text \<open>
  \<open>lib/SocketBuffer.c\<close>: what has been read of a packet that has not arrived completely, and what
  remains of a packet that could not be written completely. The list \<open>queues\<close> holds the queues of
  the sockets with an interrupted read, the default queue serves the packet being read. Both lists
  are abstract lists with a cursor (\<open>clist\<close>, which the linked lists implement); a queue is a value,
  since it is either the default queue or one element of \<open>queues\<close>.
\<close>

section \<open>Data\<close>

record socket_queue =
  sq_socket :: int
  sq_index :: nat
  sq_headerlen :: nat
  sq_fixed_header :: bytes
  sq_buflen :: nat
  sq_datalen :: nat
  sq_buf :: bytes

record pending_writes =
  pw_socket :: int
  pw_count :: nat
  pw_total :: nat
  pw_bytes :: nat
  pw_iovecs :: "bytes list"
  pw_frees :: "bool list"

text \<open>
  The static variables of the module. Memory that has been allocated and not written holds
  arbitrary values: \<open>sb_fill\<close> is what its bytes hold, \<open>sb_size\<close> what an unset \<open>size_t\<close> holds.
\<close>

record sbuf =
  sb_def_queue :: socket_queue
  sb_queues :: "socket_queue clist"
  sb_writes :: "pending_writes clist"
  sb_fill :: byte
  sb_size :: nat

abbreviation (input) SOCKETBUFFER_COMPLETE :: int where "SOCKETBUFFER_COMPLETE \<equiv> 0"
abbreviation (input) SOCKETBUFFER_INTERRUPTED :: int where "SOCKETBUFFER_INTERRUPTED \<equiv> - 22"

definition socketcompare :: "int \<Rightarrow> socket_queue \<Rightarrow> bool" where
  "socketcompare b a \<longleftrightarrow> sq_socket a = b"

definition pending_socketcompare :: "int \<Rightarrow> pending_writes \<Rightarrow> bool" where
  "pending_socketcompare b a \<longleftrightarrow> pw_socket a = b"

section \<open>Reading\<close>

text \<open>\<open>buflen\<close> is set to 1000 for the allocation and to 0 afterwards; \<open>headerlen\<close> is not set.\<close>

definition fresh_queue :: "sbuf \<Rightarrow> socket_queue" where
  "fresh_queue sb = \<lparr>sq_socket = 0, sq_index = 0, sq_headerlen = sb_size sb,
     sq_fixed_header = replicate 5 (sb_fill sb), sq_buflen = 0, sq_datalen = 0,
     sq_buf = replicate 1000 (sb_fill sb)\<rparr>"

definition SocketBuffer_newDefQ :: "sbuf \<Rightarrow> sbuf" where
  "SocketBuffer_newDefQ sb = sb\<lparr>sb_def_queue := fresh_queue sb\<rparr>"

definition SocketBuffer_initialize :: "sbuf \<Rightarrow> sbuf" where
  "SocketBuffer_initialize sb =
     (SocketBuffer_newDefQ sb)\<lparr>sb_queues := clist_empty, sb_writes := clist_empty\<rparr>"

text \<open>The module is unusable after this call; the lists are empty.\<close>

definition SocketBuffer_terminate :: "sbuf \<Rightarrow> sbuf" where
  "SocketBuffer_terminate sb = sb\<lparr>sb_queues := clist_empty, sb_writes := clist_empty\<rparr>"

text \<open>\<open>ListFindItem (queues, ...)\<close>: the position found, which becomes the current element.\<close>

definition find_queue :: "int \<Rightarrow> sbuf \<Rightarrow> nat option \<times> sbuf" where
  "find_queue socket sb =
     (clist_find (socketcompare socket) (sb_queues sb),
      sb\<lparr>sb_queues := clist_seek (socketcompare socket) (sb_queues sb)\<rparr>)"

definition set_queue :: "nat option \<Rightarrow> socket_queue \<Rightarrow> sbuf \<Rightarrow> sbuf" where
  "set_queue i q sb = (case i of
       None \<Rightarrow> sb\<lparr>sb_def_queue := q\<rparr>
     | Some i \<Rightarrow> sb\<lparr>sb_queues := (sb_queues sb)\<lparr>elems := (elems (sb_queues sb))[i := q]\<rparr>\<rparr>)"

definition get_queue :: "nat option \<Rightarrow> sbuf \<Rightarrow> socket_queue" where
  "get_queue i sb = (case i of None \<Rightarrow> sb_def_queue sb | Some i \<Rightarrow> elems (sb_queues sb) ! i)"

text \<open>Taking the element at a position out of the list (\<open>ListRemove\<close>, \<open>ListDetach\<close> of the current content).\<close>

definition drop_queue :: "nat \<Rightarrow> sbuf \<Rightarrow> sbuf" where
  "drop_queue i sb = sb\<lparr>sb_queues := \<lparr>elems = remove_nth i (elems (sb_queues sb)),
      cursor = cursor_after_remove i (length (elems (sb_queues sb))) (cursor (sb_queues sb))\<rparr>\<rparr>"

definition reset_def_queue :: "sbuf \<Rightarrow> sbuf" where
  "reset_def_queue sb = sb\<lparr>sb_def_queue := (sb_def_queue sb)\<lparr>sq_socket := 0, sq_index := 0,
     sq_headerlen := 0, sq_datalen := 0\<rparr>\<rparr>"

definition SocketBuffer_cleanup :: "int \<Rightarrow> sbuf \<Rightarrow> sbuf" where
  "SocketBuffer_cleanup socket sb =
     (let (i, sb) = find_queue socket sb;
          sb = (case i of None \<Rightarrow> sb | Some i \<Rightarrow> drop_queue i sb)
      in if sq_socket (sb_def_queue sb) = socket then reset_def_queue sb else sb)"

text \<open>
  Returns the queue whose buffer the data are read into, and \<open>*actual_len\<close>. When the buffer is
  reallocated, the bytes up to \<open>datalen\<close> (or, by \<open>realloc\<close>, all of them) are kept.
\<close>

definition grow_buf :: "byte \<Rightarrow> nat \<Rightarrow> socket_queue \<Rightarrow> socket_queue" where
  "grow_buf fill bytes q =
     (if bytes > sq_buflen q then
        q\<lparr>sq_buf := (if sq_datalen q > 0
                     then take (sq_datalen q) (sq_buf q) @ replicate (bytes - sq_datalen q) fill
                     else take bytes (sq_buf q) @ replicate (bytes - length (sq_buf q)) fill),
          sq_buflen := bytes\<rparr>
      else q)"

definition SocketBuffer_getQueuedData :: "int \<Rightarrow> nat \<Rightarrow> sbuf \<Rightarrow> nat option \<times> nat \<times> sbuf" where
  "SocketBuffer_getQueuedData socket bytes sb =
     (let (i, sb) = find_queue socket sb;
          q = get_queue i sb;
          actual_len = (if i = None then 0 else sq_datalen q)
      in (i, actual_len, set_queue i (grow_buf (sb_fill sb) bytes q) sb))"

definition SocketBuffer_getQueuedChar :: "int \<Rightarrow> sbuf \<Rightarrow> int \<times> byte option \<times> sbuf" where
  "SocketBuffer_getQueuedChar socket sb =
     (let (i, sb) = find_queue socket sb in
      case i of None \<Rightarrow> (SOCKETBUFFER_INTERRUPTED, None, sb)
      | Some _ \<Rightarrow>
        let queue = get_queue i sb in
        if sq_index queue < sq_headerlen queue then
          (SOCKETBUFFER_COMPLETE, Some (sq_fixed_header queue ! sq_index queue),
           set_queue i (queue\<lparr>sq_index := sq_index queue + 1\<rparr>) sb)
        else if sq_index queue > 4 then (- 1, None, sb)
        else (SOCKETBUFFER_INTERRUPTED, None, sb))"

definition SocketBuffer_interrupted :: "int \<Rightarrow> nat \<Rightarrow> sbuf \<Rightarrow> sbuf" where
  "SocketBuffer_interrupted socket actual_len sb =
     (let (i, sb) = find_queue socket sb in
      case i of
        Some _ \<Rightarrow> set_queue i ((get_queue i sb)\<lparr>sq_index := 0, sq_datalen := actual_len\<rparr>) sb
      | None \<Rightarrow>
        SocketBuffer_newDefQ (sb\<lparr>sb_queues := clist_append
          ((sb_def_queue sb)\<lparr>sq_index := 0, sq_datalen := actual_len\<rparr>) (sb_queues sb)\<rparr>))"

text \<open>The result is the default queue's buffer.\<close>

definition SocketBuffer_complete :: "int \<Rightarrow> sbuf \<Rightarrow> sbuf" where
  "SocketBuffer_complete socket sb =
     (let (i, sb) = find_queue socket sb;
          sb = (case i of None \<Rightarrow> sb
                | Some i \<Rightarrow> drop_queue i (sb\<lparr>sb_def_queue := elems (sb_queues sb) ! i\<rparr>))
      in reset_def_queue sb)"

definition SocketBuffer_queueChar :: "int \<Rightarrow> byte \<Rightarrow> sbuf \<Rightarrow> sbuf" where
  "SocketBuffer_queueChar socket c sb =
     (let (i, sb) = find_queue socket sb;
          dq = sb_def_queue sb;
          sb = (if i = None \<and> sq_socket dq = 0
                then sb\<lparr>sb_def_queue := dq\<lparr>sq_socket := socket, sq_index := 0, sq_datalen := 0\<rparr>\<rparr> else sb);
          error = (i = None \<and> sq_socket dq \<noteq> 0 \<and> sq_socket dq \<noteq> socket);
          curq = get_queue i sb;
          error = (error \<or> sq_index curq > 4)
      in if \<not> error
         then set_queue i (curq\<lparr>sq_fixed_header := (sq_fixed_header curq)[sq_index curq := c],
                                sq_index := sq_index curq + 1, sq_headerlen := sq_index curq + 1\<rparr>) sb
         else sb)"

section \<open>Writing\<close>

definition SocketBuffer_pendingWrite ::
    "int \<Rightarrow> bytes list \<Rightarrow> bool list \<Rightarrow> nat \<Rightarrow> nat \<Rightarrow> sbuf \<Rightarrow> sbuf" where
  "SocketBuffer_pendingWrite socket iovecs frees tot bytes sb =
     sb\<lparr>sb_writes := clist_append \<lparr>pw_socket = socket, pw_count = length iovecs, pw_total = tot,
          pw_bytes = bytes, pw_iovecs = iovecs, pw_frees = frees\<rparr> (sb_writes sb)\<rparr>"

definition SocketBuffer_getWrite :: "int \<Rightarrow> sbuf \<Rightarrow> nat option \<times> sbuf" where
  "SocketBuffer_getWrite socket sb =
     (clist_find (pending_socketcompare socket) (sb_writes sb),
      sb\<lparr>sb_writes := clist_seek (pending_socketcompare socket) (sb_writes sb)\<rparr>)"

definition SocketBuffer_writeComplete :: "int \<Rightarrow> sbuf \<Rightarrow> bool \<times> sbuf" where
  "SocketBuffer_writeComplete socket sb =
     (clist_find (pending_socketcompare socket) (sb_writes sb) \<noteq> None,
      sb\<lparr>sb_writes := clist_unlink (pending_socketcompare socket) (sb_writes sb)\<rparr>)"

text \<open>
  The topic and payload buffers of a pending QoS 0 PUBLISH are replaced by copies, of which as many
  bytes as before are sent.
\<close>

definition SocketBuffer_updateWrite :: "int \<Rightarrow> bytes \<Rightarrow> bytes \<Rightarrow> sbuf \<Rightarrow> pending_writes option \<times> sbuf" where
  "SocketBuffer_updateWrite socket topic payload sb =
     (case SocketBuffer_getWrite socket sb of
        (None, sb) \<Rightarrow> (None, sb)
      | (Some i, sb) \<Rightarrow>
          let pw = elems (sb_writes sb) ! i;
              pw = (if pw_count pw = 4 then pw\<lparr>pw_iovecs := (pw_iovecs pw)
                       [2 := take (length (pw_iovecs pw ! 2)) topic, 3 := take (length (pw_iovecs pw ! 3)) payload]\<rparr>
                    else pw)
          in (Some pw, sb\<lparr>sb_writes := (sb_writes sb)\<lparr>elems := (elems (sb_writes sb))[i := pw]\<rparr>\<rparr>))"

section \<open>The queues as a map from sockets\<close>

text \<open>
  Sockets with an interrupted read have one queue each; an element with socket 0 belongs to none.
\<close>

definition unique_sockets :: "socket_queue list \<Rightarrow> bool" where
  "unique_sockets es \<longleftrightarrow> (\<forall>i<length es. \<forall>j<length es.
     sq_socket (es ! i) = sq_socket (es ! j) \<longrightarrow> sq_socket (es ! i) \<noteq> 0 \<longrightarrow> i = j)"

definition saved :: "sbuf \<Rightarrow> int \<Rightarrow> socket_queue option" where
  "saved sb s = map_option (\<lambda>i. elems (sb_queues sb) ! i)
     (find_index (socketcompare s) (elems (sb_queues sb)))"

lemma unique_socketsD:
  "unique_sockets es \<Longrightarrow> i < length es \<Longrightarrow> j < length es \<Longrightarrow> sq_socket (es ! i) = s \<Longrightarrow>
   sq_socket (es ! j) = s \<Longrightarrow> s \<noteq> 0 \<Longrightarrow> j = i"
  unfolding unique_sockets_def by metis

lemma find_index_socket:
  assumes "unique_sockets es" "s \<noteq> 0" "i < length es" "sq_socket (es ! i) = s"
  shows "find_index (socketcompare s) es = Some i"
  by (rule find_index_unique)
    (use assms unique_socketsD [OF assms(1)] in \<open>auto simp: socketcompare_def\<close>)

lemma clist_find_socket:
  assumes "unique_sockets (elems q)" "cursor_in q" "s \<noteq> 0"
  shows "clist_find (socketcompare s) q = find_index (socketcompare s) (elems q)"
proof (cases "cursor q")
  case (Some i)
  with assms show ?thesis
    using find_index_socket [OF assms(1,3), of i]
    by (auto simp: clist_find_def cursor_in_def socketcompare_def)
qed (simp add: clist_find_def)

text \<open>Looking up a socket and replacing, removing or adding its queue.\<close>

lemma saved_None_iff: "saved sb s = None \<longleftrightarrow> (\<forall>q\<in>set (elems (sb_queues sb)). sq_socket q \<noteq> s)"
  by (auto simp: saved_def find_index_None_iff socketcompare_def)

lemma saved_SomeD:
  "saved sb s = Some q \<Longrightarrow> sq_socket q = s \<and> q \<in> set (elems (sb_queues sb))"
  by (auto simp: saved_def socketcompare_def dest!: find_index_SomeD)

lemma find_index_update:
  assumes "unique_sockets es" "i < length es" "sq_socket (es ! i) = s" "sq_socket q = s" "s \<noteq> 0"
  shows "find_index (socketcompare t) (es[i := q]) = find_index (socketcompare t) es"
    and "unique_sockets (es[i := q])"
proof -
  have same: "map sq_socket (es[i := q]) = map sq_socket es"
    using assms by (simp add: map_update list_update_same_conv)
  have fi: "find_index (socketcompare t) xs = find_index (\<lambda>x. x = t) (map sq_socket xs)" for xs
    by (induction xs) (auto simp: socketcompare_def)
  show "find_index (socketcompare t) (es[i := q]) = find_index (socketcompare t) es"
    by (simp add: fi same)
  have "sq_socket (es[i := q] ! k) = sq_socket (es ! k)" if "k < length es" for k
    using that assms by (cases "k = i") simp_all
  then show "unique_sockets (es[i := q])"
    using assms(1) by (simp add: unique_sockets_def)
qed

lemma remove_socket:
  assumes "unique_sockets es" "i < length es" "sq_socket (es ! i) = s" "s \<noteq> 0"
  shows "unique_sockets (remove_nth i es)"
    and "map_option (\<lambda>k. remove_nth i es ! k) (find_index (socketcompare t) (remove_nth i es)) =
      (if t = s then None else map_option (\<lambda>k. es ! k) (find_index (socketcompare t) es))"
proof -
  let ?g = "\<lambda>k. if k < i then k else Suc k"
  have len: "length (remove_nth i es) = length es - 1" using assms(2) by (rule length_remove_nth)
  have nth: "remove_nth i es ! k = es ! ?g k" if "k < length es - 1" for k
    using that assms(2) by (auto simp: remove_nth_def nth_append)
  have g: "?g k < length es" "?g k \<noteq> i" if "k < length es - 1" for k using that assms(2) by auto
  show "unique_sockets (remove_nth i es)"
    unfolding unique_sockets_def len
  proof (intro allI impI)
    fix j k assume jk: "j < length es - 1" "k < length es - 1"
      "sq_socket (remove_nth i es ! j) = sq_socket (remove_nth i es ! k)" "sq_socket (remove_nth i es ! j) \<noteq> 0"
    then have "sq_socket (es ! ?g k) = sq_socket (es ! ?g j)" "sq_socket (es ! ?g j) \<noteq> 0"
      by (metis nth)+
    from unique_socketsD [OF assms(1) g(1) [OF jk(1)] g(1) [OF jk(2)] refl this] show "j = k" by (auto split: if_splits)
  qed
  show "map_option (\<lambda>k. remove_nth i es ! k) (find_index (socketcompare t) (remove_nth i es)) =
      (if t = s then None else map_option (\<lambda>k. es ! k) (find_index (socketcompare t) es))"
  proof (cases "t = s")
    case True
    have "\<not> socketcompare t x" if x: "x \<in> set (remove_nth i es)" for x
    proof
      assume "socketcompare t x"
      from x obtain k where k: "k < length es - 1" "x = remove_nth i es ! k" by (auto simp: in_set_conv_nth len)
      with \<open>socketcompare t x\<close> True have "sq_socket (es ! ?g k) = s" by (simp add: nth socketcompare_def)
      from unique_socketsD [OF assms(1,2) g(1) [OF k(1)] assms(3) this assms(4)] g(2) [OF k(1)]
      show False by contradiction
    qed
    with True show ?thesis by (simp add: find_index_None_iff)
  next
    case False
    have es: "es = take i es @ es ! i # drop (Suc i) es" using assms(2) by (simp add: id_take_nth_drop)
    have "map_option (\<lambda>k. (xs @ x # ys) ! k) (find_index (socketcompare t) (xs @ x # ys)) =
        map_option (\<lambda>k. (xs @ ys) ! k) (find_index (socketcompare t) (xs @ ys))"
      if "\<not> socketcompare t x" for xs ys x
      using that by (induction xs) (auto simp: option.map_comp comp_def)
    from this [of "es ! i" "take i es" "drop (Suc i) es"] False assms(3) es show ?thesis
      by (simp add: remove_nth_def socketcompare_def)
  qed
qed

lemma append_socket:
  "map_option (\<lambda>k. (es @ [q]) ! k) (find_index (socketcompare t) (es @ [q])) =
     (case map_option (\<lambda>k. es ! k) (find_index (socketcompare t) es) of
        Some x \<Rightarrow> Some x | None \<Rightarrow> if sq_socket q = t then Some q else None)"
  by (induction es) (auto simp: socketcompare_def option.map_comp comp_def split: option.splits)

lemma append_unique:
  assumes "unique_sockets es" "sq_socket q = 0 \<or> (\<forall>x\<in>set es. sq_socket x \<noteq> sq_socket q)"
  shows "unique_sockets (es @ [q])"
  using assms by (auto simp: unique_sockets_def nth_append less_Suc_eq)

section \<open>The operations on the map\<close>

text \<open>
  \<open>looks sb dq m\<close>: the default queue is \<open>dq\<close>, and \<open>m\<close> maps every (nonzero) socket to its saved
  queue. The operations act on \<open>dq\<close> and \<open>m\<close> alone.
\<close>

definition looks :: "sbuf \<Rightarrow> socket_queue \<Rightarrow> (int \<Rightarrow> socket_queue option) \<Rightarrow> bool" where
  "looks sb dq m \<longleftrightarrow> unique_sockets (elems (sb_queues sb)) \<and> cursor_in (sb_queues sb) \<and>
     sb_def_queue sb = dq \<and> (\<forall>t. t \<noteq> 0 \<longrightarrow> saved sb t = m t)"

lemma looks_find:
  assumes "looks sb dq m" "s \<noteq> 0"
  shows "m s = None \<Longrightarrow> \<exists>sb'. find_queue s sb = (None, sb') \<and> looks sb' dq m \<and> sb_fill sb' = sb_fill sb"
    and "m s = Some q \<Longrightarrow> \<exists>i sb'. find_queue s sb = (Some i, sb') \<and> looks sb' dq m \<and>
      i < length (elems (sb_queues sb')) \<and> elems (sb_queues sb') ! i = q \<and> sq_socket q = s \<and>
      sb_fill sb' = sb_fill sb"
proof -
  have find: "clist_find (socketcompare s) (sb_queues sb) = find_index (socketcompare s) (elems (sb_queues sb))"
    using assms by (intro clist_find_socket) (simp_all add: looks_def)
  have looks': "looks (snd (find_queue s sb)) dq m"
    using assms(1) by (auto simp: looks_def find_queue_def cursor_in_seek saved_def)
  from assms have sv: "saved sb s = m s" by (simp add: looks_def)
  { assume "m s = None"
    with sv find have "fst (find_queue s sb) = None" by (simp add: find_queue_def saved_def)
    with looks' show "\<exists>sb'. find_queue s sb = (None, sb') \<and> looks sb' dq m \<and> sb_fill sb' = sb_fill sb"
      by (cases "find_queue s sb") (auto simp: find_queue_def) }
  { assume "m s = Some q"
    with sv find looks' show "\<exists>i sb'. find_queue s sb = (Some i, sb') \<and> looks sb' dq m \<and>
      i < length (elems (sb_queues sb')) \<and> elems (sb_queues sb') ! i = q \<and> sq_socket q = s \<and>
      sb_fill sb' = sb_fill sb"
      by (auto simp: find_queue_def saved_def) (auto simp: socketcompare_def dest!: find_index_SomeD) }
qed

lemma looks_set:
  assumes "looks sb dq m" "i < length (elems (sb_queues sb))" "sq_socket (elems (sb_queues sb) ! i) = s"
    and "s \<noteq> 0" "sq_socket q = s"
  shows "looks (set_queue (Some i) q sb) dq (m(s \<mapsto> q))"
proof -
  let ?es = "elems (sb_queues sb)"
  have u: "unique_sockets ?es" using assms(1) by (simp add: looks_def)
  note upd = find_index_update [OF u assms(2,3,5,4)]
  have "saved (set_queue (Some i) q sb) t = (m(s \<mapsto> q)) t" if "t \<noteq> 0" for t
  proof (cases "t = s")
    case True
    then show ?thesis
      using assms(2) find_index_socket [OF u assms(4,2,3)] by (simp add: saved_def set_queue_def upd)
  next
    case False
    have "saved (set_queue (Some i) q sb) t = saved sb t"
      using False assms(2,3) by (cases "find_index (socketcompare t) ?es")
        (auto simp: saved_def set_queue_def upd nth_list_update socketcompare_def dest!: find_index_SomeD)
    with False that assms(1) show ?thesis by (simp add: looks_def)
  qed
  with assms(1) upd(2) show ?thesis by (simp add: looks_def set_queue_def cursor_in_def split: option.splits)
qed

lemma looks_set_def: "looks sb dq m \<Longrightarrow> looks (set_queue None q sb) q m"
  by (auto simp: looks_def set_queue_def saved_def)

lemma looks_def_queue: "looks sb dq m \<Longrightarrow> looks (sb\<lparr>sb_def_queue := q\<rparr>) q m"
  by (auto simp: looks_def saved_def)

lemma looks_drop:
  assumes "looks sb dq m" "i < length (elems (sb_queues sb))" "sq_socket (elems (sb_queues sb) ! i) = s"
    and "s \<noteq> 0"
  shows "looks (drop_queue i sb) dq (m(s := None))"
proof -
  have u: "unique_sockets (elems (sb_queues sb))" using assms(1) by (simp add: looks_def)
  have c: "cursor_in \<lparr>elems = remove_nth i (elems (sb_queues sb)),
      cursor = cursor_after_remove i (length (elems (sb_queues sb))) (cursor (sb_queues sb))\<rparr>"
    using assms(1,2) by (auto simp: looks_def cursor_in_def cursor_after_remove_def length_remove_nth
        split: option.splits)
  from assms(1) remove_socket [OF u assms(2,3,4)] c show ?thesis
    by (auto simp: looks_def drop_queue_def saved_def)
qed

lemma looks_append:
  assumes "looks sb dq m" "sq_socket q = 0 \<or> m (sq_socket q) = None"
  shows "looks (sb\<lparr>sb_queues := clist_append q (sb_queues sb)\<rparr>) dq
    (if sq_socket q = 0 then m else m(sq_socket q \<mapsto> q))"
proof -
  let ?es = "elems (sb_queues sb)" and ?sb = "sb\<lparr>sb_queues := clist_append q (sb_queues sb)\<rparr>"
  have new: "sq_socket q = 0 \<or> (\<forall>x\<in>set ?es. sq_socket x \<noteq> sq_socket q)"
    using assms by (cases "sq_socket q = 0") (auto simp: looks_def saved_None_iff [symmetric])
  have "saved ?sb t = (case saved sb t of Some x \<Rightarrow> Some x | None \<Rightarrow> if sq_socket q = t then Some q else None)" for t
    using append_socket [of ?es q t] by (simp add: saved_def clist_append_def)
  moreover have "unique_sockets (elems (sb_queues ?sb))" "cursor_in (sb_queues ?sb)"
    using assms(1) append_unique [OF _ new]
    by (auto simp: looks_def cursor_in_def clist_append_def split: option.splits)
  ultimately show ?thesis using assms by (auto simp: looks_def split: option.splits)
qed

lemma get_set_queue [simp]:
  "get_queue None (set_queue None q sb) = q"
  "i < length (elems (sb_queues sb)) \<Longrightarrow> get_queue (Some i) (set_queue (Some i) q sb) = q"
  "length (elems (sb_queues (set_queue j q sb))) = length (elems (sb_queues sb))"
  "set_queue None q' (set_queue None q sb) = set_queue None q' sb"
  "set_queue (Some i) q' (set_queue (Some i) q sb) = set_queue (Some i) q' sb"
  "sb_fill (set_queue j q sb) = sb_fill sb"
  by (simp_all add: get_queue_def set_queue_def split: option.splits)

lemma getQueuedChar_looks:
  assumes "looks sb dq m" "s \<noteq> 0"
  shows "m s = None \<Longrightarrow>
      \<exists>sb'. SocketBuffer_getQueuedChar s sb = (SOCKETBUFFER_INTERRUPTED, None, sb') \<and> looks sb' dq m"
    and "m s = Some q \<Longrightarrow> sq_index q < sq_headerlen q \<Longrightarrow>
      \<exists>sb'. SocketBuffer_getQueuedChar s sb = (SOCKETBUFFER_COMPLETE, Some (sq_fixed_header q ! sq_index q), sb') \<and>
        looks sb' dq (m(s \<mapsto> q\<lparr>sq_index := sq_index q + 1\<rparr>))"
    and "m s = Some q \<Longrightarrow> sq_headerlen q \<le> sq_index q \<Longrightarrow> sq_index q \<le> 4 \<Longrightarrow>
      \<exists>sb'. SocketBuffer_getQueuedChar s sb = (SOCKETBUFFER_INTERRUPTED, None, sb') \<and> looks sb' dq m"
proof -
  show "m s = None \<Longrightarrow>
      \<exists>sb'. SocketBuffer_getQueuedChar s sb = (SOCKETBUFFER_INTERRUPTED, None, sb') \<and> looks sb' dq m"
    using looks_find(1) [OF assms] by (auto simp: SocketBuffer_getQueuedChar_def)
  assume ms: "m s = Some q"
  then obtain i sb1 where f: "find_queue s sb = (Some i, sb1)" "looks sb1 dq m"
      "i < length (elems (sb_queues sb1))" "elems (sb_queues sb1) ! i = q" "sq_socket q = s"
    using looks_find(2) [OF assms] by blast
  show "sq_index q < sq_headerlen q \<Longrightarrow>
      \<exists>sb'. SocketBuffer_getQueuedChar s sb = (SOCKETBUFFER_COMPLETE, Some (sq_fixed_header q ! sq_index q), sb') \<and>
        looks sb' dq (m(s \<mapsto> q\<lparr>sq_index := sq_index q + 1\<rparr>))"
    using f looks_set [OF f(2,3), of s "q\<lparr>sq_index := sq_index q + 1\<rparr>"] assms(2)
    by (auto simp: SocketBuffer_getQueuedChar_def get_queue_def)
  show "sq_headerlen q \<le> sq_index q \<Longrightarrow> sq_index q \<le> 4 \<Longrightarrow>
      \<exists>sb'. SocketBuffer_getQueuedChar s sb = (SOCKETBUFFER_INTERRUPTED, None, sb') \<and> looks sb' dq m"
    using f by (auto simp: SocketBuffer_getQueuedChar_def get_queue_def)
qed

lemma interrupted_looks:
  assumes "looks sb dq m" "s \<noteq> 0"
  shows "m s = Some q \<Longrightarrow>
      looks (SocketBuffer_interrupted s n sb) dq (m(s \<mapsto> q\<lparr>sq_index := 0, sq_datalen := n\<rparr>))"
    and "m s = None \<Longrightarrow> sq_socket dq = s \<Longrightarrow>
      looks (SocketBuffer_interrupted s n sb) (fresh_queue sb) (m(s \<mapsto> dq\<lparr>sq_index := 0, sq_datalen := n\<rparr>))"
    and "m s = None \<Longrightarrow> sq_socket dq = 0 \<Longrightarrow> looks (SocketBuffer_interrupted s n sb) (fresh_queue sb) m"
proof -
  { assume "m s = Some q"
    then obtain i sb1 where f: "find_queue s sb = (Some i, sb1)" "looks sb1 dq m"
        "i < length (elems (sb_queues sb1))" "elems (sb_queues sb1) ! i = q" "sq_socket q = s"
      using looks_find(2) [OF assms] by blast
    then show "looks (SocketBuffer_interrupted s n sb) dq (m(s \<mapsto> q\<lparr>sq_index := 0, sq_datalen := n\<rparr>))"
      using looks_set [OF f(2,3), of s] assms(2) by (simp add: SocketBuffer_interrupted_def get_queue_def) }
  assume "m s = None"
  then obtain sb1 where f: "find_queue s sb = (None, sb1)" "looks sb1 dq m" "sb_fill sb1 = sb_fill sb"
    using looks_find(1) [OF assms] by blast
  have q: "sb_def_queue sb1 = dq" "sb_size sb1 = sb_size sb"
    using f by (auto simp: looks_def find_queue_def)
  have new: "looks (SocketBuffer_interrupted s n sb) (fresh_queue sb)
      (if sq_socket dq = 0 then m else m(sq_socket dq \<mapsto> dq\<lparr>sq_index := 0, sq_datalen := n\<rparr>))"
    if "sq_socket dq = 0 \<or> m (sq_socket dq) = None"
    using looks_append [OF f(2), of "dq\<lparr>sq_index := 0, sq_datalen := n\<rparr>"] that f q
    by (auto simp: SocketBuffer_interrupted_def SocketBuffer_newDefQ_def fresh_queue_def
        intro!: looks_def_queue)
  show "sq_socket dq = s \<Longrightarrow>
      looks (SocketBuffer_interrupted s n sb) (fresh_queue sb) (m(s \<mapsto> dq\<lparr>sq_index := 0, sq_datalen := n\<rparr>))"
    using new assms(2) \<open>m s = None\<close> by simp
  show "sq_socket dq = 0 \<Longrightarrow> looks (SocketBuffer_interrupted s n sb) (fresh_queue sb) m"
    using new by simp
qed

abbreviation reset_queue :: "socket_queue \<Rightarrow> socket_queue" where
  "reset_queue q \<equiv> q\<lparr>sq_socket := 0, sq_index := 0, sq_headerlen := 0, sq_datalen := 0\<rparr>"

lemma complete_looks:
  assumes "looks sb dq m" "s \<noteq> 0"
  shows "looks (SocketBuffer_complete s sb)
    (reset_queue (case m s of None \<Rightarrow> dq | Some q \<Rightarrow> q)) (m(s := None))"
proof (cases "m s")
  case None
  then obtain sb1 where f: "find_queue s sb = (None, sb1)" "looks sb1 dq m"
    using looks_find(1) [OF assms] by blast
  have "m(s := None) = m" using None by auto
  with f None show ?thesis
    by (auto simp: SocketBuffer_complete_def reset_def_queue_def looks_def saved_def)
next
  case (Some q)
  then obtain i sb1 where f: "find_queue s sb = (Some i, sb1)" "looks sb1 dq m"
      "i < length (elems (sb_queues sb1))" "elems (sb_queues sb1) ! i = q" "sq_socket q = s"
    using looks_find(2) [OF assms] by blast
  let ?sb = "drop_queue i (sb1\<lparr>sb_def_queue := q\<rparr>)"
  have "looks ?sb q (m(s := None))"
    by (rule looks_drop [OF looks_def_queue [OF f(2)]]) (use f assms(2) in simp_all)
  then have "looks (reset_def_queue ?sb) (reset_queue q) (m(s := None))"
    by (auto simp: reset_def_queue_def looks_def saved_def)
  with f Some show ?thesis by (simp add: SocketBuffer_complete_def)
qed

lemma cleanup_looks:
  assumes "looks sb dq m" "s \<noteq> 0"
  shows "looks (SocketBuffer_cleanup s sb) (if sq_socket dq = s then reset_queue dq else dq) (m(s := None))"
    and "sb_writes (SocketBuffer_cleanup s sb) = sb_writes sb"
proof -
  have "\<exists>sb1. SocketBuffer_cleanup s sb = (if sq_socket (sb_def_queue sb1) = s then reset_def_queue sb1 else sb1) \<and>
      looks sb1 dq (m(s := None))"
  proof (cases "m s")
    case None
    then obtain sb1 where f: "find_queue s sb = (None, sb1)" "looks sb1 dq m"
      using looks_find(1) [OF assms] by blast
    moreover have "m(s := None) = m" using None by auto
    ultimately show ?thesis by (auto simp: SocketBuffer_cleanup_def)
  next
    case (Some q)
    then obtain i sb1 where f: "find_queue s sb = (Some i, sb1)" "looks sb1 dq m"
        "i < length (elems (sb_queues sb1))" "elems (sb_queues sb1) ! i = q" "sq_socket q = s"
      using looks_find(2) [OF assms] by blast
    from looks_drop [OF f(2,3), of s] f assms(2) show ?thesis
      by (intro exI [of _ "drop_queue i sb1"]) (simp add: SocketBuffer_cleanup_def Let_def)
  qed
  then show "looks (SocketBuffer_cleanup s sb) (if sq_socket dq = s then reset_queue dq else dq) (m(s := None))"
    by (auto simp: reset_def_queue_def looks_def saved_def)
  show "sb_writes (SocketBuffer_cleanup s sb) = sb_writes sb"
    by (auto simp: SocketBuffer_cleanup_def find_queue_def reset_def_queue_def drop_queue_def Let_def
        split: option.splits)
qed

abbreviation push_header :: "byte \<Rightarrow> socket_queue \<Rightarrow> socket_queue" where
  "push_header c q \<equiv> q\<lparr>sq_fixed_header := (sq_fixed_header q)[sq_index q := c],
     sq_index := sq_index q + 1, sq_headerlen := sq_index q + 1\<rparr>"

lemma queueChar_looks:
  assumes "looks sb dq m" "s \<noteq> 0"
  shows "m s = Some q \<Longrightarrow> sq_index q \<le> 4 \<Longrightarrow>
      looks (SocketBuffer_queueChar s c sb) dq (m(s \<mapsto> push_header c q))"
    and "m s = None \<Longrightarrow> sq_socket dq = s \<Longrightarrow> sq_index dq \<le> 4 \<Longrightarrow>
      looks (SocketBuffer_queueChar s c sb) (push_header c dq) m"
    and "m s = None \<Longrightarrow> sq_socket dq = 0 \<Longrightarrow>
      looks (SocketBuffer_queueChar s c sb)
        (push_header c (dq\<lparr>sq_socket := s, sq_index := 0, sq_datalen := 0\<rparr>)) m"
proof -
  { assume "m s = Some q" "sq_index q \<le> 4"
    then obtain i sb1 where f: "find_queue s sb = (Some i, sb1)" "looks sb1 dq m"
        "i < length (elems (sb_queues sb1))" "elems (sb_queues sb1) ! i = q" "sq_socket q = s"
      using looks_find(2) [OF assms] by blast
    with looks_set [OF f(2,3), of s "push_header c q"] \<open>sq_index q \<le> 4\<close> assms(2)
    show "looks (SocketBuffer_queueChar s c sb) dq (m(s \<mapsto> push_header c q))"
      by (simp add: SocketBuffer_queueChar_def get_queue_def) }
  assume "m s = None"
  then obtain sb1 where f: "find_queue s sb = (None, sb1)" "looks sb1 dq m"
    using looks_find(1) [OF assms] by blast
  then have dq: "sb_def_queue sb1 = dq" by (simp add: looks_def)
  show "sq_socket dq = s \<Longrightarrow> sq_index dq \<le> 4 \<Longrightarrow>
      looks (SocketBuffer_queueChar s c sb) (push_header c dq) m"
    using f dq looks_set_def [OF f(2)] assms(2) by (auto simp: SocketBuffer_queueChar_def get_queue_def)
  show "sq_socket dq = 0 \<Longrightarrow> looks (SocketBuffer_queueChar s c sb)
        (push_header c (dq\<lparr>sq_socket := s, sq_index := 0, sq_datalen := 0\<rparr>)) m"
    using f dq looks_set_def [OF looks_def_queue [OF f(2)]]
    by (auto simp: SocketBuffer_queueChar_def get_queue_def)
qed

lemma getQueuedData_looks:
  assumes "looks sb dq m" "s \<noteq> 0"
  shows "m s = None \<Longrightarrow> \<exists>sb'. SocketBuffer_getQueuedData s n sb = (None, 0, sb') \<and>
      looks sb' (grow_buf (sb_fill sb) n dq) m"
    and "m s = Some q \<Longrightarrow> \<exists>i sb'. SocketBuffer_getQueuedData s n sb = (Some i, sq_datalen q, sb') \<and>
      looks sb' dq (m(s \<mapsto> grow_buf (sb_fill sb) n q)) \<and> i < length (elems (sb_queues sb')) \<and>
      elems (sb_queues sb') ! i = grow_buf (sb_fill sb) n q \<and> sq_socket q = s"
proof -
  { assume "m s = None"
    then obtain sb1 where f: "find_queue s sb = (None, sb1)" "looks sb1 dq m" "sb_fill sb1 = sb_fill sb"
      using looks_find(1) [OF assms] by blast
    then show "\<exists>sb'. SocketBuffer_getQueuedData s n sb = (None, 0, sb') \<and> looks sb' (grow_buf (sb_fill sb) n dq) m"
      using looks_set_def [OF f(2)] by (auto simp: SocketBuffer_getQueuedData_def get_queue_def looks_def) }
  assume "m s = Some q"
  then obtain i sb1 where f: "find_queue s sb = (Some i, sb1)" "looks sb1 dq m"
      "i < length (elems (sb_queues sb1))" "elems (sb_queues sb1) ! i = q" "sq_socket q = s"
      "sb_fill sb1 = sb_fill sb"
    using looks_find(2) [OF assms] by blast
  have "sq_socket (grow_buf (sb_fill sb) n q) = s" using f(5) by (simp add: grow_buf_def)
  from looks_set [OF f(2,3) _ assms(2) this] f
  show "\<exists>i sb'. SocketBuffer_getQueuedData s n sb = (Some i, sq_datalen q, sb') \<and>
      looks sb' dq (m(s \<mapsto> grow_buf (sb_fill sb) n q)) \<and> i < length (elems (sb_queues sb')) \<and>
      elems (sb_queues sb') ! i = grow_buf (sb_fill sb) n q \<and> sq_socket q = s"
    by (auto simp: SocketBuffer_getQueuedData_def get_queue_def set_queue_def)
qed

text \<open>Growing a buffer keeps what it holds and makes room.\<close>

lemma grow_buf_simps [simp]:
  "sq_socket (grow_buf f n q) = sq_socket q" "sq_index (grow_buf f n q) = sq_index q"
  "sq_headerlen (grow_buf f n q) = sq_headerlen q" "sq_fixed_header (grow_buf f n q) = sq_fixed_header q"
  "sq_datalen (grow_buf f n q) = sq_datalen q"
  by (simp_all add: grow_buf_def)

lemma grow_buf_room:
  assumes "sq_buflen q \<le> length (sq_buf q)" "sq_datalen q \<le> sq_buflen q"
  shows "n \<le> sq_buflen (grow_buf f n q)"
    and "sq_buflen (grow_buf f n q) \<le> length (sq_buf (grow_buf f n q))"
    and "take (sq_datalen q) (sq_buf (grow_buf f n q)) = take (sq_datalen q) (sq_buf q)"
    and "sq_datalen q \<le> sq_buflen (grow_buf f n q)"
  using assms by (auto simp: grow_buf_def)

section \<open>Properties\<close>

text \<open>
  A read that is interrupted before its first character (a socket that selects as readable but has
  nothing to read) leaks a queue: the default queue, which belongs to no socket, is appended to the
  list of saved queues with socket number 0, where no lookup for a socket finds it and only
  termination frees it, and a new default queue is allocated.
\<close>

theorem interrupted_leaks_queue:
  assumes "sb_queues sb = clist_empty" and "sq_socket (sb_def_queue sb) = 0"
  shows "\<exists>q. elems (sb_queues (SocketBuffer_interrupted s 0 sb)) = [q] \<and> sq_socket q = 0 \<and>
    sb_def_queue (SocketBuffer_interrupted s 0 sb) = fresh_queue sb \<and>
    (\<forall>t. t \<noteq> 0 \<longrightarrow> saved (SocketBuffer_interrupted s 0 sb) t = None)"
  using assms
  by (auto simp: SocketBuffer_interrupted_def find_queue_def clist_find_def clist_seek_def clist_empty_def
      clist_append_def SocketBuffer_newDefQ_def saved_def socketcompare_def fresh_queue_def)

definition demo_sbuf :: sbuf where
  "demo_sbuf = SocketBuffer_initialize \<lparr>sb_def_queue = undefined, sb_queues = clist_empty,
     sb_writes = clist_empty, sb_fill = 7, sb_size = 9\<rparr>"

theorem interrupted_leaks_queue_witness:
  "\<exists>q. elems (sb_queues (SocketBuffer_interrupted 5 0 demo_sbuf)) = [q] \<and> sq_socket q = 0 \<and>
    sb_def_queue (SocketBuffer_interrupted 5 0 demo_sbuf) = fresh_queue demo_sbuf \<and>
    (\<forall>t. t \<noteq> 0 \<longrightarrow> saved (SocketBuffer_interrupted 5 0 demo_sbuf) t = None)"
  by (rule interrupted_leaks_queue)
    (simp_all add: demo_sbuf_def SocketBuffer_initialize_def SocketBuffer_newDefQ_def fresh_queue_def)

end
