(* ===== verification/Socket.thy ===== *)
theory Socket
  imports SocketBuffer Packet
begin

text \<open>
  \<open>lib/Socket.c\<close>: reading and writing packets on non-blocking sockets. The operating system is an
  argument (\<open>os_ops\<close>), over an arbitrary state of its own; a call returns \<open>Inl errno\<close> or its result.
  File descriptor sets are sets of sockets, and the lists of sockets are abstract lists with a cursor.
\<close>

section \<open>The operating system and the module state\<close>

abbreviation (input) EINTR :: int where "EINTR \<equiv> 4"
abbreviation (input) EAGAIN :: int where "EAGAIN \<equiv> 11"
abbreviation (input) EWOULDBLOCK :: int where "EWOULDBLOCK \<equiv> 11"
abbreviation (input) EINPROGRESS :: int where "EINPROGRESS \<equiv> 115"
abbreviation (input) AF_INET :: int where "AF_INET \<equiv> 2"
abbreviation (input) AF_INET6 :: int where "AF_INET6 \<equiv> 10"

record 'o os_ops =
  os_recv :: "'o \<Rightarrow> int \<Rightarrow> nat \<Rightarrow> (int + bytes) \<times> 'o"
  os_writev :: "'o \<Rightarrow> int \<Rightarrow> bytes list \<Rightarrow> (int + nat) \<times> 'o"
  os_select :: "'o \<Rightarrow> int \<Rightarrow> int set \<Rightarrow> int set \<Rightarrow> int \<Rightarrow> (int + int \<times> int set \<times> int set) \<times> 'o"
  os_setnonblocking :: "'o \<Rightarrow> int \<Rightarrow> (int + int) \<times> 'o"
  os_close :: "'o \<Rightarrow> int \<Rightarrow> int \<times> 'o"
  os_getaddrinfo :: "'o \<Rightarrow> bytes \<Rightarrow> (int + int list) \<times> 'o"
  os_socket :: "'o \<Rightarrow> int \<Rightarrow> (int + int) \<times> 'o"
  os_connect :: "'o \<Rightarrow> int \<Rightarrow> int \<Rightarrow> bytes \<Rightarrow> int \<Rightarrow> (int + unit) \<times> 'o"
  os_writecomplete :: "(int \<Rightarrow> 'o \<Rightarrow> 'o) option"

text \<open>
  The module's variables: the structure \<open>s\<close>, the static write set, the variables of
  \<open>SocketBuffer.c\<close>, and the state of the operating system. The iterator \<open>cur_clientsds\<close> is the
  socket of the list element it points to; \<open>Socket_addSocket\<close> keeps the sockets of the list distinct.
\<close>

record 'o Sockets =
  s_rset :: "int set"
  s_rset_saved :: "int set"
  s_maxfdp1 :: int
  s_clientsds :: "int clist"
  s_cur_clientsds :: "int option"
  s_connect_pending :: "int clist"
  s_write_pending :: "int clist"
  s_pending_wset :: "int set"
  s_wset :: "int set"
  s_sb :: sbuf
  s_os :: 'o

definition Socket_outInitialize :: "'o Sockets \<Rightarrow> 'o Sockets" where
  "Socket_outInitialize w = w\<lparr>s_sb := SocketBuffer_initialize (s_sb w), s_clientsds := clist_empty,
     s_connect_pending := clist_empty, s_write_pending := clist_empty, s_cur_clientsds := None,
     s_rset := {}, s_pending_wset := {}, s_maxfdp1 := 0, s_rset_saved := {}\<rparr>"

definition Socket_outTerminate :: "'o Sockets \<Rightarrow> 'o Sockets" where
  "Socket_outTerminate w = w\<lparr>s_connect_pending := clist_empty, s_write_pending := clist_empty,
     s_clientsds := clist_empty, s_sb := SocketBuffer_terminate (s_sb w)\<rparr>"

definition same_socket :: "int \<Rightarrow> int \<Rightarrow> bool" where
  "same_socket b a \<longleftrightarrow> a = b"

definition Socket_addSocket :: "'o os_ops \<Rightarrow> int \<Rightarrow> 'o Sockets \<Rightarrow> (int + int) \<times> 'o Sockets" where
  "Socket_addSocket os newSd w =
     (if clist_find (same_socket newSd) (s_clientsds w) = None then
        let (rc, ost) = os_setnonblocking os (s_os w) newSd
        in (rc, w\<lparr>s_clientsds := clist_append newSd (s_clientsds w),
                  s_rset_saved := insert newSd (s_rset_saved w),
                  s_maxfdp1 := max (s_maxfdp1 w) (newSd + 1), s_os := ost\<rparr>)
      else (Inr 0, w\<lparr>s_clientsds := clist_seek (same_socket newSd) (s_clientsds w)\<rparr>))"

section \<open>Reading\<close>

definition Socket_getch :: "'o os_ops \<Rightarrow> 'o Sockets \<Rightarrow> int \<Rightarrow> int \<times> byte \<times> 'o Sockets" where
  "Socket_getch os w socket =
     (let (rc, c, sb) = SocketBuffer_getQueuedChar socket (s_sb w); w = w\<lparr>s_sb := sb\<rparr> in
      if rc \<noteq> SOCKETBUFFER_INTERRUPTED then (rc, case c of Some c \<Rightarrow> c | None \<Rightarrow> 0, w)
      else case os_recv os (s_os w) socket 1 of
          (Inl err, ost) \<Rightarrow>
            if err = EWOULDBLOCK \<or> err = EAGAIN
            then (TCPSOCKET_INTERRUPTED, 0, w\<lparr>s_os := ost, s_sb := SocketBuffer_interrupted socket 0 sb\<rparr>)
            else (SOCKET_ERROR, 0, w\<lparr>s_os := ost\<rparr>)
        | (Inr [], ost) \<Rightarrow> (SOCKET_ERROR, 0, w\<lparr>s_os := ost\<rparr>)
        | (Inr (c # _), ost) \<Rightarrow>
            (TCPSOCKET_COMPLETE, c, w\<lparr>s_os := ost, s_sb := SocketBuffer_queueChar socket c sb\<rparr>))"

text \<open>The length passed to \<open>recv\<close> is a difference of \<open>size_t\<close> values.\<close>

definition size_diff :: "nat \<Rightarrow> nat \<Rightarrow> nat" where
  "size_diff a b = nat ((int a - int b) mod 2 ^ 64)"

definition write_at :: "nat \<Rightarrow> bytes \<Rightarrow> bytes \<Rightarrow> bytes" where
  "write_at i d buf = take i buf @ d @ drop (i + length d) buf"

text \<open>
  The result is the data (\<open>None\<close> for \<open>NULL\<close>), the contents of the whole buffer, with \<open>*actual_len\<close>;
  for zero bytes \<open>*actual_len\<close> keeps the caller's 0.
\<close>

definition Socket_getdata :: "'o os_ops \<Rightarrow> 'o Sockets \<Rightarrow> int \<Rightarrow> nat \<Rightarrow> bytes option \<times> nat \<times> 'o Sockets" where
  "Socket_getdata os w socket bytes =
     (if bytes = 0 then
        let sb = SocketBuffer_complete socket (s_sb w)
        in (Some (sq_buf (sb_def_queue sb)), 0, w\<lparr>s_sb := sb\<rparr>)
      else
        let (i, actual_len, sb) = SocketBuffer_getQueuedData socket bytes (s_sb w);
            buf = sq_buf (get_queue i sb);
            finish = (\<lambda>buf actual_len ost sb.
              (Some buf, actual_len, w\<lparr>s_os := ost, s_sb :=
                 (if actual_len = bytes then SocketBuffer_complete socket sb
                  else SocketBuffer_interrupted socket actual_len sb)\<rparr>))
        in case os_recv os (s_os w) socket (size_diff bytes actual_len) of
             (Inl err, ost) \<Rightarrow>
               if err \<noteq> EAGAIN \<and> err \<noteq> EWOULDBLOCK then (None, actual_len, w\<lparr>s_os := ost, s_sb := sb\<rparr>)
               else finish buf actual_len ost sb
           | (Inr d, ost) \<Rightarrow>
               if d = [] then (None, actual_len, w\<lparr>s_os := ost, s_sb := sb\<rparr>)
               else
                 let buf = write_at actual_len d buf;
                     sb = set_queue i ((get_queue i sb)\<lparr>sq_buf := buf\<rparr>) sb
                 in finish buf (actual_len + length d) ost sb)"

section \<open>Writing\<close>

text \<open>The lookup of a pending write moves the cursor of the list when it succeeds.\<close>

definition Socket_noPendingWrites :: "int \<Rightarrow> 'o Sockets \<Rightarrow> bool \<times> 'o Sockets" where
  "Socket_noPendingWrites socket w =
     (clist_find (same_socket socket) (s_write_pending w) = None,
      w\<lparr>s_write_pending := clist_seek (same_socket socket) (s_write_pending w)\<rparr>)"

definition Socket_writev :: "'o os_ops \<Rightarrow> int \<Rightarrow> bytes list \<Rightarrow> 'o Sockets \<Rightarrow> int \<times> nat \<times> 'o Sockets" where
  "Socket_writev os socket iovecs w =
     (case os_writev os (s_os w) socket iovecs of
        (Inl err, ost) \<Rightarrow>
          (if err = EWOULDBLOCK \<or> err = EAGAIN then TCPSOCKET_INTERRUPTED else SOCKET_ERROR, 0, w\<lparr>s_os := ost\<rparr>)
      | (Inr n, ost) \<Rightarrow> (int n, n, w\<lparr>s_os := ost\<rparr>))"

text \<open>\<open>iovecs\<close> and \<open>frees1\<close> have five elements: more than four buffers overrun them.\<close>

definition Socket_putdatas ::
    "'o os_ops \<Rightarrow> 'o Sockets \<Rightarrow> int \<Rightarrow> bytes \<Rightarrow> bytes list \<Rightarrow> bool list \<Rightarrow> (int \<times> 'o Sockets) option" where
  "Socket_putdatas os w socket buf0 buffers frees =
     (let (none, w) = Socket_noPendingWrites socket w in
      if \<not> none then Some (SOCKET_ERROR, w)
      else if length buffers > 4 then None
      else
        let total = length buf0 + sum_list (map length buffers);
            iovecs = buf0 # buffers;
            frees1 = True # frees;
            (rc, bytes, w) = Socket_writev os socket iovecs w
        in if rc = SOCKET_ERROR then Some (rc, w)
           else if bytes = total then Some (TCPSOCKET_COMPLETE, w)
           else Some (TCPSOCKET_INTERRUPTED,
                  w\<lparr>s_sb := SocketBuffer_pendingWrite socket iovecs frees1 total bytes (s_sb w),
                    s_write_pending := clist_append socket (s_write_pending w),
                    s_pending_wset := insert socket (s_pending_wset w)\<rparr>))"

definition Socket_addPendingWrite :: "int \<Rightarrow> 'o Sockets \<Rightarrow> 'o Sockets" where
  "Socket_addPendingWrite socket w = w\<lparr>s_pending_wset := insert socket (s_pending_wset w)\<rparr>"

definition Socket_clearPendingWrite :: "int \<Rightarrow> 'o Sockets \<Rightarrow> 'o Sockets" where
  "Socket_clearPendingWrite socket w =
     (if socket \<in> s_pending_wset w then w\<lparr>s_pending_wset := s_pending_wset w - {socket}\<rparr> else w)"

text \<open>
  The buffers left to write, when \<open>bytes\<close> bytes have been written: the rest of the buffer that was
  written in part, alone, or all the buffers not begun.
\<close>

fun continue_iovecs :: "nat \<Rightarrow> nat \<Rightarrow> bytes list \<Rightarrow> bytes list" where
  "continue_iovecs bytes curbuflen [] = []"
| "continue_iovecs bytes curbuflen (b # bs) =
     (if bytes \<le> curbuflen then b # continue_iovecs bytes (curbuflen + length b) bs
      else if bytes < curbuflen + length b then [drop (bytes - curbuflen) b]
      else continue_iovecs bytes (curbuflen + length b) bs)"

text \<open>\<open>None\<close>: there is no pending write for the socket, and a null pointer is dereferenced.\<close>

definition Socket_continueWrite :: "'o os_ops \<Rightarrow> int \<Rightarrow> 'o Sockets \<Rightarrow> (int \<times> 'o Sockets) option" where
  "Socket_continueWrite os socket w = do {
     let (i, sb) = SocketBuffer_getWrite socket (s_sb w);
     let w = w\<lparr>s_sb := sb\<rparr>;
     i \<leftarrow> i;
     let pw = elems (sb_writes sb) ! i;
     let iovecs1 = continue_iovecs (pw_bytes pw) 0 (take (pw_count pw) (pw_iovecs pw));
     let (rc, bytes, w) = Socket_writev os socket iovecs1 w;
     if rc = SOCKET_ERROR then Some (rc, w)
     else do {
       let pw = pw\<lparr>pw_bytes := pw_bytes pw + bytes\<rparr>;
       let sb = (s_sb w)\<lparr>sb_writes := (sb_writes (s_sb w))\<lparr>elems := (elems (sb_writes (s_sb w)))[i := pw]\<rparr>\<rparr>;
       Some (if pw_bytes pw = pw_total pw then 1 else 0, w\<lparr>s_sb := sb\<rparr>)
     }
   }"
text \<open>
  The loop of \<open>Socket_continueWrites\<close>; \<open>curpending\<close> is a position in \<open>write_pending\<close>. After a
  removal the loop goes on from the list's cursor, \<open>s.write_pending->current\<close>, not from the next
  element.
\<close>

definition remove_pending :: "nat \<Rightarrow> int clist \<Rightarrow> int clist" where
  "remove_pending i q = \<lparr>elems = remove_nth i (elems q),
     cursor = cursor_after_remove i (length (elems q)) (cursor q)\<rparr>"

lemma Socket_continueWrite_pending:
  "Socket_continueWrite os socket w = Some (rc, w') \<Longrightarrow> s_write_pending w' = s_write_pending w"
  by (auto simp: Socket_continueWrite_def Socket_writev_def Let_def bind_eq_Some_conv
      split: prod.splits sum.splits if_splits)

function continue_loop :: "'o os_ops \<Rightarrow> int set \<Rightarrow> nat option \<Rightarrow> 'o Sockets \<Rightarrow> 'o Sockets option" where
  "continue_loop os pwset curpending w =
     (case curpending of None \<Rightarrow> Some w
      | Some i \<Rightarrow>
        if i \<ge> length (elems (s_write_pending w)) then Some w
        else
          let socket = elems (s_write_pending w) ! i in
          case (if socket \<in> pwset then Socket_continueWrite os socket w else Some (0, w)) of
            None \<Rightarrow> None
          | Some (rc, w1) \<Rightarrow>
              if rc \<noteq> 0 then
                let w2 = w1\<lparr>s_sb := snd (SocketBuffer_writeComplete socket (s_sb w1)),
                            s_pending_wset := s_pending_wset w1 - {socket},
                            s_write_pending := remove_pending i (s_write_pending w1)\<rparr>;
                    w3 = (case os_writecomplete os of None \<Rightarrow> w2 | Some f \<Rightarrow> w2\<lparr>s_os := f socket (s_os w2)\<rparr>)
                in continue_loop os pwset (cursor (s_write_pending w3)) w3
              else continue_loop os pwset (Some (Suc i)) w1)"
  by pat_completeness auto
termination
proof (relation "measures [\<lambda>(os, pwset, c, w). length (elems (s_write_pending w)),
      \<lambda>(os, pwset, c, w). length (elems (s_write_pending w)) - (case c of None \<Rightarrow> 0 | Some i \<Rightarrow> i)]", goal_cases)
  case (2 os pwset curpending w i socket r rc w1 w2 w3)
  then have "s_write_pending w1 = s_write_pending w"
    by (auto dest!: Socket_continueWrite_pending split: if_splits)
  with 2 have "length (elems (s_write_pending w2)) < length (elems (s_write_pending w))"
    by (simp add: remove_pending_def length_remove_nth)
  with 2 show ?case by (simp split: option.split)
next
  case (3 os pwset curpending w i socket r rc w1)
  then have "s_write_pending w1 = s_write_pending w"
    by (auto dest!: Socket_continueWrite_pending split: if_splits)
  with 3 show ?case by simp
qed simp

declare continue_loop.simps [simp del]

definition Socket_continueWrites :: "'o os_ops \<Rightarrow> int set \<Rightarrow> 'o Sockets \<Rightarrow> (int \<times> 'o Sockets) option" where
  "Socket_continueWrites os pwset w =
     map_option (\<lambda>w. (0, w))
       (continue_loop os pwset (if elems (s_write_pending w) = [] then None else Some 0) w)"

section \<open>Opening, selecting and closing\<close>

definition Socket_close_only :: "'o os_ops \<Rightarrow> int \<Rightarrow> 'o Sockets \<Rightarrow> int \<times> 'o Sockets" where
  "Socket_close_only os socket w = (let (rc, ost) = os_close os (s_os w) socket in (rc, w\<lparr>s_os := ost\<rparr>))"

text \<open>The element after the one with a given socket (\<open>ListNextElement\<close> of a non-null position).\<close>

fun next_after :: "int \<Rightarrow> int list \<Rightarrow> int option" where
  "next_after x [] = None"
| "next_after x (y # ys) = (if x = y then (case ys of [] \<Rightarrow> None | z # _ \<Rightarrow> Some z) else next_after x ys)"

definition Socket_close :: "'o os_ops \<Rightarrow> int \<Rightarrow> 'o Sockets \<Rightarrow> 'o Sockets" where
  "Socket_close os socket w =
     (let w = snd (Socket_close_only os socket w);
          w = w\<lparr>s_rset_saved := s_rset_saved w - {socket}\<rparr>;
          w = (if socket \<in> s_pending_wset w then w\<lparr>s_pending_wset := s_pending_wset w - {socket}\<rparr> else w);
          w = (if s_cur_clientsds w = Some socket
               then w\<lparr>s_cur_clientsds := next_after socket (elems (s_clientsds w))\<rparr> else w);
          w = w\<lparr>s_connect_pending := clist_unlink (same_socket socket) (s_connect_pending w),
                s_write_pending := clist_unlink (same_socket socket) (s_write_pending w),
                s_sb := SocketBuffer_cleanup socket (s_sb w),
                s_clientsds := clist_unlink (same_socket socket) (s_clientsds w)\<rparr>
      in if socket + 1 \<ge> s_maxfdp1 w
         then w\<lparr>s_maxfdp1 := fold max (elems (s_clientsds w)) 0 + 1\<rparr> else w)"

definition isReady :: "int \<Rightarrow> 'o Sockets \<Rightarrow> bool \<times> 'o Sockets" where
  "isReady socket w =
     (let found = clist_find (same_socket socket) (s_connect_pending w) \<noteq> None;
          w = w\<lparr>s_connect_pending := clist_seek (same_socket socket) (s_connect_pending w)\<rparr>
      in if found \<and> socket \<in> s_wset w
         then (True, w\<lparr>s_connect_pending := clist_unlink (same_socket socket) (s_connect_pending w)\<rparr>)
         else if socket \<in> s_rset w \<and> socket \<in> s_wset w then Socket_noPendingWrites socket w
         else (False, w))"

text \<open>Advancing \<open>cur_clientsds\<close> to the next socket that is ready, over the rest of the list.\<close>

fun advance_ready :: "int list \<Rightarrow> 'o Sockets \<Rightarrow> 'o Sockets" where
  "advance_ready [] w = w\<lparr>s_cur_clientsds := None\<rparr>"
| "advance_ready (x # xs) w =
     (let (ready, w) = isReady x w
      in if ready then w\<lparr>s_cur_clientsds := Some x\<rparr> else advance_ready xs w)"

definition rest_from :: "int option \<Rightarrow> int list \<Rightarrow> int list" where
  "rest_from c xs = (case c of None \<Rightarrow> [] | Some x \<Rightarrow> dropWhile (\<lambda>y. y \<noteq> x) xs)"

definition take_ready :: "'o Sockets \<Rightarrow> int \<times> 'o Sockets" where
  "take_ready w = (case s_cur_clientsds w of None \<Rightarrow> (0, w)
     | Some x \<Rightarrow> (x, w\<lparr>s_cur_clientsds := next_after x (elems (s_clientsds w))\<rparr>))"

text \<open>
  \<open>tp\<close> is the caller's timeout, if any, in milliseconds; a null timeout is one second. \<open>select\<close> is
  given the sets it is to check and returns the ready ones. The result 0 is no ready socket.
\<close>

definition Socket_getReadySocket ::
    "'o os_ops \<Rightarrow> bool \<Rightarrow> int option \<Rightarrow> 'o Sockets \<Rightarrow> (int \<times> 'o Sockets) option" where
  "Socket_getReadySocket os more_work tp w =
     (if elems (s_clientsds w) = [] then Some (0, w)
      else
        let timeout = (if more_work then 0 else case tp of Some t \<Rightarrow> t | None \<Rightarrow> 1000);
            w = advance_ready (rest_from (s_cur_clientsds w) (elems (s_clientsds w))) w
        in if s_cur_clientsds w \<noteq> None then Some (take_ready w)
           else case os_select os (s_os w) (s_maxfdp1 w) (s_rset_saved w) (s_pending_wset w) timeout of
             (Inl err, ost) \<Rightarrow> Some (SOCKET_ERROR, w\<lparr>s_rset := s_rset_saved w, s_os := ost\<rparr>)
           | (Inr (rc, rset, pwset), ost) \<Rightarrow> do {
               (rc0, w) \<leftarrow> Socket_continueWrites os pwset (w\<lparr>s_rset := rset, s_os := ost\<rparr>);
               if rc0 = SOCKET_ERROR then Some (0, w)
               else case os_select os (s_os w) (s_maxfdp1 w) {} (s_rset_saved w) 0 of
                 (Inl err, ost) \<Rightarrow> Some (SOCKET_ERROR, w\<lparr>s_wset := s_rset_saved w, s_os := ost\<rparr>)
               | (Inr (rc1, _, wset), ost) \<Rightarrow>
                   let w = w\<lparr>s_wset := wset, s_os := ost\<rparr> in
                   if rc = 0 \<and> rc1 = 0 then Some (rc, w)
                   else Some (take_ready (advance_ready (elems (s_clientsds w)) w))
             })"

text \<open>
  \<open>Socket_new\<close>: the address family chosen among the results of \<open>getaddrinfo\<close> is the first IPv4 one
  or else the last. The result is the completion code and the socket (-1 for none).
\<close>

fun choose_family :: "int list \<Rightarrow> int option" where
  "choose_family [] = None"
| "choose_family [f] = Some f"
| "choose_family (f # g # fs) = (if f = AF_INET then Some f else choose_family (g # fs))"

definition Socket_new :: "'o os_ops \<Rightarrow> bytes \<Rightarrow> int \<Rightarrow> 'o Sockets \<Rightarrow> int \<times> int \<times> 'o Sockets" where
  "Socket_new os addr port w =
     (let addr = (case addr of c # cs \<Rightarrow> if c = of_char (CHR ''['') then cs else addr | [] \<Rightarrow> addr);
          (ai, ost) = os_getaddrinfo os (s_os w) addr;
          w = w\<lparr>s_os := ost\<rparr>;
          chosen = (case ai of Inl rc \<Rightarrow> Inl rc
            | Inr fs \<Rightarrow> (case choose_family fs of None \<Rightarrow> Inl (-1)
                | Some f \<Rightarrow> if f = AF_INET6 \<or> f = AF_INET then Inr f else Inl (-1)))
      in case chosen of Inl rc \<Rightarrow> (rc, -1, w)
         | Inr family \<Rightarrow>
           (case os_socket os (s_os w) family of
              (Inl err, ost) \<Rightarrow> (err, -1, w\<lparr>s_os := ost\<rparr>)
            | (Inr sock, ost) \<Rightarrow>
                (case Socket_addSocket os sock (w\<lparr>s_os := ost\<rparr>) of
                   (Inl err, w) \<Rightarrow> (err, sock, w)
                 | (Inr _, w) \<Rightarrow>
                     let (c, ost) = os_connect os (s_os w) sock family addr port;
                         rc = (case c of Inl err \<Rightarrow> err | Inr _ \<Rightarrow> 0);
                         w = w\<lparr>s_os := ost\<rparr>
                     in (rc, sock, if rc = EINPROGRESS \<or> rc = EWOULDBLOCK
                                   then w\<lparr>s_connect_pending := clist_append sock (s_connect_pending w)\<rparr> else w))))"

section \<open>Reading a packet in pieces\<close>

text \<open>
  The documented behaviour of \<open>recv\<close> on a non-blocking socket whose connection is up: \<open>pending\<close> being
  the bytes the peer has sent or is still to send, it fails with \<open>EAGAIN\<close>, or it delivers between
  one and the requested number of them.
\<close>

definition healthy_recv :: "'o os_ops \<Rightarrow> ('o \<Rightarrow> bytes) \<Rightarrow> int \<Rightarrow> bool" where
  "healthy_recv os pending s \<longleftrightarrow> (\<forall>ost n. 0 < n \<longrightarrow> pending ost \<noteq> [] \<longrightarrow>
     (\<exists>ost'. os_recv os ost s n = (Inl EAGAIN, ost') \<and> pending ost' = pending ost) \<or>
     (\<exists>d ost'. os_recv os ost s n = (Inr d, ost') \<and> d \<noteq> [] \<and> length d \<le> n \<and> pending ost = d @ pending ost'))"

text \<open>What a queue holds of the packet, \<open>hs\<close> being the characters read in this attempt.\<close>

definition header_of :: "socket_queue \<Rightarrow> bytes" where
  "header_of q = take (sq_headerlen q) (sq_fixed_header q)"

definition data_of :: "socket_queue \<Rightarrow> bytes" where
  "data_of q = take (sq_datalen q) (sq_buf q)"

definition queue_wf :: "socket_queue \<Rightarrow> bool" where
  "queue_wf q \<longleftrightarrow> length (sq_fixed_header q) = 5 \<and> sq_buflen q \<le> length (sq_buf q) \<and>
     sq_datalen q \<le> sq_buflen q"

definition queue_reads :: "bytes \<Rightarrow> socket_queue \<Rightarrow> bool" where
  "queue_reads hs q \<longleftrightarrow> queue_wf q \<and> sq_index q = length hs \<and> sq_index q \<le> sq_headerlen q \<and>
     sq_headerlen q \<le> 5 \<and> take (sq_index q) (sq_fixed_header q) = hs \<and>
     (sq_datalen q > 0 \<longrightarrow> header_complete (header_of q) \<and> sq_datalen q < rl_value (tl (header_of q))) \<and>
     (\<forall>k < sq_headerlen q. \<not> header_complete (take k (sq_fixed_header q)))"

definition read_state :: "int \<Rightarrow> bytes \<Rightarrow> socket_queue \<Rightarrow> (int \<Rightarrow> socket_queue option) \<Rightarrow> bool" where
  "read_state s hs dq m \<longleftrightarrow> queue_wf dq \<and> sq_datalen dq = 0 \<and> (case m s of
       Some q \<Rightarrow> sq_socket dq = 0 \<and> queue_reads hs q
     | None \<Rightarrow> if hs = [] then sq_socket dq = 0
               else sq_socket dq = s \<and> queue_reads hs dq \<and> sq_headerlen dq = sq_index dq)"

definition undelivered :: "('o \<Rightarrow> bytes) \<Rightarrow> int \<Rightarrow> 'o Sockets \<Rightarrow> bytes" where
  "undelivered pending s w = (case saved (s_sb w) s of
       Some q \<Rightarrow> drop (sq_index q) (header_of q) @ data_of q
     | None \<Rightarrow> []) @ pending (s_os w)"

text \<open>
  The state of reading from socket \<open>s\<close>, the saved queues of the other sockets being \<open>others\<close>.
\<close>

definition reading ::
    "'o os_ops \<Rightarrow> ('o \<Rightarrow> bytes) \<Rightarrow> int \<Rightarrow> (int \<Rightarrow> socket_queue option) \<Rightarrow> bytes \<Rightarrow> 'o Sockets \<Rightarrow> bool" where
  "reading os pending s others hs w \<longleftrightarrow> healthy_recv os pending s \<and> s \<noteq> 0 \<and>
     (\<exists>dq m. looks (s_sb w) dq m \<and> read_state s hs dq m \<and> (\<forall>t. t \<noteq> s \<longrightarrow> m t = others t))"

lemma undelivered_looks:
  "looks (s_sb w) dq m \<Longrightarrow> s \<noteq> 0 \<Longrightarrow> undelivered pending s w =
     (case m s of Some q \<Rightarrow> drop (sq_index q) (header_of q) @ data_of q | None \<Rightarrow> []) @ pending (s_os w)"
  by (simp add: undelivered_def looks_def)

text \<open>How a queue changes: a stored character is delivered, a new one is stored, the attempt ends.\<close>

lemma queue_reads_next:
  assumes "queue_reads hs q" "sq_index q < sq_headerlen q"
  shows "queue_reads (hs @ [sq_fixed_header q ! sq_index q]) (q\<lparr>sq_index := sq_index q + 1\<rparr>)"
    and "drop (sq_index q) (header_of q) = sq_fixed_header q ! sq_index q # drop (Suc (sq_index q)) (header_of q)"
proof -
  have "sq_index q < length (sq_fixed_header q)" using assms by (simp add: queue_reads_def queue_wf_def)
  with assms show "queue_reads (hs @ [sq_fixed_header q ! sq_index q]) (q\<lparr>sq_index := sq_index q + 1\<rparr>)"
    by (auto simp: queue_reads_def queue_wf_def header_of_def take_Suc_conv_app_nth)
  from assms \<open>sq_index q < length (sq_fixed_header q)\<close>
  show "drop (sq_index q) (header_of q) = sq_fixed_header q ! sq_index q # drop (Suc (sq_index q)) (header_of q)"
    by (subst Cons_nth_drop_Suc [symmetric]) (simp_all add: header_of_def)
qed

lemma queue_reads_full:
  assumes "queue_reads hs q" "sq_index q = sq_headerlen q"
  shows "header_of q = hs"
  using assms by (auto simp: queue_reads_def header_of_def)

lemma queue_reads_push:
  assumes "queue_reads hs q" "sq_index q = sq_headerlen q" "\<not> header_complete hs" "length hs < 5"
  shows "queue_reads (hs @ [c]) (push_header c q)"
proof -
  have i: "sq_index q < length (sq_fixed_header q)" "sq_datalen q = 0"
    using assms queue_reads_full [OF assms(1,2)] by (auto simp: queue_reads_def queue_wf_def)
  have "\<not> header_complete (take k ((sq_fixed_header q)[sq_index q := c]))" if "k < Suc (sq_index q)" for k
    using that assms by (cases "k = sq_index q") (auto simp: queue_reads_def)
  with i assms show ?thesis
    by (auto simp: queue_reads_def queue_wf_def take_Suc_conv_app_nth)
qed

lemma queue_reads_first:
  assumes "queue_wf q"
  shows "queue_reads [c] (push_header c (q\<lparr>sq_socket := s, sq_index := 0, sq_datalen := 0\<rparr>))"
proof -
  from assms obtain x xs where "sq_fixed_header q = x # xs" "length xs = 4"
    by (cases "sq_fixed_header q") (auto simp: queue_wf_def)
  with assms show ?thesis by (auto simp: queue_reads_def queue_wf_def header_complete_def)
qed

lemma queue_reads_restart:
  assumes "queue_reads hs q"
  shows "queue_reads [] (q\<lparr>sq_index := 0, sq_datalen := sq_datalen q\<rparr>)"
    and "header_of (q\<lparr>sq_index := 0, sq_datalen := n\<rparr>) = header_of q"
    and "sq_datalen q = 0 \<Longrightarrow> queue_reads [] (q\<lparr>sq_index := 0, sq_datalen := 0\<rparr>)"
  using assms by (simp_all add: queue_reads_def queue_wf_def header_of_def)

lemma queue_wf_fresh: "queue_wf (fresh_queue sb)" "sq_datalen (fresh_queue sb) = 0" "sq_socket (fresh_queue sb) = 0"
  by (simp_all add: queue_wf_def fresh_queue_def)

text \<open>The state after an attempt: nothing is read yet of the packet, or of the next one.\<close>

lemma readingI:
  assumes "looks (s_sb w) dq m" "read_state s hs dq m" "\<And>t. t \<noteq> s \<Longrightarrow> m t = others t"
    and "healthy_recv os pending s" "s \<noteq> 0"
  shows "reading os pending s others hs w"
    and "undelivered pending s w =
      (case m s of Some q \<Rightarrow> drop (sq_index q) (header_of q) @ data_of q | None \<Rightarrow> []) @ pending (s_os w)"
  using assms undelivered_looks [OF assms(1,5)] unfolding reading_def by blast+

lemma healthyE:
  assumes "healthy_recv os pending s" "0 < n" "pending ost \<noteq> []"
  obtains (again) ost' where "os_recv os ost s n = (Inl EAGAIN, ost')" "pending ost' = pending ost"
  | (data) d ost' where "os_recv os ost s n = (Inr d, ost')" "d \<noteq> []" "length d \<le> n"
      "pending ost = d @ pending ost'"
  using assms unfolding healthy_recv_def by blast

definition socket_ops ::
    "'o os_ops \<Rightarrow> ('o Sockets \<Rightarrow> int \<Rightarrow> bytes \<Rightarrow> bytes list \<Rightarrow> nat \<Rightarrow> int \<Rightarrow> int \<Rightarrow> int \<times> 'o Sockets) \<Rightarrow>
     ('o Sockets \<Rightarrow> int) \<Rightarrow> 'o Sockets net_ops" where
  "socket_ops os persist_put time = \<lparr>op_getch = Socket_getch os, op_getdata = Socket_getdata os,
     op_putdatas = Socket_putdatas os, op_persist_put = persist_put, op_time = time\<rparr>"

text \<open>
  A character that has to be read from the network: \<open>dq1\<close> and \<open>m1\<close> are the queues after an interrupt,
  \<open>dq2\<close> and \<open>m2\<close> after the character is queued.
\<close>

lemma getch_recv:
  assumes "healthy_recv os pending s" "s \<noteq> 0" "pending (s_os w) = b # bs"
    and "SocketBuffer_getQueuedChar s (s_sb w) = (SOCKETBUFFER_INTERRUPTED, None, sb)"
    and "looks (SocketBuffer_interrupted s 0 sb) dq1 m1" "read_state s [] dq1 m1" "\<And>t. t \<noteq> s \<Longrightarrow> m1 t = others t"
    and "looks (SocketBuffer_queueChar s b sb) dq2 m2" "read_state s (hs @ [b]) dq2 m2" "\<And>t. t \<noteq> s \<Longrightarrow> m2 t = others t"
    and "(case m1 s of Some q \<Rightarrow> drop (sq_index q) (header_of q) @ data_of q | None \<Rightarrow> []) = hs"
    and "(case m2 s of Some q \<Rightarrow> drop (sq_index q) (header_of q) @ data_of q | None \<Rightarrow> []) = []"
  shows "(\<exists>w'. Socket_getch os w s = (TCPSOCKET_COMPLETE, b, w') \<and>
      reading os pending s others (hs @ [b]) w' \<and> undelivered pending s w' = bs) \<or>
    (\<exists>c w'. Socket_getch os w s = (TCPSOCKET_INTERRUPTED, c, w') \<and>
      reading os pending s others [] w' \<and> undelivered pending s w' = hs @ b # bs)"
  using assms(1) zero_less_one
proof (rule healthyE)
  show "pending (s_os w) \<noteq> []" using assms(3) by simp
next
  fix ost' assume r: "os_recv os (s_os w) s 1 = (Inl EAGAIN, ost')" "pending ost' = pending (s_os w)"
  let ?w = "w\<lparr>s_sb := SocketBuffer_interrupted s 0 sb, s_os := ost'\<rparr>"
  have "reading os pending s others [] ?w" "undelivered pending s ?w = hs @ b # bs"
    using readingI [of ?w dq1 m1 s "[]" others os pending] assms r by simp_all
  moreover have "Socket_getch os w s = (TCPSOCKET_INTERRUPTED, 0, ?w)"
    using assms(4) r by (simp add: Socket_getch_def)
  ultimately show ?thesis by blast
next
  fix d ost' assume r: "os_recv os (s_os w) s 1 = (Inr d, ost')" "d \<noteq> []" "length d \<le> 1"
    "pending (s_os w) = d @ pending ost'"
  let ?w = "w\<lparr>s_sb := SocketBuffer_queueChar s b sb, s_os := ost'\<rparr>"
  from r assms(3) have d: "d = [b]" "pending ost' = bs" by (cases d; simp)+
  then have "reading os pending s others (hs @ [b]) ?w" "undelivered pending s ?w = bs"
    using readingI [of ?w dq2 m2 s "hs @ [b]" others os pending] assms by simp_all
  moreover have "Socket_getch os w s = (TCPSOCKET_COMPLETE, b, ?w)"
    using assms(4) r d by (simp add: Socket_getch_def)
  ultimately show ?thesis by blast
qed

lemma Socket_getch_law:
  assumes "reading os pending s others hs w" "\<not> header_complete hs" "length hs < 5"
    and "undelivered pending s w = b # bs"
  shows "(\<exists>w'. Socket_getch os w s = (TCPSOCKET_COMPLETE, b, w') \<and>
      reading os pending s others (hs @ [b]) w' \<and> undelivered pending s w' = bs) \<or>
    (\<exists>c w'. Socket_getch os w s = (TCPSOCKET_INTERRUPTED, c, w') \<and>
      reading os pending s others [] w' \<and> undelivered pending s w' = hs @ undelivered pending s w)"
proof -
  from assms(1) obtain dq m where st: "looks (s_sb w) dq m" "read_state s hs dq m" "\<And>t. t \<noteq> s \<Longrightarrow> m t = others t"
      and h: "healthy_recv os pending s" "s \<noteq> 0" unfolding reading_def by blast
  note und = undelivered_looks [OF st(1) h(2), of pending]
  show ?thesis
  proof (cases "m s")
    case None
    then obtain sb where sb: "SocketBuffer_getQueuedChar s (s_sb w) = (SOCKETBUFFER_INTERRUPTED, None, sb)" "looks sb dq m"
      using getQueuedChar_looks(1) [OF st(1) h(2)] by blast
    have p: "pending (s_os w) = b # bs" using und None assms(4) by simp
    show ?thesis
    proof (cases "hs = []")
      case True
      with st(2) None have dq: "queue_wf dq" "sq_socket dq = 0" by (simp_all add: read_state_def)
      note l1 = interrupted_looks(3) [OF sb(2) h(2) None dq(2), of 0]
      note l2 = queueChar_looks(3) [OF sb(2) h(2) None dq(2), of b]
      note first = queue_reads_first [OF dq(1), of b s]
      show ?thesis unfolding assms(4)
        by (rule getch_recv [OF h p sb(1) l1 _ st(3) l2 _ st(3)])
          (use True None first in \<open>simp_all add: read_state_def queue_wf_fresh queue_reads_def\<close>)
    next
      case False
      with st(2) None have dq: "queue_reads hs dq" "sq_socket dq = s" "sq_headerlen dq = sq_index dq" "sq_datalen dq = 0"
        by (simp_all add: read_state_def)
      have i4: "sq_index dq \<le> 4" using dq(1) assms(3) by (simp add: queue_reads_def)
      note l1 = interrupted_looks(2) [OF sb(2) h(2) None dq(2), of 0]
      note l2 = queueChar_looks(2) [OF sb(2) h(2) None dq(2) i4, of b]
      note push = queue_reads_push [OF dq(1) dq(3) [symmetric] assms(2,3), of b]
      note restart = queue_reads_restart [OF dq(1)]
      show ?thesis unfolding assms(4)
        by (rule getch_recv [OF h p sb(1) l1 _ _ l2 _ st(3)])
          (use False None dq push restart(2,3) queue_reads_full [OF dq(1)] st(3) in
            \<open>simp_all add: read_state_def queue_wf_fresh queue_reads_def data_of_def\<close>)
    qed
  next
    case (Some q)
    with st(2) have q: "queue_reads hs q" "sq_socket dq = 0" "queue_wf dq" "sq_datalen dq = 0"
      by (simp_all add: read_state_def)
    show ?thesis
    proof (cases "sq_index q < sq_headerlen q")
      case True
      let ?q = "q\<lparr>sq_index := sq_index q + 1\<rparr>"
      obtain sb where sb: "SocketBuffer_getQueuedChar s (s_sb w) =
          (SOCKETBUFFER_COMPLETE, Some (sq_fixed_header q ! sq_index q), sb)" "looks sb dq (m(s \<mapsto> ?q))"
        using getQueuedChar_looks(2) [OF st(1) h(2) Some True] by blast
      note next' = queue_reads_next [OF q(1) True]
      have b: "b = sq_fixed_header q ! sq_index q"
        "bs = drop (Suc (sq_index q)) (header_of q) @ data_of q @ pending (s_os w)"
        using und Some assms(4) next'(2) by simp_all
      let ?w = "w\<lparr>s_sb := sb\<rparr>"
      have "read_state s (hs @ [b]) dq (m(s \<mapsto> ?q))"
        using q next'(1) b by (simp add: read_state_def)
      then have "reading os pending s others (hs @ [b]) ?w" "undelivered pending s ?w = bs"
        using readingI [of ?w dq "m(s \<mapsto> ?q)" s "hs @ [b]" others os pending] sb(2) h st(3) b
        by (simp_all add: header_of_def data_of_def)
      moreover have "Socket_getch os w s = (TCPSOCKET_COMPLETE, b, ?w)"
        using sb(1) b by (simp add: Socket_getch_def)
      ultimately show ?thesis by blast
    next
      case False
      then have full: "sq_index q = sq_headerlen q" using q(1) by (simp add: queue_reads_def)
      note hq = queue_reads_full [OF q(1) full]
      have d0: "sq_datalen q = 0" and i4: "sq_index q \<le> 4"
        using q(1) hq assms(2,3) by (auto simp: queue_reads_def)
      obtain sb where sb: "SocketBuffer_getQueuedChar s (s_sb w) = (SOCKETBUFFER_INTERRUPTED, None, sb)" "looks sb dq m"
        using getQueuedChar_looks(3) [OF st(1) h(2) Some _ i4] full by auto
      have p: "pending (s_os w) = b # bs" using und Some assms(4) d0 full hq
        by (simp add: data_of_def header_of_def)
      note l1 = interrupted_looks(1) [OF sb(2) h(2) Some, of 0]
      note l2 = queueChar_looks(1) [OF sb(2) h(2) Some i4, of b]
      note push = queue_reads_push [OF q(1) full assms(2,3), of b]
      note restart = queue_reads_restart [OF q(1)]
      show ?thesis unfolding assms(4)
        by (rule getch_recv [OF h p sb(1) l1 _ _ l2])
          (use Some q push restart(2,3) d0 hq st(3) in
            \<open>simp_all add: read_state_def data_of_def header_of_def\<close>)
    qed
  qed
qed

text \<open>
  \<open>holds s others i g sb\<close>: the queue at position \<open>i\<close> (the default queue for \<open>None\<close>) is \<open>g\<close>, and
  serves socket \<open>s\<close>.
\<close>

definition holds ::
    "int \<Rightarrow> (int \<Rightarrow> socket_queue option) \<Rightarrow> nat option \<Rightarrow> socket_queue \<Rightarrow> sbuf \<Rightarrow> bool" where
  "holds s others i g sb \<longleftrightarrow> sq_socket g = s \<and> get_queue i sb = g \<and>
     (\<exists>dq m. looks sb dq m \<and> (\<forall>t. t \<noteq> s \<longrightarrow> m t = others t) \<and>
       (case i of
          Some j \<Rightarrow> j < length (elems (sb_queues sb)) \<and> m s = Some g \<and> sq_socket dq = 0 \<and> queue_wf dq \<and>
            sq_datalen dq = 0
        | None \<Rightarrow> m s = None))"

lemma holds_set:
  assumes "holds s others i g sb" "s \<noteq> 0" "sq_socket g' = s"
  shows "holds s others i g' (set_queue i g' sb)"
proof (cases i)
  case None
  with assms obtain m where m: "looks sb g m" "\<forall>t. t \<noteq> s \<longrightarrow> m t = others t" "m s = None"
    by (auto simp: holds_def get_queue_def looks_def)
  with None assms(3) looks_set_def [OF m(1), of g'] show ?thesis by (auto simp: holds_def)
next
  case (Some j)
  with assms obtain dq m where m: "looks sb dq m" "\<forall>t. t \<noteq> s \<longrightarrow> m t = others t" "m s = Some g"
      "j < length (elems (sb_queues sb))" "elems (sb_queues sb) ! j = g" "sq_socket g = s"
      "sq_socket dq = 0" "queue_wf dq" "sq_datalen dq = 0"
    by (auto simp: holds_def get_queue_def)
  from looks_set [OF m(1,4) _ assms(2,3)] m have "looks (set_queue (Some j) g' sb) dq (m(s \<mapsto> g'))" by simp
  then show ?thesis using Some m assms(3)
    by (auto simp: holds_def intro!: exI [of _ dq] exI [of _ "m(s \<mapsto> g')"])
qed

lemma holdsE:
  assumes "holds s others i g sb"
  obtains dq m where "looks sb dq m" "\<forall>t. t \<noteq> s \<longrightarrow> m t = others t" "sq_socket g = s"
    "m s = None \<and> dq = g \<or> m s = Some g \<and> sq_socket dq = 0 \<and> queue_wf dq \<and> sq_datalen dq = 0"
proof -
  from assms obtain dq m where m: "looks sb dq m" "\<forall>t. t \<noteq> s \<longrightarrow> m t = others t"
      and i: "case i of
          Some j \<Rightarrow> j < length (elems (sb_queues sb)) \<and> m s = Some g \<and> sq_socket dq = 0 \<and> queue_wf dq \<and>
            sq_datalen dq = 0
        | None \<Rightarrow> m s = None" and g: "sq_socket g = s" "get_queue i sb = g"
    unfolding holds_def by blast
  have "sb_def_queue sb = dq" using m(1) by (simp add: looks_def)
  with i g have "m s = None \<and> dq = g \<or> m s = Some g \<and> sq_socket dq = 0 \<and> queue_wf dq \<and> sq_datalen dq = 0"
    by (cases i) (simp_all add: get_queue_def)
  with that [OF m g(1)] show thesis by blast
qed

lemma holds_complete:
  assumes "holds s others i g sb" "s \<noteq> 0" "queue_wf g"
  shows "\<exists>dq m. looks (SocketBuffer_complete s sb) dq m \<and> read_state s [] dq m \<and> m s = None \<and>
    (\<forall>t. t \<noteq> s \<longrightarrow> m t = others t)"
proof -
  from assms(1) obtain dq m where m: "looks sb dq m" "\<forall>t. t \<noteq> s \<longrightarrow> m t = others t"
      "(case m s of None \<Rightarrow> dq | Some q \<Rightarrow> q) = g"
    by (elim holdsE) (auto split: option.splits)
  have "queue_wf (reset_queue g)" using assms(3) by (simp add: queue_wf_def)
  with complete_looks [OF m(1) assms(2)] m(2,3) show ?thesis
    by (intro exI [of _ "reset_queue g"] exI [of _ "m(s := None)"]) (simp add: read_state_def)
qed

lemma holds_interrupted:
  assumes "holds s others i g sb" "s \<noteq> 0" "queue_reads [] (g\<lparr>sq_index := 0, sq_datalen := n\<rparr>)"
  shows "\<exists>dq m. looks (SocketBuffer_interrupted s n sb) dq m \<and> read_state s [] dq m \<and>
    m s = Some (g\<lparr>sq_index := 0, sq_datalen := n\<rparr>) \<and> (\<forall>t. t \<noteq> s \<longrightarrow> m t = others t)"
proof -
  let ?g = "g\<lparr>sq_index := 0, sq_datalen := n\<rparr>"
  from assms(1) obtain dq m where m: "looks sb dq m" "\<forall>t. t \<noteq> s \<longrightarrow> m t = others t" "sq_socket g = s"
      and c: "m s = None \<and> dq = g \<or> m s = Some g \<and> sq_socket dq = 0 \<and> queue_wf dq \<and> sq_datalen dq = 0"
    by (elim holdsE) auto
  from c show ?thesis
  proof
    assume "m s = None \<and> dq = g"
    with interrupted_looks(2) [OF m(1) assms(2)] m(2,3) assms(3) show ?thesis
      by (intro exI [of _ "fresh_queue sb"] exI [of _ "m(s \<mapsto> ?g)"]) (simp add: read_state_def queue_wf_fresh)
  next
    assume "m s = Some g \<and> sq_socket dq = 0 \<and> queue_wf dq \<and> sq_datalen dq = 0"
    with interrupted_looks(1) [OF m(1) assms(2)] m(2) assms(3) show ?thesis
      by (intro exI [of _ dq] exI [of _ "m(s \<mapsto> ?g)"]) (simp add: read_state_def)
  qed
qed

text \<open>Asking for the data: the queue grows and keeps what it holds.\<close>

lemma getQueuedData_holds:
  assumes "looks (s_sb w) dq m" "read_state s hs dq m" "\<And>t. t \<noteq> s \<Longrightarrow> m t = others t" "s \<noteq> 0" "hs \<noteq> []"
  obtains i g sb where "SocketBuffer_getQueuedData s n (s_sb w) = (i, sq_datalen g, sb)"
    "holds s others i g sb" "queue_reads hs g" "n \<le> sq_buflen g"
    "undelivered pending s w = drop (sq_index g) (header_of g) @ data_of g @ pending (s_os w)"
proof -
  let ?f = "sb_fill (s_sb w)"
  have grown: "queue_reads hs (grow_buf ?f n q)" "header_of (grow_buf ?f n q) = header_of q"
      "data_of (grow_buf ?f n q) = data_of q" "n \<le> sq_buflen (grow_buf ?f n q)" if "queue_reads hs q" for q
  proof -
    from that have "sq_buflen q \<le> length (sq_buf q)" "sq_datalen q \<le> sq_buflen q"
      by (simp_all add: queue_reads_def queue_wf_def)
    from grow_buf_room [OF this, where n = n and f = ?f] that
    show "queue_reads hs (grow_buf ?f n q)" "header_of (grow_buf ?f n q) = header_of q"
      "data_of (grow_buf ?f n q) = data_of q" "n \<le> sq_buflen (grow_buf ?f n q)"
      by (auto simp: queue_reads_def queue_wf_def header_of_def data_of_def)
  qed
  show thesis
  proof (cases "m s")
    case None
    with assms(2,5) have dq: "sq_socket dq = s" "queue_reads hs dq" "sq_headerlen dq = sq_index dq" "sq_datalen dq = 0"
      by (simp_all add: read_state_def)
    obtain sb where sb: "SocketBuffer_getQueuedData s n (s_sb w) = (None, 0, sb)" "looks sb (grow_buf ?f n dq) m"
      using getQueuedData_looks(1) [OF assms(1,4) None] by blast
    have "holds s others None (grow_buf ?f n dq) sb"
      using sb(2) dq(1) assms(3) None by (auto simp: holds_def get_queue_def looks_def)
    moreover have "undelivered pending s w = drop (sq_index dq) (header_of dq) @ data_of dq @ pending (s_os w)"
      using undelivered_looks [OF assms(1,4)] None dq by (simp add: header_of_def data_of_def)
    ultimately show thesis
      using sb dq grown [OF dq(2)] by (intro that [of None "grow_buf ?f n dq" sb]) simp_all
  next
    case (Some q)
    with assms(2) have q: "queue_reads hs q" "sq_socket dq = 0" "queue_wf dq" "sq_datalen dq = 0"
      by (simp_all add: read_state_def)
    obtain i sb where sb: "SocketBuffer_getQueuedData s n (s_sb w) = (Some i, sq_datalen q, sb)"
        "looks sb dq (m(s \<mapsto> grow_buf ?f n q))" "i < length (elems (sb_queues sb))"
        "elems (sb_queues sb) ! i = grow_buf ?f n q" "sq_socket q = s"
      using getQueuedData_looks(2) [OF assms(1,4) Some] by blast
    have "holds s others (Some i) (grow_buf ?f n q) sb"
      using sb q assms(3) by (auto simp: holds_def get_queue_def intro!: exI [of _ dq])
    then show thesis
      using sb(1) grown [OF q(1)] undelivered_looks [OF assms(1,4)] Some
      by (intro that [of "Some i" "grow_buf ?f n q" sb]) simp_all
  qed
qed

lemma write_at_simps:
  assumes "a + length d \<le> length buf"
  shows "length (write_at a d buf) = length buf" "take (a + length d) (write_at a d buf) = take a buf @ d"
    "write_at a d buf = take a buf @ d @ drop (a + length d) buf"
  using assms by (auto simp: write_at_def)

lemma size_diff_le: "b \<le> a \<Longrightarrow> a < 2 ^ 64 \<Longrightarrow> size_diff a b = a - b"
  by (simp add: size_diff_def of_nat_diff)

lemma rl_value_bound: "rl_value bs < 128 ^ length bs"
proof (induction bs)
  case (Cons b bs)
  have "unat (b AND 127) < 128" using mod_less_divisor [of 128 "unat b"] by (simp add: byte_and_127)
  with Cons show ?case by simp
qed simp

text \<open>A queue that has delivered its whole header, with more data.\<close>

lemma queue_reads_more:
  assumes "queue_reads hs g" "header_complete hs" "header_of g = hs" "k < rl_value (tl hs)" "k \<le> sq_buflen g"
    and "sq_buflen g \<le> length buf"
  shows "queue_reads [] (g\<lparr>sq_buf := buf, sq_index := 0, sq_datalen := k\<rparr>)"
  using assms by (auto simp: queue_reads_def queue_wf_def header_of_def)

lemma complete_is_full:
  assumes "queue_reads hs g" "header_complete hs"
  shows "sq_index g = sq_headerlen g" "header_of g = hs"
proof -
  show "sq_index g = sq_headerlen g"
  proof (rule ccontr)
    assume "sq_index g \<noteq> sq_headerlen g"
    with assms(1) have "\<not> header_complete (take (sq_index g) (sq_fixed_header g))"
      by (auto simp: queue_reads_def)
    with assms show False by (auto simp: queue_reads_def)
  qed
  then show "header_of g = hs" using assms(1) by (simp add: queue_reads_full)
qed

lemma read_state_restart:
  assumes "reading os pending s others hs w" "SocketBuffer_interrupted s k sb = s_sb w'"
    and "holds s others i (g\<lparr>sq_buf := buf\<rparr>) sb" "queue_reads hs g" "header_complete hs" "k < rl_value (tl hs)"
    and "k \<le> sq_buflen g" "sq_buflen g \<le> length buf"
  shows "reading os pending s others [] w'" "undelivered pending s w' = hs @ take k buf @ pending (s_os w')"
proof -
  from assms(1) have h: "healthy_recv os pending s" "s \<noteq> 0" by (simp_all add: reading_def)
  note hd = complete_is_full [OF assms(4,5)]
  let ?g = "g\<lparr>sq_buf := buf, sq_index := 0, sq_datalen := k\<rparr>"
  have "queue_reads [] ?g" by (rule queue_reads_more [OF assms(4,5) hd(2) assms(6-8)])
  with holds_interrupted [OF assms(3) h(2), of k] obtain dq m
    where m: "looks (s_sb w') dq m" "read_state s [] dq m" "m s = Some ?g" "\<forall>t. t \<noteq> s \<longrightarrow> m t = others t"
    by (auto simp: assms(2))
  have "header_of ?g = hs" using hd(2) by (simp add: header_of_def)
  then show "reading os pending s others [] w'" "undelivered pending s w' = hs @ take k buf @ pending (s_os w')"
    using readingI [of w' dq m s "[]" others os pending] m h by (simp_all add: data_of_def)
qed

lemma read_state_done:
  assumes "healthy_recv os pending s" "s \<noteq> 0" "SocketBuffer_complete s sb = s_sb w'"
    and "holds s others i g sb" "queue_wf g"
  shows "reading os pending s others [] w'" "undelivered pending s w' = pending (s_os w')"
proof -
  from holds_complete [OF assms(4,2,5)] obtain dq m
    where m: "looks (s_sb w') dq m" "read_state s [] dq m" "m s = None" "\<forall>t. t \<noteq> s \<longrightarrow> m t = others t"
    by (auto simp: assms(3))
  then show "reading os pending s others [] w'" "undelivered pending s w' = pending (s_os w')"
    using readingI [of w' dq m s "[]" others os pending] assms(1,2) by simp_all
qed

text \<open>A packet without data ends with its header.\<close>

lemma getdata_none:
  assumes "reading os pending s others hs w" "header_complete hs" "rl_value (tl hs) = 0"
  shows "\<exists>w' junk. Socket_getdata os w s 0 = (Some junk, 0, w') \<and>
      reading os pending s others [] w' \<and> undelivered pending s w' = undelivered pending s w"
proof -
  from assms(1) obtain dq m where st: "looks (s_sb w) dq m" "read_state s hs dq m" "\<And>t. t \<noteq> s \<Longrightarrow> m t = others t"
      and h: "healthy_recv os pending s" "s \<noteq> 0" unfolding reading_def by blast
  have hs: "hs \<noteq> []" using assms(2) by (auto simp: header_complete_def)
  let ?q = "case m s of None \<Rightarrow> dq | Some q \<Rightarrow> q"
  let ?w = "w\<lparr>s_sb := SocketBuffer_complete s (s_sb w)\<rparr>"
  have q: "queue_reads hs ?q" using st(2) hs by (simp add: read_state_def split: option.splits)
  have "undelivered pending s w = pending (s_os w)"
    using undelivered_looks [OF st(1) h(2), of pending] complete_is_full [OF q assms(2)] q assms(3)
    by (auto simp: queue_reads_def header_of_def data_of_def split: option.splits)
  moreover have "read_state s [] (reset_queue ?q) (m(s := None))"
    using q by (simp add: read_state_def queue_reads_def queue_wf_def)
  then have "reading os pending s others [] ?w" "undelivered pending s ?w = pending (s_os w)"
    using readingI [of ?w "reset_queue ?q" "m(s := None)" s "[]" others os pending]
      complete_looks [OF st(1) h(2)] h st(3) by simp_all
  ultimately show ?thesis by (intro exI [of _ ?w]) (simp add: Socket_getdata_def Let_def)
qed

lemma getdata_some:
  assumes "reading os pending s others hs w" "header_complete hs" "n = rl_value (tl hs)" "0 < n"
    and "SocketBuffer_getQueuedData s n (s_sb w) = (i, a, sb)" "holds s others i g sb" "a = sq_datalen g"
    and "queue_reads hs g" "n \<le> sq_buflen g" "n \<le> a + length (pending (s_os w))" "n < 2 ^ 64"
  shows "(\<exists>w' junk. Socket_getdata os w s n = (Some (take n (data_of g @ pending (s_os w)) @ junk), n, w') \<and>
      reading os pending s others [] w' \<and> undelivered pending s w' = drop n (data_of g @ pending (s_os w))) \<or>
    (\<exists>w' d m. Socket_getdata os w s n = (Some d, m, w') \<and> m \<noteq> n \<and>
      reading os pending s others [] w' \<and> undelivered pending s w' = hs @ data_of g @ pending (s_os w))"
proof -
  from assms(1) have h: "healthy_recv os pending s" "s \<noteq> 0" by (simp_all add: reading_def)
  have gq: "get_queue i sb = g" "sq_socket g = s" using assms(6) by (auto simp: holds_def)
  have wf: "a < n" "n \<le> length (sq_buf g)" "a \<le> sq_buflen g" "sq_buflen g \<le> length (sq_buf g)"
    using assms(3,4,7-9) complete_is_full [OF assms(8,2)] by (auto simp: queue_reads_def queue_wf_def)
  have da: "data_of g = take a (sq_buf g)" "length (data_of g) = a" using wf by (auto simp: data_of_def assms(7))
  have "0 < n - a" "pending (s_os w) \<noteq> []" using wf(1) assms(10) by auto
  with h(1) show ?thesis
  proof (rule healthyE)
    fix ost' assume r: "os_recv os (s_os w) s (n - a) = (Inl EAGAIN, ost')" "pending ost' = pending (s_os w)"
    let ?w = "w\<lparr>s_os := ost', s_sb := SocketBuffer_interrupted s a sb\<rparr>"
    have "Socket_getdata os w s n = (Some (sq_buf g), a, ?w)"
      using assms(4,5,11) r wf(1) gq(1) by (simp add: Socket_getdata_def size_diff_le)
    moreover have "holds s others i (g\<lparr>sq_buf := sq_buf g\<rparr>) sb" using assms(6) by simp
    note restart = read_state_restart [OF assms(1) _ this assms(8,2) _ wf(3,4), of ?w]
    have "reading os pending s others [] ?w" "undelivered pending s ?w = hs @ data_of g @ pending (s_os w)"
      using restart wf(1) assms(3) r(2) da by simp_all
    ultimately show ?thesis using wf(1) by (metis less_irrefl)
  next
    fix d ost' assume r: "os_recv os (s_os w) s (n - a) = (Inr d, ost')" "d \<noteq> []" "length d \<le> n - a"
      "pending (s_os w) = d @ pending ost'"
    define buf where "buf = write_at a d (sq_buf g)"
    define sb2 where "sb2 = set_queue i (g\<lparr>sq_buf := buf\<rparr>) sb"
    have le: "a + length d \<le> n" using r(3) wf(1) by simp
    have b: "length buf = length (sq_buf g)" "take (a + length d) buf = data_of g @ d" "buf = data_of g @ d @ drop (a + length d) (sq_buf g)"
      using write_at_simps [of a d "sq_buf g"] le wf(2) da by (simp_all add: buf_def)
    have hold: "holds s others i (g\<lparr>sq_buf := buf\<rparr>) sb2"
      unfolding sb2_def by (rule holds_set [OF assms(6) h(2)]) (simp add: gq)
    let ?w = "w\<lparr>s_os := ost', s_sb := (if a + length d = n then SocketBuffer_complete s sb2
        else SocketBuffer_interrupted s (a + length d) sb2)\<rparr>"
    have eq: "Socket_getdata os w s n = (Some buf, a + length d, ?w)"
      using assms(4,5,11) r(1,2) wf(1) gq(1) by (simp add: Socket_getdata_def size_diff_le buf_def sb2_def Let_def)
    show ?thesis
    proof (cases "a + length d = n")
      case True
      have "queue_wf (g\<lparr>sq_buf := buf\<rparr>)" using assms(8) b(1) by (simp add: queue_reads_def queue_wf_def)
      from read_state_done [OF h _ hold this, of ?w] True
      have "reading os pending s others [] ?w" "undelivered pending s ?w = pending ost'" by simp_all
      moreover have "take n (data_of g @ pending (s_os w)) = data_of g @ d" "drop n (data_of g @ pending (s_os w)) = pending ost'"
        using True r(4) da(2) by auto
      ultimately show ?thesis using eq True b(3)
        by (intro disjI1 exI [of _ ?w] exI [of _ "drop (a + length d) (sq_buf g)"]) simp
    next
      case False
      with le have "a + length d < rl_value (tl hs)" "a + length d \<le> sq_buflen g" using assms(3,9) by simp_all
      from read_state_restart [OF assms(1) _ hold assms(8,2) this, of ?w] False b wf(4) r(4)
      have "reading os pending s others [] ?w" "undelivered pending s ?w = hs @ data_of g @ pending (s_os w)"
        by simp_all
      with eq False show ?thesis by blast
    qed
  qed
qed

lemma Socket_getdata_law:
  assumes "reading os pending s others hs w" "header_complete hs" "n = rl_value (tl hs)"
    and "n \<le> length (undelivered pending s w)"
  shows "(\<exists>w' junk. Socket_getdata os w s n = (Some (take n (undelivered pending s w) @ junk), n, w') \<and>
      reading os pending s others [] w' \<and> undelivered pending s w' = drop n (undelivered pending s w)) \<or>
    (\<exists>w' d m. Socket_getdata os w s n = (Some d, m, w') \<and> m \<noteq> n \<and>
      reading os pending s others [] w' \<and> undelivered pending s w' = hs @ undelivered pending s w)"
proof (cases "n = 0")
  case True
  with getdata_none [OF assms(1,2)] assms(3) show ?thesis by simp
next
  case False
  from assms(1) obtain dq m where st: "looks (s_sb w) dq m" "read_state s hs dq m" "\<And>t. t \<noteq> s \<Longrightarrow> m t = others t"
      and h: "healthy_recv os pending s" "s \<noteq> 0" unfolding reading_def by blast
  have hs: "hs \<noteq> []" using assms(2) by (auto simp: header_complete_def)
  obtain i g sb where g: "SocketBuffer_getQueuedData s n (s_sb w) = (i, sq_datalen g, sb)"
      "holds s others i g sb" "queue_reads hs g" "n \<le> sq_buflen g"
      "undelivered pending s w = drop (sq_index g) (header_of g) @ data_of g @ pending (s_os w)"
    by (rule getQueuedData_holds [OF st h(2) hs, where n = n and pending = pending])
  have und: "undelivered pending s w = data_of g @ pending (s_os w)"
    using g(5) complete_is_full [OF g(3) assms(2)] by (simp add: header_of_def)
  have "length (tl hs) \<le> 4" using g(3) by (auto simp: queue_reads_def)
  then have "(128::nat) ^ length (tl hs) \<le> 128 ^ 4" by (rule power_increasing) simp
  also have "\<dots> < 2 ^ 64" by simp
  finally have "rl_value (tl hs) < 2 ^ 64" using rl_value_bound [of "tl hs"] by linarith
  moreover have "n \<le> sq_datalen g + length (pending (s_os w))"
    using assms(4) und by (simp add: data_of_def)
  ultimately show ?thesis
    using getdata_some [OF assms(1-3) _ g(1,2) refl g(3,4)] False assms(3) und by simp
qed

interpretation socket_source: packet_source "socket_ops os persist_put time" s "reading os pending s others"
  "undelivered pending s"
proof
  fix hs w b bs
  assume "reading os pending s others hs w" "\<not> header_complete hs" "length hs < 5" "undelivered pending s w = b # bs"
  from Socket_getch_law [OF this] show "(\<exists>w'. op_getch (socket_ops os persist_put time) w s = (TCPSOCKET_COMPLETE, b, w') \<and>
        reading os pending s others (hs @ [b]) w' \<and> undelivered pending s w' = bs) \<or>
      (\<exists>c w'. op_getch (socket_ops os persist_put time) w s = (TCPSOCKET_INTERRUPTED, c, w') \<and>
        reading os pending s others [] w' \<and> undelivered pending s w' = hs @ undelivered pending s w)"
    by (simp add: socket_ops_def)
next
  fix hs w n
  assume "reading os pending s others hs w" "header_complete hs" "n = rl_value (tl hs)"
    "n \<le> length (undelivered pending s w)"
  from Socket_getdata_law [OF this] show "(\<exists>w' junk. op_getdata (socket_ops os persist_put time) w s n =
          (Some (take n (undelivered pending s w) @ junk), n, w') \<and>
        reading os pending s others [] w' \<and> undelivered pending s w' = drop n (undelivered pending s w)) \<or>
      (\<exists>w' d m. op_getdata (socket_ops os persist_put time) w s n = (Some d, m, w') \<and> m \<noteq> n \<and>
        reading os pending s others [] w' \<and> undelivered pending s w' = hs @ undelivered pending s w)"
    by (simp add: socket_ops_def)
qed

text \<open>
  C20. Packets are read correctly however their bytes arrive. When the bytes not yet delivered on a
  socket (those queued from earlier attempts and those still to come) begin with a packet, one call of
  \<open>MQTTPacket_Factory\<close> over \<open>Socket_getch\<close> and \<open>Socket_getdata\<close> either completes the packet, hands its
  header and data to the packet constructor and leaves exactly the bytes after it, or reports
  \<open>TCPSOCKET_INTERRUPTED\<close> and leaves every byte to be delivered again to the next attempt. The queues
  of all other sockets are unchanged (\<open>others\<close>).
\<close>

theorem packet_resumes:
  assumes "reading os pending (nh_socket net) others [] w"
    and "undelivered pending (nh_socket net) w = h # MQTTPacket_encode (length data) @ data @ after"
    and "length data < 268435456"
  shows "(\<exists>w' junk. reading os pending (nh_socket net) others [] w' \<and>
        undelivered pending (nh_socket net) w' = after \<and>
        MQTTPacket_Factory (socket_ops os persist_put time) net w =
          factory_construct (socket_ops os persist_put time) net TCPSOCKET_COMPLETE h (data @ junk) (length data) w') \<or>
    (\<exists>w'. reading os pending (nh_socket net) others [] w' \<and>
        undelivered pending (nh_socket net) w' = undelivered pending (nh_socket net) w \<and>
        MQTTPacket_Factory (socket_ops os persist_put time) net w = Some (None, TCPSOCKET_INTERRUPTED, net, w'))"
  by (rule socket_source.Factory_reads [OF assms refl])

text \<open>A system that answers every other call with \<open>EAGAIN\<close>, and delivers at most three bytes at once.\<close>

definition demo_os :: "(bytes \<times> bool) os_ops" where
  "demo_os = \<lparr>os_recv = (\<lambda>(bs, again) s n. if again then (Inl EAGAIN, (bs, False))
       else (Inr (take (min 3 n) bs), (drop (min 3 n) bs, True))),
     os_writev = (\<lambda>ost s iov. (Inl EAGAIN, ost)), os_select = (\<lambda>ost n r p t. (Inr (0, {}, {}), ost)),
     os_setnonblocking = (\<lambda>ost s. (Inr 0, ost)), os_close = (\<lambda>ost s. (0, ost)),
     os_getaddrinfo = (\<lambda>ost a. (Inr [], ost)), os_socket = (\<lambda>ost f. (Inr 3, ost)),
     os_connect = (\<lambda>ost s f a p. (Inr (), ost)), os_writecomplete = None\<rparr>"

lemma demo_os_healthy: "healthy_recv demo_os fst s"
  unfolding healthy_recv_def
proof (intro allI impI)
  fix ost :: "bytes \<times> bool" and n :: nat
  assume "0 < n" "fst ost \<noteq> []"
  then show "(\<exists>ost'. os_recv demo_os ost s n = (Inl EAGAIN, ost') \<and> fst ost' = fst ost) \<or>
     (\<exists>d ost'. os_recv demo_os ost s n = (Inr d, ost') \<and> d \<noteq> [] \<and> length d \<le> n \<and> fst ost = d @ fst ost')"
    by (cases ost) (auto simp: demo_os_def)
qed

definition demo_world :: "bytes \<times> bool \<Rightarrow> (bytes \<times> bool) Sockets" where
  "demo_world ost = \<lparr>s_rset = {}, s_rset_saved = {}, s_maxfdp1 = 0, s_clientsds = clist_empty,
     s_cur_clientsds = None, s_connect_pending = clist_empty, s_write_pending = clist_empty,
     s_pending_wset = {}, s_wset = {}, s_sb = demo_sbuf, s_os = ost\<rparr>"

lemma demo_world_reading:
  "s \<noteq> 0 \<Longrightarrow> reading demo_os fst s (\<lambda>t. None) [] (demo_world ost)"
  "undelivered fst s (demo_world ost) = fst ost"
proof -
  have sv: "saved demo_sbuf t = None" for t
    by (simp add: saved_def demo_sbuf_def SocketBuffer_initialize_def clist_empty_def)
  then have "looks demo_sbuf (fresh_queue demo_sbuf) (\<lambda>t. None)"
    by (auto simp: looks_def demo_sbuf_def SocketBuffer_initialize_def SocketBuffer_newDefQ_def clist_empty_def
        unique_sockets_def cursor_in_def fresh_queue_def)
  then show "s \<noteq> 0 \<Longrightarrow> reading demo_os fst s (\<lambda>t. None) [] (demo_world ost)"
    using demo_os_healthy
    by (auto simp: reading_def demo_world_def read_state_def queue_wf_fresh intro!: exI [of _ "\<lambda>t. None"])
  show "undelivered fst s (demo_world ost) = fst ost"
    by (simp add: undelivered_def demo_world_def sv)
qed

definition demo_net :: networkHandles where
  "demo_net = \<lparr>nh_socket = 5, nh_lastSent = 0, nh_lastReceived = 0\<rparr>"

theorem packet_resumes_witness:
  "let ops = socket_ops demo_os (\<lambda>w s b bs t m r. (0, w)) (\<lambda>w. 7); w = demo_world ([0x40, 2, 0, 9, 1], False) in
   (\<exists>w' junk. undelivered fst 5 w' = [1] \<and>
      MQTTPacket_Factory ops demo_net w = factory_construct ops demo_net 0 0x40 ([0, 9] @ junk) 2 w') \<or>
   (\<exists>w'. undelivered fst 5 w' = [0x40, 2, 0, 9, 1] \<and> MQTTPacket_Factory ops demo_net w = Some (None, -22, demo_net, w'))"
proof -
  have "MQTTPacket_encode 2 = [2]" by (simp add: MQTTPacket_encode.simps)
  then show ?thesis
    using packet_resumes [where os = demo_os and pending = fst and net = demo_net and others = "\<lambda>t. None"
        and w = "demo_world ([0x40, 2, 0, 9, 1], False)" and h = "0x40" and data = "[0, 9]" and after = "[1]"
        and persist_put = "\<lambda>w s b bs t m r. (0, w)" and time = "\<lambda>w. 7"]
    by (auto simp: demo_net_def demo_world_reading Let_def numeral_2_eq_2 [symmetric])
qed

text \<open>The packet that a PUBLISH is received as.\<close>

definition received_publish :: "Header \<Rightarrow> bytes \<Rightarrow> int \<Rightarrow> bytes \<Rightarrow> Publish" where
  "received_publish h t m p = \<lparr>pub_header = h, pub_topic = Some t, pub_topiclen = int (length t),
     pub_msgId = m, pub_payload = p, pub_payloadlen = int (length p)\<rparr>"

lemma construct_publish:
  assumes "c_string t = t" "length t < 65536" "0 \<le> m" "m < 65536" "qos \<in> {0, 1, 2}"
  shows "factory_construct ops net TCPSOCKET_COMPLETE (mk_header PUBLISH dup qos retained)
      (publish_bytes t qos m p @ junk) (length (publish_bytes t qos m p)) w =
    (let h = mk_header PUBLISH dup qos retained; n = length (publish_bytes t qos m p);
         (error, w') = (if qos = 2 then op_persist_put ops w (nh_socket net) (h # MQTTPacket_encode n)
                          [publish_bytes t qos m p] PUBLISH m 1 else (TCPSOCKET_COMPLETE, w))
     in Some (Some (PkPublish (received_publish h t (if qos > 0 then m else 0) p)), error,
              net\<lparr>nh_lastReceived := op_time ops w'\<rparr>, w'))"
proof -
  let ?h = "mk_header PUBLISH dup qos retained"
  have q: "hdr_qos ?h = nat qos" "hdr_type ?h = 3" using assms(5) by (auto simp: hdr_mk_header)
  then have "hdr_qos ?h > 0 \<longleftrightarrow> qos > 0" "hdr_qos ?h = 2 \<longleftrightarrow> qos = 2" by auto
  with MQTTPacket_publish_written [OF assms(1,2) this(1) assms(3,4), of p junk] q assms(5) show ?thesis
    by (auto simp: factory_construct_def new_packets_def received_publish_def Let_def split: prod.splits)
qed

text \<open>
  C21. A published message arrives unchanged, end to end: when the undelivered bytes of a socket begin
  with the header and the buffers that \<open>MQTTPacket_send_publish\<close> sends for a message, a call of
  \<open>MQTTPacket_Factory\<close> over the socket layer either returns a PUBLISH packet with the same topic,
  message id (for QoS above 0), payload, QoS, dup and retained flags, after writing it to persistence
  exactly when it is QoS 2, or it is interrupted and nothing is lost.
\<close>

theorem publish_delivered:
  fixes t :: bytes and qos m dup retained :: int and p :: bytes
  defines "h \<equiv> mk_header PUBLISH dup qos retained" and "body \<equiv> concat (publish_buffers t qos m p)"
  assumes "reading os pending (nh_socket net) others [] w"
    and "undelivered pending (nh_socket net) w = h # MQTTPacket_encode (length body) @ body @ after"
    and "length body < 268435456"
    and "c_string t = t" and "length t < 65536" and "0 \<le> m" and "m < 65536" and "qos \<in> {0, 1, 2}"
  shows "(\<exists>w'. undelivered pending (nh_socket net) w' = after \<and>
      MQTTPacket_Factory (socket_ops os persist_put time) net w =
       (let (error, w'') = (if qos = 2 then persist_put w' (nh_socket net) (h # MQTTPacket_encode (length body))
                              [body] PUBLISH m 1 else (TCPSOCKET_COMPLETE, w'))
        in Some (Some (PkPublish (received_publish h t (if qos > 0 then m else 0) p)), error,
                 net\<lparr>nh_lastReceived := time w''\<rparr>, w''))) \<or>
    (\<exists>w'. undelivered pending (nh_socket net) w' = undelivered pending (nh_socket net) w \<and>
      MQTTPacket_Factory (socket_ops os persist_put time) net w = Some (None, TCPSOCKET_INTERRUPTED, net, w'))"
proof -
  have body: "body = publish_bytes t qos m p" by (simp add: body_def concat_publish_buffers)
  let ?ops = "socket_ops os persist_put time"
  note c = construct_publish [OF assms(6-10), of ?ops net dup retained p, folded h_def body]
  from socket_source.Factory_reads [OF assms(3-5) refl, of persist_put time]
  show ?thesis
  proof (elim disjE exE conjE)
    fix w' junk assume "undelivered pending (nh_socket net) w' = after"
      "MQTTPacket_Factory ?ops net w = factory_construct ?ops net TCPSOCKET_COMPLETE h (body @ junk) (length body) w'"
    with c show ?thesis by (intro disjI1 exI [of _ w']) (simp add: Let_def socket_ops_def)
  qed blast
qed

definition demo_topic :: bytes where "demo_topic = [0x61, 0x2F, 0x62]"

theorem publish_delivered_witness:
  "let ops = socket_ops demo_os (\<lambda>w s b bs t m r. (0, w)) (\<lambda>w. 7);
       w = demo_world ([0x32, 8, 0, 3, 0x61, 0x2F, 0x62, 1, 244, 9], False) in
   (\<exists>w'. undelivered fst 5 w' = [] \<and> MQTTPacket_Factory ops demo_net w =
      Some (Some (PkPublish (received_publish 0x32 demo_topic 500 [9])), 0, demo_net\<lparr>nh_lastReceived := 7\<rparr>, w')) \<or>
   (\<exists>w'. undelivered fst 5 w' = [0x32, 8, 0, 3, 0x61, 0x2F, 0x62, 1, 244, 9] \<and>
      MQTTPacket_Factory ops demo_net w = Some (None, -22, demo_net, w'))"
proof -
  have b: "concat (publish_buffers demo_topic 1 500 [9]) = [0, 3, 0x61, 0x2F, 0x62, 1, 244, 9]"
    "c_string demo_topic = demo_topic" "length demo_topic = 3" by code_simp+
  have h: "mk_header 3 0 1 0 = 0x32" by (simp add: mk_header_def)
  have "MQTTPacket_encode 8 = [8]" by (simp add: MQTTPacket_encode.simps)
  then have e: "MQTTPacket_encode (Suc (Suc (Suc (Suc (Suc (Suc (Suc (Suc 0)))))))) = [8]" by (simp add: numeral_eq_Suc)
  show ?thesis
    using publish_delivered [where os = demo_os and pending = fst and net = demo_net and others = "\<lambda>t. None"
        and w = "demo_world ([0x32, 8, 0, 3, 0x61, 0x2F, 0x62, 1, 244, 9], False)" and after = "[]"
        and t = demo_topic and qos = 1 and m = 500 and dup = 0 and retained = 0 and p = "[9]"
        and persist_put = "\<lambda>w s b bs t m r. (0, w)" and time = "\<lambda>w. 7"]
    by (simp add: demo_net_def demo_world_reading Let_def b h e)
qed

section \<open>Writing a packet in pieces\<close>

text \<open>
  The documented behaviour of \<open>writev\<close>, \<open>sent\<close> being the bytes a socket has accepted so far: it fails
  and accepts nothing, or it accepts some first part of the buffers.
\<close>

definition healthy_writev :: "'o os_ops \<Rightarrow> ('o \<Rightarrow> bytes) \<Rightarrow> int \<Rightarrow> bool" where
  "healthy_writev os sent s \<longleftrightarrow> (\<forall>ost iov. case os_writev os ost s iov of
       (Inl err, ost') \<Rightarrow> sent ost' = sent ost
     | (Inr n, ost') \<Rightarrow> n \<le> length (concat iov) \<and> sent ost' = sent ost @ take n (concat iov))"

lemma writev_cases:
  assumes "healthy_writev os sent s"
  obtains (failed) rc ost' where "Socket_writev os s iov w = (rc, 0, w\<lparr>s_os := ost'\<rparr>)"
      "rc = TCPSOCKET_INTERRUPTED \<or> rc = SOCKET_ERROR" "sent ost' = sent (s_os w)"
  | (wrote) n ost' where "Socket_writev os s iov w = (int n, n, w\<lparr>s_os := ost'\<rparr>)"
      "n \<le> length (concat iov)" "sent ost' = sent (s_os w) @ take n (concat iov)"
proof -
  obtain r ost' where r: "os_writev os (s_os w) s iov = (r, ost')" by (cases "os_writev os (s_os w) s iov")
  have c: "case os_writev os (s_os w) s iov of (Inl err, ost') \<Rightarrow> sent ost' = sent (s_os w)
     | (Inr n, ost') \<Rightarrow> n \<le> length (concat iov) \<and> sent ost' = sent (s_os w) @ take n (concat iov)"
    by (rule assms [unfolded healthy_writev_def, rule_format])
  show thesis
  proof (cases r)
    case (Inl err)
    with r c show thesis by (intro failed [of _ ost']) (auto simp: Socket_writev_def split: if_splits)
  next
    case (Inr n)
    with r c show thesis by (intro wrote [of n ost']) (auto simp: Socket_writev_def)
  qed
qed

text \<open>The buffers of a continued write are a first part of what is left to write, and not empty.\<close>

lemma continue_iovecs_all: "bytes \<le> c \<Longrightarrow> continue_iovecs bytes c bs = bs"
  by (induction bs arbitrary: c) auto

lemma continue_iovecs_prefix:
  "c \<le> bytes \<Longrightarrow> \<exists>post. drop (bytes - c) (concat bs) = concat (continue_iovecs bytes c bs) @ post"
proof (induction bs arbitrary: c)
  case (Cons b bs)
  consider "bytes \<le> c" | "c < bytes" "bytes < c + length b" | "c < bytes" "c + length b \<le> bytes" by linarith
  then show ?case
  proof cases
    case 1
    with Cons.prems show ?thesis by (simp add: continue_iovecs_all)
  next
    case 3
    with Cons.IH [of "c + length b"] show ?thesis by (simp add: diff_diff_left [symmetric] del: diff_diff_left)
  qed auto
qed simp

lemma continue_iovecs_nonempty:
  "c \<le> bytes \<Longrightarrow> bytes - c < length (concat bs) \<Longrightarrow> concat (continue_iovecs bytes c bs) \<noteq> []"
proof (induction bs arbitrary: c)
  case (Cons b bs)
  then show ?case using Cons.IH [of "c + length b"]
    by (auto simp: continue_iovecs_all)
qed simp

lemma take_drop_prefix:
  assumes "drop k xs = ys @ post" "n \<le> length ys"
  shows "take k xs @ take n ys = take (k + n) xs"
  using assms by (simp add: take_add)

text \<open>
  A pending write, \<open>base\<close> being what the socket had accepted before its packet.
\<close>

definition writing :: "('o \<Rightarrow> bytes) \<Rightarrow> bytes \<Rightarrow> pending_writes \<Rightarrow> 'o \<Rightarrow> bool" where
  "writing sent base pw ost \<longleftrightarrow> pw_count pw = length (pw_iovecs pw) \<and>
     pw_total pw = length (concat (pw_iovecs pw)) \<and> pw_bytes pw \<le> pw_total pw \<and>
     sent ost = base @ take (pw_bytes pw) (concat (pw_iovecs pw))"

text \<open>
  Nothing is lost or repeated when a packet is first written. With no write pending on the socket
  and at most four buffers, \<open>Socket_putdatas\<close> is memory safe, and: it reports completion and the socket
  has accepted exactly the packet; or it reports an interrupt, the socket has accepted a proper first
  part, and the whole packet is saved as a pending write with that part marked as written, the socket
  being queued for writing; or it reports an error, nothing was accepted and nothing is saved.
\<close>

theorem putdatas_exact:
  assumes "healthy_writev os sent socket" and "length buffers \<le> 4"
    and "clist_find (same_socket socket) (s_write_pending w) = None"
  shows "\<exists>rc w'. Socket_putdatas os w socket buf0 buffers frees = Some (rc, w') \<and>
    (rc = TCPSOCKET_COMPLETE \<and> sent (s_os w') = sent (s_os w) @ buf0 @ concat buffers \<and> s_sb w' = s_sb w \<and>
       s_write_pending w' = s_write_pending w \<or>
     rc = TCPSOCKET_INTERRUPTED \<and> socket \<in> s_pending_wset w' \<and>
       elems (s_write_pending w') = elems (s_write_pending w) @ [socket] \<and>
       (\<exists>pw. elems (sb_writes (s_sb w')) = elems (sb_writes (s_sb w)) @ [pw] \<and> pw_socket pw = socket \<and>
         pw_iovecs pw = buf0 # buffers \<and> writing sent (sent (s_os w)) pw (s_os w') \<and> pw_bytes pw < pw_total pw) \<or>
     rc = SOCKET_ERROR \<and> sent (s_os w') = sent (s_os w) \<and> s_sb w' = s_sb w \<and>
       s_write_pending w' = s_write_pending w)"
proof -
  have w: "Socket_noPendingWrites socket w = (True, w)"
    using assms(3) by (simp add: Socket_noPendingWrites_def clist_seek_def)
  have t: "length buf0 + sum_list (map length buffers) = length (concat (buf0 # buffers))"
    by (simp add: length_concat)
  note defs = Socket_putdatas_def w t SocketBuffer_pendingWrite_def clist_append_def writing_def
  from assms(1) show ?thesis
  proof (rule writev_cases [of os sent socket "buf0 # buffers" w])
    fix rc ost' assume "Socket_writev os socket (buf0 # buffers) w = (rc, 0, w\<lparr>s_os := ost'\<rparr>)"
      "rc = TCPSOCKET_INTERRUPTED \<or> rc = SOCKET_ERROR" "sent ost' = sent (s_os w)"
    then show ?thesis using assms(2)
      by (cases "rc = SOCKET_ERROR"; cases "concat (buf0 # buffers) = []") (auto simp: defs simp del: length_concat)
  next
    fix n ost' assume "Socket_writev os socket (buf0 # buffers) w = (int n, n, w\<lparr>s_os := ost'\<rparr>)"
      "n \<le> length (concat (buf0 # buffers))"
      "sent ost' = sent (s_os w) @ take n (concat (buf0 # buffers))"
    then show ?thesis using assms(2)
      by (cases "n = length (concat (buf0 # buffers))") (auto simp: defs simp del: length_concat)
  qed
qed

text \<open>A system that accepts three bytes of every write.\<close>

definition three_os :: "bytes os_ops" where
  "three_os = \<lparr>os_recv = (\<lambda>ost s n. (Inl EAGAIN, ost)),
     os_writev = (\<lambda>ost s iov. (Inr (min 3 (length (concat iov))), ost @ take 3 (concat iov))),
     os_select = (\<lambda>ost n r p t. (Inr (0, {}, {}), ost)),
     os_setnonblocking = (\<lambda>ost s. (Inr 0, ost)), os_close = (\<lambda>ost s. (0, ost)),
     os_getaddrinfo = (\<lambda>ost a. (Inr [], ost)), os_socket = (\<lambda>ost f. (Inr 3, ost)),
     os_connect = (\<lambda>ost s f a p. (Inr (), ost)), os_writecomplete = None\<rparr>"

lemma three_os_healthy: "healthy_writev three_os id s"
  by (auto simp: healthy_writev_def three_os_def min_def)

definition three_world :: "pending_writes list \<Rightarrow> bytes \<Rightarrow> bytes Sockets" where
  "three_world pws ost = \<lparr>s_rset = {}, s_rset_saved = {}, s_maxfdp1 = 0, s_clientsds = clist_empty,
     s_cur_clientsds = None, s_connect_pending = clist_empty, s_write_pending = clist_empty,
     s_pending_wset = {}, s_wset = {}, s_sb = demo_sbuf\<lparr>sb_writes := \<lparr>elems = pws, cursor = None\<rparr>\<rparr>, s_os = ost\<rparr>"

theorem putdatas_exact_witness:
  "\<exists>rc w'. Socket_putdatas three_os (three_world [] []) 5 [0x40, 2] [[0, 9]] [True] = Some (rc, w') \<and>
    (rc = 0 \<and> s_os w' = [0x40, 2, 0, 9] \<or>
     rc = -22 \<and> (\<exists>pw. elems (sb_writes (s_sb w')) = [pw] \<and> writing id [] pw (s_os w')) \<or>
     rc = -1 \<and> s_os w' = [])"
  using putdatas_exact [OF three_os_healthy [of 5], of "[[0, 9]]" "three_world [] []" "[0x40, 2]" "[True]"]
  by (auto simp: three_world_def clist_find_def clist_empty_def)

text \<open>
  Nothing is lost or repeated when a pending write is continued. For the pending write found for the
  socket, \<open>Socket_continueWrite\<close> offers the socket a non-empty first part of the bytes not yet accepted;
  afterwards the count of written bytes is again exactly what the socket has accepted of the packet,
  it returns 1 exactly when the whole packet has been accepted, and on an error nothing has changed.
\<close>

theorem continueWrite_exact:
  assumes "healthy_writev os sent socket" and "SocketBuffer_getWrite socket (s_sb w) = (Some i, sb)"
    and "i < length (elems (sb_writes sb))" and "elems (sb_writes sb) ! i = pw"
    and "writing sent base pw (s_os w)" and "pw_bytes pw < pw_total pw"
  shows "concat (continue_iovecs (pw_bytes pw) 0 (pw_iovecs pw)) \<noteq> [] \<and>
    (\<exists>rc w' pw'. Socket_continueWrite os socket w = Some (rc, w') \<and>
      elems (sb_writes (s_sb w')) = (elems (sb_writes sb))[i := pw'] \<and>
      writing sent base pw' (s_os w') \<and> pw_bytes pw \<le> pw_bytes pw' \<and>
      (rc = 1 \<longleftrightarrow> pw_bytes pw' = pw_total pw') \<and> (rc = SOCKET_ERROR \<longrightarrow> pw' = pw))"
proof
  let ?all = "concat (pw_iovecs pw)" and ?iov = "continue_iovecs (pw_bytes pw) 0 (pw_iovecs pw)"
  from assms(5) have pw: "take (pw_count pw) (pw_iovecs pw) = pw_iovecs pw" "pw_total pw = length ?all"
      "sent (s_os w) = base @ take (pw_bytes pw) ?all" by (simp_all add: writing_def)
  show "concat ?iov \<noteq> []" using continue_iovecs_nonempty [of 0 "pw_bytes pw" "pw_iovecs pw"] assms(6) pw(2) by simp
  obtain post where post: "drop (pw_bytes pw) ?all = concat ?iov @ post"
    using continue_iovecs_prefix [of 0 "pw_bytes pw" "pw_iovecs pw"] by auto
  have c: "Socket_continueWrite os socket w = (let (rc, bytes, w') = Socket_writev os socket ?iov (w\<lparr>s_sb := sb\<rparr>) in
      if rc = SOCKET_ERROR then Some (rc, w')
      else Some (if pw_bytes pw + bytes = pw_total pw then 1 else 0,
        w'\<lparr>s_sb := (s_sb w')\<lparr>sb_writes := (sb_writes (s_sb w'))\<lparr>elems :=
          (elems (sb_writes (s_sb w')))[i := pw\<lparr>pw_bytes := pw_bytes pw + bytes\<rparr>]\<rparr>\<rparr>\<rparr>))"
    using assms(2,4) pw(1) by (auto simp: Socket_continueWrite_def Let_def split: prod.splits)
  from assms(1) show "\<exists>rc w' pw'. Socket_continueWrite os socket w = Some (rc, w') \<and>
      elems (sb_writes (s_sb w')) = (elems (sb_writes sb))[i := pw'] \<and>
      writing sent base pw' (s_os w') \<and> pw_bytes pw \<le> pw_bytes pw' \<and>
      (rc = 1 \<longleftrightarrow> pw_bytes pw' = pw_total pw') \<and> (rc = SOCKET_ERROR \<longrightarrow> pw' = pw)"
  proof (rule writev_cases [of os sent socket ?iov "w\<lparr>s_sb := sb\<rparr>"])
    fix rc ost' assume r: "Socket_writev os socket ?iov (w\<lparr>s_sb := sb\<rparr>) = (rc, 0, w\<lparr>s_sb := sb\<rparr>\<lparr>s_os := ost'\<rparr>)"
      "rc = TCPSOCKET_INTERRUPTED \<or> rc = SOCKET_ERROR" "sent ost' = sent (s_os (w\<lparr>s_sb := sb\<rparr>))"
    then show ?thesis using assms(3-6)
      by (intro exI [of _ "if rc = SOCKET_ERROR then -1 else 0"]
          exI [of _ "w\<lparr>s_sb := sb, s_os := ost'\<rparr>"] exI [of _ pw]) (auto simp: c writing_def)
  next
    fix n ost' assume r: "Socket_writev os socket ?iov (w\<lparr>s_sb := sb\<rparr>) = (int n, n, w\<lparr>s_sb := sb\<rparr>\<lparr>s_os := ost'\<rparr>)"
      "n \<le> length (concat ?iov)" "sent ost' = sent (s_os (w\<lparr>s_sb := sb\<rparr>)) @ take n (concat ?iov)"
    have "length ?all = pw_bytes pw + length (concat ?iov) + length post"
      using post assms(6) pw(2) by (metis add.assoc append_take_drop_id length_append length_take min.absorb4)
    with r assms(3,5,6) pw(2,3) take_drop_prefix [OF post r(2)] show ?thesis
      by (auto simp: c writing_def Let_def)
  qed
qed

definition demo_pw :: pending_writes where
  "demo_pw = \<lparr>pw_socket = 5, pw_count = 3, pw_total = 7, pw_bytes = 3, pw_iovecs = [[1, 2], [3, 4], [5, 6, 7]],
     pw_frees = [True, True, False]\<rparr>"

theorem continueWrite_exact_witness:
  "\<exists>rc w' pw'. Socket_continueWrite three_os 5 (three_world [demo_pw] [1, 2, 3]) = Some (rc, w') \<and>
     elems (sb_writes (s_sb w')) = [pw'] \<and> writing id [] pw' (s_os w') \<and> 3 \<le> pw_bytes pw' \<and>
     (rc = 1 \<longleftrightarrow> pw_bytes pw' = pw_total pw')"
proof -
  have "SocketBuffer_getWrite 5 (s_sb (three_world [demo_pw] [1, 2, 3])) =
      (Some 0, demo_sbuf\<lparr>sb_writes := \<lparr>elems = [demo_pw], cursor = Some 0\<rparr>\<rparr>)"
    by (simp add: SocketBuffer_getWrite_def three_world_def clist_find_def clist_seek_def
        pending_socketcompare_def demo_pw_def)
  moreover have "writing id [] demo_pw (s_os (three_world [demo_pw] [1, 2, 3]))" "pw_bytes demo_pw < pw_total demo_pw"
    "pw_bytes demo_pw = 3"
    by (simp_all add: writing_def demo_pw_def three_world_def numeral_3_eq_3)
  ultimately show ?thesis
    using continueWrite_exact [OF three_os_healthy [of 5], of "three_world [demo_pw] [1, 2, 3]" 0 _ demo_pw "[]"]
    by auto
qed

section \<open>Errors and stale writes\<close>

text \<open>
  A hard error while a pending write is continued is treated as its completion: when \<open>writev\<close> fails
  with anything but \<open>EAGAIN\<close> for the only pending write, \<open>Socket_continueWrites\<close> still reports
  success, has removed the pending write although its packet was never accepted completely, and has
  called the write-complete callback for the socket.
\<close>

theorem write_error_completes:
  assumes "elems (s_write_pending w) = [socket]" and "elems (sb_writes (s_sb w)) = [pw]" and "pw_socket pw = socket"
    and "cursor (s_write_pending w) = None" and "cursor (sb_writes (s_sb w)) = None" and "socket \<in> pwset"
    and "os_writev os (s_os w) socket (continue_iovecs (pw_bytes pw) 0 (take (pw_count pw) (pw_iovecs pw))) = (Inl err, ost')"
    and "err \<noteq> EAGAIN" and "os_writecomplete os = Some callback"
  shows "\<exists>w'. Socket_continueWrites os pwset w = Some (0, w') \<and> elems (s_write_pending w') = [] \<and>
    elems (sb_writes (s_sb w')) = [] \<and> s_os w' = callback socket ost'"
proof -
  let ?w1 = "w\<lparr>s_sb := (s_sb w)\<lparr>sb_writes := \<lparr>elems = [pw], cursor = Some 0\<rparr>\<rparr>, s_os := ost'\<rparr>"
  have seek: "clist_seek (pending_socketcompare socket) (sb_writes (s_sb w)) = \<lparr>elems = [pw], cursor = Some 0\<rparr>"
    "clist_find (pending_socketcompare socket) (sb_writes (s_sb w)) = Some 0"
    using assms(2,3,5) by (auto simp: clist_seek_def clist_find_def pending_socketcompare_def)
  have c: "Socket_continueWrite os socket w = Some (-1, ?w1)"
    using assms(2,7,8) seek by (simp add: Socket_continueWrite_def SocketBuffer_getWrite_def Socket_writev_def)
  have p: "remove_pending 0 (s_write_pending w) = \<lparr>elems = [], cursor = None\<rparr>"
    using assms(1,4) by (simp add: remove_pending_def remove_nth_def cursor_after_remove_def)
  show ?thesis
    using c p assms(1,3,6,9)
    by (simp add: Socket_continueWrites_def continue_loop.simps SocketBuffer_writeComplete_def clist_unlink_def
        clist_find_def pending_socketcompare_def remove_nth_def)
qed

definition reset_os :: "int list os_ops" where
  "reset_os = \<lparr>os_recv = (\<lambda>ost s n. (Inl EAGAIN, ost)), os_writev = (\<lambda>ost s iov. (Inl 104, ost)),
     os_select = (\<lambda>ost n r p t. (Inr (0, {}, {}), ost)),
     os_setnonblocking = (\<lambda>ost s. (Inr 0, ost)), os_close = (\<lambda>ost s. (0, ost)),
     os_getaddrinfo = (\<lambda>ost a. (Inr [], ost)), os_socket = (\<lambda>ost f. (Inr 3, ost)),
     os_connect = (\<lambda>ost s f a p. (Inr (), ost)), os_writecomplete = Some (\<lambda>s ost. s # ost)\<rparr>"

definition reset_world :: "int list Sockets" where
  "reset_world = \<lparr>s_rset = {}, s_rset_saved = {5}, s_maxfdp1 = 6, s_clientsds = \<lparr>elems = [5], cursor = None\<rparr>,
     s_cur_clientsds = None, s_connect_pending = clist_empty, s_write_pending = \<lparr>elems = [5], cursor = None\<rparr>,
     s_pending_wset = {5}, s_wset = {}, s_sb = demo_sbuf\<lparr>sb_writes := \<lparr>elems = [demo_pw], cursor = None\<rparr>\<rparr>, s_os = []\<rparr>"

theorem write_error_completes_witness:
  "\<exists>w'. Socket_continueWrites reset_os {5} reset_world = Some (0, w') \<and> elems (s_write_pending w') = [] \<and>
    elems (sb_writes (s_sb w')) = [] \<and> s_os w' = [5]"
  using write_error_completes [of reset_world 5 demo_pw "{5}" reset_os 104 "[]" "\<lambda>s ost. s # ost"]
  by (simp add: reset_world_def demo_pw_def reset_os_def)

lemma unlink_socket:
  "distinct (elems q) \<Longrightarrow> cursor_in q \<Longrightarrow> set (elems (clist_unlink (same_socket s) q)) = set (elems q) - {s}"
  using unlink_elem(1) [of q s] by (simp add: same_socket_def [abs_def])

lemma fold_max_start: "a \<le> fold max xs (a :: int)"
proof (induction xs arbitrary: a)
  case (Cons x xs)
  from Cons [of "max x a"] show ?case by simp
qed simp

lemma fold_max_ge: "x \<in> set xs \<Longrightarrow> x \<le> fold max xs (a :: int)"
proof (induction xs arbitrary: a)
  case (Cons y ys)
  have "y \<le> fold max ys (max y a)" by (rule order_trans [OF _ fold_max_start]) simp
  with Cons show ?case by auto
qed simp

lemma next_after_neq: "distinct xs \<Longrightarrow> next_after x xs \<noteq> Some x"
  by (induction xs) (auto split: list.splits)

text \<open>
  \<open>Socket_close\<close> forgets the socket: it is removed from the select sets, from the list of client
  sockets, from the pending connects and the sockets with pending writes, its interrupted read is
  dropped, and the descriptor bound exceeds every socket left. It does not remove the saved write
  itself, so a later connection that gets the same descriptor and has a partial write finds the
  stale packet of the closed one.
\<close>

theorem Socket_close_forgets:
  assumes "distinct (elems (s_clientsds w))" and "cursor_in (s_clientsds w)"
    and "distinct (elems (s_connect_pending w))" and "cursor_in (s_connect_pending w)"
    and "distinct (elems (s_write_pending w))" and "cursor_in (s_write_pending w)"
    and "looks (s_sb w) dq m" and "socket \<noteq> 0" and "\<forall>x\<in>set (elems (s_clientsds w)). x < s_maxfdp1 w"
  shows "let w' = Socket_close os socket w in
    socket \<notin> s_rset_saved w' \<and> socket \<notin> s_pending_wset w' \<and> s_cur_clientsds w' \<noteq> Some socket \<and>
    set (elems (s_clientsds w')) = set (elems (s_clientsds w)) - {socket} \<and>
    set (elems (s_connect_pending w')) = set (elems (s_connect_pending w)) - {socket} \<and>
    set (elems (s_write_pending w')) = set (elems (s_write_pending w)) - {socket} \<and>
    saved (s_sb w') socket = None \<and> (\<forall>x\<in>set (elems (s_clientsds w')). x < s_maxfdp1 w') \<and>
    sb_writes (s_sb w') = sb_writes (s_sb w)"
proof -
  define q where "q = clist_unlink (same_socket socket) (s_clientsds w)"
  have q: "set (elems q) = set (elems (s_clientsds w)) - {socket}"
    unfolding q_def by (rule unlink_socket [OF assms(1,2)])
  note sets = unlink_socket [OF assms(3,4)] unlink_socket [OF assms(5,6)]
  have sv: "saved (SocketBuffer_cleanup socket (s_sb w)) socket = None"
    using cleanup_looks(1) [OF assms(7,8)] assms(8) by (simp add: looks_def)
  have "x < fold max (elems q) 0 + 1" if "x \<in> set (elems q)" for x
    using fold_max_ge [OF that, of 0] by simp
  with assms(9) q have bound: "\<forall>x\<in>set (elems q). x < s_maxfdp1 w" "\<forall>x\<in>set (elems q). x < fold max (elems q) 0 + 1"
    by auto
  show ?thesis
    using next_after_neq [OF assms(1), of socket] sv sets q bound cleanup_looks(2) [OF assms(7,8)]
    by (simp add: Socket_close_def Socket_close_only_def Let_def q_def split: prod.splits)
qed

theorem Socket_close_forgets_witness:
  "let w' = Socket_close reset_os 5 reset_world in
    elems (s_clientsds w') = [] \<and> s_maxfdp1 w' = 1 \<and> elems (sb_writes (s_sb w')) = [demo_pw]"
proof -
  have sv: "saved (s_sb reset_world) t = None" for t
    by (simp add: saved_def reset_world_def demo_sbuf_def SocketBuffer_initialize_def clist_empty_def)
  have "looks (s_sb reset_world) (fresh_queue demo_sbuf) (\<lambda>t. None)"
    using sv by (simp add: looks_def) (simp add: reset_world_def demo_sbuf_def SocketBuffer_initialize_def
        SocketBuffer_newDefQ_def clist_empty_def unique_sockets_def cursor_in_def fresh_queue_def)
  moreover have "s_maxfdp1 (Socket_close reset_os 5 reset_world) = 1"
    by (simp add: Socket_close_def Socket_close_only_def reset_world_def reset_os_def clist_unlink_def clist_find_def
        same_socket_def remove_nth_def Let_def)
  ultimately show ?thesis
    using Socket_close_forgets [of reset_world "fresh_queue demo_sbuf" "\<lambda>t. None" 5 reset_os]
    by (simp add: reset_world_def cursor_in_def clist_empty_def Let_def)
qed

text \<open>
  The stale write of a closed connection is sent on the next one: after \<open>Socket_close\<close>, a partial
  write on a new connection with the same descriptor saves its packet behind the saved packet of the
  old connection, and the lookup that \<open>Socket_continueWrite\<close> makes finds the old one.
\<close>

theorem stale_write_found:
  assumes "looks (s_sb w) dq m" and "s \<noteq> 0" and "sb_writes (s_sb w) = \<lparr>elems = [old], cursor = None\<rparr>"
    and "pw_socket old = s"
  shows "let sb = SocketBuffer_pendingWrite s iovecs frees tot n (s_sb (Socket_close os s w)) in
    length (elems (sb_writes sb)) = 2 \<and> fst (SocketBuffer_getWrite s sb) = Some 0 \<and> elems (sb_writes sb) ! 0 = old"
proof -
  have "sb_writes (s_sb (Socket_close os s w)) = sb_writes (s_sb w)"
    using cleanup_looks(2) [OF assms(1,2)]
    by (simp add: Socket_close_def Socket_close_only_def Let_def split: prod.splits)
  with assms(3,4) show ?thesis
    by (simp add: SocketBuffer_pendingWrite_def SocketBuffer_getWrite_def clist_append_def clist_find_def
        pending_socketcompare_def)
qed

lemma reset_world_looks: "looks (s_sb reset_world) (fresh_queue demo_sbuf) (\<lambda>t. None)"
proof -
  have "saved (s_sb reset_world) t = None" for t
    by (simp add: saved_def reset_world_def demo_sbuf_def SocketBuffer_initialize_def clist_empty_def)
  then show ?thesis
    by (simp add: looks_def) (simp add: reset_world_def demo_sbuf_def SocketBuffer_initialize_def
        SocketBuffer_newDefQ_def clist_empty_def unique_sockets_def cursor_in_def fresh_queue_def)
qed

theorem stale_write_found_witness:
  "let sb = SocketBuffer_pendingWrite 5 [[8, 9]] [True] 2 1 (s_sb (Socket_close reset_os 5 reset_world)) in
    length (elems (sb_writes sb)) = 2 \<and> fst (SocketBuffer_getWrite 5 sb) = Some 0 \<and> elems (sb_writes sb) ! 0 = demo_pw"
  by (rule stale_write_found [OF reset_world_looks]) (simp_all add: reset_world_def demo_pw_def)

section \<open>Selecting\<close>

lemma clist_find_same_socket:
  "clist_find (same_socket x) q = None \<Longrightarrow> x \<notin> set (elems q)"
  "clist_find (same_socket x) q = Some i \<Longrightarrow> cursor_in q \<Longrightarrow> x \<in> set (elems q)"
  by (auto simp: clist_find_def find_index_None_iff same_socket_def cursor_in_def split: option.splits if_splits
      dest!: find_index_SomeD)

lemma isReady_frame:
  assumes "isReady x w = (b, w')"
  shows "elems (s_clientsds w') = elems (s_clientsds w)" "s_rset w' = s_rset w" "s_wset w' = s_wset w"
    "elems (s_write_pending w') = elems (s_write_pending w)"
    "set (elems (s_connect_pending w')) \<subseteq> set (elems (s_connect_pending w))"
    "cursor_in (s_connect_pending w) \<Longrightarrow> cursor_in (s_connect_pending w')"
proof -
  show "elems (s_clientsds w') = elems (s_clientsds w)" "s_rset w' = s_rset w" "s_wset w' = s_wset w"
    "elems (s_write_pending w') = elems (s_write_pending w)"
    using assms by (auto simp: isReady_def Socket_noPendingWrites_def Let_def split: if_splits)
  have "set (elems (clist_unlink P q)) \<subseteq> set (elems q)" for P :: "int \<Rightarrow> bool" and q
    using set_remove_nth_subset by (fastforce simp: clist_unlink_def split: option.splits)
  from this [of "same_socket x" "clist_seek (same_socket x) (s_connect_pending w)"] assms
  show "set (elems (s_connect_pending w')) \<subseteq> set (elems (s_connect_pending w))"
    by (auto simp: isReady_def Socket_noPendingWrites_def Let_def split: if_splits)
  show "cursor_in (s_connect_pending w) \<Longrightarrow> cursor_in (s_connect_pending w')"
    using assms by (auto simp: isReady_def Socket_noPendingWrites_def Let_def cursor_in_unlink cursor_in_seek split: if_splits)
qed

lemma isReady_true:
  assumes "isReady x w = (True, w')" "cursor_in (s_connect_pending w)"
  shows "x \<in> s_wset w \<and> (x \<in> set (elems (s_connect_pending w)) \<or>
     x \<in> s_rset w \<and> x \<notin> set (elems (s_write_pending w)))"
  using assms clist_find_same_socket(1) [of x "s_write_pending w"] clist_find_same_socket(2) [of x "s_connect_pending w"]
  by (auto simp: isReady_def Socket_noPendingWrites_def Let_def split: if_splits)

text \<open>A socket that may be worked on: what \<open>w\<close> is selected on, \<open>conn\<close> the sockets that were connecting.\<close>

definition is_ready_socket :: "int list \<Rightarrow> 'o Sockets \<Rightarrow> int \<Rightarrow> bool" where
  "is_ready_socket conn w x \<longleftrightarrow> x \<in> set (elems (s_clientsds w)) \<and> x \<in> s_wset w \<and>
     (x \<in> set conn \<or> x \<in> s_rset w \<and> x \<notin> set (elems (s_write_pending w)))"

lemma advance_ready_finds:
  assumes "s_cur_clientsds (advance_ready xs w) = Some x" "cursor_in (s_connect_pending w)"
    and "set (elems (s_connect_pending w)) \<subseteq> set conn" "set xs \<subseteq> set (elems (s_clientsds w))"
  shows "is_ready_socket conn (advance_ready xs w) x"
  using assms
proof (induction xs arbitrary: w)
  case (Cons y ys)
  obtain b w1 where r: "isReady y w = (b, w1)" by (cases "isReady y w")
  note frame = isReady_frame [OF r]
  show ?case
  proof (cases b)
    case True
    with Cons.prems isReady_true [of y w w1] r frame show ?thesis by (auto simp: is_ready_socket_def)
  next
    case False
    with Cons.prems r frame show ?thesis by (simp add: Cons.IH subset_trans)
  qed
qed simp

lemma advance_ready_frame:
  "elems (s_clientsds (advance_ready xs w)) = elems (s_clientsds w) \<and>
   set (elems (s_connect_pending (advance_ready xs w))) \<subseteq> set (elems (s_connect_pending w)) \<and>
   (cursor_in (s_connect_pending w) \<longrightarrow> cursor_in (s_connect_pending (advance_ready xs w)))"
proof (induction xs arbitrary: w)
  case (Cons y ys)
  obtain b w1 where r: "isReady y w = (b, w1)" by (cases "isReady y w")
  from isReady_frame [OF r] Cons [of w1] r show ?case by auto
qed simp

lemma continue_loop_frame:
  "continue_loop os pwset c w = Some w' \<Longrightarrow>
    s_clientsds w' = s_clientsds w \<and> s_connect_pending w' = s_connect_pending w"
proof (induction os pwset c w rule: continue_loop.induct)
  case (1 os pwset c w)
  have cw: "Socket_continueWrite os socket w = Some (rc, w1) \<Longrightarrow>
      s_clientsds w1 = s_clientsds w \<and> s_connect_pending w1 = s_connect_pending w" for socket rc w1
    by (auto simp: Socket_continueWrite_def Socket_writev_def Let_def bind_eq_Some_conv
        split: prod.splits sum.splits if_splits)
  show ?case
  proof (cases c)
    case None
    with "1.prems" show ?thesis by (simp add: continue_loop.simps)
  next
    case (Some i)
    show ?thesis
    proof (cases "length (elems (s_write_pending w)) \<le> i")
      case True
      with "1.prems" Some show ?thesis by (simp add: continue_loop.simps)
    next
      case False
      let ?s = "elems (s_write_pending w) ! i"
      let ?r = "if ?s \<in> pwset then Socket_continueWrite os ?s w else Some (0, w)"
      from "1.prems" Some False obtain rc w1 where r: "?r = Some (rc, w1)"
        by (cases ?r) (auto simp: continue_loop.simps [of os pwset "Some i" w] Let_def)
      then have w1: "s_clientsds w1 = s_clientsds w \<and> s_connect_pending w1 = s_connect_pending w"
        using cw by (auto split: if_splits)
      show ?thesis
      proof (cases "rc = 0")
        case True
        have "continue_loop os pwset (Some (Suc i)) w1 = Some w'"
          using "1.prems" Some False True r by (simp add: continue_loop.simps [of os pwset "Some i" w])
        with "1.IH"(2) [OF Some False refl r refl] True w1 show ?thesis by simp
      next
        case False': False
        define w2 where "w2 = w1\<lparr>s_sb := snd (SocketBuffer_writeComplete ?s (s_sb w1)),
          s_pending_wset := s_pending_wset w1 - {?s}, s_write_pending := remove_pending i (s_write_pending w1)\<rparr>"
        define w3 where "w3 = (case os_writecomplete os of None \<Rightarrow> w2 | Some f \<Rightarrow> w2\<lparr>s_os := f ?s (s_os w2)\<rparr>)"
        have "continue_loop os pwset (cursor (s_write_pending w3)) w3 = Some w'"
          using "1.prems" Some False False' r
          by (cases "os_writecomplete os")
            (simp_all add: continue_loop.simps [of os pwset "Some i" w] w2_def w3_def Let_def)
        with "1.IH"(1) [OF Some False refl r refl False' w2_def w3_def] w1 show ?thesis
          by (simp add: w2_def w3_def split: option.splits)
      qed
    qed
  qed
qed

lemma take_ready_ready:
  assumes "take_ready (advance_ready xs w) = (rc, w')" "rc \<noteq> 0" "cursor_in (s_connect_pending w)"
    and "set (elems (s_connect_pending w)) \<subseteq> set conn" "set xs \<subseteq> set (elems (s_clientsds w))"
  shows "is_ready_socket conn w' rc"
proof (cases "s_cur_clientsds (advance_ready xs w)")
  case (Some x)
  from advance_ready_finds [OF Some assms(3-5)] Some assms(1) show ?thesis
    by (auto simp: take_ready_def is_ready_socket_def)
qed (use assms(1,2) in \<open>simp add: take_ready_def\<close>)

text \<open>
  A socket that \<open>Socket_getReadySocket\<close> returns is one to work on: it is in the client list, was
  selected as writable, and either its connect was pending or it was selected as readable and has no
  pending write, so no work is accepted from a peer that does not accept work back.
\<close>

theorem getReadySocket_ready:
  assumes "Socket_getReadySocket os more_work tp w = Some (rc, w')" and "rc \<noteq> 0" and "rc \<noteq> SOCKET_ERROR"
    and "cursor_in (s_connect_pending w)"
  shows "is_ready_socket (elems (s_connect_pending w)) w' rc"
proof -
  let ?xs = "rest_from (s_cur_clientsds w) (elems (s_clientsds w))"
  define w1 where "w1 = advance_ready ?xs w"
  have w1: "elems (s_clientsds w1) = elems (s_clientsds w)" "cursor_in (s_connect_pending w1)"
      "set (elems (s_connect_pending w1)) \<subseteq> set (elems (s_connect_pending w))"
    using advance_ready_frame [of ?xs w] assms(4) by (auto simp: w1_def)
  have xs: "set ?xs \<subseteq> set (elems (s_clientsds w))"
    by (auto simp: rest_from_def dest: set_dropWhileD split: option.splits)
  from assms(1,2) have ne: "elems (s_clientsds w) \<noteq> []" by (auto simp: Socket_getReadySocket_def)
  show ?thesis
  proof (cases "s_cur_clientsds w1")
    case (Some x)
    with assms(1) ne have "take_ready (advance_ready ?xs w) = (rc, w')"
      by (simp add: Socket_getReadySocket_def w1_def)
    then show ?thesis by (rule take_ready_ready [OF _ assms(2,4) subset_refl xs])
  next
    case None
    let ?timeout = "if more_work then 0 else case tp of Some t \<Rightarrow> t | None \<Rightarrow> 1000"
    obtain sel ost where sel: "os_select os (s_os w1) (s_maxfdp1 w1) (s_rset_saved w1) (s_pending_wset w1) ?timeout = (sel, ost)"
      by fastforce
    from assms(1,3) ne None sel obtain n rset pwset where sel': "sel = Inr (n, rset, pwset)"
      by (cases sel) (auto simp: Socket_getReadySocket_def w1_def Let_def)
    from assms(1) ne None sel sel' obtain w2 where w2: "continue_loop os pwset (if elems (s_write_pending w1) = [] then None else Some 0)
        (w1\<lparr>s_rset := rset, s_os := ost\<rparr>) = Some w2"
      by (auto simp: Socket_getReadySocket_def w1_def Let_def Socket_continueWrites_def bind_eq_Some_conv)
    note frame = continue_loop_frame [OF w2, simplified]
    obtain sel2 ost2 where s2: "os_select os (s_os w2) (s_maxfdp1 w2) {} (s_rset_saved w2) 0 = (sel2, ost2)" by fastforce
    from assms(1,3) ne None sel sel' w2 s2 obtain n1 r1 wset where s2': "sel2 = Inr (n1, r1, wset)"
      by (cases sel2) (auto simp: Socket_getReadySocket_def w1_def Let_def Socket_continueWrites_def)
    let ?w3 = "w2\<lparr>s_wset := wset, s_os := ost2\<rparr>"
    have "take_ready (advance_ready (elems (s_clientsds ?w3)) ?w3) = (rc, w')"
      using assms(1,2) ne None sel sel' w2 s2 s2'
      by (auto simp: Socket_getReadySocket_def w1_def Let_def Socket_continueWrites_def split: if_splits)
    then show ?thesis by (rule take_ready_ready [OF _ assms(2)]) (use frame w1 in simp_all)
  qed
qed

definition ready_os :: "unit os_ops" where
  "ready_os = \<lparr>os_recv = (\<lambda>ost s n. (Inl EAGAIN, ost)), os_writev = (\<lambda>ost s iov. (Inl 104, ost)),
     os_select = (\<lambda>ost n r p t. (Inr (1, r, p), ost)),
     os_setnonblocking = (\<lambda>ost s. (Inr 0, ost)), os_close = (\<lambda>ost s. (0, ost)),
     os_getaddrinfo = (\<lambda>ost a. (Inr [], ost)), os_socket = (\<lambda>ost f. (Inr 3, ost)),
     os_connect = (\<lambda>ost s f a p. (Inr (), ost)), os_writecomplete = None\<rparr>"

definition ready_world :: "unit Sockets" where
  "ready_world = \<lparr>s_rset = {}, s_rset_saved = {5}, s_maxfdp1 = 6, s_clientsds = \<lparr>elems = [5], cursor = None\<rparr>,
     s_cur_clientsds = None, s_connect_pending = clist_empty, s_write_pending = clist_empty,
     s_pending_wset = {}, s_wset = {}, s_sb = demo_sbuf, s_os = ()\<rparr>"

theorem getReadySocket_ready_witness:
  "\<exists>w'. Socket_getReadySocket ready_os False None ready_world = Some (5, w') \<and> is_ready_socket [] w' 5"
proof -
  obtain w' where w': "Socket_getReadySocket ready_os False None ready_world = Some (5, w')"
    by (simp add: Socket_getReadySocket_def ready_os_def ready_world_def rest_from_def clist_empty_def
        Socket_continueWrites_def continue_loop.simps isReady_def clist_find_def clist_seek_def
        Socket_noPendingWrites_def take_ready_def Let_def)
  from getReadySocket_ready [OF this] w' show ?thesis
    by (simp add: ready_world_def clist_empty_def cursor_in_def)
qed

end
