(* ===== verification/Protocol.thy ===== *)
theory Protocol
  imports Packet
begin

text \<open>
  The MQTT client protocol: \<open>lib/MQTTProtocolClient.c\<close> and \<open>lib/MQTTProtocolOut.c\<close>. Messages and
  publications are objects in a store, referred to by address; dereferencing an address that holds
  no object is undefined behaviour, \<open>None\<close>. Addresses of new objects are arguments, as results of
  \<open>malloc\<close>. The API layer's callbacks (processing a publication, closing a session), persistence and
  the socket layer are arguments (\<open>proto_ops\<close>).
\<close>

abbreviation (input) MAX_MSG_ID :: int where "MAX_MSG_ID \<equiv> 65535"

section \<open>State\<close>

record 'w pstate =
  ps_clients :: "Clients clist"
  ps_msgs :: "addr \<rightharpoonup> Messages"
  ps_pubs :: "addr \<rightharpoonup> Publications"
  ps_publications :: "addr clist"
  ps_pending_writes :: "(int \<times> addr) clist"
  ps_msgs_received :: "32 word"
  ps_msgs_sent :: "32 word"
  ps_world :: 'w

record 'w proto_ops =
  po_net :: "'w net_ops"
  po_process :: "Publish \<Rightarrow> nat \<Rightarrow> 'w pstate \<Rightarrow> 'w pstate"
  po_closeSession :: "nat \<Rightarrow> 'w pstate \<Rightarrow> 'w pstate"
  po_persist_remove :: "'w \<Rightarrow> Clients \<Rightarrow> string \<Rightarrow> int \<Rightarrow> int \<Rightarrow> int \<times> 'w"
  po_noPendingWrites :: "'w \<Rightarrow> int \<Rightarrow> bool \<times> 'w"
  po_updateWrite :: "'w \<Rightarrow> int \<Rightarrow> bytes \<Rightarrow> bytes \<Rightarrow> 'w"
  po_socket_new :: "'w \<Rightarrow> bytes \<Rightarrow> int \<Rightarrow> int \<times> int \<times> 'w"
  po_sizeof_Messages :: int
  po_sizeof_Publications :: int

abbreviation get_client :: "nat \<Rightarrow> 'w pstate \<Rightarrow> Clients" where
  "get_client i st \<equiv> elems (ps_clients st) ! i"

definition set_client :: "nat \<Rightarrow> Clients \<Rightarrow> 'w pstate \<Rightarrow> 'w pstate" where
  "set_client i c st = st\<lparr>ps_clients := (ps_clients st)\<lparr>elems := (elems (ps_clients st))[i := c]\<rparr>\<rparr>"

text \<open>\<open>ListFindItem (bstate->clients, &sock, clientSocketCompare)\<close>, whose result is dereferenced.\<close>

definition find_client :: "int \<Rightarrow> 'w pstate \<Rightarrow> (nat \<times> 'w pstate) option" where
  "find_client sock st =
     map_option (\<lambda>i. (i, st\<lparr>ps_clients := clist_seek (\<lambda>c. clientSocketCompare c sock) (ps_clients st)\<rparr>))
       (clist_find (\<lambda>c. clientSocketCompare c sock) (ps_clients st))"

definition messageIDCompare :: "(addr \<rightharpoonup> Messages) \<Rightarrow> int \<Rightarrow> addr \<Rightarrow> bool" where
  "messageIDCompare msgs b a \<longleftrightarrow> (case msgs a of Some m \<Rightarrow> msg_msgid m = b | None \<Rightarrow> False)"

text \<open>
  Looking for a message id in a message list dereferences its elements.
\<close>

definition msgs_valid :: "'w pstate \<Rightarrow> addr clist \<Rightarrow> bool" where
  "msgs_valid st q \<longleftrightarrow> list_all (\<lambda>a. ps_msgs st a \<noteq> None) (elems q)"

definition find_msg :: "'w pstate \<Rightarrow> int \<Rightarrow> addr clist \<Rightarrow> nat option option" where
  "find_msg st msgid q =
     (if msgs_valid st q then Some (clist_find (messageIDCompare (ps_msgs st) msgid) q) else None)"

section \<open>Message ids\<close>

definition next_msgid :: "int \<Rightarrow> int" where
  "next_msgid msgid = (if msgid = MAX_MSG_ID then 1 else msgid + 1)"

text \<open>
  The loop of \<open>MQTTProtocol_assignMsgId\<close> over the outbound list, whose current element is the last
  message found; the loop may run forever, which is the value \<open>None\<close>.
\<close>

partial_function (option) assign_loop ::
    "(addr \<rightharpoonup> Messages) \<Rightarrow> int \<Rightarrow> int \<Rightarrow> addr clist \<Rightarrow> (int \<times> addr clist) option" where
  "assign_loop msgs start_msgid msgid q =
     (case clist_find (messageIDCompare msgs msgid) q of
        None \<Rightarrow> Some (msgid, q)
      | Some k \<Rightarrow>
          let q = q\<lparr>cursor := Some k\<rparr>; msgid = next_msgid msgid in
          if msgid = start_msgid then Some (0, q) else assign_loop msgs start_msgid msgid q)"

definition msg_ids :: "'w pstate \<Rightarrow> addr clist \<Rightarrow> int list" where
  "msg_ids st q = map (\<lambda>a. msg_msgid (the (ps_msgs st a))) (elems q)"

definition MQTTProtocol_assignMsgId :: "nat \<Rightarrow> 'w pstate \<Rightarrow> (int \<times> 'w pstate) option" where
  "MQTTProtocol_assignMsgId i st = do {
     let client = get_client i st;
     _ \<leftarrow> (if msgs_valid st (cl_outboundMsgs client) then Some () else None);
     (msgid, q) \<leftarrow> assign_loop (ps_msgs st) (cl_msgID client) (next_msgid (cl_msgID client)) (cl_outboundMsgs client);
     let client = client\<lparr>cl_outboundMsgs := q\<rparr>;
     Some (msgid, set_client i (if msgid \<noteq> 0 then client\<lparr>cl_msgID := msgid\<rparr> else client) st)
   }"

section \<open>Publications\<close>

definition c_strlen_int :: "bytes \<Rightarrow> int" where
  "c_strlen_int s = int (length (c_string s))"

text \<open>
  \<open>MQTTProtocol_storePublication\<close>: the topic is copied, or taken over when it is on the heap, which
  is the same by value. \<open>memcpy\<close> reads \<open>payloadlen\<close> bytes. The result is the length stored.
\<close>

definition MQTTProtocol_storePublication ::
    "'w proto_ops \<Rightarrow> Publish \<Rightarrow> addr \<Rightarrow> 'w pstate \<Rightarrow> (int \<times> 'w pstate) option" where
  "MQTTProtocol_storePublication po publish a st = do {
     topic \<leftarrow> pub_topic publish;
     payload \<leftarrow> (if 0 \<le> pub_payloadlen publish \<and> nat (pub_payloadlen publish) \<le> length (pub_payload publish)
                 then Some (take (nat (pub_payloadlen publish)) (pub_payload publish)) else None);
     let len = c_strlen_int topic + 1 + po_sizeof_Publications po + pub_payloadlen publish;
     Some (len, st\<lparr>ps_pubs := (ps_pubs st)(a \<mapsto> \<lparr>pbs_topic = c_string topic, pbs_topiclen = pub_topiclen publish,
                       pbs_payload = payload, pbs_payloadlen = pub_payloadlen publish, pbs_refcount = 1\<rparr>),
                    ps_publications := clist_append a (ps_publications st)\<rparr>)
   }"

text \<open>\<open>ListRemove\<close> of an address: the object is freed when it is in the list.\<close>

definition publications_remove :: "addr \<Rightarrow> 'w pstate \<Rightarrow> 'w pstate" where
  "publications_remove a st =
     (if clist_find (\<lambda>x. x = a) (ps_publications st) = None then st
      else st\<lparr>ps_pubs := (ps_pubs st)(a := None),
              ps_publications := clist_unlink (\<lambda>x. x = a) (ps_publications st)\<rparr>)"

definition MQTTProtocol_removePublication :: "addr \<Rightarrow> 'w pstate \<Rightarrow> 'w pstate option" where
  "MQTTProtocol_removePublication a st = do {
     p \<leftarrow> ps_pubs st a;
     let st = st\<lparr>ps_pubs := (ps_pubs st)(a \<mapsto> p\<lparr>pbs_refcount := pbs_refcount p - 1\<rparr>)\<rparr>;
     Some (if pbs_refcount p - 1 = 0 then publications_remove a st else st)
   }"

definition free_msg :: "addr \<Rightarrow> 'w pstate \<Rightarrow> 'w pstate" where
  "free_msg a st = st\<lparr>ps_msgs := (ps_msgs st)(a := None)\<rparr>"

text \<open>
  \<open>MQTTProtocol_createMessage\<close>: \<open>mm\<close> is the value of \<open>*mm\<close> before the call; the callers assign the
  result to it. \<open>next0\<close> is what \<open>nextMessageType\<close> holds when it is not set, for QoS 1.
\<close>

definition MQTTProtocol_createMessage ::
    "'w proto_ops \<Rightarrow> Publish \<Rightarrow> ptr \<Rightarrow> int \<Rightarrow> int \<Rightarrow> addr \<Rightarrow> addr \<Rightarrow> nat \<Rightarrow> 'w pstate \<Rightarrow> 'w pstate option" where
  "MQTTProtocol_createMessage po publish mm qos retained am ap next0 st = do {
     (pub, len, st) \<leftarrow> (case mm of
         None \<Rightarrow> do { (len1, st) \<leftarrow> MQTTProtocol_storePublication po publish ap st; Some (ap, len1, st) }
       | Some a \<Rightarrow> do {
           m \<leftarrow> ps_msgs st a;
           p \<leftarrow> ps_pubs st (msg_publish m);
           Some (msg_publish m, 0,
             st\<lparr>ps_pubs := (ps_pubs st)(msg_publish m \<mapsto> p\<lparr>pbs_refcount := pbs_refcount p + 1\<rparr>)\<rparr>)
         });
     Some (st\<lparr>ps_msgs := (ps_msgs st)(am \<mapsto> \<lparr>msg_qos = qos, msg_retain = retained, msg_msgid = pub_msgId publish,
        msg_publish = pub, msg_lastTouch = op_time (po_net po) (ps_world st),
        msg_nextMessageType = (if qos = 2 then PUBREC else next0), msg_len = po_sizeof_Messages po + len\<rparr>)\<rparr>)
   }"

section \<open>Sending\<close>

text \<open>A packet sent on the network handles of client \<open>i\<close>.\<close>

definition client_send ::
    "nat \<Rightarrow> (networkHandles \<Rightarrow> 'w \<Rightarrow> (int \<times> networkHandles \<times> 'w) option) \<Rightarrow> 'w pstate \<Rightarrow>
     (int \<times> 'w pstate) option" where
  "client_send i f st = do {
     (rc, net, w) \<leftarrow> f (cl_net (get_client i st)) (ps_world st);
     Some (rc, set_client i ((get_client i st)\<lparr>cl_net := net\<rparr>) (st\<lparr>ps_world := w\<rparr>))
   }"

definition MQTTProtocol_storeQoS0 ::
    "'w proto_ops \<Rightarrow> nat \<Rightarrow> Publish \<Rightarrow> addr \<Rightarrow> 'w pstate \<Rightarrow> 'w pstate option" where
  "MQTTProtocol_storeQoS0 po i publish ap st = do {
     (len, st) \<leftarrow> MQTTProtocol_storePublication po publish ap st;
     let sock = nh_socket (cl_net (get_client i st));
     p \<leftarrow> ps_pubs st ap;
     Some (st\<lparr>ps_pending_writes := clist_append (sock, ap) (ps_pending_writes st),
              ps_world := po_updateWrite po (ps_world st) sock (pbs_topic p) (pbs_payload p)\<rparr>)
   }"

definition MQTTProtocol_startPublishCommon ::
    "'w proto_ops \<Rightarrow> nat \<Rightarrow> Publish \<Rightarrow> int \<Rightarrow> int \<Rightarrow> addr \<Rightarrow> 'w pstate \<Rightarrow> (int \<times> 'w pstate) option" where
  "MQTTProtocol_startPublishCommon po i publish qos retained ap st = do {
     (rc, st) \<leftarrow> client_send i (MQTTPacket_send_publish (po_net po) publish 0 qos retained) st;
     if qos = 0 \<and> rc = TCPSOCKET_INTERRUPTED then do {
       st \<leftarrow> MQTTProtocol_storeQoS0 po i publish ap st;
       Some (rc, st)
     } else Some (rc, st)
   }"

text \<open>The value of \<open>*mm\<close> afterwards is the new message for a positive QoS, and \<open>mm\<close> otherwise.\<close>

definition MQTTProtocol_startPublish ::
    "'w proto_ops \<Rightarrow> nat \<Rightarrow> Publish \<Rightarrow> int \<Rightarrow> int \<Rightarrow> ptr \<Rightarrow> addr \<Rightarrow> addr \<Rightarrow> nat \<Rightarrow> 'w pstate \<Rightarrow>
     (int \<times> ptr \<times> 'w pstate) option" where
  "MQTTProtocol_startPublish po i publish qos retained mm am ap next0 st = do {
     (p, mm, st) \<leftarrow> (if qos > 0 then do {
         st \<leftarrow> MQTTProtocol_createMessage po publish mm qos retained am ap next0 st;
         m \<leftarrow> ps_msgs st am;
         pb \<leftarrow> ps_pubs st (msg_publish m);
         let client = get_client i st;
         Some (publish\<lparr>pub_payload := pbs_payload pb, pub_topic := Some (pbs_topic pb)\<rparr>, Some am,
               set_client i (client\<lparr>cl_outboundMsgs := clist_append am (cl_outboundMsgs client)\<rparr>) st)
       } else Some (publish, mm, st));
     (rc, st) \<leftarrow> MQTTProtocol_startPublishCommon po i p qos retained ap st;
     Some (rc, mm, st)
   }"

section \<open>Incoming packets\<close>

text \<open>
  The part of \<open>MQTTProtocol_handlePublishes\<close> that stores a QoS 2 message; \<open>am\<close> and \<open>ap\<close> are the
  addresses of the new message and publication.
\<close>

definition inbound_message :: "Publish \<Rightarrow> addr \<Rightarrow> Messages" where
  "inbound_message publish ap = \<lparr>msg_qos = int (hdr_qos (pub_header publish)),
     msg_retain = int (hdr_retain (pub_header publish)), msg_msgid = pub_msgId publish, msg_publish = ap,
     msg_lastTouch = 0, msg_nextMessageType = PUBREL, msg_len = 0\<rparr>"

definition inbound_store ::
    "'w proto_ops \<Rightarrow> nat \<Rightarrow> Publish \<Rightarrow> addr \<Rightarrow> addr \<Rightarrow> 'w pstate \<Rightarrow> 'w pstate option" where
  "inbound_store po i publish am ap st = do {
     (len, st) \<leftarrow> MQTTProtocol_storePublication po publish ap st;
     let st = st\<lparr>ps_msgs := (ps_msgs st)(am \<mapsto> inbound_message publish ap)\<rparr>;
     let client = get_client i st;
     let inb = cl_inboundMsgs client;
     found \<leftarrow> find_msg st (pub_msgId publish) inb;
     (case found of
        Some k \<Rightarrow> do {
          let old = elems inb ! k;
          msg \<leftarrow> ps_msgs st old;
          st \<leftarrow> MQTTProtocol_removePublication (msg_publish msg) st;
          let inb = clist_insert k am (inb\<lparr>cursor := Some k\<rparr>);
          let inb = clist_unlink (\<lambda>x. x = old) inb;
          Some (free_msg old (set_client i (client\<lparr>cl_inboundMsgs := inb\<rparr>) st))
        }
      | None \<Rightarrow> Some (set_client i (client\<lparr>cl_inboundMsgs := clist_append am inb\<rparr>) st))
   }"

definition MQTTProtocol_handlePublishes ::
    "'w proto_ops \<Rightarrow> Publish \<Rightarrow> int \<Rightarrow> addr \<Rightarrow> addr \<Rightarrow> 'w pstate \<Rightarrow> (int \<times> 'w pstate) option" where
  "MQTTProtocol_handlePublishes po publish sock am ap st = do {
     (i, st) \<leftarrow> find_client sock st;
     let qos = hdr_qos (pub_header publish);
     if qos = 0 then Some (TCPSOCKET_COMPLETE, po_process po publish i st)
     else if qos = 1 then do {
       (rc, st) \<leftarrow> client_send i (MQTTPacket_send_puback (po_net po) (pub_msgId publish)) st;
       Some (rc, po_process po publish i st)
     }
     else if qos = 2 then do {
       st \<leftarrow> inbound_store po i publish am ap st;
       client_send i (MQTTPacket_send_pubrec (po_net po) (pub_msgId publish)) st
     }
     else Some (TCPSOCKET_COMPLETE, st)
   }"

text \<open>Removing a message, with its publication, from the outbound list of client \<open>i\<close>.\<close>

definition outbound_remove :: "nat \<Rightarrow> addr \<Rightarrow> 'w pstate \<Rightarrow> 'w pstate option" where
  "outbound_remove i a st = do {
     m \<leftarrow> ps_msgs st a;
     st \<leftarrow> MQTTProtocol_removePublication (msg_publish m) st;
     let client = get_client i st;
     Some (free_msg a (set_client i
       (client\<lparr>cl_outboundMsgs := clist_unlink (\<lambda>x. x = a) (cl_outboundMsgs client)\<rparr>) st))
   }"

definition persist_remove ::
    "'w proto_ops \<Rightarrow> nat \<Rightarrow> string \<Rightarrow> int \<Rightarrow> int \<Rightarrow> 'w pstate \<Rightarrow> int \<times> 'w pstate" where
  "persist_remove po i kind qos msgid st =
     (let (rc, w) = po_persist_remove po (ps_world st) (get_client i st) kind qos msgid in (rc, st\<lparr>ps_world := w\<rparr>))"

text \<open>The outbound message with an id, which becomes the current element of the list.\<close>

definition seek_outbound :: "nat \<Rightarrow> int \<Rightarrow> 'w pstate \<Rightarrow> (addr option \<times> 'w pstate) option" where
  "seek_outbound i msgid st = do {
     let client = get_client i st;
     let q = cl_outboundMsgs client;
     found \<leftarrow> find_msg st msgid q;
     Some (case found of None \<Rightarrow> (None, st)
       | Some k \<Rightarrow> (Some (elems q ! k), set_client i (client\<lparr>cl_outboundMsgs := q\<lparr>cursor := Some k\<rparr>\<rparr>) st))
   }"

definition MQTTProtocol_handlePubacks :: "'w proto_ops \<Rightarrow> Ack \<Rightarrow> int \<Rightarrow> 'w pstate \<Rightarrow> (int \<times> 'w pstate) option" where
  "MQTTProtocol_handlePubacks po puback sock st = do {
     (i, st) \<leftarrow> find_client sock st;
     (found, st) \<leftarrow> seek_outbound i (ack_msgId puback) st;
     (case found of
        None \<Rightarrow> Some (TCPSOCKET_COMPLETE, st)
      | Some a \<Rightarrow> do {
          m \<leftarrow> ps_msgs st a;
          if msg_qos m \<noteq> 1 then Some (TCPSOCKET_COMPLETE, st)
          else do {
            let (rc, st) = persist_remove po i ''s-'' (msg_qos m) (ack_msgId puback) st;
            st \<leftarrow> outbound_remove i a st;
            Some (rc, st)
          }
        })
   }"

definition MQTTProtocol_handlePubrecs :: "'w proto_ops \<Rightarrow> Ack \<Rightarrow> int \<Rightarrow> 'w pstate \<Rightarrow> (int \<times> 'w pstate) option" where
  "MQTTProtocol_handlePubrecs po pubrec sock st = do {
     (i, st) \<leftarrow> find_client sock st;
     let client = get_client i st;
     let st = set_client i (client\<lparr>cl_outboundMsgs := (cl_outboundMsgs client)\<lparr>cursor := None\<rparr>\<rparr>) st;
     (found, st) \<leftarrow> seek_outbound i (ack_msgId pubrec) st;
     (case found of
        None \<Rightarrow> Some (TCPSOCKET_COMPLETE, st)
      | Some a \<Rightarrow> do {
          m \<leftarrow> ps_msgs st a;
          if msg_qos m \<noteq> 2 \<or> msg_nextMessageType m \<noteq> PUBREC then Some (TCPSOCKET_COMPLETE, st)
          else do {
            (rc, st) \<leftarrow> client_send i (MQTTPacket_send_pubrel (po_net po) (ack_msgId pubrec) 0) st;
            Some (rc, st\<lparr>ps_msgs := (ps_msgs st)(a \<mapsto> m\<lparr>msg_nextMessageType := PUBCOMP,
                         msg_lastTouch := op_time (po_net po) (ps_world st)\<rparr>)\<rparr>)
          }
        })
   }"

text \<open>
  What \<open>MQTTProtocol_handlePubrels\<close> does after sending the PUBCOMP, with the result \<open>rc\<close> of that: hand
  the message to the application and remove it.
\<close>

definition inbound_release ::
    "'w proto_ops \<Rightarrow> nat \<Rightarrow> int \<Rightarrow> addr \<Rightarrow> Messages \<Rightarrow> int \<Rightarrow> 'w pstate \<Rightarrow> (int \<times> 'w pstate) option" where
  "inbound_release po i msgId a m rc st = do {
     p \<leftarrow> ps_pubs st (msg_publish m);
     let publish = \<lparr>pub_header = mk_header 0 0 (msg_qos m) (msg_retain m), pub_topic = Some (pbs_topic p),
           pub_topiclen = pbs_topiclen p, pub_msgId = msg_msgid m, pub_payload = pbs_payload p,
           pub_payloadlen = pbs_payloadlen p\<rparr>;
     let st = po_process po publish i st;
     let (rc1, st) = persist_remove po i ''r-'' (msg_qos m) msgId st;
     let st = publications_remove (msg_publish m) st;
     let client = get_client i st;
     let st = set_client i (client\<lparr>cl_inboundMsgs := clist_unlink (\<lambda>x. x = a) (cl_inboundMsgs client)\<rparr>) st;
     let st = free_msg a st;
     Some (rc + rc1, st\<lparr>ps_msgs_received := ps_msgs_received st + 1\<rparr>)
   }"

definition MQTTProtocol_handlePubrels :: "'w proto_ops \<Rightarrow> Ack \<Rightarrow> int \<Rightarrow> 'w pstate \<Rightarrow> (int \<times> 'w pstate) option" where
  "MQTTProtocol_handlePubrels po pubrel sock st = do {
     (i, st) \<leftarrow> find_client sock st;
     let client = get_client i st;
     let inb = cl_inboundMsgs client;
     found \<leftarrow> find_msg st (ack_msgId pubrel) inb;
     (case found of
        None \<Rightarrow>
          if hdr_dup (ack_header pubrel) = 0 then Some (TCPSOCKET_COMPLETE, st)
          else client_send i (MQTTPacket_send_pubcomp (po_net po) (ack_msgId pubrel)) st
      | Some k \<Rightarrow> do {
          let a = elems inb ! k;
          let st = set_client i (client\<lparr>cl_inboundMsgs := inb\<lparr>cursor := Some k\<rparr>\<rparr>) st;
          m \<leftarrow> ps_msgs st a;
          if msg_qos m \<noteq> 2 \<or> msg_nextMessageType m \<noteq> PUBREL then Some (TCPSOCKET_COMPLETE, st)
          else do {
            (rc, st) \<leftarrow> client_send i (MQTTPacket_send_pubcomp (po_net po) (ack_msgId pubrel)) st;
            inbound_release po i (ack_msgId pubrel) a m rc st
          }
        })
   }"

definition MQTTProtocol_handlePubcomps :: "'w proto_ops \<Rightarrow> Ack \<Rightarrow> int \<Rightarrow> 'w pstate \<Rightarrow> (int \<times> 'w pstate) option" where
  "MQTTProtocol_handlePubcomps po pubcomp sock st = do {
     (i, st) \<leftarrow> find_client sock st;
     (found, st) \<leftarrow> seek_outbound i (ack_msgId pubcomp) st;
     (case found of
        None \<Rightarrow> Some (TCPSOCKET_COMPLETE, st)
      | Some a \<Rightarrow> do {
          m \<leftarrow> ps_msgs st a;
          if msg_qos m \<noteq> 2 \<or> msg_nextMessageType m \<noteq> PUBCOMP then Some (TCPSOCKET_COMPLETE, st)
          else do {
            let (rc, st) = persist_remove po i ''s-'' (msg_qos m) (ack_msgId pubcomp) st;
            st \<leftarrow> outbound_remove i a st;
            Some (rc, st\<lparr>ps_msgs_sent := ps_msgs_sent st + 1\<rparr>)
          }
        })
   }"

definition MQTTProtocol_handlePingresps :: "int \<Rightarrow> 'w pstate \<Rightarrow> (int \<times> 'w pstate) option" where
  "MQTTProtocol_handlePingresps sock st = do {
     (i, st) \<leftarrow> find_client sock st;
     Some (TCPSOCKET_COMPLETE, set_client i ((get_client i st)\<lparr>cl_ping_outstanding := False\<rparr>) st)
   }"

definition MQTTProtocol_handleSubacks :: "Suback \<Rightarrow> int \<Rightarrow> 'w pstate \<Rightarrow> (int \<times> 'w pstate) option" where
  "MQTTProtocol_handleSubacks suback sock st = do { (i, st) \<leftarrow> find_client sock st; Some (TCPSOCKET_COMPLETE, st) }"

definition MQTTProtocol_handleUnsubacks :: "Ack \<Rightarrow> int \<Rightarrow> 'w pstate \<Rightarrow> (int \<times> 'w pstate) option" where
  "MQTTProtocol_handleUnsubacks unsuback sock st = do { (i, st) \<leftarrow> find_client sock st; Some (TCPSOCKET_COMPLETE, st) }"

definition MQTTProtocol_subscribe ::
    "'w proto_ops \<Rightarrow> nat \<Rightarrow> bytes list \<Rightarrow> int list \<Rightarrow> int \<Rightarrow> 'w pstate \<Rightarrow> (int \<times> 'w pstate) option" where
  "MQTTProtocol_subscribe po i topics qoss msgID st =
     client_send i (MQTTPacket_send_subscribe (po_net po) topics qoss msgID 0) st"

definition MQTTProtocol_unsubscribe ::
    "'w proto_ops \<Rightarrow> nat \<Rightarrow> bytes list \<Rightarrow> int \<Rightarrow> 'w pstate \<Rightarrow> (int \<times> 'w pstate) option" where
  "MQTTProtocol_unsubscribe po i topics msgID st =
     client_send i (MQTTPacket_send_unsubscribe (po_net po) topics msgID 0) st"

section \<open>Keep alive and retries\<close>

text \<open>
  One client of the loop of \<open>MQTTProtocol_keepalive\<close>; times are in seconds.
\<close>

definition keepalive_due :: "int \<Rightarrow> Clients \<Rightarrow> bool" where
  "keepalive_due now client \<longleftrightarrow> cl_connected client \<and> cl_keepAliveInterval client > 0 \<and>
     (now - nh_lastSent (cl_net client) \<ge> cl_keepAliveInterval client \<or>
      now - nh_lastReceived (cl_net client) \<ge> cl_keepAliveInterval client)"

definition no_pending_writes :: "'w proto_ops \<Rightarrow> nat \<Rightarrow> 'w pstate \<Rightarrow> bool \<times> 'w pstate" where
  "no_pending_writes po i st =
     (let (b, w) = po_noPendingWrites po (ps_world st) (nh_socket (cl_net (get_client i st))) in (b, st\<lparr>ps_world := w\<rparr>))"

definition keepalive_client :: "'w proto_ops \<Rightarrow> int \<Rightarrow> nat \<Rightarrow> 'w pstate \<Rightarrow> 'w pstate option" where
  "keepalive_client po now i st =
     (if \<not> keepalive_due now (get_client i st) then Some st
      else if \<not> cl_ping_outstanding (get_client i st) then
        let (none, st) = no_pending_writes po i st in
        if \<not> none then Some st
        else do {
          (rc, st) \<leftarrow> client_send i (MQTTPacket_send_pingreq (po_net po)) st;
          if rc \<noteq> TCPSOCKET_COMPLETE then Some (po_closeSession po i st)
          else
            let client = get_client i st
            in Some (set_client i (client\<lparr>cl_net := (cl_net client)\<lparr>nh_lastSent := now\<rparr>, cl_ping_outstanding := True\<rparr>) st)
        }
      else Some (po_closeSession po i st))"

text \<open>The positions of the clients in turn; \<open>closeSession\<close> does not change the list.\<close>

fun each_client :: "(nat \<Rightarrow> 'w pstate \<Rightarrow> 'w pstate option) \<Rightarrow> nat list \<Rightarrow> 'w pstate \<Rightarrow> 'w pstate option" where
  "each_client f [] st = Some st"
| "each_client f (i # is) st = Option.bind (f i st) (each_client f is)"

definition MQTTProtocol_keepalive :: "'w proto_ops \<Rightarrow> int \<Rightarrow> 'w pstate \<Rightarrow> 'w pstate option" where
  "MQTTProtocol_keepalive po now st =
     each_client (keepalive_client po now) [0..<length (elems (ps_clients st))] st"

text \<open>
  The loop of \<open>MQTTProtocol_retries\<close> over the outbound messages from the current one on. Closing the
  session ends it.
\<close>

definition retry_publish :: "Messages \<Rightarrow> Publications \<Rightarrow> Publish" where
  "retry_publish m p = \<lparr>pub_header = 0, pub_topic = Some (pbs_topic p), pub_topiclen = pbs_topiclen p,
     pub_msgId = msg_msgid m, pub_payload = pbs_payload p, pub_payloadlen = pbs_payloadlen p\<rparr>"

definition touch :: "'w proto_ops \<Rightarrow> addr \<Rightarrow> 'w pstate \<Rightarrow> 'w pstate option" where
  "touch po a st = do {
     m \<leftarrow> ps_msgs st a;
     Some (st\<lparr>ps_msgs := (ps_msgs st)(a \<mapsto> m\<lparr>msg_lastTouch := op_time (po_net po) (ps_world st)\<rparr>)\<rparr>)
   }"

definition retry_fail :: "'w proto_ops \<Rightarrow> nat \<Rightarrow> 'w pstate \<Rightarrow> 'w pstate" where
  "retry_fail po i st = po_closeSession po i (set_client i ((get_client i st)\<lparr>cl_good := False\<rparr>) st)"

fun retries_loop :: "'w proto_ops \<Rightarrow> int \<Rightarrow> nat \<Rightarrow> bool \<Rightarrow> addr list \<Rightarrow> 'w pstate \<Rightarrow> 'w pstate option" where
  "retries_loop po now i regardless [] st = Some st"
| "retries_loop po now i regardless (a # as) st =
     (if \<not> (cl_connected (get_client i st) \<and> cl_good (get_client i st)) then Some st
      else let (none, st) = no_pending_writes po i st in
      if \<not> none then Some st
      else do {
        m \<leftarrow> ps_msgs st a;
        if regardless \<or> now - msg_lastTouch m > max (cl_retryInterval (get_client i st)) 10 then
          (if msg_qos m = 1 \<or> msg_qos m = 2 \<and> msg_nextMessageType m = PUBREC then do {
             p \<leftarrow> ps_pubs st (msg_publish m);
             (rc, st) \<leftarrow> client_send i (MQTTPacket_send_publish (po_net po) (retry_publish m p) 1 (msg_qos m) (msg_retain m)) st;
             if rc = SOCKET_ERROR then Some (retry_fail po i st)
             else do { st \<leftarrow> touch po a st; retries_loop po now i regardless as st }
           }
           else if msg_qos m \<noteq> 0 \<and> msg_nextMessageType m = PUBCOMP then do {
             (rc, st) \<leftarrow> client_send i (MQTTPacket_send_pubrel (po_net po) (msg_msgid m) 0) st;
             if rc \<noteq> TCPSOCKET_COMPLETE then Some (retry_fail po i st)
             else do { st \<leftarrow> touch po a st; retries_loop po now i regardless as st }
           }
           else retries_loop po now i regardless as st)
        else retries_loop po now i regardless as st
      })"

definition MQTTProtocol_retries ::
    "'w proto_ops \<Rightarrow> int \<Rightarrow> nat \<Rightarrow> bool \<Rightarrow> 'w pstate \<Rightarrow> 'w pstate option" where
  "MQTTProtocol_retries po now i regardless st =
     (if \<not> regardless \<and> cl_retryInterval (get_client i st) \<le> 0 then Some st
      else retries_loop po now i regardless (elems (cl_outboundMsgs (get_client i st))) st)"

definition retry_client :: "'w proto_ops \<Rightarrow> int \<Rightarrow> bool \<Rightarrow> bool \<Rightarrow> nat \<Rightarrow> 'w pstate \<Rightarrow> 'w pstate option" where
  "retry_client po now doRetry regardless i st =
     (if \<not> cl_connected (get_client i st) then Some st
      else if \<not> cl_good (get_client i st) then Some (po_closeSession po i st)
      else let (none, st) = no_pending_writes po i st in
        if \<not> none then Some st
        else if doRetry then MQTTProtocol_retries po now i regardless st else Some st)"

definition MQTTProtocol_retry :: "'w proto_ops \<Rightarrow> int \<Rightarrow> bool \<Rightarrow> bool \<Rightarrow> 'w pstate \<Rightarrow> 'w pstate option" where
  "MQTTProtocol_retry po now doRetry regardless st =
     each_client (retry_client po now doRetry regardless) [0..<length (elems (ps_clients st))] st"

section \<open>Freeing\<close>

fun empty_msgs_loop :: "addr list \<Rightarrow> 'w pstate \<Rightarrow> 'w pstate option" where
  "empty_msgs_loop [] st = Some st"
| "empty_msgs_loop (a # as) st = do {
     m \<leftarrow> ps_msgs st a;
     st \<leftarrow> MQTTProtocol_removePublication (msg_publish m) st;
     empty_msgs_loop as st
   }"

text \<open>The list is empty afterwards; the callers put the empty list in its place.\<close>

definition MQTTProtocol_emptyMessageList :: "addr clist \<Rightarrow> 'w pstate \<Rightarrow> (addr clist \<times> 'w pstate) option" where
  "MQTTProtocol_emptyMessageList msgList st = do {
     st \<leftarrow> empty_msgs_loop (elems msgList) st;
     Some (clist_empty, fold free_msg (elems msgList) st)
   }"

definition MQTTProtocol_freeMessageList :: "addr clist \<Rightarrow> 'w pstate \<Rightarrow> 'w pstate option" where
  "MQTTProtocol_freeMessageList msgList st = do { (q, st) \<leftarrow> MQTTProtocol_emptyMessageList msgList st; Some st }"

definition MQTTProtocol_freeClient :: "nat \<Rightarrow> 'w pstate \<Rightarrow> 'w pstate option" where
  "MQTTProtocol_freeClient i st = do {
     st \<leftarrow> MQTTProtocol_freeMessageList (cl_outboundMsgs (get_client i st)) st;
     st \<leftarrow> MQTTProtocol_freeMessageList (cl_inboundMsgs (get_client i st)) st;
     Some (set_client i ((get_client i st)\<lparr>cl_outboundMsgs := clist_empty, cl_inboundMsgs := clist_empty,
       cl_messageQueue := clist_empty, cl_clientID := [], cl_will := None\<rparr>) st)
   }"

section \<open>Strings and addresses\<close>

text \<open>
  \<open>MQTTStrncpy\<close>: the bytes written to \<open>dest\<close>, from a source that ends with its terminating zero. When
  that zero is copied, the zero after the loop is written behind it.
\<close>

fun strncpy_loop :: "nat \<Rightarrow> bytes \<Rightarrow> bytes option" where
  "strncpy_loop count [] = (if count > 1 then None else Some [0])"
| "strncpy_loop count (c # cs) =
     (if count > 1 then
        (if c = 0 then Some [0, 0] else map_option ((#) c) (strncpy_loop (count - 1) cs))
      else Some [0])"

definition MQTTStrncpy :: "bytes \<Rightarrow> nat \<Rightarrow> bytes option" where
  "MQTTStrncpy src dest_size = do {
     d \<leftarrow> strncpy_loop dest_size (src @ [0]);
     if length d \<le> dest_size then Some d else None
   }"

definition MQTTStrdup :: "bytes \<Rightarrow> bytes option" where
  "MQTTStrdup src = MQTTStrncpy src (length (c_string src) + 1)"

text \<open>\<open>strrchr\<close>, the last position of a character, and \<open>atoi\<close>.\<close>

definition c_strrchr :: "bytes \<Rightarrow> byte \<Rightarrow> nat option" where
  "c_strrchr s c = map_option (\<lambda>i. length (c_string s) - 1 - i) (find_index (\<lambda>x. x = c) (rev (c_string s)))"

definition is_digit :: "byte \<Rightarrow> bool" where
  "is_digit c \<longleftrightarrow> 48 \<le> unat c \<and> unat c \<le> 57"

definition digits_val :: "bytes \<Rightarrow> int" where
  "digits_val ds = foldl (\<lambda>n c. n * 10 + (int (unat c) - 48)) 0 ds"

definition c_atoi :: "bytes \<Rightarrow> int" where
  "c_atoi s =
     (let s = dropWhile (\<lambda>c. unat c = 32 \<or> 9 \<le> unat c \<and> unat c \<le> 13) s in
      case s of
        c # cs \<Rightarrow> if unat c = 45 then - digits_val (takeWhile is_digit cs)
                  else if unat c = 43 then digits_val (takeWhile is_digit cs)
                  else digits_val (takeWhile is_digit s)
      | [] \<Rightarrow> 0)"

text \<open>
  \<open>MQTTProtocol_addressPort\<close>: the address and the port. Characters: \<open>58\<close> is a colon, \<open>91\<close> and
  \<open>93\<close> are the brackets of an IPv6 address. A null pointer compares below every other.
\<close>

definition port_colon :: "bytes \<Rightarrow> nat option" where
  "port_colon uri =
     (let colon_pos = c_strrchr uri 58 in
      if uri \<noteq> [] \<and> uri ! 0 = 91 \<and>
         (case c_strrchr uri 93 of None \<Rightarrow> False
          | Some b \<Rightarrow> (case colon_pos of None \<Rightarrow> True | Some c \<Rightarrow> c < b))
      then None else colon_pos)"

definition MQTTProtocol_addressPort :: "bytes \<Rightarrow> (bytes \<times> int) option" where
  "MQTTProtocol_addressPort uri = do {
     let uri = c_string uri;
     (buf, port) \<leftarrow> (case port_colon uri of
         Some c \<Rightarrow> do { d \<leftarrow> MQTTStrncpy uri (c + 1); Some (c_string d, c_atoi (drop (c + 1) uri)) }
       | None \<Rightarrow> Some (uri, 1883));
     if buf = [] then None
     else Some (if last buf = 93 then butlast buf else buf, port)
   }"

definition MQTTProtocol_connect ::
    "'w proto_ops \<Rightarrow> bytes \<Rightarrow> nat \<Rightarrow> int \<Rightarrow> 'w pstate \<Rightarrow> (int \<times> 'w pstate) option" where
  "MQTTProtocol_connect po ip_address i MQTTVersion st = do {
     (addr, port) \<leftarrow> MQTTProtocol_addressPort ip_address;
     let (rc, sock, w) = po_socket_new po (ps_world st) addr port;
     let client = get_client i st;
     let client = client\<lparr>cl_good := True, cl_net := (cl_net client)\<lparr>nh_socket := sock\<rparr>\<rparr>;
     if rc = 115 \<or> rc = 11 then
       Some (rc, set_client i (client\<lparr>cl_connect_state := 1\<rparr>) (st\<lparr>ps_world := w\<rparr>))
     else if rc = 0 then do {
       (rc, client, w) \<leftarrow> MQTTPacket_send_connect (po_net po) client MQTTVersion w;
       Some (rc, set_client i (client\<lparr>cl_connect_state := (if rc = 0 then 3 else 0)\<rparr>) (st\<lparr>ps_world := w\<rparr>))
     }
     else Some (rc, set_client i client (st\<lparr>ps_world := w\<rparr>))
   }"

section \<open>Message ids: properties\<close>

text \<open>The \<open>k\<close>-th id tried after \<open>x\<close>.\<close>

definition nth_id :: "int \<Rightarrow> nat \<Rightarrow> int" where
  "nth_id x k = (x - 1 + int k) mod 65535 + 1"

text \<open>The valid ids.\<close>

definition valid_ids :: "int set" where
  "valid_ids = {x. 1 \<le> x \<and> x \<le> MAX_MSG_ID}"

lemma nth_id_range: "nth_id x k \<in> valid_ids"
  by (auto simp: nth_id_def valid_ids_def)

lemma next_msgid_valid: "x = 0 \<or> x \<in> valid_ids \<Longrightarrow> next_msgid x \<in> valid_ids"
  by (auto simp: next_msgid_def valid_ids_def)

lemma valid_not_0: "x \<in> valid_ids \<Longrightarrow> x \<noteq> 0"
  by (auto simp: valid_ids_def)

lemma nth_id_0: "x \<in> valid_ids \<Longrightarrow> nth_id x 0 = x"
  by (simp add: nth_id_def valid_ids_def)

lemma next_nth_id: "next_msgid (nth_id x k) = nth_id x (Suc k)"
proof -
  let ?r = "(x - 1 + int k) mod 65535"
  have r: "0 \<le> ?r" "?r < 65535" by simp_all
  have "(x - 1 + int (Suc k)) mod 65535 = (x - 1 + int k + 1) mod 65535" by (simp add: algebra_simps)
  also have "\<dots> = (?r + 1) mod 65535" by (rule mod_add_left_eq [symmetric])
  also have "\<dots> = (if ?r = 65534 then 0 else ?r + 1)" using r by auto
  finally show ?thesis by (auto simp: nth_id_def next_msgid_def)
qed

lemma nth_id_surj:
  assumes "y \<in> valid_ids"
  shows "\<exists>k<65535. nth_id x k = y"
proof -
  let ?k = "nat ((y - x) mod 65535)"
  have "(x - 1 + (y - x) mod 65535) mod 65535 = (y - 1) mod 65535"
    by (simp add: mod_add_right_eq)
  then have "nth_id x ?k = y" using assms by (simp add: nth_id_def valid_ids_def)
  moreover have "?k < 65535" by (simp add: nat_less_iff)
  ultimately show ?thesis by blast
qed

lemma nth_id_inj: "nth_id x j = nth_id x k \<Longrightarrow> j < 65535 \<Longrightarrow> k < 65535 \<Longrightarrow> j = k"
proof -
  assume a: "nth_id x j = nth_id x k" "j < 65535" "k < 65535"
  then have "(x - 1 + int j) mod 65535 = (x - 1 + int k) mod 65535" by (simp add: nth_id_def)
  then have "((x - 1 + int j) - (x - 1)) mod 65535 = ((x - 1 + int k) - (x - 1)) mod 65535"
    by (rule mod_diff_cong) simp
  with a show ?thesis by simp
qed

text \<open>A list of messages all in the store, and its ids.\<close>

definition holds_ids :: "(addr \<rightharpoonup> Messages) \<Rightarrow> addr list \<Rightarrow> int set \<Rightarrow> addr clist \<Rightarrow> bool" where
  "holds_ids msgs xs used q \<longleftrightarrow> elems q = xs \<and> cursor_in q \<and> list_all (\<lambda>a. msgs a \<noteq> None) xs \<and>
     used = set (map (\<lambda>a. msg_msgid (the (msgs a))) xs)"

lemma find_id_None: "holds_ids msgs xs used q \<Longrightarrow> clist_find (messageIDCompare msgs m) q = None \<longleftrightarrow> m \<notin> used"
proof -
  assume a: "holds_ids msgs xs used q"
  then have "messageIDCompare msgs m x \<longleftrightarrow> msg_msgid (the (msgs x)) = m" if "x \<in> set (elems q)" for x
    using that by (auto simp: holds_ids_def list_all_iff messageIDCompare_def split: option.splits)
  with a show ?thesis by (auto simp: holds_ids_def clist_find_None)
qed

lemma find_id_Some:
  assumes "holds_ids msgs xs used q" "m \<in> used"
  obtains k where "clist_find (messageIDCompare msgs m) q = Some k" "holds_ids msgs xs used (q\<lparr>cursor := Some k\<rparr>)"
proof -
  from find_id_None [OF assms(1)] assms(2) obtain k where k: "clist_find (messageIDCompare msgs m) q = Some k" by blast
  have "cursor_in (clist_seek (messageIDCompare msgs m) q)" by (rule cursor_in_seek) (use assms(1) in \<open>simp add: holds_ids_def\<close>)
  with k assms(1) that show thesis by (simp add: holds_ids_def clist_seek_def)
qed

lemma assign_loop_finds:
  assumes "k \<le> n" "nth_id x n \<notin> used" "\<And>j. k \<le> j \<Longrightarrow> j < n \<Longrightarrow> nth_id x j \<in> used"
    and "\<And>j. k < j \<Longrightarrow> j \<le> n \<Longrightarrow> nth_id x j \<noteq> start" and "holds_ids msgs xs used q"
  shows "\<exists>q'. assign_loop msgs start (nth_id x k) q = Some (nth_id x n, q') \<and> holds_ids msgs xs used q'"
  using assms
proof (induction "n - k" arbitrary: k q)
  case 0
  then show ?case using find_id_None [OF 0(6), of "nth_id x k"] by (simp add: assign_loop.simps)
next
  case (Suc d)
  from Suc(2) have k: "k < n" by simp
  from find_id_Some [OF Suc(7) Suc(5) [OF order_refl k]] obtain c where
    c: "clist_find (messageIDCompare msgs (nth_id x k)) q = Some c" "holds_ids msgs xs used (q\<lparr>cursor := Some c\<rparr>)" .
  have "\<exists>q'. assign_loop msgs start (nth_id x (Suc k)) (q\<lparr>cursor := Some c\<rparr>) = Some (nth_id x n, q') \<and> holds_ids msgs xs used q'"
    using Suc k c(2) by (intro Suc(1)) auto
  with k Suc(6) [of "Suc k"] c(1) show ?case
    by (subst assign_loop.simps) (simp add: next_nth_id Let_def)
qed

lemma assign_loop_exhausted:
  assumes "k < n" "nth_id x n = start" "\<And>j. k \<le> j \<Longrightarrow> j < n \<Longrightarrow> nth_id x j \<in> used"
    and "\<And>j. k < j \<Longrightarrow> j < n \<Longrightarrow> nth_id x j \<noteq> start" and "holds_ids msgs xs used q"
  shows "\<exists>q'. assign_loop msgs start (nth_id x k) q = Some (0, q') \<and> holds_ids msgs xs used q'"
  using assms
proof (induction "n - k" arbitrary: k q)
  case (Suc d)
  from find_id_Some [OF Suc(7) Suc(5) [OF order_refl Suc(3)]] obtain c where
    c: "clist_find (messageIDCompare msgs (nth_id x k)) q = Some c" "holds_ids msgs xs used (q\<lparr>cursor := Some c\<rparr>)" .
  show ?case
  proof (cases "Suc k = n")
    case True
    with Suc c show ?thesis by (subst assign_loop.simps) (simp add: next_nth_id Let_def)
  next
    case False
    then have "\<exists>q'. assign_loop msgs start (nth_id x (Suc k)) (q\<lparr>cursor := Some c\<rparr>) = Some (0, q') \<and> holds_ids msgs xs used q'"
      using Suc c(2) by (intro Suc(1)) auto
    with False Suc(3) Suc(6) [of "Suc k"] c(1) show ?thesis
      by (subst assign_loop.simps) (simp add: next_nth_id Let_def)
  qed
qed simp

lemma assign_loop_diverges:
  assumes "assign_loop msgs start msgid q = Some r"
  shows "start = 0 \<longrightarrow> msgid \<in> valid_ids \<longrightarrow> valid_ids \<subseteq> used \<longrightarrow> holds_ids msgs xs used q \<longrightarrow> False"
proof (rule assign_loop.raw_induct [OF _ assms, where P = "\<lambda>msgs start msgid q r.
    start = 0 \<longrightarrow> msgid \<in> valid_ids \<longrightarrow> valid_ids \<subseteq> used \<longrightarrow> holds_ids msgs xs used q \<longrightarrow> False"], intro impI)
  fix f msgs start msgid r and q :: "addr clist"
  assume IH: "\<And>msgs start msgid q r. f msgs start msgid q = Some r \<Longrightarrow>
      start = 0 \<longrightarrow> msgid \<in> valid_ids \<longrightarrow> valid_ids \<subseteq> used \<longrightarrow> holds_ids msgs xs used q \<longrightarrow> False"
    and eq: "(case clist_find (messageIDCompare msgs msgid) q of None \<Rightarrow> Some (msgid, q)
      | Some k \<Rightarrow> let q = q\<lparr>cursor := Some k\<rparr>; msgid = next_msgid msgid in
          if msgid = start then Some (0, q) else f msgs start msgid q) = Some r"
    and a: "start = 0" "msgid \<in> valid_ids" "valid_ids \<subseteq> used" "holds_ids msgs xs used q"
  have u: "msgid \<in> used" using a(2,3) by blast
  from find_id_Some [OF a(4) u] obtain c where
    c: "clist_find (messageIDCompare msgs msgid) q = Some c" "holds_ids msgs xs used (q\<lparr>cursor := Some c\<rparr>)" .
  have n: "next_msgid msgid \<in> valid_ids" using a(2) by (intro next_msgid_valid disjI2)
  with eq c a have "f msgs start (next_msgid msgid) (q\<lparr>cursor := Some c\<rparr>) = Some r" by (simp add: Let_def valid_not_0)
  from IH [OF this, rule_format, OF a(1) n a(3) c(2)] show False .
qed

text \<open>The outcome, for a start id in use before and for the initial 0.\<close>

lemma next_is_nth_id: "s = 0 \<or> s \<in> valid_ids \<Longrightarrow> next_msgid s = nth_id (next_msgid s) 0"
  by (intro nth_id_0 [symmetric] next_msgid_valid)

lemma nth_id_next_start: "s \<in> valid_ids \<Longrightarrow> nth_id (next_msgid s) 65534 = s"
proof -
  assume s: "s \<in> valid_ids"
  have "(s - 1 + 65535) mod 65535 = (s - 1) mod 65535" by (rule mod_add_self2)
  also have "\<dots> = s - 1" using s by (intro mod_pos_pos_trivial) (auto simp: valid_ids_def)
  finally have m: "(s - 1 + 65535) mod 65535 = s - 1" .
  show ?thesis
  proof (cases "s = 65535")
    case False
    then have "nth_id (next_msgid s) 65534 = (s - 1 + 65535) mod 65535 + 1"
      by (simp add: nth_id_def next_msgid_def algebra_simps)
    then show ?thesis unfolding m by simp
  qed (simp add: nth_id_def next_msgid_def)
qed

lemma assign_loop_start:
  assumes "s \<in> valid_ids" and q: "holds_ids msgs xs used q"
  shows "\<exists>r q'. assign_loop msgs s (next_msgid s) q = Some (r, q') \<and> holds_ids msgs xs used q' \<and>
    (r = 0 \<and> valid_ids - {s} \<subseteq> used \<or> r \<in> valid_ids - {s} - used)"
proof -
  define x where "x = next_msgid s"
  have x: "next_msgid s = nth_id x 0" using next_is_nth_id [of s] assms by (simp add: x_def)
  have last: "nth_id x 65534 = s" using nth_id_next_start [OF assms(1)] by (simp add: x_def)
  have other: "nth_id x j \<noteq> s" if "j < 65534" for j
    using nth_id_inj [of x j 65534] last that by auto
  show ?thesis
  proof (cases "\<exists>n<65534. nth_id x n \<notin> used")
    case True
    then obtain n where n: "n < 65534" "nth_id x n \<notin> used" "\<And>j. j < n \<Longrightarrow> nth_id x j \<in> used"
      using exists_least_iff [of "\<lambda>n. n < 65534 \<and> nth_id x n \<notin> used"] by auto
    then have "\<exists>q'. assign_loop msgs s (nth_id x 0) q = Some (nth_id x n, q') \<and> holds_ids msgs xs used q'"
      by (intro assign_loop_finds q) (auto simp: other)
    then show ?thesis using n other [of n] nth_id_range [of x n] by (auto simp: x)
  next
    case False
    then have "\<exists>q'. assign_loop msgs s (nth_id x 0) q = Some (0, q') \<and> holds_ids msgs xs used q'"
      by (intro assign_loop_exhausted [of 0 65534] q) (auto simp: last other)
    moreover have "valid_ids - {s} \<subseteq> used"
    proof
      fix y assume "y \<in> valid_ids - {s}"
      moreover from this obtain k where "k < 65535" "nth_id x k = y" using nth_id_surj by blast
      ultimately have "k \<noteq> 65534" using last by auto
      with \<open>k < 65535\<close> have "k < 65534" by simp
      with False \<open>nth_id x k = y\<close> show "y \<in> used" by auto
    qed
    ultimately show ?thesis by (auto simp: x)
  qed
qed

lemma assign_loop_start0:
  assumes "\<not> valid_ids \<subseteq> used" and q: "holds_ids msgs xs used q"
  shows "\<exists>r q'. assign_loop msgs 0 (next_msgid 0) q = Some (r, q') \<and> holds_ids msgs xs used q' \<and> r \<in> valid_ids - used"
proof -
  have x: "next_msgid 0 = nth_id 1 0" by (simp add: nth_id_0 next_msgid_def valid_ids_def)
  from assms obtain y where "y \<in> valid_ids" "y \<notin> used" by blast
  then obtain k where "nth_id 1 k \<notin> used" using nth_id_surj by metis
  then obtain n where n: "nth_id 1 n \<notin> used" "\<And>j. j < n \<Longrightarrow> nth_id 1 j \<in> used"
    using exists_least_iff [of "\<lambda>n. nth_id 1 n \<notin> used"] by auto
  have "nth_id 1 j \<noteq> 0" for j by (rule valid_not_0 [OF nth_id_range])
  with n have "\<exists>q'. assign_loop msgs 0 (nth_id 1 0) q = Some (nth_id 1 n, q') \<and> holds_ids msgs xs used q'"
    by (intro assign_loop_finds q) auto
  then show ?thesis using n nth_id_range [of 1 n] by (auto simp: x)
qed

lemma holds_ids_client:
  "msgs_valid st q \<Longrightarrow> cursor_in q \<Longrightarrow> holds_ids (ps_msgs st) (elems q) (set (msg_ids st q)) q"
  by (simp add: holds_ids_def msgs_valid_def msg_ids_def)

text \<open>
  C30. \<open>MQTTProtocol_assignMsgId\<close>, for a client that has been given an id before: it returns; the id it
  returns is between 1 and 65535, is not in use by an outbound message and becomes the client's
  current id; or it returns 0, leaves the current id, and every id but the current one is in use.
  The outbound messages stay as they are; only the position of the list moves. The
  current id itself is never tried, so 0 is returned also when that id is free.
\<close>

theorem assignMsgId_fresh:
  assumes "msgs_valid st (cl_outboundMsgs (get_client i st))" and "cursor_in (cl_outboundMsgs (get_client i st))"
    and "cl_msgID (get_client i st) \<in> valid_ids"
  shows "\<exists>r q c. MQTTProtocol_assignMsgId i st = Some (r, set_client i c st) \<and>
    elems q = elems (cl_outboundMsgs (get_client i st)) \<and>
    (r = 0 \<and> c = (get_client i st)\<lparr>cl_outboundMsgs := q\<rparr> \<and>
       valid_ids - {cl_msgID (get_client i st)} \<subseteq> set (msg_ids st (cl_outboundMsgs (get_client i st))) \<or>
     r \<in> valid_ids \<and> r \<noteq> cl_msgID (get_client i st) \<and>
       r \<notin> set (msg_ids st (cl_outboundMsgs (get_client i st))) \<and>
       c = (get_client i st)\<lparr>cl_outboundMsgs := q, cl_msgID := r\<rparr>)"
proof -
  let ?c = "get_client i st" and ?q = "cl_outboundMsgs (get_client i st)"
  from assign_loop_start [OF assms(3) holds_ids_client [OF assms(1,2)]] obtain r q where
    r: "assign_loop (ps_msgs st) (cl_msgID ?c) (next_msgid (cl_msgID ?c)) ?q = Some (r, q)"
    "elems q = elems ?q" "r = 0 \<and> valid_ids - {cl_msgID ?c} \<subseteq> set (msg_ids st ?q) \<or>
     r \<in> valid_ids - {cl_msgID ?c} - set (msg_ids st ?q)"
    unfolding holds_ids_def by blast
  then show ?thesis using assms(1) valid_not_0 [of r]
    by (cases "r = 0") (auto simp: MQTTProtocol_assignMsgId_def)
qed

text \<open>
  \<open>MQTTProtocol_assignMsgId\<close>, for a client with no id yet (its current id is 0, as after creation): it
  returns a valid id that is not in use, when there is one; when all 65535 ids are in use, which
  restored messages can bring about, the loop never comes back to the start and does not end.
\<close>

theorem assignMsgId_initial:
  assumes "msgs_valid st (cl_outboundMsgs (get_client i st))" and "cursor_in (cl_outboundMsgs (get_client i st))"
    and "cl_msgID (get_client i st) = 0"
  shows "if valid_ids \<subseteq> set (msg_ids st (cl_outboundMsgs (get_client i st)))
    then MQTTProtocol_assignMsgId i st = None
    else \<exists>r q. r \<in> valid_ids \<and> r \<notin> set (msg_ids st (cl_outboundMsgs (get_client i st))) \<and>
      elems q = elems (cl_outboundMsgs (get_client i st)) \<and>
      MQTTProtocol_assignMsgId i st =
        Some (r, set_client i ((get_client i st)\<lparr>cl_outboundMsgs := q, cl_msgID := r\<rparr>) st)"
proof (cases "valid_ids \<subseteq> set (msg_ids st (cl_outboundMsgs (get_client i st)))")
  case True
  have "next_msgid 0 \<in> valid_ids" by (rule next_msgid_valid) simp
  then have "assign_loop (ps_msgs st) 0 (next_msgid 0) (cl_outboundMsgs (get_client i st)) = None"
    using assign_loop_diverges [of "ps_msgs st" 0 "next_msgid 0" "cl_outboundMsgs (get_client i st)"]
      True holds_ids_client [OF assms(1,2)]
    by (cases "assign_loop (ps_msgs st) 0 (next_msgid 0) (cl_outboundMsgs (get_client i st))") blast+
  with True assms show ?thesis by (simp add: MQTTProtocol_assignMsgId_def)
next
  case False
  from assign_loop_start0 [OF this holds_ids_client [OF assms(1,2)]] obtain r q where
    "assign_loop (ps_msgs st) 0 (next_msgid 0) (cl_outboundMsgs (get_client i st)) = Some (r, q)"
    "r \<in> valid_ids - set (msg_ids st (cl_outboundMsgs (get_client i st)))"
    "elems q = elems (cl_outboundMsgs (get_client i st))" unfolding holds_ids_def by blast
  with False assms valid_not_0 [of r] show ?thesis by (auto simp: MQTTProtocol_assignMsgId_def)
qed

definition demo_client :: "int \<Rightarrow> addr list \<Rightarrow> Clients" where
  "demo_client msgid out = \<lparr>cl_clientID = [0x61], cl_username = None, cl_password = None, cl_cleansession = True,
     cl_connected = True, cl_good = True, cl_ping_outstanding = False, cl_connect_state = 0,
     cl_net = \<lparr>nh_socket = 5, nh_lastSent = 0, nh_lastReceived = 0\<rparr>, cl_msgID = msgid, cl_keepAliveInterval = 60,
     cl_retryInterval = 20, cl_maxInflightMessages = 10, cl_will = None, cl_inboundMsgs = clist_empty,
     cl_outboundMsgs = \<lparr>elems = out, cursor = None\<rparr>, cl_messageQueue = clist_empty, cl_qentry_seqno = 0,
     cl_phandle = [], cl_persistence = False, cl_MQTTVersion = 4\<rparr>"

definition demo_msg :: "int \<Rightarrow> Messages" where
  "demo_msg msgid = \<lparr>msg_qos = 1, msg_retain = 0, msg_msgid = msgid, msg_publish = 70, msg_lastTouch = 0,
     msg_nextMessageType = 0, msg_len = 0\<rparr>"

definition demo_pstate :: "int \<Rightarrow> 'w \<Rightarrow> 'w pstate" where
  "demo_pstate msgid w = \<lparr>ps_clients = \<lparr>elems = [demo_client msgid [60]], cursor = None\<rparr>,
     ps_msgs = [60 \<mapsto> demo_msg 1], ps_pubs = Map.empty, ps_publications = clist_empty,
     ps_pending_writes = clist_empty, ps_msgs_received = 0, ps_msgs_sent = 0, ps_world = w\<rparr>"

lemma demo_assign:
  "msgs_valid (demo_pstate k w) (cl_outboundMsgs (get_client 0 (demo_pstate k w)))"
  "cursor_in (cl_outboundMsgs (get_client 0 (demo_pstate k w)))"
  "cl_msgID (get_client 0 (demo_pstate k w)) = k"
  "set (msg_ids (demo_pstate k w) (cl_outboundMsgs (get_client 0 (demo_pstate k w)))) = {1}"
  by (simp_all add: msgs_valid_def demo_pstate_def demo_client_def msg_ids_def demo_msg_def cursor_in_def)

theorem assignMsgId_fresh_witness:
  "\<exists>r st'. MQTTProtocol_assignMsgId 0 (demo_pstate 65535 ()) = Some (r, st') \<and> (r = 0 \<or> r \<in> valid_ids \<and> r \<noteq> 1)"
proof -
  have "65535 \<in> valid_ids" by (simp add: valid_ids_def)
  with assignMsgId_fresh [of "demo_pstate 65535 ()" 0] demo_assign [of 65535 "()"] show ?thesis by auto
qed

theorem assignMsgId_initial_witness:
  "\<exists>r st'. r \<in> valid_ids \<and> r \<noteq> 1 \<and> MQTTProtocol_assignMsgId 0 (demo_pstate 0 ()) = Some (r, st')"
proof -
  have "\<not> valid_ids \<subseteq> {1}"
  proof
    assume "valid_ids \<subseteq> {1}"
    moreover have "2 \<in> valid_ids" by (simp add: valid_ids_def)
    ultimately show False by auto
  qed
  then show ?thesis using assignMsgId_initial [of "demo_pstate 0 ()" 0] demo_assign [of 0 "()"] by auto
qed

end
