(* ===== verification/MessageLists.thy ===== *)
theory MessageLists
  imports Protocol
begin

text \<open>
  Lemmas shared by the properties of the protocol's exchanges: what is assumed of the layers around the
  protocol, the contents of a message list as a list of entries (message and publication), how the list
  operations change them, and which client a socket belongs to.
\<close>

section \<open>The environment\<close>

text \<open>
  What the protocol relies on of the layers around it, \<open>delivered\<close> being the messages handed to the
  application so far: writing a packet returns, and neither that nor persistence delivers anything;
  processing a publication delivers it, and may queue it for the client, but touches no message list.
\<close>

definition env_ok :: "'w proto_ops \<Rightarrow> ('w \<Rightarrow> Publish list) \<Rightarrow> bool" where
  "env_ok po delivered \<longleftrightarrow>
     (\<forall>w s b bs fr. length bs \<le> 4 \<longrightarrow>
        (\<exists>rc w'. op_putdatas (po_net po) w s b bs fr = Some (rc, w') \<and> delivered w' = delivered w)) \<and>
     (\<forall>w s b bs t m r. delivered (snd (op_persist_put (po_net po) w s b bs t m r)) = delivered w) \<and>
     (\<forall>w c k q m. delivered (snd (po_persist_remove po w c k q m)) = delivered w) \<and>
     (\<forall>p i st. \<exists>w' q. po_process po p i st =
        set_client i ((get_client i st)\<lparr>cl_messageQueue := q\<rparr>) (st\<lparr>ps_world := w'\<rparr>) \<and>
        delivered w' = delivered (ps_world st) @ [p])"

lemma env_ok_puts:
  assumes "env_ok po delivered"
  shows "length bs \<le> 4 \<Longrightarrow> \<exists>rc w'. op_putdatas (po_net po) w s b bs fr = Some (rc, w') \<and> delivered w' = delivered w"
    and "delivered (snd (op_persist_put (po_net po) w s b bs t m r)) = delivered w"
    and "delivered (snd (po_persist_remove po w c k q m)) = delivered w"
  using assms unfolding env_ok_def by (elim conjE; fast)+

lemma send_ok:
  assumes "env_ok po delivered" "hdr_type h = PUBREL \<longrightarrow> 2 \<le> length buffer"
  shows "\<exists>rc net' w'. MQTTPacket_send (po_net po) net h buffer fr w = Some (rc, net', w') \<and>
    nh_socket net' = nh_socket net \<and> delivered w' = delivered w"
proof -
  let ?buf = "h # MQTTPacket_encode (length buffer)"
  have "\<exists>w1. (if hdr_type h = PUBREL then do {
             (msgId, ptraux) \<leftarrow> readInt buffer 0;
             Some (snd (op_persist_put (po_net po) w (nh_socket net) ?buf [buffer] (hdr_type h) msgId 0))
           } else Some w) = Some w1 \<and> delivered w1 = delivered w"
    using assms env_ok_puts(2) [OF assms(1)] by (auto simp: readInt_Some)
  then obtain w1 where w1: "(if hdr_type h = PUBREL then do {
             (msgId, ptraux) \<leftarrow> readInt buffer 0;
             Some (snd (op_persist_put (po_net po) w (nh_socket net) ?buf [buffer] (hdr_type h) msgId 0))
           } else Some w) = Some w1" "delivered w1 = delivered w" by blast
  obtain rc w' where "op_putdatas (po_net po) w1 (nh_socket net) ?buf [buffer] [fr] = Some (rc, w')"
      "delivered w' = delivered w1"
    using env_ok_puts(1) [OF assms(1), of "[buffer]" w1 "nh_socket net" ?buf "[fr]"] by auto
  with w1 show ?thesis by (simp add: MQTTPacket_send_def)
qed

lemma send_ack_ok:
  assumes "env_ok po delivered"
  shows "\<exists>rc net' w'. MQTTPacket_send_ack (po_net po) t m d net w = Some (rc, net', w') \<and>
    nh_socket net' = nh_socket net \<and> delivered w' = delivered w"
  using send_ok [OF assms, where buffer = "int_bytes m"]
  by (simp add: MQTTPacket_send_ack_def writeInt_put wb_put_malloc Let_def)

lemma env_ok_process:
  assumes "env_ok po delivered"
  obtains w' q where "po_process po p i st = set_client i ((get_client i st)\<lparr>cl_messageQueue := q\<rparr>) (st\<lparr>ps_world := w'\<rparr>)"
    "delivered w' = delivered (ps_world st) @ [p]"
proof -
  from assms have "\<forall>p i st. \<exists>w' q. po_process po p i st =
        set_client i ((get_client i st)\<lparr>cl_messageQueue := q\<rparr>) (st\<lparr>ps_world := w'\<rparr>) \<and>
        delivered w' = delivered (ps_world st) @ [p]"
    unfolding env_ok_def by (elim conjE)
  from this [rule_format, of p i st] that show thesis by blast
qed

section \<open>Entries\<close>

lemma send_ack_eqs:
  "MQTTPacket_send_puback ops m = MQTTPacket_send_ack ops PUBACK m 0"
  "MQTTPacket_send_pubrec ops m = MQTTPacket_send_ack ops PUBREC m 0"
  "MQTTPacket_send_pubrel ops m d = MQTTPacket_send_ack ops PUBREL m d"
  "MQTTPacket_send_pubcomp ops m = MQTTPacket_send_ack ops PUBCOMP m 0"
  by (simp_all add: fun_eq_iff MQTTPacket_send_puback_def MQTTPacket_send_pubrec_def MQTTPacket_send_pubrel_def
      MQTTPacket_send_pubcomp_def)

text \<open>
  The entries of a message list: the address of a message, the message and its publication, which no
  other message uses.
\<close>

type_synonym entry = "addr \<times> Messages \<times> Publications"

definition eid :: "entry \<Rightarrow> int" where "eid e = msg_msgid (fst (snd e))"
definition epub :: "entry \<Rightarrow> addr" where "epub e = msg_publish (fst (snd e))"

definition entry_ok :: "'w pstate \<Rightarrow> entry \<Rightarrow> bool" where
  "entry_ok st e \<longleftrightarrow> ps_msgs st (fst e) = Some (fst (snd e)) \<and> ps_pubs st (epub e) = Some (snd (snd e)) \<and>
     pbs_refcount (snd (snd e)) = 1"

definition list_holds :: "'w pstate \<Rightarrow> addr clist \<Rightarrow> entry list \<Rightarrow> bool" where
  "list_holds st q ms \<longleftrightarrow> elems q = map fst ms \<and> cursor_in q \<and> (\<forall>e\<in>set ms. entry_ok st e) \<and>
     distinct (map fst ms) \<and> distinct (map eid ms) \<and> distinct (map epub ms)"

definition pubs_ok :: "'w pstate \<Rightarrow> bool" where
  "pubs_ok st \<longleftrightarrow> cursor_in (ps_publications st) \<and> distinct (elems (ps_publications st)) \<and>
     set (elems (ps_publications st)) = dom (ps_pubs st)"

text \<open>Looking for an id finds the entry with it.\<close>

lemma find_msg_entries:
  assumes "list_holds st q ms"
  shows "find_msg st k q = Some (find_index (\<lambda>e. eid e = k) ms)"
proof -
  have valid: "msgs_valid st q"
    using assms by (auto simp: list_holds_def msgs_valid_def list_all_iff entry_ok_def)
  have P: "messageIDCompare (ps_msgs st) k (fst e) \<longleftrightarrow> eid e = k" if "e \<in> set ms" for e
    using assms that by (auto simp: list_holds_def entry_ok_def messageIDCompare_def eid_def)
  have fi: "find_index (messageIDCompare (ps_msgs st) k) (map fst xs) = find_index (\<lambda>e. eid e = k) xs"
    if "set xs \<subseteq> set ms" for xs using that P by (induction xs) auto
  have "clist_find (messageIDCompare (ps_msgs st) k) q = find_index (\<lambda>e. eid e = k) ms"
  proof (cases "cursor q")
    case None
    with assms fi [of ms] show ?thesis by (simp add: clist_find_def list_holds_def)
  next
    case (Some i)
    then have i: "i < length ms" "elems q ! i = fst (ms ! i)"
      using assms by (auto simp: list_holds_def cursor_in_def)
    show ?thesis
    proof (cases "eid (ms ! i) = k")
      case True
      then have "find_index (\<lambda>e. eid e = k) ms = Some i"
        using i assms nth_eq_iff_index_eq [of "map eid ms"]
        by (intro find_index_unique) (auto simp: list_holds_def)
      with Some i P [of "ms ! i"] True show ?thesis by (simp add: clist_find_def)
    next
      case False
      with Some i P [of "ms ! i"] fi [of ms] assms show ?thesis by (simp add: clist_find_def list_holds_def)
    qed
  qed
  with valid show ?thesis by (simp add: find_msg_def)
qed

text \<open>Adding, replacing and removing an entry.\<close>

lemma list_holds_append:
  assumes "list_holds st q ms" "entry_ok st' e" "\<And>x. x \<in> set ms \<Longrightarrow> entry_ok st' x"
    and "fst e \<notin> fst ` set ms" "eid e \<notin> eid ` set ms" "epub e \<notin> epub ` set ms"
  shows "list_holds st' (clist_append (fst e) q) (ms @ [e])"
  using assms by (auto simp: list_holds_def clist_append_def cursor_in_def split: option.splits)

lemma list_holds_frame:
  assumes "list_holds st q ms" "\<And>x. x \<in> set ms \<Longrightarrow> entry_ok st' x" "elems q' = elems q" "cursor_in q'"
  shows "list_holds st' q' ms"
  using assms by (auto simp: list_holds_def)

lemma list_holds_remove:
  assumes "list_holds st q ms" "k < length ms" "\<And>j. j < length ms \<Longrightarrow> j \<noteq> k \<Longrightarrow> entry_ok st' (ms ! j)"
  shows "list_holds st' (clist_unlink (\<lambda>x. x = fst (ms ! k)) q) (remove_nth k ms)"
proof -
  have d: "distinct (elems q)" "cursor_in q" "elems q = map fst ms" using assms(1) by (auto simp: list_holds_def)
  have "elems (clist_unlink (\<lambda>x. x = fst (ms ! k)) q) = map fst (remove_nth k ms)"
    using unlink_elem(3) [OF d(1,2), of k] assms(2) d(3) by (simp add: map_remove_nth)
  moreover have "entry_ok st' x" if x: "x \<in> set (remove_nth k ms)" for x
  proof -
    have "distinct ms" using assms(1) by (auto simp: list_holds_def distinct_map)
    with x set_remove_nth [OF this assms(2)] obtain j where "j < length ms" "ms ! j = x" "x \<noteq> ms ! k"
      by (auto simp: in_set_conv_nth)
    then show ?thesis using assms(3) [of j] by auto
  qed
  ultimately show ?thesis
    using assms(1) cursor_in_unlink [OF d(2)] by (auto simp: list_holds_def map_remove_nth intro!: distinct_remove_nth)
qed

lemma replace_elems:
  assumes "k < length (elems q)" "distinct (elems q)" "a \<notin> set (elems q)"
  shows "elems (clist_unlink (\<lambda>x. x = elems q ! k) (clist_insert k a (q\<lparr>cursor := Some k\<rparr>))) = (elems q)[k := a]"
    and "cursor_in (clist_unlink (\<lambda>x. x = elems q ! k) (clist_insert k a (q\<lparr>cursor := Some k\<rparr>)))"
proof -
  let ?q = "clist_insert k a (q\<lparr>cursor := Some k\<rparr>)"
  have e: "elems ?q = take k (elems q) @ a # drop k (elems q)" "cursor ?q = Some (Suc k)"
    by (simp_all add: clist_insert_def)
  have n: "elems ?q ! Suc k = elems q ! k" "length (elems ?q) = Suc (length (elems q))"
    using assms(1) by (simp_all add: e nth_append)
  then have c: "cursor_in ?q" using assms(1) by (simp add: cursor_in_def e(2))
  have "distinct (take k (elems q) @ drop k (elems q))" using assms(2) by simp
  then have d: "distinct (elems ?q)"
    using assms(3) unfolding distinct_append by (auto simp: e(1) dest: in_set_takeD in_set_dropD)
  have "elems (clist_unlink (\<lambda>x. x = elems q ! k) ?q) = remove_nth (Suc k) (elems ?q)"
    by (rule unlink_elem(3) [OF d c]) (use n assms(1) in simp_all)
  also have "\<dots> = (elems q)[k := a]"
    using assms(1) by (simp add: e(1) remove_nth_def upd_conv_take_nth_drop Suc_diff_le)
  finally show "elems (clist_unlink (\<lambda>x. x = elems q ! k) ?q) = (elems q)[k := a]" .
  show "cursor_in (clist_unlink (\<lambda>x. x = elems q ! k) ?q)" by (rule cursor_in_unlink [OF c])
qed

lemma list_holds_replace:
  assumes "list_holds st q ms" "k < length ms" "\<And>j. j < length ms \<Longrightarrow> j \<noteq> k \<Longrightarrow> entry_ok st' (ms ! j)"
    and "entry_ok st' e" "fst e \<notin> fst ` set ms" "eid e = eid (ms ! k)" "epub e \<notin> epub ` set ms"
  shows "list_holds st' (clist_unlink (\<lambda>x. x = fst (ms ! k)) (clist_insert k (fst e) (q\<lparr>cursor := Some k\<rparr>))) (ms[k := e])"
proof -
  have d: "distinct (elems q)" "elems q = map fst ms" using assms(1) by (auto simp: list_holds_def)
  have ok: "entry_ok st' x" if "x \<in> set (ms[k := e])" for x
  proof -
    from that obtain j where "j < length ms" "x = ms[k := e] ! j" by (auto simp: in_set_conv_nth)
    then show ?thesis using assms(2-4) by (cases "j = k") auto
  qed
  have "distinct (map fst (ms[k := e]))" "distinct (map epub (ms[k := e]))"
    using assms(1,2,5,7) by (auto simp: list_holds_def map_update intro!: distinct_list_update dest: in_set_takeD in_set_dropD)
  moreover have "map eid (ms[k := e]) = map eid ms"
    using assms(2,6) by (metis length_map list_update_id map_update nth_map)
  ultimately show ?thesis
    using replace_elems [of k q "fst e"] d assms(1,2,5) ok by (simp add: list_holds_def map_update)
qed

text \<open>The client that a socket belongs to, and updates of it.\<close>

definition client_at :: "'w pstate \<Rightarrow> int \<Rightarrow> nat \<Rightarrow> bool" where
  "client_at st sock i \<longleftrightarrow> i < length (elems (ps_clients st)) \<and> nh_socket (cl_net (get_client i st)) = sock \<and>
     clist_find (\<lambda>c. clientSocketCompare c sock) (ps_clients st) = Some i"

lemma set_client_simps [simp]:
  "ps_msgs (set_client i c st) = ps_msgs st" "ps_pubs (set_client i c st) = ps_pubs st"
  "ps_publications (set_client i c st) = ps_publications st" "ps_world (set_client i c st) = ps_world st"
  "cursor (ps_clients (set_client i c st)) = cursor (ps_clients st)"
  "length (elems (ps_clients (set_client i c st))) = length (elems (ps_clients st))"
  "i < length (elems (ps_clients st)) \<Longrightarrow> get_client i (set_client i c st) = c"
  by (simp_all add: set_client_def)

lemma find_client_at:
  assumes "client_at st sock i"
  shows "find_client sock st = Some (i, st\<lparr>ps_clients := (ps_clients st)\<lparr>cursor := Some i\<rparr>\<rparr>)"
  using assms by (simp add: client_at_def find_client_def clist_seek_def)

lemma client_atI:
  assumes "cursor (ps_clients st) = Some i" "i < length (elems (ps_clients st))"
    and "nh_socket (cl_net (get_client i st)) = sock"
  shows "client_at st sock i"
  using assms by (simp add: client_at_def clist_find_def clientSocketCompare_def)

lemma client_at_update:
  assumes "client_at st sock i" "ps_clients st' = ps_clients (set_client i c st)" "nh_socket (cl_net c) = sock"
  shows "client_at st' sock i"
proof -
  let ?P = "\<lambda>c. clientSocketCompare c sock" and ?xs = "elems (ps_clients st)"
  from assms(1) have i: "i < length ?xs" "nh_socket (cl_net (?xs ! i)) = sock" "clist_find ?P (ps_clients st) = Some i"
    by (simp_all add: client_at_def)
  have P: "?P (?xs[i := c] ! j) = ?P (?xs ! j)" if "j < length ?xs" for j
    using i assms(3) that by (cases "j = i") (simp_all add: clientSocketCompare_def)
  have "map ?P (?xs[i := c]) = map ?P ?xs" by (rule nth_equalityI) (simp_all add: P)
  then have fi: "find_index ?P (?xs[i := c]) = find_index ?P ?xs" by (metis find_index_map [where P = id, simplified])
  have "clist_find ?P (ps_clients st') = Some i"
  proof (cases "cursor (ps_clients st)")
    case None
    with fi i(3) show ?thesis by (simp add: assms(2) clist_find_def set_client_def)
  next
    case (Some j)
    show ?thesis
    proof (cases "j < length ?xs")
      case True
      with fi i(3) P [OF True] Some show ?thesis by (simp add: assms(2) clist_find_def set_client_def split: if_splits)
    next
      case False
      with fi i(3) Some i(1) show ?thesis by (auto simp: assms(2) clist_find_def set_client_def list_update_beyond nth_list_update)
    qed
  qed
  with i assms show ?thesis by (simp add: client_at_def)
qed

lemma client_send_ok:
  assumes "\<exists>rc net' w'. f (cl_net (get_client i st)) (ps_world st) = Some (rc, net', w') \<and>
      nh_socket net' = nh_socket (cl_net (get_client i st)) \<and> delivered w' = delivered (ps_world st)"
  obtains rc net' w' where
    "client_send i f st = Some (rc, set_client i ((get_client i st)\<lparr>cl_net := net'\<rparr>) (st\<lparr>ps_world := w'\<rparr>))"
    "nh_socket net' = nh_socket (cl_net (get_client i st))" "delivered w' = delivered (ps_world st)"
  using assms by (auto simp: client_send_def)

lemma pubs_ok_remove:
  assumes "pubs_ok st" "a \<in> dom (ps_pubs st)"
  shows "publications_remove a st = st\<lparr>ps_pubs := (ps_pubs st)(a := None),
      ps_publications := clist_unlink (\<lambda>x. x = a) (ps_publications st)\<rparr>"
    and "pubs_ok (publications_remove a st)"
proof -
  have d: "distinct (elems (ps_publications st))" "cursor_in (ps_publications st)" using assms(1) by (auto simp: pubs_ok_def)
  show eq: "publications_remove a st = st\<lparr>ps_pubs := (ps_pubs st)(a := None),
      ps_publications := clist_unlink (\<lambda>x. x = a) (ps_publications st)\<rparr>"
    using find_elem(1) [OF d, of a] assms by (auto simp: publications_remove_def pubs_ok_def)
  show "pubs_ok (publications_remove a st)"
    unfolding eq using assms(1) unlink_elem(1,2) [OF d, of a] cursor_in_unlink [OF d(2)]
    by (auto simp: pubs_ok_def)
qed

lemma removePublication_last:
  assumes "pubs_ok st" "ps_pubs st a = Some p" "pbs_refcount p = 1"
  shows "\<exists>st'. MQTTProtocol_removePublication a st = Some st' \<and> pubs_ok st' \<and>
    st' = st\<lparr>ps_pubs := (ps_pubs st)(a := None), ps_publications := clist_unlink (\<lambda>x. x = a) (ps_publications st)\<rparr>"
proof -
  let ?st = "st\<lparr>ps_pubs := (ps_pubs st)(a \<mapsto> p\<lparr>pbs_refcount := 0\<rparr>)\<rparr>"
  have "pubs_ok ?st" "a \<in> dom (ps_pubs ?st)" using assms by (auto simp: pubs_ok_def)
  from pubs_ok_remove [OF this] assms(2,3) show ?thesis by (simp add: MQTTProtocol_removePublication_def)
qed

lemma entry_nth: "list_holds st q ms \<Longrightarrow> k < length ms \<Longrightarrow> entry_ok st (ms ! k)"
  by (simp add: list_holds_def)

lemma entry_other:
  assumes "list_holds st q ms" "j < length ms" "k < length ms" "j \<noteq> k"
  shows "fst (ms ! j) \<noteq> fst (ms ! k)" "epub (ms ! j) \<noteq> epub (ms ! k)"
  using assms nth_eq_iff_index_eq [of "map fst ms" j k] nth_eq_iff_index_eq [of "map epub ms" j k]
  by (auto simp: list_holds_def)

section \<open>A message list of a client\<close>

text \<open>
  The state of an exchange: the client of the socket, its message list \<open>sel\<close>, and the entries in it,
  all of which satisfy \<open>P\<close>.
\<close>

definition exchange_ok ::
    "(Clients \<Rightarrow> addr clist) \<Rightarrow> (entry \<Rightarrow> bool) \<Rightarrow> int \<Rightarrow> nat \<Rightarrow> 'w pstate \<Rightarrow> entry list \<Rightarrow> bool" where
  "exchange_ok sel P sock i st ms \<longleftrightarrow> client_at st sock i \<and> pubs_ok st \<and>
     list_holds st (sel (get_client i st)) ms \<and> list_all P ms"

lemma exchange_okD:
  assumes "exchange_ok sel P sock i st ms"
  shows "client_at st sock i" "i < length (elems (ps_clients st))" "nh_socket (cl_net (get_client i st)) = sock"
    "pubs_ok st" "list_holds st (sel (get_client i st)) ms" "\<And>e. e \<in> set ms \<Longrightarrow> P e" "cursor_in (sel (get_client i st))"
    "distinct (map eid ms)"
  using assms by (auto simp: exchange_ok_def client_at_def list_holds_def list_all_iff)

lemma exchange_okI:
  assumes "client_at st' sock i" "pubs_ok st'"
    and "list_holds st' (sel (get_client i st')) ms" "\<And>e. e \<in> set ms \<Longrightarrow> P e"
  shows "exchange_ok sel P sock i st' ms"
  using assms by (simp add: exchange_ok_def list_all_iff)

lemma exchange_ok_seek:
  assumes "exchange_ok sel P sock i st ms"
  shows "exchange_ok sel P sock i (st\<lparr>ps_clients := (ps_clients st)\<lparr>cursor := Some i\<rparr>\<rparr>) ms"
  using exchange_okD [OF assms] by (intro exchange_okI client_atI) (auto simp: pubs_ok_def list_holds_def entry_ok_def)

lemma exchange_ok_update:
  assumes "exchange_ok sel P sock i st ms"
    and "elems (sel c) = elems (sel (get_client i st))" "cursor_in (sel c)" "nh_socket (cl_net c) = sock"
  shows "exchange_ok sel P sock i (set_client i c (st\<lparr>ps_world := w\<rparr>)) ms"
proof (rule exchange_okI)
  note D = exchange_okD [OF assms(1)]
  show "client_at (set_client i c (st\<lparr>ps_world := w\<rparr>)) sock i"
    by (rule client_at_update [OF D(1) _ assms(4)]) (simp add: set_client_def)
qed (use exchange_okD [OF assms(1)] assms(2-) in \<open>auto simp: pubs_ok_def list_holds_def entry_ok_def\<close>)

text \<open>
  What the exchanges need of the selector of a message list: sending a packet and queueing a message do
  not change the list.
\<close>

locale message_list =
  fixes sel :: "Clients \<Rightarrow> addr clist" and upd :: "addr clist \<Rightarrow> Clients \<Rightarrow> Clients"
  assumes sel_net: "sel (c\<lparr>cl_net := n\<rparr>) = sel c"
    and sel_queue: "sel (c\<lparr>cl_messageQueue := mq\<rparr>) = sel c"
    and sel_upd: "sel (upd q c) = q"
    and net_upd: "cl_net (upd q c) = cl_net c"
begin

lemma ok_send:
  assumes "exchange_ok sel P sock i st ms"
    and "\<exists>rc net' w'. f (cl_net (get_client i st)) (ps_world st) = Some (rc, net', w') \<and>
      nh_socket net' = nh_socket (cl_net (get_client i st)) \<and> delivered w' = delivered (ps_world st)"
  obtains rc st' where "client_send i f st = Some (rc, st')" "exchange_ok sel P sock i st' ms"
    "delivered (ps_world st') = delivered (ps_world st)"
    "ps_msgs st' = ps_msgs st" "ps_pubs st' = ps_pubs st" "sel (get_client i st') = sel (get_client i st)"
proof -
  obtain rc net' w' where s: "client_send i f st =
      Some (rc, set_client i ((get_client i st)\<lparr>cl_net := net'\<rparr>) (st\<lparr>ps_world := w'\<rparr>))"
    "nh_socket net' = nh_socket (cl_net (get_client i st))" "delivered w' = delivered (ps_world st)"
    using assms(2) by (rule client_send_ok)
  note D = exchange_okD [OF assms(1)]
  show thesis
    by (rule that [OF s(1)])
      (use D s exchange_ok_update [OF assms(1), of "(get_client i st)\<lparr>cl_net := net'\<rparr>" w'] in \<open>simp_all add: sel_net\<close>)
qed

lemma ok_send_ack:
  assumes "env_ok po delivered" "exchange_ok sel P sock i st ms"
  obtains rc st' where "client_send i (MQTTPacket_send_ack (po_net po) t m d) st = Some (rc, st')"
    "exchange_ok sel P sock i st' ms" "delivered (ps_world st') = delivered (ps_world st)"
    "ps_msgs st' = ps_msgs st" "ps_pubs st' = ps_pubs st" "sel (get_client i st') = sel (get_client i st)"
  by (rule ok_send [where f = "MQTTPacket_send_ack (po_net po) t m d" and delivered = delivered,
        OF assms(2) send_ack_ok [OF assms(1)]])

lemma ok_process:
  assumes "env_ok po delivered" "exchange_ok sel P sock i st ms"
  shows "exchange_ok sel P sock i (po_process po p i st) ms" "delivered (ps_world (po_process po p i st)) = delivered (ps_world st) @ [p]"
proof -
  obtain w' q where pr: "po_process po p i st = set_client i ((get_client i st)\<lparr>cl_messageQueue := q\<rparr>) (st\<lparr>ps_world := w'\<rparr>)"
    "delivered w' = delivered (ps_world st) @ [p]" by (rule env_ok_process [OF assms(1)])
  have "exchange_ok sel P sock i (set_client i ((get_client i st)\<lparr>cl_messageQueue := q\<rparr>) (st\<lparr>ps_world := w'\<rparr>)) ms"
    by (rule exchange_ok_update [OF assms(2)]) (use exchange_okD [OF assms(2)] in \<open>simp_all add: sel_queue\<close>)
  with pr show "exchange_ok sel P sock i (po_process po p i st) ms"
    "delivered (ps_world (po_process po p i st)) = delivered (ps_world st) @ [p]" by simp_all
qed

lemma ok_position:
  assumes "exchange_ok sel P sock i st ms" "k < length ms"
  shows "exchange_ok sel P sock i (set_client i (upd ((sel (get_client i st))\<lparr>cursor := Some k\<rparr>) (get_client i st)) st) ms"
  using exchange_ok_update [OF assms(1), of "upd ((sel (get_client i st))\<lparr>cursor := Some k\<rparr>) (get_client i st)" "ps_world st"]
    exchange_okD [OF assms(1)] assms(2) by (simp add: sel_upd net_upd cursor_in_def list_holds_def)

end

interpretation inbound: message_list cl_inboundMsgs "\<lambda>q. cl_inboundMsgs_update (\<lambda>_. q)"
  by unfold_locales simp_all

interpretation outbound: message_list cl_outboundMsgs "\<lambda>q. cl_outboundMsgs_update (\<lambda>_. q)"
  by unfold_locales simp_all

end
