(* ===== verification/Receiving.thy ===== *)
theory Receiving
  imports MessageLists
begin

text \<open>
  The receiving side of the protocol: how \<open>MQTTProtocol_handlePublishes\<close> and
  \<open>MQTTProtocol_handlePubrels\<close> hand messages to the application.
\<close>

text \<open>What the client has received of QoS 2 messages and not handed on.\<close>

definition inbound_entry :: "entry \<Rightarrow> bool" where
  "inbound_entry e \<longleftrightarrow> msg_qos (fst (snd e)) = 2 \<and> msg_nextMessageType (fst (snd e)) = PUBREL"

abbreviation inbound_ok :: "int \<Rightarrow> nat \<Rightarrow> 'w pstate \<Rightarrow> entry list \<Rightarrow> bool" where
  "inbound_ok \<equiv> exchange_ok cl_inboundMsgs inbound_entry"

definition publish_of :: "entry \<Rightarrow> Publish" where
  "publish_of e = (case e of (a, m, p) \<Rightarrow> \<lparr>pub_header = mk_header 0 0 2 (msg_retain m), pub_topic = Some (pbs_topic p),
     pub_topiclen = pbs_topiclen p, pub_msgId = msg_msgid m, pub_payload = pbs_payload p,
     pub_payloadlen = pbs_payloadlen p\<rparr>)"

text \<open>Handing on the message at position \<open>k\<close>.\<close>

lemma pubrel_release:
  assumes "env_ok po delivered" "inbound_ok sock i st ms" "k < length ms"
  shows "\<exists>rc st'. inbound_release po i msgid (fst (ms ! k)) (fst (snd (ms ! k))) rc0 st = Some (rc, st') \<and>
      inbound_ok sock i st' (remove_nth k ms) \<and>
      delivered (ps_world st') = delivered (ps_world st) @ [publish_of (ms ! k)]"
proof -
  let ?a = "fst (ms ! k)" and ?p = "epub (ms ! k)"
  note D = exchange_okD [OF assms(2)]
  from D(6) assms(3) have qos: "msg_qos (fst (snd (ms ! k))) = 2" by (simp add: inbound_entry_def)
  from entry_nth [OF D(5) assms(3)] have mk: "ps_pubs st (msg_publish (fst (snd (ms ! k)))) = Some (snd (snd (ms ! k)))"
    by (simp add: entry_ok_def epub_def)
  obtain w1 q1 where pr: "po_process po (publish_of (ms ! k)) i st =
      set_client i ((get_client i st)\<lparr>cl_messageQueue := q1\<rparr>) (st\<lparr>ps_world := w1\<rparr>)"
    "delivered w1 = delivered (ps_world st) @ [publish_of (ms ! k)]" by (rule env_ok_process [OF assms(1)])
  define c where "c = (get_client i st)\<lparr>cl_messageQueue := q1\<rparr>"
  obtain rc1 w2 where pe: "po_persist_remove po w1 c ''r-'' 2 msgid = (rc1, w2)" "delivered w2 = delivered w1"
    using env_ok_puts(3) [OF assms(1)] by (metis prod.collapse)
  define st1 where "st1 = set_client i c (st\<lparr>ps_world := w2\<rparr>)"
  have ok1: "inbound_ok sock i st1 ms" unfolding st1_def
    by (rule exchange_ok_update [OF assms(2)]) (use D in \<open>simp_all add: c_def\<close>)
  have st1: "get_client i st1 = c" "ps_world st1 = w2"
    unfolding st1_def using D(2) by simp_all
  have per: "persist_remove po i ''r-'' 2 msgid (po_process po (publish_of (ms ! k)) i st) = (rc1, st1)"
    using pr(1) pe(1) D(2) by (simp add: persist_remove_def c_def st1_def set_client_def)
  note D1 = exchange_okD [OF ok1, unfolded st1(1)]
  have "?p \<in> dom (ps_pubs st1)" using entry_nth [OF D1(5) assms(3)] by (auto simp: entry_ok_def)
  note rem = pubs_ok_remove [OF D1(4) this]
  define st2 where "st2 = publications_remove ?p st1"
  define st3 where "st3 = free_msg ?a (set_client i (c\<lparr>cl_inboundMsgs := clist_unlink (\<lambda>x. x = ?a) (cl_inboundMsgs c)\<rparr>) st2)"
  define st4 where "st4 = st3\<lparr>ps_msgs_received := ps_msgs_received st3 + 1\<rparr>"
  note st4 = st4_def st3_def free_msg_def st2_def rem(1)
  have c2: "get_client i st2 = c" using st1(1) by (simp add: st2_def rem(1))
  have "entry_ok st4 (ms ! j)" if "j < length ms" "j \<noteq> k" for j
    using entry_nth [OF D1(5) that(1)] entry_other [OF D1(5) that(1) assms(3) that(2)] by (simp add: entry_ok_def st4)
  then have "list_holds st4 (clist_unlink (\<lambda>x. x = ?a) (cl_inboundMsgs c)) (remove_nth k ms)"
    by (rule list_holds_remove [OF D1(5) assms(3)])
  moreover have "pubs_ok st4" using rem(2) by (simp add: st4_def st3_def free_msg_def pubs_ok_def st2_def)
  moreover have "client_at st4 sock i"
    by (rule client_at_update [OF D1(1), where c = "c\<lparr>cl_inboundMsgs := clist_unlink (\<lambda>x. x = ?a) (cl_inboundMsgs c)\<rparr>"])
      (use D1(3) in \<open>simp_all add: st4 set_client_def\<close>)
  ultimately have "inbound_ok sock i st4 (remove_nth k ms)"
    using st1 D1(2,6) set_remove_nth_subset [of k ms] by (intro exchange_okI) (auto simp: st4)
  moreover have "delivered (ps_world st4) = delivered (ps_world st) @ [publish_of (ms ! k)]"
    using st1(2) pr(2) pe(2) by (simp add: st4)
  moreover have "inbound_release po i msgid ?a (fst (snd (ms ! k))) rc0 st = Some (rc0 + rc1, st4)"
    using per mk qos by (simp add: inbound_release_def epub_def [symmetric] st2_def [symmetric] c2
        st3_def [symmetric] st4_def [symmetric] Let_def publish_of_def split_beta)
  ultimately show ?thesis by blast
qed

lemma pubrel_effect:
  assumes "env_ok po delivered" "inbound_ok sock i st ms"
  shows "\<exists>rc st'. MQTTProtocol_handlePubrels po pubrel sock st = Some (rc, st') \<and>
    (case find_index (\<lambda>e. eid e = ack_msgId pubrel) ms of
       None \<Rightarrow> inbound_ok sock i st' ms \<and> delivered (ps_world st') = delivered (ps_world st)
     | Some k \<Rightarrow> inbound_ok sock i st' (remove_nth k ms) \<and>
         delivered (ps_world st') = delivered (ps_world st) @ [publish_of (ms ! k)])"
proof -
  let ?id = "ack_msgId pubrel" and ?send = "MQTTPacket_send_ack (po_net po) PUBCOMP (ack_msgId pubrel) 0"
  define st1 where "st1 = st\<lparr>ps_clients := (ps_clients st)\<lparr>cursor := Some i\<rparr>\<rparr>"
  have ok1: "inbound_ok sock i st1 ms" "ps_world st1 = ps_world st"
    using exchange_ok_seek [OF assms(2)] by (simp_all add: st1_def)
  note D1 = exchange_okD [OF ok1(1)]
  note start = MQTTProtocol_handlePubrels_def find_client_at [OF exchange_okD(1) [OF assms(2)], folded st1_def]
    find_msg_entries [OF D1(5)] send_ack_eqs
  show ?thesis
  proof (cases "find_index (\<lambda>e. eid e = ?id) ms")
    case None
    obtain rc st' where "client_send i ?send st1 = Some (rc, st')" "inbound_ok sock i st' ms"
      "delivered (ps_world st') = delivered (ps_world st1)"
      by (rule inbound.ok_send_ack [OF assms(1) ok1(1)])
    with None ok1 show ?thesis by (auto simp: start)
  next
    case (Some k)
    then have k: "k < length ms" using find_index_SomeD [OF Some] by auto
    define st2 where "st2 = set_client i ((get_client i st1)\<lparr>cl_inboundMsgs := (cl_inboundMsgs (get_client i st1))\<lparr>cursor := Some k\<rparr>\<rparr>) st1"
    have ok2: "inbound_ok sock i st2 ms" "ps_world st2 = ps_world st"
      using inbound.ok_position [OF ok1(1) k] ok1(2) by (simp_all add: st2_def)
    obtain rc st3 where s: "client_send i ?send st2 = Some (rc, st3)" "inbound_ok sock i st3 ms"
      "delivered (ps_world st3) = delivered (ps_world st2)"
      by (rule inbound.ok_send_ack [OF assms(1) ok2(1)])
    from pubrel_release [OF assms(1) s(2) k, of ?id rc] s(3) ok2(2) obtain rc2 st' where
      rel: "inbound_release po i ?id (fst (ms ! k)) (fst (snd (ms ! k))) rc st3 = Some (rc2, st')"
      "inbound_ok sock i st' (remove_nth k ms)" "delivered (ps_world st') = delivered (ps_world st) @ [publish_of (ms ! k)]"
      by auto
    have "ps_msgs st1 (fst (ms ! k)) = Some (fst (snd (ms ! k)))" "elems (cl_inboundMsgs (get_client i st1)) ! k = fst (ms ! k)"
        "msg_qos (fst (snd (ms ! k))) = 2" "msg_nextMessageType (fst (snd (ms ! k))) = PUBREL"
      using entry_nth [OF D1(5) k] D1(5,6) k by (simp_all add: entry_ok_def list_holds_def inbound_entry_def)
    with Some s(1) rel(1) have "MQTTProtocol_handlePubrels po pubrel sock st = Some (rc2, st')"
      by (simp add: start Let_def st2_def)
    with Some rel show ?thesis by simp
  qed
qed

text \<open>Storing a QoS 2 message: it takes the place of a message with the same id.\<close>

definition publish_ok :: "Publish \<Rightarrow> bool" where
  "publish_ok p \<longleftrightarrow> pub_topic p \<noteq> None \<and> 0 \<le> pub_payloadlen p \<and> nat (pub_payloadlen p) \<le> length (pub_payload p)"

definition stored_publication :: "Publish \<Rightarrow> Publications" where
  "stored_publication p = \<lparr>pbs_topic = c_string (the (pub_topic p)), pbs_topiclen = pub_topiclen p,
     pbs_payload = take (nat (pub_payloadlen p)) (pub_payload p), pbs_payloadlen = pub_payloadlen p, pbs_refcount = 1\<rparr>"

definition store_entry :: "entry \<Rightarrow> entry list \<Rightarrow> entry list" where
  "store_entry e ms = (case find_index (\<lambda>x. eid x = eid e) ms of None \<Rightarrow> ms @ [e] | Some k \<Rightarrow> ms[k := e])"

lemma storePublication_ok:
  "publish_ok p \<Longrightarrow> \<exists>len. MQTTProtocol_storePublication po p a st = Some (len,
     st\<lparr>ps_pubs := (ps_pubs st)(a \<mapsto> stored_publication p), ps_publications := clist_append a (ps_publications st)\<rparr>)"
  by (auto simp: publish_ok_def MQTTProtocol_storePublication_def stored_publication_def)

lemma pubs_ok_store:
  "pubs_ok st \<Longrightarrow> a \<notin> dom (ps_pubs st) \<Longrightarrow> ps_pubs st' = (ps_pubs st)(a \<mapsto> p) \<Longrightarrow>
   ps_publications st' = clist_append a (ps_publications st) \<Longrightarrow> pubs_ok st'"
  by (auto simp: pubs_ok_def clist_append_def cursor_in_def split: option.splits)

lemma entry_fresh:
  assumes "list_holds st q ms"
  shows "a \<notin> dom (ps_msgs st) \<Longrightarrow> a \<notin> fst ` set ms" "p \<notin> dom (ps_pubs st) \<Longrightarrow> p \<notin> epub ` set ms"
  using assms by (force simp: list_holds_def entry_ok_def)+

lemma inbound_store_effect:
  assumes "publish_ok p" "pubs_ok st" "list_holds st (cl_inboundMsgs c) ms" "get_client i st = c"
    and "am \<notin> dom (ps_msgs st)" "ap \<notin> dom (ps_pubs st)" "i < length (elems (ps_clients st))"
  shows "\<exists>st' q. inbound_store po i p am ap st = Some st' \<and> pubs_ok st' \<and>
    list_holds st' q (store_entry (am, inbound_message p ap, stored_publication p) ms) \<and>
    ps_clients st' = ps_clients (set_client i (c\<lparr>cl_inboundMsgs := q\<rparr>) st) \<and> ps_world st' = ps_world st"
proof -
  let ?e = "(am, inbound_message p ap, stored_publication p)" and ?inb = "cl_inboundMsgs c"
  define st1 where "st1 = st\<lparr>ps_pubs := (ps_pubs st)(ap \<mapsto> stored_publication p),
      ps_publications := clist_append ap (ps_publications st), ps_msgs := (ps_msgs st)(am \<mapsto> inbound_message p ap)\<rparr>"
  from storePublication_ok [OF assms(1), of po ap st] obtain len where
    len: "MQTTProtocol_storePublication po p ap st = Some (len,
      st\<lparr>ps_pubs := (ps_pubs st)(ap \<mapsto> stored_publication p), ps_publications := clist_append ap (ps_publications st)\<rparr>)" ..
  have po1: "pubs_ok st1" by (rule pubs_ok_store [OF assms(2,6)]) (simp_all add: st1_def)
  note fresh = entry_fresh(1) [OF assms(3,5)] entry_fresh(2) [OF assms(3,6)]
  have ok1: "entry_ok st1 x" if "x \<in> set ms" for x
    using that fresh assms(3) by (auto simp: list_holds_def entry_ok_def st1_def)
  have oke: "entry_ok st1 ?e" "eid ?e = pub_msgId p" "epub ?e = ap"
    by (simp_all add: entry_ok_def st1_def epub_def eid_def inbound_message_def stored_publication_def)
  have lh1: "list_holds st1 ?inb ms" by (rule list_holds_frame [OF assms(3) ok1]) (use assms(3) in \<open>auto simp: list_holds_def\<close>)
  have c1: "get_client i st1 = c" "ps_clients st1 = ps_clients st" "ps_world st1 = ps_world st" using assms(4) by (simp_all add: st1_def)
  note start = inbound_store_def len st1_def [symmetric] c1(2,3) assms(4) find_msg_entries [OF lh1] store_entry_def oke(2) Let_def
  show ?thesis
  proof (cases "find_index (\<lambda>x. eid x = pub_msgId p) ms")
    case None
    let ?st = "set_client i (c\<lparr>cl_inboundMsgs := clist_append am ?inb\<rparr>) st1"
    have "list_holds ?st (clist_append (fst ?e) ?inb) (ms @ [?e])"
      by (rule list_holds_append [OF lh1]) (use ok1 oke fresh None in \<open>auto simp: entry_ok_def find_index_None_iff\<close>)
    moreover have "pubs_ok ?st" using po1 by (simp add: pubs_ok_def)
    ultimately show ?thesis using None
      by (intro exI [of _ ?st] exI [of _ "clist_append am ?inb"]) (simp add: start, simp add: set_client_def c1)
  next
    case (Some k)
    then have k: "k < length ms" "eid (ms ! k) = pub_msgId p" using find_index_SomeD [OF Some] by auto
    let ?q = "clist_unlink (\<lambda>x. x = fst (ms ! k)) (clist_insert k (fst ?e) (?inb\<lparr>cursor := Some k\<rparr>))"
    from entry_nth [OF lh1 k(1)] have old: "ps_msgs st1 (fst (ms ! k)) = Some (fst (snd (ms ! k)))"
      "ps_pubs st1 (epub (ms ! k)) = Some (snd (snd (ms ! k)))" "pbs_refcount (snd (snd (ms ! k))) = 1"
      by (simp_all add: entry_ok_def)
    from removePublication_last [OF po1 old(2,3)] obtain st2 where
      rem: "MQTTProtocol_removePublication (epub (ms ! k)) st1 = Some st2" "pubs_ok st2"
      "st2 = st1\<lparr>ps_pubs := (ps_pubs st1)(epub (ms ! k) := None),
         ps_publications := clist_unlink (\<lambda>x. x = epub (ms ! k)) (ps_publications st1)\<rparr>" by blast
    let ?st = "free_msg (fst (ms ! k)) (set_client i (c\<lparr>cl_inboundMsgs := ?q\<rparr>) st2)"
    have new: "fst (ms ! k) \<noteq> am" "epub (ms ! k) \<noteq> ap" using fresh nth_mem [OF k(1)] by (metis imageI)+
    have lh: "list_holds ?st ?q (ms[k := ?e])"
    proof (rule list_holds_replace [OF lh1 k(1)])
      show "entry_ok ?st (ms ! j)" if "j < length ms" "j \<noteq> k" for j
        using ok1 [OF nth_mem [OF that(1)]] entry_other [OF lh1 that(1) k(1) that(2)]
        by (simp add: entry_ok_def free_msg_def rem(3))
      show "entry_ok ?st ?e" using oke new by (simp add: entry_ok_def free_msg_def rem(3))
    qed (use fresh oke k in simp_all)
    have "elems ?inb ! k = fst (ms ! k)" "msg_publish (fst (snd (ms ! k))) = epub (ms ! k)"
      using lh1 k(1) by (simp_all add: list_holds_def epub_def)
    with Some entry_nth [OF assms(3) k(1)] have "inbound_store po i p am ap st = Some ?st"
      by (simp add: start new(1) entry_ok_def rem(1))
    moreover have "pubs_ok ?st" "ps_clients ?st = ps_clients (set_client i (c\<lparr>cl_inboundMsgs := ?q\<rparr>) st)"
        "ps_world ?st = ps_world st"
      using rem(2,3) c1 by (simp_all add: free_msg_def pubs_ok_def set_client_def)
    ultimately show ?thesis using lh Some by (intro exI [of _ ?st] exI [of _ ?q]) (simp add: store_entry_def oke(2))
  qed
qed

lemma inbound_store_ok:
  assumes "inbound_ok sock i st ms" "publish_ok p" "hdr_qos (pub_header p) = 2"
    and "am \<notin> dom (ps_msgs st)" "ap \<notin> dom (ps_pubs st)"
  shows "\<exists>st'. inbound_store po i p am ap st = Some st' \<and> ps_world st' = ps_world st \<and>
    inbound_ok sock i st' (store_entry (am, inbound_message p ap, stored_publication p) ms)"
proof -
  let ?e = "(am, inbound_message p ap, stored_publication p)"
  note D = exchange_okD [OF assms(1)]
  from inbound_store_effect [OF assms(2) D(4,5) refl assms(4,5) D(2), of po] obtain st' q where
    st': "inbound_store po i p am ap st = Some st'" "pubs_ok st'" "list_holds st' q (store_entry ?e ms)"
    "ps_clients st' = ps_clients (set_client i ((get_client i st)\<lparr>cl_inboundMsgs := q\<rparr>) st)" "ps_world st' = ps_world st" by blast
  have "set (store_entry ?e ms) \<subseteq> insert ?e (set ms)"
    by (auto simp: store_entry_def dest!: set_mp [OF set_update_subset_insert] split: option.splits)
  moreover have "inbound_entry ?e" using assms(3) by (simp add: inbound_entry_def inbound_message_def)
  ultimately have "inbound_entry x" if "x \<in> set (store_entry ?e ms)" for x using that D(6) by blast
  moreover have "get_client i st' = (get_client i st)\<lparr>cl_inboundMsgs := q\<rparr>" unfolding st'(4) using D(2) by simp
  moreover have "client_at st' sock i" by (rule client_at_update [OF D(1) st'(4)]) (simp add: D(3))
  ultimately show ?thesis using st' by (intro exI [of _ st'] conjI exchange_okI) simp_all
qed

lemma publish_effect:
  assumes "env_ok po delivered" "inbound_ok sock i st ms" "publish_ok p"
    and "am \<notin> dom (ps_msgs st)" "ap \<notin> dom (ps_pubs st)"
  shows "\<exists>rc st'. MQTTProtocol_handlePublishes po p sock am ap st = Some (rc, st') \<and>
    inbound_ok sock i st' (if hdr_qos (pub_header p) = 2
      then store_entry (am, inbound_message p ap, stored_publication p) ms else ms) \<and>
    delivered (ps_world st') = delivered (ps_world st) @ (if hdr_qos (pub_header p) \<le> 1 then [p] else [])"
proof -
  define st1 where "st1 = st\<lparr>ps_clients := (ps_clients st)\<lparr>cursor := Some i\<rparr>\<rparr>"
  note start = MQTTProtocol_handlePublishes_def find_client_at [OF exchange_okD(1) [OF assms(2)], folded st1_def] send_ack_eqs
  have ok1: "inbound_ok sock i st1 ms" "ps_world st1 = ps_world st"
      "ps_msgs st1 = ps_msgs st" "ps_pubs st1 = ps_pubs st"
    using exchange_ok_seek [OF assms(2)] by (simp_all add: st1_def)
  consider "hdr_qos (pub_header p) = 0" | "hdr_qos (pub_header p) = 1" | "hdr_qos (pub_header p) = 2" | "hdr_qos (pub_header p) > 2"
    by linarith
  then show ?thesis
  proof cases
    case 1
    with inbound.ok_process [OF assms(1) ok1(1), of p] ok1(2) show ?thesis by (simp add: start)
  next
    case 2
    obtain rc st2 where "client_send i (MQTTPacket_send_ack (po_net po) PUBACK (pub_msgId p) 0) st1 = Some (rc, st2)"
      "inbound_ok sock i st2 ms" "delivered (ps_world st2) = delivered (ps_world st1)"
      by (rule inbound.ok_send_ack [OF assms(1) ok1(1)])
    with 2 ok1(2) inbound.ok_process [OF assms(1), of inbound_entry sock i st2 ms p] show ?thesis by (simp add: start)
  next
    case 3
    from inbound_store_ok [OF ok1(1) assms(3) 3] assms(4,5) ok1 obtain st2 where
      st2: "inbound_store po i p am ap st1 = Some st2" "ps_world st2 = ps_world st"
      "inbound_ok sock i st2 (store_entry (am, inbound_message p ap, stored_publication p) ms)" by metis
    obtain rc st3 where "client_send i (MQTTPacket_send_ack (po_net po) PUBREC (pub_msgId p) 0) st2 = Some (rc, st3)"
      "inbound_ok sock i st3 (store_entry (am, inbound_message p ap, stored_publication p) ms)"
      "delivered (ps_world st3) = delivered (ps_world st2)"
      by (rule inbound.ok_send_ack [OF assms(1) st2(3)])
    with 3 st2 show ?thesis by (simp add: start)
  next
    case 4
    with ok1 show ?thesis by (simp add: start)
  qed
qed

section \<open>Refinement: messages waiting for release\<close>

text \<open>
  The receiving side as a machine: its operations are the packets that arrive (with the memory that
  \<open>malloc\<close> returns), its results the messages handed to the application. Its specification keeps the
  QoS 2 messages that wait for their PUBREL, by id.
\<close>

datatype recv_event = EvPublish Publish addr addr | EvPubrel Ack

definition receive_event ::
    "'w proto_ops \<Rightarrow> ('w \<Rightarrow> Publish list) \<Rightarrow> int \<Rightarrow> 'w pstate \<Rightarrow> recv_event \<Rightarrow> (Publish list \<times> 'w pstate) option" where
  "receive_event po delivered sock st ev = do {
     (rc, st') \<leftarrow> (case ev of EvPublish p am ap \<Rightarrow> MQTTProtocol_handlePublishes po p sock am ap st
                  | EvPubrel a \<Rightarrow> MQTTProtocol_handlePubrels po a sock st);
     Some (drop (length (delivered (ps_world st))) (delivered (ps_world st')), st')
   }"

definition as_stored :: "Publish \<Rightarrow> Publish" where
  "as_stored p = \<lparr>pub_header = mk_header 0 0 2 (int (hdr_retain (pub_header p))),
     pub_topic = Some (c_string (the (pub_topic p))), pub_topiclen = pub_topiclen p, pub_msgId = pub_msgId p,
     pub_payload = take (nat (pub_payloadlen p)) (pub_payload p), pub_payloadlen = pub_payloadlen p\<rparr>"

fun receive_spec :: "(int \<rightharpoonup> Publish) \<Rightarrow> recv_event \<Rightarrow> Publish list \<times> (int \<rightharpoonup> Publish)" where
  "receive_spec pend (EvPublish p am ap) =
     (if hdr_qos (pub_header p) \<le> 1 then ([p], pend)
      else if hdr_qos (pub_header p) = 2 then ([], pend(pub_msgId p \<mapsto> as_stored p))
      else ([], pend))"
| "receive_spec pend (EvPubrel a) =
     (case pend (ack_msgId a) of None \<Rightarrow> ([], pend) | Some p \<Rightarrow> ([p], pend(ack_msgId a := None)))"

fun receive_ok :: "'w proto_ops \<Rightarrow> ('w \<Rightarrow> Publish list) \<Rightarrow> int \<Rightarrow> recv_event list \<Rightarrow> 'w pstate \<Rightarrow> bool" where
  "receive_ok po delivered sock [] st \<longleftrightarrow> True"
| "receive_ok po delivered sock (ev # evs) st \<longleftrightarrow>
     (case ev of EvPublish p am ap \<Rightarrow> publish_ok p \<and> ps_msgs st am = None \<and> ps_pubs st ap = None | EvPubrel a \<Rightarrow> True) \<and>
     (case receive_event po delivered sock st ev of None \<Rightarrow> True | Some (r, st') \<Rightarrow> receive_ok po delivered sock evs st')"

definition pending_of :: "entry list \<Rightarrow> int \<rightharpoonup> Publish" where
  "pending_of ms = map_of (map (\<lambda>e. (eid e, publish_of e)) ms)"

definition receive_rel ::
    "'w proto_ops \<Rightarrow> ('w \<Rightarrow> Publish list) \<Rightarrow> int \<Rightarrow> 'w pstate \<Rightarrow> (int \<rightharpoonup> Publish) \<Rightarrow> bool" where
  "receive_rel po delivered sock st pend \<longleftrightarrow> env_ok po delivered \<and>
     (\<exists>i ms. inbound_ok sock i st ms \<and> pend = pending_of ms)"

lemma pending_find:
  "distinct (map eid ms) \<Longrightarrow> pending_of ms n = map_option (\<lambda>k. publish_of (ms ! k)) (find_index (\<lambda>e. eid e = n) ms)"
  unfolding pending_of_def by (induction ms) (auto simp: option.map_comp comp_def)

lemma pending_store:
  assumes "distinct (map eid ms)"
  shows "pending_of (store_entry e ms) = (pending_of ms)(eid e \<mapsto> publish_of e)"
proof (cases "find_index (\<lambda>x. eid x = eid e) ms")
  case None
  then have "eid e \<notin> set (map fst (map (\<lambda>e. (eid e, publish_of e)) ms))" by (auto simp: find_index_None_iff)
  then have "map_of (map (\<lambda>e. (eid e, publish_of e)) ms) (eid e) = None" by (auto simp: map_of_eq_None_iff)
  then show ?thesis using None by (auto simp: pending_of_def store_entry_def fun_eq_iff map_add_def split: option.splits)
next
  case (Some k)
  from find_index_SomeD [OF Some] have k: "k < length ms" "eid (ms ! k) = eid e" by auto
  then show ?thesis
    using map_of_list_update [of k "map (\<lambda>e. (eid e, publish_of e)) ms" "publish_of e"] Some assms
    by (simp add: pending_of_def store_entry_def map_update comp_def)
qed

lemma pending_remove:
  "distinct (map eid ms) \<Longrightarrow> k < length ms \<Longrightarrow> pending_of (remove_nth k ms) = (pending_of ms)(eid (ms ! k) := None)"
  using map_of_remove_nth [of k "map (\<lambda>e. (eid e, publish_of e)) ms"] by (simp add: pending_of_def map_remove_nth comp_def)

lemma stored_entry:
  "hdr_qos (pub_header p) = 2 \<Longrightarrow> publish_of (am, inbound_message p ap, stored_publication p) = as_stored p"
  "eid (am, inbound_message p ap, b) = pub_msgId p"
  by (simp_all add: publish_of_def inbound_message_def stored_publication_def as_stored_def eid_def)

lemma receive_step:
  assumes "receive_rel po delivered sock st pend" "receive_ok po delivered sock (ev # evs) st"
  shows "\<exists>st'. receive_event po delivered sock st ev = Some (fst (receive_spec pend ev), st') \<and>
    receive_rel po delivered sock st' (snd (receive_spec pend ev)) \<and> receive_ok po delivered sock evs st'"
proof -
  from assms(1) obtain i ms where env: "env_ok po delivered" and ok: "inbound_ok sock i st ms" and pend: "pend = pending_of ms"
    by (auto simp: receive_rel_def)
  note dist = exchange_okD(8) [OF ok]
  have "\<exists>st'. receive_event po delivered sock st ev = Some (fst (receive_spec pend ev), st') \<and>
    receive_rel po delivered sock st' (snd (receive_spec pend ev))"
  proof (cases ev)
    case (EvPublish p am ap)
    with assms(2) have p: "publish_ok p" "am \<notin> dom (ps_msgs st)" "ap \<notin> dom (ps_pubs st)" by auto
    from publish_effect [OF env ok this] obtain rc st' where st':
      "MQTTProtocol_handlePublishes po p sock am ap st = Some (rc, st')"
      "inbound_ok sock i st' (if hdr_qos (pub_header p) = 2
        then store_entry (am, inbound_message p ap, stored_publication p) ms else ms)"
      "delivered (ps_world st') = delivered (ps_world st) @ (if hdr_qos (pub_header p) \<le> 1 then [p] else [])" by blast
    have "snd (receive_spec pend ev) = pending_of (if hdr_qos (pub_header p) = 2
        then store_entry (am, inbound_message p ap, stored_publication p) ms else ms)"
      using pending_store [OF dist] stored_entry by (simp add: EvPublish pend)
    with st'(2) env have "receive_rel po delivered sock st' (snd (receive_spec pend ev))"
      unfolding receive_rel_def by blast
    with st'(1,3) show ?thesis by (simp add: EvPublish receive_event_def)
  next
    case (EvPubrel a)
    from pubrel_effect [OF env ok, of a] obtain rc st' where st':
      "MQTTProtocol_handlePubrels po a sock st = Some (rc, st')"
      "case find_index (\<lambda>e. eid e = ack_msgId a) ms of
         None \<Rightarrow> inbound_ok sock i st' ms \<and> delivered (ps_world st') = delivered (ps_world st)
       | Some k \<Rightarrow> inbound_ok sock i st' (remove_nth k ms) \<and>
           delivered (ps_world st') = delivered (ps_world st) @ [publish_of (ms ! k)]" by blast
    with env dist show ?thesis
      by (cases "find_index (\<lambda>e. eid e = ack_msgId a) ms")
        (force simp: EvPubrel receive_event_def receive_rel_def pend pending_find pending_remove dest: find_index_SomeD)+
  qed
  with assms(2) show ?thesis by auto
qed

interpretation receiving: simulation "receive_rel po delivered sock" "receive_event po delivered sock" receive_spec
  "receive_ok po delivered sock"
  by unfold_locales (rule receive_step)

section \<open>Properties\<close>

definition about :: "int \<Rightarrow> recv_event \<Rightarrow> bool" where
  "about n ev \<longleftrightarrow> (case ev of EvPublish p am ap \<Rightarrow> hdr_qos (pub_header p) = 2 \<and> pub_msgId p = n | EvPubrel a \<Rightarrow> ack_msgId a = n)"

definition is_pubrel :: "int \<Rightarrow> recv_event \<Rightarrow> bool" where
  "is_pubrel n ev \<longleftrightarrow> (case ev of EvPublish p am ap \<Rightarrow> False | EvPubrel a \<Rightarrow> ack_msgId a = n)"

definition resend :: "Publish \<Rightarrow> recv_event \<Rightarrow> bool" where
  "resend p ev \<longleftrightarrow> (case ev of EvPublish p' am ap \<Rightarrow> hdr_qos (pub_header p') = 2 \<and> as_stored p' = as_stored p | EvPubrel a \<Rightarrow> False)"

text \<open>What the PUBRELs of an id handed on, in a run.\<close>

definition released :: "int \<Rightarrow> recv_event list \<Rightarrow> Publish list list \<Rightarrow> Publish list" where
  "released n evs outs = concat (map snd (filter (\<lambda>x. is_pubrel n (fst x)) (zip evs outs)))"

lemma released_simps [simp]:
  "released n [] outs = []"
  "released n (ev # evs) (r # rs) = (if is_pubrel n ev then r else []) @ released n evs rs"
  by (simp_all add: released_def)

lemma released_append: "length evs = length outs \<Longrightarrow> released n (evs @ evs') (outs @ outs') = released n evs outs @ released n evs' outs'"
  by (simp add: released_def)

lemma as_stored_msgId: "as_stored p = as_stored p' \<Longrightarrow> pub_msgId p = pub_msgId p'"
  by (simp add: as_stored_def)

lemma spec_waiting:
  "pend n = Some (as_stored p) \<Longrightarrow> pub_msgId p = n \<Longrightarrow> list_all (\<lambda>ev. \<not> about n ev \<or> resend p ev) evs \<Longrightarrow>
   released n evs (fst (run_spec receive_spec pend evs)) = [] \<and> snd (run_spec receive_spec pend evs) n = Some (as_stored p)"
proof (induction evs arbitrary: pend)
  case (Cons ev evs)
  then have "snd (receive_spec pend ev) n = Some (as_stored p)" "\<not> is_pubrel n ev"
    by (auto simp: about_def resend_def is_pubrel_def split: recv_event.splits option.splits dest: as_stored_msgId)
  with Cons show ?case by (simp add: split_beta Let_def)
qed simp

lemma spec_released:
  "pend n = None \<Longrightarrow> list_all (\<lambda>ev. about n ev \<longrightarrow> is_pubrel n ev) evs \<Longrightarrow>
   released n evs (fst (run_spec receive_spec pend evs)) = []"
proof (induction evs arbitrary: pend)
  case (Cons ev evs)
  then have "snd (receive_spec pend ev) n = None" "is_pubrel n ev \<Longrightarrow> fst (receive_spec pend ev) = []"
    by (auto simp: about_def is_pubrel_def split: recv_event.splits option.splits)
  with Cons show ?case by (simp add: split_beta Let_def)
qed simp

lemma spec_exactly_once:
  fixes am ap :: addr
  assumes "hdr_qos (pub_header p) = 2" "list_all (\<lambda>ev. \<not> about (pub_msgId p) ev \<or> resend p ev) evs1"
    and "ack_msgId a = pub_msgId p" "list_all (\<lambda>ev. about (pub_msgId p) ev \<longrightarrow> is_pubrel (pub_msgId p) ev) evs2"
  defines "evs \<equiv> EvPublish p am ap # evs1 @ EvPubrel a # evs2"
  shows "released (pub_msgId p) evs (fst (run_spec receive_spec pend evs)) = [as_stored p]"
proof -
  let ?n = "pub_msgId p"
  define pend1 where "pend1 = pend(?n \<mapsto> as_stored p)"
  define pend2 where "pend2 = snd (run_spec receive_spec pend1 evs1)"
  have w: "released ?n evs1 (fst (run_spec receive_spec pend1 evs1)) = []" "pend2 ?n = Some (as_stored p)"
    using spec_waiting [of pend1 ?n p evs1] assms(2) by (simp_all add: pend1_def pend2_def)
  have r: "released ?n evs2 (fst (run_spec receive_spec (pend2(?n := None)) evs2)) = []"
    using assms(4) by (intro spec_released) simp
  have "run_spec receive_spec pend evs =
      ([] # fst (run_spec receive_spec pend1 evs1) @ [as_stored p] # fst (run_spec receive_spec (pend2(?n := None)) evs2),
       snd (run_spec receive_spec (pend2(?n := None)) evs2))"
    using assms(1,3) w(2) by (simp add: evs_def run_spec_append split_beta Let_def pend1_def [symmetric] pend2_def [symmetric])
  then show ?thesis using w(1) r assms(3)
    by (simp add: evs_def released_append length_run_spec is_pubrel_def)
qed

text \<open>
  C5. The receiving side refines its specification: from any consistent state, for any sequence of PUBREL packets and
  of PUBLISH packets that have a topic and whose payload lies within the packet, \<open>MQTTProtocol_handlePublishes\<close> and
  \<open>MQTTProtocol_handlePubrels\<close> return (no memory is used after it was freed), a QoS 0 or 1 message is handed to the
  application at once, a QoS 2 message is kept, replacing one with the same id, and is handed on when its PUBREL
  arrives, with the topic, payload and retained flag it was sent with; nothing else is handed on. Memory that is
  allocated is not in use at that time. The parser gives a truncated PUBLISH a negative payload length; that one is
  excluded here (\<open>parser_overreads\<close> in \<open>Packet\<close>).
\<close>

theorem receive_refines:
  assumes "receive_rel po delivered sock st pend" and "receive_ok po delivered sock evs st"
  shows "\<exists>st'. run_steps (receive_event po delivered sock) st evs = Some (fst (run_spec receive_spec pend evs), st') \<and>
    receive_rel po delivered sock st' (snd (run_spec receive_spec pend evs))"
  by (rule receiving.run_simulates [OF assms])

text \<open>
  C1. Exactly once: after a QoS 2 PUBLISH has arrived, however often it is sent again and whatever other
  packets arrive before its PUBREL, and however often the PUBREL is repeated, the message is handed to
  the application once, by its PUBREL.
\<close>

theorem qos2_exactly_once:
  assumes "receive_rel po delivered sock st pend" and "hdr_qos (pub_header p) = 2"
    and "ack_msgId a = pub_msgId p" and "list_all (\<lambda>ev. \<not> about (pub_msgId p) ev \<or> resend p ev) evs1"
    and "list_all (\<lambda>ev. about (pub_msgId p) ev \<longrightarrow> is_pubrel (pub_msgId p) ev) evs2"
    and "receive_ok po delivered sock (EvPublish p am ap # evs1 @ EvPubrel a # evs2) st"
  shows "\<exists>outs st'. run_steps (receive_event po delivered sock) st (EvPublish p am ap # evs1 @ EvPubrel a # evs2) = Some (outs, st') \<and>
    released (pub_msgId p) (EvPublish p am ap # evs1 @ EvPubrel a # evs2) outs = [as_stored p]"
  using receiving.run_simulates [OF assms(1,6)] spec_exactly_once [OF assms(2,4,3,5)] by auto

text \<open>An environment whose state is what it was given: writes succeed, and messages are recorded.\<close>

definition log_net :: "Publish list net_ops" where
  "log_net = \<lparr>op_getch = (\<lambda>w s. (TCPSOCKET_INTERRUPTED, 0, w)), op_getdata = (\<lambda>w s n. (None, 0, w)),
     op_putdatas = (\<lambda>w s b bs fr. Some (TCPSOCKET_COMPLETE, w)), op_persist_put = (\<lambda>w s b bs t m r. (0, w)), op_time = (\<lambda>w. 0)\<rparr>"

definition log_ops :: "Publish list proto_ops" where
  "log_ops = \<lparr>po_net = log_net, po_process = (\<lambda>p i st. st\<lparr>ps_world := ps_world st @ [p]\<rparr>), po_closeSession = (\<lambda>i st. st),
     po_persist_remove = (\<lambda>w c k q m. (0, w)), po_noPendingWrites = (\<lambda>w s. (True, w)), po_updateWrite = (\<lambda>w s t p. w),
     po_socket_new = (\<lambda>w a p. (0, 5, w)), po_sizeof_Messages = 48, po_sizeof_Publications = 40\<rparr>"

lemma set_client_id: "set_client i (get_client i st) st = st"
  by (simp add: set_client_def)

lemma log_ops_ok: "env_ok log_ops (\<lambda>w. w)"
proof -
  have "\<exists>w' q. po_process log_ops p i st = set_client i ((get_client i st)\<lparr>cl_messageQueue := q\<rparr>) (st\<lparr>ps_world := w'\<rparr>) \<and>
      w' = ps_world st @ [p]" for p i st
    by (rule exI [of _ "ps_world st @ [p]"], rule exI [of _ "cl_messageQueue (get_client i st)"])
      (use set_client_id [of i "st\<lparr>ps_world := ps_world st @ [p]\<rparr>"] in \<open>simp add: log_ops_def\<close>)
  then show ?thesis unfolding env_ok_def by (auto simp: log_ops_def log_net_def)
qed

definition demo_in :: "Publish list pstate" where
  "demo_in = \<lparr>ps_clients = \<lparr>elems = [demo_client 0 []], cursor = Some 0\<rparr>, ps_msgs = Map.empty, ps_pubs = Map.empty,
     ps_publications = clist_empty, ps_pending_writes = clist_empty, ps_msgs_received = 0, ps_msgs_sent = 0, ps_world = []\<rparr>"

lemma demo_in_rel: "receive_rel log_ops (\<lambda>w. w) 5 demo_in Map.empty"
proof -
  have "inbound_ok 5 0 demo_in []"
    by (intro exchange_okI client_atI) (simp_all add: demo_in_def demo_client_def pubs_ok_def list_holds_def clist_empty_def cursor_in_def)
  then show ?thesis using log_ops_ok by (auto simp: receive_rel_def pending_of_def intro!: exI [of _ 0] exI [of _ "[]"])
qed

definition demo_qos2 :: Publish where
  "demo_qos2 = demo_publish\<lparr>pub_header := 0x34\<rparr>"

definition demo_rel :: Ack where
  "demo_rel = \<lparr>ack_header = 0x62, ack_msgId = 500\<rparr>"

lemma demo_qos2_simps: "hdr_qos (pub_header demo_qos2) = 2" "pub_msgId demo_qos2 = 500" "publish_ok demo_qos2"
  "ack_msgId demo_rel = 500"
  by (simp_all add: demo_qos2_def demo_publish_def publish_ok_def demo_rel_def) code_simp

definition demo_events :: "recv_event list" where
  "demo_events = [EvPublish demo_qos2 60 70, EvPublish demo_qos2 61 71, EvPubrel demo_rel, EvPubrel demo_rel]"

lemma demo_events_ok: "receive_ok log_ops (\<lambda>w. w) 5 demo_events demo_in"
  by code_simp

theorem receive_refines_witness:
  "\<exists>st'. run_steps (receive_event log_ops (\<lambda>w. w) 5) demo_in demo_events = Some ([[], [], [as_stored demo_qos2], []], st')"
  using receive_refines [OF demo_in_rel demo_events_ok] demo_qos2_simps
  by (auto simp: demo_events_def split_beta Let_def)

theorem qos2_exactly_once_witness:
  "\<exists>outs st'. run_steps (receive_event log_ops (\<lambda>w. w) 5) demo_in demo_events = Some (outs, st') \<and>
     released 500 demo_events outs = [as_stored demo_qos2]"
proof -
  have "list_all (\<lambda>ev. \<not> about (pub_msgId demo_qos2) ev \<or> resend demo_qos2 ev) [EvPublish demo_qos2 61 71]"
    "list_all (\<lambda>ev. about (pub_msgId demo_qos2) ev \<longrightarrow> is_pubrel (pub_msgId demo_qos2) ev) [EvPubrel demo_rel]"
    by (simp_all add: resend_def about_def is_pubrel_def demo_qos2_simps)
  from qos2_exactly_once [OF demo_in_rel _ _ this, of demo_rel 60 70] demo_events_ok demo_qos2_simps
  show ?thesis by (simp add: demo_events_def)
qed

end
