(* ===== verification/Sending.thy ===== *)
theory Sending
  imports Receiving
begin

text \<open>
  The sending side of the protocol: the exchanges that \<open>MQTTProtocol_startPublish\<close> begins and the
  acknowledgements carry on (\<open>MQTTProtocol_handlePubacks\<close>, \<open>MQTTProtocol_handlePubrecs\<close>,
  \<open>MQTTProtocol_handlePubcomps\<close>), as a state machine per message id.
\<close>

section \<open>Outbound messages\<close>

definition outbound_entry :: "entry \<Rightarrow> bool" where
  "outbound_entry e \<longleftrightarrow> (case e of (a, m, p) \<Rightarrow>
     (msg_qos m = 1 \<or> msg_qos m = 2 \<and> (msg_nextMessageType m = PUBREC \<or> msg_nextMessageType m = PUBCOMP)) \<and>
     0 \<le> pbs_payloadlen p \<and> nat (pbs_payloadlen p) \<le> length (pbs_payload p))"

abbreviation outbound_ok :: "int \<Rightarrow> nat \<Rightarrow> 'w pstate \<Rightarrow> entry list \<Rightarrow> bool" where
  "outbound_ok \<equiv> exchange_ok cl_outboundMsgs outbound_entry"

lemma send_publish_ok:
  assumes "env_ok po delivered" "publish_ok p" "qos > 0"
  shows "\<exists>rc net' w'. MQTTPacket_send_publish (po_net po) p dup qos retained net w = Some (rc, net', w') \<and>
    nh_socket net' = nh_socket net \<and> delivered w' = delivered w"
proof -
  let ?h = "mk_header PUBLISH dup qos retained"
  obtain topic where topic: "pub_topic p = Some topic" using assms(2) by (auto simp: publish_ok_def)
  let ?bs = "[int_bytes (to_int32 (c_strlen topic)), c_string topic, int_bytes (pub_msgId p), take (nat (pub_payloadlen p)) (pub_payload p)]"
  let ?buf = "?h # MQTTPacket_encode (sum_list (map length ?bs))"
  define w1 where "w1 = (if hdr_type ?h = PUBLISH \<and> hdr_qos ?h \<noteq> 0 then
      snd (op_persist_put (po_net po) w (nh_socket net) ?buf ?bs (hdr_type ?h) (fst (the (readInt (int_bytes (pub_msgId p)) 0))) 0) else w)"
  have w1: "delivered w1 = delivered w" using env_ok_puts(2) [OF assms(1)] by (simp add: w1_def)
  have four: "length ?bs \<le> 4" by simp
  obtain rc w' where "op_putdatas (po_net po) w1 (nh_socket net) ?buf ?bs [True, False, True, False] = Some (rc, w')"
      "delivered w' = delivered w1"
    using env_ok_puts(1) [OF assms(1), of ?bs w1 "nh_socket net" ?buf "[True, False, True, False]", OF four] by blast
  with w1 topic assms show ?thesis
    by (auto simp: MQTTPacket_send_publish_def MQTTPacket_sends_def writeInt_put wb_put_malloc publish_ok_def readInt_Some w1_def Let_def
        split: if_splits)
qed

lemma list_holds_msg_update:
  assumes "list_holds st q ms" "k < length ms" "\<And>j. j < length ms \<Longrightarrow> j \<noteq> k \<Longrightarrow> entry_ok st' (ms ! j)"
    and "entry_ok st' e" "fst e = fst (ms ! k)" "eid e = eid (ms ! k)" "epub e = epub (ms ! k)"
  shows "list_holds st' q (ms[k := e])"
proof -
  have "map fst (ms[k := e]) = map fst ms" "map eid (ms[k := e]) = map eid ms" "map epub (ms[k := e]) = map epub ms"
    using assms(2,5-7) by (simp_all add: map_update list_update_same_conv)
  moreover have "entry_ok st' x" if "x \<in> set (ms[k := e])" for x
  proof -
    from that obtain j where "j < length ms" "x = ms[k := e] ! j" by (auto simp: in_set_conv_nth)
    then show ?thesis using assms(2-4) by (cases "j = k") auto
  qed
  ultimately show ?thesis using assms(1) unfolding list_holds_def by simp
qed

text \<open>The beginning of an exchange.\<close>

definition outbound_message :: "'w proto_ops \<Rightarrow> Publish \<Rightarrow> int \<Rightarrow> int \<Rightarrow> addr \<Rightarrow> nat \<Rightarrow> int \<Rightarrow> 'w pstate \<Rightarrow> Messages" where
  "outbound_message po p qos retained ap next0 len st = \<lparr>msg_qos = qos, msg_retain = retained, msg_msgid = pub_msgId p,
     msg_publish = ap, msg_lastTouch = op_time (po_net po) (ps_world st),
     msg_nextMessageType = (if qos = 2 then PUBREC else next0), msg_len = po_sizeof_Messages po + len\<rparr>"

lemma outbound_message_entry:
  "publish_ok p \<Longrightarrow> qos = 1 \<or> qos = 2 \<Longrightarrow> outbound_entry (am, outbound_message po p qos retained ap next0 len st, stored_publication p)"
  "eid (am, outbound_message po p qos retained ap next0 len st, b) = pub_msgId p"
  "epub (am, outbound_message po p qos retained ap next0 len st, b) = ap"
  by (auto simp: outbound_entry_def outbound_message_def stored_publication_def publish_ok_def eid_def epub_def)

lemma startPublish_effect:
  assumes "env_ok po delivered" "outbound_ok sock i st ms" "publish_ok p" "qos = 1 \<or> qos = 2"
    and "am \<notin> dom (ps_msgs st)" "ap \<notin> dom (ps_pubs st)" "pub_msgId p \<notin> eid ` set ms"
  shows "\<exists>rc st' m. MQTTProtocol_startPublish po i p qos retained None am ap next0 st = Some (rc, Some am, st') \<and>
    outbound_ok sock i st' (ms @ [(am, m, stored_publication p)]) \<and>
    msg_qos m = qos \<and> msg_retain m = retained \<and> msg_msgid m = pub_msgId p \<and> (qos = 2 \<longrightarrow> msg_nextMessageType m = PUBREC)"
proof -
  note D = exchange_okD [OF assms(2)]
  from storePublication_ok [OF assms(3), of po ap st] obtain len where
    len: "MQTTProtocol_storePublication po p ap st = Some (len,
      st\<lparr>ps_pubs := (ps_pubs st)(ap \<mapsto> stored_publication p), ps_publications := clist_append ap (ps_publications st)\<rparr>)" ..
  define m where "m = outbound_message po p qos retained ap next0 len st"
  let ?e = "(am, m, stored_publication p)"
  define c where "c = (get_client i st)\<lparr>cl_outboundMsgs := clist_append am (cl_outboundMsgs (get_client i st))\<rparr>"
  define st1 where "st1 = set_client i c (st\<lparr>ps_pubs := (ps_pubs st)(ap \<mapsto> stored_publication p),
      ps_publications := clist_append ap (ps_publications st), ps_msgs := (ps_msgs st)(am \<mapsto> m)\<rparr>)"
  define p' where "p' = p\<lparr>pub_payload := pbs_payload (stored_publication p), pub_topic := Some (pbs_topic (stored_publication p))\<rparr>"
  note e = outbound_message_entry(1) [OF assms(3,4), of am po retained ap next0 len st, folded m_def]
    outbound_message_entry(2,3) [of am po p qos retained ap next0 len st "stored_publication p", folded m_def]
  have e4: "entry_ok st1 ?e" using e(3) by (simp add: entry_ok_def st1_def stored_publication_def)
  note fresh = entry_fresh(1) [OF D(5) assms(5)] entry_fresh(2) [OF D(5) assms(6)]
  have ok: "entry_ok st1 x" if "x \<in> set ms" for x
    using that fresh D(5) by (auto simp: list_holds_def entry_ok_def st1_def)
  have "list_holds st1 (clist_append (fst ?e) (cl_outboundMsgs (get_client i st))) (ms @ [?e])"
    by (rule list_holds_append [OF D(5) e4 ok]) (use fresh assms(7) e(2,3) in simp_all)
  moreover have "get_client i st1 = c" using D(2) by (simp add: st1_def)
  moreover have "client_at st1 sock i"
    by (rule client_at_update [OF D(1), where c = c]) (use D(3) in \<open>simp_all add: st1_def c_def set_client_def\<close>)
  moreover have "pubs_ok st1" by (rule pubs_ok_store [OF D(4) assms(6)]) (simp_all add: st1_def)
  ultimately have ok1: "outbound_ok sock i st1 (ms @ [?e])" using e(1) D(6) by (intro exchange_okI) (auto simp: c_def)
  have "publish_ok p'" "qos > 0" using assms(3,4) by (auto simp: p'_def publish_ok_def stored_publication_def)
  then obtain rc st' where s: "client_send i (MQTTPacket_send_publish (po_net po) p' 0 qos retained) st1 = Some (rc, st')"
    "outbound_ok sock i st' (ms @ [?e])"
    by (metis outbound.ok_send [OF ok1, where delivered = delivered] send_publish_ok [OF assms(1)])
  have "MQTTProtocol_createMessage po p None qos retained am ap next0 st =
      Some (st\<lparr>ps_pubs := (ps_pubs st)(ap \<mapsto> stored_publication p),
        ps_publications := clist_append ap (ps_publications st), ps_msgs := (ps_msgs st)(am \<mapsto> m)\<rparr>)"
    by (simp add: MQTTProtocol_createMessage_def len m_def outbound_message_def)
  then have "MQTTProtocol_startPublish po i p qos retained None am ap next0 st = Some (rc, Some am, st')"
    using s(1) \<open>qos > 0\<close> e(3)
    by (simp add: MQTTProtocol_startPublish_def MQTTProtocol_startPublishCommon_def p'_def [symmetric] c_def [symmetric]
        st1_def [symmetric] epub_def Let_def)
  with s(2) show ?thesis by (auto simp: m_def outbound_message_def)
qed

text \<open>Acknowledgements.\<close>

lemma seek_outbound_effect:
  assumes "outbound_ok sock i st ms"
  shows "case find_index (\<lambda>e. eid e = n) ms of
      None \<Rightarrow> seek_outbound i n st = Some (None, st)
    | Some k \<Rightarrow> \<exists>st'. seek_outbound i n st = Some (Some (fst (ms ! k)), st') \<and> outbound_ok sock i st' ms \<and>
        k < length ms \<and> eid (ms ! k) = n \<and> ps_msgs st' (fst (ms ! k)) = Some (fst (snd (ms ! k)))"
proof -
  note D = exchange_okD [OF assms]
  show ?thesis
  proof (cases "find_index (\<lambda>e. eid e = n) ms")
    case None
    then show ?thesis by (simp add: seek_outbound_def find_msg_entries [OF D(5)] Let_def)
  next
    case (Some k)
    from find_index_SomeD [OF Some] have k: "k < length ms" "eid (ms ! k) = n" by auto
    with Some outbound.ok_position [OF assms k(1)] entry_nth [OF D(5) k(1)] D(5) show ?thesis
      by (simp add: seek_outbound_def find_msg_entries [OF D(5)] entry_ok_def list_holds_def Let_def)
  qed
qed

lemma outbound_remove_effect:
  assumes "outbound_ok sock i st ms" "k < length ms"
  shows "\<exists>st'. outbound_remove i (fst (ms ! k)) st = Some st' \<and> outbound_ok sock i st' (remove_nth k ms)"
proof -
  let ?a = "fst (ms ! k)"
  note D = exchange_okD [OF assms(1)]
  from entry_nth [OF D(5) assms(2)] have old: "ps_msgs st ?a = Some (fst (snd (ms ! k)))"
      "ps_pubs st (epub (ms ! k)) = Some (snd (snd (ms ! k)))" "pbs_refcount (snd (snd (ms ! k))) = 1"
    by (simp_all add: entry_ok_def)
  from removePublication_last [OF D(4) old(2,3)] obtain st1 where
    st1: "MQTTProtocol_removePublication (epub (ms ! k)) st = Some st1" "pubs_ok st1"
    "st1 = st\<lparr>ps_pubs := (ps_pubs st)(epub (ms ! k) := None),
      ps_publications := clist_unlink (\<lambda>x. x = epub (ms ! k)) (ps_publications st)\<rparr>" by blast
  define c where "c = (get_client i st)\<lparr>cl_outboundMsgs := clist_unlink (\<lambda>x. x = ?a) (cl_outboundMsgs (get_client i st))\<rparr>"
  define st2 where "st2 = free_msg ?a (set_client i c st1)"
  have "entry_ok st2 (ms ! j)" if "j < length ms" "j \<noteq> k" for j
    using entry_nth [OF D(5) that(1)] entry_other [OF D(5) that(1) assms(2) that(2)]
    by (simp add: entry_ok_def st2_def free_msg_def st1(3))
  then have "list_holds st2 (clist_unlink (\<lambda>x. x = ?a) (cl_outboundMsgs (get_client i st))) (remove_nth k ms)"
    by (rule list_holds_remove [OF D(5) assms(2)])
  moreover have "get_client i st2 = c" using D(2) by (simp add: st2_def free_msg_def st1(3))
  moreover have "client_at st2 sock i"
    by (rule client_at_update [OF D(1), where c = c])
      (use D(3) in \<open>simp_all add: st2_def free_msg_def st1(3) c_def set_client_def\<close>)
  moreover have "pubs_ok st2" using st1(2) by (simp add: st2_def free_msg_def pubs_ok_def)
  ultimately have "outbound_ok sock i st2 (remove_nth k ms)"
    using D(6) set_remove_nth_subset [of k ms] by (intro exchange_okI) (auto simp: c_def)
  moreover have "outbound_remove i ?a st = Some st2"
    using old(1) st1(1) by (simp add: outbound_remove_def epub_def st2_def c_def st1(3) Let_def)
  ultimately show ?thesis by blast
qed

lemma persist_remove_effect:
  assumes "outbound_ok sock i st ms"
  obtains rc st' where "persist_remove po i kind qos n st = (rc, st')" "outbound_ok sock i st' ms" "ps_msgs st' = ps_msgs st"
proof -
  note D = exchange_okD [OF assms]
  obtain rc w where "po_persist_remove po (ps_world st) (get_client i st) kind qos n = (rc, w)" by fastforce
  moreover have "outbound_ok sock i (set_client i (get_client i st) (st\<lparr>ps_world := w\<rparr>)) ms"
    by (rule exchange_ok_update [OF assms]) (use D in simp_all)
  moreover have "set_client i (get_client i st) (st\<lparr>ps_world := w\<rparr>) = st\<lparr>ps_world := w\<rparr>" by (simp add: set_client_def)
  ultimately show thesis by (intro that [of rc "st\<lparr>ps_world := w\<rparr>"]) (simp_all add: persist_remove_def)
qed

text \<open>The acknowledgement that ends an exchange: its message is removed.\<close>

lemma finish_effect:
  assumes "outbound_ok sock i st ms" "k < length ms"
  shows "\<exists>rc st'. (let (rc, st) = persist_remove po i kind qos n st in
      Option.bind (outbound_remove i (fst (ms ! k)) st) (\<lambda>st. Some (rc, f st))) = Some (rc, f st') \<and>
    outbound_ok sock i st' (remove_nth k ms)"
proof -
  obtain rc st1 where st1: "persist_remove po i kind qos n st = (rc, st1)" "outbound_ok sock i st1 ms"
    by (rule persist_remove_effect [OF assms(1)])
  from outbound_remove_effect [OF st1(2) assms(2)] st1(1) show ?thesis by auto
qed

lemma puback_effect:
  assumes "outbound_ok sock i st ms"
  shows "\<exists>rc st'. MQTTProtocol_handlePubacks po a sock st = Some (rc, st') \<and> outbound_ok sock i st'
    (case find_index (\<lambda>e. eid e = ack_msgId a) ms of None \<Rightarrow> ms
     | Some k \<Rightarrow> if msg_qos (fst (snd (ms ! k))) = 1 then remove_nth k ms else ms)"
proof -
  define st1 where "st1 = st\<lparr>ps_clients := (ps_clients st)\<lparr>cursor := Some i\<rparr>\<rparr>"
  have ok1: "outbound_ok sock i st1 ms" using exchange_ok_seek [OF assms] by (simp add: st1_def)
  note start = MQTTProtocol_handlePubacks_def find_client_at [OF exchange_okD(1) [OF assms], folded st1_def]
  show ?thesis
  proof (cases "find_index (\<lambda>e. eid e = ack_msgId a) ms")
    case None
    with seek_outbound_effect [OF ok1, of "ack_msgId a"] ok1 show ?thesis by (simp add: start)
  next
    case (Some k)
    with seek_outbound_effect [OF ok1, of "ack_msgId a"] obtain st2 where
      st2: "seek_outbound i (ack_msgId a) st1 = Some (Some (fst (ms ! k)), st2)" "outbound_ok sock i st2 ms"
        "k < length ms" "ps_msgs st2 (fst (ms ! k)) = Some (fst (snd (ms ! k)))" by auto
    from finish_effect [OF st2(2,3), where po = po and kind = "''s-''" and qos = 1 and n = "ack_msgId a" and f = "\<lambda>s. s"]
      Some st2 show ?thesis by (auto simp: start)
  qed
qed

lemma pubcomp_effect:
  assumes "outbound_ok sock i st ms"
  shows "\<exists>rc st'. MQTTProtocol_handlePubcomps po a sock st = Some (rc, st') \<and> outbound_ok sock i st'
    (case find_index (\<lambda>e. eid e = ack_msgId a) ms of None \<Rightarrow> ms
     | Some k \<Rightarrow> if msg_qos (fst (snd (ms ! k))) = 2 \<and> msg_nextMessageType (fst (snd (ms ! k))) = PUBCOMP
         then remove_nth k ms else ms)"
proof -
  define st1 where "st1 = st\<lparr>ps_clients := (ps_clients st)\<lparr>cursor := Some i\<rparr>\<rparr>"
  have ok1: "outbound_ok sock i st1 ms" using exchange_ok_seek [OF assms] by (simp add: st1_def)
  have sent: "outbound_ok sock i (st\<lparr>ps_msgs_sent := n\<rparr>) xs = outbound_ok sock i st xs" for st :: "'a pstate" and n xs
    by (simp add: exchange_ok_def client_at_def pubs_ok_def list_holds_def entry_ok_def)
  note start = MQTTProtocol_handlePubcomps_def find_client_at [OF exchange_okD(1) [OF assms], folded st1_def]
  show ?thesis
  proof (cases "find_index (\<lambda>e. eid e = ack_msgId a) ms")
    case None
    with seek_outbound_effect [OF ok1, of "ack_msgId a"] ok1 show ?thesis by (simp add: start)
  next
    case (Some k)
    with seek_outbound_effect [OF ok1, of "ack_msgId a"] obtain st2 where
      st2: "seek_outbound i (ack_msgId a) st1 = Some (Some (fst (ms ! k)), st2)" "outbound_ok sock i st2 ms"
        "k < length ms" "ps_msgs st2 (fst (ms ! k)) = Some (fst (snd (ms ! k)))" by auto
    from finish_effect [OF st2(2,3), where po = po and kind = "''s-''" and qos = 2 and n = "ack_msgId a" and
        f = "\<lambda>s. s\<lparr>ps_msgs_sent := ps_msgs_sent s + 1\<rparr>"]
      Some st2 show ?thesis by (auto simp: start sent)
  qed
qed

text \<open>A PUBREC moves its message on to waiting for the PUBCOMP.\<close>

definition await_pubcomp :: "int \<Rightarrow> entry \<Rightarrow> entry" where
  "await_pubcomp t e = (case e of (a, m, p) \<Rightarrow> (a, m\<lparr>msg_nextMessageType := PUBCOMP, msg_lastTouch := t\<rparr>, p))"

lemma await_pubcomp_entry: "outbound_entry e \<Longrightarrow> msg_qos (fst (snd e)) = 2 \<Longrightarrow> outbound_entry (await_pubcomp t e)"
  by (auto simp: await_pubcomp_def outbound_entry_def split: prod.splits)

lemma pubrec_effect:
  assumes "env_ok po delivered" "outbound_ok sock i st ms"
  shows "\<exists>rc st' t. MQTTProtocol_handlePubrecs po a sock st = Some (rc, st') \<and> outbound_ok sock i st'
    (case find_index (\<lambda>e. eid e = ack_msgId a) ms of None \<Rightarrow> ms
     | Some k \<Rightarrow> if msg_qos (fst (snd (ms ! k))) = 2 \<and> msg_nextMessageType (fst (snd (ms ! k))) = PUBREC
         then ms[k := await_pubcomp t (ms ! k)] else ms)"
proof -
  define st1 where "st1 = st\<lparr>ps_clients := (ps_clients st)\<lparr>cursor := Some i\<rparr>\<rparr>"
  define c where "c = (get_client i st1)\<lparr>cl_outboundMsgs := (cl_outboundMsgs (get_client i st1))\<lparr>cursor := None\<rparr>\<rparr>"
  define st2 where "st2 = set_client i c st1"
  have ok1: "outbound_ok sock i st1 ms" using exchange_ok_seek [OF assms(2)] by (simp add: st1_def)
  have ok2: "outbound_ok sock i st2 ms"
    using exchange_ok_update [OF ok1, of c "ps_world st1"] exchange_okD [OF ok1]
    by (simp add: c_def st2_def cursor_in_def)
  note start = MQTTProtocol_handlePubrecs_def find_client_at [OF exchange_okD(1) [OF assms(2)], folded st1_def]
    c_def [symmetric] st2_def [symmetric] send_ack_eqs
  show ?thesis
  proof (cases "find_index (\<lambda>e. eid e = ack_msgId a) ms")
    case None
    with seek_outbound_effect [OF ok2, of "ack_msgId a"] ok2 show ?thesis by (simp add: start)
  next
    case (Some k)
    with seek_outbound_effect [OF ok2, of "ack_msgId a"] obtain st3 where
      st3: "seek_outbound i (ack_msgId a) st2 = Some (Some (fst (ms ! k)), st3)" "outbound_ok sock i st3 ms"
        "k < length ms" "ps_msgs st3 (fst (ms ! k)) = Some (fst (snd (ms ! k)))" by auto
    obtain rc st4 where s: "client_send i (MQTTPacket_send_ack (po_net po) PUBREL (ack_msgId a) 0) st3 = Some (rc, st4)"
      "outbound_ok sock i st4 ms" by (rule outbound.ok_send_ack [OF assms(1) st3(2)])
    define t where "t = op_time (po_net po) (ps_world st4)"
    let ?e = "await_pubcomp t (ms ! k)"
    let ?st = "st4\<lparr>ps_msgs := (ps_msgs st4)(fst (ms ! k) \<mapsto> fst (snd ?e))\<rparr>"
    note D = exchange_okD [OF s(2)]
    have e: "fst ?e = fst (ms ! k)" "eid ?e = eid (ms ! k)" "epub ?e = epub (ms ! k)" "snd (snd ?e) = snd (snd (ms ! k))"
        "fst (snd ?e) = (fst (snd (ms ! k)))\<lparr>msg_nextMessageType := PUBCOMP, msg_lastTouch := t\<rparr>"
      by (simp_all add: await_pubcomp_def eid_def epub_def split_beta)
    have "outbound_ok sock i ?st (ms[k := ?e])" if q: "msg_qos (fst (snd (ms ! k))) = 2"
    proof (rule exchange_okI)
      show "list_holds ?st (cl_outboundMsgs (get_client i ?st)) (ms[k := ?e])"
      proof (rule list_holds_msg_update [where st = st4])
        show "entry_ok ?st (ms ! j)" if "j < length ms" "j \<noteq> k" for j
          using entry_nth [OF D(5) that(1)] entry_other(1) [OF D(5) that(1) st3(3) that(2)] by (simp add: entry_ok_def)
        show "entry_ok ?st ?e" using entry_nth [OF D(5) st3(3)] e by (simp add: entry_ok_def)
      qed (use D(5) st3(3) e in simp_all)
      show "outbound_entry x" if "x \<in> set (ms[k := ?e])" for x
        using set_mp [OF set_update_subset_insert that] D(6) await_pubcomp_entry [OF D(6) [OF nth_mem [OF st3(3)]] q] by blast
    qed (use D in \<open>simp_all add: client_at_def pubs_ok_def\<close>)
    with Some st3 s e(5) show ?thesis by (auto simp: start t_def)
  qed
qed

section \<open>Refinement: one state machine per message\<close>

text \<open>
  The sending side as a machine: its operations are the beginning of an exchange (with an id not in use,
  as \<open>MQTTProtocol_assignMsgId\<close> returns) and the acknowledgements that arrive; its results the ids
  whose exchange ends. Its specification keeps the stage of every message, with what is stored to send
  it again.
\<close>

datatype stage = AwaitPuback | AwaitPubrec | AwaitPubcomp

datatype send_event = SendPublish Publish int int addr addr nat | RecvPuback Ack | RecvPubrec Ack | RecvPubcomp Ack

type_synonym inflight = "int \<rightharpoonup> stage \<times> int \<times> Publications"

definition outbound_ids :: "nat \<Rightarrow> 'w pstate \<Rightarrow> int list" where
  "outbound_ids i st = msg_ids st (cl_outboundMsgs (get_client i st))"

definition send_step :: "'w proto_ops \<Rightarrow> int \<Rightarrow> nat \<Rightarrow> 'w pstate \<Rightarrow> send_event \<Rightarrow> (int list \<times> 'w pstate) option" where
  "send_step po sock i st ev = do {
     (rc, st') \<leftarrow> (case ev of
         SendPublish p qos retained am ap next0 \<Rightarrow>
           map_option (\<lambda>(rc, mm, st). (rc, st)) (MQTTProtocol_startPublish po i p qos retained None am ap next0 st)
       | RecvPuback a \<Rightarrow> MQTTProtocol_handlePubacks po a sock st
       | RecvPubrec a \<Rightarrow> MQTTProtocol_handlePubrecs po a sock st
       | RecvPubcomp a \<Rightarrow> MQTTProtocol_handlePubcomps po a sock st);
     Some (filter (\<lambda>n. n \<notin> set (outbound_ids i st')) (outbound_ids i st), st')
   }"

definition at_stage :: "inflight \<Rightarrow> int \<Rightarrow> stage \<Rightarrow> bool" where
  "at_stage infl n s \<longleftrightarrow> (case infl n of None \<Rightarrow> False | Some (s', x) \<Rightarrow> s' = s)"

fun send_spec :: "inflight \<Rightarrow> send_event \<Rightarrow> int list \<times> inflight" where
  "send_spec infl (SendPublish p qos retained am ap next0) =
     ([], infl(pub_msgId p \<mapsto> (if qos = 1 then AwaitPuback else AwaitPubrec, retained, stored_publication p)))"
| "send_spec infl (RecvPuback a) =
     (if at_stage infl (ack_msgId a) AwaitPuback then ([ack_msgId a], infl(ack_msgId a := None)) else ([], infl))"
| "send_spec infl (RecvPubrec a) =
     (if at_stage infl (ack_msgId a) AwaitPubrec
      then ([], infl(ack_msgId a \<mapsto> (AwaitPubcomp, snd (the (infl (ack_msgId a)))))) else ([], infl))"
| "send_spec infl (RecvPubcomp a) =
     (if at_stage infl (ack_msgId a) AwaitPubcomp then ([ack_msgId a], infl(ack_msgId a := None)) else ([], infl))"

fun sends_ok :: "'w proto_ops \<Rightarrow> int \<Rightarrow> nat \<Rightarrow> send_event list \<Rightarrow> 'w pstate \<Rightarrow> bool" where
  "sends_ok po sock i [] st \<longleftrightarrow> True"
| "sends_ok po sock i (ev # evs) st \<longleftrightarrow>
     (case ev of SendPublish p qos retained am ap next0 \<Rightarrow>
        publish_ok p \<and> (qos = 1 \<or> qos = 2) \<and> ps_msgs st am = None \<and> ps_pubs st ap = None \<and> pub_msgId p \<notin> set (outbound_ids i st)
      | _ \<Rightarrow> True) \<and>
     (case send_step po sock i st ev of None \<Rightarrow> True | Some (r, st') \<Rightarrow> sends_ok po sock i evs st')"

definition entry_stage :: "entry \<Rightarrow> stage \<times> int \<times> Publications" where
  "entry_stage e = (case e of (a, m, p) \<Rightarrow>
     (if msg_qos m = 1 then AwaitPuback else if msg_nextMessageType m = PUBREC then AwaitPubrec else AwaitPubcomp, msg_retain m, p))"

definition inflight_of :: "entry list \<Rightarrow> inflight" where
  "inflight_of ms = map_of (map (\<lambda>e. (eid e, entry_stage e)) ms)"

definition send_rel :: "'w proto_ops \<Rightarrow> ('w \<Rightarrow> Publish list) \<Rightarrow> int \<Rightarrow> nat \<Rightarrow> 'w pstate \<Rightarrow> inflight \<Rightarrow> bool" where
  "send_rel po delivered sock i st infl \<longleftrightarrow> env_ok po delivered \<and> (\<exists>ms. outbound_ok sock i st ms \<and> infl = inflight_of ms)"

lemma outbound_ids_eq: "outbound_ok sock i st ms \<Longrightarrow> outbound_ids i st = map eid ms"
  using exchange_okD(5) [of cl_outboundMsgs outbound_entry sock i st ms]
  by (auto simp: outbound_ids_def msg_ids_def list_holds_def entry_ok_def eid_def)

lemma inflight_find:
  "distinct (map eid ms) \<Longrightarrow> inflight_of ms n = map_option (\<lambda>k. entry_stage (ms ! k)) (find_index (\<lambda>e. eid e = n) ms)"
  unfolding inflight_of_def by (induction ms) (auto simp: option.map_comp comp_def)

lemma inflight_update:
  "distinct (map eid ms) \<Longrightarrow> k < length ms \<Longrightarrow> eid e = eid (ms ! k) \<Longrightarrow>
   inflight_of (ms[k := e]) = (inflight_of ms)(eid (ms ! k) \<mapsto> entry_stage e)"
  using map_of_list_update [of k "map (\<lambda>e. (eid e, entry_stage e)) ms" "entry_stage e"]
  by (simp add: inflight_of_def map_update comp_def)

lemma inflight_remove:
  "distinct (map eid ms) \<Longrightarrow> k < length ms \<Longrightarrow> inflight_of (remove_nth k ms) = (inflight_of ms)(eid (ms ! k) := None)"
  using map_of_remove_nth [of k "map (\<lambda>e. (eid e, entry_stage e)) ms"] by (simp add: inflight_of_def map_remove_nth comp_def)

lemma inflight_append: "eid e \<notin> eid ` set ms \<Longrightarrow> inflight_of (ms @ [e]) = (inflight_of ms)(eid e \<mapsto> entry_stage e)"
proof -
  assume "eid e \<notin> eid ` set ms"
  then have "map_of (map (\<lambda>e. (eid e, entry_stage e)) ms) (eid e) = None" by (auto simp: map_of_eq_None_iff)
  then show ?thesis by (auto simp: inflight_of_def fun_eq_iff map_add_def split: option.splits)
qed

lemma filter_removed: "distinct xs \<Longrightarrow> k < length xs \<Longrightarrow> filter (\<lambda>x. x \<notin> set (remove_nth k xs)) xs = [xs ! k]"
proof -
  assume a: "distinct xs" "k < length xs"
  then have "filter (\<lambda>x. x \<notin> set (remove_nth k xs)) xs = filter (\<lambda>x. x = xs ! k) xs"
    by (intro filter_cong) (auto simp: set_remove_nth)
  moreover have "filter (\<lambda>y. y = x) xs = [x]" if "x \<in> set xs" for x
    using a(1) that by (induction xs) (auto simp: filter_empty_conv)
  ultimately show ?thesis using a by simp
qed

text \<open>A step that keeps the entries, ends one exchange, or changes one message.\<close>

lemma step_keep: "map eid ms' = map eid ms @ ns \<Longrightarrow> filter (\<lambda>n. n \<notin> set (map eid ms')) (map eid ms) = []"
  by (auto simp: filter_empty_conv)

lemma step_finish:
  "distinct (map eid ms) \<Longrightarrow> k < length ms \<Longrightarrow>
   filter (\<lambda>n. n \<notin> set (map eid (remove_nth k ms))) (map eid ms) = [eid (ms ! k)]"
  using filter_removed [of "map eid ms" k] by (simp add: map_remove_nth)

lemma at_stage_find:
  assumes "outbound_ok sock i st ms"
  shows "at_stage (inflight_of ms) n s \<longleftrightarrow>
    (case find_index (\<lambda>e. eid e = n) ms of None \<Rightarrow> False | Some k \<Rightarrow> fst (entry_stage (ms ! k)) = s)"
  using exchange_okD(8) [OF assms]
  by (auto simp: at_stage_def inflight_find split_beta split: option.splits)

lemma entry_stage_iff:
  assumes "outbound_ok sock i st ms" "k < length ms"
  shows "fst (entry_stage (ms ! k)) = AwaitPuback \<longleftrightarrow> msg_qos (fst (snd (ms ! k))) = 1"
    "fst (entry_stage (ms ! k)) = AwaitPubrec \<longleftrightarrow>
       msg_qos (fst (snd (ms ! k))) = 2 \<and> msg_nextMessageType (fst (snd (ms ! k))) = PUBREC"
    "fst (entry_stage (ms ! k)) = AwaitPubcomp \<longleftrightarrow>
       msg_qos (fst (snd (ms ! k))) = 2 \<and> msg_nextMessageType (fst (snd (ms ! k))) = PUBCOMP"
  using exchange_okD(6) [OF assms(1) nth_mem [OF assms(2)]] by (auto simp: entry_stage_def outbound_entry_def split: prod.splits)

lemma ack_step:
  assumes "outbound_ok sock i st ms" "outbound_ok sock i st' (case find_index (\<lambda>e. eid e = n) ms of None \<Rightarrow> ms
      | Some k \<Rightarrow> if fst (entry_stage (ms ! k)) = s then remove_nth k ms else ms)"
  shows "filter (\<lambda>x. x \<notin> set (outbound_ids i st')) (outbound_ids i st) = (if at_stage (inflight_of ms) n s then [n] else [])"
    "\<exists>ms'. outbound_ok sock i st' ms' \<and> (if at_stage (inflight_of ms) n s then (inflight_of ms)(n := None) else inflight_of ms) = inflight_of ms'"
proof -
  note dist = exchange_okD(8) [OF assms(1)]
  let ?ms = "case find_index (\<lambda>e. eid e = n) ms of None \<Rightarrow> ms
      | Some k \<Rightarrow> if fst (entry_stage (ms ! k)) = s then remove_nth k ms else ms"
  have *: "filter (\<lambda>x. x \<notin> set (map eid ?ms)) (map eid ms) = (if at_stage (inflight_of ms) n s then [n] else []) \<and>
      (if at_stage (inflight_of ms) n s then (inflight_of ms)(n := None) else inflight_of ms) = inflight_of ?ms"
    using step_finish [OF dist] inflight_remove [OF dist] step_keep [of ms ms "[]"]
    by (auto simp: at_stage_find [OF assms(1)] split: option.splits dest!: find_index_SomeD)
  then show "filter (\<lambda>x. x \<notin> set (outbound_ids i st')) (outbound_ids i st) = (if at_stage (inflight_of ms) n s then [n] else [])"
    unfolding outbound_ids_eq [OF assms(1)] outbound_ids_eq [OF assms(2)] by blast
  show "\<exists>ms'. outbound_ok sock i st' ms' \<and> (if at_stage (inflight_of ms) n s then (inflight_of ms)(n := None) else inflight_of ms) = inflight_of ms'"
    using * assms(2) by blast
qed

lemma send_event_publish:
  assumes "env_ok po delivered" "outbound_ok sock i st ms" "sends_ok po sock i (SendPublish p qos retained am ap next0 # evs) st"
  shows "\<exists>st'. send_step po sock i st (SendPublish p qos retained am ap next0) =
        Some (fst (send_spec (inflight_of ms) (SendPublish p qos retained am ap next0)), st') \<and>
    (\<exists>ms'. outbound_ok sock i st' ms' \<and> snd (send_spec (inflight_of ms) (SendPublish p qos retained am ap next0)) = inflight_of ms')"
proof -
  from assms(3) have p: "publish_ok p" "qos = 1 \<or> qos = 2" "am \<notin> dom (ps_msgs st)" "ap \<notin> dom (ps_pubs st)" "pub_msgId p \<notin> eid ` set ms"
    using outbound_ids_eq [OF assms(2)] by auto
  from startPublish_effect [OF assms(1,2) p, of retained next0] obtain rc st' m where
    s: "MQTTProtocol_startPublish po i p qos retained None am ap next0 st = Some (rc, Some am, st')"
    "outbound_ok sock i st' (ms @ [(am, m, stored_publication p)])" "msg_qos m = qos" "msg_retain m = retained"
    "msg_msgid m = pub_msgId p" "qos = 2 \<longrightarrow> msg_nextMessageType m = PUBREC" by blast
  have e: "eid (am, m, stored_publication p) = pub_msgId p" using s(5) by (simp add: eid_def)
  have "send_step po sock i st (SendPublish p qos retained am ap next0) = Some ([], st')"
    using s(1) step_keep [of "ms @ [(am, m, stored_publication p)]" ms "[pub_msgId p]"] e
    by (simp add: send_step_def outbound_ids_eq [OF assms(2)] outbound_ids_eq [OF s(2)])
  moreover have "snd (send_spec (inflight_of ms) (SendPublish p qos retained am ap next0)) = inflight_of (ms @ [(am, m, stored_publication p)])"
    using inflight_append [of "(am, m, stored_publication p)" ms] p(2,5) e s(3,4,6) by (auto simp: entry_stage_def)
  ultimately show ?thesis using s(2) unfolding send_spec.simps(1) fst_conv by blast
qed

lemma send_event_pubrec:
  assumes "env_ok po delivered" "outbound_ok sock i st ms"
  shows "\<exists>st'. send_step po sock i st (RecvPubrec a) = Some (fst (send_spec (inflight_of ms) (RecvPubrec a)), st') \<and>
    (\<exists>ms'. outbound_ok sock i st' ms' \<and> snd (send_spec (inflight_of ms) (RecvPubrec a)) = inflight_of ms')"
proof -
  note dist = exchange_okD(8) [OF assms(2)]
  from pubrec_effect [OF assms, of a] obtain rc st' t where st':
    "MQTTProtocol_handlePubrecs po a sock st = Some (rc, st')" "outbound_ok sock i st'
      (case find_index (\<lambda>e. eid e = ack_msgId a) ms of None \<Rightarrow> ms
       | Some k \<Rightarrow> if msg_qos (fst (snd (ms ! k))) = 2 \<and> msg_nextMessageType (fst (snd (ms ! k))) = PUBREC
         then ms[k := await_pubcomp t (ms ! k)] else ms)" (is "outbound_ok sock i st' ?ms") by blast
  have aw: "eid (await_pubcomp t e) = eid e" "fst (entry_stage e) = AwaitPubrec \<Longrightarrow> entry_stage (await_pubcomp t e) = (AwaitPubcomp, snd (entry_stage e))" for e
    by (auto simp: await_pubcomp_def eid_def entry_stage_def split: prod.splits if_splits)
  have ids: "map eid ?ms = map eid ms" by (auto simp: map_update aw(1) list_update_same_conv split: option.splits dest!: find_index_SomeD)
  have "send_step po sock i st (RecvPubrec a) = Some (fst (send_spec (inflight_of ms) (RecvPubrec a)), st')"
    using st'(1) by (auto simp: send_step_def outbound_ids_eq [OF assms(2)] outbound_ids_eq [OF st'(2), unfolded ids] filter_empty_conv)
  moreover have "snd (send_spec (inflight_of ms) (RecvPubrec a)) = inflight_of ?ms"
  proof (cases "find_index (\<lambda>e. eid e = ack_msgId a) ms")
    case None
    then show ?thesis by (simp add: at_stage_find [OF assms(2)])
  next
    case (Some k)
    from find_index_SomeD [OF Some] have k: "k < length ms" "eid (ms ! k) = ack_msgId a" by auto
    from Some entry_stage_iff(2) [OF assms(2) k(1)] inflight_update [OF dist k(1), of "await_pubcomp t (ms ! k)"]
      inflight_find [OF dist, of "ack_msgId a"] aw [of "ms ! k"] k(2)
    show ?thesis by (auto simp: at_stage_find [OF assms(2)])
  qed
  ultimately show ?thesis using st'(2) by blast
qed

lemma send_event_done:
  assumes "outbound_ok sock i st ms"
  shows "\<exists>st'. send_step po sock i st (RecvPuback a) = Some (fst (send_spec (inflight_of ms) (RecvPuback a)), st') \<and>
      (\<exists>ms'. outbound_ok sock i st' ms' \<and> snd (send_spec (inflight_of ms) (RecvPuback a)) = inflight_of ms')"
    "\<exists>st'. send_step po sock i st (RecvPubcomp a) = Some (fst (send_spec (inflight_of ms) (RecvPubcomp a)), st') \<and>
      (\<exists>ms'. outbound_ok sock i st' ms' \<and> snd (send_spec (inflight_of ms) (RecvPubcomp a)) = inflight_of ms')"
proof -
  note stage = entry_stage_iff(1,3) [OF assms]
  from puback_effect [OF assms, of po a] obtain rc st' where st': "MQTTProtocol_handlePubacks po a sock st = Some (rc, st')"
    "outbound_ok sock i st' (case find_index (\<lambda>e. eid e = ack_msgId a) ms of None \<Rightarrow> ms
      | Some k \<Rightarrow> if fst (entry_stage (ms ! k)) = AwaitPuback then remove_nth k ms else ms)"
    using stage(1) by (auto split: option.splits dest!: find_index_SomeD)
  from ack_step [OF assms st'(2)] st'(1)
  show "\<exists>st'. send_step po sock i st (RecvPuback a) = Some (fst (send_spec (inflight_of ms) (RecvPuback a)), st') \<and>
      (\<exists>ms'. outbound_ok sock i st' ms' \<and> snd (send_spec (inflight_of ms) (RecvPuback a)) = inflight_of ms')"
    by (auto simp: send_step_def split: if_splits)
  from pubcomp_effect [OF assms, of po a] obtain rc st' where st': "MQTTProtocol_handlePubcomps po a sock st = Some (rc, st')"
    "outbound_ok sock i st' (case find_index (\<lambda>e. eid e = ack_msgId a) ms of None \<Rightarrow> ms
      | Some k \<Rightarrow> if fst (entry_stage (ms ! k)) = AwaitPubcomp then remove_nth k ms else ms)"
    using stage(2) by (auto split: option.splits dest!: find_index_SomeD)
  from ack_step [OF assms st'(2)] st'(1)
  show "\<exists>st'. send_step po sock i st (RecvPubcomp a) = Some (fst (send_spec (inflight_of ms) (RecvPubcomp a)), st') \<and>
      (\<exists>ms'. outbound_ok sock i st' ms' \<and> snd (send_spec (inflight_of ms) (RecvPubcomp a)) = inflight_of ms')"
    by (auto simp: send_step_def split: if_splits)
qed

lemma send_event_step:
  assumes "send_rel po delivered sock i st infl" "sends_ok po sock i (ev # evs) st"
  shows "\<exists>st'. send_step po sock i st ev = Some (fst (send_spec infl ev), st') \<and>
    send_rel po delivered sock i st' (snd (send_spec infl ev)) \<and> sends_ok po sock i evs st'"
proof -
  from assms(1) obtain ms where env: "env_ok po delivered" and ok: "outbound_ok sock i st ms" and infl: "infl = inflight_of ms"
    by (auto simp: send_rel_def)
  have "\<exists>st'. send_step po sock i st ev = Some (fst (send_spec infl ev), st') \<and> send_rel po delivered sock i st' (snd (send_spec infl ev))"
  proof (cases ev)
    case (SendPublish p qos retained am ap next0)
    show ?thesis using send_event_publish [OF env ok assms(2) [unfolded SendPublish]] env unfolding send_rel_def infl SendPublish by blast
  next
    case (RecvPuback a)
    show ?thesis using send_event_done(1) [OF ok, of po a] env unfolding send_rel_def infl RecvPuback by blast
  next
    case (RecvPubrec a)
    show ?thesis using send_event_pubrec [OF env ok, of a] env unfolding send_rel_def infl RecvPubrec by blast
  next
    case (RecvPubcomp a)
    show ?thesis using send_event_done(2) [OF ok, of po a] env unfolding send_rel_def infl RecvPubcomp by blast
  qed
  with assms(2) show ?thesis by auto
qed

interpretation sending: simulation "send_rel po delivered sock i" "send_step po sock i" send_spec "sends_ok po sock i"
  by unfold_locales (rule send_event_step)

section \<open>Properties\<close>

text \<open>The exchange of one message, from the acknowledgements of its id; \<open>None\<close> when it is complete.\<close>

fun advance :: "int \<Rightarrow> stage option \<Rightarrow> send_event \<Rightarrow> stage option" where
  "advance n (Some AwaitPuback) (RecvPuback a) = (if ack_msgId a = n then None else Some AwaitPuback)"
| "advance n (Some AwaitPubrec) (RecvPubrec a) = (if ack_msgId a = n then Some AwaitPubcomp else Some AwaitPubrec)"
| "advance n (Some AwaitPubcomp) (RecvPubcomp a) = (if ack_msgId a = n then None else Some AwaitPubcomp)"
| "advance n s ev = s"

definition sends_id :: "int \<Rightarrow> send_event \<Rightarrow> bool" where
  "sends_id n ev \<longleftrightarrow> (case ev of SendPublish p qos retained am ap next0 \<Rightarrow> pub_msgId p = n | _ \<Rightarrow> False)"

lemma advance_spec:
  assumes "infl n = map_option (\<lambda>s. (s, x)) s" "\<not> sends_id n ev"
  shows "snd (send_spec infl ev) n = map_option (\<lambda>s. (s, x)) (advance n s ev)"
    "filter (\<lambda>m. m = n) (fst (send_spec infl ev)) = (if s \<noteq> None \<and> advance n s ev = None then [n] else [])"
  using assms
  by (cases "(n, s, ev)" rule: advance.cases;
      auto simp: at_stage_def sends_id_def split: option.splits send_event.splits)+

lemma advance_None: "advance n None ev = None"
  by (cases ev) simp_all

lemma advances_None: "foldl (advance n) None evs = None"
  by (induction evs) (simp_all add: advance_None)

lemma advances_spec:
  assumes "infl n = map_option (\<lambda>s. (s, x)) s" "list_all (\<lambda>ev. \<not> sends_id n ev) evs"
  shows "snd (run_spec send_spec infl evs) n = map_option (\<lambda>s. (s, x)) (foldl (advance n) s evs) \<and>
    filter (\<lambda>m. m = n) (concat (fst (run_spec send_spec infl evs))) = (if s \<noteq> None \<and> foldl (advance n) s evs = None then [n] else [])"
  using assms
proof (induction evs arbitrary: infl s)
  case (Cons ev evs)
  then have "snd (send_spec infl ev) n = map_option (\<lambda>s. (s, x)) (advance n s ev)"
    "filter (\<lambda>m. m = n) (fst (send_spec infl ev)) = (if s \<noteq> None \<and> advance n s ev = None then [n] else [])"
    using advance_spec by simp_all
  with Cons.IH [of "snd (send_spec infl ev)" "advance n s ev"] Cons.prems show ?case by (auto simp: split_beta Let_def advance_None advances_None)
next
  case Nil
  then show ?case by (cases s) auto
qed

text \<open>
  C2. The sending side refines its specification: from any consistent state,
  \<open>MQTTProtocol_startPublish\<close> and the handlers of PUBACK, PUBREC and PUBCOMP return for any sequence of
  sends and acknowledgements (no memory is used after it was freed), and every message goes through the
  stages of its exchange: an acknowledgement that does not fit the stage of its message, or has no
  message, changes nothing, and the message stays stored until its exchange ends.
\<close>

theorem send_refines:
  assumes "send_rel po delivered sock i st infl" and "sends_ok po sock i evs st"
  shows "\<exists>st'. run_steps (send_step po sock i) st evs = Some (fst (run_spec send_spec infl evs), st') \<and>
    send_rel po delivered sock i st' (snd (run_spec send_spec infl evs))"
  by (rule sending.run_simulates [OF assms])

text \<open>
  C13. A message sent with QoS 1 or 2 is kept, as it was stored, until it is acknowledged: a QoS 1 message
  until the PUBACK of its id, a QoS 2 message until a PUBREC and then a PUBCOMP of its id; its exchange
  is completed once. Whatever else is sent or arrives makes no difference.
\<close>

theorem publish_until_acknowledged:
  assumes "send_rel po delivered sock i st infl"
    and "sends_ok po sock i (SendPublish p qos retained am ap next0 # evs) st"
    and "list_all (\<lambda>ev. \<not> sends_id (pub_msgId p) ev) evs"
  shows "\<exists>outs st' infl'. run_steps (send_step po sock i) st (SendPublish p qos retained am ap next0 # evs) = Some (outs, st') \<and>
    send_rel po delivered sock i st' infl' \<and>
    (case foldl (advance (pub_msgId p)) (Some (if qos = 1 then AwaitPuback else AwaitPubrec)) evs of
       None \<Rightarrow> infl' (pub_msgId p) = None \<and> filter (\<lambda>n. n = pub_msgId p) (concat outs) = [pub_msgId p]
     | Some s \<Rightarrow> infl' (pub_msgId p) = Some (s, retained, stored_publication p) \<and> pub_msgId p \<notin> set (concat outs))"
proof -
  let ?n = "pub_msgId p" and ?s = "if qos = 1 then AwaitPuback else AwaitPubrec"
  let ?infl = "infl(?n \<mapsto> (?s, retained, stored_publication p))"
  let ?run = "run_spec send_spec infl (SendPublish p qos retained am ap next0 # evs)"
  from advances_spec [of ?infl ?n "(retained, stored_publication p)" "Some ?s" evs] assms(3)
  have run: "snd ?run ?n = map_option (\<lambda>s. (s, retained, stored_publication p)) (foldl (advance ?n) (Some ?s) evs)"
    "filter (\<lambda>m. m = ?n) (concat (fst ?run)) = (if foldl (advance ?n) (Some ?s) evs = None then [?n] else [])"
    by (simp_all add: split_beta Let_def)
  obtain outs infl' where R: "?run = (outs, infl')" by fastforce
  note run = run [unfolded R fst_conv snd_conv]
  from sending.run_simulates [OF assms(1,2), unfolded R fst_conv snd_conv] obtain st' where
    st': "run_steps (send_step po sock i) st (SendPublish p qos retained am ap next0 # evs) = Some (outs, st')"
      "send_rel po delivered sock i st' infl'" by blast
  have "?n \<notin> set (concat outs)" if "foldl (advance ?n) (Some ?s) evs \<noteq> None"
    using run(2) that unfolding filter_empty_conv by (simp add: filter_empty_conv) blast
  then have "case foldl (advance ?n) (Some ?s) evs of
       None \<Rightarrow> infl' ?n = None \<and> filter (\<lambda>n. n = ?n) (concat outs) = [?n]
     | Some s \<Rightarrow> infl' ?n = Some (s, retained, stored_publication p) \<and> ?n \<notin> set (concat outs)"
    using run by (cases "foldl (advance ?n) (Some ?s) evs") simp_all
  with st' show ?thesis by blast
qed

definition demo_ack :: Ack where
  "demo_ack = \<lparr>ack_header = 0, ack_msgId = 500\<rparr>"

definition demo_sends :: "send_event list" where
  "demo_sends = [SendPublish demo_publish 2 0 60 70 0, RecvPuback demo_ack, RecvPubrec demo_ack, RecvPubcomp demo_ack, RecvPubcomp demo_ack]"

lemma demo_out_rel: "send_rel log_ops (\<lambda>w. w) 5 0 demo_in Map.empty"
proof -
  have "outbound_ok 5 0 demo_in []"
    by (intro exchange_okI client_atI)
      (simp_all add: demo_in_def demo_client_def pubs_ok_def list_holds_def clist_empty_def cursor_in_def)
  then show ?thesis using log_ops_ok by (auto simp: send_rel_def inflight_of_def intro!: exI [of _ "[]"])
qed

lemma demo_sends_ok: "sends_ok log_ops 5 0 demo_sends demo_in"
  by code_simp

theorem send_refines_witness:
  "\<exists>st'. run_steps (send_step log_ops 5 0) demo_in demo_sends = Some ([[], [], [], [500], []], st')"
  using send_refines [OF demo_out_rel demo_sends_ok]
  by (auto simp: demo_sends_def demo_ack_def demo_publish_def at_stage_def split_beta Let_def)

theorem publish_until_acknowledged_witness:
  "\<exists>outs st' infl'. run_steps (send_step log_ops 5 0) demo_in demo_sends = Some (outs, st') \<and>
     send_rel log_ops (\<lambda>w. w) 5 0 st' infl' \<and> infl' 500 = None \<and> filter (\<lambda>n. n = 500) (concat outs) = [500]"
proof -
  have "list_all (\<lambda>ev. \<not> sends_id (pub_msgId demo_publish) ev) (tl demo_sends)" "pub_msgId demo_publish = 500"
    "foldl (advance 500) (Some AwaitPubrec) (tl demo_sends) = None" "demo_sends = SendPublish demo_publish 2 0 60 70 0 # tl demo_sends"
    by (simp_all add: demo_sends_def sends_id_def demo_ack_def demo_publish_def)
  then show ?thesis
    using publish_until_acknowledged [OF demo_out_rel, of demo_publish 2 0 60 70 0 "tl demo_sends"] demo_sends_ok by simp
qed

end
