(* ===== verification/Upkeep.thy ===== *)
theory Upkeep
  imports Sending
begin

text \<open>
  What the background thread does for the clients: keep-alive, retries, and freeing a client's messages.
\<close>

section \<open>Keep alive\<close>







lemma get_set_other: "j \<noteq> i \<Longrightarrow> get_client j (set_client i c st) = get_client j st"
  by (simp add: set_client_def)
















section \<open>Retries\<close>

text \<open>
  What retrying relies on, when the network takes every packet: \<open>sent\<close> is the packets written so far.
\<close>

definition resend_env :: "'w proto_ops \<Rightarrow> ('w \<Rightarrow> bytes list) \<Rightarrow> bool" where
  "resend_env po sent \<longleftrightarrow>
     (\<forall>w s b bs fr. \<exists>w'. op_putdatas (po_net po) w s b bs fr = Some (TCPSOCKET_COMPLETE, w') \<and> sent w' = sent w @ [b @ concat bs]) \<and>
     (\<forall>w s b bs t m r. sent (snd (op_persist_put (po_net po) w s b bs t m r)) = sent w) \<and>
     (\<forall>w s. \<exists>w'. po_noPendingWrites po w s = (True, w') \<and> sent w' = sent w)"

text \<open>The packet a retry sends: the PUBLISH again, marked as a duplicate, or the PUBREL.\<close>

definition retry_packet :: "entry \<Rightarrow> bytes" where
  "retry_packet e = (case e of (a, m, p) \<Rightarrow>
     if msg_qos m = 1 \<or> msg_nextMessageType m = PUBREC then
       (let body = int_bytes (to_int32 (c_strlen (pbs_topic p))) @ c_string (pbs_topic p) @ int_bytes (msg_msgid m) @
          take (nat (pbs_payloadlen p)) (pbs_payload p)
        in mk_header PUBLISH 1 (msg_qos m) (msg_retain m) # MQTTPacket_encode (length body) @ body)
     else mk_header PUBREL 0 1 0 # MQTTPacket_encode 2 @ int_bytes (msg_msgid m))"

lemma resend_envD:
  assumes "resend_env po sent"
  shows "\<exists>w'. op_putdatas (po_net po) w s b bs fr = Some (TCPSOCKET_COMPLETE, w') \<and> sent w' = sent w @ [b @ concat bs]"
    "sent (snd (op_persist_put (po_net po) w s b bs t m r)) = sent w"
    "\<exists>w'. po_noPendingWrites po w s = (True, w') \<and> sent w' = sent w"
  using assms unfolding resend_env_def by (elim conjE; fast)+

lemma resend_publish:
  assumes "resend_env po sent" "outbound_entry (a, m, p)" "msg_qos m = 1 \<or> msg_nextMessageType m = PUBREC"
  shows "\<exists>net' w'. MQTTPacket_send_publish (po_net po) (retry_publish m p) 1 (msg_qos m) (msg_retain m) net w =
      Some (TCPSOCKET_COMPLETE, net', w') \<and> nh_socket net' = nh_socket net \<and> sent w' = sent w @ [retry_packet (a, m, p)]"
proof -
  let ?h = "mk_header PUBLISH 1 (msg_qos m) (msg_retain m)"
  let ?bs = "[int_bytes (to_int32 (c_strlen (pbs_topic p))), c_string (pbs_topic p), int_bytes (msg_msgid m), take (nat (pbs_payloadlen p)) (pbs_payload p)]"
  let ?buf = "?h # MQTTPacket_encode (sum_list (map length ?bs))"
  define w1 where "w1 = (if hdr_type ?h = PUBLISH \<and> hdr_qos ?h \<noteq> 0 then
      snd (op_persist_put (po_net po) w (nh_socket net) ?buf ?bs (hdr_type ?h) (fst (the (readInt (int_bytes (msg_msgid m)) 0))) 0) else w)"
  have w1: "sent w1 = sent w" using resend_envD(2) [OF assms(1)] by (simp add: w1_def)
  obtain w' where w': "op_putdatas (po_net po) w1 (nh_socket net) ?buf ?bs [True, False, True, False] = Some (TCPSOCKET_COMPLETE, w')"
      "sent w' = sent w1 @ [?buf @ concat ?bs]"
    using resend_envD(1) [OF assms(1)] by blast
  have "?buf @ concat ?bs = retry_packet (a, m, p)" using assms(3) by (simp add: retry_packet_def Let_def)
  moreover have "msg_qos m > 0" using assms(2) by (auto simp: outbound_entry_def)
  ultimately show ?thesis using w' w1 assms(2)
    by (auto simp: MQTTPacket_send_publish_def MQTTPacket_sends_def writeInt_put wb_put_malloc readInt_Some w1_def Let_def
        retry_publish_def outbound_entry_def split: if_splits)
qed

lemma resend_pubrel:
  assumes "resend_env po sent" "msg_qos m \<noteq> 1" "msg_nextMessageType m \<noteq> PUBREC"
  shows "\<exists>net' w'. MQTTPacket_send_pubrel (po_net po) (msg_msgid m) 0 net w =
      Some (TCPSOCKET_COMPLETE, net', w') \<and> nh_socket net' = nh_socket net \<and> sent w' = sent w @ [retry_packet (a, m, p)]"
proof -
  let ?h = "mk_header PUBREL 0 1 0"
  let ?buf = "?h # MQTTPacket_encode (length (int_bytes (msg_msgid m)))"
  define w1 where "w1 = (if hdr_type ?h = PUBREL then snd (op_persist_put (po_net po) w (nh_socket net) ?buf [int_bytes (msg_msgid m)] (hdr_type ?h)
      (fst (the (readInt (int_bytes (msg_msgid m)) 0))) 0) else w)"
  have w1: "sent w1 = sent w" using resend_envD(2) [OF assms(1)] by (simp add: w1_def)
  obtain w' where "op_putdatas (po_net po) w1 (nh_socket net) ?buf [int_bytes (msg_msgid m)] [True] = Some (TCPSOCKET_COMPLETE, w')"
      "sent w' = sent w1 @ [?buf @ concat [int_bytes (msg_msgid m)]]"
    using resend_envD(1) [OF assms(1)] by blast
  moreover have "?buf @ concat [int_bytes (msg_msgid m)] = retry_packet (a, m, p)" using assms(2,3) by (simp add: retry_packet_def)
  ultimately show ?thesis using w1
    by (auto simp: MQTTPacket_send_pubrel_def MQTTPacket_send_ack_def MQTTPacket_send_def writeInt_put wb_put_malloc readInt_Some w1_def Let_def
        split: if_splits)
qed

definition touched :: "int \<Rightarrow> entry \<Rightarrow> entry" where
  "touched t e = (case e of (a, m, p) \<Rightarrow> (a, m\<lparr>msg_lastTouch := t\<rparr>, p))"

lemma touched_same [simp]:
  "fst (touched t e) = fst e" "eid (touched t e) = eid e" "epub (touched t e) = epub e" "snd (snd (touched t e)) = snd (snd e)"
  "entry_stage (touched t e) = entry_stage e" "outbound_entry (touched t e) = outbound_entry e"
  by (simp_all add: touched_def eid_def epub_def entry_stage_def outbound_entry_def split: prod.splits)

lemma touch_effect:
  assumes "outbound_ok sock i st ms" "k < length ms"
  shows "\<exists>st' t. touch po (fst (ms ! k)) st = Some st' \<and> outbound_ok sock i st' (ms[k := touched t (ms ! k)]) \<and>
    ps_world st' = ps_world st \<and> ps_clients st' = ps_clients st"
proof -
  note D = exchange_okD [OF assms(1)]
  define t where "t = op_time (po_net po) (ps_world st)"
  let ?e = "touched t (ms ! k)"
  let ?st = "st\<lparr>ps_msgs := (ps_msgs st)(fst (ms ! k) \<mapsto> fst (snd ?e))\<rparr>"
  have e: "fst (snd ?e) = (fst (snd (ms ! k)))\<lparr>msg_lastTouch := t\<rparr>" by (simp add: touched_def split: prod.splits)
  have "outbound_ok sock i ?st (ms[k := ?e])"
  proof (rule exchange_okI)
    show "list_holds ?st (cl_outboundMsgs (get_client i ?st)) (ms[k := ?e])"
    proof (rule list_holds_msg_update [where st = st])
      show "entry_ok ?st (ms ! j)" if "j < length ms" "j \<noteq> k" for j
        using entry_nth [OF D(5) that(1)] entry_other(1) [OF D(5) that(1) assms(2) that(2)] by (simp add: entry_ok_def)
      show "entry_ok ?st ?e" using entry_nth [OF D(5) assms(2)] by (simp add: entry_ok_def)
    qed (use D(5) assms(2) in simp_all)
    show "outbound_entry x" if "x \<in> set (ms[k := ?e])" for x
      using set_mp [OF set_update_subset_insert that] D(6) nth_mem [OF assms(2)] touched_same(6) by blast
  qed (use D in \<open>simp_all add: client_at_def pubs_ok_def\<close>)
  moreover have "touch po (fst (ms ! k)) st = Some ?st"
    using entry_nth [OF D(5) assms(2)] e by (simp add: touch_def entry_ok_def t_def)
  ultimately show ?thesis by (intro exI [of _ ?st] exI [of _ t]) simp
qed

definition retry_due :: "int \<Rightarrow> bool \<Rightarrow> int \<Rightarrow> entry \<Rightarrow> bool" where
  "retry_due now regardless interval e \<longleftrightarrow> regardless \<or> now - msg_lastTouch (fst (snd e)) > max interval 10"

definition settings :: "Clients \<Rightarrow> bool \<times> bool \<times> int" where
  "settings c = (cl_connected c, cl_good c, cl_retryInterval c)"

lemma retries_loop_step:
  assumes "resend_env po sent" "outbound_ok sock i st (pre @ e # xs)" "settings (get_client i st) = (True, True, interval)"
  shows "\<exists>st1 e1. retries_loop po now i regardless (fst e # as) st = retries_loop po now i regardless as st1 \<and>
    outbound_ok sock i st1 (pre @ e1 # xs) \<and> eid e1 = eid e \<and> entry_stage e1 = entry_stage e \<and>
    settings (get_client i st1) = (True, True, interval) \<and>
    sent (ps_world st1) = sent (ps_world st) @ (if retry_due now regardless interval e then [retry_packet e] else [])"
proof -
  obtain a m p where e: "e = (a, m, p)" by (cases e)
  note D = exchange_okD [OF assms(2)]
  have oe: "outbound_entry (a, m, p)" using D(6) [of e] by (simp add: e)
  obtain w1 where w1: "po_noPendingWrites po (ps_world st) sock = (True, w1)" "sent w1 = sent (ps_world st)"
    using resend_envD(3) [OF assms(1)] by blast
  define st1 where "st1 = st\<lparr>ps_world := w1\<rparr>"
  have np: "no_pending_writes po i st = (True, st1)" using D(3) w1(1) by (simp add: no_pending_writes_def st1_def)
  have ok1: "outbound_ok sock i st1 (pre @ e # xs)"
    using exchange_ok_update [OF assms(2), of "get_client i st" w1] D set_client_id [of i "st\<lparr>ps_world := w1\<rparr>"] by (simp add: st1_def)
  have m1: "ps_msgs st1 a = Some m" "ps_pubs st1 (msg_publish m) = Some p"
    using exchange_okD(5) [OF ok1] by (auto simp: list_holds_def entry_ok_def e epub_def)
  have set: "cl_connected (get_client i st)" "cl_good (get_client i st)" "cl_retryInterval (get_client i st) = interval" "get_client i st1 = get_client i st"
    using assms(3) by (simp_all add: settings_def st1_def)
  note loop = e set np m1 retry_due_def
  show ?thesis
  proof (cases "retry_due now regardless interval e")
    case False
    with ok1 w1(2) assms(3) show ?thesis by (intro exI [of _ st1] exI [of _ e]) (simp add: loop, simp add: st1_def)
  next
    case True
    define f where "f = (if msg_qos m = 1 \<or> msg_nextMessageType m = PUBREC
        then MQTTPacket_send_publish (po_net po) (retry_publish m p) 1 (msg_qos m) (msg_retain m)
        else MQTTPacket_send_pubrel (po_net po) (msg_msgid m) 0)"
    obtain net' w2 where f: "f (cl_net (get_client i st1)) w1 = Some (TCPSOCKET_COMPLETE, net', w2)"
        "nh_socket net' = nh_socket (cl_net (get_client i st1))" "sent w2 = sent w1 @ [retry_packet e]"
      using resend_publish [OF assms(1) oe] resend_pubrel [OF assms(1)] unfolding f_def e by (cases "msg_qos m = 1 \<or> msg_nextMessageType m = PUBREC") (auto, blast+)
    define st2 where "st2 = set_client i ((get_client i st1)\<lparr>cl_net := net'\<rparr>) (st1\<lparr>ps_world := w2\<rparr>)"
    have send: "client_send i f st1 = Some (TCPSOCKET_COMPLETE, st2)" using f(1) by (simp add: client_send_def st2_def st1_def)
    have ok2: "outbound_ok sock i st2 (pre @ e # xs)" unfolding st2_def
      by (rule exchange_ok_update [OF ok1]) (use exchange_okD [OF ok1] f(2) in simp_all)
    have st2: "settings (get_client i st2) = (True, True, interval)" "ps_world st2 = w2"
      using assms(3) set(4) D(2) by (simp_all add: st2_def settings_def st1_def)
    from touch_effect [OF ok2, of "length pre" po] obtain st3 t where
      st3: "touch po a st2 = Some st3" "outbound_ok sock i st3 (pre @ touched t e # xs)" "ps_world st3 = w2" "ps_clients st3 = ps_clients st2"
      using st2(2) by (auto simp: nth_append e)
    have "retries_loop po now i regardless (fst e # as) st = retries_loop po now i regardless as st3"
    proof (cases "msg_qos m = 1 \<or> msg_nextMessageType m = PUBREC")
      case c: True
      then have "msg_qos m = 1 \<or> msg_qos m = 2 \<and> msg_nextMessageType m = PUBREC" using oe by (auto simp: outbound_entry_def)
      with True send st3(1) c show ?thesis by (simp add: loop f_def)
    next
      case c: False
      then have "msg_qos m = 2" "msg_nextMessageType m = PUBCOMP" using oe by (auto simp: outbound_entry_def)
      with True send st3(1) show ?thesis by (simp add: loop f_def)
    qed
    with st3 st2 f(3) w1(2) True show ?thesis by (intro exI [of _ st3] exI [of _ "touched t e"]) (simp add: settings_def)
  qed
qed

lemma retries_loop_effect:
  assumes "resend_env po sent" "outbound_ok sock i st (pre @ xs)" "settings (get_client i st) = (True, True, interval)"
  shows "\<exists>st' ys. retries_loop po now i regardless (map fst xs) st = Some st' \<and> outbound_ok sock i st' (pre @ ys) \<and>
    map eid ys = map eid xs \<and> map entry_stage ys = map entry_stage xs \<and>
    sent (ps_world st') = sent (ps_world st) @ map retry_packet (filter (retry_due now regardless interval) xs)"
  using assms(2,3)
proof (induction xs arbitrary: pre st)
  case (Cons e xs)
  from retries_loop_step [OF assms(1) Cons.prems, where now = now and regardless = regardless and as = "map fst xs"] obtain st1 e1 where
    st1: "retries_loop po now i regardless (map fst (e # xs)) st = retries_loop po now i regardless (map fst xs) st1"
    "outbound_ok sock i st1 ((pre @ [e1]) @ xs)" "eid e1 = eid e" "entry_stage e1 = entry_stage e" "settings (get_client i st1) = (True, True, interval)"
    "sent (ps_world st1) = sent (ps_world st) @ (if retry_due now regardless interval e then [retry_packet e] else [])" by auto
  from Cons.IH [OF st1(2,5)] obtain st' ys where "retries_loop po now i regardless (map fst xs) st1 = Some st'"
    "outbound_ok sock i st' (pre @ e1 # ys)" "map eid ys = map eid xs" "map entry_stage ys = map entry_stage xs"
    "sent (ps_world st') = sent (ps_world st1) @ map retry_packet (filter (retry_due now regardless interval) xs)" by auto
  with st1 show ?case by (intro exI [of _ st'] exI [of _ "e1 # ys"]) simp
qed auto

text \<open>
  C23. Retrying: for a connected client without errors, when the network takes the packets,
  \<open>MQTTProtocol_retries\<close> returns and has sent again exactly the unacknowledged messages that are due
  (all of them when \<open>regardless\<close>), in the order they were first sent: the PUBLISH, marked as a duplicate
  and with the same id, topic and payload, while it awaits its PUBACK or PUBREC, and the PUBREL after
  that. The stage and content of every message stay as they are.
\<close>

theorem retries_resend:
  assumes "resend_env po sent" and "outbound_ok sock i st ms" and "cl_connected (get_client i st)" and "cl_good (get_client i st)"
    and "regardless \<or> cl_retryInterval (get_client i st) > 0"
  shows "\<exists>st' ms'. MQTTProtocol_retries po now i regardless st = Some st' \<and>
    sent (ps_world st') = sent (ps_world st) @
      map retry_packet (filter (retry_due now regardless (cl_retryInterval (get_client i st))) ms) \<and>
    outbound_ok sock i st' ms' \<and> map eid ms' = map eid ms \<and> map entry_stage ms' = map entry_stage ms"
proof -
  have "settings (get_client i st) = (True, True, cl_retryInterval (get_client i st))" using assms(3,4) by (simp add: settings_def)
  moreover have "elems (cl_outboundMsgs (get_client i st)) = map fst ms" using exchange_okD(5) [OF assms(2)] by (simp add: list_holds_def)
  moreover have "\<not> (\<not> regardless \<and> cl_retryInterval (get_client i st) \<le> 0)" using assms(5) by auto
  ultimately show ?thesis
    using retries_loop_effect [OF assms(1), of sock i st "[]" ms "cl_retryInterval (get_client i st)" now regardless] assms(2)
    by (auto simp: MQTTProtocol_retries_def)
qed

definition log_sends :: "bytes list proto_ops" where
  "log_sends = \<lparr>po_net = \<lparr>op_getch = (\<lambda>w s. (TCPSOCKET_INTERRUPTED, 0, w)), op_getdata = (\<lambda>w s n. (None, 0, w)),
       op_putdatas = (\<lambda>w s b bs fr. Some (TCPSOCKET_COMPLETE, w @ [b @ concat bs])), op_persist_put = (\<lambda>w s b bs t m r. (0, w)),
       op_time = (\<lambda>w. 100)\<rparr>,
     po_process = (\<lambda>p i st. st), po_closeSession = (\<lambda>i st. st),
     po_persist_remove = (\<lambda>w c k q m. (0, w)), po_noPendingWrites = (\<lambda>w s. (True, w)), po_updateWrite = (\<lambda>w s t p. w),
     po_socket_new = (\<lambda>w a p. (0, 5, w)), po_sizeof_Messages = 48, po_sizeof_Publications = 40\<rparr>"

lemma log_sends_env: "resend_env log_sends (\<lambda>w. w)"
  unfolding resend_env_def by (auto simp: log_sends_def)

definition demo_unacked :: "bytes list pstate" where
  "demo_unacked = \<lparr>ps_clients = \<lparr>elems = [demo_client 1 [60]], cursor = Some 0\<rparr>, ps_msgs = [60 \<mapsto> demo_msg 1],
     ps_pubs = [70 \<mapsto> stored_publication demo_publish], ps_publications = \<lparr>elems = [70], cursor = None\<rparr>,
     ps_pending_writes = clist_empty, ps_msgs_received = 0, ps_msgs_sent = 0, ps_world = []\<rparr>"

lemma demo_unacked_ok: "outbound_ok 5 0 demo_unacked [(60, demo_msg 1, stored_publication demo_publish)]"
  by (intro exchange_okI client_atI)
    (auto simp: demo_unacked_def demo_client_def demo_msg_def stored_publication_def demo_publish_def pubs_ok_def list_holds_def
      clist_empty_def cursor_in_def entry_ok_def epub_def outbound_entry_def)

theorem retries_resend_witness:
  "\<exists>st'. MQTTProtocol_retries log_sends 100 0 False demo_unacked = Some st' \<and>
     ps_world st' = [retry_packet (60, demo_msg 1, stored_publication demo_publish)]"
proof -
  have "cl_connected (get_client 0 demo_unacked)" "cl_good (get_client 0 demo_unacked)" "cl_retryInterval (get_client 0 demo_unacked) = 20"
    "ps_world demo_unacked = []" "retry_due 100 False 20 (60, demo_msg 1, stored_publication demo_publish)"
    by (simp_all add: demo_unacked_def demo_client_def retry_due_def demo_msg_def)
  with retries_resend [OF log_sends_env demo_unacked_ok, of False 100] show ?thesis by auto
qed

section \<open>Freeing a client\<close>

definition without :: "('a \<rightharpoonup> 'b) \<Rightarrow> 'a set \<Rightarrow> 'a \<rightharpoonup> 'b" where
  "without m A = m |` (- A)"

lemma without_simps [simp]:
  "without m {} = m" "without (without m A) B = without m (A \<union> B)" "a \<notin> A \<Longrightarrow> without m A a = m a"
  by (auto simp: without_def restrict_map_def)

lemma without_upd: "(without m A)(a := None) = without m (insert a A)" "without (m(a := None)) A = without m (insert a A)"
  by (auto simp: without_def restrict_map_def fun_eq_iff)

lemma empty_msgs_effect:
  assumes "pubs_ok st" "\<forall>e\<in>set ms. entry_ok st e" "distinct (map epub ms)"
  shows "\<exists>st'. empty_msgs_loop (map fst ms) st = Some st' \<and> pubs_ok st' \<and> ps_pubs st' = without (ps_pubs st) (epub ` set ms) \<and>
    ps_msgs st' = ps_msgs st \<and> ps_clients st' = ps_clients st"
  using assms
proof (induction ms arbitrary: st)
  case (Cons e ms)
  then have e: "ps_msgs st (fst e) = Some (fst (snd e))" "ps_pubs st (epub e) = Some (snd (snd e))" "pbs_refcount (snd (snd e)) = 1"
    by (auto simp: entry_ok_def)
  from removePublication_last [OF Cons.prems(1) e(2,3)] obtain st1 where st1: "MQTTProtocol_removePublication (epub e) st = Some st1" "pubs_ok st1"
    "st1 = st\<lparr>ps_pubs := (ps_pubs st)(epub e := None), ps_publications := clist_unlink (\<lambda>x. x = epub e) (ps_publications st)\<rparr>" by blast
  have "epub x \<noteq> epub e" if "x \<in> set ms" for x using Cons.prems(3) that by (metis distinct.simps(2) image_eqI list.map(2) list.set_map)
  then have "\<forall>x\<in>set ms. entry_ok st1 x" using Cons.prems(2) by (simp add: entry_ok_def st1(3))
  from Cons.IH [OF st1(2) this] Cons.prems(3) obtain st' where "empty_msgs_loop (map fst ms) st1 = Some st'" "pubs_ok st'"
    "ps_pubs st' = without (ps_pubs st1) (epub ` set ms)" "ps_msgs st' = ps_msgs st1" "ps_clients st' = ps_clients st1" by auto
  with e(1) st1 show ?case by (simp add: epub_def [symmetric] without_upd)
qed simp

lemma fold_free_msg:
  "ps_msgs (fold free_msg as st) = without (ps_msgs st) (set as)" "ps_pubs (fold free_msg as st) = ps_pubs st"
  "ps_publications (fold free_msg as st) = ps_publications st" "ps_clients (fold free_msg as st) = ps_clients st"
  by (induction as arbitrary: st) (auto simp: free_msg_def without_upd)

lemma freeMessageList_effect:
  assumes "pubs_ok st" "list_holds st q ms"
  shows "\<exists>st'. MQTTProtocol_freeMessageList q st = Some st' \<and> pubs_ok st' \<and> ps_pubs st' = without (ps_pubs st) (epub ` set ms) \<and>
    ps_msgs st' = without (ps_msgs st) (fst ` set ms) \<and> ps_clients st' = ps_clients st"
proof -
  from assms(2) have "\<forall>e\<in>set ms. entry_ok st e" "distinct (map epub ms)" "elems q = map fst ms" by (auto simp: list_holds_def)
  with empty_msgs_effect [OF assms(1) this(1,2)] show ?thesis
    by (auto simp: MQTTProtocol_freeMessageList_def MQTTProtocol_emptyMessageList_def fold_free_msg pubs_ok_def)
qed

text \<open>
  \<open>MQTTProtocol_freeClient\<close> returns, uses nothing that was freed, and frees exactly the messages in
  the client's two lists and their publications: everything else in the store, the messages of other
  clients included, stays, and the list of publications has exactly the publications that are left.
\<close>

theorem freeClient_frees_all:
  assumes "pubs_ok st" and "i < length (elems (ps_clients st))"
    and "list_holds st (cl_outboundMsgs (get_client i st)) mo" and "list_holds st (cl_inboundMsgs (get_client i st)) mi"
    and "fst ` set mo \<inter> fst ` set mi = {}" and "epub ` set mo \<inter> epub ` set mi = {}"
  shows "\<exists>st'. MQTTProtocol_freeClient i st = Some st' \<and> pubs_ok st' \<and>
    ps_msgs st' = without (ps_msgs st) (fst ` set (mo @ mi)) \<and> ps_pubs st' = without (ps_pubs st) (epub ` set (mo @ mi)) \<and>
    elems (cl_outboundMsgs (get_client i st')) = [] \<and> elems (cl_inboundMsgs (get_client i st')) = [] \<and>
    (\<forall>j. j \<noteq> i \<longrightarrow> get_client j st' = get_client j st)"
proof -
  from freeMessageList_effect [OF assms(1,3)] obtain st1 where
    st1: "MQTTProtocol_freeMessageList (cl_outboundMsgs (get_client i st)) st = Some st1" "pubs_ok st1"
    "ps_pubs st1 = without (ps_pubs st) (epub ` set mo)" "ps_msgs st1 = without (ps_msgs st) (fst ` set mo)" "ps_clients st1 = ps_clients st" by blast
  have "entry_ok st1 e" if "e \<in> set mi" for e
  proof -
    have "fst e \<notin> fst ` set mo" "epub e \<notin> epub ` set mo" using that assms(5,6) by auto
    with assms(4) that show ?thesis by (simp add: list_holds_def entry_ok_def st1)
  qed
  then have "list_holds st1 (cl_inboundMsgs (get_client i st1)) mi"
    by (intro list_holds_frame [OF assms(4)]) (use assms(4) in \<open>simp_all add: st1(5) list_holds_def\<close>)
  from freeMessageList_effect [OF st1(2) this] st1 assms(2) show ?thesis
    by (auto simp: MQTTProtocol_freeClient_def pubs_ok_def clist_empty_def get_set_other image_Un)
qed

theorem freeClient_frees_all_witness:
  "\<exists>st'. MQTTProtocol_freeClient 0 demo_unacked = Some st' \<and> ps_msgs st' 60 = None \<and> ps_pubs st' 70 = None"
proof -
  let ?e = "(60, demo_msg 1, stored_publication demo_publish)"
  note D = exchange_okD [OF demo_unacked_ok]
  have "list_holds demo_unacked (cl_inboundMsgs (get_client 0 demo_unacked)) []"
    by (simp add: list_holds_def demo_unacked_def demo_client_def clist_empty_def cursor_in_def)
  from freeClient_frees_all [OF D(4,2,5) this] show ?thesis
    by (auto simp: without_def epub_def demo_msg_def)
qed

end
