(* ===== verification/Addresses.thy ===== *)
theory Addresses
  imports Protocol
begin

text \<open>
  The string functions of the protocol: bounded copies (\<open>MQTTStrncpy\<close>, \<open>MQTTStrdup\<close>) and the parsing of
  server addresses (\<open>MQTTProtocol_addressPort\<close>).
\<close>

section \<open>Copies\<close>

lemma c_string_simps [simp]: "c_string [] = []" "c_string (c # s) = (if c = 0 then [] else c # c_string s)"
  by (simp_all add: c_string_def)

lemma c_string_id: "0 \<notin> set s \<Longrightarrow> c_string s = s"
  by (induction s) auto

lemma strncpy_loop_effect:
  "n \<ge> 1 \<Longrightarrow> \<exists>d. strncpy_loop n (src @ [0]) = Some d \<and> length d \<le> n \<and> c_string d = take (n - 1) (c_string src)"
proof (induction src arbitrary: n)
  case Nil
  then show ?case by (cases "n > 1") auto
next
  case (Cons c src)
  show ?case
  proof (cases "n > 1 \<and> c \<noteq> 0")
    case True
    then have "n - 1 \<ge> 1" by linarith
    from Cons.IH [OF this] obtain d where d: "strncpy_loop (n - 1) (src @ [0]) = Some d" "length d \<le> n - 1"
      "c_string d = take (n - 1 - 1) (c_string src)" by blast
    with True show ?thesis by (auto simp: take_Cons' split: if_splits)
  next
    case False
    with Cons.prems show ?thesis by (cases "n > 1") (auto simp: take_Cons')
  qed
qed

lemma MQTTStrncpy_effect:
  "n \<ge> 1 \<Longrightarrow> \<exists>d. MQTTStrncpy src n = Some d \<and> length d \<le> n \<and> c_string d = take (n - 1) (c_string src)"
  using strncpy_loop_effect [of n src] by (auto simp: MQTTStrncpy_def)

text \<open>
  \<open>MQTTStrncpy\<close> never writes outside a destination of at least one byte, ends, and leaves there a
  terminated string: the source, cut to the size less one. With a size of 0 it writes the terminator
  outside. \<open>MQTTStrdup\<close> always succeeds and copies its argument.
\<close>

theorem strncpy_bounded:
  "(case MQTTStrncpy src n of
      None \<Rightarrow> n = 0
    | Some d \<Rightarrow> n \<noteq> 0 \<and> length d \<le> n \<and> c_string d = take (n - 1) (c_string src)) \<and>
   (\<exists>d. MQTTStrdup src = Some d \<and> c_string d = c_string src \<and> length d \<le> length (c_string src) + 1)"
proof
  show "case MQTTStrncpy src n of None \<Rightarrow> n = 0
    | Some d \<Rightarrow> n \<noteq> 0 \<and> length d \<le> n \<and> c_string d = take (n - 1) (c_string src)"
  proof (cases "n = 0")
    case True
    then show ?thesis by (cases src) (simp_all add: MQTTStrncpy_def)
  next
    case False
    with MQTTStrncpy_effect [of n src] show ?thesis by auto
  qed
  show "\<exists>d. MQTTStrdup src = Some d \<and> c_string d = c_string src \<and> length d \<le> length (c_string src) + 1"
    using MQTTStrncpy_effect [of "length (c_string src) + 1" src] by (auto simp: MQTTStrdup_def)
qed

section \<open>Addresses\<close>

text \<open>A port as decimal digits.\<close>

fun decimal :: "nat \<Rightarrow> bytes" where
  "decimal n = (if n < 10 then [] else decimal (n div 10)) @ [word_of_nat (48 + n mod 10)]"

declare decimal.simps [simp del]

lemma digit_unat: "k < 10 \<Longrightarrow> unat (word_of_nat (48 + k) :: byte) = 48 + k"
  unfolding unsigned_of_nat by (simp add: take_bit_nat_eq_self)

lemma decimal_digits: "c \<in> set (decimal n) \<Longrightarrow> is_digit c"
proof (induction n rule: decimal.induct)
  case (1 n)
  have "is_digit (word_of_nat (48 + n mod 10))" using digit_unat [of "n mod 10"] unfolding is_digit_def by simp
  with 1 show ?case by (subst (asm) (2) decimal.simps) (auto split: if_splits)
qed

lemma digits_val_append: "digits_val (xs @ [d]) = digits_val xs * 10 + (int (unat d) - 48)"
  by (simp add: digits_val_def)

lemma digits_val_decimal: "digits_val (decimal n) = int n"
proof (induction n rule: decimal.induct)
  case (1 n)
  have "int n = int (n div 10) * 10 + int (n mod 10)" by (metis mult.commute of_nat_add of_nat_mult div_mult_mod_eq of_nat_numeral)
  moreover have "digits_val [] = 0" by (simp add: digits_val_def)
  ultimately show ?case using 1 digit_unat [of "n mod 10"]
    by (subst decimal.simps) (auto simp: digits_val_append )
qed

lemma decimal_not_Nil: "decimal n \<noteq> []"
  by (subst decimal.simps) simp

lemma decimal_0: "0 \<notin> set (decimal n)"
  using decimal_digits [of 0 n] by (auto simp: is_digit_def)

lemma c_atoi_decimal: "c_atoi (decimal n) = int n"
proof -
  obtain d ds where d: "decimal n = d # ds" using decimal_not_Nil by (cases "decimal n") auto
  have digit: "is_digit d" "\<And>c. c \<in> set ds \<Longrightarrow> is_digit c" using decimal_digits [of _ n] by (auto simp: d)
  then have "takeWhile is_digit (d # ds) = d # ds" by (simp add: takeWhile_eq_all_conv)
  moreover have "dropWhile (\<lambda>c. unat c = 32 \<or> 9 \<le> unat c \<and> unat c \<le> 13) (d # ds) = d # ds" "unat d \<noteq> 45" "unat d \<noteq> 43"
    using digit(1) by (auto simp: is_digit_def)
  ultimately show ?thesis using digits_val_decimal [of n] by (simp add: c_atoi_def d Let_def)
qed

text \<open>The last colon or bracket of an address.\<close>

lemma c_strrchr_last:
  assumes "0 \<notin> set (pre @ c # post)" "c \<notin> set post"
  shows "c_strrchr (pre @ c # post) c = Some (length pre)"
proof -
  have "find_index (\<lambda>x. x = c) (rev (pre @ c # post)) = Some (length post)"
  proof -
    have "find_index (\<lambda>x. x = c) (rev post) = None" using assms(2) by (auto simp: find_index_None_iff)
    then show ?thesis by (simp add: find_index_append)
  qed
  with assms(1) show ?thesis by (simp add: c_strrchr_def c_string_id)
qed

lemma c_strrchr_None: "0 \<notin> set s \<Longrightarrow> c \<notin> set s \<Longrightarrow> c_strrchr s c = None"
  by (auto simp: c_strrchr_def c_string_id find_index_None_iff)

lemma strncpy_prefix: "0 \<notin> set host \<Longrightarrow> \<exists>d. MQTTStrncpy (host @ rest) (length host + 1) = Some d \<and> c_string d = host"
proof -
  assume "0 \<notin> set host"
  then have "c_string (host @ rest) = host @ c_string rest" by (induction host) auto
  with MQTTStrncpy_effect [of "length host + 1" "host @ rest"] show ?thesis by auto
qed

lemma decimal_notin: "\<not> is_digit c \<Longrightarrow> c \<notin> set (decimal n)"
  using decimal_digits by blast

lemma not_digit: "\<not> is_digit 58" "\<not> is_digit 93"
  by (simp_all add: is_digit_def)

text \<open>The port is after the last colon.\<close>

lemma addressPort_colon:
  assumes "0 \<notin> set host" "host \<noteq> []"
  shows "MQTTProtocol_addressPort (host @ 58 # decimal n) = Some (if last host = 93 then butlast host else host, int n)"
proof -
  let ?uri = "host @ 58 # decimal n"
  have nz: "0 \<notin> set ?uri" using assms(1) decimal_0 by auto
  have colon: "c_strrchr ?uri 58 = Some (length host)"
    by (rule c_strrchr_last [OF nz decimal_notin [OF not_digit(1)]])
  have bracket: "\<not> (case c_strrchr ?uri 93 of None \<Rightarrow> False | Some b \<Rightarrow> length host < b)"
  proof (cases "93 \<in> set host")
    case True
    then obtain a b where h: "host = a @ 93 # b" "93 \<notin> set b" by (metis split_list_last)
    with nz decimal_notin [OF not_digit(2), of n] have "c_strrchr (a @ 93 # (b @ 58 # decimal n)) 93 = Some (length a)"
      by (intro c_strrchr_last) auto
    then show ?thesis by (simp add: h)
  next
    case False
    then have "93 \<notin> set ?uri" using decimal_notin [OF not_digit(2), of n] by simp
    with nz show ?thesis by (simp add: c_strrchr_None)
  qed
  obtain d where "MQTTStrncpy ?uri (length host + 1) = Some d" "c_string d = host" using strncpy_prefix [OF assms(1)] by blast
  moreover have "port_colon ?uri = Some (length host)" using bracket colon by (simp add: port_colon_def split: option.splits)
  ultimately show ?thesis using assms(2) c_atoi_decimal [of n]
    by (simp add: MQTTProtocol_addressPort_def c_string_id [OF nz])
qed

lemma addressPort_plain:
  assumes "0 \<notin> set host" "host \<noteq> []" "58 \<notin> set host"
  shows "MQTTProtocol_addressPort host = Some (if last host = 93 then butlast host else host, 1883)"
  using assms c_strrchr_None [OF assms(1,3)] by (simp add: MQTTProtocol_addressPort_def port_colon_def c_string_id)

lemma addressPort_bracket:
  assumes "0 \<notin> set host" "93 \<notin> set host"
  shows "MQTTProtocol_addressPort (91 # host @ [93]) = Some (91 # host, 1883)"
proof -
  let ?uri = "91 # host @ [93]"
  have nz: "0 \<notin> set ?uri" using assms(1) by auto
  have b: "c_strrchr ?uri 93 = Some (length (91 # host))" using c_strrchr_last [of "91 # host" 93 "[]"] nz by simp
  have "case c_strrchr ?uri 58 of None \<Rightarrow> True | Some c \<Rightarrow> c < length (91 # host)"
  proof (cases "58 \<in> set host")
    case True
    then obtain x y where h: "host = x @ 58 # y" "58 \<notin> set y" by (metis split_list_last)
    with nz have "c_strrchr ((91 # x) @ 58 # (y @ [93])) 58 = Some (length (91 # x))" by (intro c_strrchr_last) auto
    then show ?thesis by (simp add: h)
  next
    case False
    with nz have "c_strrchr ?uri 58 = None" by (intro c_strrchr_None) auto
    then show ?thesis by simp
  qed
  then have "port_colon ?uri = None" using b by (auto simp: port_colon_def Let_def split: option.splits)
  then show ?thesis unfolding MQTTProtocol_addressPort_def c_string_id [OF nz] by simp
qed

lemma addressPort_empty: "MQTTProtocol_addressPort (58 # s) = None" if "58 \<notin> set s" "0 \<notin> set s"
proof -
  have "c_strrchr (58 # s) 58 = Some 0" using c_strrchr_last [of "[]" 58 s] that by simp
  moreover obtain d where "MQTTStrncpy (58 # s) 1 = Some d" "c_string d = []" using strncpy_prefix [of "[]" "58 # s"] by auto
  ultimately show ?thesis using that by (simp add: MQTTProtocol_addressPort_def port_colon_def c_string_id)
qed

text \<open>
  Server addresses: \<open>MQTTProtocol_addressPort\<close> takes a host and a decimal port apart again; without a
  port the port is 1883; an IPv6 address in brackets, which has colons of its own, comes back with its
  opening bracket and without the closing one. With nothing before the colon, the byte before the
  buffer is read.
\<close>

theorem addressPort_roundtrip:
  assumes "0 \<notin> set host" and "host \<noteq> []" and "93 \<notin> set host"
  shows "MQTTProtocol_addressPort (host @ 58 # decimal n) = Some (host, int n) \<and>
    MQTTProtocol_addressPort (91 # host @ 93 # 58 # decimal n) = Some (91 # host, int n) \<and>
    MQTTProtocol_addressPort (91 # host @ [93]) = Some (91 # host, 1883) \<and>
    (58 \<notin> set host \<longrightarrow> MQTTProtocol_addressPort host = Some (host, 1883)) \<and>
    MQTTProtocol_addressPort (58 # decimal n) = None"
proof -
  have l: "last host \<noteq> 93" using assms(2,3) last_in_set by metis
  have "MQTTProtocol_addressPort ((91 # host @ [93]) @ 58 # decimal n) = Some (91 # host, int n)"
    using addressPort_colon [of "91 # host @ [93]" n] assms by simp
  moreover have "58 \<notin> set (decimal n)" "0 \<notin> set (decimal n)" using decimal_notin [OF not_digit(1)] decimal_0 by auto
  ultimately show ?thesis
    using addressPort_colon [OF assms(1,2), of n] addressPort_plain [OF assms(1,2)] addressPort_bracket [OF assms(1,3)] addressPort_empty l
    by simp
qed

theorem addressPort_roundtrip_witness:
  "MQTTProtocol_addressPort ([0x61, 0x62] @ 58 # decimal 8883) = Some ([0x61, 0x62], 8883)"
  using addressPort_roundtrip [of "[0x61, 0x62]" 8883] by simp

end
