(* ===== verification/Persistence.thy ===== *)
theory Persistence
  imports Addresses
begin

text \<open>
  Persistence of messages: \<open>lib/MQTTPersistence.c\<close>. The functions of a persistence implementation
  (\<open>MQTTClient_persistence\<close>: the default one, or one the application supplies) are a record of
  operations on the outside world; integers of queue records are stored as they are in memory, four
  bytes, the lowest first.
\<close>

abbreviation (input) MQTTCLIENT_PERSISTENCE_DEFAULT :: int where "MQTTCLIENT_PERSISTENCE_DEFAULT \<equiv> 0"
abbreviation (input) MQTTCLIENT_PERSISTENCE_NONE :: int where "MQTTCLIENT_PERSISTENCE_NONE \<equiv> 1"
abbreviation (input) MQTTCLIENT_PERSISTENCE_USER :: int where "MQTTCLIENT_PERSISTENCE_USER \<equiv> 2"
abbreviation (input) MQTTCLIENT_PERSISTENCE_ERROR :: int where "MQTTCLIENT_PERSISTENCE_ERROR \<equiv> -2"

section \<open>Keys\<close>

text \<open>\<open>sprintf (key, "%s%d", stem, n)\<close> without the terminating zero.\<close>

definition sprintf_d :: "int \<Rightarrow> bytes" where
  "sprintf_d n = (if n < 0 then 45 # decimal (nat (- n)) else decimal (nat n))"

definition PERSISTENCE_PUBLISH_SENT :: bytes where "PERSISTENCE_PUBLISH_SENT = [115, 45]"
definition PERSISTENCE_PUBREL :: bytes where "PERSISTENCE_PUBREL = [115, 99, 45]"
definition PERSISTENCE_PUBLISH_RECEIVED :: bytes where "PERSISTENCE_PUBLISH_RECEIVED = [114, 45]"
definition PERSISTENCE_COMMAND_KEY :: bytes where "PERSISTENCE_COMMAND_KEY = [99, 45]"
definition PERSISTENCE_QUEUE_KEY :: bytes where "PERSISTENCE_QUEUE_KEY = [113, 45]"

text \<open>The key written to a buffer of \<open>bufsize\<close> bytes.\<close>

definition sprintf_key :: "nat \<Rightarrow> bytes \<Rightarrow> int \<Rightarrow> bytes option" where
  "sprintf_key bufsize stem n =
     (let key = stem @ sprintf_d n in if length key + 1 \<le> bufsize then Some key else None)"

abbreviation (input) MESSAGE_FILENAME_LENGTH :: nat where "MESSAGE_FILENAME_LENGTH \<equiv> 8"
abbreviation (input) PERSISTENCE_MAX_KEY_LENGTH :: nat where "PERSISTENCE_MAX_KEY_LENGTH \<equiv> 8"

definition strncmp_eq :: "bytes \<Rightarrow> bytes \<Rightarrow> bool" where
  "strncmp_eq key stem \<longleftrightarrow> take (length stem) (c_string key) = stem"

definition c_strstr :: "bytes \<Rightarrow> bytes \<Rightarrow> bool" where
  "c_strstr key stem \<longleftrightarrow> list_ex (\<lambda>k. take (length stem) (drop k (c_string key)) = stem) [0..<length (c_string key)]"

section \<open>Implementations\<close>

record 'w pers_ops =
  pe_popen :: "'w \<Rightarrow> bytes \<Rightarrow> bytes \<Rightarrow> int \<times> bytes \<times> 'w"
  pe_pclose :: "'w \<Rightarrow> bytes \<Rightarrow> int \<times> 'w"
  pe_pput :: "'w \<Rightarrow> bytes \<Rightarrow> bytes \<Rightarrow> bytes list \<Rightarrow> int \<times> 'w"
  pe_pget :: "'w \<Rightarrow> bytes \<Rightarrow> bytes \<Rightarrow> int \<times> bytes \<times> 'w"
  pe_premove :: "'w \<Rightarrow> bytes \<Rightarrow> bytes \<Rightarrow> int \<times> 'w"
  pe_pkeys :: "'w \<Rightarrow> bytes \<Rightarrow> int \<times> bytes list \<times> 'w"
  pe_pclear :: "'w \<Rightarrow> bytes \<Rightarrow> int \<times> 'w"
  pe_pcontainskey :: "'w \<Rightarrow> bytes \<Rightarrow> bytes \<Rightarrow> int \<times> 'w"

text \<open>
  \<open>MQTTPersistence_create\<close>: which implementation is used. Of the structure of the application it
  matters which of its nine members are not \<open>NULL\<close> (the context and the eight functions).
\<close>

datatype persistence = NoPersistence | DefaultPersistence bytes | UserPersistence

definition MQTTPersistence_create :: "int \<Rightarrow> bytes option \<Rightarrow> bool list option \<Rightarrow> int \<times> persistence" where
  "MQTTPersistence_create type pcontext user =
     (if type = MQTTCLIENT_PERSISTENCE_NONE then (0, NoPersistence)
      else if type = MQTTCLIENT_PERSISTENCE_DEFAULT then
        (0, DefaultPersistence (case pcontext of None \<Rightarrow> [46] | Some dir \<Rightarrow> c_string dir))
      else if type = MQTTCLIENT_PERSISTENCE_USER then
        (case user of
           None \<Rightarrow> (MQTTCLIENT_PERSISTENCE_ERROR, NoPersistence)
         | Some members \<Rightarrow> (if list_all id members then 0 else MQTTCLIENT_PERSISTENCE_ERROR, UserPersistence))
      else (MQTTCLIENT_PERSISTENCE_ERROR, NoPersistence))"

section \<open>Packets\<close>

text \<open>
  The loop of \<open>MQTTPersistence_restorePacket\<close> over the bytes after the header byte. Reading beyond the
  record and overflow of an \<open>int\<close> are undefined behaviour.
\<close>

fun restore_length :: "bytes \<Rightarrow> nat \<Rightarrow> nat \<Rightarrow> nat \<Rightarrow> (nat \<times> nat \<times> bytes) option" where
  "restore_length [] multiplier remaining_length fixed_header_length = None"
| "restore_length (c # cs) multiplier remaining_length fixed_header_length =
     (let remaining_length = remaining_length + unat (c AND 127) * multiplier;
          multiplier = multiplier * 128;
          fixed_header_length = fixed_header_length + 1
      in if remaining_length \<ge> 2 ^ 31 \<or> multiplier \<ge> 2 ^ 31 then None
         else if c AND 128 \<noteq> 0 then restore_length cs multiplier remaining_length fixed_header_length
         else Some (remaining_length, fixed_header_length, cs))"

definition MQTTPersistence_restorePacket :: "bytes \<Rightarrow> packet option option" where
  "MQTTPersistence_restorePacket buffer =
     (case buffer of
        [] \<Rightarrow> None
      | header # rest \<Rightarrow> do {
          (remaining_length, fixed_header_length, data) \<leftarrow> restore_length rest 1 0 1;
          if fixed_header_length + remaining_length = length buffer then
            (case new_packets (hdr_type header) of
               None \<Rightarrow> Some None
             | Some f \<Rightarrow> f header data remaining_length)
          else Some None
        })"

section \<open>Message lists\<close>

text \<open>
  \<open>MQTTPersistence_insertInOrder\<close>: the first element with a greater id is the one to insert before; with
  none, the message is appended.
\<close>

definition clist_insert_opt :: "nat option \<Rightarrow> 'c \<Rightarrow> 'c clist \<Rightarrow> 'c clist" where
  "clist_insert_opt index c q = (case index of None \<Rightarrow> clist_append c q | Some k \<Rightarrow> clist_insert k c q)"

definition MQTTPersistence_insertInOrder :: "addr clist \<Rightarrow> addr \<Rightarrow> 'w pstate \<Rightarrow> addr clist option" where
  "MQTTPersistence_insertInOrder q a st = do {
     m \<leftarrow> ps_msgs st a;
     _ \<leftarrow> (if msgs_valid st q then Some () else None);
     Some (clist_insert_opt (find_index (\<lambda>b. msg_msgid m < msg_msgid (the (ps_msgs st b))) (elems q)) a q)
   }"

text \<open>
  \<open>MQTTPersistence_wrapMsgID\<close>: the loop over the ids from the second on, keeping the greatest gap and
  the position after it; the list then begins at that position.
\<close>

fun wrap_loop :: "int \<Rightarrow> nat \<Rightarrow> int list \<Rightarrow> int \<Rightarrow> nat option \<Rightarrow> nat option" where
  "wrap_loop prev k [] gap wrapel = wrapel"
| "wrap_loop prev k (cur # ids) gap wrapel =
     (if cur - prev > gap then wrap_loop cur (k + 1) ids (cur - prev) (Some k)
      else wrap_loop cur (k + 1) ids gap wrapel)"

definition wrap_position :: "int list \<Rightarrow> nat option" where
  "wrap_position ids = (case ids of [] \<Rightarrow> None
     | firstMsgID # rest \<Rightarrow> wrap_loop firstMsgID 1 rest (MAX_MSG_ID - last ids + firstMsgID) None)"

definition clist_rotate :: "nat \<Rightarrow> 'c clist \<Rightarrow> 'c clist" where
  "clist_rotate k q = \<lparr>elems = drop k (elems q) @ take k (elems q),
     cursor = map_option (\<lambda>i. if k \<le> i then i - k else i + (length (elems q) - k)) (cursor q)\<rparr>"

definition MQTTPersistence_wrapMsgID :: "nat \<Rightarrow> 'w pstate \<Rightarrow> 'w pstate option" where
  "MQTTPersistence_wrapMsgID i st = do {
     let client = get_client i st;
     let q = cl_outboundMsgs client;
     _ \<leftarrow> (if msgs_valid st q then Some () else None);
     Some (case wrap_position (msg_ids st q) of None \<Rightarrow> st
       | Some k \<Rightarrow> set_client i (client\<lparr>cl_outboundMsgs := clist_rotate k q\<rparr>) st)
   }"

text \<open>The links that \<open>MQTTPersistence_wrapMsgID\<close> changes, \<open>wrapel\<close> being the new first element.\<close>

definition wrap_links :: "'c lstore \<Rightarrow> List \<Rightarrow> addr \<Rightarrow> ('c lstore \<times> List) option" where
  "wrap_links s l wrapel = do {
     s \<leftarrow> set_prev s (l_first l) (l_last l);
     s \<leftarrow> set_next s (l_last l) (l_first l);
     e \<leftarrow> get_el s (Some wrapel);
     let l = l\<lparr>l_first := Some wrapel, l_last := el_prev e\<rparr>;
     s \<leftarrow> set_prev s (l_first l) None;
     s \<leftarrow> set_next s (l_last l) None;
     Some (s, l)
   }"

section \<open>Records\<close>

text \<open>
  \<open>MQTTPersistence_put\<close>; with any other type of packet the key would be used uninitialised.
\<close>

definition put_key :: "nat \<Rightarrow> int \<Rightarrow> int \<Rightarrow> bytes option" where
  "put_key htype msgId scr =
     (if scr = 1 then sprintf_key (MESSAGE_FILENAME_LENGTH + 1) PERSISTENCE_PUBLISH_RECEIVED msgId
      else if scr = 0 \<and> htype = PUBLISH then sprintf_key (MESSAGE_FILENAME_LENGTH + 1) PERSISTENCE_PUBLISH_SENT msgId
      else if scr = 0 \<and> htype = PUBREL then sprintf_key (MESSAGE_FILENAME_LENGTH + 1) PERSISTENCE_PUBREL msgId
      else None)"

definition MQTTPersistence_put ::
    "'w pers_ops \<Rightarrow> int \<Rightarrow> bytes \<Rightarrow> bytes list \<Rightarrow> nat \<Rightarrow> int \<Rightarrow> int \<Rightarrow> 'w pstate \<Rightarrow> (int \<times> 'w pstate) option" where
  "MQTTPersistence_put pe socket buf0 buffers htype msgId scr st = do {
     (i, st) \<leftarrow> find_client socket st;
     if cl_persistence (get_client i st) then do {
       key \<leftarrow> put_key htype msgId scr;
       let (rc, w) = pe_pput pe (ps_world st) (cl_phandle (get_client i st)) key (buf0 # buffers);
       Some (rc, st\<lparr>ps_world := w\<rparr>)
     }
     else Some (0, st)
   }"

definition MQTTPersistence_remove :: "'w pers_ops \<Rightarrow> 'w \<Rightarrow> Clients \<Rightarrow> bytes \<Rightarrow> int \<Rightarrow> int \<Rightarrow> (int \<times> 'w) option" where
  "MQTTPersistence_remove pe w c type qos msgId =
     (if cl_persistence c then
        (if type = PERSISTENCE_PUBLISH_SENT \<and> qos = 2 then do {
           key \<leftarrow> sprintf_key (MESSAGE_FILENAME_LENGTH + 1) PERSISTENCE_PUBLISH_SENT msgId;
           let (rc, w) = pe_premove pe w (cl_phandle c) key;
           key \<leftarrow> sprintf_key (MESSAGE_FILENAME_LENGTH + 1) PERSISTENCE_PUBREL msgId;
           Some (pe_premove pe w (cl_phandle c) key)
         }
         else do {
           key \<leftarrow> sprintf_key (MESSAGE_FILENAME_LENGTH + 1) type msgId;
           Some (pe_premove pe w (cl_phandle c) key)
         })
      else Some (0, w))"

text \<open>
  \<open>MQTTPersistence_restore\<close>: one key of its loop. \<open>am\<close> and \<open>ap\<close> are the addresses of the message and
  the publication created, \<open>next0\<close> what \<open>nextMessageType\<close> holds when it is not set. The record is
  taken for what its key says: another packet is undefined behaviour.
\<close>

definition restore_received ::
    "'w proto_ops \<Rightarrow> nat \<Rightarrow> packet \<Rightarrow> addr \<Rightarrow> addr \<Rightarrow> 'w pstate \<Rightarrow> (int \<times> 'w pstate) option" where
  "restore_received po i pack am ap st = (case pack of
     PkPublish publish \<Rightarrow> do {
       st \<leftarrow> MQTTProtocol_createMessage po publish None (int (hdr_qos (pub_header publish)))
              (int (hdr_retain (pub_header publish))) am ap 0 st;
       msg \<leftarrow> ps_msgs st am;
       let client = get_client i st;
       Some (0, set_client i (client\<lparr>cl_inboundMsgs := clist_append am (cl_inboundMsgs client)\<rparr>)
                  (st\<lparr>ps_msgs := (ps_msgs st)(am \<mapsto> msg\<lparr>msg_nextMessageType := PUBREL\<rparr>)\<rparr>))
     }
   | _ \<Rightarrow> None)"

definition restore_sent ::
    "'w proto_ops \<Rightarrow> 'w pers_ops \<Rightarrow> nat \<Rightarrow> packet \<Rightarrow> addr \<Rightarrow> addr \<Rightarrow> nat \<Rightarrow> 'w pstate \<Rightarrow> (int \<times> 'w pstate) option" where
  "restore_sent po pe i pack am ap next0 st = (case pack of
     PkPublish publish \<Rightarrow> do {
       key \<leftarrow> sprintf_key (MESSAGE_FILENAME_LENGTH + 1) PERSISTENCE_PUBREL (pub_msgId publish);
       st \<leftarrow> MQTTProtocol_createMessage po publish None (int (hdr_qos (pub_header publish)))
              (int (hdr_retain (pub_header publish))) am ap next0 st;
       msg \<leftarrow> ps_msgs st am;
       let client = get_client i st;
       let (rc, w) = pe_pcontainskey pe (ps_world st) (cl_phandle client) key;
       let msg = (if rc = 0 then msg\<lparr>msg_nextMessageType := PUBCOMP\<rparr> else msg);
       let st = st\<lparr>ps_msgs := (ps_msgs st)(am \<mapsto> msg\<lparr>msg_lastTouch := 0\<rparr>), ps_world := w\<rparr>;
       q \<leftarrow> MQTTPersistence_insertInOrder (cl_outboundMsgs client) am st;
       Some (0, set_client i (client\<lparr>cl_outboundMsgs := q\<rparr>) st)
     }
   | _ \<Rightarrow> None)"

definition restore_pubrel ::
    "'w pers_ops \<Rightarrow> nat \<Rightarrow> bytes \<Rightarrow> packet \<Rightarrow> 'w pstate \<Rightarrow> (int \<times> 'w pstate) option" where
  "restore_pubrel pe i msgkey pack st = (case pack of
     PkAck pubrel \<Rightarrow> do {
       key \<leftarrow> sprintf_key (MESSAGE_FILENAME_LENGTH + 1) PERSISTENCE_PUBLISH_SENT (ack_msgId pubrel);
       let (rc, w) = pe_pcontainskey pe (ps_world st) (cl_phandle (get_client i st)) key;
       let (rc, w) = (if rc \<noteq> 0 then pe_premove pe w (cl_phandle (get_client i st)) msgkey else (0, w));
       Some (rc, st\<lparr>ps_world := w\<rparr>)
     }
   | _ \<Rightarrow> None)"

definition restore_key ::
    "'w proto_ops \<Rightarrow> 'w pers_ops \<Rightarrow> nat \<Rightarrow> bytes \<Rightarrow> addr \<Rightarrow> addr \<Rightarrow> nat \<Rightarrow> 'w pstate \<Rightarrow> (int \<times> 'w pstate) option" where
  "restore_key po pe i msgkey am ap next0 st =
     (if strncmp_eq msgkey PERSISTENCE_COMMAND_KEY \<or> strncmp_eq msgkey PERSISTENCE_QUEUE_KEY then Some (0, st)
      else case pe_pget pe (ps_world st) (cl_phandle (get_client i st)) msgkey of (rc, buffer, w) \<Rightarrow>
        let st = st\<lparr>ps_world := w\<rparr> in
        if rc \<noteq> 0 then Some (rc, st)
        else do {
          pack \<leftarrow> MQTTPersistence_restorePacket buffer;
          (case pack of
             None \<Rightarrow> (case pe_premove pe (ps_world st) (cl_phandle (get_client i st)) msgkey of (rc, w) \<Rightarrow> Some (rc, st\<lparr>ps_world := w\<rparr>))
           | Some pack \<Rightarrow>
               if c_strstr msgkey PERSISTENCE_PUBLISH_RECEIVED then restore_received po i pack am ap st
               else if c_strstr msgkey PERSISTENCE_PUBLISH_SENT then restore_sent po pe i pack am ap next0 st
               else if c_strstr msgkey PERSISTENCE_PUBREL then restore_pubrel pe i msgkey pack st
               else Some (0, st))
        })"

text \<open>The memory for the messages and publications is given with the keys.\<close>

fun restore_loop ::
    "'w proto_ops \<Rightarrow> 'w pers_ops \<Rightarrow> nat \<Rightarrow> (bytes \<times> addr \<times> addr \<times> nat) list \<Rightarrow> 'w pstate \<Rightarrow> (int \<times> 'w pstate) option" where
  "restore_loop po pe i [] st = Some (0, st)"
| "restore_loop po pe i ((msgkey, am, ap, next0) # keys) st = do {
     (rc, st) \<leftarrow> restore_key po pe i msgkey am ap next0 st;
     if rc = 0 then restore_loop po pe i keys st else Some (rc, st)
   }"

definition MQTTPersistence_restore ::
    "'w proto_ops \<Rightarrow> 'w pers_ops \<Rightarrow> nat \<Rightarrow> (addr \<times> addr \<times> nat) list \<Rightarrow> 'w pstate \<Rightarrow> (int \<times> 'w pstate) option" where
  "MQTTPersistence_restore po pe i mem st = do {
     (rc, st) \<leftarrow> (if cl_persistence (get_client i st) then
         (case pe_pkeys pe (ps_world st) (cl_phandle (get_client i st)) of (rc, msgkeys, w) \<Rightarrow>
            let st = st\<lparr>ps_world := w\<rparr> in
            if rc = 0 then (if length msgkeys \<le> length mem then restore_loop po pe i (zip msgkeys mem) st else None)
            else Some (rc, st))
       else Some (0, st));
     st \<leftarrow> MQTTPersistence_wrapMsgID i st;
     Some (rc, st)
   }"

definition MQTTPersistence_initialize ::
    "'w proto_ops \<Rightarrow> 'w pers_ops \<Rightarrow> nat \<Rightarrow> bytes \<Rightarrow> (addr \<times> addr \<times> nat) list \<Rightarrow> 'w pstate \<Rightarrow> (int \<times> 'w pstate) option" where
  "MQTTPersistence_initialize po pe i serverURI mem st =
     (if cl_persistence (get_client i st) then
        (case pe_popen pe (ps_world st) (cl_clientID (get_client i st)) serverURI of (rc, handle, w) \<Rightarrow>
           let st = set_client i ((get_client i st)\<lparr>cl_phandle := handle\<rparr>) (st\<lparr>ps_world := w\<rparr>) in
           if rc = 0 then MQTTPersistence_restore po pe i mem st else Some (rc, st))
      else Some (0, st))"

definition MQTTPersistence_close :: "'w pers_ops \<Rightarrow> nat \<Rightarrow> 'w pstate \<Rightarrow> int \<times> 'w pstate" where
  "MQTTPersistence_close pe i st =
     (if cl_persistence (get_client i st) then
        (case pe_pclose pe (ps_world st) (cl_phandle (get_client i st)) of (rc, w) \<Rightarrow>
           (rc, set_client i ((get_client i st)\<lparr>cl_phandle := [], cl_persistence := False\<rparr>) (st\<lparr>ps_world := w\<rparr>)))
      else (0, st))"

definition MQTTPersistence_clear :: "'w pers_ops \<Rightarrow> nat \<Rightarrow> 'w pstate \<Rightarrow> int \<times> 'w pstate" where
  "MQTTPersistence_clear pe i st =
     (if cl_persistence (get_client i st) then
        (case pe_pclear pe (ps_world st) (cl_phandle (get_client i st)) of (rc, w) \<Rightarrow> (rc, st\<lparr>ps_world := w\<rparr>))
      else (0, st))"

section \<open>Queue entries\<close>

definition int32_bytes :: "int \<Rightarrow> bytes" where
  "int32_bytes n = map (\<lambda>k. word_of_int (n div 2 ^ (8 * k))) [0..<4]"

definition read_int32 :: "bytes \<Rightarrow> (int \<times> bytes) option" where
  "read_int32 bs = (if length bs < 4 then None
     else Some (sint (word_of_int (\<Sum>k\<leftarrow>[0..<4]. uint (bs ! k) * 2 ^ (8 * k)) :: 32 word), drop 4 bs))"

definition MQTTPersistence_unpersistQueueEntry ::
    "'w pers_ops \<Rightarrow> Clients \<Rightarrow> MQTTPersistence_qEntry \<Rightarrow> 'w \<Rightarrow> (int \<times> 'w) option" where
  "MQTTPersistence_unpersistQueueEntry pe client qe w = do {
     key \<leftarrow> sprintf_key (PERSISTENCE_MAX_KEY_LENGTH + 1) PERSISTENCE_QUEUE_KEY (sint (qe_seqno qe));
     Some (pe_premove pe w (cl_phandle client) key)
   }"

definition qentry_buffers :: "MQTTPersistence_qEntry \<Rightarrow> bytes list option" where
  "qentry_buffers qe =
     (let msg = qe_msg qe in
      if 0 \<le> pm_payloadlen msg \<and> nat (pm_payloadlen msg) \<le> length (pm_payload msg) then
        Some [int32_bytes (pm_payloadlen msg), take (nat (pm_payloadlen msg)) (pm_payload msg), int32_bytes (pm_qos msg),
          int32_bytes (pm_retained msg), int32_bytes (pm_dup msg), int32_bytes (pm_msgid msg),
          c_string (qe_topicName qe) @ [0], int32_bytes (qe_topicLen qe)]
      else None)"

definition MQTTPersistence_persistQueueEntry ::
    "'w pers_ops \<Rightarrow> Clients \<Rightarrow> MQTTPersistence_qEntry \<Rightarrow> 'w \<Rightarrow> (int \<times> Clients \<times> MQTTPersistence_qEntry \<times> 'w) option" where
  "MQTTPersistence_persistQueueEntry pe aclient qe w = do {
     bufs \<leftarrow> qentry_buffers qe;
     let aclient = aclient\<lparr>cl_qentry_seqno := cl_qentry_seqno aclient + 1\<rparr>;
     key \<leftarrow> sprintf_key (PERSISTENCE_MAX_KEY_LENGTH + 1) PERSISTENCE_QUEUE_KEY (sint (cl_qentry_seqno aclient));
     let qe = qe\<lparr>qe_seqno := cl_qentry_seqno aclient\<rparr>;
     let (rc, w) = pe_pput pe w (cl_phandle aclient) key bufs;
     Some (rc, aclient, qe, w)
   }"

text \<open>\<open>MQTTPersistence_restoreQueueEntry\<close>: the length of the record is not used.\<close>

definition read_bytes :: "int \<Rightarrow> bytes \<Rightarrow> (bytes \<times> bytes) option" where
  "read_bytes n bs = (if 0 \<le> n \<and> nat n \<le> length bs then Some (take (nat n) bs, drop (nat n) bs) else None)"

definition read_string :: "bytes \<Rightarrow> (bytes \<times> bytes) option" where
  "read_string bs = (if 0 \<in> set bs then Some (c_string bs, drop (length (c_string bs) + 1) bs) else None)"

definition MQTTPersistence_restoreQueueEntry :: "bytes \<Rightarrow> MQTTPersistence_qEntry option" where
  "MQTTPersistence_restoreQueueEntry buffer = do {
     (payloadlen, ptr) \<leftarrow> read_int32 buffer;
     (payload, ptr) \<leftarrow> read_bytes payloadlen ptr;
     (qos, ptr) \<leftarrow> read_int32 ptr;
     (retained, ptr) \<leftarrow> read_int32 ptr;
     (dup, ptr) \<leftarrow> read_int32 ptr;
     (msgid, ptr) \<leftarrow> read_int32 ptr;
     (topicName, ptr) \<leftarrow> read_string ptr;
     (topicLen, ptr) \<leftarrow> read_int32 ptr;
     Some \<lparr>qe_msg = \<lparr>pm_payloadlen = payloadlen, pm_payload = payload, pm_qos = qos, pm_retained = retained,
             pm_dup = dup, pm_msgid = msgid\<rparr>, qe_topicName = topicName, qe_topicLen = topicLen, qe_seqno = 0\<rparr>
   }"

definition MQTTPersistence_insertInSeqOrder ::
    "MQTTPersistence_qEntry clist \<Rightarrow> MQTTPersistence_qEntry \<Rightarrow> MQTTPersistence_qEntry clist" where
  "MQTTPersistence_insertInSeqOrder q qe =
     clist_insert_opt (find_index (\<lambda>e. qe_seqno qe < qe_seqno e) (elems q)) qe q"

fun restoreq_loop :: "'w pers_ops \<Rightarrow> bytes list \<Rightarrow> Clients \<Rightarrow> 'w \<Rightarrow> (int \<times> Clients \<times> 'w) option" where
  "restoreq_loop pe [] c w = Some (0, c, w)"
| "restoreq_loop pe (msgkey # msgkeys) c w =
     (if \<not> strncmp_eq msgkey PERSISTENCE_QUEUE_KEY then restoreq_loop pe msgkeys c w
      else case pe_pget pe w (cl_phandle c) msgkey of (rc, buffer, w) \<Rightarrow>
        if rc \<noteq> 0 then Some (rc, c, w)
        else do {
          qe \<leftarrow> MQTTPersistence_restoreQueueEntry buffer;
          let qe = qe\<lparr>qe_seqno := word_of_int (c_atoi (drop 2 msgkey))\<rparr>;
          restoreq_loop pe msgkeys (c\<lparr>cl_messageQueue := MQTTPersistence_insertInSeqOrder (cl_messageQueue c) qe,
            cl_qentry_seqno := max (cl_qentry_seqno c) (qe_seqno qe)\<rparr>) w
        })"

definition MQTTPersistence_restoreMessageQueue :: "'w pers_ops \<Rightarrow> Clients \<Rightarrow> 'w \<Rightarrow> (int \<times> Clients \<times> 'w) option" where
  "MQTTPersistence_restoreMessageQueue pe c w =
     (if cl_persistence c then
        (case pe_pkeys pe w (cl_phandle c) of (rc, msgkeys, w) \<Rightarrow>
           if rc = 0 then restoreq_loop pe msgkeys c w else Some (rc, c, w))
      else Some (0, c, w))"

section \<open>What an implementation promises\<close>

text \<open>Keys are short names of lower-case letters, digits and hyphens.\<close>

definition plain_key :: "bytes \<Rightarrow> bool" where
  "plain_key k \<longleftrightarrow> k \<noteq> [] \<and> list_all (\<lambda>c. c = 45 \<or> 48 \<le> c \<and> c \<le> 57 \<or> 97 \<le> c \<and> c \<le> 122) k"

lemma plain_c_string: "plain_key k \<Longrightarrow> c_string k = k"
  by (auto simp: plain_key_def c_string_def list_all_iff takeWhile_eq_all_conv)

lemma plain_key_chars: "plain_key k \<Longrightarrow> 46 \<notin> set k \<and> 47 \<notin> set k"
  by (fastforce simp: plain_key_def list_all_iff)

text \<open>
  A store of records, as seen through a handle: \<open>records w h\<close> are the records by key, \<open>ready w h\<close> says
  that \<open>h\<close> is an open store.
\<close>

locale key_store =
  fixes pe :: "'w pers_ops" and records :: "'w \<Rightarrow> bytes \<Rightarrow> bytes \<Rightarrow> bytes option" and ready :: "'w \<Rightarrow> bytes \<Rightarrow> bool"
  assumes store_put: "ready w h \<Longrightarrow> plain_key k \<Longrightarrow>
      \<exists>w'. pe_pput pe w h k bs = (0, w') \<and> ready w' h \<and> records w' h = (records w h)(k \<mapsto> concat bs)"
    and store_get: "ready w h \<Longrightarrow> plain_key k \<Longrightarrow> records w h k = Some b \<Longrightarrow> length b < 2 ^ 31 \<Longrightarrow>
      \<exists>w'. pe_pget pe w h k = (0, b, w') \<and> ready w' h \<and> records w' h = records w h"
    and store_contains: "ready w h \<Longrightarrow> plain_key k \<Longrightarrow>
      \<exists>rc w'. pe_pcontainskey pe w h k = (rc, w') \<and> (rc = 0 \<longleftrightarrow> k \<in> dom (records w h)) \<and> ready w' h \<and> records w' h = records w h"
    and store_remove: "ready w h \<Longrightarrow> plain_key k \<Longrightarrow>
      \<exists>w'. pe_premove pe w h k = (0, w') \<and> ready w' h \<and> records w' h = (records w h)(k := None)"
    and store_keys: "ready w h \<Longrightarrow> \<exists>ks w'. pe_pkeys pe w h = (0, ks, w') \<and> distinct ks \<and> set ks = dom (records w h) \<and>
      list_all plain_key ks \<and> ready w' h \<and> records w' h = records w h"

end
