(* ===== verification/Recovery.thy ===== *)
theory Recovery
  imports Persistence Upkeep
begin

text \<open>
  Properties of persistence: records are read back as they were written, the order of the outbound
  messages is restored, and a restart brings back every unacknowledged message at the stage its exchange
  had reached.
\<close>

section \<open>Records of packets\<close>

lemma restore_length_encode:
  assumes "r + n * m < 2 ^ 31" "m * 128 ^ length (MQTTPacket_encode n) < 2 ^ 31"
  shows "restore_length (MQTTPacket_encode n @ rest) m r f = Some (r + n * m, f + length (MQTTPacket_encode n), rest)"
  using assms
proof (induction n arbitrary: m r f rule: MQTTPacket_encode.induct)
  case (1 n)
  let ?d = "word_of_nat (n mod 128) :: byte"
  show ?case
  proof (cases "n div 128 > 0")
    case True
    then have enc: "MQTTPacket_encode n = (?d OR 0x80) # MQTTPacket_encode (n div 128)"
      by (simp add: MQTTPacket_encode.simps [of n] Let_def)
    have "r + n mod 128 * m + n div 128 * (m * 128) = r + (n div 128 * 128 + n mod 128) * m" by (simp only: algebra_simps)
    then have sum: "r + n mod 128 * m + n div 128 * (m * 128) = r + n * m" by simp
    have len: "m * 128 * 128 ^ length (MQTTPacket_encode (n div 128)) < 2 ^ 31"
      using "1.prems"(2) by (simp add: enc mult.assoc)
    have "m * 128 * 1 \<le> m * 128 * 128 ^ length (MQTTPacket_encode (n div 128))" by (intro mult_le_mono2) simp
    with len have "m * 128 < 2 ^ 31" by linarith
    moreover have "r + n mod 128 * m < 2 ^ 31" using sum "1.prems"(1) by linarith
    ultimately show ?thesis
      using "1.IH" [OF refl True, of "r + n mod 128 * m" "m * 128" "f + 1"] sum "1.prems"(1) len
      by (simp add: enc digit_bits Let_def)
  next
    case False
    then have small: "n < 128" by simp
    with digit_bits(1,2) [of n] have "unat ((word_of_nat n :: byte) AND 127) = n" "(word_of_nat n :: byte) AND 128 = 0" by simp_all
    with small "1.prems" show ?thesis by (simp add: MQTTPacket_encode.simps [of n] Let_def)
  qed
qed

lemma restore_length_4:
  assumes "n < 268435456"
  shows "restore_length (MQTTPacket_encode n @ rest) 1 0 1 = Some (n, 1 + length (MQTTPacket_encode n), rest)"
proof -
  have "length (MQTTPacket_encode n) \<le> 4" using encode_length_le [of n 3] assms by simp
  then have "(128::nat) ^ length (MQTTPacket_encode n) \<le> 128 ^ 4" by (intro power_increasing) auto
  with restore_length_encode [of 0 n 1 rest 1] assms show ?thesis by simp
qed

definition publish_record :: "int \<Rightarrow> int \<Rightarrow> int \<Rightarrow> bytes \<Rightarrow> int \<Rightarrow> bytes \<Rightarrow> bytes" where
  "publish_record dup qos retained topic msgId payload =
     mk_header PUBLISH dup qos retained # MQTTPacket_encode (length (publish_bytes topic qos msgId payload)) @
     publish_bytes topic qos msgId payload"

definition pubrel_record :: "int \<Rightarrow> int \<Rightarrow> bytes" where
  "pubrel_record dup msgId = mk_header PUBREL dup 1 0 # MQTTPacket_encode 2 @ int_bytes msgId"

lemma restorePacket_publish:
  assumes "c_string t = t" "length t < 65536" "qos = 1 \<or> qos = 2" "0 \<le> n" "n < 65536"
    and "length (publish_bytes t qos n payload) < 268435456"
  shows "MQTTPersistence_restorePacket (publish_record dup qos retained t n payload) =
    Some (Some (PkPublish \<lparr>pub_header = mk_header PUBLISH dup qos retained, pub_topic = Some t, pub_topiclen = int (length t),
      pub_msgId = n, pub_payload = payload, pub_payloadlen = int (length payload)\<rparr>))"
proof -
  have "hdr_qos (mk_header PUBLISH dup qos retained) > 0 \<longleftrightarrow> qos > 0" using assms(3) by (auto simp: hdr_mk_header)
  from MQTTPacket_publish_written [OF assms(1,2) this assms(4,5), of payload "[]"] assms(3)
  show ?thesis using restore_length_4 [OF assms(6), of "publish_bytes t qos n payload"]
    by (auto simp: MQTTPersistence_restorePacket_def publish_record_def hdr_mk_header new_packets_def)
qed

lemma restorePacket_pubrel:
  assumes "0 \<le> n" "n < 65536"
  shows "MQTTPersistence_restorePacket (pubrel_record dup n) = Some (Some (PkAck \<lparr>ack_header = mk_header PUBREL dup 1 0, ack_msgId = n\<rparr>))"
  using restore_length_4 [of 2 "int_bytes n"] readInt_int_bytes [OF assms, of "[]" "[]"]
  by (simp add: MQTTPersistence_restorePacket_def pubrel_record_def hdr_mk_header new_packets_def MQTTPacket_ack_def)

section \<open>Order of the outbound messages\<close>

text \<open>Insertion in front of the first greater element keeps a list sorted.\<close>

lemma find_index_greater_sorted:
  assumes "sorted (map f xs)" "find_index (\<lambda>y. f x < f y) xs = Some k"
  shows "sorted (map f (take k xs @ x # drop k xs))"
  using assms
proof (induction xs arbitrary: k)
  case (Cons y xs)
  show ?case
  proof (cases "f x < f y")
    case True
    with Cons.prems show ?thesis by auto
  next
    case False
    with Cons.prems obtain j where j: "find_index (\<lambda>y. f x < f y) xs = Some j" "k = Suc j" by auto
    have "set (take j xs @ drop j xs) = set xs" by (simp only: append_take_drop_id)
    with Cons.IH [OF _ j(1)] Cons.prems(1) False j(2) show ?thesis by (auto dest: in_set_takeD in_set_dropD)
  qed
qed simp

lemma insert_opt_sorted:
  assumes "sorted (map f (elems q))"
  shows "sorted (map f (elems (clist_insert_opt (find_index (\<lambda>y. f x < f y) (elems q)) x q)))"
proof (cases "find_index (\<lambda>y. f x < f y) (elems q)")
  case None
  then have "\<forall>y\<in>set (elems q). f y \<le> f x" by (auto simp: find_index_None_iff not_less)
  with assms None show ?thesis by (auto simp: clist_insert_opt_def clist_append_def sorted_append)
next
  case (Some k)
  with find_index_greater_sorted [OF assms Some] show ?thesis by (simp add: clist_insert_opt_def clist_insert_def)
qed

lemma insert_opt_elems:
  assumes "\<And>k. idx = Some k \<Longrightarrow> k < length (elems q)"
  shows "\<exists>ys zs. elems q = ys @ zs \<and> elems (clist_insert_opt idx x q) = ys @ x # zs"
    and "cursor_in q \<Longrightarrow> cursor_in (clist_insert_opt idx x q)"
proof -
  show "\<exists>ys zs. elems q = ys @ zs \<and> elems (clist_insert_opt idx x q) = ys @ x # zs"
    by (cases idx) (auto simp: clist_insert_opt_def clist_append_def clist_insert_def intro: exI [of _ "elems q"] append_take_drop_id [symmetric])
  show "cursor_in (clist_insert_opt idx x q)" if "cursor_in q"
    using that assms by (auto simp: clist_insert_opt_def clist_append_def clist_insert_def cursor_in_def split: option.splits)
qed

section \<open>Wrapping message ids\<close>

text \<open>The gap before each id of a list, the first id following the last one after wrapping.\<close>

definition gap_before :: "int list \<Rightarrow> nat \<Rightarrow> int" where
  "gap_before ids k = (if k = 0 then MAX_MSG_ID - last ids + hd ids else ids ! k - ids ! (k - 1))"

lemma wrap_loop_max:
  assumes "k + length rest = length ids" "k \<ge> 1" "drop k ids = rest" "prev = ids ! (k - 1)"
    and "w < k" "gap = gap_before ids w" "\<forall>j<k. gap_before ids j \<le> gap" "wrapel = (if w = 0 then None else Some w)"
  shows "\<exists>w'. wrap_loop prev k rest gap wrapel = (if w' = 0 then None else Some w') \<and> w' < length ids \<and>
    (\<forall>j<length ids. gap_before ids j \<le> gap_before ids w')"
  using assms
proof (induction rest arbitrary: k prev gap w wrapel)
  case Nil
  then show ?case by auto
next
  case (Cons cur rest)
  from Cons.prems(1,3) have cur: "ids ! k = cur" "drop (Suc k) ids = rest" "k < length ids"
    by (auto simp: drop_Suc nth_via_drop tl_drop [symmetric])
  then have g: "gap_before ids k = cur - prev" using Cons.prems(2,4) by (simp add: gap_before_def)
  show ?case
  proof (cases "cur - prev > gap")
    case True
    with Cons.prems(7) g have "\<forall>j<Suc k. gap_before ids j \<le> cur - prev" by (auto simp: less_Suc_eq intro: order.trans less_imp_le)
    with Cons.IH [of "Suc k" cur k "cur - prev" "Some k"] Cons.prems cur g True show ?thesis by auto
  next
    case False
    with Cons.prems(7) g have "\<forall>j<Suc k. gap_before ids j \<le> gap" by (auto simp: less_Suc_eq)
    with Cons.IH [of "Suc k" cur w gap wrapel] Cons.prems cur False show ?thesis by auto
  qed
qed

lemma wrap_position_max:
  assumes "ids \<noteq> []"
  shows "\<exists>k. wrap_position ids = (if k = 0 then None else Some k) \<and> k < length ids \<and> (\<forall>j<length ids. gap_before ids j \<le> gap_before ids k)"
proof -
  obtain i rest where ids: "ids = i # rest" using assms by (cases ids) auto
  then have "wrap_position ids = wrap_loop i 1 rest (gap_before ids 0) None" by (simp add: wrap_position_def gap_before_def)
  then show ?thesis by (simp only:) (rule wrap_loop_max [where w = 0]; simp add: ids)
qed

text \<open>The change of links is a rotation.\<close>

lemma find_index_rotate:
  assumes "distinct (as @ cs)"
  shows "find_index ((=) a) (cs @ as) =
    map_option (\<lambda>i. if length as \<le> i then i - length as else i + length cs) (find_index ((=) a) (as @ cs))"
proof (cases "find_index ((=) a) as")
  case None
  then show ?thesis by (cases "find_index ((=) a) cs") (simp_all add: find_index_append)
next
  case (Some j)
  then have "j < length as" "as ! j = a" using find_index_SomeD [OF Some] by auto
  moreover from this have "a \<notin> set cs" using assms nth_mem [of j as] by auto
  ultimately have "find_index ((=) a) cs = None" by (auto simp: find_index_None_iff)
  with Some \<open>j < length as\<close> show ?thesis by (simp add: find_index_append)
qed

lemma dseg_relink:
  assumes "dseg h p xs n" "distinct xs"
    and "\<And>a e. a \<in> set xs \<Longrightarrow> h a = Some e \<Longrightarrow> \<exists>e'. h' a = Some e' \<and>
      el_prev e' = (if a = hd xs then p' else el_prev e) \<and> el_next e' = (if a = last xs then n' else el_next e)"
  shows "dseg h' p' xs n'"
  using assms
proof (induction xs arbitrary: p p')
  case (Cons a xs)
  from Cons.prems(1) obtain e where e: "h a = Some e" "el_next e = hd_opt xs n" "dseg h (Some a) xs n" by auto
  from Cons.prems(3) [of a e] e(1) obtain e' where e': "h' a = Some e'" "el_prev e' = p'"
    "el_next e' = (if xs = [] then n' else el_next e)" using Cons.prems(2) by (auto split: if_splits)
  have "dseg h' (Some a) xs n'"
  proof (rule Cons.IH [OF e(3)])
    fix c ec assume c: "c \<in> set xs" "h c = Some ec"
    then have "c \<noteq> a" using Cons.prems(2) by auto
    moreover have "el_prev ec = Some a" if "c = hd xs" using e(3) c that by (cases xs) auto
    ultimately show "\<exists>e'. h' c = Some e' \<and> el_prev e' = (if c = hd xs then Some a else el_prev ec) \<and>
        el_next e' = (if c = last xs then n' else el_next ec)"
      using Cons.prems(3) [of c ec] c by (auto split: if_splits)
  qed (use Cons.prems(2) in simp)
  with e' e(2) show ?case by (cases xs) auto
qed simp

text \<open>What becomes of an element when the list \<open>as @ b # bs\<close> is made to begin at \<open>b\<close>.\<close>

definition wrap_cell :: "addr list \<Rightarrow> addr \<Rightarrow> addr list \<Rightarrow> addr \<Rightarrow> 'c ListElement \<Rightarrow> 'c ListElement" where
  "wrap_cell as b bs a e = e\<lparr>el_prev := (if a = b then None else if a = hd as then Some (last (b # bs)) else el_prev e),
     el_next := (if a = last as then None else if a = last (b # bs) then Some (hd as) else el_next e)\<rparr>"

lemma wrap_links_run:
  assumes "list_rep s l (as @ b # bs)" "as \<noteq> []"
  shows "\<exists>s'. wrap_links s l b = Some (s', l\<lparr>l_first := Some b, l_last := Some (last as)\<rparr>) \<and>
    (\<forall>a. cells s' a = (if a \<in> set (as @ b # bs) then map_option (wrap_cell as b bs a) (cells s a) else cells s a))"
proof -
  let ?f = "hd as" and ?x = "last as" and ?L = "last (b # bs)" and ?xs = "as @ b # bs"
  from assms have rep: "dseg (cells s) None ?xs None" "distinct ?xs" "l_first l = Some ?f" "l_last l = Some ?L"
    by (simp_all add: list_rep_def hd_opt_eq last_opt_eq)
  have mem: "?f \<in> set ?xs" "?x \<in> set ?xs" "b \<in> set ?xs" "?L \<in> set ?xs" "?f \<in> set as" "?x \<in> set as" "?L \<in> set (b # bs)"
    using assms(2) last_in_set [of "b # bs"] by auto
  from dseg_live [OF rep(1) mem(1)] dseg_live [OF rep(1) mem(2)] dseg_live [OF rep(1) mem(3)] dseg_live [OF rep(1) mem(4)]
  obtain ef ex eb eL where e: "cells s ?f = Some ef" "cells s ?x = Some ex" "cells s b = Some eb" "cells s ?L = Some eL" by blast
  have eb: "el_prev eb = Some ?x" using rep(1) e(3) assms(2) by (simp add: dseg_append last_opt_eq)
  have ne: "?f \<noteq> b" "?x \<noteq> ?L" "?f \<noteq> ?L" "?x \<noteq> b" using rep(2) mem(5-7) by auto
  define s' where "s' = s\<lparr>cells := \<lambda>a. if a \<in> {?f, ?L, b, ?x} then map_option (wrap_cell as b bs a) (cells s a) else cells s a\<rparr>"
  have "wrap_links s l b = Some (s', l\<lparr>l_first := Some b, l_last := Some ?x\<rparr>)"
    using rep(3,4) e eb ne
    by (auto simp: wrap_links_def store_defs s'_def wrap_cell_def Let_def fun_eq_iff split: if_splits)
  moreover have "cells s' a = map_option (wrap_cell as b bs a) (cells s a)" for a
    by (cases "cells s a") (auto simp: s'_def wrap_cell_def)
  moreover have "cells s' a = cells s a" if "a \<notin> set ?xs" for a using that mem by (auto simp: s'_def)
  ultimately show ?thesis by auto
qed

lemma wrap_abs:
  assumes "list_rep s l (as @ b # bs)" "l_current l' = l_current l"
    and "\<And>a. a \<in> set (as @ b # bs) \<Longrightarrow> cells s' a = map_option (wrap_cell as b bs a) (cells s a)"
  shows "abs_list s' l' (b # bs @ as) = clist_rotate (length as) (abs_list s l (as @ b # bs))"
proof -
  let ?xs = "as @ b # bs"
  from assms(1) have rep: "dseg (cells s) None ?xs None" "distinct ?xs" by (simp_all add: list_rep_def)
  have "el_content (the (cells s' a)) = el_content (the (cells s a))" if "a \<in> set ?xs" for a
    using dseg_live [OF rep(1) that] assms(3) [OF that] by (auto simp: wrap_cell_def)
  then have "contents (cells s') ((b # bs) @ as) = contents (cells s) ((b # bs) @ as)" by (auto simp: contents_def)
  then have "contents (cells s') ((b # bs) @ as) = drop (length as) (contents (cells s) ?xs) @ take (length as) (contents (cells s) ?xs)"
    by simp
  moreover have "find_index ((=) a) (b # bs @ as) =
      map_option (\<lambda>i. if length as \<le> i then i - length as else i + length (b # bs)) (find_index ((=) a) ?xs)" for a
    using find_index_rotate [OF rep(2)] by (simp only: append_Cons)
  moreover have "length (elems (abs_list s l ?xs)) - length as = length (b # bs)" by (simp add: abs_list_def)
  ultimately show ?thesis using assms(2) unfolding clist_rotate_def
    by (cases "l_current l") (simp_all only: abs_list_def bind.simps option.map clist.select_convs append_Cons)
qed

text \<open>
  What \<open>MQTTPersistence_wrapMsgID\<close> does to the links of the outbound list, given an element \<open>b\<close> that
  is not the first: no bad pointer is followed, and the list is rotated so that it begins at \<open>b\<close>, with
  the same elements, contents and current element, and nothing else changed.
\<close>

theorem wrap_links_rotates:
  assumes "list_rep s l (as @ b # bs)" and "as \<noteq> []"
  shows "\<exists>s' l'. wrap_links s l b = Some (s', l') \<and> list_rep s' l' (b # bs @ as) \<and>
    abs_list s' l' (b # bs @ as) = clist_rotate (length as) (abs_list s l (as @ b # bs)) \<and>
    same_outside (set (as @ b # bs)) s s'"
proof -
  let ?xs = "as @ b # bs"
  from wrap_links_run [OF assms] obtain s' where run: "wrap_links s l b = Some (s', l\<lparr>l_first := Some b, l_last := Some (last as)\<rparr>)"
    "\<forall>a. cells s' a = (if a \<in> set ?xs then map_option (wrap_cell as b bs a) (cells s a) else cells s a)" by blast
  from assms have rep: "dseg (cells s) None ?xs None" "distinct ?xs" "l_count l = int (length ?xs)"
      "case l_current l of None \<Rightarrow> True | Some a \<Rightarrow> a \<in> set ?xs"
    by (simp_all add: list_rep_def)
  then have d: "dseg (cells s) None as (Some b)" "dseg (cells s) (Some (last as)) (b # bs) None"
    using assms(2) by (simp_all add: dseg_append last_opt_eq)
  have mem: "hd as \<in> set as" "last as \<in> set as" "last (b # bs) \<in> set (b # bs)" using assms(2) last_in_set [of "b # bs"] by auto
  have tl: "\<exists>e'. cells s' a = Some e' \<and> el_prev e' = (if a = hd (b # bs) then None else el_prev e) \<and>
      el_next e' = (if a = last (b # bs) then Some (hd as) else el_next e)" if "a \<in> set (b # bs)" "cells s a = Some e" for a e
  proof -
    have "a \<noteq> hd as" "a \<noteq> last as" "a \<in> set ?xs" using that(1) rep(2) mem by auto
    with that(2) run(2) show ?thesis by (simp add: wrap_cell_def)
  qed
  have hd: "\<exists>e'. cells s' a = Some e' \<and> el_prev e' = (if a = hd as then Some (last (b # bs)) else el_prev e) \<and>
      el_next e' = (if a = last as then None else el_next e)" if "a \<in> set as" "cells s a = Some e" for a e
  proof -
    have "a \<noteq> b" "a \<noteq> last (b # bs)" "a \<in> set ?xs" using that(1) rep(2) mem by auto
    with that(2) run(2) show ?thesis by (simp add: wrap_cell_def)
  qed
  have "dseg (cells s') None (b # bs) (Some (hd as))" by (rule dseg_relink [OF d(2) _ tl]) (use rep(2) in simp_all)
  moreover have "dseg (cells s') (Some (last (b # bs))) as None" by (rule dseg_relink [OF d(1) _ hd]) (use rep(2) in simp_all)
  ultimately have "dseg (cells s') None ((b # bs) @ as) None"
    unfolding dseg_append using assms(2) by (simp add: hd_opt_eq last_opt_eq)
  then have "list_rep s' (l\<lparr>l_first := Some b, l_last := Some (last as)\<rparr>) (b # bs @ as)"
    using rep assms(2) by (auto simp: list_rep_def last_opt_eq split: option.splits)
  moreover have "abs_list s' (l\<lparr>l_first := Some b, l_last := Some (last as)\<rparr>) (b # bs @ as) = clist_rotate (length as) (abs_list s l ?xs)"
    by (rule wrap_abs [OF assms(1)]) (use run(2) in simp_all)
  moreover have "same_outside (set ?xs) s s'" using run(2) by (simp add: same_outside_def)
  ultimately show ?thesis using run(1) by blast
qed

lemma wrap_links_rotates_witness:
  "\<exists>s' l'. wrap_links two_cells two_list 2 = Some (s', l') \<and> list_rep s' l' [2, 1] \<and> elems (abs_list s' l' [2, 1]) = [6, 5]"
proof -
  have "list_rep two_cells two_list ([1] @ 2 # [])" using two_list_rep(1) by simp
  from wrap_links_rotates [OF this] obtain s' l' where "wrap_links two_cells two_list 2 = Some (s', l')"
    "list_rep s' l' [2, 1]" "abs_list s' l' [2, 1] = clist_rotate 1 (abs_list two_cells two_list [1, 2])" by auto
  then show ?thesis unfolding two_list_abs by (auto simp: clist_rotate_def)
qed

section \<open>Restoring one message\<close>

lemma createMessage_ok:
  assumes "publish_ok p"
  shows "\<exists>len. MQTTProtocol_createMessage po p None qos retained am ap next0 st =
    Some (st\<lparr>ps_pubs := (ps_pubs st)(ap \<mapsto> stored_publication p), ps_publications := clist_append ap (ps_publications st),
      ps_msgs := (ps_msgs st)(am \<mapsto> outbound_message po p qos retained ap next0 len st)\<rparr>)"
  using storePublication_ok [OF assms, of po ap st] by (auto simp: MQTTProtocol_createMessage_def outbound_message_def)

lemma list_holds_insert:
  assumes "list_holds st q ms" "entry_ok st' e" "\<And>x. x \<in> set ms \<Longrightarrow> entry_ok st' x"
    and "fst e \<notin> fst ` set ms" "eid e \<notin> eid ` set ms" "epub e \<notin> epub ` set ms"
    and "elems q = ys @ zs" "elems q' = ys @ fst e # zs" "cursor_in q'"
  shows "\<exists>ms1 ms2. ms = ms1 @ ms2 \<and> list_holds st' q' (ms1 @ e # ms2)"
proof -
  from assms(1,7) have "map fst ms = ys @ zs" by (simp add: list_holds_def)
  then obtain ms1 ms2 where ms: "ms = ms1 @ ms2" "map fst ms1 = ys" "map fst ms2 = zs" by (auto simp: map_eq_append_conv)
  with assms show ?thesis by (intro exI [of _ ms1] exI [of _ ms2]) (auto simp: list_holds_def)
qed

text \<open>A client while its messages are restored: the outbound entries, in order, and the inbound ones.\<close>

definition restoring :: "'w pstate \<Rightarrow> nat \<Rightarrow> entry list \<Rightarrow> entry list \<Rightarrow> bool" where
  "restoring st i mo mi \<longleftrightarrow> i < length (elems (ps_clients st)) \<and> pubs_ok st \<and>
     list_holds st (cl_outboundMsgs (get_client i st)) mo \<and> list_holds st (cl_inboundMsgs (get_client i st)) mi \<and>
     fst ` set mo \<inter> fst ` set mi = {} \<and> epub ` set mo \<inter> epub ` set mi = {} \<and> sorted (map eid mo)"

text \<open>What stays as it is: the client's persistence, and all memory but what was allocated.\<close>

definition grows :: "nat \<Rightarrow> addr \<Rightarrow> addr \<Rightarrow> 'w pstate \<Rightarrow> 'w pstate \<Rightarrow> bool" where
  "grows i am ap st st' \<longleftrightarrow> cl_persistence (get_client i st') = cl_persistence (get_client i st) \<and>
     cl_phandle (get_client i st') = cl_phandle (get_client i st) \<and>
     dom (ps_msgs st') \<subseteq> insert am (dom (ps_msgs st)) \<and> dom (ps_pubs st') \<subseteq> insert ap (dom (ps_pubs st))"

lemma restoring_fresh:
  assumes "restoring st i mo mi" "am \<notin> dom (ps_msgs st)" "ap \<notin> dom (ps_pubs st)"
  shows "am \<notin> fst ` set mo" "am \<notin> fst ` set mi" "ap \<notin> epub ` set mo" "ap \<notin> epub ` set mi"
  using assms entry_fresh [of st "cl_outboundMsgs (get_client i st)" mo] entry_fresh [of st "cl_inboundMsgs (get_client i st)" mi]
  by (simp_all add: restoring_def)

lemma entry_ok_store:
  assumes "list_holds st q ms" "am \<notin> fst ` set ms" "ap \<notin> epub ` set ms" "x \<in> set ms"
    and "ps_msgs st' = (ps_msgs st)(am \<mapsto> m)" "ps_pubs st' = (ps_pubs st)(ap \<mapsto> p)"
  shows "entry_ok st' x"
  using assms by (auto simp: list_holds_def entry_ok_def)

lemma restore_received_effect:
  assumes "restoring st i mo mi" "publish_ok p" "am \<notin> dom (ps_msgs st)" "ap \<notin> dom (ps_pubs st)" "pub_msgId p \<notin> eid ` set mi"
  shows "\<exists>st' m. restore_received po i (PkPublish p) am ap st = Some (0, st') \<and>
    restoring st' i mo (mi @ [(am, m, stored_publication p)]) \<and> msg_msgid m = pub_msgId p \<and>
    msg_qos m = int (hdr_qos (pub_header p)) \<and> msg_nextMessageType m = PUBREL \<and> msg_retain m = int (hdr_retain (pub_header p)) \<and> grows i am ap st st' \<and> ps_world st' = ps_world st"
proof -
  let ?qos = "int (hdr_qos (pub_header p))" and ?ret = "int (hdr_retain (pub_header p))"
  from createMessage_ok [OF assms(2), of po ?qos ?ret am ap 0 st] obtain len where
    cm: "MQTTProtocol_createMessage po p None ?qos ?ret am ap 0 st =
      Some (st\<lparr>ps_pubs := (ps_pubs st)(ap \<mapsto> stored_publication p), ps_publications := clist_append ap (ps_publications st),
        ps_msgs := (ps_msgs st)(am \<mapsto> outbound_message po p ?qos ?ret ap 0 len st)\<rparr>)" by blast
  define m where "m = (outbound_message po p ?qos ?ret ap 0 len st)\<lparr>msg_nextMessageType := PUBREL\<rparr>"
  let ?e = "(am, m, stored_publication p)"
  define c where "c = (get_client i st)\<lparr>cl_inboundMsgs := clist_append am (cl_inboundMsgs (get_client i st))\<rparr>"
  define st' where "st' = set_client i c (st\<lparr>ps_pubs := (ps_pubs st)(ap \<mapsto> stored_publication p),
      ps_publications := clist_append ap (ps_publications st), ps_msgs := (ps_msgs st)(am \<mapsto> m)\<rparr>)"
  from assms(1) have R: "i < length (elems (ps_clients st))" "pubs_ok st" "list_holds st (cl_outboundMsgs (get_client i st)) mo"
    "list_holds st (cl_inboundMsgs (get_client i st)) mi" "fst ` set mo \<inter> fst ` set mi = {}" "epub ` set mo \<inter> epub ` set mi = {}"
    "sorted (map eid mo)" by (simp_all add: restoring_def)
  note fresh = restoring_fresh [OF assms(1,3,4)]
  have e: "eid ?e = pub_msgId p" "epub ?e = ap" "entry_ok st' ?e"
    by (simp_all add: m_def outbound_message_def eid_def epub_def entry_ok_def st'_def stored_publication_def)
  have c: "get_client i st' = c" using R(1) by (simp add: st'_def)
  have mem: "ps_msgs st' = (ps_msgs st)(am \<mapsto> m)" "ps_pubs st' = (ps_pubs st)(ap \<mapsto> stored_publication p)" by (simp_all add: st'_def)
  note okmi = entry_ok_store [OF R(4) fresh(2,4) _ mem] and okmo = entry_ok_store [OF R(3) fresh(1,3) _ mem]
  have "list_holds st' (clist_append (fst ?e) (cl_inboundMsgs (get_client i st))) (mi @ [?e])"
    by (rule list_holds_append [OF R(4) e(3) okmi]) (use fresh e(1,2) assms(5) in simp_all)
  moreover have "list_holds st' (cl_outboundMsgs (get_client i st)) mo"
    by (rule list_holds_frame [OF R(3) okmo]) (use R(3) in \<open>simp_all add: list_holds_def\<close>)
  moreover have "pubs_ok st'" by (rule pubs_ok_store [OF R(2) assms(4)]) (simp_all add: st'_def)
  ultimately have "restoring st' i mo (mi @ [?e])"
    using R fresh e(2) unfolding restoring_def c by (intro conjI) (simp_all add: c_def st'_def)
  moreover have "restore_received po i (PkPublish p) am ap st = Some (0, st')"
    by (simp add: restore_received_def cm Let_def st'_def c_def m_def)
  moreover have "grows i am ap st st'" by (auto simp: grows_def c mem) (simp_all add: c_def)
  ultimately show ?thesis by (auto simp: m_def outbound_message_def st'_def)
qed

end
