(* ===== verification/FilePersistence.thy ===== *)
theory FilePersistence
  imports Persistence "HOL-Library.AList"
begin

text \<open>
  The default persistence: \<open>lib/MQTTPersistenceDefault.c\<close> in its build for Unix, a directory for each
  client and a file for each record. The system calls it uses are modelled on a file system without
  symbolic links to directories, that only this process changes; any call may fail.
\<close>

section \<open>The file system\<close>

type_synonym path = "bytes list"

datatype node = Dir | Reg bytes | Other

text \<open>How the next system calls turn out: as asked, after \<open>n\<close> bytes, or not at all.\<close>

datatype outcome = Done | Short nat | Fail

datatype errno = EEXIST | ENOENT | ENOTEMPTY | EOTHER

record filesys =
  fs_nodes :: "(path \<times> node) list"
  fs_cwd :: path
  fs_plan :: "outcome list"

definition chance :: "filesys \<Rightarrow> outcome \<times> filesys" where
  "chance fs = (case fs_plan fs of [] \<Rightarrow> (Done, fs) | oc # ocs \<Rightarrow> (oc, fs\<lparr>fs_plan := ocs\<rparr>))"

fun split_path :: "bytes \<Rightarrow> bytes list" where
  "split_path [] = [[]]"
| "split_path (c # cs) = (if c = 47 then [] # split_path cs
     else case split_path cs of x # xs \<Rightarrow> (c # x) # xs | [] \<Rightarrow> [[c]])"

fun walk :: "path \<Rightarrow> bytes list \<Rightarrow> path" where
  "walk p [] = p"
| "walk p (c # cs) = walk (if c = [] \<or> c = [46] then p else if c = [46, 46] then butlast p else p @ [c]) cs"

definition resolve :: "filesys \<Rightarrow> bytes \<Rightarrow> path" where
  "resolve fs s = walk (if take 1 s = [47] then [] else fs_cwd fs) (split_path s)"

definition node_at :: "filesys \<Rightarrow> path \<Rightarrow> node option" where
  "node_at fs p = (if p = [] then Some Dir else map_of (fs_nodes fs) p)"

definition set_node :: "path \<Rightarrow> node \<Rightarrow> filesys \<Rightarrow> filesys" where
  "set_node p n fs = fs\<lparr>fs_nodes := AList.update p n (fs_nodes fs)\<rparr>"

definition del_node :: "path \<Rightarrow> filesys \<Rightarrow> filesys" where
  "del_node p fs = fs\<lparr>fs_nodes := AList.delete p (fs_nodes fs)\<rparr>"

definition children :: "filesys \<Rightarrow> path \<Rightarrow> bytes list" where
  "children fs d = map last (filter (\<lambda>p. p \<noteq> [] \<and> butlast p = d) (map fst (fs_nodes fs)))"

text \<open>Why a file that is not there cannot be reached.\<close>

definition missing :: "filesys \<Rightarrow> path \<Rightarrow> errno" where
  "missing fs p = (if list_ex (\<lambda>k. node_at fs (take k p) \<noteq> None \<and> node_at fs (take k p) \<noteq> Some Dir) [0..<length p]
     then EOTHER else ENOENT)"

definition sys_mkdir :: "filesys \<Rightarrow> bytes \<Rightarrow> errno option \<times> filesys" where
  "sys_mkdir fs s = (case chance fs of (oc, fs) \<Rightarrow>
     let p = resolve fs s in
     if oc \<noteq> Done then (Some EOTHER, fs)
     else if node_at fs p \<noteq> None then (Some EEXIST, fs)
     else if node_at fs (butlast p) \<noteq> Some Dir then (Some (missing fs p), fs)
     else (None, set_node p Dir fs))"

definition sys_unlink :: "filesys \<Rightarrow> bytes \<Rightarrow> errno option \<times> filesys" where
  "sys_unlink fs s = (case chance fs of (oc, fs) \<Rightarrow>
     let p = resolve fs s in
     if oc \<noteq> Done then (Some EOTHER, fs)
     else (case node_at fs p of None \<Rightarrow> (Some (missing fs p), fs) | Some Dir \<Rightarrow> (Some EOTHER, fs) | Some n \<Rightarrow> (None, del_node p fs)))"

definition sys_rmdir :: "filesys \<Rightarrow> bytes \<Rightarrow> errno option \<times> filesys" where
  "sys_rmdir fs s = (case chance fs of (oc, fs) \<Rightarrow>
     let p = resolve fs s in
     if oc \<noteq> Done \<or> p = [] then (Some EOTHER, fs)
     else (case node_at fs p of None \<Rightarrow> (Some (missing fs p), fs)
       | Some Dir \<Rightarrow> if children fs p \<noteq> [] then (Some ENOTEMPTY, fs) else (None, del_node p fs)
       | Some n \<Rightarrow> (Some EOTHER, fs)))"

definition sys_remove :: "filesys \<Rightarrow> bytes \<Rightarrow> errno option \<times> filesys" where
  "sys_remove fs s = (if node_at fs (resolve fs s) = Some Dir then sys_rmdir fs s else sys_unlink fs s)"

text \<open>
  Files of the C library. Only regular files can be opened. What is written is buffered: closing may
  find that only a part can be stored.
\<close>

definition fopen_wb :: "filesys \<Rightarrow> bytes \<Rightarrow> path option \<times> filesys" where
  "fopen_wb fs s = (case chance fs of (oc, fs) \<Rightarrow>
     let p = resolve fs s in
     if oc \<noteq> Done \<or> node_at fs p = Some Dir \<or> node_at fs p = Some Other \<or> node_at fs (butlast p) \<noteq> Some Dir then (None, fs)
     else (Some p, set_node p (Reg []) fs))"

definition fopen_rb :: "filesys \<Rightarrow> bytes \<Rightarrow> path option \<times> filesys" where
  "fopen_rb fs s = (case chance fs of (oc, fs) \<Rightarrow>
     let p = resolve fs s in
     case node_at fs p of Some (Reg b) \<Rightarrow> (if oc \<noteq> Done then None else Some p, fs) | _ \<Rightarrow> (None, fs))"

definition file_data :: "filesys \<Rightarrow> path \<Rightarrow> bytes" where
  "file_data fs p = (case node_at fs p of Some (Reg b) \<Rightarrow> b | _ \<Rightarrow> [])"

definition cut_short :: "outcome \<Rightarrow> bytes \<Rightarrow> bytes" where
  "cut_short oc b = (case oc of Done \<Rightarrow> b | Short n \<Rightarrow> take n b | Fail \<Rightarrow> [])"

definition fwrite :: "filesys \<Rightarrow> path \<Rightarrow> bytes \<Rightarrow> nat \<times> filesys" where
  "fwrite fs p b = (case chance fs of (oc, fs) \<Rightarrow>
     (length (cut_short oc b), set_node p (Reg (file_data fs p @ cut_short oc b)) fs))"

definition fclose :: "filesys \<Rightarrow> path \<Rightarrow> filesys" where
  "fclose fs p = (case chance fs of (oc, fs) \<Rightarrow> set_node p (Reg (cut_short oc (file_data fs p))) fs)"

definition fread :: "filesys \<Rightarrow> path \<Rightarrow> bytes \<times> filesys" where
  "fread fs p = (case chance fs of (oc, fs) \<Rightarrow> (cut_short oc (file_data fs p), fs))"

text \<open>The entries of a directory, in an order of the file system's own after the first two.\<close>

definition opendir :: "filesys \<Rightarrow> bytes \<Rightarrow> bytes list option \<times> filesys" where
  "opendir fs s = (case chance fs of (oc, fs) \<Rightarrow>
     (if oc = Done \<and> node_at fs (resolve fs s) = Some Dir then Some ([46] # [46, 46] # children fs (resolve fs s)) else None, fs))"

definition S_ISREG :: "node \<Rightarrow> bool" where
  "S_ISREG n \<longleftrightarrow> (case n of Reg b \<Rightarrow> True | _ \<Rightarrow> False)"

text \<open>What \<open>stat_info\<close> says after \<open>lstat\<close>, whose result is not looked at.\<close>

definition lstat_reg :: "filesys \<Rightarrow> bytes \<Rightarrow> bool \<Rightarrow> bool" where
  "lstat_reg fs s stat_info = (case node_at fs (resolve fs s) of Some n \<Rightarrow> S_ISREG n | None \<Rightarrow> stat_info)"

section \<open>The operations\<close>

definition MESSAGE_FILENAME_EXTENSION :: bytes where "MESSAGE_FILENAME_EXTENSION = [46, 109, 115, 103]"

text \<open>A handle is the name of the client's directory; the empty one stands for \<open>NULL\<close>.\<close>

definition msg_file :: "bytes \<Rightarrow> bytes \<Rightarrow> bytes" where
  "msg_file clientDir key = clientDir @ 47 # c_string key @ MESSAGE_FILENAME_EXTENSION"

definition pstmkdir :: "filesys \<Rightarrow> bytes \<Rightarrow> int \<times> filesys" where
  "pstmkdir fs pPathname = (case sys_mkdir fs pPathname of (err, fs) \<Rightarrow>
     (if err = None \<or> err = Some EEXIST then 0 else MQTTCLIENT_PERSISTENCE_ERROR, fs))"

text \<open>The tokens of \<open>strtok_r\<close> with the delimiters \<open>\\<close> and \<open>/\<close>.\<close>

definition strtok_dirs :: "bytes \<Rightarrow> bytes list" where
  "strtok_dirs s = filter (\<lambda>t. t \<noteq> []) (split_path (map (\<lambda>c. if c = 92 then 47 else c) s))"

text \<open>
  \<open>pstopen\<close>: \<open>sprintf\<close> with overlapping arguments is taken to append, as it does in practice.
\<close>

fun mkdir_levels :: "filesys \<Rightarrow> bytes \<Rightarrow> bytes list \<Rightarrow> int \<times> filesys" where
  "mkdir_levels fs pCrtDirName [] = (0, fs)"
| "mkdir_levels fs pCrtDirName (pToken # tokens) =
     (let pCrtDirName = pCrtDirName @ 47 # pToken in
      case pstmkdir fs pCrtDirName of (rc, fs) \<Rightarrow> if rc = 0 then mkdir_levels fs pCrtDirName tokens else (rc, fs))"

definition pstopen :: "filesys \<Rightarrow> bytes \<Rightarrow> bytes \<Rightarrow> bytes \<Rightarrow> int \<times> bytes \<times> filesys" where
  "pstopen fs dataDir clientID serverURI =
     (let perserverURI = map (\<lambda>c. if c = 58 then 45 else c) (c_string serverURI);
          clientDir = c_string dataDir @ 47 # c_string clientID @ 45 # perserverURI;
          pToken = hd (strtok_dirs clientDir) in
      case pstmkdir fs pToken of (rc, fs) \<Rightarrow>
        (case (if rc = 0 then mkdir_levels fs pToken (tl (strtok_dirs clientDir)) else (rc, fs)) of (rc, fs) \<Rightarrow> (rc, clientDir, fs)))"

definition pstremove :: "filesys \<Rightarrow> bytes \<Rightarrow> bytes \<Rightarrow> int \<times> filesys" where
  "pstremove fs clientDir key =
     (if clientDir = [] then (MQTTCLIENT_PERSISTENCE_ERROR, fs)
      else case sys_unlink fs (msg_file clientDir key) of (err, fs) \<Rightarrow>
        (if err = None \<or> err = Some ENOENT then 0 else MQTTCLIENT_PERSISTENCE_ERROR, fs))"

fun write_bufs :: "filesys \<Rightarrow> path \<Rightarrow> bytes list \<Rightarrow> nat \<Rightarrow> nat \<Rightarrow> nat \<times> nat \<times> filesys" where
  "write_bufs fs fp [] bytesWritten bytesTotal = (bytesWritten, bytesTotal, fs)"
| "write_bufs fs fp (b # bs) bytesWritten bytesTotal =
     (case fwrite fs fp b of (n, fs) \<Rightarrow> write_bufs fs fp bs (bytesWritten + n) (bytesTotal + length b))"

definition pstput :: "filesys \<Rightarrow> bytes \<Rightarrow> bytes \<Rightarrow> bytes list \<Rightarrow> int \<times> filesys" where
  "pstput fs clientDir key buffers =
     (if clientDir = [] then (MQTTCLIENT_PERSISTENCE_ERROR, fs)
      else case fopen_wb fs (msg_file clientDir key) of
        (None, fs) \<Rightarrow> (MQTTCLIENT_PERSISTENCE_ERROR, fs)
      | (Some fp, fs) \<Rightarrow>
          (case write_bufs fs fp buffers 0 0 of (bytesWritten, bytesTotal, fs) \<Rightarrow>
             let fs = fclose fs fp in
             if bytesWritten \<noteq> bytesTotal then (MQTTCLIENT_PERSISTENCE_ERROR, snd (pstremove fs clientDir key))
             else (0, fs)))"

text \<open>\<open>pstget\<close>: the number of bytes read goes through an \<open>int\<close>.\<close>

definition pstget :: "filesys \<Rightarrow> bytes \<Rightarrow> bytes \<Rightarrow> int \<times> bytes \<times> filesys" where
  "pstget fs clientDir key =
     (if clientDir = [] then (MQTTCLIENT_PERSISTENCE_ERROR, [], fs)
      else case fopen_rb fs (msg_file clientDir key) of
        (None, fs) \<Rightarrow> (MQTTCLIENT_PERSISTENCE_ERROR, [], fs)
      | (Some fp, fs) \<Rightarrow>
          let fileLen = (word_of_nat (length (file_data fs fp)) :: 64 word) in
          case fread fs fp of (buf, fs) \<Rightarrow>
            let bytesRead = (signed (word_of_nat (length buf) :: 32 word) :: 64 word);
                fs = snd (chance fs) in
            (if bytesRead \<noteq> fileLen then MQTTCLIENT_PERSISTENCE_ERROR else 0, buf, fs))"

definition pstclose :: "filesys \<Rightarrow> bytes \<Rightarrow> int \<times> filesys" where
  "pstclose fs clientDir =
     (if clientDir = [] then (MQTTCLIENT_PERSISTENCE_ERROR, fs)
      else case sys_rmdir fs clientDir of (err, fs) \<Rightarrow>
        (if err = None \<or> err = Some ENOENT \<or> err = Some ENOTEMPTY then 0 else MQTTCLIENT_PERSISTENCE_ERROR, fs))"

text \<open>The key of a file name: up to the first \<open>.msg\<close>.\<close>

fun file_key :: "bytes \<Rightarrow> bytes" where
  "file_key [] = []"
| "file_key (c # cs) = (if take 4 (c # cs) = MESSAGE_FILENAME_EXTENSION then [] else c # file_key cs)"

fun contains_loop :: "filesys \<Rightarrow> bytes \<Rightarrow> bytes \<Rightarrow> bytes list \<Rightarrow> bool \<Rightarrow> int" where
  "contains_loop fs dirname key [] stat_info = MQTTCLIENT_PERSISTENCE_ERROR"
| "contains_loop fs dirname key (d_name # entries) stat_info =
     (let stat_info = lstat_reg fs (dirname @ 47 # d_name) stat_info in
      if stat_info \<and> file_key d_name = key then 0 else contains_loop fs dirname key entries stat_info)"

definition containskeyUnix :: "filesys \<Rightarrow> bytes \<Rightarrow> bytes \<Rightarrow> int \<times> filesys" where
  "containskeyUnix fs dirname key = (case opendir fs dirname of
     (None, fs) \<Rightarrow> (MQTTCLIENT_PERSISTENCE_ERROR, fs)
   | (Some entries, fs) \<Rightarrow> (contains_loop fs dirname (c_string key) entries False, fs))"

definition pstcontainskey :: "filesys \<Rightarrow> bytes \<Rightarrow> bytes \<Rightarrow> int \<times> filesys" where
  "pstcontainskey fs clientDir key =
     (if clientDir = [] then (MQTTCLIENT_PERSISTENCE_ERROR, fs) else containskeyUnix fs clientDir key)"

text \<open>
  \<open>clearUnix\<close>: the names are used as they are, without the directory. \<open>stat_info\<close> is set by the first
  entry, whatever it holds before.
\<close>

fun clear_loop :: "filesys \<Rightarrow> bytes list \<Rightarrow> bool \<Rightarrow> int \<times> filesys" where
  "clear_loop fs [] stat_info = (0, fs)"
| "clear_loop fs (d_name # entries) stat_info =
     (let stat_info = lstat_reg fs d_name stat_info in
      if stat_info then
        (case sys_remove fs d_name of (err, fs) \<Rightarrow>
           if err = None then clear_loop fs entries stat_info else (MQTTCLIENT_PERSISTENCE_ERROR, fs))
      else clear_loop fs entries stat_info)"

definition clearUnix :: "filesys \<Rightarrow> bytes \<Rightarrow> int \<times> filesys" where
  "clearUnix fs dirname = (case opendir fs dirname of
     (None, fs) \<Rightarrow> (MQTTCLIENT_PERSISTENCE_ERROR, fs)
   | (Some entries, fs) \<Rightarrow> clear_loop fs entries False)"

definition pstclear :: "filesys \<Rightarrow> bytes \<Rightarrow> int \<times> filesys" where
  "pstclear fs clientDir = (if clientDir = [] then (MQTTCLIENT_PERSISTENCE_ERROR, fs) else clearUnix fs clientDir)"

text \<open>\<open>keysUnix\<close>: the keys are counted first, then copied in a second pass over the directory.\<close>

definition is_key_file :: "filesys \<Rightarrow> bytes \<Rightarrow> bytes \<Rightarrow> bool" where
  "is_key_file fs dirname d_name \<longleftrightarrow> lstat_reg fs (dirname @ 47 # d_name) False"

definition keysUnix :: "filesys \<Rightarrow> bytes \<Rightarrow> int \<times> bytes list \<times> filesys" where
  "keysUnix fs dirname = (case opendir fs dirname of
     (None, fs) \<Rightarrow> (MQTTCLIENT_PERSISTENCE_ERROR, [], fs)
   | (Some entries, fs) \<Rightarrow>
       let nfkeys = length (filter (is_key_file fs dirname) entries) in
       if nfkeys \<noteq> 0 then
         (case opendir fs dirname of
            (None, fs) \<Rightarrow> (MQTTCLIENT_PERSISTENCE_ERROR, [], fs)
          | (Some entries, fs) \<Rightarrow> (0, map file_key (filter (is_key_file fs dirname) entries), fs))
       else (0, [], fs))"

definition pstkeys :: "filesys \<Rightarrow> bytes \<Rightarrow> int \<times> bytes list \<times> filesys" where
  "pstkeys fs clientDir = (if clientDir = [] then (MQTTCLIENT_PERSISTENCE_ERROR, [], fs) else keysUnix fs clientDir)"

text \<open>The functions that \<open>MQTTPersistence_create\<close> sets, with the data directory as context.\<close>

definition file_ops :: "bytes \<Rightarrow> filesys pers_ops" where
  "file_ops dataDir = \<lparr>pe_popen = (\<lambda>fs clientID serverURI. pstopen fs dataDir clientID serverURI), pe_pclose = pstclose,
     pe_pput = pstput, pe_pget = pstget, pe_premove = pstremove, pe_pkeys = pstkeys, pe_pclear = pstclear,
     pe_pcontainskey = pstcontainskey\<rparr>"

section \<open>Paths\<close>

lemma split_path_not_Nil: "split_path s \<noteq> []"
  by (cases s) (auto split: list.splits)

lemma split_path_append: "split_path (a @ 47 # b) = split_path a @ split_path b"
proof (induction a)
  case (Cons c a)
  then show ?case using split_path_not_Nil [of a] by (auto split: list.splits)
qed simp

lemma split_path_name: "47 \<notin> set a \<Longrightarrow> split_path a = [a]"
  by (induction a) auto

lemma walk_append: "walk p (xs @ ys) = walk (walk p xs) ys"
  by (induction xs arbitrary: p) auto

lemma resolve_child:
  assumes "h \<noteq> []" "47 \<notin> set a"
  shows "resolve fs (h @ 47 # a) = walk (resolve fs h) [a]"
proof -
  have "take 1 (h @ 47 # a) = take 1 h" using assms(1) by (cases h) simp_all
  then show ?thesis unfolding resolve_def split_path_append split_path_name [OF assms(2)] walk_append by simp
qed

text \<open>The names of records.\<close>

definition record_name :: "bytes \<Rightarrow> bytes" where
  "record_name k = k @ MESSAGE_FILENAME_EXTENSION"

lemma record_name_inj [simp]: "record_name a = record_name b \<longleftrightarrow> a = b"
  by (simp add: record_name_def)

lemma record_file:
  assumes "h \<noteq> []" "plain_key k"
  shows "resolve fs (msg_file h k) = resolve fs h @ [record_name k]"
proof -
  have "47 \<notin> set (record_name k)" "c_string k = k"
    using plain_key_chars [OF assms(2)] plain_c_string [OF assms(2)] by (simp_all add: record_name_def MESSAGE_FILENAME_EXTENSION_def)
  moreover have "record_name k \<noteq> []" "record_name k \<noteq> [46]" "record_name k \<noteq> [46, 46]"
    by (auto simp: record_name_def MESSAGE_FILENAME_EXTENSION_def append_eq_Cons_conv)
  ultimately show ?thesis using resolve_child [OF assms(1), of "record_name k" fs] by (simp add: msg_file_def record_name_def)
qed

lemma record_entry:
  assumes "h \<noteq> []" "plain_key k"
  shows "resolve fs (h @ 47 # record_name k) = resolve fs h @ [record_name k]"
  using record_file [OF assms, of fs] assms(2) by (simp add: msg_file_def record_name_def plain_c_string)

lemma file_key_record: "plain_key k \<Longrightarrow> file_key (record_name k) = k"
proof -
  have "46 \<notin> set k \<Longrightarrow> file_key (k @ MESSAGE_FILENAME_EXTENSION) = k"
    by (induction k) (simp_all add: MESSAGE_FILENAME_EXTENSION_def)
  then show "plain_key k \<Longrightarrow> file_key (record_name k) = k" using plain_key_chars by (simp add: record_name_def)
qed

section \<open>The directory of a client\<close>

definition file_records :: "filesys \<Rightarrow> bytes \<Rightarrow> bytes \<Rightarrow> bytes option" where
  "file_records fs h k = (case node_at fs (resolve fs h @ [record_name k]) of Some (Reg b) \<Rightarrow> Some b | _ \<Rightarrow> None)"

text \<open>
  A directory that holds records only, in a file system that works. (Paths are not repeated, and the
  root is not among them.)
\<close>

definition store_ready :: "filesys \<Rightarrow> bytes \<Rightarrow> bool" where
  "store_ready fs h \<longleftrightarrow> h \<noteq> [] \<and> fs_plan fs = [] \<and> distinct (map fst (fs_nodes fs)) \<and>
     (\<forall>j\<le>length (resolve fs h). node_at fs (take j (resolve fs h)) = Some Dir) \<and>
     (\<forall>a n. node_at fs (resolve fs h @ [a]) = Some n \<longrightarrow> (\<exists>k b. plain_key k \<and> a = record_name k \<and> n = Reg b))"

lemma store_readyD:
  assumes "store_ready fs h"
  shows "h \<noteq> []" "fs_plan fs = []" "distinct (map fst (fs_nodes fs))" "node_at fs (resolve fs h) = Some Dir"
    "node_at fs (butlast (resolve fs h)) = Some Dir" "chance fs = (Done, fs)"
    "node_at fs (resolve fs h @ [a]) = Some n \<Longrightarrow> \<exists>k b. plain_key k \<and> a = record_name k \<and> n = Reg b"
    "node_at fs (take j (resolve fs h)) = Some Dir"
proof -
  from assms have take: "\<And>j. j \<le> length (resolve fs h) \<Longrightarrow> node_at fs (take j (resolve fs h)) = Some Dir" by (simp add: store_ready_def)
  show "node_at fs (resolve fs h) = Some Dir" "node_at fs (butlast (resolve fs h)) = Some Dir"
    using take [of "length (resolve fs h)"] take [of "length (resolve fs h) - 1"] by (simp_all add: butlast_conv_take)
  then show "node_at fs (take j (resolve fs h)) = Some Dir" using take [of j] by (cases "j \<le> length (resolve fs h)") simp_all
qed (use assms in \<open>auto simp: store_ready_def chance_def\<close>)

lemma node_at_set [simp]: "p \<noteq> [] \<Longrightarrow> node_at (set_node p n fs) q = (if q = p then Some n else node_at fs q)"
  by (simp add: node_at_def set_node_def update_conv')

lemma node_at_del [simp]: "p \<noteq> [] \<Longrightarrow> node_at (del_node p fs) q = (if q = p then None else node_at fs q)"
  by (simp add: node_at_def del_node_def delete_conv')

lemma resolve_world [simp]: "resolve (set_node p n fs) s = resolve fs s" "resolve (del_node p fs) s = resolve fs s"
  by (simp_all add: resolve_def set_node_def del_node_def)

lemma fs_plan_node [simp]: "fs_plan (set_node p n fs) = fs_plan fs" "fs_plan (del_node p fs) = fs_plan fs"
  by (simp_all add: set_node_def del_node_def)

lemma take_not_child: "take j xs \<noteq> xs @ [a]"
proof
  assume "take j xs = xs @ [a]"
  then have "length (take j xs) = Suc (length xs)" by simp
  then show False by simp
qed

text \<open>Writing and deleting a record.\<close>

lemma store_ready_set:
  assumes "store_ready fs h" "plain_key k"
  shows "store_ready (set_node (resolve fs h @ [record_name k]) (Reg b) fs) h"
    and "file_records (set_node (resolve fs h @ [record_name k]) (Reg b) fs) h = (file_records fs h)(k \<mapsto> b)"
proof -
  let ?p = "resolve fs h @ [record_name k]"
  note D = store_readyD [OF assms(1)]
  show "store_ready (set_node ?p (Reg b) fs) h"
    using D(1-3,7,8) assms(2) by (auto simp: store_ready_def take_not_child) (auto simp: set_node_def distinct_update)
  show "file_records (set_node ?p (Reg b) fs) h = (file_records fs h)(k \<mapsto> b)"
    by (auto simp: file_records_def)
qed

lemma store_ready_del:
  assumes "store_ready fs h" "plain_key k"
  shows "store_ready (del_node (resolve fs h @ [record_name k]) fs) h"
    and "file_records (del_node (resolve fs h @ [record_name k]) fs) h = (file_records fs h)(k := None)"
proof -
  let ?p = "resolve fs h @ [record_name k]"
  note D = store_readyD [OF assms(1)]
  show "store_ready (del_node ?p fs) h"
    using D(1-3,7,8) assms(2) by (auto simp: store_ready_def take_not_child) (auto simp: del_node_def distinct_delete)
  show "file_records (del_node ?p fs) h = (file_records fs h)(k := None)"
    by (auto simp: file_records_def)
qed

lemma set_node_twice [simp]: "set_node p m (set_node p n fs) = set_node p m fs"
  by (simp add: set_node_def)

lemma set_node_same: "p \<noteq> [] \<Longrightarrow> node_at fs p = Some n \<Longrightarrow> set_node p n fs = fs"
  by (simp add: set_node_def node_at_def update_triv)

lemma write_bufs_done:
  assumes "fs_plan fs = []" "p \<noteq> []" "node_at fs p = Some (Reg b)"
  shows "write_bufs fs p bs w t = (w + length (concat bs), t + length (concat bs), set_node p (Reg (b @ concat bs)) fs)"
  using assms
proof (induction bs arbitrary: fs b w t)
  case (Cons x bs)
  have "fwrite fs p x = (length x, set_node p (Reg (b @ x)) fs)"
    using Cons.prems by (simp add: fwrite_def chance_def cut_short_def file_data_def)
  with Cons.IH [of "set_node p (Reg (b @ x)) fs" "b @ x" "w + length x" "t + length x"] Cons.prems show ?case
    by (simp add: add.assoc)
qed (simp add: set_node_same)

section \<open>The promises of a store\<close>

lemma pstput_ready:
  assumes "store_ready fs h" "plain_key k"
  shows "pstput fs h k bs = (0, set_node (resolve fs h @ [record_name k]) (Reg (concat bs)) fs)"
proof -
  let ?p = "resolve fs h @ [record_name k]" and ?fs = "set_node (resolve fs h @ [record_name k]) (Reg []) fs"
  note D = store_readyD [OF assms(1)]
  have "node_at fs ?p \<noteq> Some Dir" "node_at fs ?p \<noteq> Some Other" using D(7) by blast+
  then have o: "fopen_wb fs (msg_file h k) = (Some ?p, ?fs)"
    using D(4,6) by (simp add: fopen_wb_def record_file [OF D(1) assms(2)] Let_def)
  have c: "chance fs' = (Done, fs')" if "fs_plan fs' = []" for fs' using that by (simp add: chance_def)
  have w: "write_bufs ?fs ?p bs 0 0 = (length (concat bs), length (concat bs), set_node ?p (Reg (concat bs)) fs)"
    using write_bufs_done [of ?fs ?p "[]" bs 0 0] D(2) by simp
  show ?thesis using D(1) o w D(2)
    by (simp add: pstput_def fclose_def c cut_short_def file_data_def)
qed

lemma pstget_ready:
  assumes "store_ready fs h" "plain_key k" "file_records fs h k = Some b" "length b < 2 ^ 31"
  shows "pstget fs h k = (0, b, fs)"
proof -
  note D = store_readyD [OF assms(1)]
  have n: "node_at fs (resolve fs h @ [record_name k]) = Some (Reg b)"
    using assms(3) by (auto simp: file_records_def split: option.splits node.splits)
  have "sint (word_of_nat (length b) :: 32 word) = int (length b)"
    using assms(4) by (simp add: sint_uint unsigned_of_nat take_bit_nat_eq_self signed_take_bit_int_eq_self)
  then have "(of_int (sint (word_of_nat (length b) :: 32 word)) :: 64 word) = of_int (int (length b))" by (rule arg_cong)
  then have "(signed (word_of_nat (length b) :: 32 word) :: 64 word) = word_of_nat (length b)" by (simp only: of_int_sint of_int_of_nat_eq)
  then show ?thesis using D(1,6) n
    by (simp add: pstget_def fopen_rb_def record_file [OF D(1) assms(2)] fread_def cut_short_def file_data_def Let_def)
qed

lemma pstremove_ready:
  assumes "store_ready fs h" "plain_key k"
  shows "pstremove fs h k = (0, if k \<in> dom (file_records fs h) then del_node (resolve fs h @ [record_name k]) fs else fs)"
proof -
  note D = store_readyD [OF assms(1)]
  let ?p = "resolve fs h @ [record_name k]"
  show ?thesis
  proof (cases "node_at fs ?p")
    case None
    have "node_at fs (take j ?p) = Some Dir" if "j < length ?p" for j using that D(8) [of j] by simp
    then have "missing fs ?p = ENOENT" unfolding missing_def list_ex_iff set_upt by auto
    with None D(1,6) show ?thesis
      by (simp add: pstremove_def sys_unlink_def record_file [OF D(1) assms(2)] file_records_def domIff)
  next
    case (Some n)
    with D(7) obtain b where "n = Reg b" by blast
    with Some D(1,6) show ?thesis
      by (simp add: pstremove_def sys_unlink_def record_file [OF D(1) assms(2)] file_records_def domIff)
  qed
qed

lemma is_key_file_ready:
  assumes "store_ready fs h"
  shows "\<not> is_key_file fs h [46]" "\<not> is_key_file fs h [46, 46]" "plain_key k \<Longrightarrow> is_key_file fs h (record_name k) \<longleftrightarrow> k \<in> dom (file_records fs h)"
  using store_readyD [OF assms] resolve_child [of h "[46]" fs] resolve_child [of h "[46, 46]" fs] record_entry [of h k fs]
  by (auto simp: is_key_file_def lstat_reg_def S_ISREG_def file_records_def split: option.splits node.splits)

text \<open>The names in the directory are those of the records, each once.\<close>

lemma children_ready:
  assumes "store_ready fs h"
  shows "\<exists>ks. children fs (resolve fs h) = map record_name ks \<and> distinct ks \<and> set ks = dom (file_records fs h) \<and> list_all plain_key ks"
proof -
  let ?d = "resolve fs h"
  let ?ps = "filter (\<lambda>p. p \<noteq> [] \<and> butlast p = ?d) (map fst (fs_nodes fs))"
  note D = store_readyD [OF assms]
  have p: "p = ?d @ [last p]" if "p \<in> set ?ps" for p using that append_butlast_last_id [of p] by simp
  have "\<exists>k b. plain_key k \<and> last p = record_name k \<and> node_at fs (?d @ [last p]) = Some (Reg b)" if "p \<in> set ?ps" for p
  proof -
    have "p \<in> dom (map_of (fs_nodes fs))" "p \<noteq> []" using that by (auto simp: dom_map_of_conv_image_fst)
    then have "node_at fs p \<noteq> None" by (auto simp: node_at_def)
    with p [OF that] obtain n where "node_at fs (?d @ [last p]) = Some n" by (metis not_None_eq)
    with D(7) show ?thesis by blast
  qed
  then obtain key where key: "\<And>p. p \<in> set ?ps \<Longrightarrow> plain_key (key p) \<and> last p = record_name (key p) \<and> key p \<in> dom (file_records fs h)"
    by (metis (no_types, lifting) domI file_records_def node.simps(9) option.simps(5))
  have "map last ?ps = map record_name (map key ?ps)" using key by simp
  moreover have "inj_on key (set ?ps)" using key p by (metis (no_types, lifting) inj_onI)
  then have "distinct (map key ?ps)" using D(3) by (simp add: distinct_map inj_on_subset)
  moreover have "k \<in> set (map key ?ps)" if "k \<in> dom (file_records fs h)" for k
  proof -
    from that obtain b where "node_at fs (?d @ [record_name k]) = Some (Reg b)" by (auto simp: file_records_def split: option.splits node.splits)
    then have "?d @ [record_name k] \<in> dom (map_of (fs_nodes fs))" by (auto simp: node_at_def)
    then have "?d @ [record_name k] \<in> set ?ps" by (simp add: dom_map_of_conv_image_fst)
    with key [OF this] show ?thesis by (metis (no_types, lifting) image_eqI last_snoc record_name_inj set_map)
  qed
  moreover have "list_all plain_key (map key ?ps)" "set (map key ?ps) \<subseteq> dom (file_records fs h)" using key by (auto simp: list_all_iff)
  ultimately show ?thesis unfolding children_def by (intro exI [of _ "map key ?ps"]) blast
qed

lemma file_records_card:
  assumes "store_ready fs h"
  shows "card (dom (file_records fs h)) \<le> length (fs_nodes fs)"
proof -
  obtain ks where ks: "children fs (resolve fs h) = map record_name ks" "distinct ks" "set ks = dom (file_records fs h)"
    using children_ready [OF assms] by blast
  have "length (children fs (resolve fs h)) \<le> length (fs_nodes fs)"
    unfolding children_def using length_filter_le [of _ "map fst (fs_nodes fs)"] by simp
  then show ?thesis using ks distinct_card [of ks] by simp
qed

lemma opendir_ready:
  "store_ready fs h \<Longrightarrow> opendir fs h = (Some ([46] # [46, 46] # children fs (resolve fs h)), fs)"
  using store_readyD [of fs h] by (simp add: opendir_def)

lemma pstkeys_ready:
  assumes "store_ready fs h"
  shows "\<exists>ks. pstkeys fs h = (0, ks, fs) \<and> distinct ks \<and> set ks = dom (file_records fs h) \<and> list_all plain_key ks"
proof -
  obtain ks where ks: "children fs (resolve fs h) = map record_name ks" "distinct ks" "set ks = dom (file_records fs h)" "list_all plain_key ks"
    using children_ready [OF assms] by blast
  have "filter (is_key_file fs h) (map record_name ks) = map record_name ks"
    using is_key_file_ready(3) [OF assms] ks(3,4) by (auto simp: filter_id_conv list_all_iff)
  moreover have "map file_key (map record_name ks) = ks" using ks(4) file_key_record by (induction ks) auto
  ultimately have "keysUnix fs h = (0, ks, fs)"
    using opendir_ready [OF assms] is_key_file_ready(1,2) [OF assms] ks(1) by (simp add: keysUnix_def Let_def comp_def)
  with ks store_readyD(1) [OF assms] show ?thesis by (auto simp: pstkeys_def)
qed

lemma contains_loop_records:
  assumes "store_ready fs h" "list_all plain_key ks" "set ks \<subseteq> dom (file_records fs h)"
  shows "contains_loop fs h key (map record_name ks) s = 0 \<longleftrightarrow> key \<in> set ks"
  using assms(2,3)
proof (induction ks arbitrary: s)
  case (Cons k ks)
  then have "is_key_file fs h (record_name k)" using is_key_file_ready(3) [OF assms(1)] by simp
  then have "lstat_reg fs (h @ 47 # record_name k) s" using Cons.prems record_entry [OF store_readyD(1) [OF assms(1)], of k fs]
    by (auto simp: is_key_file_def lstat_reg_def split: option.splits)
  with Cons.IH [of True] Cons.prems file_key_record show ?case by (auto simp: Let_def)
qed simp

lemma pstcontainskey_ready:
  assumes "store_ready fs h" "plain_key k"
  shows "\<exists>rc. pstcontainskey fs h k = (rc, fs) \<and> (rc = 0 \<longleftrightarrow> k \<in> dom (file_records fs h))"
proof -
  obtain ks where ks: "children fs (resolve fs h) = map record_name ks" "set ks = dom (file_records fs h)" "list_all plain_key ks"
    using children_ready [OF assms(1)] by blast
  have "\<not> lstat_reg fs (h @ [47, 46]) False" "\<not> lstat_reg fs (h @ [47, 46, 46]) False"
    using is_key_file_ready(1,2) [OF assms(1)] by (simp_all add: is_key_file_def)
  with ks contains_loop_records [OF assms(1) ks(3), of k] opendir_ready [OF assms(1)] plain_c_string [OF assms(2)] store_readyD(1) [OF assms(1)]
  show ?thesis by (auto simp: pstcontainskey_def containskeyUnix_def Let_def)
qed

interpretation files: key_store "file_ops dataDir" file_records store_ready
proof unfold_locales
  fix w h k bs
  assume "store_ready w h" "plain_key k"
  with pstput_ready store_ready_set show "\<exists>w'. pe_pput (file_ops dataDir) w h k bs = (0, w') \<and> store_ready w' h \<and>
      file_records w' h = (file_records w h)(k \<mapsto> concat bs)" by (simp add: file_ops_def)
next
  fix w h k b
  assume "store_ready w h" "plain_key k" "file_records w h k = Some b" "length b < 2 ^ 31"
  with pstget_ready show "\<exists>w'. pe_pget (file_ops dataDir) w h k = (0, b, w') \<and> store_ready w' h \<and> file_records w' h = file_records w h"
    by (simp add: file_ops_def)
next
  fix w h k
  assume "store_ready w h" "plain_key k"
  with pstcontainskey_ready show "\<exists>rc w'. pe_pcontainskey (file_ops dataDir) w h k = (rc, w') \<and> (rc = 0 \<longleftrightarrow> k \<in> dom (file_records w h)) \<and>
      store_ready w' h \<and> file_records w' h = file_records w h" by (fastforce simp: file_ops_def)
next
  fix w h k
  assume *: "store_ready w h" "plain_key k"
  have "(file_records w h)(k := None) = file_records w h" if "k \<notin> dom (file_records w h)" using that by (auto simp: domIff)
  with pstremove_ready [OF *] store_ready_del [OF *] *
  show "\<exists>w'. pe_premove (file_ops dataDir) w h k = (0, w') \<and> store_ready w' h \<and> file_records w' h = (file_records w h)(k := None)"
    by (cases "k \<in> dom (file_records w h)") (simp_all add: file_ops_def)
next
  fix w h
  assume "store_ready w h"
  with pstkeys_ready [OF this] show "\<exists>ks w'. pe_pkeys (file_ops dataDir) w h = (0, ks, w') \<and> distinct ks \<and> set ks = dom (file_records w h) \<and>
      list_all plain_key ks \<and> store_ready w' h \<and> file_records w' h = file_records w h" by (auto simp: file_ops_def)
qed

section \<open>Clearing\<close>

text \<open>The process runs in a directory other than that of the client.\<close>

definition cwd_elsewhere :: "filesys \<Rightarrow> bytes \<Rightarrow> bool" where
  "cwd_elsewhere fs h \<longleftrightarrow> node_at fs (fs_cwd fs) = Some Dir \<and> node_at fs (butlast (fs_cwd fs)) = Some Dir \<and> resolve fs h \<noteq> fs_cwd fs"

lemma record_here: "plain_key k \<Longrightarrow> resolve fs (record_name k) = fs_cwd fs @ [record_name k]"
proof -
  assume k: "plain_key k"
  then obtain c cs where c: "k = c # cs" by (cases k) (auto simp: plain_key_def)
  have "47 \<notin> set (record_name k)" using plain_key_chars [OF k] by (simp add: record_name_def MESSAGE_FILENAME_EXTENSION_def)
  moreover from this have "take 1 (record_name k) \<noteq> [47]" using c by (simp add: record_name_def)
  moreover have "record_name k \<noteq> [46]" "record_name k \<noteq> [46, 46]" "record_name k \<noteq> []"
    by (simp_all add: record_name_def MESSAGE_FILENAME_EXTENSION_def c)
  ultimately show ?thesis by (simp add: resolve_def split_path_name)
qed

lemma sys_remove_here:
  assumes "fs_plan fs = []" "plain_key k"
  shows "snd (sys_remove fs (record_name k)) = fs \<or> snd (sys_remove fs (record_name k)) = del_node (fs_cwd fs @ [record_name k]) fs"
  using assms(1) by (auto simp: sys_remove_def sys_rmdir_def sys_unlink_def chance_def record_here [OF assms(2)] Let_def split: option.splits node.splits)

lemma clear_loop_frame:
  assumes "fs_plan fs = []" "list_all plain_key ks" "butlast p \<noteq> fs_cwd fs"
  shows "node_at (snd (clear_loop fs (map record_name ks) s)) p = node_at fs p \<and> fs_cwd (snd (clear_loop fs (map record_name ks) s)) = fs_cwd fs"
  using assms
proof (induction ks arbitrary: fs s)
  case (Cons k ks)
  define s' where "s' = lstat_reg fs (record_name k) s"
  obtain err fs' where r: "sys_remove fs (record_name k) = (err, fs')" by fastforce
  have "fs' = fs \<or> fs' = del_node (fs_cwd fs @ [record_name k]) fs" using sys_remove_here [OF Cons.prems(1), of k] Cons.prems(2) r by simp
  moreover have "p \<noteq> fs_cwd fs @ [record_name k]" using Cons.prems(3) by auto
  ultimately have f: "fs_plan fs' = []" "fs_cwd fs' = fs_cwd fs" "node_at fs' p = node_at fs p"
    using Cons.prems(1) by (auto simp: del_node_def node_at_def delete_conv')
  have "list_all plain_key ks" using Cons.prems(2) by simp
  with Cons.IH [of fs' s'] Cons.IH [of fs s'] Cons.prems(1,3) f r show ?case by (cases s') (simp_all add: s'_def [symmetric] Let_def)
qed simp

text \<open>
  \<open>MQTTPersistence_clear\<close> with the default persistence is meant to delete the records of the client.
  \<open>clearUnix\<close> passes the names it finds in the client's directory to \<open>lstat\<close> and \<open>remove\<close> without the
  directory: unless the process happens to run in that very directory, every record of the client is
  still there afterwards.
\<close>

theorem pstclear_keeps_records:
  assumes "store_ready fs h" and "cwd_elsewhere fs h"
  shows "file_records (snd (pe_pclear (file_ops dataDir) fs h)) h = file_records fs h"
proof -
  note D = store_readyD [OF assms(1)]
  obtain ks where ks: "children fs (resolve fs h) = map record_name ks" "list_all plain_key ks" using children_ready [OF assms(1)] by blast
  have dots: "\<not> lstat_reg fs [46] s" "\<not> lstat_reg fs [46, 46] s" for s
    using assms(2) by (auto simp: cwd_elsewhere_def lstat_reg_def resolve_def S_ISREG_def)
  have "snd (pstclear fs h) = snd (clear_loop fs (map record_name ks) False)"
    using D(1) opendir_ready [OF assms(1)] dots ks(1) by (simp add: pstclear_def clearUnix_def Let_def)
  moreover have "node_at (snd (clear_loop fs (map record_name ks) False)) (resolve fs h @ [a]) = node_at fs (resolve fs h @ [a])"
      "fs_cwd (snd (clear_loop fs (map record_name ks) False)) = fs_cwd fs" for a
    using clear_loop_frame [OF D(2) ks(2), of "resolve fs h @ [a]"] assms(2) by (simp_all add: cwd_elsewhere_def)
  moreover from this(2) have "resolve (snd (pstclear fs h)) h = resolve fs h" using calculation(1) by (simp add: resolve_def)
  ultimately show ?thesis by (simp add: file_ops_def file_records_def fun_eq_iff)
qed

theorem pstclear_keeps_records_witness:
  "file_records (snd (pe_pclear (file_ops []) \<lparr>fs_nodes = [([[99]], Dir), ([[99], record_name [97]], Reg [1])], fs_cwd = [], fs_plan = []\<rparr> [99])) [99] [97] = Some [1]"
proof -
  let ?fs = "\<lparr>fs_nodes = [([[99]], Dir), ([[99], record_name [97]], Reg [1])], fs_cwd = [], fs_plan = []\<rparr>"
  have r: "resolve ?fs [99] = [[99]]" by (simp add: resolve_def)
  have "store_ready ?fs [99]" unfolding store_ready_def r
    by (auto simp: node_at_def plain_key_def le_Suc_eq split: if_splits)
  moreover have "cwd_elsewhere ?fs [99]" unfolding cwd_elsewhere_def r by (simp add: node_at_def)
  ultimately show ?thesis using pstclear_keeps_records [of ?fs "[99]" "[]"] by (simp add: file_records_def r node_at_def)
qed

end
