(* ===== verification/Restart.thy ===== *)
theory Restart
  imports Recovery FilePersistence
begin

text \<open>
  A restart with persisted messages: whatever implementation keeps the records, restoring brings back the
  outbound messages in the order of their ids and at their stages, and the inbound messages.
\<close>

section \<open>Keys\<close>

definition sent_key :: "int \<Rightarrow> bytes" where "sent_key n = PERSISTENCE_PUBLISH_SENT @ sprintf_d n"
definition pubrel_key :: "int \<Rightarrow> bytes" where "pubrel_key n = PERSISTENCE_PUBREL @ sprintf_d n"
definition received_key :: "int \<Rightarrow> bytes" where "received_key n = PERSISTENCE_PUBLISH_RECEIVED @ sprintf_d n"

lemmas key_defs = sent_key_def pubrel_key_def received_key_def PERSISTENCE_PUBLISH_SENT_def PERSISTENCE_PUBREL_def
  PERSISTENCE_PUBLISH_RECEIVED_def PERSISTENCE_COMMAND_KEY_def PERSISTENCE_QUEUE_KEY_def

lemma decimal_length: "n < 10 ^ Suc k \<Longrightarrow> length (decimal n) \<le> Suc k"
proof (induction k arbitrary: n)
  case (Suc k)
  then have "n div 10 < 10 ^ Suc k" by simp
  from Suc.IH [OF this] show ?case by (subst decimal.simps) simp
qed (subst decimal.simps, simp)

lemma sprintf_d_pos: "0 \<le> n \<Longrightarrow> sprintf_d n = decimal (nat n)"
  by (simp add: sprintf_d_def)

lemma decimal_inj: "decimal n = decimal m \<Longrightarrow> n = m"
  by (metis digits_val_decimal of_nat_eq_iff)

lemma sprintf_d_inj: "0 \<le> n \<Longrightarrow> 0 \<le> m \<Longrightarrow> sprintf_d n = sprintf_d m \<longleftrightarrow> n = m"
  using decimal_inj [of "nat n" "nat m"] by (auto simp: sprintf_d_pos)

lemma sprintf_key_ok:
  assumes "0 \<le> n" "n < 65536" "length stem \<le> 3"
  shows "sprintf_key (MESSAGE_FILENAME_LENGTH + 1) stem n = Some (stem @ sprintf_d n)"
proof -
  have "nat n < 10 ^ Suc 4" using assms by simp
  with decimal_length [OF this] assms show ?thesis by (simp add: sprintf_key_def sprintf_d_pos)
qed

lemma sprintf_d_digits: "0 \<le> n \<Longrightarrow> c \<in> set (sprintf_d n) \<Longrightarrow> 48 \<le> c \<and> c \<le> 57"
  using decimal_digits [of c "nat n"] by (simp add: sprintf_d_pos is_digit_def word_le_nat_alt)

lemma digits_plain:
  assumes "0 \<le> n" "list_all (\<lambda>c. c = 45 \<or> 97 \<le> c \<and> c \<le> 122) stem" "stem \<noteq> []"
  shows "plain_key (stem @ sprintf_d n)"
  using assms sprintf_d_digits [OF assms(1)] by (auto simp: plain_key_def list_all_iff)

lemma plain_keys:
  assumes "0 \<le> n"
  shows "plain_key (sent_key n)" "plain_key (pubrel_key n)" "plain_key (received_key n)"
  unfolding sent_key_def pubrel_key_def received_key_def by (rule digits_plain [OF assms]; simp add: key_defs)+

text \<open>Which keys are taken for which: only the letters in front matter.\<close>

lemma c_strstr_keys:
  assumes "0 \<le> n" "c_string (pre @ sprintf_d n) = pre @ sprintf_d n" "stem \<noteq> []" "97 \<le> hd stem"
  shows "c_strstr (pre @ sprintf_d n) stem \<longleftrightarrow> (\<exists>k<length pre. take (length stem) (drop k (pre @ sprintf_d n)) = stem)"
proof -
  have "k < length pre" if "take (length stem) (drop k (pre @ sprintf_d n)) = stem" for k
  proof (rule ccontr)
    assume "\<not> k < length pre"
    then have *: "take (length stem) (drop (k - length pre) (sprintf_d n)) = stem" using that by simp
    then have "hd stem \<in> set (take (length stem) (drop (k - length pre) (sprintf_d n)))" using assms(3) by simp
    then have "hd stem \<in> set (sprintf_d n)" by (meson in_set_takeD in_set_dropD)
    with sprintf_d_digits [OF assms(1)] assms(4) have "97 \<le> (57 :: byte)" by (meson order.trans)
    then show False by simp
  qed
  note bound = this
  show ?thesis
  proof
    assume "c_strstr (pre @ sprintf_d n) stem"
    then obtain k where "take (length stem) (drop k (pre @ sprintf_d n)) = stem" unfolding c_strstr_def assms(2) list_ex_iff by blast
    with bound show "\<exists>k<length pre. take (length stem) (drop k (pre @ sprintf_d n)) = stem" by blast
  next
    assume "\<exists>k<length pre. take (length stem) (drop k (pre @ sprintf_d n)) = stem"
    then obtain k where k: "k < length pre" "take (length stem) (drop k (pre @ sprintf_d n)) = stem" by blast
    from k(1) have "k < length (pre @ sprintf_d n)" by simp
    with k(2) show "c_strstr (pre @ sprintf_d n) stem" unfolding c_strstr_def assms(2) list_ex_iff by (intro bexI [of _ k]) simp_all
  qed
qed

lemma key_kinds:
  assumes "0 \<le> n"
  shows "c_strstr (received_key n) PERSISTENCE_PUBLISH_RECEIVED"
    "\<not> c_strstr (sent_key n) PERSISTENCE_PUBLISH_RECEIVED" "c_strstr (sent_key n) PERSISTENCE_PUBLISH_SENT"
    "\<not> c_strstr (pubrel_key n) PERSISTENCE_PUBLISH_RECEIVED" "\<not> c_strstr (pubrel_key n) PERSISTENCE_PUBLISH_SENT"
    "c_strstr (pubrel_key n) PERSISTENCE_PUBREL"
proof -
  have z: "c_string ([115, 45] @ sprintf_d n) = [115, 45] @ sprintf_d n" "c_string ([115, 99, 45] @ sprintf_d n) = [115, 99, 45] @ sprintf_d n"
    "c_string ([114, 45] @ sprintf_d n) = [114, 45] @ sprintf_d n"
    using plain_keys [OF assms] by (simp_all only: plain_c_string key_defs append.simps)
  note k = c_strstr_keys [OF assms z(1), of "[114, 45]"] c_strstr_keys [OF assms z(1), of "[115, 45]"]
    c_strstr_keys [OF assms z(2), of "[114, 45]"] c_strstr_keys [OF assms z(2), of "[115, 45]"]
    c_strstr_keys [OF assms z(2), of "[115, 99, 45]"] c_strstr_keys [OF assms z(3), of "[114, 45]"]
  show "c_strstr (received_key n) PERSISTENCE_PUBLISH_RECEIVED" "\<not> c_strstr (sent_key n) PERSISTENCE_PUBLISH_RECEIVED"
    "c_strstr (sent_key n) PERSISTENCE_PUBLISH_SENT" "\<not> c_strstr (pubrel_key n) PERSISTENCE_PUBLISH_RECEIVED"
    "\<not> c_strstr (pubrel_key n) PERSISTENCE_PUBLISH_SENT" "c_strstr (pubrel_key n) PERSISTENCE_PUBREL"
    unfolding key_defs using k by (simp_all add: less_Suc_eq ex_disj_distrib conj_disj_distribR)
qed

lemma key_prefix:
  assumes "0 \<le> n" "k = sent_key n \<or> k = pubrel_key n \<or> k = received_key n"
  shows "\<not> strncmp_eq k PERSISTENCE_COMMAND_KEY" "\<not> strncmp_eq k PERSISTENCE_QUEUE_KEY"
  using assms plain_keys [OF assms(1)] by (auto simp: strncmp_eq_def plain_c_string, simp_all add: key_defs)

lemma keys_inj:
  assumes "0 \<le> n" "0 \<le> m"
  shows "sent_key n = sent_key m \<longleftrightarrow> n = m" "pubrel_key n = pubrel_key m \<longleftrightarrow> n = m" "received_key n = received_key m \<longleftrightarrow> n = m"
    "sent_key n \<noteq> pubrel_key m" "sent_key n \<noteq> received_key m" "pubrel_key n \<noteq> received_key m"
    "pubrel_key m \<noteq> sent_key n" "received_key m \<noteq> sent_key n" "received_key m \<noteq> pubrel_key n"
  using sprintf_d_inj [OF assms] by (auto simp: key_defs)

section \<open>Restoring sent messages\<close>

lemma inflight_insert:
  assumes "eid e \<notin> eid ` set (mo1 @ mo2)"
  shows "inflight_of (mo1 @ e # mo2) = (inflight_of (mo1 @ mo2))(eid e \<mapsto> entry_stage e)"
proof -
  have "eid e \<notin> fst ` set (map (\<lambda>e. (eid e, entry_stage e)) mo1)" using assms by auto
  then have "map_of (map (\<lambda>e. (eid e, entry_stage e)) mo1) (eid e) = None" by (simp only: map_of_eq_None_iff not_False_eq_True)
  then show ?thesis by (auto simp: inflight_of_def fun_eq_iff map_add_def split: option.splits)
qed

lemma insertInOrder_effect:
  assumes "list_holds st q ms" "sorted (map eid ms)" "entry_ok st' e" "\<And>x. x \<in> set ms \<Longrightarrow> entry_ok st' x"
    and "fst e \<notin> fst ` set ms" "eid e \<notin> eid ` set ms" "epub e \<notin> epub ` set ms"
  shows "\<exists>q' ms1 ms2. MQTTPersistence_insertInOrder q (fst e) st' = Some q' \<and> ms = ms1 @ ms2 \<and>
    list_holds st' q' (ms1 @ e # ms2) \<and> sorted (map eid (ms1 @ e # ms2))"
proof -
  let ?f = "\<lambda>b. msg_msgid (the (ps_msgs st' b))"
  let ?idx = "find_index (\<lambda>b. eid e < ?f b) (elems q)"
  let ?q = "clist_insert_opt ?idx (fst e) q"
  have f: "?f (fst x) = eid x" if "x \<in> insert e (set ms)" for x
  proof -
    from that assms(3,4) have "entry_ok st' x" by blast
    then show ?thesis by (simp add: entry_ok_def eid_def)
  qed
  have "elems q = map fst ms" "cursor_in q" using assms(1) by (simp_all add: list_holds_def)
  have fe: "?f (fst e) = eid e" using f by simp
  obtain ys zs where e: "elems q = ys @ zs" "elems ?q = ys @ fst e # zs"
    using insert_opt_elems(1) [of ?idx q "fst e"] find_index_SomeD by blast
  have c: "cursor_in ?q" by (rule insert_opt_elems(2)) (use find_index_SomeD \<open>cursor_in q\<close> in blast)+
  obtain ms1 ms2 where ms: "ms = ms1 @ ms2" "list_holds st' ?q (ms1 @ e # ms2)"
    using list_holds_insert [OF assms(1,3,4,5,6,7) e c] by blast
  have "map ?f (elems q) = map eid ms" using f \<open>elems q = map fst ms\<close> by simp
  with insert_opt_sorted [of ?f q "fst e"] assms(2) fe have "sorted (map ?f (elems ?q))" by simp
  moreover have "map ?f (elems ?q) = map eid (ms1 @ e # ms2)"
    using ms f by (auto simp: list_holds_def)
  moreover have "MQTTPersistence_insertInOrder q (fst e) st' = Some ?q"
    using assms(3,4) \<open>elems q = map fst ms\<close> fe
    by (auto simp: MQTTPersistence_insertInOrder_def entry_ok_def eid_def msgs_valid_def list_all_iff)
  ultimately show ?thesis using ms by auto
qed

text \<open>
  The records of a session: of every outbound message in flight its PUBLISH, and, once its PUBREL was
  sent, that; of every inbound message its PUBLISH. A PUBREL without a PUBLISH may be left over, and the
  records of commands and of the message queue do not matter.
\<close>

definition sound_publication :: "Publications \<Rightarrow> bool" where
  "sound_publication p \<longleftrightarrow> c_string (pbs_topic p) = pbs_topic p \<and> length (pbs_topic p) < 65536 \<and>
     pbs_topiclen p = int (length (pbs_topic p)) \<and> pbs_payloadlen p = int (length (pbs_payload p)) \<and> pbs_refcount p = 1 \<and>
     length (pbs_topic p) + length (pbs_payload p) + 4 < 268435456"

definition out_record :: "int \<Rightarrow> stage \<times> int \<times> Publications \<Rightarrow> bytes \<Rightarrow> bool" where
  "out_record n x b \<longleftrightarrow> (case x of (s, retained, p) \<Rightarrow> sound_publication p \<and> (retained = 0 \<or> retained = 1) \<and>
     (\<exists>dup. b = publish_record dup (if s = AwaitPuback then 1 else 2) retained (pbs_topic p) n (pbs_payload p)))"

definition in_record :: "int \<Rightarrow> Publish \<Rightarrow> bytes \<Rightarrow> bool" where
  "in_record n p b \<longleftrightarrow> (\<exists>dup retained s. sound_publication s \<and> (retained = 0 \<or> retained = 1) \<and>
     b = publish_record dup 2 retained (pbs_topic s) n (pbs_payload s) \<and>
     p = \<lparr>pub_header = mk_header 0 0 2 retained, pub_topic = Some (pbs_topic s), pub_topiclen = pbs_topiclen s, pub_msgId = n,
       pub_payload = pbs_payload s, pub_payloadlen = pbs_payloadlen s\<rparr>)"

definition msgid_ok :: "int \<Rightarrow> bool" where "msgid_ok n \<longleftrightarrow> 0 \<le> n \<and> n < 65536"

definition persisted :: "inflight \<Rightarrow> (int \<rightharpoonup> Publish) \<Rightarrow> (bytes \<Rightarrow> bytes option) \<Rightarrow> bool" where
  "persisted infl pend r \<longleftrightarrow>
     (\<forall>n x. infl n = Some x \<longrightarrow> msgid_ok n \<and> (\<exists>b. r (sent_key n) = Some b \<and> out_record n x b) \<and>
        (fst x \<noteq> AwaitPuback \<longrightarrow> (fst x = AwaitPubcomp \<longleftrightarrow> pubrel_key n \<in> dom r))) \<and>
     (\<forall>n p. pend n = Some p \<longrightarrow> msgid_ok n \<and> (\<exists>b. r (received_key n) = Some b \<and> in_record n p b)) \<and>
     (\<forall>k\<in>dom r. strncmp_eq k PERSISTENCE_COMMAND_KEY \<or> strncmp_eq k PERSISTENCE_QUEUE_KEY \<or>
        (\<exists>n\<in>dom infl. k = sent_key n) \<or> (\<exists>n\<in>dom pend. k = received_key n) \<or>
        (\<exists>n dup. msgid_ok n \<and> k = pubrel_key n \<and> r k = Some (pubrel_record dup n)))"

text \<open>The packet that a record of a publication is read as.\<close>

definition record_publish :: "int \<Rightarrow> int \<Rightarrow> int \<Rightarrow> int \<Rightarrow> Publications \<Rightarrow> Publish" where
  "record_publish dup qos retained n p = \<lparr>pub_header = mk_header PUBLISH dup qos retained, pub_topic = Some (pbs_topic p),
     pub_topiclen = pbs_topiclen p, pub_msgId = n, pub_payload = pbs_payload p, pub_payloadlen = pbs_payloadlen p\<rparr>"

lemma record_publish_read:
  assumes "sound_publication p" "msgid_ok n" "qos = 1 \<or> qos = 2"
  shows "MQTTPersistence_restorePacket (publish_record dup qos retained (pbs_topic p) n (pbs_payload p)) =
      Some (Some (PkPublish (record_publish dup qos retained n p)))"
    and "stored_publication (record_publish dup qos retained n p) = p" "publish_ok (record_publish dup qos retained n p)"
    and "length (publish_record dup qos retained (pbs_topic p) n (pbs_payload p)) < 2 ^ 31"
proof -
  have len: "length (publish_bytes (pbs_topic p) qos n (pbs_payload p)) < 268435456"
    using assms(1,3) by (auto simp: sound_publication_def publish_bytes_def c_strlen_def)
  with assms restorePacket_publish [of "pbs_topic p" qos n "pbs_payload p" dup retained]
  show "MQTTPersistence_restorePacket (publish_record dup qos retained (pbs_topic p) n (pbs_payload p)) =
      Some (Some (PkPublish (record_publish dup qos retained n p)))"
    by (auto simp: sound_publication_def msgid_ok_def record_publish_def)
  show "stored_publication (record_publish dup qos retained n p) = p"
    using assms(1) by (simp add: stored_publication_def record_publish_def sound_publication_def)
  show "publish_ok (record_publish dup qos retained n p)"
    using assms(1) by (simp add: publish_ok_def record_publish_def sound_publication_def)
  show "length (publish_record dup qos retained (pbs_topic p) n (pbs_payload p)) < 2 ^ 31"
    using len encode_length_le [of "length (publish_bytes (pbs_topic p) qos n (pbs_payload p))" 3] by (simp add: publish_record_def)
qed

lemma persistedD:
  assumes "persisted infl pend r"
  shows "infl n = Some x \<Longrightarrow> msgid_ok n \<and> (\<exists>b. r (sent_key n) = Some b \<and> out_record n x b)"
    and "infl n = Some x \<Longrightarrow> fst x \<noteq> AwaitPuback \<Longrightarrow> fst x = AwaitPubcomp \<longleftrightarrow> pubrel_key n \<in> dom r"
    and "pend n = Some p \<Longrightarrow> msgid_ok n \<and> (\<exists>b. r (received_key n) = Some b \<and> in_record n p b)"
    and "k \<in> dom r \<Longrightarrow> strncmp_eq k PERSISTENCE_COMMAND_KEY \<or> strncmp_eq k PERSISTENCE_QUEUE_KEY \<or>
        (\<exists>n\<in>dom infl. k = sent_key n) \<or> (\<exists>n\<in>dom pend. k = received_key n) \<or>
        (\<exists>n dup. msgid_ok n \<and> k = pubrel_key n \<and> r k = Some (pubrel_record dup n))"
  using assms unfolding persisted_def by blast+

lemma persisted_ids:
  assumes "persisted infl pend r"
  shows "n \<in> dom infl \<Longrightarrow> 0 \<le> n" "n \<in> dom pend \<Longrightarrow> 0 \<le> n"
  using persistedD(1,3) [OF assms] by (auto simp: msgid_ok_def)

lemma restrict_other:
  "(\<And>n. n \<in> dom f \<Longrightarrow> key n \<noteq> k) \<Longrightarrow> f |` {n. key n \<in> insert k D} = f |` {n. key n \<in> D}"
  by (rule ext) (auto simp: restrict_map_def domIff intro: ccontr)

lemma restrict_new:
  assumes "f n = Some x" "\<And>m. m \<in> dom f \<Longrightarrow> key m = key n \<Longrightarrow> m = n"
  shows "(f |` {n. key n \<in> D})(n \<mapsto> x) = f |` {m. key m \<in> insert (key n) D}"
proof
  fix m
  show "((f |` {n. key n \<in> D})(n \<mapsto> x)) m = (f |` {m. key m \<in> insert (key n) D}) m"
    using assms by (cases "m = n"; cases "f m") (auto simp: restrict_map_def)
qed

text \<open>The state of restoring after the keys in \<open>D\<close>, and the records then.\<close>

definition restored ::
    "inflight \<Rightarrow> (int \<rightharpoonup> Publish) \<Rightarrow> bytes \<Rightarrow> nat \<Rightarrow> bytes set \<Rightarrow> 'w pstate \<Rightarrow> entry list \<Rightarrow> entry list \<Rightarrow> bool" where
  "restored infl pend h i D st mo mi \<longleftrightarrow> restoring st i mo mi \<and> list_all outbound_entry mo \<and> list_all inbound_entry mi \<and>
     inflight_of mo = infl |` {n. sent_key n \<in> D} \<and> pending_of mi = pend |` {n. received_key n \<in> D} \<and>
     cl_phandle (get_client i st) = h"

text \<open>A PUBREL left over from an exchange that is not in flight.\<close>

definition orphan :: "inflight \<Rightarrow> bytes \<Rightarrow> bool" where
  "orphan infl k \<longleftrightarrow> (\<exists>n. msgid_ok n \<and> k = pubrel_key n \<and> infl n = None)"

definition kept :: "inflight \<Rightarrow> bytes set \<Rightarrow> (bytes \<Rightarrow> bytes option) \<Rightarrow> (bytes \<Rightarrow> bytes option) \<Rightarrow> bool" where
  "kept infl D r r' \<longleftrightarrow> (\<forall>k. r' k = (if k \<in> D \<and> orphan infl k then None else r k))"

lemma not_orphan:
  assumes "0 \<le> n"
  shows "\<not> orphan infl (sent_key n)" "\<not> orphan infl (received_key n)"
  using keys_inj [OF assms] keys_inj(6) [OF _ assms] unfolding orphan_def msgid_ok_def by metis+

lemma orphan_pubrel: "msgid_ok n \<Longrightarrow> orphan infl (pubrel_key n) \<longleftrightarrow> infl n = None"
  using keys_inj(2) [of n] by (auto simp: orphan_def msgid_ok_def)

lemma restored_world: "restored infl pend h i D (st\<lparr>ps_world := w\<rparr>) mo mi \<longleftrightarrow> restored infl pend h i D st mo mi"
  by (simp add: restored_def restoring_def pubs_ok_def list_holds_def entry_ok_def)

lemma inflight_None: "n \<notin> eid ` set ms \<longleftrightarrow> inflight_of ms n = None"
  by (force simp: inflight_of_def map_of_eq_None_iff)

lemma pending_None: "n \<notin> eid ` set ms \<longleftrightarrow> pending_of ms n = None"
  by (force simp: pending_of_def map_of_eq_None_iff)

lemma pending_append:
  "eid e \<notin> eid ` set mi \<Longrightarrow> pending_of (mi @ [e]) = (pending_of mi)(eid e \<mapsto> publish_of e)"
  using pending_None [of "eid e" mi] by (auto simp: pending_of_def fun_eq_iff map_add_def split: option.splits)

lemma kept_sent:
  assumes "kept infl D r r'" "msgid_ok n"
  shows "r' (sent_key n) = r (sent_key n)" "r' (received_key n) = r (received_key n)"
    "infl n \<noteq> None \<Longrightarrow> pubrel_key n \<in> dom r' \<longleftrightarrow> pubrel_key n \<in> dom r"
proof -
  from assms(2) have "0 \<le> n" by (simp add: msgid_ok_def)
  with assms show "r' (sent_key n) = r (sent_key n)" "r' (received_key n) = r (received_key n)"
    "infl n \<noteq> None \<Longrightarrow> pubrel_key n \<in> dom r' \<longleftrightarrow> pubrel_key n \<in> dom r"
    using not_orphan [of n infl] orphan_pubrel [of n infl] by (auto simp: kept_def domIff)
qed

lemma kept_insert: "kept infl D r r' \<Longrightarrow> \<not> orphan infl k \<Longrightarrow> kept infl (insert k D) r r'"
  unfolding kept_def by (metis insert_iff)

text \<open>
  The order of the outbound ids after restoring: ascending from the one that follows the greatest gap,
  the ids wrapping around.
\<close>

definition wrapped_order :: "int list \<Rightarrow> bool" where
  "wrapped_order ids \<longleftrightarrow> (\<exists>ids' k. sorted ids' \<and> ids = drop k ids' @ take k ids' \<and> (ids' \<noteq> [] \<longrightarrow> k < length ids') \<and>
     (\<forall>j<length ids'. gap_before ids' j \<le> gap_before ids' k))"

text \<open>What a client has after a restart: the messages in flight and those received, at their stages.\<close>

definition resumed :: "inflight \<Rightarrow> (int \<rightharpoonup> Publish) \<Rightarrow> nat \<Rightarrow> 'w pstate \<Rightarrow> bool" where
  "resumed infl pend i st \<longleftrightarrow> pubs_ok st \<and> (\<exists>mo mi.
     list_holds st (cl_outboundMsgs (get_client i st)) mo \<and> list_all outbound_entry mo \<and> inflight_of mo = infl \<and>
     list_holds st (cl_inboundMsgs (get_client i st)) mi \<and> list_all inbound_entry mi \<and> pending_of mi = pend \<and>
     wrapped_order (map eid mo))"

text \<open>
  A client that starts: the store open, the message lists empty, and memory for a message and a
  publication for each of the keys.
\<close>

definition restarting :: "bytes \<Rightarrow> nat \<Rightarrow> bytes set \<Rightarrow> (addr \<times> addr \<times> nat) list \<Rightarrow> 'w pstate \<Rightarrow> bool" where
  "restarting h i keys mem st \<longleftrightarrow> i < length (elems (ps_clients st)) \<and> pubs_ok st \<and>
     cl_persistence (get_client i st) \<and> cl_phandle (get_client i st) = h \<and>
     cl_outboundMsgs (get_client i st) = clist_empty \<and> cl_inboundMsgs (get_client i st) = clist_empty \<and>
     card keys \<le> length mem \<and> distinct (map fst mem) \<and> distinct (map (fst \<circ> snd) mem) \<and>
     (\<forall>(am, ap, next0) \<in> set mem. am \<notin> dom (ps_msgs st) \<and> ap \<notin> dom (ps_pubs st))"

lemma distinct_rotated: "distinct (drop k xs @ take k xs) \<longleftrightarrow> distinct xs"
  by (metis append_take_drop_id distinct_append inf_commute)

lemma restrict_all: "(\<And>n. n \<in> dom f \<Longrightarrow> n \<in> A) \<Longrightarrow> f |` A = f"
  by (rule ext) (metis restrict_in restrict_out domIff)

lemma map_of_swap:
  assumes "distinct (map fst (xs @ ys))"
  shows "map_of (ys @ xs) = map_of (xs @ ys)"
proof
  fix k
  have "dom (map_of xs) \<inter> dom (map_of ys) = {}" using assms by (auto simp: dom_map_of_conv_image_fst)
  then show "map_of (ys @ xs) k = map_of (xs @ ys) k" by (cases "map_of xs k"; cases "map_of ys k") (auto simp: map_add_def)
qed

lemma wrapMsgID_effect:
  assumes "restored infl pend h i D st mo mi"
  shows "\<exists>st' mo'. MQTTPersistence_wrapMsgID i st = Some st' \<and> list_holds st' (cl_outboundMsgs (get_client i st')) mo' \<and>
    list_all outbound_entry mo' \<and> inflight_of mo' = inflight_of mo \<and> list_holds st' (cl_inboundMsgs (get_client i st')) mi \<and>
    pubs_ok st' \<and> wrapped_order (map eid mo') \<and> ps_world st' = ps_world st"
proof -
  let ?q = "cl_outboundMsgs (get_client i st)"
  from assms have r: "i < length (elems (ps_clients st))" "pubs_ok st" "list_holds st ?q mo"
    "list_holds st (cl_inboundMsgs (get_client i st)) mi" "sorted (map eid mo)" "list_all outbound_entry mo"
    by (simp_all add: restored_def restoring_def)
  then have v: "msgs_valid st ?q" "msg_ids st ?q = map eid mo"
    by (auto simp: list_holds_def msgs_valid_def list_all_iff entry_ok_def msg_ids_def eid_def)
  show ?thesis
  proof (cases "wrap_position (map eid mo)")
    case None
    have "wrapped_order (map eid mo)"
    proof (cases "mo = []")
      case False
      with wrap_position_max [of "map eid mo"] None have "\<forall>j<length mo. gap_before (map eid mo) j \<le> gap_before (map eid mo) 0"
        by (auto split: if_splits)
      with r(5) False show ?thesis unfolding wrapped_order_def by (intro exI [of _ "map eid mo"] exI [of _ 0]) simp
    qed (simp add: wrapped_order_def exI [of _ "[]"])
    with r v None show ?thesis by (intro exI [of _ st] exI [of _ mo]) (simp add: MQTTPersistence_wrapMsgID_def)
  next
    case (Some k)
    then have "mo \<noteq> []" by (auto simp: wrap_position_def)
    with wrap_position_max [of "map eid mo"] Some have k: "k < length mo" "\<forall>j<length mo. gap_before (map eid mo) j \<le> gap_before (map eid mo) k"
      by (auto split: if_splits)
    let ?mo = "drop k mo @ take k mo" and ?st = "set_client i ((get_client i st)\<lparr>cl_outboundMsgs := clist_rotate k ?q\<rparr>) st"
    have perm: "set ?mo = set mo" by (metis append_take_drop_id set_append Un_commute)
    have d: "distinct (map f ?mo) \<longleftrightarrow> distinct (map f mo)" for f :: "entry \<Rightarrow> addr" using distinct_rotated [of k "map f mo"] by (simp add: drop_map take_map)
    have "distinct (map eid ?mo) \<longleftrightarrow> distinct (map eid mo)" using distinct_rotated [of k "map eid mo"] by (simp add: drop_map take_map)
    moreover have "cursor_in (clist_rotate k ?q)" using r(3) k(1)
      by (auto simp: clist_rotate_def cursor_in_def list_holds_def split: option.splits)
    ultimately have "list_holds ?st (clist_rotate k ?q) ?mo" using r(3) unfolding list_holds_def perm d
      by (simp add: clist_rotate_def drop_map take_map entry_ok_def)
    moreover have "list_holds ?st (cl_inboundMsgs (get_client i st)) mi" using r(4) by (simp add: list_holds_def entry_ok_def)
    moreover have "inflight_of ?mo = inflight_of mo" unfolding inflight_of_def
      using map_of_swap [of "map (\<lambda>e. (eid e, entry_stage e)) (take k mo)" "map (\<lambda>e. (eid e, entry_stage e)) (drop k mo)"] r(3)
      by (simp add: list_holds_def comp_def take_map [symmetric] drop_map [symmetric])
    moreover have "wrapped_order (map eid ?mo)" unfolding wrapped_order_def
      using k r(5) by (intro exI [of _ "map eid mo"] exI [of _ k]) (simp add: take_map drop_map)
    moreover have "list_all outbound_entry ?mo" using r(6) perm by (simp add: list_all_iff)
    ultimately show ?thesis using r(1,2) v Some by (intro exI [of _ ?st] exI [of _ ?mo]) (simp add: MQTTPersistence_wrapMsgID_def pubs_ok_def Let_def)
  qed
qed

context key_store
begin

lemma sent_effect:
  assumes R: "restoring st i mo mi" and p: "publish_ok p" "hdr_qos (pub_header p) = 1 \<or> hdr_qos (pub_header p) = 2"
    and fresh: "am \<notin> dom (ps_msgs st)" "ap \<notin> dom (ps_pubs st)" and id: "pub_msgId p \<notin> eid ` set mo" "0 \<le> pub_msgId p" "pub_msgId p < 65536"
    and w: "ready (ps_world st) (cl_phandle (get_client i st))"
  shows "\<exists>st' mo1 mo2 m. restore_sent po pe i (PkPublish p) am ap next0 st = Some (0, st') \<and> mo = mo1 @ mo2 \<and>
    restoring st' i (mo1 @ (am, m, stored_publication p) # mo2) mi \<and> eid (am, m, stored_publication p) = pub_msgId p \<and>
    entry_stage (am, m, stored_publication p) = (if hdr_qos (pub_header p) = 1 then AwaitPuback
      else if pubrel_key (pub_msgId p) \<in> dom (records (ps_world st) (cl_phandle (get_client i st))) then AwaitPubcomp else AwaitPubrec,
      int (hdr_retain (pub_header p)), stored_publication p) \<and> outbound_entry (am, m, stored_publication p) \<and>
    grows i am ap st st' \<and> ready (ps_world st') (cl_phandle (get_client i st)) \<and>
    records (ps_world st') (cl_phandle (get_client i st)) = records (ps_world st) (cl_phandle (get_client i st))"
proof -
  let ?qos = "int (hdr_qos (pub_header p))" and ?ret = "int (hdr_retain (pub_header p))" and ?c = "get_client i st"
  let ?key = "pubrel_key (pub_msgId p)" and ?h = "cl_phandle (get_client i st)"
  from createMessage_ok [OF p(1), of po ?qos ?ret am ap next0 st] obtain len where
    cm: "MQTTProtocol_createMessage po p None ?qos ?ret am ap next0 st =
      Some (st\<lparr>ps_pubs := (ps_pubs st)(ap \<mapsto> stored_publication p), ps_publications := clist_append ap (ps_publications st),
        ps_msgs := (ps_msgs st)(am \<mapsto> outbound_message po p ?qos ?ret ap next0 len st)\<rparr>)" by blast
  from store_contains [OF w plain_keys(2) [OF id(2)]] obtain rc w' where
    ck: "pe_pcontainskey pe (ps_world st) ?h ?key = (rc, w')" "rc = 0 \<longleftrightarrow> ?key \<in> dom (records (ps_world st) ?h)"
      "ready w' ?h" "records w' ?h = records (ps_world st) ?h" by blast
  define m where "m = (let msg = outbound_message po p ?qos ?ret ap next0 len st in
    (if rc = 0 then msg\<lparr>msg_nextMessageType := PUBCOMP\<rparr> else msg)\<lparr>msg_lastTouch := 0\<rparr>)"
  let ?e = "(am, m, stored_publication p)"
  define st1 where "st1 = st\<lparr>ps_pubs := (ps_pubs st)(ap \<mapsto> stored_publication p),
      ps_publications := clist_append ap (ps_publications st), ps_msgs := (ps_msgs st)(am \<mapsto> m), ps_world := w'\<rparr>"
  from R have r: "i < length (elems (ps_clients st))" "pubs_ok st" "list_holds st (cl_outboundMsgs ?c) mo"
    "list_holds st (cl_inboundMsgs ?c) mi" "fst ` set mo \<inter> fst ` set mi = {}" "epub ` set mo \<inter> epub ` set mi = {}"
    "sorted (map eid mo)" by (simp_all add: restoring_def)
  note new = restoring_fresh [OF R fresh]
  have e: "eid ?e = pub_msgId p" "epub ?e = ap" "entry_ok st1 ?e"
    by (simp_all add: m_def outbound_message_def eid_def epub_def entry_ok_def st1_def stored_publication_def Let_def)
  have mem: "ps_msgs st1 = (ps_msgs st)(am \<mapsto> m)" "ps_pubs st1 = (ps_pubs st)(ap \<mapsto> stored_publication p)" by (simp_all add: st1_def)
  note okmi = entry_ok_store [OF r(4) new(2,4) _ mem] and okmo = entry_ok_store [OF r(3) new(1,3) _ mem]
  obtain q' mo1 mo2 where ins: "MQTTPersistence_insertInOrder (cl_outboundMsgs ?c) am st1 = Some q'" "mo = mo1 @ mo2"
    "list_holds st1 q' (mo1 @ ?e # mo2)" "sorted (map eid (mo1 @ ?e # mo2))"
    using insertInOrder_effect [OF r(3,7) e(3) okmo] new e(1,2) id(1) by auto
  define c where "c = ?c\<lparr>cl_outboundMsgs := q'\<rparr>"
  define st' where "st' = set_client i c st1"
  have st': "get_client i st' = c" "ps_msgs st' = ps_msgs st1" "ps_pubs st' = ps_pubs st1" "ps_world st' = w'"
    using r(1) by (simp_all add: st'_def st1_def)
  have "list_holds st1 (cl_inboundMsgs ?c) mi"
    by (rule list_holds_frame [OF r(4) okmi]) (use r(4) in \<open>simp_all add: list_holds_def\<close>)
  moreover have "pubs_ok st'" by (rule pubs_ok_store [OF r(2) fresh(2)]) (simp_all add: st'_def st1_def)
  moreover have "list_holds st' q ms \<longleftrightarrow> list_holds st1 q ms" for q ms by (simp add: list_holds_def entry_ok_def st'(2,3))
  ultimately have "restoring st' i (mo1 @ ?e # mo2) mi"
    using r(1,5,6) new e(2) ins(2-4) unfolding restoring_def st'(1) by (intro conjI) (simp_all add: c_def st'_def st1_def)
  moreover have "restore_sent po pe i (PkPublish p) am ap next0 st = Some (0, st')"
    using sprintf_key_ok [OF id(2,3), of PERSISTENCE_PUBREL] ck(1) ins(1)
    by (simp add: restore_sent_def cm Let_def st'_def c_def m_def st1_def pubrel_key_def PERSISTENCE_PUBREL_def)
  moreover have "grows i am ap st st'" by (auto simp: grows_def st' mem) (simp_all add: c_def)
  moreover have "outbound_entry ?e" using p by (auto simp: outbound_entry_def m_def outbound_message_def publish_ok_def stored_publication_def Let_def)
  moreover have "entry_stage ?e = (if hdr_qos (pub_header p) = 1 then AwaitPuback
      else if ?key \<in> dom (records (ps_world st) ?h) then AwaitPubcomp else AwaitPubrec, ?ret, stored_publication p)"
    using ck(2) p(2) by (auto simp: entry_stage_def m_def outbound_message_def Let_def)
  ultimately show ?thesis using ins(2) e(1) ck(3,4) st'(4) by blast
qed

lemma step_sent:
  assumes P: "persisted infl pend r" and inv: "restored infl pend h i D st mo mi" "ready (ps_world st) h" "kept infl D r (records (ps_world st) h)"
    and n: "n \<in> dom infl" "sent_key n \<notin> D" and fresh: "am \<notin> dom (ps_msgs st)" "ap \<notin> dom (ps_pubs st)"
  shows "\<exists>st' mo' mi'. restore_key po pe i (sent_key n) am ap next0 st = Some (0, st') \<and>
    restored infl pend h i (insert (sent_key n) D) st' mo' mi' \<and> grows i am ap st st' \<and> ready (ps_world st') h \<and>
    kept infl (insert (sent_key n) D) r (records (ps_world st') h)"
proof -
  from n(1) obtain s ret p where x: "infl n = Some (s, ret, p)" by auto
  from persistedD(1) [OF P x] obtain dup where n0: "msgid_ok n" "0 \<le> n" "n < 65536" and sp: "sound_publication p" "ret = 0 \<or> ret = 1"
    and b: "r (sent_key n) = Some (publish_record dup (if s = AwaitPuback then 1 else 2) ret (pbs_topic p) n (pbs_payload p))"
    by (auto simp: out_record_def msgid_ok_def)
  define qos :: int where "qos = (if s = AwaitPuback then 1 else 2)"
  let ?P = "record_publish dup qos ret n p" and ?k = "sent_key n"
  have qos: "qos = 1 \<or> qos = 2" by (simp add: qos_def)
  note rd = record_publish_read [OF sp(1) n0(1) qos, of dup ret]
  have hdr: "hdr_qos (pub_header ?P) = nat qos" "hdr_retain (pub_header ?P) = nat ret" "pub_msgId ?P = n"
    using qos sp(2) by (auto simp: record_publish_def hdr_mk_header)
  from store_get [OF inv(2) plain_keys(1) [OF n0(2)] _ rd(4)] kept_sent(1) [OF inv(3) n0(1)] b obtain w1 where
    w1: "pe_pget pe (ps_world st) h ?k = (0, publish_record dup qos ret (pbs_topic p) n (pbs_payload p), w1)"
      "ready w1 h" "records w1 h = records (ps_world st) h" by (auto simp: qos_def)
  let ?st = "st\<lparr>ps_world := w1\<rparr>"
  have R: "restored infl pend h i D ?st mo mi" using inv(1) by (simp only: restored_world)
  then have R': "restoring ?st i mo mi" "cl_phandle (get_client i ?st) = h" "inflight_of mo = infl |` {n. sent_key n \<in> D}"
    by (simp_all add: restored_def)
  have new: "n \<notin> eid ` set mo" using R'(3) n(2) by (simp add: inflight_None)
  have E: "restore_key po pe i ?k am ap next0 st = restore_sent po pe i (PkPublish ?P) am ap next0 ?st"
    using key_prefix [OF n0(2), of ?k] key_kinds [OF n0(2)] w1(1) rd(1) inv(1) by (simp add: restore_key_def restored_def)
  have world: "ps_world ?st = w1" by simp
  have pre: "hdr_qos (pub_header ?P) = 1 \<or> hdr_qos (pub_header ?P) = 2" "am \<notin> dom (ps_msgs ?st)" "ap \<notin> dom (ps_pubs ?st)"
    "pub_msgId ?P \<notin> eid ` set mo" "0 \<le> pub_msgId ?P" "pub_msgId ?P < 65536" "ready (ps_world ?st) (cl_phandle (get_client i ?st))"
    unfolding hdr R'(2) using qos fresh new n0(2,3) w1(2) by auto
  obtain st' mo1 mo2 m where S: "restore_sent po pe i (PkPublish ?P) am ap next0 ?st = Some (0, st')" "mo = mo1 @ mo2"
    "restoring st' i (mo1 @ (am, m, p) # mo2) mi" "eid (am, m, p) = n"
    "entry_stage (am, m, p) = (if hdr_qos (pub_header ?P) = 1 then AwaitPuback
      else if pubrel_key n \<in> dom (records w1 h) then AwaitPubcomp else AwaitPubrec, int (hdr_retain (pub_header ?P)), p)"
    "outbound_entry (am, m, p)" "grows i am ap ?st st'" "ready (ps_world st') h" "records (ps_world st') h = records w1 h"
    using sent_effect [OF R'(1) rd(3) pre, of po next0] unfolding hdr(3) rd(2) R'(2) world by blast
  have st: "entry_stage (am, m, p) = (s, ret, p)"
  proof -
    have "pubrel_key n \<in> dom (records w1 h) \<longleftrightarrow> pubrel_key n \<in> dom r" using kept_sent(3) [OF inv(3) n0(1)] x w1(3) by simp
    moreover have "int (nat ret) = ret" "nat qos = 1 \<longleftrightarrow> s = AwaitPuback" using sp(2) by (auto simp: qos_def)
    ultimately show ?thesis using persistedD(2) [OF P x] S(5) [unfolded hdr] by (cases s) simp_all
  qed
  note ids = persisted_ids [OF P]
  have "inflight_of (mo1 @ (am, m, p) # mo2) = infl |` {m. sent_key m \<in> insert ?k D}"
  proof -
    have "m = n" if "m \<in> dom infl" "sent_key m = sent_key n" for m using that keys_inj(1) [OF ids(1) [OF that(1)] n0(2)] by simp
    with x have "(infl |` {n. sent_key n \<in> D})(n \<mapsto> (s, ret, p)) = infl |` {m. sent_key m \<in> insert ?k D}" by (rule restrict_new)
    moreover have "eid (am, m, p) \<notin> eid ` set (mo1 @ mo2)" using new S(2,4) by simp
    ultimately show ?thesis using inflight_insert [of "(am, m, p)" mo1 mo2] R'(3) S(2,4) st by simp
  qed
  moreover have "pend |` {m. received_key m \<in> insert ?k D} = pend |` {m. received_key m \<in> D}"
    by (rule restrict_other) (use ids(2) keys_inj(8) [OF n0(2)] in blast)
  ultimately have "restored infl pend h i (insert ?k D) st' (mo1 @ (am, m, p) # mo2) mi"
    using R S(2,3,6,7) by (simp add: restored_def grows_def)
  moreover have "grows i am ap st st'" using S(7) by (simp add: grows_def)
  moreover have "kept infl (insert ?k D) r (records (ps_world st') h)" using kept_insert [OF inv(3)] not_orphan [OF n0(2)] S(9) w1(3) by simp
  ultimately show ?thesis using E S(1,8) by auto
qed

lemma step_received:
  assumes P: "persisted infl pend r" and inv: "restored infl pend h i D st mo mi" "ready (ps_world st) h" "kept infl D r (records (ps_world st) h)"
    and n: "n \<in> dom pend" "received_key n \<notin> D" and fresh: "am \<notin> dom (ps_msgs st)" "ap \<notin> dom (ps_pubs st)"
  shows "\<exists>st' mo' mi'. restore_key po pe i (received_key n) am ap next0 st = Some (0, st') \<and>
    restored infl pend h i (insert (received_key n) D) st' mo' mi' \<and> grows i am ap st st' \<and> ready (ps_world st') h \<and>
    kept infl (insert (received_key n) D) r (records (ps_world st') h)"
proof -
  from n(1) obtain pb where x: "pend n = Some pb" by auto
  from persistedD(3) [OF P x] obtain dup ret p where n0: "msgid_ok n" "0 \<le> n" "n < 65536" and sp: "sound_publication p" "ret = 0 \<or> ret = 1"
    and b: "r (received_key n) = Some (publish_record dup 2 ret (pbs_topic p) n (pbs_payload p))"
    and pb: "pb = \<lparr>pub_header = mk_header 0 0 2 ret, pub_topic = Some (pbs_topic p), pub_topiclen = pbs_topiclen p, pub_msgId = n,
       pub_payload = pbs_payload p, pub_payloadlen = pbs_payloadlen p\<rparr>"
    by (auto simp: in_record_def msgid_ok_def)
  let ?P = "record_publish dup 2 ret n p" and ?k = "received_key n"
  note rd = record_publish_read [OF sp(1) n0(1), of 2 dup ret, simplified]
  have hdr: "hdr_qos (pub_header ?P) = 2" "hdr_retain (pub_header ?P) = nat ret" "pub_msgId ?P = n"
    using sp(2) by (auto simp: record_publish_def hdr_mk_header)
  from store_get [OF inv(2) plain_keys(3) [OF n0(2)]] kept_sent(2) [OF inv(3) n0(1)] b rd(4) obtain w1 where
    w1: "pe_pget pe (ps_world st) h ?k = (0, publish_record dup 2 ret (pbs_topic p) n (pbs_payload p), w1)"
      "ready w1 h" "records w1 h = records (ps_world st) h" by auto
  let ?st = "st\<lparr>ps_world := w1\<rparr>"
  have R: "restored infl pend h i D ?st mo mi" using inv(1) by (simp only: restored_world)
  then have R': "restoring ?st i mo mi" "cl_phandle (get_client i ?st) = h" "pending_of mi = pend |` {n. received_key n \<in> D}"
    by (simp_all add: restored_def)
  have new: "pub_msgId ?P \<notin> eid ` set mi" unfolding hdr using R'(3) n(2) by (simp add: pending_None)
  have E: "restore_key po pe i ?k am ap next0 st = restore_received po i (PkPublish ?P) am ap ?st"
    using key_prefix [OF n0(2), of ?k] key_kinds [OF n0(2)] w1(1) rd(1) inv(1) by (simp add: restore_key_def restored_def)
  have world: "ps_world ?st = w1" and ret: "int (nat ret) = ret" using sp(2) by auto
  have pre: "am \<notin> dom (ps_msgs ?st)" "ap \<notin> dom (ps_pubs ?st)" using fresh by simp_all
  obtain st' m where S: "restore_received po i (PkPublish ?P) am ap ?st = Some (0, st')" "restoring st' i mo (mi @ [(am, m, p)])"
    "msg_msgid m = n" "msg_qos m = 2" "msg_nextMessageType m = PUBREL" "msg_retain m = ret" "grows i am ap ?st st'" "ps_world st' = w1"
    using restore_received_effect [OF R'(1) rd(3) pre new, of po] unfolding hdr rd(2) world ret of_nat_numeral by blast
  have e: "eid (am, m, p) = n" "publish_of (am, m, p) = pb" "inbound_entry (am, m, p)"
    using S(3-6) by (simp_all add: eid_def publish_of_def pb inbound_entry_def)
  note ids = persisted_ids [OF P]
  have "m = n" if "m \<in> dom pend" "received_key m = received_key n" for m using that keys_inj(3) [OF ids(2) [OF that(1)] n0(2)] by simp
  with x have "(pend |` {n. received_key n \<in> D})(n \<mapsto> pb) = pend |` {m. received_key m \<in> insert ?k D}" by (rule restrict_new)
  then have "pending_of (mi @ [(am, m, p)]) = pend |` {m. received_key m \<in> insert ?k D}"
    using pending_append [of "(am, m, p)" mi] R'(3) new e(1,2) by (simp add: hdr)
  moreover have "infl |` {m. sent_key m \<in> insert ?k D} = infl |` {m. sent_key m \<in> D}"
    by (rule restrict_other) (use ids(1) keys_inj(5) [OF _ n0(2)] in blast)
  ultimately have "restored infl pend h i (insert ?k D) st' mo (mi @ [(am, m, p)])"
    using R S(2,7) e(3) by (simp add: restored_def grows_def)
  moreover have "grows i am ap st st'" using S(7) by (simp add: grows_def)
  moreover have "kept infl (insert ?k D) r (records (ps_world st') h)" using kept_insert [OF inv(3)] not_orphan [OF n0(2)] S(8) w1(3) by simp
  ultimately show ?thesis using E S(1,8) w1(2) by auto
qed

lemma step_unchanged:
  assumes "persisted infl pend r" "restored infl pend h i D st mo mi" "\<forall>n\<ge>0. k \<noteq> sent_key n \<and> k \<noteq> received_key n"
  shows "restored infl pend h i (insert k D) (st\<lparr>ps_world := w\<rparr>) mo mi"
proof -
  have "infl |` {n. sent_key n \<in> insert k D} = infl |` {n. sent_key n \<in> D}" "pend |` {n. received_key n \<in> insert k D} = pend |` {n. received_key n \<in> D}"
    by (rule restrict_other; use persisted_ids [OF assms(1)] assms(3) in metis)+
  with assms(2) show ?thesis unfolding restored_world by (simp add: restored_def)
qed

lemma sent_recorded:
  assumes "persisted infl pend r" "msgid_ok n"
  shows "sent_key n \<in> dom r \<longleftrightarrow> infl n \<noteq> None"
proof
  have n0: "0 \<le> n" using assms(2) by (simp add: msgid_ok_def)
  assume "sent_key n \<in> dom r"
  with persistedD(4) [OF assms(1)] key_prefix [OF n0, of "sent_key n"] persisted_ids [OF assms(1)] keys_inj [OF n0]
  show "infl n \<noteq> None" unfolding msgid_ok_def by (metis domIff)
next
  assume "infl n \<noteq> None"
  with persistedD(1) [OF assms(1)] show "sent_key n \<in> dom r" by blast
qed

lemma step_pubrel:
  assumes P: "persisted infl pend r" and inv: "restored infl pend h i D st mo mi" "ready (ps_world st) h" "kept infl D r (records (ps_world st) h)"
    and n: "msgid_ok n" "r (pubrel_key n) = Some (pubrel_record dup n)" "pubrel_key n \<notin> D"
  shows "\<exists>st' mo' mi'. restore_key po pe i (pubrel_key n) am ap next0 st = Some (0, st') \<and>
    restored infl pend h i (insert (pubrel_key n) D) st' mo' mi' \<and> grows i am ap st st' \<and> ready (ps_world st') h \<and>
    kept infl (insert (pubrel_key n) D) r (records (ps_world st') h)"
proof -
  let ?k = "pubrel_key n"
  have n0: "0 \<le> n" "n < 65536" using n(1) by (simp_all add: msgid_ok_def)
  have "length (pubrel_record dup n) < 2 ^ 31" using encode_length_le [of 2 3] by (simp add: pubrel_record_def)
  moreover have "records (ps_world st) h ?k = Some (pubrel_record dup n)" using inv(3) n(2,3) by (simp add: kept_def)
  ultimately obtain w1 where w1: "pe_pget pe (ps_world st) h ?k = (0, pubrel_record dup n, w1)" "ready w1 h"
      "records w1 h = records (ps_world st) h" using store_get [OF inv(2) plain_keys(2) [OF n0(1)]] by blast
  obtain rc w2 where w2: "pe_pcontainskey pe w1 h (sent_key n) = (rc, w2)" "rc = 0 \<longleftrightarrow> sent_key n \<in> dom (records w1 h)"
      "ready w2 h" "records w2 h = records w1 h" using store_contains [OF w1(2) plain_keys(1) [OF n0(1)]] by blast
  obtain w3 where w3: "pe_premove pe w2 h ?k = (0, w3)" "ready w3 h" "records w3 h = (records w2 h)(?k := None)"
    using store_remove [OF w2(3) plain_keys(2) [OF n0(1)]] by blast
  have "sent_key n \<in> dom (records w1 h) \<longleftrightarrow> sent_key n \<in> dom r" using kept_sent(1) [OF inv(3) n(1)] w1(3) by (simp add: domIff)
  then have rc: "rc = 0 \<longleftrightarrow> infl n \<noteq> None" using w2(2) sent_recorded [OF P n(1)] by simp
  define w where "w = (if rc = 0 then w2 else w3)"
  have "restore_key po pe i ?k am ap next0 st = Some (0, st\<lparr>ps_world := w\<rparr>)"
    using key_prefix [OF n0(1), of ?k] key_kinds [OF n0(1)] w1(1) restorePacket_pubrel [OF n0, of dup] inv(1) w2(1) w3(1)
      sprintf_key_ok [OF n0, of PERSISTENCE_PUBLISH_SENT]
    by (simp add: restore_key_def restored_def restore_pubrel_def sent_key_def w_def PERSISTENCE_PUBLISH_SENT_def)
  moreover have "restored infl pend h i (insert ?k D) (st\<lparr>ps_world := w\<rparr>) mo mi"
    by (rule step_unchanged [OF P inv(1)]) (use keys_inj(6,7) n0(1) in metis)
  moreover have "kept infl (insert ?k D) r (records w h)"
    using inv(3) orphan_pubrel [OF n(1)] rc w1(3) w2(4) w3(3) by (auto simp: kept_def w_def)
  moreover have "ready w h" using w2(3) w3(2) by (simp add: w_def)
  moreover have "grows i am ap st (st\<lparr>ps_world := w\<rparr>)" by (auto simp: grows_def)
  ultimately show ?thesis by auto
qed

lemma step_key:
  assumes P: "persisted infl pend r" and inv: "restored infl pend h i D st mo mi" "ready (ps_world st) h" "kept infl D r (records (ps_world st) h)"
    and k: "k \<in> dom r" "k \<notin> D" and fresh: "am \<notin> dom (ps_msgs st)" "ap \<notin> dom (ps_pubs st)"
  shows "\<exists>st' mo' mi'. restore_key po pe i k am ap next0 st = Some (0, st') \<and>
    restored infl pend h i (insert k D) st' mo' mi' \<and> grows i am ap st st' \<and> ready (ps_world st') h \<and>
    kept infl (insert k D) r (records (ps_world st') h)"
proof -
  consider "strncmp_eq k PERSISTENCE_COMMAND_KEY \<or> strncmp_eq k PERSISTENCE_QUEUE_KEY" | n where "n \<in> dom infl" "k = sent_key n"
    | n where "n \<in> dom pend" "k = received_key n" | n dup where "msgid_ok n" "k = pubrel_key n" "r k = Some (pubrel_record dup n)"
    using persistedD(4) [OF P k(1)] by blast
  then show ?thesis
  proof cases
    case 1
    then have no: "k \<noteq> sent_key n" "k \<noteq> pubrel_key n" "k \<noteq> received_key n" if "0 \<le> n" for n using key_prefix [OF that, of k] by blast+
    then have "\<not> orphan infl k" unfolding orphan_def msgid_ok_def by blast
    moreover have "restored infl pend h i (insert k D) (st\<lparr>ps_world := ps_world st\<rparr>) mo mi"
      by (rule step_unchanged [OF P inv(1)]) (use no in blast)
    moreover have "grows i am ap st st" by (auto simp: grows_def)
    ultimately show ?thesis using 1 inv kept_insert [OF inv(3)] by (auto simp: restore_key_def)
  next
    case 2
    with step_sent [OF P inv, of n] k(2) fresh show ?thesis by blast
  next
    case 3
    with step_received [OF P inv, of n] k(2) fresh show ?thesis by blast
  next
    case 4
    with step_pubrel [OF P inv, of n dup] k(2) show ?thesis by blast
  qed
qed

lemma loop_keys:
  assumes "persisted infl pend r" "restored infl pend h i D st mo mi" "ready (ps_world st) h" "kept infl D r (records (ps_world st) h)"
    and "set (map fst ks) \<subseteq> dom r - D" "distinct (map fst ks)" "distinct (map (fst \<circ> snd) ks)" "distinct (map (fst \<circ> snd \<circ> snd) ks)"
    and "\<forall>(k, am, ap, next0) \<in> set ks. am \<notin> dom (ps_msgs st) \<and> ap \<notin> dom (ps_pubs st)"
  shows "\<exists>st' mo' mi'. restore_loop po pe i ks st = Some (0, st') \<and> restored infl pend h i (D \<union> set (map fst ks)) st' mo' mi' \<and>
    ready (ps_world st') h \<and> kept infl (D \<union> set (map fst ks)) r (records (ps_world st') h)"
  using assms(2-)
proof (induction ks arbitrary: st mo mi D)
  case (Cons x ks)
  obtain k am ap next0 where x: "x = (k, am, ap, next0)" by (cases x)
  have pre: "k \<in> dom r" "k \<notin> D" "am \<notin> dom (ps_msgs st)" "ap \<notin> dom (ps_pubs st)" using Cons.prems(4,8) by (auto simp: x)
  obtain st1 mo1 mi1 where s: "restore_key po pe i k am ap next0 st = Some (0, st1)" "restored infl pend h i (insert k D) st1 mo1 mi1"
    "grows i am ap st st1" "ready (ps_world st1) h" "kept infl (insert k D) r (records (ps_world st1) h)"
    using step_key [OF assms(1) Cons.prems(1-3) pre] by blast
  have *: "set (map fst ks) \<subseteq> dom r - insert k D" "distinct (map fst ks)" "distinct (map (fst \<circ> snd) ks)" "distinct (map (fst \<circ> snd \<circ> snd) ks)"
    using Cons.prems(4-7) by (auto simp: x comp_def)
  have "am' \<notin> dom (ps_msgs st1) \<and> ap' \<notin> dom (ps_pubs st1)" if "(k', am', ap', n') \<in> set ks" for k' am' ap' n'
  proof -
    from that have "am' \<in> set (map (fst \<circ> snd) ks)" "ap' \<in> set (map (fst \<circ> snd \<circ> snd) ks)" by force+
    then have "am' \<noteq> am" "ap' \<noteq> ap" using Cons.prems(6,7) by (auto simp: x)
    moreover have "am' \<notin> dom (ps_msgs st)" "ap' \<notin> dom (ps_pubs st)" using Cons.prems(8) that by fastforce+
    ultimately show ?thesis using s(3) unfolding grows_def by blast
  qed
  then have "\<forall>(k, am, ap, next0) \<in> set ks. am \<notin> dom (ps_msgs st1) \<and> ap \<notin> dom (ps_pubs st1)" by blast
  from Cons.IH [OF s(2,4,5) * this] s(1) show ?case by (simp add: x insert_commute)
qed auto

lemma restore_resumes:
  assumes P: "persisted infl pend (records (ps_world st) h)" and ready: "ready (ps_world st) h" and start: "restarting h i (dom (records (ps_world st) h)) mem st"
  shows "\<exists>st'. MQTTPersistence_restore po pe i mem st = Some (0, st') \<and> resumed infl pend i st' \<and> ready (ps_world st') h \<and>
    records (ps_world st') h = (records (ps_world st) h) |` {k. \<not> orphan infl k}"
proof -
  let ?r = "records (ps_world st) h"
  from start have w: "ready (ps_world st) h" "cl_persistence (get_client i st)" "cl_phandle (get_client i st) = h"
    and st: "i < length (elems (ps_clients st))" "pubs_ok st" "cl_outboundMsgs (get_client i st) = clist_empty" "cl_inboundMsgs (get_client i st) = clist_empty"
    and mem: "card (dom ?r) \<le> length mem" "distinct (map fst mem)" "distinct (map (fst \<circ> snd) mem)"
      "\<forall>(am, ap, next0) \<in> set mem. am \<notin> dom (ps_msgs st) \<and> ap \<notin> dom (ps_pubs st)"
    using ready by (simp_all add: restarting_def)
  from store_keys [OF w(1)] obtain ks w1 where ks: "pe_pkeys pe (ps_world st) h = (0, ks, w1)" "distinct ks" "set ks = dom ?r"
    "ready w1 h" "records w1 h = ?r" by blast
  let ?st = "st\<lparr>ps_world := w1\<rparr>" and ?z = "zip ks mem"
  have len: "length ks \<le> length mem" using mem(1) ks(2,3) distinct_card [of ks] by simp
  have m: "map fst ?z = ks" "map snd ?z = take (length ks) mem" using len by (simp_all add: map_fst_zip_take map_snd_zip_take)
  have "restored infl pend h i {} ?st [] []"
    using st w(3) by (auto simp: restored_def restoring_def list_holds_def clist_empty_def cursor_in_def inflight_of_def pending_of_def pubs_ok_def)
  moreover have "kept infl {} ?r (records w1 h)" using ks(5) by (simp add: kept_def)
  moreover have "distinct (map (fst \<circ> snd) ?z)" "distinct (map (fst \<circ> snd \<circ> snd) ?z)"
    using mem(2,3) distinct_take by (metis m(2) list.map_comp take_map)+
  moreover have "set (map fst ?z) \<subseteq> dom ?r - {}" "distinct (map fst ?z)" using m(1) ks(2,3) by simp_all
  moreover have "\<forall>(k, am, ap, next0) \<in> set ?z. am \<notin> dom (ps_msgs ?st) \<and> ap \<notin> dom (ps_pubs ?st)"
    using mem(4) by (fastforce dest: set_zip_rightD)
  ultimately obtain st1 mo mi where l: "restore_loop po pe i ?z ?st = Some (0, st1)" "restored infl pend h i (set ks) st1 mo mi"
    "ready (ps_world st1) h" "kept infl (set ks) ?r (records (ps_world st1) h)"
    using loop_keys [OF P, of h i "{}" ?st "[]" "[]" ?z po] ks(4) m(1) by auto
  obtain st' mo' where wr: "MQTTPersistence_wrapMsgID i st1 = Some st'" "list_holds st' (cl_outboundMsgs (get_client i st')) mo'"
    "list_all outbound_entry mo'" "inflight_of mo' = inflight_of mo" "list_holds st' (cl_inboundMsgs (get_client i st')) mi"
    "pubs_ok st'" "wrapped_order (map eid mo')" "ps_world st' = ps_world st1" using wrapMsgID_effect [OF l(2)] by blast
  have "infl |` {n. sent_key n \<in> set ks} = infl" "pend |` {n. received_key n \<in> set ks} = pend"
    by (rule restrict_all; use persistedD(1,3) [OF P] ks(3) in blast)+
  then have "inflight_of mo = infl" "pending_of mi = pend" "list_all inbound_entry mi" using l(2) by (simp_all add: restored_def)
  with wr have "resumed infl pend i st'" unfolding resumed_def by blast
  moreover have "MQTTPersistence_restore po pe i mem st = Some (0, st')"
    using w(2,3) ks(1) len l(1) wr(1) by (simp add: MQTTPersistence_restore_def)
  moreover have "records (ps_world st') h = ?r |` {k. \<not> orphan infl k}"
    using l(4) wr(8) ks(3) by (auto simp: kept_def fun_eq_iff restrict_map_def domIff)
  ultimately show ?thesis using l(3) wr(8) by auto
qed

end

end
