(* ===== verification/Survival.thy ===== *)
theory Survival
  imports Restart
begin

text \<open>
  What is written while messages are in flight, and that a restart at any time brings the session back:
  \<open>MQTTPersistence_put\<close> and \<open>MQTTPersistence_remove\<close> keep the records in step with the messages, on any
  store that keeps its promises and so on the files of the default persistence.
\<close>

section \<open>Records in step with the session\<close>

text \<open>The records of a running session: as for a restart, with a PUBREL exactly of the messages released.\<close>

definition saved :: "inflight \<Rightarrow> (int \<rightharpoonup> Publish) \<Rightarrow> (bytes \<Rightarrow> bytes option) \<Rightarrow> bool" where
  "saved infl pend r \<longleftrightarrow> persisted infl pend r \<and> (\<forall>k\<in>dom r. \<not> orphan infl k) \<and>
     (\<forall>n x. infl n = Some x \<longrightarrow> (fst x = AwaitPubcomp \<longleftrightarrow> pubrel_key n \<in> dom r))"

lemma savedI:
  assumes "\<And>n x. infl n = Some x \<Longrightarrow> msgid_ok n \<and> (\<exists>b. r (sent_key n) = Some b \<and> out_record n x b)"
    and "\<And>n x. infl n = Some x \<Longrightarrow> fst x = AwaitPubcomp \<longleftrightarrow> pubrel_key n \<in> dom r"
    and "\<And>n p. pend n = Some p \<Longrightarrow> msgid_ok n \<and> (\<exists>b. r (received_key n) = Some b \<and> in_record n p b)"
    and "\<And>k. k \<in> dom r \<Longrightarrow> strncmp_eq k PERSISTENCE_COMMAND_KEY \<or> strncmp_eq k PERSISTENCE_QUEUE_KEY \<or>
        (\<exists>n\<in>dom infl. k = sent_key n) \<or> (\<exists>n\<in>dom pend. k = received_key n) \<or>
        (\<exists>n dup. msgid_ok n \<and> n \<in> dom infl \<and> k = pubrel_key n \<and> r k = Some (pubrel_record dup n))"
  shows "saved infl pend r"
proof -
  have "persisted infl pend r" unfolding persisted_def using assms by blast
  moreover have "\<not> orphan infl k" if kr: "k \<in> dom r" for k
  proof
    assume "orphan infl k"
    then obtain n where n: "msgid_ok n" "0 \<le> n" "k = pubrel_key n" "infl n = None" by (auto simp: orphan_def msgid_ok_def)
    have pos: "0 \<le> m" if "m \<in> dom infl \<or> m \<in> dom pend" for m using that assms(1,3) by (auto simp: msgid_ok_def)
    have "\<not> (\<exists>m\<in>dom infl. k = sent_key m)" "\<not> (\<exists>m\<in>dom pend. k = received_key m)"
      using n(2,3) keys_inj(6,7) pos by metis+
    moreover have "\<not> strncmp_eq k PERSISTENCE_COMMAND_KEY" "\<not> strncmp_eq k PERSISTENCE_QUEUE_KEY"
      using key_prefix [OF n(2), of k] n(3) by simp_all
    ultimately obtain m where "m \<in> dom infl" "k = pubrel_key m" using assms(4) [OF kr] by blast
    with keys_inj(2) [OF n(2), of m] pos n(3,4) show False by auto
  qed
  ultimately show ?thesis using assms(2) by (auto simp: saved_def)
qed

lemma savedD:
  assumes "saved infl pend r"
  shows "infl n = Some x \<Longrightarrow> msgid_ok n \<and> (\<exists>b. r (sent_key n) = Some b \<and> out_record n x b)"
    and "infl n = Some x \<Longrightarrow> fst x = AwaitPubcomp \<longleftrightarrow> pubrel_key n \<in> dom r"
    and "pend n = Some p \<Longrightarrow> msgid_ok n \<and> (\<exists>b. r (received_key n) = Some b \<and> in_record n p b)"
    and "k \<in> dom r \<Longrightarrow> strncmp_eq k PERSISTENCE_COMMAND_KEY \<or> strncmp_eq k PERSISTENCE_QUEUE_KEY \<or>
        (\<exists>n\<in>dom infl. k = sent_key n) \<or> (\<exists>n\<in>dom pend. k = received_key n) \<or>
        (\<exists>n dup. msgid_ok n \<and> n \<in> dom infl \<and> k = pubrel_key n \<and> r k = Some (pubrel_record dup n))"
    and "msgid_ok n \<Longrightarrow> infl n = None \<Longrightarrow> pubrel_key n \<notin> dom r"
    and "n \<in> dom infl \<Longrightarrow> 0 \<le> n" "n \<in> dom pend \<Longrightarrow> 0 \<le> n"
proof -
  from assms have P: "persisted infl pend r" and O: "\<And>k. k \<in> dom r \<Longrightarrow> \<not> orphan infl k"
    and R: "\<And>n x. infl n = Some x \<Longrightarrow> fst x = AwaitPubcomp \<longleftrightarrow> pubrel_key n \<in> dom r" unfolding saved_def by blast+
  show "infl n = Some x \<Longrightarrow> msgid_ok n \<and> (\<exists>b. r (sent_key n) = Some b \<and> out_record n x b)"
    "infl n = Some x \<Longrightarrow> fst x = AwaitPubcomp \<longleftrightarrow> pubrel_key n \<in> dom r"
    "pend n = Some p \<Longrightarrow> msgid_ok n \<and> (\<exists>b. r (received_key n) = Some b \<and> in_record n p b)"
    "n \<in> dom infl \<Longrightarrow> 0 \<le> n" "n \<in> dom pend \<Longrightarrow> 0 \<le> n"
    using persistedD [OF P] persisted_ids [OF P] R by blast+
  show "msgid_ok n \<Longrightarrow> infl n = None \<Longrightarrow> pubrel_key n \<notin> dom r" using O orphan_pubrel by blast
  show "k \<in> dom r \<Longrightarrow> strncmp_eq k PERSISTENCE_COMMAND_KEY \<or> strncmp_eq k PERSISTENCE_QUEUE_KEY \<or>
        (\<exists>n\<in>dom infl. k = sent_key n) \<or> (\<exists>n\<in>dom pend. k = received_key n) \<or>
        (\<exists>n dup. msgid_ok n \<and> n \<in> dom infl \<and> k = pubrel_key n \<and> r k = Some (pubrel_record dup n))"
    using persistedD(4) [OF P, of k] O [of k] unfolding orphan_def by blast
qed

lemma saved_empty: "saved Map.empty Map.empty Map.empty"
  by (rule savedI) simp_all

lemma saved_sent:
  assumes S: "saved infl pend r" and n: "msgid_ok n" "sound_publication p" "ret = 0 \<or> ret = 1" "qos = 1 \<or> qos = 2"
    and x: "x = (if qos = 1 then AwaitPuback else AwaitPubrec, ret, p)" "infl n = None \<or> infl n = Some x"
  shows "saved (infl(n \<mapsto> x)) pend (r(sent_key n \<mapsto> publish_record dup qos ret (pbs_topic p) n (pbs_payload p)))"
    (is "saved ?infl pend ?r")
proof (rule savedI)
  note D = savedD [OF S]
  have n0: "0 \<le> n" using n(1) by (simp add: msgid_ok_def)
  have nopub: "pubrel_key n \<notin> dom r" using D(2) [of n x] D(5) [OF n(1)] x by (auto split: if_splits)
  have ne: "pubrel_key m \<noteq> sent_key n" "received_key m \<noteq> sent_key n" if "0 \<le> m" for m using keys_inj [OF n0 that] by simp_all
  have sk: "sent_key m = sent_key n \<longleftrightarrow> m = n" if "m \<in> dom infl" for m using keys_inj(1) [OF D(6) [OF that] n0] .
  show "msgid_ok m \<and> (\<exists>b. ?r (sent_key m) = Some b \<and> out_record m y b)" if "?infl m = Some y" for m y
    using that D(1) [of m y] sk [of m] n x(1) by (cases "m = n") (auto simp: out_record_def)
  show "fst y = AwaitPubcomp \<longleftrightarrow> pubrel_key m \<in> dom ?r" if "?infl m = Some y" for m y
    using that D(2) [of m y] D(6) [of m] ne(1) n0 nopub n(4) x(1) by (cases "m = n") (auto simp: domIff)
  show "msgid_ok m \<and> (\<exists>b. ?r (received_key m) = Some b \<and> in_record m q b)" if "pend m = Some q" for m q
    using D(3) [OF that] D(7) [of m] ne(2) that by auto
  show "strncmp_eq k PERSISTENCE_COMMAND_KEY \<or> strncmp_eq k PERSISTENCE_QUEUE_KEY \<or> (\<exists>n\<in>dom ?infl. k = sent_key n) \<or>
      (\<exists>n\<in>dom pend. k = received_key n) \<or>
      (\<exists>m dup. msgid_ok m \<and> m \<in> dom ?infl \<and> k = pubrel_key m \<and> ?r k = Some (pubrel_record dup m))" if "k \<in> dom ?r" for k
  proof (cases "k = sent_key n")
    case False
    then have "?r k = r k" "k \<in> dom r" using that by auto
    with D(4) [of k] show ?thesis by auto
  qed simp
qed

lemma saved_pubrel:
  assumes S: "saved infl pend r" and x: "infl n = Some (s, ret, p)" "s \<noteq> AwaitPuback"
  shows "saved (infl(n \<mapsto> (AwaitPubcomp, ret, p))) pend (r(pubrel_key n \<mapsto> pubrel_record dup n))" (is "saved ?infl pend ?r")
proof (rule savedI)
  note D = savedD [OF S]
  have n: "msgid_ok n" "0 \<le> n" using D(1) [OF x(1)] by (simp_all add: msgid_ok_def)
  have ne: "sent_key m \<noteq> pubrel_key n" "received_key m \<noteq> pubrel_key n" "pubrel_key m = pubrel_key n \<longleftrightarrow> m = n" if "0 \<le> m" for m
    using keys_inj [OF that n(2)] keys_inj(9) [OF n(2) that] by simp_all
  show "msgid_ok m \<and> (\<exists>b. ?r (sent_key m) = Some b \<and> out_record m y b)" if "?infl m = Some y" for m y
    using that D(1) [of m y] D(1) [OF x(1)] D(6) [of m] ne(1) n x(2) by (cases "m = n") (auto simp: out_record_def)
  show "fst y = AwaitPubcomp \<longleftrightarrow> pubrel_key m \<in> dom ?r" if "?infl m = Some y" for m y
    using that D(2) [of m y] D(6) [of m] ne(3) by (cases "m = n") auto
  show "msgid_ok m \<and> (\<exists>b. ?r (received_key m) = Some b \<and> in_record m q b)" if "pend m = Some q" for m q
    using D(3) [OF that] D(7) [of m] ne(2) that by auto
  show "strncmp_eq k PERSISTENCE_COMMAND_KEY \<or> strncmp_eq k PERSISTENCE_QUEUE_KEY \<or> (\<exists>n\<in>dom ?infl. k = sent_key n) \<or>
      (\<exists>n\<in>dom pend. k = received_key n) \<or>
      (\<exists>m dup. msgid_ok m \<and> m \<in> dom ?infl \<and> k = pubrel_key m \<and> ?r k = Some (pubrel_record dup m))" if "k \<in> dom ?r" for k
  proof (cases "k = pubrel_key n")
    case True
    with n(1) show ?thesis by auto
  next
    case False
    then have "?r k = r k" "k \<in> dom r" using that by auto
    with D(4) [of k] show ?thesis by auto
  qed
qed

lemma saved_received:
  assumes S: "saved infl pend r" and n: "msgid_ok n" "in_record n p b"
  shows "saved infl (pend(n \<mapsto> p)) (r(received_key n \<mapsto> b))" (is "saved infl ?pend ?r")
proof (rule savedI)
  note D = savedD [OF S]
  have n0: "0 \<le> n" using n(1) by (simp add: msgid_ok_def)
  have ne: "sent_key m \<noteq> received_key n" "received_key m = received_key n \<longleftrightarrow> m = n" "pubrel_key m \<noteq> received_key n" if "0 \<le> m" for m
    using keys_inj [OF that n0] by simp_all
  show "msgid_ok m \<and> (\<exists>b. ?r (sent_key m) = Some b \<and> out_record m y b)" if "infl m = Some y" for m y
    using that D(1) [of m y] D(6) [of m] ne(1) by auto
  show "fst y = AwaitPubcomp \<longleftrightarrow> pubrel_key m \<in> dom ?r" if "infl m = Some y" for m y
    using that D(2) [of m y] D(6) [of m] ne(3) by auto
  show "msgid_ok m \<and> (\<exists>b. ?r (received_key m) = Some b \<and> in_record m q b)" if "?pend m = Some q" for m q
    using that D(3) [of m q] D(7) [of m] ne(2) n by (cases "m = n") auto
  show "strncmp_eq k PERSISTENCE_COMMAND_KEY \<or> strncmp_eq k PERSISTENCE_QUEUE_KEY \<or> (\<exists>n\<in>dom infl. k = sent_key n) \<or>
      (\<exists>n\<in>dom ?pend. k = received_key n) \<or>
      (\<exists>m dup. msgid_ok m \<and> m \<in> dom infl \<and> k = pubrel_key m \<and> ?r k = Some (pubrel_record dup m))" if "k \<in> dom ?r" for k
  proof (cases "k = received_key n")
    case False
    then have "?r k = r k" "k \<in> dom r" using that by auto
    with D(4) [of k] show ?thesis by auto
  qed simp
qed

text \<open>Forgetting: with the message go its record and, if there is one, that of its PUBREL.\<close>

lemma saved_drop_sent:
  assumes S: "saved infl pend r" and n: "msgid_ok n" and D2: "\<And>k. r' k = (if k = sent_key n \<or> k = pubrel_key n then None else r k)"
  shows "saved (infl(n := None)) pend r'" (is "saved ?infl pend r'")
proof (rule savedI)
  note D = savedD [OF S]
  have n0: "0 \<le> n" using n by (simp add: msgid_ok_def)
  have ne: "sent_key m = sent_key n \<longleftrightarrow> m = n" "sent_key m \<noteq> pubrel_key n" "pubrel_key m = pubrel_key n \<longleftrightarrow> m = n"
    "pubrel_key m \<noteq> sent_key n" "received_key m \<noteq> sent_key n" "received_key m \<noteq> pubrel_key n" if "0 \<le> m" for m
    using keys_inj [OF that n0] keys_inj [OF n0 that] by auto
  show "msgid_ok m \<and> (\<exists>b. r' (sent_key m) = Some b \<and> out_record m y b)" if "?infl m = Some y" for m y
    using that D(1) [of m y] D(6) [of m] ne(1,2) by (auto simp: D2 split: if_splits)
  show "fst y = AwaitPubcomp \<longleftrightarrow> pubrel_key m \<in> dom r'" if "?infl m = Some y" for m y
  proof -
    from that have m: "infl m = Some y" "m \<noteq> n" by (auto split: if_splits)
    with D(6) [of m] ne(3,4) [of m] have "r' (pubrel_key m) = r (pubrel_key m)" by (simp add: D2 domI)
    with D(2) [OF m(1)] show ?thesis by (simp add: domIff)
  qed
  show "msgid_ok m \<and> (\<exists>b. r' (received_key m) = Some b \<and> in_record m q b)" if "pend m = Some q" for m q
    using D(3) [OF that] D(7) [of m] ne(5,6) that by (auto simp: D2)
  show "strncmp_eq k PERSISTENCE_COMMAND_KEY \<or> strncmp_eq k PERSISTENCE_QUEUE_KEY \<or> (\<exists>n\<in>dom ?infl. k = sent_key n) \<or>
      (\<exists>n\<in>dom pend. k = received_key n) \<or>
      (\<exists>m dup. msgid_ok m \<and> m \<in> dom ?infl \<and> k = pubrel_key m \<and> r' k = Some (pubrel_record dup m))" if "k \<in> dom r'" for k
  proof -
    from that have k: "r' k = r k" "k \<in> dom r" "k \<noteq> sent_key n" "k \<noteq> pubrel_key n" by (auto simp: D2 domIff split: if_splits)
    with D(4) [OF k(2)] show ?thesis by auto
  qed
qed

lemma saved_drop_received:
  assumes S: "saved infl pend r" and n: "msgid_ok n"
  shows "saved infl (pend(n := None)) (r(received_key n := None))" (is "saved infl ?pend ?r")
proof (rule savedI)
  note D = savedD [OF S]
  have n0: "0 \<le> n" using n by (simp add: msgid_ok_def)
  have ne: "sent_key m \<noteq> received_key n" "received_key m = received_key n \<longleftrightarrow> m = n" "pubrel_key m \<noteq> received_key n" if "0 \<le> m" for m
    using keys_inj [OF that n0] by simp_all
  show "msgid_ok m \<and> (\<exists>b. ?r (sent_key m) = Some b \<and> out_record m y b)" if "infl m = Some y" for m y
    using that D(1) [of m y] D(6) [of m] ne(1) by auto
  show "fst y = AwaitPubcomp \<longleftrightarrow> pubrel_key m \<in> dom ?r" if "infl m = Some y" for m y
    using that D(2) [of m y] D(6) [of m] ne(3) by (auto simp: domIff)
  show "msgid_ok m \<and> (\<exists>b. ?r (received_key m) = Some b \<and> in_record m q b)" if "?pend m = Some q" for m q
    using that D(3) [of m q] D(7) [of m] ne(2) by (auto split: if_splits)
  show "strncmp_eq k PERSISTENCE_COMMAND_KEY \<or> strncmp_eq k PERSISTENCE_QUEUE_KEY \<or> (\<exists>n\<in>dom infl. k = sent_key n) \<or>
      (\<exists>n\<in>dom ?pend. k = received_key n) \<or>
      (\<exists>m dup. msgid_ok m \<and> m \<in> dom infl \<and> k = pubrel_key m \<and> ?r k = Some (pubrel_record dup m))" if "k \<in> dom ?r" for k
  proof -
    from that have k: "?r k = r k" "k \<in> dom r" "k \<noteq> received_key n" by (auto split: if_splits)
    with D(4) [OF k(2)] show ?thesis by auto
  qed
qed

section \<open>What the protocol writes and deletes\<close>

text \<open>
  The calls of the protocol: \<open>MQTTPacket_sends\<close> writes a PUBLISH before it sends it (again, with the DUP
  flag, when it is retried), \<open>MQTTPacket_send\<close> a PUBREL, and \<open>MQTTPacket_Factory\<close> a received PUBLISH of
  QoS 2; the handlers of PUBACK, PUBCOMP and PUBREL delete.
\<close>

datatype store_event =
    KeepSent int int int Publications int
  | KeepPubrel int int
  | KeepReceived int int Publications int
  | DropSent int int
  | DropReceived int

definition store_step :: "'w pers_ops \<Rightarrow> int \<Rightarrow> nat \<Rightarrow> 'w pstate \<Rightarrow> store_event \<Rightarrow> (int \<times> 'w pstate) option" where
  "store_step pe sock i st ev = (case ev of
     KeepSent dup qos retained p n \<Rightarrow>
       MQTTPersistence_put pe sock
         (mk_header PUBLISH dup qos retained # MQTTPacket_encode (length (publish_bytes (pbs_topic p) qos n (pbs_payload p))))
         (publish_buffers (pbs_topic p) qos n (pbs_payload p)) PUBLISH n 0 st
   | KeepPubrel dup n \<Rightarrow> MQTTPersistence_put pe sock (mk_header PUBREL dup 1 0 # MQTTPacket_encode 2) [int_bytes n] PUBREL n 0 st
   | KeepReceived dup retained p n \<Rightarrow>
       MQTTPersistence_put pe sock
         (mk_header PUBLISH dup 2 retained # MQTTPacket_encode (length (publish_bytes (pbs_topic p) 2 n (pbs_payload p))))
         [publish_bytes (pbs_topic p) 2 n (pbs_payload p)] PUBLISH n 1 st
   | DropSent qos n \<Rightarrow> map_option (\<lambda>(rc, w). (rc, st\<lparr>ps_world := w\<rparr>))
       (MQTTPersistence_remove pe (ps_world st) (get_client i st) PERSISTENCE_PUBLISH_SENT qos n)
   | DropReceived n \<Rightarrow> map_option (\<lambda>(rc, w). (rc, st\<lparr>ps_world := w\<rparr>))
       (MQTTPersistence_remove pe (ps_world st) (get_client i st) PERSISTENCE_PUBLISH_RECEIVED 2 n))"

type_synonym session = "inflight \<times> (int \<rightharpoonup> Publish)"

fun store_spec :: "session \<Rightarrow> store_event \<Rightarrow> session" where
  "store_spec (infl, pend) (KeepSent dup qos retained p n) =
     (infl(n \<mapsto> (if qos = 1 then AwaitPuback else AwaitPubrec, retained, p)), pend)"
| "store_spec (infl, pend) (KeepPubrel dup n) = (infl(n \<mapsto> (AwaitPubcomp, snd (the (infl n)))), pend)"
| "store_spec (infl, pend) (KeepReceived dup retained p n) =
     (infl, pend(n \<mapsto> \<lparr>pub_header = mk_header 0 0 2 retained, pub_topic = Some (pbs_topic p), pub_topiclen = pbs_topiclen p,
       pub_msgId = n, pub_payload = pbs_payload p, pub_payloadlen = pbs_payloadlen p\<rparr>))"
| "store_spec (infl, pend) (DropSent qos n) = (infl(n := None), pend)"
| "store_spec (infl, pend) (DropReceived n) = (infl, pend(n := None))"

text \<open>The events that fit a session: a message is stored again only as it was.\<close>

fun event_fits :: "session \<Rightarrow> store_event \<Rightarrow> bool" where
  "event_fits (infl, pend) (KeepSent dup qos retained p n) \<longleftrightarrow>
     msgid_ok n \<and> sound_publication p \<and> (retained = 0 \<or> retained = 1) \<and> (qos = 1 \<or> qos = 2) \<and>
     (infl n = None \<or> infl n = Some (if qos = 1 then AwaitPuback else AwaitPubrec, retained, p))"
| "event_fits (infl, pend) (KeepPubrel dup n) \<longleftrightarrow> at_stage infl n AwaitPubrec \<or> at_stage infl n AwaitPubcomp"
| "event_fits (infl, pend) (KeepReceived dup retained p n) \<longleftrightarrow> msgid_ok n \<and> sound_publication p \<and> (retained = 0 \<or> retained = 1)"
| "event_fits (infl, pend) (DropSent qos n) \<longleftrightarrow> at_stage infl n AwaitPuback \<and> qos = 1 \<or> at_stage infl n AwaitPubcomp \<and> qos = 2"
| "event_fits (infl, pend) (DropReceived n) \<longleftrightarrow> msgid_ok n"

fun events_fit :: "session \<Rightarrow> store_event list \<Rightarrow> bool" where
  "events_fit s [] \<longleftrightarrow> True"
| "events_fit s (ev # evs) \<longleftrightarrow> event_fits s ev \<and> events_fit (store_spec s ev) evs"

text \<open>The client whose messages are stored.\<close>

definition stores_at :: "int \<Rightarrow> nat \<Rightarrow> bytes \<Rightarrow> 'w pstate \<Rightarrow> bool" where
  "stores_at sock i h st \<longleftrightarrow> client_at st sock i \<and> cl_persistence (get_client i st) \<and> cl_phandle (get_client i st) = h"

lemma stores_at_move:
  "stores_at sock i h st \<Longrightarrow> stores_at sock i h (st\<lparr>ps_clients := (ps_clients st)\<lparr>cursor := Some i\<rparr>, ps_world := w\<rparr>)"
  "stores_at sock i h st \<Longrightarrow> stores_at sock i h (st\<lparr>ps_world := w\<rparr>)"
  by (auto simp: stores_at_def client_at_def clist_find_def clientSocketCompare_def)

context key_store
begin

lemma put_stores:
  assumes "stores_at sock i h st" "ready (ps_world st) h" "put_key htype n scr = Some key" "plain_key key"
  shows "\<exists>st'. MQTTPersistence_put pe sock buf0 bufs htype n scr st = Some (0, st') \<and> stores_at sock i h st' \<and>
    ready (ps_world st') h \<and> records (ps_world st') h = (records (ps_world st) h)(key \<mapsto> buf0 @ concat bufs)"
proof -
  from store_put [OF assms(2,4), of "buf0 # bufs"] obtain w' where
    "pe_pput pe (ps_world st) h key (buf0 # bufs) = (0, w')" "ready w' h" "records w' h = (records (ps_world st) h)(key \<mapsto> concat (buf0 # bufs))"
    by blast
  with assms(1,3) stores_at_move(1) [OF assms(1), of w'] find_client_at [of st sock i] show ?thesis
    by (simp add: MQTTPersistence_put_def stores_at_def)
qed

lemma remove_stores:
  assumes "stores_at sock i h st" "ready (ps_world st) h" "msgid_ok n"
  shows "type = PERSISTENCE_PUBLISH_SENT \<and> qos \<noteq> 2 \<or> type = PERSISTENCE_PUBLISH_RECEIVED \<Longrightarrow>
      \<exists>w. MQTTPersistence_remove pe (ps_world st) (get_client i st) type qos n = Some (0, w) \<and> ready w h \<and>
        records w h = (records (ps_world st) h)(type @ sprintf_d n := None)"
    and "\<exists>w. MQTTPersistence_remove pe (ps_world st) (get_client i st) PERSISTENCE_PUBLISH_SENT 2 n = Some (0, w) \<and> ready w h \<and>
        records w h = (records (ps_world st) h)(sent_key n := None, pubrel_key n := None)"
proof -
  have n: "0 \<le> n" "n < 65536" using assms(3) by (simp_all add: msgid_ok_def)
  have c: "cl_persistence (get_client i st)" "cl_phandle (get_client i st) = h" using assms(1) by (simp_all add: stores_at_def)
  show "\<exists>w. MQTTPersistence_remove pe (ps_world st) (get_client i st) type qos n = Some (0, w) \<and> ready w h \<and>
        records w h = (records (ps_world st) h)(type @ sprintf_d n := None)"
    if t: "type = PERSISTENCE_PUBLISH_SENT \<and> qos \<noteq> 2 \<or> type = PERSISTENCE_PUBLISH_RECEIVED"
  proof -
    have "plain_key (type @ sprintf_d n)" "length type \<le> 3" "\<not> (type = PERSISTENCE_PUBLISH_SENT \<and> qos = 2)"
      using t plain_keys [OF n(1)] by (auto simp: key_defs)
    with store_remove [OF assms(2), of "type @ sprintf_d n"] sprintf_key_ok [OF n, of type] c show ?thesis
      by (auto simp: MQTTPersistence_remove_def)
  qed
  obtain w1 where w1: "pe_premove pe (ps_world st) h (sent_key n) = (0, w1)" "ready w1 h" "records w1 h = (records (ps_world st) h)(sent_key n := None)"
    using store_remove [OF assms(2) plain_keys(1) [OF n(1)]] by blast
  obtain w2 where "pe_premove pe w1 h (pubrel_key n) = (0, w2)" "ready w2 h" "records w2 h = (records w1 h)(pubrel_key n := None)"
    using store_remove [OF w1(2) plain_keys(2) [OF n(1)]] by blast
  with w1 c sprintf_key_ok [OF n, of PERSISTENCE_PUBLISH_SENT] sprintf_key_ok [OF n, of PERSISTENCE_PUBREL]
  show "\<exists>w. MQTTPersistence_remove pe (ps_world st) (get_client i st) PERSISTENCE_PUBLISH_SENT 2 n = Some (0, w) \<and> ready w h \<and>
        records w h = (records (ps_world st) h)(sent_key n := None, pubrel_key n := None)"
    by (simp add: MQTTPersistence_remove_def sent_key_def pubrel_key_def PERSISTENCE_PUBLISH_SENT_def PERSISTENCE_PUBREL_def)
qed

lemma event_stored:
  assumes at: "stores_at sock i h st" "ready (ps_world st) h" and S: "saved infl pend (records (ps_world st) h)" and ev: "event_fits (infl, pend) ev"
  shows "\<exists>st'. store_step pe sock i st ev = Some (0, st') \<and> stores_at sock i h st' \<and> ready (ps_world st') h \<and>
    saved (fst (store_spec (infl, pend) ev)) (snd (store_spec (infl, pend) ev)) (records (ps_world st') h)"
proof (cases ev)
  case (KeepSent dup qos ret p n)
  with ev have n: "msgid_ok n" "sound_publication p" "ret = 0 \<or> ret = 1" "qos = 1 \<or> qos = 2" "0 \<le> n" "n < 65536"
    and x: "infl n = None \<or> infl n = Some (if qos = 1 then AwaitPuback else AwaitPubrec, ret, p)" by (simp_all add: msgid_ok_def)
  have key: "put_key PUBLISH n 0 = Some (sent_key n)" using sprintf_key_ok [OF n(5,6), of PERSISTENCE_PUBLISH_SENT]
    by (simp add: put_key_def sent_key_def PERSISTENCE_PUBLISH_SENT_def)
  from put_stores [OF at key plain_keys(1) [OF n(5)]] saved_sent [OF S n(1-4) refl x, of dup] show ?thesis
    by (fastforce simp: store_step_def KeepSent concat_publish_buffers publish_record_def)
next
  case (KeepPubrel dup n)
  with ev obtain s ret p where x: "infl n = Some (s, ret, p)" "s \<noteq> AwaitPuback" by (auto simp: at_stage_def split: option.splits)
  from savedD(1) [OF S x(1)] have n: "0 \<le> n" "n < 65536" by (simp_all add: msgid_ok_def)
  have key: "put_key PUBREL n 0 = Some (pubrel_key n)" using sprintf_key_ok [OF n, of PERSISTENCE_PUBREL]
    by (simp add: put_key_def pubrel_key_def PERSISTENCE_PUBREL_def)
  from put_stores [OF at key plain_keys(2) [OF n(1)]] saved_pubrel [OF S x, of dup] x(1) show ?thesis
    by (fastforce simp: store_step_def KeepPubrel pubrel_record_def)
next
  case (KeepReceived dup ret p n)
  with ev have n: "msgid_ok n" "sound_publication p" "ret = 0 \<or> ret = 1" "0 \<le> n" "n < 65536" by (simp_all add: msgid_ok_def)
  have key: "put_key PUBLISH n 1 = Some (received_key n)" using sprintf_key_ok [OF n(4,5), of PERSISTENCE_PUBLISH_RECEIVED]
    by (simp add: put_key_def received_key_def PERSISTENCE_PUBLISH_RECEIVED_def)
  have rec: "in_record n \<lparr>pub_header = mk_header 0 0 2 ret, pub_topic = Some (pbs_topic p), pub_topiclen = pbs_topiclen p,
       pub_msgId = n, pub_payload = pbs_payload p, pub_payloadlen = pbs_payloadlen p\<rparr> (publish_record dup 2 ret (pbs_topic p) n (pbs_payload p))"
    unfolding in_record_def using n(2,3) by blast
  from put_stores [OF at key plain_keys(3) [OF n(4)]] saved_received [OF S n(1) rec] show ?thesis
    by (fastforce simp: store_step_def KeepReceived publish_record_def)
next
  case (DropSent qos n)
  with ev obtain s x where x: "infl n = Some (s, x)" "s = AwaitPuback \<and> qos = 1 \<or> s = AwaitPubcomp \<and> qos = 2"
    by (auto simp: at_stage_def split: option.splits)
  then have n: "msgid_ok n" using savedD(1) [OF S] by blast
  have "\<exists>w. MQTTPersistence_remove pe (ps_world st) (get_client i st) PERSISTENCE_PUBLISH_SENT qos n = Some (0, w) \<and> ready w h \<and>
      (\<forall>k. records w h k = (if k = sent_key n \<or> k = pubrel_key n then None else records (ps_world st) h k))"
  proof (cases "qos = 2")
    case False
    with savedD(2) [OF S x(1)] x(2) have "records (ps_world st) h (pubrel_key n) = None" by (auto simp: domIff)
    with remove_stores(1) [OF at n, of PERSISTENCE_PUBLISH_SENT qos] False show ?thesis by (auto simp: sent_key_def)
  qed (use remove_stores(2) [OF at n] in auto)
  with saved_drop_sent [OF S n] stores_at_move(2) [OF at(1)] show ?thesis by (auto simp: store_step_def DropSent)
next
  case (DropReceived n)
  with ev have n: "msgid_ok n" by simp
  from remove_stores(1) [OF at n, of PERSISTENCE_PUBLISH_RECEIVED 2] saved_drop_received [OF S n] stores_at_move(2) [OF at(1)]
  show ?thesis by (auto simp: store_step_def DropReceived received_key_def)
qed

lemma events_stored:
  assumes "stores_at sock i h st" "ready (ps_world st) h" "saved (fst s) (snd s) (records (ps_world st) h)" "events_fit s evs"
  shows "\<exists>st'. run_steps (store_step pe sock i) st evs = Some (replicate (length evs) 0, st') \<and> stores_at sock i h st' \<and> ready (ps_world st') h \<and>
    saved (fst (foldl store_spec s evs)) (snd (foldl store_spec s evs)) (records (ps_world st') h)"
  using assms
proof (induction evs arbitrary: st s)
  case (Cons ev evs)
  from Cons.prems(4) have fit: "event_fits (fst s, snd s) ev" "events_fit (store_spec s ev) evs" by simp_all
  obtain st1 where "store_step pe sock i st ev = Some (0, st1)" "stores_at sock i h st1" "ready (ps_world st1) h"
    "saved (fst (store_spec s ev)) (snd (store_spec s ev)) (records (ps_world st1) h)"
    using event_stored [OF Cons.prems(1-3) fit(1)] by auto
  with Cons.IH [of st1 "store_spec s ev"] fit(2) show ?case by auto
qed simp

end

section \<open>Example\<close>

definition demo_fs :: "(path \<times> node) list \<Rightarrow> filesys" where
  "demo_fs nodes = \<lparr>fs_nodes = ([[99]], Dir) # nodes, fs_cwd = [], fs_plan = []\<rparr>"

definition demo_stored :: "filesys \<Rightarrow> filesys pstate" where
  "demo_stored fs = \<lparr>ps_clients = \<lparr>elems = [(demo_client 0 [])\<lparr>cl_persistence := True, cl_phandle := [99]\<rparr>], cursor = Some 0\<rparr>,
     ps_msgs = Map.empty, ps_pubs = Map.empty, ps_publications = clist_empty, ps_pending_writes = clist_empty,
     ps_msgs_received = 0, ps_msgs_sent = 0, ps_world = fs\<rparr>"

definition demo_pub :: Publications where
  "demo_pub = \<lparr>pbs_topic = [0x61], pbs_topiclen = 1, pbs_payload = [1, 2], pbs_payloadlen = 2, pbs_refcount = 1\<rparr>"

definition demo_events :: "store_event list" where
  "demo_events = [KeepSent 0 2 0 demo_pub 7, KeepSent 0 1 1 demo_pub 8, KeepPubrel 0 7, KeepReceived 0 0 demo_pub 3, DropSent 1 8]"

definition demo_mem :: "(addr \<times> addr \<times> nat) list" where
  "demo_mem = [(10, 20, 0), (11, 21, 0), (12, 22, 0), (13, 23, 0)]"

definition demo_nodes :: "(path \<times> node) list" where
  "demo_nodes = [([[99], record_name (sent_key 7)], Reg (publish_record 0 2 0 [0x61] 7 [1, 2])),
     ([[99], record_name (pubrel_key 9)], Reg (pubrel_record 0 9))]"

lemma demo_pub_sound: "sound_publication demo_pub"
  by (simp add: sound_publication_def demo_pub_def c_string_def)

lemma demo_events_fit: "events_fit (Map.empty, Map.empty) demo_events"
  using demo_pub_sound by (simp add: demo_events_def msgid_ok_def at_stage_def)

lemma demo_fs_empty: "store_ready (demo_fs []) [99]" "file_records (demo_fs []) [99] = Map.empty"
  by (auto simp: store_ready_def demo_fs_def node_at_def resolve_def file_records_def fun_eq_iff)

lemma demo_stores: "stores_at 5 0 [99] (demo_stored fs)"
  unfolding stores_at_def by (intro conjI client_atI) (simp_all add: demo_stored_def demo_client_def)

lemma demo_restarting: "card keys \<le> 4 \<Longrightarrow> restarting [99] 0 keys demo_mem (demo_stored fs)"
  by (simp add: restarting_def demo_stored_def demo_mem_def demo_client_def pubs_ok_def clist_empty_def cursor_in_def)

lemma demo_keys: "sent_key 7 \<noteq> pubrel_key 9" "plain_key (sent_key 7)" "plain_key (pubrel_key 9)" "resolve (demo_fs nodes) [99] = [[99]]"
  using keys_inj(4) [of 7 9] plain_keys by (simp_all add: resolve_def demo_fs_def)

lemma demo_fs_records:
  "file_records (demo_fs demo_nodes) [99] = [sent_key 7 \<mapsto> publish_record 0 2 0 [0x61] 7 [1, 2], pubrel_key 9 \<mapsto> pubrel_record 0 9]"
  using demo_keys(1) unfolding file_records_def demo_keys(4) by (auto simp: node_at_def demo_fs_def demo_nodes_def fun_eq_iff)

lemma demo_fs_ready: "store_ready (demo_fs demo_nodes) [99]"
  using demo_keys(1-3) unfolding store_ready_def demo_keys(4)
  by (auto simp: node_at_def demo_fs_def demo_nodes_def le_Suc_eq split: if_splits)

lemma demo_persisted:
  "persisted [7 \<mapsto> (AwaitPubrec, 0, demo_pub)] Map.empty (file_records (demo_fs demo_nodes) [99])"
proof -
  have "msgid_ok 7" "msgid_ok 9" by (simp_all add: msgid_ok_def)
  with demo_pub_sound demo_keys(1) keys_inj(2) [of 7 9] keys_inj(4) [of 7 7] show ?thesis
    unfolding demo_fs_records persisted_def by (auto simp: out_record_def demo_pub_def split: if_splits)
qed

lemma demo_run_nodes:
  "map_option (\<lambda>(rs, st). length (fs_nodes (ps_world st)))
     (run_steps (store_step (file_ops []) 5 0) (demo_stored (demo_fs [])) demo_events) = Some 4"
  by code_simp

section \<open>Properties\<close>

text \<open>
  C14. A restart with the default persistence: from the records of the messages in flight and of the
  messages received, \<open>MQTTPersistence_restore\<close> returns 0 and brings back exactly those messages, with
  their ids, topics, payloads, QoS and retained flags, each at the stage its exchange had reached; the
  outbound messages are in the order of their ids, starting after the greatest gap. Only the records of
  PUBRELs whose PUBLISH is gone are deleted.
\<close>

theorem restart_resumes:
  assumes "persisted infl pend (file_records (ps_world st) h)" and "store_ready (ps_world st) h"
    and "restarting h i (dom (file_records (ps_world st) h)) mem st"
  shows "\<exists>st'. MQTTPersistence_restore po (file_ops dataDir) i mem st = Some (0, st') \<and> resumed infl pend i st' \<and>
    store_ready (ps_world st') h \<and>
    file_records (ps_world st') h = (file_records (ps_world st) h) |` {k. \<not> orphan infl k}"
  using assms by (rule files.restore_resumes)

theorem restart_resumes_witness:
  "\<forall>po. \<exists>st'. MQTTPersistence_restore po (file_ops []) 0 demo_mem (demo_stored (demo_fs demo_nodes)) = Some (0, st') \<and>
     resumed [7 \<mapsto> (AwaitPubrec, 0, demo_pub)] Map.empty 0 st' \<and>
     file_records (ps_world st') [99] = [sent_key 7 \<mapsto> publish_record 0 2 0 [0x61] 7 [1, 2]]"
proof
  fix po
  have w: "ps_world (demo_stored fs) = fs" for fs by (simp add: demo_stored_def)
  have "card (dom (file_records (demo_fs demo_nodes) [99])) \<le> 4"
    using file_records_card [OF demo_fs_ready] by (simp add: demo_fs_def demo_nodes_def)
  note start = demo_restarting [OF this, of "demo_fs demo_nodes"]
  have "orphan [7 \<mapsto> (AwaitPubrec, 0, demo_pub)] (pubrel_key 9)" "\<not> orphan [7 \<mapsto> (AwaitPubrec, 0, demo_pub)] (sent_key 7)"
    using not_orphan(1) [of 7] by (auto simp: orphan_pubrel msgid_ok_def)
  then have "file_records (demo_fs demo_nodes) [99] |` {k. \<not> orphan [7 \<mapsto> (AwaitPubrec, 0, demo_pub)] k} =
      [sent_key 7 \<mapsto> publish_record 0 2 0 [0x61] 7 [1, 2]]"
    unfolding demo_fs_records by (auto simp: fun_eq_iff restrict_map_def)
  with restart_resumes [of "[7 \<mapsto> (AwaitPubrec, 0, demo_pub)]" Map.empty "demo_stored (demo_fs demo_nodes)" "[99]" 0 demo_mem po "[]", unfolded w,
      OF demo_persisted demo_fs_ready start]
  show "\<exists>st'. MQTTPersistence_restore po (file_ops []) 0 demo_mem (demo_stored (demo_fs demo_nodes)) = Some (0, st') \<and>
     resumed [7 \<mapsto> (AwaitPubrec, 0, demo_pub)] Map.empty 0 st' \<and>
     file_records (ps_world st') [99] = [sent_key 7 \<mapsto> publish_record 0 2 0 [0x61] 7 [1, 2]]" by auto
qed

text \<open>
  C3. The session survives: from an empty directory, whatever messages are stored, released, received and
  deleted by \<open>MQTTPersistence_put\<close> and \<open>MQTTPersistence_remove\<close> in the course of their exchanges, all of
  it succeeds, and a client that starts on the files left at any time gets the messages then in flight,
  at their stages, and the messages received and not yet released.
\<close>

theorem session_survives_restart:
  assumes "stores_at sock i h st" and "store_ready (ps_world st) h" and "file_records (ps_world st) h = Map.empty"
    and "events_fit (Map.empty, Map.empty) evs"
  shows "\<exists>st1. run_steps (store_step (file_ops dataDir) sock i) st evs = Some (replicate (length evs) 0, st1) \<and>
    (\<forall>po j mem st2. ps_world st2 = ps_world st1 \<and> restarting h j (dom (file_records (ps_world st1) h)) mem st2 \<longrightarrow>
       (\<exists>st3. MQTTPersistence_restore po (file_ops dataDir) j mem st2 = Some (0, st3) \<and>
          (case foldl store_spec (Map.empty, Map.empty) evs of (infl, pend) \<Rightarrow> resumed infl pend j st3)))"
proof -
  let ?s = "foldl store_spec (Map.empty, Map.empty) evs"
  have "saved (fst (Map.empty, Map.empty)) (snd (Map.empty, Map.empty)) (file_records (ps_world st) h)"
    using saved_empty assms(3) by simp
  from files.events_stored [OF assms(1,2) this assms(4)] obtain st1 where
    st1: "run_steps (store_step (file_ops dataDir) sock i) st evs = Some (replicate (length evs) 0, st1)"
      "store_ready (ps_world st1) h" "saved (fst ?s) (snd ?s) (file_records (ps_world st1) h)" by blast
  moreover have "\<exists>st3. MQTTPersistence_restore po (file_ops dataDir) j mem st2 = Some (0, st3) \<and> resumed (fst ?s) (snd ?s) j st3"
    if "ps_world st2 = ps_world st1" "restarting h j (dom (file_records (ps_world st1) h)) mem st2" for po j mem st2
    using files.restore_resumes [of "fst ?s" "snd ?s" st2 h j mem po dataDir] st1(2,3) that by (auto simp: saved_def)
  ultimately show ?thesis by (auto simp: split_beta)
qed

theorem session_survives_restart_witness:
  "\<forall>po. \<exists>st1 st3. run_steps (store_step (file_ops []) 5 0) (demo_stored (demo_fs [])) demo_events = Some ([0, 0, 0, 0, 0], st1) \<and>
     MQTTPersistence_restore po (file_ops []) 0 demo_mem (demo_stored (ps_world st1)) = Some (0, st3) \<and>
     resumed [7 \<mapsto> (AwaitPubcomp, 0, demo_pub)] [3 \<mapsto> \<lparr>pub_header = mk_header 0 0 2 0, pub_topic = Some [0x61], pub_topiclen = 1,
       pub_msgId = 3, pub_payload = [1, 2], pub_payloadlen = 2\<rparr>] 0 st3"
proof
  fix po :: "filesys proto_ops"
  have w: "ps_world (demo_stored fs) = fs" for fs by (simp add: demo_stored_def)
  from session_survives_restart [OF demo_stores, of "demo_fs []" demo_events "[]"] demo_fs_empty demo_events_fit
  obtain st1 where st1: "run_steps (store_step (file_ops []) 5 0) (demo_stored (demo_fs [])) demo_events = Some (replicate (length demo_events) 0, st1)"
    and st3: "\<forall>po j mem st2. ps_world st2 = ps_world st1 \<and> restarting [99] j (dom (file_records (ps_world st1) [99])) mem st2 \<longrightarrow>
       (\<exists>st3. MQTTPersistence_restore po (file_ops []) j mem st2 = Some (0, st3) \<and>
          (case foldl store_spec (Map.empty, Map.empty) demo_events of (infl, pend) \<Rightarrow> resumed infl pend j st3))"
    unfolding w by blast
  have "store_ready (ps_world st1) [99]"
    using files.events_stored [OF demo_stores, of "demo_fs []" "(Map.empty, Map.empty)" demo_events "[]"] demo_fs_empty demo_events_fit saved_empty st1
    unfolding w by auto
  from file_records_card [OF this] demo_run_nodes st1 have "card (dom (file_records (ps_world st1) [99])) \<le> 4" by simp
  from st3 [rule_format, of "demo_stored (ps_world st1)", OF conjI [OF w demo_restarting [OF this]], of po] st1
  show "\<exists>st1 st3. run_steps (store_step (file_ops []) 5 0) (demo_stored (demo_fs [])) demo_events = Some ([0, 0, 0, 0, 0], st1) \<and>
     MQTTPersistence_restore po (file_ops []) 0 demo_mem (demo_stored (ps_world st1)) = Some (0, st3) \<and>
     resumed [7 \<mapsto> (AwaitPubcomp, 0, demo_pub)] [3 \<mapsto> \<lparr>pub_header = mk_header 0 0 2 0, pub_topic = Some [0x61], pub_topiclen = 1,
       pub_msgId = 3, pub_payload = [1, 2], pub_payloadlen = 2\<rparr>] 0 st3"
    by (auto simp: demo_events_def demo_pub_def)
qed

end
