(* ===== verification/MessageQueue.thy ===== *)
theory MessageQueue
  imports Restart
begin

text \<open>
  The queue of messages that wait for the application: the functions of \<open>lib/MQTTClient.c\<close> that fill and
  empty it, and the records of its entries, from which \<open>MQTTPersistence_restoreMessageQueue\<close> rebuilds it.
\<close>

abbreviation (input) MQTTCLIENT_TOPICNAME_TRUNCATED :: int where "MQTTCLIENT_TOPICNAME_TRUNCATED \<equiv> -7"

section \<open>The queue\<close>

text \<open>
  \<open>Protocol_processPublication\<close>. The entry is put in the queue and then numbered and written, which is
  the same by value as writing it first; without persistence its number is what the memory held,
  \<open>seqno0\<close>. The payload of a QoS 2 message is taken over, that of others copied.
\<close>

definition queue_entry :: "Publish \<Rightarrow> 32 word \<Rightarrow> MQTTPersistence_qEntry option" where
  "queue_entry publish seqno0 = do {
     topic \<leftarrow> pub_topic publish;
     payload \<leftarrow> (if hdr_qos (pub_header publish) = 2 then Some (pub_payload publish)
                 else if 0 \<le> pub_payloadlen publish \<and> nat (pub_payloadlen publish) \<le> length (pub_payload publish)
                 then Some (take (nat (pub_payloadlen publish)) (pub_payload publish)) else None);
     let mm = \<lparr>pm_payloadlen = pub_payloadlen publish, pm_payload = payload, pm_qos = int (hdr_qos (pub_header publish)),
       pm_retained = int (hdr_retain (pub_header publish)),
       pm_dup = (if hdr_qos (pub_header publish) = 2 then 0 else int (hdr_dup (pub_header publish))), pm_msgid = pub_msgId publish\<rparr>;
     Some \<lparr>qe_msg = mm, qe_topicName = topic, qe_topicLen = pub_topiclen publish, qe_seqno = seqno0\<rparr>
   }"

definition Protocol_processPublication ::
    "'w pers_ops \<Rightarrow> Publish \<Rightarrow> 32 word \<Rightarrow> Clients \<Rightarrow> 'w \<Rightarrow> (Clients \<times> 'w) option" where
  "Protocol_processPublication pe publish seqno0 client w = do {
     qe \<leftarrow> queue_entry publish seqno0;
     (client, qe, w) \<leftarrow> (if cl_persistence client then do {
           (rc, client, qe, w) \<leftarrow> MQTTPersistence_persistQueueEntry pe client qe w;
           Some (client, qe, w)
         } else Some (client, qe, w));
     Some (client\<lparr>cl_messageQueue := clist_append qe (cl_messageQueue client)\<rparr>, w)
   }"

text \<open>
  \<open>MQTTClient_deliverMessage\<close>: the first entry is handed over and removed, its record deleted. With an
  empty queue the first element would be read through a \<open>NULL\<close> pointer.
\<close>

definition MQTTClient_deliverMessage ::
    "'w pers_ops \<Rightarrow> int \<Rightarrow> Clients \<Rightarrow> 'w \<Rightarrow> (int \<times> bytes \<times> int \<times> MQTTPersistence_message \<times> Clients \<times> 'w) option" where
  "MQTTClient_deliverMessage pe rc c w = (case elems (cl_messageQueue c) of
     [] \<Rightarrow> None
   | qe # _ \<Rightarrow> do {
       let rc = (if int (c_strlen (qe_topicName qe)) \<noteq> qe_topicLen qe then MQTTCLIENT_TOPICNAME_TRUNCATED else rc);
       w \<leftarrow> (if cl_persistence c then map_option snd (MQTTPersistence_unpersistQueueEntry pe c qe w) else Some w);
       Some (rc, qe_topicName qe, qe_topicLen qe, qe_msg qe, c\<lparr>cl_messageQueue := clist_detach_head (cl_messageQueue c)\<rparr>, w)
     })"

definition MQTTClient_emptyMessageQueue :: "Clients \<Rightarrow> Clients" where
  "MQTTClient_emptyMessageQueue client =
     (if elems (cl_messageQueue client) \<noteq> [] then client\<lparr>cl_messageQueue := clist_empty\<rparr> else client)"

section \<open>Records of entries\<close>

definition fits_int :: "int \<Rightarrow> bool" where "fits_int n \<longleftrightarrow> - (2 ^ 31) \<le> n \<and> n < 2 ^ 31"

lemma int32_bytes_digits:
  "int32_bytes n = [word_of_int n, word_of_int (n div 256), word_of_int (n div 65536), word_of_int (n div 16777216)]"
  by (simp add: int32_bytes_def upt_rec)

lemma base256:
  "n mod 256 + n div 256 mod 256 * 256 + n div 65536 mod 256 * 65536 + n div 16777216 mod 256 * 16777216 = n mod 4294967296" for n :: int
proof -
  have d: "n div 256 div 256 = n div 65536" "n div 65536 div 256 = n div 16777216"
    by (simp_all add: zdiv_zmult2_eq [symmetric])
  have "n mod 4294967296 = 256 * (n div 256 mod 16777216) + n mod 256" using zmod_zmult2_eq [of 16777216 n 256] by simp
  moreover have "n div 256 mod 16777216 = 256 * (n div 65536 mod 65536) + n div 256 mod 256"
    using zmod_zmult2_eq [of 65536 "n div 256" 256] d(1) by simp
  moreover have "n div 65536 mod 65536 = 256 * (n div 16777216 mod 256) + n div 65536 mod 256"
    using zmod_zmult2_eq [of 256 "n div 65536" 256] d(2) by simp
  ultimately show ?thesis by linarith
qed

lemma read_int32_bytes:
  assumes "fits_int n"
  shows "read_int32 (int32_bytes n @ rest) = Some (n, rest)"
proof -
  have u: "uint (word_of_int k :: byte) = k mod 256" for k by (simp add: uint_word_of_int_eq take_bit_eq_mod)
  have "(\<Sum>k\<leftarrow>[0..<4]. uint ((int32_bytes n @ rest) ! k) * 2 ^ (8 * k)) =
      n mod 256 + n div 256 mod 256 * 256 + n div 65536 mod 256 * 65536 + n div 16777216 mod 256 * 16777216"
    by (simp add: int32_bytes_digits upt_rec u add.assoc del: uint_word_of_int)
  also have "\<dots> = n mod 4294967296" by (rule base256)
  finally have sum: "(\<Sum>k\<leftarrow>[0..<4]. uint ((int32_bytes n @ rest) ! k) * 2 ^ (8 * k)) = n mod 4294967296" .
  have "(word_of_int (n mod 4294967296) :: 32 word) = word_of_int n" by (simp add: word_of_int_eq_iff take_bit_eq_mod)
  moreover have "sint (word_of_int n :: 32 word) = n"
    using assms by (simp add: fits_int_def signed_of_int signed_take_bit_int_eq_self)
  ultimately show ?thesis unfolding read_int32_def sum by (simp add: int32_bytes_digits)
qed

definition queue_record :: "MQTTPersistence_qEntry \<Rightarrow> bytes" where
  "queue_record qe = (let msg = qe_msg qe in int32_bytes (pm_payloadlen msg) @ pm_payload msg @ int32_bytes (pm_qos msg) @
     int32_bytes (pm_retained msg) @ int32_bytes (pm_dup msg) @ int32_bytes (pm_msgid msg) @
     qe_topicName qe @ [0] @ int32_bytes (qe_topicLen qe))"

definition entry_sound :: "MQTTPersistence_qEntry \<Rightarrow> bool" where
  "entry_sound qe \<longleftrightarrow> (let msg = qe_msg qe in pm_payloadlen msg = int (length (pm_payload msg)) \<and>
     fits_int (pm_qos msg) \<and> fits_int (pm_retained msg) \<and> fits_int (pm_dup msg) \<and> fits_int (pm_msgid msg) \<and>
     c_string (qe_topicName qe) = qe_topicName qe \<and> fits_int (qe_topicLen qe) \<and> length (queue_record qe) < 2 ^ 31)"

lemma length_int32_bytes [simp]: "length (int32_bytes n) = 4"
  by (simp add: int32_bytes_digits)

lemma read_string_zero:
  assumes "c_string t = t"
  shows "read_string (t @ 0 # rest) = Some (t, rest)"
proof -
  have "\<forall>b\<in>set t. b \<noteq> 0" using assms unfolding c_string_def takeWhile_eq_all_conv by blast
  then have "c_string (t @ 0 # rest) = t" unfolding c_string_def by (simp add: takeWhile_append2)
  then show ?thesis by (simp add: read_string_def)
qed

lemma restoreQueueEntry_record:
  assumes "entry_sound qe"
  shows "MQTTPersistence_restoreQueueEntry (queue_record qe) = Some (qe\<lparr>qe_seqno := 0\<rparr>)"
proof -
  obtain msg t tl sn where qe: "qe = \<lparr>qe_msg = msg, qe_topicName = t, qe_topicLen = tl, qe_seqno = sn\<rparr>" by (cases qe)
  have len: "length (pm_payload msg) < 2 ^ 31" using assms by (simp add: entry_sound_def queue_record_def Let_def qe)
  have s: "fits_int (pm_payloadlen msg)" "pm_payloadlen msg = int (length (pm_payload msg))" "fits_int (pm_qos msg)" "fits_int (pm_retained msg)"
    "fits_int (pm_dup msg)" "fits_int (pm_msgid msg)" "c_string t = t" "fits_int tl"
    using assms len by (simp_all add: entry_sound_def Let_def qe fits_int_def)
  have "read_bytes (pm_payloadlen msg) (pm_payload msg @ rest) = Some (pm_payload msg, rest)" for rest
    using s(2) by (simp add: read_bytes_def)
  then show ?thesis
    unfolding MQTTPersistence_restoreQueueEntry_def queue_record_def Let_def qe MQTTPersistence_qEntry.simps append.simps
    using read_int32_bytes [OF s(8), of "[]"]
    by (simp add: read_int32_bytes s(1,3-6) read_string_zero [OF s(7)])
qed

lemma qentry_buffers_record:
  assumes "entry_sound qe"
  shows "\<exists>bufs. qentry_buffers qe = Some bufs \<and> concat bufs = queue_record qe"
  using assms by (auto simp: qentry_buffers_def queue_record_def entry_sound_def Let_def)

section \<open>Keys of entries\<close>

definition queue_key :: "32 word \<Rightarrow> bytes" where
  "queue_key n = PERSISTENCE_QUEUE_KEY @ decimal (unat n)"

lemma sint_small: "unat n < 1000000 \<Longrightarrow> sint n = int (unat n)" for n :: "32 word"
proof -
  assume "unat n < 1000000"
  then have "int (unat n) < 1000000" by linarith
  then have n: "uint n < 1000000" by simp
  have "0 \<le> uint n" by simp
  then have "- (2 ^ 31) \<le> uint n" by (simp add: order.trans [of _ 0])
  then show "sint n = int (unat n)" unfolding sint_uint by (subst signed_take_bit_int_eq_self) (use n in simp_all)
qed

lemma queue_sprintf:
  assumes "unat n < 1000000"
  shows "sprintf_key (PERSISTENCE_MAX_KEY_LENGTH + 1) PERSISTENCE_QUEUE_KEY (sint n) = Some (queue_key n)"
proof -
  have "unat n < 10 ^ Suc 5" using assms by simp
  from decimal_length [OF this] show ?thesis
    by (simp add: sprintf_key_def sprintf_d_def sint_small [OF assms] queue_key_def PERSISTENCE_QUEUE_KEY_def)
qed

lemma queue_key_plain: "plain_key (queue_key n)" "strncmp_eq (queue_key n) PERSISTENCE_QUEUE_KEY"
proof -
  show p: "plain_key (queue_key n)" unfolding queue_key_def using digits_plain [of "int (unat n)" PERSISTENCE_QUEUE_KEY]
    by (simp add: PERSISTENCE_QUEUE_KEY_def sprintf_d_pos)
  show "strncmp_eq (queue_key n) PERSISTENCE_QUEUE_KEY" unfolding strncmp_eq_def plain_c_string [OF p] by (simp add: queue_key_def)
qed

lemma queue_key_atoi: "(word_of_int (c_atoi (drop 2 (queue_key n))) :: 32 word) = n"
  by (simp add: queue_key_def PERSISTENCE_QUEUE_KEY_def c_atoi_decimal)

lemma queue_key_inj [simp]: "queue_key n = queue_key m \<longleftrightarrow> n = m"
  using decimal_inj [of "unat n" "unat m"] by (auto simp: queue_key_def word_unat_eq_iff)

section \<open>Restoring the queue\<close>

text \<open>The records of the entries of a queue.\<close>

definition queue_saved :: "MQTTPersistence_qEntry list \<Rightarrow> (bytes \<Rightarrow> bytes option) \<Rightarrow> bool" where
  "queue_saved q r \<longleftrightarrow> (\<forall>e\<in>set q. entry_sound e \<and> r (queue_key (qe_seqno e)) = Some (queue_record e)) \<and>
     (\<forall>k\<in>dom r. strncmp_eq k PERSISTENCE_QUEUE_KEY \<longrightarrow> (\<exists>e\<in>set q. k = queue_key (qe_seqno e)))"

definition in_order :: "MQTTPersistence_qEntry list \<Rightarrow> bool" where
  "in_order q \<longleftrightarrow> sorted (map qe_seqno q) \<and> distinct (map qe_seqno q)"

lemma in_order_unique:
  assumes "in_order xs" "in_order ys" "set xs = set ys"
  shows "xs = ys"
proof -
  have "map qe_seqno xs = map qe_seqno ys"
    using assms by (intro sorted_distinct_set_unique) (simp_all add: in_order_def)
  moreover have "inj_on qe_seqno (set xs \<union> set ys)" using assms by (simp add: in_order_def distinct_map)
  ultimately show ?thesis by (rule map_inj_on)
qed

lemma in_order_filter: "in_order q \<Longrightarrow> in_order (filter P q)"
  by (auto simp: in_order_def sorted_filter distinct_map_filter)

lemma insertInSeqOrder_elems:
  assumes "in_order q" "elems cq = filter P q" "e \<in> set q" "\<not> P e"
  shows "elems (MQTTPersistence_insertInSeqOrder cq e) = filter (\<lambda>x. P x \<or> x = e) q"
proof (rule in_order_unique)
  let ?idx = "find_index (\<lambda>x. qe_seqno e < qe_seqno x) (elems cq)" and ?q = "MQTTPersistence_insertInSeqOrder cq e"
  obtain ys zs where yz: "elems cq = ys @ zs" "elems ?q = ys @ e # zs"
    using insert_opt_elems(1) [of ?idx cq e] find_index_SomeD unfolding MQTTPersistence_insertInSeqOrder_def by blast
  have o: "in_order (elems cq)" using in_order_filter [OF assms(1)] assms(2) by simp
  have "qe_seqno e \<notin> qe_seqno ` set (elems cq)"
  proof
    assume "qe_seqno e \<in> qe_seqno ` set (elems cq)"
    then obtain x where "x \<in> set q" "P x" "qe_seqno x = qe_seqno e" using assms(2) by auto
    then have "x = e" using assms(1,3) by (auto simp: in_order_def distinct_map dest: inj_onD)
    with \<open>P x\<close> assms(4) show False by simp
  qed
  with o yz have "distinct (map qe_seqno (elems ?q))" by (auto simp: in_order_def)
  moreover have "sorted (map qe_seqno (elems ?q))"
    unfolding MQTTPersistence_insertInSeqOrder_def by (rule insert_opt_sorted) (use o in \<open>simp add: in_order_def\<close>)
  ultimately show "in_order (elems ?q)" by (simp add: in_order_def)
  show "in_order (filter (\<lambda>x. P x \<or> x = e) q)" by (rule in_order_filter [OF assms(1)])
  have "set (elems ?q) = insert e (set (elems cq))" using yz by auto
  then show "set (elems ?q) = set (filter (\<lambda>x. P x \<or> x = e) q)" using assms(2,3) by auto
qed

context key_store
begin

lemma restoreq_loop_effect:
  assumes "queue_saved q r" "in_order q"
    and "elems (cl_messageQueue c) = filter (\<lambda>e. queue_key (qe_seqno e) \<in> D) q" "cl_phandle c = h" "ready w h" "records w h = r"
    and "set ks \<subseteq> dom r - D" "distinct ks" "\<forall>e\<in>set q. queue_key (qe_seqno e) \<in> D \<longrightarrow> qe_seqno e \<le> cl_qentry_seqno c"
  shows "\<exists>c' w'. restoreq_loop pe ks c w = Some (0, c', w') \<and> ready w' h \<and> records w' h = r \<and>
    elems (cl_messageQueue c') = filter (\<lambda>e. queue_key (qe_seqno e) \<in> D \<union> set ks) q \<and>
    (\<forall>e\<in>set q. queue_key (qe_seqno e) \<in> D \<union> set ks \<longrightarrow> qe_seqno e \<le> cl_qentry_seqno c')"
  using assms(3-)
proof (induction ks arbitrary: c w D)
  case (Cons k ks)
  have k: "k \<in> dom r" "k \<notin> D" "set ks \<subseteq> dom r - insert k D" "distinct ks" using Cons.prems(5,6) by auto
  have D: "insert k D \<union> set ks = D \<union> set (k # ks)" by auto
  show ?case
  proof (cases "strncmp_eq k PERSISTENCE_QUEUE_KEY")
    case False
    then have no: "queue_key (qe_seqno e) \<noteq> k" for e using queue_key_plain(2) by metis
    from Cons.IH [of c "insert k D" w] Cons.prems(1-4,7) k show ?thesis unfolding D by (simp add: False no)
  next
    case True
    with assms(1) k(1) obtain e where e: "e \<in> set q" "k = queue_key (qe_seqno e)" "entry_sound e" "r k = Some (queue_record e)"
      unfolding queue_saved_def by blast
    have "length (queue_record e) < 2 ^ 31" using e(3) by (simp add: entry_sound_def Let_def)
    with store_get [OF Cons.prems(3), of k] queue_key_plain(1) e(2,4) Cons.prems(4) obtain w1 where
      w1: "pe_pget pe w h k = (0, queue_record e, w1)" "ready w1 h" "records w1 h = r" by metis
    let ?c = "c\<lparr>cl_messageQueue := MQTTPersistence_insertInSeqOrder (cl_messageQueue c) e,
      cl_qentry_seqno := max (cl_qentry_seqno c) (qe_seqno e)\<rparr>"
    have "elems (cl_messageQueue ?c) = filter (\<lambda>x. queue_key (qe_seqno x) \<in> D \<or> x = e) q"
      using insertInSeqOrder_elems [OF assms(2) Cons.prems(1) e(1)] k(2) e(2) by simp
    moreover have "x = e" if "x \<in> set q" "qe_seqno x = qe_seqno e" for x
      using assms(2) that e(1) by (auto simp: in_order_def distinct_map dest: inj_onD)
    ultimately have "elems (cl_messageQueue ?c) = filter (\<lambda>x. queue_key (qe_seqno x) \<in> insert k D) q"
      by (auto simp: e(2) intro: filter_cong)
    moreover have "\<forall>x\<in>set q. queue_key (qe_seqno x) \<in> insert k D \<longrightarrow> qe_seqno x \<le> cl_qentry_seqno ?c"
      using Cons.prems(7) e(2) by (auto simp: max.coboundedI1 max.coboundedI2)
    moreover have "word_of_int (c_atoi (drop 2 k)) = qe_seqno e" "e\<lparr>qe_seqno := qe_seqno e\<rparr> = e"
      unfolding e(2) queue_key_atoi by simp_all
    ultimately show ?thesis
      using Cons.IH [of ?c "insert k D" w1] Cons.prems(2) w1 k True restoreQueueEntry_record [OF e(3)] unfolding D
      by (simp add: Let_def)
  qed
qed auto

lemma restoreMessageQueue_effect:
  assumes "queue_saved q (records w h)" "in_order q" "cl_persistence c" "cl_phandle c = h" "ready w h" "elems (cl_messageQueue c) = []"
  shows "\<exists>c' w'. MQTTPersistence_restoreMessageQueue pe c w = Some (0, c', w') \<and> elems (cl_messageQueue c') = q \<and>
    (\<forall>e\<in>set q. qe_seqno e \<le> cl_qentry_seqno c') \<and> ready w' h \<and> records w' h = records w h"
proof -
  let ?r = "records w h"
  obtain ks w1 where ks: "pe_pkeys pe w h = (0, ks, w1)" "distinct ks" "set ks = dom ?r" "ready w1 h" "records w1 h = ?r"
    using store_keys [OF assms(5)] by blast
  have all: "queue_key (qe_seqno e) \<in> set ks" if "e \<in> set q" for e using assms(1) that ks(3) unfolding queue_saved_def by blast
  have "filter (\<lambda>e. queue_key (qe_seqno e) \<in> {} \<union> set ks) q = q" using all by (simp add: filter_id_conv)
  with restoreq_loop_effect [OF assms(1,2), of c "{}" h w1 ks] assms(3,4,6) ks all show ?thesis
    by (auto simp: MQTTPersistence_restoreMessageQueue_def)
qed

text \<open>Adding an entry and taking one away.\<close>

lemma persist_effect:
  assumes "ready w h" "cl_phandle c = h" "entry_sound qe" "unat (cl_qentry_seqno c) < 999999"
  defines "n \<equiv> cl_qentry_seqno c + 1"
  shows "\<exists>w'. MQTTPersistence_persistQueueEntry pe c qe w = Some (0, c\<lparr>cl_qentry_seqno := n\<rparr>, qe\<lparr>qe_seqno := n\<rparr>, w') \<and>
    ready w' h \<and> records w' h = (records w h)(queue_key n \<mapsto> queue_record qe) \<and> unat n = Suc (unat (cl_qentry_seqno c))"
proof -
  have u: "unat n = Suc (unat (cl_qentry_seqno c))" unfolding n_def using assms(4) by (simp add: unat_word_ariths)
  obtain bufs where bufs: "qentry_buffers qe = Some bufs" "concat bufs = queue_record qe" using qentry_buffers_record [OF assms(3)] by blast
  have "unat n < 1000000" using u assms(4) by simp
  from queue_sprintf [OF this] store_put [OF assms(1) queue_key_plain(1), of n bufs] bufs u assms(2) show ?thesis
    by (auto simp: MQTTPersistence_persistQueueEntry_def n_def)
qed

lemma unpersist_effect:
  assumes "ready w h" "cl_phandle c = h" "unat (qe_seqno qe) < 1000000"
  shows "\<exists>w'. MQTTPersistence_unpersistQueueEntry pe c qe w = Some (0, w') \<and> ready w' h \<and>
    records w' h = (records w h)(queue_key (qe_seqno qe) := None)"
  using queue_sprintf [OF assms(3)] store_remove [OF assms(1) queue_key_plain(1), of "qe_seqno qe"] assms(2)
  by (simp add: MQTTPersistence_unpersistQueueEntry_def)

end

section \<open>The life of the queue\<close>

datatype queue_event = Arrives Publish "32 word" | Delivers

text \<open>A delivery returns what the application is given.\<close>

definition queue_step ::
    "'w pers_ops \<Rightarrow> Clients \<times> 'w \<Rightarrow> queue_event \<Rightarrow> ((int \<times> bytes \<times> int \<times> MQTTPersistence_message) option \<times> Clients \<times> 'w) option" where
  "queue_step pe s ev = (case ev of
     Arrives publish seqno0 \<Rightarrow> map_option (\<lambda>s. (None, s)) (Protocol_processPublication pe publish seqno0 (fst s) (snd s))
   | Delivers \<Rightarrow> map_option (\<lambda>(rc, topicName, topicLen, msg, s). (Some (rc, topicName, topicLen, msg), s))
       (MQTTClient_deliverMessage pe 0 (fst s) (snd s)))"

text \<open>The specification: a queue of messages, first in, first out.\<close>

type_synonym delivery = "bytes \<times> int \<times> MQTTPersistence_message"

definition content_of :: "MQTTPersistence_qEntry \<Rightarrow> delivery" where
  "content_of qe = (qe_topicName qe, qe_topicLen qe, qe_msg qe)"

fun queue_spec :: "delivery list \<Rightarrow> queue_event \<Rightarrow> (int \<times> bytes \<times> int \<times> MQTTPersistence_message) option \<times> delivery list" where
  "queue_spec q (Arrives publish seqno0) = (None, q @ [content_of (the (queue_entry publish 0))])"
| "queue_spec q Delivers =
     (Some (if int (length (fst (hd q))) \<noteq> fst (snd (hd q)) then MQTTCLIENT_TOPICNAME_TRUNCATED else 0, hd q), tl q)"

text \<open>Messages that can be stored arrive, fewer than a million in all, and deliveries find one.\<close>

fun queue_fits :: "nat \<Rightarrow> nat \<Rightarrow> queue_event list \<Rightarrow> bool" where
  "queue_fits n len [] \<longleftrightarrow> True"
| "queue_fits n len (Arrives publish seqno0 # evs) \<longleftrightarrow> n < 999999 \<and>
     (case queue_entry publish 0 of None \<Rightarrow> False | Some qe \<Rightarrow> entry_sound qe) \<and> queue_fits (n + 1) (len + 1) evs"
| "queue_fits n len (Delivers # evs) \<longleftrightarrow> 0 < len \<and> queue_fits n (len - 1) evs"

definition queue_oks :: "queue_event list \<Rightarrow> Clients \<times> 'w \<Rightarrow> bool" where
  "queue_oks evs s \<longleftrightarrow> queue_fits (unat (cl_qentry_seqno (fst s))) (length (elems (cl_messageQueue (fst s)))) evs"

lemma queue_entry_seqno: "queue_entry p n = map_option (\<lambda>e. e\<lparr>qe_seqno := n\<rparr>) (queue_entry p 0)"
  by (simp add: queue_entry_def Let_def split: option.splits Option.bind_splits)

lemma entry_sound_seqno [simp]: "entry_sound (e\<lparr>qe_seqno := n\<rparr>) = entry_sound e" "queue_record (e\<lparr>qe_seqno := n\<rparr>) = queue_record e"
  by (simp_all add: entry_sound_def queue_record_def)

text \<open>The queue in memory, its records in the store, and the messages in it.\<close>

definition queue_rel ::
    "('w \<Rightarrow> bytes \<Rightarrow> bytes \<Rightarrow> bytes option) \<Rightarrow> ('w \<Rightarrow> bytes \<Rightarrow> bool) \<Rightarrow> bytes \<Rightarrow> Clients \<times> 'w \<Rightarrow> delivery list \<Rightarrow> bool" where
  "queue_rel records ready h s q \<longleftrightarrow> (case s of (c, w) \<Rightarrow> cl_persistence c \<and> cl_phandle c = h \<and> ready w h \<and>
     queue_saved (elems (cl_messageQueue c)) (records w h) \<and> in_order (elems (cl_messageQueue c)) \<and>
     (\<forall>e\<in>set (elems (cl_messageQueue c)). qe_seqno e \<le> cl_qentry_seqno c) \<and> unat (cl_qentry_seqno c) < 1000000 \<and>
     q = map content_of (elems (cl_messageQueue c)))"

lemma queue_relD:
  assumes "queue_rel records ready h (c, w) q"
  shows "cl_persistence c" "cl_phandle c = h" "ready w h" "queue_saved (elems (cl_messageQueue c)) (records w h)"
    "in_order (elems (cl_messageQueue c))" "\<And>e. e \<in> set (elems (cl_messageQueue c)) \<Longrightarrow> qe_seqno e \<le> cl_qentry_seqno c"
    "unat (cl_qentry_seqno c) < 1000000" "q = map content_of (elems (cl_messageQueue c))"
  using assms by (simp_all add: queue_rel_def)

lemma queue_saved_add:
  assumes "queue_saved q r" "entry_sound e" "\<And>x. x \<in> set q \<Longrightarrow> qe_seqno x \<noteq> qe_seqno e"
  shows "queue_saved (q @ [e]) (r(queue_key (qe_seqno e) \<mapsto> queue_record e))"
  using assms unfolding queue_saved_def by auto

lemma queue_saved_drop:
  assumes "queue_saved (e # q) r" "in_order (e # q)"
  shows "queue_saved q (r(queue_key (qe_seqno e) := None))"
proof -
  have "qe_seqno x \<noteq> qe_seqno e" if "x \<in> set q" for x using assms(2) imageI [OF that, of qe_seqno] unfolding in_order_def by (metis distinct.simps(2) list.simps(9) set_map)
  with assms(1) show ?thesis unfolding queue_saved_def by auto
qed

context key_store
begin

lemma arrives_step:
  assumes R: "queue_rel records ready h (c, w) q" and ok: "unat (cl_qentry_seqno c) < 999999" "queue_entry publish 0 = Some e" "entry_sound e"
  shows "\<exists>s'. queue_step pe (c, w) (Arrives publish seqno0) = Some (None, s') \<and> queue_rel records ready h s' (q @ [content_of e]) \<and>
    unat (cl_qentry_seqno (fst s')) = Suc (unat (cl_qentry_seqno c))"
proof -
  note D = queue_relD [OF R]
  define n where "n = cl_qentry_seqno c + 1"
  let ?e = "e\<lparr>qe_seqno := seqno0\<rparr>" and ?x = "e\<lparr>qe_seqno := n\<rparr>"
  have qe: "queue_entry publish seqno0 = Some ?e" using queue_entry_seqno [of publish seqno0] ok(2) by simp
  obtain w' where P: "MQTTPersistence_persistQueueEntry pe c ?e w = Some (0, c\<lparr>cl_qentry_seqno := n\<rparr>, ?x, w')"
    "ready w' h" "records w' h = (records w h)(queue_key n \<mapsto> queue_record ?x)" "unat n = Suc (unat (cl_qentry_seqno c))"
    using persist_effect [OF D(3,2), of ?e] ok(1,3) by (auto simp: n_def)
  have lt: "qe_seqno x < n" if "x \<in> set (elems (cl_messageQueue c))" for x
    using D(6) [OF that] P(4) by (simp add: word_less_nat_alt word_le_nat_alt)
  let ?c = "c\<lparr>cl_qentry_seqno := n, cl_messageQueue := clist_append ?x (cl_messageQueue c)\<rparr>"
  have "queue_saved (elems (cl_messageQueue c) @ [?x]) (records w' h)"
    using queue_saved_add [OF D(4), of ?x] ok(3) lt P(3) by fastforce
  moreover have "in_order (elems (cl_messageQueue c) @ [?x])" using D(5) lt by (auto simp: in_order_def sorted_append intro: less_imp_le)
  ultimately have "queue_rel records ready h (?c, w') (q @ [content_of e])"
    using D(1,2,8) P(2,4) ok(1) lt by (auto simp: queue_rel_def clist_append_def content_of_def intro: less_imp_le)
  moreover have "Protocol_processPublication pe publish seqno0 c w = Some (?c, w')"
    using qe P(1) D(1) by (simp add: Protocol_processPublication_def)
  ultimately show ?thesis using P(4) by (simp add: queue_step_def)
qed

lemma delivers_step:
  assumes R: "queue_rel records ready h (c, w) q" and ne: "elems (cl_messageQueue c) \<noteq> []"
  shows "\<exists>s'. queue_step pe (c, w) Delivers = Some (fst (queue_spec q Delivers), s') \<and> queue_rel records ready h s' (tl q) \<and>
    cl_qentry_seqno (fst s') = cl_qentry_seqno c"
proof -
  note D = queue_relD [OF R]
  obtain e es where q: "elems (cl_messageQueue c) = e # es" using ne by (cases "elems (cl_messageQueue c)") auto
  have "unat (qe_seqno e) < 1000000" using D(6) [of e] D(7) q by (simp add: word_le_nat_alt)
  then obtain w' where w': "MQTTPersistence_unpersistQueueEntry pe c e w = Some (0, w')" "ready w' h"
    "records w' h = (records w h)(queue_key (qe_seqno e) := None)" using unpersist_effect [OF D(3,2)] by blast
  have "c_string (qe_topicName e) = qe_topicName e" using D(4) q by (auto simp: queue_saved_def entry_sound_def Let_def)
  then have "c_strlen (qe_topicName e) = length (qe_topicName e)" by (simp add: c_strlen_def)
  then have "queue_step pe (c, w) Delivers = Some (fst (queue_spec q Delivers), c\<lparr>cl_messageQueue := clist_detach_head (cl_messageQueue c)\<rparr>, w')"
    using q w'(1) D(1,8) by (simp add: queue_step_def MQTTClient_deliverMessage_def content_of_def)
  moreover have "queue_rel records ready h (c\<lparr>cl_messageQueue := clist_detach_head (cl_messageQueue c)\<rparr>, w') (tl q)"
    using D q w'(2,3) queue_saved_drop [of e es "records w h"] by (auto simp: queue_rel_def clist_detach_head_def in_order_def)
  ultimately show ?thesis by simp
qed

lemma queue_simulates:
  assumes R: "queue_rel records ready h s q" and ok: "queue_oks (ev # evs) s"
  shows "\<exists>s'. queue_step pe s ev = Some (fst (queue_spec q ev), s') \<and> queue_rel records ready h s' (snd (queue_spec q ev)) \<and> queue_oks evs s'"
proof -
  obtain c w where s: "s = (c, w)" by (cases s)
  have len: "length (elems (cl_messageQueue (fst s'))) = length q'" if "queue_rel records ready h s' q'" for s' q'
    using that by (cases s') (simp add: queue_rel_def)
  show ?thesis
  proof (cases ev)
    case (Arrives publish seqno0)
    with ok s obtain e where e: "unat (cl_qentry_seqno c) < 999999" "queue_entry publish 0 = Some e" "entry_sound e"
      by (auto simp: queue_oks_def split: option.splits)
    with arrives_step [of h c w q publish e seqno0] R s obtain s' where "queue_step pe s ev = Some (None, s')"
      "queue_rel records ready h s' (q @ [content_of e])" "unat (cl_qentry_seqno (fst s')) = Suc (unat (cl_qentry_seqno c))" by (auto simp: Arrives)
    with ok e(2) len [OF this(2)] len [OF R] show ?thesis by (auto simp: queue_oks_def Arrives s)
  next
    case Delivers
    with ok s have "elems (cl_messageQueue c) \<noteq> []" by (auto simp: queue_oks_def)
    with delivers_step [of h c w q] R s obtain s' where "queue_step pe s ev = Some (fst (queue_spec q Delivers), s')"
      "queue_rel records ready h s' (tl q)" "cl_qentry_seqno (fst s') = cl_qentry_seqno c" by (auto simp: Delivers)
    with ok len [OF this(2)] len [OF R] show ?thesis by (auto simp: queue_oks_def Delivers s)
  qed
qed

end

sublocale key_store \<subseteq> queue: simulation "queue_rel records ready h" "queue_step pe" queue_spec queue_oks
  by unfold_locales (rule queue_simulates)

section \<open>Properties\<close>

lemma decimal_long: "10 ^ k \<le> n \<Longrightarrow> k < length (decimal n)"
proof (induction k arbitrary: n)
  case (Suc k)
  moreover have "10 \<le> (10 :: nat) ^ Suc k" by simp
  ultimately have "10 ^ k \<le> n div 10" "\<not> n < 10" by (simp, linarith)
  with Suc.IH [of "n div 10"] show ?case by (subst decimal.simps) simp
qed (simp add: decimal_not_Nil)

text \<open>
  C19. The queue of messages for the application survives a restart: with the default persistence, messages
  that arrive are delivered first in, first out, and a client that starts on the files left at any time
  restores exactly the messages not yet delivered, in their order and with their numbers. The topics have no zero byte
  (a record ends its topic at the first one), a record has less than \<open>2 ^ 31\<close> bytes, and the client numbers fewer than
  a million messages, the most its keys have room for (\<open>queue_key_overflows\<close>).
\<close>

theorem message_queue_survives:
  assumes "queue_rel file_records store_ready h s q" and "queue_oks evs s"
  shows "\<exists>c w. run_steps (queue_step (file_ops dataDir)) s evs = Some (fst (run_spec queue_spec q evs), c, w) \<and>
    (\<forall>c0. cl_persistence c0 \<and> cl_phandle c0 = h \<and> elems (cl_messageQueue c0) = [] \<longrightarrow>
       (\<exists>c1 w1. MQTTPersistence_restoreMessageQueue (file_ops dataDir) c0 w = Some (0, c1, w1) \<and>
          map content_of (elems (cl_messageQueue c1)) = snd (run_spec queue_spec q evs) \<and>
          elems (cl_messageQueue c1) = elems (cl_messageQueue c)))"
proof -
  obtain c w where run: "run_steps (queue_step (file_ops dataDir)) s evs = Some (fst (run_spec queue_spec q evs), c, w)"
    and R: "queue_rel file_records store_ready h (c, w) (snd (run_spec queue_spec q evs))"
    using files.queue.run_simulates [OF assms] by (metis surj_pair)
  note D = queue_relD [OF R]
  have "\<exists>c1 w1. MQTTPersistence_restoreMessageQueue (file_ops dataDir) c0 w = Some (0, c1, w1) \<and> elems (cl_messageQueue c1) = elems (cl_messageQueue c)"
    if "cl_persistence c0" "cl_phandle c0 = h" "elems (cl_messageQueue c0) = []" for c0
    using files.restoreMessageQueue_effect [OF D(4,5) that(1,2) D(3) that(3)] by blast
  with run D(8) show ?thesis by fastforce
qed

definition demo_queue :: "Clients \<times> filesys" where
  "demo_queue = ((demo_client 0 [])\<lparr>cl_persistence := True, cl_phandle := [99]\<rparr>, \<lparr>fs_nodes = [([[99]], Dir)], fs_cwd = [], fs_plan = []\<rparr>)"

definition demo_arrivals :: "queue_event list" where
  "demo_arrivals = [Arrives demo_publish 0, Arrives (demo_publish\<lparr>pub_payload := [5], pub_payloadlen := 1\<rparr>) 0, Delivers]"

definition demo_delivery :: "bytes \<Rightarrow> delivery" where
  "demo_delivery payload = ([0x61, 0x2F, 0x62], 3, \<lparr>pm_payloadlen = int (length payload), pm_payload = payload, pm_qos = 0, pm_retained = 0,
     pm_dup = 0, pm_msgid = 500\<rparr>)"

lemma demo_queue_rel: "queue_rel file_records store_ready [99] demo_queue []"
proof -
  have "store_ready (snd demo_queue) [99]" "file_records (snd demo_queue) [99] = Map.empty"
    by (auto simp: demo_queue_def store_ready_def node_at_def resolve_def file_records_def fun_eq_iff)
  then show ?thesis by (simp add: queue_rel_def demo_queue_def demo_client_def clist_empty_def queue_saved_def in_order_def)
qed

lemma demo_entry: "queue_entry (demo_publish\<lparr>pub_payload := b, pub_payloadlen := int (length b)\<rparr>) 0 =
    Some \<lparr>qe_msg = snd (snd (demo_delivery b)), qe_topicName = [0x61, 0x2F, 0x62], qe_topicLen = 3, qe_seqno = 0\<rparr>"
  by (simp add: queue_entry_def demo_publish_def demo_delivery_def hdr_qos_def hdr_retain_def hdr_dup_def)

lemma demo_entry_sound:
  "length b < 1000 \<Longrightarrow> entry_sound \<lparr>qe_msg = snd (snd (demo_delivery b)), qe_topicName = [0x61, 0x2F, 0x62], qe_topicLen = 3, qe_seqno = 0\<rparr>"
  by (simp add: entry_sound_def demo_delivery_def fits_int_def c_string_def queue_record_def)

lemmas demo_entries = demo_entry [of "[1, 0, 2]"] demo_entry [of "[5]"] demo_entry_sound [of "[1, 0, 2]"] demo_entry_sound [of "[5]"]

lemma demo_publish_same: "demo_publish\<lparr>pub_payload := [1, 0, 2], pub_payloadlen := 3\<rparr> = demo_publish"
  by (simp add: demo_publish_def)

lemma demo_arrivals_ok: "queue_oks demo_arrivals demo_queue"
  using demo_entries by (simp add: queue_oks_def demo_arrivals_def demo_queue_def demo_client_def demo_publish_same)

theorem message_queue_survives_witness:
  "\<exists>c w c1 w1. run_steps (queue_step (file_ops [])) demo_queue demo_arrivals = Some ([None, None, Some (0, demo_delivery [1, 0, 2])], c, w) \<and>
     MQTTPersistence_restoreMessageQueue (file_ops []) (fst demo_queue) w = Some (0, c1, w1) \<and>
     map content_of (elems (cl_messageQueue c1)) = [demo_delivery [5]]"
proof -
  have spec: "run_spec queue_spec [] demo_arrivals = ([None, None, Some (0, demo_delivery [1, 0, 2])], [demo_delivery [5]])"
    using demo_entries by (simp add: demo_arrivals_def demo_publish_same content_of_def) (simp add: demo_delivery_def)
  have "cl_persistence (fst demo_queue) \<and> cl_phandle (fst demo_queue) = [99] \<and> elems (cl_messageQueue (fst demo_queue)) = []"
    by (simp add: demo_queue_def demo_client_def clist_empty_def)
  with message_queue_survives [OF demo_queue_rel demo_arrivals_ok, unfolded spec fst_conv snd_conv] show ?thesis by metis
qed

text \<open>
  The buffer for the key of a queue entry has nine bytes: \<open>MQTTPersistence_persistQueueEntry\<close> writes
  beyond its end exactly from the millionth entry on.
\<close>

theorem queue_key_overflows:
  assumes "qentry_buffers qe = Some bufs" and "unat (cl_qentry_seqno c) < 2 ^ 31 - 1"
  shows "MQTTPersistence_persistQueueEntry pe c qe w = None \<longleftrightarrow> 999999 \<le> unat (cl_qentry_seqno c)"
proof -
  define n where "n = cl_qentry_seqno c + 1"
  have u: "unat n = Suc (unat (cl_qentry_seqno c))" using assms(2) by (simp add: n_def unat_word_ariths)
  have "unat n < 2 ^ 31" unfolding u using assms(2) by simp
  then have "int (unat n) < int (2 ^ 31)" by (simp only: of_nat_less_iff)
  then have "uint n < 2 ^ 31" by simp
  moreover have "- (2 ^ 31) \<le> uint n" by (rule order.trans [of _ 0]) simp_all
  ultimately have s: "sint n = int (unat n)" unfolding sint_uint by (subst signed_take_bit_int_eq_self) simp_all
  have "length (decimal (unat n)) \<le> 6 \<longleftrightarrow> unat n < 1000000"
    using decimal_length [of "unat n" 5] decimal_long [of 6 "unat n"] by (cases "unat n < 1000000") auto
  moreover have "sprintf_d (sint n) = decimal (unat n)" unfolding s using sprintf_d_pos [of "int (unat n)"] by (simp only: nat_int of_nat_0_le_iff)
  ultimately have "sprintf_key (PERSISTENCE_MAX_KEY_LENGTH + 1) PERSISTENCE_QUEUE_KEY (sint n) = None \<longleftrightarrow> 1000000 \<le> unat n"
    by (auto simp: sprintf_key_def PERSISTENCE_QUEUE_KEY_def Let_def)
  then have "sprintf_key (PERSISTENCE_MAX_KEY_LENGTH + 1) PERSISTENCE_QUEUE_KEY (sint n) = None \<longleftrightarrow> 999999 \<le> unat (cl_qentry_seqno c)"
    using u by simp
  then show ?thesis using assms(1)
    by (cases "sprintf_key (PERSISTENCE_MAX_KEY_LENGTH + 1) PERSISTENCE_QUEUE_KEY (sint n)")
      (simp_all add: MQTTPersistence_persistQueueEntry_def n_def [symmetric] split_beta Let_def)
qed

theorem queue_key_overflows_witness:
  "MQTTPersistence_persistQueueEntry (file_ops []) ((fst demo_queue)\<lparr>cl_qentry_seqno := 999999\<rparr>) (the (queue_entry demo_publish 0)) (snd demo_queue) = None"
  using queue_key_overflows [of "the (queue_entry demo_publish 0)" "the (qentry_buffers (the (queue_entry demo_publish 0)))" "(fst demo_queue)\<lparr>cl_qentry_seqno := 999999\<rparr>"]
  using demo_entries(1) by (simp add: demo_publish_same qentry_buffers_def Let_def demo_delivery_def)

end
