(* ===== verification/AsyncQueue.thy ===== *)
theory AsyncQueue
  imports MessageQueue Utf8
begin

text \<open>
  The asynchronous interface of the MQTT client: \<open>lib/MQTTAsync.c\<close>. An operation of the application puts a
  command into a queue that all clients share; the sending thread takes commands from it and hands them to the
  protocol (theory \<open>Protocol\<close>); a command whose answer comes from the network then waits in its client's list of
  responses, until the receiving thread finds it for an acknowledgement and calls its callback.

  Commands are objects on the heap, referred to by address; an access to a freed one is undefined behaviour,
  \<open>None\<close>. The state is that of the protocol, whose world holds the queue and the clients of this module, so
  that the protocol's calls back into this module are functions on it. Client \<open>i\<close> here belongs to client \<open>i\<close>
  of the protocol. An operation is one step: it runs under \<open>mqttasync_mutex\<close>. The contexts of callbacks are part of
  their identity. The build is the one without OPENSSL.
\<close>

abbreviation (input) MQTTASYNC_SUCCESS :: int where "MQTTASYNC_SUCCESS \<equiv> 0"
abbreviation (input) MQTTASYNC_FAILURE :: int where "MQTTASYNC_FAILURE \<equiv> -1"
abbreviation (input) MQTTASYNC_PERSISTENCE_ERROR :: int where "MQTTASYNC_PERSISTENCE_ERROR \<equiv> -2"
abbreviation (input) MQTTASYNC_DISCONNECTED :: int where "MQTTASYNC_DISCONNECTED \<equiv> -3"
abbreviation (input) MQTTASYNC_BAD_UTF8_STRING :: int where "MQTTASYNC_BAD_UTF8_STRING \<equiv> -5"
abbreviation (input) MQTTASYNC_BAD_QOS :: int where "MQTTASYNC_BAD_QOS \<equiv> -9"
abbreviation (input) MQTTASYNC_NO_MORE_MSGIDS :: int where "MQTTASYNC_NO_MORE_MSGIDS \<equiv> -10"
abbreviation (input) MQTTASYNC_OPERATION_INCOMPLETE :: int where "MQTTASYNC_OPERATION_INCOMPLETE \<equiv> -11"
abbreviation (input) MQTTASYNC_MAX_BUFFERED_MESSAGES :: int where "MQTTASYNC_MAX_BUFFERED_MESSAGES \<equiv> -12"
abbreviation (input) MQTT_BAD_SUBSCRIBE :: int where "MQTT_BAD_SUBSCRIBE \<equiv> 0x80"

section \<open>State\<close>

text \<open>
  The union of a command's details, with its type. A published command whose topic has been handed to the
  protocol has no topic any more.
\<close>

datatype cmd_details =
    Connect_Command int int
  | Disconnect_Command bool int
  | Subscribe_Command "bytes list" "int list"
  | Unsubscribe_Command "bytes list"
  | Publish_Command "bytes option" bytes int int

record MQTTAsync_command =
  cmd_onSuccess :: "nat option"
  cmd_onFailure :: "nat option"
  cmd_token :: int
  cmd_start_time :: int
  cmd_details :: cmd_details

record MQTTAsync_queuedCommand =
  qc_command :: MQTTAsync_command
  qc_client :: nat
  qc_seqno :: "32 word"

text \<open>
  A client. Of the callbacks it matters whether they are set. \<open>ma_serverURIs\<close> is \<open>None\<close> when the array has been
  freed; \<open>ma_createOptions\<close> holds \<open>sendWhileDisconnected\<close> and \<open>maxBufferedMessages\<close>.
\<close>

record MQTTAsyncs =
  ma_serverURI :: bytes
  ma_cl :: bool
  ma_ma :: bool
  ma_dc :: bool
  ma_connected :: bool
  ma_connect :: MQTTAsync_command
  ma_disconnect :: MQTTAsync_command
  ma_pending_write :: "addr option"
  ma_responses :: "addr list"
  ma_command_seqno :: "32 word"
  ma_createOptions :: "(bool \<times> int) option"
  ma_shouldBeConnected :: bool
  ma_automaticReconnect :: bool
  ma_minRetryInterval :: int
  ma_maxRetryInterval :: int
  ma_serverURIcount :: nat
  ma_serverURIs :: "bytes list option"
  ma_connectTimeout :: int
  ma_currentInterval :: int
  ma_lastConnectionFailedTime :: int
  ma_retrying :: bool
  ma_reconnectNow :: bool

datatype async_notice =
    Call_onSuccess nat int
  | Call_onFailure nat int
  | Call_connectionLost nat
  | Call_connected nat bool
  | Call_deliveryComplete nat int

text \<open>
  The queue and the clients. \<open>as_log\<close> lists the calls of callbacks; \<open>as_answers\<close> the commands that were
  answered, with success or failure, whether or not a callback was set. \<open>as_next\<close> is the next unused address.
\<close>

record 'v async =
  as_heap :: "addr \<rightharpoonup> MQTTAsync_queuedCommand"
  as_next :: addr
  as_commands :: "addr list"
  as_handles :: "MQTTAsyncs list"
  as_log :: "async_notice list"
  as_answers :: "(addr \<times> bool) list"
  as_net :: 'v

type_synonym 'v astate = "'v async pstate"

text \<open>
  The environment: the operations below the protocol, persistence, the clock in milliseconds, the socket
  layer's functions that this module calls itself, and the application's \<open>messageArrived\<close>.
\<close>

record 'v async_env =
  ae_po :: "'v async proto_ops"
  ae_pe :: "'v async pers_ops"
  ae_char_signed :: bool
  ae_clock :: "'v async \<Rightarrow> int"
  ae_close :: "'v async \<Rightarrow> int \<Rightarrow> 'v async"
  ae_addPendingWrite :: "'v async \<Rightarrow> int \<Rightarrow> 'v async"
  ae_clearPendingWrite :: "'v async \<Rightarrow> int \<Rightarrow> 'v async"
  ae_so_error :: "'v async \<Rightarrow> int \<Rightarrow> int \<times> 'v async"
  ae_deliver :: "nat \<Rightarrow> MQTTPersistence_qEntry \<Rightarrow> 'v async \<Rightarrow> bool \<times> 'v async"

definition on_world :: "('v async \<Rightarrow> 'v async) \<Rightarrow> 'v astate \<Rightarrow> 'v astate" where
  "on_world f st = st\<lparr>ps_world := f (ps_world st)\<rparr>"

definition get_handle :: "nat \<Rightarrow> 'v astate \<Rightarrow> MQTTAsyncs" where
  "get_handle i st = as_handles (ps_world st) ! i"

definition set_handle :: "nat \<Rightarrow> MQTTAsyncs \<Rightarrow> 'v astate \<Rightarrow> 'v astate" where
  "set_handle i m st = on_world (\<lambda>w. w\<lparr>as_handles := (as_handles w)[i := m]\<rparr>) st"

definition deref :: "addr \<Rightarrow> 'v astate \<Rightarrow> MQTTAsync_queuedCommand option" where
  "deref a st = as_heap (ps_world st) a"

definition set_command :: "addr \<Rightarrow> MQTTAsync_queuedCommand \<Rightarrow> 'v astate \<Rightarrow> 'v astate" where
  "set_command a q st = on_world (\<lambda>w. w\<lparr>as_heap := (as_heap w)(a \<mapsto> q)\<rparr>) st"

definition malloc_command :: "MQTTAsync_queuedCommand \<Rightarrow> 'v astate \<Rightarrow> addr \<times> 'v astate" where
  "malloc_command q st =
     (as_next (ps_world st), on_world (\<lambda>w. w\<lparr>as_heap := (as_heap w)(as_next w \<mapsto> q), as_next := as_next w + 1\<rparr>) st)"

text \<open>\<open>MQTTAsync_freeCommand\<close>; the strings of a command are part of its value.\<close>

definition MQTTAsync_freeCommand :: "addr \<Rightarrow> 'v astate \<Rightarrow> 'v astate option" where
  "MQTTAsync_freeCommand a st = do {
     _ \<leftarrow> deref a st;
     Some (on_world (\<lambda>w. w\<lparr>as_heap := (as_heap w)(a := None)\<rparr>) st)
   }"

definition notify :: "async_notice \<Rightarrow> 'v astate \<Rightarrow> 'v astate" where
  "notify n st = on_world (\<lambda>w. w\<lparr>as_log := as_log w @ [n]\<rparr>) st"

definition call_onSuccess :: "MQTTAsync_command \<Rightarrow> 'v astate \<Rightarrow> 'v astate" where
  "call_onSuccess c st = (case cmd_onSuccess c of None \<Rightarrow> st | Some f \<Rightarrow> notify (Call_onSuccess f (cmd_token c)) st)"

definition call_onFailure :: "MQTTAsync_command \<Rightarrow> int \<Rightarrow> 'v astate \<Rightarrow> 'v astate" where
  "call_onFailure c code st = (case cmd_onFailure c of None \<Rightarrow> st | Some f \<Rightarrow> notify (Call_onFailure f code) st)"

definition answered :: "addr \<Rightarrow> bool \<Rightarrow> 'v astate \<Rightarrow> 'v astate" where
  "answered a ok st = on_world (\<lambda>w. w\<lparr>as_answers := as_answers w @ [(a, ok)]\<rparr>) st"

definition cmd_type :: "MQTTAsync_command \<Rightarrow> nat" where
  "cmd_type c = (case cmd_details c of
     Connect_Command _ _ \<Rightarrow> CONNECT | Disconnect_Command _ _ \<Rightarrow> DISCONNECT
   | Subscribe_Command _ _ \<Rightarrow> SUBSCRIBE | Unsubscribe_Command _ \<Rightarrow> UNSUBSCRIBE | Publish_Command _ _ _ _ \<Rightarrow> PUBLISH)"

section \<open>Persistence of commands\<close>

text \<open>The buffers that \<open>MQTTAsync_persistCommand\<close> writes; none for the other types of commands.\<close>

definition command_buffers :: "MQTTAsync_command \<Rightarrow> bytes list option" where
  "command_buffers c = (case cmd_details c of
     Subscribe_Command topics qoss \<Rightarrow>
       if length qoss < length topics then None
       else Some ([int32_bytes (int SUBSCRIBE), int32_bytes (cmd_token c), int32_bytes (int (length topics))] @
         concat (map (\<lambda>(t, q). [c_string t @ [0], int32_bytes q]) (zip topics qoss)))
   | Unsubscribe_Command topics \<Rightarrow>
       Some ([int32_bytes (int UNSUBSCRIBE), int32_bytes (cmd_token c), int32_bytes (int (length topics))] @
         map (\<lambda>t. c_string t @ [0]) topics)
   | Publish_Command dest payload qos retained \<Rightarrow> do {
       destinationName \<leftarrow> dest;
       Some [int32_bytes (int PUBLISH), int32_bytes (cmd_token c), c_string destinationName @ [0],
         int32_bytes (int (length payload)), payload, int32_bytes qos, int32_bytes retained]
     }
   | _ \<Rightarrow> Some [])"

definition command_key :: "32 word \<Rightarrow> bytes option" where
  "command_key seqno = sprintf_key (PERSISTENCE_MAX_KEY_LENGTH + 1) PERSISTENCE_COMMAND_KEY (sint seqno)"

definition MQTTAsync_unpersistCommand :: "'v async_env \<Rightarrow> addr \<Rightarrow> 'v astate \<Rightarrow> 'v astate option" where
  "MQTTAsync_unpersistCommand env a st = do {
     qcmd \<leftarrow> deref a st;
     key \<leftarrow> command_key (qc_seqno qcmd);
     Some (on_world (\<lambda>w. snd (pe_premove (ae_pe env) w (cl_phandle (get_client (qc_client qcmd) st)) key)) st)
   }"

definition MQTTAsync_persistCommand :: "'v async_env \<Rightarrow> addr \<Rightarrow> 'v astate \<Rightarrow> 'v astate option" where
  "MQTTAsync_persistCommand env a st = do {
     qcmd \<leftarrow> deref a st;
     bufs \<leftarrow> command_buffers (qc_command qcmd);
     if bufs = [] then Some st
     else do {
       let i = qc_client qcmd;
       let seqno = ma_command_seqno (get_handle i st) + 1;
       key \<leftarrow> command_key seqno;
       let st = set_handle i ((get_handle i st)\<lparr>ma_command_seqno := seqno\<rparr>) st;
       let st = on_world (\<lambda>w. snd (pe_pput (ae_pe env) w (cl_phandle (get_client i st)) key bufs)) st;
       Some (set_command a (qcmd\<lparr>qc_seqno := seqno\<rparr>) st)
     }
   }"

text \<open>
  \<open>MQTTAsync_restoreCommand\<close>: the result is \<open>NULL\<close> for another type. The arrays for the topics of a
  subscription are not allocated: the first topic is written through a null pointer.
\<close>

definition restored_command :: "int \<Rightarrow> cmd_details \<Rightarrow> MQTTAsync_queuedCommand" where
  "restored_command tok details = \<lparr>qc_command = \<lparr>cmd_onSuccess = None, cmd_onFailure = None, cmd_token = tok,
     cmd_start_time = 0, cmd_details = details\<rparr>, qc_client = 0, qc_seqno = 0\<rparr>"

definition MQTTAsync_restoreCommand :: "bytes \<Rightarrow> MQTTAsync_queuedCommand option option" where
  "MQTTAsync_restoreCommand buffer = do {
     (type, ptr) \<leftarrow> read_int32 buffer;
     (tok, ptr) \<leftarrow> read_int32 ptr;
     if type = int SUBSCRIBE \<or> type = int UNSUBSCRIBE then do {
       (count, ptr) \<leftarrow> read_int32 ptr;
       if 0 < count then None
       else Some (Some (restored_command tok
         (if type = int SUBSCRIBE then Subscribe_Command [] [] else Unsubscribe_Command [])))
     }
     else if type = int PUBLISH then do {
       (dest, ptr) \<leftarrow> read_string ptr;
       (payloadlen, ptr) \<leftarrow> read_int32 ptr;
       (payload, ptr) \<leftarrow> read_bytes payloadlen ptr;
       (qos, ptr) \<leftarrow> read_int32 ptr;
       (retained, ptr) \<leftarrow> read_int32 ptr;
       Some (Some (restored_command tok (Publish_Command (Some dest) payload qos retained)))
     }
     else Some None
   }"

text \<open>
  \<open>MQTTAsync_restoreCommands\<close>. It inserts with \<open>MQTTPersistence_insertInOrder\<close>, which takes the commands for
  messages: where a message has its id, a command has the lower half of the pointer \<open>onSuccess\<close>, \<open>low\<close> of
  that callback, and 0 if it is not set. \<open>MQTTAsync_insertInOrder\<close>, which compares the sequence numbers, is not called.
\<close>

definition insert_before :: "nat option \<Rightarrow> 'a \<Rightarrow> 'a list \<Rightarrow> 'a list" where
  "insert_before index x xs = (case index of None \<Rightarrow> xs @ [x] | Some k \<Rightarrow> take k xs @ x # drop k xs)"

definition MQTTAsync_insertInOrder :: "MQTTAsync_queuedCommand list \<Rightarrow> MQTTAsync_queuedCommand \<Rightarrow> MQTTAsync_queuedCommand list" where
  "MQTTAsync_insertInOrder xs x = insert_before (find_index (\<lambda>y. qc_seqno x < qc_seqno y) xs) x xs"

definition misread_msgid :: "(nat \<Rightarrow> int) \<Rightarrow> MQTTAsync_queuedCommand \<Rightarrow> int" where
  "misread_msgid low q = (case cmd_onSuccess (qc_command q) of None \<Rightarrow> 0 | Some f \<Rightarrow> low f)"

definition insert_command :: "(nat \<Rightarrow> int) \<Rightarrow> addr \<Rightarrow> 'v astate \<Rightarrow> 'v astate option" where
  "insert_command low a st = do {
     q \<leftarrow> deref a st;
     _ \<leftarrow> (if list_all (\<lambda>b. deref b st \<noteq> None) (as_commands (ps_world st)) then Some () else None);
     let index = find_index (\<lambda>b. misread_msgid low q < misread_msgid low (the (deref b st))) (as_commands (ps_world st));
     Some (on_world (\<lambda>w. w\<lparr>as_commands := insert_before index a (as_commands w)\<rparr>) st)
   }"

fun restorec_loop :: "'v async_env \<Rightarrow> (nat \<Rightarrow> int) \<Rightarrow> nat \<Rightarrow> bytes list \<Rightarrow> 'v astate \<Rightarrow> (int \<times> 'v astate) option" where
  "restorec_loop env low i [] st = Some (0, st)"
| "restorec_loop env low i (msgkey # msgkeys) st =
     (if \<not> strncmp_eq msgkey PERSISTENCE_COMMAND_KEY then restorec_loop env low i msgkeys st
      else case pe_pget (ae_pe env) (ps_world st) (cl_phandle (get_client i st)) msgkey of (rc, buffer, w) \<Rightarrow>
        let st = st\<lparr>ps_world := w\<rparr> in
        if rc \<noteq> 0 then Some (rc, st)
        else do {
          cmd \<leftarrow> MQTTAsync_restoreCommand buffer;
          (case cmd of
             None \<Rightarrow> restorec_loop env low i msgkeys st
           | Some q \<Rightarrow> do {
               let q = q\<lparr>qc_client := i, qc_seqno := word_of_int (c_atoi (drop 2 msgkey))\<rparr>;
               let (a, st) = malloc_command q st;
               st \<leftarrow> insert_command low a st;
               let m = get_handle i st;
               restorec_loop env low i msgkeys (set_handle i (m\<lparr>ma_command_seqno := max (ma_command_seqno m) (qc_seqno q)\<rparr>) st)
             })
        })"

definition MQTTAsync_restoreCommands :: "'v async_env \<Rightarrow> (nat \<Rightarrow> int) \<Rightarrow> nat \<Rightarrow> 'v astate \<Rightarrow> (int \<times> 'v astate) option" where
  "MQTTAsync_restoreCommands env low i st =
     (if cl_persistence (get_client i st) then
        (case pe_pkeys (ae_pe env) (ps_world st) (cl_phandle (get_client i st)) of (rc, msgkeys, w) \<Rightarrow>
           let st = st\<lparr>ps_world := w\<rparr> in
           if rc = 0 then restorec_loop env low i msgkeys st else Some (rc, st))
      else Some (0, st))"

section \<open>The queue of commands\<close>

text \<open>
  \<open>MQTTAsync_addCommand\<close>, on a command that has been allocated. Connecting and internal disconnecting go to
  the head of the queue, and are dropped if the head is one of the same kind for the same client.
\<close>

definition urgent :: "MQTTAsync_command \<Rightarrow> bool" where
  "urgent c \<longleftrightarrow> (case cmd_details c of Connect_Command _ _ \<Rightarrow> True | Disconnect_Command internal _ \<Rightarrow> internal | _ \<Rightarrow> False)"

definition MQTTAsync_addCommand :: "'v async_env \<Rightarrow> addr \<Rightarrow> 'v astate \<Rightarrow> 'v astate option" where
  "MQTTAsync_addCommand env a st = do {
     q \<leftarrow> deref a st;
     let q = q\<lparr>qc_command := (qc_command q)\<lparr>cmd_start_time := ae_clock env (ps_world st)\<rparr>\<rparr>;
     let st = set_command a q st;
     if urgent (qc_command q) then do {
       duplicate \<leftarrow> (case as_commands (ps_world st) of
           [] \<Rightarrow> Some False
         | b # _ \<Rightarrow> do {
             h \<leftarrow> deref b st;
             Some (qc_client h = qc_client q \<and> cmd_type (qc_command h) = cmd_type (qc_command q))
           });
       if duplicate then MQTTAsync_freeCommand a st
       else Some (on_world (\<lambda>w. w\<lparr>as_commands := a # as_commands w\<rparr>) st)
     }
     else do {
       let st = on_world (\<lambda>w. w\<lparr>as_commands := as_commands w @ [a]\<rparr>) st;
       if cl_persistence (get_client (qc_client q) st) then MQTTAsync_persistCommand env a st else Some st
     }
   }"

definition new_command :: "nat \<Rightarrow> MQTTAsync_command \<Rightarrow> MQTTAsync_queuedCommand" where
  "new_command i c = \<lparr>qc_command = c, qc_client = i, qc_seqno = 0\<rparr>"

definition queue_command :: "'v async_env \<Rightarrow> nat \<Rightarrow> MQTTAsync_command \<Rightarrow> 'v astate \<Rightarrow> 'v astate option" where
  "queue_command env i c st = (let (a, st) = malloc_command (new_command i c) st in MQTTAsync_addCommand env a st)"

text \<open>The value of an arithmetic expression of type \<open>int\<close>; an overflow is undefined behaviour.\<close>

definition int_value :: "int \<Rightarrow> int option" where
  "int_value v = (if fits_int v then Some v else None)"

definition MQTTAsync_startConnectRetry :: "'v async_env \<Rightarrow> nat \<Rightarrow> 'v astate \<Rightarrow> 'v astate option" where
  "MQTTAsync_startConnectRetry env i st =
     (let m = get_handle i st in
      if ma_automaticReconnect m \<and> ma_shouldBeConnected m
      then let m = m\<lparr>ma_lastConnectionFailedTime := ae_clock env (ps_world st)\<rparr> in
        if ma_retrying m
        then map_option (\<lambda>doubled. set_handle i (m\<lparr>ma_currentInterval := min doubled (ma_maxRetryInterval m)\<rparr>) st)
          (int_value (ma_currentInterval m * 2))
        else Some (set_handle i (m\<lparr>ma_currentInterval := ma_minRetryInterval m, ma_retrying := True\<rparr>) st)
      else Some st)"

definition restart_versions :: "MQTTAsync_command \<Rightarrow> MQTTAsync_command" where
  "restart_versions c = (case cmd_details c of Connect_Command currentURI _ \<Rightarrow> c\<lparr>cmd_details := Connect_Command currentURI 0\<rparr> | _ \<Rightarrow> c)"

definition MQTTAsync_reconnect :: "'v async_env \<Rightarrow> nat \<Rightarrow> 'v astate \<Rightarrow> (int \<times> 'v astate) option" where
  "MQTTAsync_reconnect env i st =
     (let m = get_handle i st in
      if ma_automaticReconnect m then
        if ma_shouldBeConnected m then
          let m = m\<lparr>ma_reconnectNow := True\<rparr> in
          Some (MQTTASYNC_SUCCESS, set_handle i (if \<not> ma_retrying m
            then m\<lparr>ma_currentInterval := ma_minRetryInterval m, ma_retrying := True\<rparr> else m) st)
        else Some (MQTTASYNC_FAILURE, st)
      else do {
        st \<leftarrow> queue_command env i (if cl_MQTTVersion (get_client i st) = 0 then restart_versions (ma_connect m) else ma_connect m) st;
        Some (MQTTASYNC_SUCCESS, st)
      })"

definition MQTTAsync_checkConn :: "MQTTAsync_command \<Rightarrow> nat \<Rightarrow> 'v astate \<Rightarrow> bool" where
  "MQTTAsync_checkConn c i st = (case cmd_details c of
     Connect_Command currentURI MQTTVersion \<Rightarrow>
       currentURI < int (ma_serverURIcount (get_handle i st)) \<or> MQTTVersion = 4 \<and> cl_MQTTVersion (get_client i st) = 0
   | _ \<Rightarrow> False)"

text \<open>
  \<open>MQTTAsync_disconnect1\<close> and \<open>MQTTAsync_disconnect_internal\<close>. Here and below a number that no client has stands for
  a null handle.
\<close>

definition null_handle :: "nat \<Rightarrow> 'v astate \<Rightarrow> bool" where
  "null_handle i st \<longleftrightarrow> length (as_handles (ps_world st)) \<le> i"

definition MQTTAsync_disconnect1 ::
    "'v async_env \<Rightarrow> nat \<Rightarrow> nat option \<Rightarrow> nat option \<Rightarrow> int \<Rightarrow> bool \<Rightarrow> 'v astate \<Rightarrow> (int \<times> 'v astate) option" where
  "MQTTAsync_disconnect1 env i onSuccess onFailure timeout internal st =
     (if null_handle i st then Some (MQTTASYNC_FAILURE, st)
      else let st = (if internal then st else set_handle i ((get_handle i st)\<lparr>ma_shouldBeConnected := False\<rparr>) st) in
      if \<not> cl_connected (get_client i st) then Some (MQTTASYNC_DISCONNECTED, st)
      else do {
        st \<leftarrow> queue_command env i \<lparr>cmd_onSuccess = onSuccess, cmd_onFailure = onFailure, cmd_token = 0, cmd_start_time = 0,
          cmd_details = Disconnect_Command internal timeout\<rparr> st;
        Some (MQTTASYNC_SUCCESS, st)
      })"

definition MQTTAsync_disconnect_internal :: "'v async_env \<Rightarrow> nat \<Rightarrow> int \<Rightarrow> 'v astate \<Rightarrow> 'v astate option" where
  "MQTTAsync_disconnect_internal env i timeout st = map_option snd (MQTTAsync_disconnect1 env i None None timeout True st)"

text \<open>
  The protocol's operations with this module's \<open>MQTTProtocol_closeSession\<close>, a call of
  \<open>MQTTAsync_disconnect_internal\<close>. It has no undefined behaviour as long as the commands of the queue are
  allocated.
\<close>

definition MQTTProtocol_closeSession :: "'v async_env \<Rightarrow> nat \<Rightarrow> 'v astate \<Rightarrow> 'v astate" where
  "MQTTProtocol_closeSession env i st = (case MQTTAsync_disconnect_internal env i 0 st of None \<Rightarrow> st | Some st' \<Rightarrow> st')"

definition protocol :: "'v async_env \<Rightarrow> 'v async proto_ops" where
  "protocol env = (ae_po env)\<lparr>po_closeSession := MQTTProtocol_closeSession env\<rparr>"

end
