(* ===== verification/AsyncThreads.thy ===== *)
theory AsyncThreads
  imports AsyncQueue
begin

text \<open>
  The threads of \<open>lib/MQTTAsync.c\<close>: closing and cleaning a session, the sending thread's \<open>MQTTAsync_processCommand\<close>
  and \<open>MQTTAsync_checkTimeouts\<close>, what the receiving thread does with a packet, and the functions of the
  application's interface.
\<close>

section \<open>Closing\<close>

text \<open>
  \<open>MQTTAsync_removeResponsesAndCommands\<close>: the commands that wait for a response and then those in the queue fail.
\<close>

fun fail_responses :: "addr list \<Rightarrow> 'v astate \<Rightarrow> 'v astate option" where
  "fail_responses [] st = Some st"
| "fail_responses (a # as) st = do {
     q \<leftarrow> deref a st;
     st \<leftarrow> MQTTAsync_freeCommand a (answered a False (call_onFailure (qc_command q) MQTTASYNC_OPERATION_INCOMPLETE st));
     fail_responses as st
   }"

definition detach_command :: "addr \<Rightarrow> 'v astate \<Rightarrow> 'v astate" where
  "detach_command a st = on_world (\<lambda>w. w\<lparr>as_commands := remove1 a (as_commands w)\<rparr>) st"

fun fail_commands :: "nat \<Rightarrow> addr list \<Rightarrow> 'v astate \<Rightarrow> 'v astate option" where
  "fail_commands i [] st = Some st"
| "fail_commands i (a # as) st = do {
     q \<leftarrow> deref a st;
     if qc_client q = i then do {
       st \<leftarrow> MQTTAsync_freeCommand a
         (answered a False (call_onFailure (qc_command q) MQTTASYNC_OPERATION_INCOMPLETE (detach_command a st)));
       fail_commands i as st
     }
     else fail_commands i as st
   }"

definition MQTTAsync_removeResponsesAndCommands :: "nat \<Rightarrow> 'v astate \<Rightarrow> 'v astate option" where
  "MQTTAsync_removeResponsesAndCommands i st = do {
     st \<leftarrow> fail_responses (ma_responses (get_handle i st)) st;
     let st = set_handle i ((get_handle i st)\<lparr>ma_responses := []\<rparr>) st;
     fail_commands i (as_commands (ps_world st)) st
   }"

definition MQTTAsync_cleanSession :: "'v async_env \<Rightarrow> nat \<Rightarrow> 'v astate \<Rightarrow> (int \<times> 'v astate) option" where
  "MQTTAsync_cleanSession env i st = do {
     let (rc, st) = MQTTPersistence_clear (ae_pe env) i st;
     (inbound, st) \<leftarrow> MQTTProtocol_emptyMessageList (cl_inboundMsgs (get_client i st)) st;
     let st = set_client i ((get_client i st)\<lparr>cl_inboundMsgs := inbound\<rparr>) st;
     (outbound, st) \<leftarrow> MQTTProtocol_emptyMessageList (cl_outboundMsgs (get_client i st)) st;
     let st = set_client i (MQTTClient_emptyMessageQueue ((get_client i st)\<lparr>cl_outboundMsgs := outbound\<rparr>)\<lparr>cl_msgID := 0\<rparr>) st;
     st \<leftarrow> MQTTAsync_removeResponsesAndCommands i st;
     Some (rc, st)
   }"

definition close_socket :: "'v async_env \<Rightarrow> nat \<Rightarrow> 'v astate \<Rightarrow> 'v astate" where
  "close_socket env i st =
     (let st = on_world (\<lambda>w. ae_close env w (nh_socket (cl_net (get_client i st)))) st; c = get_client i st in
      set_client i (c\<lparr>cl_net := (cl_net c)\<lparr>nh_socket := 0\<rparr>\<rparr>) st)"

definition MQTTAsync_closeOnly :: "'v async_env \<Rightarrow> nat \<Rightarrow> 'v astate \<Rightarrow> 'v astate option" where
  "MQTTAsync_closeOnly env i st = do {
     let st = set_client i ((get_client i st)\<lparr>cl_good := False, cl_ping_outstanding := False\<rparr>) st;
     st \<leftarrow> (if nh_socket (cl_net (get_client i st)) > 0 then do {
         st \<leftarrow> (if cl_connected (get_client i st)
                then map_option snd (client_send i (MQTTPacket_send_disconnect (po_net (protocol env))) st) else Some st);
         Some (close_socket env i st)
       } else Some st);
     Some (set_client i ((get_client i st)\<lparr>cl_connected := False, cl_connect_state := 0\<rparr>) st)
   }"

definition MQTTAsync_closeSession :: "'v async_env \<Rightarrow> nat \<Rightarrow> 'v astate \<Rightarrow> 'v astate option" where
  "MQTTAsync_closeSession env i st = do {
     st \<leftarrow> MQTTAsync_closeOnly env i st;
     if cl_cleansession (get_client i st) then map_option snd (MQTTAsync_cleanSession env i st) else Some st
   }"

text \<open>\<open>MQTTAsync_checkDisconnect\<close>, on the copy of a command for disconnecting.\<close>

definition MQTTAsync_checkDisconnect :: "'v async_env \<Rightarrow> nat \<Rightarrow> MQTTAsync_command \<Rightarrow> 'v astate \<Rightarrow> 'v astate option" where
  "MQTTAsync_checkDisconnect env i c st = (case cmd_details c of
     Disconnect_Command internal timeout \<Rightarrow>
       if elems (cl_outboundMsgs (get_client i st)) = [] \<or> timeout \<le> ae_clock env (ps_world st) - cmd_start_time c then do {
         let was_connected = cl_connected (get_client i st);
         st \<leftarrow> MQTTAsync_closeSession env i st;
         if internal then
           MQTTAsync_startConnectRetry env i
             (if ma_cl (get_handle i st) \<and> was_connected then notify (Call_connectionLost i) st else st)
         else Some (call_onSuccess c st)
       }
       else Some st
   | _ \<Rightarrow> Some st)"

text \<open>What four places of the code do when an attempt to connect has failed: the next one, or the end.\<close>

definition connect_failed :: "'v async_env \<Rightarrow> nat \<Rightarrow> int \<Rightarrow> 'v astate \<Rightarrow> 'v astate option" where
  "connect_failed env i code st =
     (if MQTTAsync_checkConn (ma_connect (get_handle i st)) i st then do {
        st \<leftarrow> MQTTAsync_closeOnly env i st;
        queue_command env i (ma_connect (get_handle i st)) st
      }
      else do {
        st \<leftarrow> MQTTAsync_closeSession env i st;
        MQTTAsync_startConnectRetry env i (call_onFailure (ma_connect (get_handle i st)) code st)
      })"

section \<open>The sending thread\<close>

text \<open>
  The search of \<open>MQTTAsync_processCommand\<close> for a command to process. When a client's command cannot be processed
  now, the client's later commands are skipped.
\<close>

fun pick_command :: "'v async_env \<Rightarrow> addr list \<Rightarrow> nat list \<Rightarrow> 'v astate \<Rightarrow> (addr option \<times> 'v astate) option" where
  "pick_command env [] ignored st = Some (None, st)"
| "pick_command env (a # as) ignored st = do {
     q \<leftarrow> deref a st;
     let i = qc_client q;
     let type = cmd_type (qc_command q);
     if i \<in> set ignored then pick_command env as ignored st
     else do {
       let (ready, st) = (if type = CONNECT \<or> type = DISCONNECT then (True, st)
         else if cl_connected (get_client i st) \<and> cl_connect_state (get_client i st) = 0
         then no_pending_writes (protocol env) i st else (False, st));
       if ready \<and> \<not> (type \<in> {PUBLISH, SUBSCRIBE, UNSUBSCRIBE} \<and>
           int (length (elems (cl_outboundMsgs (get_client i st)))) \<ge> MAX_MSG_ID - 1)
       then Some (Some a, st)
       else pick_command env as (ignored @ [i]) st
     }
   }"

definition strip_tcp :: "bytes \<Rightarrow> bytes" where
  "strip_tcp uri = (let URI_TCP = [116, 99, 112, 58, 47, 47] in
     if take (length URI_TCP) uri = URI_TCP then drop (length URI_TCP) uri else uri)"

text \<open>The server and the version of the protocol for the next attempt to connect.\<close>

definition next_server :: "nat \<Rightarrow> int \<Rightarrow> int \<Rightarrow> 'v astate \<Rightarrow> (bytes \<times> int \<times> int) option" where
  "next_server i currentURI MQTTVersion st =
     (let m = get_handle i st in
      if ma_serverURIcount m > 0 then do {
        let (currentURI, MQTTVersion) = (if cl_MQTTVersion (get_client i st) = 0
          then (if MQTTVersion = 3 then (currentURI + 1, 0) else (currentURI, MQTTVersion))
          else (currentURI + 1, MQTTVersion));
        uris \<leftarrow> ma_serverURIs m;
        uri \<leftarrow> (if 0 \<le> currentURI \<and> nat currentURI < length uris then Some (uris ! nat currentURI) else None);
        Some (strip_tcp uri, currentURI, MQTTVersion)
      }
      else Some (ma_serverURI m, currentURI, MQTTVersion))"

definition next_version :: "int \<Rightarrow> int \<Rightarrow> int" where
  "next_version client_version MQTTVersion =
     (if client_version = 0 then (if MQTTVersion = 0 then 4 else if MQTTVersion = 4 then 3 else MQTTVersion)
      else client_version)"

definition process_connect :: "'v async_env \<Rightarrow> addr \<Rightarrow> nat \<Rightarrow> int \<Rightarrow> int \<Rightarrow> 'v astate \<Rightarrow> (int \<times> 'v astate) option" where
  "process_connect env a i currentURI MQTTVersion st =
     (if cl_connect_state (get_client i st) \<noteq> 0 \<or> cl_connected (get_client i st) then Some (0, st)
      else do {
        (serverURI, currentURI, MQTTVersion) \<leftarrow> next_server i currentURI MQTTVersion st;
        let MQTTVersion = next_version (cl_MQTTVersion (get_client i st)) MQTTVersion;
        q \<leftarrow> deref a st;
        let st = set_command a (q\<lparr>qc_command := (qc_command q)\<lparr>cmd_details := Connect_Command currentURI MQTTVersion\<rparr>\<rparr>) st;
        (rc, st) \<leftarrow> MQTTProtocol_connect (protocol env) serverURI i MQTTVersion st;
        let rc = (if cl_connect_state (get_client i st) = 0 then SOCKET_ERROR else rc);
        Some (rc, if rc = 115 then on_world (\<lambda>w. ae_addPendingWrite env w (nh_socket (cl_net (get_client i st)))) st else st)
      })"

text \<open>
  Publishing: \<open>mem\<close> holds the addresses of the new message and publication, and what is in the fields of
  the packet that are not set.
\<close>

record publish_mem =
  pmem_msg :: addr
  pmem_pub :: addr
  pmem_next :: nat
  pmem_header :: Header
  pmem_topiclen :: int

definition process_publish ::
    "'v async_env \<Rightarrow> publish_mem \<Rightarrow> addr \<Rightarrow> nat \<Rightarrow> bytes option \<Rightarrow> bytes \<Rightarrow> int \<Rightarrow> int \<Rightarrow> 'v astate \<Rightarrow> (int \<times> 'v astate) option" where
  "process_publish env mem a i dest payload qos retained st = do {
     q \<leftarrow> deref a st;
     let c = qc_command q;
     let p = \<lparr>pub_header = pmem_header mem, pub_topic = dest, pub_topiclen = pmem_topiclen mem, pub_msgId = cmd_token c,
       pub_payload = payload, pub_payloadlen = int (length payload)\<rparr>;
     (rc, mm, st) \<leftarrow> MQTTProtocol_startPublish (protocol env) i p qos retained None (pmem_msg mem) (pmem_pub mem) (pmem_next mem) st;
     let handed_over = set_command a (q\<lparr>qc_command := c\<lparr>cmd_details := Publish_Command None payload qos retained\<rparr>\<rparr>) st;
     Some (rc, if qos = 0 then
         (if rc = TCPSOCKET_COMPLETE then answered a True (call_onSuccess c st)
          else set_handle i ((get_handle i st)\<lparr>ma_pending_write := Some a\<rparr>) handed_over)
       else handed_over)
   }"

definition process_details ::
    "'v async_env \<Rightarrow> publish_mem \<Rightarrow> addr \<Rightarrow> nat \<Rightarrow> MQTTAsync_command \<Rightarrow> 'v astate \<Rightarrow> (int \<times> 'v astate) option" where
  "process_details env mem a i c st = (case cmd_details c of
     Connect_Command currentURI MQTTVersion \<Rightarrow> process_connect env a i currentURI MQTTVersion st
   | Subscribe_Command topics qoss \<Rightarrow> MQTTProtocol_subscribe (protocol env) i topics qoss (cmd_token c) st
   | Unsubscribe_Command topics \<Rightarrow> MQTTProtocol_unsubscribe (protocol env) i topics (cmd_token c) st
   | Publish_Command dest payload qos retained \<Rightarrow> process_publish env mem a i dest payload qos retained st
   | Disconnect_Command internal timeout \<Rightarrow>
       if cl_connect_state (get_client i st) \<noteq> 0 \<or> cl_connected (get_client i st)
       then map_option (Pair 0) (MQTTAsync_checkDisconnect env i c (set_client i ((get_client i st)\<lparr>cl_connect_state := -2\<rparr>) st))
       else Some (0, st))"

definition append_response :: "addr \<Rightarrow> nat \<Rightarrow> 'v astate \<Rightarrow> 'v astate" where
  "append_response a i st = set_handle i ((get_handle i st)\<lparr>ma_responses := ma_responses (get_handle i st) @ [a]\<rparr>) st"

text \<open>What becomes of a command whose request was refused by the network.\<close>

definition command_failed :: "'v async_env \<Rightarrow> addr \<Rightarrow> nat \<Rightarrow> MQTTAsync_command \<Rightarrow> 'v astate \<Rightarrow> 'v astate option" where
  "command_failed env a i c st =
     (if cmd_type c = CONNECT then do {
        (rc, st) \<leftarrow> MQTTAsync_disconnect1 env i None None 0 False st;
        let st = set_handle i ((get_handle i st)\<lparr>ma_shouldBeConnected := True\<rparr>) st;
        if MQTTAsync_checkConn c i st then MQTTAsync_addCommand env a st
        else MQTTAsync_freeCommand a (answered a False (call_onFailure c 0 st))
      }
      else do {
        st \<leftarrow> MQTTAsync_disconnect_internal env i 0 st;
        MQTTAsync_freeCommand a (answered a False (call_onFailure c 0 st))
      })"

definition finish_command :: "'v async_env \<Rightarrow> addr \<Rightarrow> nat \<Rightarrow> int \<Rightarrow> 'v astate \<Rightarrow> 'v astate option" where
  "finish_command env a i rc st = do {
     q \<leftarrow> deref a st;
     let c = qc_command q;
     let failed = (rc = SOCKET_ERROR \<or> rc = MQTTASYNC_PERSISTENCE_ERROR);
     (case cmd_details c of
        Connect_Command _ _ \<Rightarrow>
          if failed then command_failed env a i c st
          else MQTTAsync_freeCommand a (set_handle i ((get_handle i st)\<lparr>ma_connect := c\<rparr>) st)
      | Disconnect_Command _ _ \<Rightarrow> MQTTAsync_freeCommand a (set_handle i ((get_handle i st)\<lparr>ma_disconnect := c\<rparr>) st)
      | Publish_Command _ _ qos _ \<Rightarrow>
          if qos = 0 then (if rc = TCPSOCKET_INTERRUPTED then Some (append_response a i st) else MQTTAsync_freeCommand a st)
          else if failed then command_failed env a i c st
          else Some (append_response a i st)
      | _ \<Rightarrow> if failed then command_failed env a i c st else Some (append_response a i st))
   }"

text \<open>\<open>MQTTAsync_processCommand\<close>; the result is whether there was a command to process.\<close>

definition MQTTAsync_processCommand :: "'v async_env \<Rightarrow> publish_mem \<Rightarrow> 'v astate \<Rightarrow> (bool \<times> 'v astate) option" where
  "MQTTAsync_processCommand env mem st = do {
     (picked, st) \<leftarrow> pick_command env (as_commands (ps_world st)) [] st;
     (case picked of
        None \<Rightarrow> Some (False, st)
      | Some a \<Rightarrow> do {
          let st = detach_command a st;
          q \<leftarrow> deref a st;
          let i = qc_client q;
          st \<leftarrow> (if cl_persistence (get_client i st) then MQTTAsync_unpersistCommand env a st else Some st);
          (rc, st) \<leftarrow> process_details env mem a i (qc_command q) st;
          st \<leftarrow> finish_command env a i rc st;
          Some (True, st)
        })
   }"

text \<open>
  The body of \<open>MQTTAsync_checkTimeouts\<close>, which runs when three seconds have passed since the last time. The
  timeout of responses is switched off in the code.
\<close>

definition retry_connect :: "'v async_env \<Rightarrow> nat \<Rightarrow> 'v astate \<Rightarrow> 'v astate option" where
  "retry_connect env i st =
     (let m = get_handle i st in
      if ma_automaticReconnect m \<and> ma_retrying m then do {
        due \<leftarrow> (if ma_reconnectNow m then Some True
          else map_option (\<lambda>wait. ae_clock env (ps_world st) - ma_lastConnectionFailedTime m > wait) (int_value (ma_currentInterval m * 1000)));
        if due then do {
          st \<leftarrow> queue_command env i (if cl_MQTTVersion (get_client i st) = 0 then restart_versions (ma_connect m) else ma_connect m) st;
          Some (set_handle i ((get_handle i st)\<lparr>ma_reconnectNow := False\<rparr>) st)
        }
        else Some st
      }
      else Some st)"

definition check_timeout :: "'v async_env \<Rightarrow> nat \<Rightarrow> 'v astate \<Rightarrow> 'v astate option" where
  "check_timeout env i st =
     (let m = get_handle i st; now = ae_clock env (ps_world st) in do {
        timed_out \<leftarrow> (if cl_connect_state (get_client i st) \<noteq> 0
          then map_option (\<lambda>limit. now - cmd_start_time (ma_connect m) > limit) (int_value (ma_connectTimeout m * 1000)) else Some False);
        if timed_out then connect_failed env i MQTTASYNC_FAILURE st
        else do {
          st \<leftarrow> (if cl_connect_state (get_client i st) = -2 then MQTTAsync_checkDisconnect env i (ma_disconnect m) st else Some st);
          retry_connect env i st
        }
      })"

definition MQTTAsync_checkTimeouts :: "'v async_env \<Rightarrow> 'v astate \<Rightarrow> 'v astate option" where
  "MQTTAsync_checkTimeouts env st = each_client (check_timeout env) [0..<length (as_handles (ps_world st))] st"

section \<open>The receiving thread\<close>

text \<open>\<open>Protocol_processPublication\<close> of this module: an entry is queued if it could not be delivered at once.\<close>

definition async_processPublication ::
    "'v async_env \<Rightarrow> Publish \<Rightarrow> nat \<Rightarrow> 32 word \<Rightarrow> 'v astate \<Rightarrow> 'v astate option" where
  "async_processPublication env publish i seqno0 st = do {
     qe \<leftarrow> queue_entry publish seqno0;
     let c = get_client i st;
     let (delivered, w) = (if elems (cl_messageQueue c) = [] \<and> cl_connected c \<and> ma_ma (get_handle i st)
       then ae_deliver env i qe (ps_world st) else (False, ps_world st));
     let st = st\<lparr>ps_world := w\<rparr>;
     if delivered then Some st
     else do {
       (c, w) \<leftarrow> Protocol_processPublication (ae_pe env) publish seqno0 (get_client i st) (ps_world st);
       Some (set_client i c (st\<lparr>ps_world := w\<rparr>))
     }
   }"

text \<open>The first entry of the queue is offered to the application again.\<close>

definition deliver_queued :: "'v async_env \<Rightarrow> nat \<Rightarrow> 'v astate \<Rightarrow> 'v astate option" where
  "deliver_queued env i st = (case elems (cl_messageQueue (get_client i st)) of
     [] \<Rightarrow> Some st
   | qe # _ \<Rightarrow> do {
       let (delivered, w) = (if ma_ma (get_handle i st) then ae_deliver env i qe (ps_world st) else (True, ps_world st));
       let st = st\<lparr>ps_world := w\<rparr>;
       if delivered then do {
         let c = get_client i st;
         w \<leftarrow> (if cl_persistence c then map_option snd (MQTTPersistence_unpersistQueueEntry (ae_pe env) c qe (ps_world st))
               else Some (ps_world st));
         Some (set_client i (c\<lparr>cl_messageQueue := clist_detach_head (cl_messageQueue c)\<rparr>) (st\<lparr>ps_world := w\<rparr>))
       }
       else Some st
     })"

text \<open>\<open>MQTTAsync_completeConnection\<close>, for a CONNACK with the return code \<open>code\<close>.\<close>

fun reset_touch :: "addr list \<Rightarrow> 'v astate \<Rightarrow> 'v astate option" where
  "reset_touch [] st = Some st"
| "reset_touch (a # as) st = do {
     m \<leftarrow> ps_msgs st a;
     reset_touch as (st\<lparr>ps_msgs := (ps_msgs st)(a \<mapsto> m\<lparr>msg_lastTouch := 0\<rparr>)\<rparr>)
   }"

definition MQTTAsync_completeConnection :: "'v async_env \<Rightarrow> nat \<Rightarrow> int \<Rightarrow> 'v astate \<Rightarrow> (int \<times> 'v astate) option" where
  "MQTTAsync_completeConnection env i code st =
     (if cl_connect_state (get_client i st) \<noteq> 3 then Some (MQTTASYNC_FAILURE, st)
      else if code \<noteq> MQTTASYNC_SUCCESS then Some (code, st)
      else do {
        let st = set_handle i ((get_handle i st)\<lparr>ma_retrying := False\<rparr>) st;
        let st = set_client i ((get_client i st)\<lparr>cl_connected := True, cl_good := True, cl_connect_state := 0\<rparr>) st;
        (rc, st) \<leftarrow> (if cl_cleansession (get_client i st) then MQTTAsync_cleanSession env i st else Some (code, st));
        if elems (cl_outboundMsgs (get_client i st)) \<noteq> [] then do {
          st \<leftarrow> reset_touch (elems (cl_outboundMsgs (get_client i st))) st;
          st \<leftarrow> MQTTProtocol_retry (protocol env) 0 True True st;
          Some (if cl_connected (get_client i st) then rc else MQTTASYNC_DISCONNECTED, st)
        }
        else Some (rc, st)
      })"

definition receive_connack :: "'v async_env \<Rightarrow> nat \<Rightarrow> int \<Rightarrow> 'v astate \<Rightarrow> 'v astate option" where
  "receive_connack env i code st = do {
     (rc, st) \<leftarrow> MQTTAsync_completeConnection env i code st;
     if rc = MQTTASYNC_SUCCESS then do {
       let m = get_handle i st;
       let onSuccess = (cmd_onSuccess (ma_connect m) \<noteq> None);
       let st = call_onSuccess (ma_connect m) st;
       let st = set_handle i ((get_handle i st)\<lparr>ma_connect := (ma_connect (get_handle i st))\<lparr>cmd_onSuccess := None\<rparr>\<rparr>) st;
       Some (if ma_connected m then notify (Call_connected i onSuccess) st else st)
     }
     else connect_failed env i rc st
   }"

text \<open>The first command in the list of responses with a token.\<close>

fun find_response :: "int \<Rightarrow> addr list \<Rightarrow> 'v astate \<Rightarrow> addr option option" where
  "find_response tok [] st = Some None"
| "find_response tok (a # as) st = do {
     q \<leftarrow> deref a st;
     if cmd_token (qc_command q) = tok then Some (Some a) else find_response tok as st
   }"

text \<open>A command that has got its response leaves the list; \<open>code\<close> is that of a failure.\<close>

definition complete_response :: "nat \<Rightarrow> addr \<Rightarrow> int option \<Rightarrow> 'v astate \<Rightarrow> 'v astate option" where
  "complete_response i a code st = do {
     q \<leftarrow> deref a st;
     let m = get_handle i st;
     let st = set_handle i (m\<lparr>ma_responses := remove1 a (ma_responses m)\<rparr>) st;
     MQTTAsync_freeCommand a (case code of
       None \<Rightarrow> answered a True (call_onSuccess (qc_command q) st)
     | Some rc \<Rightarrow> answered a False (call_onFailure (qc_command q) rc st))
   }"

definition receive_suback :: "nat \<Rightarrow> Suback \<Rightarrow> int \<Rightarrow> 'v astate \<Rightarrow> 'v astate option" where
  "receive_suback i pack sock st = do {
     found \<leftarrow> find_response (sub_msgId pack) (ma_responses (get_handle i st)) st;
     st \<leftarrow> (case found of
         None \<Rightarrow> Some st
       | Some a \<Rightarrow> complete_response i a (if sub_qoss pack = [MQTT_BAD_SUBSCRIBE] then Some MQTT_BAD_SUBSCRIBE else None) st);
     map_option snd (MQTTProtocol_handleSubacks pack sock st)
   }"

definition receive_unsuback :: "nat \<Rightarrow> Ack \<Rightarrow> int \<Rightarrow> 'v astate \<Rightarrow> 'v astate option" where
  "receive_unsuback i pack sock st = do {
     found \<leftarrow> find_response (ack_msgId pack) (ma_responses (get_handle i st)) st;
     st \<leftarrow> (case found of None \<Rightarrow> Some st | Some a \<Rightarrow> complete_response i a None st);
     map_option snd (MQTTProtocol_handleUnsubacks pack sock st)
   }"

text \<open>PUBACK and PUBCOMP, which \<open>MQTTAsync_cycle\<close> handles itself.\<close>

definition receive_puback :: "'v async_env \<Rightarrow> nat \<Rightarrow> bool \<Rightarrow> Ack \<Rightarrow> int \<Rightarrow> 'v astate \<Rightarrow> 'v astate option" where
  "receive_puback env i pubcomp ack sock st = do {
     (rc, st) \<leftarrow> (if pubcomp then MQTTProtocol_handlePubcomps (protocol env) ack sock st
                  else MQTTProtocol_handlePubacks (protocol env) ack sock st);
     let st = (if ma_dc (get_handle i st) then notify (Call_deliveryComplete i (ack_msgId ack)) st else st);
     found \<leftarrow> find_response (ack_msgId ack) (ma_responses (get_handle i st)) st;
     (case found of None \<Rightarrow> Some st | Some a \<Rightarrow> complete_response i a None st)
   }"

text \<open>An error of the socket.\<close>

definition receive_error :: "'v async_env \<Rightarrow> nat \<Rightarrow> 'v astate \<Rightarrow> 'v astate option" where
  "receive_error env i st =
     (if cl_connected (get_client i st) then MQTTAsync_disconnect_internal env i 0 st else MQTTAsync_closeOnly env i st)"

text \<open>\<open>MQTTAsync_connecting\<close>, when the socket of a client that is connecting is ready.\<close>

definition tcp_connected :: "'v async_env \<Rightarrow> nat \<Rightarrow> 'v astate \<Rightarrow> (int \<times> 'v astate) option" where
  "tcp_connected env i st =
     (let sock = nh_socket (cl_net (get_client i st)) in
      case ae_so_error env (ps_world st) sock of (error, w) \<Rightarrow>
        let st = st\<lparr>ps_world := w\<rparr> in
        if error \<noteq> 0 then Some (error, st)
        else
          let st = on_world (\<lambda>w. ae_clearPendingWrite env w sock) st;
              st = set_client i ((get_client i st)\<lparr>cl_connect_state := 3\<rparr>) st in
          case cmd_details (ma_connect (get_handle i st)) of
            Connect_Command _ MQTTVersion \<Rightarrow> do {
              (rc, c, w) \<leftarrow> MQTTPacket_send_connect (po_net (protocol env)) (get_client i st) MQTTVersion (ps_world st);
              Some (rc, set_client i c (st\<lparr>ps_world := w\<rparr>))
            }
          | _ \<Rightarrow> None)"

definition MQTTAsync_connecting :: "'v async_env \<Rightarrow> nat \<Rightarrow> 'v astate \<Rightarrow> (int \<times> 'v astate) option" where
  "MQTTAsync_connecting env i st = do {
     (rc, st) \<leftarrow> (if cl_connect_state (get_client i st) = 1 then tcp_connected env i st else Some (-1, st));
     if rc \<noteq> 0 \<and> rc \<noteq> TCPSOCKET_INTERRUPTED \<and> cl_connect_state (get_client i st) \<noteq> 2
     then map_option (Pair rc) (connect_failed env i MQTTASYNC_FAILURE st)
     else Some (rc, st)
   }"

text \<open>\<open>MQTTAsync_retry\<close>; \<open>due\<close>: more than five seconds have passed since the last time.\<close>

definition MQTTAsync_retry :: "'v async_env \<Rightarrow> int \<Rightarrow> bool \<Rightarrow> 'v astate \<Rightarrow> 'v astate option" where
  "MQTTAsync_retry env now due st =
     (if due then Option.bind (MQTTProtocol_keepalive (protocol env) now st) (MQTTProtocol_retry (protocol env) now True False)
      else MQTTProtocol_retry (protocol env) now False False st)"

text \<open>
  \<open>MQTTAsync_writeComplete\<close>, the socket layer's callback when a pending write has been finished. The search
  for the command compares its client's pending write with this client's.
\<close>

fun check_pending_writes :: "'v async_env \<Rightarrow> (int \<times> addr) list \<Rightarrow> 'v astate \<Rightarrow> 'v astate option" where
  "check_pending_writes env [] st = Some st"
| "check_pending_writes env ((sock, p) # les) st = do {
     let (none, w) = po_noPendingWrites (protocol env) (ps_world st) sock;
     let st = st\<lparr>ps_world := w\<rparr>;
     if none then do {
       st \<leftarrow> MQTTProtocol_removePublication p st;
       check_pending_writes env les
         (st\<lparr>ps_pending_writes := (ps_pending_writes st)\<lparr>elems := remove1 (sock, p) (elems (ps_pending_writes st))\<rparr>\<rparr>)
     }
     else check_pending_writes env les st
   }"

definition MQTTProtocol_checkPendingWrites :: "'v async_env \<Rightarrow> 'v astate \<Rightarrow> 'v astate option" where
  "MQTTProtocol_checkPendingWrites env st = check_pending_writes env (elems (ps_pending_writes st)) st"

fun find_pending :: "addr option \<Rightarrow> addr list \<Rightarrow> 'v astate \<Rightarrow> addr option option" where
  "find_pending pending [] st = Some None"
| "find_pending pending (a # as) st = do {
     q \<leftarrow> deref a st;
     if ma_pending_write (get_handle (qc_client q) st) = pending then Some (Some a) else find_pending pending as st
   }"

definition MQTTAsync_writeComplete :: "'v async_env \<Rightarrow> int \<Rightarrow> int \<Rightarrow> 'v astate \<Rightarrow> 'v astate option" where
  "MQTTAsync_writeComplete env now sock st = do {
     st \<leftarrow> MQTTProtocol_checkPendingWrites env st;
     (case find_index (\<lambda>c. nh_socket (cl_net c) = sock) (elems (ps_clients st)) of
        None \<Rightarrow> Some st
      | Some i \<Rightarrow> do {
          let c = get_client i st;
          let st = set_client i (c\<lparr>cl_net := (cl_net c)\<lparr>nh_lastSent := now\<rparr>\<rparr>) st;
          (case ma_pending_write (get_handle i st) of
             None \<Rightarrow> Some st
           | Some p \<Rightarrow> do {
               command \<leftarrow> deref p st;
               cur \<leftarrow> find_pending (Some p) (ma_responses (get_handle i st)) st;
               com \<leftarrow> (case cur of Some a \<Rightarrow> Some a
                 | None \<Rightarrow> if ma_responses (get_handle i st) = [] then None else Some (last (ma_responses (get_handle i st))));
               let st = (if cur \<noteq> None then answered p True (call_onSuccess (qc_command command) st) else st);
               let m = get_handle i st;
               let st = set_handle i (m\<lparr>ma_pending_write := None, ma_responses := remove1 com (ma_responses m)\<rparr>) st;
               MQTTAsync_freeCommand com st
             })
        })
   }"

end
