(* ===== verification/AsyncApi.thy ===== *)
theory AsyncApi
  imports AsyncThreads
begin

text \<open>
  The functions of \<open>lib/MQTTAsync.c\<close> that the application calls: creating and destroying a client, the requests,
  which only put a command into the queue, and the questions about tokens.
\<close>

abbreviation (input) MQTTASYNC_TRUE :: int where "MQTTASYNC_TRUE \<equiv> 1"

section \<open>Tokens\<close>

text \<open>
  \<open>MQTTAsync_assignMsgId\<close> looks a token up in the queue, which holds the commands of all clients, and in the
  client's list of responses. The loop may run forever, which is the value \<open>None\<close>.
\<close>

definition token_used :: "nat \<Rightarrow> int \<Rightarrow> 'v astate \<Rightarrow> bool option" where
  "token_used i msgid st = do {
     found \<leftarrow> find_response msgid (as_commands (ps_world st)) st;
     (case found of Some _ \<Rightarrow> Some True
      | None \<Rightarrow> map_option (\<lambda>found. found \<noteq> None) (find_response msgid (ma_responses (get_handle i st)) st))
   }"

partial_function (option) next_token :: "(int \<Rightarrow> bool option) \<Rightarrow> int \<Rightarrow> int \<Rightarrow> int option" where
  "next_token used start_msgid msgid = do {
     u \<leftarrow> used msgid;
     if \<not> u then Some msgid
     else let msgid = next_msgid msgid in if msgid = start_msgid then Some 0 else next_token used start_msgid msgid
   }"

declare next_token.simps [code]

definition MQTTAsync_assignMsgId :: "nat \<Rightarrow> 'v astate \<Rightarrow> (int \<times> 'v astate) option" where
  "MQTTAsync_assignMsgId i st = do {
     let start_msgid = cl_msgID (get_client i st);
     msgid \<leftarrow> next_token (\<lambda>msgid. token_used i msgid st) start_msgid (next_msgid start_msgid);
     Some (msgid, if msgid \<noteq> 0 then set_client i ((get_client i st)\<lparr>cl_msgID := msgid\<rparr>) st else st)
   }"

section \<open>Requests\<close>

text \<open>
  A request has the callbacks \<open>onSuccess\<close> and \<open>onFailure\<close>; its token is the third part of the result, 0 when
  there is none. The topics of a request are checked in turn.
\<close>

fun check_topics :: "bool \<Rightarrow> (bytes \<times> int) list \<Rightarrow> int option" where
  "check_topics sg [] = Some MQTTASYNC_SUCCESS"
| "check_topics sg ((topic, qos) # rest) = do {
     valid \<leftarrow> UTF8_validateString sg (c_string topic);
     if valid = 0 then Some MQTTASYNC_BAD_UTF8_STRING
     else if qos < 0 \<or> qos > 2 then Some MQTTASYNC_BAD_QOS
     else check_topics sg rest
   }"

definition queue_request ::
    "'v async_env \<Rightarrow> nat \<Rightarrow> nat option \<Rightarrow> nat option \<Rightarrow> int \<Rightarrow> cmd_details \<Rightarrow> 'v astate \<Rightarrow> (int \<times> int \<times> 'v astate) option" where
  "queue_request env i onSuccess onFailure msgid details st = do {
     st \<leftarrow> queue_command env i \<lparr>cmd_onSuccess = onSuccess, cmd_onFailure = onFailure, cmd_token = msgid, cmd_start_time = 0,
       cmd_details = details\<rparr> st;
     Some (MQTTASYNC_SUCCESS, msgid, st)
   }"

definition request_topics ::
    "'v async_env \<Rightarrow> nat \<Rightarrow> (bytes \<times> int) list \<Rightarrow> nat option \<Rightarrow> nat option \<Rightarrow> cmd_details \<Rightarrow> 'v astate \<Rightarrow> (int \<times> int \<times> 'v astate) option" where
  "request_topics env i topics onSuccess onFailure details st =
     (if null_handle i st then Some (MQTTASYNC_FAILURE, 0, st)
      else if \<not> cl_connected (get_client i st) then Some (MQTTASYNC_DISCONNECTED, 0, st)
      else do {
        rc \<leftarrow> check_topics (ae_char_signed env) topics;
        if rc \<noteq> MQTTASYNC_SUCCESS then Some (rc, 0, st)
        else do {
          (msgid, st) \<leftarrow> MQTTAsync_assignMsgId i st;
          if msgid = 0 then Some (MQTTASYNC_NO_MORE_MSGIDS, 0, st)
          else queue_request env i onSuccess onFailure msgid details st
        }
      })"

definition MQTTAsync_subscribeMany ::
    "'v async_env \<Rightarrow> nat \<Rightarrow> (bytes \<times> int) list \<Rightarrow> nat option \<Rightarrow> nat option \<Rightarrow> 'v astate \<Rightarrow> (int \<times> int \<times> 'v astate) option" where
  "MQTTAsync_subscribeMany env i topics onSuccess onFailure st =
     request_topics env i topics onSuccess onFailure (Subscribe_Command (map (c_string \<circ> fst) topics) (map snd topics)) st"

definition MQTTAsync_unsubscribeMany ::
    "'v async_env \<Rightarrow> nat \<Rightarrow> bytes list \<Rightarrow> nat option \<Rightarrow> nat option \<Rightarrow> 'v astate \<Rightarrow> (int \<times> int \<times> 'v astate) option" where
  "MQTTAsync_unsubscribeMany env i topics onSuccess onFailure st =
     request_topics env i (map (\<lambda>t. (t, 0)) topics) onSuccess onFailure (Unsubscribe_Command (map c_string topics)) st"

definition MQTTAsync_subscribe ::
    "'v async_env \<Rightarrow> nat \<Rightarrow> bytes \<Rightarrow> int \<Rightarrow> nat option \<Rightarrow> nat option \<Rightarrow> 'v astate \<Rightarrow> (int \<times> int \<times> 'v astate) option" where
  "MQTTAsync_subscribe env i topic qos onSuccess onFailure st = MQTTAsync_subscribeMany env i [(topic, qos)] onSuccess onFailure st"

definition MQTTAsync_unsubscribe ::
    "'v async_env \<Rightarrow> nat \<Rightarrow> bytes \<Rightarrow> nat option \<Rightarrow> nat option \<Rightarrow> 'v astate \<Rightarrow> (int \<times> int \<times> 'v astate) option" where
  "MQTTAsync_unsubscribe env i topic onSuccess onFailure st = MQTTAsync_unsubscribeMany env i [topic] onSuccess onFailure st"

fun count_publishes :: "nat \<Rightarrow> addr list \<Rightarrow> 'v astate \<Rightarrow> int option" where
  "count_publishes i [] st = Some 0"
| "count_publishes i (a # as) st = do {
     q \<leftarrow> deref a st;
     n \<leftarrow> count_publishes i as st;
     Some (if qc_client q = i \<and> cmd_type (qc_command q) = PUBLISH then n + 1 else n)
   }"

definition MQTTAsync_countBufferedMessages :: "nat \<Rightarrow> 'v astate \<Rightarrow> int option" where
  "MQTTAsync_countBufferedMessages i st = count_publishes i (as_commands (ps_world st)) st"

text \<open>\<open>MQTTAsync_send\<close>: a token is taken before the number of messages in the queue is looked at.\<close>

definition MQTTAsync_send ::
    "'v async_env \<Rightarrow> nat \<Rightarrow> bytes \<Rightarrow> int \<Rightarrow> bytes \<Rightarrow> int \<Rightarrow> int \<Rightarrow> nat option \<Rightarrow> nat option \<Rightarrow> 'v astate \<Rightarrow>
     (int \<times> int \<times> 'v astate) option" where
  "MQTTAsync_send env i destinationName payloadlen payload qos retained onSuccess onFailure st =
     (let m = get_handle i st in
      if null_handle i st then Some (MQTTASYNC_FAILURE, 0, st)
      else if \<not> cl_connected (get_client i st) \<and>
         ((case ma_createOptions m of None \<Rightarrow> True | Some (sendWhileDisconnected, _) \<Rightarrow> \<not> sendWhileDisconnected) \<or> \<not> ma_shouldBeConnected m)
      then Some (MQTTASYNC_DISCONNECTED, 0, st)
      else do {
        valid \<leftarrow> UTF8_validateString (ae_char_signed env) (c_string destinationName);
        if valid = 0 then Some (MQTTASYNC_BAD_UTF8_STRING, 0, st)
        else if qos < 0 \<or> qos > 2 then Some (MQTTASYNC_BAD_QOS, 0, st)
        else do {
          (msgid, st) \<leftarrow> (if qos > 0 then MQTTAsync_assignMsgId i st else Some (0, st));
          if qos > 0 \<and> msgid = 0 then Some (MQTTASYNC_NO_MORE_MSGIDS, 0, st)
          else do {
            full \<leftarrow> (case ma_createOptions m of None \<Rightarrow> Some False
              | Some (_, maxBufferedMessages) \<Rightarrow> map_option (\<lambda>n. n \<ge> maxBufferedMessages) (MQTTAsync_countBufferedMessages i st));
            if full then Some (MQTTASYNC_MAX_BUFFERED_MESSAGES, 0, st)
            else do {
              payload \<leftarrow> (if 0 \<le> payloadlen \<and> nat payloadlen \<le> length payload then Some (take (nat payloadlen) payload) else None);
              queue_request env i onSuccess onFailure msgid (Publish_Command (Some (c_string destinationName)) payload qos retained) st
            }
          }
        }
      })"

text \<open>\<open>MQTTAsync_freeServerURIs\<close>: an empty list stands for the null pointer. The count is not reset.\<close>

definition MQTTAsync_freeServerURIs :: "MQTTAsyncs \<Rightarrow> MQTTAsyncs option" where
  "MQTTAsync_freeServerURIs m = (case ma_serverURIs m of
     None \<Rightarrow> None
   | Some [] \<Rightarrow> (if ma_serverURIcount m = 0 then Some m else None)
   | Some uris \<Rightarrow> (if ma_serverURIcount m \<le> length uris then Some (m\<lparr>ma_serverURIs := None\<rparr>) else None))"

record async_connectOptions =
  aco_struct_version :: int
  aco_keepAliveInterval :: int
  aco_cleansession :: bool
  aco_maxInflight :: int
  aco_will :: "willMessages option"
  aco_username :: "bytes option"
  aco_password :: "bytes option"
  aco_connectTimeout :: int
  aco_retryInterval :: int
  aco_onSuccess :: "nat option"
  aco_onFailure :: "nat option"
  aco_serverURIs :: "bytes list"
  aco_MQTTVersion :: int
  aco_automaticReconnect :: bool
  aco_minRetryInterval :: int
  aco_maxRetryInterval :: int

definition connect_client :: "async_connectOptions \<Rightarrow> Clients \<Rightarrow> Clients" where
  "connect_client options c = c\<lparr>cl_keepAliveInterval := aco_keepAliveInterval options, cl_cleansession := aco_cleansession options,
     cl_maxInflightMessages := aco_maxInflight options,
     cl_MQTTVersion := (if aco_struct_version options \<ge> 3 then aco_MQTTVersion options else 0),
     cl_will := aco_will options, cl_username := aco_username options, cl_password := aco_password options,
     cl_retryInterval := aco_retryInterval options\<rparr>"

definition connect_handle :: "async_connectOptions \<Rightarrow> MQTTAsyncs \<Rightarrow> MQTTAsyncs option" where
  "connect_handle options m = do {
     let m = m\<lparr>ma_connect := (ma_connect m)\<lparr>cmd_onSuccess := aco_onSuccess options, cmd_onFailure := aco_onFailure options\<rparr>,
       ma_connectTimeout := aco_connectTimeout options, ma_shouldBeConnected := True\<rparr>;
     let m = (if aco_struct_version options \<ge> 4
       then m\<lparr>ma_automaticReconnect := aco_automaticReconnect options, ma_minRetryInterval := aco_minRetryInterval options,
              ma_maxRetryInterval := aco_maxRetryInterval options\<rparr> else m);
     m \<leftarrow> MQTTAsync_freeServerURIs m;
     Some (if aco_struct_version options \<ge> 2 \<and> aco_serverURIs options \<noteq> []
       then m\<lparr>ma_serverURIcount := length (aco_serverURIs options), ma_serverURIs := Some (map c_string (aco_serverURIs options))\<rparr> else m)
   }"

text \<open>
  \<open>MQTTAsync_connect\<close>, with options whose structure identifiers are right; it starts the threads if they do not run.
\<close>

definition valid_text :: "bool \<Rightarrow> bytes option \<Rightarrow> bool option" where
  "valid_text sg text = (case text of None \<Rightarrow> Some True | Some t \<Rightarrow> map_option (\<lambda>valid. valid \<noteq> 0) (UTF8_validateString sg (c_string t)))"

definition MQTTAsync_connect :: "'v async_env \<Rightarrow> nat \<Rightarrow> async_connectOptions \<Rightarrow> 'v astate \<Rightarrow> (int \<times> 'v astate) option" where
  "MQTTAsync_connect env i options st =
     (if aco_struct_version options < 0 \<or> aco_struct_version options > 4 then Some (-8, st)
      else if (case aco_will options of None \<Rightarrow> False | Some wm \<Rightarrow> will_qos wm < 0 \<or> will_qos wm > 2) then Some (MQTTASYNC_BAD_QOS, st)
      else do {
        user_ok \<leftarrow> valid_text (ae_char_signed env) (aco_username options);
        password_ok \<leftarrow> (if user_ok then valid_text (ae_char_signed env) (aco_password options) else Some True);
        if \<not> user_ok \<or> \<not> password_ok then Some (MQTTASYNC_BAD_UTF8_STRING, st)
        else do {
          m \<leftarrow> (if null_handle i st then None else connect_handle options (get_handle i st));
          let st = set_handle i m (set_client i (connect_client options (get_client i st)) st);
          st \<leftarrow> queue_command env i \<lparr>cmd_onSuccess = aco_onSuccess options, cmd_onFailure = aco_onFailure options, cmd_token = 0,
            cmd_start_time = 0, cmd_details = Connect_Command 0 0\<rparr> st;
          Some (MQTTASYNC_SUCCESS, st)
        }
      })"

definition MQTTAsync_disconnect ::
    "'v async_env \<Rightarrow> nat \<Rightarrow> (nat option \<times> nat option \<times> int) option \<Rightarrow> 'v astate \<Rightarrow> (int \<times> 'v astate) option" where
  "MQTTAsync_disconnect env i options st = (case options of
     None \<Rightarrow> MQTTAsync_disconnect1 env i None None 0 False st
   | Some (onSuccess, onFailure, timeout) \<Rightarrow> MQTTAsync_disconnect1 env i onSuccess onFailure timeout False st)"

definition MQTTAsync_isConnected :: "nat \<Rightarrow> 'v astate \<Rightarrow> bool" where
  "MQTTAsync_isConnected i st \<longleftrightarrow> \<not> null_handle i st \<and> cl_connected (get_client i st)"

definition MQTTAsync_setCallbacks :: "nat \<Rightarrow> bool \<Rightarrow> bool \<Rightarrow> bool \<Rightarrow> 'v astate \<Rightarrow> int \<times> 'v astate" where
  "MQTTAsync_setCallbacks i cl ma dc st =
     (if null_handle i st \<or> \<not> ma \<or> cl_connect_state (get_client i st) \<noteq> 0 then (MQTTASYNC_FAILURE, st)
      else (MQTTASYNC_SUCCESS, set_handle i ((get_handle i st)\<lparr>ma_cl := cl, ma_ma := ma, ma_dc := dc\<rparr>) st))"

definition MQTTAsync_setConnected :: "nat \<Rightarrow> bool \<Rightarrow> 'v astate \<Rightarrow> int \<times> 'v astate" where
  "MQTTAsync_setConnected i connected st =
     (if null_handle i st \<or> cl_connect_state (get_client i st) \<noteq> 0 then (MQTTASYNC_FAILURE, st)
      else (MQTTASYNC_SUCCESS, set_handle i ((get_handle i st)\<lparr>ma_connected := connected\<rparr>) st))"

section \<open>Questions about tokens\<close>

text \<open>The tokens of a client's commands in the queue, and the message ids of its messages in flight.\<close>

fun queued_tokens :: "nat \<Rightarrow> addr list \<Rightarrow> 'v astate \<Rightarrow> int list option" where
  "queued_tokens i [] st = Some []"
| "queued_tokens i (a # as) st = do {
     q \<leftarrow> deref a st;
     ts \<leftarrow> queued_tokens i as st;
     Some (if qc_client q = i then cmd_token (qc_command q) # ts else ts)
   }"

definition inflight_tokens :: "nat \<Rightarrow> 'v astate \<Rightarrow> int list option" where
  "inflight_tokens i st =
     (let q = cl_outboundMsgs (get_client i st) in if msgs_valid st q then Some (msg_ids st q) else None)"

text \<open>The array that \<open>MQTTAsync_getPendingTokens\<close> allocates ends with -1; it is \<open>NULL\<close>, an empty list, when there are none.\<close>

definition MQTTAsync_getPendingTokens :: "nat \<Rightarrow> 'v astate \<Rightarrow> (int \<times> int list) option" where
  "MQTTAsync_getPendingTokens i st =
     (if null_handle i st then Some (MQTTASYNC_FAILURE, [])
      else do {
        queued \<leftarrow> queued_tokens i (as_commands (ps_world st)) st;
        inflight \<leftarrow> inflight_tokens i st;
        Some (MQTTASYNC_SUCCESS, if queued @ inflight = [] then [] else queued @ inflight @ [-1])
      })"

text \<open>\<open>MQTTAsync_isComplete\<close> ends at the first command or message with the token.\<close>

fun queued_token :: "nat \<Rightarrow> int \<Rightarrow> addr list \<Rightarrow> 'v astate \<Rightarrow> bool option" where
  "queued_token i dt [] st = Some False"
| "queued_token i dt (a # as) st = do {
     q \<leftarrow> deref a st;
     if qc_client q = i \<and> cmd_token (qc_command q) = dt then Some True else queued_token i dt as st
   }"

fun inflight_token :: "int \<Rightarrow> addr list \<Rightarrow> 'v astate \<Rightarrow> bool option" where
  "inflight_token dt [] st = Some False"
| "inflight_token dt (a # as) st = do {
     m \<leftarrow> ps_msgs st a;
     if msg_msgid m = dt then Some True else inflight_token dt as st
   }"

definition MQTTAsync_isComplete :: "nat \<Rightarrow> int \<Rightarrow> 'v astate \<Rightarrow> int option" where
  "MQTTAsync_isComplete i dt st =
     (if null_handle i st then Some MQTTASYNC_FAILURE
      else do {
        queued \<leftarrow> queued_token i dt (as_commands (ps_world st)) st;
        if queued then Some MQTTASYNC_SUCCESS
        else do {
          inflight \<leftarrow> inflight_token dt (elems (cl_outboundMsgs (get_client i st))) st;
          Some (if inflight then MQTTASYNC_SUCCESS else MQTTASYNC_TRUE)
        }
      })"

section \<open>Creating and destroying a client\<close>

text \<open>
  \<open>MQTTAsync_createWithOptions\<close>. \<open>persistence\<close> is the code of \<open>MQTTPersistence_create\<close> and whether it has set
  functions; \<open>mem\<close> holds the addresses of the restored messages, \<open>low\<close> the callbacks' addresses. The client comes
  at the end of both lists at once, since restoring does not walk through them.
\<close>

definition create_handle :: "bytes \<Rightarrow> (bool \<times> int) option \<Rightarrow> MQTTAsyncs" where
  "create_handle serverURI options =
     (let c = \<lparr>cmd_onSuccess = None, cmd_onFailure = None, cmd_token = 0, cmd_start_time = 0, cmd_details = Connect_Command 0 0\<rparr> in
      \<lparr>ma_serverURI = strip_tcp serverURI, ma_cl = False, ma_ma = False, ma_dc = False, ma_connected = False, ma_connect = c,
       ma_disconnect = c\<lparr>cmd_details := Disconnect_Command False 0\<rparr>, ma_pending_write = None, ma_responses = [],
       ma_command_seqno = 0, ma_createOptions = options, ma_shouldBeConnected = False, ma_automaticReconnect = False,
       ma_minRetryInterval = 0, ma_maxRetryInterval = 0, ma_serverURIcount = 0, ma_serverURIs = Some [], ma_connectTimeout = 0,
       ma_currentInterval = 0, ma_lastConnectionFailedTime = 0, ma_retrying = False, ma_reconnectNow = False\<rparr>)"

definition create_client :: "bytes \<Rightarrow> bool \<Rightarrow> Clients" where
  "create_client clientId persistent =
     \<lparr>cl_clientID = c_string clientId, cl_username = None, cl_password = None, cl_cleansession = False, cl_connected = False,
      cl_good = False, cl_ping_outstanding = False, cl_connect_state = 0, cl_net = \<lparr>nh_socket = 0, nh_lastSent = 0, nh_lastReceived = 0\<rparr>,
      cl_msgID = 0, cl_keepAliveInterval = 0, cl_retryInterval = 0, cl_maxInflightMessages = 0, cl_will = None,
      cl_inboundMsgs = clist_empty, cl_outboundMsgs = clist_empty, cl_messageQueue = clist_empty, cl_qentry_seqno = 0,
      cl_phandle = [], cl_persistence = persistent, cl_MQTTVersion = 0\<rparr>"

definition MQTTAsync_createWithOptions ::
    "'v async_env \<Rightarrow> (nat \<Rightarrow> int) \<Rightarrow> bytes \<Rightarrow> bytes \<Rightarrow> int \<times> bool \<Rightarrow> (bool \<times> int) option \<Rightarrow> (addr \<times> addr \<times> nat) list \<Rightarrow> 'v astate \<Rightarrow>
     (int \<times> 'v astate) option" where
  "MQTTAsync_createWithOptions env low serverURI clientId persistence options mem st = do {
     valid \<leftarrow> UTF8_validateString (ae_char_signed env) (c_string clientId);
     if valid = 0 then Some (MQTTASYNC_BAD_UTF8_STRING, st)
     else do {
       let i = length (elems (ps_clients st));
       let m = create_handle (c_string serverURI) options;
       let st = on_world (\<lambda>w. w\<lparr>as_handles := as_handles w @ [m]\<rparr>) st;
       let st = st\<lparr>ps_clients := clist_append (create_client clientId (snd persistence)) (ps_clients st)\<rparr>;
       if fst persistence \<noteq> 0 then Some (fst persistence, st)
       else do {
         (rc, st) \<leftarrow> MQTTPersistence_initialize (protocol env) (ae_pe env) i (ma_serverURI m) mem st;
         if rc \<noteq> 0 then Some (rc, st)
         else do {
           (_, st) \<leftarrow> MQTTAsync_restoreCommands env low i st;
           (_, c, w) \<leftarrow> MQTTPersistence_restoreMessageQueue (ae_pe env) (get_client i st) (ps_world st);
           Some (rc, set_client i c (st\<lparr>ps_world := w\<rparr>))
         }
       }
     }
   }"

end
