(* ===== verification/WorldFrame.thy ===== *)
theory WorldFrame
  imports Protocol
begin

text \<open>
  What the protocol keeps of the state of the parts around it. The operations of \<open>lib/MQTTProtocolClient.c\<close> and
  \<open>lib/MQTTProtocolOut.c\<close> reach that state only through their operations \<open>proto_ops\<close>: a predicate that these keep is
  kept by the whole protocol. The first locale is about the operations that neither close a session nor hand a
  message to the application; two extensions add these.
\<close>

lemma bind_SomeE:
  assumes "Option.bind x f = Some z"
  obtains y where "x = Some y" "f y = Some z"
  using assms by (cases x) auto

named_theorems op_defs
named_theorems kept

lemmas [op_defs] = MQTTPacket_send_disconnect_def MQTTPacket_send_ack_def MQTTPacket_send_puback_def MQTTPacket_send_pubrec_def
  MQTTPacket_send_pubrel_def MQTTPacket_send_pubcomp_def MQTTPacket_send_publish_def MQTTPacket_send_pingreq_def
  MQTTPacket_send_subscribe_def MQTTPacket_send_unsubscribe_def MQTTPacket_send_connect_def

lemma set_client_world [simp]: "ps_world (set_client i c st) = ps_world st"
  by (simp add: set_client_def)

lemma free_msg_world [simp]: "ps_world (free_msg a st) = ps_world st"
  by (simp add: free_msg_def)

lemma fold_free_msg_world [simp]: "ps_world (fold free_msg as st) = ps_world st"
  by (induction as arbitrary: st) auto

lemma publications_remove_world [simp]: "ps_world (publications_remove a st) = ps_world st"
  by (simp add: publications_remove_def)

lemma removePublication_world: "MQTTProtocol_removePublication a st = Some st' \<Longrightarrow> ps_world st' = ps_world st"
  by (auto simp: MQTTProtocol_removePublication_def Let_def elim!: bind_SomeE split: if_splits)

lemma storePublication_world: "MQTTProtocol_storePublication po p a st = Some (len, st') \<Longrightarrow> ps_world st' = ps_world st"
  by (auto simp: MQTTProtocol_storePublication_def Let_def elim!: bind_SomeE split: if_splits)

lemma createMessage_world: "MQTTProtocol_createMessage po p mm q r am ap n st = Some st' \<Longrightarrow> ps_world st' = ps_world st"
  by (auto simp: MQTTProtocol_createMessage_def Let_def elim!: bind_SomeE dest: storePublication_world split: option.splits)

lemma find_client_world: "find_client sock st = Some (i, st') \<Longrightarrow> ps_world st' = ps_world st"
  by (auto simp: find_client_def)

lemma seek_outbound_world: "seek_outbound i m st = Some (x, st') \<Longrightarrow> ps_world st' = ps_world st"
  by (auto simp: seek_outbound_def Let_def elim!: bind_SomeE split: option.splits)

lemma outbound_remove_world: "outbound_remove i a st = Some st' \<Longrightarrow> ps_world st' = ps_world st"
  by (auto simp: outbound_remove_def Let_def elim!: bind_SomeE dest: removePublication_world)

lemma empty_msgs_loop_world: "empty_msgs_loop as st = Some st' \<Longrightarrow> ps_world st' = ps_world st"
  by (induction as arbitrary: st) (auto elim!: bind_SomeE dest: removePublication_world)

lemma emptyMessageList_world: "MQTTProtocol_emptyMessageList q st = Some (q', st') \<Longrightarrow> ps_world st' = ps_world st"
  by (auto simp: MQTTProtocol_emptyMessageList_def Let_def elim!: bind_SomeE dest: empty_msgs_loop_world)

lemma touch_world: "touch po a st = Some st' \<Longrightarrow> ps_world st' = ps_world st"
  by (auto simp: touch_def Let_def elim!: bind_SomeE)

section \<open>The contract\<close>

locale world_frame =
  fixes P :: "'w \<Rightarrow> bool" and po :: "'w proto_ops"
  assumes put: "\<lbrakk>P w; op_putdatas (po_net po) w s b bs fs = Some (rc, w')\<rbrakk> \<Longrightarrow> P w'"
    and persist_put: "P w \<Longrightarrow> P (snd (op_persist_put (po_net po) w s b bs t m k))"
    and persist_take: "P w \<Longrightarrow> P (snd (po_persist_remove po w c kind q m))"
    and pending: "P w \<Longrightarrow> P (snd (po_noPendingWrites po w s))"
    and update: "P w \<Longrightarrow> P (po_updateWrite po w s topic payload)"
    and connect: "P w \<Longrightarrow> P (snd (snd (po_socket_new po w addr port)))"
begin

lemma send: "\<lbrakk>MQTTPacket_send (po_net po) net h b fr w = Some (rc, net', w'); P w\<rbrakk> \<Longrightarrow> P w'"
  by (auto simp: MQTTPacket_send_def Let_def elim!: bind_SomeE intro: put persist_put split: if_splits)

lemma sends: "\<lbrakk>MQTTPacket_sends (po_net po) net h bs frs w = Some (rc, net', w'); P w\<rbrakk> \<Longrightarrow> P w'"
  by (auto simp: MQTTPacket_sends_def Let_def elim!: bind_SomeE intro: put persist_put split: if_splits)

lemma packets:
  "\<lbrakk>MQTTPacket_send_disconnect (po_net po) net w = Some (rc, net', w'); P w\<rbrakk> \<Longrightarrow> P w'"
  "\<lbrakk>MQTTPacket_send_ack (po_net po) t m d net w = Some (rc, net', w'); P w\<rbrakk> \<Longrightarrow> P w'"
  "\<lbrakk>MQTTPacket_send_publish (po_net po) p d q r net w = Some (rc, net', w'); P w\<rbrakk> \<Longrightarrow> P w'"
  "\<lbrakk>MQTTPacket_send_pingreq (po_net po) net w = Some (rc, net', w'); P w\<rbrakk> \<Longrightarrow> P w'"
  "\<lbrakk>MQTTPacket_send_subscribe (po_net po) ts qs m d net w = Some (rc, net', w'); P w\<rbrakk> \<Longrightarrow> P w'"
  "\<lbrakk>MQTTPacket_send_unsubscribe (po_net po) ts m d net w = Some (rc, net', w'); P w\<rbrakk> \<Longrightarrow> P w'"
  by (auto simp: op_defs Let_def elim!: bind_SomeE dest: send sends split: if_splits)

lemma send_connect: "\<lbrakk>MQTTPacket_send_connect (po_net po) c v w = Some (rc, c', w'); P w\<rbrakk> \<Longrightarrow> P w'"
  by (auto simp: op_defs Let_def elim!: bind_SomeE dest: send split: if_splits)

text \<open>Sending on the handles of a client, for any packet.\<close>

lemma client_send_any:
  assumes "client_send i f st = Some (rc, st')" "P (ps_world st)"
    and "\<And>net w rc net' w'. \<lbrakk>f net w = Some (rc, net', w'); P w\<rbrakk> \<Longrightarrow> P w'"
  shows "P (ps_world st')"
  using assms by (auto simp: client_send_def Let_def elim!: bind_SomeE)

lemma client_sends:
  "\<lbrakk>client_send i (MQTTPacket_send_disconnect (po_net po)) st = Some (rc, st'); P (ps_world st)\<rbrakk> \<Longrightarrow> P (ps_world st')"
  "\<lbrakk>client_send i (MQTTPacket_send_publish (po_net po) p d q r) st = Some (rc, st'); P (ps_world st)\<rbrakk> \<Longrightarrow> P (ps_world st')"
  "\<lbrakk>client_send i (MQTTPacket_send_pingreq (po_net po)) st = Some (rc, st'); P (ps_world st)\<rbrakk> \<Longrightarrow> P (ps_world st')"
  "\<lbrakk>client_send i (MQTTPacket_send_subscribe (po_net po) ts qs m d) st = Some (rc, st'); P (ps_world st)\<rbrakk> \<Longrightarrow> P (ps_world st')"
  "\<lbrakk>client_send i (MQTTPacket_send_unsubscribe (po_net po) ts m d) st = Some (rc, st'); P (ps_world st)\<rbrakk> \<Longrightarrow> P (ps_world st')"
  "\<lbrakk>client_send i (MQTTPacket_send_puback (po_net po) m) st = Some (rc, st'); P (ps_world st)\<rbrakk> \<Longrightarrow> P (ps_world st')"
  "\<lbrakk>client_send i (MQTTPacket_send_pubrec (po_net po) m) st = Some (rc, st'); P (ps_world st)\<rbrakk> \<Longrightarrow> P (ps_world st')"
  "\<lbrakk>client_send i (MQTTPacket_send_pubrel (po_net po) m d) st = Some (rc, st'); P (ps_world st)\<rbrakk> \<Longrightarrow> P (ps_world st')"
  "\<lbrakk>client_send i (MQTTPacket_send_pubcomp (po_net po) m) st = Some (rc, st'); P (ps_world st)\<rbrakk> \<Longrightarrow> P (ps_world st')"
  by (erule client_send_any; simp add: MQTTPacket_send_puback_def MQTTPacket_send_pubrec_def MQTTPacket_send_pubrel_def
      MQTTPacket_send_pubcomp_def packets)+

lemma subscribe: "\<lbrakk>MQTTProtocol_subscribe po i ts qs m st = Some (rc, st'); P (ps_world st)\<rbrakk> \<Longrightarrow> P (ps_world st')"
  by (simp add: MQTTProtocol_subscribe_def client_sends)

lemma unsubscribe: "\<lbrakk>MQTTProtocol_unsubscribe po i ts m st = Some (rc, st'); P (ps_world st)\<rbrakk> \<Longrightarrow> P (ps_world st')"
  by (simp add: MQTTProtocol_unsubscribe_def client_sends)

lemma storeQoS0: "\<lbrakk>MQTTProtocol_storeQoS0 po i p a st = Some st'; P (ps_world st)\<rbrakk> \<Longrightarrow> P (ps_world st')"
  by (auto simp: MQTTProtocol_storeQoS0_def Let_def elim!: bind_SomeE dest!: storePublication_world intro: update)

lemma startPublishCommon:
  "\<lbrakk>MQTTProtocol_startPublishCommon po i p q r a st = Some (rc, st'); P (ps_world st)\<rbrakk> \<Longrightarrow> P (ps_world st')"
  by (auto simp: MQTTProtocol_startPublishCommon_def Let_def elim!: bind_SomeE split: if_splits; blast intro: storeQoS0 client_sends)

lemma startPublish:
  "\<lbrakk>MQTTProtocol_startPublish po i p q r mm am ap n st = Some (rc, mm', st'); P (ps_world st)\<rbrakk> \<Longrightarrow> P (ps_world st')"
  by (auto simp: MQTTProtocol_startPublish_def Let_def elim!: bind_SomeE dest!: createMessage_world startPublishCommon split: if_splits)

lemma connect_client: "\<lbrakk>MQTTProtocol_connect po addr i v st = Some (rc, st'); P (ps_world st)\<rbrakk> \<Longrightarrow> P (ps_world st')"
proof -
  assume *: "MQTTProtocol_connect po addr i v st = Some (rc, st')" "P (ps_world st)"
  obtain a p where ap: "MQTTProtocol_addressPort addr = Some (a, p)" using *(1) by (auto simp: MQTTProtocol_connect_def Let_def elim!: bind_SomeE)
  obtain r s w where n: "po_socket_new po (ps_world st) a p = (r, s, w)" by (cases "po_socket_new po (ps_world st) a p") auto
  have "P w" using connect [OF *(2), of a p] n by simp
  then show ?thesis using *(1) ap n by (auto simp: MQTTProtocol_connect_def Let_def elim!: bind_SomeE dest: send_connect split: if_splits)
qed

lemma persist_remove: "P (ps_world st) \<Longrightarrow> P (ps_world (snd (persist_remove po i kind q m st)))"
  using persist_take [of "ps_world st" "get_client i st" kind q m]
  by (auto simp: persist_remove_def split: prod.splits)

lemma no_pending_writes: "P (ps_world st) \<Longrightarrow> P (ps_world (snd (no_pending_writes po i st)))"
  using pending [of "ps_world st" "nh_socket (cl_net (get_client i st))"]
  by (auto simp: no_pending_writes_def split: prod.splits)

lemma no_pending_writes': "no_pending_writes po i st = (b, st') \<Longrightarrow> P (ps_world st) \<Longrightarrow> P (ps_world st')"
  using no_pending_writes [of st i] by simp

lemma persist_remove': "\<lbrakk>persist_remove po i kind q m st = (b, st'); P (ps_world st)\<rbrakk> \<Longrightarrow> P (ps_world st')"
  using persist_remove [of st i kind q m] by simp

lemma handlePubacks: "\<lbrakk>MQTTProtocol_handlePubacks po ack sock st = Some (rc, st'); P (ps_world st)\<rbrakk> \<Longrightarrow> P (ps_world st')"
  by (auto simp: MQTTProtocol_handlePubacks_def Let_def elim!: bind_SomeE split: option.splits if_splits prod.splits
      dest!: find_client_world seek_outbound_world outbound_remove_world; metis persist_remove')

lemma handlePubcomps: "\<lbrakk>MQTTProtocol_handlePubcomps po ack sock st = Some (rc, st'); P (ps_world st)\<rbrakk> \<Longrightarrow> P (ps_world st')"
  by (auto simp: MQTTProtocol_handlePubcomps_def Let_def elim!: bind_SomeE split: option.splits if_splits prod.splits
      dest!: find_client_world seek_outbound_world outbound_remove_world; metis persist_remove')

lemma handlePubrecs: "\<lbrakk>MQTTProtocol_handlePubrecs po ack sock st = Some (rc, st'); P (ps_world st)\<rbrakk> \<Longrightarrow> P (ps_world st')"
  by (auto simp: MQTTProtocol_handlePubrecs_def Let_def elim!: bind_SomeE split: option.splits if_splits prod.splits
      dest!: find_client_world seek_outbound_world; metis client_sends(8))

end

section \<open>Closing sessions\<close>

locale world_frame_close = world_frame +
  assumes close: "P (ps_world st) \<Longrightarrow> P (ps_world (po_closeSession po i st))"
begin

lemma each_client_any:
  assumes "each_client f is st = Some st'" "P (ps_world st)"
    and "\<And>i st st'. \<lbrakk>f i st = Some st'; P (ps_world st)\<rbrakk> \<Longrightarrow> P (ps_world st')"
  shows "P (ps_world st')"
  using assms(1,2) by (induction "is" arbitrary: st) (auto elim!: bind_SomeE dest: assms(3))

lemma keepalive_client: "\<lbrakk>keepalive_client po now i st = Some st'; P (ps_world st)\<rbrakk> \<Longrightarrow> P (ps_world st')"
  by (auto simp: keepalive_client_def Let_def elim!: bind_SomeE split: if_splits prod.splits;
      blast intro: close no_pending_writes' client_sends)

lemma keepalive: "\<lbrakk>MQTTProtocol_keepalive po now st = Some st'; P (ps_world st)\<rbrakk> \<Longrightarrow> P (ps_world st')"
  unfolding MQTTProtocol_keepalive_def by (erule each_client_any) (auto intro: keepalive_client)

lemma retry_fail: "P (ps_world st) \<Longrightarrow> P (ps_world (retry_fail po i st))"
  by (simp add: retry_fail_def close)

lemma retries_loop: "\<lbrakk>retries_loop po now i regardless as st = Some st'; P (ps_world st)\<rbrakk> \<Longrightarrow> P (ps_world st')"
proof (induction as arbitrary: st)
  case Nil
  then show ?case by simp
next
  case (Cons a as)
  obtain none st1 where n: "no_pending_writes po i st = (none, st1)" by (cases "no_pending_writes po i st") auto
  have P1: "P (ps_world st1)" using no_pending_writes' [OF n Cons.prems(2)] .
  show ?case
    using Cons.prems(1) P1 Cons.prems(2)
    by (auto simp: n elim!: bind_SomeE split: if_splits dest!: touch_world;
        metis client_sends(2,8) retry_fail Cons.IH)
qed

lemma retry_client: "\<lbrakk>retry_client po now d r i st = Some st'; P (ps_world st)\<rbrakk> \<Longrightarrow> P (ps_world st')"
  by (auto simp: retry_client_def MQTTProtocol_retries_def Let_def split: if_splits prod.splits intro: close
      dest: no_pending_writes' retries_loop)

lemma retry: "\<lbrakk>MQTTProtocol_retry po now d r st = Some st'; P (ps_world st)\<rbrakk> \<Longrightarrow> P (ps_world st')"
  unfolding MQTTProtocol_retry_def by (erule each_client_any) (auto intro: retry_client)

end

section \<open>Handing messages to the application\<close>

locale world_frame_process = world_frame +
  assumes process: "P (ps_world st) \<Longrightarrow> P (ps_world (po_process po p i st))"
begin

lemma inbound_store: "inbound_store po i p am ap st = Some st' \<Longrightarrow> ps_world st' = ps_world st"
  by (auto simp: inbound_store_def Let_def elim!: bind_SomeE split: option.splits dest!: storePublication_world removePublication_world)

lemma handlePublishes: "\<lbrakk>MQTTProtocol_handlePublishes po p sock am ap st = Some (rc, st'); P (ps_world st)\<rbrakk> \<Longrightarrow> P (ps_world st')"
  by (auto simp: MQTTProtocol_handlePublishes_def Let_def elim!: bind_SomeE split: if_splits dest!: find_client_world inbound_store;
      metis client_sends(6,7) process)

lemma inbound_release: "\<lbrakk>inbound_release po i m a msg rc st = Some (rc', st'); P (ps_world st)\<rbrakk> \<Longrightarrow> P (ps_world st')"
  by (auto simp: inbound_release_def Let_def elim!: bind_SomeE split: prod.splits; metis persist_remove' process)

lemma handlePubrels: "\<lbrakk>MQTTProtocol_handlePubrels po ack sock st = Some (rc, st'); P (ps_world st)\<rbrakk> \<Longrightarrow> P (ps_world st')"
  by (auto simp: MQTTProtocol_handlePubrels_def Let_def elim!: bind_SomeE split: option.splits if_splits dest!: find_client_world;
      metis client_sends(9) inbound_release set_client_world)

end

end
