(* ===== verification/AsyncFrame.thy ===== *)
theory AsyncFrame
  imports AsyncApi WorldFrame
begin

text \<open>
  The parts below the asynchronous client (the socket layer, persistence, the clock) know nothing of its queue: their
  operations are given on a state of their own, which is one field of the world of \<open>AsyncQueue\<close>, and lifted to it.
  Two predicates on the queue and the clients are then kept by every call of the protocol: that nothing but the field
  has changed, and that all commands are accounted for.
\<close>

section \<open>The parts below\<close>

text \<open>
  \<open>bl_po\<close> and \<open>bl_pe\<close> are the operations of the protocol and of persistence, of which \<open>po_process\<close> and
  \<open>po_closeSession\<close> are not used: they are functions of \<open>MQTTAsync.c\<close>. \<open>bl_seqno0\<close> is what the memory of a new
  queue entry holds.
\<close>

record 'v below =
  bl_po :: "'v proto_ops"
  bl_pe :: "'v pers_ops"
  bl_char_signed :: bool
  bl_clock :: "'v \<Rightarrow> int"
  bl_close :: "'v \<Rightarrow> int \<Rightarrow> 'v"
  bl_addPendingWrite :: "'v \<Rightarrow> int \<Rightarrow> 'v"
  bl_clearPendingWrite :: "'v \<Rightarrow> int \<Rightarrow> 'v"
  bl_so_error :: "'v \<Rightarrow> int \<Rightarrow> int \<times> 'v"
  bl_deliver :: "nat \<Rightarrow> MQTTPersistence_qEntry \<Rightarrow> 'v \<Rightarrow> bool \<times> 'v"
  bl_seqno0 :: "32 word"

definition put_net :: "'v async \<Rightarrow> 'v \<Rightarrow> 'v async" where
  "put_net w v = w\<lparr>as_net := v\<rparr>"

definition at_net :: "('v \<Rightarrow> 'a \<times> 'v) \<Rightarrow> 'v async \<Rightarrow> 'a \<times> 'v async" where
  "at_net f w = map_prod id (put_net w) (f (as_net w))"

definition lifted_net :: "'v net_ops \<Rightarrow> 'v async net_ops" where
  "lifted_net ops = \<lparr>
     op_getch = (\<lambda>w s. case op_getch ops (as_net w) s of (rc, b, v) \<Rightarrow> (rc, b, put_net w v)),
     op_getdata = (\<lambda>w s n. case op_getdata ops (as_net w) s n of (d, k, v) \<Rightarrow> (d, k, put_net w v)),
     op_putdatas = (\<lambda>w s b bs fs. map_option (map_prod id (put_net w)) (op_putdatas ops (as_net w) s b bs fs)),
     op_persist_put = (\<lambda>w s b bs t m k. at_net (\<lambda>v. op_persist_put ops v s b bs t m k) w),
     op_time = (\<lambda>w. op_time ops (as_net w))\<rparr>"

definition lifted_pers :: "'v pers_ops \<Rightarrow> 'v async pers_ops" where
  "lifted_pers ops = \<lparr>
     pe_popen = (\<lambda>w c s. case pe_popen ops (as_net w) c s of (rc, h, v) \<Rightarrow> (rc, h, put_net w v)),
     pe_pclose = (\<lambda>w h. at_net (\<lambda>v. pe_pclose ops v h) w),
     pe_pput = (\<lambda>w h k bs. at_net (\<lambda>v. pe_pput ops v h k bs) w),
     pe_pget = (\<lambda>w h k. case pe_pget ops (as_net w) h k of (rc, b, v) \<Rightarrow> (rc, b, put_net w v)),
     pe_premove = (\<lambda>w h k. at_net (\<lambda>v. pe_premove ops v h k) w),
     pe_pkeys = (\<lambda>w h. case pe_pkeys ops (as_net w) h of (rc, ks, v) \<Rightarrow> (rc, ks, put_net w v)),
     pe_pclear = (\<lambda>w h. at_net (\<lambda>v. pe_pclear ops v h) w),
     pe_pcontainskey = (\<lambda>w h k. at_net (\<lambda>v. pe_pcontainskey ops v h k) w)\<rparr>"

text \<open>The environment without \<open>Protocol_processPublication\<close>, and with it.\<close>

definition below_env :: "'v below \<Rightarrow> 'v async_env" where
  "below_env bl = \<lparr>
     ae_po = \<lparr>po_net = lifted_net (po_net (bl_po bl)), po_process = (\<lambda>p i st. st), po_closeSession = (\<lambda>i st. st),
       po_persist_remove = (\<lambda>w c kind q m. at_net (\<lambda>v. po_persist_remove (bl_po bl) v c kind q m) w),
       po_noPendingWrites = (\<lambda>w s. at_net (\<lambda>v. po_noPendingWrites (bl_po bl) v s) w),
       po_updateWrite = (\<lambda>w s t p. put_net w (po_updateWrite (bl_po bl) (as_net w) s t p)),
       po_socket_new = (\<lambda>w addr port. case po_socket_new (bl_po bl) (as_net w) addr port of (rc, s, v) \<Rightarrow> (rc, s, put_net w v)),
       po_sizeof_Messages = po_sizeof_Messages (bl_po bl), po_sizeof_Publications = po_sizeof_Publications (bl_po bl)\<rparr>,
     ae_pe = lifted_pers (bl_pe bl), ae_char_signed = bl_char_signed bl, ae_clock = (\<lambda>w. bl_clock bl (as_net w)),
     ae_close = (\<lambda>w s. put_net w (bl_close bl (as_net w) s)),
     ae_addPendingWrite = (\<lambda>w s. put_net w (bl_addPendingWrite bl (as_net w) s)),
     ae_clearPendingWrite = (\<lambda>w s. put_net w (bl_clearPendingWrite bl (as_net w) s)),
     ae_so_error = (\<lambda>w s. at_net (\<lambda>v. bl_so_error bl v s) w),
     ae_deliver = (\<lambda>i qe w. at_net (bl_deliver bl i qe) w)\<rparr>"

definition on_top :: "'v below \<Rightarrow> 'v async_env" where
  "on_top bl = (let env = below_env bl in
     env\<lparr>ae_po := (ae_po env)\<lparr>po_process := (\<lambda>p i st. case async_processPublication env p i (bl_seqno0 bl) st of
       None \<Rightarrow> st | Some st' \<Rightarrow> st')\<rparr>\<rparr>)"

text \<open>Predicates that do not look at that field are kept.\<close>

locale net_blind =
  fixes P :: "'v async \<Rightarrow> bool"
  assumes blind: "P (put_net w v) = P w"
begin

lemma at_net: "P w \<Longrightarrow> at_net f w = (r, w') \<Longrightarrow> P w'"
  by (cases "f (as_net w)") (auto simp: at_net_def blind)

lemma snd_at_net: "P w \<Longrightarrow> P (snd (at_net f w))"
  by (cases "f (as_net w)") (auto simp: at_net_def blind)

end

sublocale net_blind \<subseteq> world_frame P "protocol (on_top bl)" for bl
  by unfold_locales
    (auto simp: protocol_def on_top_def below_env_def Let_def lifted_net_def blind snd_at_net split: prod.splits)

end
