(* ===== verification/AsyncAccount.thy ===== *)
theory AsyncAccount
  imports AsyncFrame "HOL-Library.Multiset"
begin

text \<open>
  Every command is accounted for: at any time the allocated commands are exactly those in the queue, those that wait
  in a client's list of responses, and those that the running operation holds. \<open>accounted\<close> also says of the requests
  that have been accepted, \<open>A\<close>, that each is still allocated or has been answered, and that no two allocated
  commands of a client share a token.
\<close>

section \<open>The account\<close>

text \<open>Requests whose outcome the application is told: all but connecting, disconnecting and messages of QoS 0.\<close>

definition is_request :: "MQTTAsync_command \<Rightarrow> bool" where
  "is_request c \<longleftrightarrow> (case cmd_details c of Subscribe_Command _ _ \<Rightarrow> True | Unsubscribe_Command _ \<Rightarrow> True
     | Publish_Command _ _ qos _ \<Rightarrow> qos > 0 | _ \<Rightarrow> False)"

definition waiting :: "'v async \<Rightarrow> addr list" where
  "waiting w = as_commands w @ concat (map ma_responses (as_handles w))"

definition answered_ones :: "'v async \<Rightarrow> addr set" where
  "answered_ones w = fst ` set (as_answers w)"

definition command_ok :: "nat \<Rightarrow> addr set \<Rightarrow> addr \<Rightarrow> MQTTAsync_queuedCommand \<Rightarrow> bool" where
  "command_ok n A a q \<longleftrightarrow> qc_client q < n \<and> (a \<in> A \<longrightarrow> is_request (qc_command q)) \<and>
     (cmd_type (qc_command q) = CONNECT \<longrightarrow> cmd_token (qc_command q) = 0)"

definition share_token :: "MQTTAsync_queuedCommand \<Rightarrow> MQTTAsync_queuedCommand \<Rightarrow> bool" where
  "share_token q r \<longleftrightarrow> qc_client q = qc_client r \<and> cmd_token (qc_command q) = cmd_token (qc_command r) \<and> 0 < cmd_token (qc_command q)"

definition heap_ok :: "nat \<Rightarrow> addr set \<Rightarrow> (addr \<rightharpoonup> MQTTAsync_queuedCommand) \<Rightarrow> bool" where
  "heap_ok n A heap \<longleftrightarrow> (\<forall>a q. heap a = Some q \<longrightarrow> command_ok n A a q) \<and>
     (\<forall>a b q r. heap a = Some q \<and> heap b = Some r \<and> share_token q r \<longrightarrow> a = b)"

definition handle_ok :: "(addr \<rightharpoonup> MQTTAsync_queuedCommand) \<Rightarrow> nat \<Rightarrow> MQTTAsyncs \<Rightarrow> bool" where
  "handle_ok heap i m \<longleftrightarrow> cmd_token (ma_connect m) = 0 \<and>
     (\<forall>a\<in>set (ma_responses m). \<exists>q. heap a = Some q \<and> qc_client q = i)"

definition accounted :: "nat \<Rightarrow> addr set \<Rightarrow> addr list \<Rightarrow> 'v async \<Rightarrow> bool" where
  "accounted n A h w \<longleftrightarrow> length (as_handles w) = n \<and> distinct (h @ waiting w) \<and> set (h @ waiting w) = dom (as_heap w) \<and>
     dom (as_heap w) \<union> answered_ones w \<subseteq> {..<as_next w} \<and> distinct (map fst (as_answers w)) \<and>
     answered_ones w \<inter> dom (as_heap w) = {} \<and> A \<subseteq> dom (as_heap w) \<union> answered_ones w \<and>
     heap_ok n A (as_heap w) \<and> (\<forall>i<n. handle_ok (as_heap w) i (as_handles w ! i))"

lemma accountedD:
  assumes "accounted n A h w"
  shows "length (as_handles w) = n" "distinct (h @ waiting w)" "set (h @ waiting w) = dom (as_heap w)"
    "dom (as_heap w) \<union> answered_ones w \<subseteq> {..<as_next w}" "distinct (map fst (as_answers w))"
    "answered_ones w \<inter> dom (as_heap w) = {}" "A \<subseteq> dom (as_heap w) \<union> answered_ones w"
    "heap_ok n A (as_heap w)" "\<And>i. i < n \<Longrightarrow> handle_ok (as_heap w) i (as_handles w ! i)"
  using assms unfolding accounted_def by blast+

text \<open>The operation on the whole state; the rules below are about it.\<close>

abbreviation sound :: "nat \<Rightarrow> addr set \<Rightarrow> addr list \<Rightarrow> 'v astate \<Rightarrow> bool" where
  "sound n A h st \<equiv> accounted n A h (ps_world st)"

lemma heap_ok_update:
  assumes "heap_ok n A heap" "command_ok n A a q" "\<And>b r. \<lbrakk>heap b = Some r; b \<noteq> a\<rbrakk> \<Longrightarrow> \<not> share_token q r"
  shows "heap_ok n A (heap(a \<mapsto> q))"
proof -
  have sym: "share_token q r = share_token r q" for q r by (auto simp: share_token_def)
  then show ?thesis using assms unfolding heap_ok_def by (auto split: if_splits; metis)
qed

lemma heap_ok_delete: "heap_ok n A heap \<Longrightarrow> heap_ok n A (heap(a := None))"
  unfolding heap_ok_def by auto

lemma handle_ok_delete: "\<lbrakk>handle_ok heap i m; a \<notin> set (ma_responses m)\<rbrakk> \<Longrightarrow> handle_ok (heap(a := None)) i m"
  unfolding handle_ok_def by auto

lemma handle_ok_update:
  "\<lbrakk>handle_ok heap i m; heap a = Some q0; qc_client q = qc_client q0\<rbrakk> \<Longrightarrow> handle_ok (heap(a \<mapsto> q)) i m"
  unfolding handle_ok_def by auto

lemma waiting_handle:
  assumes "i < length hs"
  shows "concat (map f hs) = concat (map f (take i hs)) @ f (hs ! i) @ concat (map f (drop (Suc i) hs))"
  by (metis assms concat.simps(2) concat_append id_take_nth_drop list.simps(9) map_append)

lemma waiting_set_handle:
  assumes "i < length hs"
  shows "concat (map f (hs[i := m])) = concat (map f (take i hs)) @ f m @ concat (map f (drop (Suc i) hs))"
  using assms by (simp add: upd_conv_take_nth_drop)

lemma responses_waiting: "\<lbrakk>i < length (as_handles w); a \<in> set (ma_responses (as_handles w ! i))\<rbrakk> \<Longrightarrow> a \<in> set (waiting w)"
  unfolding waiting_def by (auto intro!: bexI [of _ "as_handles w ! i"])

section \<open>What the primitive operations do to it\<close>

text \<open>The log, the field of the parts below and the order of what is held do not matter.\<close>

lemma accounted_log [simp]: "accounted n A h (w\<lparr>as_log := l\<rparr>) = accounted n A h w"
  by (simp add: accounted_def waiting_def answered_ones_def)

lemma accounted_put_net [simp]: "accounted n A h (put_net w v) = accounted n A h w"
  by (simp add: accounted_def waiting_def answered_ones_def put_net_def)

interpretation account: net_blind "accounted n A h" for n A h
  by unfold_locales simp

lemma sound_notify [simp]: "sound n A h (notify x st) = sound n A h st"
  by (simp add: notify_def on_world_def)

lemma sound_callbacks [simp]:
  "sound n A h (call_onSuccess c st) = sound n A h st" "sound n A h (call_onFailure c code st) = sound n A h st"
  by (simp_all add: call_onSuccess_def call_onFailure_def split: option.split)

lemma heap_callbacks [simp]:
  "deref a (call_onSuccess c st) = deref a st" "deref a (call_onFailure c code st) = deref a st" "deref a (notify x st) = deref a st"
  "deref a (answered b ok st) = deref a st" "deref a (set_client i cl st) = deref a st"
  by (simp_all add: call_onSuccess_def call_onFailure_def notify_def on_world_def answered_def deref_def split: option.split)

text \<open>A new command, whose token is not in use.\<close>

lemma accounted_malloc:
  assumes "accounted n A h w" "command_ok n A (as_next w) q" "\<And>b r. as_heap w b = Some r \<Longrightarrow> \<not> share_token q r"
  shows "accounted n A (as_next w # h) (w\<lparr>as_heap := (as_heap w)(as_next w \<mapsto> q), as_next := as_next w + 1\<rparr>)"
proof -
  note w = accountedD [OF assms(1)]
  let ?a = "as_next w"
  have new: "?a \<notin> dom (as_heap w)" "?a \<notin> answered_ones w" using w(4) by auto
  have "?a \<notin> set (h @ waiting w)" using new(1) w(3) by auto
  moreover have "handle_ok ((as_heap w)(?a \<mapsto> q)) i (as_handles w ! i)" if "i < n" for i
    using w(9) [OF that] new(1) by (auto simp: handle_ok_def)
  moreover have "heap_ok n A ((as_heap w)(?a \<mapsto> q))" using heap_ok_update [OF w(8) assms(2)] assms(3) by blast
  moreover have "insert ?a (dom (as_heap w)) \<union> answered_ones w \<subseteq> {..<?a + 1}" using w(4) by auto
  moreover have "A \<subseteq> insert ?a (dom (as_heap w)) \<union> answered_ones w" using w(7) by auto
  ultimately show ?thesis
    using w(1-3,5,6) new by (simp add: accounted_def waiting_def answered_ones_def)
qed

text \<open>A command is changed, but not its client, its token and whether it is a request.\<close>

definition same_command :: "MQTTAsync_queuedCommand \<Rightarrow> MQTTAsync_queuedCommand \<Rightarrow> bool" where
  "same_command q r \<longleftrightarrow> qc_client r = qc_client q \<and> cmd_token (qc_command r) = cmd_token (qc_command q) \<and>
     is_request (qc_command r) = is_request (qc_command q) \<and> cmd_type (qc_command r) = cmd_type (qc_command q)"

lemma accounted_set_command:
  assumes "accounted n A h w" "as_heap w a = Some q" "same_command q r"
  shows "accounted n A h (w\<lparr>as_heap := (as_heap w)(a \<mapsto> r)\<rparr>)"
proof -
  note w = accountedD [OF assms(1)]
  have "command_ok n A a r" using w(8) assms(2,3) by (auto simp: heap_ok_def command_ok_def same_command_def)
  moreover have "\<not> share_token r r'" if "as_heap w b = Some r'" "b \<noteq> a" for b r'
  proof -
    have "share_token r r' = share_token q r'" using assms(3) by (simp add: same_command_def share_token_def)
    then show ?thesis using that w(8) assms(2) unfolding heap_ok_def by blast
  qed
  ultimately have "heap_ok n A ((as_heap w)(a \<mapsto> r))" by (intro heap_ok_update [OF w(8)])
  moreover have "handle_ok ((as_heap w)(a \<mapsto> r)) i (as_handles w ! i)" if "i < n" for i
    using handle_ok_update [OF w(9) [OF that] assms(2)] assms(3) by (simp add: same_command_def)
  moreover have "dom ((as_heap w)(a \<mapsto> r)) = dom (as_heap w)" using assms(2) by auto
  ultimately show ?thesis
    using w(1-7) by (simp add: accounted_def waiting_def answered_ones_def del: dom_fun_upd)
qed

text \<open>A command that is held is freed: after it has been answered, or because it is no request.\<close>

lemma accounted_free:
  assumes "accounted n A (a # h) w" "a \<notin> A"
  shows "accounted n A h (w\<lparr>as_heap := (as_heap w)(a := None)\<rparr>)"
proof -
  note w = accountedD [OF assms(1)]
  have out: "a \<notin> set (h @ waiting w)" using w(2) by auto
  have "handle_ok ((as_heap w)(a := None)) i (as_handles w ! i)" if "i < n" for i
  proof -
    have "a \<notin> set (waiting w)" using out by simp
    then have "a \<notin> set (ma_responses (as_handles w ! i))" using responses_waiting [of i w a] that w(1) by blast
    then show ?thesis using w(9) [OF that] by (rule handle_ok_delete [rotated])
  qed
  moreover have "A \<subseteq> dom (as_heap w) - {a} \<union> answered_ones w" using w(7) assms(2) by auto
  moreover have "set (h @ waiting w) = dom (as_heap w) - {a}" using w(3) out by auto
  ultimately show ?thesis
    using w(1,2,4-6) heap_ok_delete [OF w(8)] by (auto simp: accounted_def waiting_def answered_ones_def)
qed

lemma accounted_answer:
  assumes "accounted n A (a # h) w"
  shows "accounted n A h (w\<lparr>as_answers := as_answers w @ [(a, ok)], as_heap := (as_heap w)(a := None)\<rparr>)"
proof -
  note w = accountedD [OF assms(1)]
  have out: "a \<notin> set (h @ waiting w)" using w(2) by auto
  have a: "a \<in> dom (as_heap w)" using w(3) by auto
  then have new: "a \<notin> answered_ones w" using w(6) by auto
  have "handle_ok ((as_heap w)(a := None)) i (as_handles w ! i)" if "i < n" for i
  proof -
    have "a \<notin> set (waiting w)" using out by simp
    then have "a \<notin> set (ma_responses (as_handles w ! i))" using responses_waiting [of i w a] that w(1) by blast
    then show ?thesis using w(9) [OF that] by (rule handle_ok_delete [rotated])
  qed
  moreover have "set (h @ waiting w) = dom (as_heap w) - {a}" using w(3) out by auto
  moreover have "distinct (map fst (as_answers w @ [(a, ok)]))" using w(5) new by (simp add: answered_ones_def)
  ultimately show ?thesis
    using w(1,2,4,6,7) a heap_ok_delete [OF w(8)] by (auto simp: accounted_def waiting_def answered_ones_def)
qed

text \<open>Moving a command: into the queue, out of it, into a list of responses, out of it.\<close>

lemma accounted_perm:
  assumes "accounted n A h w" "length (as_handles w') = n" "mset (h' @ waiting w') = mset (h @ waiting w)"
    "as_heap w' = as_heap w" "as_next w' = as_next w" "as_answers w' = as_answers w"
    "\<And>i. i < n \<Longrightarrow> handle_ok (as_heap w) i (as_handles w' ! i)"
  shows "accounted n A h' w'"
proof -
  note w = accountedD [OF assms(1)]
  have "distinct (h' @ waiting w')" "set (h' @ waiting w') = set (h @ waiting w)"
    using mset_eq_imp_distinct_iff [OF assms(3)] w(2) mset_eq_setD [OF assms(3)] by simp_all
  then show ?thesis
    unfolding accounted_def answered_ones_def assms(4-6)
    using w(3-8) assms(2,7) unfolding answered_ones_def by blast
qed

lemma accounted_commands:
  assumes "accounted n A h w" "mset h' + mset cs = mset h + mset (as_commands w)"
  shows "accounted n A h' (w\<lparr>as_commands := cs\<rparr>)"
  using accountedD(1,9) [OF assms(1)] assms(2)
  by (intro accounted_perm [OF assms(1)]) (auto simp: waiting_def add.assoc [symmetric])

lemma accounted_responses:
  assumes "accounted n A h w" "i < n" "mset h' + mset (ma_responses m) = mset h + mset (ma_responses (as_handles w ! i))"
    "handle_ok (as_heap w) i m"
  shows "accounted n A h' (w\<lparr>as_handles := (as_handles w)[i := m]\<rparr>)"
proof (rule accounted_perm [OF assms(1)])
  note w = accountedD [OF assms(1)]
  have i: "i < length (as_handles w)" using assms(2) w(1) by simp
  show "mset (h' @ waiting (w\<lparr>as_handles := (as_handles w)[i := m]\<rparr>)) = mset (h @ waiting w)"
    unfolding waiting_def using assms(3)
    by (simp add: waiting_handle [OF i, of ma_responses] waiting_set_handle [OF i] add.assoc [symmetric])
  show "handle_ok (as_heap w) j (as_handles (w\<lparr>as_handles := (as_handles w)[i := m]\<rparr>) ! j)" if "j < n" for j
    using that w(1,9) assms(4) by (cases "j = i") (auto simp: assms(2))
qed (use accountedD(1) [OF assms(1)] in simp_all)

text \<open>A client is changed, but neither its responses nor the token of its command for connecting.\<close>

lemma accounted_set_handle:
  assumes "accounted n A h w" "i < n \<Longrightarrow> ma_responses m = ma_responses (as_handles w ! i)" "i < n \<Longrightarrow> cmd_token (ma_connect m) = 0"
  shows "accounted n A h (w\<lparr>as_handles := (as_handles w)[i := m]\<rparr>)"
proof (cases "i < n")
  case True
  then show ?thesis using accountedD(9) [OF assms(1) True] assms(2,3)
    by (intro accounted_responses [OF assms(1) True]) (auto simp: handle_ok_def)
next
  case False
  then show ?thesis using assms(1) accountedD(1) [OF assms(1)] by (simp add: list_update_beyond)
qed

text \<open>A request is accepted.\<close>

lemma accounted_accept:
  assumes "accounted n A h w" "as_heap w a = Some q" "is_request (qc_command q)"
  shows "accounted n (insert a A) h w"
proof -
  note w = accountedD [OF assms(1)]
  have "heap_ok n (insert a A) (as_heap w)" using w(8) assms(2,3) by (auto simp: heap_ok_def command_ok_def)
  moreover have "insert a A \<subseteq> dom (as_heap w) \<union> answered_ones w" using w(7) assms(2) by auto
  ultimately show ?thesis using w(1-6,9) by (simp add: accounted_def)
qed

end
