(* ===== verification/AsyncKeeps.thy ===== *)
theory AsyncKeeps
  imports AsyncAccount
begin

text \<open>
  The operations of the asynchronous client keep the account of theory \<open>AsyncAccount\<close>: the queue, closing a session,
  the sending thread, the receiving thread and the functions that the application calls, in this order.
\<close>

named_theorems sound_rules

section \<open>Primitive operations\<close>

lemma sound_world [simp]: "sound n A h (on_world (\<lambda>w. put_net w (f w)) st) = sound n A h st"
  by (simp add: on_world_def)

lemma sound_at_net: "sound n A h st \<Longrightarrow> sound n A h (on_world (\<lambda>w. snd (at_net f w)) st)"
  by (simp add: on_world_def account.snd_at_net)

lemma deref_set_handle [simp]: "deref a (set_handle i m st) = deref a st"
  by (simp add: deref_def set_handle_def on_world_def)

lemma sound_set_handle [sound_rules]:
  assumes "sound n A h st" "i < n \<Longrightarrow> ma_responses m = ma_responses (get_handle i st)" "i < n \<Longrightarrow> cmd_token (ma_connect m) = 0"
  shows "sound n A h (set_handle i m st)"
  using accounted_set_handle [OF assms(1), of i m] assms(2,3)
  by (simp add: set_handle_def on_world_def get_handle_def)

lemma sound_connect_token: "\<lbrakk>sound n A h st; i < n\<rbrakk> \<Longrightarrow> cmd_token (ma_connect (get_handle i st)) = 0"
  using accountedD(9) [of n A h "ps_world st" i] by (simp add: handle_ok_def get_handle_def)

lemma sound_deref: "\<lbrakk>sound n A h st; a \<in> set (h @ waiting (ps_world st))\<rbrakk> \<Longrightarrow> \<exists>q. deref a st = Some q"
  using accountedD(3) [of n A h "ps_world st"] by (auto simp: deref_def)

lemma sound_command: "\<lbrakk>sound n A h st; deref a st = Some q\<rbrakk> \<Longrightarrow> command_ok n A a q"
  using accountedD(8) [of n A h "ps_world st"] by (auto simp: deref_def heap_ok_def)

lemma sound_set_command [sound_rules]:
  "\<lbrakk>sound n A h st; deref a st = Some q; same_command q r\<rbrakk> \<Longrightarrow> sound n A h (set_command a r st)"
  using accounted_set_command [of n A h "ps_world st" a q r] by (simp add: deref_def set_command_def on_world_def)

lemma deref_set_command [simp]: "deref a (set_command b q st) = (if a = b then Some q else deref a st)"
  by (simp add: deref_def set_command_def on_world_def)

lemma sound_malloc:
  assumes "malloc_command q st = (a, st')" "sound n A h st" "command_ok n A (as_next (ps_world st)) q"
    "\<And>b r. deref b st = Some r \<Longrightarrow> \<not> share_token q r"
  shows "sound n A (a # h) st'" "deref a st' = Some q" "a \<notin> A" "a = as_next (ps_world st)"
proof -
  show a: "a = as_next (ps_world st)" using assms(1) by (simp add: malloc_command_def)
  have "as_heap (ps_world st') = (as_heap (ps_world st))(a \<mapsto> q)" using assms(1) by (auto simp: malloc_command_def on_world_def)
  then show "deref a st' = Some q" by (simp add: deref_def)
  show "sound n A (a # h) st'"
    using assms(1,4) accounted_malloc [OF assms(2,3)] by (auto simp: malloc_command_def on_world_def deref_def)
  show "a \<notin> A" using accountedD(4,7) [OF assms(2)] a by auto
qed

lemma sound_free:
  "\<lbrakk>MQTTAsync_freeCommand a st = Some st'; sound n A (a # h) st; a \<notin> A\<rbrakk> \<Longrightarrow> sound n A h st'"
  using accounted_free [of n A a h "ps_world st"] by (auto simp: MQTTAsync_freeCommand_def on_world_def elim!: bind_SomeE)

lemma sound_answer:
  "\<lbrakk>MQTTAsync_freeCommand a (answered a ok st) = Some st'; sound n A (a # h) st\<rbrakk> \<Longrightarrow> sound n A h st'"
  using accounted_answer [of n A a h "ps_world st" ok]
  by (auto simp: MQTTAsync_freeCommand_def answered_def on_world_def elim!: bind_SomeE)

lemma urgent_not_request: "urgent c \<Longrightarrow> \<not> is_request c"
  by (auto simp: urgent_def is_request_def split: cmd_details.splits)

lemma same_command_refl [simp]: "same_command q q"
  by (simp add: same_command_def)

lemma same_command_trans: "\<lbrakk>same_command q r; same_command r s\<rbrakk> \<Longrightarrow> same_command q s"
  by (simp add: same_command_def)

lemma same_command_times [simp]:
  "same_command q (q\<lparr>qc_command := (qc_command q)\<lparr>cmd_start_time := t\<rparr>\<rparr>)" "same_command q (q\<lparr>qc_seqno := s\<rparr>)"
  by (simp_all add: same_command_def is_request_def cmd_type_def)

section \<open>The queue\<close>

lemma on_top_simps [simp]:
  "ae_pe (on_top bl) = lifted_pers (bl_pe bl)" "ae_clock (on_top bl) = (\<lambda>w. bl_clock bl (as_net w))"
  "ae_close (on_top bl) = (\<lambda>w s. put_net w (bl_close bl (as_net w) s))"
  "ae_addPendingWrite (on_top bl) = (\<lambda>w s. put_net w (bl_addPendingWrite bl (as_net w) s))"
  "ae_clearPendingWrite (on_top bl) = (\<lambda>w s. put_net w (bl_clearPendingWrite bl (as_net w) s))"
  "ae_so_error (on_top bl) = (\<lambda>w s. at_net (\<lambda>v. bl_so_error bl v s) w)"
  "ae_deliver (on_top bl) = (\<lambda>i qe w. at_net (bl_deliver bl i qe) w)"
  by (simp_all add: on_top_def below_env_def Let_def)

lemma persistCommand_sound:
  assumes "MQTTAsync_persistCommand (on_top bl) a st = Some st'" "sound n A h st"
  shows "sound n A h st' \<and> (\<exists>q r. deref a st = Some q \<and> deref a st' = Some r \<and> same_command q r)"
proof -
  obtain q bufs where q: "deref a st = Some q" "command_buffers (qc_command q) = Some bufs"
    using assms(1) by (auto simp: MQTTAsync_persistCommand_def elim!: bind_SomeE)
  show ?thesis
  proof (cases "bufs = []")
    case True
    then show ?thesis using assms q by (auto simp: MQTTAsync_persistCommand_def)
  next
    case False
    let ?s = "ma_command_seqno (get_handle (qc_client q) st) + 1"
    let ?st1 = "set_handle (qc_client q) ((get_handle (qc_client q) st)\<lparr>ma_command_seqno := ?s\<rparr>) st"
    obtain key where key: "command_key ?s = Some key"
      using assms(1) q False by (auto simp: MQTTAsync_persistCommand_def Let_def elim!: bind_SomeE)
    let ?st2 = "on_world (\<lambda>w. snd (pe_pput (lifted_pers (bl_pe bl)) w (cl_phandle (get_client (qc_client q) ?st1)) key bufs)) ?st1"
    have 1: "sound n A h ?st1" using assms(2) sound_connect_token [OF assms(2)] by (auto intro: sound_rules)
    have 2: "sound n A h ?st2" using sound_at_net [OF 1] by (simp add: lifted_pers_def)
    have d: "deref a ?st2 = Some q" using q(1)
      by (simp add: deref_def on_world_def lifted_pers_def at_net_def put_net_def set_handle_def split: prod.split)
    have st': "st' = set_command a (q\<lparr>qc_seqno := ?s\<rparr>) ?st2"
      using assms(1) q False key by (simp add: MQTTAsync_persistCommand_def Let_def)
    show ?thesis using sound_set_command [OF 2 d same_command_times(2)] q(1) by (simp add: st')
  qed
qed

lemma sound_enqueue:
  assumes "sound n A (a # h) st" "mset cs = mset (a # as_commands (ps_world st))"
  shows "sound n A h (on_world (\<lambda>w. w\<lparr>as_commands := cs\<rparr>) st)"
  using accounted_commands [OF assms(1), of h cs] assms(2) by (simp add: on_world_def)

lemma addCommand_sound:
  assumes "MQTTAsync_addCommand (on_top bl) a st = Some st'" "sound n A (a # h) st" "deref a st = Some q"
  shows "sound n A h st' \<and> (\<not> urgent (qc_command q) \<longrightarrow> (\<exists>r. deref a st' = Some r \<and> same_command q r))"
proof -
  let ?q = "q\<lparr>qc_command := (qc_command q)\<lparr>cmd_start_time := bl_clock bl (as_net (ps_world st))\<rparr>\<rparr>"
  let ?st1 = "set_command a ?q st"
  have 1: "sound n A (a # h) ?st1" using sound_set_command [OF assms(2,3) same_command_times(1)] .
  have u: "urgent (qc_command ?q) = urgent (qc_command q)" by (simp add: urgent_def)
  have cs: "as_commands (ps_world ?st1) = as_commands (ps_world st)" by (simp add: set_command_def on_world_def)
  show ?thesis
  proof (cases "urgent (qc_command q)")
    case True
    have no: "a \<notin> A" using sound_command [OF assms(2,3)] urgent_not_request [OF True] by (auto simp: command_ok_def)
    have "sound n A h (on_world (\<lambda>w. w\<lparr>as_commands := a # as_commands w\<rparr>) ?st1)"
      using sound_enqueue [OF 1, of "a # as_commands (ps_world st)"] cs by (simp add: on_world_def)
    then show ?thesis
      using assms(1,3) True u sound_free [OF _ 1 no]
      by (auto simp: MQTTAsync_addCommand_def Let_def elim!: bind_SomeE split: if_splits)
  next
    case False
    let ?st2 = "on_world (\<lambda>w. w\<lparr>as_commands := as_commands w @ [a]\<rparr>) ?st1"
    have 2: "sound n A h ?st2"
      using sound_enqueue [OF 1, of "as_commands (ps_world st) @ [a]"] cs by (simp add: on_world_def)
    have d: "deref a ?st2 = Some ?q" by (simp add: deref_def on_world_def set_command_def)
    have "st' = ?st2 \<or> MQTTAsync_persistCommand (on_top bl) a ?st2 = Some st'"
      using assms(1,3) False u by (auto simp: MQTTAsync_addCommand_def Let_def elim!: bind_SomeE split: if_splits)
    then show ?thesis
      using 2 d persistCommand_sound [OF _ 2] same_command_trans [OF same_command_times(1)] same_command_times(1) by fastforce
  qed
qed

text \<open>A new command is put into the queue; afterwards a request can be counted as accepted.\<close>

lemma queue_command_sound:
  assumes "queue_command (on_top bl) i c st = Some st'" "sound n A h st"
    and "i < n" "cmd_type c = CONNECT \<Longrightarrow> cmd_token c = 0"
    and "\<And>b r. \<lbrakk>deref b st = Some r; qc_client r = i; 0 < cmd_token c\<rbrakk> \<Longrightarrow> cmd_token (qc_command r) \<noteq> cmd_token c"
  shows "sound n A h st'" "is_request c \<Longrightarrow> sound n (insert (as_next (ps_world st)) A) h st'"
proof -
  let ?q = "new_command i c"
  obtain a st1 where m: "malloc_command ?q st = (a, st1)" by fastforce
  have "as_next (ps_world st) \<notin> A" using accountedD(4,7) [OF assms(2)] by auto
  then have ok: "command_ok n A (as_next (ps_world st)) ?q" using assms(3,4) by (simp add: command_ok_def new_command_def)
  have fresh: "\<not> share_token ?q r" if "deref b st = Some r" for b r
    using assms(5) [OF that] by (auto simp: share_token_def new_command_def)
  have malloc: "sound n A (a # h) st1" "deref a st1 = Some ?q" "a = as_next (ps_world st)"
    using sound_malloc [OF m assms(2) ok] fresh by blast+
  have add: "MQTTAsync_addCommand (on_top bl) a st1 = Some st'" using assms(1) m by (simp add: queue_command_def)
  note kept = addCommand_sound [OF add malloc(1,2)]
  then show s: "sound n A h st'" by simp
  show "sound n (insert (as_next (ps_world st)) A) h st'" if r: "is_request c"
  proof -
    have "\<not> urgent c" using r urgent_not_request by blast
    then obtain q' where "deref a st' = Some q'" "same_command ?q q'" using kept by (auto simp: new_command_def)
    then have "as_heap (ps_world st') a = Some q'" "is_request (qc_command q')"
      using r by (auto simp: deref_def same_command_def new_command_def)
    from accounted_accept [OF s this] show ?thesis using malloc(3) by simp
  qed
qed

lemma queue_connect_sound [sound_rules]:
  "\<lbrakk>queue_command (on_top bl) i c st = Some st'; sound n A h st; i < n; cmd_token c = 0\<rbrakk> \<Longrightarrow> sound n A h st'"
  by (erule (1) queue_command_sound(1)) auto

section \<open>Closing\<close>

lemma freeCommand_set_handle:
  "MQTTAsync_freeCommand a (answered a ok (call_onFailure c code (set_handle i m st))) =
   map_option (set_handle i m) (MQTTAsync_freeCommand a (answered a ok (call_onFailure c code st)))"
  by (simp add: MQTTAsync_freeCommand_def answered_def call_onFailure_def notify_def set_handle_def on_world_def deref_def
      split: option.split bind_split)

lemma fail_responses_set_handle: "fail_responses as (set_handle i m st) = map_option (set_handle i m) (fail_responses as st)"
proof (induction as arbitrary: st)
  case (Cons a as)
  show ?case
  proof (cases "deref a st")
    case (Some q)
    then show ?thesis
      by (cases "MQTTAsync_freeCommand a (answered a False (call_onFailure (qc_command q) MQTTASYNC_OPERATION_INCOMPLETE st))")
        (simp_all add: freeCommand_set_handle Cons.IH)
  qed simp
qed simp

lemma fail_responses_sound: "\<lbrakk>fail_responses as st = Some st'; sound n A (as @ h) st\<rbrakk> \<Longrightarrow> sound n A h st'"
proof (induction as arbitrary: st)
  case (Cons a as)
  obtain q st1 where q: "deref a st = Some q" and f: "fail_responses as st1 = Some st'"
    and st1: "MQTTAsync_freeCommand a (answered a False (call_onFailure (qc_command q) MQTTASYNC_OPERATION_INCOMPLETE st)) = Some st1"
    using Cons.prems(1) by (auto elim!: bind_SomeE)
  from Cons.prems(2) have "sound n A (as @ h) st1" by (intro sound_answer [OF st1]) simp
  then show ?case by (rule Cons.IH [OF f])
qed simp

lemma handles_fail_responses: "fail_responses as st = Some st' \<Longrightarrow> as_handles (ps_world st') = as_handles (ps_world st)"
proof (induction as arbitrary: st)
  case (Cons a as)
  then show ?case
    by (fastforce elim!: bind_SomeE simp: MQTTAsync_freeCommand_def answered_def call_onFailure_def notify_def on_world_def
        split: option.splits)
qed simp

lemma sound_detach:
  assumes "sound n A h st" "a \<in> set (as_commands (ps_world st))"
  shows "sound n A (a # h) (detach_command a st)"
  using accounted_commands [OF assms(1), of "a # h" "remove1 a (as_commands (ps_world st))"] assms(2)
  by (simp add: detach_command_def on_world_def)

lemma fail_commands_sound:
  "\<lbrakk>fail_commands i as st = Some st'; sound n A h st; set as \<subseteq> set (as_commands (ps_world st)); distinct as\<rbrakk> \<Longrightarrow> sound n A h st'"
proof (induction as arbitrary: st)
  case (Cons a as)
  obtain q where q: "deref a st = Some q" using Cons.prems(1) by (auto elim!: bind_SomeE)
  show ?case
  proof (cases "qc_client q = i")
    case True
    obtain st1 where f: "fail_commands i as st1 = Some st'"
      and st1: "MQTTAsync_freeCommand a (answered a False (call_onFailure (qc_command q) MQTTASYNC_OPERATION_INCOMPLETE (detach_command a st))) = Some st1"
      using Cons.prems(1) q True by (auto elim!: bind_SomeE)
    have "sound n A (a # h) (detach_command a st)" using Cons.prems(2,3) by (auto intro: sound_detach)
    then have 1: "sound n A h st1" by (intro sound_answer [OF st1]) simp
    have "as_commands (ps_world st1) = remove1 a (as_commands (ps_world st))"
      using st1 by (auto simp: MQTTAsync_freeCommand_def answered_def call_onFailure_def notify_def on_world_def detach_command_def
          elim!: bind_SomeE split: option.splits)
    moreover have "distinct (as_commands (ps_world st))" using accountedD(2) [OF Cons.prems(2)] by (simp add: waiting_def)
    ultimately have "set as \<subseteq> set (as_commands (ps_world st1))" using Cons.prems(3,4) by auto
    then show ?thesis using Cons.IH [OF f 1] Cons.prems(4) by simp
  next
    case False
    then show ?thesis using Cons q by (auto elim!: bind_SomeE)
  qed
qed simp

lemma removeResponsesAndCommands_sound:
  assumes "MQTTAsync_removeResponsesAndCommands i st = Some st'" "sound n A h st" "i < n"
  shows "sound n A h st'"
proof -
  let ?rs = "ma_responses (get_handle i st)"
  define m where "m = (get_handle i st)\<lparr>ma_responses := []\<rparr>"
  obtain st1 where f: "fail_responses ?rs st = Some st1"
    and c: "fail_commands i (as_commands (ps_world (set_handle i ((get_handle i st1)\<lparr>ma_responses := []\<rparr>) st1)))
      (set_handle i ((get_handle i st1)\<lparr>ma_responses := []\<rparr>) st1) = Some st'"
    using assms(1) by (auto simp: MQTTAsync_removeResponsesAndCommands_def Let_def elim!: bind_SomeE)
  have m: "(get_handle i st1)\<lparr>ma_responses := []\<rparr> = m" using handles_fail_responses [OF f] by (simp add: get_handle_def m_def)
  have "sound n A (?rs @ h) (set_handle i m st)"
    using accounted_responses [OF assms(2,3), of "?rs @ h" m] sound_connect_token [OF assms(2,3)]
    by (simp add: set_handle_def on_world_def get_handle_def handle_ok_def m_def)
  moreover have "fail_responses ?rs (set_handle i m st) = Some (set_handle i m st1)" using f by (simp add: fail_responses_set_handle)
  ultimately have s: "sound n A h (set_handle i m st1)" using fail_responses_sound by blast
  have "distinct (as_commands (ps_world (set_handle i m st1)))" using accountedD(2) [OF s] by (simp add: waiting_def)
  with fail_commands_sound [OF c [unfolded m] s] show ?thesis by simp
qed

lemma null_handle_sound: "sound n A h st \<Longrightarrow> null_handle i st \<longleftrightarrow> n \<le> i"
  using accountedD(1) by (auto simp: null_handle_def)

lemma cleanSession_sound:
  assumes "MQTTAsync_cleanSession (on_top bl) i st = Some (rc, st')" "sound n A h st" "i < n"
  shows "sound n A h st'"
proof -
  obtain rc1 st1 where c: "MQTTPersistence_clear (lifted_pers (bl_pe bl)) i st = (rc1, st1)" by fastforce
  have 1: "sound n A h st1"
    using c assms(2) account.at_net [OF assms(2)]
    by (auto simp: MQTTPersistence_clear_def lifted_pers_def split: if_splits prod.splits)
  obtain st2 where 2: "MQTTAsync_removeResponsesAndCommands i st2 = Some st'" "ps_world st2 = ps_world st1"
    using assms(1) c by (auto simp: MQTTAsync_cleanSession_def Let_def elim!: bind_SomeE dest!: emptyMessageList_world)
  have "sound n A h st2" using 1 2(2) by simp
  from removeResponsesAndCommands_sound [OF 2(1) this assms(3)] show ?thesis .
qed

lemma close_socket_sound [simp]: "sound n A h (close_socket (on_top bl) i st) = sound n A h st"
  by (simp add: close_socket_def Let_def)

lemma closeOnly_sound: "\<lbrakk>MQTTAsync_closeOnly (on_top bl) i st = Some st'; sound n A h st\<rbrakk> \<Longrightarrow> sound n A h st'"
  by (auto simp: MQTTAsync_closeOnly_def Let_def elim!: bind_SomeE split: if_splits;
      metis account.client_sends(1) set_client_world)

lemma closeSession_sound: "\<lbrakk>MQTTAsync_closeSession (on_top bl) i st = Some st'; sound n A h st; i < n\<rbrakk> \<Longrightarrow> sound n A h st'"
  by (auto simp: MQTTAsync_closeSession_def elim!: bind_SomeE split: if_splits; metis closeOnly_sound cleanSession_sound)

lemma startConnectRetry_sound: "\<lbrakk>MQTTAsync_startConnectRetry env i st = Some st'; sound n A h st\<rbrakk> \<Longrightarrow> sound n A h st'"
  using sound_connect_token [of n A h st i]
  by (auto simp: MQTTAsync_startConnectRetry_def Let_def split: if_splits intro!: sound_set_handle)

lemma checkDisconnect_sound:
  assumes "MQTTAsync_checkDisconnect (on_top bl) i c st = Some st'" "sound n A h st" "i < n"
  shows "sound n A h st'"
  using assms
  by (auto simp: MQTTAsync_checkDisconnect_def Let_def elim!: bind_SomeE split: cmd_details.splits if_splits
      dest!: closeSession_sound startConnectRetry_sound)

lemma connect_failed_sound:
  assumes "connect_failed (on_top bl) i code st = Some st'" "sound n A h st" "i < n"
  shows "sound n A h st'"
proof (cases "MQTTAsync_checkConn (ma_connect (get_handle i st)) i st")
  case True
  then obtain st1 where 1: "MQTTAsync_closeOnly (on_top bl) i st = Some st1"
    "queue_command (on_top bl) i (ma_connect (get_handle i st1)) st1 = Some st'"
    using assms(1) by (auto simp: connect_failed_def elim!: bind_SomeE)
  have 2: "sound n A h st1" by (rule closeOnly_sound [OF 1(1) assms(2)])
  show ?thesis by (rule queue_connect_sound [OF 1(2) 2 assms(3) sound_connect_token [OF 2 assms(3)]])
next
  case False
  then show ?thesis using assms by (auto simp: connect_failed_def elim!: bind_SomeE dest!: closeSession_sound startConnectRetry_sound)
qed

lemma disconnect1_sound:
  assumes "MQTTAsync_disconnect1 (on_top bl) i f g t internal st = Some (rc, st')" "sound n A h st"
  shows "sound n A h st'"
proof (cases "i < n")
  case True
  let ?st = "if internal then st else set_handle i ((get_handle i st)\<lparr>ma_shouldBeConnected := False\<rparr>) st"
  have "sound n A h ?st" using assms(2) sound_connect_token [OF assms(2)] by (auto intro!: sound_set_handle)
  then show ?thesis
    using assms(1) True null_handle_sound [OF assms(2)]
    by (auto simp: MQTTAsync_disconnect1_def Let_def elim!: bind_SomeE split: if_splits elim: queue_connect_sound)
next
  case False
  then show ?thesis using assms null_handle_sound [OF assms(2)] by (simp add: MQTTAsync_disconnect1_def)
qed

lemma disconnect_internal_sound: "\<lbrakk>MQTTAsync_disconnect_internal (on_top bl) i t st = Some st'; sound n A h st\<rbrakk> \<Longrightarrow> sound n A h st'"
  by (auto simp: MQTTAsync_disconnect_internal_def dest: disconnect1_sound)

interpretation account: world_frame_close "accounted n A h" "protocol (on_top bl)" for n A h bl
proof unfold_locales
  show "sound n A h (po_closeSession (protocol (on_top bl)) i st)" if "sound n A h st" for st i
    using that by (auto simp: protocol_def MQTTProtocol_closeSession_def split: option.split dest: disconnect_internal_sound)
qed

end
