(* ===== verification/AsyncSends.thy ===== *)
theory AsyncSends
  imports AsyncKeeps
begin

text \<open>
  The sending thread keeps the account: \<open>MQTTAsync_processCommand\<close> takes a command out of the queue, holds it while
  the protocol works on it, and then frees it, puts it back, or leaves it in its client's list of responses.
\<close>

section \<open>What does not touch the queue\<close>

definition same_queue :: "'v async \<Rightarrow> 'v async \<Rightarrow> bool" where
  "same_queue w0 w \<longleftrightarrow> w = put_net w0 (as_net w)"

lemma put_net_simps [simp]:
  "as_heap (put_net w v) = as_heap w" "as_commands (put_net w v) = as_commands w" "as_handles (put_net w v) = as_handles w"
  "as_answers (put_net w v) = as_answers w" "as_next (put_net w v) = as_next w" "as_log (put_net w v) = as_log w"
  "as_net (put_net w v) = v" "put_net (put_net w u) v = put_net w v" "put_net w (as_net w) = w"
  by (simp_all add: put_net_def)

lemma same_queue_refl [simp]: "same_queue w w"
  by (simp add: same_queue_def)

interpretation same: net_blind "same_queue w0" for w0
proof unfold_locales
  show "same_queue w0 (put_net w v) = same_queue w0 w" for w v
    unfolding same_queue_def by (metis put_net_simps(7-9))
qed

lemma same_queue_simps:
  assumes "same_queue (ps_world st) (ps_world st')"
  shows "as_heap (ps_world st') = as_heap (ps_world st)" "as_commands (ps_world st') = as_commands (ps_world st)"
    "as_handles (ps_world st') = as_handles (ps_world st)" "as_answers (ps_world st') = as_answers (ps_world st)"
    "deref a st' = deref a st" "get_handle i st' = get_handle i st" "sound n A h st' = sound n A h st"
proof -
  have w: "ps_world st' = put_net (ps_world st) (as_net (ps_world st'))" using assms by (simp add: same_queue_def)
  show "as_heap (ps_world st') = as_heap (ps_world st)" "as_commands (ps_world st') = as_commands (ps_world st)"
    "as_handles (ps_world st') = as_handles (ps_world st)" "as_answers (ps_world st') = as_answers (ps_world st)"
    "deref a st' = deref a st" "get_handle i st' = get_handle i st" "sound n A h st' = sound n A h st"
    unfolding deref_def get_handle_def by (subst w, simp)+
qed

text \<open>Closing a session frees commands, but makes none and changes none.\<close>

definition shrinks :: "(addr \<rightharpoonup> MQTTAsync_queuedCommand) \<Rightarrow> 'v async \<Rightarrow> bool" where
  "shrinks heap w \<longleftrightarrow> as_heap w \<subseteq>\<^sub>m heap"

interpretation shrink: net_blind "shrinks heap" for heap
  by unfold_locales (simp add: shrinks_def)

lemma shrinks_simps [simp]:
  "shrinks heap (ps_world (notify x st)) = shrinks heap (ps_world st)"
  "shrinks heap (ps_world (answered a ok st)) = shrinks heap (ps_world st)"
  "shrinks heap (ps_world (call_onFailure c code st)) = shrinks heap (ps_world st)"
  "shrinks heap (ps_world (call_onSuccess c st)) = shrinks heap (ps_world st)"
  "shrinks heap (ps_world (set_handle i m st)) = shrinks heap (ps_world st)"
  "shrinks heap (ps_world (detach_command a st)) = shrinks heap (ps_world st)"
  "shrinks heap (ps_world (close_socket (on_top bl) i st)) = shrinks heap (ps_world st)"
  by (auto simp: shrinks_def notify_def answered_def call_onFailure_def call_onSuccess_def set_handle_def detach_command_def on_world_def
      close_socket_def Let_def split: option.split)

lemma shrinks_free: "\<lbrakk>MQTTAsync_freeCommand a st = Some st'; shrinks heap (ps_world st)\<rbrakk> \<Longrightarrow> shrinks heap (ps_world st')"
  by (auto simp: MQTTAsync_freeCommand_def shrinks_def on_world_def map_le_def elim!: bind_SomeE split: if_splits; metis domI)

lemma shrinks_fail_responses: "\<lbrakk>fail_responses as st = Some st'; shrinks heap (ps_world st)\<rbrakk> \<Longrightarrow> shrinks heap (ps_world st')"
  by (induction as arbitrary: st) (auto elim!: bind_SomeE dest!: shrinks_free [where heap = heap])

lemma shrinks_fail_commands: "\<lbrakk>fail_commands i as st = Some st'; shrinks heap (ps_world st)\<rbrakk> \<Longrightarrow> shrinks heap (ps_world st')"
  by (induction as arbitrary: st) (auto elim!: bind_SomeE dest!: shrinks_free [where heap = heap] split: if_splits)

lemma shrinks_clear: "\<lbrakk>MQTTPersistence_clear (lifted_pers pe) i st = (rc, st'); shrinks heap (ps_world st)\<rbrakk> \<Longrightarrow> shrinks heap (ps_world st')"
  using shrink.at_net [of heap "ps_world st"]
  by (auto simp: MQTTPersistence_clear_def lifted_pers_def split: if_splits prod.splits)

lemma shrinks_cleanSession:
  "\<lbrakk>MQTTAsync_cleanSession (on_top bl) i st = Some (rc, st'); shrinks heap (ps_world st)\<rbrakk> \<Longrightarrow> shrinks heap (ps_world st')"
  by (auto simp: MQTTAsync_cleanSession_def MQTTAsync_removeResponsesAndCommands_def Let_def elim!: bind_SomeE split: prod.splits
      dest!: emptyMessageList_world shrinks_clear [where heap = heap] shrinks_fail_responses [where heap = heap]
        shrinks_fail_commands [where heap = heap])

lemma shrinks_closeOnly:
  "\<lbrakk>MQTTAsync_closeOnly (on_top bl) i st = Some st'; shrinks heap (ps_world st)\<rbrakk> \<Longrightarrow> shrinks heap (ps_world st')"
  by (auto simp: MQTTAsync_closeOnly_def Let_def elim!: bind_SomeE split: if_splits; metis shrink.client_sends(1) set_client_world)

lemma shrinks_closeSession:
  "\<lbrakk>MQTTAsync_closeSession (on_top bl) i st = Some st'; shrinks heap (ps_world st)\<rbrakk> \<Longrightarrow> shrinks heap (ps_world st')"
  by (auto simp: MQTTAsync_closeSession_def elim!: bind_SomeE split: if_splits; metis shrinks_closeOnly shrinks_cleanSession)

lemma shrinks_checkDisconnect:
  "\<lbrakk>MQTTAsync_checkDisconnect (on_top bl) i c st = Some st'; shrinks heap (ps_world st)\<rbrakk> \<Longrightarrow> shrinks heap (ps_world st')"
  by (auto simp: MQTTAsync_checkDisconnect_def MQTTAsync_startConnectRetry_def Let_def elim!: bind_SomeE
      split: cmd_details.splits if_splits dest!: shrinks_closeSession [where heap = heap])

lemma shrinks_deref: "\<lbrakk>shrinks (as_heap (ps_world st)) (ps_world st'); deref a st' = Some q\<rbrakk> \<Longrightarrow> deref a st = Some q"
  by (auto simp: shrinks_def deref_def map_le_def dest!: bspec [of _ _ a])

section \<open>Picking a command\<close>

lemma pick_command_same:
  "\<lbrakk>pick_command (on_top bl) as ignored st = Some (picked, st'); same_queue w0 (ps_world st)\<rbrakk> \<Longrightarrow> same_queue w0 (ps_world st')"
proof (induction as arbitrary: ignored st)
  case (Cons a as)
  obtain q where q: "deref a st = Some q" using Cons.prems(1) by (auto elim!: bind_SomeE)
  obtain ready st1 where n: "no_pending_writes (protocol (on_top bl)) (qc_client q) st = (ready, st1)" by fastforce
  have "same_queue w0 (ps_world st1)" by (rule same.no_pending_writes' [OF n Cons.prems(2)])
  then show ?case using Cons q n by (auto simp: Let_def split: if_splits)
qed simp

lemma pick_command_member: "pick_command env as ignored st = Some (Some a, st') \<Longrightarrow> a \<in> set as"
proof (induction as arbitrary: ignored st)
  case (Cons b as)
  then show ?case by (auto simp: Let_def elim!: bind_SomeE split: if_splits prod.splits; metis)
qed simp

section \<open>Processing it\<close>

lemma sound_holds: "sound n A (a # h) st \<Longrightarrow> \<exists>q. deref a st = Some q"
  by (rule sound_deref) auto

lemma not_request_unaccepted: "\<lbrakk>sound n A h st; deref a st = Some q; \<not> is_request (qc_command q)\<rbrakk> \<Longrightarrow> a \<notin> A"
  using sound_command by (fastforce simp: command_ok_def)

lemma command_failed_sound:
  assumes "command_failed (on_top bl) a i c st = Some st'" "sound n A (a # h) st"
  shows "sound n A h st'"
proof (cases "cmd_type c = CONNECT")
  case True
  obtain rc st1 where 1: "MQTTAsync_disconnect1 (on_top bl) i None None 0 False st = Some (rc, st1)"
    using assms(1) True by (auto simp: command_failed_def elim!: bind_SomeE)
  let ?st2 = "set_handle i ((get_handle i st1)\<lparr>ma_shouldBeConnected := True\<rparr>) st1"
  have s1: "sound n A (a # h) st1" by (rule disconnect1_sound [OF 1 assms(2)])
  have 2: "sound n A (a # h) ?st2" using s1 sound_connect_token [OF s1] by (auto intro: sound_set_handle)
  obtain q where "deref a ?st2 = Some q" using sound_holds [OF 2] by blast
  then have "MQTTAsync_addCommand (on_top bl) a ?st2 = Some st' \<Longrightarrow> sound n A h st'" using addCommand_sound 2 by blast
  moreover have "MQTTAsync_freeCommand a (answered a False (call_onFailure c 0 ?st2)) = Some st' \<Longrightarrow> sound n A h st'"
    by (erule sound_answer) (simp add: 2)
  ultimately show ?thesis using assms(1) True 1 by (auto simp: command_failed_def Let_def split: if_splits)
next
  case False
  then obtain st1 where 1: "MQTTAsync_disconnect_internal (on_top bl) i 0 st = Some st1"
    "MQTTAsync_freeCommand a (answered a False (call_onFailure c 0 st1)) = Some st'"
    using assms(1) by (auto simp: command_failed_def elim!: bind_SomeE)
  have "sound n A (a # h) st1" by (rule disconnect_internal_sound [OF 1(1) assms(2)])
  then show ?thesis by (intro sound_answer [OF 1(2)]) simp
qed

lemma append_response_sound:
  assumes "sound n A (a # h) st" "deref a st = Some q" "qc_client q = i"
  shows "sound n A h (append_response a i st)"
proof -
  have i: "i < n" using sound_command [OF assms(1,2)] assms(3) by (simp add: command_ok_def)
  show ?thesis
    using accounted_responses [OF assms(1) i, of h "(get_handle i st)\<lparr>ma_responses := ma_responses (get_handle i st) @ [a]\<rparr>"]
      accountedD(9) [OF assms(1) i] assms(2,3)
    by (auto simp: append_response_def set_handle_def on_world_def get_handle_def handle_ok_def deref_def)
qed

lemma finish_command_sound:
  assumes "finish_command (on_top bl) a i rc st = Some st'" "sound n A (a # h) st" "deref a st = Some q" "qc_client q = i"
  shows "sound n A h st'"
proof -
  note append = append_response_sound [OF assms(2,3,4)]
  have free: "sound n A h st'" if "MQTTAsync_freeCommand a (set_handle i m st) = Some st'" "\<not> is_request (qc_command q)"
    "ma_responses m = ma_responses (get_handle i st)" "cmd_token (ma_connect m) = 0" for m
    using sound_free [OF that(1)] sound_set_handle [OF assms(2), of i m] that not_request_unaccepted [OF assms(2,3)] by simp
  have i: "i < n" using sound_command [OF assms(2,3)] assms(4) by (simp add: command_ok_def)
  have tok: "cmd_token (ma_connect (get_handle i st)) = 0" by (rule sound_connect_token [OF assms(2) i])
  have ctok: "cmd_type (qc_command q) = CONNECT \<Longrightarrow> cmd_token (qc_command q) = 0"
    using sound_command [OF assms(2,3)] by (simp add: command_ok_def)
  have free0: "sound n A h st'" if "MQTTAsync_freeCommand a st = Some st'" "\<not> is_request (qc_command q)"
    using sound_free [OF that(1) assms(2)] that not_request_unaccepted [OF assms(2,3)] by simp
  show ?thesis
    using assms(1,3) append command_failed_sound [OF _ assms(2)] free free0 tok ctok
    by (auto simp: finish_command_def Let_def is_request_def cmd_type_def split: cmd_details.splits if_splits)
qed

lemma process_connect_sound:
  assumes "process_connect (on_top bl) a i u v st = Some (rc, st')" "sound n A h st" "deref a st = Some q"
    "cmd_type (qc_command q) = CONNECT"
  shows "sound n A h st' \<and> (\<exists>r. deref a st' = Some r \<and> qc_client r = qc_client q)"
proof (cases "cl_connect_state (get_client i st) \<noteq> 0 \<or> cl_connected (get_client i st)")
  case True
  then show ?thesis using assms by (auto simp: process_connect_def)
next
  case False
  then obtain uri u' v' where server: "next_server i u v st = Some (uri, u', v')"
    using assms(1) by (auto simp: process_connect_def elim!: bind_SomeE)
  let ?v = "next_version (cl_MQTTVersion (get_client i st)) v'"
  let ?r = "q\<lparr>qc_command := (qc_command q)\<lparr>cmd_details := Connect_Command u' ?v\<rparr>\<rparr>"
  let ?st1 = "set_command a ?r st"
  obtain rc1 st2 where c: "MQTTProtocol_connect (protocol (on_top bl)) uri i ?v ?st1 = Some (rc1, st2)"
    using False server assms(1,3) by (auto simp: process_connect_def Let_def elim!: bind_SomeE)
  have st': "st' = st2 \<or> st' = on_world (\<lambda>w. put_net w (bl_addPendingWrite bl (as_net w) (nh_socket (cl_net (get_client i st2))))) st2"
    using False server assms(1,3) c by (auto simp: process_connect_def Let_def split: if_splits)
  have "same_command q ?r" using assms(4) by (auto simp: same_command_def is_request_def cmd_type_def split: cmd_details.splits)
  then have 1: "sound n A h ?st1" by (rule sound_set_command [OF assms(2,3)])
  have 2: "same_queue (ps_world ?st1) (ps_world st2)" by (rule same.connect_client [OF c]) simp
  have "deref a st2 = Some ?r" "sound n A h st2" using same_queue_simps(5,7) [OF 2] 1 by simp_all
  then show ?thesis using st' by (auto simp: deref_def on_world_def)
qed

lemma same_queue_handed_over:
  assumes "same_queue (ps_world st) (ps_world st1)" "sound n A h st" "deref a st = Some q"
    "cmd_details (qc_command q) = Publish_Command dest payload qos retained"
  shows "sound n A h (set_command a (q\<lparr>qc_command := (qc_command q)\<lparr>cmd_details := Publish_Command None payload qos retained\<rparr>\<rparr>) st1)"
proof (rule sound_set_command)
  show "sound n A h st1" "deref a st1 = Some q" using same_queue_simps(5,7) [OF assms(1)] assms(2,3) by simp_all
  show "same_command q (q\<lparr>qc_command := (qc_command q)\<lparr>cmd_details := Publish_Command None payload qos retained\<rparr>\<rparr>)"
    using assms(4) by (simp add: same_command_def is_request_def cmd_type_def)
qed

text \<open>A message of QoS 0 is answered before it is freed; the two steps are one here.\<close>

lemma process_publish_finish:
  assumes "process_publish (on_top bl) mem a i dest payload qos retained st = Some (rc, st1)"
    "finish_command (on_top bl) a i rc st1 = Some st'" "sound n A (a # h) st" "deref a st = Some q" "qc_client q = i"
    "cmd_details (qc_command q) = Publish_Command dest payload qos retained"
  shows "sound n A h st'"
proof -
  let ?r = "q\<lparr>qc_command := (qc_command q)\<lparr>cmd_details := Publish_Command None payload qos retained\<rparr>\<rparr>"
  obtain p mm st0 where start: "MQTTProtocol_startPublish (protocol (on_top bl)) i p qos retained None (pmem_msg mem) (pmem_pub mem)
      (pmem_next mem) st = Some (rc, mm, st0)"
    and st1: "st1 = (if qos = 0 then
         (if rc = TCPSOCKET_COMPLETE then answered a True (call_onSuccess (qc_command q) st0)
          else set_handle i ((get_handle i st0)\<lparr>ma_pending_write := Some a\<rparr>) (set_command a ?r st0))
       else set_command a ?r st0)"
    using assms(1,4) by (auto simp: process_publish_def Let_def elim!: bind_SomeE)
  have same: "same_queue (ps_world st) (ps_world st0)" by (rule same.startPublish [OF start]) simp
  note over = same_queue_handed_over [OF same assms(3,4,6)]
  have r: "deref a (set_command a ?r st0) = Some ?r" by simp
  show ?thesis
  proof (cases "qos = 0 \<and> rc = TCPSOCKET_COMPLETE")
    case True
    have "deref a st0 = Some q" "sound n A (a # h) st0" using same_queue_simps(5,7) [OF same] assms(3,4) by simp_all
    then have "MQTTAsync_freeCommand a st1 = Some st'"
      using assms(2,6) True st1 by (auto simp: finish_command_def Let_def)
    then show ?thesis using sound_answer [of a True "call_onSuccess (qc_command q) st0"] True st1 \<open>sound n A (a # h) st0\<close> by simp
  next
    case False
    let ?st1 = "set_command a ?r st0"
    have tok: "i < n \<Longrightarrow> cmd_token (ma_connect (get_handle i ?st1)) = 0" by (rule sound_connect_token [OF over])
    have h: "get_handle i ?st1 = get_handle i st0" by (simp add: get_handle_def set_command_def on_world_def)
    have "sound n A (a # h) st1" using False over tok h by (auto simp: st1 intro!: sound_set_handle)
    moreover have "deref a st1 = Some ?r" using False by (auto simp: st1)
    ultimately show ?thesis using finish_command_sound [OF assms(2)] assms(5) by simp
  qed
qed

lemma process_finish_sound:
  assumes "process_details (on_top bl) mem a i (qc_command q) st = Some (rc, st1)" "finish_command (on_top bl) a i rc st1 = Some st'"
    "sound n A (a # h) st" "deref a st = Some q" "qc_client q = i"
  shows "sound n A h st'"
proof (cases "cmd_details (qc_command q)")
  case (Publish_Command dest payload qos retained)
  then have "process_publish (on_top bl) mem a i dest payload qos retained st = Some (rc, st1)" using assms(1) by (simp add: process_details_def)
  from process_publish_finish [OF this assms(2-5) Publish_Command] show ?thesis .
next
  case (Connect_Command u v)
  then have "process_connect (on_top bl) a i u v st = Some (rc, st1)" "cmd_type (qc_command q) = CONNECT"
    using assms(1) by (simp_all add: process_details_def cmd_type_def)
  with process_connect_sound [OF this(1) assms(3,4)] finish_command_sound [OF assms(2)] assms(5) show ?thesis by auto
next
  case (Disconnect_Command internal timeout)
  let ?st0 = "set_client i ((get_client i st)\<lparr>cl_connect_state := -2\<rparr>) st"
  have i: "i < n" using sound_command [OF assms(3,4)] assms(5) by (simp add: command_ok_def)
  have s: "shrinks (as_heap (ps_world st)) (ps_world st)" by (simp add: shrinks_def)
  have "st1 = st \<or> MQTTAsync_checkDisconnect (on_top bl) i (qc_command q) ?st0 = Some st1"
    using assms(1) Disconnect_Command by (auto simp: process_details_def split: if_splits)
  then have "sound n A (a # h) st1 \<and> shrinks (as_heap (ps_world st)) (ps_world st1)"
    using checkDisconnect_sound [OF _ _ i] shrinks_checkDisconnect assms(3) s set_client_world by metis
  moreover from this obtain r where "deref a st1 = Some r" using sound_holds by blast
  ultimately show ?thesis using finish_command_sound [OF assms(2)] shrinks_deref [of st st1 a] assms(4,5) by fastforce
next
  case (Subscribe_Command topics qoss)
  then have "MQTTProtocol_subscribe (protocol (on_top bl)) i topics qoss (cmd_token (qc_command q)) st = Some (rc, st1)"
    using assms(1) by (simp add: process_details_def)
  from same_queue_simps(5,7) [OF same.subscribe [OF this same_queue_refl]] show ?thesis
    using finish_command_sound [OF assms(2)] assms(3-5) by simp
next
  case (Unsubscribe_Command topics)
  then have "MQTTProtocol_unsubscribe (protocol (on_top bl)) i topics (cmd_token (qc_command q)) st = Some (rc, st1)"
    using assms(1) by (simp add: process_details_def)
  from same_queue_simps(5,7) [OF same.unsubscribe [OF this same_queue_refl]] show ?thesis
    using finish_command_sound [OF assms(2)] assms(3-5) by simp
qed

lemma unpersistCommand_same:
  "\<lbrakk>MQTTAsync_unpersistCommand (on_top bl) a st = Some st'; same_queue w0 (ps_world st)\<rbrakk> \<Longrightarrow> same_queue w0 (ps_world st')"
  by (auto simp: MQTTAsync_unpersistCommand_def lifted_pers_def on_world_def elim!: bind_SomeE intro: same.snd_at_net)

lemma deref_detach [simp]: "deref b (detach_command a st) = deref b st"
  by (simp add: detach_command_def deref_def on_world_def)

lemma processCommand_sound:
  assumes "MQTTAsync_processCommand (on_top bl) mem st = Some (b, st')" "sound n A h st"
  shows "sound n A h st'"
proof -
  obtain picked st1 where p: "pick_command (on_top bl) (as_commands (ps_world st)) [] st = Some (picked, st1)"
    using assms(1) by (auto simp: MQTTAsync_processCommand_def elim!: bind_SomeE)
  have same: "same_queue (ps_world st) (ps_world st1)" by (rule pick_command_same [OF p]) simp
  show ?thesis
  proof (cases picked)
    case None
    then show ?thesis using assms p same_queue_simps(7) [OF same] by (simp add: MQTTAsync_processCommand_def)
  next
    case (Some a)
    obtain q st2 rc st3 where q: "deref a (detach_command a st1) = Some q"
      and u: "(if cl_persistence (get_client (qc_client q) (detach_command a st1))
        then MQTTAsync_unpersistCommand (on_top bl) a (detach_command a st1) else Some (detach_command a st1)) = Some st2"
      and d: "process_details (on_top bl) mem a (qc_client q) (qc_command q) st2 = Some (rc, st3)"
      and f: "finish_command (on_top bl) a (qc_client q) rc st3 = Some st'"
      using assms(1) p Some by (auto simp: MQTTAsync_processCommand_def Let_def elim!: bind_SomeE)
    have "a \<in> set (as_commands (ps_world st1))"
      using pick_command_member [OF p [unfolded Some]] same_queue_simps(2) [OF same] by simp
    then have "sound n A (a # h) (detach_command a st1)"
      using assms(2) same_queue_simps(7) [OF same] by (intro sound_detach) simp_all
    moreover have "same_queue (ps_world (detach_command a st1)) (ps_world st2)"
      using u unpersistCommand_same [of bl a "detach_command a st1" st2 "ps_world (detach_command a st1)"] by (auto split: if_splits)
    ultimately have "sound n A (a # h) st2" "deref a st2 = Some q" using same_queue_simps(5,7) q by (blast, metis)
    from process_finish_sound [OF d f this] show ?thesis by simp
  qed
qed

end
