(* ===== verification/AsyncReceives.thy ===== *)
theory AsyncReceives
  imports AsyncSends
begin

text \<open>
  The receiving thread, the timeouts and the functions of the application keep the account. A command leaves a list of
  responses when its answer comes.
\<close>

section \<open>The receiving thread\<close>

lemma find_response_member:
  "find_response tok as st = Some (Some a) \<Longrightarrow> a \<in> set as \<and> (\<exists>q. deref a st = Some q \<and> cmd_token (qc_command q) = tok)"
  by (induction as) (auto elim!: bind_SomeE split: if_splits)

lemma complete_response_sound:
  assumes "complete_response i a code st = Some st'" "sound n A h st" "i < n" "a \<in> set (ma_responses (get_handle i st))"
  shows "sound n A h st'"
proof -
  let ?m = "(get_handle i st)\<lparr>ma_responses := remove1 a (ma_responses (get_handle i st))\<rparr>"
  have "handle_ok (as_heap (ps_world st)) i ?m"
    using accountedD(9) [OF assms(2,3)] set_remove1_subset [of a "ma_responses (get_handle i st)"]
    by (auto simp: handle_ok_def get_handle_def)
  then have "sound n A (a # h) (set_handle i ?m st)"
    using accounted_responses [OF assms(2,3), of "a # h" ?m] assms(4)
    by (simp add: set_handle_def on_world_def get_handle_def)
  then show ?thesis
    using assms(1) sound_answer
    by (fastforce simp: complete_response_def Let_def elim!: bind_SomeE split: option.splits)
qed

lemma complete_found_sound:
  assumes "(case found of None \<Rightarrow> Some st | Some a \<Rightarrow> complete_response i a code st) = Some st'"
    "find_response tok (ma_responses (get_handle i st)) st = Some found" "sound n A h st" "i < n"
  shows "sound n A h st'"
  using assms find_response_member complete_response_sound by (fastforce split: option.splits)

lemma handle_acks_world:
  "MQTTProtocol_handleSubacks p sock st = Some (rc, st') \<Longrightarrow> ps_world st' = ps_world st"
  "MQTTProtocol_handleUnsubacks u sock st = Some (rc, st') \<Longrightarrow> ps_world st' = ps_world st"
  by (auto simp: MQTTProtocol_handleSubacks_def MQTTProtocol_handleUnsubacks_def elim!: bind_SomeE dest: find_client_world)

lemma receive_suback_sound:
  assumes "receive_suback i pack sock st = Some st'" "sound n A h st" "i < n"
  shows "sound n A h st'"
proof -
  obtain found st1 where f: "find_response (sub_msgId pack) (ma_responses (get_handle i st)) st = Some found"
    "(case found of None \<Rightarrow> Some st | Some a \<Rightarrow>
       complete_response i a (if sub_qoss pack = [MQTT_BAD_SUBSCRIBE] then Some MQTT_BAD_SUBSCRIBE else None) st) = Some st1"
    and w: "ps_world st' = ps_world st1"
    using assms(1) handle_acks_world by (fastforce simp: receive_suback_def elim!: bind_SomeE)
  have "sound n A h st1" by (rule complete_found_sound [OF f(2,1) assms(2,3)])
  then show ?thesis using w by simp
qed

lemma receive_unsuback_sound:
  assumes "receive_unsuback i pack sock st = Some st'" "sound n A h st" "i < n"
  shows "sound n A h st'"
proof -
  obtain found st1 where f: "find_response (ack_msgId pack) (ma_responses (get_handle i st)) st = Some found"
    "(case found of None \<Rightarrow> Some st | Some a \<Rightarrow> complete_response i a None st) = Some st1" and w: "ps_world st' = ps_world st1"
    using assms(1) handle_acks_world by (fastforce simp: receive_unsuback_def elim!: bind_SomeE)
  have "sound n A h st1" by (rule complete_found_sound [OF f(2,1) assms(2,3)])
  then show ?thesis using w by simp
qed

lemma receive_puback_sound:
  assumes "receive_puback (on_top bl) i pubcomp ack sock st = Some st'" "sound n A h st" "i < n"
  shows "sound n A h st'"
proof -
  obtain rc st1 where ack: "(if pubcomp then MQTTProtocol_handlePubcomps (protocol (on_top bl)) ack sock st
      else MQTTProtocol_handlePubacks (protocol (on_top bl)) ack sock st) = Some (rc, st1)"
    using assms(1) by (auto simp: receive_puback_def elim!: bind_SomeE)
  define st2 where "st2 = (if ma_dc (get_handle i st1) then notify (Call_deliveryComplete i (ack_msgId ack)) st1 else st1)"
  obtain found where f: "find_response (ack_msgId ack) (ma_responses (get_handle i st2)) st2 = Some found"
    "(case found of None \<Rightarrow> Some st2 | Some a \<Rightarrow> complete_response i a None st2) = Some st'"
    using assms(1) ack by (auto simp: receive_puback_def Let_def st2_def [symmetric] elim!: bind_SomeE)
  have "sound n A h st1" using ack assms(2) account.handlePubcomps account.handlePubacks by (auto split: if_splits)
  then have "sound n A h st2" by (simp add: st2_def)
  from complete_found_sound [OF f(2,1) this assms(3)] show ?thesis .
qed

lemma reset_touch_world: "reset_touch as st = Some st' \<Longrightarrow> ps_world st' = ps_world st"
  by (induction as arbitrary: st) (auto elim!: bind_SomeE)

lemma completeConnection_sound:
  assumes "MQTTAsync_completeConnection (on_top bl) i code st = Some (rc, st')" "sound n A h st" "i < n"
  shows "sound n A h st'"
proof (cases "cl_connect_state (get_client i st) \<noteq> 3 \<or> code \<noteq> MQTTASYNC_SUCCESS")
  case True
  then show ?thesis using assms by (auto simp: MQTTAsync_completeConnection_def split: if_splits)
next
  case False
  let ?st1 = "set_handle i ((get_handle i st)\<lparr>ma_retrying := False\<rparr>) st"
  define st2 where "st2 = set_client i ((get_client i ?st1)\<lparr>cl_connected := True, cl_good := True, cl_connect_state := 0\<rparr>) ?st1"
  have 2: "sound n A h st2" using assms(2) sound_connect_token [OF assms(2)] by (auto simp: st2_def intro: sound_set_handle)
  obtain rc3 st3 where st3: "(if cl_cleansession (get_client i st2) then MQTTAsync_cleanSession (on_top bl) i st2
      else Some (code, st2)) = Some (rc3, st3)"
    and rest: "st' = st3 \<or> (\<exists>as st4. reset_touch as st3 = Some st4 \<and> MQTTProtocol_retry (protocol (on_top bl)) 0 True True st4 = Some st')"
    using assms(1) False by (fastforce simp: MQTTAsync_completeConnection_def Let_def st2_def elim!: bind_SomeE split: if_splits)
  have 3: "sound n A h st3" using st3 2 cleanSession_sound [OF _ 2 assms(3)] by (auto split: if_splits)
  show ?thesis using rest
  proof
    assume "\<exists>as st4. reset_touch as st3 = Some st4 \<and> MQTTProtocol_retry (protocol (on_top bl)) 0 True True st4 = Some st'"
    then obtain as st4 where r: "reset_touch as st3 = Some st4" "MQTTProtocol_retry (protocol (on_top bl)) 0 True True st4 = Some st'" by blast
    from 3 have "sound n A h st4" by (simp add: reset_touch_world [OF r(1)])
    from account.retry [OF r(2) this] show ?thesis .
  qed (simp add: 3)
qed

lemma receive_connack_sound:
  assumes "receive_connack (on_top bl) i code st = Some st'" "sound n A h st" "i < n"
  shows "sound n A h st'"
proof -
  obtain rc st1 where 1: "MQTTAsync_completeConnection (on_top bl) i code st = Some (rc, st1)"
    using assms(1) by (auto simp: receive_connack_def elim!: bind_SomeE)
  have s: "sound n A h st1" by (rule completeConnection_sound [OF 1 assms(2,3)])
  have h: "get_handle i (call_onSuccess c st1) = get_handle i st1" for c
    by (simp add: get_handle_def call_onSuccess_def notify_def on_world_def split: option.split)
  show ?thesis
  proof (cases "rc = MQTTASYNC_SUCCESS")
    case True
    then show ?thesis
      using assms(1) 1 s sound_connect_token [OF s assms(3)] h
      by (auto simp: receive_connack_def Let_def intro!: sound_set_handle)
  next
    case False
    then have "connect_failed (on_top bl) i rc st1 = Some st'" using assms(1) 1 by (simp add: receive_connack_def)
    from connect_failed_sound [OF this s assms(3)] show ?thesis .
  qed
qed

lemma receive_error_sound: "\<lbrakk>receive_error (on_top bl) i st = Some st'; sound n A h st\<rbrakk> \<Longrightarrow> sound n A h st'"
  by (auto simp: receive_error_def split: if_splits dest: disconnect_internal_sound closeOnly_sound)

lemma tcp_connected_sound:
  assumes "tcp_connected (on_top bl) i st = Some (rc, st')" "sound n A h st"
  shows "sound n A h st'"
proof -
  define sock where "sock = nh_socket (cl_net (get_client i st))"
  obtain e w where e: "at_net (\<lambda>v. bl_so_error bl v sock) (ps_world st) = (e, w)" by fastforce
  have w: "accounted n A h w" by (rule account.at_net [OF assms(2) e])
  define st1 where "st1 = on_world (\<lambda>w. put_net w (bl_clearPendingWrite bl (as_net w) sock)) (st\<lparr>ps_world := w\<rparr>)"
  define st2 where "st2 = set_client i ((get_client i st1)\<lparr>cl_connect_state := 3\<rparr>) st1"
  have 2: "accounted n A h (ps_world st2)" using w by (simp add: st2_def st1_def)
  have "st' = st\<lparr>ps_world := w\<rparr> \<or> (\<exists>v c w'. MQTTPacket_send_connect (po_net (protocol (on_top bl))) (get_client i st2) v (ps_world st2) =
      Some (rc, c, w') \<and> ps_world st' = w')"
    using assms(1) e
    by (auto simp: tcp_connected_def Let_def sock_def [symmetric] st1_def [symmetric] st2_def [symmetric] elim!: bind_SomeE
        split: if_splits cmd_details.splits)
  then show ?thesis using w account.send_connect [OF _ 2] by auto
qed

lemma connecting_sound:
  assumes "MQTTAsync_connecting (on_top bl) i st = Some (rc, st')" "sound n A h st" "i < n"
  shows "sound n A h st'"
proof -
  obtain rc1 st1 where 1: "(if cl_connect_state (get_client i st) = 1 then tcp_connected (on_top bl) i st else Some (-1, st)) = Some (rc1, st1)"
    and last: "st' = st1 \<or> connect_failed (on_top bl) i MQTTASYNC_FAILURE st1 = Some st'"
    using assms(1) by (fastforce simp: MQTTAsync_connecting_def elim!: bind_SomeE split: if_splits)
  have "sound n A h st1" using 1 assms(2) tcp_connected_sound by (fastforce split: if_splits)
  then show ?thesis using last connect_failed_sound [OF _ _ assms(3)] by blast
qed

lemma retry_sound: "\<lbrakk>MQTTAsync_retry (on_top bl) now due st = Some st'; sound n A h st\<rbrakk> \<Longrightarrow> sound n A h st'"
  by (auto simp: MQTTAsync_retry_def elim!: bind_SomeE split: if_splits; blast intro: account.retry account.keepalive)

section \<open>Timeouts\<close>

lemma restart_versions_token [simp]: "cmd_token (restart_versions c) = cmd_token c"
  by (simp add: restart_versions_def split: cmd_details.split)

lemma retry_connect_sound:
  assumes "retry_connect (on_top bl) i st = Some st'" "sound n A h st" "i < n"
  shows "sound n A h st'"
proof -
  define c where "c = (if cl_MQTTVersion (get_client i st) = 0 then restart_versions (ma_connect (get_handle i st)) else ma_connect (get_handle i st))"
  have c: "cmd_token c = 0" using sound_connect_token [OF assms(2,3)] by (simp add: c_def)
  have "st' = st \<or> (\<exists>st1. queue_command (on_top bl) i c st = Some st1 \<and> st' = set_handle i ((get_handle i st1)\<lparr>ma_reconnectNow := False\<rparr>) st1)"
    using assms(1) by (auto simp: retry_connect_def Let_def c_def elim!: bind_SomeE split: if_splits)
  then show ?thesis
  proof
    assume "\<exists>st1. queue_command (on_top bl) i c st = Some st1 \<and> st' = set_handle i ((get_handle i st1)\<lparr>ma_reconnectNow := False\<rparr>) st1"
    then obtain st1 where 1: "queue_command (on_top bl) i c st = Some st1" "st' = set_handle i ((get_handle i st1)\<lparr>ma_reconnectNow := False\<rparr>) st1" by blast
    have s: "sound n A h st1" by (rule queue_connect_sound [OF 1(1) assms(2,3) c])
    then show ?thesis using sound_connect_token [OF s assms(3)] by (auto simp: 1(2) intro: sound_set_handle)
  qed (simp add: assms(2))
qed

lemma check_timeout_sound:
  assumes "check_timeout (on_top bl) i st = Some st'" "sound n A h st" "i < n"
  shows "sound n A h st'"
proof -
  have "connect_failed (on_top bl) i MQTTASYNC_FAILURE st = Some st' \<or> retry_connect (on_top bl) i st = Some st' \<or>
      (\<exists>c st1. MQTTAsync_checkDisconnect (on_top bl) i c st = Some st1 \<and> retry_connect (on_top bl) i st1 = Some st')"
    using assms(1) by (auto simp: check_timeout_def Let_def elim!: bind_SomeE split: if_splits)
  then show ?thesis
    using connect_failed_sound [OF _ assms(2,3)] retry_connect_sound [OF _ _ assms(3)] checkDisconnect_sound [OF _ assms(2,3)] assms(2) by blast
qed

lemma each_timeout_sound:
  "\<lbrakk>each_client (check_timeout (on_top bl)) is st = Some st'; sound n A h st; set is \<subseteq> {..<n}\<rbrakk> \<Longrightarrow> sound n A h st'"
  by (induction "is" arbitrary: st) (auto elim!: bind_SomeE dest: check_timeout_sound)

lemma checkTimeouts_sound: "\<lbrakk>MQTTAsync_checkTimeouts (on_top bl) st = Some st'; sound n A h st\<rbrakk> \<Longrightarrow> sound n A h st'"
  unfolding MQTTAsync_checkTimeouts_def by (erule (1) each_timeout_sound) (auto dest: accountedD(1))

end
