(* ===== verification/AsyncRuns.thy ===== *)
theory AsyncRuns
  imports AsyncReceives
begin

text \<open>
  Runs of the asynchronous client: any interleaving of calls of the application, steps of the sending thread, packets
  and errors that the receiving thread gets, and timeouts. In every state that a run reaches all commands are
  accounted for.
\<close>

section \<open>Calls of the application\<close>

lemma find_response_none:
  "\<lbrakk>find_response tok as st = Some None; a \<in> set as\<rbrakk> \<Longrightarrow> \<exists>q. deref a st = Some q \<and> cmd_token (qc_command q) \<noteq> tok"
  by (induction as) (auto elim!: bind_SomeE split: if_splits)

lemma waiting_of_client:
  assumes "sound n A [] st" "deref b st = Some r"
  shows "b \<in> set (as_commands (ps_world st)) \<or> b \<in> set (ma_responses (get_handle (qc_client r) st))"
proof (cases "b \<in> set (as_commands (ps_world st))")
  case False
  note w = accountedD [OF assms(1)]
  have "b \<in> set (waiting (ps_world st))" using w(3) assms(2) by (auto simp: deref_def)
  then obtain m where "m \<in> set (as_handles (ps_world st))" "b \<in> set (ma_responses m)" using False by (auto simp: waiting_def)
  then obtain j where j: "j < n" "b \<in> set (ma_responses (as_handles (ps_world st) ! j))" using w(1) by (auto simp: in_set_conv_nth)
  with w(9) [OF j(1)] assms(2) show ?thesis by (auto simp: handle_ok_def deref_def get_handle_def)
qed simp

lemma token_unused:
  assumes "token_used i tok st = Some False" "sound n A [] st" "deref b st = Some r" "qc_client r = i"
  shows "cmd_token (qc_command r) \<noteq> tok"
proof -
  have "find_response tok (as_commands (ps_world st)) st = Some None" "find_response tok (ma_responses (get_handle i st)) st = Some None"
    using assms(1) by (auto simp: token_used_def elim!: bind_SomeE split: option.splits)
  from waiting_of_client [OF assms(2,3)] find_response_none [OF this(1), of b] find_response_none [OF this(2), of b] assms(3,4)
  show ?thesis by auto
qed

lemma next_token_unused:
  assumes "next_token used s m = Some r"
  shows "r = 0 \<or> used r = Some False"
proof (rule next_token.raw_induct [OF _ assms, where P = "\<lambda>used s m r. r = 0 \<or> used r = Some False"])
  fix f used s m r
  assume IH: "\<And>used s m r. f used s m = Some r \<Longrightarrow> r = 0 \<or> used r = Some False"
    and step: "Option.bind (used m) (\<lambda>u. if \<not> u then Some m else let m = next_msgid m in if m = s then Some 0 else f used s m) = Some r"
  show "r = 0 \<or> used r = Some False"
    using step by (auto simp: Let_def elim!: bind_SomeE split: if_splits dest: IH)
qed

lemma assignMsgId_unused:
  assumes "MQTTAsync_assignMsgId i st = Some (tok, st')" "sound n A [] st"
  shows "ps_world st' = ps_world st" "\<lbrakk>tok \<noteq> 0; deref b st = Some r; qc_client r = i\<rbrakk> \<Longrightarrow> cmd_token (qc_command r) \<noteq> tok"
proof -
  have "tok = 0 \<or> token_used i tok st = Some False"
    using assms(1) next_token_unused by (fastforce simp: MQTTAsync_assignMsgId_def Let_def elim!: bind_SomeE)
  then show "\<lbrakk>tok \<noteq> 0; deref b st = Some r; qc_client r = i\<rbrakk> \<Longrightarrow> cmd_token (qc_command r) \<noteq> tok"
    using token_unused [OF _ assms(2)] by blast
  show "ps_world st' = ps_world st" using assms(1) by (auto simp: MQTTAsync_assignMsgId_def Let_def elim!: bind_SomeE)
qed

text \<open>What a call that puts a request of client \<open>i\<close> into the queue does, and what one does that does not.\<close>

definition accepts :: "'v astate \<Rightarrow> int \<Rightarrow> bool \<Rightarrow> addr option" where
  "accepts st rc request = (if rc = MQTTASYNC_SUCCESS \<and> request then Some (as_next (ps_world st)) else None)"

definition with_accepted :: "addr option \<Rightarrow> addr set \<Rightarrow> addr set" where
  "with_accepted accepted A = (case accepted of None \<Rightarrow> A | Some a \<Rightarrow> insert a A)"

lemma queue_request_sound:
  assumes "queue_request (on_top bl) i f g tok details st1 = Some (rc, tok', st')" "sound n A [] st" "ps_world st1 = ps_world st" "i < n"
    "case details of Connect_Command _ _ \<Rightarrow> False | _ \<Rightarrow> True"
    "\<And>b r. \<lbrakk>deref b st = Some r; qc_client r = i; 0 < tok\<rbrakk> \<Longrightarrow> cmd_token (qc_command r) \<noteq> tok"
  shows "sound n (with_accepted (accepts st rc (\<forall>c. cmd_details c = details \<longrightarrow> is_request c)) A) [] st'"
proof -
  define c where "c = \<lparr>cmd_onSuccess = f, cmd_onFailure = g, cmd_token = tok, cmd_start_time = 0, cmd_details = details\<rparr>"
  have q: "queue_command (on_top bl) i c st1 = Some st'" using assms(1) by (auto simp: queue_request_def c_def elim!: bind_SomeE)
  have s: "sound n A [] st1" using assms(2,3) by simp
  have ct: "cmd_type c = CONNECT \<Longrightarrow> cmd_token c = 0"
    using assms(5) by (auto simp: c_def cmd_type_def split: cmd_details.splits)
  have fresh: "cmd_token (qc_command r) \<noteq> cmd_token c" if "deref b st1 = Some r" "qc_client r = i" "0 < cmd_token c" for b r
    using that assms(3) assms(6) [of b r] by (simp add: deref_def c_def)
  have n: "as_next (ps_world st1) = as_next (ps_world st)" using assms(3) by simp
  have "\<forall>c. cmd_details c = details \<longrightarrow> is_request c \<Longrightarrow> is_request c" by (simp add: c_def)
  then show ?thesis
    using queue_command_sound(1) [OF q s assms(4) ct fresh] queue_command_sound(2) [OF q s assms(4) ct fresh] n
    by (auto simp: with_accepted_def accepts_def)
qed

lemma request_topics_sound:
  assumes "request_topics (on_top bl) i topics f g details st = Some (rc, tok, st')" "sound n A [] st"
    "\<And>c. cmd_details c = details \<Longrightarrow> is_request c"
  shows "sound n (with_accepted (accepts st rc True) A) [] st'"
proof (cases "\<exists>st1. MQTTAsync_assignMsgId i st = Some (tok, st1) \<and> tok \<noteq> 0 \<and> i < n \<and>
    queue_request (on_top bl) i f g tok details st1 = Some (rc, tok, st')")
  case True
  then obtain st1 where a: "MQTTAsync_assignMsgId i st = Some (tok, st1)" "tok \<noteq> 0" "i < n"
    "queue_request (on_top bl) i f g tok details st1 = Some (rc, tok, st')" by blast
  have d: "case details of Connect_Command _ _ \<Rightarrow> False | _ \<Rightarrow> True"
    using assms(3) [of "\<lparr>cmd_onSuccess = None, cmd_onFailure = None, cmd_token = 0, cmd_start_time = 0, cmd_details = details\<rparr>"]
    by (auto simp: is_request_def split: cmd_details.splits)
  show ?thesis
    using queue_request_sound [OF a(4) assms(2) assignMsgId_unused(1) [OF a(1) assms(2)] a(3) d] assignMsgId_unused(2) [OF a(1) assms(2)]
      a(2) assms(3) by simp
next
  case False
  have "rc \<noteq> MQTTASYNC_SUCCESS \<and> ps_world st' = ps_world st"
    using assms(1) False null_handle_sound [OF assms(2)] assignMsgId_unused(1) [OF _ assms(2)]
    by (auto simp: request_topics_def queue_request_def elim!: bind_SomeE split: if_splits)
  then show ?thesis using assms(2) by (simp add: with_accepted_def accepts_def)
qed

lemma assignMsgId_world: "MQTTAsync_assignMsgId i st = Some (tok, st') \<Longrightarrow> ps_world st' = ps_world st"
  by (auto simp: MQTTAsync_assignMsgId_def Let_def elim!: bind_SomeE)

lemma queue_request_result: "queue_request env i f g tok details st = Some (rc, tok', st') \<Longrightarrow> rc = MQTTASYNC_SUCCESS \<and> tok' = tok"
  by (auto simp: queue_request_def elim!: bind_SomeE)

text \<open>Either the message is refused, and the queue is as before, or it is queued.\<close>

lemma send_cases:
  assumes "MQTTAsync_send env i dest len payload qos retained f g st = Some (rc, tok, st')"
  obtains "rc \<noteq> MQTTASYNC_SUCCESS" "ps_world st' = ps_world st"
  | st1 p where "\<not> null_handle i st" "if qos > 0 then MQTTAsync_assignMsgId i st = Some (tok, st1) \<and> tok \<noteq> 0 else tok = 0 \<and> st1 = st"
      "queue_request env i f g tok (Publish_Command (Some (c_string dest)) p qos retained) st1 = Some (rc, tok, st')"
proof (cases "rc = MQTTASYNC_SUCCESS")
  case True
  obtain tok1 st1 where t: "(if qos > 0 then MQTTAsync_assignMsgId i st else Some (0, st)) = Some (tok1, st1)" "qos > 0 \<longrightarrow> tok1 \<noteq> 0"
    and q: "\<exists>p. queue_request env i f g tok1 (Publish_Command (Some (c_string dest)) p qos retained) st1 = Some (rc, tok, st')"
    and n: "\<not> null_handle i st"
    using assms True unfolding MQTTAsync_send_def Let_def
    by (auto elim!: bind_SomeE split: if_splits; blast)
  from q obtain p where p: "queue_request env i f g tok1 (Publish_Command (Some (c_string dest)) p qos retained) st1 = Some (rc, tok, st')" by blast
  then have "tok1 = tok" using queue_request_result by blast
  then show thesis using t p by (intro that(2) [OF n, of st1 p]) (auto split: if_splits)
next
  case False
  have "ps_world st' = ps_world st"
    using assms False unfolding MQTTAsync_send_def Let_def
    by (auto elim!: bind_SomeE split: if_splits dest!: queue_request_result) (erule assignMsgId_world)+
  then show thesis by (rule that(1) [OF False])
qed

lemma send_sound:
  assumes "MQTTAsync_send (on_top bl) i dest len payload qos retained f g st = Some (rc, tok, st')" "sound n A [] st"
  shows "sound n (with_accepted (accepts st rc (qos > 0)) A) [] st'"
  using assms(1)
proof (cases rule: send_cases)
  case 1
  then show ?thesis using assms(2) by (simp add: with_accepted_def accepts_def)
next
  case (2 st1 p)
  define details where "details = Publish_Command (Some (c_string dest)) p qos retained"
  have i: "i < n" using 2(1) null_handle_sound [OF assms(2)] by simp
  have w: "ps_world st1 = ps_world st" using 2(2) assignMsgId_world by (auto split: if_splits)
  have eq: "is_request c \<longleftrightarrow> qos > 0" if "cmd_details c = details" for c using that by (simp add: is_request_def details_def)
  have ex: "cmd_details \<lparr>cmd_onSuccess = f, cmd_onFailure = g, cmd_token = tok, cmd_start_time = 0, cmd_details = details\<rparr> = details" by simp
  have r: "(\<forall>c. cmd_details c = details \<longrightarrow> is_request c) = (qos > 0)" using eq ex by blast
  have fresh: "cmd_token (qc_command x) \<noteq> tok" if "deref b st = Some x" "qc_client x = i" "0 < tok" for b x
    using 2(2) that assignMsgId_unused(2) [OF _ assms(2) _ that(1,2)] by (auto split: if_splits)
  have "case details of Connect_Command _ _ \<Rightarrow> False | _ \<Rightarrow> True" by (simp add: details_def)
  from queue_request_sound [OF 2(3) [folded details_def] assms(2) w i this fresh] show ?thesis unfolding r .
qed

lemma freeServerURIs_same: "MQTTAsync_freeServerURIs m = Some m' \<Longrightarrow> ma_responses m' = ma_responses m \<and> ma_connect m' = ma_connect m"
  by (auto simp: MQTTAsync_freeServerURIs_def split: option.splits list.splits if_splits)

lemma connect_handle_same:
  "connect_handle options m = Some m' \<Longrightarrow> ma_responses m' = ma_responses m \<and> cmd_token (ma_connect m') = cmd_token (ma_connect m)"
  by (auto simp: connect_handle_def Let_def elim!: bind_SomeE dest!: freeServerURIs_same split: if_splits)

lemma connect_sound:
  assumes "MQTTAsync_connect (on_top bl) i options st = Some (rc, st')" "sound n A h st"
  shows "sound n A h st'"
proof (cases "st' = st")
  case False
  then obtain m where m: "connect_handle options (get_handle i st) = Some m" "\<not> null_handle i st"
    and q: "queue_command (on_top bl) i \<lparr>cmd_onSuccess = aco_onSuccess options, cmd_onFailure = aco_onFailure options, cmd_token = 0,
            cmd_start_time = 0, cmd_details = Connect_Command 0 0\<rparr>
      (set_handle i m (set_client i (connect_client options (get_client i st)) st)) = Some st'"
    using assms(1) by (auto simp: MQTTAsync_connect_def Let_def elim!: bind_SomeE split: if_splits)
  have i: "i < n" using m(2) null_handle_sound [OF assms(2)] by simp
  have "get_handle i (set_client i (connect_client options (get_client i st)) st) = get_handle i st" by (simp add: get_handle_def)
  then have "sound n A h (set_handle i m (set_client i (connect_client options (get_client i st)) st))"
    using assms(2) connect_handle_same [OF m(1)] sound_connect_token [OF assms(2) i] by (intro sound_set_handle) simp_all
  from queue_connect_sound [OF q this i] show ?thesis by simp
qed (simp add: assms(2))

lemma disconnect_sound: "\<lbrakk>MQTTAsync_disconnect (on_top bl) i options st = Some (rc, st'); sound n A h st\<rbrakk> \<Longrightarrow> sound n A h st'"
  by (auto simp: MQTTAsync_disconnect_def split: option.splits prod.splits dest: disconnect1_sound)

lemma reconnect_sound:
  assumes "MQTTAsync_reconnect (on_top bl) i st = Some (rc, st')" "sound n A h st" "i < n"
  shows "sound n A h st'"
  using assms(1) sound_connect_token [OF assms(2,3)] queue_connect_sound [OF _ assms(2,3)] assms(2)
  by (auto simp: MQTTAsync_reconnect_def Let_def elim!: bind_SomeE split: if_splits intro!: sound_set_handle)

lemma setCallbacks_sound: "\<lbrakk>MQTTAsync_setCallbacks i cl ma dc st = (rc, st'); sound n A h st\<rbrakk> \<Longrightarrow> sound n A h st'"
  using sound_connect_token [of n A h st i] by (auto simp: MQTTAsync_setCallbacks_def split: if_splits intro: sound_set_handle)

lemma setConnected_sound: "\<lbrakk>MQTTAsync_setConnected i connected st = (rc, st'); sound n A h st\<rbrakk> \<Longrightarrow> sound n A h st'"
  using sound_connect_token [of n A h st i] by (auto simp: MQTTAsync_setConnected_def split: if_splits intro: sound_set_handle)

section \<open>Messages for the application\<close>

lemma async_processPublication_sound:
  assumes "async_processPublication (below_env bl) p i s st = Some st'" "sound n A h st"
  shows "sound n A h st'"
proof -
  have simps: "ae_deliver (below_env bl) = (\<lambda>i qe w. at_net (bl_deliver bl i qe) w)" "ae_pe (below_env bl) = lifted_pers (bl_pe bl)"
    by (simp_all add: below_env_def)
  obtain qe where qe: "queue_entry p s = Some qe"
    using assms(1) by (auto simp: async_processPublication_def elim!: bind_SomeE)
  obtain d w where d: "(if elems (cl_messageQueue (get_client i st)) = [] \<and> cl_connected (get_client i st) \<and> ma_ma (get_handle i st)
      then at_net (bl_deliver bl i qe) (ps_world st) else (False, ps_world st)) = (d, w)" by fastforce
  have w: "accounted n A h w" using d assms(2) account.at_net [OF assms(2)] by (auto split: if_splits)
  have put: "accounted n A h w'" if "Protocol_processPublication (lifted_pers (bl_pe bl)) p s c w = Some (c', w')" for c c' w'
    using that w account.at_net [OF w]
    by (auto simp: Protocol_processPublication_def MQTTPersistence_persistQueueEntry_def lifted_pers_def Let_def elim!: bind_SomeE
        split: if_splits prod.splits)
  show ?thesis
    using assms(1) qe d w put by (auto simp: async_processPublication_def simps Let_def elim!: bind_SomeE split: if_splits)
qed

interpretation account: world_frame_process "accounted n A h" "protocol (on_top bl)" for n A h bl
proof unfold_locales
  show "sound n A h (po_process (protocol (on_top bl)) p i st)" if "sound n A h st" for st p i
    using that by (auto simp: protocol_def on_top_def Let_def split: option.split dest: async_processPublication_sound)
qed

lemma deliver_queued_sound:
  assumes "deliver_queued (on_top bl) i st = Some st'" "sound n A h st"
  shows "sound n A h st'"
proof (cases "elems (cl_messageQueue (get_client i st))")
  case (Cons qe rest)
  obtain d w where d: "(if ma_ma (get_handle i st) then at_net (bl_deliver bl i qe) (ps_world st) else (True, ps_world st)) = (d, w)"
    by fastforce
  have w: "accounted n A h w" using d assms(2) account.at_net [OF assms(2)] by (auto split: if_splits)
  have rem: "accounted n A h w'" if "MQTTPersistence_unpersistQueueEntry (lifted_pers (bl_pe bl)) c qe w = Some (rc, w')" for c rc w'
    using that account.at_net [OF w]
    by (auto simp: MQTTPersistence_unpersistQueueEntry_def lifted_pers_def elim!: bind_SomeE split: prod.splits)
  show ?thesis
    using assms(1) Cons d w rem by (auto simp: deliver_queued_def Let_def elim!: bind_SomeE split: if_splits)
qed (use assms in \<open>simp add: deliver_queued_def\<close>)

section \<open>Pending writes\<close>

text \<open>
  \<open>MQTTAsync_writeComplete\<close> keeps the account if the message whose write was pending is the first in the list of
  responses; what it does otherwise is in \<open>write_complete_drops_first\<close>.
\<close>

definition pending_is_first :: "int \<Rightarrow> 'v astate \<Rightarrow> bool" where
  "pending_is_first sock st \<longleftrightarrow> (case find_index (\<lambda>c. nh_socket (cl_net c) = sock) (elems (ps_clients st)) of
     None \<Rightarrow> True
   | Some i \<Rightarrow> \<not> null_handle i st \<and> (case ma_pending_write (get_handle i st) of
       None \<Rightarrow> True
     | Some p \<Rightarrow> (case ma_responses (get_handle i st) of [] \<Rightarrow> False | a # _ \<Rightarrow> a = p)))"

lemma check_pending_writes_world:
  "check_pending_writes (on_top bl) les st = Some st' \<Longrightarrow> (\<exists>v. ps_world st' = put_net (ps_world st) v) \<and> ps_clients st' = ps_clients st"
proof (induction les arbitrary: st)
  case Nil
  have "ps_world st = put_net (ps_world st) (as_net (ps_world st))" by (simp add: put_net_def)
  then show ?case using Nil by (metis check_pending_writes.simps(1) option.inject)
next
  case (Cons le les)
  obtain s a where le: "le = (s, a)" by (cases le)
  obtain none w where n: "po_noPendingWrites (protocol (on_top bl)) (ps_world st) s = (none, w)" by fastforce
  then have w: "\<exists>v. w = put_net (ps_world st) v"
    by (cases "po_noPendingWrites (bl_po bl) (as_net (ps_world st)) s") (auto simp: protocol_def on_top_def below_env_def at_net_def)
  have rem: "ps_world st2 = ps_world st1 \<and> ps_clients st2 = ps_clients st1" if "MQTTProtocol_removePublication a st1 = Some st2" for st1 st2 :: "'a astate"
    using that by (auto simp: MQTTProtocol_removePublication_def publications_remove_def Let_def elim!: bind_SomeE split: if_splits)
  have "\<exists>st1. check_pending_writes (on_top bl) les st1 = Some st' \<and> ps_world st1 = w \<and> ps_clients st1 = ps_clients st"
  proof (cases none)
    case True
    with Cons.prems n obtain st2 where 2: "MQTTProtocol_removePublication a (st\<lparr>ps_world := w\<rparr>) = Some st2"
      "check_pending_writes (on_top bl) les (st2\<lparr>ps_pending_writes := (ps_pending_writes st2)\<lparr>elems := remove1 (s, a) (elems (ps_pending_writes st2))\<rparr>\<rparr>) = Some st'"
      unfolding le by (auto elim!: bind_SomeE)
    then show ?thesis using rem [OF 2(1)] by (intro exI conjI) (rule 2(2), simp_all)
  next
    case False
    with Cons.prems n show ?thesis unfolding le by (intro exI [of _ "st\<lparr>ps_world := w\<rparr>"]) simp
  qed
  then obtain st1 where 1: "check_pending_writes (on_top bl) les st1 = Some st'" "ps_world st1 = w" "ps_clients st1 = ps_clients st" by blast
  from Cons.IH [OF 1(1)] 1(2,3) w show ?case by (auto simp: put_net_def)
qed

lemma checkPendingWrites_frame:
  assumes "MQTTProtocol_checkPendingWrites (on_top bl) st = Some st'"
  shows "sound n A h st' = sound n A h st" "deref a st' = deref a st" "get_handle i st' = get_handle i st" "null_handle i st' = null_handle i st"
    "as_answers (ps_world st') = as_answers (ps_world st)" "ps_clients st' = ps_clients st"
  using check_pending_writes_world [OF assms [unfolded MQTTProtocol_checkPendingWrites_def]]
  by (auto simp: deref_def get_handle_def null_handle_def put_net_def [of _ _] simp flip: put_net_def)

lemma writeComplete_sound:
  assumes "MQTTAsync_writeComplete (on_top bl) now sock st = Some st'" "sound n A h st" "pending_is_first sock st"
  shows "sound n A h st'"
proof -
  obtain st1 where c: "MQTTProtocol_checkPendingWrites (on_top bl) st = Some st1"
    using assms(1) by (auto simp: MQTTAsync_writeComplete_def elim!: bind_SomeE)
  note f = checkPendingWrites_frame [OF c]
  let ?found = "find_index (\<lambda>c. nh_socket (cl_net c) = sock) (elems (ps_clients st))"
  show ?thesis
  proof (cases ?found)
    case None
    then show ?thesis using assms(1,2) c f by (simp add: MQTTAsync_writeComplete_def)
  next
    case (Some i)
    have gc: "get_client i st1 = get_client i st" using f(6) by simp
    define st2 where "st2 = set_client i ((get_client i st)\<lparr>cl_net := (cl_net (get_client i st))\<lparr>nh_lastSent := now\<rparr>\<rparr>) st1"
    have s2: "sound n A h st2" "get_handle i st2 = get_handle i st" "deref b st2 = deref b st" for b
      using assms(2) f by (simp_all add: st2_def set_client_def get_handle_def deref_def)
    have eq: "MQTTAsync_writeComplete (on_top bl) now sock st = (case ma_pending_write (get_handle i st2) of
         None \<Rightarrow> Some st2
       | Some p \<Rightarrow> do {
           command \<leftarrow> deref p st2;
           cur \<leftarrow> find_pending (Some p) (ma_responses (get_handle i st2)) st2;
           com \<leftarrow> (case cur of Some a \<Rightarrow> Some a
             | None \<Rightarrow> if ma_responses (get_handle i st2) = [] then None else Some (last (ma_responses (get_handle i st2))));
           let st = (if cur \<noteq> None then answered p True (call_onSuccess (qc_command command) st2) else st2);
           let m = get_handle i st;
           let st = set_handle i (m\<lparr>ma_pending_write := None, ma_responses := remove1 com (ma_responses m)\<rparr>) st;
           MQTTAsync_freeCommand com st
         })"
      unfolding MQTTAsync_writeComplete_def c st2_def using Some f(6) by (simp add: Let_def)
    show ?thesis
    proof (cases "ma_pending_write (get_handle i st)")
      case None
      then show ?thesis using assms(1) eq s2(1,2) by simp
    next
      case pending: (Some p)
      have i: "i < n" and r: "\<exists>others. ma_responses (get_handle i st) = p # others"
        using assms(3) Some pending null_handle_sound [OF assms(2)] by (auto simp: pending_is_first_def split: list.splits)
      then obtain others where resp: "ma_responses (get_handle i st) = p # others" by blast
      obtain q where q: "deref p st = Some q" "qc_client q = i"
        using accountedD(9) [OF assms(2) i] resp by (auto simp: handle_ok_def deref_def get_handle_def)
      have find: "find_pending (Some p) (p # others) st2 = Some (Some p)" using q s2(2,3) pending by simp
      define st3 where "st3 = call_onSuccess (qc_command q) st2"
      have st3: "sound n A h st3" "get_handle i st3 = get_handle i st"
        using s2(1,2) by (simp_all add: st3_def call_onSuccess_def notify_def on_world_def get_handle_def split: option.split)
      let ?m = "(get_handle i st)\<lparr>ma_pending_write := None, ma_responses := others\<rparr>"
      have "MQTTAsync_freeCommand p (set_handle i ?m (answered p True st3)) = Some st'"
        using assms(1) q(1) resp find pending st3(2) unfolding eq s2(2,3)
        by (simp add: Let_def st3_def [symmetric] answered_def on_world_def get_handle_def)
      moreover have "set_handle i ?m (answered p True st3) = answered p True (set_handle i ?m st3)"
        by (simp add: answered_def set_handle_def on_world_def)
      moreover have "sound n A (p # h) (set_handle i ?m st3)"
      proof -
        have "handle_ok (as_heap (ps_world st3)) i ?m"
          using accountedD(9) [OF st3(1) i] st3(2) resp by (simp add: handle_ok_def get_handle_def)
        then show ?thesis using accounted_responses [OF st3(1) i, of "p # h" ?m] st3(2) resp
          by (simp add: set_handle_def on_world_def get_handle_def)
      qed
      ultimately show ?thesis using sound_answer by metis
    qed
  qed
qed

section \<open>Steps\<close>

datatype async_event =
    Call_subscribe nat "(bytes \<times> int) list" "nat option" "nat option"
  | Call_unsubscribe nat "bytes list" "nat option" "nat option"
  | Call_send nat bytes int bytes int int "nat option" "nat option"
  | Call_connect nat async_connectOptions
  | Call_disconnect nat "(nat option \<times> nat option \<times> int) option"
  | Call_reconnect nat
  | Call_setCallbacks nat bool bool bool
  | Call_setConnected nat bool
  | Process publish_mem
  | Timeouts
  | Got_suback nat Suback int
  | Got_unsuback nat Ack int
  | Got_puback nat bool Ack int
  | Got_connack nat int
  | Got_publish nat Publish int addr addr
  | Got_pubrec nat Ack int
  | Got_pubrel nat Ack int
  | Deliver nat
  | Connecting nat
  | Socket_failed nat
  | Retry int bool
  | Write_complete int int

text \<open>
  The calls of the application, the steps of the sending thread (\<open>Process\<close>, \<open>Timeouts\<close>, \<open>Retry\<close>) and those of the
  receiving thread, \<open>Write_complete\<close> being the callback of the socket layer when a write that was pending is done, with
  the clock and the socket. Every one of them is one step here, also the calls that do not hold \<open>mqttasync_mutex\<close> all
  the time; clients are neither created nor destroyed on the way.

  A step, with the address of the command when a request is accepted. What the receiving thread gets is for a client
  it has found; a call of \<open>MQTTAsync_reconnect\<close> has a handle.
\<close>

definition quietly :: "'v astate option \<Rightarrow> (addr option \<times> 'v astate) option" where
  "quietly r = map_option (Pair None) r"

fun packet_step :: "'v async_env \<Rightarrow> async_event \<Rightarrow> 'v astate \<Rightarrow> 'v astate option" where
  "packet_step env (Call_reconnect i) st = (if null_handle i st then None else map_option snd (MQTTAsync_reconnect env i st))"
| "packet_step env (Got_suback i pack sock) st = (if null_handle i st then None else receive_suback i pack sock st)"
| "packet_step env (Got_unsuback i pack sock) st = (if null_handle i st then None else receive_unsuback i pack sock st)"
| "packet_step env (Got_puback i pubcomp ack sock) st = (if null_handle i st then None else receive_puback env i pubcomp ack sock st)"
| "packet_step env (Got_connack i code) st = (if null_handle i st then None else receive_connack env i code st)"
| "packet_step env (Got_publish i p sock am ap) st = map_option snd (MQTTProtocol_handlePublishes (protocol env) p sock am ap st)"
| "packet_step env (Got_pubrec i ack sock) st = map_option snd (MQTTProtocol_handlePubrecs (protocol env) ack sock st)"
| "packet_step env (Got_pubrel i ack sock) st = map_option snd (MQTTProtocol_handlePubrels (protocol env) ack sock st)"
| "packet_step env (Deliver i) st = deliver_queued env i st"
| "packet_step env (Connecting i) st = (if null_handle i st then None else map_option snd (MQTTAsync_connecting env i st))"
| "packet_step env (Socket_failed i) st = (if null_handle i st then None else receive_error env i st)"
| "packet_step env (Retry now due) st = MQTTAsync_retry env now due st"
| "packet_step env (Write_complete now sock) st = MQTTAsync_writeComplete env now sock st"
| "packet_step env (Process mem) st = map_option snd (MQTTAsync_processCommand env mem st)"
| "packet_step env Timeouts st = MQTTAsync_checkTimeouts env st"
| "packet_step env (Call_connect i options) st = map_option snd (MQTTAsync_connect env i options st)"
| "packet_step env (Call_disconnect i options) st = map_option snd (MQTTAsync_disconnect env i options st)"
| "packet_step env (Call_setCallbacks i cl ma dc) st = Some (snd (MQTTAsync_setCallbacks i cl ma dc st))"
| "packet_step env (Call_setConnected i connected) st = Some (snd (MQTTAsync_setConnected i connected st))"
| "packet_step env _ st = None"

fun async_step :: "'v async_env \<Rightarrow> async_event \<Rightarrow> 'v astate \<Rightarrow> (addr option \<times> 'v astate) option" where
  "async_step env (Call_subscribe i topics f g) st =
     map_option (\<lambda>(rc, tok, st'). (accepts st rc True, st')) (MQTTAsync_subscribeMany env i topics f g st)"
| "async_step env (Call_unsubscribe i topics f g) st =
     map_option (\<lambda>(rc, tok, st'). (accepts st rc True, st')) (MQTTAsync_unsubscribeMany env i topics f g st)"
| "async_step env (Call_send i dest len payload qos retained f g) st =
     map_option (\<lambda>(rc, tok, st'). (accepts st rc (qos > 0), st')) (MQTTAsync_send env i dest len payload qos retained f g st)"
| "async_step env ev st = map_option (Pair None) (packet_step env ev st)"

text \<open>A pending write is done in order: see \<open>pending_is_first\<close>.\<close>

fun in_order :: "async_event \<Rightarrow> 'v astate \<Rightarrow> bool" where
  "in_order (Write_complete now sock) st = pending_is_first sock st"
| "in_order ev st = True"

lemma packet_step_sound:
  assumes "packet_step (on_top bl) ev st = Some st'" "sound n A h st" "in_order ev st"
  shows "sound n A h st'"
proof -
  have i: "i < n" if "\<not> null_handle i st" for i using that null_handle_sound [OF assms(2)] by simp
  show ?thesis
  proof (cases ev)
    case (Got_suback i pack sock)
    then show ?thesis using assms by (auto split: if_splits intro: receive_suback_sound i)
  next
    case (Got_unsuback i pack sock)
    then show ?thesis using assms by (auto split: if_splits intro: receive_unsuback_sound i)
  next
    case (Got_puback i pubcomp ack sock)
    then show ?thesis using assms by (auto split: if_splits intro: receive_puback_sound i)
  next
    case (Got_connack i code)
    then show ?thesis using assms by (auto split: if_splits intro: receive_connack_sound i)
  next
    case (Connecting i)
    then show ?thesis using assms by (auto split: if_splits intro: connecting_sound i)
  next
    case (Call_reconnect i)
    then show ?thesis using assms by (auto split: if_splits intro: reconnect_sound i)
  next
    case (Call_setCallbacks i cl ma dc)
    then show ?thesis using assms setCallbacks_sound [of i cl ma dc st] by (cases "MQTTAsync_setCallbacks i cl ma dc st") auto
  next
    case (Call_setConnected i c)
    then show ?thesis using assms setConnected_sound [of i c st] by (cases "MQTTAsync_setConnected i c st") auto
  next
    case (Write_complete now sock)
    then show ?thesis using assms by (auto intro: writeComplete_sound)
  qed (use assms(1,2) in \<open>auto split: if_splits intro: receive_error_sound retry_sound processCommand_sound checkTimeouts_sound connect_sound
      disconnect_sound deliver_queued_sound account.handlePublishes account.handlePubrecs account.handlePubrels\<close>)
qed

fun makes_request :: "async_event \<Rightarrow> bool" where
  "makes_request (Call_subscribe i topics f g) = True"
| "makes_request (Call_unsubscribe i topics f g) = True"
| "makes_request (Call_send i dest len payload qos retained f g) = True"
| "makes_request ev = False"

lemma async_step_other: "\<not> makes_request ev \<Longrightarrow> async_step env ev st = map_option (Pair None) (packet_step env ev st)"
  by (cases ev) (simp_all del: packet_step.simps)

lemma async_step_sound:
  assumes "async_step (on_top bl) ev st = Some (accepted, st')" "sound n A [] st" "in_order ev st"
  shows "sound n (with_accepted accepted A) [] st'"
proof (cases "makes_request ev")
  case True
  note topics = request_topics_sound [OF _ assms(2)]
  consider (subscribe) i ts f g where "ev = Call_subscribe i ts f g" | (unsubscribe) i ts f g where "ev = Call_unsubscribe i ts f g"
    | (send) i dest len payload qos retained f g where "ev = Call_send i dest len payload qos retained f g"
    using True by (cases ev) simp_all
  then show ?thesis
  proof cases
    case subscribe
    with assms(1) obtain rc tok where "MQTTAsync_subscribeMany (on_top bl) i ts f g st = Some (rc, tok, st')" "accepted = accepts st rc True"
      by auto
    with topics show ?thesis by (simp add: MQTTAsync_subscribeMany_def is_request_def)
  next
    case unsubscribe
    with assms(1) obtain rc tok where "MQTTAsync_unsubscribeMany (on_top bl) i ts f g st = Some (rc, tok, st')" "accepted = accepts st rc True"
      by auto
    with topics show ?thesis by (simp add: MQTTAsync_unsubscribeMany_def is_request_def)
  next
    case send
    with assms(1) obtain rc tok where "MQTTAsync_send (on_top bl) i dest len payload qos retained f g st = Some (rc, tok, st')"
      "accepted = accepts st rc (qos > 0)" by auto
    with send_sound [OF _ assms(2)] show ?thesis by simp
  qed
next
  case False
  with assms(1) have "packet_step (on_top bl) ev st = Some st'" "accepted = None" by (auto simp: async_step_other)
  then show ?thesis using packet_step_sound assms(2,3) by (simp add: with_accepted_def)
qed

fun async_run :: "'v async_env \<Rightarrow> async_event list \<Rightarrow> 'v astate \<Rightarrow> (addr list \<times> 'v astate) option" where
  "async_run env [] st = Some ([], st)"
| "async_run env (ev # evs) st = do {
     (accepted, st) \<leftarrow> async_step env ev st;
     (more, st) \<leftarrow> async_run env evs st;
     Some ((case accepted of None \<Rightarrow> more | Some a \<Rightarrow> a # more), st)
   }"

text \<open>A run in which every pending write is done in order.\<close>

fun orderly :: "'v async_env \<Rightarrow> async_event list \<Rightarrow> 'v astate \<Rightarrow> bool" where
  "orderly env [] st = True"
| "orderly env (ev # evs) st = (in_order ev st \<and> (case async_step env ev st of None \<Rightarrow> True | Some (accepted, st') \<Rightarrow> orderly env evs st'))"

lemma no_writes_orderly: "\<forall>now sock. Write_complete now sock \<notin> set evs \<Longrightarrow> orderly env evs st"
proof (induction evs arbitrary: st)
  case (Cons ev evs)
  then have "in_order ev x" for x :: "'a astate" by (cases ev) auto
  with Cons show ?case by (auto split: option.split)
qed simp

text \<open>A state before any command has been put into the queue.\<close>

definition no_commands :: "'v astate \<Rightarrow> bool" where
  "no_commands st \<longleftrightarrow> as_heap (ps_world st) = Map.empty \<and> as_commands (ps_world st) = [] \<and> as_answers (ps_world st) = [] \<and>
     list_all (\<lambda>m. ma_responses m = [] \<and> cmd_token (ma_connect m) = 0) (as_handles (ps_world st))"

lemma no_commands_sound: "no_commands st \<Longrightarrow> sound (length (as_handles (ps_world st))) {} [] st"
proof -
  assume *: "no_commands st"
  then have c: "concat (map ma_responses (as_handles (ps_world st))) = []" by (auto simp: no_commands_def list_all_iff)
  show ?thesis
    using * unfolding accounted_def waiting_def c
    by (simp add: no_commands_def answered_ones_def heap_ok_def handle_ok_def list_all_length)
qed

lemma async_run_sound:
  "\<lbrakk>async_run (on_top bl) evs st = Some (acc, st'); sound n A [] st; orderly (on_top bl) evs st\<rbrakk> \<Longrightarrow> sound n (A \<union> set acc) [] st'"
proof (induction evs arbitrary: st A acc)
  case (Cons ev evs)
  obtain accepted st1 more where 1: "async_step (on_top bl) ev st = Some (accepted, st1)" "async_run (on_top bl) evs st1 = Some (more, st')"
    "acc = (case accepted of None \<Rightarrow> more | Some a \<Rightarrow> a # more)"
    using Cons.prems(1) by (auto elim!: bind_SomeE)
  have o: "in_order ev st" "orderly (on_top bl) evs st1" using Cons.prems(3) 1(1) by simp_all
  from Cons.IH [OF 1(2) async_step_sound [OF 1(1) Cons.prems(2) o(1)] o(2)] show ?case
    by (auto simp: 1(3) with_accepted_def split: option.splits)
qed simp

end
