(* ===== verification/AsyncProperties.thy ===== *)
theory AsyncProperties
  imports AsyncRuns
begin

text \<open>What the account gives for the application, and properties of single operations of the asynchronous client.\<close>

section \<open>Runs\<close>

lemma step_accepts_next: "async_step env ev st = Some (Some a, st') \<Longrightarrow> a = as_next (ps_world st)"
  by (cases ev) (auto simp: accepts_def split: if_splits)

lemma async_run_fresh:
  "\<lbrakk>async_run (on_top bl) evs st = Some (acc, st'); sound n A [] st; orderly (on_top bl) evs st\<rbrakk> \<Longrightarrow>
    distinct acc \<and> set acc \<inter> A = {}"
proof (induction evs arbitrary: st A acc)
  case (Cons ev evs)
  obtain accepted st1 more where 1: "async_step (on_top bl) ev st = Some (accepted, st1)" "async_run (on_top bl) evs st1 = Some (more, st')"
    "acc = (case accepted of None \<Rightarrow> more | Some a \<Rightarrow> a # more)"
    using Cons.prems(1) by (auto elim!: bind_SomeE)
  have "as_next (ps_world st) \<notin> A" using accountedD(4,7) [OF Cons.prems(2)] by auto
  moreover have "in_order ev st" "orderly (on_top bl) evs st1" using Cons.prems(3) 1(1) by simp_all
  ultimately show ?case using Cons.IH [OF 1(2) async_step_sound [OF 1(1) Cons.prems(2)]] step_accepts_next [of _ ev st] 1
    by (cases accepted) (auto simp: with_accepted_def)
qed simp

lemma run_sound:
  assumes "no_commands st0" "async_run (on_top bl) evs st0 = Some (acc, st)" "orderly (on_top bl) evs st0"
  shows "sound (length (as_handles (ps_world st))) (set acc) [] st" "distinct acc"
proof -
  have s: "sound (length (as_handles (ps_world st0))) (set acc) [] st"
    using async_run_sound [OF assms(2) no_commands_sound [OF assms(1)] assms(3)] by simp
  then show "sound (length (as_handles (ps_world st))) (set acc) [] st" by (simp add: accountedD(1) [OF s])
  show "distinct acc" using async_run_fresh [OF assms(2) no_commands_sound [OF assms(1)] assms(3)] by simp
qed

section \<open>An example\<close>

text \<open>A network that takes everything, and one client that is connected.\<close>

definition demo_below :: "unit below" where
  "demo_below = \<lparr>
     bl_po = \<lparr>po_net = \<lparr>op_getch = (\<lambda>w s. (0, 0, w)), op_getdata = (\<lambda>w s n. (None, 0, w)),
         op_putdatas = (\<lambda>w s b bs fs. Some (TCPSOCKET_COMPLETE, w)), op_persist_put = (\<lambda>w s b bs t m k. (0, w)), op_time = (\<lambda>w. 0)\<rparr>,
       po_process = (\<lambda>p i st. st), po_closeSession = (\<lambda>i st. st), po_persist_remove = (\<lambda>w c kind q m. (0, w)),
       po_noPendingWrites = (\<lambda>w s. (True, w)), po_updateWrite = (\<lambda>w s t p. w), po_socket_new = (\<lambda>w addr port. (0, 1, w)),
       po_sizeof_Messages = 40, po_sizeof_Publications = 32\<rparr>,
     bl_pe = \<lparr>pe_popen = (\<lambda>w c s. (0, [], w)), pe_pclose = (\<lambda>w h. (0, w)), pe_pput = (\<lambda>w h k bs. (0, w)), pe_pget = (\<lambda>w h k. (0, [], w)),
       pe_premove = (\<lambda>w h k. (0, w)), pe_pkeys = (\<lambda>w h. (0, [], w)), pe_pclear = (\<lambda>w h. (0, w)), pe_pcontainskey = (\<lambda>w h k. (0, w))\<rparr>,
     bl_char_signed = True, bl_clock = (\<lambda>w. 0), bl_close = (\<lambda>w s. w), bl_addPendingWrite = (\<lambda>w s. w), bl_clearPendingWrite = (\<lambda>w s. w),
     bl_so_error = (\<lambda>w s. (0, w)), bl_deliver = (\<lambda>i qe w. (True, w)), bl_seqno0 = 0\<rparr>"

definition demo_async :: "unit astate" where
  "demo_async = \<lparr>
     ps_clients = clist_append ((create_client [99] False)\<lparr>cl_connected := True, cl_good := True,
       cl_net := \<lparr>nh_socket = 5, nh_lastSent = 0, nh_lastReceived = 0\<rparr>\<rparr>) clist_empty,
     ps_msgs = Map.empty, ps_pubs = Map.empty, ps_publications = clist_empty, ps_pending_writes = clist_empty, ps_msgs_received = 0,
     ps_msgs_sent = 0,
     ps_world = \<lparr>as_heap = Map.empty, as_next = 0, as_commands = [], as_handles = [create_handle [104] None], as_log = [], as_answers = [],
       as_net = ()\<rparr>\<rparr>"

definition demo_mem :: publish_mem where
  "demo_mem = \<lparr>pmem_msg = 7, pmem_pub = 8, pmem_next = 0, pmem_header = 0, pmem_topiclen = 1\<rparr>"

text \<open>A subscription and a message of QoS 1 are queued; then both are sent.\<close>

definition demo_calls :: "async_event list" where
  "demo_calls = [Call_subscribe 0 [([97], 1)] (Some 1) None, Call_send 0 [98] 1 [120] 1 0 None None]"

definition demo_run :: "async_event list" where
  "demo_run = demo_calls @ [Process demo_mem, Process demo_mem]"

definition demo_suback :: Suback where
  "demo_suback = \<lparr>sub_header = 0, sub_msgId = 1, sub_qoss = [1]\<rparr>"

lemma demo_no_commands: "no_commands demo_async"
  by (simp add: no_commands_def demo_async_def create_handle_def Let_def)

lemma demo_orderly: "orderly (on_top demo_below) demo_run demo_async"
  by (rule no_writes_orderly) (simp add: demo_run_def demo_calls_def)

text \<open>What of the state after the run the examples use.\<close>

definition demo_view :: "addr list \<times> unit astate \<Rightarrow> addr list \<times> addr list \<times> addr list \<times> nat \<times> (nat \<times> int) option \<times> nat option \<times> addr list \<times> nat option" where
  "demo_view r = (fst r, as_commands (ps_world (snd r)), ma_responses (get_handle 0 (snd r)), length (as_handles (ps_world (snd r))),
     map_option (\<lambda>q. (qc_client q, cmd_token (qc_command q))) (deref 0 (snd r)), map_option fst (find_client 5 (snd r)),
     map snd (elems (ps_pending_writes (snd r))), find_index (\<lambda>c. nh_socket (cl_net c) = 5) (elems (ps_clients (snd r))))"

lemma demo_run_ends:
  obtains st where "async_run (on_top demo_below) demo_run demo_async = Some ([0, 1], st)"
    "as_commands (ps_world st) = []" "ma_responses (get_handle 0 st) = [0, 1]" "length (as_handles (ps_world st)) = 1"
    "\<exists>q. deref 0 st = Some q \<and> qc_client q = 0 \<and> cmd_token (qc_command q) = 1" "\<exists>st1. find_client 5 st = Some (0, st1)"
    "elems (ps_pending_writes st) = []" "find_index (\<lambda>c. nh_socket (cl_net c) = 5) (elems (ps_clients st)) = Some 0"
proof -
  have "map_option demo_view (async_run (on_top demo_below) demo_run demo_async) = Some ([0, 1], [], [0, 1], 1, Some (0, 1), Some 0, [], Some 0)"
    by code_simp
  then show thesis by (auto simp: demo_view_def intro: that)
qed

section \<open>The account after a run\<close>

lemma count_list_distinct: "\<lbrakk>distinct xs; x \<in> set xs\<rbrakk> \<Longrightarrow> count_list xs x = 1"
  by (induction xs) auto

text \<open>
  C9. No accepted request is lost and none is answered twice. In every run of the events of \<open>async_event\<close>, with any
  network below and each call of the application and each step of a thread taken as one event, every subscription,
  every end of one and every message of QoS 1 or 2 that the client has accepted is at exactly one place, exactly once:
  in the queue, in a list of responses, or among the answers that the application has been given. The run is orderly: a
  pending write that is done is the one of the first request in its client's list of responses. When it is another
  request's, the first one is lost (\<open>write_complete_drops_first\<close>).
\<close>

theorem requests_accounted:
  assumes "no_commands st0" "async_run (on_top bl) evs st0 = Some (acc, st)" "orderly (on_top bl) evs st0"
  shows "distinct acc \<and> (\<forall>a\<in>set acc. count_list (as_commands (ps_world st) @ concat (map ma_responses (as_handles (ps_world st))) @
    map fst (as_answers (ps_world st))) a = 1)"
proof (intro conjI ballI)
  note w = accountedD [OF run_sound(1) [OF assms]]
  fix a assume "a \<in> set acc"
  then have a: "a \<in> dom (as_heap (ps_world st)) \<or> a \<in> answered_ones (ps_world st)" using w(7) by blast
  have "distinct (waiting (ps_world st) @ map fst (as_answers (ps_world st)))"
    using w(2,3,5,6) by (auto simp: answered_ones_def)
  moreover have "a \<in> set (waiting (ps_world st) @ map fst (as_answers (ps_world st)))"
    using a w(3) by (auto simp: answered_ones_def)
  ultimately have "count_list (waiting (ps_world st) @ map fst (as_answers (ps_world st))) a = 1" by (rule count_list_distinct)
  then show "count_list (as_commands (ps_world st) @ concat (map ma_responses (as_handles (ps_world st))) @
      map fst (as_answers (ps_world st))) a = 1"
    by (simp add: waiting_def)
qed (rule run_sound(2) [OF assms])

theorem requests_accounted_witness:
  "\<exists>st. async_run (on_top demo_below) demo_run demo_async = Some ([0, 1], st) \<and>
     (\<forall>a\<in>{0, 1}. count_list (as_commands (ps_world st) @ concat (map ma_responses (as_handles (ps_world st))) @
       map fst (as_answers (ps_world st))) a = 1)"
proof (rule demo_run_ends)
  fix st assume run: "async_run (on_top demo_below) demo_run demo_async = Some ([0, 1], st)"
  from requests_accounted [OF demo_no_commands run demo_orderly] run show ?thesis by auto
qed

text \<open>
  C26. Commands are neither leaked nor left dangling: after any orderly run of the events the allocated commands are exactly those in the queue
  and in the lists of responses, each belongs to an existing client, and a list of responses holds only commands of
  its own client.
\<close>

theorem commands_well_formed:
  assumes "no_commands st0" "async_run (on_top bl) evs st0 = Some (acc, st)" "orderly (on_top bl) evs st0"
  shows "{a. deref a st \<noteq> None} = set (waiting (ps_world st)) \<and> distinct (waiting (ps_world st)) \<and>
    (\<forall>a q. deref a st = Some q \<longrightarrow> qc_client q < length (as_handles (ps_world st))) \<and>
    (\<forall>i<length (as_handles (ps_world st)). \<forall>a\<in>set (ma_responses (get_handle i st)). \<exists>q. deref a st = Some q \<and> qc_client q = i)"
  using accountedD [OF run_sound(1) [OF assms]]
  by (auto simp: deref_def heap_ok_def command_ok_def handle_ok_def get_handle_def)

theorem commands_well_formed_witness:
  "\<exists>st. async_run (on_top demo_below) demo_run demo_async = Some ([0, 1], st) \<and> ma_responses (get_handle 0 st) = [0, 1] \<and>
     (\<forall>a\<in>{0, 1}. \<exists>q. deref a st = Some q \<and> qc_client q = 0)"
proof (rule demo_run_ends)
  fix st assume run: "async_run (on_top demo_below) demo_run demo_async = Some ([0, 1], st)"
    and r: "ma_responses (get_handle 0 st) = [0, 1]" "length (as_handles (ps_world st)) = 1"
  from commands_well_formed [OF demo_no_commands run demo_orderly] run r show ?thesis by simp
qed

text \<open>
  C25. Tokens identify requests: after any orderly run of the events two different commands of a client that wait in the queue or for a
  response do not have the same token, unless it is 0, the token of commands that have none.
\<close>

theorem tokens_unique:
  assumes "no_commands st0" "async_run (on_top bl) evs st0 = Some (acc, st)" "orderly (on_top bl) evs st0"
    "deref a st = Some q" "deref b st = Some r" "qc_client q = qc_client r" "cmd_token (qc_command q) = cmd_token (qc_command r)"
    "0 < cmd_token (qc_command q)"
  shows "a = b"
  using accountedD(8) [OF run_sound(1) [OF assms(1-3)]] assms(4-8) unfolding heap_ok_def deref_def share_token_def by blast

theorem tokens_unique_witness:
  "\<exists>st. async_run (on_top demo_below) demo_run demo_async = Some ([0, 1], st) \<and>
     (\<exists>q. deref 0 st = Some q \<and> cmd_token (qc_command q) = 1) \<and>
     (\<forall>b r. deref b st = Some r \<and> qc_client r = 0 \<and> cmd_token (qc_command r) = 1 \<longrightarrow> 0 = b)"
proof (rule demo_run_ends)
  fix st assume run: "async_run (on_top demo_below) demo_run demo_async = Some ([0, 1], st)"
    and "\<exists>q. deref 0 st = Some q \<and> qc_client q = 0 \<and> cmd_token (qc_command q) = 1"
  then obtain q where q: "deref 0 st = Some q" "qc_client q = 0" "cmd_token (qc_command q) = 1" by blast
  with tokens_unique [OF demo_no_commands run demo_orderly q(1)] run show ?thesis by auto
qed

lemma find_response_unique:
  "\<lbrakk>a \<in> set as; \<And>b. b \<in> set as \<Longrightarrow> \<exists>r. deref b st = Some r \<and> (cmd_token (qc_command r) = tok \<longrightarrow> b = a); deref a st = Some q;
    cmd_token (qc_command q) = tok\<rbrakk> \<Longrightarrow> find_response tok as st = Some (Some a)"
proof (induction as)
  case (Cons b as)
  obtain r where r: "deref b st = Some r" "cmd_token (qc_command r) = tok \<longrightarrow> b = a" using Cons.prems(2) [of b] by auto
  show ?case
  proof (cases "b = a")
    case False
    then have "a \<in> set as" using Cons.prems(1) by simp
    with Cons.IH Cons.prems r False show ?thesis by simp
  qed (use r Cons.prems(3,4) in simp)
qed simp

lemma response_found:
  assumes "sound n A [] st" "i < n" "a \<in> set (ma_responses (get_handle i st))" "deref a st = Some q" "0 < cmd_token (qc_command q)"
  shows "find_response (cmd_token (qc_command q)) (ma_responses (get_handle i st)) st = Some (Some a)"
proof (rule find_response_unique [OF assms(3) _ assms(4) refl])
  note w = accountedD [OF assms(1)]
  have client: "\<exists>r. deref b st = Some r \<and> qc_client r = i" if "b \<in> set (ma_responses (get_handle i st))" for b
    using w(9) [OF assms(2)] that by (auto simp: handle_ok_def get_handle_def deref_def)
  fix b assume "b \<in> set (ma_responses (get_handle i st))"
  then obtain r where r: "deref b st = Some r" "qc_client r = i" using client by blast
  have "qc_client q = i" using client [OF assms(3)] assms(4) by simp
  then have "cmd_token (qc_command r) = cmd_token (qc_command q) \<longrightarrow> b = a"
    using w(8) r assms(4,5) unfolding heap_ok_def deref_def share_token_def by metis
  then show "\<exists>r. deref b st = Some r \<and> (cmd_token (qc_command r) = cmd_token (qc_command q) \<longrightarrow> b = a)" using r(1) by blast
qed

lemma find_client_world_update [simp]:
  "find_client sock (on_world f st) = map_option (map_prod id (on_world f)) (find_client sock st)"
  by (cases st) (simp add: find_client_def on_world_def option.map_comp comp_def)

definition told :: "MQTTAsync_command \<Rightarrow> int option \<Rightarrow> async_notice list" where
  "told c code = (case code of
     None \<Rightarrow> (case cmd_onSuccess c of None \<Rightarrow> [] | Some f \<Rightarrow> [Call_onSuccess f (cmd_token c)])
   | Some rc \<Rightarrow> (case cmd_onFailure c of None \<Rightarrow> [] | Some f \<Rightarrow> [Call_onFailure f rc]))"

text \<open>What taking a command out of a list of responses does to the state.\<close>

definition completed :: "nat \<Rightarrow> addr \<Rightarrow> MQTTAsync_command \<Rightarrow> int option \<Rightarrow> 'v async \<Rightarrow> 'v async" where
  "completed i a c code w = w\<lparr>as_handles := (as_handles w)[i := (as_handles w ! i)\<lparr>ma_responses := remove1 a (ma_responses (as_handles w ! i))\<rparr>],
     as_log := as_log w @ told c code, as_answers := as_answers w @ [(a, code = None)], as_heap := (as_heap w)(a := None)\<rparr>"

lemma complete_response_effect:
  "deref a st = Some q \<Longrightarrow> complete_response i a code st = Some (on_world (completed i a (qc_command q) code) st)"
  by (simp add: complete_response_def completed_def told_def MQTTAsync_freeCommand_def answered_def call_onSuccess_def call_onFailure_def
      notify_def set_handle_def get_handle_def on_world_def deref_def Let_def split: option.split)

text \<open>
  C24. An acknowledgement of a subscription answers exactly the request it is for: after any orderly run, when client \<open>i\<close> has a
  command with the token of the SUBACK in its list of responses, that command and no other leaves the list, is freed
  and answered, with failure when the server refused it, and of the callbacks exactly the one of that command is called.
  Nothing else of the queue and the clients changes.
\<close>

theorem suback_answers_request:
  assumes "no_commands st0" "async_run (on_top bl) evs st0 = Some (acc, st)" "orderly (on_top bl) evs st0"
    "i < length (as_handles (ps_world st))" "a \<in> set (ma_responses (get_handle i st))" "deref a st = Some q" "cmd_token (qc_command q) = sub_msgId pack" "0 < sub_msgId pack"
    "find_client sock st = Some (i, st1)"
  shows "\<exists>st'. receive_suback i pack sock st = Some st' \<and>
    ps_world st' = completed i a (qc_command q) (if sub_qoss pack = [MQTT_BAD_SUBSCRIBE] then Some MQTT_BAD_SUBSCRIBE else None) (ps_world st)"
proof -
  have "find_response (sub_msgId pack) (ma_responses (get_handle i st)) st = Some (Some a)"
    using response_found [OF run_sound(1) [OF assms(1-3)] assms(4-6)] assms(7,8) by simp
  moreover have "ps_world st1 = ps_world st" using assms(9) by (rule find_client_world)
  ultimately show ?thesis
    using assms(9)
    by (simp add: receive_suback_def complete_response_effect [OF assms(6)] MQTTProtocol_handleSubacks_def on_world_def [of _ st1])
qed

theorem suback_answers_request_witness:
  "\<exists>st st'. async_run (on_top demo_below) demo_run demo_async = Some ([0, 1], st) \<and> receive_suback 0 demo_suback 5 st = Some st' \<and>
     ma_responses (get_handle 0 st') = [1] \<and> as_answers (ps_world st') = as_answers (ps_world st) @ [(0, True)]"
proof (rule demo_run_ends)
  fix st assume run: "async_run (on_top demo_below) demo_run demo_async = Some ([0, 1], st)"
    and r: "ma_responses (get_handle 0 st) = [0, 1]" "length (as_handles (ps_world st)) = 1"
    and "\<exists>q. deref 0 st = Some q \<and> qc_client q = 0 \<and> cmd_token (qc_command q) = 1" "\<exists>st1. find_client 5 st = Some (0, st1)"
  then obtain q st1 where q: "deref 0 st = Some q" "cmd_token (qc_command q) = sub_msgId demo_suback" "find_client 5 st = Some (0, st1)"
    by (auto simp: demo_suback_def)
  have "0 < length (as_handles (ps_world st))" "0 \<in> set (ma_responses (get_handle 0 st))" "0 < sub_msgId demo_suback"
    using r by (simp_all add: demo_suback_def)
  from suback_answers_request [OF demo_no_commands run demo_orderly this(1,2) q(1,2) this(3) q(3)] run r show ?thesis
    by (auto simp: completed_def get_handle_def demo_suback_def)
qed

section \<open>The order of commands\<close>

lemma pick_command_order:
  "\<lbrakk>pick_command (on_top bl) as ignored st = Some (Some a, st'); same_queue (ps_world st0) (ps_world st)\<rbrakk> \<Longrightarrow>
   \<exists>xs ys q. as = xs @ a # ys \<and> deref a st0 = Some q \<and> qc_client q \<notin> set ignored \<and>
     (\<forall>b\<in>set xs. \<exists>r. deref b st0 = Some r \<and> qc_client r \<noteq> qc_client q)"
proof (induction as arbitrary: ignored st)
  case (Cons b as)
  obtain r where r: "deref b st = Some r" using Cons.prems(1) by (auto elim!: bind_SomeE)
  have r0: "deref b st0 = Some r" using r same_queue_simps(5) [OF Cons.prems(2)] by simp
  have later: ?case if "pick_command (on_top bl) as ign st1 = Some (Some a, st')" "same_queue (ps_world st0) (ps_world st1)"
    "qc_client r \<in> set ign" "set ignored \<subseteq> set ign" for ign st1
  proof -
    note found = Cons.IH [OF that(1,2)]
    obtain xs ys q where q: "as = xs @ a # ys" "deref a st0 = Some q" "qc_client q \<notin> set ign"
      "\<forall>b\<in>set xs. \<exists>r. deref b st0 = Some r \<and> qc_client r \<noteq> qc_client q"
      using found by blast
    then have "qc_client q \<noteq> qc_client r" "qc_client q \<notin> set ignored" using that(3,4) by auto
    then show ?thesis using q r0 by (intro exI [of _ "b # xs"] exI [of _ ys] exI [of _ q]) auto
  qed
  show ?case
  proof (cases "qc_client r \<in> set ignored")
    case True
    then show ?thesis using Cons.prems r later [of ignored st] by simp
  next
    case False
    define rs where "rs = (if cmd_type (qc_command r) = CONNECT \<or> cmd_type (qc_command r) = DISCONNECT then (True, st)
      else if cl_connected (get_client (qc_client r) st) \<and> cl_connect_state (get_client (qc_client r) st) = 0
      then no_pending_writes (protocol (on_top bl)) (qc_client r) st else (False, st))"
    obtain ready st1 where rs1: "rs = (ready, st1)" by fastforce
    have same1: "same_queue (ps_world st0) (ps_world st1)"
      using rs1 Cons.prems(2) same.no_pending_writes' by (auto simp: rs_def split: if_splits)
    consider "a = b" | "pick_command (on_top bl) as (ignored @ [qc_client r]) st1 = Some (Some a, st')"
      using Cons.prems(1) r False rs1 unfolding rs_def by (auto simp: Let_def split: if_splits)
    then show ?thesis
    proof cases
      case 1
      then show ?thesis using r0 False by (intro exI [of _ "[]"] exI [of _ as] exI [of _ r]) simp
    next
      case 2
      then show ?thesis using later [OF 2 same1] by (simp add: subset_insertI)
    qed
  qed
qed simp

text \<open>
  C27. The commands of one client are processed in the order of the queue: the command that the sending thread picks has
  no command of the same client before it, however many of the other clients it has to skip.
\<close>

theorem picked_in_order:
  assumes "pick_command (on_top bl) (as_commands (ps_world st)) [] st = Some (Some a, st')"
  shows "\<exists>xs ys q. as_commands (ps_world st) = xs @ a # ys \<and> deref a st = Some q \<and>
    (\<forall>b\<in>set xs. \<exists>r. deref b st = Some r \<and> qc_client r \<noteq> qc_client q)"
proof -
  from pick_command_order [OF assms same_queue_refl] show ?thesis by auto
qed

theorem picked_in_order_witness:
  "\<exists>st xs ys. map_option snd (async_run (on_top demo_below) demo_calls demo_async) = Some st \<and> as_commands (ps_world st) = xs @ 0 # ys"
proof -
  have "Option.bind (async_run (on_top demo_below) demo_calls demo_async)
      (\<lambda>(acc, st). map_option fst (pick_command (on_top demo_below) (as_commands (ps_world st)) [] st)) = Some (Some 0)"
    by code_simp
  then obtain acc st st' where run: "async_run (on_top demo_below) demo_calls demo_async = Some (acc, st)"
    and "pick_command (on_top demo_below) (as_commands (ps_world st)) [] st = Some (Some 0, st')"
    by (auto elim!: bind_SomeE)
  from picked_in_order [OF this(2)] run show ?thesis by auto
qed

section \<open>Persistent commands\<close>

text \<open>
  The record of a queued message is read back: a message that was in the queue when the program ended is restored
  with its token, topic, payload, QoS and retained flag; only its callbacks are gone.
\<close>

theorem publish_command_roundtrip:
  assumes "cmd_details c = Publish_Command (Some dest) payload qos retained" "command_buffers c = Some bufs" "c_string dest = dest"
    "fits_int (cmd_token c)" "fits_int (int (length payload))" "fits_int qos" "fits_int retained"
  shows "MQTTAsync_restoreCommand (concat bufs) = Some (Some (restored_command (cmd_token c) (cmd_details c)))"
proof -
  have b: "concat bufs = int32_bytes (int PUBLISH) @ int32_bytes (cmd_token c) @ dest @ 0 # int32_bytes (int (length payload)) @
      payload @ int32_bytes qos @ int32_bytes retained @ []"
    using assms(1-3) by (auto simp: command_buffers_def)
  have p: "read_bytes (int (length payload)) (payload @ rest) = Some (payload, rest)" for rest by (simp add: read_bytes_def)
  have "fits_int (int PUBLISH)" by (simp add: fits_int_def)
  then show ?thesis
    unfolding MQTTAsync_restoreCommand_def b using assms(1,4-7) read_int32_bytes [OF assms(7), of "[]"]
    by (simp add: read_int32_bytes read_string_zero [OF assms(3)] p)
qed

definition demo_publish :: MQTTAsync_command where
  "demo_publish = \<lparr>cmd_onSuccess = Some 3, cmd_onFailure = None, cmd_token = 9, cmd_start_time = 0,
     cmd_details = Publish_Command (Some [98]) [120, 121] 2 0\<rparr>"

theorem publish_command_roundtrip_witness:
  "\<exists>bufs. command_buffers demo_publish = Some bufs \<and>
     MQTTAsync_restoreCommand (concat bufs) = Some (Some (restored_command 9 (Publish_Command (Some [98]) [120, 121] 2 0)))"
proof -
  have d: "cmd_details demo_publish = Publish_Command (Some [98]) [120, 121] 2 0" "cmd_token demo_publish = 9" by (simp_all add: demo_publish_def)
  obtain bufs where b: "command_buffers demo_publish = Some bufs" by (simp add: command_buffers_def d)
  have "c_string [98] = [98]" by (simp add: c_string_def)
  from publish_command_roundtrip [OF d(1) b this] b show ?thesis by (simp add: d fits_int_def)
qed

text \<open>
  C36. A subscription in the queue makes the next start of the program undefined: the record that was written for a
  command with at least one topic cannot be restored, for subscribing and for unsubscribing, because the arrays that
  the topics are read into are not allocated.
\<close>

theorem subscription_not_restorable:
  assumes "cmd_details c = Subscribe_Command topics qoss \<or> cmd_details c = Unsubscribe_Command topics" "topics \<noteq> []"
    "command_buffers c = Some bufs" "fits_int (cmd_token c)" "length topics < 2 ^ 31"
  shows "MQTTAsync_restoreCommand (concat bufs) = None"
proof -
  have "fits_int (int SUBSCRIBE)" "fits_int (int UNSUBSCRIBE)" "fits_int (int (length topics))" using assms(5) by (simp_all add: fits_int_def)
  moreover have "(\<exists>rest. concat bufs = int32_bytes (int SUBSCRIBE) @ int32_bytes (cmd_token c) @ int32_bytes (int (length topics)) @ rest) \<or>
      (\<exists>rest. concat bufs = int32_bytes (int UNSUBSCRIBE) @ int32_bytes (cmd_token c) @ int32_bytes (int (length topics)) @ rest)"
    using assms(1,3) by (auto simp: command_buffers_def split: if_splits)
  ultimately show ?thesis
    unfolding MQTTAsync_restoreCommand_def using assms(2,4) by (auto simp: read_int32_bytes)
qed

definition demo_subscribe :: MQTTAsync_command where
  "demo_subscribe = \<lparr>cmd_onSuccess = None, cmd_onFailure = None, cmd_token = 9, cmd_start_time = 0, cmd_details = Subscribe_Command [[97]] [1]\<rparr>"

theorem subscription_not_restorable_witness:
  "\<exists>bufs. command_buffers demo_subscribe = Some bufs \<and> MQTTAsync_restoreCommand (concat bufs) = None"
proof -
  have d: "cmd_details demo_subscribe = Subscribe_Command [[97]] [1]" "cmd_token demo_subscribe = 9" by (simp_all add: demo_subscribe_def)
  obtain bufs where b: "command_buffers demo_subscribe = Some bufs" by (simp add: command_buffers_def d)
  from subscription_not_restorable [OF disjI1 [OF d(1)] _ b] b show ?thesis by (simp add: d fits_int_def)
qed

section \<open>Connecting again\<close>










lemma retry_interval_overflows:
  assumes "ma_automaticReconnect (get_handle i st)" "ma_shouldBeConnected (get_handle i st)" "ma_retrying (get_handle i st)"
    "2 ^ 30 \<le> ma_currentInterval (get_handle i st)"
  shows "MQTTAsync_startConnectRetry env i st = None"
  using assms by (simp add: MQTTAsync_startConnectRetry_def int_value_def fits_int_def Let_def)

section \<open>The servers of a list\<close>

text \<open>
  The attempts that a command for connecting makes one after the other, each as the server and the version of the
  protocol; \<open>None\<close> when an attempt reads behind the end of the array of servers.
\<close>

fun attempts :: "nat \<Rightarrow> 'v astate \<Rightarrow> nat \<Rightarrow> int \<Rightarrow> int \<Rightarrow> (bytes \<times> int) list option" where
  "attempts i st 0 u v = Some []"
| "attempts i st (Suc k) u v = do {
     (uri, u, v) \<leftarrow> next_server i u v st;
     let v = next_version (cl_MQTTVersion (get_client i st)) v;
     rest \<leftarrow> attempts i st k u v;
     Some ((uri, v) # rest)
   }"

definition server_list :: "nat \<Rightarrow> 'v astate \<Rightarrow> bytes list \<Rightarrow> bool" where
  "server_list i st uris \<longleftrightarrow> uris \<noteq> [] \<and> ma_serverURIs (get_handle i st) = Some uris \<and> ma_serverURIcount (get_handle i st) = length uris"

lemma default_attempts:
  assumes "server_list i st uris" "cl_MQTTVersion (get_client i st) = 0" "k \<le> length uris" "v = 0 \<and> u = int (length uris - k) \<or> v = 3 \<and> u = int (length uris - k) - 1"
  shows "attempts i st (2 * k) u v = Some (concat (map (\<lambda>uri. [(strip_tcp uri, 4), (strip_tcp uri, 3)]) (drop (length uris - k) uris))) \<and>
    attempts i st (2 * k + 1) u v = None"
  using assms(3,4)
proof (induction k arbitrary: u v)
  case 0
  then show ?case using assms(1,2) by (auto simp: server_list_def next_server_def Let_def)
next
  case (Suc k)
  define n where "n = length uris - Suc k"
  have n: "n < length uris" "length uris - k = Suc n" "length uris - Suc k = n" using Suc.prems(1) by (auto simp: n_def)
  have u: "v = 0 \<and> u = int n \<or> v = 3 \<and> u + 1 = int n" using Suc.prems(2) by (auto simp: n(3))
  have d: "drop n uris = uris ! n # drop (length uris - k) uris" using n Cons_nth_drop_Suc [of n uris] by simp
  have 1: "next_server i u v st = Some (strip_tcp (uris ! n), int n, 0)"
    using assms(1,2) n(1) u by (auto simp: next_server_def server_list_def Let_def)
  have 2: "next_server i (int n) 4 st = Some (strip_tcp (uris ! n), int n, 4)"
    using assms(1,2) n(1) by (auto simp: next_server_def server_list_def Let_def)
  have rest: "attempts i st (2 * k) (int n) 3 = Some (concat (map (\<lambda>uri. [(strip_tcp uri, 4), (strip_tcp uri, 3)]) (drop (length uris - k) uris)))"
    "attempts i st (2 * k + 1) (int n) 3 = None"
    using Suc.IH [of 3 "int n"] Suc.prems(1) n(2) by simp_all
  have s: "2 * Suc k = Suc (Suc (2 * k))" "2 * Suc k + 1 = Suc (Suc (2 * k + 1))" by simp_all
  have e: "attempts i st (Suc (Suc m)) u v =
      map_option (\<lambda>rest. (strip_tcp (uris ! n), 4) # (strip_tcp (uris ! n), 3) # rest) (attempts i st m (int n) 3)" for m
    using 1 2 assms(2) by (cases "attempts i st m (int n) 3") (simp_all add: next_version_def)
  have "attempts i st (2 * Suc k) u v = Some (concat (map (\<lambda>uri. [(strip_tcp uri, 4), (strip_tcp uri, 3)]) (drop n uris)))"
    unfolding s(1) e rest d by simp
  moreover have "attempts i st (2 * Suc k + 1) u v = None" unfolding s(2) e rest by simp
  ultimately show ?case unfolding n(3) by (rule conjI)
qed

text \<open>
  With the default version of the protocol every server of the list is tried with 3.1.1 and then with 3.1, in the
  order of the list. When all have failed, \<open>MQTTAsync_checkConn\<close> still promises another attempt, and that attempt reads
  behind the end of the array.
\<close>

theorem default_version_servers:
  assumes "server_list i st uris" "cl_MQTTVersion (get_client i st) = 0"
  shows "attempts i st (2 * length uris) 0 0 = Some (concat (map (\<lambda>uri. [(strip_tcp uri, 4), (strip_tcp uri, 3)]) uris)) \<and>
    (cmd_details c = Connect_Command (int (length uris) - 1) 3 \<longrightarrow> MQTTAsync_checkConn c i st) \<and>
    (\<not> cl_connected (get_client i st) \<and> cl_connect_state (get_client i st) = 0 \<longrightarrow>
      process_connect env a i (int (length uris) - 1) 3 st = None)"
proof -
  have last: "next_server i (int (length uris) - 1) 3 st = None"
    using assms by (auto simp: next_server_def server_list_def Let_def)
  then have "attempts i st (2 * length uris) 0 0 = Some (concat (map (\<lambda>uri. [(strip_tcp uri, 4), (strip_tcp uri, 3)]) uris))"
    using default_attempts [OF assms, of "length uris" 0 0] by simp
  moreover have "cmd_details c = Connect_Command (int (length uris) - 1) 3 \<Longrightarrow> MQTTAsync_checkConn c i st"
    using assms(1) by (simp add: MQTTAsync_checkConn_def server_list_def)
  ultimately show ?thesis using last by (simp add: process_connect_def)
qed

definition demo_servers :: "int \<Rightarrow> unit astate" where
  "demo_servers version = set_client 0 (create_client [99] False\<lparr>cl_MQTTVersion := version\<rparr>)
     (set_handle 0 ((create_handle [104] None)\<lparr>ma_serverURIs := Some [[97], [98]], ma_serverURIcount := 2\<rparr>) demo_async)"

lemma demo_servers:
  "server_list 0 (demo_servers v) [[97], [98]]" "cl_MQTTVersion (get_client 0 (demo_servers v)) = v"
  "\<not> cl_connected (get_client 0 (demo_servers v))" "cl_connect_state (get_client 0 (demo_servers v)) = 0"
  by (simp_all add: demo_servers_def server_list_def demo_async_def set_handle_def on_world_def get_handle_def set_client_def create_client_def
      clist_append_def clist_empty_def)

theorem default_version_servers_witness:
  "attempts 0 (demo_servers 0) 4 0 0 = Some [([97], 4), ([97], 3), ([98], 4), ([98], 3)] \<and>
   process_connect (on_top demo_below) 0 0 1 3 (demo_servers 0) = None"
  using default_version_servers [OF demo_servers(1,2), where env = "on_top demo_below" and a = 0] demo_servers(3,4)
  by (simp add: strip_tcp_def Let_def del: attempts.simps)

lemma explicit_attempts:
  assumes "server_list i st uris" "cl_MQTTVersion (get_client i st) \<noteq> 0" "k < length uris" "u = int (length uris - 1 - k)"
  shows "attempts i st k u v = Some (map (\<lambda>uri. (strip_tcp uri, cl_MQTTVersion (get_client i st))) (drop (length uris - k) uris)) \<and>
    attempts i st (Suc k) u v = None"
  using assms(3,4)
proof (induction k arbitrary: u v)
  case 0
  then show ?case using assms(1,2) by (auto simp: server_list_def next_server_def Let_def)
next
  case (Suc k)
  define n where "n = length uris - Suc k"
  have n: "n < length uris" "length uris - k = Suc n" "length uris - Suc k = n" "length uris - 1 - k = n" "u + 1 = int n"
    using Suc.prems by (auto simp: n_def)
  have d: "drop n uris = uris ! n # drop (length uris - k) uris" using n Cons_nth_drop_Suc [of n uris] by simp
  have 1: "next_server i u v st = Some (strip_tcp (uris ! n), int n, v)"
    using assms(1,2) n(1,5) by (auto simp: next_server_def server_list_def Let_def)
  have rest: "attempts i st k (int n) w = Some (map (\<lambda>uri. (strip_tcp uri, cl_MQTTVersion (get_client i st))) (drop (length uris - k) uris)) \<and>
      attempts i st (Suc k) (int n) w = None" for w
    using Suc.IH [OF Suc_lessD [OF Suc.prems(1)], of "int n" w] by (simp only: n(4))
  have e: "attempts i st (Suc m) u v = map_option (\<lambda>rest. (strip_tcp (uris ! n), cl_MQTTVersion (get_client i st)) # rest)
      (attempts i st m (int n) (cl_MQTTVersion (get_client i st)))" for m
    using 1 assms(2) by (cases "attempts i st m (int n) (cl_MQTTVersion (get_client i st))") (simp_all add: next_version_def)
  show ?case unfolding e n(3) d using rest [of "cl_MQTTVersion (get_client i st)"] by (simp del: attempts.simps)
qed

text \<open>
  When the application asks for a version of the protocol, the first server of its list is never tried: the attempts
  go to the others in the order of the list, and the attempt after the last server reads behind the end of the array.
  With a list of one server that is already the first attempt.
\<close>

theorem explicit_version_skips_first:
  assumes "server_list i st uris" "cl_MQTTVersion (get_client i st) \<noteq> 0"
  shows "attempts i st (length uris - 1) 0 0 = Some (map (\<lambda>uri. (strip_tcp uri, cl_MQTTVersion (get_client i st))) (tl uris)) \<and>
    attempts i st (length uris) 0 0 = None"
proof -
  obtain uri rest where u: "uris = uri # rest" using assms(1) by (cases uris) (auto simp: server_list_def)
  show ?thesis using explicit_attempts [OF assms, of "length uris - 1" 0 0] by (simp add: u)
qed

theorem explicit_version_skips_first_witness:
  "attempts 0 (demo_servers 4) 1 0 0 = Some [([98], 4)] \<and> attempts 0 (demo_servers 4) 2 0 0 = None"
proof -
  have "cl_MQTTVersion (get_client 0 (demo_servers 4)) \<noteq> 0" by (simp add: demo_servers(2))
  from explicit_version_skips_first [OF demo_servers(1) this] show ?thesis
    by (simp add: strip_tcp_def Let_def demo_servers(2) numeral_2_eq_2 del: attempts.simps)
qed

section \<open>A pending write\<close>

text \<open>
  C37. When a write that was pending is done after a run, and its request, \<open>p\<close>, is not the first one in the list of
  responses of its client, the wrong command leaves the list: the first one. That one is freed without an answer, and
  its acknowledgement will find nothing; \<open>p\<close> is answered and stays in the list.
\<close>

theorem write_complete_drops_first:
  assumes "no_commands st0" "async_run (on_top bl) evs st0 = Some (acc, st)" "orderly (on_top bl) evs st0"
    "MQTTProtocol_checkPendingWrites (on_top bl) st = Some st1" "find_index (\<lambda>c. nh_socket (cl_net c) = sock) (elems (ps_clients st)) = Some i"
    "i < length (as_handles (ps_world st))" "ma_pending_write (get_handle i st) = Some p" "ma_responses (get_handle i st) = first # others"
    "p \<in> set others"
  shows "\<exists>st'. MQTTAsync_writeComplete (on_top bl) now sock st = Some st' \<and> ma_responses (get_handle i st') = others \<and>
    deref first st' = None \<and> first \<notin> answered_ones (ps_world st') \<and> p \<in> answered_ones (ps_world st')"
proof -
  note f = checkPendingWrites_frame [OF assms(4)]
  note w = accountedD [OF run_sound(1) [OF assms(1-3)]]
  have resp: "\<exists>q. deref b st = Some q \<and> qc_client q = i" if "b \<in> set (first # others)" for b
    using w(9) [OF assms(6)] that assms(8) by (auto simp: handle_ok_def deref_def get_handle_def)
  obtain r where r: "deref first st = Some r" "qc_client r = i" using resp [of first] by auto
  obtain q where q: "deref p st = Some q" using resp [of p] assms(9) by auto
  have ne: "first \<noteq> p"
    using w(2) assms(6,8,9) waiting_handle [of i "as_handles (ps_world st)" ma_responses]
    by (auto simp: waiting_def get_handle_def)
  have na: "first \<notin> answered_ones (ps_world st)" using w(6) r(1) by (auto simp: deref_def)
  have n: "i < length (as_handles (ps_world st1))" "first \<notin> answered_ones (ps_world st1)"
    using assms(6) na check_pending_writes_world [OF assms(4) [unfolded MQTTProtocol_checkPendingWrites_def]]
    by (auto simp: put_net_def answered_ones_def)
  have 1: "get_handle i st1 = get_handle i st" "deref first st1 = Some r" "deref p st1 = Some q" "ps_clients st1 = ps_clients st"
    using f r q by simp_all
  define st2 where "st2 = set_client i ((get_client i st)\<lparr>cl_net := (cl_net (get_client i st))\<lparr>nh_lastSent := now\<rparr>\<rparr>) st1"
  have 2: "get_handle i st2 = get_handle i st" "deref first st2 = Some r" "deref p st2 = Some q" "i < length (as_handles (ps_world st2))"
    "first \<notin> answered_ones (ps_world st2)"
    using 1 n by (simp_all add: st2_def set_client_def get_handle_def deref_def)
  have "find_pending (Some p) (first # others) st2 = Some (Some first)" using 2(1,2) r(2) assms(7) by simp
  then have "MQTTAsync_writeComplete (on_top bl) now sock st =
      (let st = answered p True (call_onSuccess (qc_command q) st2); m = get_handle i st
       in MQTTAsync_freeCommand first (set_handle i (m\<lparr>ma_pending_write := None, ma_responses := remove1 first (ma_responses m)\<rparr>) st))"
    unfolding MQTTAsync_writeComplete_def assms(4) using assms(5,7,8) 1(4) 2(1,3) by (simp add: st2_def [symmetric] Let_def)
  then show ?thesis
    using 2 ne assms(8)
    by (auto simp: Let_def MQTTAsync_freeCommand_def answered_def call_onSuccess_def notify_def set_handle_def get_handle_def on_world_def
        deref_def answered_ones_def split: option.splits)
qed

text \<open>
  A network that takes one write and is interrupted in the next; nothing is pending any more when the client asks. A
  subscription is sent, and then a message of QoS 0 that stays pending.
\<close>

definition slow_below :: "nat below" where
  "slow_below = \<lparr>
     bl_po = \<lparr>po_net = \<lparr>op_getch = (\<lambda>w s. (0, 0, w)), op_getdata = (\<lambda>w s n. (None, 0, w)),
         op_putdatas = (\<lambda>w s b bs fs. Some (if w = 1 then TCPSOCKET_INTERRUPTED else TCPSOCKET_COMPLETE, w + 1)),
         op_persist_put = (\<lambda>w s b bs t m k. (0, w)), op_time = (\<lambda>w. 0)\<rparr>,
       po_process = (\<lambda>p i st. st), po_closeSession = (\<lambda>i st. st), po_persist_remove = (\<lambda>w c kind q m. (0, w)),
       po_noPendingWrites = (\<lambda>w s. (True, w)), po_updateWrite = (\<lambda>w s t p. w), po_socket_new = (\<lambda>w addr port. (0, 1, w)),
       po_sizeof_Messages = 40, po_sizeof_Publications = 32\<rparr>,
     bl_pe = \<lparr>pe_popen = (\<lambda>w c s. (0, [], w)), pe_pclose = (\<lambda>w h. (0, w)), pe_pput = (\<lambda>w h k bs. (0, w)), pe_pget = (\<lambda>w h k. (0, [], w)),
       pe_premove = (\<lambda>w h k. (0, w)), pe_pkeys = (\<lambda>w h. (0, [], w)), pe_pclear = (\<lambda>w h. (0, w)), pe_pcontainskey = (\<lambda>w h k. (0, w))\<rparr>,
     bl_char_signed = True, bl_clock = (\<lambda>w. 0), bl_close = (\<lambda>w s. w), bl_addPendingWrite = (\<lambda>w s. w), bl_clearPendingWrite = (\<lambda>w s. w),
     bl_so_error = (\<lambda>w s. (0, w)), bl_deliver = (\<lambda>i qe w. (True, w)), bl_seqno0 = 0\<rparr>"

definition slow_async :: "nat astate" where
  "slow_async = \<lparr>
     ps_clients = clist_append ((create_client [99] False)\<lparr>cl_connected := True, cl_good := True,
       cl_net := \<lparr>nh_socket = 5, nh_lastSent = 0, nh_lastReceived = 0\<rparr>\<rparr>) clist_empty,
     ps_msgs = Map.empty, ps_pubs = Map.empty, ps_publications = clist_empty, ps_pending_writes = clist_empty, ps_msgs_received = 0,
     ps_msgs_sent = 0,
     ps_world = \<lparr>as_heap = Map.empty, as_next = 0, as_commands = [], as_handles = [create_handle [104] None], as_log = [], as_answers = [],
       as_net = 0\<rparr>\<rparr>"

definition slow_run :: "async_event list" where
  "slow_run = [Call_subscribe 0 [([97], 1)] (Some 1) None, Process demo_mem, Call_send 0 [98] 1 [120] 0 0 None None, Process demo_mem]"

definition slow_view :: "addr list \<times> nat astate \<Rightarrow> addr list \<times> addr list \<times> nat \<times> addr option \<times> (int \<times> addr) list \<times> nat option \<times> bool" where
  "slow_view r = (fst r, ma_responses (get_handle 0 (snd r)), length (as_handles (ps_world (snd r))), ma_pending_write (get_handle 0 (snd r)),
     elems (ps_pending_writes (snd r)), find_index (\<lambda>c. nh_socket (cl_net c) = 5) (elems (ps_clients (snd r))),
     MQTTProtocol_checkPendingWrites (on_top slow_below) (snd r) \<noteq> None)"

theorem write_complete_drops_first_witness:
  "\<exists>st st'. async_run (on_top slow_below) slow_run slow_async = Some ([0], st) \<and> elems (ps_pending_writes st) = [(5, 8)] \<and>
     ma_responses (get_handle 0 st) = [0, 1] \<and> ma_pending_write (get_handle 0 st) = Some 1 \<and>
     MQTTAsync_writeComplete (on_top slow_below) 0 5 st = Some st' \<and> ma_responses (get_handle 0 st') = [1] \<and> deref 0 st' = None"
proof -
  have "map_option slow_view (async_run (on_top slow_below) slow_run slow_async) = Some ([0], [0, 1], 1, Some 1, [(5, 8)], Some 0, True)"
    by code_simp
  then obtain st st1 where run: "async_run (on_top slow_below) slow_run slow_async = Some ([0], st)"
    and r: "ma_responses (get_handle 0 st) = [0, 1]" "length (as_handles (ps_world st)) = 1" "ma_pending_write (get_handle 0 st) = Some 1"
    "elems (ps_pending_writes st) = [(5, 8)]" "find_index (\<lambda>c. nh_socket (cl_net c) = 5) (elems (ps_clients st)) = Some 0"
    "MQTTProtocol_checkPendingWrites (on_top slow_below) st = Some st1"
    by (auto simp: slow_view_def)
  have "0 < length (as_handles (ps_world st))" using r(2) by simp
  moreover have "no_commands slow_async" by (simp add: no_commands_def slow_async_def create_handle_def Let_def)
  moreover have "orderly (on_top slow_below) slow_run slow_async" by (rule no_writes_orderly) (simp add: slow_run_def)
  ultimately show ?thesis
    using write_complete_drops_first [OF _ run _ r(6,5) _ r(3,1), of 0] run r by auto
qed

end
