(* ===== verification/Json.thy ===== *)
theory Json
  imports Prelude "HOL-Library.Char_ord" "HOL-Library.List_Lexorder"
begin

text \<open>
  JSON values as \<open>lib/jsoncpp.cpp\<close> represents them (class \<open>Json::Value\<close>), the accessors that the
  device client uses, and \<open>Json::FastWriter\<close>, which turns a value into text.

  A \<open>std::string\<close> is a \<open>string\<close> (a list of 8 bit characters, embedded zero characters included). The
  members of an object are the contents of a \<open>std::map\<close>, an association list in the order of
  \<open>CZString::operator<\<close>: that of the bytes, shorter strings first, the order of \<open>HOL-Library.Char_ord\<close>
  and \<open>List_Lexorder\<close>. The elements of an array have the indices \<open>0, 1, \<dots>\<close>, as the reader and
  \<open>append\<close> create them. Comments attached to values are not modelled: \<open>FastWriter\<close> does not print them.

  Floating point numbers are a type parameter, with the conversions of the C library in a record.
\<close>

section \<open>C++ exceptions\<close>

text \<open>
  What a function of the C++ sources can throw, and the other ways in which it may not return a value:
  undefined behaviour, the end of the process, a wait without end. Such a function returns
  \<open>exception + 'a\<close>.
\<close>

datatype exception =
    LogicError            \<comment> \<open>\<open>Json::LogicError\<close>, thrown by \<open>JSON_ASSERT_MESSAGE\<close> and \<open>JSON_FAIL_MESSAGE\<close>\<close>
  | RuntimeError          \<comment> \<open>\<open>Json::RuntimeError\<close>\<close>
  | OutOfRange            \<comment> \<open>\<open>std::out_of_range\<close>\<close>
  | InvalidArgument       \<comment> \<open>\<open>std::invalid_argument\<close>\<close>
  | MqttException int     \<comment> \<open>\<open>mqtt::exception\<close>\<close>
  | NullDereference
  | MissingReturn         \<comment> \<open>control reaches the end of a function that must return a value\<close>
  | BufferOverrun         \<comment> \<open>a write beyond the end of an array\<close>
  | Terminate             \<comment> \<open>\<open>std::terminate\<close>\<close>
  | Blocks                \<comment> \<open>the call waits for ever\<close>

fun and_then :: "'e + 'a \<Rightarrow> ('a \<Rightarrow> 'e + 'b) \<Rightarrow> 'e + 'b" where
  "and_then (Inl e) f = Inl e"
| "and_then (Inr x) f = f x"

section \<open>Values\<close>

datatype 'd json =
    nullValue
  | intValue int
  | uintValue int
  | realValue 'd
  | stringValue string
  | booleanValue bool
  | arrayValue "'d json list"
  | objectValue "(string \<times> 'd json) list"

text \<open>
  The conversions of the C library for \<open>double\<close>: \<open>isfinite\<close>, comparison with itself and with zero,
  \<open>snprintf\<close> with \<open>%.17g\<close>, reading from an \<open>istringstream\<close>, conversion from an integer, truncation, and
  comparison with the bounds of an integer type.
\<close>

record 'd double_ops =
  d_isfinite :: "'d \<Rightarrow> bool"
  d_isnan :: "'d \<Rightarrow> bool"
  d_negative :: "'d \<Rightarrow> bool"
  d_print :: "'d \<Rightarrow> string"
  d_scan :: "string \<Rightarrow> 'd option"
  d_of_int :: "int \<Rightarrow> 'd"
  d_trunc :: "'d \<Rightarrow> int"
  d_in_range :: "'d \<Rightarrow> int \<Rightarrow> int \<Rightarrow> bool"

abbreviation (input) maxInt :: int where "maxInt \<equiv> 2147483647"
abbreviation (input) minInt :: int where "minInt \<equiv> -2147483648"
abbreviation (input) maxLargestInt :: int where "maxLargestInt \<equiv> 9223372036854775807"
abbreviation (input) minLargestInt :: int where "minLargestInt \<equiv> -9223372036854775808"
abbreviation (input) maxLargestUInt :: int where "maxLargestUInt \<equiv> 18446744073709551615"

subsection \<open>Members and elements\<close>

text \<open>\<open>Value::resolveReference\<close> followed by an assignment: the member is replaced, or inserted at its place.\<close>

fun insert_member :: "string \<Rightarrow> 'd json \<Rightarrow> (string \<times> 'd json) list \<Rightarrow> (string \<times> 'd json) list" where
  "insert_member k v [] = [(k, v)]"
| "insert_member k v ((k', v') # ms) =
     (if k' < k then (k', v') # insert_member k v ms
      else if k' = k then (k, v) # ms
      else (k, v) # (k', v') # ms)"

definition set_member :: "'d json \<Rightarrow> string \<Rightarrow> 'd json \<Rightarrow> exception + 'd json" where
  "set_member j key v = (case j of
     nullValue \<Rightarrow> Inr (objectValue [(key, v)])
   | objectValue ms \<Rightarrow> Inr (objectValue (insert_member key v ms))
   | _ \<Rightarrow> Inl LogicError)"

text \<open>
  A member assignment \<open>j[key] = v\<close> to a value that is null or an object, as the code that builds messages
  makes it.
\<close>

definition put_member :: "string \<Rightarrow> 'd json \<Rightarrow> 'd json \<Rightarrow> 'd json" where
  "put_member key v j = (case set_member j key v of Inr j' \<Rightarrow> j' | Inl _ \<Rightarrow> j)"

text \<open>\<open>Value::find\<close> and \<open>Value::get\<close> for a member.\<close>

definition find_member :: "'d json \<Rightarrow> string \<Rightarrow> exception + 'd json option" where
  "find_member j key = (case j of
     nullValue \<Rightarrow> Inr None
   | objectValue ms \<Rightarrow> Inr (map_of ms key)
   | _ \<Rightarrow> Inl LogicError)"

definition get_member :: "'d json \<Rightarrow> string \<Rightarrow> 'd json \<Rightarrow> exception + 'd json" where
  "get_member j key dflt = and_then (find_member j key)
     (\<lambda>found. Inr (case found of None \<Rightarrow> dflt | Some v \<Rightarrow> v))"

text \<open>\<open>Value::get\<close> for an element, and \<open>Value::append\<close>.\<close>

definition get_element :: "'d json \<Rightarrow> nat \<Rightarrow> 'd json \<Rightarrow> exception + 'd json" where
  "get_element j index dflt = (case j of
     nullValue \<Rightarrow> Inr dflt
   | arrayValue xs \<Rightarrow> Inr (if index < length xs then xs ! index else dflt)
   | _ \<Rightarrow> Inl LogicError)"

definition append_element :: "'d json \<Rightarrow> 'd json \<Rightarrow> exception + 'd json" where
  "append_element j v = (case j of
     nullValue \<Rightarrow> Inr (arrayValue [v])
   | arrayValue xs \<Rightarrow> Inr (arrayValue (xs @ [v]))
   | _ \<Rightarrow> Inl LogicError)"

definition isNull :: "'d json \<Rightarrow> bool" where
  "isNull j = (case j of nullValue \<Rightarrow> True | _ \<Rightarrow> False)"

section \<open>Numbers and strings as text\<close>

text \<open>
  \<open>uintToString\<close>, which fills its buffer from the end. Its argument is an unsigned number, modelled as an
  \<open>int\<close> that is not negative.
\<close>

definition digit_char :: "int \<Rightarrow> char" where
  "digit_char n = char_of (nat (n mod 10) + 48)"

function uintToString :: "int \<Rightarrow> string" where
  "uintToString n = (if n < 10 then [digit_char n] else uintToString (n div 10) @ [digit_char n])"
  by pat_completeness auto
termination
  by (relation "measure nat") auto

declare uintToString.simps [simp del]

definition valueToString_int :: "int \<Rightarrow> string" where
  "valueToString_int n =
     (if n = minLargestInt then CHR ''-'' # uintToString (maxLargestInt + 1)
      else if n < 0 then CHR ''-'' # uintToString (- n)
      else uintToString n)"

definition valueToString_uint :: "int \<Rightarrow> string" where
  "valueToString_uint n = uintToString n"

definition fixNumericLocale :: "string \<Rightarrow> string" where
  "fixNumericLocale = map (\<lambda>c. if c = CHR '','' then CHR ''.'' else c)"

definition valueToString_double :: "'d double_ops \<Rightarrow> 'd \<Rightarrow> string" where
  "valueToString_double ops d =
     fixNumericLocale (if d_isfinite ops d then d_print ops d
       else if d_isnan ops d then ''null''
       else if d_negative ops d then ''-1e+9999''
       else ''1e+9999'')"

definition valueToString_bool :: "bool \<Rightarrow> string" where
  "valueToString_bool b = (if b then ''true'' else ''false'')"

definition asString :: "'d double_ops \<Rightarrow> 'd json \<Rightarrow> exception + string" where
  "asString ops j = (case j of
     nullValue \<Rightarrow> Inr ''''
   | stringValue s \<Rightarrow> Inr s
   | booleanValue b \<Rightarrow> Inr (valueToString_bool b)
   | intValue i \<Rightarrow> Inr (valueToString_int i)
   | uintValue i \<Rightarrow> Inr (valueToString_uint i)
   | realValue d \<Rightarrow> Inr (valueToString_double ops d)
   | _ \<Rightarrow> Inl LogicError)"

definition asInt :: "'d double_ops \<Rightarrow> 'd json \<Rightarrow> exception + int" where
  "asInt ops j = (case j of
     intValue i \<Rightarrow> if minInt \<le> i \<and> i \<le> maxInt then Inr i else Inl LogicError
   | uintValue i \<Rightarrow> if i \<le> maxInt then Inr i else Inl LogicError
   | realValue d \<Rightarrow> if d_in_range ops d minInt maxInt then Inr (d_trunc ops d) else Inl LogicError
   | nullValue \<Rightarrow> Inr 0
   | booleanValue b \<Rightarrow> Inr (if b then 1 else 0)
   | _ \<Rightarrow> Inl LogicError)"

definition asDouble :: "'d double_ops \<Rightarrow> 'd json \<Rightarrow> exception + 'd" where
  "asDouble ops j = (case j of
     intValue i \<Rightarrow> Inr (d_of_int ops i)
   | uintValue i \<Rightarrow> Inr (d_of_int ops i)
   | realValue d \<Rightarrow> Inr d
   | nullValue \<Rightarrow> Inr (d_of_int ops 0)
   | booleanValue b \<Rightarrow> Inr (d_of_int ops (if b then 1 else 0))
   | _ \<Rightarrow> Inl LogicError)"

section \<open>Writing\<close>

text \<open>
  \<open>valueToQuotedStringN\<close>: a string without special characters is copied in one piece, any other one
  character by character. \<open>isControlCharacter\<close> has the type \<open>char\<close>, signed in the platform's C++: the
  characters from 128 on are negative, not control characters.
\<close>

definition isControlCharacter :: "char \<Rightarrow> bool" where
  "isControlCharacter ch \<longleftrightarrow> 0 < (of_char ch :: nat) \<and> (of_char ch :: nat) \<le> 0x1F"

definition containsControlCharacter0 :: "string \<Rightarrow> bool" where
  "containsControlCharacter0 str \<longleftrightarrow> list_ex (\<lambda>c. isControlCharacter c \<or> c = CHR 0x00) str"

definition special_chars :: string where
  "special_chars = [CHR 0x22, CHR 0x5C, CHR 0x08, CHR 0x0C, CHR 0x0A, CHR 0x0D, CHR 0x09]"

definition strnpbrk_found :: "string \<Rightarrow> string \<Rightarrow> bool" where
  "strnpbrk_found s accept \<longleftrightarrow> list_ex (\<lambda>c. c \<in> set accept) s"

definition hex_upper :: "nat \<Rightarrow> char" where
  "hex_upper n = (if n < 10 then char_of (n + 48) else char_of (n + 55))"

definition escaped :: "char \<Rightarrow> string" where
  "escaped c =
     (if c = CHR 0x22 then [CHR 0x5C, CHR 0x22]
      else if c = CHR 0x5C then [CHR 0x5C, CHR 0x5C]
      else if c = CHR 0x08 then [CHR 0x5C, CHR ''b'']
      else if c = CHR 0x0C then [CHR 0x5C, CHR ''f'']
      else if c = CHR 0x0A then [CHR 0x5C, CHR ''n'']
      else if c = CHR 0x0D then [CHR 0x5C, CHR ''r'']
      else if c = CHR 0x09 then [CHR 0x5C, CHR ''t'']
      else if isControlCharacter c \<or> c = CHR 0x00 then
        [CHR 0x5C, CHR ''u'', CHR ''0'', CHR ''0'', hex_upper (of_char c div 16), hex_upper (of_char c mod 16)]
      else [c])"

definition valueToQuotedStringN :: "string \<Rightarrow> string" where
  "valueToQuotedStringN str =
     (if \<not> strnpbrk_found str special_chars \<and> \<not> containsControlCharacter0 str
      then CHR 0x22 # str @ [CHR 0x22]
      else CHR 0x22 # concat (map escaped str) @ [CHR 0x22])"

text \<open>\<open>FastWriter::writeValue\<close> and \<open>FastWriter::write\<close>, without YAML compatibility.\<close>

fun separated :: "string list \<Rightarrow> string" where
  "separated [] = ''''"
| "separated [x] = x"
| "separated (x # y # xs) = x @ CHR '','' # separated (y # xs)"

fun writeValue :: "'d double_ops \<Rightarrow> 'd json \<Rightarrow> string" where
  "writeValue ops nullValue = ''null''"
| "writeValue ops (intValue i) = valueToString_int i"
| "writeValue ops (uintValue i) = valueToString_uint i"
| "writeValue ops (realValue d) = valueToString_double ops d"
| "writeValue ops (stringValue s) = valueToQuotedStringN s"
| "writeValue ops (booleanValue b) = valueToString_bool b"
| "writeValue ops (arrayValue xs) = CHR ''['' # separated (map (writeValue ops) xs) @ [CHR '']'']"
| "writeValue ops (objectValue ms) =
     CHR ''{'' # separated (map (\<lambda>(name, v). valueToQuotedStringN name @ CHR '':'' # writeValue ops v) ms) @ [CHR ''}'']"

definition fast_write :: "'d double_ops \<Rightarrow> 'd json \<Rightarrow> string" where
  "fast_write ops root = writeValue ops root @ [CHR 0x0A]"

section \<open>Facts about members\<close>

lemma map_of_insert_member: "map_of (insert_member k v ms) k' = (if k' = k then Some v else map_of ms k')"
  by (induction ms) auto

lemma keys_insert_member: "fst ` set (insert_member k v ms) = insert k (fst ` set ms)"
proof (induction ms)
  case (Cons m ms)
  then show ?case by (cases m) (simp add: insert_commute)
qed simp

lemma sorted_insert_member: "sorted_wrt (<) (map fst ms) \<Longrightarrow> sorted_wrt (<) (map fst (insert_member k v ms))"
proof (induction ms)
  case (Cons m ms)
  obtain k' v' where m: "m = (k', v')" by (cases m)
  have "\<forall>x\<in>fst ` set ms. k' < x" using Cons.prems m by simp
  moreover have "sorted_wrt (<) (map fst (insert_member k v ms))" using Cons by simp
  ultimately show ?case using Cons.prems m keys_insert_member [of k v ms] by (auto dest: order.strict_trans)
qed simp

lemma put_member_simps [simp]:
  "put_member k v nullValue = objectValue [(k, v)]" "put_member k v (objectValue ms) = objectValue (insert_member k v ms)"
  by (simp_all add: put_member_def set_member_def)

lemma get_member_simps [simp]:
  "get_member nullValue k d = Inr d"
  "get_member (objectValue ms) k d = Inr (case map_of ms k of None \<Rightarrow> d | Some v \<Rightarrow> v)"
  by (simp_all add: get_member_def find_member_def)

section \<open>Facts about text\<close>

text \<open>The copy in one piece is what the character by character path gives.\<close>

lemma escaped_plain:
  "c \<notin> set special_chars \<Longrightarrow> \<not> isControlCharacter c \<Longrightarrow> c \<noteq> CHR 0x00 \<Longrightarrow> escaped c = [c]"
  by (simp add: escaped_def special_chars_def)

lemma valueToQuotedStringN_escapes:
  "valueToQuotedStringN str = CHR 0x22 # concat (map escaped str) @ [CHR 0x22]"
proof (cases "\<not> strnpbrk_found str special_chars \<and> \<not> containsControlCharacter0 str")
  case True
  then have "\<forall>c\<in>set str. escaped c = [c]"
    by (auto simp: strnpbrk_found_def containsControlCharacter0_def list_ex_iff intro!: escaped_plain)
  then have "concat (map escaped str) = str" by (induction str) auto
  with True show ?thesis by (simp add: valueToQuotedStringN_def)
next
  case False
  then show ?thesis by (simp only: valueToQuotedStringN_def if_False)
qed

definition is_digit :: "char \<Rightarrow> bool" where
  "is_digit c \<longleftrightarrow> 48 \<le> (of_char c :: int) \<and> (of_char c :: int) \<le> 57"

lemma of_char_digit_char: "of_char (digit_char n) = n mod 10 + (48 :: int)"
proof -
  have "nat (n mod 10) < 10" by (simp add: nat_less_iff)
  then have "of_char (digit_char n) = nat (n mod 10) + (48 :: nat)" by (simp add: digit_char_def of_char_of)
  then have "int (of_char (digit_char n)) = int (nat (n mod 10) + 48)" by (rule arg_cong)
  then show ?thesis by (simp add: of_nat_of_char)
qed

lemma is_digit_digit_char [simp]: "is_digit (digit_char n)"
  by (simp add: is_digit_def of_char_digit_char)

lemma uintToString_nonempty [simp]: "uintToString n \<noteq> []"
  by (subst uintToString.simps) simp

lemma uintToString_digits: "\<forall>c\<in>set (uintToString n). is_digit c"
proof (induction n rule: uintToString.induct)
  case (1 n)
  then show ?case by (subst uintToString.simps) auto
qed

end
