(* ===== verification/JsonReader.thy ===== *)
theory JsonReader
  imports Json
begin

text \<open>
  \<open>Json::Reader\<close> of \<open>lib/jsoncpp.cpp\<close>, with the features of its default constructor (comments allowed,
  any value at the root): every message that arrives and every configuration file goes through it.

  The position \<open>current_\<close> in the document is the text that remains; a token carries its text. The
  reader looks at most at the zero character that ends the document's buffer, which \<open>getNextChar\<close> also
  gives at the end. Not modelled are the list of error messages and the comments put on values, of which
  nothing else depends. \<open>stackDepth_g\<close> is the argument \<open>depth\<close>: the depth of \<open>readValue\<close> in itself, as
  long as no error has occurred, and no call of it follows an error.

  \<open>readValue\<close>, \<open>readObject\<close> and \<open>readArray\<close> take fuel; \<open>parse\<close> gives two units for each character of
  the document, which is proved to be enough.
\<close>

section \<open>Tokens\<close>

datatype token_type =
    tokenEndOfStream | tokenObjectBegin | tokenObjectEnd | tokenArrayBegin | tokenArrayEnd
  | tokenString | tokenNumber | tokenTrue | tokenFalse | tokenNull | tokenArraySeparator
  | tokenMemberSeparator | tokenComment | tokenError

definition is_space :: "char \<Rightarrow> bool" where
  "is_space c \<longleftrightarrow> c = CHR '' '' \<or> c = CHR 0x09 \<or> c = CHR 0x0D \<or> c = CHR 0x0A"

definition skipSpaces :: "string \<Rightarrow> string" where
  "skipSpaces s = dropWhile is_space s"

fun getNextChar :: "string \<Rightarrow> char \<times> string" where
  "getNextChar [] = (CHR 0x00, [])"
| "getNextChar (c # s) = (c, s)"

definition starts_with :: "char \<Rightarrow> string \<Rightarrow> bool" where
  "starts_with c s \<longleftrightarrow> s \<noteq> [] \<and> hd s = c"

definition match_text :: "string \<Rightarrow> string \<Rightarrow> bool \<times> string" where
  "match_text pattern s =
     (if length s < length pattern then (False, s)
      else if take (length pattern) s = pattern then (True, drop (length pattern) s)
      else (False, s))"

fun skip_c_comment :: "string \<Rightarrow> string" where
  "skip_c_comment [] = []"
| "skip_c_comment (c # s) = (if c = CHR ''*'' \<and> starts_with (CHR ''/'') s then s else skip_c_comment s)"

definition readCStyleComment :: "string \<Rightarrow> bool \<times> string" where
  "readCStyleComment s = (let (c, s) = getNextChar (skip_c_comment s) in (c = CHR ''/'', s))"

fun readCppStyleComment :: "string \<Rightarrow> string" where
  "readCppStyleComment [] = []"
| "readCppStyleComment (c # s) =
     (if c = CHR 0x0A then s
      else if c = CHR 0x0D then (if starts_with (CHR 0x0A) s then tl s else s)
      else readCppStyleComment s)"

definition readComment :: "string \<Rightarrow> bool \<times> string" where
  "readComment s = (let (c, s) = getNextChar s in
     if c = CHR ''*'' then readCStyleComment s
     else if c = CHR ''/'' then (True, readCppStyleComment s)
     else (False, s))"

definition readNumber :: "string \<Rightarrow> string" where
  "readNumber s =
     (let s = dropWhile is_digit s;
          s = (if starts_with (CHR ''.'') s then dropWhile is_digit (tl s) else s)
      in if starts_with (CHR ''e'') s \<or> starts_with (CHR ''E'') s
         then let s = tl s;
                  s = (if starts_with (CHR ''+'') s \<or> starts_with (CHR ''-'') s then tl s else s)
              in dropWhile is_digit s
         else s)"

fun readString :: "string \<Rightarrow> bool \<times> string" where
  "readString [] = (False, [])"
| "readString (c # s) =
     (if c = CHR 0x5C then (case s of [] \<Rightarrow> (False, []) | _ # s \<Rightarrow> readString s)
      else if c = CHR 0x22 then (True, s)
      else readString s)"

text \<open>The type of the token that starts with a character, whether it is well formed, and what follows it.\<close>

definition token_after :: "char \<Rightarrow> string \<Rightarrow> token_type \<times> bool \<times> string" where
  "token_after c s =
     (if c = CHR ''{'' then (tokenObjectBegin, True, s)
      else if c = CHR ''}'' then (tokenObjectEnd, True, s)
      else if c = CHR ''['' then (tokenArrayBegin, True, s)
      else if c = CHR '']'' then (tokenArrayEnd, True, s)
      else if c = CHR 0x22 then (tokenString, readString s)
      else if c = CHR ''/'' then (tokenComment, readComment s)
      else if is_digit c \<or> c = CHR ''-'' then (tokenNumber, True, readNumber s)
      else if c = CHR ''t'' then (tokenTrue, match_text ''rue'' s)
      else if c = CHR ''f'' then (tokenFalse, match_text ''alse'' s)
      else if c = CHR ''n'' then (tokenNull, match_text ''ull'' s)
      else if c = CHR '','' then (tokenArraySeparator, True, s)
      else if c = CHR '':'' then (tokenMemberSeparator, True, s)
      else if c = CHR 0x00 then (tokenEndOfStream, True, s)
      else (tokenError, False, s))"

definition readToken :: "string \<Rightarrow> token_type \<times> string \<times> string" where
  "readToken s =
     (let start = skipSpaces s;
          (c, s) = getNextChar start;
          (type, ok, s) = token_after c s
      in (if ok then type else tokenError, take (length start - length s) start, s))"

subsection \<open>A token shortens the text\<close>

lemma length_skip_c_comment: "length (skip_c_comment s) \<le> length s"
  by (induction s) auto

lemma length_readCpp: "length (readCppStyleComment s) \<le> length s"
  by (induction s rule: readCppStyleComment.induct) auto

lemma length_getNextChar: "length (snd (getNextChar s)) \<le> length s"
  by (cases s) auto

lemma length_readComment: "length (snd (readComment s)) \<le> length s"
  unfolding readComment_def readCStyleComment_def
  using length_getNextChar [of s] length_readCpp [of "snd (getNextChar s)"]
    length_skip_c_comment [of "snd (getNextChar s)"] length_getNextChar [of "skip_c_comment (snd (getNextChar s))"]
  by (auto simp: split_beta Let_def)

lemma length_dropWhile_trans: "length s \<le> n \<Longrightarrow> length (dropWhile P s) \<le> n"
  using length_dropWhile_le [of P s] by (rule le_trans)

lemma length_tl_trans: "length s \<le> n \<Longrightarrow> length (tl s) \<le> n"
  by simp

lemma length_readNumber: "length (readNumber s) \<le> length s"
  unfolding readNumber_def Let_def
  by (simp del: length_tl add: length_dropWhile_trans length_tl_trans)

lemma length_readString: "length (snd (readString s)) \<le> length s"
proof (induction s rule: readString.induct)
  case (2 c s)
  then show ?case by (cases s) (simp_all add: le_SucI)
qed simp

lemma length_match_text: "length (snd (match_text p s)) \<le> length s"
  by (simp add: match_text_def)

lemma length_token_after: "length (snd (snd (token_after c s))) \<le> length s"
  unfolding token_after_def
  by (simp add: length_match_text length_readString length_readComment length_readNumber)

lemma readToken_shrinks: "readToken s = (t, text, s') \<Longrightarrow> length s' \<le> length s \<and> (t = tokenEndOfStream \<or> length s' < length s)"
proof -
  assume r: "readToken s = (t, text, s')"
  have sp: "length (skipSpaces s) \<le> length s" by (simp add: skipSpaces_def length_dropWhile_le)
  show ?thesis
  proof (cases "skipSpaces s")
    case Nil
    with r show ?thesis by (auto simp: readToken_def token_after_def Let_def is_digit_def)
  next
    case (Cons c u)
    with r have "s' = snd (snd (token_after c u))" by (auto simp: readToken_def Let_def split: prod.splits)
    with length_token_after [of c u] Cons sp show ?thesis by auto
  qed
qed

section \<open>Decoding tokens\<close>

text \<open>\<open>decodeDouble\<close> and \<open>decodeNumber\<close>; \<open>None\<close> is the return value \<open>false\<close>.\<close>

definition decodeDouble :: "'d double_ops \<Rightarrow> string \<Rightarrow> 'd json option" where
  "decodeDouble ops text = map_option realValue (d_scan ops text)"

definition digit_value :: "char \<Rightarrow> int" where
  "digit_value c = of_char c - 48"

fun decode_digits :: "int \<Rightarrow> int \<Rightarrow> int \<Rightarrow> string \<Rightarrow> int option" where
  "decode_digits maxIntegerValue threshold v [] = Some v"
| "decode_digits maxIntegerValue threshold v (c # s) =
     (if \<not> is_digit c then None
      else let digit = digit_value c in
        if threshold \<le> v \<and> (threshold < v \<or> s \<noteq> [] \<or> maxIntegerValue mod 10 < digit) then None
        else decode_digits maxIntegerValue threshold (v * 10 + digit) s)"

definition decodeNumber :: "'d double_ops \<Rightarrow> string \<Rightarrow> 'd json option" where
  "decodeNumber ops text =
     (let isNegative = starts_with (CHR ''-'') text;
          digits = (if isNegative then tl text else text);
          maxIntegerValue = (if isNegative then maxLargestInt + 1 else maxLargestUInt)
      in case decode_digits maxIntegerValue (maxIntegerValue div 10) 0 digits of
           None \<Rightarrow> decodeDouble ops text
         | Some v \<Rightarrow> Some (if isNegative \<and> v = maxIntegerValue then intValue minLargestInt
                         else if isNegative then intValue (- v)
                         else if v \<le> maxInt then intValue v
                         else uintValue v))"

text \<open>\<open>codePointToUTF8\<close>.\<close>

definition char_of_word :: "32 word \<Rightarrow> char" where
  "char_of_word w = char_of (unat w)"

definition codePointToUTF8 :: "32 word \<Rightarrow> string" where
  "codePointToUTF8 cp =
     (if cp \<le> 0x7F then [char_of_word cp]
      else if cp \<le> 0x7FF then
        [char_of_word (0xC0 OR (0x1F AND drop_bit 6 cp)), char_of_word (0x80 OR (0x3F AND cp))]
      else if cp \<le> 0xFFFF then
        [char_of_word (0xE0 OR (0xF AND drop_bit 12 cp)), char_of_word (0x80 OR (0x3F AND drop_bit 6 cp)),
         char_of_word (0x80 OR (0x3F AND cp))]
      else if cp \<le> 0x10FFFF then
        [char_of_word (0xF0 OR (0x7 AND drop_bit 18 cp)), char_of_word (0x80 OR (0x3F AND drop_bit 12 cp)),
         char_of_word (0x80 OR (0x3F AND drop_bit 6 cp)), char_of_word (0x80 OR (0x3F AND cp))]
      else [])"

text \<open>\<open>decodeUnicodeEscapeSequence\<close> and \<open>decodeUnicodeCodePoint\<close>: the code point and the text behind it.\<close>

definition hex_value :: "char \<Rightarrow> nat option" where
  "hex_value c = (let n = of_char c in
     if 48 \<le> n \<and> n \<le> 57 then Some (n - 48)
     else if 97 \<le> n \<and> n \<le> 102 then Some (n - 97 + 10)
     else if 65 \<le> n \<and> n \<le> 70 then Some (n - 65 + 10)
     else None)"

fun decode_hex :: "nat \<Rightarrow> 32 word \<Rightarrow> string \<Rightarrow> (32 word \<times> string) option" where
  "decode_hex 0 unicode s = Some (unicode, s)"
| "decode_hex (Suc n) unicode [] = None"
| "decode_hex (Suc n) unicode (c # s) = (case hex_value c of
     None \<Rightarrow> None
   | Some d \<Rightarrow> decode_hex n (unicode * 16 + of_nat d) s)"

definition decodeUnicodeEscapeSequence :: "string \<Rightarrow> (32 word \<times> string) option" where
  "decodeUnicodeEscapeSequence s = (if length s < 4 then None else decode_hex 4 0 s)"

definition decodeUnicodeCodePoint :: "string \<Rightarrow> (32 word \<times> string) option" where
  "decodeUnicodeCodePoint s = do {
     (unicode, s) \<leftarrow> decodeUnicodeEscapeSequence s;
     if 0xD800 \<le> unicode \<and> unicode \<le> 0xDBFF
     then if length s < 6 then None
          else if hd s = CHR 0x5C \<and> hd (tl s) = CHR ''u'' then do {
            (surrogatePair, s) \<leftarrow> decodeUnicodeEscapeSequence (drop 2 s);
            Some (0x10000 + push_bit 10 (unicode AND 0x3FF) + (surrogatePair AND 0x3FF), s)
          } else None
     else Some (unicode, s)
   }"

lemma decode_hex_length: "decode_hex n u s = Some (v, s') \<Longrightarrow> length s' \<le> length s"
  by (induction n u s rule: decode_hex.induct) (auto split: option.splits)

lemma decodeUnicodeCodePoint_length:
  assumes "decodeUnicodeCodePoint s = Some (u, s')"
  shows "length s' \<le> length s"
proof -
  have e: "decodeUnicodeEscapeSequence t = Some (v, t') \<Longrightarrow> length t' \<le> length t" for t v t'
    by (auto simp: decodeUnicodeEscapeSequence_def dest: decode_hex_length split: if_splits)
  from assms show ?thesis
    by (fastforce simp: decodeUnicodeCodePoint_def bind_eq_Some_conv split: if_splits prod.splits dest!: e)
qed

text \<open>
  \<open>decodeString\<close>: the text of the token without its quotes. An unescaped quote ends the loop.
\<close>

definition simple_escape :: "char \<Rightarrow> char option" where
  "simple_escape e =
     (if e = CHR 0x22 \<or> e = CHR ''/'' \<or> e = CHR 0x5C then Some e
      else if e = CHR ''b'' then Some (CHR 0x08)
      else if e = CHR ''f'' then Some (CHR 0x0C)
      else if e = CHR ''n'' then Some (CHR 0x0A)
      else if e = CHR ''r'' then Some (CHR 0x0D)
      else if e = CHR ''t'' then Some (CHR 0x09)
      else None)"

function decode_chars :: "string \<Rightarrow> string \<Rightarrow> string option" where
  "decode_chars decoded s = (case s of
     [] \<Rightarrow> Some decoded
   | c # s \<Rightarrow>
       if c = CHR 0x22 then Some decoded
       else if c = CHR 0x5C then (case s of
         [] \<Rightarrow> None
       | escape # s \<Rightarrow>
           if escape = CHR ''u'' then (case decodeUnicodeCodePoint s of
             None \<Rightarrow> None
           | Some (unicode, s) \<Rightarrow> decode_chars (decoded @ codePointToUTF8 unicode) s)
           else (case simple_escape escape of
             None \<Rightarrow> None
           | Some e \<Rightarrow> decode_chars (decoded @ [e]) s))
       else decode_chars (decoded @ [c]) s)"
  by pat_completeness auto
termination
  by (relation "measure (\<lambda>(decoded, s). length s)")
    (auto dest!: decodeUnicodeCodePoint_length)

declare decode_chars.simps [simp del]

definition decodeString :: "string \<Rightarrow> string option" where
  "decodeString text = decode_chars [] (butlast (tl text))"

section \<open>Values\<close>

text \<open>\<open>skipCommentTokens\<close>, and the loop of \<open>recoverFromError\<close>, which gives the text that is left.\<close>

function skipCommentTokens :: "string \<Rightarrow> token_type \<times> string \<times> string" where
  "skipCommentTokens s = (let (t, text, s') = readToken s in
     if t = tokenComment then skipCommentTokens s' else (t, text, s'))"
  by pat_completeness auto
termination
  by (relation "measure length") (auto dest!: readToken_shrinks [OF sym])

function recoverFromError :: "token_type \<Rightarrow> string \<Rightarrow> string" where
  "recoverFromError skipUntilToken s = (let (t, text, s') = readToken s in
     if t = skipUntilToken \<or> t = tokenEndOfStream then s' else recoverFromError skipUntilToken s')"
  by pat_completeness auto
termination
  by (relation "measure (\<lambda>(t, s). length s)") (auto dest!: readToken_shrinks [OF sym])

declare skipCommentTokens.simps [simp del] recoverFromError.simps [simp del]

text \<open>
  The result of reading: whether it succeeded, the value as it is then, and the text that is left; or
  the exception about the depth of the stack.
\<close>

datatype 'd reading = Reading bool "'d json" string | StackExceeded | OutOfFuel

text \<open>
  \<open>readValue\<close> is called on the value to fill (\<open>currentValue()\<close>), which keeps its contents if no value
  can be read. \<open>readObject\<close> and \<open>readArray\<close> are one turn of the loops of the functions of that name;
  \<open>name\<close> is the last member's name, \<open>items\<close> are the elements read so far.
\<close>

function (sequential) readValue :: "'d double_ops \<Rightarrow> nat \<Rightarrow> nat \<Rightarrow> 'd json \<Rightarrow> string \<Rightarrow> 'd reading"
  and readObject :: "'d double_ops \<Rightarrow> nat \<Rightarrow> nat \<Rightarrow> (string \<times> 'd json) list \<Rightarrow> string \<Rightarrow> string \<Rightarrow> 'd reading"
  and readArray :: "'d double_ops \<Rightarrow> nat \<Rightarrow> nat \<Rightarrow> 'd json list \<Rightarrow> string \<Rightarrow> 'd reading" where
  "readValue ops 0 depth cur s = OutOfFuel"
| "readValue ops (Suc n) depth cur s =
     (if 1000 \<le> depth then StackExceeded
      else let (t, text, s) = skipCommentTokens s in
        case t of
          tokenObjectBegin \<Rightarrow> readObject ops n (Suc depth) [] '''' s
        | tokenArrayBegin \<Rightarrow>
            (let s = skipSpaces s in
             if starts_with (CHR '']'') s then Reading True (arrayValue []) (snd (snd (readToken s)))
             else readArray ops n (Suc depth) [] s)
        | tokenNumber \<Rightarrow> (case decodeNumber ops text of Some v \<Rightarrow> Reading True v s | None \<Rightarrow> Reading False cur s)
        | tokenString \<Rightarrow> (case decodeString text of Some v \<Rightarrow> Reading True (stringValue v) s | None \<Rightarrow> Reading False cur s)
        | tokenTrue \<Rightarrow> Reading True (booleanValue True) s
        | tokenFalse \<Rightarrow> Reading True (booleanValue False) s
        | tokenNull \<Rightarrow> Reading True nullValue s
        | _ \<Rightarrow> Reading False cur s)"
| "readObject ops 0 depth members name s = OutOfFuel"
| "readObject ops (Suc n) depth members name s =
     (let (t, text, s) = skipCommentTokens s in
      if t = tokenObjectEnd \<and> name = '''' then Reading True (objectValue members) s
      else if t \<noteq> tokenString then Reading False (objectValue members) (recoverFromError tokenObjectEnd s)
      else case decodeString text of
        None \<Rightarrow> Reading False (objectValue members) (recoverFromError tokenObjectEnd s)
      | Some name \<Rightarrow>
          (let (colon, _, s) = readToken s in
           if colon \<noteq> tokenMemberSeparator
           then Reading False (objectValue members) (recoverFromError tokenObjectEnd s)
           else case readValue ops n depth (case map_of members name of None \<Rightarrow> nullValue | Some v \<Rightarrow> v) s of
             Reading ok v s \<Rightarrow>
               (let members = insert_member name v members in
                if \<not> ok then Reading False (objectValue members) (recoverFromError tokenObjectEnd s)
                else let (comma, _, s) = readToken s in
                  if comma \<notin> {tokenObjectEnd, tokenArraySeparator, tokenComment}
                  then Reading False (objectValue members) (recoverFromError tokenObjectEnd s)
                  else let (comma, _, s) = (if comma = tokenComment then skipCommentTokens s else (comma, [], s)) in
                    if comma = tokenObjectEnd then Reading True (objectValue members) s
                    else readObject ops n depth members name s)
           | StackExceeded \<Rightarrow> StackExceeded
           | OutOfFuel \<Rightarrow> OutOfFuel))"
| "readArray ops 0 depth items s = OutOfFuel"
| "readArray ops (Suc n) depth items s =
     (case readValue ops n depth nullValue s of
        Reading ok v s \<Rightarrow>
          (let items = items @ [v] in
           if \<not> ok then Reading False (arrayValue items) (recoverFromError tokenArrayEnd s)
           else let (t, _, s) = skipCommentTokens s in
             if t = tokenArraySeparator then readArray ops n depth items s
             else if t = tokenArrayEnd then Reading True (arrayValue items) s
             else Reading False (arrayValue items) (recoverFromError tokenArrayEnd s))
      | StackExceeded \<Rightarrow> StackExceeded
      | OutOfFuel \<Rightarrow> OutOfFuel)"
  by pat_completeness auto
termination
  by (relation "measure (case_sum (\<lambda>(ops, n, depth, cur, s). n)
      (case_sum (\<lambda>(ops, n, depth, members, name, s). n) (\<lambda>(ops, n, depth, items, s). n)))") simp_all

text \<open>
  \<open>Reader::parse\<close>. The root is a fresh value at each of its uses. Of the text that follows the value only
  comments and one token are read: what comes after the value is not examined.
\<close>

definition parse_json :: "'d double_ops \<Rightarrow> string \<Rightarrow> 'd reading" where
  "parse_json ops document = readValue ops (2 * length document + 1) 0 nullValue document"

section \<open>Reading ends\<close>

lemma skipCommentTokens_shrinks:
  "skipCommentTokens s = (t, text, s') \<Longrightarrow> length s' \<le> length s \<and> (t = tokenEndOfStream \<or> length s' < length s)"
proof (induction s rule: skipCommentTokens.induct)
  case (1 s)
  obtain t0 x0 s0 where r: "readToken s = (t0, x0, s0)" by (cases "readToken s")
  note sh = readToken_shrinks [OF r]
  show ?case
  proof (cases "t0 = tokenComment")
    case True
    with 1 r have "length s' \<le> length s0" by (simp add: skipCommentTokens.simps [of s])
    with sh True show ?thesis by simp
  next
    case False
    with 1 r sh show ?thesis by (simp add: skipCommentTokens.simps [of s])
  qed
qed

lemma recoverFromError_length: "length (recoverFromError k s) \<le> length s"
proof (induction k s rule: recoverFromError.induct)
  case (1 k s)
  obtain t0 x0 s0 where r: "readToken s = (t0, x0, s0)" by (cases "readToken s")
  with 1 readToken_shrinks [OF r] show ?case by (fastforce simp: recoverFromError.simps [of k s])
qed

lemma skipSpaces_length: "length (skipSpaces s) \<le> length s"
  by (simp add: skipSpaces_def length_dropWhile_le)

lemma recover_trans: "length s \<le> n \<Longrightarrow> length (recoverFromError k s) \<le> n"
  using recoverFromError_length [of k s] by (rule le_trans)

text \<open>A reading that ends, with no more text left than \<open>n\<close> characters.\<close>

fun settled :: "'d reading \<Rightarrow> nat \<Rightarrow> bool" where
  "settled (Reading ok v s) n \<longleftrightarrow> length s \<le> n"
| "settled StackExceeded n \<longleftrightarrow> True"
| "settled OutOfFuel n \<longleftrightarrow> False"

lemma settled_mono: "settled r m \<Longrightarrow> m \<le> n \<Longrightarrow> settled r n"
  by (cases r) auto

lemma readObject_settled:
  assumes V: "\<And>depth cur u. 2 * length u + 1 \<le> n \<Longrightarrow> settled (readValue ops n depth cur u) (length u)"
    and O: "\<And>depth members name u. 2 * length u + 1 \<le> n \<Longrightarrow> settled (readObject ops n depth members name u) (length u)"
    and n: "2 * length s \<le> n"
  shows "settled (readObject ops (Suc n) depth members name s) (length s)"
proof -
  obtain t x u where t: "skipCommentTokens s = (t, x, u)" by (cases "skipCommentTokens s")
  note u = skipCommentTokens_shrinks [OF t]
  obtain colon xc u1 where c: "readToken u = (colon, xc, u1)" by (cases "readToken u")
  note u1 = readToken_shrinks [OF c]
  show ?thesis
  proof (cases "t = tokenString \<and> colon = tokenMemberSeparator")
    case False
    with u u1 show ?thesis by (auto simp: t c Let_def intro!: recover_trans split: option.split)
  next
    case True
    show ?thesis
    proof (cases "decodeString x")
      case None
      with True u show ?thesis by (auto simp: t recover_trans)
    next
      case (Some nm)
      define r where "r = readValue ops n depth (case map_of members nm of None \<Rightarrow> nullValue | Some v \<Rightarrow> v) u1"
      have l1: "length u1 < length s" using True u u1 by auto
      with n have r: "settled r (length u1)" unfolding r_def by (intro V) simp
      show ?thesis
      proof (cases r)
        case (Reading ok v w)
        obtain comma xc w1 where cm: "readToken w = (comma, xc, w1)" by (cases "readToken w")
        obtain comma2 xc2 w2 where cm2: "skipCommentTokens w1 = (comma2, xc2, w2)" by (cases "skipCommentTokens w1")
        have w: "length w < length s" using r Reading l1 by simp
        then have w1: "length w1 < length s" using readToken_shrinks [OF cm] by auto
        then have w2: "length w2 < length s" using skipCommentTokens_shrinks [OF cm2] by auto
        have "settled (readObject ops n depth ms nm w1) (length s)" "settled (readObject ops n depth ms nm w2) (length s)" for ms
          using w1 w2 n by (auto intro!: settled_mono [OF O])
        with True Some Reading w w1 w2 show ?thesis
          by (auto simp: t c r_def [symmetric] cm cm2 Let_def intro!: recover_trans)
      qed (use True Some r in \<open>simp_all add: t c r_def [symmetric]\<close>)
    qed
  qed
qed

lemma readArray_settled:
  assumes V: "\<And>depth cur u. 2 * length u + 1 \<le> n \<Longrightarrow> settled (readValue ops n depth cur u) (length u)"
    and A: "\<And>depth items u. 2 * length u + 2 \<le> n \<Longrightarrow> settled (readArray ops n depth items u) (length u)"
    and n: "2 * length s + 1 \<le> n"
  shows "settled (readArray ops (Suc n) depth items s) (length s)"
proof (cases "readValue ops n depth nullValue s")
  case (Reading ok v w)
  then have w: "length w \<le> length s" using V [OF n, of depth nullValue] by simp
  obtain t x u where t: "skipCommentTokens w = (t, x, u)" by (cases "skipCommentTokens w")
  note u = skipCommentTokens_shrinks [OF t]
  have "settled (readArray ops n depth xs u) (length s)" if "t = tokenArraySeparator" for xs
    using that u w n by (auto intro!: settled_mono [OF A])
  with w u Reading t show ?thesis by (auto simp: Let_def intro!: recover_trans)
qed (use V [OF n, of depth nullValue] in auto)

lemma readValue_settled:
  assumes O: "\<And>depth members name u. 2 * length u + 1 \<le> n \<Longrightarrow> settled (readObject ops n depth members name u) (length u)"
    and A: "\<And>depth items u. 2 * length u + 2 \<le> n \<Longrightarrow> settled (readArray ops n depth items u) (length u)"
    and n: "2 * length s \<le> n"
  shows "settled (readValue ops (Suc n) depth cur s) (length s)"
proof -
  obtain t x u where t: "skipCommentTokens s = (t, x, u)" by (cases "skipCommentTokens s")
  note u = skipCommentTokens_shrinks [OF t]
  note sp = skipSpaces_length [of u]
  obtain t' x' u' where t': "readToken (skipSpaces u) = (t', x', u')" by (cases "readToken (skipSpaces u)")
  have u': "length u' \<le> length s" using readToken_shrinks [OF t'] sp u by simp
  have "settled (readObject ops n (Suc depth) [] '''' u) (length s)" if "t = tokenObjectBegin"
    using that u n by (auto intro!: settled_mono [OF O])
  moreover have "settled (readArray ops n (Suc depth) [] (skipSpaces u)) (length s)" if "t = tokenArrayBegin"
    using that u sp n by (auto intro!: settled_mono [OF A])
  ultimately show ?thesis
    using u u' by (simp add: t t' Let_def split: token_type.split option.split)
qed

lemma reading_settled:
  "2 * length s + 1 \<le> n \<Longrightarrow> settled (readValue ops n depth cur s) (length s)"
  "2 * length s + 1 \<le> n \<Longrightarrow> settled (readObject ops n depth members name s) (length s)"
  "2 * length s + 2 \<le> n \<Longrightarrow> settled (readArray ops n depth items s) (length s)"
proof (induction n arbitrary: depth cur s members name items)
  case (Suc n)
  { case 1
    then show ?case using Suc.IH(2,3) by (intro readValue_settled) auto
  next
    case 2
    then show ?case using Suc.IH(1,2) by (intro readObject_settled) auto
  next
    case 3
    then show ?case using Suc.IH(1,3) by (intro readArray_settled) auto
  }
qed simp_all

text \<open>
  C29. Reading ends on every text: for every document, whatever bytes it holds, \<open>Json::Reader::parse\<close>
  returns, with success or failure, or throws the exception about its stack depth. The two units of fuel
  per character that the model gives are never used up: every turn of the loops of \<open>readObject\<close>,
  \<open>readArray\<close>, \<open>skipCommentTokens\<close> and \<open>recoverFromError\<close> consumes a character or ends.
\<close>

theorem parse_json_ends: "parse_json ops document \<noteq> OutOfFuel"
  using reading_settled(1) [of document "2 * length document + 1" ops 0 nullValue]
  by (auto simp: parse_json_def)

end
