(* ===== verification/JsonRoundtrip.thy ===== *)
theory JsonRoundtrip
  imports JsonReader
begin

text \<open>
  \<open>Json::Reader\<close> reads what \<open>Json::FastWriter\<close> writes: the tokens of written text, strings with their
  escapes, numbers, and values by induction.
\<close>


subsection \<open>Tokens\<close>

definition delimited :: "string \<Rightarrow> bool" where
  "delimited s \<longleftrightarrow> s \<noteq> [] \<and> hd s \<in> {CHR '','', CHR '']'', CHR ''}'', CHR 0x0A}"

lemma readToken_punctuation:
  "readToken (CHR ''{'' # s) = (tokenObjectBegin, ''{'', s)" "readToken (CHR ''}'' # s) = (tokenObjectEnd, ''}'', s)"
  "readToken (CHR ''['' # s) = (tokenArrayBegin, ''['', s)" "readToken (CHR '']'' # s) = (tokenArrayEnd, '']'', s)"
  "readToken (CHR '','' # s) = (tokenArraySeparator, '','', s)" "readToken (CHR '':'' # s) = (tokenMemberSeparator, '':'', s)"
  by (simp_all add: readToken_def skipSpaces_def token_after_def is_space_def is_digit_def Let_def)

lemma skipCommentTokens_simple:
  "readToken s = (t, text, s') \<Longrightarrow> t \<noteq> tokenComment \<Longrightarrow> skipCommentTokens s = (t, text, s')"
  by (simp add: skipCommentTokens.simps [of s])

text \<open>A token whose text is known.\<close>

lemma readToken_text:
  assumes "\<not> is_space c" "token_after c (ds @ rest) = (t, True, rest)"
  shows "readToken ((c # ds) @ rest) = (t, c # ds, rest)"
  using assms by (simp add: readToken_def skipSpaces_def Let_def)

lemma readToken_words:
  "readToken (''null'' @ rest) = (tokenNull, ''null'', rest)" "readToken (''true'' @ rest) = (tokenTrue, ''true'', rest)"
  "readToken (''false'' @ rest) = (tokenFalse, ''false'', rest)"
  using readToken_text [of "CHR ''n''" "''ull''" rest tokenNull] readToken_text [of "CHR ''t''" "''rue''" rest tokenTrue]
    readToken_text [of "CHR ''f''" "''alse''" rest tokenFalse]
  by (simp_all add: token_after_def is_space_def is_digit_def match_text_def)

subsection \<open>Strings\<close>

lemma hex_value_upper [simp]: "n < 16 \<Longrightarrow> hex_value (hex_upper n) = Some n"
  by (auto simp: hex_value_def hex_upper_def Let_def of_char_of)

lemma hex_value_no_quote: "hex_value c = Some n \<Longrightarrow> c \<noteq> CHR 0x22 \<and> c \<noteq> CHR 0x5C"
  by (auto simp: hex_value_def)

lemma escaped_cases [case_names plain simple control]:
  obtains "escaped c = [c]" "c \<noteq> CHR 0x22" "c \<noteq> CHR 0x5C"
  | e where "escaped c = [CHR 0x5C, e]" "simple_escape e = Some c" "e \<noteq> CHR ''u''"
  | a b where "escaped c = [CHR 0x5C, CHR ''u'', CHR ''0'', CHR ''0'', a, b]"
      "hex_value a = Some (of_char c div 16)" "hex_value b = Some (of_char c mod 16)" "(of_char c :: nat) < 32"
proof (cases "c \<in> set special_chars")
  case True
  with that(2) show thesis by (auto simp: escaped_def simple_escape_def special_chars_def)
next
  case special: False
  show thesis
  proof (cases "isControlCharacter c \<or> c = CHR 0x00")
    case True
    then have n: "(of_char c :: nat) < 32" by (auto simp: isControlCharacter_def)
    from True special have "escaped c = [CHR 0x5C, CHR ''u'', CHR ''0'', CHR ''0'',
        hex_upper (of_char c div 16), hex_upper (of_char c mod 16)]"
      by (simp add: escaped_def special_chars_def)
    from this _ _ n show thesis by (rule that(3)) (use n in simp_all)
  next
    case False
    with special that(1) show thesis by (simp add: escaped_plain) (simp add: special_chars_def)
  qed
qed

lemma readString_escaped: "readString (escaped c @ s) = readString s"
proof (cases c rule: escaped_cases)
  case (control a b)
  then show ?thesis using hex_value_no_quote [of a] hex_value_no_quote [of b] by simp
qed simp_all

lemma readString_quoted: "readString (concat (map escaped str) @ CHR 0x22 # rest) = (True, rest)"
  by (induction str) (simp_all add: readString_escaped)

lemma decode_chars_escaped: "decode_chars acc (escaped c @ s) = decode_chars (acc @ [c]) s"
proof (cases c rule: escaped_cases)
  case (control a b)
  have z: "hex_value (CHR ''0'') = Some 0" by (simp add: hex_value_def)
  have "of_nat (of_char c div 16) * 16 + of_nat (of_char c mod 16) = (of_nat (of_char c) :: 32 word)"
    by (metis div_mult_mod_eq of_nat_add of_nat_mult of_nat_numeral)
  moreover have f: "decode_hex 4 = decode_hex (Suc (Suc (Suc (Suc 0))))" by (rule arg_cong [of _ _ decode_hex]) simp
  ultimately have d: "decodeUnicodeEscapeSequence (CHR ''0'' # CHR ''0'' # a # b # s) = Some (of_nat (of_char c), s)"
    using control(2,3) z by (simp add: decodeUnicodeEscapeSequence_def f)
  have u: "unat (of_nat (of_char c) :: 32 word) = of_char c" using control(4) by (simp add: unat_of_nat)
  with control(4) have "\<not> 0xD800 \<le> (of_nat (of_char c) :: 32 word)" "(of_nat (of_char c) :: 32 word) \<le> 0x7F"
    by (simp_all add: word_le_nat_alt)
  with d u have "decodeUnicodeCodePoint (CHR ''0'' # CHR ''0'' # a # b # s) = Some (of_nat (of_char c), s)"
    "codePointToUTF8 (of_nat (of_char c)) = [c]"
    by (simp_all add: decodeUnicodeCodePoint_def codePointToUTF8_def char_of_word_def)
  with control(1) show ?thesis by (subst decode_chars.simps) simp
next
  case plain
  then show ?thesis by (subst decode_chars.simps) simp
next
  case (simple e)
  then show ?thesis by (subst decode_chars.simps) simp
qed

lemma decode_chars_concat: "decode_chars acc (concat (map escaped str)) = Some (acc @ str)"
proof (induction str arbitrary: acc)
  case Nil
  show ?case by (simp add: decode_chars.simps)
qed (simp add: decode_chars_escaped)

lemma decodeString_quoted: "decodeString (valueToQuotedStringN str) = Some str"
  by (simp add: decodeString_def valueToQuotedStringN_escapes decode_chars_concat)

lemma readToken_quoted: "readToken (valueToQuotedStringN str @ rest) = (tokenString, valueToQuotedStringN str, rest)"
  using readToken_text [of "CHR 0x22" "concat (map escaped str) @ [CHR 0x22]" rest tokenString] readString_quoted [of str rest]
  by (simp add: valueToQuotedStringN_escapes token_after_def is_space_def)

subsection \<open>Numbers\<close>

lemma delimited_not_digit: "delimited rest \<Longrightarrow> dropWhile is_digit (s @ rest) = dropWhile is_digit s @ rest"
  by (induction s) (auto simp: delimited_def is_digit_def neq_Nil_conv)

lemma delimited_starts:
  "delimited rest \<Longrightarrow> c \<in> {CHR ''.'', CHR ''e'', CHR ''E'', CHR ''+'', CHR ''-''} \<Longrightarrow> starts_with c (s @ rest) = starts_with c s"
  by (cases s) (auto simp: delimited_def starts_with_def)

lemma starts_with_tl: "starts_with c s \<Longrightarrow> tl (s @ rest) = tl s @ rest"
  by (simp add: starts_with_def)

lemma readNumber_delimited:
  assumes "delimited rest"
  shows "readNumber (ds @ rest) = readNumber ds @ rest"
  using assms unfolding readNumber_def Let_def
  by (auto simp: delimited_not_digit delimited_starts starts_with_tl)

definition number_text :: "string \<Rightarrow> bool" where
  "number_text tx \<longleftrightarrow> tx \<noteq> [] \<and> (is_digit (hd tx) \<or> hd tx = CHR ''-'') \<and> readNumber (tl tx) = []"

lemma readToken_number:
  assumes "number_text tx" "delimited rest"
  shows "readToken (tx @ rest) = (tokenNumber, tx, rest)"
proof -
  obtain c ds where t: "tx = c # ds" "is_digit c \<or> c = CHR ''-''" "readNumber ds = []"
    using assms(1) by (cases tx) (auto simp: number_text_def)
  have "token_after c (ds @ rest) = (tokenNumber, True, rest)"
    using t(2,3) readNumber_delimited [OF assms(2), of ds] by (auto simp: token_after_def is_digit_def)
  moreover have "\<not> is_space c" using t(2) by (auto simp: is_space_def is_digit_def)
  ultimately show ?thesis using readToken_text t(1) by blast
qed

lemma number_text_digits: "ds \<noteq> [] \<Longrightarrow> \<forall>c\<in>set ds. is_digit c \<Longrightarrow> number_text ds \<and> number_text (CHR ''-'' # ds)"
proof -
  assume a: "ds \<noteq> []" "\<forall>c\<in>set ds. is_digit c"
  have "readNumber xs = []" if "\<forall>c\<in>set xs. is_digit c" for xs
  proof -
    have "dropWhile is_digit xs = []" using that by (simp add: dropWhile_eq_Nil_conv)
    then show ?thesis by (simp add: readNumber_def starts_with_def)
  qed
  with a show ?thesis by (cases ds) (auto simp: number_text_def)
qed

definition digits_value :: "int \<Rightarrow> string \<Rightarrow> int" where
  "digits_value = foldl (\<lambda>v c. v * 10 + digit_value c)"

lemma digit_value_bounds: "is_digit c \<Longrightarrow> 0 \<le> digit_value c \<and> digit_value c \<le> 9"
  by (simp add: is_digit_def digit_value_def)

lemma digits_value_ge: "\<forall>c\<in>set ds. is_digit c \<Longrightarrow> 0 \<le> v \<Longrightarrow> v * 10 ^ length ds \<le> digits_value v ds"
proof (induction ds arbitrary: v)
  case (Cons c ds)
  then have d: "0 \<le> digit_value c" using digit_value_bounds [of c] by simp
  with Cons.prems(2) have "v * 10 * 10 ^ length ds \<le> (v * 10 + digit_value c) * 10 ^ length ds" by (intro mult_right_mono) auto
  also have "\<dots> \<le> digits_value (v * 10 + digit_value c) ds" using Cons d by simp
  finally show ?case by (simp add: digits_value_def mult.assoc)
qed (simp add: digits_value_def)

lemma decode_digits_exact:
  assumes "\<forall>c\<in>set ds. is_digit c" "0 \<le> v" "digits_value v ds \<le> M" "10 < M"
  shows "decode_digits M (M div 10) v ds = Some (digits_value v ds)"
  using assms
proof (induction ds arbitrary: v)
  case (Cons c ds)
  define w where "w = v * 10 + digit_value c"
  have d: "0 \<le> digit_value c" "digit_value c \<le> 9" using Cons.prems(1) digit_value_bounds [of c] by auto
  then have w: "0 \<le> w" using Cons.prems(2) by (simp add: w_def)
  have val: "digits_value v (c # ds) = digits_value w ds" by (simp add: digits_value_def w_def)
  have ge: "w * 10 ^ length ds \<le> M" using digits_value_ge [of ds w] Cons.prems(1,3) w val by simp
  have "w \<le> w * 10 ^ length ds" using w mult_left_mono [of 1 "10 ^ length ds" w] by simp
  with ge have wM: "w \<le> M" by simp
  have "ds = []" if "M div 10 \<le> v"
  proof (rule ccontr)
    assume "ds \<noteq> []"
    then obtain e es where "ds = e # es" by (cases ds) auto
    then have "w * 10 \<le> w * 10 ^ length ds" using w by (intro mult_left_mono) auto
    with ge have "w * 10 \<le> M" by simp
    with that d(1) Cons.prems(4) show False by (simp add: w_def) 
  qed
  moreover have "\<not> M div 10 < v" using wM d(1) by (simp add: w_def) 
  moreover have "\<not> M mod 10 < digit_value c" if "M div 10 \<le> v" 
  proof -
    have "M mod 10 = M - 10 * (M div 10)" by (simp add: minus_mult_div_eq_mod)
    with wM that show ?thesis by (simp add: w_def)
  qed
  ultimately have "\<not> (M div 10 \<le> v \<and> (M div 10 < v \<or> ds \<noteq> [] \<or> M mod 10 < digit_value c))" by blast
  with Cons.prems(1) have "decode_digits M (M div 10) v (c # ds) = decode_digits M (M div 10) w ds"
    by (simp add: Let_def w_def)
  also have "\<dots> = Some (digits_value w ds)" using Cons.IH [OF _ w] Cons.prems val by simp
  finally show ?case using val by simp
qed (simp add: digits_value_def)

lemma digits_value_uintToString: "0 \<le> n \<Longrightarrow> digits_value 0 (uintToString n) = n"
proof (induction n rule: uintToString.induct)
  case (1 n)
  have "digit_value (digit_char n) = n mod 10"
    by (simp add: digit_value_def of_char_digit_char)
  with 1 show ?case by (subst uintToString.simps) (simp add: digits_value_def)
qed

subsection \<open>Values\<close>

text \<open>
  The values that can be written and read again: integers in the range of their type, numbers whose text
  the reader takes, members in the order of the map. \<open>canonical\<close> is what reading gives: the type of a
  number depends on its text alone, so that an integer above \<open>maxInt\<close> becomes unsigned, a small unsigned
  one signed, and a \<open>double\<close> without a fraction an integer.
\<close>

fun json_depth :: "'d json \<Rightarrow> nat" where
  "json_depth (arrayValue xs) = Suc (Max (insert 0 (set (map json_depth xs))))"
| "json_depth (objectValue ms) = Suc (Max (insert 0 (set (map (\<lambda>(k, v). json_depth v) ms))))"
| "json_depth _ = 1"

fun printable :: "'d double_ops \<Rightarrow> 'd json \<Rightarrow> bool" where
  "printable ops (intValue i) \<longleftrightarrow> minLargestInt \<le> i \<and> i \<le> maxLargestInt"
| "printable ops (uintValue i) \<longleftrightarrow> 0 \<le> i \<and> i \<le> maxLargestUInt"
| "printable ops (realValue d) \<longleftrightarrow>
     number_text (valueToString_double ops d) \<and> decodeNumber ops (valueToString_double ops d) \<noteq> None"
| "printable ops (arrayValue xs) \<longleftrightarrow> (\<forall>x\<in>set xs. printable ops x)"
| "printable ops (objectValue ms) \<longleftrightarrow> sorted_wrt (<) (map fst ms) \<and> (\<forall>(k, v)\<in>set ms. printable ops v)"
| "printable ops _ \<longleftrightarrow> True"

definition canonical_int :: "int \<Rightarrow> 'd json" where
  "canonical_int i = (if i \<le> maxInt then intValue i else uintValue i)"

fun canonical :: "'d double_ops \<Rightarrow> 'd json \<Rightarrow> 'd json" where
  "canonical ops (intValue i) = canonical_int i"
| "canonical ops (uintValue i) = canonical_int i"
| "canonical ops (realValue d) = the (decodeNumber ops (valueToString_double ops d))"
| "canonical ops (arrayValue xs) = arrayValue (map (canonical ops) xs)"
| "canonical ops (objectValue ms) = objectValue (map (\<lambda>(k, v). (k, canonical ops v)) ms)"
| "canonical ops v = v"

lemma decodeNumber_uint:
  assumes "0 \<le> i" "i \<le> maxLargestUInt"
  shows "decodeNumber ops (uintToString i) = Some (canonical_int i)"
proof -
  have "\<not> starts_with (CHR ''-'') (uintToString i)"
    using bspec [OF uintToString_digits [of i] hd_in_set [OF uintToString_nonempty]] by (auto simp: starts_with_def is_digit_def)
  moreover have "decode_digits maxLargestUInt (maxLargestUInt div 10) 0 (uintToString i) = Some i"
    using decode_digits_exact [OF uintToString_digits, of 0 i maxLargestUInt] assms
    by (simp add: digits_value_uintToString)
  ultimately show ?thesis by (simp add: decodeNumber_def Let_def canonical_int_def)
qed

lemma decodeNumber_negative:
  assumes "0 < i" "i \<le> maxLargestInt + 1"
  shows "decodeNumber ops (CHR ''-'' # uintToString i) = Some (intValue (- i))"
proof -
  have "decode_digits (maxLargestInt + 1) ((maxLargestInt + 1) div 10) 0 (uintToString i) = Some i"
    using decode_digits_exact [OF uintToString_digits, of 0 i "maxLargestInt + 1"] assms
    by (simp add: digits_value_uintToString)
  then show ?thesis by (simp add: decodeNumber_def Let_def starts_with_def)
qed

lemma decodeNumber_int:
  assumes "minLargestInt \<le> i" "i \<le> maxLargestInt"
  shows "decodeNumber ops (valueToString_int i) = Some (canonical_int i)"
proof (cases "0 \<le> i")
  case True
  with assms decodeNumber_uint [of i ops] show ?thesis by (simp add: valueToString_int_def)
next
  case False
  with assms decodeNumber_negative [of "- i" ops] show ?thesis
    by (auto simp: valueToString_int_def canonical_int_def)
qed

lemma number_text_int: "number_text (valueToString_int i)"
  unfolding valueToString_int_def using number_text_digits [OF uintToString_nonempty uintToString_digits] by simp

text \<open>The first character of a value's text.\<close>

lemma writeValue_starts:
  assumes "printable ops v"
  shows "\<exists>c s. writeValue ops v = c # s \<and> \<not> is_space c \<and> c \<noteq> CHR '']''"
proof -
  have n: "\<exists>c s. t = c # s \<and> \<not> is_space c \<and> c \<noteq> CHR '']''" if "number_text t" for t
    using that by (cases t) (auto simp: number_text_def is_space_def is_digit_def)
  show ?thesis
  proof (cases v)
    case (intValue i)
    then show ?thesis using n [OF number_text_int] by simp
  next
    case (uintValue i)
    then show ?thesis using n [OF number_text_digits [OF uintToString_nonempty uintToString_digits, THEN conjunct1]]
      by (simp add: valueToString_uint_def)
  next
    case (realValue d)
    then show ?thesis using n assms by simp
  qed (simp_all add: is_space_def valueToQuotedStringN_escapes valueToString_bool_def)
qed

lemma skipSpaces_written: "printable ops v \<Longrightarrow> skipSpaces (writeValue ops v @ s) = writeValue ops v @ s"
  using writeValue_starts [of ops v] by (auto simp: skipSpaces_def)

lemma written_not_array_end: "printable ops v \<Longrightarrow> \<not> starts_with (CHR '']'') (writeValue ops v @ s)"
  using writeValue_starts [of ops v] by (auto simp: starts_with_def)

lemma separated_Cons: "separated (x # xs) = x @ (if xs = [] then [] else CHR '','' # separated xs)"
  by (cases xs) auto

text \<open>What reading a value's text has to give, whatever follows it.\<close>

definition reads_back :: "'d double_ops \<Rightarrow> 'd json \<Rightarrow> bool" where
  "reads_back ops v \<longleftrightarrow> (\<forall>n depth cur rest. delimited rest \<longrightarrow> depth + json_depth v \<le> 1000 \<longrightarrow>
     2 * length (writeValue ops v @ rest) + 1 \<le> n \<longrightarrow>
     readValue ops n depth cur (writeValue ops v @ rest) = Reading True (canonical ops v) rest)"

lemma reads_backD:
  "reads_back ops v \<Longrightarrow> delimited rest \<Longrightarrow> depth + json_depth v \<le> 1000 \<Longrightarrow>
   2 * length (writeValue ops v @ rest) + 1 \<le> n \<Longrightarrow>
   readValue ops n depth cur (writeValue ops v @ rest) = Reading True (canonical ops v) rest"
  unfolding reads_back_def by blast

lemma delimited_simps [simp]:
  "delimited (CHR '','' # s)" "delimited (CHR '']'' # s)" "delimited (CHR ''}'' # s)"
  by (simp_all add: delimited_def)

lemma readArray_written:
  assumes "\<forall>x\<in>set xs. reads_back ops x \<and> depth + json_depth x \<le> 1000" "xs \<noteq> []"
    "2 * length (separated (map (writeValue ops) xs) @ CHR '']'' # rest) + 2 \<le> n"
  shows "readArray ops n depth items (separated (map (writeValue ops) xs) @ CHR '']'' # rest) =
    Reading True (arrayValue (items @ map (canonical ops) xs)) rest"
  using assms
proof (induction xs arbitrary: items n)
  case (Cons x xs)
  obtain m where m: "n = Suc m" using Cons.prems(3) by (cases n) auto
  define after where "after = (if xs = [] then CHR '']'' # rest else CHR '','' # separated (map (writeValue ops) xs) @ CHR '']'' # rest)"
  have eq: "separated (map (writeValue ops) (x # xs)) @ CHR '']'' # rest = writeValue ops x @ after"
    by (simp add: separated_Cons after_def)
  have "readValue ops m depth nullValue (writeValue ops x @ after) = Reading True (canonical ops x) after"
  proof (rule reads_backD)
    show "delimited after" by (simp add: after_def)
    show "2 * length (writeValue ops x @ after) + 1 \<le> m" using Cons.prems(3) unfolding eq m by simp
  qed (use Cons.prems(1) in auto)
  note r = this
  show ?case
  proof (cases "xs = []")
    case True
    then have "skipCommentTokens after = (tokenArrayEnd, '']'', rest)"
      by (intro skipCommentTokens_simple) (simp_all add: after_def readToken_punctuation)
    with r True show ?thesis unfolding eq m by simp
  next
    case False
    then have "skipCommentTokens after = (tokenArraySeparator, '','', separated (map (writeValue ops) xs) @ CHR '']'' # rest)"
      by (intro skipCommentTokens_simple) (simp_all add: after_def readToken_punctuation)
    moreover have "readArray ops m depth (items @ [canonical ops x]) (separated (map (writeValue ops) xs) @ CHR '']'' # rest) =
        Reading True (arrayValue ((items @ [canonical ops x]) @ map (canonical ops) xs)) rest"
      using Cons.prems False unfolding eq m by (intro Cons.IH) (simp_all add: after_def)
    ultimately show ?thesis using r unfolding eq m by simp
  qed
qed simp

lemma insert_member_last:
  "\<forall>k'\<in>set (map fst ms). k' < k \<Longrightarrow> insert_member k v ms = ms @ [(k, v)] \<and> map_of ms k = None"
  by (induction ms) auto

lemma readObject_written:
  assumes "\<forall>(k, v)\<in>set ms. reads_back ops v \<and> depth + json_depth v \<le> 1000" "ms \<noteq> []"
    "sorted_wrt (<) (map fst (before @ ms))"
    "2 * length (separated (map (\<lambda>(k, v). valueToQuotedStringN k @ CHR '':'' # writeValue ops v) ms) @ CHR ''}'' # rest) + 1 \<le> n"
  shows "readObject ops n depth before name (separated (map (\<lambda>(k, v). valueToQuotedStringN k @ CHR '':'' # writeValue ops v) ms) @ CHR ''}'' # rest) =
    Reading True (objectValue (before @ map (\<lambda>(k, v). (k, canonical ops v)) ms)) rest"
  using assms
proof (induction ms arbitrary: before name n)
  case (Cons kv ms)
  obtain k v where kv: "kv = (k, v)" by (cases kv)
  obtain m where m: "n = Suc m" using Cons.prems(4) by (cases n) auto
  let ?w = "\<lambda>ms. separated (map (\<lambda>(k, v). valueToQuotedStringN k @ CHR '':'' # writeValue ops v) ms) @ CHR ''}'' # rest"
  define after where "after = (if ms = [] then CHR ''}'' # rest else CHR '','' # ?w ms)"
  have eq: "?w (kv # ms) = valueToQuotedStringN k @ CHR '':'' # writeValue ops v @ after"
    by (simp add: separated_Cons after_def kv)
  have name: "skipCommentTokens (valueToQuotedStringN k @ CHR '':'' # writeValue ops v @ after) =
      (tokenString, valueToQuotedStringN k, CHR '':'' # writeValue ops v @ after)"
    by (rule skipCommentTokens_simple [OF readToken_quoted]) simp
  have less: "\<forall>k'\<in>set (map fst before). k' < k" using Cons.prems(3) by (auto simp: sorted_wrt_append kv)
  note ins = insert_member_last [OF less]
  have r: "readValue ops m depth nullValue (writeValue ops v @ after) = Reading True (canonical ops v) after"
  proof (rule reads_backD)
    show "delimited after" by (simp add: after_def)
    show "2 * length (writeValue ops v @ after) + 1 \<le> m" using Cons.prems(4) unfolding eq m by simp
  qed (use Cons.prems(1) kv in auto)
  show ?case
  proof (cases "ms = []")
    case True
    then have "readToken after = (tokenObjectEnd, ''}'', rest)" by (simp add: after_def readToken_punctuation)
    with r True ins show ?thesis unfolding eq m
      by (simp add: name readToken_punctuation decodeString_quoted kv)
  next
    case False
    then have "readToken after = (tokenArraySeparator, '','', ?w ms)" by (simp add: after_def readToken_punctuation)
    moreover have "readObject ops m depth (before @ [(k, canonical ops v)]) k (?w ms) =
        Reading True (objectValue ((before @ [(k, canonical ops v)]) @ map (\<lambda>(k, v). (k, canonical ops v)) ms)) rest"
      using Cons.prems False unfolding eq m by (intro Cons.IH) (simp_all add: after_def kv)
    ultimately show ?thesis using r ins unfolding eq m
      by (simp add: name readToken_punctuation decodeString_quoted kv)
  qed
qed simp

lemma json_depth_element: "x \<in> set xs \<Longrightarrow> Suc (json_depth x) \<le> json_depth (arrayValue xs)"
  by (simp add: Max_ge)

lemma json_depth_member: "(k, v) \<in> set ms \<Longrightarrow> Suc (json_depth v) \<le> json_depth (objectValue ms)"
proof -
  assume "(k, v) \<in> set ms"
  then have "json_depth v \<in> insert 0 (set (map (\<lambda>(k, v). json_depth v) ms))" by force
  then show ?thesis by (simp add: Max_ge)
qed

lemma json_depth_pos: "0 < json_depth v"
  by (cases v) simp_all

lemma reads_back_token:
  assumes "\<And>rest. delimited rest \<Longrightarrow> readToken (writeValue ops v @ rest) = (t, writeValue ops v, rest)"
    and "t \<notin> {tokenComment, tokenObjectBegin, tokenArrayBegin}"
    and "\<And>n depth cur rest. depth < 1000 \<Longrightarrow> delimited rest \<Longrightarrow>
      skipCommentTokens (writeValue ops v @ rest) = (t, writeValue ops v, rest) \<Longrightarrow>
      readValue ops (Suc n) depth cur (writeValue ops v @ rest) = Reading True (canonical ops v) rest"
  shows "reads_back ops v"
  unfolding reads_back_def
proof (intro allI impI)
  fix n depth cur rest
  assume a: "delimited rest" "depth + json_depth v \<le> 1000" "2 * length (writeValue ops v @ rest) + 1 \<le> n"
  then obtain m where m: "n = Suc m" by (cases n) auto
  have "skipCommentTokens (writeValue ops v @ rest) = (t, writeValue ops v, rest)"
    using assms(1) [OF a(1)] assms(2) by (intro skipCommentTokens_simple) auto
  then show "readValue ops n depth cur (writeValue ops v @ rest) = Reading True (canonical ops v) rest"
    unfolding m using a json_depth_pos [of v] by (intro assms(3)) auto
qed

lemma reads_back_number:
  assumes "number_text (writeValue ops v)" "decodeNumber ops (writeValue ops v) = Some (canonical ops v)"
  shows "reads_back ops v"
  by (rule reads_back_token [where t = tokenNumber]) (simp_all add: readToken_number assms)

lemma reads_back_array:
  assumes "\<forall>x\<in>set xs. reads_back ops x \<and> printable ops x"
  shows "reads_back ops (arrayValue xs)"
  unfolding reads_back_def
proof (intro allI impI)
  fix n depth cur rest
  assume a: "delimited rest" "depth + json_depth (arrayValue xs) \<le> 1000"
    "2 * length (writeValue ops (arrayValue xs) @ rest) + 1 \<le> n"
  obtain m where m: "n = Suc m" using a(3) by (cases n) auto
  have d: "\<not> 1000 \<le> depth" using a(2) by simp
  have t: "skipCommentTokens (CHR ''['' # s) = (tokenArrayBegin, ''['', s)" for s
    by (rule skipCommentTokens_simple [OF readToken_punctuation(3)]) simp
  show "readValue ops n depth cur (writeValue ops (arrayValue xs) @ rest) = Reading True (canonical ops (arrayValue xs)) rest"
  proof (cases xs)
    case Nil
    then show ?thesis using d unfolding m
      by (simp add: t skipSpaces_def is_space_def starts_with_def readToken_punctuation)
  next
    case (Cons x ys)
    let ?s = "separated (map (writeValue ops) xs) @ CHR '']'' # rest"
    have "\<exists>u. ?s = writeValue ops x @ u" using Cons by (simp add: separated_Cons)
    then obtain u where u: "?s = writeValue ops x @ u" ..
    have "readArray ops m (Suc depth) [] ?s = Reading True (arrayValue ([] @ map (canonical ops) xs)) rest"
      using assms a(2,3) json_depth_element [of _ xs] Cons unfolding m
      by (intro readArray_written) (fastforce, simp_all)
    moreover have "skipSpaces ?s = ?s" "\<not> starts_with (CHR '']'') ?s"
      using assms Cons unfolding u by (auto simp: skipSpaces_written written_not_array_end)
    ultimately show ?thesis using d unfolding m by (simp add: t)
  qed
qed

lemma reads_back_object:
  assumes "\<forall>(k, v)\<in>set ms. reads_back ops v" "sorted_wrt (<) (map fst ms)"
  shows "reads_back ops (objectValue ms)"
  unfolding reads_back_def
proof (intro allI impI)
  fix n depth cur rest
  assume a: "delimited rest" "depth + json_depth (objectValue ms) \<le> 1000"
    "2 * length (writeValue ops (objectValue ms) @ rest) + 1 \<le> n"
  obtain m where m: "n = Suc m" using a(3) by (cases n) auto
  have d: "\<not> 1000 \<le> depth" using a(2) by simp
  have t: "skipCommentTokens (CHR ''{'' # s) = (tokenObjectBegin, ''{'', s)" "skipCommentTokens (CHR ''}'' # s) = (tokenObjectEnd, ''}'', s)" for s
    by (rule skipCommentTokens_simple, simp_all add: readToken_punctuation)+
  show "readValue ops n depth cur (writeValue ops (objectValue ms) @ rest) = Reading True (canonical ops (objectValue ms)) rest"
  proof (cases "ms = []")
    case True
    obtain m' where "m = Suc m'" using a(3) m by (cases m) auto
    with True d show ?thesis unfolding m by (simp add: t)
  next
    case False
    have "readObject ops m (Suc depth) [] '''' (separated (map (\<lambda>(k, v). valueToQuotedStringN k @ CHR '':'' # writeValue ops v) ms) @ CHR ''}'' # rest) =
        Reading True (objectValue ([] @ map (\<lambda>(k, v). (k, canonical ops v)) ms)) rest"
      using assms a(2,3) json_depth_member [of _ _ ms] False unfolding m
      by (intro readObject_written) (fastforce, simp_all)
    then show ?thesis using d unfolding m by (simp add: t)
  qed
qed

lemma printable_reads_back: "printable ops v \<Longrightarrow> reads_back ops v"
proof (induction v)
  case nullValue
  show ?case by (rule reads_back_token [where t = tokenNull]) (use readToken_words in simp_all)
next
  case (intValue i)
  then show ?case by (intro reads_back_number) (simp_all add: number_text_int decodeNumber_int)
next
  case (uintValue i)
  then show ?case
    by (intro reads_back_number) (simp_all add: valueToString_uint_def decodeNumber_uint number_text_digits uintToString_digits)
next
  case (realValue d)
  then show ?case by (intro reads_back_number) auto
next
  case (stringValue s)
  show ?case by (rule reads_back_token [where t = tokenString]) (simp_all add: readToken_quoted decodeString_quoted)
next
  case (booleanValue b)
  show ?case by (rule reads_back_token [where t = "if b then tokenTrue else tokenFalse"])
      (use readToken_words in \<open>simp_all add: valueToString_bool_def split: if_splits\<close>)
next
  case (arrayValue xs)
  then show ?case by (intro reads_back_array) auto
next
  case (objectValue ms)
  then show ?case by (intro reads_back_object) fastforce+
qed

text \<open>
  C6. What the device client writes, it and any other user of the library read back: for every JSON value
  whose integers are in the range of their types, whose members are in the map's order and whose real
  numbers have a text that scans, nested at most 1000 deep, \<open>Reader::parse\<close> on the text that
  \<open>FastWriter::write\<close> gives succeeds, stops in front of the final newline, and gives the same value, with
  numbers in their canonical type. Strings may hold any bytes, zero and control characters included.
\<close>

theorem json_roundtrip:
  assumes "printable ops v" "json_depth v \<le> 1000"
  shows "parse_json ops (fast_write ops v) = Reading True (canonical ops v) [CHR 0x0A]"
  using reads_backD [OF printable_reads_back [OF assms(1)], of "[CHR 0x0A]" 0 "2 * length (fast_write ops v) + 1" nullValue] assms(2)
  by (simp add: parse_json_def fast_write_def delimited_def)

text \<open>A floating point type with one value, one half.\<close>

definition half_ops :: "unit double_ops" where
  "half_ops = \<lparr>d_isfinite = (\<lambda>_. True), d_isnan = (\<lambda>_. False), d_negative = (\<lambda>_. False), d_print = (\<lambda>_. ''0.5''),
     d_scan = (\<lambda>s. if s = ''0.5'' then Some () else None), d_of_int = (\<lambda>_. ()), d_trunc = (\<lambda>_. 0), d_in_range = (\<lambda>_ _ _. True)\<rparr>"

theorem json_roundtrip_witness:
  "parse_json half_ops (fast_write half_ops (objectValue [(''d'', arrayValue [realValue (), intValue (-3)]), (''rc'', uintValue 200)])) =
     Reading True (objectValue [(''d'', arrayValue [realValue (), intValue (-3)]), (''rc'', intValue 200)]) [CHR 0x0A]"
proof -
  have tx: "valueToString_double half_ops () = ''0.5''" by (simp add: valueToString_double_def fixNumericLocale_def half_ops_def)
  have "decodeNumber half_ops ''0.5'' = Some (realValue ())" "number_text ''0.5''" by code_simp+
  then show ?thesis
    using json_roundtrip [of half_ops "objectValue [(''d'', arrayValue [realValue (), intValue (-3)]), (''rc'', uintValue 200)]"] tx
    by (simp add: canonical_int_def)
qed

text \<open>
  Two texts that the reader takes although they are not JSON: a minus sign without digits is the number
  zero, and whatever follows the first value is ignored.
\<close>

lemma lone_minus_is_zero: "parse_json half_ops ''-'' = Reading True (intValue 0) []"
  by code_simp

lemma trailing_text_ignored: "parse_json half_ops ''1 rest'' = Reading True (intValue 1) '' rest''"
  by code_simp

end
