(* ===== verification/AsyncClient.thy ===== *)
theory AsyncClient
  imports Json
begin

text \<open>
  The C++ client of \<open>lib/async_client.cpp\<close> and its tokens (\<open>lib/token.cpp\<close>): every operation of the
  application becomes a token, which the client keeps until the C library reports the outcome.

  The C library is the environment: the return code of each \<open>MQTTAsync_\<close> function is an argument, and so
  are the moments of its callbacks. Tokens are numbered in the order of their creation, the number
  standing for the address. The log lists the calls made to the C library, to the listeners of the
  application and to its \<open>delivery_complete\<close> callback. The locks guard each of the functions below.
\<close>

section \<open>State\<close>

record mqtt_message =
  msg_payload :: string
  msg_qos :: int
  msg_retained :: bool

record ssl_options =
  ssl_trustStore :: string
  ssl_keyStore :: string
  ssl_privateKey :: string
  ssl_privateKeyPassword :: string

record connect_options =
  co_cleansession :: bool
  co_keepAliveInterval :: int
  co_userName :: string
  co_password :: string
  co_ssl :: "ssl_options option"

datatype request =
    MQTTAsync_connect connect_options
  | MQTTAsync_disconnect int
  | MQTTAsync_sendMessage string mqtt_message
  | MQTTAsync_subscribe string int
  | MQTTAsync_subscribeMany "string list" "int list"
  | MQTTAsync_unsubscribe string
  | MQTTAsync_unsubscribeMany "string list"

record token =
  tok_topics :: "string list"
  tok_id :: int
  tok_rc :: int
  tok_complete :: bool
  tok_listener :: bool
  tok_message :: "mqtt_message option"

datatype notice = Called request int | ListenerSuccess nat | ListenerFailure nat | DeliveryComplete nat

record async_client =
  tokens :: "token list"
  pendingTokens :: "nat list"
  pendingDeliveryTokens :: "nat list"
  userCallback :: bool
  async_log :: "notice list"

definition new_async_client :: async_client where
  "new_async_client = \<lparr>tokens = [], pendingTokens = [], pendingDeliveryTokens = [], userCallback = False, async_log = []\<rparr>"

text \<open>\<open>message::set_qos\<close> and the constructor of messages with a quality of service.\<close>

definition make_message :: "string \<Rightarrow> int \<Rightarrow> bool \<Rightarrow> exception + mqtt_message" where
  "make_message payload qos retained =
     (if qos < 0 \<or> 2 < qos then Inl InvalidArgument
      else Inr \<lparr>msg_payload = payload, msg_qos = qos, msg_retained = retained\<rparr>)"

section \<open>Tokens\<close>

definition new_token :: "string list \<Rightarrow> bool \<Rightarrow> mqtt_message option \<Rightarrow> token" where
  "new_token topics listener msg =
     \<lparr>tok_topics = topics, tok_id = 0, tok_rc = 0, tok_complete = False, tok_listener = listener, tok_message = msg\<rparr>"

definition is_delivery :: "token \<Rightarrow> bool" where
  "is_delivery t \<longleftrightarrow> tok_message t \<noteq> None"

text \<open>\<open>add_token\<close>: tokens of messages go to the second list.\<close>

definition add_token :: "token \<Rightarrow> async_client \<Rightarrow> async_client" where
  "add_token t cl = (let a = length (tokens cl); cl = cl\<lparr>tokens := tokens cl @ [t]\<rparr> in
     if is_delivery t then cl\<lparr>pendingDeliveryTokens := pendingDeliveryTokens cl @ [a]\<rparr>
     else cl\<lparr>pendingTokens := pendingTokens cl @ [a]\<rparr>)"

text \<open>
  \<open>remove_token\<close>: the first list that holds the token loses it; for a message with acknowledgements the
  callback of the application is told.
\<close>

definition confirms :: "token \<Rightarrow> bool" where
  "confirms t \<longleftrightarrow> (case tok_message t of None \<Rightarrow> False | Some m \<Rightarrow> 0 < msg_qos m)"

definition remove_token :: "nat \<Rightarrow> async_client \<Rightarrow> async_client" where
  "remove_token a cl =
     (if a \<in> set (pendingDeliveryTokens cl) then
        let cl = cl\<lparr>pendingDeliveryTokens := remove1 a (pendingDeliveryTokens cl)\<rparr> in
        if userCallback cl \<and> confirms (tokens cl ! a) then cl\<lparr>async_log := async_log cl @ [DeliveryComplete a]\<rparr> else cl
      else cl\<lparr>pendingTokens := remove1 a (pendingTokens cl)\<rparr>)"

text \<open>
  The callbacks that the C library makes: \<open>token::on_success\<close> and \<open>token::on_failure\<close>, the static functions
  with the functions of the object that they call.
\<close>

definition token_on_success :: "nat \<Rightarrow> int option \<Rightarrow> async_client \<Rightarrow> async_client" where
  "token_on_success a rsp cl =
     (let t = tokens cl ! a;
          t' = t\<lparr>tok_id := (case rsp of Some i \<Rightarrow> i | None \<Rightarrow> 0), tok_rc := 0, tok_complete := True\<rparr>;
          cl = cl\<lparr>tokens := (tokens cl)[a := t']\<rparr>;
          cl = (if tok_listener t then cl\<lparr>async_log := async_log cl @ [ListenerSuccess a]\<rparr> else cl)
      in remove_token a cl)"

definition token_on_failure :: "nat \<Rightarrow> (int \<times> int) option \<Rightarrow> async_client \<Rightarrow> async_client" where
  "token_on_failure a rsp cl =
     (let t = tokens cl ! a;
          (i, code) = (case rsp of Some (i, code) \<Rightarrow> (i, code) | None \<Rightarrow> (0, -1));
          t' = t\<lparr>tok_id := i, tok_rc := code, tok_complete := True\<rparr>;
          cl = cl\<lparr>tokens := (tokens cl)[a := t']\<rparr>;
          cl = (if tok_listener t then cl\<lparr>async_log := async_log cl @ [ListenerFailure a]\<rparr> else cl)
      in remove_token a cl)"

text \<open>
  \<open>wait_for_completion(timeout)\<close>, on the state at the end of the wait. \<open>None\<close>: with a negative timeout
  it waits for ever. The version without argument waits in the same way.
\<close>

definition wait_for_completion :: "nat \<Rightarrow> int \<Rightarrow> async_client \<Rightarrow> (exception + unit) option" where
  "wait_for_completion a timeout cl =
     (let t = tokens cl ! a in
      if \<not> tok_complete t then (if timeout < 0 then None else Some (Inl (MqttException (-1))))
      else if tok_rc t \<noteq> 0 then Some (Inl (MqttException (tok_rc t)))
      else Some (Inr ()))"

section \<open>Operations\<close>

text \<open>
  The body that the operations share: a token is added, the C library called, and the token removed again
  if the library refuses the request with \<open>rc\<close>. \<open>msgid\<close> is what \<open>MQTTAsync_sendMessage\<close> stores in its options.
\<close>

definition start_request :: "token \<Rightarrow> request \<Rightarrow> int \<Rightarrow> int \<Rightarrow> async_client \<Rightarrow> (exception + nat) \<times> async_client" where
  "start_request t req rc msgid cl =
     (let a = length (tokens cl);
          cl = add_token t cl;
          cl = cl\<lparr>async_log := async_log cl @ [Called req rc]\<rparr>
      in if rc \<noteq> 0 then (Inl (MqttException rc), remove_token a cl)
         else (Inr a, if is_delivery t then cl\<lparr>tokens := (tokens cl)[a := (tokens cl ! a)\<lparr>tok_id := msgid\<rparr>]\<rparr> else cl))"

definition async_connect :: "connect_options \<Rightarrow> bool \<Rightarrow> int \<Rightarrow> async_client \<Rightarrow> (exception + nat) \<times> async_client" where
  "async_connect opts listener rc cl = start_request (new_token [] listener None) (MQTTAsync_connect opts) rc 0 cl"

definition async_disconnect :: "int \<Rightarrow> bool \<Rightarrow> int \<Rightarrow> async_client \<Rightarrow> (exception + nat) \<times> async_client" where
  "async_disconnect timeout listener rc cl = start_request (new_token [] listener None) (MQTTAsync_disconnect timeout) rc 0 cl"

definition async_publish :: "string \<Rightarrow> mqtt_message \<Rightarrow> bool \<Rightarrow> int \<Rightarrow> int \<Rightarrow> async_client \<Rightarrow> (exception + nat) \<times> async_client" where
  "async_publish topic msg listener rc msgid cl =
     start_request (new_token [topic] listener (Some msg)) (MQTTAsync_sendMessage topic msg) rc msgid cl"

definition async_subscribe :: "string \<Rightarrow> int \<Rightarrow> bool \<Rightarrow> int \<Rightarrow> async_client \<Rightarrow> (exception + nat) \<times> async_client" where
  "async_subscribe topic qos listener rc cl = start_request (new_token [topic] listener None) (MQTTAsync_subscribe topic qos) rc 0 cl"

definition async_subscribe_many ::
    "string list \<Rightarrow> int list \<Rightarrow> bool \<Rightarrow> int \<Rightarrow> async_client \<Rightarrow> (exception + nat) \<times> async_client" where
  "async_subscribe_many topics qos listener rc cl =
     (if length topics \<noteq> length qos then (Inl InvalidArgument, cl)
      else start_request (new_token topics listener None) (MQTTAsync_subscribeMany topics qos) rc 0 cl)"

definition async_unsubscribe :: "string \<Rightarrow> bool \<Rightarrow> int \<Rightarrow> async_client \<Rightarrow> (exception + nat) \<times> async_client" where
  "async_unsubscribe topic listener rc cl = start_request (new_token [topic] listener None) (MQTTAsync_unsubscribe topic) rc 0 cl"

definition async_unsubscribe_many :: "string list \<Rightarrow> bool \<Rightarrow> int \<Rightarrow> async_client \<Rightarrow> (exception + nat) \<times> async_client" where
  "async_unsubscribe_many topics listener rc cl =
     start_request (new_token topics listener None) (MQTTAsync_unsubscribeMany topics) rc 0 cl"

definition async_set_callback :: "int \<Rightarrow> async_client \<Rightarrow> (exception + unit) \<times> async_client" where
  "async_set_callback rc cl =
     (let cl = cl\<lparr>userCallback := True\<rparr> in (if rc \<noteq> 0 then Inl (MqttException rc) else Inr (), cl))"

definition get_pending_delivery_token :: "int \<Rightarrow> async_client \<Rightarrow> nat option" where
  "get_pending_delivery_token msgID cl =
     (if 0 < msgID then find (\<lambda>a. tok_id (tokens cl ! a) = msgID) (pendingDeliveryTokens cl) else None)"

definition get_pending_delivery_tokens :: "async_client \<Rightarrow> nat list" where
  "get_pending_delivery_tokens cl = filter (\<lambda>a. 0 < tok_id (tokens cl ! a)) (pendingDeliveryTokens cl)"

section \<open>Every request is kept until it is answered\<close>

text \<open>
  The client as a machine. An event is a request of the application, with the answer that the C library
  gives at once, or a callback of the library. The library calls back once, and only for a request that
  it has accepted: \<open>answers_once\<close>.
\<close>

datatype client_event =
    Issue request bool int int
  | Succeeded nat "int option"
  | Failed nat "(int \<times> int) option"

definition request_token :: "request \<Rightarrow> bool \<Rightarrow> token" where
  "request_token req listener = (case req of
     MQTTAsync_connect _ \<Rightarrow> new_token [] listener None
   | MQTTAsync_disconnect _ \<Rightarrow> new_token [] listener None
   | MQTTAsync_sendMessage topic msg \<Rightarrow> new_token [topic] listener (Some msg)
   | MQTTAsync_subscribe topic _ \<Rightarrow> new_token [topic] listener None
   | MQTTAsync_subscribeMany topics _ \<Rightarrow> new_token topics listener None
   | MQTTAsync_unsubscribe topic \<Rightarrow> new_token [topic] listener None
   | MQTTAsync_unsubscribeMany topics \<Rightarrow> new_token topics listener None)"

definition issue :: "request \<Rightarrow> bool \<Rightarrow> int \<Rightarrow> int \<Rightarrow> async_client \<Rightarrow> (exception + nat) \<times> async_client" where
  "issue req listener rc msgid cl = (case req of
     MQTTAsync_connect opts \<Rightarrow> async_connect opts listener rc cl
   | MQTTAsync_disconnect timeout \<Rightarrow> async_disconnect timeout listener rc cl
   | MQTTAsync_sendMessage topic msg \<Rightarrow> async_publish topic msg listener rc msgid cl
   | MQTTAsync_subscribe topic qos \<Rightarrow> async_subscribe topic qos listener rc cl
   | MQTTAsync_subscribeMany topics qos \<Rightarrow> async_subscribe_many topics qos listener rc cl
   | MQTTAsync_unsubscribe topic \<Rightarrow> async_unsubscribe topic listener rc cl
   | MQTTAsync_unsubscribeMany topics \<Rightarrow> async_unsubscribe_many topics listener rc cl)"

fun well_formed :: "client_event \<Rightarrow> bool" where
  "well_formed (Issue (MQTTAsync_subscribeMany topics qos) _ _ _) \<longleftrightarrow> length topics = length qos"
| "well_formed _ \<longleftrightarrow> True"

text \<open>The result of a step is what is added to the log.\<close>

fun client_step :: "async_client \<Rightarrow> client_event \<Rightarrow> (notice list \<times> async_client) option" where
  "client_step cl ev =
     (let cl' = (case ev of
        Issue req listener rc msgid \<Rightarrow> snd (issue req listener rc msgid cl)
      | Succeeded a rsp \<Rightarrow> token_on_success a rsp cl
      | Failed a rsp \<Rightarrow> token_on_failure a rsp cl)
      in Some (drop (length (async_log cl)) (async_log cl'), cl'))"

fun answers_once :: "nat \<Rightarrow> nat set \<Rightarrow> client_event list \<Rightarrow> bool" where
  "answers_once n A [] \<longleftrightarrow> True"
| "answers_once n A (Issue req listener rc msgid # evs) \<longleftrightarrow>
     well_formed (Issue req listener rc msgid) \<and> answers_once (Suc n) (if rc = 0 then insert n A else A) evs"
| "answers_once n A (Succeeded a rsp # evs) \<longleftrightarrow> a \<in> A \<and> answers_once n (A - {a}) evs"
| "answers_once n A (Failed a rsp # evs) \<longleftrightarrow> a \<in> A \<and> answers_once n (A - {a}) evs"

text \<open>
  The specification: the requests that are open, in the order in which they were made, and what every request of the
  past reports of itself: its message id, the code of its result, and whether it is complete. A message that wants
  acknowledgements is reported as complete once, when its request leaves the open ones, or at once if it is refused.
\<close>

record open_requests =
  or_open :: "(nat \<times> token) list"
  or_reports :: "(int \<times> int \<times> bool) list"
  or_callback :: bool

definition token_report :: "token \<Rightarrow> int \<times> int \<times> bool" where
  "token_report t = (tok_id t, tok_rc t, tok_complete t)"

text \<open>The message id that the C library gives to an accepted message; other requests have none.\<close>

definition request_msgid :: "request \<Rightarrow> int \<Rightarrow> int" where
  "request_msgid req msgid = (case req of MQTTAsync_sendMessage _ _ \<Rightarrow> msgid | _ \<Rightarrow> 0)"

definition completion :: "bool \<Rightarrow> nat \<Rightarrow> token \<Rightarrow> notice list" where
  "completion cb a t = (if cb \<and> confirms t then [DeliveryComplete a] else [])"

fun open_step :: "open_requests \<Rightarrow> client_event \<Rightarrow> notice list \<times> open_requests" where
  "open_step q (Issue req listener rc msgid) =
     (let a = length (or_reports q); t = request_token req listener in
      if rc \<noteq> 0 then (Called req rc # completion (or_callback q) a t, q\<lparr>or_reports := or_reports q @ [(0, 0, False)]\<rparr>)
      else ([Called req rc],
        q\<lparr>or_open := or_open q @ [(a, t)], or_reports := or_reports q @ [(request_msgid req msgid, 0, False)]\<rparr>))"
| "open_step q (Succeeded a rsp) =
     (let t = the (map_of (or_open q) a) in
      ((if tok_listener t then [ListenerSuccess a] else []) @ completion (or_callback q) a t,
       q\<lparr>or_open := filter (\<lambda>(b, _). b \<noteq> a) (or_open q),
         or_reports := (or_reports q)[a := (case rsp of None \<Rightarrow> (0, 0, True) | Some i \<Rightarrow> (i, 0, True))]\<rparr>))"
| "open_step q (Failed a rsp) =
     (let t = the (map_of (or_open q) a) in
      ((if tok_listener t then [ListenerFailure a] else []) @ completion (or_callback q) a t,
       q\<lparr>or_open := filter (\<lambda>(b, _). b \<noteq> a) (or_open q),
         or_reports := (or_reports q)[a := (case rsp of None \<Rightarrow> (0, -1, True) | Some (i, code) \<Rightarrow> (i, code, True))]\<rparr>))"

definition tracks :: "async_client \<Rightarrow> open_requests \<Rightarrow> bool" where
  "tracks cl q \<longleftrightarrow>
     or_reports q = map token_report (tokens cl) \<and> or_callback q = userCallback cl \<and>
     distinct (map fst (or_open q)) \<and>
     pendingTokens cl = map fst (filter (\<lambda>(a, t). \<not> is_delivery t) (or_open q)) \<and>
     pendingDeliveryTokens cl = map fst (filter (\<lambda>(a, t). is_delivery t) (or_open q)) \<and>
     (\<forall>(a, t)\<in>set (or_open q). a < length (tokens cl) \<and> \<not> tok_complete (tokens cl ! a) \<and>
        tok_listener (tokens cl ! a) = tok_listener t \<and> tok_message (tokens cl ! a) = tok_message t)"

definition client_ok :: "client_event list \<Rightarrow> async_client \<Rightarrow> bool" where
  "client_ok evs cl \<longleftrightarrow> answers_once (length (tokens cl)) (set (pendingTokens cl) \<union> set (pendingDeliveryTokens cl)) evs"

lemma issue_starts:
  "well_formed (Issue req listener rc msgid) \<Longrightarrow>
   issue req listener rc msgid cl = start_request (request_token req listener) req rc (request_msgid req msgid) cl"
  by (cases req) (auto simp: issue_def request_token_def request_msgid_def async_connect_def async_disconnect_def async_publish_def
      async_subscribe_def async_subscribe_many_def async_unsubscribe_def async_unsubscribe_many_def)

lemma request_token_fresh: "\<not> tok_complete (request_token req listener)" "tok_listener (request_token req listener) = listener"
  by (cases req; simp add: request_token_def new_token_def)+

lemma request_token_report: "token_report (request_token req listener) = (0, 0, False)"
  by (cases req) (simp_all add: request_token_def new_token_def token_report_def)

lemma request_msgid_none: "\<not> is_delivery (request_token req listener) \<Longrightarrow> request_msgid req msgid = 0"
  by (cases req) (simp_all add: request_token_def request_msgid_def new_token_def is_delivery_def)

lemma confirms_delivery: "confirms t \<Longrightarrow> is_delivery t"
  by (auto simp: confirms_def is_delivery_def split: option.splits)

lemma tracks_fresh: "tracks cl q \<Longrightarrow> length (tokens cl) \<notin> fst ` set (or_open q)"
  unfolding tracks_def by fastforce

lemma tracks_pending: "tracks cl q \<Longrightarrow> set (pendingTokens cl) \<union> set (pendingDeliveryTokens cl) = fst ` set (or_open q)"
  unfolding tracks_def by force

text \<open>A request is refused: the token is forgotten again.\<close>

lemma start_refused:
  assumes "tracks cl q" "rc \<noteq> 0" "cl' = snd (start_request t req rc m cl)"
  shows "tracks cl' (q\<lparr>or_reports := or_reports q @ [token_report t]\<rparr>) \<and>
    async_log cl' = async_log cl @ Called req rc # completion (or_callback q) (length (or_reports q)) t \<and>
    length (tokens cl') = Suc (length (tokens cl)) \<and>
    pendingTokens cl' = pendingTokens cl \<and> pendingDeliveryTokens cl' = pendingDeliveryTokens cl"
proof -
  have f: "length (tokens cl) \<notin> set (pendingTokens cl)" "length (tokens cl) \<notin> set (pendingDeliveryTokens cl)"
    using tracks_fresh [OF assms(1)] tracks_pending [OF assms(1)] by blast+
  have n: "a < length (tokens cl) \<Longrightarrow> (tokens cl @ [t]) ! a = tokens cl ! a" for a by (simp add: nth_append)
  show ?thesis
  proof (cases "is_delivery t")
    case True
    then have "cl' = cl\<lparr>tokens := tokens cl @ [t],
        async_log := async_log cl @ Called req rc # completion (userCallback cl) (length (tokens cl)) t\<rparr>"
      using assms(2) f by (simp add: assms(3) start_request_def add_token_def remove_token_def Let_def completion_def remove1_append)
    with assms(1) show ?thesis by (auto simp: tracks_def n)
  next
    case False
    then have "cl' = cl\<lparr>tokens := tokens cl @ [t], async_log := async_log cl @ [Called req rc]\<rparr>" "\<not> confirms t"
      using assms(2) f confirms_delivery
      by (auto simp: assms(3) start_request_def add_token_def remove_token_def Let_def remove1_append)
    with assms(1) show ?thesis by (auto simp: tracks_def n completion_def)
  qed
qed

lemma start_accepted:
  assumes "tracks cl q" "token_report t = (0, 0, False)" "cl' = snd (start_request t req 0 m cl)" "\<not> is_delivery t \<longrightarrow> m = 0"
  shows "tracks cl' (q\<lparr>or_open := or_open q @ [(length (or_reports q), t)], or_reports := or_reports q @ [(m, 0, False)]\<rparr>) \<and>
    async_log cl' = async_log cl @ [Called req 0] \<and> length (tokens cl') = Suc (length (tokens cl))"
proof -
  have n: "a < length (tokens cl) \<Longrightarrow> (tokens cl @ [u]) ! a = tokens cl ! a" for a u by (simp add: nth_append)
  have "cl' = (if is_delivery t
      then cl\<lparr>tokens := tokens cl @ [t\<lparr>tok_id := m\<rparr>], async_log := async_log cl @ [Called req 0],
        pendingDeliveryTokens := pendingDeliveryTokens cl @ [length (tokens cl)]\<rparr>
      else cl\<lparr>tokens := tokens cl @ [t], async_log := async_log cl @ [Called req 0],
        pendingTokens := pendingTokens cl @ [length (tokens cl)]\<rparr>)"
    by (simp add: assms(3) start_request_def add_token_def Let_def)
  with assms(1,2,4) tracks_fresh [OF assms(1)] show ?thesis by (auto simp: tracks_def n token_report_def)
qed

text \<open>
  A callback: the token is marked, its listener called, and the token removed; \<open>nt\<close> is the notice for the
  listener.
\<close>

lemma callback_step:
  assumes t: "tracks cl q" "a \<in> fst ` set (or_open q)"
    and upd: "tok_listener t' = tok_listener (tokens cl ! a)" "tok_message t' = tok_message (tokens cl ! a)"
    and cl1: "cl1 = cl\<lparr>tokens := (tokens cl)[a := t'], async_log := async_log cl @ (if tok_listener (tokens cl ! a) then [nt] else [])\<rparr>"
    and cl': "cl' = remove_token a cl1"
  shows "tracks cl' (q\<lparr>or_open := filter (\<lambda>(b, _). b \<noteq> a) (or_open q), or_reports := (or_reports q)[a := token_report t']\<rparr>) \<and>
    async_log cl' = async_log cl @ (let t = the (map_of (or_open q) a) in
      (if tok_listener t then [nt] else []) @ completion (or_callback q) a t) \<and>
    length (tokens cl') = length (tokens cl)"
proof -
  obtain t0 where t0: "(a, t0) \<in> set (or_open q)" using t(2) by force
  have d: "distinct (map fst (or_open q))" using t(1) by (simp add: tracks_def)
  have m: "map_of (or_open q) a = Some t0" using t0 d by simp
  have uniq: "(a, u) \<in> set (or_open q) \<Longrightarrow> u = t0" for u using map_of_is_SomeI [OF d, of a u] m by simp
  have p: "a < length (tokens cl)" "tok_listener (tokens cl ! a) = tok_listener t0" "tok_message (tokens cl ! a) = tok_message t0"
    using t(1) t0 by (auto simp: tracks_def)
  then have c: "confirms t' = confirms t0" "is_delivery t0 = is_delivery t'" using upd by (simp_all add: confirms_def is_delivery_def)
  have fr: "remove1 a (map fst (filter P (or_open q))) = map fst (filter P (filter (\<lambda>(b, _). b \<noteq> a) (or_open q)))" for P
  proof -
    have "distinct (map fst (filter P (or_open q)))" using d by (rule distinct_map_filter)
    then have "remove1 a (map fst (filter P (or_open q))) = filter (\<lambda>b. b \<noteq> a) (map fst (filter P (or_open q)))"
      by (simp add: distinct_remove1_removeAll removeAll_filter_not_eq eq_commute)
    also have "\<dots> = map fst (filter (\<lambda>(b, _). b \<noteq> a) (filter P (or_open q)))" by (simp add: filter_map o_def case_prod_beta)
    finally show ?thesis by (simp add: filter_filter conj_commute)
  qed
  have notin: "P (a, t0) = False \<Longrightarrow> map fst (filter P (filter (\<lambda>(b, _). b \<noteq> a) (or_open q))) = map fst (filter P (or_open q))" for P
    by (rule arg_cong [of _ _ "map fst"]) (auto simp: filter_filter intro!: filter_cong dest: uniq)
  have pend: "a \<in> set (pendingDeliveryTokens cl) \<longleftrightarrow> is_delivery t0"
  proof -
    have "pendingDeliveryTokens cl = map fst (filter (\<lambda>(a, t). is_delivery t) (or_open q))" using t(1) by (simp add: tracks_def)
    then have "a \<in> set (pendingDeliveryTokens cl) \<longleftrightarrow> (\<exists>u. (a, u) \<in> set (or_open q) \<and> is_delivery u)" by force
    with t0 uniq show ?thesis by blast
  qed
  show ?thesis
  proof (cases "is_delivery t0")
    case True
    with pend c p have e: "cl' = cl\<lparr>tokens := (tokens cl)[a := t'],
        async_log := async_log cl @ (if tok_listener t0 then [nt] else []) @ completion (userCallback cl) a t0,
        pendingDeliveryTokens := remove1 a (pendingDeliveryTokens cl)\<rparr>"
      by (simp add: cl' cl1 remove_token_def Let_def completion_def)
    show ?thesis using t(1) True m fr [of "\<lambda>(a, t). is_delivery t"] notin [of "\<lambda>(a, t). \<not> is_delivery t"] p
      unfolding e by (auto simp: tracks_def distinct_map_filter nth_list_update map_update Let_def)
  next
    case False
    then have nc: "\<not> confirms t0" using confirms_delivery by blast
    with False pend p have e: "cl' = cl\<lparr>tokens := (tokens cl)[a := t'],
        async_log := async_log cl @ (if tok_listener t0 then [nt] else []), pendingTokens := remove1 a (pendingTokens cl)\<rparr>"
      by (simp add: cl' cl1 remove_token_def)
    show ?thesis using t(1) False m nc fr [of "\<lambda>(a, t). \<not> is_delivery t"] notin [of "\<lambda>(a, t). is_delivery t"] p
      unfolding e by (auto simp: tracks_def distinct_map_filter nth_list_update map_update Let_def completion_def)
  qed
qed

lemma on_success_step:
  assumes "tracks cl q" "a \<in> fst ` set (or_open q)"
  shows "client_step cl (Succeeded a rsp) = Some (fst (open_step q (Succeeded a rsp)), token_on_success a rsp cl) \<and>
    tracks (token_on_success a rsp cl) (snd (open_step q (Succeeded a rsp))) \<and>
    length (tokens (token_on_success a rsp cl)) = length (tokens cl)"
proof -
  let ?t = "(tokens cl ! a)\<lparr>tok_id := (case rsp of Some i \<Rightarrow> i | None \<Rightarrow> 0), tok_rc := 0, tok_complete := True\<rparr>"
  have r: "token_report ?t = (case rsp of None \<Rightarrow> (0, 0, True) | Some i \<Rightarrow> (i, 0, True))" by (cases rsp) (simp_all add: token_report_def)
  show ?thesis
    using callback_step [OF assms _ _ refl, where nt = "ListenerSuccess a" and cl' = "token_on_success a rsp cl" and t' = ?t] r
    by (simp add: token_on_success_def Let_def)
qed

lemma on_failure_step:
  assumes "tracks cl q" "a \<in> fst ` set (or_open q)"
  shows "client_step cl (Failed a rsp) = Some (fst (open_step q (Failed a rsp)), token_on_failure a rsp cl) \<and>
    tracks (token_on_failure a rsp cl) (snd (open_step q (Failed a rsp))) \<and>
    length (tokens (token_on_failure a rsp cl)) = length (tokens cl)"
proof -
  obtain i code where ic: "(case rsp of Some (i, code) \<Rightarrow> (i, code) | None \<Rightarrow> (0, -1)) = (i, code)" by fastforce
  let ?t = "(tokens cl ! a)\<lparr>tok_id := i, tok_rc := code, tok_complete := True\<rparr>"
  have r: "token_report ?t = (case rsp of None \<Rightarrow> (0, -1, True) | Some (i, code) \<Rightarrow> (i, code, True))"
    using ic by (cases rsp) (auto simp: token_report_def)
  show ?thesis
    using callback_step [OF assms _ _ refl, where nt = "ListenerFailure a" and cl' = "token_on_failure a rsp cl" and t' = ?t] r
    by (simp add: token_on_failure_def ic Let_def)
qed

interpretation async: simulation tracks client_step open_step client_ok
proof
  fix cl q ev evs
  assume t: "tracks cl q" and ok: "client_ok (ev # evs) cl"
  note pend = tracks_pending [OF t]
  show "\<exists>cl'. client_step cl ev = Some (fst (open_step q ev), cl') \<and> tracks cl' (snd (open_step q ev)) \<and> client_ok evs cl'"
  proof (cases ev)
    case (Issue req listener rc msgid)
    then have wf: "well_formed (Issue req listener rc msgid)" using ok by (simp add: client_ok_def)
    note m = issue_starts [OF wf, of cl]
    show ?thesis
    proof (cases "rc = 0")
      case True
      note a = start_accepted [OF t request_token_report [of req listener] refl impI [OF request_msgid_none [of req listener msgid]], where req = req]
      have "length (or_reports q) = length (tokens cl)" using t by (simp add: tracks_def)
      with a True Issue m ok show ?thesis
        using tracks_pending [OF a [THEN conjunct1]] pend by (simp add: client_ok_def Let_def)
    next
      case False
      note r = start_refused [OF t False refl, of "request_token req listener" req "request_msgid req msgid"]
      with False Issue m ok show ?thesis by (simp add: client_ok_def request_token_report Let_def)
    qed
  next
    case (Succeeded a rsp)
    with ok pend have a: "a \<in> fst ` set (or_open q)" by (auto simp: client_ok_def)
    note s = on_success_step [OF t a, of rsp]
    then have "fst ` set (or_open (snd (open_step q ev))) = fst ` set (or_open q) - {a}" using Succeeded by (force simp: Let_def)
    with s Succeeded ok pend tracks_pending [OF s [THEN conjunct2, THEN conjunct1]] show ?thesis by (simp add: client_ok_def)
  next
    case (Failed a rsp)
    with ok pend have a: "a \<in> fst ` set (or_open q)" by (auto simp: client_ok_def)
    note s = on_failure_step [OF t a, of rsp]
    then have "fst ` set (or_open (snd (open_step q ev))) = fst ` set (or_open q) - {a}" using Failed by (force simp: Let_def)
    with s Failed ok pend tracks_pending [OF s [THEN conjunct2, THEN conjunct1]] show ?thesis by (simp add: client_ok_def)
  qed
qed

text \<open>
  C16. The client tracks its requests and reports their results: for every sequence of requests, refused or accepted,
  and callbacks of the C library, which calls back once for each request that it accepted, the application sees the
  calls that the specification lists. In the end the client holds exactly the tokens of the requests that are still
  open, each once and in the order of the requests, so no token is dropped while the library has its address, and none
  is kept. A token reports what the specification says: not complete, with the message id that the library gave to it,
  as long as its request is open; once the library has called back, complete, with the code of the result and the token
  that the callback had, the values \<open>wait_for_completion\<close> returns. A message with acknowledgements is reported to
  \<open>delivery_complete\<close> once, also when its delivery failed or its request was refused.
\<close>

theorem async_client_refines:
  assumes "answers_once 0 {} evs" "cl = new_async_client\<lparr>userCallback := cb\<rparr>"
    "q = \<lparr>or_open = [], or_reports = [], or_callback = cb\<rparr>"
  shows "\<exists>cl'. run_steps client_step cl evs = Some (fst (run_spec open_step q evs), cl') \<and>
    pendingTokens cl' @ pendingDeliveryTokens cl' =
      map fst (filter (\<lambda>(a, t). \<not> is_delivery t) (or_open (snd (run_spec open_step q evs))) @
               filter (\<lambda>(a, t). is_delivery t) (or_open (snd (run_spec open_step q evs)))) \<and>
    distinct (pendingTokens cl' @ pendingDeliveryTokens cl') \<and>
    map token_report (tokens cl') = or_reports (snd (run_spec open_step q evs)) \<and>
    (\<forall>a\<in>set (pendingTokens cl' @ pendingDeliveryTokens cl'). \<not> tok_complete (tokens cl' ! a))"
proof -
  have "tracks cl q" "client_ok evs cl" using assms by (simp_all add: tracks_def client_ok_def new_async_client_def)
  from async.run_simulates [OF this] obtain cl' where
    r: "run_steps client_step cl evs = Some (fst (run_spec open_step q evs), cl')" and
    t: "tracks cl' (snd (run_spec open_step q evs))" by blast
  let ?open = "or_open (snd (run_spec open_step q evs))"
  from t have p: "pendingTokens cl' = map fst (filter (\<lambda>(a, t). \<not> is_delivery t) ?open)"
    "pendingDeliveryTokens cl' = map fst (filter (\<lambda>(a, t). is_delivery t) ?open)"
    and d: "distinct (map fst ?open)" and c: "\<forall>(a, t)\<in>set ?open. \<not> tok_complete (tokens cl' ! a)"
    and reports: "map token_report (tokens cl') = or_reports (snd (run_spec open_step q evs))"
    by (auto simp: tracks_def)
  have "u = v" if "(a, u) \<in> set ?open" "(a, v) \<in> set ?open" for a u v
    using map_of_is_SomeI [OF d that(1)] map_of_is_SomeI [OF d that(2)] by simp
  then have "set (pendingTokens cl') \<inter> set (pendingDeliveryTokens cl') = {}" unfolding p by fastforce
  with p d have "distinct (pendingTokens cl' @ pendingDeliveryTokens cl')" by (simp add: distinct_map_filter)
  moreover have "\<forall>a\<in>set (pendingTokens cl' @ pendingDeliveryTokens cl'). \<not> tok_complete (tokens cl' ! a)"
    using c unfolding p by auto
  ultimately show ?thesis using r p reports by auto
qed

definition example_events :: "client_event list" where
  "example_events =
     [Issue (MQTTAsync_subscribe ''a'' 1) False 0 0,
      Issue (MQTTAsync_sendMessage ''t'' \<lparr>msg_payload = ''x'', msg_qos = 1, msg_retained = False\<rparr>) True 0 7,
      Succeeded 1 (Some 7),
      Issue (MQTTAsync_sendMessage ''t'' \<lparr>msg_payload = ''y'', msg_qos = 1, msg_retained = False\<rparr>) False (-3) 0,
      Issue (MQTTAsync_unsubscribe ''a'') False 0 0, Failed 3 (Some (2, -3))]"

theorem async_client_refines_witness:
  "\<exists>cl'. run_steps client_step (new_async_client\<lparr>userCallback := True\<rparr>) example_events =
      Some ([[Called (MQTTAsync_subscribe ''a'' 1) 0],
             [Called (MQTTAsync_sendMessage ''t'' \<lparr>msg_payload = ''x'', msg_qos = 1, msg_retained = False\<rparr>) 0],
             [ListenerSuccess 1, DeliveryComplete 1],
             [Called (MQTTAsync_sendMessage ''t'' \<lparr>msg_payload = ''y'', msg_qos = 1, msg_retained = False\<rparr>) (-3), DeliveryComplete 2],
             [Called (MQTTAsync_unsubscribe ''a'') 0], []], cl') \<and>
    pendingTokens cl' @ pendingDeliveryTokens cl' = [0] \<and>
    map token_report (tokens cl') = [(0, 0, False), (7, 0, True), (0, 0, False), (2, -3, True)]"
  using async_client_refines [of example_events "new_async_client\<lparr>userCallback := True\<rparr>" True
      "\<lparr>or_open = [], or_reports = [], or_callback = True\<rparr>"]
  by (simp add: example_events_def request_token_def request_msgid_def new_token_def completion_def confirms_def is_delivery_def Let_def)

end
