(* ===== verification/Topics.thy ===== *)
theory Topics
  imports Json "HOL-Library.Sublist"
begin

text \<open>
  Commands from the platform: the operations of \<open>std::string\<close> that the device client uses on topics, the
  part of \<open>IOTF_Callback::message_arrived\<close> (\<open>src/IOTP_Client.cpp\<close>) that takes a command's topic apart, and
  the topics that the device and the gateway client build.

  Positions in a string have the type \<open>std::string::size_type\<close>, 64 bits on the platform, whose largest
  value \<open>npos\<close> means that nothing was found; arithmetic on it wraps around.
\<close>

section \<open>Strings\<close>

abbreviation (input) npos :: "64 word" where "npos \<equiv> -1"

fun first_at :: "string \<Rightarrow> string \<Rightarrow> nat option" where
  "first_at pat [] = (if pat = [] then Some 0 else None)"
| "first_at pat (c # s) = (if take (length pat) (c # s) = pat then Some 0 else map_option Suc (first_at pat s))"

definition str_find :: "string \<Rightarrow> string \<Rightarrow> 64 word \<Rightarrow> 64 word" where
  "str_find s pat pos = (if length s < unat pos then npos
     else case first_at pat (drop (unat pos) s) of None \<Rightarrow> npos | Some i \<Rightarrow> pos + of_nat i)"

definition str_find_first_of :: "string \<Rightarrow> char \<Rightarrow> 64 word \<Rightarrow> 64 word" where
  "str_find_first_of s c pos = (if length s < unat pos then npos
     else case find_index (\<lambda>x. x = c) (drop (unat pos) s) of None \<Rightarrow> npos | Some i \<Rightarrow> pos + of_nat i)"

definition substr :: "string \<Rightarrow> 64 word \<Rightarrow> 64 word \<Rightarrow> exception + string" where
  "substr s pos n = (if length s < unat pos then Inl OutOfRange else Inr (take (unat n) (drop (unat pos) s)))"

section \<open>Commands\<close>

record Command =
  cmd_deviceType :: string
  cmd_deviceId :: string
  cmd_commandName :: string
  cmd_format :: string
  cmd_payload :: string

text \<open>The end of \<open>message_arrived\<close>, for a topic without handler.\<close>

definition command_of_topic :: "string \<Rightarrow> string \<Rightarrow> exception + Command" where
  "command_of_topic topic payload =
     (let pos = str_find topic ''type/'' 0;
          nxtpos = str_find_first_of topic (CHR ''/'') (pos + 5) in
      and_then (substr topic (pos + 5) (nxtpos - (pos + 5))) (\<lambda>deviceType.
      let pos = str_find topic ''id/'' 0;
          nxtpos = str_find_first_of topic (CHR ''/'') (pos + 3) in
      and_then (substr topic (pos + 3) (nxtpos - (pos + 3))) (\<lambda>deviceId.
      let pos = str_find topic ''cmd/'' 0;
          nxtpos = str_find_first_of topic (CHR ''/'') (pos + 4) in
      and_then (substr topic (pos + 4) (nxtpos - (pos + 4))) (\<lambda>command.
      let pos = str_find topic ''fmt/'' (nxtpos + 1);
          nxtpos = str_find_first_of topic (CHR ''/'') (pos + 4) in
      and_then (substr topic (pos + 4) nxtpos) (\<lambda>format.
      Inr \<lparr>cmd_deviceType = deviceType, cmd_deviceId = deviceId, cmd_commandName = command, cmd_format = format,
        cmd_payload = payload\<rparr>)))))"

section \<open>Topics of the clients\<close>

text \<open>
  \<open>commandTopic\<close> of the device client, \<open>subscribeGatewayCommands\<close> and \<open>subscribeDeviceCommands\<close> of the
  gateway client, and the topics of published events.
\<close>

definition commandTopic :: string where
  "commandTopic = ''iot-2/cmd/+/fmt/+''"

definition gateway_command_topic :: "string \<Rightarrow> string \<Rightarrow> string" where
  "gateway_command_topic deviceType deviceId = ''iot-2/type/'' @ deviceType @ ''/id/'' @ deviceId @ ''/cmd/+/fmt/+''"

definition device_event_topic :: "string \<Rightarrow> string \<Rightarrow> string" where
  "device_event_topic eventType eventFormat = ''iot-2/evt/'' @ eventType @ ''/fmt/'' @ eventFormat"

definition gateway_event_topic :: "string \<Rightarrow> string \<Rightarrow> string \<Rightarrow> string \<Rightarrow> string" where
  "gateway_event_topic deviceType deviceId eventType eventFormat =
     ''iot-2/type/'' @ deviceType @ ''/id/'' @ deviceId @ ''/evt/'' @ eventType @ ''/fmt/'' @ eventFormat"

text \<open>
  The levels of a topic, and the topics that a subscription to a filter with single level wildcards
  delivers.
\<close>

fun topic_levels :: "string \<Rightarrow> string list" where
  "topic_levels [] = [[]]"
| "topic_levels (c # s) = (if c = CHR ''/'' then [] # topic_levels s
     else case topic_levels s of l # ls \<Rightarrow> (c # l) # ls | [] \<Rightarrow> [[c]])"

definition filter_matches :: "string \<Rightarrow> string \<Rightarrow> bool" where
  "filter_matches flt topic \<longleftrightarrow>
     list_all2 (\<lambda>f l. f = ''+'' \<or> f = l) (topic_levels flt) (topic_levels topic)"

definition no_slash :: "string \<Rightarrow> bool" where
  "no_slash s \<longleftrightarrow> CHR ''/'' \<notin> set s"

lemma topic_levels_nonempty: "topic_levels s \<noteq> []"
  by (induction s) (auto split: list.splits)

lemma topic_levels_level: "no_slash l \<Longrightarrow> topic_levels l = [l]"
  by (induction l) (auto simp: no_slash_def)

lemma topic_levels_Cons: "no_slash l \<Longrightarrow> topic_levels (l @ CHR ''/'' # s) = l # topic_levels s"
  by (induction l) (auto simp: no_slash_def)

text \<open>A topic is put together again from its levels.\<close>

fun join_levels :: "string list \<Rightarrow> string" where
  "join_levels [] = []"
| "join_levels [l] = l"
| "join_levels (l # ls) = l @ CHR ''/'' # join_levels ls"

lemma join_Cons_char: "ls \<noteq> [] \<Longrightarrow> join_levels ((c # l) # ls) = c # join_levels (l # ls)"
  by (cases ls) auto

lemma join_topic_levels: "join_levels (topic_levels s) = s \<and> (\<forall>l\<in>set (topic_levels s). no_slash l)"
proof (induction s)
  case (Cons c s)
  obtain l ls where l: "topic_levels s = l # ls" using topic_levels_nonempty [of s] by (cases "topic_levels s") auto
  with Cons have "join_levels (l # ls) = s" "\<forall>l\<in>set (l # ls). no_slash l" by auto
  moreover have "join_levels ((c # l) # ls) = c # join_levels (l # ls)" by (cases ls) auto
  ultimately show ?case using l by (simp add: no_slash_def)
qed (simp add: no_slash_def)

section \<open>Finding levels\<close>

text \<open>The first place where a level ends with a word.\<close>

lemma slash_split: "no_slash a \<Longrightarrow> no_slash b \<Longrightarrow> a @ CHR ''/'' # s = b @ CHR ''/'' # t \<longleftrightarrow> a = b \<and> s = t"
proof (induction a arbitrary: b)
  case Nil
  then show ?case by (cases b) (auto simp: no_slash_def)
next
  case (Cons x a)
  then show ?case by (cases b) (auto simp: no_slash_def)
qed

lemma take_word_slash:
  assumes "no_slash w" "no_slash l"
  shows "take (length (w @ ''/'')) (l @ CHR ''/'' # rest) = w @ ''/'' \<longleftrightarrow> w = l"
proof
  assume "take (length (w @ ''/'')) (l @ CHR ''/'' # rest) = w @ ''/''"
  then have "l @ CHR ''/'' # rest = (w @ ''/'') @ drop (length (w @ ''/'')) (l @ CHR ''/'' # rest)"
    by (metis append_take_drop_id)
  then have "l @ CHR ''/'' # rest = w @ CHR ''/'' # drop (length (w @ ''/'')) (l @ CHR ''/'' # rest)" by simp
  then show "w = l" by (simp only: slash_split [OF assms(2,1)])
qed simp

lemma first_at_level:
  assumes "no_slash w" "no_slash l"
  shows "first_at (w @ ''/'') (l @ CHR ''/'' # rest) =
    (if suffix w l then Some (length l - length w) else map_option (\<lambda>i. Suc (length l) + i) (first_at (w @ ''/'') rest))"
  using assms(2)
proof (induction l)
  case Nil
  have "take (length (w @ ''/'')) ([] @ CHR ''/'' # rest) = w @ ''/'' \<longleftrightarrow> w = []"
    by (rule take_word_slash [OF assms(1)]) (simp add: no_slash_def)
  then show ?case by (simp add: suffix_def)
next
  case (Cons c l)
  have l: "no_slash l" using Cons.prems by (simp add: no_slash_def)
  have t: "take (length (w @ ''/'')) ((c # l) @ CHR ''/'' # rest) = w @ ''/'' \<longleftrightarrow> w = c # l"
    using assms(1) Cons.prems by (rule take_word_slash)
  show ?case
  proof (cases "suffix w l")
    case True
    then have "length w \<le> length l" by (rule suffix_length_le)
    with True Cons.IH [OF l] t show ?thesis by (auto simp: suffix_Cons Suc_diff_le)
  next
    case False
    with Cons.IH [OF l] t show ?thesis by (auto simp: suffix_Cons option.map_comp o_def)
  qed
qed

lemma first_at_last: "no_slash l \<Longrightarrow> first_at (w @ ''/'') l = None"
proof (induction l)
  case (Cons c l)
  have "CHR ''/'' \<notin> set (take (length (w @ ''/'')) (c # l))" using Cons.prems by (meson in_set_takeD no_slash_def)
  then have "take (length (w @ ''/'')) (c # l) \<noteq> w @ ''/''" by (metis in_set_conv_decomp)
  with Cons show ?case by (simp add: no_slash_def)
qed simp

text \<open>Reading the level that starts at a position, in a topic of the length that MQTT allows.\<close>

lemma unat_small: "n \<le> 65540 \<Longrightarrow> unat (of_nat n :: 64 word) = n"
  by (simp add: unat_of_nat)

lemma find_index_slash: "no_slash l \<Longrightarrow> find_index (\<lambda>x. x = CHR ''/'') (l @ CHR ''/'' # s) = Some (length l)"
  "no_slash l \<Longrightarrow> find_index (\<lambda>x. x = CHR ''/'') l = None"
  by (induction l) (auto simp: no_slash_def)

lemma level_at:
  assumes "topic = pre @ l @ CHR ''/'' # rest" "no_slash l" "length topic \<le> 65535" "k = length pre"
  shows "str_find_first_of topic (CHR ''/'') (of_nat k) = of_nat (k + length l)"
    "substr topic (of_nat k) (of_nat (k + length l) - of_nat k) = Inr l"
proof -
  have k: "unat (of_nat k :: 64 word) = k" "k \<le> length topic" using assms by (simp_all add: unat_small)
  show "str_find_first_of topic (CHR ''/'') (of_nat k) = of_nat (k + length l)"
    using assms k find_index_slash(1) [OF assms(2), of rest] by (simp add: str_find_first_of_def)
  have "unat (of_nat (length l) :: 64 word) = length l" using assms by (simp add: unat_small)
  then show "substr topic (of_nat k) (of_nat (k + length l) - of_nat k) = Inr l"
    using assms k by (simp add: substr_def)
qed

lemma level_last:
  assumes "topic = pre @ l" "no_slash l" "length topic \<le> 65535" "k = length pre"
  shows "str_find_first_of topic (CHR ''/'') (of_nat k) = npos" "substr topic (of_nat k) npos = Inr l"
proof -
  have k: "unat (of_nat k :: 64 word) = k" "k \<le> length topic" using assms by (simp_all add: unat_small)
  show "str_find_first_of topic (CHR ''/'') (of_nat k) = npos"
    using assms k find_index_slash(2) [OF assms(2)] by (simp add: str_find_first_of_def)
  have "unat npos = 2 ^ 64 - 1" by (simp add: unsigned_minus_1_eq_mask mask_eq_exp_minus_1)
  then have "length l \<le> unat npos" using assms by simp
  then show "substr topic (of_nat k) npos = Inr l" using assms k by (simp add: substr_def)
qed

lemma str_find_at:
  assumes "first_at pat (drop k s) = Some i" "k \<le> length s" "length s \<le> 65535"
  shows "str_find s pat (of_nat k) = of_nat (k + i)"
  using assms by (simp add: str_find_def unat_small)

lemma no_slash_simps [simp]:
  "no_slash ''iot-2''" "no_slash ''type''" "no_slash ''id''" "no_slash ''cmd''" "no_slash ''fmt''" "no_slash ''2''" "no_slash ''t-2''"
  by (simp_all add: no_slash_def)

text \<open>The tail of the parse, which command and gateway topics share.\<close>

lemma parse_command_format:
  assumes topic: "topic = pre @ ''cmd/'' @ c @ ''/fmt/'' @ f" and c: "no_slash c" "no_slash f" and len: "length topic \<le> 65535"
    and find: "first_at ''cmd/'' topic = Some (length pre)"
  shows "str_find topic ''cmd/'' 0 + 4 = of_nat (length pre + 4)"
    "str_find_first_of topic (CHR ''/'') (of_nat (length pre + 4)) = of_nat (length pre + 4 + length c)"
    "substr topic (of_nat (length pre + 4)) (of_nat (length pre + 4 + length c) - of_nat (length pre + 4)) = Inr c"
    "str_find topic ''fmt/'' (of_nat (length pre + 4 + length c) + 1) + 4 = of_nat (length pre + length c + 9)"
    "str_find_first_of topic (CHR ''/'') (of_nat (length pre + length c + 9)) = npos"
    "substr topic (of_nat (length pre + length c + 9)) npos = Inr f"
proof -
  show "str_find topic ''cmd/'' 0 + 4 = of_nat (length pre + 4)"
    using str_find_at [of "''cmd/''" 0 topic "length pre"] find len by simp
  have t1: "topic = (pre @ ''cmd/'') @ c @ CHR ''/'' # ''fmt/'' @ f" using topic by simp
  have k: "length pre + 4 = length (pre @ ''cmd/'')" by simp
  show "str_find_first_of topic (CHR ''/'') (of_nat (length pre + 4)) = of_nat (length pre + 4 + length c)"
    by (rule level_at(1) [OF t1 c(1) len k])
  show "substr topic (of_nat (length pre + 4)) (of_nat (length pre + 4 + length c) - of_nat (length pre + 4)) = Inr c"
    by (rule level_at(2) [OF t1 c(1) len k])
  have "topic = (pre @ ''cmd/'' @ c @ ''/'') @ ''fmt/'' @ f" "length (pre @ ''cmd/'' @ c @ ''/'') = length pre + 5 + length c"
    using topic by simp_all
  then have "drop (length pre + 5 + length c) topic = ''fmt/'' @ f" by (metis append_eq_conv_conj)
  then have "first_at ''fmt/'' (drop (length pre + 5 + length c) topic) = Some 0" by simp
  then have "str_find topic ''fmt/'' (of_nat (length pre + 5 + length c)) = of_nat (length pre + 5 + length c + 0)"
    by (rule str_find_at) (use topic len in simp_all)
  then show "str_find topic ''fmt/'' (of_nat (length pre + 4 + length c) + 1) + 4 = of_nat (length pre + length c + 9)"
    by (simp add: algebra_simps)
  have t2: "topic = (pre @ ''cmd/'' @ c @ ''/fmt/'') @ f" using topic by simp
  have k2: "length pre + length c + 9 = length (pre @ ''cmd/'' @ c @ ''/fmt/'')" by simp
  show "str_find_first_of topic (CHR ''/'') (of_nat (length pre + length c + 9)) = npos"
    by (rule level_last(1) [OF t2 c(2) len k2])
  show "substr topic (of_nat (length pre + length c + 9)) npos = Inr f"
    by (rule level_last(2) [OF t2 c(2) len k2])
qed

text \<open>The topics that the subscriptions deliver.\<close>

lemma list_all2_Cons: "list_all2 P (x # xs) ys \<Longrightarrow> \<exists>y ys'. ys = y # ys' \<and> P x y \<and> list_all2 P xs ys'"
  by (cases ys) auto

lemma gateway_topic_levels:
  assumes "filter_matches (gateway_command_topic T I) topic" "no_slash T" "no_slash I" "T \<noteq> ''+''" "I \<noteq> ''+''"
  obtains c f where "topic = ''iot-2/type/'' @ T @ ''/id/'' @ I @ ''/cmd/'' @ c @ ''/fmt/'' @ f" "no_slash c" "no_slash f"
proof -
  have "gateway_command_topic T I = ''iot-2'' @ CHR ''/'' # ''type'' @ CHR ''/'' # T @ CHR ''/'' # ''id'' @ CHR ''/'' # I @ CHR ''/'' #
      ''cmd'' @ CHR ''/'' # ''+'' @ CHR ''/'' # ''fmt'' @ CHR ''/'' # ''+''"
    by (simp add: gateway_command_topic_def)
  then have "topic_levels (gateway_command_topic T I) = [''iot-2'', ''type'', T, ''id'', I, ''cmd'', ''+'', ''fmt'', ''+'']"
    using assms(2,3) by (simp only: topic_levels_Cons no_slash_simps) (simp add: topic_levels_level topic_levels_Cons no_slash_def)
  with assms(1,4,5) obtain c f where "topic_levels topic = [''iot-2'', ''type'', T, ''id'', I, ''cmd'', c, ''fmt'', f]"
    by (fastforce simp: filter_matches_def list_all2_Cons1)
  with join_topic_levels [of topic] that [of c f] show thesis by auto
qed

lemma command_topic_levels:
  assumes "filter_matches commandTopic topic"
  obtains c f where "topic = ''iot-2/cmd/'' @ c @ ''/fmt/'' @ f" "no_slash c" "no_slash f"
proof -
  have "topic_levels commandTopic = [''iot-2'', ''cmd'', ''+'', ''fmt'', ''+'']" by code_simp
  with assms obtain c f where "topic_levels topic = [''iot-2'', ''cmd'', c, ''fmt'', f]"
    by (fastforce simp: filter_matches_def list_all2_Cons1)
  with join_topic_levels [of topic] that [of c f] show thesis by auto
qed

section \<open>Properties\<close>

text \<open>
  A gateway's commands are understood: every topic that the subscription of \<open>subscribeGatewayCommands\<close>
  or \<open>subscribeDeviceCommands\<close> delivers yields the command with the type and the id of the device, the
  command's name, its format and the payload, provided that the type ends neither in \<open>id\<close> nor in
  \<open>cmd\<close> and the id not in \<open>cmd\<close>; no exception is thrown.
\<close>

theorem gateway_command_parsed:
  assumes "filter_matches (gateway_command_topic T I) topic" "no_slash T" "no_slash I" "T \<noteq> ''+''" "I \<noteq> ''+''"
    "\<not> suffix ''id'' T" "\<not> suffix ''cmd'' T" "\<not> suffix ''cmd'' I" "length topic \<le> 65535"
  shows "\<exists>c f. topic = ''iot-2/type/'' @ T @ ''/id/'' @ I @ ''/cmd/'' @ c @ ''/fmt/'' @ f \<and>
    command_of_topic topic payload = Inr \<lparr>cmd_deviceType = T, cmd_deviceId = I, cmd_commandName = c, cmd_format = f, cmd_payload = payload\<rparr>"
proof -
  obtain c f where t: "topic = ''iot-2/type/'' @ T @ ''/id/'' @ I @ ''/cmd/'' @ c @ ''/fmt/'' @ f" "no_slash c" "no_slash f"
    using assms(1-5) by (rule gateway_topic_levels)
  have lv: "topic = ''iot-2'' @ CHR ''/'' # ''type'' @ CHR ''/'' # T @ CHR ''/'' # ''id'' @ CHR ''/'' # I @ CHR ''/'' #
      ''cmd'' @ CHR ''/'' # c @ CHR ''/'' # ''fmt'' @ CHR ''/'' # f" using t(1) by simp
  note len = assms(9)
  have s: "\<not> suffix ''type'' ''iot-2''" "\<not> suffix ''id'' ''iot-2''" "\<not> suffix ''cmd'' ''iot-2''"
    "\<not> suffix ''id'' ''type''" "\<not> suffix ''cmd'' ''type''" "\<not> suffix ''cmd'' ''id''" by (simp_all add: suffix_def)
  have type: "first_at ''type/'' topic = Some 6"
    using first_at_level [of "''type''" "''iot-2''"] first_at_level [of "''type''" "''type''"] s unfolding lv by simp
  have idp: "first_at ''id/'' topic = Some (length T + 12)"
    using first_at_level [of "''id''" "''iot-2''"] first_at_level [of "''id''" "''type''"] first_at_level [of "''id''" T]
      first_at_level [of "''id''" "''id''"] s assms(2,6) unfolding lv by simp
  have cmd: "first_at ''cmd/'' topic = Some (length (''iot-2/type/'' @ T @ ''/id/'' @ I @ ''/''))"
    using first_at_level [of "''cmd''" "''iot-2''"] first_at_level [of "''cmd''" "''type''"] first_at_level [of "''cmd''" T]
      first_at_level [of "''cmd''" "''id''"] first_at_level [of "''cmd''" I] first_at_level [of "''cmd''" "''cmd''"]
      s assms(2,3,7,8) unfolding lv by simp
  have tc: "topic = (''iot-2/type/'' @ T @ ''/id/'' @ I @ ''/'') @ ''cmd/'' @ c @ ''/fmt/'' @ f" using t(1) by simp
  note pc = parse_command_format [OF tc t(2,3) len cmd]
  have p1: "str_find topic ''type/'' 0 + 5 = of_nat 11" using str_find_at [of "''type/''" 0 topic 6] type len by simp
  have p2: "str_find topic ''id/'' 0 + 3 = of_nat (length T + 15)" using str_find_at [of "''id/''" 0 topic "length T + 12"] idp len by simp
  have t1: "topic = ''iot-2/type/'' @ T @ CHR ''/'' # ''id/'' @ I @ ''/cmd/'' @ c @ ''/fmt/'' @ f" using t(1) by simp
  have t2: "topic = (''iot-2/type/'' @ T @ ''/id/'') @ I @ CHR ''/'' # ''cmd/'' @ c @ ''/fmt/'' @ f" using t(1) by simp
  have k1: "(11 :: nat) = length ''iot-2/type/''" and k2: "length T + 15 = length (''iot-2/type/'' @ T @ ''/id/'')" by simp_all
  note l1 = level_at [OF t1 assms(2) len k1] and l2 = level_at [OF t2 assms(3) len k2]
  have "command_of_topic topic payload = Inr \<lparr>cmd_deviceType = T, cmd_deviceId = I, cmd_commandName = c, cmd_format = f, cmd_payload = payload\<rparr>"
    unfolding command_of_topic_def Let_def p1 p2 pc(1) l1 l2 pc(2-6) and_then.simps ..
  with t(1) show ?thesis by blast
qed

theorem gateway_command_parsed_witness:
  "\<exists>c f. ''iot-2/type/sensor/id/s1/cmd/reset/fmt/json'' = ''iot-2/type/'' @ ''sensor'' @ ''/id/'' @ ''s1'' @ ''/cmd/'' @ c @ ''/fmt/'' @ f \<and>
    command_of_topic ''iot-2/type/sensor/id/s1/cmd/reset/fmt/json'' ''{}'' =
      Inr \<lparr>cmd_deviceType = ''sensor'', cmd_deviceId = ''s1'', cmd_commandName = c, cmd_format = f, cmd_payload = ''{}''\<rparr>"
proof -
  have "filter_matches (gateway_command_topic ''sensor'' ''s1'') ''iot-2/type/sensor/id/s1/cmd/reset/fmt/json''" by code_simp
  from gateway_command_parsed [OF this, of "''{}''"] show ?thesis by (simp add: no_slash_def suffix_def)
qed

text \<open>
  A device's commands carry the wrong sender: for every topic that the subscription of the device
  client to \<open>iot-2/cmd/+/fmt/+\<close> delivers, unless the command's name ends in \<open>type\<close> or \<open>id\<close>, the name and
  the format of the command are right, but its device type is \<open>2\<close> and its device id \<open>t-2\<close>: the searches
  for \<open>type/\<close> and \<open>id/\<close> find nothing, and the sum of \<open>npos\<close> and the length of the word wraps around to a
  position inside \<open>iot-2\<close>.
\<close>

theorem device_command_misparsed:
  assumes "filter_matches commandTopic topic" "length topic \<le> 65535"
    "\<forall>l\<in>set (topic_levels topic). \<not> suffix ''type'' l \<and> \<not> suffix ''id'' l"
  shows "\<exists>c f. topic = ''iot-2/cmd/'' @ c @ ''/fmt/'' @ f \<and> command_of_topic topic payload =
    Inr \<lparr>cmd_deviceType = ''2'', cmd_deviceId = ''t-2'', cmd_commandName = c, cmd_format = f, cmd_payload = payload\<rparr>"
proof -
  obtain c f where t: "topic = ''iot-2/cmd/'' @ c @ ''/fmt/'' @ f" and c: "no_slash c" and f: "no_slash f"
    using assms(1) by (rule command_topic_levels)
  have "topic = ''iot-2'' @ CHR ''/'' # ''cmd'' @ CHR ''/'' # c @ CHR ''/'' # ''fmt'' @ CHR ''/'' # f" using t by simp
  then have "c \<in> set (topic_levels topic)" using c f by (simp only: topic_levels_Cons no_slash_simps) simp
  with assms(3) have cs: "\<not> suffix ''type'' c" "\<not> suffix ''id'' c" by blast+
  have lv: "topic = ''iot-2'' @ CHR ''/'' # ''cmd'' @ CHR ''/'' # c @ CHR ''/'' # ''fmt'' @ CHR ''/'' # f" using t by simp
  note len = assms(2)
  have s: "\<not> suffix ''type'' ''iot-2''" "\<not> suffix ''id'' ''iot-2''" "\<not> suffix ''cmd'' ''iot-2''" "\<not> suffix ''type'' ''cmd''"
    "\<not> suffix ''id'' ''cmd''" "\<not> suffix ''type'' ''fmt''" "\<not> suffix ''id'' ''fmt''" by (simp_all add: suffix_def)
  have "first_at ''type/'' topic = None"
    using first_at_level [of "''type''" "''iot-2''"] first_at_level [of "''type''" "''cmd''"] first_at_level [of "''type''" c]
      first_at_level [of "''type''" "''fmt''"] first_at_last [OF f, of "''type''"] s c cs unfolding lv by simp
  then have p1: "str_find topic ''type/'' 0 + 5 = of_nat 4" by (simp add: str_find_def)
  have "first_at ''id/'' topic = None"
    using first_at_level [of "''id''" "''iot-2''"] first_at_level [of "''id''" "''cmd''"] first_at_level [of "''id''" c]
      first_at_level [of "''id''" "''fmt''"] first_at_last [OF f, of "''id''"] s c cs unfolding lv by simp
  then have p2: "str_find topic ''id/'' 0 + 3 = of_nat 2" by (simp add: str_find_def)
  have cmd: "first_at ''cmd/'' topic = Some (length ''iot-2/'')"
    using first_at_level [of "''cmd''" "''iot-2''"] first_at_level [of "''cmd''" "''cmd''"] s unfolding lv by simp
  have tc: "topic = ''iot-2/'' @ ''cmd/'' @ c @ ''/fmt/'' @ f" using t by simp
  note pc = parse_command_format [OF tc c f len cmd]
  have t1: "topic = ''iot-'' @ ''2'' @ CHR ''/'' # ''cmd/'' @ c @ ''/fmt/'' @ f" using t by simp
  have t2: "topic = ''io'' @ ''t-2'' @ CHR ''/'' # ''cmd/'' @ c @ ''/fmt/'' @ f" using t by simp
  have k1: "(4 :: nat) = length ''iot-''" and k2: "(2 :: nat) = length ''io''" by simp_all
  note l1 = level_at [OF t1 _ len k1] and l2 = level_at [OF t2 _ len k2]
  have "command_of_topic topic payload =
      Inr \<lparr>cmd_deviceType = ''2'', cmd_deviceId = ''t-2'', cmd_commandName = c, cmd_format = f, cmd_payload = payload\<rparr>"
    unfolding command_of_topic_def Let_def p1 p2 pc(1) l1 [OF no_slash_simps(6)] l2 [OF no_slash_simps(7)] pc(2-6) and_then.simps ..
  with t show ?thesis by blast
qed

theorem device_command_misparsed_witness:
  "\<exists>c f. ''iot-2/cmd/reset/fmt/json'' = ''iot-2/cmd/'' @ c @ ''/fmt/'' @ f \<and> command_of_topic ''iot-2/cmd/reset/fmt/json'' ''{}'' =
    Inr \<lparr>cmd_deviceType = ''2'', cmd_deviceId = ''t-2'', cmd_commandName = c, cmd_format = f, cmd_payload = ''{}''\<rparr>"
proof -
  have "filter_matches commandTopic ''iot-2/cmd/reset/fmt/json''" by code_simp
  moreover have "topic_levels ''iot-2/cmd/reset/fmt/json'' = [''iot-2'', ''cmd'', ''reset'', ''fmt'', ''json'']" by code_simp
  ultimately show ?thesis using device_command_misparsed [of "''iot-2/cmd/reset/fmt/json''" "''{}''"] by (simp add: suffix_def)
qed

text \<open>Without the condition on the device type the id of a gateway's device is wrong: it is taken from the level \<open>id\<close>.\<close>

lemma type_ending_in_id_misparsed:
  "command_of_topic ''iot-2/type/android/id/a7/cmd/reset/fmt/json'' payload =
     Inr \<lparr>cmd_deviceType = ''android'', cmd_deviceId = ''id'', cmd_commandName = ''reset'', cmd_format = ''json'', cmd_payload = payload\<rparr>"
  by (simp add: command_of_topic_def str_find_def str_find_first_of_def substr_def Let_def unsigned_minus_1_eq_mask mask_eq_exp_minus_1)

end
