(* ===== verification/DeviceData.thy ===== *)
theory DeviceData
  imports Json
begin

text \<open>
  What the device client says about its device: \<open>src/IOTP_Device.cpp\<close> (device information, location,
  diagnostic log), \<open>IOTP_FirmwareInfo\<close> of \<open>src/IOTP_DeviceFirmwareHandler.cpp\<close>, and the messages that go
  back to the platform (\<open>src/IOTP_ReplyMessage.h\<close>, \<open>src/IOTP_DeviceResponseMessage.h\<close>).

  Each class keeps its JSON form in a member that \<open>setJsonValue\<close> brings up to date. The clock and
  \<open>strftime\<close> are the environment: \<open>now\<close> is the text of the present time.
\<close>

section \<open>Replies\<close>

record 'd reply_message =
  rm_topic :: string
  rm_payload :: "'d json"
  rm_qos :: int

definition new_reply :: "string \<Rightarrow> 'd json \<Rightarrow> 'd reply_message" where
  "new_reply topic payload = \<lparr>rm_topic = topic, rm_payload = payload, rm_qos = 1\<rparr>"

text \<open>\<open>IOTP_DeviceResponseMessage::setJsonValue\<close>.\<close>

definition device_response :: "int \<Rightarrow> string \<Rightarrow> 'd json" where
  "device_response rc message =
     (let json = put_member ''rc'' (intValue rc) nullValue in
      if message \<noteq> '''' then put_member ''message'' (stringValue message) json else json)"

section \<open>Device information\<close>

record 'd device_info =
  mSerialNumber :: string
  mManufacturer :: string
  mModel :: string
  mDeviceClass :: string
  mDescription :: string
  mFwVersion :: string
  mHwVersion :: string
  mDescriptiveLocation :: string
  info_json :: "'d json"

definition put_nonempty :: "string \<Rightarrow> string \<Rightarrow> 'd json \<Rightarrow> 'd json" where
  "put_nonempty key s json = (if s \<noteq> '''' then put_member key (stringValue s) json else json)"

definition info_setJsonValue :: "'d device_info \<Rightarrow> 'd device_info" where
  "info_setJsonValue i =
     i\<lparr>info_json := put_nonempty ''descriptiveLocation'' (mDescriptiveLocation i)
       (put_nonempty ''hwVersion'' (mHwVersion i) (put_nonempty ''fwVersion'' (mFwVersion i)
       (put_nonempty ''description'' (mDescription i) (put_nonempty ''deviceClass'' (mDeviceClass i)
       (put_nonempty ''model'' (mModel i) (put_nonempty ''manufacturer'' (mManufacturer i)
       (put_nonempty ''serialNumber'' (mSerialNumber i) (info_json i))))))))\<rparr>"

text \<open>The constructor from C strings; a null pointer counts as the empty string.\<close>

definition c_text :: "string option \<Rightarrow> string" where
  "c_text s = (case s of None \<Rightarrow> '''' | Some s \<Rightarrow> s)"

definition new_device_info ::
    "string option \<Rightarrow> string option \<Rightarrow> string option \<Rightarrow> string option \<Rightarrow> string option \<Rightarrow> string option \<Rightarrow> string option \<Rightarrow>
     string option \<Rightarrow> 'd device_info" where
  "new_device_info serial manufacturer model cls description fw hw loc =
     info_setJsonValue \<lparr>mSerialNumber = c_text serial, mManufacturer = c_text manufacturer, mModel = c_text model,
       mDeviceClass = c_text cls, mDescription = c_text description, mFwVersion = c_text fw, mHwVersion = c_text hw,
       mDescriptiveLocation = c_text loc, info_json = nullValue\<rparr>"

definition get_text :: "'d double_ops \<Rightarrow> 'd json \<Rightarrow> string \<Rightarrow> exception + string" where
  "get_text ops j key = and_then (get_member j key (stringValue '''')) (asString ops)"

definition device_info_of_json :: "'d double_ops \<Rightarrow> 'd json \<Rightarrow> exception + 'd device_info" where
  "device_info_of_json ops j =
     and_then (get_text ops j ''serialNumber'') (\<lambda>serial.
     and_then (get_text ops j ''manufacturer'') (\<lambda>manufacturer.
     and_then (get_text ops j ''model'') (\<lambda>model.
     and_then (get_text ops j ''deviceClass'') (\<lambda>cls.
     and_then (get_text ops j ''description'') (\<lambda>description.
     and_then (get_text ops j ''fwVersion'') (\<lambda>fw.
     and_then (get_text ops j ''hwVersion'') (\<lambda>hw.
     and_then (get_text ops j ''descriptiveLocation'') (\<lambda>loc.
     Inr (new_device_info (Some serial) (Some manufacturer) (Some model) (Some cls) (Some description) (Some fw) (Some hw) (Some loc))))))))))"

section \<open>Location\<close>

record 'd device_location =
  mLatitude :: 'd
  mLongitude :: 'd
  mElevation :: 'd
  mAccuracy :: 'd
  measuredDateTime :: string
  location_json :: "'d json"

definition location_setJsonValue :: "'d device_location \<Rightarrow> 'd device_location" where
  "location_setJsonValue l =
     l\<lparr>location_json := put_member ''measuredDateTime'' (stringValue (measuredDateTime l))
       (put_member ''accuracy'' (realValue (mAccuracy l)) (put_member ''elevation'' (realValue (mElevation l))
       (put_member ''longitude'' (realValue (mLongitude l)) (put_member ''latitude'' (realValue (mLatitude l)) (location_json l)))))\<rparr>"

definition new_device_location :: "'d \<Rightarrow> 'd \<Rightarrow> 'd \<Rightarrow> 'd \<Rightarrow> string \<Rightarrow> 'd device_location" where
  "new_device_location latitude longitude elevation accuracy now =
     location_setJsonValue \<lparr>mLatitude = latitude, mLongitude = longitude, mElevation = elevation, mAccuracy = accuracy,
       measuredDateTime = now, location_json = nullValue\<rparr>"

definition setLocation :: "'d \<Rightarrow> 'd \<Rightarrow> 'd \<Rightarrow> string \<Rightarrow> 'd device_location \<Rightarrow> 'd device_location" where
  "setLocation latitude longitude elevation now l =
     location_setJsonValue (l\<lparr>mLatitude := latitude, mLongitude := longitude, mElevation := elevation, measuredDateTime := now\<rparr>)"

definition setLatitude :: "'d \<Rightarrow> string \<Rightarrow> 'd device_location \<Rightarrow> 'd device_location" where
  "setLatitude latitude now l = setLocation latitude (mLongitude l) (mElevation l) now l"

definition setLongitude :: "'d \<Rightarrow> string \<Rightarrow> 'd device_location \<Rightarrow> 'd device_location" where
  "setLongitude longitude now l = setLocation (mLatitude l) longitude (mElevation l) now l"

definition setElevation :: "'d \<Rightarrow> string \<Rightarrow> 'd device_location \<Rightarrow> 'd device_location" where
  "setElevation elevation now l = setLocation (mLatitude l) (mLongitude l) elevation now l"

text \<open>
  The constructor from JSON. The time is copied with \<open>strcpy\<close> into an array of 21 characters; \<open>strptime\<close>
  then fills the structure that \<open>gmtime\<close> returned and not the member, whose value \<open>uninit\<close> is whatever the
  memory held.
\<close>

definition get_double :: "'d double_ops \<Rightarrow> 'd json \<Rightarrow> string \<Rightarrow> exception + 'd" where
  "get_double ops j key = and_then (get_member j key (realValue (d_of_int ops 0))) (asDouble ops)"

definition device_location_of_json :: "'d double_ops \<Rightarrow> string \<Rightarrow> string \<Rightarrow> 'd json \<Rightarrow> exception + 'd device_location" where
  "device_location_of_json ops now uninit j =
     and_then (get_double ops j ''latitude'') (\<lambda>latitude.
     and_then (get_double ops j ''longitude'') (\<lambda>longitude.
     and_then (get_double ops j ''elevation'') (\<lambda>elevation.
     and_then (get_double ops j ''accuracy'') (\<lambda>accuracy.
     and_then (get_text ops j ''measuredDateTime'') (\<lambda>measured.
     let measured = takeWhile (\<lambda>c. c \<noteq> CHR 0x00) measured in
     if 21 \<le> length measured then Inl BufferOverrun
     else Inr (new_device_location latitude longitude elevation accuracy (if measured \<noteq> '''' then uninit else now)))))))"

section \<open>Diagnostic log\<close>

record 'd device_log =
  mMessage :: string
  mMeasuredDateTime :: string
  mSeverity :: int
  mData :: string
  log_json :: "'d json"

definition log_setJsonValue :: "'d device_log \<Rightarrow> 'd device_log" where
  "log_setJsonValue l =
     l\<lparr>log_json := put_member ''timestamp'' (stringValue (mMeasuredDateTime l)) (put_member ''data'' (stringValue (mData l))
       (put_member ''severity'' (intValue (mSeverity l)) (put_member ''message'' (stringValue (mMessage l)) (log_json l))))\<rparr>"

definition setLogInfo :: "string \<Rightarrow> string \<Rightarrow> int \<Rightarrow> string \<Rightarrow> 'd device_log \<Rightarrow> 'd device_log" where
  "setLogInfo msg time sev data l =
     log_setJsonValue (l\<lparr>mMessage := msg, mMeasuredDateTime := time, mSeverity := sev, mData := data\<rparr>)"

definition new_device_log :: "string \<Rightarrow> string \<Rightarrow> int \<Rightarrow> string \<Rightarrow> 'd device_log" where
  "new_device_log msg time sev data =
     log_setJsonValue \<lparr>mMessage = msg, mMeasuredDateTime = time, mSeverity = sev, mData = data, log_json = nullValue\<rparr>"

section \<open>Firmware information\<close>

abbreviation (input) FIRMWARE_INFO_STATE_IDLE :: int where "FIRMWARE_INFO_STATE_IDLE \<equiv> 0"
abbreviation (input) FIRMWARE_INFO_STATE_DOWNLOADED :: int where "FIRMWARE_INFO_STATE_DOWNLOADED \<equiv> 2"
abbreviation (input) FIRMWARE_INFO_UPDATE_STATUS_SUCCESS :: int where "FIRMWARE_INFO_UPDATE_STATUS_SUCCESS \<equiv> 0"
abbreviation (input) FIRMWARE_INFO_UPDATE_STATUS_IN_PROGRESS :: int where "FIRMWARE_INFO_UPDATE_STATUS_IN_PROGRESS \<equiv> 1"

text \<open>\<open>mUpdatedDateTime\<close> is the text of the time, \<open>None\<close> for the value \<open>-1\<close>.\<close>

record 'd firmware_info =
  mName :: string
  mVersion :: string
  mURI :: string
  mVerifier :: string
  mState :: int
  mUpdateStatus :: int
  mUpdatedDateTime :: "string option"
  fw_json :: "'d json"

definition fw_setJsonValue :: "'d firmware_info \<Rightarrow> 'd firmware_info" where
  "fw_setJsonValue f =
     (let json = put_member ''state'' (intValue (mState f)) (put_nonempty ''verifier'' (mVerifier f)
            (put_nonempty ''url'' (mURI f) (put_nonempty ''version'' (mVersion f) (put_nonempty ''name'' (mName f) (fw_json f)))));
          json = (if mUpdateStatus f \<noteq> -1 then put_member ''updateStatus'' (intValue (mUpdateStatus f)) json else json);
          json = (case mUpdatedDateTime f of None \<Rightarrow> json | Some t \<Rightarrow> put_member ''updatedDateTime'' (stringValue t) json)
      in f\<lparr>fw_json := json\<rparr>)"

definition new_firmware_info :: "string option \<Rightarrow> string option \<Rightarrow> string option \<Rightarrow> string option \<Rightarrow> 'd firmware_info" where
  "new_firmware_info name version uri verifier =
     fw_setJsonValue \<lparr>mName = c_text name, mVersion = c_text version, mURI = c_text uri, mVerifier = c_text verifier,
       mState = FIRMWARE_INFO_STATE_IDLE, mUpdateStatus = -1, mUpdatedDateTime = None, fw_json = nullValue\<rparr>"

text \<open>The setters: the first four do not bring the JSON form up to date.\<close>

definition set_name :: "string \<Rightarrow> 'd firmware_info \<Rightarrow> 'd firmware_info" where "set_name s f = f\<lparr>mName := s\<rparr>"
definition set_version :: "string \<Rightarrow> 'd firmware_info \<Rightarrow> 'd firmware_info" where "set_version s f = f\<lparr>mVersion := s\<rparr>"
definition set_uri :: "string \<Rightarrow> 'd firmware_info \<Rightarrow> 'd firmware_info" where "set_uri s f = f\<lparr>mURI := s\<rparr>"
definition set_verifier :: "string \<Rightarrow> 'd firmware_info \<Rightarrow> 'd firmware_info" where "set_verifier s f = f\<lparr>mVerifier := s\<rparr>"
definition set_state :: "int \<Rightarrow> 'd firmware_info \<Rightarrow> 'd firmware_info" where "set_state n f = fw_setJsonValue (f\<lparr>mState := n\<rparr>)"
definition set_update_status :: "int \<Rightarrow> 'd firmware_info \<Rightarrow> 'd firmware_info" where
  "set_update_status n f = fw_setJsonValue (f\<lparr>mUpdateStatus := n\<rparr>)"
definition set_updated_date_time :: "string option \<Rightarrow> 'd firmware_info \<Rightarrow> 'd firmware_info" where
  "set_updated_date_time t f = fw_setJsonValue (f\<lparr>mUpdatedDateTime := t\<rparr>)"

section \<open>Round trip\<close>

text \<open>The JSON form of device information holds all of it: the constructor from JSON gives the same strings.\<close>

definition info_fields :: "'d device_info \<Rightarrow> string list" where
  "info_fields i = [mSerialNumber i, mManufacturer i, mModel i, mDeviceClass i, mDescription i, mFwVersion i, mHwVersion i, mDescriptiveLocation i]"

definition text_at :: "'d json \<Rightarrow> string \<Rightarrow> string \<Rightarrow> bool" where
  "text_at j k s \<longleftrightarrow> (j = nullValue \<and> s = '''') \<or> (\<exists>ms. j = objectValue ms \<and> map_of ms k = (if s = '''' then None else Some (stringValue s)))"

lemma text_at_put:
  assumes "text_at j k' ''''"
  shows "text_at (put_nonempty k' s j) k' s"
  using assms by (auto simp: text_at_def put_nonempty_def map_of_insert_member)

lemma text_at_other: "k \<noteq> k' \<Longrightarrow> text_at j k s \<Longrightarrow> text_at (put_nonempty k' s' j) k s"
  by (auto simp: text_at_def put_nonempty_def map_of_insert_member)

lemma text_at_null: "text_at nullValue k ''''"
  by (simp add: text_at_def)

lemma get_text_at: "text_at j k s \<Longrightarrow> get_text ops j k = Inr s"
  by (auto simp: text_at_def get_text_def asString_def split: if_splits)

lemma device_info_roundtrip:
  "map_sum id info_fields (device_info_of_json ops (info_json (new_device_info a b c d e f g h))) =
     Inr (map c_text [a, b, c, d, e, f, g, h])"
proof -
  let ?j = "info_json (new_device_info a b c d e f g h)"
  have "text_at ?j ''serialNumber'' (c_text a)" "text_at ?j ''manufacturer'' (c_text b)" "text_at ?j ''model'' (c_text c)"
    "text_at ?j ''deviceClass'' (c_text d)" "text_at ?j ''description'' (c_text e)" "text_at ?j ''fwVersion'' (c_text f)"
    "text_at ?j ''hwVersion'' (c_text g)" "text_at ?j ''descriptiveLocation'' (c_text h)"
    by (simp_all add: new_device_info_def info_setJsonValue_def text_at_put text_at_other text_at_null)
  note texts = this [THEN get_text_at, of ops]
  have "device_info_of_json ops ?j = Inr (new_device_info (Some (c_text a)) (Some (c_text b)) (Some (c_text c)) (Some (c_text d))
      (Some (c_text e)) (Some (c_text f)) (Some (c_text g)) (Some (c_text h)))"
    unfolding device_info_of_json_def texts and_then.simps ..
  then show ?thesis by (simp add: new_device_info_def info_setJsonValue_def info_fields_def c_text_def)
qed

text \<open>A time in JSON longer than the array overflows it.\<close>

lemma location_time_overflows:
  "device_location_of_json ops now uninit (objectValue [(''measuredDateTime'', stringValue ''2016-03-01T07:07:56.323Z'')]) = Inl BufferOverrun"
  by (simp add: device_location_of_json_def get_double_def get_text_def asString_def asDouble_def Let_def)

end
