(* ===== verification/IotpClient.thy ===== *)
theory IotpClient
  imports JsonReader AsyncClient Topics DeviceData
begin

text \<open>
  The device client of \<open>src/IOTP_Client.cpp\<close>: its subscriptions and handlers (\<open>IOTF_Callback\<close>), the
  messages that arrive, the requests to the device management of the platform and their responses
  (\<open>src/IOTP_ResponseHandler.cpp\<close>), the handlers for actions, firmware and attributes
  (\<open>src/IOTP_DeviceActionHandler.cpp\<close>, \<open>src/IOTP_DeviceFirmwareHandler.cpp\<close>,
  \<open>src/IOTP_DeviceAttributeHandler.cpp\<close>).

  The network is the environment: what becomes of the \<open>n\<close>th request to the C library is \<open>e_fate n\<close>. The
  virtual functions that an application overrides are functions of the environment, a null pointer as
  their result being \<open>None\<close>. An operation takes the client's state and gives its result or exception and
  the new state. Messages arrive on a thread of the C library, one after the other; where the time of
  their arrival matters, an operation has an argument with the messages that arrive meanwhile.
\<close>

section \<open>Topics of the device management\<close>

definition SERVER_RESPONSE_TOPIC :: string where "SERVER_RESPONSE_TOPIC = ''iotdm-1/response''"
definition DEVICE_MANAGE_TOPIC :: string where "DEVICE_MANAGE_TOPIC = ''iotdevice-1/mgmt/manage''"
definition DEVICE_UNMANAGE_TOPIC :: string where "DEVICE_UNMANAGE_TOPIC = ''iotdevice-1/mgmt/unmanage''"
definition SERVER_UPDATE_TOPIC :: string where "SERVER_UPDATE_TOPIC = ''iotdm-1/device/update''"
definition DEVICE_UPDATE_LOCATION_TOPIC :: string where "DEVICE_UPDATE_LOCATION_TOPIC = ''iotdevice-1/device/update/location''"
definition DEVICE_REPONSE_TOPIC :: string where "DEVICE_REPONSE_TOPIC = ''iotdevice-1/response''"
definition SERVER_DEVICE_REBOOT_TOPIC :: string where "SERVER_DEVICE_REBOOT_TOPIC = ''iotdm-1/mgmt/initiate/device/reboot''"
definition SERVER_FACTORY_RESET_TOPIC :: string where "SERVER_FACTORY_RESET_TOPIC = ''iotdm-1/mgmt/initiate/device/factory_reset''"
definition DEVICE_NOTIFY_TOPIC :: string where "DEVICE_NOTIFY_TOPIC = ''iotdevice-1/notify''"
definition SERVER_OBSERVE_TOPIC :: string where "SERVER_OBSERVE_TOPIC = ''iotdm-1/observe''"
definition SERVER_CANCEL_TOPIC :: string where "SERVER_CANCEL_TOPIC = ''iotdm-1/cancel''"
definition SERVER_FIRMWARE_DOWNLOAD_TOPIC :: string where "SERVER_FIRMWARE_DOWNLOAD_TOPIC = ''iotdm-1/mgmt/initiate/firmware/download''"
definition SERVER_FIRMWARE_UPDATE_TOPIC :: string where "SERVER_FIRMWARE_UPDATE_TOPIC = ''iotdm-1/mgmt/initiate/firmware/update''"
definition DEVICE_ADD_ERROR_CODES_TOPIC :: string where "DEVICE_ADD_ERROR_CODES_TOPIC = ''iotdevice-1/add/diag/errorCodes''"
definition DEVICE_CLEAR_ERROR_CODES_TOPIC :: string where "DEVICE_CLEAR_ERROR_CODES_TOPIC = ''iotdevice-1/clear/diag/errorCodes''"
definition DEVICE_ADD_DIAG_LOG_TOPIC :: string where "DEVICE_ADD_DIAG_LOG_TOPIC = ''iotdevice-1/add/diag/log''"
definition DEVICE_CLEAR_DIAG_LOG_TOPIC :: string where "DEVICE_CLEAR_DIAG_LOG_TOPIC = ''iotdevice-1/clear/diag/log''"

lemmas topic_defs = SERVER_RESPONSE_TOPIC_def DEVICE_MANAGE_TOPIC_def DEVICE_UNMANAGE_TOPIC_def SERVER_UPDATE_TOPIC_def
  DEVICE_UPDATE_LOCATION_TOPIC_def DEVICE_REPONSE_TOPIC_def SERVER_DEVICE_REBOOT_TOPIC_def SERVER_FACTORY_RESET_TOPIC_def
  DEVICE_NOTIFY_TOPIC_def SERVER_OBSERVE_TOPIC_def SERVER_CANCEL_TOPIC_def SERVER_FIRMWARE_DOWNLOAD_TOPIC_def
  SERVER_FIRMWARE_UPDATE_TOPIC_def DEVICE_ADD_ERROR_CODES_TOPIC_def DEVICE_CLEAR_ERROR_CODES_TOPIC_def
  DEVICE_ADD_DIAG_LOG_TOPIC_def DEVICE_CLEAR_DIAG_LOG_TOPIC_def

section \<open>State\<close>

text \<open>Pointers to message handlers; an application may register its own.\<close>

datatype handler = ResponseHandler | ActionHandler | FirmwareHandler | AttributeHandler | UserHandler nat

record iotf_callback =
  mArrivedMessages :: int
  mSubscriptions :: "string list"
  mHandlers :: "(string \<times> handler) list"
  user_callback :: bool

record Properties =
  orgId :: string
  domain :: string
  deviceType :: string
  deviceId :: string
  authMethod :: string
  authToken :: string
  trustStore :: string
  keyStore :: string
  privateKey :: string
  keyPassPhrase :: string
  prop_port :: int
  useCerts :: bool

definition default_properties :: Properties where
  "default_properties = \<lparr>orgId = '''', domain = ''internetofthings.ibmcloud.com'', deviceType = '''', deviceId = '''',
     authMethod = '''', authToken = '''', trustStore = '''', keyStore = '''', privateKey = '''', keyPassPhrase = '''',
     prop_port = 8883, useCerts = False\<rparr>"

text \<open>
  The client. \<open>handler_client\<close> holds the handlers whose \<open>mClient\<close> is set; \<open>mResponseMessages\<close> and
  \<open>notifications\<close>, the number of calls of \<open>notify_all\<close>, belong to the response handler; the flags of the
  progress threads, whether the \<open>std::thread\<close> members hold a thread, to the firmware handler.
  \<open>processed\<close> lists the commands given to the application, \<open>locations\<close> the location updates.
\<close>

record 'd iotp_client =
  mProperties :: Properties
  mServerURI :: string
  mClientID :: string
  mReqCounter :: "64 word"
  mKeepAliveInterval :: int
  pasync_client :: "async_client option"
  callback_ptr :: "iotf_callback option"
  mReplyMsgs :: "'d reply_message list"
  handler_client :: "handler set"
  mResponseMessages :: "string \<rightharpoonup> 'd json"
  notifications :: nat
  mDownloadProgress :: bool
  mUpdateProgress :: bool
  processed :: "Command list"
  locations :: "'d device_location list"

text \<open>\<open>InitializeProperties\<close>: a client as its constructor leaves it.\<close>

definition InitializeProperties :: "Properties \<Rightarrow> 'd iotp_client" where
  "InitializeProperties prop = \<lparr>mProperties = prop, mServerURI = '''', mClientID = '''', mReqCounter = 0, mKeepAliveInterval = 60,
     pasync_client = None, callback_ptr = None, mReplyMsgs = [], handler_client = {}, mResponseMessages = Map.empty, notifications = 0,
     mDownloadProgress = False, mUpdateProgress = False, processed = [], locations = []\<rparr>"

definition setKeepAliveInterval :: "int \<Rightarrow> 'd iotp_client \<Rightarrow> 'd iotp_client" where
  "setKeepAliveInterval keepAliveInterval st = st\<lparr>mKeepAliveInterval := keepAliveInterval\<rparr>"

text \<open>What becomes of a request to the C library.\<close>

datatype fate = Refused int | Succeeds "int option" | Fails "(int \<times> int) option" | Silent

record 'd env =
  e_ops :: "'d double_ops"
  e_fate :: "nat \<Rightarrow> fate"
  e_msgid :: "nat \<Rightarrow> int"
  e_setcb_rc :: int
  e_time :: "64 word \<Rightarrow> int"
  e_now :: string
  e_reboot :: "(int \<times> string) option"
  e_factory_reset :: "(int \<times> string) option"
  e_verify :: "'d firmware_info \<Rightarrow> (int \<times> string) option"
  e_is_ready_for_download :: "'d firmware_info \<Rightarrow> (int \<times> string) option"
  e_download :: "'d firmware_info \<Rightarrow> (int \<times> string) option"
  e_update :: "'d firmware_info \<Rightarrow> (int \<times> string) option"
  e_user_json :: "nat \<Rightarrow> string \<Rightarrow> 'd json \<Rightarrow> 'd reply_message option"
  e_user_raw :: "nat \<Rightarrow> string \<Rightarrow> string \<Rightarrow> 'd reply_message option"

abbreviation (input) DEFAULT_TIMEOUT :: int where "DEFAULT_TIMEOUT \<equiv> 10000"

section \<open>Subscriptions\<close>

text \<open>The methods of \<open>IOTF_Callback\<close>; the multimap inserts behind the handlers of the same topic.\<close>

definition new_callback :: iotf_callback where
  "new_callback = \<lparr>mArrivedMessages = 0, mSubscriptions = [], mHandlers = [], user_callback = False\<rparr>"

fun multimap_insert :: "string \<Rightarrow> handler \<Rightarrow> (string \<times> handler) list \<Rightarrow> (string \<times> handler) list" where
  "multimap_insert topic h [] = [(topic, h)]"
| "multimap_insert topic h ((t, g) # hs) = (if topic < t then (topic, h) # (t, g) # hs else (t, g) # multimap_insert topic h hs)"

definition equal_range :: "string \<Rightarrow> (string \<times> handler) list \<Rightarrow> handler list" where
  "equal_range topic hs = map snd (filter (\<lambda>(t, h). t = topic) hs)"

definition add_subscription :: "string \<Rightarrow> iotf_callback \<Rightarrow> iotf_callback" where
  "add_subscription topic cb = cb\<lparr>mSubscriptions := mSubscriptions cb @ [topic]\<rparr>"

definition add_subscription_handler :: "string \<Rightarrow> handler \<Rightarrow> iotf_callback \<Rightarrow> iotf_callback" where
  "add_subscription_handler topic h cb =
     cb\<lparr>mSubscriptions := mSubscriptions cb @ [topic], mHandlers := multimap_insert topic h (mHandlers cb)\<rparr>"

definition remove_subscription :: "string \<Rightarrow> iotf_callback \<Rightarrow> iotf_callback" where
  "remove_subscription topic cb = cb\<lparr>mSubscriptions := remove1 topic (mSubscriptions cb)\<rparr>"

definition remove_subscription_handler :: "string \<Rightarrow> handler \<Rightarrow> iotf_callback \<Rightarrow> iotf_callback" where
  "remove_subscription_handler topic h cb = cb\<lparr>mHandlers := remove1 (topic, h) (mHandlers cb)\<rparr>"

definition check_subscription :: "string \<Rightarrow> iotf_callback \<Rightarrow> bool" where
  "check_subscription topic cb \<longleftrightarrow> topic \<in> set (mSubscriptions cb)"

definition check_subscription_handler :: "string \<Rightarrow> handler \<Rightarrow> iotf_callback \<Rightarrow> bool" where
  "check_subscription_handler topic h cb \<longleftrightarrow> (topic, h) \<in> set (mHandlers cb)"

section \<open>Requests to the network\<close>

text \<open>
  A call of \<open>pasync_client\<close> followed by \<open>wait_for_completion\<close>: the request is made, the C library
  accepts it or not and calls back or not, and the wait ends. \<open>perform\<close> gives the token.
\<close>

definition refusal :: "fate \<Rightarrow> int" where
  "refusal f = (case f of Refused rc \<Rightarrow> rc | _ \<Rightarrow> 0)"

definition answer :: "fate \<Rightarrow> nat \<Rightarrow> async_client \<Rightarrow> async_client" where
  "answer f a cl = (case f of
     Succeeds rsp \<Rightarrow> token_on_success a rsp cl
   | Fails rsp \<Rightarrow> token_on_failure a rsp cl
   | _ \<Rightarrow> cl)"

definition start :: "'d env \<Rightarrow> request \<Rightarrow> bool \<Rightarrow> 'd iotp_client \<Rightarrow> (exception + nat) \<times> 'd iotp_client" where
  "start env req listener st = (case pasync_client st of
     None \<Rightarrow> (Inl NullDereference, st)
   | Some cl \<Rightarrow>
       let n = length (tokens cl); (r, cl) = issue req listener (refusal (e_fate env n)) (e_msgid env n) cl
       in (r, st\<lparr>pasync_client := Some cl\<rparr>))"

definition perform :: "'d env \<Rightarrow> request \<Rightarrow> bool \<Rightarrow> int \<Rightarrow> 'd iotp_client \<Rightarrow> (exception + nat) \<times> 'd iotp_client" where
  "perform env req listener timeout st = (case start env req listener st of
     (Inl e, st) \<Rightarrow> (Inl e, st)
   | (Inr a, st) \<Rightarrow>
       let cl = answer (e_fate env a) a (the (pasync_client st)); st = st\<lparr>pasync_client := Some cl\<rparr> in
       (case wait_for_completion a timeout cl of
          None \<Rightarrow> (Inl Blocks, st)
        | Some (Inl e) \<Rightarrow> (Inl e, st)
        | Some (Inr _) \<Rightarrow> (Inr a, st)))"

definition is_complete :: "nat \<Rightarrow> 'd iotp_client \<Rightarrow> bool" where
  "is_complete a st \<longleftrightarrow> tok_complete (tokens (the (pasync_client st)) ! a)"

definition subscribeTopic :: "'d env \<Rightarrow> string \<Rightarrow> int \<Rightarrow> 'd iotp_client \<Rightarrow> (exception + bool) \<times> 'd iotp_client" where
  "subscribeTopic env topic qos st = (case callback_ptr st of
     None \<Rightarrow> (Inl NullDereference, st)
   | Some cb \<Rightarrow>
       if check_subscription topic cb then (Inr True, st)
       else (case perform env (MQTTAsync_subscribe topic qos) False DEFAULT_TIMEOUT st of
          (Inl e, st) \<Rightarrow> (Inl e, st)
        | (Inr a, st) \<Rightarrow> if is_complete a st then (Inr True, st\<lparr>callback_ptr := Some (add_subscription topic cb)\<rparr>) else (Inr False, st)))"

definition subscribeCommandHandler ::
    "'d env \<Rightarrow> string \<Rightarrow> handler \<Rightarrow> 'd iotp_client \<Rightarrow> (exception + bool) \<times> 'd iotp_client" where
  "subscribeCommandHandler env topic h st = (case callback_ptr st of
     None \<Rightarrow> (Inl NullDereference, st)
   | Some cb \<Rightarrow>
       if check_subscription_handler topic h cb then (Inr True, st)
       else (case perform env (MQTTAsync_subscribe topic 1) False DEFAULT_TIMEOUT st of
          (Inl e, st) \<Rightarrow> (Inl e, st)
        | (Inr a, st) \<Rightarrow>
            if is_complete a st
            then (Inr True, st\<lparr>callback_ptr := Some (add_subscription_handler topic h cb), handler_client := insert h (handler_client st)\<rparr>)
            else (Inr False, st)))"

definition unsubscribeCommands :: "'d env \<Rightarrow> string \<Rightarrow> 'd iotp_client \<Rightarrow> (exception + bool) \<times> 'd iotp_client" where
  "unsubscribeCommands env topic st = (case callback_ptr st of
     None \<Rightarrow> (Inl NullDereference, st)
   | Some cb \<Rightarrow>
       if check_subscription topic cb
       then (case perform env (MQTTAsync_unsubscribe topic) False DEFAULT_TIMEOUT st of
          (Inl e, st) \<Rightarrow> (Inl e, st)
        | (Inr a, st) \<Rightarrow> if is_complete a st then (Inr True, st\<lparr>callback_ptr := Some (remove_subscription topic cb)\<rparr>) else (Inr False, st))
       else (Inr False, st))"

definition setCommandHandler :: "bool \<Rightarrow> 'd iotp_client \<Rightarrow> (exception + unit) \<times> 'd iotp_client" where
  "setCommandHandler cmd st = (case callback_ptr st of
     None \<Rightarrow> (Inl NullDereference, st)
   | Some cb \<Rightarrow> (Inr (), st\<lparr>callback_ptr := Some (cb\<lparr>user_callback := cmd\<rparr>)\<rparr>))"

definition publishTopic ::
    "'d env \<Rightarrow> string \<Rightarrow> mqtt_message \<Rightarrow> bool \<Rightarrow> 'd iotp_client \<Rightarrow> (exception + nat) \<times> 'd iotp_client" where
  "publishTopic env topic msg listener st = start env (MQTTAsync_sendMessage topic msg) listener st"

text \<open>\<open>IOTP_Client::disconnect\<close>, whose wait has no limit.\<close>

definition client_disconnect :: "'d env \<Rightarrow> 'd iotp_client \<Rightarrow> (exception + unit) \<times> 'd iotp_client" where
  "client_disconnect env st = (case perform env (MQTTAsync_disconnect 0) False (-1) st of
     (Inl e, st) \<Rightarrow> (Inl e, st) | (Inr _, st) \<Rightarrow> (Inr (), st))"

section \<open>Handlers\<close>

text \<open>\<open>IOTF_send_reply\<close>: a copy of the reply goes to the queue of the sending thread.\<close>

definition IOTF_send_reply :: "'d reply_message \<Rightarrow> 'd iotp_client \<Rightarrow> 'd iotp_client" where
  "IOTF_send_reply reply st = st\<lparr>mReplyMsgs := mReplyMsgs st @ [reply]\<rparr>"

definition req_id :: "'d env \<Rightarrow> 'd json \<Rightarrow> exception + string" where
  "req_id env jsonPayload = get_text (e_ops env) jsonPayload ''reqId''"

text \<open>\<open>IOTP_ResponseHandler::message_arrived\<close>.\<close>

definition response_message_arrived :: "'d env \<Rightarrow> 'd json \<Rightarrow> 'd iotp_client \<Rightarrow> (exception + 'd reply_message option) \<times> 'd iotp_client" where
  "response_message_arrived env jsonPayload st = (case req_id env jsonPayload of
     Inl e \<Rightarrow> (Inl e, st)
   | Inr reqId \<Rightarrow>
       let st = (if reqId \<noteq> '''' then st\<lparr>mResponseMessages := (mResponseMessages st)(reqId \<mapsto> jsonPayload)\<rparr> else st)
       in (Inr None, st\<lparr>notifications := Suc (notifications st)\<rparr>))"

text \<open>The answer to a request: the result code, the message if there is one, and the request's id.\<close>

definition answer_payload :: "int \<times> string \<Rightarrow> string \<Rightarrow> 'd json" where
  "answer_payload rsp reqId =
     (let payload = put_member ''rc'' (intValue (fst rsp)) nullValue;
          payload = (if snd rsp \<noteq> '''' then put_member ''message'' (stringValue (snd rsp)) payload else payload)
      in put_member ''reqId'' (stringValue reqId) payload)"

text \<open>
  \<open>IOTP_DeviceActionHandler::message_arrived\<close>. For a topic that is neither that of a reboot nor of a
  factory reset the pointer \<open>rsp\<close> is null. The reply goes to the client if it is known.
\<close>

definition action_message_arrived ::
    "'d env \<Rightarrow> string \<Rightarrow> 'd json \<Rightarrow> 'd iotp_client \<Rightarrow> (exception + 'd reply_message option) \<times> 'd iotp_client" where
  "action_message_arrived env topic jsonPayload st =
     (let rsp = (if topic = SERVER_DEVICE_REBOOT_TOPIC then e_reboot env
                 else if topic = SERVER_FACTORY_RESET_TOPIC then e_factory_reset env else None) in
      case rsp of
        None \<Rightarrow> (Inl NullDereference, st)
      | Some r \<Rightarrow> (case req_id env jsonPayload of
            Inl e \<Rightarrow> (Inl e, st)
          | Inr reqId \<Rightarrow>
              let reply = new_reply DEVICE_REPONSE_TOPIC (answer_payload r reqId) in
              if ActionHandler \<in> handler_client st then (Inr None, IOTF_send_reply reply st)
              else (Inr (Some reply), st)))"

text \<open>The firmware that an update request describes, if its first field does.\<close>

definition first_field :: "'d json \<Rightarrow> exception + 'd json" where
  "first_field jsonPayload = and_then (get_member jsonPayload ''d'' nullValue) (\<lambda>d.
     and_then (get_member d ''fields'' nullValue) (\<lambda>fields. get_element fields 0 nullValue))"

definition field_name :: "'d env \<Rightarrow> 'd json \<Rightarrow> exception + string" where
  "field_name env field = and_then (get_member field ''field'' nullValue) (asString (e_ops env))"

definition requested_firmware :: "'d env \<Rightarrow> 'd json \<Rightarrow> 'd firmware_info \<Rightarrow> exception + 'd firmware_info" where
  "requested_firmware env jsonPayload p = and_then (first_field jsonPayload) (\<lambda>firstField.
     and_then (field_name env firstField) (\<lambda>name.
     if name = ''mgmt.firmware''
     then and_then (get_member firstField ''value'' nullValue) (\<lambda>v.
       and_then (get_text (e_ops env) v ''version'') (\<lambda>version.
       and_then (get_text (e_ops env) v ''name'') (\<lambda>nm.
       and_then (get_text (e_ops env) v ''uri'') (\<lambda>uri.
       and_then (get_text (e_ops env) v ''verifier'') (\<lambda>verifier.
       Inr (set_verifier verifier (set_uri uri (set_name nm (set_version version p)))))))))
     else Inr p))"

text \<open>
  \<open>IOTP_DeviceFirmwareHandler::message_arrived\<close>: the response of the application, and the flags of the
  progress threads. A download or update that is accepted (202) starts a thread; assigning it to a member
  that still holds a thread ends the process.
\<close>

definition start_progress :: "bool \<Rightarrow> (int \<times> string) option \<Rightarrow> exception + bool" where
  "start_progress running rsp = (case rsp of
     None \<Rightarrow> Inl NullDereference
   | Some r \<Rightarrow> if fst r = 202 then (if running then Inl Terminate else Inr True) else Inr running)"

definition firmware_response ::
    "'d env \<Rightarrow> string \<Rightarrow> 'd json \<Rightarrow> 'd iotp_client \<Rightarrow> (exception + (int \<times> string) option) \<times> 'd iotp_client" where
  "firmware_response env topic jsonPayload st =
     (let p = new_firmware_info None None None None in
      if topic = SERVER_UPDATE_TOPIC
      then (map_sum id (e_verify env) (requested_firmware env jsonPayload p), st)
      else if topic = SERVER_OBSERVE_TOPIC then (Inr (e_is_ready_for_download env p), st)
      else if topic = SERVER_FIRMWARE_DOWNLOAD_TOPIC then
        (case start_progress (mDownloadProgress st) (e_download env p) of
           Inl e \<Rightarrow> (Inl e, st)
         | Inr running \<Rightarrow> (Inr (e_download env p), st\<lparr>mDownloadProgress := running\<rparr>))
      else if topic = SERVER_FIRMWARE_UPDATE_TOPIC then
        (case start_progress (mUpdateProgress st) (e_update env p) of
           Inl e \<Rightarrow> (Inl e, st)
         | Inr running \<Rightarrow> (Inr (e_update env p), st\<lparr>mUpdateProgress := running\<rparr>))
      else if topic = SERVER_CANCEL_TOPIC then (Inr (Some (200, '''')), st)
      else (Inr None, st))"

definition firmware_message_arrived ::
    "'d env \<Rightarrow> string \<Rightarrow> 'd json \<Rightarrow> 'd iotp_client \<Rightarrow> (exception + 'd reply_message option) \<times> 'd iotp_client" where
  "firmware_message_arrived env topic jsonPayload st = (case firmware_response env topic jsonPayload st of
     (Inl e, st) \<Rightarrow> (Inl e, st)
   | (Inr None, st) \<Rightarrow> (Inl NullDereference, st)
   | (Inr (Some r), st) \<Rightarrow> (case req_id env jsonPayload of
        Inl e \<Rightarrow> (Inl e, st)
      | Inr reqId \<Rightarrow> (Inr (Some (new_reply DEVICE_REPONSE_TOPIC (answer_payload r reqId))), st)))"

text \<open>
  \<open>IOTP_DeviceAttributeHandler::message_arrived\<close>: a location update. For another topic, and for a message
  that is not JSON, the function ends without a return value.
\<close>

definition requested_location :: "'d env \<Rightarrow> 'd json \<Rightarrow> exception + 'd device_location" where
  "requested_location env jsonPayload =
     (let zero = d_of_int (e_ops env) 0; p = new_device_location zero zero zero zero (e_now env) in
      and_then (first_field jsonPayload) (\<lambda>firstField.
      and_then (field_name env firstField) (\<lambda>name.
      if name = ''location''
      then and_then (get_member firstField ''value'' nullValue) (\<lambda>v.
        and_then (get_double (e_ops env) v ''latitude'') (\<lambda>latitude.
        and_then (get_double (e_ops env) v ''longitude'') (\<lambda>longitude.
        and_then (get_double (e_ops env) v ''elevation'') (\<lambda>elevation.
        Inr (setElevation elevation (e_now env) (setLongitude longitude (e_now env) (setLatitude latitude (e_now env) p)))))))
      else Inr p)))"

definition attribute_message_arrived ::
    "'d env \<Rightarrow> string \<Rightarrow> 'd json \<Rightarrow> 'd iotp_client \<Rightarrow> (exception + 'd reply_message option) \<times> 'd iotp_client" where
  "attribute_message_arrived env topic jsonPayload st =
     (if topic = SERVER_UPDATE_TOPIC
      then (case requested_location env jsonPayload of
          Inl e \<Rightarrow> (Inl e, st)
        | Inr p \<Rightarrow> (Inr None, st\<lparr>locations := locations st @ [p]\<rparr>))
      else (Inl MissingReturn, st))"

definition handler_message_arrived ::
    "'d env \<Rightarrow> handler \<Rightarrow> string \<Rightarrow> 'd json \<Rightarrow> 'd iotp_client \<Rightarrow> (exception + 'd reply_message option) \<times> 'd iotp_client" where
  "handler_message_arrived env h topic jsonPayload st = (case h of
     ResponseHandler \<Rightarrow> response_message_arrived env jsonPayload st
   | ActionHandler \<Rightarrow> action_message_arrived env topic jsonPayload st
   | FirmwareHandler \<Rightarrow> firmware_message_arrived env topic jsonPayload st
   | AttributeHandler \<Rightarrow> attribute_message_arrived env topic jsonPayload st
   | UserHandler n \<Rightarrow> (Inr (e_user_json env n topic jsonPayload), st))"

text \<open>
  The handlers' functions for a message that is not JSON: those of this library parse the message again,
  with the same result, and only report it.
\<close>

definition handler_raw_arrived ::
    "'d env \<Rightarrow> handler \<Rightarrow> string \<Rightarrow> string \<Rightarrow> 'd iotp_client \<Rightarrow> (exception + 'd reply_message option) \<times> 'd iotp_client" where
  "handler_raw_arrived env h topic msg st = (case h of
     AttributeHandler \<Rightarrow> (Inl MissingReturn, st)
   | UserHandler n \<Rightarrow> (Inr (e_user_raw env n topic msg), st)
   | _ \<Rightarrow> (Inr None, st))"

section \<open>Arriving messages\<close>

text \<open>
  \<open>IOTF_Callback::message_arrived\<close>: every handler of the topic is called, in the order in which they were
  registered; without one, the message is a command for the application. The parser's exception about its
  stack is a runtime error.
\<close>

fun call_handlers ::
    "'d env \<Rightarrow> string \<Rightarrow> string \<Rightarrow> handler list \<Rightarrow> 'd iotp_client \<Rightarrow> (exception + unit) \<times> 'd iotp_client" where
  "call_handlers env topic payload [] st = (Inr (), st)"
| "call_handlers env topic payload (h # hs) st =
     (case (case parse_json (e_ops env) payload of
              Reading True jsonPayload _ \<Rightarrow> handler_message_arrived env h topic jsonPayload st
            | Reading False _ _ \<Rightarrow> handler_raw_arrived env h topic payload st
            | StackExceeded \<Rightarrow> (Inl RuntimeError, st)
            | OutOfFuel \<Rightarrow> (Inl Blocks, st)) of
        (Inl e, st) \<Rightarrow> (Inl e, st)
      | (Inr reply, st) \<Rightarrow>
          call_handlers env topic payload hs (case reply of None \<Rightarrow> st | Some r \<Rightarrow> IOTF_send_reply r st))"

definition message_arrived :: "'d env \<Rightarrow> string \<Rightarrow> string \<Rightarrow> 'd iotp_client \<Rightarrow> (exception + unit) \<times> 'd iotp_client" where
  "message_arrived env topic payload st = (case callback_ptr st of
     None \<Rightarrow> (Inr (), st)
   | Some cb \<Rightarrow>
       let st = st\<lparr>callback_ptr := Some (cb\<lparr>mArrivedMessages := mArrivedMessages cb + 1\<rparr>)\<rparr>;
           hs = equal_range topic (mHandlers cb) in
       if hs = [] then
         (if user_callback cb
          then (case command_of_topic topic payload of
              Inl e \<Rightarrow> (Inl e, st)
            | Inr cmd \<Rightarrow> (Inr (), st\<lparr>processed := processed st @ [cmd]\<rparr>))
          else (Inr (), st))
       else call_handlers env topic payload hs st)"

text \<open>Several messages, one after the other. No exception of the callback is caught: it ends the process.\<close>

fun messages_arrive :: "'d env \<Rightarrow> (string \<times> string) list \<Rightarrow> 'd iotp_client \<Rightarrow> (exception + unit) \<times> 'd iotp_client" where
  "messages_arrive env [] st = (Inr (), st)"
| "messages_arrive env ((topic, payload) # msgs) st = (case message_arrived env topic payload st of
     (Inl e, st) \<Rightarrow> (Inl Terminate, st)
   | (Inr _, st) \<Rightarrow> messages_arrive env msgs st)"

section \<open>Requests to the platform\<close>

text \<open>
  \<open>send_message\<close>: the id of the request is the sum of the counter and the time. The message is published
  with a wait for its acknowledgement.
\<close>

definition request_id :: "64 word \<Rightarrow> int \<Rightarrow> string" where
  "request_id counter now = uintToString (uint (counter + word_of_int now))"

definition send_message :: "'d env \<Rightarrow> string \<Rightarrow> 'd json \<Rightarrow> int \<Rightarrow> 'd iotp_client \<Rightarrow> (exception + string) \<times> 'd iotp_client" where
  "send_message env topic data qos st =
     (let counter = mReqCounter st + 1;
          st = st\<lparr>mReqCounter := counter\<rparr>;
          reqId = request_id counter (e_time env counter);
          payload = (if isNull data then nullValue else put_member ''d'' data nullValue);
          payload = put_member ''reqId'' (stringValue reqId) payload
      in case make_message (fast_write (e_ops env) payload) qos False of
           Inl e \<Rightarrow> (Inl e, st)
         | Inr msg \<Rightarrow> (case perform env (MQTTAsync_sendMessage topic msg) False DEFAULT_TIMEOUT st of
              (Inl e, st) \<Rightarrow> (Inl e, st)
            | (Inr a, st) \<Rightarrow> (Inr (if is_complete a st then reqId else ''''), st)))"

text \<open>
  \<open>IOTP_ResponseHandler::wait_for_response\<close>, with the messages that arrive while it waits: it wakes up if
  one of them is a notification of the response handler, and otherwise gives up.
\<close>

definition wait_for_response ::
    "'d env \<Rightarrow> (string \<times> string) list \<Rightarrow> string \<Rightarrow> 'd iotp_client \<Rightarrow> (exception + 'd json) \<times> 'd iotp_client" where
  "wait_for_response env msgs reqId st =
     (let n = notifications st in
      case messages_arrive env msgs st of
        (Inl e, st) \<Rightarrow> (Inl e, st)
      | (Inr _, st) \<Rightarrow>
          if notifications st = n then (Inr nullValue, st)
          else (case mResponseMessages st reqId of
              None \<Rightarrow> (Inr nullValue, st)
            | Some v \<Rightarrow> (Inr v, st\<lparr>mResponseMessages := (mResponseMessages st)(reqId := None)\<rparr>)))"

text \<open>
  A request and its response: \<open>send_message\<close>, the messages that arrive before the wait begins, the wait,
  and the result code of the response.
\<close>

definition request_response ::
    "'d env \<Rightarrow> string \<Rightarrow> 'd json \<Rightarrow> (string \<times> string) list \<Rightarrow> (string \<times> string) list \<Rightarrow> 'd iotp_client \<Rightarrow>
     (exception + bool) \<times> 'd iotp_client" where
  "request_response env topic data before during st =
     (case send_message env topic data 1 st of
        (Inl e, st) \<Rightarrow> (Inl e, st)
      | (Inr reqId, st) \<Rightarrow>
          if reqId = '''' then (Inr False, st)
          else (case messages_arrive env before st of
              (Inl e, st) \<Rightarrow> (Inl e, st)
            | (Inr _, st) \<Rightarrow> (case wait_for_response env during reqId st of
                  (Inl e, st) \<Rightarrow> (Inl e, st)
                | (Inr res, st) \<Rightarrow>
                    (and_then (and_then (get_member res ''rc'' (intValue (-1))) (asInt (e_ops env))) (\<lambda>rc. Inr (rc = 200)), st))))"

definition pushManageMessage ::
    "'d env \<Rightarrow> string \<Rightarrow> 'd json \<Rightarrow> (string \<times> string) list \<Rightarrow> (string \<times> string) list \<Rightarrow> 'd iotp_client \<Rightarrow>
     (exception + bool) \<times> 'd iotp_client" where
  "pushManageMessage env topic data before during st =
     (case subscribeCommandHandler env SERVER_RESPONSE_TOPIC ResponseHandler st of
        (Inl e, st) \<Rightarrow> (Inl e, st)
      | (Inr ok, st) \<Rightarrow> if ok then request_response env topic data before during st else (Inr False, st))"

end
