(* ===== verification/DeviceClient.thy ===== *)
theory DeviceClient
  imports IotpClient
begin

text \<open>
  The device and the gateway client: the configuration (\<open>InitializePropertiesFromFile\<close> and
  \<open>InitializeMqttClient\<close>), connecting, publishing events, commands, device management
  (\<open>src/IOTP_Client.cpp\<close>, \<open>src/IOTP_DeviceClient.cpp\<close>, \<open>src/IOTP_GatewayClient.cpp\<close>), and the progress
  reports of a firmware download or update.
\<close>

section \<open>Configuration\<close>

text \<open>
  \<open>std::stoi\<close>: white space is skipped, a sign and the digits after it are read, what follows is ignored.
\<close>

definition std_stoi :: "string \<Rightarrow> exception + int" where
  "std_stoi s =
     (let s = dropWhile (\<lambda>c. c \<in> {CHR '' '', CHR 0x09, CHR 0x0A, CHR 0x0B, CHR 0x0C, CHR 0x0D}) s;
          neg = starts_with (CHR ''-'') s;
          s = (if neg \<or> starts_with (CHR ''+'') s then tl s else s);
          digits = takeWhile is_digit s;
          v = foldl (\<lambda>v c. v * 10 + digit_value c) 0 digits;
          v = (if neg then - v else v)
      in if digits = [] then Inl InvalidArgument
         else if v < minInt \<or> maxInt < v then Inl OutOfRange
         else Inr v)"

text \<open>
  \<open>InitializePropertiesFromFile\<close> on the contents of the file, \<open>None\<close> if it cannot be opened. \<open>Reader::parse\<close>
  reads a stream up to the first byte 0xFF, the character that its end-of-file mark is cast to. The result is \<open>rc\<close>
  with the properties; those that were set before an error stay set.
\<close>

definition get_setting :: "'d double_ops \<Rightarrow> 'd json \<Rightarrow> string \<Rightarrow> string \<Rightarrow> exception + string" where
  "get_setting ops root key dflt = and_then (get_member root key (stringValue dflt)) (asString ops)"

definition set_required :: "string \<Rightarrow> (string \<Rightarrow> Properties \<Rightarrow> Properties) \<Rightarrow> bool \<times> Properties \<Rightarrow> bool \<times> Properties" where
  "set_required s upd = (\<lambda>(rc, prop). if s = '''' then (False, prop) else (rc, upd s prop))"

definition set_port :: "string \<Rightarrow> bool \<times> Properties \<Rightarrow> exception + bool \<times> Properties" where
  "set_port customPort = (\<lambda>(rc, prop).
     if customPort = '''' then Inr (False, prop)
     else if orgId prop = ''quickstart'' then Inr (rc, prop\<lparr>prop_port := 1883\<rparr>)
     else and_then (std_stoi customPort) (\<lambda>port. Inr (rc, prop\<lparr>prop_port := port\<rparr>)))"

definition set_certificates :: "'d double_ops \<Rightarrow> 'd json \<Rightarrow> bool \<times> Properties \<Rightarrow> exception + bool \<times> Properties" where
  "set_certificates ops root = (\<lambda>(rc, prop).
     if useCerts prop
     then and_then (get_setting ops root ''clientCertPath'' '''') (\<lambda>cert.
       and_then (get_setting ops root ''clientKeyPath'' '''') (\<lambda>key.
       and_then (get_setting ops root ''clientKeyPassword'' '''') (\<lambda>pass.
       Inr (map_prod id (keyPassPhrase_update (\<lambda>_. pass))
         (set_required key (\<lambda>s. privateKey_update (\<lambda>_. s)) (set_required cert (\<lambda>s. keyStore_update (\<lambda>_. s)) (rc, prop)))))))
     else Inr (rc, prop))"

definition set_authentication :: "'d double_ops \<Rightarrow> 'd json \<Rightarrow> bool \<times> Properties \<Rightarrow> exception + bool \<times> Properties" where
  "set_authentication ops root rp =
     and_then (get_setting ops root ''Authentication-Method'' '''') (\<lambda>username.
     and_then (get_setting ops root ''Authentication-Token'' '''') (\<lambda>password.
     and_then (get_setting ops root ''clientTrustStorePath'' '''') (\<lambda>trust.
     and_then (get_setting ops root ''useClientCertificates'' ''false'') (\<lambda>certs.
     set_certificates ops root
       (set_required certs (\<lambda>s. useCerts_update (\<lambda>_. s = ''true''))
       (set_required trust (\<lambda>s. trustStore_update (\<lambda>_. s))
       (set_required password (\<lambda>s. authToken_update (\<lambda>_. s))
       (set_required username (\<lambda>s. authMethod_update (\<lambda>_. s)) rp))))))))"

definition properties_of_json :: "'d double_ops \<Rightarrow> 'd json \<Rightarrow> Properties \<Rightarrow> exception + bool \<times> Properties" where
  "properties_of_json ops root prop =
     and_then (get_setting ops root ''Organization-ID'' '''') (\<lambda>org.
     and_then (get_setting ops root ''Domain'' '''') (\<lambda>dom.
     and_then (get_setting ops root ''Device-Type'' '''') (\<lambda>type.
     and_then (get_setting ops root ''Device-ID'' '''') (\<lambda>did.
     and_then (get_setting ops root ''Port'' ''8883'') (\<lambda>customPort.
     let rp = set_required org (\<lambda>s. orgId_update (\<lambda>_. s)) (True, prop);
         rp = (if dom \<noteq> '''' then map_prod id (domain_update (\<lambda>_. dom)) rp else rp);
         rp = set_required did (\<lambda>s. deviceId_update (\<lambda>_. s)) (set_required type (\<lambda>s. deviceType_update (\<lambda>_. s)) rp)
     in and_then (set_port customPort rp) (\<lambda>rp. if org \<noteq> ''quickstart'' then set_authentication ops root rp else Inr rp))))))"

definition InitializePropertiesFromFile :: "'d double_ops \<Rightarrow> string option \<Rightarrow> Properties \<Rightarrow> exception + bool \<times> Properties" where
  "InitializePropertiesFromFile ops file prop = (case file of
     None \<Rightarrow> Inr (False, prop)
   | Some text \<Rightarrow> (case parse_json ops (takeWhile (\<lambda>c. c \<noteq> CHR 0xFF) text) of
        Reading True root _ \<Rightarrow> properties_of_json ops root prop
      | Reading False _ _ \<Rightarrow> Inr (False, prop)
      | StackExceeded \<Rightarrow> Inl RuntimeError
      | OutOfFuel \<Rightarrow> Inl Blocks))"

text \<open>\<open>std::to_string\<close> of an \<open>int\<close>.\<close>

definition to_string :: "int \<Rightarrow> string" where
  "to_string n = valueToString_int n"

text \<open>\<open>InitializeMqttClient\<close> of the device and of the gateway client; the old \<open>async_client\<close> is not deleted.\<close>

definition device_InitializeMqttClient :: "'d iotp_client \<Rightarrow> bool \<times> 'd iotp_client" where
  "device_InitializeMqttClient st =
     (let p = mProperties st in
      if orgId p = '''' \<or> domain p = '''' \<or> deviceType p = '''' \<or> deviceId p = '''' \<or> (orgId p \<noteq> ''quickstart'' \<and> trustStore p = '''')
      then (False, st)
      else (True, st\<lparr>mServerURI := (if orgId p \<noteq> ''quickstart''
            then ''ssl://'' @ orgId p @ ''.messaging.'' @ domain p @ '':'' @ to_string (prop_port p)
            else ''tcp://'' @ orgId p @ ''.messaging.'' @ domain p @ '':1883''),
          mClientID := ''d:'' @ orgId p @ '':'' @ deviceType p @ '':'' @ deviceId p,
          pasync_client := Some new_async_client\<rparr>))"

definition gateway_InitializeMqttClient :: "'d iotp_client \<Rightarrow> bool \<times> 'd iotp_client" where
  "gateway_InitializeMqttClient st =
     (let p = mProperties st in
      if orgId p = '''' \<or> orgId p \<in> {''quickstart'', ''QuickStart'', ''QUICKSTART''} \<or> domain p = '''' \<or> deviceType p = '''' \<or>
         deviceId p = '''' \<or> trustStore p = ''''
      then (False, st)
      else (True, st\<lparr>mServerURI := ''ssl://'' @ orgId p @ ''.messaging.'' @ domain p @ '':'' @ to_string (prop_port p),
          mClientID := ''g:'' @ orgId p @ '':'' @ deviceType p @ '':'' @ deviceId p,
          pasync_client := Some new_async_client\<rparr>))"

section \<open>Connecting\<close>

definition ssl_of :: "Properties \<Rightarrow> ssl_options" where
  "ssl_of p = \<lparr>ssl_trustStore = trustStore p, ssl_keyStore = (if useCerts p then keyStore p else ''''),
     ssl_privateKey = (if useCerts p then privateKey p else ''''), ssl_privateKeyPassword = (if useCerts p then keyPassPhrase p else '''')\<rparr>"

definition connect_options_of :: "int \<Rightarrow> Properties \<Rightarrow> connect_options" where
  "connect_options_of keepAlive p =
     (if orgId p \<noteq> ''quickstart''
      then \<lparr>co_cleansession = True, co_keepAliveInterval = keepAlive,
        co_userName = (if authMethod p \<noteq> ''token'' then authMethod p else ''use-token-auth''), co_password = authToken p, co_ssl = Some (ssl_of p)\<rparr>
      else \<lparr>co_cleansession = True, co_keepAliveInterval = keepAlive, co_userName = '''', co_password = '''', co_ssl = None\<rparr>)"

text \<open>\<open>set_callback\<close>: a new callback object, without subscriptions.\<close>

definition client_set_callback :: "'d env \<Rightarrow> 'd iotp_client \<Rightarrow> (exception + unit) \<times> 'd iotp_client" where
  "client_set_callback env st = (case pasync_client st of
     None \<Rightarrow> (Inl NullDereference, st)
   | Some cl \<Rightarrow> (case async_set_callback (e_setcb_rc env) cl of
        (Inl e, cl) \<Rightarrow> (Inl e, st\<lparr>pasync_client := Some cl\<rparr>)
      | (Inr _, cl) \<Rightarrow> (Inr (), st\<lparr>pasync_client := Some cl, callback_ptr := Some new_callback\<rparr>)))"

text \<open>
  \<open>IOTP_Client::connect()\<close>. The listener \<open>action\<close> has seen the success of the request exactly if the
  request succeeded; a wrong authentication method makes the result false and does not stop the attempt.
\<close>

definition client_connect :: "'d env \<Rightarrow> 'd iotp_client \<Rightarrow> (exception + bool) \<times> 'd iotp_client" where
  "client_connect env st =
     (let p = mProperties st;
          rc = (orgId p = ''quickstart'' \<or> authMethod p = ''token'') in
      case perform env (MQTTAsync_connect (connect_options_of (mKeepAliveInterval st) p)) True DEFAULT_TIMEOUT st of
        (Inl e, st) \<Rightarrow> (Inl e, st)
      | (Inr a, st) \<Rightarrow>
          (case (if ListenerSuccess a \<in> set (async_log (the (pasync_client st))) then client_set_callback env st else (Inr (), st)) of
             (Inl e, st) \<Rightarrow> (Inl e, st)
           | (Inr _, st) \<Rightarrow> (Inr (rc \<and> is_complete a st), st)))"

definition device_connect :: "'d env \<Rightarrow> 'd iotp_client \<Rightarrow> (exception + bool) \<times> 'd iotp_client" where
  "device_connect env st = (case device_InitializeMqttClient st of
     (False, st) \<Rightarrow> (Inr False, st)
   | (True, st) \<Rightarrow> (case client_connect env st of
        (Inl e, st) \<Rightarrow> (Inl e, st)
      | (Inr rc, st) \<Rightarrow>
          if rc \<and> orgId (mProperties st) \<noteq> ''quickstart''
          then (case subscribeTopic env commandTopic 1 st of (Inl e, st) \<Rightarrow> (Inl e, st) | (Inr _, st) \<Rightarrow> (Inr rc, st))
          else (Inr rc, st)))"

definition device_disconnect :: "'d env \<Rightarrow> 'd iotp_client \<Rightarrow> (exception + unit) \<times> 'd iotp_client" where
  "device_disconnect env st = (case unsubscribeCommands env commandTopic st of
     (Inl e, st) \<Rightarrow> (Inl e, st)
   | (Inr _, st) \<Rightarrow> client_disconnect env st)"

text \<open>The gateway client remembers the topics of its subscriptions, that of the last device only.\<close>

record 'd gateway =
  gw_client :: "'d iotp_client"
  gatewayCMDTopic :: string
  deviceCMDTopic :: string

definition subscribeGatewayCommands :: "'d env \<Rightarrow> 'd gateway \<Rightarrow> (exception + bool) \<times> 'd gateway" where
  "subscribeGatewayCommands env g =
     (let p = mProperties (gw_client g);
          g = g\<lparr>gatewayCMDTopic := gateway_command_topic (deviceType p) (deviceId p)\<rparr>;
          (r, st) = subscribeTopic env (gatewayCMDTopic g) 1 (gw_client g)
      in (r, g\<lparr>gw_client := st\<rparr>))"

definition subscribeDeviceCommands :: "'d env \<Rightarrow> string \<Rightarrow> string \<Rightarrow> 'd gateway \<Rightarrow> (exception + bool) \<times> 'd gateway" where
  "subscribeDeviceCommands env type did g =
     (let g = g\<lparr>deviceCMDTopic := gateway_command_topic type did\<rparr>;
          (r, st) = subscribeTopic env (deviceCMDTopic g) 1 (gw_client g)
      in (r, g\<lparr>gw_client := st\<rparr>))"

definition gateway_connect :: "'d env \<Rightarrow> 'd gateway \<Rightarrow> (exception + bool) \<times> 'd gateway" where
  "gateway_connect env g = (case gateway_InitializeMqttClient (gw_client g) of
     (False, st) \<Rightarrow> (Inr False, g\<lparr>gw_client := st\<rparr>)
   | (True, st) \<Rightarrow> (case client_connect env st of
        (Inl e, st) \<Rightarrow> (Inl e, g\<lparr>gw_client := st\<rparr>)
      | (Inr rc, st) \<Rightarrow>
          if rc then (case subscribeGatewayCommands env (g\<lparr>gw_client := st\<rparr>) of (Inl e, g) \<Rightarrow> (Inl e, g) | (Inr _, g) \<Rightarrow> (Inr rc, g))
          else (Inr rc, g\<lparr>gw_client := st\<rparr>)))"

definition unsubscribe_if_set :: "'d env \<Rightarrow> string \<Rightarrow> 'd iotp_client \<Rightarrow> (exception + unit) \<times> 'd iotp_client" where
  "unsubscribe_if_set env topic st =
     (if topic \<noteq> '''' then (case unsubscribeCommands env topic st of (Inl e, st) \<Rightarrow> (Inl e, st) | (Inr _, st) \<Rightarrow> (Inr (), st))
      else (Inr (), st))"

definition gateway_disconnect :: "'d env \<Rightarrow> 'd gateway \<Rightarrow> (exception + unit) \<times> 'd gateway" where
  "gateway_disconnect env g = (case unsubscribe_if_set env (gatewayCMDTopic g) (gw_client g) of
     (Inl e, st) \<Rightarrow> (Inl e, g\<lparr>gw_client := st\<rparr>)
   | (Inr _, st) \<Rightarrow> (case unsubscribe_if_set env (deviceCMDTopic g) st of
        (Inl e, st) \<Rightarrow> (Inl e, g\<lparr>gw_client := st\<rparr>)
      | (Inr _, st) \<Rightarrow> (case client_disconnect env st of (r, st) \<Rightarrow> (r, g\<lparr>gw_client := st\<rparr>))))"

section \<open>Events\<close>

text \<open>
  \<open>publishEvent\<close>; with a listener or without, the token is not waited for. The events of the gateway client
  without a listener wait for it.
\<close>

definition publish_event :: "'d env \<Rightarrow> string \<Rightarrow> string \<Rightarrow> int \<Rightarrow> bool \<Rightarrow> 'd iotp_client \<Rightarrow> (exception + unit) \<times> 'd iotp_client" where
  "publish_event env topic data qos listener st = (case make_message data qos False of
     Inl e \<Rightarrow> (Inl e, st)
   | Inr msg \<Rightarrow> (case publishTopic env topic msg listener st of (Inl e, st) \<Rightarrow> (Inl e, st) | (Inr _, st) \<Rightarrow> (Inr (), st)))"

definition publishEvent ::
    "'d env \<Rightarrow> string \<Rightarrow> string \<Rightarrow> string \<Rightarrow> int \<Rightarrow> bool \<Rightarrow> 'd iotp_client \<Rightarrow> (exception + unit) \<times> 'd iotp_client" where
  "publishEvent env eventType eventFormat data qos listener st =
     publish_event env (device_event_topic eventType eventFormat) data qos listener st"

definition publishDeviceEvent ::
    "'d env \<Rightarrow> string \<Rightarrow> string \<Rightarrow> string \<Rightarrow> string \<Rightarrow> string \<Rightarrow> int \<Rightarrow> bool \<Rightarrow> 'd iotp_client \<Rightarrow> (exception + unit) \<times> 'd iotp_client" where
  "publishDeviceEvent env type did eventType eventFormat data qos listener st =
     (let topic = gateway_event_topic type did eventType eventFormat in
      if listener then publish_event env topic data qos True st
      else (case make_message data qos False of
          Inl e \<Rightarrow> (Inl e, st)
        | Inr msg \<Rightarrow> (case perform env (MQTTAsync_sendMessage topic msg) False DEFAULT_TIMEOUT st of
             (Inl e, st) \<Rightarrow> (Inl e, st) | (Inr _, st) \<Rightarrow> (Inr (), st))))"

definition publishGatewayEvent ::
    "'d env \<Rightarrow> string \<Rightarrow> string \<Rightarrow> string \<Rightarrow> int \<Rightarrow> bool \<Rightarrow> 'd iotp_client \<Rightarrow> (exception + unit) \<times> 'd iotp_client" where
  "publishGatewayEvent env eventType eventFormat data qos listener st =
     publishDeviceEvent env (deviceType (mProperties st)) (deviceId (mProperties st)) eventType eventFormat data qos listener st"

section \<open>Device management\<close>

text \<open>The handlers that the client was constructed with; the device data may be missing.\<close>

record 'd managed =
  has_action :: bool
  has_firmware :: bool
  has_attribute :: bool
  device_data :: "'d device_info option"
  mLifetime :: int

definition manage_data :: "'d managed \<Rightarrow> 'd device_info \<Rightarrow> 'd json" where
  "manage_data m info =
     put_member ''deviceInfo'' (info_json info)
       (put_member ''supports''
          (put_member ''firmwareActions'' (booleanValue (has_firmware m)) (put_member ''deviceActions'' (booleanValue (has_action m)) nullValue))
          (put_member ''lifetime'' (intValue (mLifetime m)) nullValue))"

fun subscribe_handlers :: "'d env \<Rightarrow> (string \<times> handler) list \<Rightarrow> 'd iotp_client \<Rightarrow> (exception + unit) \<times> 'd iotp_client" where
  "subscribe_handlers env [] st = (Inr (), st)"
| "subscribe_handlers env ((topic, h) # ths) st = (case subscribeCommandHandler env topic h st of
     (Inl e, st) \<Rightarrow> (Inl e, st)
   | (Inr _, st) \<Rightarrow> subscribe_handlers env ths st)"

definition management_handlers :: "'d managed \<Rightarrow> (string \<times> handler) list" where
  "management_handlers m =
     (if has_firmware m then [(SERVER_UPDATE_TOPIC, FirmwareHandler), (SERVER_OBSERVE_TOPIC, FirmwareHandler),
        (SERVER_CANCEL_TOPIC, FirmwareHandler), (SERVER_FIRMWARE_DOWNLOAD_TOPIC, FirmwareHandler),
        (SERVER_FIRMWARE_UPDATE_TOPIC, FirmwareHandler)] else []) @
     (if has_action m then [(SERVER_DEVICE_REBOOT_TOPIC, ActionHandler), (SERVER_FACTORY_RESET_TOPIC, ActionHandler)] else []) @
     (if has_attribute m then [(SERVER_UPDATE_TOPIC, AttributeHandler)] else [])"

definition device_manage ::
    "'d env \<Rightarrow> 'd managed \<Rightarrow> (string \<times> string) list \<Rightarrow> (string \<times> string) list \<Rightarrow> 'd iotp_client \<Rightarrow> (exception + bool) \<times> 'd iotp_client" where
  "device_manage env m before during st = (case subscribeCommandHandler env SERVER_RESPONSE_TOPIC ResponseHandler st of
     (Inl e, st) \<Rightarrow> (Inl e, st)
   | (Inr ok, st) \<Rightarrow>
       if \<not> ok then (Inr False, st)
       else (case device_data m of
           None \<Rightarrow> (Inl NullDereference, st)
         | Some info \<Rightarrow> (case request_response env DEVICE_MANAGE_TOPIC (manage_data m info) before during st of
              (Inl e, st) \<Rightarrow> (Inl e, st)
            | (Inr True, st) \<Rightarrow> (case subscribe_handlers env (management_handlers m) st of (Inl e, st) \<Rightarrow> (Inl e, st) | (Inr _, st) \<Rightarrow> (Inr True, st))
            | (Inr False, st) \<Rightarrow> (Inr False, st))))"

definition device_unmanage :: "'d env \<Rightarrow> 'd iotp_client \<Rightarrow> (exception + bool) \<times> 'd iotp_client" where
  "device_unmanage env st = (case send_message env DEVICE_UNMANAGE_TOPIC nullValue 1 st of
     (Inl e, st) \<Rightarrow> (Inl e, st)
   | (Inr reqId, st) \<Rightarrow> (case unsubscribeCommands env SERVER_RESPONSE_TOPIC st of
        (Inl e, st) \<Rightarrow> (Inl e, st)
      | (Inr _, st) \<Rightarrow> (Inr (reqId \<noteq> ''''), st)))"

definition update_device_location where
  "update_device_location env loc before during st =
     pushManageMessage env DEVICE_UPDATE_LOCATION_TOPIC (location_json loc) before during st"

definition addErrorCodes where
  "addErrorCodes env num before during st =
     pushManageMessage env DEVICE_ADD_ERROR_CODES_TOPIC (put_member ''errorCode'' (intValue num) nullValue) before during st"

definition clearErrorCodes where
  "clearErrorCodes env before during st = pushManageMessage env DEVICE_CLEAR_ERROR_CODES_TOPIC nullValue before during st"

definition addLogs where
  "addLogs env log before during st = pushManageMessage env DEVICE_ADD_DIAG_LOG_TOPIC (log_json log) before during st"

definition clearLogs where
  "clearLogs env before during st = pushManageMessage env DEVICE_CLEAR_DIAG_LOG_TOPIC nullValue before during st"

section \<open>Progress of firmware actions\<close>

text \<open>
  The loops of \<open>check_download_progress\<close> and \<open>check_update_progress\<close>: the replies that the thread puts in
  the queue. \<open>report i p\<close> is what the application makes of the firmware information in turn \<open>i\<close>; the
  replies go out if the handler knows its client.
\<close>

definition progress_payload :: "'d json \<Rightarrow> 'd json" where
  "progress_payload v =
     put_member ''d'' (put_member ''fields'' (arrayValue [put_member ''value'' v (put_member ''field'' (stringValue ''mgmt.firmware'') nullValue)]) nullValue) nullValue"

definition download_value :: "'d firmware_info \<Rightarrow> 'd json" where
  "download_value p = put_member ''state'' (intValue (mState p)) nullValue"

definition update_value :: "'d double_ops \<Rightarrow> 'd firmware_info \<Rightarrow> 'd json" where
  "update_value ops p =
     (let v = put_member ''updateStatus'' (intValue (mUpdateStatus p)) (put_member ''state'' (intValue (mState p)) nullValue) in
      if mUpdateStatus p = FIRMWARE_INFO_UPDATE_STATUS_SUCCESS
      then put_member ''updatedDateTime'' (stringValue (case get_text ops (fw_json p) ''updatedDateTime'' of Inr s \<Rightarrow> s | Inl _ \<Rightarrow> '''')) v
      else v)"

fun progress_loop ::
    "nat \<Rightarrow> nat \<Rightarrow> (nat \<Rightarrow> 'd firmware_info \<Rightarrow> 'd firmware_info) \<Rightarrow> ('d firmware_info \<Rightarrow> 'd json) \<Rightarrow>
     ('d firmware_info \<Rightarrow> bool) \<Rightarrow> 'd firmware_info \<Rightarrow> 'd reply_message list" where
  "progress_loop 0 i report val over p = []"
| "progress_loop (Suc n) i report val over p =
     (let p = report i p; reply = new_reply DEVICE_NOTIFY_TOPIC (progress_payload (val p)) in
      reply # (if over p then [] else progress_loop n (Suc i) report val over p))"

definition check_download_progress :: "(nat \<Rightarrow> 'd firmware_info \<Rightarrow> 'd firmware_info) \<Rightarrow> 'd reply_message list" where
  "check_download_progress report =
     progress_loop 10 0 report download_value (\<lambda>p. mState p = FIRMWARE_INFO_STATE_DOWNLOADED) (new_firmware_info None None None None)"

definition check_update_progress ::
    "'d double_ops \<Rightarrow> (nat \<Rightarrow> 'd firmware_info \<Rightarrow> 'd firmware_info) \<Rightarrow> 'd reply_message list" where
  "check_update_progress ops report =
     progress_loop 10 0 report (update_value ops) (\<lambda>p. mUpdateStatus p \<noteq> FIRMWARE_INFO_UPDATE_STATUS_IN_PROGRESS)
       (new_firmware_info None None None None)"

text \<open>
  \<open>IOTP_Client::connect(cb)\<close>; the third component is the call made to the application's listener, its
  \<open>on_success\<close> or \<open>on_failure\<close>.
\<close>

definition client_connect_listener ::
    "'d env \<Rightarrow> 'd iotp_client \<Rightarrow> (exception + bool) \<times> 'd iotp_client \<times> bool option" where
  "client_connect_listener env st =
     (let p = mProperties st;
          rc = (authMethod p = ''token'');
          opts = \<lparr>co_cleansession = True, co_keepAliveInterval = mKeepAliveInterval st,
            co_userName = (if rc then ''use-token-auth'' else ''''), co_password = authToken p, co_ssl = None\<rparr> in
      case perform env (MQTTAsync_connect opts) True DEFAULT_TIMEOUT st of
        (Inl e, st) \<Rightarrow> (Inl e, st, None)
      | (Inr a, st) \<Rightarrow>
          if ListenerSuccess a \<in> set (async_log (the (pasync_client st)))
          then (case client_set_callback env st of
              (Inl e, st) \<Rightarrow> (Inl e, st, Some True)
            | (Inr _, st) \<Rightarrow> (Inr (rc \<and> is_complete a st), st, Some True))
          else (Inr (rc \<and> is_complete a st), st, Some False))"

section \<open>Facts about requests\<close>

text \<open>The requests made so far, and those topics whose last successful request is a subscription.\<close>

definition calls :: "notice list \<Rightarrow> (request \<times> int) list" where
  "calls log = concat (map (\<lambda>n. case n of Called req rc \<Rightarrow> [(req, rc)] | _ \<Rightarrow> []) log)"

definition confirm :: "fate \<Rightarrow> request \<Rightarrow> string set \<Rightarrow> string set" where
  "confirm f req S = (case f of
     Succeeds _ \<Rightarrow> (case req of
         MQTTAsync_subscribe t q \<Rightarrow> insert t S
       | MQTTAsync_unsubscribe t \<Rightarrow> S - {t}
       | _ \<Rightarrow> S)
   | _ \<Rightarrow> S)"

fun confirmed_from :: "'d env \<Rightarrow> nat \<Rightarrow> (request \<times> int) list \<Rightarrow> string set \<Rightarrow> string set" where
  "confirmed_from env n [] S = S"
| "confirmed_from env n ((req, rc) # cs) S = confirmed_from env (Suc n) cs (confirm (e_fate env n) req S)"

definition confirmed :: "'d env \<Rightarrow> 'd iotp_client \<Rightarrow> string set" where
  "confirmed env st = (case pasync_client st of
     None \<Rightarrow> {}
   | Some cl \<Rightarrow> confirmed_from env 0 (calls (async_log cl)) {})"

lemma confirmed_from_snoc:
  "confirmed_from env n (cs @ [(req, rc)]) S = confirm (e_fate env (n + length cs)) req (confirmed_from env n cs S)"
  by (induction env n cs S rule: confirmed_from.induct) simp_all

text \<open>Every request has made one call and one token.\<close>

definition counted :: "'d iotp_client \<Rightarrow> bool" where
  "counted st \<longleftrightarrow> (\<exists>cl. pasync_client st = Some cl \<and> length (calls (async_log cl)) = length (tokens cl))"

lemma calls_simps [simp]:
  "calls [] = []" "calls (xs @ ys) = calls xs @ calls ys" "calls (Called req rc # xs) = (req, rc) # calls xs"
  "calls (ListenerSuccess a # xs) = calls xs" "calls (ListenerFailure a # xs) = calls xs" "calls (DeliveryComplete a # xs) = calls xs"
  by (simp_all add: calls_def)

lemma remove_token_frame: "calls (async_log (remove_token a cl)) = calls (async_log cl)" "tokens (remove_token a cl) = tokens cl"
  "userCallback (remove_token a cl) = userCallback cl"
  by (auto simp: remove_token_def Let_def)

lemma start_request_calls:
  "calls (async_log (snd (start_request t req rc m cl))) = calls (async_log cl) @ [(req, rc)]"
  "length (tokens (snd (start_request t req rc m cl))) = Suc (length (tokens cl))"
  "fst (start_request t req rc m cl) = (if rc \<noteq> 0 then Inl (MqttException rc) else Inr (length (tokens cl)))"
  "tok_complete t = False \<Longrightarrow> \<not> tok_complete (tokens (snd (start_request t req rc m cl)) ! length (tokens cl))"
  by (auto simp: start_request_def add_token_def remove_token_frame Let_def)

lemma answer_calls: "calls (async_log (answer f a cl)) = calls (async_log cl)" "length (tokens (answer f a cl)) = length (tokens cl)"
  by (auto simp: answer_def token_on_success_def token_on_failure_def remove_token_frame Let_def split: fate.splits option.splits prod.splits)

lemma answer_token:
  assumes "a < length (tokens cl)"
  shows "f = Succeeds rsp \<Longrightarrow> tok_complete (tokens (answer f a cl) ! a) \<and> tok_rc (tokens (answer f a cl) ! a) = 0"
    "f = Fails rsp' \<Longrightarrow> tok_complete (tokens (answer f a cl) ! a) \<and>
       tok_rc (tokens (answer f a cl) ! a) = (case rsp' of None \<Rightarrow> -1 | Some (i, code) \<Rightarrow> code)"
    "f = Silent \<or> f = Refused rc \<Longrightarrow> answer f a cl = cl"
  using assms by (auto simp: answer_def token_on_success_def token_on_failure_def remove_token_frame Let_def split: option.splits prod.splits)

text \<open>
  A request of the client: it succeeds exactly if the environment answers it with success, provided that
  the library reports no failure with the code of success.
\<close>

definition honest :: "'d env \<Rightarrow> bool" where
  "honest env \<longleftrightarrow> (\<forall>n i. e_fate env n \<noteq> Fails (Some (i, 0)))"

definition simple_request :: "request \<Rightarrow> bool" where
  "simple_request req \<longleftrightarrow> well_formed (Issue req False 0 0)"

lemma simple_request_simps [simp]:
  "simple_request (MQTTAsync_subscribe t q)" "simple_request (MQTTAsync_unsubscribe t)" "simple_request (MQTTAsync_sendMessage t msg)"
  "simple_request (MQTTAsync_connect opts)" "simple_request (MQTTAsync_disconnect n)"
  by (simp_all add: simple_request_def)

lemma perform_result:
  assumes "honest env" "counted st" "simple_request req" "0 < timeout"
  shows "\<exists>cl'. snd (perform env req l timeout st) = st\<lparr>pasync_client := Some cl'\<rparr> \<and>
    counted (snd (perform env req l timeout st)) \<and>
    (case e_fate env (length (tokens (the (pasync_client st)))) of
       Succeeds _ \<Rightarrow> fst (perform env req l timeout st) = Inr (length (tokens (the (pasync_client st)))) \<and>
         is_complete (length (tokens (the (pasync_client st)))) (snd (perform env req l timeout st))
     | _ \<Rightarrow> \<exists>e. fst (perform env req l timeout st) = Inl e) \<and>
    confirmed env (snd (perform env req l timeout st)) =
      confirm (e_fate env (length (tokens (the (pasync_client st))))) req (confirmed env st)"
proof -
  obtain cl where cl: "pasync_client st = Some cl" "length (calls (async_log cl)) = length (tokens cl)"
    using assms(2) by (auto simp: counted_def)
  let ?n = "length (tokens cl)"
  let ?f = "e_fate env ?n"
  have "well_formed (Issue req l (refusal ?f) (e_msgid env ?n))" using assms(3) by (cases req) (auto simp: simple_request_def)
  then obtain m where m: "issue req l (refusal ?f) (e_msgid env ?n) cl = start_request (request_token req l) req (refusal ?f) m cl"
    using issue_starts by blast
  define cl1 where "cl1 = snd (start_request (request_token req l) req (refusal ?f) m cl)"
  note sr = start_request_calls [of "request_token req l" req "refusal ?f" m cl, folded cl1_def]
  have s: "start env req l st = (if refusal ?f \<noteq> 0 then Inl (MqttException (refusal ?f)) else Inr ?n, st\<lparr>pasync_client := Some cl1\<rparr>)"
    using sr(3) by (simp add: start_def cl m Let_def cl1_def split_beta prod_eq_iff)
  have lt: "?n < length (tokens cl1)" using sr(2) by simp
  show ?thesis
  proof (cases "refusal ?f = 0")
    case False
    then have "\<exists>rc. ?f = Refused rc" by (auto simp: refusal_def split: fate.splits)
    with False s sr cl show ?thesis
      by (auto simp: perform_def counted_def confirmed_def confirmed_from_snoc confirm_def)
  next
    case True
    let ?cl2 = "answer ?f ?n cl1"
    have p: "perform env req l timeout st =
        (case wait_for_completion ?n timeout ?cl2 of None \<Rightarrow> Inl Blocks | Some (Inl e) \<Rightarrow> Inl e | Some (Inr _) \<Rightarrow> Inr ?n,
         st\<lparr>pasync_client := Some ?cl2\<rparr>)"
      using s True by (auto simp: perform_def Let_def split: option.split sum.split)
    have c2: "calls (async_log ?cl2) = calls (async_log cl) @ [(req, 0)]" "length (tokens ?cl2) = Suc ?n"
      using sr True answer_calls [of ?f ?n cl1] by simp_all
    have inc: "\<not> tok_complete (tokens cl1 ! ?n)" using sr(4) request_token_fresh(1) by auto
    have w: "case ?f of Succeeds _ \<Rightarrow> wait_for_completion ?n timeout ?cl2 = Some (Inr ()) \<and> tok_complete (tokens ?cl2 ! ?n)
        | _ \<Rightarrow> \<exists>e. wait_for_completion ?n timeout ?cl2 = Some (Inl e)"
    proof (cases ?f)
      case (Fails rsp)
      with assms(1) have "\<forall>i. rsp \<noteq> Some (i, 0)" by (auto simp: honest_def)
      with Fails answer_token(2) [OF lt, where f = ?f and rsp' = rsp] show ?thesis by (auto simp: wait_for_completion_def Let_def split: option.splits)
    next
      case (Succeeds rsp)
      with answer_token(1) [OF lt, where f = ?f and rsp = rsp] show ?thesis by (simp add: wait_for_completion_def)
    next
      case (Refused rc)
      with answer_token(3) [OF lt, where f = ?f and rc = rc] inc assms(4) show ?thesis by (simp add: wait_for_completion_def)
    next
      case Silent
      with answer_token(3) [OF lt, where f = ?f] inc assms(4) show ?thesis by (simp add: wait_for_completion_def)
    qed
    show ?thesis using w cl c2 unfolding p
      by (auto simp: counted_def confirmed_def confirmed_from_snoc is_complete_def split: fate.splits)
  qed
qed

lemma perform_outcome:
  assumes "honest env" "counted st" "simple_request req" "0 < timeout" "perform env req l timeout st = (r, st')"
    "n = length (tokens (the (pasync_client st)))"
  obtains (success) cl' rsp where "st' = st\<lparr>pasync_client := Some cl'\<rparr>" "counted st'" "e_fate env n = Succeeds rsp" "r = Inr n" "is_complete n st'"
      "confirmed env st' = confirm (Succeeds rsp) req (confirmed env st)"
  | (failure) cl' e where "st' = st\<lparr>pasync_client := Some cl'\<rparr>" "counted st'" "\<And>rsp. e_fate env n \<noteq> Succeeds rsp" "r = Inl e"
      "confirmed env st' = confirmed env st"
  using perform_result [OF assms(1-4), of l] assms(5,6)
  by (cases "e_fate env n") (auto simp: confirm_def)

end
