(* ===== verification/Management.thy ===== *)
theory Management
  imports DeviceClient JsonRoundtrip
begin

text \<open>
  Properties of the device client: its configuration, its subscriptions, requests to the device management
  and their responses, and requests from it.
\<close>

section \<open>Configuration\<close>

lemma and_then_Inr: "and_then r f = Inr y \<longleftrightarrow> (\<exists>x. r = Inr x \<and> f x = Inr y)"
  by (cases r) auto

lemma set_required_True:
  "set_required s upd rp = (True, p') \<longleftrightarrow> s \<noteq> '''' \<and> (\<exists>p. rp = (True, p) \<and> p' = upd s p)"
  by (cases rp) (auto simp: set_required_def)

lemma set_certificates_True:
  assumes "set_certificates ops root (rc, p) = Inr (True, p')"
  shows "rc \<and> trustStore p' = trustStore p \<and> authMethod p' = authMethod p \<and> authToken p' = authToken p \<and>
    orgId p' = orgId p \<and> domain p' = domain p \<and> deviceType p' = deviceType p \<and> deviceId p' = deviceId p \<and> prop_port p' = prop_port p"
proof (cases "useCerts p")
  case True
  with assms obtain cert key pass where
    "map_prod id (keyPassPhrase_update (\<lambda>_. pass)) (set_required key (\<lambda>s. privateKey_update (\<lambda>_. s))
       (set_required cert (\<lambda>s. keyStore_update (\<lambda>_. s)) (rc, p))) = (True, p')"
    by (auto simp: set_certificates_def and_then_Inr)
  then show ?thesis by (auto simp: set_required_def split: if_splits)
next
  case False
  with assms show ?thesis by (simp add: set_certificates_def)
qed

lemma set_authentication_True:
  assumes "set_authentication ops root (rc, p) = Inr (True, p')"
  shows "rc \<and> trustStore p' \<noteq> '''' \<and> authMethod p' \<noteq> '''' \<and> authToken p' \<noteq> '''' \<and>
    orgId p' = orgId p \<and> domain p' = domain p \<and> deviceType p' = deviceType p \<and> deviceId p' = deviceId p \<and> prop_port p' = prop_port p"
proof -
  from assms obtain u w t c where
    r: "set_certificates ops root (set_required c (\<lambda>s. useCerts_update (\<lambda>_. s = ''true'')) (set_required t (\<lambda>s. trustStore_update (\<lambda>_. s))
       (set_required w (\<lambda>s. authToken_update (\<lambda>_. s)) (set_required u (\<lambda>s. authMethod_update (\<lambda>_. s)) (rc, p))))) = Inr (True, p')"
    unfolding set_authentication_def and_then_Inr by blast
  obtain rc2 p2 where
    p2: "set_required c (\<lambda>s. useCerts_update (\<lambda>_. s = ''true'')) (set_required t (\<lambda>s. trustStore_update (\<lambda>_. s))
       (set_required w (\<lambda>s. authToken_update (\<lambda>_. s)) (set_required u (\<lambda>s. authMethod_update (\<lambda>_. s)) (rc, p)))) = (rc2, p2)"
    by fastforce
  note sc = set_certificates_True [OF r [unfolded p2]]
  with p2 have "rc \<and> c \<noteq> '''' \<and> t \<noteq> '''' \<and> w \<noteq> '''' \<and> u \<noteq> '''' \<and>
      p2 = p\<lparr>authMethod := u, authToken := w, trustStore := t, useCerts := c = ''true''\<rparr>"
    by (auto simp: set_required_True)
  with sc show ?thesis by auto
qed

lemma set_port_True:
  assumes "set_port s (rc, p) = Inr (True, p')"
  shows "rc \<and> (\<exists>n. p' = p\<lparr>prop_port := n\<rparr>)"
  using assms by (auto simp: set_port_def and_then_Inr split: if_splits)

text \<open>
  C18. A configuration that is accepted suffices to connect: if \<open>InitializePropertiesFromFile\<close> returns true
  on the properties of a new client, then \<open>InitializeMqttClient\<close> of the device client succeeds with them; the
  client id and the server's address consist of the organisation, the domain, the device's type and id and
  the port, none of the names being empty, and outside of quickstart there are a method and a token for the
  authentication and a trust store.
\<close>

theorem configured_device_initializes:
  assumes "InitializePropertiesFromFile ops file default_properties = Inr (True, p)" "mProperties st = p"
  shows "fst (device_InitializeMqttClient st) \<and>
    mClientID (snd (device_InitializeMqttClient st)) = ''d:'' @ orgId p @ '':'' @ deviceType p @ '':'' @ deviceId p \<and>
    mServerURI (snd (device_InitializeMqttClient st)) =
      (if orgId p = ''quickstart'' then ''tcp://quickstart.messaging.'' @ domain p @ '':1883''
       else ''ssl://'' @ orgId p @ ''.messaging.'' @ domain p @ '':'' @ to_string (prop_port p)) \<and>
    orgId p \<noteq> '''' \<and> domain p \<noteq> '''' \<and> deviceType p \<noteq> '''' \<and> deviceId p \<noteq> '''' \<and>
    (orgId p \<noteq> ''quickstart'' \<longrightarrow> authMethod p \<noteq> '''' \<and> authToken p \<noteq> '''' \<and> trustStore p \<noteq> '''')"
proof -
  obtain root where root: "properties_of_json ops root default_properties = Inr (True, p)"
    using assms(1) by (auto simp: InitializePropertiesFromFile_def split: option.splits reading.splits bool.splits)
  then obtain org dom type did port rp where
    rp: "rp = set_required did (\<lambda>s. deviceId_update (\<lambda>_. s)) (set_required type (\<lambda>s. deviceType_update (\<lambda>_. s))
      (if dom \<noteq> '''' then map_prod id (domain_update (\<lambda>_. dom)) (set_required org (\<lambda>s. orgId_update (\<lambda>_. s)) (True, default_properties))
       else set_required org (\<lambda>s. orgId_update (\<lambda>_. s)) (True, default_properties)))"
    and r: "and_then (set_port port rp) (\<lambda>rp. if org \<noteq> ''quickstart'' then set_authentication ops root rp else Inr rp) = Inr (True, p)"
    unfolding properties_of_json_def and_then_Inr Let_def by metis
  from r obtain rc1 p1 where p1: "set_port port rp = Inr (rc1, p1)"
    "(if org \<noteq> ''quickstart'' then set_authentication ops root (rc1, p1) else Inr (rc1, p1)) = Inr (True, p)"
    unfolding and_then_Inr by auto
  then have rc1: "rc1" using set_authentication_True [of ops root rc1 p1 p] by (auto split: if_splits)
  have same: "orgId p = orgId p1 \<and> domain p = domain p1 \<and> deviceType p = deviceType p1 \<and> deviceId p = deviceId p1 \<and>
      (org \<noteq> ''quickstart'' \<longrightarrow> authMethod p \<noteq> '''' \<and> authToken p \<noteq> '''' \<and> trustStore p \<noteq> '''')"
    using p1(2) set_authentication_True [of ops root rc1 p1 p] by (auto split: if_splits)
  obtain rc0 p0 where rp0: "rp = (rc0, p0)" by (cases rp)
  with p1(1) rc1 set_port_True [of port rc0 p0 p1] have "rc0" and s1: "\<exists>n. p1 = p0\<lparr>prop_port := n\<rparr>" by auto
  with rp rp0 have "org \<noteq> '''' \<and> type \<noteq> '''' \<and> did \<noteq> '''' \<and> orgId p0 = org \<and> domain p0 \<noteq> '''' \<and> deviceType p0 = type \<and> deviceId p0 = did"
    by (auto simp: set_required_def map_prod_def default_properties_def split: if_splits)
  with same s1 have f: "orgId p = org" "org \<noteq> ''''" "domain p \<noteq> ''''" "deviceType p \<noteq> ''''" "deviceId p \<noteq> ''''"
    "org \<noteq> ''quickstart'' \<longrightarrow> authMethod p \<noteq> '''' \<and> authToken p \<noteq> '''' \<and> trustStore p \<noteq> ''''" by auto
  with assms(2) show ?thesis by (auto simp: device_InitializeMqttClient_def Let_def)
qed

definition example_config :: "unit json" where
  "example_config = objectValue [(''Device-ID'', stringValue ''d1''), (''Device-Type'', stringValue ''t1''), (''Organization-ID'', stringValue ''quickstart'')]"

theorem configured_device_initializes_witness:
  "let p = default_properties\<lparr>orgId := ''quickstart'', deviceType := ''t1'', deviceId := ''d1'', prop_port := 1883\<rparr>;
       st = InitializeProperties p :: unit iotp_client
   in InitializePropertiesFromFile half_ops (Some (fast_write half_ops example_config)) default_properties = Inr (True, p) \<and>
     fst (device_InitializeMqttClient st) \<and> mClientID (snd (device_InitializeMqttClient st)) = ''d:quickstart:t1:d1''"
proof -
  have "InitializePropertiesFromFile half_ops (Some (fast_write half_ops example_config)) default_properties =
      Inr (True, default_properties\<lparr>orgId := ''quickstart'', deviceType := ''t1'', deviceId := ''d1'', prop_port := 1883\<rparr>)"
    by code_simp
  with configured_device_initializes [OF this, of "InitializeProperties _ :: unit iotp_client"] show ?thesis
    by (simp add: Let_def InitializeProperties_def)
qed

section \<open>Subscriptions\<close>

text \<open>
  A sequence of subscriptions, to topics of commands and with a handler of the device management, and of their ends.
\<close>

datatype subscription_op = Sub string int | Handle string handler | Unsub string

fun subscription_step :: "'d env \<Rightarrow> subscription_op \<Rightarrow> 'd iotp_client \<Rightarrow> (exception + bool) \<times> 'd iotp_client" where
  "subscription_step env (Sub topic qos) st = subscribeTopic env topic qos st"
| "subscription_step env (Handle topic h) st = subscribeCommandHandler env topic h st"
| "subscription_step env (Unsub topic) st = unsubscribeCommands env topic st"

fun subscription_run :: "'d env \<Rightarrow> subscription_op list \<Rightarrow> 'd iotp_client \<Rightarrow> 'd iotp_client" where
  "subscription_run env [] st = st"
| "subscription_run env (x # ops) st = subscription_run env ops (snd (subscription_step env x st))"

text \<open>The ways in which topics are subscribed to: with one of the handlers or without. Each topic in one way only: \<open>one_way\<close>.\<close>

fun ways :: "subscription_op \<Rightarrow> (string \<times> handler option) list" where
  "ways (Sub topic qos) = [(topic, None)]"
| "ways (Handle topic h) = [(topic, Some h)]"
| "ways (Unsub topic) = []"

definition one_way :: "subscription_op list \<Rightarrow> bool" where
  "one_way ops \<longleftrightarrow> (let ws = concat (map ways ops) in list_all (\<lambda>v. list_all (\<lambda>w. fst v = fst w \<longrightarrow> snd v = snd w) ws) ws)"

lemma one_wayD: "\<lbrakk>one_way ops; (t, k) \<in> set (concat (map ways ops)); (t, l) \<in> set (concat (map ways ops))\<rbrakk> \<Longrightarrow> k = l"
  unfolding one_way_def Let_def list_all_iff by (metis fst_conv snd_conv)

lemma remove1_gone: "\<lbrakk>x \<in> set xs; x \<notin> set (remove1 y xs)\<rbrakk> \<Longrightarrow> x = y"
  by (metis in_set_remove1)

lemma list_all_remove1: "list_all P xs \<Longrightarrow> list_all P (remove1 x xs)"
  using set_remove1_subset [of x xs] by (auto simp: list_all_iff)

text \<open>The list holds all confirmed subscriptions; it holds each once and no other.\<close>

definition covers :: "'d env \<Rightarrow> 'd iotp_client \<Rightarrow> bool" where
  "covers env st \<longleftrightarrow> counted st \<and> (\<exists>cb. callback_ptr st = Some cb \<and> confirmed env st \<subseteq> set (mSubscriptions cb))"

definition registered :: "(string \<times> handler option) set \<Rightarrow> (string \<times> handler) set \<Rightarrow> string \<Rightarrow> bool" where
  "registered W hs t \<longleftrightarrow> (\<exists>k. (t, k) \<in> W \<and> (case k of None \<Rightarrow> True | Some h \<Rightarrow> (t, h) \<in> hs))"

definition agrees :: "'d env \<Rightarrow> (string \<times> handler option) set \<Rightarrow> 'd iotp_client \<Rightarrow> bool" where
  "agrees env W st \<longleftrightarrow> counted st \<and> (\<exists>cb. callback_ptr st = Some cb \<and> distinct (mSubscriptions cb) \<and>
     set (mSubscriptions cb) = confirmed env st \<and>
     list_all (registered W (set (mHandlers cb))) (mSubscriptions cb))"

lemma confirmed_callback [simp]: "confirmed env (st\<lparr>callback_ptr := c\<rparr>) = confirmed env st" "counted (st\<lparr>callback_ptr := c\<rparr>) = counted st"
  "confirmed env (st\<lparr>handler_client := hs\<rparr>) = confirmed env st" "counted (st\<lparr>handler_client := hs\<rparr>) = counted st"
  by (simp_all add: confirmed_def counted_def)

lemma set_multimap_insert [simp]: "set (multimap_insert t h hs) = insert (t, h) (set hs)"
  by (induction t h hs rule: multimap_insert.induct) auto

lemma subscription_covers:
  assumes "honest env" "covers env st"
  shows "covers env (snd (subscription_step env x st))"
proof -
  obtain cb where cb: "callback_ptr st = Some cb" "confirmed env st \<subseteq> set (mSubscriptions cb)" and c: "counted st"
    using assms(2) by (auto simp: covers_def)
  show ?thesis
  proof (cases x)
    case (Sub topic qos)
    obtain r st' where p: "perform env (MQTTAsync_subscribe topic qos) False DEFAULT_TIMEOUT st = (r, st')" by fastforce
    show ?thesis unfolding Sub
      by (rule perform_outcome [OF assms(1) c _ _ p refl])
        (use cb c assms(2) p in \<open>auto simp: subscribeTopic_def check_subscription_def covers_def add_subscription_def confirm_def\<close>)
  next
    case (Handle topic h)
    obtain r st' where p: "perform env (MQTTAsync_subscribe topic 1) False DEFAULT_TIMEOUT st = (r, st')" by fastforce
    show ?thesis unfolding Handle
      by (rule perform_outcome [OF assms(1) c _ _ p refl])
        (use cb c assms(2) p in \<open>auto simp: subscribeCommandHandler_def check_subscription_handler_def covers_def
          add_subscription_handler_def confirm_def\<close>)
  next
    case (Unsub topic)
    obtain r st' where p: "perform env (MQTTAsync_unsubscribe topic) False DEFAULT_TIMEOUT st = (r, st')" by fastforce
    show ?thesis unfolding Unsub
      by (rule perform_outcome [OF assms(1) c _ _ p refl])
        (use cb c assms(2) p in \<open>auto simp: unsubscribeCommands_def check_subscription_def covers_def remove_subscription_def confirm_def
          intro: remove1_gone subsetD\<close>)
  qed
qed

lemma subscribeTopic_agrees:
  assumes "honest env" "agrees env W st" "(topic, None) \<in> W"
  shows "agrees env W (snd (subscribeTopic env topic qos st)) \<and>
    (fst (subscribeTopic env topic qos st) = Inr True \<longleftrightarrow> topic \<in> confirmed env (snd (subscribeTopic env topic qos st)))"
proof -
  obtain cb where cb: "callback_ptr st = Some cb" "distinct (mSubscriptions cb)" "set (mSubscriptions cb) = confirmed env st"
    "list_all (registered W (set (mHandlers cb))) (mSubscriptions cb)"
    and c: "counted st"
    using assms(2) by (auto simp: agrees_def)
  obtain r st' where p: "perform env (MQTTAsync_subscribe topic qos) False DEFAULT_TIMEOUT st = (r, st')" by fastforce
  have here: "registered W hs topic" for hs using assms(3) by (auto simp: registered_def)
  show ?thesis
    by (rule perform_outcome [OF assms(1) c _ _ p refl])
      (use cb c assms(2) here p in \<open>auto simp: subscribeTopic_def check_subscription_def agrees_def add_subscription_def confirm_def\<close>)
qed

lemma subscribeCommandHandler_agrees:
  assumes "honest env" "agrees env W st" "(topic, Some h) \<in> W" "\<And>k. (topic, k) \<in> W \<Longrightarrow> k = Some h"
  shows "agrees env W (snd (subscribeCommandHandler env topic h st))"
proof -
  obtain cb where cb: "callback_ptr st = Some cb" "distinct (mSubscriptions cb)" "set (mSubscriptions cb) = confirmed env st"
    "list_all (registered W (set (mHandlers cb))) (mSubscriptions cb)"
    and c: "counted st"
    using assms(2) by (auto simp: agrees_def)
  obtain r st' where p: "perform env (MQTTAsync_subscribe topic 1) False DEFAULT_TIMEOUT st = (r, st')" by fastforce
  have new: "topic \<notin> set (mSubscriptions cb)" if "(topic, h) \<notin> set (mHandlers cb)"
    using cb(4) assms(4) that by (fastforce simp: list_all_iff registered_def)
  have mono: "registered W (insert (topic, h) hs) t" if r: "registered W hs t" for hs t
  proof -
    obtain k where "(t, k) \<in> W" "case k of None \<Rightarrow> True | Some g \<Rightarrow> (t, g) \<in> hs" using r by (auto simp: registered_def)
    then show ?thesis unfolding registered_def by (intro exI [of _ k]) (simp split: option.splits)
  qed
  have here: "registered W (insert (topic, h) hs) topic" for hs
    using assms(3) by (auto simp: registered_def intro!: exI [of _ "Some h"])
  have after: "list_all (registered W (insert (topic, h) (set (mHandlers cb)))) (mSubscriptions cb)"
    using cb(4) mono by (simp add: list_all_iff)
  show ?thesis
    by (rule perform_outcome [OF assms(1) c _ _ p refl])
      (use cb c assms(2) new after here p in \<open>auto simp: subscribeCommandHandler_def check_subscription_handler_def agrees_def
        add_subscription_handler_def confirm_def\<close>)
qed

lemma unsubscribeCommands_agrees:
  assumes "honest env" "agrees env W st"
  shows "agrees env W (snd (unsubscribeCommands env topic st))"
proof -
  obtain cb where cb: "callback_ptr st = Some cb" "distinct (mSubscriptions cb)" "set (mSubscriptions cb) = confirmed env st"
    "list_all (registered W (set (mHandlers cb))) (mSubscriptions cb)"
    and c: "counted st"
    using assms(2) by (auto simp: agrees_def)
  obtain r st' where p: "perform env (MQTTAsync_unsubscribe topic) False DEFAULT_TIMEOUT st = (r, st')" by fastforce
  show ?thesis
    by (rule perform_outcome [OF assms(1) c _ _ p refl])
      (use cb c assms(2) p list_all_remove1 [OF cb(4), of topic] in
        \<open>auto simp: unsubscribeCommands_def check_subscription_def agrees_def remove_subscription_def confirm_def\<close>)
qed

lemma subscription_agrees:
  assumes "honest env" "agrees env (set (concat (map ways all))) st" "one_way all" "x \<in> set all"
  shows "agrees env (set (concat (map ways all))) (snd (subscription_step env x st))"
proof (cases x)
  case (Sub topic qos)
  then show ?thesis using subscribeTopic_agrees [OF assms(1,2), of topic qos] assms(4) by force
next
  case (Handle topic h)
  then have w: "(topic, Some h) \<in> set (concat (map ways all))" using assms(4) by force
  then show ?thesis using subscribeCommandHandler_agrees [OF assms(1,2) w] one_wayD [OF assms(3) _ w] by (simp add: Handle)
next
  case (Unsub topic)
  then show ?thesis using unsubscribeCommands_agrees [OF assms(1,2)] by simp
qed

text \<open>
  C17. The client knows its subscriptions: let a client that has just connected make any sequence of calls of
  \<open>subscribeTopic\<close>, \<open>subscribeCommandHandler\<close>, which \<open>manage\<close> uses, and \<open>unsubscribeCommands\<close>, with any of the requests
  refused, failing or unanswered; none is answered after the client's wait for it is over. Then the list
  \<open>mSubscriptions\<close> holds every topic whose last successful request to the broker was a subscription. If each topic is
  subscribed to in one way only, always with the same handler or always without, the list holds exactly these topics,
  each once, and \<open>subscribeTopic\<close> returns true exactly if its topic is then one of them. \<open>manage\<close> with both a firmware
  and an attribute handler is not such a sequence: it subscribes to one topic with two handlers
  (\<open>two_handlers_stale\<close>).
\<close>

theorem subscriptions_tracked:
  assumes "honest env" "counted st" "callback_ptr st = Some new_callback" "confirmed env st = {}"
    "st' = subscription_run env ops st"
  shows "(\<exists>cb. callback_ptr st' = Some cb \<and> confirmed env st' \<subseteq> set (mSubscriptions cb) \<and>
      (one_way ops \<longrightarrow> distinct (mSubscriptions cb) \<and> set (mSubscriptions cb) = confirmed env st')) \<and>
    (one_way (Sub topic qos # ops) \<longrightarrow>
      (fst (subscribeTopic env topic qos st') = Inr True \<longleftrightarrow> topic \<in> confirmed env (snd (subscribeTopic env topic qos st'))))"
proof -
  have run: "agrees env (set (concat (map ways all))) (subscription_run env ops st)" if "one_way all" "set ops \<subseteq> set all" for all
  proof -
    have "agrees env (set (concat (map ways all))) st" using assms(2-4) by (simp add: agrees_def new_callback_def)
    then show ?thesis using that(2)
    proof (induction ops arbitrary: st)
      case (Cons x ops)
      then show ?case using subscription_agrees [OF assms(1) Cons.prems(1) that(1), of x] by simp
    qed simp
  qed
  have "covers env st" using assms(2-4) by (simp add: covers_def)
  then have "covers env (subscription_run env ops st)"
    by (induction ops arbitrary: st) (simp_all add: subscription_covers [OF assms(1)])
  then obtain cb where cb: "callback_ptr st' = Some cb" "confirmed env st' \<subseteq> set (mSubscriptions cb)"
    using assms(5) by (auto simp: covers_def)
  have "distinct (mSubscriptions cb) \<and> set (mSubscriptions cb) = confirmed env st'" if "one_way ops"
    using run [OF that] cb(1) assms(5) by (auto simp: agrees_def)
  moreover have "fst (subscribeTopic env topic qos st') = Inr True \<longleftrightarrow> topic \<in> confirmed env (snd (subscribeTopic env topic qos st'))"
    if "one_way (Sub topic qos # ops)"
    using subscribeTopic_agrees [OF assms(1) run [OF that], of topic qos] assms(5) by auto
  ultimately show ?thesis using cb by blast
qed

text \<open>An environment in which every request succeeds, and a client that has connected in it.\<close>

definition example_env :: "unit env" where
  "example_env = \<lparr>e_ops = half_ops, e_fate = (\<lambda>_. Succeeds None), e_msgid = (\<lambda>n. int n + 1), e_setcb_rc = 0, e_time = (\<lambda>_. 1000),
     e_now = ''2016-03-01T07:07:56Z'', e_reboot = Some (202, ''''), e_factory_reset = Some (501, ''no''),
     e_verify = (\<lambda>_. Some (204, '''')), e_is_ready_for_download = (\<lambda>_. Some (200, '''')), e_download = (\<lambda>_. Some (202, '''')),
     e_update = (\<lambda>_. Some (202, '''')), e_user_json = (\<lambda>_ _ _. None), e_user_raw = (\<lambda>_ _ _. None)\<rparr>"

definition example_client :: "unit iotp_client" where
  "example_client = (InitializeProperties default_properties)\<lparr>pasync_client := Some new_async_client, callback_ptr := Some new_callback\<rparr>"

lemma example_honest [simp]: "honest example_env"
  by (simp add: honest_def example_env_def)

lemma example_counted [simp]: "counted example_client" "callback_ptr example_client = Some new_callback" "confirmed example_env example_client = {}"
  by (simp_all add: example_client_def counted_def confirmed_def new_async_client_def)

definition example_ops :: "subscription_op list" where
  "example_ops = [Sub ''a'' 1, Handle ''b'' ActionHandler, Sub ''c'' 1, Sub ''a'' 1, Unsub ''c'', Handle ''b'' ActionHandler]"

theorem subscriptions_tracked_witness:
  "\<exists>cb. callback_ptr (subscription_run example_env example_ops example_client) = Some cb \<and> distinct (mSubscriptions cb) \<and>
     set (mSubscriptions cb) = confirmed example_env (subscription_run example_env example_ops example_client)"
proof -
  have "one_way example_ops" by (simp add: one_way_def example_ops_def)
  then show ?thesis using subscriptions_tracked [OF example_honest example_counted refl, of example_ops] by blast
qed

text \<open>
  A topic with two handlers is in the list twice, and stays there when the subscription has ended: then
  \<open>subscribeTopic\<close> returns true without a subscription.
\<close>

lemma two_handlers_stale:
  "let st = subscription_run example_env [Handle ''u'' FirmwareHandler, Handle ''u'' AttributeHandler, Unsub ''u''] example_client
   in map_option mSubscriptions (callback_ptr st) = Some [''u''] \<and> ''u'' \<notin> confirmed example_env st \<and>
     fst (subscribeTopic example_env ''u'' 1 st) = Inr True \<and> ''u'' \<notin> confirmed example_env (snd (subscribeTopic example_env ''u'' 1 st))"
  by code_simp

lemma all_succeed_honest: "\<forall>n. \<exists>rsp. e_fate env n = Succeeds rsp \<Longrightarrow> honest env"
  unfolding honest_def by (metis fate.distinct(7))

lemma send_message_outcome:
  assumes "honest env" "counted st" "qos \<in> {0..2}" "n = length (tokens (the (pasync_client st)))"
    "send_message env topic data qos st = (r, st')"
  obtains (sent) cl' where "st' = st\<lparr>mReqCounter := mReqCounter st + 1, pasync_client := Some cl'\<rparr>" "counted st'" "\<exists>rsp. e_fate env n = Succeeds rsp"
      "r = Inr (request_id (mReqCounter st + 1) (e_time env (mReqCounter st + 1)))" "confirmed env st' = confirmed env st"
  | (failed) cl' e where "st' = st\<lparr>mReqCounter := mReqCounter st + 1, pasync_client := Some cl'\<rparr>" "counted st'" "\<forall>rsp. e_fate env n \<noteq> Succeeds rsp"
      "r = Inl e" "confirmed env st' = confirmed env st"
proof -
  let ?st = "st\<lparr>mReqCounter := mReqCounter st + 1\<rparr>"
  define i where "i = request_id (mReqCounter st + 1) (e_time env (mReqCounter st + 1))"
  have c: "counted ?st" "confirmed env ?st = confirmed env st" "n = length (tokens (the (pasync_client ?st)))"
    using assms(2,4) by (simp_all add: counted_def confirmed_def)
  obtain msg where "make_message (fast_write (e_ops env) (put_member ''reqId''
      (stringValue (request_id (mReqCounter st + 1) (e_time env (mReqCounter st + 1))))
      (if isNull data then nullValue else put_member ''d'' data nullValue))) qos False = Inr msg"
    using assms(3) by (auto simp: make_message_def)
  moreover obtain r1 st1 where p: "perform env (MQTTAsync_sendMessage topic msg) False DEFAULT_TIMEOUT ?st = (r1, st1)" by fastforce
  ultimately have s: "send_message env topic data qos st = (case (r1, st1) of (Inl e, st) \<Rightarrow> (Inl e, st)
      | (Inr a, st) \<Rightarrow> (Inr (if is_complete a st then i else ''''), st))"
    by (simp add: send_message_def Let_def i_def split: sum.split)
  show thesis
    by (rule perform_outcome [OF assms(1) c(1) _ _ p c(3)])
      (use s assms(5) c(2) that in \<open>auto simp: confirm_def i_def\<close>)
qed

lemma request_id_nonempty [simp]: "request_id c t \<noteq> []"
  by (simp add: request_id_def)

text \<open>
  After \<open>unmanage\<close> no request to the device management works any more: \<open>unmanage\<close> ends the subscription to
  the topic of responses but leaves the handler registered. So \<open>manage\<close> and every other request skips the
  subscription, no response can arrive, and although the network accepts every request, each of them
  fails after its timeout.
\<close>

theorem unmanage_disables_requests:
  assumes "\<forall>n. \<exists>rsp. e_fate env n = Succeeds rsp" "counted st" "callback_ptr st = Some cb"
    "(SERVER_RESPONSE_TOPIC, ResponseHandler) \<in> set (mHandlers cb)" "SERVER_RESPONSE_TOPIC \<in> set (mSubscriptions cb)"
    "device_unmanage env st = (r, st1)" "pushManageMessage env topic data [] [] st1 = (r', st2)"
  shows "r = Inr True \<and> SERVER_RESPONSE_TOPIC \<notin> confirmed env st1 \<and>
    r' = Inr False \<and> SERVER_RESPONSE_TOPIC \<notin> confirmed env st2"
proof -
  note h = all_succeed_honest [OF assms(1)]
  obtain r0 st0 where s0: "send_message env DEVICE_UNMANAGE_TOPIC nullValue 1 st = (r0, st0)" by fastforce
  obtain cl0 where st0: "st0 = st\<lparr>mReqCounter := mReqCounter st + 1, pasync_client := Some cl0\<rparr>" "counted st0"
    "r0 = Inr (request_id (mReqCounter st + 1) (e_time env (mReqCounter st + 1)))"
    by (rule send_message_outcome [OF h assms(2) _ refl s0]) (use assms(1) in auto)
  obtain r1 st1' where p1: "perform env (MQTTAsync_unsubscribe SERVER_RESPONSE_TOPIC) False DEFAULT_TIMEOUT st0 = (r1, st1')" by fastforce
  obtain cl1 rsp where st1': "st1' = st0\<lparr>pasync_client := Some cl1\<rparr>" "counted st1'" "r1 = Inr (length (tokens (the (pasync_client st0))))"
    "is_complete (length (tokens (the (pasync_client st0)))) st1'" "confirmed env st1' = confirmed env st0 - {SERVER_RESPONSE_TOPIC}"
    by (rule perform_outcome [OF h st0(2) _ _ p1 refl]) (use assms(1) in \<open>auto simp: confirm_def\<close>)
  have u: "r = Inr True" "st1 = st1'\<lparr>callback_ptr := Some (remove_subscription SERVER_RESPONSE_TOPIC cb)\<rparr>"
    using assms(3,5,6) st0 st1' s0 p1 by (auto simp: device_unmanage_def unsubscribeCommands_def check_subscription_def)
  then have c1: "counted st1" "SERVER_RESPONSE_TOPIC \<notin> confirmed env st1" using st1' by simp_all
  have sub: "subscribeCommandHandler env SERVER_RESPONSE_TOPIC ResponseHandler st1 = (Inr True, st1)"
    using u assms(4) by (simp add: subscribeCommandHandler_def check_subscription_handler_def remove_subscription_def)
  obtain r2 st2' where s2: "send_message env topic data 1 st1 = (r2, st2')" by fastforce
  obtain cl2 where "r2 = Inr (request_id (mReqCounter st1 + 1) (e_time env (mReqCounter st1 + 1)))" "confirmed env st2' = confirmed env st1"
    by (rule send_message_outcome [OF h c1(1) _ refl s2]) (use assms(1) in auto)
  then have "r' = Inr False \<and> st2 = st2'" using assms(7) sub s2
    by (simp add: pushManageMessage_def request_response_def wait_for_response_def Let_def asInt_def)
  with u c1 \<open>confirmed env st2' = confirmed env st1\<close> show ?thesis by simp
qed

definition managed_client :: "unit iotp_client" where
  "managed_client = example_client\<lparr>callback_ptr := Some (add_subscription_handler SERVER_RESPONSE_TOPIC ResponseHandler new_callback)\<rparr>"

theorem unmanage_disables_requests_witness:
  "fst (device_unmanage example_env managed_client) = Inr True \<and>
   fst (pushManageMessage example_env DEVICE_CLEAR_DIAG_LOG_TOPIC nullValue [] [] (snd (device_unmanage example_env managed_client))) = Inr False"
proof -
  let ?u = "device_unmanage example_env managed_client"
  let ?p = "pushManageMessage example_env DEVICE_CLEAR_DIAG_LOG_TOPIC nullValue [] [] (snd ?u)"
  have "\<forall>n. \<exists>rsp. e_fate example_env n = Succeeds rsp" by (simp add: example_env_def)
  moreover have "counted managed_client" by (simp add: managed_client_def)
  ultimately show ?thesis
    using unmanage_disables_requests [of example_env managed_client "add_subscription_handler SERVER_RESPONSE_TOPIC ResponseHandler new_callback"
        "fst ?u" "snd ?u" DEVICE_CLEAR_DIAG_LOG_TOPIC nullValue "fst ?p" "snd ?p"]
    by (simp add: managed_client_def add_subscription_handler_def new_callback_def)
qed

section \<open>Ids of requests\<close>

lemma uintToString_inject: "0 \<le> m \<Longrightarrow> 0 \<le> n \<Longrightarrow> uintToString m = uintToString n \<longleftrightarrow> m = n"
  by (metis digits_value_uintToString)

lemma uint_nat_plus_int:
  assumes "0 \<le> int n + t" "int n + t < 2 ^ 64"
  shows "uint (of_nat n + word_of_int t :: 64 word) = int n + t"
proof -
  have "of_nat n + word_of_int t = (word_of_int (int n + t) :: 64 word)" by (simp only: of_int_add of_int_of_nat_eq)
  with assms show ?thesis by (simp only: uint_word_of_int_eq) (simp add: take_bit_int_eq_self)
qed

text \<open>A sequence of requests, whatever becomes of them, and the ids that were given out.\<close>

fun send_all :: "'d env \<Rightarrow> (string \<times> 'd json) list \<Rightarrow> 'd iotp_client \<Rightarrow> (exception + string) list" where
  "send_all env [] st = []"
| "send_all env ((topic, data) # reqs) st = (case send_message env topic data 1 st of (r, st) \<Rightarrow> r # send_all env reqs st)"

lemma send_all_ids:
  assumes "honest env" "counted st" "mReqCounter st = c" "k < length reqs" "send_all env reqs st ! k = Inr i"
  shows "i = request_id (c + of_nat (Suc k)) (e_time env (c + of_nat (Suc k)))"
  using assms(2-)
proof (induction reqs arbitrary: st c k)
  case (Cons td reqs)
  obtain topic data where td: "td = (topic, data)" by (cases td)
  obtain r st' where s: "send_message env topic data 1 st = (r, st')" by fastforce
  have st': "counted st' \<and> mReqCounter st' = c + 1 \<and> (\<forall>i. r = Inr i \<longrightarrow> i = request_id (c + 1) (e_time env (c + 1)))"
    by (rule send_message_outcome [OF assms(1) Cons.prems(1) _ refl s]) (use Cons.prems(2) in auto)
  show ?case
  proof (cases k)
    case 0
    with Cons.prems(4) st' show ?thesis by (simp add: td s)
  next
    case (Suc j)
    with Cons.prems(3,4) Cons.IH [of st' "c + 1" j] st' show ?thesis by (simp add: td s add.assoc)
  qed
qed simp

text \<open>
  C28. The ids of requests are unique: as long as the clock does not go back, and the sum of counter and
  time stays below 2 to the power of 64, all requests of a client, also after failed ones, get different
  ids, so that a response belongs to one request.
\<close>

theorem request_ids_distinct:
  assumes "honest env" "counted st" "mReqCounter st = 0"
    "\<forall>i j. i \<le> j \<longrightarrow> j \<le> length reqs \<longrightarrow> 0 \<le> e_time env (of_nat i) \<and> e_time env (of_nat i) \<le> e_time env (of_nat j)"
    "int (length reqs) + e_time env (of_nat (length reqs)) < 2 ^ 64"
    "i < j" "j < length reqs" "send_all env reqs st ! i = Inr a" "send_all env reqs st ! j = Inr b"
  shows "a \<noteq> b"
proof -
  have n: "uint (of_nat (Suc k) + word_of_int (e_time env (of_nat (Suc k))) :: 64 word) = int (Suc k) + e_time env (of_nat (Suc k))"
    if "k < length reqs" for k
  proof -
    have "0 \<le> e_time env (of_nat (Suc k))" "e_time env (of_nat (Suc k)) \<le> e_time env (of_nat (length reqs))"
      using assms(4) [rule_format, of "Suc k" "length reqs"] that by (simp_all del: of_nat_Suc)
    with that assms(5) have "0 \<le> int (Suc k) + e_time env (of_nat (Suc k))" "int (Suc k) + e_time env (of_nat (Suc k)) < 2 ^ 64" by linarith+
    then show ?thesis by (rule uint_nat_plus_int)
  qed
  have "a = uintToString (int (Suc i) + e_time env (of_nat (Suc i)))" "b = uintToString (int (Suc j) + e_time env (of_nat (Suc j)))"
    using send_all_ids [OF assms(1-3) _ assms(8)] send_all_ids [OF assms(1-3) assms(7,9)] assms(6,7) n [of i] n [of j]
    by (simp_all add: request_id_def del: of_nat_Suc)
  moreover have "0 \<le> e_time env (of_nat (Suc i))" "e_time env (of_nat (Suc i)) \<le> e_time env (of_nat (Suc j))"
    using assms(4) [rule_format, of "Suc i" "Suc j"] assms(6,7) by (simp_all del: of_nat_Suc)
  ultimately show ?thesis using assms(6) by (simp add: uintToString_inject del: of_nat_Suc)
qed

theorem request_ids_distinct_witness:
  "\<exists>a b. send_all example_env [(''t'', nullValue), (''t'', nullValue)] example_client ! 0 = Inr a \<and>
     send_all example_env [(''t'', nullValue), (''t'', nullValue)] example_client ! 1 = Inr b \<and> a \<noteq> b"
proof -
  have s: "send_all example_env [(''t'', nullValue), (''t'', nullValue)] example_client = [Inr ''1001'', Inr ''1002'']" by code_simp
  show ?thesis
    using request_ids_distinct [OF example_honest example_counted(1), of "[(''t'', nullValue), (''t'', nullValue)]" 0 1 "''1001''" "''1002''"] s
    by (simp add: example_client_def InitializeProperties_def example_env_def)
qed

section \<open>Responses\<close>

text \<open>A response to the request with the given id, as the platform sends it: it may have other members.\<close>

definition response_to :: "'d double_ops \<Rightarrow> string \<Rightarrow> int \<Rightarrow> 'd json \<Rightarrow> bool" where
  "response_to ops i rc v \<longleftrightarrow> printable ops v \<and> json_depth v \<le> 1000 \<and> minInt \<le> rc \<and> rc \<le> maxInt \<and>
     (\<exists>ms. v = objectValue ms \<and> map_of ms ''reqId'' = Some (stringValue i) \<and> map_of ms ''rc'' = Some (intValue rc))"

definition response_messages :: "'d env \<Rightarrow> (string \<times> int \<times> 'd json) list \<Rightarrow> (string \<times> string) list" where
  "response_messages env rs = map (\<lambda>(i, rc, v). (SERVER_RESPONSE_TOPIC, fast_write (e_ops env) v)) rs"

definition stored_responses :: "'d env \<Rightarrow> (string \<times> int \<times> 'd json) list \<Rightarrow> (string \<rightharpoonup> 'd json)" where
  "stored_responses env rs = map_of (rev (map (\<lambda>(i, rc, v). (i, canonical (e_ops env) v)) rs))"

lemma stored_responses_Cons:
  "m ++ stored_responses env ((i, rc, v) # rs) = m(i \<mapsto> canonical (e_ops env) v) ++ stored_responses env rs"
  by (rule ext) (simp add: stored_responses_def map_add_def split: option.split)

lemma written_parses:
  "printable ops v \<Longrightarrow> json_depth v \<le> 1000 \<Longrightarrow> parse_json ops (fast_write ops v) = Reading True (canonical ops v) [CHR 0x0A]"
  using reads_backD [OF printable_reads_back, of ops v "[CHR 0x0A]" 0 "2 * length (fast_write ops v) + 1" nullValue]
  by (simp add: parse_json_def fast_write_def delimited_def)

lemma map_of_canonical: "map_of (map (\<lambda>(k, v). (k, canonical ops v)) ms) k = map_option (canonical ops) (map_of ms k)"
  by (induction ms) auto

lemma response_to_canonical:
  assumes "response_to ops i rc v"
  shows "parse_json ops (fast_write ops v) = Reading True (canonical ops v) [CHR 0x0A]"
    "get_text ops (canonical ops v) ''reqId'' = Inr i"
    "and_then (get_member (canonical ops v) ''rc'' d) (asInt ops) = Inr rc"
  using assms written_parses [of ops v]
  by (auto simp: response_to_def get_text_def map_of_canonical asString_def asInt_def canonical_int_def)

definition count_message :: "iotf_callback \<Rightarrow> iotf_callback" where
  "count_message cb = cb\<lparr>mArrivedMessages := mArrivedMessages cb + 1\<rparr>"

lemma response_arrives:
  assumes "callback_ptr st = Some cb" "equal_range SERVER_RESPONSE_TOPIC (mHandlers cb) = [ResponseHandler]"
    "response_to (e_ops env) i rc v" "i \<noteq> ''''"
  shows "message_arrived env SERVER_RESPONSE_TOPIC (fast_write (e_ops env) v) st =
    (Inr (), st\<lparr>callback_ptr := Some (count_message cb), mResponseMessages := (mResponseMessages st)(i \<mapsto> canonical (e_ops env) v),
       notifications := Suc (notifications st)\<rparr>)"
  using assms response_to_canonical [OF assms(3)]
  by (simp add: message_arrived_def handler_message_arrived_def response_message_arrived_def req_id_def count_message_def)

lemma responses_arrive:
  assumes "callback_ptr st = Some cb" "equal_range SERVER_RESPONSE_TOPIC (mHandlers cb) = [ResponseHandler]"
    "\<forall>(i, rc, v)\<in>set rs. response_to (e_ops env) i rc v \<and> i \<noteq> ''''"
  shows "\<exists>cb'. messages_arrive env (response_messages env rs) st =
    (Inr (), st\<lparr>callback_ptr := Some cb', mResponseMessages := mResponseMessages st ++ stored_responses env rs,
       notifications := notifications st + length rs\<rparr>) \<and> mHandlers cb' = mHandlers cb"
  using assms
proof (induction rs arbitrary: st cb)
  case Nil
  then show ?case by (intro exI [of _ cb]) (cases st, simp add: response_messages_def stored_responses_def)
next
  case (Cons x rs)
  obtain i rc v where x: "x = (i, rc, v)" by (cases x)
  have r: "response_to (e_ops env) i rc v" "i \<noteq> ''''" using Cons.prems(3) x by auto
  let ?st = "st\<lparr>callback_ptr := Some (count_message cb), mResponseMessages := (mResponseMessages st)(i \<mapsto> canonical (e_ops env) v),
       notifications := Suc (notifications st)\<rparr>"
  have h: "callback_ptr ?st = Some (count_message cb)" "mHandlers (count_message cb) = mHandlers cb" by (simp_all add: count_message_def)
  have rest: "\<forall>(i, rc, v)\<in>set rs. response_to (e_ops env) i rc v \<and> i \<noteq> ''''" using Cons.prems(3) by simp
  obtain cb' where "messages_arrive env (response_messages env rs) ?st =
      (Inr (), ?st\<lparr>callback_ptr := Some cb', mResponseMessages := mResponseMessages ?st ++ stored_responses env rs,
         notifications := notifications ?st + length rs\<rparr>)" "mHandlers cb' = mHandlers cb"
    using Cons.IH [OF h(1), unfolded h(2), OF Cons.prems(2) rest] by blast
  then show ?case
    using response_arrives [OF Cons.prems(1,2) r] x
    by (intro exI [of _ cb']) (simp add: response_messages_def stored_responses_Cons)
qed

lemma stored_responses_append: "m ++ stored_responses env (bs @ rs) = m ++ stored_responses env bs ++ stored_responses env rs"
  by (simp add: stored_responses_def)

text \<open>
  C10. A request takes the response that belongs to it: let any responses, to it and to other requests, in any
  order, arrive after it was sent, \<open>bs\<close> before the client begins to wait and \<open>rs\<close> until its wait has ended, each text
  being what the JSON writer gives for the response. Then the request succeeds exactly if something arrives during the
  wait and one of all these responses is its own with result code 200. Its response is then taken from the
  store, and every other one stays there for its own request. A response to another request ends the wait
  too, so that without its own response the request fails then and not after the timeout; and when nothing arrives
  during the wait, the request fails although its own response may have been stored before, and all of them stay.
\<close>

theorem response_received:
  assumes "honest env" "counted st" "e_fate env (length (tokens (the (pasync_client st)))) = Succeeds sent"
    "callback_ptr st = Some cb" "equal_range SERVER_RESPONSE_TOPIC (mHandlers cb) = [ResponseHandler]"
    "i = request_id (mReqCounter st + 1) (e_time env (mReqCounter st + 1))" "mResponseMessages st i = None"
    "\<forall>(j, rc, v)\<in>set (bs @ rs). response_to (e_ops env) j rc v \<and> j \<noteq> ''''" "distinct (map fst (bs @ rs))"
    "request_response env topic data (response_messages env bs) (response_messages env rs) st = (r, st')"
  shows "r = Inr (rs \<noteq> [] \<and> (\<exists>v. (i, 200, v) \<in> set (bs @ rs))) \<and> (rs \<noteq> [] \<longrightarrow> mResponseMessages st' i = None) \<and>
    (\<forall>(j, rc, v)\<in>set (bs @ rs). j \<noteq> i \<or> rs = [] \<longrightarrow> mResponseMessages st' j = Some (canonical (e_ops env) v))"
proof -
  let ?all = "bs @ rs"
  obtain r0 st0 where s0: "send_message env topic data 1 st = (r0, st0)" by fastforce
  obtain cl0 where st0: "st0 = st\<lparr>mReqCounter := mReqCounter st + 1, pasync_client := Some cl0\<rparr>" "r0 = Inr i"
    by (rule send_message_outcome [OF assms(1,2) _ refl s0]) (use assms(3,6) in auto)
  have h: "callback_ptr st0 = Some cb" using st0 assms(4) by simp
  have ok: "\<forall>(j, rc, v)\<in>set bs. response_to (e_ops env) j rc v \<and> j \<noteq> ''''" "\<forall>(j, rc, v)\<in>set rs. response_to (e_ops env) j rc v \<and> j \<noteq> ''''"
    using assms(8) by auto
  obtain cb1 where a1: "messages_arrive env (response_messages env bs) st0 =
      (Inr (), st0\<lparr>callback_ptr := Some cb1, mResponseMessages := mResponseMessages st0 ++ stored_responses env bs,
        notifications := notifications st0 + length bs\<rparr>)" "mHandlers cb1 = mHandlers cb"
    using responses_arrive [OF h assms(5) ok(1)] by blast
  define st1 where "st1 = st0\<lparr>callback_ptr := Some cb1, mResponseMessages := mResponseMessages st0 ++ stored_responses env bs,
        notifications := notifications st0 + length bs\<rparr>"
  have h1: "callback_ptr st1 = Some cb1" "equal_range SERVER_RESPONSE_TOPIC (mHandlers cb1) = [ResponseHandler]"
    using assms(5) a1(2) by (simp_all add: st1_def)
  define resp where "resp = mResponseMessages st ++ stored_responses env ?all"
  obtain cb2 where a2: "messages_arrive env (response_messages env rs) st1 =
      (Inr (), st1\<lparr>callback_ptr := Some cb2, mResponseMessages := resp, notifications := notifications st1 + length rs\<rparr>)"
    using responses_arrive [OF h1 ok(2)] by (auto simp: st1_def st0(1) resp_def stored_responses_append)
  have d: "distinct (map fst (rev (map (\<lambda>(i, rc, v). (i, canonical (e_ops env) v)) ?all)))"
    using assms(9) by (simp add: rev_map [symmetric] comp_def case_prod_unfold Int_commute)
  have stored: "resp j = Some (canonical (e_ops env) w)" if "(j, rc', w) \<in> set ?all" for j rc' w
  proof -
    have "stored_responses env ?all j = Some (canonical (e_ops env) w)"
      unfolding stored_responses_def by (rule map_of_is_SomeI [OF d]) (use that in force)
    then show ?thesis by (simp add: resp_def map_add_def)
  qed
  have i: "i \<noteq> ''''" using assms(6) by simp
  note run = assms(10) s0 st0(2) i a1(1) [folded st1_def] a2
  have resps: "mResponseMessages st1 ++ stored_responses env [] = mResponseMessages st1" by (simp add: stored_responses_def)
  show ?thesis
  proof (cases "rs = []")
    case True
    with run stored show ?thesis by (auto simp: request_response_def wait_for_response_def Let_def asInt_def)
  next
    case rs: False
    show ?thesis
    proof (cases "\<exists>rc v. (i, rc, v) \<in> set ?all")
      case True
      then obtain rc v where m: "(i, rc, v) \<in> set ?all" by blast
      have own: "(\<exists>v. (i, 200, v) \<in> set ?all) \<longleftrightarrow> rc = 200" using eq_key_imp_eq_value [OF assms(9) m] m by blast
      have "response_to (e_ops env) i rc v" using bspec [OF assms(8) m] by simp
      then show ?thesis unfolding own
        using run rs stored [OF m] stored response_to_canonical(3) [of "e_ops env" i rc v "intValue (-1)"]
        by (auto simp: request_response_def wait_for_response_def Let_def simp del: set_append)
    next
      case False
      then have "stored_responses env ?all i = None" by (auto simp: stored_responses_def map_of_eq_None_iff)
      with assms(7) have "resp i = None" by (simp add: resp_def map_add_def)
      with run rs stored False show ?thesis
        by (auto simp: request_response_def wait_for_response_def Let_def asInt_def simp del: set_append)
    qed
  qed
qed

text \<open>
  A response that arrives too early is lost for the request: if it comes after the request was sent but
  before \<open>wait_for_response\<close> waits, then the wait, which does not look at the stored responses first, sees no
  further notification, and the request fails, although its response with result code 200 is stored.
\<close>

theorem early_response_lost:
  assumes "honest env" "counted st" "e_fate env (length (tokens (the (pasync_client st)))) = Succeeds sent"
    "callback_ptr st = Some cb" "equal_range SERVER_RESPONSE_TOPIC (mHandlers cb) = [ResponseHandler]"
    "i = request_id (mReqCounter st + 1) (e_time env (mReqCounter st + 1))" "response_to (e_ops env) i 200 v"
    "request_response env topic data (response_messages env [(i, 200, v)]) [] st = (r, st')"
  shows "r = Inr False \<and> mResponseMessages st' i = Some (canonical (e_ops env) v)"
proof -
  obtain r0 st0 where s0: "send_message env topic data 1 st = (r0, st0)" by fastforce
  obtain cl0 where st0: "st0 = st\<lparr>mReqCounter := mReqCounter st + 1, pasync_client := Some cl0\<rparr>" "r0 = Inr i"
    by (rule send_message_outcome [OF assms(1,2) _ refl s0]) (use assms(3,6) in auto)
  have h: "callback_ptr st0 = Some cb" using st0 assms(4) by simp
  show ?thesis
    using assms(8) s0 st0 response_arrives [OF h assms(5,7)] assms(6)
    by (auto simp: request_response_def wait_for_response_def response_messages_def Let_def asInt_def)
qed

definition example_response :: "string \<Rightarrow> int \<Rightarrow> unit json" where
  "example_response i rc = objectValue [(''rc'', intValue rc), (''reqId'', stringValue i)]"

lemma example_response_to [simp]:
  assumes "minInt \<le> rc" "rc \<le> maxInt"
  shows "response_to half_ops i rc (example_response i rc)"
  using assms by (simp add: response_to_def example_response_def)

lemma managed_client_ready [simp]: "counted managed_client"
  "callback_ptr managed_client = Some (add_subscription_handler SERVER_RESPONSE_TOPIC ResponseHandler new_callback)"
  "equal_range SERVER_RESPONSE_TOPIC (mHandlers (add_subscription_handler SERVER_RESPONSE_TOPIC ResponseHandler new_callback)) = [ResponseHandler]"
  by (simp_all add: managed_client_def equal_range_def add_subscription_handler_def new_callback_def)

lemma managed_client_id: "request_id (mReqCounter managed_client + 1) (e_time example_env (mReqCounter managed_client + 1)) = ''1001''"
  by code_simp

lemma example_fate [simp]: "e_fate example_env n = Succeeds None" "e_ops example_env = half_ops"
  by (simp_all add: example_env_def)

theorem response_received_witness:
  "fst (request_response example_env DEVICE_MANAGE_TOPIC nullValue (response_messages example_env [(''7'', 400, example_response ''7'' 400)])
     (response_messages example_env [(''1001'', 200, example_response ''1001'' 200)]) managed_client) = Inr True"
proof -
  let ?bs = "[(''7'', 400, example_response ''7'' 400)]"
  let ?rs = "[(''1001'', 200, example_response ''1001'' 200)]"
  let ?p = "request_response example_env DEVICE_MANAGE_TOPIC nullValue (response_messages example_env ?bs) (response_messages example_env ?rs) managed_client"
  have "mResponseMessages managed_client ''1001'' = None"
    by (simp add: managed_client_def example_client_def InitializeProperties_def)
  from response_received [OF example_honest managed_client_ready(1) example_fate(1) managed_client_ready(2,3) managed_client_id [symmetric] this,
      of ?bs ?rs DEVICE_MANAGE_TOPIC nullValue "fst ?p" "snd ?p"]
  show ?thesis by simp
qed

theorem early_response_lost_witness:
  "fst (request_response example_env DEVICE_MANAGE_TOPIC nullValue
     (response_messages example_env [(''1001'', 200, example_response ''1001'' 200)]) [] managed_client) = Inr False"
proof -
  let ?p = "request_response example_env DEVICE_MANAGE_TOPIC nullValue
     (response_messages example_env [(''1001'', 200, example_response ''1001'' 200)]) [] managed_client"
  show ?thesis
    using early_response_lost [OF example_honest managed_client_ready(1) example_fate(1) managed_client_ready(2,3) managed_client_id [symmetric],
        of "example_response ''1001'' 200" DEVICE_MANAGE_TOPIC nullValue "fst ?p" "snd ?p"]
    by simp
qed

section \<open>Requests of the platform\<close>

text \<open>What the application answers to a request on a topic, and the handler that asks it.\<close>

definition app_response :: "'d env \<Rightarrow> string \<Rightarrow> (int \<times> string) option" where
  "app_response env topic = map_of
     [(SERVER_DEVICE_REBOOT_TOPIC, e_reboot env), (SERVER_FACTORY_RESET_TOPIC, e_factory_reset env),
      (SERVER_OBSERVE_TOPIC, e_is_ready_for_download env (new_firmware_info None None None None)),
      (SERVER_CANCEL_TOPIC, Some (200, '''')),
      (SERVER_FIRMWARE_DOWNLOAD_TOPIC, e_download env (new_firmware_info None None None None)),
      (SERVER_FIRMWARE_UPDATE_TOPIC, e_update env (new_firmware_info None None None None))] topic \<bind> id"

definition handler_of_topic :: "string \<Rightarrow> handler" where
  "handler_of_topic topic = (if topic \<in> {SERVER_DEVICE_REBOOT_TOPIC, SERVER_FACTORY_RESET_TOPIC} then ActionHandler else FirmwareHandler)"

text \<open>A request that the platform sends, with the id it gives to it.\<close>

definition request_with_id :: "'d double_ops \<Rightarrow> string \<Rightarrow> 'd json \<Rightarrow> bool" where
  "request_with_id ops i v \<longleftrightarrow> printable ops v \<and> json_depth v \<le> 1000 \<and> (\<exists>ms. v = objectValue ms \<and> map_of ms ''reqId'' = Some (stringValue i))"

lemma request_with_id_canonical:
  assumes "request_with_id ops i v"
  shows "parse_json ops (fast_write ops v) = Reading True (canonical ops v) [CHR 0x0A]"
    "get_text ops (canonical ops v) ''reqId'' = Inr i"
  using assms written_parses [of ops v]
  by (auto simp: request_with_id_def get_text_def map_of_canonical asString_def)

lemma answer_payload_response:
  assumes "minInt \<le> rc" "rc \<le> maxInt"
  shows "response_to ops i rc (answer_payload (rc, message) i)"
  using assms by (auto simp: response_to_def answer_payload_def Let_def)

lemma firmware_answers:
  assumes "app_response env topic = Some r" "handler_of_topic topic = FirmwareHandler" "req_id env v = Inr i"
    "fst r = 202 \<longrightarrow> \<not> mDownloadProgress st \<and> \<not> mUpdateProgress st"
  shows "\<exists>d u. firmware_message_arrived env topic v st =
    (Inr (Some (new_reply DEVICE_REPONSE_TOPIC (answer_payload r i))), st\<lparr>mDownloadProgress := d, mUpdateProgress := u\<rparr>)"
proof -
  have "firmware_response env topic v st = (Inr (Some r), st\<lparr>mDownloadProgress :=
      (if topic = SERVER_FIRMWARE_DOWNLOAD_TOPIC \<and> fst r = 202 then True else mDownloadProgress st),
      mUpdateProgress := (if topic = SERVER_FIRMWARE_UPDATE_TOPIC \<and> fst r = 202 then True else mUpdateProgress st)\<rparr>)"
    using assms(1,2,4)
    by (cases "fst r = 202"; cases st)
      (auto simp: app_response_def handler_of_topic_def firmware_response_def start_progress_def Let_def topic_defs split: if_splits)
  then obtain d u where "firmware_response env topic v st = (Inr (Some r), st\<lparr>mDownloadProgress := d, mUpdateProgress := u\<rparr>)" by blast
  then show ?thesis using assms(3) by (intro exI [of _ d] exI [of _ u]) (simp add: firmware_message_arrived_def)
qed

lemma action_answers:
  assumes "app_response env topic = Some r" "handler_of_topic topic = ActionHandler" "req_id env v = Inr i"
  shows "action_message_arrived env topic v st =
    (let reply = new_reply DEVICE_REPONSE_TOPIC (answer_payload r i) in
     if ActionHandler \<in> handler_client st then (Inr None, IOTF_send_reply reply st) else (Inr (Some reply), st))"
  using assms
  by (auto simp: app_response_def handler_of_topic_def action_message_arrived_def Let_def topic_defs split: if_splits)

text \<open>
  C12. Six kinds of requests of the platform get one answer each: when a request to reboot, to reset, to observe or
  cancel the observation of the firmware, to download or to update it arrives on its topic, with the library's handler
  the only one that is registered there, then exactly one reply is queued, on the topic for responses, and the text
  that the JSON writer makes of it is read back by the platform's parser with the id of this request and the
  result code that the application's function gave. The topic \<open>iotdm-1/device/update\<close> is not one of the six, and a
  result code of 202 is excluded when the client still has the thread of an earlier download or update: then the
  process ends without an answer (\<open>second_download_terminates\<close>).
\<close>

theorem management_requests_answered:
  assumes "callback_ptr st = Some cb" "equal_range topic (mHandlers cb) = [handler_of_topic topic]"
    "request_with_id (e_ops env) i v" "app_response env topic = Some (rc, message)" "minInt \<le> rc" "rc \<le> maxInt"
    "rc = 202 \<longrightarrow> \<not> mDownloadProgress st \<and> \<not> mUpdateProgress st"
    "message_arrived env topic (fast_write (e_ops env) v) st = (r, st')"
  shows "r = Inr () \<and> (\<exists>reply answer. mReplyMsgs st' = mReplyMsgs st @ [reply] \<and> rm_topic reply = DEVICE_REPONSE_TOPIC \<and>
    parse_json (e_ops env) (fast_write (e_ops env) (rm_payload reply)) = Reading True answer [CHR 0x0A] \<and>
    req_id env answer = Inr i \<and> and_then (get_member answer ''rc'' nullValue) (asInt (e_ops env)) = Inr rc)"
proof -
  let ?reply = "new_reply DEVICE_REPONSE_TOPIC (answer_payload (rc, message) i)"
  let ?st = "st\<lparr>callback_ptr := Some (count_message cb)\<rparr>"
  note v = request_with_id_canonical [OF assms(3)]
  have id: "req_id env (canonical (e_ops env) v) = Inr i" using v(2) by (simp add: req_id_def)
  have arrived: "message_arrived env topic (fast_write (e_ops env) v) st = call_handlers env topic (fast_write (e_ops env) v) [handler_of_topic topic] ?st"
    using assms(1,2) by (simp add: message_arrived_def count_message_def Let_def)
  have "r = Inr () \<and> mReplyMsgs st' = mReplyMsgs st @ [?reply]"
  proof (cases "handler_of_topic topic = ActionHandler")
    case True
    with assms(8) arrived v(1) action_answers [OF assms(4) True id, of ?st] show ?thesis
      by (auto simp: handler_message_arrived_def IOTF_send_reply_def Let_def split: if_splits)
  next
    case False
    then have f: "handler_of_topic topic = FirmwareHandler" by (simp add: handler_of_topic_def split: if_splits)
    then obtain d u where "firmware_message_arrived env topic (canonical (e_ops env) v) ?st = (Inr (Some ?reply), ?st\<lparr>mDownloadProgress := d, mUpdateProgress := u\<rparr>)"
      using firmware_answers [OF assms(4) _ id, of ?st] assms(7) by auto
    with assms(8) arrived v(1) f show ?thesis by (auto simp: handler_message_arrived_def IOTF_send_reply_def)
  qed
  moreover note response_to_canonical [OF answer_payload_response [OF assms(5,6), of "e_ops env" i message]]
  ultimately show ?thesis by (auto simp: new_reply_def req_id_def)
qed

text \<open>A client that has registered for the download of firmware, in the environment where the application accepts it.\<close>

definition download_client :: "unit iotp_client" where
  "download_client = example_client\<lparr>callback_ptr := Some (add_subscription_handler SERVER_FIRMWARE_DOWNLOAD_TOPIC FirmwareHandler new_callback)\<rparr>"

definition download_request :: "unit json" where
  "download_request = objectValue [(''reqId'', stringValue ''42'')]"

lemma download_client_ready [simp]:
  "callback_ptr download_client = Some (add_subscription_handler SERVER_FIRMWARE_DOWNLOAD_TOPIC FirmwareHandler new_callback)"
  "equal_range SERVER_FIRMWARE_DOWNLOAD_TOPIC
     (mHandlers (add_subscription_handler SERVER_FIRMWARE_DOWNLOAD_TOPIC FirmwareHandler new_callback)) = [FirmwareHandler]"
  "handler_of_topic SERVER_FIRMWARE_DOWNLOAD_TOPIC = FirmwareHandler"
  "\<not> mDownloadProgress download_client" "\<not> mUpdateProgress download_client"
  "request_with_id half_ops ''42'' download_request" "e_download example_env p = Some (202, '''')"
  by (simp_all add: download_client_def equal_range_def add_subscription_handler_def new_callback_def handler_of_topic_def topic_defs
      request_with_id_def download_request_def example_client_def InitializeProperties_def example_env_def)

theorem management_requests_answered_witness:
  "\<exists>reply answer. mReplyMsgs (snd (message_arrived example_env SERVER_FIRMWARE_DOWNLOAD_TOPIC (fast_write half_ops download_request) download_client)) =
       mReplyMsgs download_client @ [reply] \<and>
     parse_json half_ops (fast_write half_ops (rm_payload reply)) = Reading True answer [CHR 0x0A] \<and> req_id example_env answer = Inr ''42'' \<and>
     and_then (get_member answer ''rc'' nullValue) (asInt half_ops) = Inr 202"
proof -
  let ?p = "message_arrived example_env SERVER_FIRMWARE_DOWNLOAD_TOPIC (fast_write half_ops download_request) download_client"
  have "app_response example_env SERVER_FIRMWARE_DOWNLOAD_TOPIC = Some (202, '''')"
    by (simp add: app_response_def topic_defs)
  then show ?thesis
    using management_requests_answered [OF download_client_ready(1), of SERVER_FIRMWARE_DOWNLOAD_TOPIC example_env "''42''" download_request
        202 "''''" "fst ?p" "snd ?p"]
    by auto
qed

text \<open>
  A second download ends the process: once a download request was accepted with 202, the member
  \<open>mDownloadProgress\<close> holds a thread that nobody joins, and the next request that the application
  accepts, even much later, assigns a new thread to it, whose \<open>std::terminate\<close> ends the process. No answer
  to it is queued.
\<close>

theorem second_download_terminates:
  assumes "callback_ptr st = Some cb" "equal_range SERVER_FIRMWARE_DOWNLOAD_TOPIC (mHandlers cb) = [FirmwareHandler]"
    "request_with_id (e_ops env) i v" "request_with_id (e_ops env) j w"
    "e_download env (new_firmware_info None None None None) = Some (202, message)" "\<not> mDownloadProgress st" "\<not> mUpdateProgress st"
    "messages_arrive env [(SERVER_FIRMWARE_DOWNLOAD_TOPIC, fast_write (e_ops env) v), (SERVER_FIRMWARE_DOWNLOAD_TOPIC, fast_write (e_ops env) w)] st = (r, st')"
  shows "r = Inl Terminate \<and> mReplyMsgs st' = mReplyMsgs st @ [new_reply DEVICE_REPONSE_TOPIC (answer_payload (202, message) i)]"
  using assms request_with_id_canonical [OF assms(3)] request_with_id_canonical [OF assms(4)]
  by (auto simp: message_arrived_def handler_message_arrived_def firmware_message_arrived_def firmware_response_def start_progress_def
      Let_def topic_defs req_id_def IOTF_send_reply_def)

theorem second_download_terminates_witness:
  "fst (messages_arrive example_env [(SERVER_FIRMWARE_DOWNLOAD_TOPIC, fast_write half_ops download_request),
     (SERVER_FIRMWARE_DOWNLOAD_TOPIC, fast_write half_ops download_request)] download_client) = Inl Terminate"
proof -
  let ?p = "messages_arrive example_env [(SERVER_FIRMWARE_DOWNLOAD_TOPIC, fast_write half_ops download_request),
     (SERVER_FIRMWARE_DOWNLOAD_TOPIC, fast_write half_ops download_request)] download_client"
  show ?thesis
    using second_download_terminates [OF download_client_ready(1,2), of example_env "''42''" download_request "''42''" download_request "''''"
        "fst ?p" "snd ?p"]
    by (simp del: messages_arrive.simps)
qed

end
