(* ===== verification/ReplyThread.thy ===== *)
theory ReplyThread
  imports DeviceData
begin

text \<open>
  The thread that sends replies: \<open>IOTP_Client::_send_reply\<close> and \<open>IOTP_Client::IOTF_send_reply\<close> of
  \<open>src/IOTP_Client.cpp\<close> as a step relation of three parties that share the mutex \<open>mLock\<close>, the condition
  \<open>mCond\<close> and the queue \<open>mReplyMsgs\<close>: the sending thread, the thread of the C library, which calls
  \<open>message_arrived\<close> and, in \<open>MQTTAsync_cycle\<close> of \<open>lib/MQTTAsync.c\<close>, also handles the acknowledgements of
  published messages, and the other threads, those that report the progress of the firmware.
\<close>

section \<open>States and steps\<close>

text \<open>
  The sending thread holds \<open>mLock\<close> only in the state \<open>Publishing\<close>: while it waits the condition has released the
  mutex, and after a notification (\<open>Woken\<close>) it has yet to acquire it. \<open>Publishing\<close> starts with the call of \<open>publish\<close>,
  which itself takes \<open>mqttasync_mutex\<close> for a moment: if the library's thread is in a callback then, the sending thread
  waits for it in that call, and what may fail is not yet the wait for the acknowledgement. The steps do not tell the
  two apart; an acknowledgement needs the library's thread to be free in both. \<open>Between\<close> is the time between
  \<open>lck.unlock()\<close> and the next \<open>wait_for\<close>. \<open>Crashed\<close>: \<open>publish\<close> or \<open>wait_for_completion\<close> threw an exception,
  which nothing catches, so that the process ends.
\<close>

datatype 'm sender = Between | Waiting | Woken | Publishing 'm | Crashed | Finished

text \<open>
  \<open>library\<close> is the reply that the thread of the C library wants to queue; \<open>pushed\<close> and \<open>sent\<close> record the
  replies that were put into the queue and that the broker has acknowledged.
\<close>

record 'm reply_state =
  replies :: "'m list"
  sender :: "'m sender"
  library :: "'m option"
  exiting :: bool
  pushed :: "'m list"
  sent :: "'m list"

definition reply_start :: "'m reply_state" where
  "reply_start = \<lparr>replies = [], sender = Between, library = None, exiting = False, pushed = [], sent = []\<rparr>"

definition lock_free :: "'m reply_state \<Rightarrow> bool" where
  "lock_free s \<longleftrightarrow> (case sender s of Publishing m \<Rightarrow> False | Crashed \<Rightarrow> False | _ \<Rightarrow> True)"

text \<open>\<open>notify_one\<close>: without a thread that waits it has no effect.\<close>

definition notified :: "'m sender \<Rightarrow> 'm sender" where
  "notified t = (case t of Waiting \<Rightarrow> Woken | _ \<Rightarrow> t)"

definition push_reply :: "'m \<Rightarrow> 'm reply_state \<Rightarrow> 'm reply_state" where
  "push_reply m s = s\<lparr>replies := replies s @ [m], pushed := pushed s @ [m], sender := notified (sender s)\<rparr>"

text \<open>
  What the sending thread does when it is awake with the mutex: it takes one reply, whether more of them
  are there or not.
\<close>

definition take_reply :: "'m reply_state \<Rightarrow> 'm reply_state" where
  "take_reply s = (case replies s of
     [] \<Rightarrow> s\<lparr>sender := Between\<rparr>
   | m # ms \<Rightarrow> s\<lparr>replies := ms, sender := Publishing m\<rparr>)"

datatype 'm reply_event = Arrive 'm | Library_Push | Other_Push 'm | Wait | Timed_Out | Spurious_Wakeup | Wake | Acknowledged | Failed
  | Exit | Leave

inductive reply_step :: "'m reply_event \<Rightarrow> 'm reply_state \<Rightarrow> 'm reply_state \<Rightarrow> bool" where
  Arrive: "sender s \<noteq> Crashed \<Longrightarrow> library s = None \<Longrightarrow> reply_step (Arrive m) s (s\<lparr>library := Some m\<rparr>)"
| Library_Push: "library s = Some m \<Longrightarrow> lock_free s \<Longrightarrow> reply_step Library_Push s (push_reply m (s\<lparr>library := None\<rparr>))"
| Other_Push: "lock_free s \<Longrightarrow> reply_step (Other_Push m) s (push_reply m s)"
| Wait: "sender s = Between \<Longrightarrow> \<not> exiting s \<Longrightarrow> reply_step Wait s (s\<lparr>sender := Waiting\<rparr>)"
| Timed_Out: "sender s \<in> {Waiting, Woken} \<Longrightarrow> reply_step Timed_Out s (s\<lparr>sender := Between\<rparr>)"
| Spurious_Wakeup: "sender s = Waiting \<Longrightarrow> reply_step Spurious_Wakeup s (s\<lparr>sender := Woken\<rparr>)"
| Wake: "sender s = Woken \<Longrightarrow> reply_step Wake s (take_reply s)"
| Acknowledged: "sender s = Publishing m \<Longrightarrow> library s = None \<Longrightarrow> reply_step Acknowledged s (s\<lparr>sender := Between, sent := sent s @ [m]\<rparr>)"
| Failed: "sender s = Publishing m \<Longrightarrow> reply_step Failed s (s\<lparr>sender := Crashed\<rparr>)"
| Exit: "sender s \<noteq> Crashed \<Longrightarrow> reply_step Exit s (s\<lparr>exiting := True\<rparr>)"
| Leave: "sender s = Between \<Longrightarrow> exiting s \<Longrightarrow> reply_step Leave s (s\<lparr>sender := Finished\<rparr>)"

inductive reply_run :: "'m reply_event list \<Rightarrow> 'm reply_state \<Rightarrow> 'm reply_state \<Rightarrow> bool" where
  Stop: "reply_run [] s s"
| Go: "reply_step e s s' \<Longrightarrow> reply_run es s' s'' \<Longrightarrow> reply_run (e # es) s s''"

inductive_simps reply_run_simps: "reply_run [] s s'" "reply_run (e # es) s s'"

inductive_simps reply_step_simps:
  "reply_step (Arrive m) s s'" "reply_step Library_Push s s'" "reply_step (Other_Push m) s s'" "reply_step Wait s s'"
  "reply_step Timed_Out s s'" "reply_step Spurious_Wakeup s s'" "reply_step Wake s s'" "reply_step Acknowledged s s'"
  "reply_step Failed s s'" "reply_step Exit s s'" "reply_step Leave s s'"

lemmas reply_defs = push_reply_def take_reply_def notified_def lock_free_def

section \<open>The order of replies\<close>

definition in_flight :: "'m sender \<Rightarrow> 'm list" where
  "in_flight t = (case t of Publishing m \<Rightarrow> [m] | _ \<Rightarrow> [])"

text \<open>The replies that are accounted for; a failed one counts as lost.\<close>

definition accounted :: "'m list \<Rightarrow> 'm reply_state \<Rightarrow> bool" where
  "accounted lost s \<longleftrightarrow> pushed s = sent s @ in_flight (sender s) @ lost @ replies s \<and>
     (if sender s = Crashed then length lost = 1 else lost = [])"

lemma accounted_start: "accounted [] reply_start"
  by (simp add: accounted_def reply_start_def in_flight_def)

lemma accounted_step:
  assumes "reply_step e s s'" "\<exists>lost. accounted lost s"
  shows "\<exists>lost. accounted lost s'"
  using assms
proof (cases rule: reply_step.cases)
  case Wake
  with assms(2) show ?thesis by (cases "replies s") (auto simp: accounted_def reply_defs in_flight_def)
next
  case (Failed m)
  with assms(2) have "accounted [m] s'" by (auto simp: accounted_def in_flight_def)
  then show ?thesis ..
qed (auto simp: accounted_def reply_defs in_flight_def split: sender.splits)

lemma accounted_run: "reply_run es s s' \<Longrightarrow> \<exists>lost. accounted lost s \<Longrightarrow> \<exists>lost. accounted lost s'"
  by (induction rule: reply_run.induct) (auto dest: accounted_step)

text \<open>
  C15. Replies are sent in their order: in every state that the threads can reach, whatever their
  interleaving, the replies that were queued are, in the order of queueing, those that the broker has
  acknowledged, the one that is being published, and those that are still in the queue; none is lost or
  sent twice, unless the process ended while one reply was being published.
\<close>

theorem replies_in_order:
  assumes "reply_run es reply_start s"
  shows "\<exists>lost. pushed s = sent s @ in_flight (sender s) @ lost @ replies s \<and> (if sender s = Crashed then length lost = 1 else lost = [])"
  using accounted_run [OF assms exI [of "\<lambda>lost. accounted lost reply_start", OF accounted_start]] by (simp add: accounted_def)

theorem replies_in_order_witness:
  "\<exists>s. reply_run [Other_Push ''a'', Wait, Arrive ''b'', Library_Push, Wake] reply_start s \<and> sender s = Publishing ''a'' \<and>
     pushed s = sent s @ in_flight (sender s) @ [] @ replies s"
proof -
  define s where "s = \<lparr>replies = [''b''], sender = Publishing ''a'', library = None, exiting = False, pushed = [''a'', ''b''], sent = []\<rparr>"
  have r: "reply_run [Other_Push ''a'', Wait, Arrive ''b'', Library_Push, Wake] reply_start s"
    by (simp add: reply_run_simps reply_step_simps reply_start_def reply_defs s_def)
  from replies_in_order [OF r] r show ?thesis by (auto simp: s_def)
qed

section \<open>Replies that nobody sends\<close>

text \<open>The replies in the queue without the one for which the thread has been notified.\<close>

definition backlog :: "'m reply_state \<Rightarrow> int" where
  "backlog s = int (length (replies s)) - (if sender s = Woken then 1 else 0)"

definition wakes_properly :: "'m reply_state \<Rightarrow> bool" where
  "wakes_properly s \<longleftrightarrow> (sender s = Woken \<longrightarrow> replies s \<noteq> [])"

lemma backlog_step:
  assumes "reply_step e s s'" "e \<noteq> Spurious_Wakeup" "wakes_properly s"
  shows "wakes_properly s' \<and> backlog s \<le> backlog s'"
  using assms
  by (cases rule: reply_step.cases)
    (auto simp: wakes_properly_def backlog_def reply_defs split: sender.splits list.splits)

lemma backlog_run: "reply_run es s s' \<Longrightarrow> Spurious_Wakeup \<notin> set es \<Longrightarrow> wakes_properly s \<Longrightarrow> wakes_properly s' \<and> backlog s \<le> backlog s'"
  by (induction rule: reply_run.induct) (auto dest: backlog_step)

lemma reply_run_append: "reply_run (es @ fs) s s'' \<longleftrightarrow> (\<exists>s'. reply_run es s s' \<and> reply_run fs s' s'')"
  by (induction es arbitrary: s) (auto simp: reply_run_simps)

text \<open>
  Replies that were queued while the sending thread was not waiting are never caught up with: without
  spurious wakeups, the number of replies in the queue that no notification announces never decreases, in
  whatever way the run goes on. The thread takes one reply for each notification, waits without looking at
  the queue first, and does nothing after a timeout; so a client that queues one reply before the thread
  waits for the first time sends every further reply one too late.
\<close>

theorem replies_fall_behind:
  assumes "reply_run es reply_start s" "reply_run fs s s'" "Spurious_Wakeup \<notin> set (es @ fs)"
  shows "backlog s \<le> backlog s' \<and> backlog s \<le> int (length (replies s'))"
proof -
  have "wakes_properly s" using backlog_run [OF assms(1)] assms(3) by (simp add: wakes_properly_def reply_start_def)
  then have "backlog s \<le> backlog s'" using backlog_run [OF assms(2)] assms(3) by simp
  then show ?thesis by (simp add: backlog_def split: if_splits)
qed

theorem replies_fall_behind_witness:
  "\<exists>s s'. reply_run [Other_Push ''a''] reply_start s \<and> reply_run [Wait, Timed_Out, Wait, Other_Push ''b'', Wake, Acknowledged] s s' \<and>
     backlog s = 1 \<and> replies s' = [''b''] \<and> backlog s \<le> backlog s'"
proof -
  define s where "s = \<lparr>replies = [''a''], sender = Between, library = None, exiting = False, pushed = [''a''], sent = []\<rparr>"
  define s' where "s' = \<lparr>replies = [''b''], sender = Between, library = None, exiting = False, pushed = [''a'', ''b''], sent = [''a'']\<rparr>"
  have r: "reply_run [Other_Push ''a''] reply_start s" "reply_run [Wait, Timed_Out, Wait, Other_Push ''b'', Wake, Acknowledged] s s'"
    by (simp_all add: reply_run_simps reply_step_simps reply_start_def reply_defs s_def s'_def)
  from replies_fall_behind [OF r] have "backlog s \<le> backlog s'" by simp
  with r show ?thesis by (intro exI [of _ s] exI [of _ s']) (simp add: s_def s'_def backlog_def)
qed

section \<open>A deadlock\<close>

lemma crashed_step: "reply_step e s s' \<Longrightarrow> sender s = Crashed \<Longrightarrow> False"
  by (cases rule: reply_step.cases) (auto simp: lock_free_def)

text \<open>
  C11. The sending thread and the thread of the C library can block each other: \<open>_send_reply\<close> keeps \<open>mLock\<close>
  while it waits for the acknowledgement of the reply, and the acknowledgement is handled by the thread that
  delivers messages. If a request arrives in this time whose answer has to be queued, that thread waits for
  \<open>mLock\<close>, so that in every continuation no reply is queued or acknowledged any more, and the only way out is that
  \<open>wait_for_completion\<close> throws after its timeout, which ends the process.
\<close>

theorem reply_deadlock:
  assumes "reply_run es s s'" "sender s = Publishing m" "library s = Some r"
  shows "sent s' = sent s \<and> pushed s' = pushed s \<and>
    (if Failed \<in> set es then sender s' = Crashed else sender s' = Publishing m \<and> library s' = Some r)"
proof -
  have "sent s' = sent s \<and> pushed s' = pushed s \<and>
      (if Failed \<in> set es then sender s' = Crashed else sender s' = Publishing m \<and> library s' = Some r)"
    if "sender s = Publishing m \<and> library s = Some r"
    using assms(1) that
  proof (induction rule: reply_run.induct)
    case (Go e s s' es s'')
    show ?case
    proof (cases "e = Failed")
      case True
      with Go.hyps(1) Go.prems have c: "sender s' = Crashed" "sent s' = sent s" "pushed s' = pushed s" by (auto simp: reply_step_simps)
      from Go.hyps(2) c(1) have "s'' = s'" by (cases rule: reply_run.cases) (auto dest: crashed_step)
      with c True show ?thesis by simp
    next
      case False
      from Go.hyps(1) Go.prems False have "sender s' = Publishing m \<and> library s' = Some r \<and> sent s' = sent s \<and> pushed s' = pushed s"
        by (cases rule: reply_step.cases) (auto simp: reply_defs)
      with Go.IH False show ?thesis by auto
    qed
  qed simp
  with assms(2,3) show ?thesis by blast
qed

theorem reply_deadlock_witness:
  "\<exists>s s'. reply_run [Wait, Arrive ''a'', Library_Push, Wake, Arrive ''b''] reply_start s \<and> reply_run [Failed] s s' \<and>
     pushed s = [''a''] \<and> sent s' = sent s \<and> sender s' = Crashed"
proof -
  define s where "s = \<lparr>replies = [], sender = Publishing ''a'', library = Some ''b'', exiting = False, pushed = [''a''], sent = []\<rparr>"
  have r: "reply_run [Wait, Arrive ''a'', Library_Push, Wake, Arrive ''b''] reply_start s" "reply_run [Failed] s (s\<lparr>sender := Crashed\<rparr>)"
    by (simp_all add: reply_run_simps reply_step_simps reply_start_def reply_defs s_def)
  from reply_deadlock [OF r(2), of "''a''" "''b''"] r show ?thesis by (intro exI [of _ s] exI [of _ "s\<lparr>sender := Crashed\<rparr>"]) (simp add: s_def)
qed

end
