(* ===== verification/NodeTree.thy ===== *)
theory NodeTree
  imports Prelude
begin

text \<open>
  The red-black trees of \<open>lib/Tree.c\<close>, which \<open>lib/Heap.c\<close> keeps its records in. The nodes live in an explicit store;
  the parent and child pointers are changed as in the source. A tree has one or two indexes over the same contents.
  The comparison functions read the memory behind the contents, which is their first argument; \<open>None\<close> is a bad
  pointer there, too. The \<open>int\<close> that counts the nodes has no bound here: it counts nodes that are in memory.
\<close>

section \<open>Nodes and trees\<close>

text \<open>The indexes of \<open>child\<close> are the directions: \<open>False\<close> is \<open>LEFT\<close>.\<close>

record Node =
  nd_parent :: ptr
  nd_child :: "bool \<Rightarrow> ptr"
  nd_content :: ptr
  nd_size :: "64 word"
  nd_red :: bool

abbreviation (input) LEFT :: bool where "LEFT \<equiv> False"
abbreviation (input) RIGHT :: bool where "RIGHT \<equiv> True"

type_synonym nodes = "addr \<Rightarrow> Node option"
type_synonym 'm comparison = "'m \<Rightarrow> ptr \<Rightarrow> ptr \<Rightarrow> bool \<Rightarrow> int option"

record 'm Tree =
  tr_root :: "nat \<Rightarrow> ptr"
  tr_compare :: "nat \<Rightarrow> 'm comparison"
  tr_indexes :: nat
  tr_count :: int
  tr_size :: "64 word"
  tr_heap_tracking :: bool
  tr_allow_duplicates :: bool

definition get_node :: "nodes \<Rightarrow> ptr \<Rightarrow> Node option" where
  "get_node s p = Option.bind p s"

definition set_node :: "(Node \<Rightarrow> Node) \<Rightarrow> ptr \<Rightarrow> nodes \<Rightarrow> nodes option" where
  "set_node f p s = (case p of None \<Rightarrow> None
     | Some a \<Rightarrow> (case s a of None \<Rightarrow> None | Some n \<Rightarrow> Some (s(a \<mapsto> f n))))"

definition set_child :: "bool \<Rightarrow> ptr \<Rightarrow> ptr \<Rightarrow> nodes \<Rightarrow> nodes option" where
  "set_child d q p s = set_node (\<lambda>n. n\<lparr>nd_child := (nd_child n)(d := q)\<rparr>) p s"

definition set_parent :: "ptr \<Rightarrow> ptr \<Rightarrow> nodes \<Rightarrow> nodes option" where
  "set_parent q p s = set_node (\<lambda>n. n\<lparr>nd_parent := q\<rparr>) p s"

definition set_red :: "bool \<Rightarrow> ptr \<Rightarrow> nodes \<Rightarrow> nodes option" where
  "set_red c p s = set_node (\<lambda>n. n\<lparr>nd_red := c\<rparr>) p s"

definition parent_of :: "nodes \<Rightarrow> ptr \<Rightarrow> ptr option" where
  "parent_of s p = map_option nd_parent (get_node s p)"

definition child_of :: "nodes \<Rightarrow> ptr \<Rightarrow> bool \<Rightarrow> ptr option" where
  "child_of s p d = map_option (\<lambda>n. nd_child n d) (get_node s p)"

text \<open>
  \<open>TreeInitializeNoMalloc\<close> and \<open>TreeInitialize\<close>, whose memory comes from \<open>malloc\<close> here. A third index would be
  written behind the array.
\<close>

definition TreeInitializeNoMalloc :: "'m comparison \<Rightarrow> 'm Tree" where
  "TreeInitializeNoMalloc compare = \<lparr>tr_root = (\<lambda>_. None), tr_compare = (\<lambda>_ _ _ _ _. None)(0 := compare),
     tr_indexes = 1, tr_count = 0, tr_size = 0, tr_heap_tracking = True, tr_allow_duplicates = False\<rparr>"

definition TreeAddIndex :: "'m Tree \<Rightarrow> 'm comparison \<Rightarrow> 'm Tree option" where
  "TreeAddIndex t compare =
     (if tr_indexes t < 2
      then Some (t\<lparr>tr_compare := (tr_compare t)(tr_indexes t := compare), tr_indexes := tr_indexes t + 1\<rparr>)
      else None)"

definition isRed :: "nodes \<Rightarrow> ptr \<Rightarrow> bool option" where
  "isRed s p = (if p = None then Some False else map_option nd_red (get_node s p))"

definition isBlack :: "nodes \<Rightarrow> ptr \<Rightarrow> bool option" where
  "isBlack s p = (if p = None then Some True else map_option (\<lambda>n. \<not> nd_red n) (get_node s p))"

text \<open>\<open>TreeWalk\<close>, whose depth ends at the null pointers below the leaves.\<close>

partial_function (option) TreeWalk :: "nodes \<Rightarrow> ptr \<Rightarrow> int \<Rightarrow> int option" where
  "TreeWalk s curnode depth =
     (if curnode = None then Some depth
      else do {
        n \<leftarrow> get_node s curnode;
        left \<leftarrow> TreeWalk s (nd_child n LEFT) (depth + 1);
        right \<leftarrow> TreeWalk s (nd_child n RIGHT) (depth + 1);
        Some (max left right)
      })"

definition TreeMaxDepth :: "'m Tree \<Rightarrow> nodes \<Rightarrow> int option" where
  "TreeMaxDepth t s = TreeWalk s (tr_root t 0) 0"

definition set_root :: "nat \<Rightarrow> ptr \<Rightarrow> 'm Tree \<Rightarrow> 'm Tree" where
  "set_root index p t = t\<lparr>tr_root := (tr_root t)(index := p)\<rparr>"

definition TreeRotate :: "'m Tree \<Rightarrow> nodes \<Rightarrow> ptr \<Rightarrow> bool \<Rightarrow> nat \<Rightarrow> ('m Tree \<times> nodes) option" where
  "TreeRotate t s curnode direction index = do {
     other \<leftarrow> child_of s curnode (\<not> direction);
     inner \<leftarrow> child_of s other direction;
     s \<leftarrow> set_child (\<not> direction) inner curnode s;
     s \<leftarrow> (if inner \<noteq> None then set_parent curnode inner s else Some s);
     parent \<leftarrow> parent_of s curnode;
     s \<leftarrow> set_parent parent other s;
     (t, s) \<leftarrow> (if parent = None then Some (set_root index other t, s)
       else do {
         c \<leftarrow> child_of s parent direction;
         s \<leftarrow> set_child (if curnode = c then direction else \<not> direction) other parent s;
         Some (t, s)
       });
     s \<leftarrow> set_child direction curnode other s;
     s \<leftarrow> set_parent other curnode s;
     Some (t, s)
   }"

section \<open>Adding\<close>

definition TreeBAASub :: "'m Tree \<Rightarrow> nodes \<Rightarrow> ptr \<Rightarrow> bool \<Rightarrow> nat \<Rightarrow> (ptr \<times> 'm Tree \<times> nodes) option" where
  "TreeBAASub t s curnode which index = do {
     parent \<leftarrow> parent_of s curnode;
     grand \<leftarrow> parent_of s parent;
     uncle \<leftarrow> child_of s grand which;
     uncle_red \<leftarrow> isRed s uncle;
     if uncle_red then do {
       s \<leftarrow> set_red False uncle s;
       s \<leftarrow> set_red False parent s;
       s \<leftarrow> set_red True grand s;
       Some (grand, t, s)
     }
     else do {
       inner \<leftarrow> child_of s parent which;
       (curnode, t, s) \<leftarrow> (if curnode = inner
         then do { (t, s) \<leftarrow> TreeRotate t s parent (\<not> which) index; Some (parent, t, s) }
         else Some (curnode, t, s));
       parent \<leftarrow> parent_of s curnode;
       s \<leftarrow> set_red False parent s;
       grand \<leftarrow> parent_of s parent;
       s \<leftarrow> set_red True grand s;
       (t, s) \<leftarrow> TreeRotate t s grand which index;
       Some (curnode, t, s)
     }
   }"

text \<open>The condition of the loop of \<open>TreeBalanceAfterAdd\<close> and the loop.\<close>

definition add_unbalanced :: "nodes \<Rightarrow> ptr \<Rightarrow> bool option" where
  "add_unbalanced s curnode =
     (if curnode = None then Some False
      else do {
        parent \<leftarrow> parent_of s curnode;
        red \<leftarrow> isRed s parent;
        if \<not> red then Some False else map_option (\<lambda>grand. grand \<noteq> None) (parent_of s parent)
      })"

partial_function (option) balance_add_loop :: "'m Tree \<Rightarrow> nodes \<Rightarrow> ptr \<Rightarrow> nat \<Rightarrow> ('m Tree \<times> nodes) option" where
  "balance_add_loop t s curnode index = do {
     unbalanced \<leftarrow> add_unbalanced s curnode;
     if \<not> unbalanced then Some (t, s)
     else do {
       parent \<leftarrow> parent_of s curnode;
       grand \<leftarrow> parent_of s parent;
       left \<leftarrow> child_of s grand LEFT;
       (curnode, t, s) \<leftarrow> TreeBAASub t s curnode (if parent = left then RIGHT else LEFT) index;
       balance_add_loop t s curnode index
     }
   }"

definition TreeBalanceAfterAdd :: "'m Tree \<Rightarrow> nodes \<Rightarrow> ptr \<Rightarrow> nat \<Rightarrow> ('m Tree \<times> nodes) option" where
  "TreeBalanceAfterAdd t s curnode index = do {
     (t, s) \<leftarrow> balance_add_loop t s curnode index;
     s \<leftarrow> set_red False (tr_root t index) s;
     Some (t, s)
   }"

text \<open>
  The search of \<open>TreeAddByIndex\<close>; \<open>left\<close> is the direction of the last step. \<open>newel\<close> is the result of \<open>malloc\<close>. A tree
  that allows duplicates ends the process when it meets one, \<open>None\<close>.
\<close>

partial_function (option) add_search :: "(ptr \<Rightarrow> int option) \<Rightarrow> nodes \<Rightarrow> int \<Rightarrow> bool \<Rightarrow> ptr \<Rightarrow> ptr \<Rightarrow> (int \<times> bool \<times> ptr \<times> ptr) option" where
  "add_search compare s result left curparent curnode =
     (if curnode = None then Some (result, left, curparent, curnode)
      else do {
        n \<leftarrow> get_node s curnode;
        result \<leftarrow> compare (nd_content n);
        let left = (result > 0);
        if result = 0 then Some (result, left, curparent, curnode)
        else add_search compare s result left curnode (nd_child n left)
      })"

definition link_node :: "'m Tree \<Rightarrow> nodes \<Rightarrow> bool \<Rightarrow> ptr \<Rightarrow> ptr \<Rightarrow> 64 word \<Rightarrow> nat \<Rightarrow> ptr \<Rightarrow> ('m Tree \<times> nodes) option" where
  "link_node t s left curparent content sz index newel = do {
     a \<leftarrow> newel;
     let s = s(a \<mapsto> \<lparr>nd_parent = None, nd_child = (\<lambda>_. None), nd_content = None, nd_size = 0, nd_red = False\<rparr>);
     (t, s) \<leftarrow> (if curparent \<noteq> None then map_option (Pair t) (set_child left newel curparent s)
               else Some (set_root index newel t, s));
     s \<leftarrow> set_node (\<lambda>n. n\<lparr>nd_parent := curparent, nd_red := True\<rparr>) newel s;
     s \<leftarrow> set_node (\<lambda>n. n\<lparr>nd_content := content, nd_size := sz\<rparr>) newel s;
     Some (t, s)
   }"

definition TreeAddByIndex ::
    "'m \<Rightarrow> 'm Tree \<Rightarrow> nodes \<Rightarrow> ptr \<Rightarrow> 64 word \<Rightarrow> nat \<Rightarrow> ptr \<Rightarrow> (ptr \<times> 'm Tree \<times> nodes) option" where
  "TreeAddByIndex mem t s content sz index newel = do {
     (result, left, curparent, curnode) \<leftarrow>
       add_search (\<lambda>c. tr_compare t index mem c content True) s 1 LEFT None (tr_root t index);
     if result = 0 then
       if tr_allow_duplicates t then None
       else do {
         n \<leftarrow> get_node s curnode;
         let t = (if index = 0 then t\<lparr>tr_size := tr_size t + (sz - nd_size n)\<rparr> else t);
         s \<leftarrow> set_node (\<lambda>n. n\<lparr>nd_content := content, nd_size := sz\<rparr>) curnode s;
         (t, s) \<leftarrow> TreeBalanceAfterAdd t s curnode index;
         Some (nd_content n, t, s)
       }
     else do {
       (t, s) \<leftarrow> link_node t s left curparent content sz index newel;
      let t = (if index = 0 then t\<lparr>tr_count := tr_count t + 1, tr_size := tr_size t + sz\<rparr> else t);
      (t, s) \<leftarrow> TreeBalanceAfterAdd t s newel index;
       Some (None, t, s)
     }
   }"

text \<open>\<open>TreeAdd\<close> returns what the last index had; \<open>news\<close> are the results of \<open>malloc\<close>, one for each index.\<close>

fun add_indexes :: "'m \<Rightarrow> 'm Tree \<Rightarrow> nodes \<Rightarrow> ptr \<Rightarrow> 64 word \<Rightarrow> (nat \<Rightarrow> ptr) \<Rightarrow> nat list \<Rightarrow> ptr \<Rightarrow> (ptr \<times> 'm Tree \<times> nodes) option" where
  "add_indexes mem t s content sz news [] rc = Some (rc, t, s)"
| "add_indexes mem t s content sz news (i # is) rc = do {
     (rc, t, s) \<leftarrow> TreeAddByIndex mem t s content sz i (news i);
     add_indexes mem t s content sz news is rc
   }"

definition TreeAdd :: "'m \<Rightarrow> 'm Tree \<Rightarrow> nodes \<Rightarrow> ptr \<Rightarrow> 64 word \<Rightarrow> (nat \<Rightarrow> ptr) \<Rightarrow> (ptr \<times> 'm Tree \<times> nodes) option" where
  "TreeAdd mem t s content sz news = add_indexes mem t s content sz news [0..<tr_indexes t] None"

section \<open>Finding\<close>

partial_function (option) find_node_loop :: "(ptr \<Rightarrow> int option) \<Rightarrow> nodes \<Rightarrow> ptr \<Rightarrow> ptr option" where
  "find_node_loop compare s curnode =
     (if curnode = None then Some None
      else do {
        n \<leftarrow> get_node s curnode;
        result \<leftarrow> compare (nd_content n);
        if result = 0 then Some curnode else find_node_loop compare s (nd_child n (result > 0))
      })"

definition TreeFindIndex1 :: "'m \<Rightarrow> 'm Tree \<Rightarrow> nodes \<Rightarrow> ptr \<Rightarrow> nat \<Rightarrow> bool \<Rightarrow> ptr option" where
  "TreeFindIndex1 mem t s key index value =
     find_node_loop (\<lambda>c. tr_compare t index mem c key value) s (tr_root t index)"

definition TreeFindIndex :: "'m \<Rightarrow> 'm Tree \<Rightarrow> nodes \<Rightarrow> ptr \<Rightarrow> nat \<Rightarrow> ptr option" where
  "TreeFindIndex mem t s key index = TreeFindIndex1 mem t s key index False"

definition TreeFindContentIndex :: "'m \<Rightarrow> 'm Tree \<Rightarrow> nodes \<Rightarrow> ptr \<Rightarrow> nat \<Rightarrow> ptr option" where
  "TreeFindContentIndex mem t s key index = TreeFindIndex1 mem t s key index True"

definition TreeFind :: "'m \<Rightarrow> 'm Tree \<Rightarrow> nodes \<Rightarrow> ptr \<Rightarrow> ptr option" where
  "TreeFind mem t s key = TreeFindIndex mem t s key 0"

section \<open>Iterating\<close>

partial_function (option) minimum_loop :: "nodes \<Rightarrow> ptr \<Rightarrow> ptr option" where
  "minimum_loop s curnode = do {
     left \<leftarrow> child_of s curnode LEFT;
     if left = None then Some curnode else minimum_loop s left
   }"

definition TreeMinimum :: "nodes \<Rightarrow> ptr \<Rightarrow> ptr option" where
  "TreeMinimum s curnode = (if curnode = None then Some None else minimum_loop s curnode)"

partial_function (option) climb_loop :: "nodes \<Rightarrow> ptr \<Rightarrow> ptr \<Rightarrow> ptr option" where
  "climb_loop s curnode curparent =
     (if curparent = None then Some None
      else do {
        right \<leftarrow> child_of s curparent RIGHT;
        if curnode = right then Option.bind (parent_of s curparent) (climb_loop s curparent) else Some curparent
      })"

definition TreeSuccessor :: "nodes \<Rightarrow> ptr \<Rightarrow> ptr option" where
  "TreeSuccessor s curnode = do {
     right \<leftarrow> child_of s curnode RIGHT;
     if right \<noteq> None then TreeMinimum s right
     else Option.bind (parent_of s curnode) (climb_loop s curnode)
   }"

definition TreeNextElementIndex :: "'m Tree \<Rightarrow> nodes \<Rightarrow> ptr \<Rightarrow> nat \<Rightarrow> ptr option" where
  "TreeNextElementIndex t s curnode index =
     (if curnode = None then TreeMinimum s (tr_root t index) else TreeSuccessor s curnode)"

definition TreeNextElement :: "'m Tree \<Rightarrow> nodes \<Rightarrow> ptr \<Rightarrow> ptr option" where
  "TreeNextElement t s curnode = TreeNextElementIndex t s curnode 0"

section \<open>Removing\<close>

text \<open>\<open>TreeBARSub\<close>, in two steps: the case of a red sibling, and the rest.\<close>

definition red_sibling ::
    "'m Tree \<Rightarrow> nodes \<Rightarrow> ptr \<Rightarrow> bool \<Rightarrow> nat \<Rightarrow> (ptr \<times> 'm Tree \<times> nodes) option" where
  "red_sibling t s curnode which index = do {
     parent \<leftarrow> parent_of s curnode;
     sibling \<leftarrow> child_of s parent which;
     red \<leftarrow> isRed s sibling;
     if red then do {
       s \<leftarrow> set_red False sibling s;
       s \<leftarrow> set_red True parent s;
       (t, s) \<leftarrow> TreeRotate t s parent (\<not> which) index;
       parent \<leftarrow> parent_of s curnode;
       sibling \<leftarrow> child_of s parent which;
       Some (sibling, t, s)
     }
     else Some (sibling, t, s)
   }"

definition black_sibling ::
    "'m Tree \<Rightarrow> nodes \<Rightarrow> ptr \<Rightarrow> ptr \<Rightarrow> bool \<Rightarrow> nat \<Rightarrow> (ptr \<times> 'm Tree \<times> nodes) option" where
  "black_sibling t s curnode sibling which index = do {
     parent \<leftarrow> parent_of s curnode;
     if sibling = None then Some (parent, t, s)
     else do {
       near \<leftarrow> child_of s sibling (\<not> which);
       near_black \<leftarrow> isBlack s near;
       far \<leftarrow> child_of s sibling which;
       far_black \<leftarrow> isBlack s far;
       if near_black \<and> far_black then do {
         s \<leftarrow> set_red True sibling s;
         Some (parent, t, s)
       }
       else do {
         (sibling, t, s) \<leftarrow> (if far_black then do {
             s \<leftarrow> set_red False near s;
             s \<leftarrow> set_red True sibling s;
             (t, s) \<leftarrow> TreeRotate t s sibling which index;
             parent \<leftarrow> parent_of s curnode;
             sibling \<leftarrow> child_of s parent which;
             Some (sibling, t, s)
           }
           else Some (sibling, t, s));
         parent \<leftarrow> parent_of s curnode;
         red \<leftarrow> map_option nd_red (get_node s parent);
         s \<leftarrow> set_red red sibling s;
         s \<leftarrow> set_red False parent s;
         far \<leftarrow> child_of s sibling which;
         s \<leftarrow> set_red False far s;
         (t, s) \<leftarrow> TreeRotate t s parent (\<not> which) index;
         Some (tr_root t index, t, s)
       }
     }
   }"

definition TreeBARSub :: "'m Tree \<Rightarrow> nodes \<Rightarrow> ptr \<Rightarrow> bool \<Rightarrow> nat \<Rightarrow> (ptr \<times> 'm Tree \<times> nodes) option" where
  "TreeBARSub t s curnode which index = do {
     (sibling, t, s) \<leftarrow> red_sibling t s curnode which index;
     black_sibling t s curnode sibling which index
   }"

text \<open>
  \<open>TreeBalanceAfterRemove\<close>. A node without content stands for a null pointer: it is the one on the stack of
  \<open>TreeRemoveNodeIndex\<close>.
\<close>

partial_function (option) balance_remove_loop :: "'m Tree \<Rightarrow> nodes \<Rightarrow> ptr \<Rightarrow> nat \<Rightarrow> (ptr \<times> 'm Tree \<times> nodes) option" where
  "balance_remove_loop t s curnode index =
     (if curnode = tr_root t index then Some (curnode, t, s)
      else do {
        black \<leftarrow> isBlack s curnode;
        if \<not> black then Some (curnode, t, s)
        else do {
          n \<leftarrow> get_node s curnode;
          left \<leftarrow> child_of s (nd_parent n) LEFT;
          (curnode, t, s) \<leftarrow> TreeBARSub t s curnode
            (if (if nd_content n \<noteq> None then curnode else None) = left then RIGHT else LEFT) index;
          balance_remove_loop t s curnode index
        }
      })"

definition TreeBalanceAfterRemove :: "'m Tree \<Rightarrow> nodes \<Rightarrow> ptr \<Rightarrow> nat \<Rightarrow> ('m Tree \<times> nodes) option" where
  "TreeBalanceAfterRemove t s curnode index = do {
     (curnode, t, s) \<leftarrow> balance_remove_loop t s curnode index;
     s \<leftarrow> set_red False curnode s;
     Some (t, s)
   }"

text \<open>
  \<open>TreeRemoveNodeIndex\<close>. \<open>temp\<close> is the address of its local node, which exists while the tree is balanced. The first
  part takes a node out of its place that has at most one child.
\<close>

definition unlink_node :: "'m Tree \<Rightarrow> nodes \<Rightarrow> ptr \<Rightarrow> nat \<Rightarrow> (ptr \<times> 'm Tree \<times> nodes) option" where
  "unlink_node t s redundant index = do {
     n \<leftarrow> get_node s redundant;
     let curchild = nd_child n (if nd_child n LEFT \<noteq> None then LEFT else RIGHT);
     s \<leftarrow> (if curchild \<noteq> None then set_parent (nd_parent n) curchild s else Some s);
     (t, s) \<leftarrow> (if nd_parent n = None then Some (set_root index curchild t, s)
       else do {
         left \<leftarrow> child_of s (nd_parent n) LEFT;
         s \<leftarrow> set_child (if redundant = left then LEFT else RIGHT) curchild (nd_parent n) s;
         Some (t, s)
       });
     Some (curchild, t, s)
   }"

definition rebalance :: "'m Tree \<Rightarrow> nodes \<Rightarrow> ptr \<Rightarrow> ptr \<Rightarrow> nat \<Rightarrow> addr \<Rightarrow> ('m Tree \<times> nodes) option" where
  "rebalance t s redundant curchild index temp = do {
     n \<leftarrow> get_node s redundant;
     if nd_red n then Some (t, s)
     else if curchild \<noteq> None then TreeBalanceAfterRemove t s curchild index
     else if nd_parent n = None then Some (t, s)
     else do {
       let s = s(temp \<mapsto> \<lparr>nd_parent = nd_parent n, nd_child = (\<lambda>_. None), nd_content = None, nd_size = 0, nd_red = False\<rparr>);
       (t, s) \<leftarrow> TreeBalanceAfterRemove t s (Some temp) index;
       Some (t, s(temp := None))
     }
   }"

definition free_node :: "ptr \<Rightarrow> nodes \<Rightarrow> nodes option" where
  "free_node p s = do { a \<leftarrow> p; _ \<leftarrow> s a; Some (s(a := None)) }"

definition TreeRemoveNodeIndex :: "'m Tree \<Rightarrow> nodes \<Rightarrow> ptr \<Rightarrow> nat \<Rightarrow> addr \<Rightarrow> (ptr \<times> 'm Tree \<times> nodes) option" where
  "TreeRemoveNodeIndex t s curnode index temp = do {
     n \<leftarrow> get_node s curnode;
     redundant \<leftarrow> (if nd_child n LEFT \<noteq> None \<and> nd_child n RIGHT \<noteq> None then TreeSuccessor s curnode else Some curnode);
     (curchild, t, s) \<leftarrow> unlink_node t s redundant index;
     s \<leftarrow> (if redundant \<noteq> curnode then do {
         r \<leftarrow> get_node s redundant;
         set_node (\<lambda>n. n\<lparr>nd_content := nd_content r, nd_size := nd_size r\<rparr>) curnode s
       }
       else Some s);
     (t, s) \<leftarrow> rebalance t s redundant curchild index temp;
     s \<leftarrow> free_node redundant s;
     Some (nd_content n, if index = 0 then t\<lparr>tr_size := tr_size t - nd_size n, tr_count := tr_count t - 1\<rparr> else t, s)
   }"

definition TreeRemoveIndex :: "'m \<Rightarrow> 'm Tree \<Rightarrow> nodes \<Rightarrow> ptr \<Rightarrow> nat \<Rightarrow> addr \<Rightarrow> (ptr \<times> 'm Tree \<times> nodes) option" where
  "TreeRemoveIndex mem t s content index temp = do {
     curnode \<leftarrow> TreeFindContentIndex mem t s content index;
     if curnode = None then Some (None, t, s) else TreeRemoveNodeIndex t s curnode index temp
   }"

fun remove_indexes :: "'m \<Rightarrow> 'm Tree \<Rightarrow> nodes \<Rightarrow> ptr \<Rightarrow> addr \<Rightarrow> nat list \<Rightarrow> ptr \<Rightarrow> (ptr \<times> 'm Tree \<times> nodes) option" where
  "remove_indexes mem t s content temp [] rc = Some (rc, t, s)"
| "remove_indexes mem t s content temp (i # is) rc = do {
     (rc, t, s) \<leftarrow> TreeRemoveIndex mem t s content i temp;
     remove_indexes mem t s content temp is rc
   }"

definition TreeRemove :: "'m \<Rightarrow> 'm Tree \<Rightarrow> nodes \<Rightarrow> ptr \<Rightarrow> addr \<Rightarrow> (ptr \<times> 'm Tree \<times> nodes) option" where
  "TreeRemove mem t s content temp = remove_indexes mem t s content temp [0..<tr_indexes t] None"

text \<open>Here what one index returns is the content that is removed from the next.\<close>

fun remove_others :: "'m \<Rightarrow> 'm Tree \<Rightarrow> nodes \<Rightarrow> ptr \<Rightarrow> addr \<Rightarrow> nat list \<Rightarrow> (ptr \<times> 'm Tree \<times> nodes) option" where
  "remove_others mem t s content temp [] = Some (content, t, s)"
| "remove_others mem t s content temp (i # is) = do {
     (content, t, s) \<leftarrow> TreeRemoveIndex mem t s content i temp;
     remove_others mem t s content temp is
   }"

definition TreeRemoveKeyIndex :: "'m \<Rightarrow> 'm Tree \<Rightarrow> nodes \<Rightarrow> ptr \<Rightarrow> nat \<Rightarrow> addr \<Rightarrow> (ptr \<times> 'm Tree \<times> nodes) option" where
  "TreeRemoveKeyIndex mem t s key index temp = do {
     curnode \<leftarrow> TreeFindIndex mem t s key index;
     if curnode = None then Some (None, t, s)
     else do {
       (content, t, s) \<leftarrow> TreeRemoveNodeIndex t s curnode index temp;
       remove_others mem t s content temp (filter (\<lambda>i. i \<noteq> index) [0..<tr_indexes t])
     }
   }"

definition TreeRemoveKey :: "'m \<Rightarrow> 'm Tree \<Rightarrow> nodes \<Rightarrow> ptr \<Rightarrow> addr \<Rightarrow> (ptr \<times> 'm Tree \<times> nodes) option" where
  "TreeRemoveKey mem t s key temp = TreeRemoveKeyIndex mem t s key 0 temp"

section \<open>Comparisons\<close>

text \<open>The functions for integers, for pointers by address, and for strings, whose bytes \<open>strcmp\<close> compares unsigned.\<close>

definition order_sign :: "'a::linorder \<Rightarrow> 'a \<Rightarrow> int" where
  "order_sign i j = (if i > j then -1 else if i = j then 0 else 1)"

definition TreeIntCompare :: "(addr \<Rightarrow> int option) comparison" where
  "TreeIntCompare mem a b content = do { i \<leftarrow> Option.bind a mem; j \<leftarrow> Option.bind b mem; Some (order_sign i j) }"

definition ptr_value :: "ptr \<Rightarrow> nat" where
  "ptr_value p = (case p of None \<Rightarrow> 0 | Some a \<Rightarrow> Suc a)"

definition TreePtrCompare :: "'m comparison" where
  "TreePtrCompare mem a b content = Some (order_sign (ptr_value a) (ptr_value b))"

fun byte_strcmp :: "bytes \<Rightarrow> bytes \<Rightarrow> int" where
  "byte_strcmp [] [] = 0"
| "byte_strcmp [] (y # ys) = -1"
| "byte_strcmp (x # xs) [] = 1"
| "byte_strcmp (x # xs) (y # ys) = (if x = y then byte_strcmp xs ys else if x < y then -1 else 1)"

definition TreeStringCompare :: "(addr \<Rightarrow> bytes option) comparison" where
  "TreeStringCompare mem a b content = do { x \<leftarrow> Option.bind a mem; y \<leftarrow> Option.bind b mem; Some (byte_strcmp x y) }"

end
