(* ===== verification/RedBlack.thy ===== *)
theory RedBlack
  imports NodeTree
begin

text \<open>
  What the operations of \<open>lib/Tree.c\<close> do, on trees as values instead of pointers. A position in a tree is a subtree
  and its context: the way up to the root, with the direction of each step, the parent's data and the other subtree.
  The loops that restore the balance walk up a context. The theory shows that they keep the invariants of red-black
  trees and the order of the items.
\<close>

section \<open>Trees and contexts\<close>

text \<open>A node has its address, its content with the size, and its colour; \<open>True\<close> is red.\<close>

type_synonym entry = "ptr \<times> 64 word"

datatype atree = Lf | Nd addr entry bool atree atree

type_synonym ctx = "(bool \<times> addr \<times> entry \<times> bool \<times> atree) list"

text \<open>The node with \<open>x\<close> as its child in direction \<open>d\<close> and \<open>y\<close> as the other.\<close>

definition nd :: "bool \<Rightarrow> addr \<Rightarrow> entry \<Rightarrow> bool \<Rightarrow> atree \<Rightarrow> atree \<Rightarrow> atree" where
  "nd d a i c x y = (if d then Nd a i c y x else Nd a i c x y)"

lemma nd_simps [simp]: "nd False a i c x y = Nd a i c x y" "nd True a i c x y = Nd a i c y x"
  by (simp_all add: nd_def)

lemma nd_Lf [simp]: "nd d a i c x y \<noteq> Lf"
  by (simp add: nd_def)

lemma nd_not [simp]: "nd (\<not> d) a i c x y = nd d a i c y x"
  by (simp add: nd_def)

fun kid :: "bool \<Rightarrow> atree \<Rightarrow> atree" where
  "kid d Lf = Lf"
| "kid d (Nd a i c l r) = (if d then r else l)"

lemma nd_kids: "Nd a i c l r = nd d a i c (kid d (Nd a i c l r)) (kid (\<not> d) (Nd a i c l r))"
  by (cases d) simp_all

fun isred :: "atree \<Rightarrow> bool" where
  "isred Lf = False"
| "isred (Nd a i c l r) = c"

fun paint :: "bool \<Rightarrow> atree \<Rightarrow> atree" where
  "paint c Lf = Lf"
| "paint c (Nd a i _ l r) = Nd a i c l r"

fun plug :: "atree \<Rightarrow> ctx \<Rightarrow> atree" where
  "plug t [] = t"
| "plug t ((d, a, i, c, sib) # ctx) = plug (nd d a i c t sib) ctx"

lemma plug_append [simp]: "plug t (xs @ ys) = plug (plug t xs) ys"
  by (induction xs arbitrary: t) auto

lemma plug_Lf_iff [simp]: "plug t ctx = Lf \<longleftrightarrow> t = Lf \<and> ctx = []"
  by (induction t ctx rule: plug.induct) (auto simp: nd_def)

text \<open>The items of a tree from left to right, and those before and after a position.\<close>

fun items :: "atree \<Rightarrow> (addr \<times> entry) list" where
  "items Lf = []"
| "items (Nd a i c l r) = items l @ (a, i) # items r"

fun before :: "ctx \<Rightarrow> (addr \<times> entry) list" where
  "before [] = []"
| "before ((d, a, i, c, sib) # ctx) = before ctx @ (if d then items sib @ [(a, i)] else [])"

fun after :: "ctx \<Rightarrow> (addr \<times> entry) list" where
  "after [] = []"
| "after ((d, a, i, c, sib) # ctx) = (if d then [] else (a, i) # items sib) @ after ctx"

lemma items_nd: "items (nd d a i c x y) = (if d then items y @ (a, i) # items x else items x @ (a, i) # items y)"
  by (simp add: nd_def)

lemma items_paint [simp]: "items (paint c t) = items t"
  by (cases t) simp_all

lemma items_plug: "items (plug t ctx) = before ctx @ items t @ after ctx"
  by (induction t ctx rule: plug.induct) (auto simp: items_nd)

section \<open>Invariants\<close>

fun bh :: "atree \<Rightarrow> nat" where
  "bh Lf = 0"
| "bh (Nd a i c l r) = bh l + (if c then 0 else 1)"

text \<open>No red node has a red child, and all ways down have the same number of black nodes.\<close>

fun redok :: "atree \<Rightarrow> bool" where
  "redok Lf = True"
| "redok (Nd a i c l r) \<longleftrightarrow> redok l \<and> redok r \<and> (c \<longrightarrow> \<not> isred l \<and> \<not> isred r)"

fun even_heights :: "atree \<Rightarrow> bool" where
  "even_heights Lf = True"
| "even_heights (Nd a i c l r) \<longleftrightarrow> even_heights l \<and> even_heights r \<and> bh l = bh r"

definition inner_ok :: "atree \<Rightarrow> bool" where
  "inner_ok t \<longleftrightarrow> redok t \<and> even_heights t"

definition balanced :: "atree \<Rightarrow> bool" where
  "balanced t \<longleftrightarrow> inner_ok t \<and> \<not> isred t"

lemma inner_ok_simps [simp]: "inner_ok Lf"
  "inner_ok (Nd a i c l r) \<longleftrightarrow> inner_ok l \<and> inner_ok r \<and> bh l = bh r \<and> (c \<longrightarrow> \<not> isred l \<and> \<not> isred r)"
  by (auto simp: inner_ok_def)

lemma paint_simps [simp]: "isred (paint c t) \<longleftrightarrow> t \<noteq> Lf \<and> c" "inner_ok t \<Longrightarrow> inner_ok (paint False t)"
  "bh (paint False t) = bh t + (if isred t then 1 else 0)" "paint False (paint c t) = paint False t" "paint c t = Lf \<longleftrightarrow> t = Lf"
  by (cases t; simp)+

lemma paint_black: "\<not> isred t \<Longrightarrow> paint False t = t"
  by (cases t) simp_all

lemma nd_inv: "inner_ok (nd d a i c x y) \<longleftrightarrow> inner_ok x \<and> inner_ok y \<and> bh x = bh y \<and> (c \<longrightarrow> \<not> isred x \<and> \<not> isred y)"
  "isred (nd d a i c x y) = c" "bh (nd d a i c x y) = (if d then bh y else bh x) + (if c then 0 else 1)"
  "paint c' (nd d a i c x y) = nd d a i c' x y"
  by (auto simp: nd_def)

definition top_red :: "ctx \<Rightarrow> bool" where
  "top_red ctx = (case ctx of [] \<Rightarrow> False | (d, a, i, c, sib) # _ \<Rightarrow> c)"

lemma top_red_simps [simp]: "\<not> top_red []" "top_red ((d, a, i, c, sib) # ctx) = c"
  by (simp_all add: top_red_def)

text \<open>A context is right for a subtree of a black height: with it, the whole tree is balanced.\<close>

fun fits :: "ctx \<Rightarrow> nat \<Rightarrow> bool" where
  "fits [] h = True"
| "fits ((d, a, i, c, sib) # ctx) h \<longleftrightarrow> inner_ok sib \<and> bh sib = h \<and> (c \<longrightarrow> \<not> isred sib \<and> ctx \<noteq> [] \<and> \<not> top_red ctx) \<and>
     fits ctx (h + (if c then 0 else 1))"

lemma balanced_plug:
  "balanced (plug t ctx) \<longleftrightarrow> inner_ok t \<and> fits ctx (bh t) \<and> (isred t \<longrightarrow> ctx \<noteq> [] \<and> \<not> top_red ctx)"
  by (induction t ctx rule: plug.induct) (auto simp: balanced_def nd_inv)

lemma balanced_paint: "inner_ok t \<Longrightarrow> balanced (paint False t)"
  by (simp add: balanced_def)

section \<open>After adding\<close>

text \<open>
  The walk of \<open>TreeBalanceAfterAdd\<close> for a node \<open>n\<close> that may be red below a red parent; \<open>g\<close> is its grandparent. The
  result is the whole tree, before the root is made black.
\<close>

fun fix_add :: "atree \<Rightarrow> ctx \<Rightarrow> atree" where
  "fix_add (Nd n ni nc x y) ((d, p, pi, True, sib) # (gd, g, gi, gc, uncle) # ctx) =
     (if isred uncle then fix_add (nd gd g gi True (nd d p pi False (Nd n ni nc x y) sib) (paint False uncle)) ctx
      else if d = gd then plug (nd gd p pi False (Nd n ni nc x y) (nd gd g gi True sib uncle)) ctx
      else plug (nd gd n ni False (nd gd p pi True sib (kid gd (Nd n ni nc x y)))
        (nd gd g gi True (kid (\<not> gd) (Nd n ni nc x y)) uncle)) ctx)"
| "fix_add t ctx = plug t ctx"

lemma items_fix_add: "items (fix_add t ctx) = before ctx @ items t @ after ctx"
proof (induction t ctx rule: fix_add.induct)
  case (1 n ni nc x y d p pi sib gd g gi gc uncle ctx)
  then show ?case by (cases d; cases gd) (auto simp: items_plug)
qed (simp_all add: items_plug items_nd)

lemma balanced_final:
  assumes "inner_ok t" "isred t" "fits ctx (bh t)" "\<not> top_red ctx"
  shows "balanced (paint False (plug t ctx))"
proof (cases "ctx = []")
  case False
  with assms have "balanced (plug t ctx)" by (simp add: balanced_plug)
  then show ?thesis by (simp add: balanced_def paint_black)
qed (use assms in \<open>simp add: balanced_paint\<close>)

lemma balanced_fix_add:
  "\<lbrakk>inner_ok t; isred t; fits ctx (bh t)\<rbrakk> \<Longrightarrow> balanced (paint False (fix_add t ctx))"
proof (induction t ctx rule: fix_add.induct)
  case (1 n ni nc x y d p pi sib gd g gi gc uncle ctx)
  show ?case
  proof (cases "isred uncle")
    case True
    with 1 show ?thesis by (auto simp: nd_inv split: if_splits)
  next
    case False
    define n' where "n' = Nd n ni nc x y"
    define T where "T = (if d = gd then nd gd p pi False n' (nd gd g gi True sib uncle)
      else nd gd n ni False (nd gd p pi True sib (kid gd n')) (nd gd g gi True (kid (\<not> gd) n') uncle))"
    have "fix_add n' ((d, p, pi, True, sib) # (gd, g, gi, gc, uncle) # ctx) = plug T ctx"
      using False by (simp add: T_def n'_def)
    moreover have "balanced (plug T ctx)"
      using 1(2-4) False by (auto simp: balanced_plug T_def n'_def nd_inv split: if_splits)
    ultimately show ?thesis by (simp add: n'_def paint_black balanced_def)
  qed
qed (auto simp del: plug.simps intro!: balanced_final simp: top_red_def split: prod.splits)

section \<open>Removing\<close>

text \<open>
  The step of \<open>TreeBARSub\<close> for a subtree \<open>t\<close> that lacks a black node, below \<open>p\<close>, with a sibling that is black: either
  the subtree at \<open>p\<close> lacks one (\<open>Inl\<close>), or the tree has been repaired (\<open>Inr\<close>).
\<close>

fun rem_black :: "atree \<Rightarrow> bool \<Rightarrow> addr \<Rightarrow> entry \<Rightarrow> bool \<Rightarrow> atree \<Rightarrow> atree + atree" where
  "rem_black t d p pi pc Lf = Inl (nd d p pi pc t Lf)"
| "rem_black t d p pi pc (Nd s si sc sl sr) =
     (let near = kid d (Nd s si sc sl sr); far = kid (\<not> d) (Nd s si sc sl sr) in
      if \<not> isred near \<and> \<not> isred far then Inl (nd d p pi pc t (nd d s si True near far))
      else if \<not> isred far then
        (case near of
           Nd r ri rc rl rr \<Rightarrow> Inr (nd d r ri pc (nd d p pi False t (kid d near)) (nd d s si False (kid (\<not> d) near) far))
         | Lf \<Rightarrow> Inl Lf)
      else Inr (nd d s si pc (nd d p pi False t near) (paint False far)))"

text \<open>The walk of \<open>TreeBalanceAfterRemove\<close>.\<close>

fun fix_rem :: "atree \<Rightarrow> ctx \<Rightarrow> atree" where
  "fix_rem t [] = paint False t"
| "fix_rem t ((d, p, pi, pc, sib) # ctx) =
     (if isred t then plug (paint False t) ((d, p, pi, pc, sib) # ctx)
      else case sib of
        Nd s si True sl sr \<Rightarrow>
          (case rem_black t d p pi True (kid d sib) of
             Inl f \<Rightarrow> plug (paint False f) ((d, s, si, False, kid (\<not> d) sib) # ctx)
           | Inr T \<Rightarrow> paint False (plug T ((d, s, si, False, kid (\<not> d) sib) # ctx)))
      | _ \<Rightarrow> (case rem_black t d p pi pc sib of Inl f \<Rightarrow> fix_rem f ctx | Inr T \<Rightarrow> paint False (plug T ctx)))"

lemma fix_rem_red:
  "\<lbrakk>\<not> isred t; sib = Nd s si True sl sr\<rbrakk> \<Longrightarrow> fix_rem t ((d, p, pi, pc, sib) # ctx) =
     (case rem_black t d p pi True (kid d sib) of
        Inl f \<Rightarrow> plug (paint False f) ((d, s, si, False, kid (\<not> d) sib) # ctx)
      | Inr T \<Rightarrow> paint False (plug T ((d, s, si, False, kid (\<not> d) sib) # ctx)))"
  by (cases d) (simp_all split: sum.split)

lemma fix_rem_black:
  "\<lbrakk>\<not> isred t; \<not> isred sib\<rbrakk> \<Longrightarrow> fix_rem t ((d, p, pi, pc, sib) # ctx) =
     (case rem_black t d p pi pc sib of Inl f \<Rightarrow> fix_rem f ctx | Inr T \<Rightarrow> paint False (plug T ctx))"
  by (cases sib) (simp_all del: rem_black.simps)

lemma items_rem_black:
  "rem_black t d p pi pc sib = Inl f \<Longrightarrow> items f = items (nd d p pi pc t sib)"
  "rem_black t d p pi pc sib = Inr T \<Longrightarrow> items T = items (nd d p pi pc t sib)"
  by (cases sib; cases d; auto simp: Let_def split: if_splits atree.splits)+

lemma items_fix_rem: "items (fix_rem t ctx) = before ctx @ items t @ after ctx"
proof (induction ctx arbitrary: t)
  case (Cons x ctx)
  obtain d p pi pc sib where x: "x = (d, p, pi, pc, sib)" by (cases x) auto
  show ?case
  proof (cases "isred t")
    case True
    then show ?thesis by (simp add: x items_plug items_nd)
  next
    case False
    show ?thesis
    proof (cases "isred sib")
      case red: True
      then obtain s si sl sr where sib: "sib = Nd s si True sl sr" by (cases sib) auto
      have "fix_rem t (x # ctx) = (case rem_black t d p pi True (kid d sib) of
          Inl f \<Rightarrow> plug (paint False f) ((d, s, si, False, kid (\<not> d) sib) # ctx)
        | Inr T \<Rightarrow> paint False (plug T ((d, s, si, False, kid (\<not> d) sib) # ctx)))"
        using fix_rem_red [OF False sib] x by simp
      moreover have "items (nd d s si False (nd d p pi True t (kid d sib)) (kid (\<not> d) sib)) = items (nd d p pi pc t sib)"
        by (cases d) (simp_all add: sib)
      ultimately show ?thesis
        using items_rem_black [of t d p pi True "kid d sib"]
        by (cases "rem_black t d p pi True (kid d sib)") (simp_all add: x items_plug items_nd split: if_splits)
    next
      case black: False
      then have "fix_rem t (x # ctx) = (case rem_black t d p pi pc sib of Inl f \<Rightarrow> fix_rem f ctx | Inr T \<Rightarrow> paint False (plug T ctx))"
        using fix_rem_black [OF False black] x by simp
      then show ?thesis
        using items_rem_black [of t d p pi pc sib] Cons.IH
        by (cases "rem_black t d p pi pc sib") (auto simp: x items_plug items_nd)
    qed
  qed
qed simp

lemma rem_black_inv:
  assumes "inner_ok t" "\<not> isred t" "inner_ok sib" "\<not> isred sib" "bh sib = Suc (bh t)"
  shows "case rem_black t d p pi pc sib of
     Inl f \<Rightarrow> inner_ok (paint False f) \<and> isred f = pc \<and> bh f = bh t + (if pc then 0 else 1)
   | Inr T \<Rightarrow> inner_ok T \<and> isred T = pc \<and> bh T = Suc (bh t) + (if pc then 0 else 1)"
proof (cases sib)
  case (Nd s si sc sl sr)
  then show ?thesis using assms by (cases d) (auto simp: nd_inv nd_def Let_def split: atree.splits)
qed (use assms in simp)

lemma balanced_fix_rem:
  "\<lbrakk>inner_ok (paint False t); fits ctx (Suc (bh t))\<rbrakk> \<Longrightarrow> balanced (fix_rem t ctx)"
proof (induction ctx arbitrary: t)
  case (Cons x ctx)
  obtain d p pi pc sib where x: "x = (d, p, pi, pc, sib)" by (cases x) auto
  show ?case
  proof (cases "isred t")
    case True
    with Cons.prems have "balanced (plug (paint False t) (x # ctx))" by (auto simp: balanced_plug x nd_inv)
    with True show ?thesis by (simp add: x)
  next
    case False
    note ok = Cons.prems [unfolded x, simplified, unfolded paint_black [OF False]]
    show ?thesis
    proof (cases "isred sib")
      case red: True
      then obtain s si sl sr where sib: "sib = Nd s si True sl sr" by (cases sib) auto
      have c: "inner_ok (kid d sib)" "\<not> isred (kid d sib)" "bh (kid d sib) = Suc (bh t)"
        "inner_ok (kid (\<not> d) sib)" "bh (kid (\<not> d) sib) = Suc (bh t)" "\<not> pc" "fits ctx (Suc (Suc (bh t)))"
        using ok sib by (auto split: if_splits)
      have r: "case rem_black t d p pi True (kid d sib) of Inl f \<Rightarrow> inner_ok (paint False f) \<and> isred f \<and> bh f = bh t
        | Inr T \<Rightarrow> inner_ok T \<and> isred T \<and> bh T = Suc (bh t)"
        using rem_black_inv [where t = t and sib = "kid d sib" and d = d and p = p and pi = pi and pc = True] ok False c(1-3) by (simp split: sum.splits)
      have e: "fix_rem t (x # ctx) = (case rem_black t d p pi True (kid d sib) of
          Inl f \<Rightarrow> plug (paint False f) ((d, s, si, False, kid (\<not> d) sib) # ctx)
        | Inr T \<Rightarrow> paint False (plug T ((d, s, si, False, kid (\<not> d) sib) # ctx)))"
        using fix_rem_red [OF False sib] x by simp
      show ?thesis
      proof (cases "rem_black t d p pi True (kid d sib)")
        case (Inl f)
        with r have "balanced (plug (paint False f) ((d, s, si, False, kid (\<not> d) sib) # ctx))"
          unfolding balanced_plug using c(4-7) by simp
        then show ?thesis by (simp add: e Inl)
      next
        case (Inr T)
        with r have "balanced (plug T ((d, s, si, False, kid (\<not> d) sib) # ctx))"
          unfolding balanced_plug using c(4-7) by simp
        then show ?thesis by (simp add: e Inr balanced_def paint_black)
      qed
    next
      case black: False
      have e: "fix_rem t (x # ctx) = (case rem_black t d p pi pc sib of Inl f \<Rightarrow> fix_rem f ctx | Inr T \<Rightarrow> paint False (plug T ctx))"
        using fix_rem_black [OF False black] x by simp
      note r = rem_black_inv [where t = t and sib = sib and d = d and p = p and pi = pi and pc = pc]
      show ?thesis
      proof (cases "rem_black t d p pi pc sib")
        case (Inl f)
        with r ok False black have "inner_ok (paint False f)" "bh f = bh t + (if pc then 0 else 1)" by simp_all
        with Cons.IH [of f] ok show ?thesis by (simp add: e Inl split: if_splits)
      next
        case (Inr T)
        with r ok False black have "inner_ok T" "isred T = pc" "bh T = Suc (bh t) + (if pc then 0 else 1)" by simp_all
        with ok have "balanced (plug T ctx)" by (simp add: balanced_plug split: if_splits)
        then show ?thesis by (simp add: e Inr balanced_def paint_black)
      qed
    qed
  qed
qed (simp add: balanced_def)

text \<open>
  \<open>TreeRemoveNodeIndex\<close>: a node with at most one child is replaced by that child; otherwise the node takes the data of
  its successor, which is taken out of its place.
\<close>

definition splice :: "bool \<Rightarrow> atree \<Rightarrow> ctx \<Rightarrow> atree" where
  "splice c child ctx = (if c then plug child ctx else fix_rem child ctx)"

fun leftmost :: "atree \<Rightarrow> ctx \<Rightarrow> atree \<times> ctx" where
  "leftmost Lf ctx = (Lf, ctx)"
| "leftmost (Nd a i c l r) ctx = (if l = Lf then (Nd a i c l r, ctx) else leftmost l ((False, a, i, c, r) # ctx))"

definition delete_at :: "addr \<Rightarrow> entry \<Rightarrow> bool \<Rightarrow> atree \<Rightarrow> atree \<Rightarrow> ctx \<Rightarrow> atree" where
  "delete_at a i c l r ctx =
     (if l = Lf then splice c r ctx
      else if r = Lf then splice c l ctx
      else case leftmost r [] of
        (Nd m mi mc ml mr, w) \<Rightarrow> splice mc mr (w @ (True, a, mi, c, l) # ctx)
      | (Lf, w) \<Rightarrow> Lf)"

lemma leftmost_plug: "plug (fst (leftmost t ctx)) (snd (leftmost t ctx)) = plug t ctx"
  by (induction t ctx rule: leftmost.induct) auto

lemma leftmost_before: "before (snd (leftmost t ctx)) = before ctx"
  by (induction t ctx rule: leftmost.induct) auto

lemma leftmost_node: "t \<noteq> Lf \<Longrightarrow> \<exists>m mi mc mr. fst (leftmost t ctx) = Nd m mi mc Lf mr"
  by (induction t ctx rule: leftmost.induct) auto

lemma leftmostE:
  assumes "t \<noteq> Lf"
  obtains m mi mc mr w where "leftmost t [] = (Nd m mi mc Lf mr, w)" "plug (Nd m mi mc Lf mr) w = t" "before w = []"
    "items t = (m, mi) # items mr @ after w"
proof -
  obtain m mi mc mr w where 1: "leftmost t [] = (Nd m mi mc Lf mr, w)"
    using leftmost_node [OF assms, of "[]"] by (cases "leftmost t []") auto
  then have 2: "plug (Nd m mi mc Lf mr) w = t" "before w = []" using leftmost_plug [of t "[]"] leftmost_before [of t "[]"] by simp_all
  then have "items t = (m, mi) # items mr @ after w" using items_plug [of "Nd m mi mc Lf mr" w] by simp
  with 1 2 that show ?thesis by blast
qed

lemma items_splice: "items (splice c t ctx) = before ctx @ items t @ after ctx"
  by (simp add: splice_def items_plug items_fix_rem)

lemma before_append [simp]: "before (xs @ ys) = before ys @ before xs"
  by (induction xs rule: before.induct) auto

lemma after_append [simp]: "after (xs @ ys) = after xs @ after ys"
  by (induction xs rule: after.induct) auto

text \<open>The entry at the position goes; the addresses of the others may move up.\<close>

lemma entries_delete_at:
  "map snd (items (delete_at a i c l r ctx)) = map snd (before ctx @ items l @ items r @ after ctx)"
proof (cases "l = Lf \<or> r = Lf")
  case False
  then obtain m mi mc mr w where "leftmost r [] = (Nd m mi mc Lf mr, w)" "before w = []" "items r = (m, mi) # items mr @ after w"
    by (meson leftmostE)
  with False show ?thesis by (simp add: delete_at_def items_splice)
qed (auto simp: delete_at_def items_splice)

lemma fits_entry: "fits (w @ (d, a, i, c, sib) # ctx) h = fits (w @ (d, a, j, c, sib) # ctx) h"
  "top_red (w @ (d, a, i, c, sib) # ctx) = top_red (w @ (d, a, j, c, sib) # ctx)"
proof (induction w arbitrary: h)
  case (Cons x w)
  {
    case 1
    show ?case using Cons.IH by (cases x) auto
  next
    case 2
    show ?case by (cases x) simp
  }
qed simp_all

lemma balanced_splice:
  assumes "balanced (plug (Nd a i c l r) ctx)" "l = Lf \<or> r = Lf"
  shows "balanced (splice c (if l = Lf then r else l) ctx)"
proof (cases c)
  case True
  have "x = Lf" if "bh x = 0" "\<not> isred x" for x using that by (cases x) auto
  with True assms have "l = Lf" "r = Lf" by (auto simp: balanced_plug)
  with True assms show ?thesis by (simp add: balanced_plug splice_def)
next
  case False
  with assms show ?thesis by (auto simp: balanced_plug splice_def intro!: balanced_fix_rem)
qed

lemma balanced_delete_at:
  assumes "balanced (plug (Nd a i c l r) ctx)"
  shows "balanced (delete_at a i c l r ctx)"
proof (cases "l = Lf \<or> r = Lf")
  case True
  with balanced_splice [OF assms] show ?thesis by (auto simp: delete_at_def)
next
  case False
  then obtain m mi mc mr w where m: "leftmost r [] = (Nd m mi mc Lf mr, w)" "plug (Nd m mi mc Lf mr) w = r" by (meson leftmostE)
  then have "plug (Nd a i c l r) ctx = plug (Nd m mi mc Lf mr) (w @ (True, a, i, c, l) # ctx)" by simp
  with assms have "balanced (plug (Nd m mi mc Lf mr) (w @ (True, a, mi, c, l) # ctx))"
    using fits_entry [where w = w and d = True and a = a and i = i and j = mi and c = c and sib = l and ctx = ctx] by (simp add: balanced_plug del: plug_append)
  with balanced_splice [OF this] False m(1) show ?thesis by (simp add: delete_at_def)
qed

section \<open>Heights\<close>

fun depth :: "atree \<Rightarrow> nat" where
  "depth Lf = 0"
| "depth (Nd a i c l r) = Suc (max (depth l) (depth r))"

lemma depth_bh: "inner_ok t \<Longrightarrow> depth t \<le> 2 * bh t + (if isred t then 1 else 0)"
  by (induction t) (auto split: if_splits)

lemma bh_items: "inner_ok t \<Longrightarrow> 2 ^ bh t \<le> Suc (length (items t))"
  by (induction t) (auto split: if_splits)

text \<open>A balanced tree with \<open>n\<close> items is at most twice as deep as the logarithm of \<open>n + 1\<close>.\<close>

lemma balanced_depth: "balanced t \<Longrightarrow> 2 ^ depth t \<le> (Suc (length (items t)))\<^sup>2"
proof -
  assume "balanced t"
  then have "depth t \<le> 2 * bh t" "2 ^ bh t \<le> Suc (length (items t))"
    using depth_bh [of t] bh_items [of t] by (simp_all add: balanced_def)
  then have "(2::nat) ^ depth t \<le> 2 ^ (2 * bh t)" by (simp add: power_increasing)
  also have "\<dots> = (2 ^ bh t)\<^sup>2" by (simp add: power_mult power2_eq_square power_mult_distrib flip: power_add mult_2)
  also have "\<dots> \<le> (Suc (length (items t)))\<^sup>2" using \<open>2 ^ bh t \<le> _\<close> by (intro power_mono) simp_all
  finally show ?thesis .
qed

section \<open>Searching\<close>

text \<open>The position at which a search by \<open>f\<close> ends.\<close>

fun locate :: "(ptr \<Rightarrow> int) \<Rightarrow> atree \<Rightarrow> ctx \<Rightarrow> atree \<times> ctx" where
  "locate f Lf ctx = (Lf, ctx)"
| "locate f (Nd a i c l r) ctx =
     (if f (fst i) = 0 then (Nd a i c l r, ctx)
      else if f (fst i) > 0 then locate f r ((True, a, i, c, l) # ctx)
      else locate f l ((False, a, i, c, r) # ctx))"

lemma locate_plug: "plug (fst (locate f t ctx)) (snd (locate f t ctx)) = plug t ctx"
  by (induction f t ctx rule: locate.induct) auto

lemma locate_found: "fst (locate f t ctx) = Nd a i c l r \<Longrightarrow> f (fst i) = 0"
  by (induction f t ctx rule: locate.induct) (auto split: if_splits)

text \<open>In a tree that is sorted by keys the search splits the items.\<close>

definition key_sorted :: "(ptr \<Rightarrow> 'k::linorder) \<Rightarrow> (addr \<times> entry) list \<Rightarrow> bool" where
  "key_sorted key xs \<longleftrightarrow> sorted_wrt (<) (map (\<lambda>(a, c, sz). key c) xs)"

definition searches :: "(ptr \<Rightarrow> int) \<Rightarrow> (ptr \<Rightarrow> 'k::linorder) \<Rightarrow> 'k \<Rightarrow> (addr \<times> entry) list \<Rightarrow> bool" where
  "searches f key k xs \<longleftrightarrow> (\<forall>(a, c, sz)\<in>set xs. (f c > 0 \<longleftrightarrow> key c < k) \<and> (f c = 0 \<longleftrightarrow> key c = k))"

definition keys_below :: "(ptr \<Rightarrow> 'k::linorder) \<Rightarrow> 'k \<Rightarrow> (addr \<times> entry) list \<Rightarrow> bool" where
  "keys_below key k xs \<longleftrightarrow> (\<forall>(a, c, sz)\<in>set xs. key c < k)"

definition keys_above :: "(ptr \<Rightarrow> 'k::linorder) \<Rightarrow> 'k \<Rightarrow> (addr \<times> entry) list \<Rightarrow> bool" where
  "keys_above key k xs \<longleftrightarrow> (\<forall>(a, c, sz)\<in>set xs. k < key c)"

lemma key_simps [simp]: "key_sorted key []" "searches f key k []" "keys_below key k []" "keys_above key k []"
  "key_sorted key (xs @ (a, i) # ys) \<longleftrightarrow> key_sorted key xs \<and> key_sorted key ys \<and> keys_below key (key (fst i)) xs \<and> keys_above key (key (fst i)) ys"
  "key_sorted key ((a, i) # ys) \<longleftrightarrow> key_sorted key ys \<and> keys_above key (key (fst i)) ys"
  "searches f key k (xs @ ys) \<longleftrightarrow> searches f key k xs \<and> searches f key k ys"
  "searches f key k ((a, i) # ys) \<longleftrightarrow> (f (fst i) > 0 \<longleftrightarrow> key (fst i) < k) \<and> (f (fst i) = 0 \<longleftrightarrow> key (fst i) = k) \<and> searches f key k ys"
  "keys_below key k (xs @ ys) \<longleftrightarrow> keys_below key k xs \<and> keys_below key k ys" "keys_below key k ((a, i) # ys) \<longleftrightarrow> key (fst i) < k \<and> keys_below key k ys"
  "keys_above key k (xs @ ys) \<longleftrightarrow> keys_above key k xs \<and> keys_above key k ys" "keys_above key k ((a, i) # ys) \<longleftrightarrow> k < key (fst i) \<and> keys_above key k ys"
  by (auto simp: key_sorted_def searches_def keys_below_def keys_above_def sorted_wrt_append split: prod.splits) (fastforce | force)+

lemma keys_below_mono: "keys_below key k xs \<Longrightarrow> k \<le> k' \<Longrightarrow> keys_below key k' xs"
  by (auto simp: keys_below_def)

lemma keys_above_mono: "keys_above key k xs \<Longrightarrow> k' \<le> k \<Longrightarrow> keys_above key k' xs"
  by (auto simp: keys_above_def)

lemma locate_spec:
  "\<lbrakk>searches f key k (items t); key_sorted key (items t); keys_below key k (before ctx); keys_above key k (after ctx)\<rbrakk> \<Longrightarrow>
   keys_below key k (before (snd (locate f t ctx))) \<and> keys_above key k (after (snd (locate f t ctx))) \<and>
   (case fst (locate f t ctx) of Lf \<Rightarrow> True | Nd a i c l r \<Rightarrow> key (fst i) = k)"
proof (induction f t ctx rule: locate.induct)
  case (2 f a i c l r ctx)
  consider "f (fst i) = 0" | "f (fst i) > 0" | "f (fst i) < 0" by linarith
  then show ?case
  proof cases
    case 2
    then show ?thesis using "2.IH"(1) "2.prems" keys_below_mono [of key "key (fst i)" "items l" k] by (simp add: less_imp_le)
  next
    case 3
    then have "k < key (fst i)" using "2.prems"(1) by (auto simp: not_less order.order_iff_strict)
    then show ?thesis using "2.IH"(2) 3 "2.prems" keys_above_mono [of key "key (fst i)" "items r" k] by (simp add: less_imp_le)
  qed (use "2.prems" in simp)
qed simp

end
