(* ===== verification/TreeStore.thy ===== *)
theory TreeStore
  imports RedBlack
begin

text \<open>
  The operations of \<open>lib/Tree.c\<close> on pointers do what those of \<open>RedBlack\<close> do on values: nodes in the store stand for a
  tree, a pointer for a position in it. Every lemma also says that nothing outside the tree's nodes changes.
\<close>

section \<open>Trees in the store\<close>

definition two :: "ptr \<Rightarrow> ptr \<Rightarrow> bool \<Rightarrow> ptr" where
  "two x y = (\<lambda>d. if d then y else x)"

lemma two_simps [simp]: "two x y True = y" "two x y False = x" "(two x y)(True := z) = two x z" "(two x y)(False := z) = two z y"
  "(\<lambda>_. None) = two None None" "two x y = two x' y' \<longleftrightarrow> x = x' \<and> y = y'"
  by (auto simp: two_def fun_eq_iff split: if_splits)

fun rootp :: "atree \<Rightarrow> ptr" where
  "rootp Lf = None"
| "rootp (Nd a i c l r) = Some a"

lemma rootp_simps [simp]: "rootp t = None \<longleftrightarrow> t = Lf" "None = rootp t \<longleftrightarrow> t = Lf" "rootp (nd d a i c x y) = Some a" "rootp (paint c t) = rootp t"
  by (cases t; simp add: nd_def)+

definition topp :: "ctx \<Rightarrow> ptr" where
  "topp ctx = (case ctx of [] \<Rightarrow> None | (d, a, i, c, sib) # _ \<Rightarrow> Some a)"

lemma topp_simps [simp]: "topp [] = None" "topp ((d, a, i, c, sib) # ctx) = Some a" "topp ctx = None \<longleftrightarrow> ctx = []"
  by (auto simp: topp_def split: list.split)

fun tree_at :: "nodes \<Rightarrow> ptr \<Rightarrow> atree \<Rightarrow> bool" where
  "tree_at s p Lf = True"
| "tree_at s p (Nd a i c l r) \<longleftrightarrow>
     s a = Some \<lparr>nd_parent = p, nd_child = two (rootp l) (rootp r), nd_content = fst i, nd_size = snd i, nd_red = c\<rparr> \<and>
     tree_at s (Some a) l \<and> tree_at s (Some a) r"

text \<open>The way up from a subtree whose root is \<open>q\<close>.\<close>

fun ctx_at :: "nodes \<Rightarrow> ptr \<Rightarrow> ctx \<Rightarrow> bool" where
  "ctx_at s q [] = True"
| "ctx_at s q ((d, a, i, c, sib) # ctx) \<longleftrightarrow>
     s a = Some \<lparr>nd_parent = topp ctx, nd_child = (if d then two (rootp sib) q else two q (rootp sib)),
       nd_content = fst i, nd_size = snd i, nd_red = c\<rparr> \<and>
     tree_at s (Some a) sib \<and> ctx_at s (Some a) ctx"

fun addrs :: "atree \<Rightarrow> addr list" where
  "addrs Lf = []"
| "addrs (Nd a i c l r) = a # addrs l @ addrs r"

fun caddrs :: "ctx \<Rightarrow> addr list" where
  "caddrs [] = []"
| "caddrs ((d, a, i, c, sib) # ctx) = a # addrs sib @ caddrs ctx"

lemma addrs_nd [simp]: "set (addrs (nd d a i c x y)) = insert a (set (addrs x) \<union> set (addrs y))"
  "distinct (addrs (nd d a i c x y)) \<longleftrightarrow> a \<notin> set (addrs x) \<and> a \<notin> set (addrs y) \<and> distinct (addrs x) \<and> distinct (addrs y) \<and>
     set (addrs x) \<inter> set (addrs y) = {}"
  by (auto simp: nd_def)

lemma addrs_paint [simp]: "addrs (paint c t) = addrs t"
  by (cases t) simp_all

lemma set_addrs_plug [simp]: "set (addrs (plug t ctx)) = set (addrs t) \<union> set (caddrs ctx)"
  by (induction t ctx rule: plug.induct) auto

lemma distinct_addrs_plug:
  "distinct (addrs (plug t ctx)) \<longleftrightarrow> distinct (addrs t) \<and> distinct (caddrs ctx) \<and> set (addrs t) \<inter> set (caddrs ctx) = {}"
  by (induction t ctx rule: plug.induct) auto

lemma addrs_items: "set (addrs t) = fst ` set (items t)"
  by (induction t) auto

lemma topp_in: "topp ctx = Some a \<Longrightarrow> a \<in> set (caddrs ctx)"
  by (cases ctx) auto

lemma rootp_in: "rootp t = Some a \<Longrightarrow> a \<in> set (addrs t)"
  by (cases t) auto

lemma tree_at_frame [simp]: "a \<notin> set (addrs t) \<Longrightarrow> tree_at (s(a := v)) p t = tree_at s p t"
  by (induction t arbitrary: p) auto

lemma ctx_at_frame [simp]: "a \<notin> set (caddrs ctx) \<Longrightarrow> ctx_at (s(a := v)) q ctx = ctx_at s q ctx"
  by (induction ctx arbitrary: q rule: caddrs.induct) auto

lemma tree_at_nd [simp]: "tree_at s p (nd d a i c x y) \<longleftrightarrow>
     s a = Some \<lparr>nd_parent = p, nd_child = (if d then two (rootp y) (rootp x) else two (rootp x) (rootp y)), nd_content = fst i,
       nd_size = snd i, nd_red = c\<rparr> \<and> tree_at s (Some a) x \<and> tree_at s (Some a) y"
  by (auto simp: nd_def)

text \<open>The nodes of an index, and a position in it.\<close>

definition holds :: "nat \<Rightarrow> 'm Tree \<Rightarrow> nodes \<Rightarrow> atree \<Rightarrow> bool" where
  "holds index t s T \<longleftrightarrow> tree_at s None T \<and> tr_root t index = rootp T \<and> distinct (addrs T)"

lemma tree_at_plug: "tree_at s None (plug T ctx) \<longleftrightarrow> tree_at s (topp ctx) T \<and> ctx_at s (rootp T) ctx"
  by (induction T ctx rule: plug.induct) auto

lemma rootp_plug: "rootp (plug T ctx) = rootp (plug T' ctx) \<or> ctx = []"
  by (induction T ctx arbitrary: T' rule: plug.induct) (simp, metis plug.simps rootp_simps(3))

lemma holds_plug:
  "holds index t s (plug T ctx) \<longleftrightarrow> tree_at s (topp ctx) T \<and> ctx_at s (rootp T) ctx \<and> tr_root t index = rootp (plug T ctx) \<and>
     distinct (addrs T) \<and> distinct (caddrs ctx) \<and> set (addrs T) \<inter> set (caddrs ctx) = {}"
  by (auto simp: holds_def tree_at_plug distinct_addrs_plug)

lemma set_root_simps [simp]: "tr_root (set_root index p t) index = p" "set_root index q (set_root index p t) = set_root index q t"
  "set_root index (tr_root t index) t = t"
  by (simp_all add: set_root_def)

definition same_outside :: "addr set \<Rightarrow> nodes \<Rightarrow> nodes \<Rightarrow> bool" where
  "same_outside A s s' \<longleftrightarrow> (\<forall>a. a \<notin> A \<longrightarrow> s' a = s a)"

lemma same_outside_refl [simp]: "same_outside A s s"
  by (simp add: same_outside_def)

lemma same_outside_upd [simp]: "same_outside A s (s'(a := v))" if "same_outside A s s'" "a \<in> A"
  using that by (auto simp: same_outside_def)

lemma same_outside_trans: "\<lbrakk>same_outside A s s'; same_outside A s' s''\<rbrakk> \<Longrightarrow> same_outside A s s''"
  by (simp add: same_outside_def)

section \<open>Rotating\<close>

lemmas node_ops = get_node_def set_node_def set_child_def set_parent_def set_red_def parent_of_def child_of_def

lemma rotate:
  assumes "holds index t s (plug (nd dir a i c x (nd dir b j e y z)) ctx)"
  obtains s' where "TreeRotate t s (Some a) dir index = Some (set_root index (rootp (plug (nd dir b j e (nd dir a i c x y) z) ctx)) t, s')"
    "holds index (set_root index (rootp (plug (nd dir b j e (nd dir a i c x y) z) ctx)) t) s' (plug (nd dir b j e (nd dir a i c x y) z) ctx)"
    "same_outside (set (addrs (plug (nd dir a i c x (nd dir b j e y z)) ctx))) s s'"
proof -
  note h = assms [unfolded holds_plug]
  have "\<exists>s'. TreeRotate t s (Some a) dir index = Some (set_root index (rootp (plug (nd dir b j e (nd dir a i c x y) z) ctx)) t, s') \<and>
    tree_at s' (topp ctx) (nd dir b j e (nd dir a i c x y) z) \<and> ctx_at s' (Some b) ctx \<and>
    same_outside (set (addrs (plug (nd dir a i c x (nd dir b j e y z)) ctx))) s s'"
  proof (cases ctx)
    case Nil
    show ?thesis
      using h by (cases dir; cases y) (auto simp: Nil TreeRotate_def node_ops rootp_in)
  next
    case (Cons w ws)
    then obtain d p pi pc sib where w: "ctx = (d, p, pi, pc, sib) # ws" by (cases w) auto
    have r: "set_root index (rootp (plug (nd dir b j e (nd dir a i c x y) z) ctx)) t = t"
      using h rootp_plug [of "nd dir b j e (nd dir a i c x y) z" ctx "nd dir a i c x (nd dir b j e y z)"] Cons
      by (metis set_root_simps(3) list.distinct(1))
    show ?thesis
      unfolding r using h by (cases d; cases dir; cases y) (auto simp: w TreeRotate_def node_ops rootp_in)
  qed
  with h that show ?thesis by (auto simp: holds_plug)
qed

section \<open>Steps on a tree\<close>

text \<open>
  \<open>repr\<close>: the state has come from \<open>t0\<close>, \<open>s0\<close> by changing only the nodes with the addresses \<open>A\<close> and the index's root,
  and now holds the tree \<open>T\<close>, which consists of these nodes.
\<close>

definition repr :: "nat \<Rightarrow> 'm Tree \<Rightarrow> nodes \<Rightarrow> addr set \<Rightarrow> 'm Tree \<Rightarrow> nodes \<Rightarrow> atree \<Rightarrow> bool" where
  "repr index t0 s0 A t s T \<longleftrightarrow>
     holds index t s T \<and> set (addrs T) = A \<and> same_outside A s0 s \<and> t = set_root index (rootp T) t0"

lemma repr_start: "holds index t s T \<Longrightarrow> repr index t s (set (addrs T)) t s T"
  by (metis holds_def repr_def same_outside_refl set_root_simps(3))

lemma repr_holds: "repr index t0 s0 A t s T \<Longrightarrow> holds index t s T"
  unfolding repr_def by (rule conjunct1)

lemma repr_rotate:
  assumes "repr index t0 s0 A t s (plug (nd dir a i c x (nd dir b j e y z)) ctx)"
  obtains t' s' where "TreeRotate t s (Some a) dir index = Some (t', s')"
    "repr index t0 s0 A t' s' (plug (nd dir b j e (nd dir a i c x y) z) ctx)"
proof -
  note r = assms [unfolded repr_def]
  from rotate [OF repr_holds [OF assms]] obtain s' where s':
    "TreeRotate t s (Some a) dir index = Some (set_root index (rootp (plug (nd dir b j e (nd dir a i c x y) z) ctx)) t, s')"
    "holds index (set_root index (rootp (plug (nd dir b j e (nd dir a i c x y) z) ctx)) t) s' (plug (nd dir b j e (nd dir a i c x y) z) ctx)"
    "same_outside (set (addrs (plug (nd dir a i c x (nd dir b j e y z)) ctx))) s s'" by blast
  have t: "t = set_root index (rootp (plug (nd dir a i c x (nd dir b j e y z)) ctx)) t0" and A: "same_outside A s0 s'"
    "set (addrs (plug (nd dir b j e (nd dir a i c x y) z) ctx)) = A"
    using r same_outside_trans [OF _ s'(3)] by auto
  have "set_root index (rootp (plug (nd dir b j e (nd dir a i c x y) z) ctx)) t =
      set_root index (rootp (plug (nd dir b j e (nd dir a i c x y) z) ctx)) t0" by (subst t) simp
  with s'(1,2) A show ?thesis by (intro that [of _ s']) (simp_all add: repr_def)
qed

lemma repr_red:
  assumes "repr index t0 s0 A t s (plug T ctx)" "rootp T = Some a"
  obtains s' where "set_red c (Some a) s = Some s'" "repr index t0 s0 A t s' (plug (paint c T) ctx)"
proof -
  obtain i e l r where T: "T = Nd a i e l r" using assms(2) by (cases T) auto
  note h = assms(1) [unfolded T repr_def holds_plug]
  have e: "rootp (plug (Nd a i c l r) ctx) = rootp (plug (Nd a i e l r) ctx)" using rootp_plug [of "Nd a i c l r" ctx "Nd a i e l r"] by auto
  have "set_red c (Some a) s = Some (s(a \<mapsto> \<lparr>nd_parent = topp ctx, nd_child = two (rootp l) (rootp r), nd_content = fst i,
      nd_size = snd i, nd_red = c\<rparr>))" using h by (simp add: set_red_def set_node_def)
  moreover have "repr index t0 s0 A t (s(a \<mapsto> \<lparr>nd_parent = topp ctx, nd_child = two (rootp l) (rootp r), nd_content = fst i,
      nd_size = snd i, nd_red = c\<rparr>)) (plug (Nd a i c l r) ctx)"
    using h e by (auto simp: repr_def holds_plug)
  ultimately show ?thesis using that T by simp
qed

lemma at_parent: "\<lbrakk>holds index t s (plug T ctx); rootp T = Some a\<rbrakk> \<Longrightarrow> parent_of s (Some a) = Some (topp ctx)"
  by (cases T) (auto simp: holds_plug node_ops)

lemma at_child: "holds index t s (plug (nd d a i c x y) ctx) \<Longrightarrow>
    child_of s (Some a) e = Some (if e = d then rootp x else rootp y)"
  by (auto simp: holds_plug node_ops)

lemma at_red: "holds index t s (plug T ctx) \<Longrightarrow> isRed s (rootp T) = Some (isred T)"
  by (cases T) (auto simp: holds_plug node_ops isRed_def)

lemma at_black: "holds index t s (plug T ctx) \<Longrightarrow> isBlack s (rootp T) = Some (\<not> isred T)"
  by (cases T) (auto simp: holds_plug node_ops isBlack_def)

lemma plug_nd: "plug (nd d a i c t sib) ctx = plug t ((d, a, i, c, sib) # ctx)"
  "plug (nd d a i c t sib) ctx = plug sib ((\<not> d, a, i, c, t) # ctx)"
  by simp_all

section \<open>Balancing after an addition\<close>

lemma distinct_roots: "holds index t s (plug (nd d a i c x y) ctx) \<Longrightarrow> rootp x = rootp y \<longleftrightarrow> x = Lf \<and> y = Lf"
  by (cases x; cases y) (auto simp: holds_plug)

lemma BAASub_red:
  assumes "repr index t0 s0 A t s (plug n ((d, p, pi, True, sib) # (gd, g, gi, gc, uncle) # ctx))" "rootp n = Some a" "isred uncle"
  obtains s' where "TreeBAASub t s (Some a) (\<not> gd) index = Some (Some g, t, s')"
    "repr index t0 s0 A t s' (plug (nd gd g gi True (nd d p pi False n sib) (paint False uncle)) ctx)"
proof -
  let ?P = "nd d p pi True n sib"
  have r0: "repr index t0 s0 A t s (plug ?P ((gd, g, gi, gc, uncle) # ctx))" using assms(1) by simp
  have ru: "repr index t0 s0 A t s (plug uncle ((\<not> gd, g, gi, gc, ?P) # ctx))" using assms(1) by simp
  obtain u where u: "rootp uncle = Some u" using assms(3) by (cases uncle) auto
  have 1: "parent_of s (Some a) = Some (Some p)" using at_parent [OF repr_holds [OF assms(1)] assms(2)] by simp
  have 2: "parent_of s (Some p) = Some (Some g)" using at_parent [OF repr_holds [OF r0]] by simp
  have 3: "child_of s (Some g) (\<not> gd) = Some (Some u)"
    using at_child [of index t s gd g gi gc ?P uncle ctx "\<not> gd"] repr_holds [OF assms(1)] u by simp
  have 4: "isRed s (Some u) = Some True" using at_red [OF repr_holds [OF ru]] u assms(3) by simp
  obtain s1 where s1: "set_red False (Some u) s = Some s1"
    "repr index t0 s0 A t s1 (plug ?P ((gd, g, gi, gc, paint False uncle) # ctx))"
    using repr_red [OF ru u, of False] by (auto simp del: plug.simps simp: plug_nd(1)[symmetric] plug.simps(2))
  obtain s2 where s2: "set_red False (Some p) s1 = Some s2"
    "repr index t0 s0 A t s2 (plug (nd gd g gi gc (nd d p pi False n sib) (paint False uncle)) ctx)"
    using repr_red [OF s1(2), of p False] by (auto simp: nd_inv)
  obtain s3 where s3: "set_red True (Some g) s2 = Some s3"
    "repr index t0 s0 A t s3 (plug (nd gd g gi True (nd d p pi False n sib) (paint False uncle)) ctx)"
    using repr_red [OF s2(2), of g True] by (auto simp: nd_inv)
  show ?thesis using that [OF _ s3(2)] 1 2 3 4 s1(1) s2(1) s3(1) by (simp add: TreeBAASub_def)
qed

text \<open>The last steps for a black uncle: the parent becomes black, the grandparent red, and the latter is rotated.\<close>

lemma BAASub_rotate:
  assumes "repr index t0 s0 A t s (plug (nd gd g gi gc (nd gd p pi pc x sib) uncle) ctx)"
  obtains s1 s2 t' s3 where "set_red False (Some p) s = Some s1" "parent_of s1 (Some p) = Some (Some g)"
    "set_red True (Some g) s1 = Some s2" "TreeRotate t s2 (Some g) (\<not> gd) index = Some (t', s3)"
    "repr index t0 s0 A t' s3 (plug (nd gd p pi False x (nd gd g gi True sib uncle)) ctx)"
proof -
  have r0: "repr index t0 s0 A t s (plug (nd gd p pi pc x sib) ((gd, g, gi, gc, uncle) # ctx))" using assms by simp
  obtain s1 where s1: "set_red False (Some p) s = Some s1"
    "repr index t0 s0 A t s1 (plug (nd gd p pi False x sib) ((gd, g, gi, gc, uncle) # ctx))"
    using repr_red [OF r0, of p False] by (auto simp: nd_inv)
  have 1: "parent_of s1 (Some p) = Some (Some g)" using at_parent [OF repr_holds [OF s1(2)]] by simp
  have r1: "repr index t0 s0 A t s1 (plug (nd gd g gi gc (nd gd p pi False x sib) uncle) ctx)" using s1(2) by simp
  obtain s2 where s2: "set_red True (Some g) s1 = Some s2"
    "repr index t0 s0 A t s2 (plug (nd gd g gi True (nd gd p pi False x sib) uncle) ctx)"
    using repr_red [OF r1, of g True] by (auto simp: nd_inv)
  have "repr index t0 s0 A t s2 (plug (nd (\<not> gd) g gi True uncle (nd (\<not> gd) p pi False sib x)) ctx)" using s2(2) by simp
  from repr_rotate [OF this] obtain t' s3 where "TreeRotate t s2 (Some g) (\<not> gd) index = Some (t', s3)"
    "repr index t0 s0 A t' s3 (plug (nd gd p pi False x (nd gd g gi True sib uncle)) ctx)" by auto
  with that s1(1) 1 s2(1) show ?thesis by blast
qed

lemma BAASub_outer:
  assumes "repr index t0 s0 A t s (plug n ((gd, p, pi, True, sib) # (gd, g, gi, gc, uncle) # ctx))" "rootp n = Some a" "\<not> isred uncle"
  obtains t' s' where "TreeBAASub t s (Some a) (\<not> gd) index = Some (Some a, t', s')"
    "repr index t0 s0 A t' s' (plug n ((gd, p, pi, False, nd gd g gi True sib uncle) # ctx))"
proof -
  let ?P = "nd gd p pi True n sib"
  have r0: "repr index t0 s0 A t s (plug (nd gd g gi gc ?P uncle) ctx)" using assms(1) by simp
  have rp: "repr index t0 s0 A t s (plug ?P ((gd, g, gi, gc, uncle) # ctx))" using assms(1) by simp
  have ru: "repr index t0 s0 A t s (plug uncle ((\<not> gd, g, gi, gc, ?P) # ctx))" using assms(1) by simp
  have 1: "parent_of s (Some a) = Some (Some p)" using at_parent [OF repr_holds [OF assms(1)] assms(2)] by simp
  have 2: "parent_of s (Some p) = Some (Some g)" using at_parent [OF repr_holds [OF rp]] by simp
  have 3: "child_of s (Some g) (\<not> gd) = Some (rootp uncle)" using at_child [OF repr_holds [OF r0], of "\<not> gd"] by simp
  have 4: "isRed s (rootp uncle) = Some False" using at_red [OF repr_holds [OF ru]] assms(3) by simp
  have 5: "child_of s (Some p) (\<not> gd) = Some (rootp sib)" using at_child [OF repr_holds [OF rp], of "\<not> gd"] by simp
  have 6: "Some a \<noteq> rootp sib" using distinct_roots [OF repr_holds [OF rp]] assms(2) by (cases n) auto
  from BAASub_rotate [OF r0] obtain s1 s2 t' s3 where s: "set_red False (Some p) s = Some s1" "parent_of s1 (Some p) = Some (Some g)"
    "set_red True (Some g) s1 = Some s2" "TreeRotate t s2 (Some g) (\<not> gd) index = Some (t', s3)"
    "repr index t0 s0 A t' s3 (plug (nd gd p pi False n (nd gd g gi True sib uncle)) ctx)" by blast
  show ?thesis using that [of t' s3] 1 2 3 4 5 6 s by (simp add: TreeBAASub_def)
qed

lemma BAASub_inner:
  assumes "repr index t0 s0 A t s (plug n ((\<not> gd, p, pi, True, sib) # (gd, g, gi, gc, uncle) # ctx))"
    "n = nd gd a i c x y" "\<not> isred uncle"
  obtains t' s' where "TreeBAASub t s (Some a) (\<not> gd) index = Some (Some p, t', s')"
    "repr index t0 s0 A t' s' (plug (nd gd p pi True sib x) ((gd, a, i, False, nd gd g gi True y uncle) # ctx))"
proof -
  let ?P = "nd gd p pi True sib n"
  have n: "rootp n = Some a" using assms(2) by simp
  have r0: "repr index t0 s0 A t s (plug (nd gd g gi gc ?P uncle) ctx)" using assms(1) by simp
  have rp: "repr index t0 s0 A t s (plug ?P ((gd, g, gi, gc, uncle) # ctx))" using assms(1) by simp
  have ru: "repr index t0 s0 A t s (plug uncle ((\<not> gd, g, gi, gc, ?P) # ctx))" using assms(1) by simp
  have 1: "parent_of s (Some a) = Some (Some p)" using at_parent [OF repr_holds [OF assms(1)] n] by simp
  have 2: "parent_of s (Some p) = Some (Some g)" using at_parent [OF repr_holds [OF rp]] by simp
  have 3: "child_of s (Some g) (\<not> gd) = Some (rootp uncle)" using at_child [OF repr_holds [OF r0], of "\<not> gd"] by simp
  have 4: "isRed s (rootp uncle) = Some False" using at_red [OF repr_holds [OF ru]] assms(3) by simp
  have 5: "child_of s (Some p) (\<not> gd) = Some (Some a)" using at_child [OF repr_holds [OF rp], of "\<not> gd"] n by simp
  have "repr index t0 s0 A t s (plug (nd gd p pi True sib (nd gd a i c x y)) ((gd, g, gi, gc, uncle) # ctx))" using rp assms(2) by simp
  from repr_rotate [OF this] obtain t1 s1 where r1: "TreeRotate t s (Some p) gd index = Some (t1, s1)"
    "repr index t0 s0 A t1 s1 (plug (nd gd a i c (nd gd p pi True sib x) y) ((gd, g, gi, gc, uncle) # ctx))" .
  have rp1: "repr index t0 s0 A t1 s1 (plug (nd gd p pi True sib x) ((gd, a, i, c, y) # (gd, g, gi, gc, uncle) # ctx))" using r1(2) by simp
  have 6: "parent_of s1 (Some p) = Some (Some a)" using at_parent [OF repr_holds [OF rp1]] by simp
  have rg: "repr index t0 s0 A t1 s1 (plug (nd gd g gi gc (nd gd a i c (nd gd p pi True sib x) y) uncle) ctx)" using r1(2) by simp
  from BAASub_rotate [OF rg] obtain s2 s3 t' s4 where s: "set_red False (Some a) s1 = Some s2" "parent_of s2 (Some a) = Some (Some g)"
    "set_red True (Some g) s2 = Some s3" "TreeRotate t1 s3 (Some g) (\<not> gd) index = Some (t', s4)"
    "repr index t0 s0 A t' s4 (plug (nd gd a i False (nd gd p pi True sib x) (nd gd g gi True y uncle)) ctx)" by blast
  show ?thesis using that [of t' s4] 1 2 3 4 5 6 r1(1) s by (simp add: TreeBAASub_def)
qed

text \<open>The loop.\<close>

lemma at_unbalanced:
  assumes "holds index t s (plug T ctx)" "rootp T = Some a"
  shows "add_unbalanced s (Some a) = Some (case ctx of (d, p, pi, c, sib) # _ # _ \<Rightarrow> c | _ \<Rightarrow> False)"
proof (cases ctx)
  case (Cons w ws)
  then obtain d p pi c sib where ctx: "ctx = (d, p, pi, c, sib) # ws" by (cases w) auto
  then have P: "holds index t s (plug (nd d p pi c T sib) ws)" using assms(1) by simp
  show ?thesis
    using at_parent [OF assms] at_parent [OF P, of p] at_red [OF P]
    by (auto simp: add_unbalanced_def ctx nd_inv split: list.split)
qed (use at_parent [OF assms] in \<open>simp add: add_unbalanced_def isRed_def\<close>)

lemma balance_add_stop:
  assumes "holds index t s (plug T ctx)" "rootp T = Some a" "case ctx of (d, p, pi, c, sib) # _ # _ \<Rightarrow> \<not> c | _ \<Rightarrow> True"
  shows "balance_add_loop t s (Some a) index = Some (t, s)"
proof -
  have "add_unbalanced s (Some a) = Some False"
    using at_unbalanced [OF assms(1,2)] assms(3) by (auto split: list.splits prod.splits)
  then show ?thesis by (subst balance_add_loop.simps) simp
qed

lemma balance_add_end:
  "\<lbrakk>repr index t0 s0 A t s (plug n ctx); rootp n = Some a; case ctx of (d, p, pi, c, sib) # _ # _ \<Rightarrow> \<not> c | _ \<Rightarrow> True\<rbrakk> \<Longrightarrow>
   \<exists>t' s'. balance_add_loop t s (Some a) index = Some (t', s') \<and> repr index t0 s0 A t' s' (plug n ctx)"
  using balance_add_stop [OF repr_holds] by blast

lemma balance_add:
  "\<lbrakk>repr index t0 s0 A t s (plug n ctx); rootp n = Some a\<rbrakk> \<Longrightarrow>
   \<exists>t' s'. balance_add_loop t s (Some a) index = Some (t', s') \<and> repr index t0 s0 A t' s' (fix_add n ctx)"
proof (induction n ctx arbitrary: t s a rule: fix_add.induct)
  case (1 n ni nc x y d p pi sib gd g gi gc uncle ctx)
  let ?n = "Nd n ni nc x y" and ?ctx = "(d, p, pi, True, sib) # (gd, g, gi, gc, uncle) # ctx"
  note r = "1.prems"(1)
  have a: "a = n" using "1.prems"(2) by simp
  let ?P = "nd d p pi True ?n sib"
  have rp: "repr index t0 s0 A t s (plug ?P ((gd, g, gi, gc, uncle) # ctx))" using r by simp
  have rg: "repr index t0 s0 A t s (plug (nd gd g gi gc ?P uncle) ctx)" using r by simp
  have u: "add_unbalanced s (Some a) = Some True" using at_unbalanced [OF repr_holds [OF r] "1.prems"(2)] by simp
  have 1: "parent_of s (Some a) = Some (Some p)" using at_parent [OF repr_holds [OF r] "1.prems"(2)] by simp
  have 2: "parent_of s (Some p) = Some (Some g)" using at_parent [OF repr_holds [OF rp]] by simp
  have 3: "child_of s (Some g) False = Some (if gd then rootp uncle else Some p)"
    using at_child [OF repr_holds [OF rg], of False] by auto
  have 4: "Some p \<noteq> rootp uncle" using distinct_roots [OF repr_holds [OF rg]] by (cases "rootp uncle") (auto simp: nd_def split: if_splits)
  have e: "balance_add_loop t s (Some a) index =
      Option.bind (TreeBAASub t s (Some a) (\<not> gd) index) (\<lambda>(curnode, t, s). balance_add_loop t s curnode index)"
    using u 1 2 3 4 by (subst balance_add_loop.simps) (simp cong: if_cong)
  consider (red) "isred uncle" | (outer) "\<not> isred uncle" "d = gd" | (inner) "\<not> isred uncle" "d = (\<not> gd)" by blast
  then show ?case
  proof cases
    case red
    from BAASub_red [OF r _ red, of a] a obtain s' where s': "TreeBAASub t s (Some a) (\<not> gd) index = Some (Some g, t, s')"
      "repr index t0 s0 A t s' (plug (nd gd g gi True (nd d p pi False ?n sib) (paint False uncle)) ctx)" by auto
    from "1.IH" [OF red s'(2)] red show ?thesis by (simp add: e s'(1))
  next
    case outer
    from BAASub_outer [of index t0 s0 A t s ?n gd p pi sib g gi gc uncle ctx a] r outer a obtain t' s' where
      s': "TreeBAASub t s (Some a) (\<not> gd) index = Some (Some a, t', s')"
      "repr index t0 s0 A t' s' (plug ?n ((gd, p, pi, False, nd gd g gi True sib uncle) # ctx))" by auto
    have "balance_add_loop t' s' (Some a) index = Some (t', s')"
      by (rule balance_add_stop [OF repr_holds [OF s'(2)] "1.prems"(2)]) (simp split: list.split)
    with s' outer show ?thesis by (simp add: e)
  next
    case inner
    have n: "?n = nd gd n ni nc (kid gd ?n) (kid (\<not> gd) ?n)" by (rule nd_kids)
    from BAASub_inner [of index t0 s0 A t s ?n gd p pi sib g gi gc uncle ctx, OF _ n] r inner a obtain t' s' where
      s': "TreeBAASub t s (Some a) (\<not> gd) index = Some (Some p, t', s')"
      "repr index t0 s0 A t' s' (plug (nd gd p pi True sib (kid gd ?n)) ((gd, n, ni, False, nd gd g gi True (kid (\<not> gd) ?n) uncle) # ctx))"
      by auto
    have "balance_add_loop t' s' (Some p) index = Some (t', s')"
      by (rule balance_add_stop [OF repr_holds [OF s'(2)]]) (simp_all split: list.split)
    with s' inner show ?thesis by (simp add: e)
  qed
qed (simp_all del: plug.simps add: balance_add_end split: list.split)

lemma BalanceAfterAdd:
  assumes "repr index t0 s0 A t s (plug n ctx)" "rootp n = Some a"
  obtains t' s' where "TreeBalanceAfterAdd t s (Some a) index = Some (t', s')" "repr index t0 s0 A t' s' (paint False (fix_add n ctx))"
proof -
  from balance_add [OF assms] obtain t' s' where 1: "balance_add_loop t s (Some a) index = Some (t', s')"
    "repr index t0 s0 A t' s' (plug (fix_add n ctx) [])" by auto
  have "a \<in> set (addrs (fix_add n ctx))"
    using assms rootp_in [OF assms(2)] 1(2) by (auto simp: repr_def)
  then obtain b where b: "rootp (fix_add n ctx) = Some b" by (cases "fix_add n ctx") auto
  then have "tr_root t' index = Some b" using 1(2) by (auto simp: repr_def holds_def)
  moreover obtain s2 where "set_red False (Some b) s' = Some s2" "repr index t0 s0 A t' s2 (plug (paint False (fix_add n ctx)) [])"
    by (rule repr_red [OF 1(2) b])
  ultimately show ?thesis using that [of t' s2] 1(1) by (simp add: TreeBalanceAfterAdd_def)
qed

section \<open>Searching and adding\<close>

definition compares :: "(ptr \<Rightarrow> int option) \<Rightarrow> (ptr \<Rightarrow> int) \<Rightarrow> atree \<Rightarrow> bool" where
  "compares compare f T \<longleftrightarrow> (\<forall>(a, c, sz)\<in>set (items T). compare c = Some (f c))"

lemma compares_simps [simp]: "compares compare f Lf"
  "compares compare f (Nd a i c l r) \<longleftrightarrow> compare (fst i) = Some (f (fst i)) \<and> compares compare f l \<and> compares compare f r"
  by (simp_all add: compares_def ball_Un split_beta)

lemma search_node:
  "holds index t s (plug (Nd a i c l r) ctx) \<Longrightarrow>
   get_node s (Some a) = Some \<lparr>nd_parent = topp ctx, nd_child = two (rootp l) (rootp r), nd_content = fst i, nd_size = snd i, nd_red = c\<rparr>"
  by (simp add: holds_plug get_node_def)

lemma find_node:
  "\<lbrakk>holds index t s (plug T ctx); compares compare f T\<rbrakk> \<Longrightarrow> find_node_loop compare s (rootp T) = Some (rootp (fst (locate f T ctx)))"
proof (induction f T ctx rule: locate.induct)
  case (1 f ctx)
  show ?case by (subst find_node_loop.simps) simp
next
  case (2 f a i c l r ctx)
  have "holds index t s (plug r ((True, a, i, c, l) # ctx))" "holds index t s (plug l ((False, a, i, c, r) # ctx))"
    using 2(3) by simp_all
  with 2 show ?case by (subst find_node_loop.simps) (simp add: search_node)
qed

lemma add_search_at:
  "\<lbrakk>holds index t s (plug T ctx); compares compare f T; result \<noteq> 0; case ctx of [] \<Rightarrow> True | (d, _) # _ \<Rightarrow> left = d\<rbrakk> \<Longrightarrow>
   \<exists>res d. add_search compare s result left (topp ctx) (rootp T) =
       Some (res, d, topp (snd (locate f T ctx)), rootp (fst (locate f T ctx))) \<and>
     (res = 0 \<longleftrightarrow> fst (locate f T ctx) \<noteq> Lf) \<and>
     (fst (locate f T ctx) = Lf \<longrightarrow> (case snd (locate f T ctx) of [] \<Rightarrow> True | (e, _) # _ \<Rightarrow> d = e))"
proof (induction f T ctx arbitrary: result left rule: locate.induct)
  case (1 f ctx)
  then show ?case by (subst add_search.simps) simp
next
  case (2 f a i c l r ctx)
  have h: "holds index t s (plug r ((True, a, i, c, l) # ctx))" "holds index t s (plug l ((False, a, i, c, r) # ctx))"
    using 2(3) by simp_all
  consider "f (fst i) = 0" | "f (fst i) \<noteq> 0" "f (fst i) > 0" | "f (fst i) \<noteq> 0" "\<not> f (fst i) > 0" by blast
  then show ?case
  proof cases
    case 1
    with 2 show ?thesis by (subst add_search.simps) (auto simp: search_node)
  next
    case p: 2
    from "2.IH"(1) [OF p h(1), of "f (fst i)" True] 2 p show ?thesis by (subst add_search.simps) (simp add: search_node)
  next
    case p: 3
    from "2.IH"(2) [OF p h(2), of "f (fst i)" False] 2 p show ?thesis by (subst add_search.simps) (simp add: search_node)
  qed
qed

text \<open>What an addition makes of a tree.\<close>

definition insert_at :: "addr \<Rightarrow> entry \<Rightarrow> atree \<times> ctx \<Rightarrow> atree" where
  "insert_at a e pos = paint False (case fst pos of
     Lf \<Rightarrow> fix_add (Nd a e True Lf Lf) (snd pos) | Nd b i c l r \<Rightarrow> fix_add (Nd b e c l r) (snd pos))"

definition old_content :: "atree \<times> ctx \<Rightarrow> ptr" where
  "old_content pos = (case fst pos of Lf \<Rightarrow> None | Nd a i c l r \<Rightarrow> fst i)"

definition counted :: "nat \<Rightarrow> 64 word \<Rightarrow> atree \<times> ctx \<Rightarrow> 'm Tree \<Rightarrow> 'm Tree" where
  "counted index sz pos t = (if index \<noteq> 0 then t
     else case fst pos of Lf \<Rightarrow> t\<lparr>tr_count := tr_count t + 1, tr_size := tr_size t + sz\<rparr>
       | Nd a i c l r \<Rightarrow> t\<lparr>tr_size := tr_size t + (sz - snd i)\<rparr>)"

lemma counted_root [simp]: "tr_root (counted index sz pos t) = tr_root t"
  "set_root i p (counted index sz pos t) = counted index sz pos (set_root i p t)"
  by (auto simp: counted_def set_root_def split: atree.split)

lemma holds_counted [simp]: "holds i (counted index sz pos t) s T = holds i t s T"
  by (simp add: holds_def)

text \<open>A new node is put in the place of a leaf.\<close>

lemma link_new:
  fixes sz :: "64 word" and content :: ptr
  assumes "holds index t s (plug Lf ctx)" "a \<notin> set (caddrs ctx)" "s a = None" "case ctx of [] \<Rightarrow> True | (e, _) # _ \<Rightarrow> d = e"
  defines "T \<equiv> plug (Nd a (content, sz) True Lf Lf) ctx"
  shows "\<exists>s'. link_node t s d (topp ctx) content sz index (Some a) = Some (set_root index (rootp T) t, s') \<and>
     holds index (set_root index (rootp T) t) s' T \<and> same_outside (insert a (set (caddrs ctx))) s s'"
proof (cases ctx)
  case Nil
  then show ?thesis using assms by (auto simp: link_node_def holds_def set_node_def)
next
  case (Cons w ws)
  obtain b i c sib where w: "ctx = (d, b, i, c, sib) # ws" using Cons assms(4) by (cases w) auto
  have e: "rootp T = rootp (plug Lf ctx)" using rootp_plug [of "Nd a (content, sz) True Lf Lf" ctx Lf] Cons by (auto simp: T_def)
  have t: "set_root index (rootp T) t = t" using assms(1) e by (metis holds_def set_root_simps(3))
  show ?thesis
    unfolding t using assms(1-3) e by (cases d) (auto simp: T_def w holds_plug link_node_def node_ops)
qed

lemma AddByIndex:
  fixes sz :: "64 word"
  assumes "holds index t s T" "compares (\<lambda>c. tr_compare t index mem c content True) f T" "\<not> tr_allow_duplicates t"
    "s a = None" "a \<notin> set (addrs T)"
  defines "pos \<equiv> locate f T []"
  defines "T' \<equiv> insert_at a (content, sz) pos"
  obtains s' where "TreeAddByIndex mem t s content sz index (Some a) =
      Some (old_content pos, counted index sz pos (set_root index (rootp T') t), s')"
    "holds index (set_root index (rootp T') t) s' T'" "same_outside (set (addrs T')) s s'"
    "set (addrs T') = (if fst pos = Lf then insert a (set (addrs T)) else set (addrs T))"
proof -
  let ?cmp = "\<lambda>c. tr_compare t index mem c content True"
  have plug: "plug (fst pos) (snd pos) = T" using locate_plug [of f T "[]"] by (simp add: pos_def)
  have root: "tr_root t index = rootp T" using assms(1) by (simp add: holds_def)
  from add_search_at [of index t s T "[]" ?cmp f 1 False] assms(1,2) obtain res d where
    search: "add_search ?cmp s 1 False None (rootp T) = Some (res, d, topp (snd pos), rootp (fst pos))" "res = 0 \<longleftrightarrow> fst pos \<noteq> Lf"
      "fst pos = Lf \<longrightarrow> (case snd pos of [] \<Rightarrow> True | (e, _) # _ \<Rightarrow> d = e)"
    by (auto simp: pos_def)
  show ?thesis
  proof (cases "fst pos")
    case (Nd b i c l r)
    have h: "holds index t s (plug (Nd b i c l r) (snd pos))" using assms(1) plug Nd by simp
    let ?s = "s(b \<mapsto> \<lparr>nd_parent = topp (snd pos), nd_child = two (rootp l) (rootp r), nd_content = content, nd_size = sz, nd_red = c\<rparr>)"
    let ?t = "counted index sz pos t"
    have e: "rootp (plug (Nd b (content, sz) c l r) (snd pos)) = rootp (plug (Nd b i c l r) (snd pos))"
      using rootp_plug [of "Nd b (content, sz) c l r" "snd pos" "Nd b i c l r"] by auto
    have "holds index ?t ?s (plug (Nd b (content, sz) c l r) (snd pos))"
      using h e by (auto simp: holds_plug)
    moreover have A: "set (addrs (plug (Nd b (content, sz) c l r) (snd pos))) = set (addrs T)" "b \<in> set (addrs T)"
      unfolding plug [symmetric] Nd by simp_all
    ultimately have r: "repr index ?t ?s (set (addrs T)) ?t ?s (plug (Nd b (content, sz) c l r) (snd pos))"
      using repr_start [of index ?t ?s "plug (Nd b (content, sz) c l r) (snd pos)"] by simp
    obtain t' s' where b: "TreeBalanceAfterAdd ?t ?s (Some b) index = Some (t', s')" "repr index ?t ?s (set (addrs T)) t' s' T'"
      using BalanceAfterAdd [OF r] Nd by (auto simp: T'_def insert_at_def)
    have "same_outside (set (addrs T)) s ?s" using A(2) by simp
    with b(2) have o: "same_outside (set (addrs T')) s s'" "set (addrs T') = set (addrs T)" "t' = set_root index (rootp T') ?t"
      "holds index t' s' T'"
      unfolding repr_def by (auto intro: same_outside_trans)
    have "TreeAddByIndex mem t s content sz index (Some a) = Some (old_content pos, counted index sz pos (set_root index (rootp T') t), s')"
      using search root Nd b(1) o(3) assms(3) search_node [OF h]
      by (simp add: TreeAddByIndex_def counted_def set_node_def get_node_def old_content_def set_root_def split: if_splits)
    then show ?thesis using that [of s'] o Nd by simp
  next
    case Lf
    let ?new = "Nd a (content, sz) True Lf Lf"
    let ?T = "plug ?new (snd pos)"
    let ?t = "counted index sz pos (set_root index (rootp ?T) t)"
    have h: "holds index t s (plug Lf (snd pos))" "a \<notin> set (caddrs (snd pos))" using assms(1,5) plug Lf by auto
    from link_new [OF h assms(4), of d content sz] search(3) Lf obtain s2 where
      s2: "holds index (set_root index (rootp ?T) t) s2 ?T" "same_outside (insert a (set (caddrs (snd pos)))) s s2"
        "link_node t s d (topp (snd pos)) content sz index (Some a) = Some (set_root index (rootp ?T) t, s2)"
      by auto
    have A: "set (addrs ?T) = insert a (set (addrs T))" "set (caddrs (snd pos)) = set (addrs T)"
      unfolding plug [symmetric] Lf by simp_all
    have r: "repr index ?t s2 (insert a (set (addrs T))) ?t s2 ?T" using repr_start [of index ?t s2 ?T] s2(1) A(1) by simp
    obtain t' s' where b: "TreeBalanceAfterAdd ?t s2 (Some a) index = Some (t', s')" "repr index ?t s2 (insert a (set (addrs T))) t' s' T'"
      using BalanceAfterAdd [OF r] Lf by (auto simp: T'_def insert_at_def)
    have "same_outside (insert a (set (addrs T))) s s2" using s2(2) A(2) by simp
    with b(2) have o: "same_outside (set (addrs T')) s s'" "set (addrs T') = insert a (set (addrs T))" "t' = set_root index (rootp T') ?t"
      "holds index t' s' T'"
      unfolding repr_def by (auto intro: same_outside_trans)
    have "TreeAddByIndex mem t s content sz index (Some a) = Some (old_content pos, counted index sz pos (set_root index (rootp T') t), s')"
      using search root Lf b(1) o(3) s2(3) by (simp add: TreeAddByIndex_def old_content_def counted_def set_root_def split: if_splits)
    then show ?thesis using that [of s'] o Lf by simp
  qed
qed

end
