(* ===== verification/TreeRemoval.thy ===== *)
theory TreeRemoval
  imports TreeStore
begin

text \<open>
  The same for removing: \<open>TreeBalanceAfterRemove\<close>, with its node on the stack that stands for a missing one, and
  \<open>TreeRemoveNodeIndex\<close>.
\<close>

section \<open>The place that lacks a black node\<close>

text \<open>The pointer for a position: the subtree's root, or the node on the stack when there is none.\<close>

definition cursor :: "nodes \<Rightarrow> addr set \<Rightarrow> ctx \<Rightarrow> atree \<Rightarrow> ptr \<Rightarrow> bool" where
  "cursor s A ctx x q \<longleftrightarrow> (case x of
     Nd a i c l r \<Rightarrow> q = Some a
   | Lf \<Rightarrow> ctx \<noteq> [] \<and> (\<exists>tmp. q = Some tmp \<and> tmp \<notin> A \<and>
       s tmp = Some \<lparr>nd_parent = topp ctx, nd_child = two None None, nd_content = None, nd_size = 0, nd_red = False\<rparr>))"

definition proper :: "atree \<Rightarrow> bool" where
  "proper T \<longleftrightarrow> (\<forall>(a, c, sz)\<in>set (items T). c \<noteq> None)"

lemma proper_simps [simp]: "proper Lf" "proper (Nd a i c l r) \<longleftrightarrow> fst i \<noteq> None \<and> proper l \<and> proper r"
  "proper (nd d a i c x y) \<longleftrightarrow> fst i \<noteq> None \<and> proper x \<and> proper y"
  by (auto simp: proper_def ball_Un items_nd split: prod.splits)

lemma proper_plug: "proper (plug x ctx) \<Longrightarrow> proper x"
  by (auto simp: proper_def items_plug)

lemma proper_items: "items T = items T' \<Longrightarrow> proper T = proper T'"
  by (simp add: proper_def)

lemma cursor_same:
  "\<lbrakk>cursor s A ctx x q; same_outside A s s'; topp ctx' = topp ctx\<rbrakk> \<Longrightarrow> cursor s' A ctx' x q"
  by (auto simp: cursor_def same_outside_def split: atree.splits) (metis topp_simps(3))

lemma cursor_parent:
  "\<lbrakk>cursor s A ctx x q; holds index t s (plug x ctx)\<rbrakk> \<Longrightarrow> parent_of s q = Some (topp ctx)"
  by (cases x) (auto simp: cursor_def holds_plug node_ops)

lemma cursor_black: "\<lbrakk>cursor s A ctx x q; holds index t s (plug x ctx)\<rbrakk> \<Longrightarrow> isBlack s q = Some (\<not> isred x)"
  by (cases x) (auto simp: cursor_def holds_plug node_ops isBlack_def)

lemma cursor_node: "rootp x = Some a \<Longrightarrow> cursor s A ctx x (Some a)"
  by (cases x) (auto simp: cursor_def)

lemma cursor_root:
  assumes "cursor s (set (addrs (plug x ctx))) ctx x q" "holds index t s (plug x ctx)"
  shows "q = tr_root t index \<longleftrightarrow> ctx = []"
proof (cases "ctx = []")
  case True
  with assms show ?thesis by (cases x) (auto simp: cursor_def holds_def)
next
  case False
  obtain b where b: "rootp (plug x ctx) = Some b" using False by (cases "plug x ctx") auto
  have "rootp (plug x ctx) = rootp (plug Lf ctx)" using rootp_plug [of x ctx Lf] False by blast
  then have "b \<in> set (caddrs ctx)" using b rootp_in [of "plug Lf ctx" b] by simp
  moreover have "b \<in> set (addrs (plug x ctx))" using rootp_in [OF b] .
  moreover have "tr_root t index = Some b" using assms(2) b by (simp add: holds_def)
  moreover have "q \<noteq> Some b"
  proof (cases x)
    case Lf
    with assms(1) \<open>b \<in> set (addrs (plug x ctx))\<close> show ?thesis by (auto simp: cursor_def)
  next
    case (Nd a i c l r)
    with assms \<open>b \<in> set (caddrs ctx)\<close> show ?thesis by (auto simp: cursor_def holds_plug)
  qed
  ultimately show ?thesis using False by simp
qed

text \<open>Along a chain of steps.\<close>

lemma repr_outside: "\<lbrakk>repr index t0 s0 A t s T; repr index t0 s0 A t' s' T'; same_outside A s0 s \<Longrightarrow> same_outside A s0 s'\<rbrakk> \<Longrightarrow> same_outside A s s'"
  by (simp add: repr_def same_outside_def)

lemma repr_cursor:
  "\<lbrakk>repr index t0 s0 A t s T; repr index t0 s0 A t' s' T'; cursor s A ctx x q; topp ctx' = topp ctx\<rbrakk> \<Longrightarrow> cursor s' A ctx' x q"
  by (rule cursor_same) (auto simp: repr_def same_outside_def)

section \<open>One step up\<close>

lemma red_sibling_no:
  assumes "repr index t0 s0 A t s (plug x ((d, p, pi, pc, sib) # ctx))" "cursor s A ((d, p, pi, pc, sib) # ctx) x q" "\<not> isred sib"
  shows "red_sibling t s q (\<not> d) index = Some (rootp sib, t, s)"
proof -
  note h = repr_holds [OF assms(1)]
  have hs: "holds index t s (plug sib ((\<not> d, p, pi, pc, x) # ctx))" using h by simp
  have hp: "holds index t s (plug (nd d p pi pc x sib) ctx)" using h by simp
  show ?thesis
    using cursor_parent [OF assms(2) h] at_child [OF hp, of "\<not> d"] at_red [OF hs] assms(3) by (simp add: red_sibling_def)
qed

lemma red_sibling_yes:
  assumes "repr index t0 s0 A t s (plug x ((d, p, pi, pc, sib) # ctx))" "cursor s A ((d, p, pi, pc, sib) # ctx) x q"
    "sib = nd d b j True near far"
  obtains t' s' where "red_sibling t s q (\<not> d) index = Some (rootp near, t', s')"
    "repr index t0 s0 A t' s' (plug x ((d, p, pi, True, near) # (d, b, j, False, far) # ctx))"
    "cursor s' A ((d, p, pi, True, near) # (d, b, j, False, far) # ctx) x q"
proof -
  note r = assms(1) and h = repr_holds [OF assms(1)]
  have rs: "repr index t0 s0 A t s (plug sib ((\<not> d, p, pi, pc, x) # ctx))" using r by simp
  have hp: "holds index t s (plug (nd d p pi pc x sib) ctx)" using h by simp
  have 1: "parent_of s q = Some (Some p)" using cursor_parent [OF assms(2) h] by simp
  have 2: "child_of s (Some p) (\<not> d) = Some (Some b)" using at_child [OF hp, of "\<not> d"] assms(3) by simp
  have 3: "isRed s (Some b) = Some True" using at_red [OF repr_holds [OF rs]] assms(3) by (simp add: nd_inv)
  obtain s1 where s1: "set_red False (Some b) s = Some s1"
    "repr index t0 s0 A t s1 (plug (nd d b j False near far) ((\<not> d, p, pi, pc, x) # ctx))"
    using repr_red [OF rs, of b False] assms(3) by (auto simp: nd_inv)
  have "repr index t0 s0 A t s1 (plug (nd d p pi pc x (nd d b j False near far)) ctx)" using s1(2) by simp
  then obtain s2 where s2: "set_red True (Some p) s1 = Some s2"
    "repr index t0 s0 A t s2 (plug (nd d p pi True x (nd d b j False near far)) ctx)"
    using repr_red [of index t0 s0 A t s1 "nd d p pi pc x (nd d b j False near far)" ctx p True] by (auto simp: nd_inv)
  from repr_rotate [OF s2(2)] obtain t' s3 where s3: "TreeRotate t s2 (Some p) d index = Some (t', s3)"
    "repr index t0 s0 A t' s3 (plug (nd d b j False (nd d p pi True x near) far) ctx)" .
  have r3: "repr index t0 s0 A t' s3 (plug x ((d, p, pi, True, near) # (d, b, j, False, far) # ctx))" using s3(2) by simp
  have c: "cursor s3 A ((d, p, pi, True, near) # (d, b, j, False, far) # ctx) x q" by (rule repr_cursor [OF r r3 assms(2)]) simp
  have hp3: "holds index t' s3 (plug (nd d p pi True x near) ((d, b, j, False, far) # ctx))" using repr_holds [OF r3] by simp
  have 4: "parent_of s3 q = Some (Some p)" using cursor_parent [OF c repr_holds [OF r3]] by simp
  have 5: "child_of s3 (Some p) (\<not> d) = Some (rootp near)" using at_child [OF hp3, of "\<not> d"] by simp
  show ?thesis using that [OF _ r3 c] 1 2 3 4 5 s1(1) s2(1) s3(1) by (simp add: red_sibling_def)
qed

text \<open>The last steps of the repair: the sibling takes the parent's colour and its place.\<close>

lemma sibling_up:
  assumes "repr index t0 s0 A t s (plug x ((d, p, pi, pc, nd d b j bc near far) # ctx))" "cursor s A ((d, p, pi, pc, nd d b j bc near far) # ctx) x q"
    "rootp far = Some f"
  obtains s1 s2 s3 t' s4 where "parent_of s q = Some (Some p)" "map_option nd_red (get_node s (Some p)) = Some pc"
    "set_red pc (Some b) s = Some s1" "set_red False (Some p) s1 = Some s2" "child_of s2 (Some b) (\<not> d) = Some (Some f)"
    "set_red False (Some f) s2 = Some s3" "TreeRotate t s3 (Some p) d index = Some (t', s4)"
    "repr index t0 s0 A t' s4 (plug (nd d b j pc (nd d p pi False x near) (paint False far)) ctx)"
proof -
  note r = assms(1) and h = repr_holds [OF assms(1)]
  have hp: "holds index t s (plug (nd d p pi pc x (nd d b j bc near far)) ctx)" using h by simp
  have 1: "parent_of s q = Some (Some p)" using cursor_parent [OF assms(2) h] by simp
  have 2: "map_option nd_red (get_node s (Some p)) = Some pc" using hp by (simp add: holds_plug get_node_def)
  have rs: "repr index t0 s0 A t s (plug (nd d b j bc near far) ((\<not> d, p, pi, pc, x) # ctx))" using r by simp
  obtain s1 where s1: "set_red pc (Some b) s = Some s1" "repr index t0 s0 A t s1 (plug (nd d b j pc near far) ((\<not> d, p, pi, pc, x) # ctx))"
    using repr_red [OF rs, of b pc] by (auto simp: nd_inv)
  have "repr index t0 s0 A t s1 (plug (nd d p pi pc x (nd d b j pc near far)) ctx)" using s1(2) by simp
  then obtain s2 where s2: "set_red False (Some p) s1 = Some s2" "repr index t0 s0 A t s2 (plug (nd d p pi False x (nd d b j pc near far)) ctx)"
    using repr_red [of index t0 s0 A t s1 "nd d p pi pc x (nd d b j pc near far)" ctx p False] by (auto simp: nd_inv)
  have rb: "repr index t0 s0 A t s2 (plug (nd d b j pc near far) ((\<not> d, p, pi, False, x) # ctx))" using s2(2) by simp
  have 3: "child_of s2 (Some b) (\<not> d) = Some (Some f)" using at_child [OF repr_holds [OF rb], of "\<not> d"] assms(3) by simp
  have rf: "repr index t0 s0 A t s2 (plug far ((\<not> d, b, j, pc, near) # (\<not> d, p, pi, False, x) # ctx))" using s2(2) by simp
  obtain s3 where s3: "set_red False (Some f) s2 = Some s3"
    "repr index t0 s0 A t s3 (plug (paint False far) ((\<not> d, b, j, pc, near) # (\<not> d, p, pi, False, x) # ctx))"
    by (rule repr_red [OF rf assms(3)])
  have "repr index t0 s0 A t s3 (plug (nd d p pi False x (nd d b j pc near (paint False far))) ctx)" using s3(2) by simp
  from repr_rotate [OF this] obtain t' s4 where "TreeRotate t s3 (Some p) d index = Some (t', s4)"
    "repr index t0 s0 A t' s4 (plug (nd d b j pc (nd d p pi False x near) (paint False far)) ctx)" .
  with 1 2 3 s1(1) s2(1) s3(1) that show ?thesis by blast
qed

lemma black_sibling_leaf:
  assumes "repr index t0 s0 A t s (plug x ((d, p, pi, pc, sib) # ctx))" "cursor s A ((d, p, pi, pc, sib) # ctx) x q"
  shows "black_sibling t s q None which index = Some (Some p, t, s)"
  using cursor_parent [OF assms(2) repr_holds [OF assms(1)]] by (simp add: black_sibling_def)

lemma black_sibling_red:
  assumes "repr index t0 s0 A t s (plug x ((d, p, pi, pc, nd d b j bc near far) # ctx))" "cursor s A ((d, p, pi, pc, nd d b j bc near far) # ctx) x q"
    "\<not> isred near" "\<not> isred far"
  obtains s' where "black_sibling t s q (Some b) (\<not> d) index = Some (Some p, t, s')"
    "repr index t0 s0 A t s' (plug (nd d p pi pc x (nd d b j True near far)) ctx)"
proof -
  note h = repr_holds [OF assms(1)]
  have rs: "repr index t0 s0 A t s (plug (nd d b j bc near far) ((\<not> d, p, pi, pc, x) # ctx))" using assms(1) by simp
  note hs = repr_holds [OF rs]
  have 1: "parent_of s q = Some (Some p)" using cursor_parent [OF assms(2) h] by simp
  have 2: "child_of s (Some b) d = Some (rootp near)" "child_of s (Some b) (\<not> d) = Some (rootp far)"
    using at_child [OF hs, of d] at_child [OF hs, of "\<not> d"] by simp_all
  have hn: "holds index t s (plug near ((d, b, j, bc, far) # (\<not> d, p, pi, pc, x) # ctx))"
    and hf: "holds index t s (plug far ((\<not> d, b, j, bc, near) # (\<not> d, p, pi, pc, x) # ctx))" using hs by simp_all
  then have 3: "isBlack s (rootp near) = Some True" "isBlack s (rootp far) = Some True"
    using at_black [OF hn] at_black [OF hf] assms(3,4) by auto
  obtain s' where "set_red True (Some b) s = Some s'" "repr index t0 s0 A t s' (plug (nd d b j True near far) ((\<not> d, p, pi, pc, x) # ctx))"
    using repr_red [OF rs, of b True] by (auto simp: nd_inv)
  with 1 2 3 that show ?thesis by (simp add: black_sibling_def)
qed

lemma black_sibling_far:
  assumes "repr index t0 s0 A t s (plug x ((d, p, pi, pc, nd d b j bc near far) # ctx))" "cursor s A ((d, p, pi, pc, nd d b j bc near far) # ctx) x q"
    "isred far"
  obtains t' s' where "black_sibling t s q (Some b) (\<not> d) index = Some (tr_root t' index, t', s')"
    "repr index t0 s0 A t' s' (plug (nd d b j pc (nd d p pi False x near) (paint False far)) ctx)"
proof -
  note h = repr_holds [OF assms(1)]
  obtain f where f: "rootp far = Some f" using assms(3) by (cases far) auto
  have hs: "holds index t s (plug (nd d b j bc near far) ((\<not> d, p, pi, pc, x) # ctx))" using h by simp
  have 2: "child_of s (Some b) d = Some (rootp near)" "child_of s (Some b) (\<not> d) = Some (Some f)"
    using at_child [OF hs, of d] at_child [OF hs, of "\<not> d"] f by simp_all
  have hn: "holds index t s (plug near ((d, b, j, bc, far) # (\<not> d, p, pi, pc, x) # ctx))"
    and hf: "holds index t s (plug far ((\<not> d, b, j, bc, near) # (\<not> d, p, pi, pc, x) # ctx))" using hs by simp_all
  then have 3: "isBlack s (rootp near) = Some (\<not> isred near)" "isBlack s (Some f) = Some False"
    using at_black [OF hn] at_black [OF hf] assms(3) f by auto
  from sibling_up [OF assms(1,2) f] obtain s1 s2 s3 t' s4 where s: "parent_of s q = Some (Some p)" "map_option nd_red (get_node s (Some p)) = Some pc"
    "set_red pc (Some b) s = Some s1" "set_red False (Some p) s1 = Some s2" "child_of s2 (Some b) (\<not> d) = Some (Some f)"
    "set_red False (Some f) s2 = Some s3" "TreeRotate t s3 (Some p) d index = Some (t', s4)"
    "repr index t0 s0 A t' s4 (plug (nd d b j pc (nd d p pi False x near) (paint False far)) ctx)" .
  show ?thesis using that [OF _ s(8)] 2 3 s(1-7) by (simp add: black_sibling_def)
qed

lemma black_sibling_near:
  assumes "repr index t0 s0 A t s (plug x ((d, p, pi, pc, nd d b j bc (nd d r ri True y z) far) # ctx))"
    "cursor s A ((d, p, pi, pc, nd d b j bc (nd d r ri True y z) far) # ctx) x q" "\<not> isred far"
  obtains t' s' where "black_sibling t s q (Some b) (\<not> d) index = Some (tr_root t' index, t', s')"
    "repr index t0 s0 A t' s' (plug (nd d r ri pc (nd d p pi False x y) (nd d b j False z far)) ctx)"
proof -
  let ?near = "nd d r ri True y z"
  note h = repr_holds [OF assms(1)]
  have rs: "repr index t0 s0 A t s (plug (nd d b j bc ?near far) ((\<not> d, p, pi, pc, x) # ctx))" using assms(1) by simp
  note hs = repr_holds [OF rs]
  have 1: "parent_of s q = Some (Some p)" using cursor_parent [OF assms(2) h] by simp
  have 2: "child_of s (Some b) d = Some (Some r)" "child_of s (Some b) (\<not> d) = Some (rootp far)"
    using at_child [OF hs, of d] at_child [OF hs, of "\<not> d"] by simp_all
  have rn: "repr index t0 s0 A t s (plug ?near ((d, b, j, bc, far) # (\<not> d, p, pi, pc, x) # ctx))" using rs by simp
  have hf: "holds index t s (plug far ((\<not> d, b, j, bc, ?near) # (\<not> d, p, pi, pc, x) # ctx))" using hs by simp
  then have 3: "isBlack s (Some r) = Some False" "isBlack s (rootp far) = Some True"
    using at_black [OF repr_holds [OF rn]] at_black [OF hf] assms(3) by (auto simp: nd_inv)
  obtain s1 where s1: "set_red False (Some r) s = Some s1"
    "repr index t0 s0 A t s1 (plug (nd d r ri False y z) ((d, b, j, bc, far) # (\<not> d, p, pi, pc, x) # ctx))"
    using repr_red [OF rn, of r False] by (auto simp: nd_inv)
  have r1: "repr index t0 s0 A t s1 (plug (nd d b j bc (nd d r ri False y z) far) ((\<not> d, p, pi, pc, x) # ctx))" using s1(2) by simp
  obtain s2 where s2: "set_red True (Some b) s1 = Some s2"
    "repr index t0 s0 A t s2 (plug (nd d b j True (nd d r ri False y z) far) ((\<not> d, p, pi, pc, x) # ctx))"
    using repr_red [OF r1, of b True] by (auto simp: nd_inv)
  have "repr index t0 s0 A t s2 (plug (nd (\<not> d) b j True far (nd (\<not> d) r ri False z y)) ((\<not> d, p, pi, pc, x) # ctx))" using s2(2) by simp
  from repr_rotate [OF this] obtain t3 s3 where s3: "TreeRotate t s2 (Some b) (\<not> d) index = Some (t3, s3)"
    "repr index t0 s0 A t3 s3 (plug x ((d, p, pi, pc, nd d r ri False y (nd d b j True z far)) # ctx))" by auto
  have c3: "cursor s3 A ((d, p, pi, pc, nd d r ri False y (nd d b j True z far)) # ctx) x q"
    by (rule repr_cursor [OF assms(1) s3(2) assms(2)]) simp
  have hp3: "holds index t3 s3 (plug (nd d p pi pc x (nd d r ri False y (nd d b j True z far))) ctx)" using repr_holds [OF s3(2)] by simp
  have 4: "child_of s3 (Some p) (\<not> d) = Some (Some r)" using at_child [OF hp3, of "\<not> d"] by simp
  have b: "rootp (nd d b j True z far) = Some b" by simp
  from sibling_up [OF s3(2) c3 b] obtain s4 s5 s6 t' s7 where s: "parent_of s3 q = Some (Some p)" "map_option nd_red (get_node s3 (Some p)) = Some pc"
    "set_red pc (Some r) s3 = Some s4" "set_red False (Some p) s4 = Some s5" "child_of s5 (Some r) (\<not> d) = Some (Some b)"
    "set_red False (Some b) s5 = Some s6" "TreeRotate t3 s6 (Some p) d index = Some (t', s7)"
    "repr index t0 s0 A t' s7 (plug (nd d r ri pc (nd d p pi False x y) (paint False (nd d b j True z far))) ctx)" .
  have "repr index t0 s0 A t' s7 (plug (nd d r ri pc (nd d p pi False x y) (nd d b j False z far)) ctx)" using s(8) by (simp add: nd_inv)
  from that [OF _ this] 1 2 3 4 s1(1) s2(1) s3(1) s(1-7) show ?thesis by (simp add: black_sibling_def)
qed

text \<open>Together, for a sibling that the code takes to be black.\<close>

lemma black_sibling_step:
  assumes "repr index t0 s0 A t s (plug x ((d, p, pi, pc, sib) # ctx))" "cursor s A ((d, p, pi, pc, sib) # ctx) x q"
  obtains (up) f t' s' where "rem_black x d p pi pc sib = Inl f" "black_sibling t s q (rootp sib) (\<not> d) index = Some (Some p, t', s')"
      "repr index t0 s0 A t' s' (plug f ctx)" "rootp f = Some p" "isred f = pc"
  | (repaired) T t' s' where "rem_black x d p pi pc sib = Inr T" "black_sibling t s q (rootp sib) (\<not> d) index = Some (tr_root t' index, t', s')"
      "repr index t0 s0 A t' s' (plug T ctx)" "T \<noteq> Lf"
proof (cases sib)
  case Lf
  with up [of "nd d p pi pc x Lf" t s] black_sibling_leaf [OF assms] assms(1) show ?thesis by (simp add: nd_inv)
next
  case (Nd b j bc l r)
  define near far where "near = kid d sib" and "far = kid (\<not> d) sib"
  have sib: "sib = nd d b j bc near far" unfolding near_def far_def Nd by (rule nd_kids)
  note r = assms [unfolded sib]
  have rb: "rem_black x d p pi pc sib = (if \<not> isred near \<and> \<not> isred far then Inl (nd d p pi pc x (nd d b j True near far))
      else if \<not> isred far then
        (case near of Nd r ri rc rl rr \<Rightarrow> Inr (nd d r ri pc (nd d p pi False x (kid d near)) (nd d b j False (kid (\<not> d) near) far)) | Lf \<Rightarrow> Inl Lf)
      else Inr (nd d b j pc (nd d p pi False x near) (paint False far)))"
    unfolding near_def far_def Nd rem_black.simps Let_def by (rule refl)
  have root: "rootp sib = Some b" by (simp add: sib)
  consider (black) "\<not> isred near" "\<not> isred far" | (far) "isred far" | (near) "isred near" "\<not> isred far" by blast
  then show ?thesis
  proof cases
    case black
    from black_sibling_red [OF r black] obtain s' where "black_sibling t s q (Some b) (\<not> d) index = Some (Some p, t, s')"
      "repr index t0 s0 A t s' (plug (nd d p pi pc x (nd d b j True near far)) ctx)" .
    with up [of "nd d p pi pc x (nd d b j True near far)" t s'] black root rb show ?thesis by (simp add: nd_inv)
  next
    case far
    from black_sibling_far [OF r far] obtain t' s' where "black_sibling t s q (Some b) (\<not> d) index = Some (tr_root t' index, t', s')"
      "repr index t0 s0 A t' s' (plug (nd d b j pc (nd d p pi False x near) (paint False far)) ctx)" .
    with repaired [of "nd d b j pc (nd d p pi False x near) (paint False far)" t' s'] far root rb show ?thesis by (simp add: nd_def)
  next
    case near
    then obtain e ri rl rr where n: "near = Nd e ri True rl rr" by (cases near) auto
    obtain y z where nyz: "near = nd d e ri True y z" "kid d near = y" "kid (\<not> d) near = z"
      using nd_kids [of e ri True rl rr d] n by blast
    from black_sibling_near [OF r [unfolded nyz(1)] near(2)] obtain t' s' where
      "black_sibling t s q (Some b) (\<not> d) index = Some (tr_root t' index, t', s')"
      "repr index t0 s0 A t' s' (plug (nd d e ri pc (nd d p pi False x y) (nd d b j False z far)) ctx)" .
    moreover have "rem_black x d p pi pc sib = Inr (nd d e ri pc (nd d p pi False x y) (nd d b j False z far))"
      using rb near nyz(2,3) n by simp
    ultimately show ?thesis using repaired [of "nd d e ri pc (nd d p pi False x y) (nd d b j False z far)" t' s'] root by (simp add: nd_def)
  qed
qed

section \<open>The loop\<close>

lemma balance_remove_stop:
  assumes "repr index t0 s0 A t s (plug x ctx)" "rootp x = Some a" "ctx = [] \<or> isred x"
  obtains s' where "TreeBalanceAfterRemove t s (Some a) index = Some (t, s')" "repr index t0 s0 A t s' (plug (paint False x) ctx)"
proof -
  have A: "A = set (addrs (plug x ctx))" using assms(1) by (simp add: repr_def)
  have c: "cursor s A ctx x (Some a)" by (rule cursor_node [OF assms(2)])
  have "balance_remove_loop t s (Some a) index = Some (Some a, t, s)"
    using assms(3) cursor_root [OF c [unfolded A] repr_holds [OF assms(1)]] cursor_black [OF c repr_holds [OF assms(1)]]
    by (subst balance_remove_loop.simps) auto
  moreover obtain s' where "set_red False (Some a) s = Some s'" "repr index t0 s0 A t s' (plug (paint False x) ctx)"
    by (rule repr_red [OF assms(1,2)])
  ultimately show ?thesis using that by (simp add: TreeBalanceAfterRemove_def)
qed

lemma balance_remove_root:
  assumes "repr index t0 s0 A t s T" "T \<noteq> Lf"
  obtains s' where "TreeBalanceAfterRemove t s (tr_root t index) index = Some (t, s')" "repr index t0 s0 A t s' (paint False T)"
proof -
  obtain a where a: "rootp T = Some a" using assms(2) by (cases T) auto
  then have "tr_root t index = Some a" using assms(1) by (simp add: repr_def holds_def)
  then show ?thesis using balance_remove_stop [of index t0 s0 A t s T "[]" a] assms(1) a that by auto
qed

text \<open>The direction in which the sibling is looked for is right, except that it does not matter for two leaves.\<close>

lemma balance_remove_step:
  assumes "repr index t0 s0 A t s (plug x ((d, p, pi, pc, sib) # ctx))" "cursor s A ((d, p, pi, pc, sib) # ctx) x q"
    "\<not> isred x" "proper x"
  shows "TreeBalanceAfterRemove t s q index =
    Option.bind (TreeBARSub t s q (if x = Lf \<and> sib = Lf then True else \<not> d) index)
      (\<lambda>(curnode, t, s). TreeBalanceAfterRemove t s curnode index)"
proof -
  note h = repr_holds [OF assms(1)]
  have A: "A = set (addrs (plug x ((d, p, pi, pc, sib) # ctx)))" using assms(1) by (simp add: repr_def)
  have hp: "holds index t s (plug (nd d p pi pc x sib) ctx)" using h by simp
  have q: "q \<noteq> tr_root t index" using cursor_root [OF assms(2) [unfolded A] h] by simp
  have b: "isBlack s q = Some True" using cursor_black [OF assms(2) h] assms(3) by simp
  have l: "child_of s (Some p) False = Some (if d then rootp sib else rootp x)" using at_child [OF hp, of False] by auto
  let ?W = "if x = Lf \<and> sib = Lf then True else \<not> d"
  have "balance_remove_loop t s q index = Option.bind (TreeBARSub t s q ?W index) (\<lambda>(c, t, s). balance_remove_loop t s c index)"
  proof (cases x)
    case Lf
    then obtain n where n: "get_node s q = Some n" "nd_parent n = Some p" "nd_content n = None"
      using assms(2) by (auto simp: cursor_def get_node_def)
    with q b l Lf show ?thesis by (subst balance_remove_loop.simps) (cases d; simp)
  next
    case (Nd a i c k r)
    then obtain n content where n: "q = Some a" "get_node s q = Some n" "nd_parent n = Some p" "nd_content n = Some content"
      using assms(2,4) h by (auto simp: cursor_def holds_plug get_node_def)
    have "rootp sib \<noteq> Some a" using distinct_roots [OF hp] Nd by auto
    with q b l n Nd show ?thesis by (subst balance_remove_loop.simps) (cases d; simp)
  qed
  then show ?thesis
    by (cases "TreeBARSub t s q ?W index") (auto simp: TreeBalanceAfterRemove_def)
qed

lemma BARSub_leaves:
  assumes "repr index t0 s0 A t s (plug Lf ((d, p, pi, pc, Lf) # ctx))" "cursor s A ((d, p, pi, pc, Lf) # ctx) Lf q"
  shows "TreeBARSub t s q which index = Some (Some p, t, s)"
proof -
  note h = repr_holds [OF assms(1)]
  have hp: "holds index t s (plug (nd d p pi pc Lf Lf) ctx)" using h by simp
  have "child_of s (Some p) which = Some None" using at_child [OF hp, of which] by simp
  then have "red_sibling t s q which index = Some (None, t, s)"
    using cursor_parent [OF assms(2) h] by (simp add: red_sibling_def isRed_def)
  then show ?thesis using black_sibling_leaf [OF assms] by (simp add: TreeBARSub_def)
qed

lemma balance_remove_red:
  assumes "repr index t0 s0 A t s (plug x ((d, p, pi, pc, sib) # ctx))" "cursor s A ((d, p, pi, pc, sib) # ctx) x q"
    "\<not> isred x" "proper x" "isred sib"
  shows "\<exists>t' s'. TreeBalanceAfterRemove t s q index = Some (t', s') \<and> repr index t0 s0 A t' s' (fix_rem x ((d, p, pi, pc, sib) # ctx))"
proof -
  obtain b j l r where n: "sib = Nd b j True l r" using assms(5) by (cases sib) auto
  obtain near far where k: "sib = nd d b j True near far" "kid d sib = near" "kid (\<not> d) sib = far"
    using nd_kids [of b j True l r d] n by blast
  have e: "TreeBalanceAfterRemove t s q index =
    Option.bind (TreeBARSub t s q (\<not> d) index) (\<lambda>(curnode, t, s). TreeBalanceAfterRemove t s curnode index)"
    using balance_remove_step [OF assms(1-4)] n by simp
  have fr: "fix_rem x ((d, p, pi, pc, sib) # ctx) = (case rem_black x d p pi True near of
      Inl f \<Rightarrow> plug (paint False f) ((d, b, j, False, far) # ctx) | Inr T \<Rightarrow> paint False (plug T ((d, b, j, False, far) # ctx)))"
    unfolding fix_rem_red [OF assms(3) n] k(2,3) by (rule refl)
  obtain t1 s1 where r1: "red_sibling t s q (\<not> d) index = Some (rootp near, t1, s1)"
    "repr index t0 s0 A t1 s1 (plug x ((d, p, pi, True, near) # (d, b, j, False, far) # ctx))"
    "cursor s1 A ((d, p, pi, True, near) # (d, b, j, False, far) # ctx) x q"
    by (rule red_sibling_yes [OF assms(1,2) k(1)])
  show ?thesis
  proof (rule black_sibling_step [OF r1(2,3)])
    fix f t' s'
    assume f: "rem_black x d p pi True near = Inl f" "black_sibling t1 s1 q (rootp near) (\<not> d) index = Some (Some p, t', s')"
      "repr index t0 s0 A t' s' (plug f ((d, b, j, False, far) # ctx))" "rootp f = Some p" "isred f = True"
    then obtain s2 where "TreeBalanceAfterRemove t' s' (Some p) index = Some (t', s2)"
      "repr index t0 s0 A t' s2 (plug (paint False f) ((d, b, j, False, far) # ctx))"
      using balance_remove_stop [OF f(3,4)] by auto
    then show ?thesis using e r1(1) f(1,2) by (simp add: fr TreeBARSub_def del: fix_rem.simps)
  next
    fix T t' s'
    assume T: "rem_black x d p pi True near = Inr T" "black_sibling t1 s1 q (rootp near) (\<not> d) index = Some (tr_root t' index, t', s')"
      "repr index t0 s0 A t' s' (plug T ((d, b, j, False, far) # ctx))" "T \<noteq> Lf"
    then obtain s2 where "TreeBalanceAfterRemove t' s' (tr_root t' index) index = Some (t', s2)"
      "repr index t0 s0 A t' s2 (paint False (plug T ((d, b, j, False, far) # ctx)))"
      using balance_remove_root [OF T(3)] by auto
    then show ?thesis using e r1(1) T(1,2) by (simp add: fr TreeBARSub_def del: fix_rem.simps)
  qed
qed

lemma balance_remove:
  "\<lbrakk>repr index t0 s0 A t s (plug x ctx); cursor s A ctx x q; proper (plug x ctx)\<rbrakk> \<Longrightarrow>
   \<exists>t' s'. TreeBalanceAfterRemove t s q index = Some (t', s') \<and> repr index t0 s0 A t' s' (fix_rem x ctx)"
proof (induction ctx arbitrary: x t s q)
  case Nil
  then obtain a where "rootp x = Some a" "q = Some a" by (cases x) (auto simp: cursor_def)
  moreover obtain s' where "TreeBalanceAfterRemove t s (Some a) index = Some (t, s')" "repr index t0 s0 A t s' (plug (paint False x) [])"
    by (rule balance_remove_stop [OF Nil(1) calculation(1)]) simp
  ultimately show ?case by auto
next
  case (Cons w ctx)
  obtain d p pi pc sib where w: "w = (d, p, pi, pc, sib)" by (cases w) auto
  note r = Cons.prems(1,2) [unfolded w]
  show ?case
  proof (cases "isred x")
    case True
    then obtain a where a: "rootp x = Some a" "q = Some a" using r(2) by (cases x) (auto simp: cursor_def)
    obtain s' where "TreeBalanceAfterRemove t s (Some a) index = Some (t, s')" "repr index t0 s0 A t s' (plug (paint False x) (w # ctx))"
      unfolding w by (rule balance_remove_stop [OF r(1) a(1)]) (use True in simp)
    with a True show ?thesis by (simp add: w)
  next
    case black: False
    have px: "proper x" by (rule proper_plug [OF Cons.prems(3)])
    show ?thesis
    proof (cases "isred sib")
      case True
      from balance_remove_red [OF r black px True] show ?thesis by (simp add: w)
    next
      case False
      note fr = fix_rem_black [OF black False, of d p pi pc ctx]
      note e = balance_remove_step [OF r black px]
      show ?thesis
      proof (cases "x = Lf \<and> sib = Lf")
        case True
        then have f: "repr index t0 s0 A t s (plug (nd d p pi pc Lf Lf) ctx)" using r(1) by simp
        have "cursor s A ctx (nd d p pi pc Lf Lf) (Some p)" by (rule cursor_node) simp
        from Cons.IH [OF f this] Cons.prems(3) True obtain t' s' where
          "TreeBalanceAfterRemove t s (Some p) index = Some (t', s')" "repr index t0 s0 A t' s' (fix_rem (nd d p pi pc Lf Lf) ctx)"
          by (auto simp: w)
        moreover have "fix_rem x ((d, p, pi, pc, sib) # ctx) = fix_rem (nd d p pi pc Lf Lf) ctx" unfolding fr using True by simp
        ultimately show ?thesis using e BARSub_leaves [of index t0 s0 A t s d p pi pc ctx q] r True by (auto simp: w simp del: fix_rem.simps)
      next
        case not_leaves: False
        have rs: "red_sibling t s q (\<not> d) index = Some (rootp sib, t, s)" by (rule red_sibling_no [OF r False])
        show ?thesis
        proof (rule black_sibling_step [OF r])
          fix f t' s'
          assume f: "rem_black x d p pi pc sib = Inl f" "black_sibling t s q (rootp sib) (\<not> d) index = Some (Some p, t', s')"
            "repr index t0 s0 A t' s' (plug f ctx)" "rootp f = Some p"
          have "items (plug f ctx) = items (plug x (w # ctx))" using items_rem_black(1) [OF f(1)] by (simp add: w items_plug items_nd)
          then have "proper (plug f ctx)" using proper_items Cons.prems(3) by blast
          from Cons.IH [OF f(3) cursor_node [OF f(4)] this] obtain t2 s2 where
            "TreeBalanceAfterRemove t' s' (Some p) index = Some (t2, s2)" "repr index t0 s0 A t2 s2 (fix_rem f ctx)" by blast
          then show ?thesis using e rs f(1,2) not_leaves by (auto simp: fr w TreeBARSub_def simp del: fix_rem.simps)
        next
          fix T t' s'
          assume T: "rem_black x d p pi pc sib = Inr T" "black_sibling t s q (rootp sib) (\<not> d) index = Some (tr_root t' index, t', s')"
            "repr index t0 s0 A t' s' (plug T ctx)" "T \<noteq> Lf"
          then obtain s2 where "TreeBalanceAfterRemove t' s' (tr_root t' index) index = Some (t', s2)"
            "repr index t0 s0 A t' s2 (paint False (plug T ctx))"
            using balance_remove_root [OF T(3)] by auto
          then show ?thesis using e rs T(1,2) not_leaves by (auto simp: fr w TreeBARSub_def simp del: fix_rem.simps)
        qed
      qed
    qed
  qed
qed

section \<open>Taking out a node\<close>

lemma minimum_loop_at:
  "\<lbrakk>holds index t s (plug T ctx); T \<noteq> Lf\<rbrakk> \<Longrightarrow> minimum_loop s (rootp T) = Some (rootp (fst (leftmost T ctx)))"
proof (induction T ctx rule: leftmost.induct)
  case (2 a i c l r ctx)
  have "child_of s (Some a) False = Some (rootp l)" using 2(2) by (simp add: holds_plug node_ops)
  with 2 show ?case by (subst minimum_loop.simps) simp
qed simp

lemma unlink_at:
  assumes "holds index t s (plug (Nd a i c l r) ctx)" "l = Lf \<or> r = Lf"
  defines "x \<equiv> (if l = Lf then r else l)"
  shows "\<exists>s'. unlink_node t s (Some a) index = Some (rootp x, set_root index (rootp (plug x ctx)) t, s') \<and>
     holds index (set_root index (rootp (plug x ctx)) t) s' (plug x ctx) \<and> same_outside (set (addrs (plug x ctx))) s s'"
proof -
  have h: "s a = Some \<lparr>nd_parent = topp ctx, nd_child = two (rootp l) (rootp r), nd_content = fst i, nd_size = snd i, nd_red = c\<rparr>"
    "tree_at s (Some a) x" "ctx_at s (Some a) ctx" "distinct (addrs x)" "distinct (caddrs ctx)" "set (addrs x) \<inter> set (caddrs ctx) = {}"
    "a \<notin> set (addrs x)" "a \<notin> set (caddrs ctx)" "tr_root t index = rootp (plug (Nd a i c l r) ctx)"
    using assms(1,2) by (auto simp: holds_plug x_def)
  show ?thesis
  proof (cases ctx)
    case Nil
    with h assms(2) show ?thesis unfolding x_def by (cases l; cases r) (auto simp: unlink_node_def node_ops holds_def Let_def)
  next
    case (Cons w ws)
    then obtain d p pi pc sib where w: "ctx = (d, p, pi, pc, sib) # ws" by (cases w) auto
    have e: "rootp (plug x ctx) = tr_root t index" using h(9) rootp_plug [of x ctx "Nd a i c l r"] Cons by auto
    then have t: "set_root index (rootp (plug x ctx)) t = t" by simp
    have "rootp sib \<noteq> Some a" using h(8) w rootp_in by auto
    then show ?thesis
      unfolding t using h e assms(2) unfolding x_def by (cases d; cases l; cases r) (auto simp: unlink_node_def node_ops holds_plug w Let_def)
  qed
qed

lemma holds_allocated: "\<lbrakk>holds index t s T; a \<in> set (addrs T)\<rbrakk> \<Longrightarrow> s a \<noteq> None"
proof -
  have "tree_at s p T \<Longrightarrow> a \<in> set (addrs T) \<Longrightarrow> s a \<noteq> None" for p by (induction T arbitrary: p) auto
  then show "\<lbrakk>holds index t s T; a \<in> set (addrs T)\<rbrakk> \<Longrightarrow> s a \<noteq> None" by (auto simp: holds_def)
qed

text \<open>A node on the way up gets other data.\<close>

lemma set_entry:
  assumes "holds index t s (plug x (w @ (d, a, i, c, sib) # ctx))"
  obtains s' where "set_node (\<lambda>n. n\<lparr>nd_content := fst j, nd_size := snd j\<rparr>) (Some a) s = Some s'"
    "holds index t s' (plug x (w @ (d, a, j, c, sib) # ctx))" "same_outside {a} s s'"
proof -
  let ?y = "plug x w"
  have h: "holds index t s (plug (nd d a i c ?y sib) ctx)" using assms by simp
  have e: "rootp (plug (nd d a j c ?y sib) ctx) = rootp (plug (nd d a i c ?y sib) ctx)"
    using rootp_plug [of "nd d a j c ?y sib" ctx "nd d a i c ?y sib"] by auto
  let ?s = "s(a \<mapsto> \<lparr>nd_parent = topp ctx, nd_child = (if d then two (rootp sib) (rootp ?y) else two (rootp ?y) (rootp sib)),
      nd_content = fst j, nd_size = snd j, nd_red = c\<rparr>)"
  have "set_node (\<lambda>n. n\<lparr>nd_content := fst j, nd_size := snd j\<rparr>) (Some a) s = Some ?s"
    using h by (cases d) (simp_all add: holds_plug set_node_def)
  moreover have "holds index t ?s (plug (nd d a j c ?y sib) ctx)" using h e by (auto simp: holds_plug)
  ultimately show ?thesis using that [of ?s] by simp
qed

lemma rebalance_at:
  assumes "holds index t s (plug x ctx)" "proper (plug x ctx)"
    "s m = Some \<lparr>nd_parent = topp ctx, nd_child = ch, nd_content = e, nd_size = z, nd_red = c\<rparr>" "m \<notin> set (addrs (plug x ctx))"
    "s temp = None" "temp \<notin> set (addrs (plug x ctx))"
  obtains s' where "rebalance t s (Some m) (rootp x) index temp = Some (set_root index (rootp (splice c x ctx)) t, s')"
    "holds index (set_root index (rootp (splice c x ctx)) t) s' (splice c x ctx)" "same_outside (set (addrs (plug x ctx))) s s'"
    "set (addrs (splice c x ctx)) = set (addrs (plug x ctx))"
proof -
  let ?A = "set (addrs (plug x ctx))"
  have t: "set_root index (rootp (plug x ctx)) t = t" using assms(1) by (metis holds_def set_root_simps(3))
  have m: "get_node s (Some m) = Some \<lparr>nd_parent = topp ctx, nd_child = ch, nd_content = e, nd_size = z, nd_red = c\<rparr>"
    using assms(3) by (simp add: get_node_def)
  consider (red) c | (leaf) "\<not> c" "x = Lf" "ctx = []" | (child) "\<not> c" "x \<noteq> Lf" | (temp) "\<not> c" "x = Lf" "ctx \<noteq> []" by blast
  then show ?thesis
  proof cases
    case red
    with assms(1) m t that [of s] show ?thesis by (simp add: rebalance_def splice_def)
  next
    case leaf
    with assms(1) m t that [of s] show ?thesis by (simp add: rebalance_def splice_def)
  next
    case child
    then obtain a where a: "rootp x = Some a" by (cases x) auto
    from balance_remove [OF repr_start [OF assms(1)] cursor_node [OF a] assms(2)] obtain t' s' where
      b: "TreeBalanceAfterRemove t s (Some a) index = Some (t', s')" "repr index t s ?A t' s' (fix_rem x ctx)" by blast
    have r: "holds index t' s' (fix_rem x ctx)" "set (addrs (fix_rem x ctx)) = ?A" "same_outside ?A s s'" "t' = set_root index (rootp (fix_rem x ctx)) t"
      using b(2) unfolding repr_def by blast+
    have "rebalance t s (Some m) (rootp x) index temp = Some (t', s')" using child a m b(1) by (simp add: rebalance_def)
    moreover have "splice c x ctx = fix_rem x ctx" using child by (simp add: splice_def)
    ultimately show ?thesis using that [of s'] r by simp
  next
    case temp
    let ?n = "\<lparr>nd_parent = topp ctx, nd_child = two None None, nd_content = None, nd_size = 0, nd_red = False\<rparr>"
    let ?s = "s(temp \<mapsto> ?n)"
    have h: "holds index t ?s (plug x ctx)" using assms(1,6) by (simp add: holds_def)
    have c: "cursor ?s ?A ctx x (Some temp)" using temp assms(6) by (simp add: cursor_def)
    from balance_remove [OF repr_start [OF h] c assms(2)] obtain t' s' where
      b: "TreeBalanceAfterRemove t ?s (Some temp) index = Some (t', s')" "repr index t ?s ?A t' s' (fix_rem x ctx)" by blast
    have r: "holds index t' s' (fix_rem x ctx)" "set (addrs (fix_rem x ctx)) = ?A" "same_outside ?A ?s s'" "t' = set_root index (rootp (fix_rem x ctx)) t"
      using b(2) unfolding repr_def by blast+
    have "holds index t' (s'(temp := None)) (fix_rem x ctx)" using r(1,2) assms(6) by (simp add: holds_def del: set_addrs_plug)
    moreover have "same_outside ?A s (s'(temp := None))" using r(3) assms(5) by (auto simp: same_outside_def)
    moreover have "rebalance t s (Some m) (rootp x) index temp = Some (t', s'(temp := None))" using temp b(1) m by (simp add: rebalance_def)
    moreover have "splice c x ctx = fix_rem x ctx" using temp by (simp add: splice_def)
    ultimately show ?thesis using that [of "s'(temp := None)"] r(2,4) by simp
  qed
qed

definition uncounted :: "nat \<Rightarrow> 64 word \<Rightarrow> 'm Tree \<Rightarrow> 'm Tree" where
  "uncounted index sz t = (if index = 0 then t\<lparr>tr_size := tr_size t - sz, tr_count := tr_count t - 1\<rparr> else t)"

text \<open>A node with at most one child.\<close>

lemma remove_single:
  assumes "holds index t s (plug (Nd a i c l r) ctx)" "proper (plug (Nd a i c l r) ctx)" "l = Lf \<or> r = Lf"
    "s temp = None"
  obtains s' where "TreeRemoveNodeIndex t s (Some a) index temp =
      Some (fst i, uncounted index (snd i) (set_root index (rootp (delete_at a i c l r ctx)) t), s')"
    "holds index (set_root index (rootp (delete_at a i c l r ctx)) t) s' (delete_at a i c l r ctx)"
    "same_outside (set (addrs (plug (Nd a i c l r) ctx))) s s'"
    "set (addrs (delete_at a i c l r ctx)) = set (addrs (plug (Nd a i c l r) ctx)) - {a}" "s' a = None"
proof -
  define x where "x = (if l = Lf then r else l)"
  have d: "delete_at a i c l r ctx = splice c x ctx" using assms(3) by (auto simp: delete_at_def x_def)
  have n: "get_node s (Some a) = Some \<lparr>nd_parent = topp ctx, nd_child = two (rootp l) (rootp r), nd_content = fst i, nd_size = snd i, nd_red = c\<rparr>"
    "\<not> (l \<noteq> Lf \<and> r \<noteq> Lf)" using search_node [OF assms(1)] assms(3) by auto
  have A: "set (addrs (plug x ctx)) = set (addrs (plug (Nd a i c l r) ctx)) - {a}" "a \<notin> set (addrs (plug x ctx))"
    using assms(1,3) by (auto simp: holds_plug x_def)
  have temp: "temp \<notin> set (addrs (plug (Nd a i c l r) ctx))" using assms(1,4) holds_allocated by fastforce
  obtain s1 where s1: "unlink_node t s (Some a) index = Some (rootp x, set_root index (rootp (plug x ctx)) t, s1)"
    "holds index (set_root index (rootp (plug x ctx)) t) s1 (plug x ctx)" "same_outside (set (addrs (plug x ctx))) s s1"
    using unlink_at [OF assms(1,3)] unfolding x_def by blast
  have p: "proper (plug x ctx)" using assms(2,3) by (auto simp: proper_def items_plug x_def split_beta ball_Un)
  have tx: "temp \<notin> set (addrs (plug x ctx))" using temp A(1) by blast
  have m: "s1 a = Some \<lparr>nd_parent = topp ctx, nd_child = two (rootp l) (rootp r), nd_content = fst i, nd_size = snd i, nd_red = c\<rparr>"
    using s1(3) n(1) A(2) unfolding same_outside_def get_node_def by simp
  have "s1 temp = None" using s1(3) tx assms(4) unfolding same_outside_def by simp
  note m = m this tx
  obtain s2 where s2: "rebalance (set_root index (rootp (plug x ctx)) t) s1 (Some a) (rootp x) index temp =
      Some (set_root index (rootp (splice c x ctx)) t, s2)"
    "holds index (set_root index (rootp (splice c x ctx)) t) s2 (splice c x ctx)" "same_outside (set (addrs (plug x ctx))) s1 s2"
    "set (addrs (splice c x ctx)) = set (addrs (plug x ctx))"
    using rebalance_at [OF s1(2) p m(1) A(2) m(2,3)] unfolding set_root_simps by blast
  have a2: "s2 a \<noteq> None" using s2(3) A(2) m(1) by (simp add: same_outside_def)
  then have f: "free_node (Some a) s2 = Some (s2(a := None))" by (auto simp: free_node_def)
  have "TreeRemoveNodeIndex t s (Some a) index temp =
      Some (fst i, uncounted index (snd i) (set_root index (rootp (splice c x ctx)) t), s2(a := None))"
    using n s1(1) s2(1) f by (auto simp: TreeRemoveNodeIndex_def uncounted_def)
  moreover have "holds index (set_root index (rootp (splice c x ctx)) t) (s2(a := None)) (splice c x ctx)"
    using s2(2,4) A(2) by (simp add: holds_def del: set_addrs_plug)
  moreover have "same_outside (set (addrs (plug (Nd a i c l r) ctx))) s (s2(a := None))"
    using s1(3) s2(3) A(1) by (auto simp: same_outside_def)
  ultimately show ?thesis using that [of "s2(a := None)"] s2(4) A(1) unfolding d by simp
qed

text \<open>A node with two children.\<close>

lemma leftmost_ctx: "fst (leftmost t ctx) = fst (leftmost t ctx')"
proof (induction t ctx arbitrary: ctx' rule: leftmost.induct)
  case (2 a i c l r ctx)
  show ?case using 2 [of "(False, a, i, c, r) # ctx'"] by (cases "l = Lf") simp_all
qed simp

lemma topp_entry: "topp (w @ (d, a, i, c, sib) # ctx) = topp (w @ (d, a, j, c, sib) # ctx)"
  by (cases w) auto

lemma caddrs_append [simp]: "caddrs (xs @ ys) = caddrs xs @ caddrs ys"
  by (induction xs rule: caddrs.induct) auto

lemma remove_double:
  assumes "holds index t s (plug (Nd a i c l r) ctx)" "proper (plug (Nd a i c l r) ctx)" "l \<noteq> Lf" "r \<noteq> Lf" "s temp = None"
  obtains m s' where "TreeRemoveNodeIndex t s (Some a) index temp =
      Some (fst i, uncounted index (snd i) (set_root index (rootp (delete_at a i c l r ctx)) t), s')"
    "holds index (set_root index (rootp (delete_at a i c l r ctx)) t) s' (delete_at a i c l r ctx)"
    "same_outside (set (addrs (plug (Nd a i c l r) ctx))) s s'" "m \<in> set (addrs (plug (Nd a i c l r) ctx))"
    "set (addrs (delete_at a i c l r ctx)) = set (addrs (plug (Nd a i c l r) ctx)) - {m}" "s' m = None"
proof -
  let ?T = "plug (Nd a i c l r) ctx"
  obtain m mi mc mr w where m: "leftmost r [] = (Nd m mi mc Lf mr, w)" "plug (Nd m mi mc Lf mr) w = r" "items r = (m, mi) # items mr @ after w"
    by (rule leftmostE [OF assms(4)])
  define ctx1 where "ctx1 = w @ (True, a, i, c, l) # ctx"
  define ctx2 where "ctx2 = w @ (True, a, mi, c, l) # ctx"
  have d: "delete_at a i c l r ctx = splice mc mr ctx2" using assms(3,4) m(1) by (simp add: delete_at_def ctx2_def)
  have T1: "?T = plug (Nd m mi mc Lf mr) ctx1" using m(2) by (simp add: ctx1_def)
  have h1: "holds index t s (plug (Nd m mi mc Lf mr) ctx1)" using assms(1) T1 by simp
  have nm: "get_node s (Some m) = Some \<lparr>nd_parent = topp ctx1, nd_child = two None (rootp mr), nd_content = fst mi, nd_size = snd mi, nd_red = mc\<rparr>"
    using search_node [OF h1] by simp
  have na: "get_node s (Some a) = Some \<lparr>nd_parent = topp ctx, nd_child = two (rootp l) (rootp r), nd_content = fst i, nd_size = snd i, nd_red = c\<rparr>"
    by (rule search_node [OF assms(1)])
  have am: "m \<noteq> a" using h1 by (auto simp: holds_plug ctx1_def)
  have hr: "holds index t s (plug r ((True, a, i, c, l) # ctx))" using assms(1) by simp
  have "fst (leftmost r ((True, a, i, c, l) # ctx)) = Nd m mi mc Lf mr" using m(1) leftmost_ctx [of r _ "[]"] by simp
  then have succ: "TreeSuccessor s (Some a) = Some (Some m)"
    using minimum_loop_at [OF hr assms(4)] na assms(4) by (simp add: TreeSuccessor_def TreeMinimum_def child_of_def)
  have A: "set (addrs (plug mr ctx1)) = set (addrs ?T) - {m}" "m \<notin> set (addrs (plug mr ctx1))"
    unfolding T1 using h1 by (auto simp: holds_plug)
  have A2: "set (addrs (plug mr ctx2)) = set (addrs (plug mr ctx1))" by (simp add: ctx1_def ctx2_def)
  have temp: "temp \<notin> set (addrs (plug mr ctx1))" "m \<in> set (addrs ?T)" "a \<in> set (addrs ?T)"
    using A(1) holds_allocated [OF assms(1)] assms(5) nm na by (fastforce, simp add: T1, simp)
  obtain s1 where s1: "unlink_node t s (Some m) index = Some (rootp mr, set_root index (rootp (plug mr ctx1)) t, s1)"
    "holds index (set_root index (rootp (plug mr ctx1)) t) s1 (plug mr ctx1)" "same_outside (set (addrs (plug mr ctx1))) s s1"
    using unlink_at [OF h1] by auto
  let ?t1 = "set_root index (rootp (plug mr ctx1)) t"
  have m1: "s1 m = s m" using s1(3) A(2) by (simp add: same_outside_def del: set_addrs_plug)
  obtain s2 where s2: "set_node (\<lambda>n. n\<lparr>nd_content := fst mi, nd_size := snd mi\<rparr>) (Some a) s1 = Some s2"
    "holds index ?t1 s2 (plug mr ctx2)" "same_outside {a} s1 s2"
    using set_entry [OF s1(2) [unfolded ctx1_def], of mi] unfolding ctx1_def ctx2_def by blast
  have m2: "s2 m = Some \<lparr>nd_parent = topp ctx2, nd_child = two None (rootp mr), nd_content = fst mi, nd_size = snd mi, nd_red = mc\<rparr>"
    using s2(3) am m1 nm topp_entry [of w True a i c l ctx mi] by (simp add: same_outside_def get_node_def ctx1_def ctx2_def)
  have "s1 temp = None" using s1(3) temp(1) assms(5) unfolding same_outside_def by simp
  moreover have "temp \<noteq> a" using assms(5) na by (auto simp: get_node_def)
  ultimately have t2: "s2 temp = None" using s2(3) by (simp add: same_outside_def)
  have p: "proper (plug mr ctx2)"
    using assms(2) m(3) unfolding T1 by (auto simp: proper_def items_plug ctx1_def ctx2_def split_beta ball_Un)
  obtain s3 where s3: "rebalance ?t1 s2 (Some m) (rootp mr) index temp = Some (set_root index (rootp (splice mc mr ctx2)) t, s3)"
    "holds index (set_root index (rootp (splice mc mr ctx2)) t) s3 (splice mc mr ctx2)" "same_outside (set (addrs (plug mr ctx2))) s2 s3"
    "set (addrs (splice mc mr ctx2)) = set (addrs (plug mr ctx2))"
    using rebalance_at [OF s2(2) p m2 A(2) [folded A2] t2 temp(1) [folded A2]] unfolding set_root_simps by blast
  have m3: "s3 m \<noteq> None" using s3(3) A(2) m2 unfolding A2 by (simp add: same_outside_def del: set_addrs_plug)
  then have f: "free_node (Some m) s3 = Some (s3(m := None))" by (auto simp: free_node_def)
  have r1: "get_node s1 (Some m) = get_node s (Some m)" using m1 by (simp add: get_node_def)
  have "TreeRemoveNodeIndex t s (Some a) index temp =
      Some (fst i, uncounted index (snd i) (set_root index (rootp (splice mc mr ctx2)) t), s3(m := None))"
    using na assms(3,4) succ am s1(1) r1 nm s2(1) s3(1) f by (auto simp: TreeRemoveNodeIndex_def uncounted_def)
  moreover have "holds index (set_root index (rootp (splice mc mr ctx2)) t) (s3(m := None)) (splice mc mr ctx2)"
    using s3(2,4) A(2) A2 by (simp add: holds_def del: set_addrs_plug)
  moreover have "same_outside (set (addrs ?T)) s (s3(m := None))"
    using s1(3) s2(3) s3(3) A(1) temp(2,3) unfolding A2 same_outside_def by (auto simp del: set_addrs_plug)
  ultimately show ?thesis using that [of "s3(m := None)" m] s3(4) A(1) A2 temp(2) unfolding d by (simp del: set_addrs_plug)
qed

lemma RemoveNode:
  assumes "holds index t s (plug (Nd a i c l r) ctx)" "proper (plug (Nd a i c l r) ctx)" "s temp = None"
  obtains m s' where "TreeRemoveNodeIndex t s (Some a) index temp =
      Some (fst i, uncounted index (snd i) (set_root index (rootp (delete_at a i c l r ctx)) t), s')"
    "holds index (set_root index (rootp (delete_at a i c l r ctx)) t) s' (delete_at a i c l r ctx)"
    "same_outside (set (addrs (plug (Nd a i c l r) ctx))) s s'" "m \<in> set (addrs (plug (Nd a i c l r) ctx))"
    "set (addrs (delete_at a i c l r ctx)) = set (addrs (plug (Nd a i c l r) ctx)) - {m}" "s' m = None"
proof (cases "l = Lf \<or> r = Lf")
  case True
  have "a \<in> set (addrs (plug (Nd a i c l r) ctx))" by simp
  with remove_single [OF assms(1,2) True assms(3)] that show ?thesis by metis
next
  case False
  with remove_double [OF assms(1,2) _ _ assms(3)] that show ?thesis by metis
qed

end
