(* ===== verification/TreeMap.thy ===== *)
theory TreeMap
  imports TreeRemoval
begin

text \<open>
  The trees of \<open>lib/Tree.c\<close> as finite maps from keys to contents. \<open>tree_order\<close> is what a comparison function owes;
  with it, adding, finding, removing and iterating are the operations of a map, and the balance is kept as long as no
  key is added that is there already.
\<close>

section \<open>The abstract map\<close>

definition entries :: "(ptr \<Rightarrow> 'k) \<Rightarrow> (addr \<times> entry) list \<Rightarrow> ('k \<times> entry) list" where
  "entries key xs = map (\<lambda>(a, c, sz). (key c, c, sz)) xs"

definition tree_map :: "(ptr \<Rightarrow> 'k) \<Rightarrow> atree \<Rightarrow> 'k \<Rightarrow> entry option" where
  "tree_map key T = map_of (entries key (items T))"

lemma entries_simps [simp]: "entries key [] = []" "entries key ((a, i) # xs) = (key (fst i), i) # entries key xs"
  "entries key (xs @ ys) = entries key xs @ entries key ys"
  by (cases i; simp add: entries_def)+

lemma entries_outside:
  "keys_below key k xs \<Longrightarrow> map_of (entries key xs) k = None" "keys_above key k xs \<Longrightarrow> map_of (entries key xs) k = None"
  by (fastforce simp: entries_def keys_below_def keys_above_def map_of_eq_None_iff)+

lemma map_of_found:
  assumes "keys_below key k xs" "keys_above key k ys" "key (fst i) = k"
  shows "map_of (entries key (xs @ (a, i) # ys)) k = Some i"
    "(map_of (entries key (xs @ (a, i) # ys)))(k \<mapsto> e) = map_of ((entries key xs) @ (k, e) # entries key ys)"
    "(map_of (entries key (xs @ (a, i) # ys)))(k := None) = map_of (entries key xs @ entries key ys)"
  using entries_outside [of key k] assms by (auto simp: map_add_def fun_eq_iff split: option.split)

lemma map_of_missing:
  assumes "keys_below key k xs" "keys_above key k ys"
  shows "map_of (entries key (xs @ ys)) k = None"
    "(map_of (entries key (xs @ ys)))(k \<mapsto> e) = map_of (entries key xs @ (k, e) # entries key ys)"
  using entries_outside [of key k] assms by (auto simp: map_add_def fun_eq_iff split: option.split)

lemma locate_items:
  "locate f T [] = (x, ctx) \<Longrightarrow> items T = before ctx @ items x @ after ctx"
  using locate_plug [of f T "[]"] items_plug [of x ctx] by simp

lemma key_sorted_append: "key_sorted key (xs @ ys) \<Longrightarrow> key_sorted key xs \<and> key_sorted key ys"
  by (auto simp: key_sorted_def sorted_wrt_append)

text \<open>
  What the search for \<open>k\<close> finds, and what adding and removing there make of the map and of the order.
\<close>

lemma located:
  assumes "searches f key k (items T)" "key_sorted key (items T)" "locate f T [] = (x, ctx)"
  shows "keys_below key k (before ctx)" "keys_above key k (after ctx)"
    "x = Lf \<Longrightarrow> tree_map key T k = None"
    "x = Nd a i c l r \<Longrightarrow> key (fst i) = k \<and> tree_map key T k = Some i"
    "x = Nd a i c l r \<Longrightarrow> keys_below key k (items l) \<and> keys_above key k (items r)"
proof -
  note l = locate_spec [of f key k T "[]"] assms
  show 1: "keys_below key k (before ctx)" "keys_above key k (after ctx)" using l by simp_all
  show "x = Lf \<Longrightarrow> tree_map key T k = None"
    using 1 locate_items [OF assms(3)] map_of_missing(1) [of key k "before ctx" "after ctx"] by (simp add: tree_map_def)
  assume x: "x = Nd a i c l r"
  have k: "key (fst i) = k" using l x by simp
  have "items T = (before ctx @ items l) @ (a, i) # (items r @ after ctx)" using locate_items [OF assms(3)] x by simp
  with assms(2) have 2: "keys_below key k (before ctx @ items l)" "keys_above key k (items r @ after ctx)"
    "tree_map key T = map_of (entries key ((before ctx @ items l) @ (a, i) # (items r @ after ctx)))"
    using k by (simp_all only: key_simps(5) tree_map_def)
  then show "key (fst i) = k \<and> tree_map key T k = Some i" using k map_of_found(1) [of key k "before ctx @ items l" "items r @ after ctx" i a] by simp
  show "keys_below key k (items l) \<and> keys_above key k (items r)" using 2 by simp
qed

lemma insert_at_map:
  fixes sz :: "64 word" and a :: addr
  assumes "searches f key k (items T)" "key_sorted key (items T)" "key c = k"
  defines "T' \<equiv> insert_at a (c, sz) (locate f T [])"
  shows "tree_map key T' = (tree_map key T)(k \<mapsto> (c, sz))" "key_sorted key (items T')"
proof -
  obtain x ctx where x: "locate f T [] = (x, ctx)" by fastforce
  note loc = located [OF assms(1,2) x] and it = locate_items [OF x]
  have "tree_map key T' = (tree_map key T)(k \<mapsto> (c, sz)) \<and> key_sorted key (items T')"
  proof (cases x)
    case Lf
    have "items T' = before ctx @ (a, c, sz) # after ctx" by (simp add: T'_def x insert_at_def Lf items_fix_add)
    then show ?thesis
      using assms(2,3) loc(1,2) it Lf map_of_missing(2) [OF loc(1,2), of "(c, sz)"] key_sorted_append [of key "before ctx" "after ctx"]
      by (simp add: tree_map_def)
  next
    case (Nd b i e l r)
    define xs ys where "xs = before ctx @ items l" and "ys = items r @ after ctx"
    have "items T' = xs @ (b, c, sz) # ys" by (simp add: T'_def x insert_at_def Nd items_fix_add xs_def ys_def)
    moreover have "items T = xs @ (b, i) # ys" using it Nd by (simp add: xs_def ys_def)
    moreover have "keys_below key k xs" "keys_above key k ys" "key (fst i) = k"
      using loc(1,2) loc(4,5) [OF Nd] by (simp_all add: xs_def ys_def)
    ultimately show ?thesis
      using assms(2,3) map_of_found(2) [where key = key and k = k and xs = xs and ys = ys and i = i and e = "(c, sz)" and a = b]
      unfolding tree_map_def by simp
  qed
  then show "tree_map key T' = (tree_map key T)(k \<mapsto> (c, sz))" "key_sorted key (items T')" by simp_all
qed

lemma entries_snd: "entries key xs = map (\<lambda>(c, sz). (key c, c, sz)) (map snd xs)" "key_sorted key xs \<longleftrightarrow> sorted_wrt (<) (map (\<lambda>(c, sz). key c) (map snd xs))"
proof -
  show "entries key xs = map (\<lambda>(c, sz). (key c, c, sz)) (map snd xs)" by (simp add: entries_def comp_def split_beta)
  have "map (\<lambda>(a, c, sz). key c) xs = map (\<lambda>(c, sz). key c) (map snd xs)" by (simp add: comp_def split_beta)
  then show "key_sorted key xs \<longleftrightarrow> sorted_wrt (<) (map (\<lambda>(c, sz). key c) (map snd xs))" unfolding key_sorted_def by (rule arg_cong)
qed

lemma delete_at_map:
  assumes "searches f key k (items T)" "key_sorted key (items T)" "locate f T [] = (Nd a i c l r, ctx)"
  shows "tree_map key (delete_at a i c l r ctx) = (tree_map key T)(k := None)" "key_sorted key (items (delete_at a i c l r ctx))"
proof -
  note loc = located [OF assms] and it = locate_items [OF assms(3)]
  let ?xs = "before ctx @ items l" and ?ys = "items r @ after ctx"
  have e: "map snd (items (delete_at a i c l r ctx)) = map snd (?xs @ ?ys)" using entries_delete_at [of a i c l r ctx] by simp
  have T: "items T = ?xs @ (a, i) # ?ys" using it by simp
  have b: "keys_below key k ?xs" "keys_above key k ?ys" "key (fst i) = k" using loc(1,2) loc(4,5) [OF refl] by simp_all
  have "entries key (items (delete_at a i c l r ctx)) = entries key (?xs @ ?ys)" unfolding entries_snd e by (rule refl)
  then show "tree_map key (delete_at a i c l r ctx) = (tree_map key T)(k := None)"
    using map_of_found(3) [OF b, of a] unfolding tree_map_def T by simp
  have "key_sorted key (?xs @ ?ys)" using assms(2) unfolding T by (auto simp: key_sorted_def sorted_wrt_append)
  then show "key_sorted key (items (delete_at a i c l r ctx))" unfolding entries_snd(2) e .
qed

section \<open>Balance\<close>

lemma balanced_insert_at:
  assumes "balanced T" "locate f T [] = (Lf, ctx)"
  shows "balanced (insert_at a e (locate f T []))"
proof -
  have "plug Lf ctx = T" using locate_plug [of f T "[]"] assms(2) by simp
  with assms(1) have "fits ctx 0" by (metis balanced_plug bh.simps(1))
  then show ?thesis using balanced_fix_add [of "Nd a e True Lf Lf" ctx] by (simp add: insert_at_def assms(2))
qed

lemma balanced_delete:
  assumes "balanced T" "locate f T [] = (Nd a i c l r, ctx)"
  shows "balanced (delete_at a i c l r ctx)"
proof (rule balanced_delete_at)
  show "balanced (plug (Nd a i c l r) ctx)" using locate_plug [of f T "[]"] assms by simp
qed

text \<open>\<open>TreeMaxDepth\<close> measures the depth.\<close>

lemma TreeWalk_at: "tree_at s p T \<Longrightarrow> TreeWalk s (rootp T) n = Some (n + int (depth T))"
proof (induction T arbitrary: p n)
  case Lf
  show ?case by (subst TreeWalk.simps) simp
next
  case (Nd a i c l r)
  then show ?case by (subst TreeWalk.simps) (auto simp: get_node_def)
qed

lemma TreeMaxDepth_at: "holds 0 t s T \<Longrightarrow> TreeMaxDepth t s = Some (int (depth T))"
  using TreeWalk_at [of s None T 0] by (simp add: holds_def TreeMaxDepth_def)

end
