(* ===== verification/TreeOrder.thy ===== *)
theory TreeOrder
  imports TreeMap
begin

text \<open>
  The contract between \<open>lib/Tree.c\<close> and its callers: what a comparison function owes (\<open>tree_order\<close>) and what the
  operations then do, for a tree with one index that is alone in its store.
\<close>

section \<open>The contract\<close>

definition total_size :: "atree \<Rightarrow> 64 word" where
  "total_size T = sum_list (map (\<lambda>(a, c, sz). sz) (items T))"

text \<open>
  \<open>ckey\<close> gives the keys of contents. The store has the nodes of the tree and no others, the contents are not null and
  in the order of their keys, the counters are right.
\<close>

definition tree_rep :: "(ptr \<Rightarrow> 'k::linorder option) \<Rightarrow> 'm comparison \<Rightarrow> 'm Tree \<Rightarrow> nodes \<Rightarrow> atree \<Rightarrow> bool" where
  "tree_rep ckey compare t s T \<longleftrightarrow>
     holds 0 t s T \<and> dom s = set (addrs T) \<and> proper T \<and> (\<forall>(a, c, sz)\<in>set (items T). ckey c \<noteq> None) \<and>
     key_sorted (\<lambda>c. the (ckey c)) (items T) \<and> tr_compare t 0 = compare \<and> tr_indexes t = 1 \<and> \<not> tr_allow_duplicates t \<and>
     tr_count t = int (length (items T)) \<and> tr_size t = total_size T"

definition key_map :: "(ptr \<Rightarrow> 'k option) \<Rightarrow> atree \<Rightarrow> 'k \<Rightarrow> entry option" where
  "key_map ckey T = tree_map (\<lambda>c. the (ckey c)) T"

definition content_of :: "entry option \<Rightarrow> ptr" where
  "content_of e = (case e of None \<Rightarrow> None | Some i \<Rightarrow> fst i)"

definition found_content :: "nodes \<Rightarrow> ptr \<Rightarrow> ptr option" where
  "found_content s p = (if p = None then Some None else map_option nd_content (get_node s p))"

lemma tree_rep_empty: "tree_rep ckey compare (TreeInitializeNoMalloc compare) Map.empty Lf"
  by (simp add: tree_rep_def TreeInitializeNoMalloc_def holds_def total_size_def)

lemma key_map_Lf [simp]: "key_map ckey Lf = Map.empty"
  by (simp add: key_map_def tree_map_def)

text \<open>The map has the contents at their keys; memory that has the same keys there is as good.\<close>

lemma key_map_items:
  assumes "tree_rep ckey compare t s T"
  shows "key_map ckey T k = Some (c, sz) \<longleftrightarrow> (\<exists>a. (a, c, sz) \<in> set (items T)) \<and> ckey c = Some k"
proof -
  let ?key = "\<lambda>c. the (ckey c)" and ?es = "entries (\<lambda>c. the (ckey c)) (items T)"
  have R: "key_sorted ?key (items T)" "\<forall>(a, c, sz)\<in>set (items T). ckey c \<noteq> None" using assms by (simp_all add: tree_rep_def)
  have "map fst ?es = map (\<lambda>(a, c, sz). ?key c) (items T)" by (simp add: entries_def comp_def split_beta)
  with R(1) have "distinct (map fst ?es)" unfolding key_sorted_def by (metis strict_sorted_iff)
  then have "key_map ckey T k = Some (c, sz) \<longleftrightarrow> (k, c, sz) \<in> set ?es" by (simp add: key_map_def tree_map_def)
  also have "\<dots> \<longleftrightarrow> (\<exists>a. (a, c, sz) \<in> set (items T)) \<and> ckey c = Some k" using R(2) by (force simp: entries_def)
  finally show ?thesis .
qed

lemma rep_memory:
  assumes "tree_rep ckey compare t s T" "\<And>k c sz. key_map ckey T k = Some (c, sz) \<Longrightarrow> ckey' c = ckey c"
  shows "tree_rep ckey' compare t s T" "key_map ckey' T = key_map ckey T"
proof -
  have R: "\<forall>(a, c, sz)\<in>set (items T). ckey c \<noteq> None" using assms(1) by (simp add: tree_rep_def)
  have same: "\<forall>(a, c, sz)\<in>set (items T). ckey' c = ckey c"
    using assms(2) key_map_items [OF assms(1)] R by fastforce
  have "map (\<lambda>(a, c, sz). the (ckey' c)) (items T) = map (\<lambda>(a, c, sz). the (ckey c)) (items T)" using same by auto
  then have ks: "key_sorted (\<lambda>c. the (ckey' c)) (items T) = key_sorted (\<lambda>c. the (ckey c)) (items T)"
    by (simp only: key_sorted_def)
  have "entries (\<lambda>c. the (ckey' c)) (items T) = entries (\<lambda>c. the (ckey c)) (items T)"
    using same by (auto simp: entries_def)
  then show "key_map ckey' T = key_map ckey T" by (simp add: key_map_def tree_map_def)
  show "tree_rep ckey' compare t s T" using assms(1) same ks by (auto simp: tree_rep_def split_beta)
qed

locale tree_order =
  fixes compare :: "'m comparison"
    and content_key :: "'m \<Rightarrow> ptr \<Rightarrow> 'k::linorder option"
    and search_key :: "'m \<Rightarrow> ptr \<Rightarrow> 'k option"
  assumes compare_contents: "\<lbrakk>content_key mem c = Some x; content_key mem d = Some y\<rbrakk> \<Longrightarrow>
      \<exists>r. compare mem c d True = Some r \<and> (r > 0 \<longleftrightarrow> x < y) \<and> (r = 0 \<longleftrightarrow> x = y)"
    and compare_key: "\<lbrakk>content_key mem c = Some x; search_key mem p = Some y\<rbrakk> \<Longrightarrow>
      \<exists>r. compare mem c p False = Some r \<and> (r > 0 \<longleftrightarrow> x < y) \<and> (r = 0 \<longleftrightarrow> x = y)"
begin

abbreviation rep :: "'m \<Rightarrow> 'm Tree \<Rightarrow> nodes \<Rightarrow> atree \<Rightarrow> bool" where
  "rep mem \<equiv> tree_rep (content_key mem) compare"

lemma searching:
  assumes "rep mem t s T"
    "value \<and> content_key mem p = Some k \<or> \<not> value \<and> search_key mem p = Some k"
  shows "\<exists>f. compares (\<lambda>c. compare mem c p value) f T \<and> searches f (\<lambda>c. the (content_key mem c)) k (items T)"
proof -
  let ?f = "\<lambda>c. the (compare mem c p value)"
  have "compare mem c p value = Some (?f c) \<and> (?f c > 0 \<longleftrightarrow> the (content_key mem c) < k) \<and> (?f c = 0 \<longleftrightarrow> the (content_key mem c) = k)"
    if "(a, c, sz) \<in> set (items T)" for a c sz
  proof -
    have "content_key mem c \<noteq> None" using assms(1) that unfolding tree_rep_def by blast
    then obtain x where x: "content_key mem c = Some x" by blast
    show ?thesis using compare_contents [OF x, of p k] compare_key [OF x, of p k] assms(2) x by (cases "value") auto
  qed
  then show ?thesis by (intro exI [of _ ?f]) (auto simp: compares_def searches_def)
qed

lemma find_step:
  assumes "rep mem t s T" "value \<and> content_key mem p = Some k \<or> \<not> value \<and> search_key mem p = Some k"
  obtains f where "TreeFindIndex1 mem t s p 0 value = Some (rootp (fst (locate f T [])))"
    "searches f (\<lambda>c. the (content_key mem c)) k (items T)"
proof -
  from searching [OF assms] obtain f where f: "compares (\<lambda>c. compare mem c p value) f T" "searches f (\<lambda>c. the (content_key mem c)) k (items T)" by blast
  have h: "holds 0 t s (plug T [])" "tr_root t 0 = rootp T" "tr_compare t 0 = compare" using assms(1) by (simp_all add: tree_rep_def holds_def)
  from find_node [OF h(1) f(1)] h(2,3) that f(2) show ?thesis by (simp add: TreeFindIndex1_def)
qed

lemma find:
  assumes "rep mem t s T" "search_key mem p = Some k"
  shows "\<exists>node. TreeFind mem t s p = Some node \<and> found_content s node = Some (content_of (key_map (content_key mem) T k)) \<and>
    (node = None \<longleftrightarrow> key_map (content_key mem) T k = None)"
proof -
  from find_step [OF assms(1), of False p k] assms(2) obtain f where f:
    "TreeFindIndex1 mem t s p 0 False = Some (rootp (fst (locate f T [])))" "searches f (\<lambda>c. the (content_key mem c)) k (items T)" by auto
  obtain x ctx where x: "locate f T [] = (x, ctx)" by fastforce
  have srt: "key_sorted (\<lambda>c. the (content_key mem c)) (items T)" using assms(1) by (simp add: tree_rep_def)
  note loc = located [OF f(2) srt x]
  have T: "plug x ctx = T" using locate_plug [of f T "[]"] x by simp
  show ?thesis
  proof (cases x)
    case Lf
    then show ?thesis using f(1) loc(3) x by (auto simp: TreeFind_def TreeFindIndex_def found_content_def content_of_def key_map_def)
  next
    case (Nd a i c l r)
    have "holds 0 t s (plug (Nd a i c l r) ctx)" using assms(1) T Nd by (simp add: tree_rep_def)
    from search_node [OF this] show ?thesis
      using f(1) loc(4) [OF Nd] x Nd by (simp add: TreeFind_def TreeFindIndex_def found_content_def content_of_def key_map_def)
  qed
qed

lemma add:
  assumes "rep mem t s T" "content_key mem c = Some k" "c \<noteq> None" "s a = None"
  shows "\<exists>t' s' T'. TreeAdd mem t s c sz (\<lambda>_. Some a) = Some (content_of (key_map (content_key mem) T k), t', s') \<and> rep mem t' s' T' \<and>
    key_map (content_key mem) T' = (key_map (content_key mem) T)(k \<mapsto> (c, sz)) \<and>
    (balanced T \<and> key_map (content_key mem) T k = None \<longrightarrow> balanced T') \<and>
    set (addrs T') = (if key_map (content_key mem) T k = None then insert a (set (addrs T)) else set (addrs T))"
proof -
  let ?key = "\<lambda>c. the (content_key mem c)"
  note R = assms(1) [unfolded tree_rep_def]
  from searching [OF assms(1), of True c k] assms(2) obtain f where f:
    "compares (\<lambda>d. compare mem d c True) f T" "searches f ?key k (items T)" by auto
  obtain x ctx where x: "locate f T [] = (x, ctx)" by fastforce
  have srt: "key_sorted ?key (items T)" using R by blast
  note loc = located [OF f(2) srt x] and it = locate_items [OF x]
  define T' where "T' = insert_at a (c, sz) (locate f T [])"
  have k: "?key c = k" using assms(2) by simp
  have M: "tree_map ?key T' = (tree_map ?key T)(k \<mapsto> (c, sz))" "key_sorted ?key (items T')"
    unfolding T'_def using insert_at_map [where f = f and key = ?key and k = k and T = T and c = c and a = a and sz = sz, OF f(2) srt k] by simp_all
  have "compares (\<lambda>d. tr_compare t 0 mem d c True) f T" using f(1) R by simp
  moreover have "a \<notin> set (addrs T)" using R assms(4) by (metis domIff)
  ultimately obtain s' where s': "TreeAddByIndex mem t s c sz 0 (Some a) =
      Some (old_content (locate f T []), counted 0 sz (locate f T []) (set_root 0 (rootp T') t), s')"
    "holds 0 (set_root 0 (rootp T') t) s' T'" "same_outside (set (addrs T')) s s'"
    "set (addrs T') = (if fst (locate f T []) = Lf then insert a (set (addrs T)) else set (addrs T))"
    unfolding T'_def using AddByIndex [of 0 t s T mem c f a sz] R assms(4) by blast
  let ?t = "counted 0 sz (locate f T []) (set_root 0 (rootp T') t)"
  have old: "old_content (locate f T []) = content_of (tree_map ?key T k)" and new: "x = Lf \<longleftrightarrow> tree_map ?key T k = None"
    using loc(3,4) x by (cases x; simp add: old_content_def content_of_def)+
  have cnt: "tr_count ?t = int (length (items T')) \<and> tr_size ?t = total_size T'"
    using R it by (cases x) (simp_all add: x counted_def set_root_def T'_def insert_at_def items_fix_add total_size_def split_beta)
  have dm: "dom s' = set (addrs T')"
  proof
    show "dom s' \<subseteq> set (addrs T')" using s'(3,4) R by (fastforce simp: same_outside_def split: if_splits)
    show "set (addrs T') \<subseteq> dom s'" using holds_allocated [OF s'(2)] by blast
  qed
  have it': "set (items T') \<subseteq> (if x = Lf then set (items T) \<union> {(a, c, sz)} else set (items T) \<union> {(b, c, sz) | b. True})"
    using it by (cases x) (auto simp: T'_def insert_at_def x items_fix_add)
  have pr: "proper T' \<and> (\<forall>(a, c, sz)\<in>set (items T'). content_key mem c \<noteq> None)"
  proof -
    have "\<forall>x\<in>set (items T). fst (snd x) \<noteq> None \<and> content_key mem (fst (snd x)) \<noteq> None"
      using R by (simp add: proper_def split_beta)
    moreover have "x \<in> set (items T) \<or> snd x = (c, sz)" if "x \<in> set (items T')" for x using it' that by (auto split: if_splits)
    ultimately have "\<forall>x\<in>set (items T'). fst (snd x) \<noteq> None \<and> content_key mem (fst (snd x)) \<noteq> None"
      using assms(2,3) by fastforce
    then show ?thesis by (simp add: proper_def split_beta)
  qed
  have hl: "holds 0 ?t s' T'" using s'(2) by simp
  have "tr_compare ?t = tr_compare t" "tr_indexes ?t = tr_indexes t" "tr_allow_duplicates ?t = tr_allow_duplicates t"
    by (simp_all add: counted_def set_root_def split_beta split: atree.split)
  with hl dm pr M(2) cnt R have "rep mem ?t s' T'" unfolding tree_rep_def by presburger
  moreover have "TreeAdd mem t s c sz (\<lambda>_. Some a) = Some (content_of (tree_map ?key T k), ?t, s')"
    using s'(1) R old by (simp add: TreeAdd_def)
  moreover have "balanced T \<and> tree_map ?key T k = None \<longrightarrow> balanced T'"
    using balanced_insert_at [of T f ctx a "(c, sz)"] new x unfolding T'_def by auto
  moreover have "set (addrs T') = (if tree_map ?key T k = None then insert a (set (addrs T)) else set (addrs T))"
    using s'(4) new x by simp
  ultimately show ?thesis using M(1) unfolding key_map_def by blast
qed

lemma missing:
  assumes "rep mem t s T" "value \<and> content_key mem p = Some k \<or> \<not> value \<and> search_key mem p = Some k"
    "key_map (content_key mem) T k = None"
  shows "TreeFindIndex1 mem t s p 0 value = Some None"
proof -
  from find_step [OF assms(1,2)] obtain f where f:
    "TreeFindIndex1 mem t s p 0 value = Some (rootp (fst (locate f T [])))" "searches f (\<lambda>c. the (content_key mem c)) k (items T)" .
  obtain x ctx where x: "locate f T [] = (x, ctx)" by fastforce
  have "key_sorted (\<lambda>c. the (content_key mem c)) (items T)" using assms(1) by (simp add: tree_rep_def)
  note loc = located [OF f(2) this x]
  have "x = Lf" using loc(4) assms(3) by (cases x) (auto simp: key_map_def)
  then show ?thesis using f(1) x by simp
qed

lemma removing:
  assumes "rep mem t s T" "value \<and> content_key mem p = Some k \<or> \<not> value \<and> search_key mem p = Some k"
    "key_map (content_key mem) T k = Some (c, sz)" "s temp = None"
  shows "\<exists>a t' s' T'. TreeFindIndex1 mem t s p 0 value = Some (Some a) \<and> found_content s (Some a) = Some c \<and>
    TreeRemoveNodeIndex t s (Some a) 0 temp = Some (c, t', s') \<and> rep mem t' s' T' \<and>
    key_map (content_key mem) T' = (key_map (content_key mem) T)(k := None) \<and> (balanced T \<longrightarrow> balanced T') \<and>
    set (addrs T') \<subseteq> set (addrs T)"
proof -
  let ?key = "\<lambda>c. the (content_key mem c)"
  note R = assms(1) [unfolded tree_rep_def]
  from find_step [OF assms(1,2)] obtain f where f:
    "TreeFindIndex1 mem t s p 0 value = Some (rootp (fst (locate f T [])))" "searches f ?key k (items T)" .
  obtain x ctx where x: "locate f T [] = (x, ctx)" by fastforce
  have srt: "key_sorted ?key (items T)" using R by blast
  note loc = located [OF f(2) srt x] and it = locate_items [OF x]
  have "x \<noteq> Lf" using loc(3) assms(3) by (auto simp: key_map_def)
  then obtain a i b l r where X: "x = Nd a i b l r" by (cases x) auto
  have i: "i = (c, sz)" using loc(4) [OF X] assms(3) by (simp add: key_map_def)
  have T: "plug (Nd a i b l r) ctx = T" using locate_plug [of f T "[]"] x X by simp
  define T' where "T' = delete_at a i b l r ctx"
  have hp: "holds 0 t s (plug (Nd a i b l r) ctx)" "proper (plug (Nd a i b l r) ctx)" using R T by simp_all
  from RemoveNode [OF hp assms(4)] obtain m s' where m:
    "TreeRemoveNodeIndex t s (Some a) 0 temp = Some (fst i, uncounted 0 (snd i) (set_root 0 (rootp T') t), s')"
    "holds 0 (set_root 0 (rootp T') t) s' T'" "same_outside (set (addrs T)) s s'" "m \<in> set (addrs T)"
    "set (addrs T') = set (addrs T) - {m}" "s' m = None" unfolding T'_def T by metis
  let ?t = "uncounted 0 (snd i) (set_root 0 (rootp T') t)"
  have e: "map snd (items T') = map snd (before ctx @ items l) @ map snd (items r @ after ctx)"
    unfolding T'_def using entries_delete_at [of a i b l r ctx] by simp
  have iT: "items T = (before ctx @ items l) @ (a, i) # items r @ after ctx" using it X by simp
  have len: "length (items T') + 1 = length (items T)" using arg_cong [OF e, of length] iT by simp
  have sub: "set (map snd (items T')) \<subseteq> set (map snd (items T))" unfolding e iT by auto
  have tot: "total_size U = sum_list (map snd (map snd (items U)))" for U by (simp add: total_size_def comp_def split_def)
  have cnt: "tr_count ?t = int (length (items T')) \<and> tr_size ?t = total_size T'"
    using R len unfolding tot e iT by (simp add: uncounted_def set_root_def tot)
  have dm: "dom s' = set (addrs T')"
  proof
    have "z \<in> set (addrs T')" if "s' z \<noteq> None" for z
      using that m(3,5,6) R unfolding same_outside_def by (metis DiffI domI domIff empty_iff insert_iff not_None_eq)
    then show "dom s' \<subseteq> set (addrs T')" by blast
    show "set (addrs T') \<subseteq> dom s'" using holds_allocated [OF m(2)] by blast
  qed
  have "\<forall>e\<in>set (map snd (items T)). fst e \<noteq> None \<and> content_key mem (fst e) \<noteq> None"
    using R by (simp add: proper_def split_beta)
  then have "\<forall>e\<in>set (map snd (items T')). fst e \<noteq> None \<and> content_key mem (fst e) \<noteq> None" using sub by blast
  then have pr: "proper T' \<and> (\<forall>(a, c, sz)\<in>set (items T'). content_key mem c \<noteq> None)"
    by (simp add: proper_def split_beta)
  have M: "tree_map ?key T' = (tree_map ?key T)(k := None)" "key_sorted ?key (items T')"
    unfolding T'_def by (rule delete_at_map [OF f(2) srt x [unfolded X]])+
  have hl: "holds 0 ?t s' T'" using m(2) by (simp add: holds_def uncounted_def)
  have "tr_compare ?t = tr_compare t" "tr_indexes ?t = tr_indexes t" "tr_allow_duplicates ?t = tr_allow_duplicates t"
    by (simp_all add: uncounted_def set_root_def)
  with hl dm pr M(2) cnt R have "rep mem ?t s' T'" unfolding tree_rep_def by presburger
  moreover have "found_content s (Some a) = Some c" using search_node [OF hp(1)] i by (simp add: found_content_def)
  moreover have "balanced T \<longrightarrow> balanced T'" unfolding T'_def using balanced_delete [OF _ x [unfolded X]] by blast
  ultimately show ?thesis using f(1) x X m(1,5) i M(1) unfolding key_map_def by (metis Diff_subset fst_conv rootp.simps(2))
qed

lemma remove:
  assumes "rep mem t s T" "content_key mem c = Some k" "s temp = None"
  shows "\<exists>t' s' T'. TreeRemove mem t s c temp = Some (content_of (key_map (content_key mem) T k), t', s') \<and> rep mem t' s' T' \<and>
    key_map (content_key mem) T' = (key_map (content_key mem) T)(k := None) \<and> (balanced T \<longrightarrow> balanced T') \<and>
    set (addrs T') \<subseteq> set (addrs T)"
proof -
  have one: "TreeRemove mem t s c temp = TreeRemoveIndex mem t s c 0 temp"
    using assms(1) by (auto simp: TreeRemove_def tree_rep_def split: bind_split)
  have v: "True \<and> content_key mem c = Some k \<or> \<not> True \<and> search_key mem c = Some k" using assms(2) by simp
  show ?thesis
  proof (cases "key_map (content_key mem) T k")
    case None
    with missing [OF assms(1) v] assms(1) show ?thesis
      by (intro exI [of _ t] exI [of _ s] exI [of _ T]) (auto simp: one TreeRemoveIndex_def TreeFindContentIndex_def content_of_def)
  next
    case (Some e)
    obtain d sz where "e = (d, sz)" by (cases e)
    with removing [OF assms(1) v _ assms(3)] Some show ?thesis
      by (fastforce simp: one TreeRemoveIndex_def TreeFindContentIndex_def content_of_def)
  qed
qed

lemma remove_key:
  assumes "rep mem t s T" "search_key mem p = Some k" "s temp = None"
  shows "\<exists>t' s' T'. TreeRemoveKey mem t s p temp = Some (content_of (key_map (content_key mem) T k), t', s') \<and> rep mem t' s' T' \<and>
    key_map (content_key mem) T' = (key_map (content_key mem) T)(k := None) \<and> (balanced T \<longrightarrow> balanced T') \<and>
    set (addrs T') \<subseteq> set (addrs T)"
proof -
  have others: "filter (\<lambda>i. i \<noteq> 0) [0..<tr_indexes t] = []" if "tr_indexes t = 1" using that by simp
  have v: "False \<and> content_key mem p = Some k \<or> \<not> False \<and> search_key mem p = Some k" using assms(2) by simp
  have rp: "tr_indexes t = 1" if "rep mem t s T" for t s T using that by (simp add: tree_rep_def)
  show ?thesis
  proof (cases "key_map (content_key mem) T k")
    case None
    with missing [OF assms(1) v] assms(1) show ?thesis
      by (intro exI [of _ t] exI [of _ s] exI [of _ T]) (auto simp: TreeRemoveKey_def TreeRemoveKeyIndex_def TreeFindIndex_def content_of_def)
  next
    case (Some e)
    obtain d sz where "e = (d, sz)" by (cases e)
    with removing [OF assms(1) v _ assms(3)] Some others rp show ?thesis
      by (fastforce simp: TreeRemoveKey_def TreeRemoveKeyIndex_def TreeFindIndex_def content_of_def)
  qed
qed

end

end
