(* ===== verification/TreeSequence.thy ===== *)
theory TreeSequence
  imports TreeMap
begin

text \<open>
  Going through a tree with \<open>TreeNextElement\<close> meets its items once each, from left to right. \<open>elements_from\<close> is the
  loop in which the callers do it (\<open>HeapScan\<close>, \<open>HeapDump\<close> of \<open>lib/Heap.c\<close>).
\<close>

section \<open>Positions\<close>

definition first_of :: "(addr \<times> entry) list \<Rightarrow> ptr" where
  "first_of xs = (case xs of [] \<Rightarrow> None | (a, i) # _ \<Rightarrow> Some a)"

lemma first_of_simps [simp]: "first_of [] = None" "first_of ((a, i) # xs) = Some a"
  by (simp_all add: first_of_def)

lemma position:
  "items T = xs @ (a, i) # ys \<Longrightarrow>
   \<exists>c l r ctx. T = plug (Nd a i c l r) ctx \<and> xs = before ctx @ items l \<and> ys = items r @ after ctx"
proof (induction T arbitrary: xs ys)
  case Lf
  then show ?case by simp
next
  case (Nd b j c l r)
  consider us where "items l = xs @ (a, i) # us" "ys = us @ (b, j) # items r"
    | "xs = items l" "(a, i) = (b, j)" "ys = items r"
    | us where "items r = us @ (a, i) # ys" "xs = items l @ (b, j) # us"
    using Nd.prems by (force simp: append_eq_append_conv2 append_eq_Cons_conv Cons_eq_append_conv)
  then show ?case
  proof cases
    case 1
    from Nd.IH(1) [OF 1(1)] obtain c' l' r' ctx where
      "l = plug (Nd a i c' l' r') ctx \<and> xs = before ctx @ items l' \<and> us = items r' @ after ctx" by blast
    with 1(2) show ?thesis
      by (intro exI [of _ c'] exI [of _ l'] exI [of _ r'] exI [of _ "ctx @ [(False, b, j, c, r)]"]) simp
  next
    case 2
    then show ?thesis by (intro exI [of _ c] exI [of _ l] exI [of _ r] exI [of _ "[]"]) simp
  next
    case 3
    from Nd.IH(2) [OF 3(1)] obtain c' l' r' ctx where
      "r = plug (Nd a i c' l' r') ctx \<and> us = before ctx @ items l' \<and> ys = items r' @ after ctx" by blast
    with 3(2) show ?thesis
      by (intro exI [of _ c'] exI [of _ l'] exI [of _ r'] exI [of _ "ctx @ [(True, b, j, c, l)]"]) simp
  qed
qed

lemma climb_at:
  "\<lbrakk>holds index t s (plug T ctx); T \<noteq> Lf\<rbrakk> \<Longrightarrow> climb_loop s (rootp T) (topp ctx) = Some (first_of (after ctx))"
proof (induction T ctx rule: plug.induct)
  case (1 T)
  show ?case by (subst climb_loop.simps) simp
next
  case (2 T d a i c sib ctx)
  have h: "holds index t s (plug (nd d a i c T sib) ctx)" using 2(2) by simp
  have r: "child_of s (Some a) True = Some (if d then rootp T else rootp sib)" using at_child [OF h, of True] by (cases d) simp_all
  have "rootp T \<noteq> rootp sib" using distinct_roots [OF h] 2(3) by simp
  moreover have "parent_of s (Some a) = Some (topp ctx)" using at_parent [OF h, of a] by simp
  moreover have "climb_loop s (Some a) (topp ctx) = Some (first_of (after ctx))" using 2(1) [OF h] by simp
  ultimately show ?case using r by (subst climb_loop.simps) simp
qed

lemma minimum_first:
  assumes "holds index t s (plug T ctx)" "T \<noteq> Lf"
  shows "minimum_loop s (rootp T) = Some (first_of (items T))"
proof -
  from leftmostE [OF assms(2)] obtain m mi mc mr w where
    "leftmost T [] = (Nd m mi mc Lf mr, w)" "items T = (m, mi) # items mr @ after w" by metis
  with minimum_loop_at [OF assms] leftmost_ctx [of T ctx "[]"] show ?thesis by simp
qed

lemma next_element:
  assumes "holds 0 t s T"
  shows "TreeNextElement t s None = Some (first_of (items T))"
    "items T = xs @ (a, i) # ys \<Longrightarrow> TreeNextElement t s (Some a) = Some (first_of ys)"
proof -
  show "TreeNextElement t s None = Some (first_of (items T))"
    using minimum_first [of 0 t s T "[]"] assms by (cases T) (auto simp: TreeNextElement_def TreeNextElementIndex_def TreeMinimum_def holds_def)
  assume "items T = xs @ (a, i) # ys"
  from position [OF this] obtain c l r ctx where T: "T = plug (Nd a i c l r) ctx" "ys = items r @ after ctx" by blast
  have h: "holds 0 t s (plug (Nd a i c l r) ctx)" using assms T by simp
  have h': "holds 0 t s (plug r ((True, a, i, c, l) # ctx))" using h by simp
  have "child_of s (Some a) True = Some (rootp r)" "parent_of s (Some a) = Some (topp ctx)" "rootp r = None \<longleftrightarrow> r = Lf"
    using search_node [OF h] by (simp_all add: node_ops)
  moreover have "first_of ys = (if r = Lf then first_of (after ctx) else first_of (items r))"
    using T(2) leftmostE [of r] by (metis append.left_neutral append_Cons first_of_simps(2) items.simps(1))
  ultimately show "TreeNextElement t s (Some a) = Some (first_of ys)"
    using minimum_first [OF h'] climb_at [OF h]
    by (simp add: TreeNextElement_def TreeNextElementIndex_def TreeSuccessor_def TreeMinimum_def)
qed

section \<open>The loop\<close>

partial_function (option) elements_from :: "'m Tree \<Rightarrow> nodes \<Rightarrow> ptr \<Rightarrow> Node list option" where
  "elements_from t s curnode = do {
     current \<leftarrow> TreeNextElement t s curnode;
     if current = None then Some []
     else do {
       n \<leftarrow> get_node s current;
       rest \<leftarrow> elements_from t s current;
       Some (n # rest)
     }
   }"

lemma elements_after:
  assumes "holds 0 t s T"
  shows "items T = xs @ (a, i) # ys \<Longrightarrow>
    \<exists>ns. elements_from t s (Some a) = Some ns \<and> map (\<lambda>n. (nd_content n, nd_size n)) ns = map snd ys"
proof (induction ys arbitrary: xs a i)
  case Nil
  then show ?case by (subst elements_from.simps) (simp add: next_element [OF assms])
next
  case (Cons y ys)
  obtain b j where y: "y = (b, j)" by (cases y)
  have "items T = (xs @ [(a, i)]) @ (b, j) # ys" using Cons.prems y by simp
  from Cons.IH [OF this] obtain ns where ns: "elements_from t s (Some b) = Some ns" "map (\<lambda>n. (nd_content n, nd_size n)) ns = map snd ys" by blast
  from position [of T "xs @ [(a, i)]" b j ys] Cons.prems y obtain c l r ctx where "T = plug (Nd b j c l r) ctx" by auto
  with assms have "get_node s (Some b) = Some \<lparr>nd_parent = topp ctx, nd_child = two (rootp l) (rootp r), nd_content = fst j,
      nd_size = snd j, nd_red = c\<rparr>" using search_node by blast
  then show ?case using ns next_element(2) [OF assms Cons.prems] y by (subst elements_from.simps) simp
qed

lemma elements:
  assumes "holds 0 t s T"
  shows "\<exists>ns. elements_from t s None = Some ns \<and> map (\<lambda>n. (nd_content n, nd_size n)) ns = map snd (items T)"
proof (cases "items T")
  case Nil
  then show ?thesis by (subst elements_from.simps) (simp add: next_element [OF assms])
next
  case (Cons y ys)
  obtain b j where y: "y = (b, j)" by (cases y)
  from elements_after [OF assms, of "[]" b j ys] Cons y obtain ns where
    ns: "elements_from t s (Some b) = Some ns" "map (\<lambda>n. (nd_content n, nd_size n)) ns = map snd ys" by auto
  from position [of T "[]" b j ys] Cons y obtain c l r ctx where "T = plug (Nd b j c l r) ctx" by auto
  with assms have "get_node s (Some b) = Some \<lparr>nd_parent = topp ctx, nd_child = two (rootp l) (rootp r), nd_content = fst j,
      nd_size = snd j, nd_red = c\<rparr>" using search_node by blast
  then show ?thesis using ns next_element(1) [OF assms] Cons y by (subst elements_from.simps) simp
qed

end
