(* ===== verification/TreeProperties.thy ===== *)
theory TreeProperties
  imports TreeOrder TreeSequence
begin

text \<open>
  Sequences of operations on a tree of \<open>lib/Tree.c\<close>: they are the operations of a finite map, the nodes in the store
  are those of the keys, and the depth stays logarithmic as long as no key is added that is there.
\<close>

section \<open>The orders\<close>

lemma order_sign_simps: "order_sign i j > 0 \<longleftrightarrow> i < j" "order_sign i j = 0 \<longleftrightarrow> i = j"
  by (auto simp: order_sign_def)

abbreviation int_key :: "(addr \<Rightarrow> int option) \<Rightarrow> ptr \<Rightarrow> int option" where
  "int_key mem p \<equiv> Option.bind p mem"

interpretation int_order: tree_order TreeIntCompare int_key int_key
  by unfold_locales (auto simp: TreeIntCompare_def order_sign_simps)

interpretation pointer_order: tree_order TreePtrCompare "\<lambda>mem c. Some (ptr_value c)" "\<lambda>mem p. Some (ptr_value p)"
  by unfold_locales (auto simp: TreePtrCompare_def order_sign_simps)

section \<open>The map as a specification\<close>

datatype tree_op = Put ptr "64 word" | Get ptr | Take ptr | TakeKey ptr | Scan

datatype tree_result = Content ptr | Contents "entry list"

text \<open>
  \<open>malloc\<close> is the allocator; the local node of \<open>TreeRemoveNodeIndex\<close> is at an unused address, too.
\<close>

fun tree_step :: "(addr \<Rightarrow> int option) \<Rightarrow> (nodes \<Rightarrow> addr) \<Rightarrow> (addr \<Rightarrow> int option) Tree \<times> nodes \<Rightarrow> tree_op \<Rightarrow>
    (tree_result \<times> (addr \<Rightarrow> int option) Tree \<times> nodes) option" where
  "tree_step mem malloc (t, s) (Put c sz) = do {
     (old, t, s) \<leftarrow> TreeAdd mem t s c sz (\<lambda>_. Some (malloc s)); Some (Content old, t, s) }"
| "tree_step mem malloc (t, s) (Get p) = do {
     node \<leftarrow> TreeFind mem t s p; c \<leftarrow> found_content s node; Some (Content c, t, s) }"
| "tree_step mem malloc (t, s) (Take c) = do {
     (old, t, s) \<leftarrow> TreeRemove mem t s c (malloc s); Some (Content old, t, s) }"
| "tree_step mem malloc (t, s) (TakeKey p) = do {
     (old, t, s) \<leftarrow> TreeRemoveKey mem t s p (malloc s); Some (Content old, t, s) }"
| "tree_step mem malloc (t, s) Scan = do {
     ns \<leftarrow> elements_from t s None; Some (Contents (map (\<lambda>n. (nd_content n, nd_size n)) ns), t, s) }"

text \<open>The state of the specification: the map, and whether no key has been added that was there.\<close>

fun map_step :: "(addr \<Rightarrow> int option) \<Rightarrow> (int \<Rightarrow> entry option) \<times> bool \<Rightarrow> tree_op \<Rightarrow> tree_result \<times> (int \<Rightarrow> entry option) \<times> bool" where
  "map_step mem (m, fresh) (Put c sz) =
     (let k = the (int_key mem c) in (Content (content_of (m k)), m(k \<mapsto> (c, sz)), fresh \<and> m k = None))"
| "map_step mem (m, fresh) (Get p) = (Content (content_of (m (the (int_key mem p)))), m, fresh)"
| "map_step mem (m, fresh) (Take p) =
     (let k = the (int_key mem p) in (Content (content_of (m k)), m(k := None), fresh))"
| "map_step mem (m, fresh) (TakeKey p) =
     (let k = the (int_key mem p) in (Content (content_of (m k)), m(k := None), fresh))"
| "map_step mem (m, fresh) Scan = (Contents (map (\<lambda>k. the (m k)) (sorted_list_of_set (dom m))), m, fresh)"

fun readable :: "(addr \<Rightarrow> int option) \<Rightarrow> tree_op \<Rightarrow> bool" where
  "readable mem (Put c _) \<longleftrightarrow> int_key mem c \<noteq> None"
| "readable mem (Get p) \<longleftrightarrow> int_key mem p \<noteq> None"
| "readable mem (Take p) \<longleftrightarrow> int_key mem p \<noteq> None"
| "readable mem (TakeKey p) \<longleftrightarrow> int_key mem p \<noteq> None"
| "readable mem Scan \<longleftrightarrow> True"

definition unused :: "(nodes \<Rightarrow> addr) \<Rightarrow> bool" where
  "unused malloc \<longleftrightarrow> (\<forall>s. finite (dom s) \<longrightarrow> s (malloc s) = None)"

definition tree_ok :: "(addr \<Rightarrow> int option) \<Rightarrow> (nodes \<Rightarrow> addr) \<Rightarrow> tree_op list \<Rightarrow> 's \<Rightarrow> bool" where
  "tree_ok mem malloc xs s \<longleftrightarrow> unused malloc \<and> list_all (readable mem) xs"

definition tree_rel :: "(addr \<Rightarrow> int option) \<Rightarrow> (addr \<Rightarrow> int option) Tree \<times> nodes \<Rightarrow> (int \<Rightarrow> entry option) \<times> bool \<Rightarrow> bool" where
  "tree_rel mem ts mf \<longleftrightarrow> (\<exists>T. int_order.rep mem (fst ts) (snd ts) T \<and> key_map (int_key mem) T = fst mf \<and> (snd mf \<longrightarrow> balanced T))"

lemma key_sorted_entries: "key_sorted key xs \<longleftrightarrow> sorted_wrt (<) (map fst (entries key xs))"
proof -
  have "map fst (entries key xs) = map (\<lambda>(a, c, sz). key c) xs" by (simp add: entries_def comp_def split_beta)
  then show ?thesis unfolding key_sorted_def by (simp only:)
qed

lemma map_the_entries: "distinct (map fst es) \<Longrightarrow> map (\<lambda>k. the (map_of es k)) (map fst es) = map snd es"
  by (auto simp: comp_def dest: map_of_is_SomeI)

lemma sorted_entries:
  assumes "key_sorted key (items T)"
  shows "map (\<lambda>k. the (tree_map key T k)) (sorted_list_of_set (dom (tree_map key T))) = map snd (items T)"
    "card (dom (tree_map key T)) = length (items T)"
proof -
  let ?es = "entries key (items T)"
  have s: "sorted_wrt (<) (map fst ?es)" using assms by (simp only: key_sorted_entries)
  then have d: "distinct (map fst ?es)" "sorted (map fst ?es)" by (simp_all only: strict_sorted_iff)
  have m: "dom (tree_map key T) = set (map fst ?es)" by (simp add: tree_map_def dom_map_of_conv_image_fst)
  have "sorted_list_of_set (dom (tree_map key T)) = map fst ?es" unfolding m using d by (simp only: sorted_list_of_set.idem_if_sorted_distinct)
  then show "map (\<lambda>k. the (tree_map key T k)) (sorted_list_of_set (dom (tree_map key T))) = map snd (items T)"
    using map_the_entries [OF d(1)] by (simp add: tree_map_def entries_def comp_def split_beta)
  show "card (dom (tree_map key T)) = length (items T)" unfolding m distinct_card [OF d(1)] by (simp add: entries_def)
qed

lemma rep_finite: "tree_rep ckey compare t s T \<Longrightarrow> finite (dom s)"
  by (simp add: tree_rep_def)

interpretation trees: simulation "tree_rel mem" "tree_step mem malloc" "map_step mem" "tree_ok mem malloc" for mem malloc
proof
  fix ts mf x xs
  assume rel: "tree_rel mem ts mf" and ok: "tree_ok mem malloc (x # xs) ts"
  obtain t s where ts: "ts = (t, s)" by (cases ts)
  obtain m fresh where mf: "mf = (m, fresh)" by (cases mf)
  from rel ts mf obtain T where T: "int_order.rep mem t s T" "key_map (int_key mem) T = m" "fresh \<longrightarrow> balanced T"
    by (auto simp: tree_rel_def)
  have un: "s (malloc s) = None" using ok rep_finite [OF T(1)] by (simp add: tree_ok_def unused_def)
  have ok': "tree_ok mem malloc xs z" for z using ok by (simp add: tree_ok_def)
  have key: "readable mem x" using ok by (simp add: tree_ok_def)
  have "\<exists>ts'. tree_step mem malloc ts x = Some (fst (map_step mem mf x), ts') \<and> tree_rel mem ts' (snd (map_step mem mf x))"
  proof (cases x)
    case (Put c sz)
    with key obtain k where k: "int_key mem c = Some k" "c \<noteq> None" by (cases c) auto
    from int_order.add [OF T(1) k un, of sz] T(2,3) show ?thesis
      unfolding ts mf Put tree_rel_def by (force simp: k Let_def)
  next
    case (Get p)
    with key obtain k where k: "int_key mem p = Some k" by auto
    from int_order.find [OF T(1) k] T show ?thesis unfolding ts mf Get tree_rel_def by (force simp: k)
  next
    case (Take p)
    with key obtain k where k: "int_key mem p = Some k" by auto
    from int_order.remove [OF T(1) k un] T(2,3) show ?thesis unfolding ts mf Take tree_rel_def by (force simp: k Let_def)
  next
    case (TakeKey p)
    with key obtain k where k: "int_key mem p = Some k" by auto
    from int_order.remove_key [OF T(1) k un] T(2,3) show ?thesis unfolding ts mf TakeKey tree_rel_def by (force simp: k Let_def)
  next
    case Scan
    have "holds 0 t s T" "key_sorted (\<lambda>c. the (int_key mem c)) (items T)" using T(1) by (simp_all add: tree_rep_def)
    from elements [OF this(1)] sorted_entries(1) [OF this(2)] T(2) obtain ns where
      "elements_from t s None = Some ns" "map (\<lambda>n. (nd_content n, nd_size n)) ns = map (\<lambda>k. the (m k)) (sorted_list_of_set (dom m))"
      by (auto simp: key_map_def)
    then have "tree_step mem malloc ts x = Some (fst (map_step mem mf x), ts)" "snd (map_step mem mf x) = mf" by (simp_all add: ts mf Scan)
    then show ?thesis using rel by simp
  qed
  then show "\<exists>ts'. tree_step mem malloc ts x = Some (fst (map_step mem mf x), ts') \<and> tree_rel mem ts' (snd (map_step mem mf x)) \<and>
      tree_ok mem malloc xs ts'" by (simp add: ok')
qed

section \<open>Properties\<close>

definition tree_start :: "(addr \<Rightarrow> int option) Tree \<times> nodes" where
  "tree_start = (TreeInitializeNoMalloc TreeIntCompare, Map.empty)"

lemma tree_rel_start: "tree_rel mem tree_start (Map.empty, True)"
  unfolding tree_rel_def tree_start_def by (rule exI [of _ Lf]) (simp add: tree_rep_empty balanced_def)

lemma tree_rel_counts:
  assumes "tree_rel mem (t, s) (m, fresh)"
  shows "tr_count t = int (card (dom m))" "card (dom s) = card (dom m)" "finite (dom m)"
    "tr_size t = (\<Sum>k\<in>dom m. snd (the (m k)))"
proof -
  from assms obtain T where T: "int_order.rep mem t s T" "m = tree_map (\<lambda>c. the (int_key mem c)) T"
    by (auto simp: tree_rel_def key_map_def)
  let ?key = "\<lambda>c. the (int_key mem c)"
  have srt: "key_sorted ?key (items T)" using T(1) by (simp add: tree_rep_def)
  note S = sorted_entries [OF srt, folded T(2)]
  show "tr_count t = int (card (dom m))" using T(1) S(2) by (simp add: tree_rep_def)
  have "length (addrs T) = length (items T)" by (induction T) auto
  then show "card (dom s) = card (dom m)" using T(1) S(2) distinct_card [of "addrs T"] by (simp add: tree_rep_def holds_def)
  show fin: "finite (dom m)" unfolding T(2) tree_map_def by (rule finite_dom_map_of)
  have "tr_size t = sum_list (map snd (map snd (items T)))" using T(1) by (simp add: tree_rep_def total_size_def comp_def split_def)
  also have "\<dots> = sum_list (map (\<lambda>k. snd (the (m k))) (sorted_list_of_set (dom m)))" unfolding S(1) [symmetric] by (simp add: comp_def)
  also have "\<dots> = (\<Sum>k\<in>dom m. snd (the (m k)))" using fin by (simp add: sum_list_distinct_conv_sum_set)
  finally show "tr_size t = (\<Sum>k\<in>dom m. snd (the (m k)))" .
qed

lemma trees_run:
  assumes "unused malloc" "list_all (readable mem) xs" "run_spec (map_step mem) (Map.empty, True) xs = (rs, m, fresh)"
  obtains t s where "run_steps (tree_step mem malloc) tree_start xs = Some (rs, t, s)" "tree_rel mem (t, s) (m, fresh)"
proof -
  have "tree_ok mem malloc xs tree_start" using assms(1,2) by (simp add: tree_ok_def)
  from trees.run_simulates [OF tree_rel_start this] assms(3) that show ?thesis by auto
qed

text \<open>An allocator, and keys for the examples: the key behind an address is the address.\<close>

lemma unused_least: "unused (\<lambda>s. LEAST a. s a = None)"
  unfolding unused_def
proof (intro allI impI)
  fix s :: nodes
  assume "finite (dom s)"
  then obtain a where "s a = None" by (metis domIff ex_new_if_finite infinite_UNIV_nat)
  then show "s (LEAST a. s a = None) = None" by (rule LeastI)
qed

abbreviation same_key :: "addr \<Rightarrow> int option" where
  "same_key \<equiv> \<lambda>a. Some (int a)"

lemmas [code] = TreeWalk.simps balance_add_loop.simps add_search.simps find_node_loop.simps minimum_loop.simps
  climb_loop.simps balance_remove_loop.simps elements_from.simps

text \<open>
  C7. Any sequence of additions, searches, removals and walks through a tree of integers behaves as a finite map: every
  operation returns what the map gives, a walk meets the entries in the order of the keys, no operation goes through a
  bad pointer or runs on without end, and in the end the counters are those of the map and as many nodes are allocated as
  there are keys. \<open>malloc\<close> always has memory and gives an address that is not in use, and the number of nodes fits in an
  \<open>int\<close>.
\<close>

theorem tree_refines:
  assumes "unused malloc" "list_all (readable mem) xs"
  shows "\<exists>rs m fresh t s. run_spec (map_step mem) (Map.empty, True) xs = (rs, m, fresh) \<and>
    run_steps (tree_step mem malloc) tree_start xs = Some (rs, t, s) \<and> finite (dom m) \<and> tr_count t = int (card (dom m)) \<and>
    tr_size t = (\<Sum>k\<in>dom m. snd (the (m k))) \<and> card (dom s) = card (dom m)"
proof -
  obtain rs m fresh where r: "run_spec (map_step mem) (Map.empty, True) xs = (rs, m, fresh)" by (metis prod_cases3)
  from trees_run [OF assms r] obtain t s where
    ts: "run_steps (tree_step mem malloc) tree_start xs = Some (rs, t, s)" "tree_rel mem (t, s) (m, fresh)" .
  with r tree_rel_counts [OF ts(2)] show ?thesis by metis
qed

theorem tree_refines_witness:
  "\<exists>t s. run_steps (tree_step same_key (\<lambda>s. LEAST a. s a = None)) tree_start
       [Put (Some 5) 8, Put (Some 3) 16, Get (Some 3), Scan, Take (Some 5)] =
     Some ([Content None, Content None, Content (Some 3), Contents [(Some 3, 16), (Some 5, 8)], Content (Some 5)], t, s) \<and>
     tr_count t = 1 \<and> card (dom s) = 1"
proof -
  have "sorted_list_of_set {5, 3::int} = [3, 5]" by (simp add: insort_insert_triv)
  then have "run_spec (map_step same_key) (Map.empty, True) [Put (Some 5) 8, Put (Some 3) 16, Get (Some 3), Scan, Take (Some 5)] =
      ([Content None, Content None, Content (Some 3), Contents [(Some 3, 16), (Some 5, 8)], Content (Some 5)], [3 \<mapsto> (Some 3, 16)], True)"
    by (auto simp: content_of_def Let_def insert_commute fun_eq_iff)
  with tree_refines [OF unused_least, of same_key "[Put (Some 5) 8, Put (Some 3) 16, Get (Some 3), Scan, Take (Some 5)]"]
  show ?thesis by (auto simp del: run_steps.simps run_spec.simps)
qed

text \<open>
  C34. As long as no key is added that is in the tree, the tree is balanced: \<open>TreeMaxDepth\<close> is at most \<open>2 log (n + 1)\<close> for
  \<open>n\<close> keys, whatever is removed in between.
\<close>

theorem tree_depth_logarithmic:
  assumes "unused malloc" "list_all (readable mem) xs" "run_spec (map_step mem) (Map.empty, True) xs = (rs, m, True)"
  shows "\<exists>t s d. run_steps (tree_step mem malloc) tree_start xs = Some (rs, t, s) \<and> TreeMaxDepth t s = Some (int d) \<and>
    2 ^ d \<le> (card (dom m) + 1)\<^sup>2"
proof -
  from trees_run [OF assms] obtain t s where
    ts: "run_steps (tree_step mem malloc) tree_start xs = Some (rs, t, s)" "tree_rel mem (t, s) (m, True)" .
  from ts(2) obtain T where T: "int_order.rep mem t s T" "m = tree_map (\<lambda>c. the (int_key mem c)) T" "balanced T"
    by (auto simp: tree_rel_def key_map_def)
  have "holds 0 t s T" "card (dom m) = length (items T)"
    using T(1) sorted_entries(2) [of "\<lambda>c. the (int_key mem c)" T] T(2) by (simp_all add: tree_rep_def)
  with TreeMaxDepth_at [of t s T] balanced_depth [OF T(3)] ts(1) show ?thesis by auto
qed

theorem tree_depth_logarithmic_witness:
  "\<exists>t s d. run_steps (tree_step same_key (\<lambda>s. LEAST a. s a = None)) tree_start (map (\<lambda>n. Put (Some n) 1) [0, 1, 2]) =
     Some ([Content None, Content None, Content None], t, s) \<and> TreeMaxDepth t s = Some (int d) \<and> (2::nat) ^ d \<le> 16"
proof -
  have "run_spec (map_step same_key) (Map.empty, True) (map (\<lambda>n. Put (Some n) 1) [0, 1, 2]) =
      ([Content None, Content None, Content None], [0 \<mapsto> (Some 0, 1), 1 \<mapsto> (Some 1, 1), 2 \<mapsto> (Some 2, 1)], True)"
    by (simp add: content_of_def)
  moreover have "(card (dom [0 \<mapsto> (Some 0, 1 :: 64 word), 1 \<mapsto> (Some 1, 1), 2 :: int \<mapsto> (Some 2, 1)]) + 1)\<^sup>2 = 16"
    by (simp add: power2_eq_square)
  moreover have "list_all (readable same_key) (map (\<lambda>n. Put (Some n) 1) [0, 1, 2])" by simp
  ultimately show ?thesis using tree_depth_logarithmic [OF unused_least] by metis
qed

text \<open>An allocator that can be computed.\<close>

definition next_unused :: "nodes \<Rightarrow> addr" where
  "next_unused s = (case filter (\<lambda>a. s a = None) [0..<32] of a # _ \<Rightarrow> a | [] \<Rightarrow> 32)"

text \<open>
  Adding a key that is in the tree replaces its content, but balances the tree at a node that is not new; then the depth
  can grow beyond the bound: here it is seven with ten keys, and \<open>2 log 11 < 7\<close>.
\<close>

lemma readding_unbalances:
  "map_option (\<lambda>(rs, t, s). (tr_count t, TreeMaxDepth t s))
     (run_steps (tree_step same_key next_unused) tree_start (map (\<lambda>n. Put (Some n) 1) [2, 0, 9, 6, 8, 5, 3, 5, 4, 9, 7, 1])) =
   Some (10, Some 7) \<and> \<not> 2 ^ 7 \<le> (10 + 1 :: nat)\<^sup>2"
  by (rule conjI, code_simp, simp)

end
