(* ===== verification/HeapTracking.thy ===== *)
theory HeapTracking
  imports TreeProperties
begin

text \<open>
  The heap tracking of \<open>lib/Heap.c\<close>: \<open>malloc\<close>, \<open>realloc\<close> and \<open>free\<close> that keep a record of each block in a tree, with
  guards on both sides of the block. The results of the system's allocator are arguments, and so is the address of the
  local node of the tree's removal. A block is its bytes, with the guards; the bytes of new memory are zero until they
  are written. \<open>None\<close> is a bad pointer or a mutex that is never got.
\<close>

section \<open>The records and the state\<close>

record storageElement =
  se_file :: ptr
  se_line :: int
  se_ptr :: ptr
  se_size :: "64 word"

type_synonym elements = "addr \<Rightarrow> storageElement option"

text \<open>The addresses of bytes: \<open>NULL\<close> is zero.\<close>

definition at_address :: "nat \<Rightarrow> ptr" where
  "at_address v = (if v = 0 then None else Some (v - 1))"

definition int_before :: "ptr \<Rightarrow> ptr" where
  "int_before p = at_address (unat (word_of_nat (ptr_value p) - 4 :: 64 word))"

definition int_after :: "ptr \<Rightarrow> ptr" where
  "int_after p = at_address (ptr_value p + 4)"

definition ptrCompare :: "elements comparison" where
  "ptrCompare mem a b value = do {
     x \<leftarrow> Option.bind a mem;
     y \<leftarrow> (if value then map_option se_ptr (Option.bind b mem) else Some b);
     Some (order_sign (ptr_value (se_ptr x)) (ptr_value y))
   }"

record Heap =
  hp_tree :: "elements Tree"
  hp_nodes :: nodes
  hp_elements :: elements
  hp_files :: "addr \<Rightarrow> string option"
  hp_blocks :: "addr \<Rightarrow> bytes option"
  hp_current :: "64 word"
  hp_max :: "64 word"
  hp_locked :: bool

text \<open>What the allocator returns during a call, and the address of the local node.\<close>

record Allocs =
  al_element :: ptr
  al_file :: ptr
  al_block :: ptr
  al_node :: ptr
  al_temp :: addr

text \<open>
  The errors in the log; \<open>Scanned\<close> is a line of \<open>HeapScan\<close>. Its second line for an element is left out: the
  precision in its format is 0, so that it reads and prints nothing of the content.
\<close>

datatype heap_event =
    MemoryError
  | StartOverwritten
  | EndOverwritten
  | RemoveFailed string int
  | ReallocFailed string int
  | NotFreed
  | ScanStart "64 word"
  | Scanned "64 word" int string ptr
  | ScanEnd

definition Heap_initialize :: "Heap" where
  "Heap_initialize = \<lparr>hp_tree = (TreeInitializeNoMalloc ptrCompare)\<lparr>tr_heap_tracking := False\<rparr>, hp_nodes = Map.empty,
     hp_elements = Map.empty, hp_files = Map.empty, hp_blocks = Map.empty, hp_current = 0, hp_max = 0, hp_locked = False\<rparr>"

definition lock_heap :: "Heap \<Rightarrow> Heap option" where
  "lock_heap h = (if hp_locked h then None else Some (h\<lparr>hp_locked := True\<rparr>))"

definition unlock_heap :: "Heap \<Rightarrow> Heap" where
  "unlock_heap h = h\<lparr>hp_locked := False\<rparr>"

section \<open>Allocating\<close>

definition Heap_roundup :: "64 word \<Rightarrow> 64 word" where
  "Heap_roundup sz = (if sz mod 16 \<noteq> 0 then sz + (16 - sz mod 16) else sz)"

definition eyecatcher :: bytes where
  "eyecatcher = [0x88, 0x88, 0x88, 0x88]"

text \<open>The int at an offset of a block.\<close>

definition read_int :: "nat \<Rightarrow> bytes \<Rightarrow> bytes option" where
  "read_int off bs = (if off + 4 \<le> length bs then Some (take 4 (drop off bs)) else None)"

definition write_int :: "nat \<Rightarrow> bytes \<Rightarrow> bytes \<Rightarrow> bytes option" where
  "write_int off x bs = (if off + 4 \<le> length bs then Some (take off bs @ x @ drop (off + 4) bs) else None)"

definition set_eyecatchers :: "64 word \<Rightarrow> bytes \<Rightarrow> bytes option" where
  "set_eyecatchers sz bs = do {
     bs \<leftarrow> write_int 0 eyecatcher bs;
     write_int (unat (4 + sz)) eyecatcher bs
   }"

definition count_up :: "64 word \<Rightarrow> Heap \<Rightarrow> Heap" where
  "count_up d h = h\<lparr>hp_current := hp_current h + d, hp_max := (if hp_current h + d > hp_max h then hp_current h + d else hp_max h)\<rparr>"

definition add_element :: "ptr \<Rightarrow> 64 word \<Rightarrow> Allocs \<Rightarrow> Heap \<Rightarrow> Heap option" where
  "add_element s space al h = do {
     (_, t, ns) \<leftarrow> TreeAdd (hp_elements h) (hp_tree h) (hp_nodes h) s space (\<lambda>_. al_node al);
     Some (h\<lparr>hp_tree := t, hp_nodes := ns\<rparr>)
   }"

definition mymalloc :: "string \<Rightarrow> int \<Rightarrow> 64 word \<Rightarrow> Allocs \<Rightarrow> Heap \<Rightarrow> (ptr \<times> heap_event list \<times> Heap) option" where
  "mymalloc file line sz al h = do {
     h \<leftarrow> lock_heap h;
     let sz = Heap_roundup sz;
     case (al_element al, al_file al, al_block al) of
       (Some e, Some f, Some b) \<Rightarrow> do {
         block \<leftarrow> set_eyecatchers sz (replicate (unat (sz + 8)) 0);
         let space = 32 + (of_nat (length file) + 1) + (sz + 8);
         let h = h\<lparr>hp_elements := (hp_elements h)(e \<mapsto> \<lparr>se_file = Some f, se_line = line, se_ptr = Some b, se_size = sz\<rparr>),
           hp_files := (hp_files h)(f \<mapsto> file), hp_blocks := (hp_blocks h)(b \<mapsto> block)\<rparr>;
         h \<leftarrow> add_element (Some e) space al h;
         Some (int_after (Some b), [], unlock_heap (count_up sz h))
       }
     | _ \<Rightarrow> Some (None, [MemoryError], h)
   }"

section \<open>Freeing\<close>

definition get_element :: "Heap \<Rightarrow> ptr \<Rightarrow> storageElement option" where
  "get_element h p = Option.bind p (hp_elements h)"

definition get_file :: "Heap \<Rightarrow> ptr \<Rightarrow> string option" where
  "get_file h p = Option.bind p (hp_files h)"

definition get_block :: "Heap \<Rightarrow> ptr \<Rightarrow> bytes option" where
  "get_block h p = Option.bind p (hp_blocks h)"

definition checkEyecatchers :: "Heap \<Rightarrow> ptr \<Rightarrow> 64 word \<Rightarrow> heap_event list option" where
  "checkEyecatchers h p sz = do {
     bs \<leftarrow> get_block h (int_before p);
     start \<leftarrow> read_int 0 bs;
     stop \<leftarrow> read_int (4 + unat sz) bs;
     Some ((if start \<noteq> eyecatcher then [StartOverwritten] else []) @ (if stop \<noteq> eyecatcher then [EndOverwritten] else []))
   }"

definition free_file :: "ptr \<Rightarrow> Heap \<Rightarrow> Heap option" where
  "free_file p h = do { a \<leftarrow> p; _ \<leftarrow> hp_files h a; Some (h\<lparr>hp_files := (hp_files h)(a := None)\<rparr>) }"

definition free_element :: "ptr \<Rightarrow> Heap \<Rightarrow> Heap option" where
  "free_element p h = do { a \<leftarrow> p; _ \<leftarrow> hp_elements h a; Some (h\<lparr>hp_elements := (hp_elements h)(a := None)\<rparr>) }"

definition free_block :: "ptr \<Rightarrow> Heap \<Rightarrow> Heap option" where
  "free_block p h = do { a \<leftarrow> p; _ \<leftarrow> hp_blocks h a; Some (h\<lparr>hp_blocks := (hp_blocks h)(a := None)\<rparr>) }"

definition Internal_heap_unlink :: "string \<Rightarrow> int \<Rightarrow> ptr \<Rightarrow> Allocs \<Rightarrow> Heap \<Rightarrow> (bool \<times> heap_event list \<times> Heap) option" where
  "Internal_heap_unlink file line p al h = do {
     e \<leftarrow> TreeFind (hp_elements h) (hp_tree h) (hp_nodes h) (int_before p);
     if e = None then Some (False, [RemoveFailed file line], h)
     else do {
       c \<leftarrow> map_option nd_content (get_node (hp_nodes h) e);
       s \<leftarrow> get_element h c;
       ev \<leftarrow> checkEyecatchers h p (se_size s);
       h \<leftarrow> free_file (se_file s) h;
       let h = h\<lparr>hp_current := hp_current h - se_size s\<rparr>;
       (_, t, ns) \<leftarrow> TreeRemoveNodeIndex (hp_tree h) (hp_nodes h) e 0 (al_temp al);
       h \<leftarrow> free_element c (h\<lparr>hp_tree := t, hp_nodes := ns\<rparr>);
       Some (True, ev, h)
     }
   }"

definition myfree :: "string \<Rightarrow> int \<Rightarrow> ptr \<Rightarrow> Allocs \<Rightarrow> Heap \<Rightarrow> (heap_event list \<times> Heap) option" where
  "myfree file line p al h = do {
     h \<leftarrow> lock_heap h;
     (rc, ev, h) \<leftarrow> Internal_heap_unlink file line p al h;
     h \<leftarrow> (if rc then free_block (int_before p) h else Some h);
     Some (ev, unlock_heap h)
   }"

definition Heap_unlink :: "string \<Rightarrow> int \<Rightarrow> ptr \<Rightarrow> Allocs \<Rightarrow> Heap \<Rightarrow> (heap_event list \<times> Heap) option" where
  "Heap_unlink file line p al h = do {
     h \<leftarrow> lock_heap h;
     (rc, ev, h) \<leftarrow> Internal_heap_unlink file line p al h;
     Some (ev, unlock_heap h)
   }"

section \<open>Reallocating\<close>

text \<open>The bytes a block keeps when its size changes.\<close>

definition resized :: "nat \<Rightarrow> bytes \<Rightarrow> bytes" where
  "resized n bs = take n bs @ replicate (n - length bs) 0"

definition move_block :: "ptr \<Rightarrow> ptr \<Rightarrow> bytes \<Rightarrow> Heap \<Rightarrow> Heap option" where
  "move_block p q bs h = do {
     h \<leftarrow> free_block p h;
     b \<leftarrow> q;
     Some (h\<lparr>hp_blocks := (hp_blocks h)(b \<mapsto> bs)\<rparr>)
   }"

definition move_file :: "ptr \<Rightarrow> ptr \<Rightarrow> string \<Rightarrow> Heap \<Rightarrow> Heap option" where
  "move_file p q file h = do {
     h \<leftarrow> free_file p h;
     f \<leftarrow> q;
     Some (h\<lparr>hp_files := (hp_files h)(f \<mapsto> file)\<rparr>)
   }"

definition myrealloc :: "string \<Rightarrow> int \<Rightarrow> ptr \<Rightarrow> 64 word \<Rightarrow> Allocs \<Rightarrow> Heap \<Rightarrow> (ptr \<times> heap_event list \<times> Heap) option" where
  "myrealloc file line p sz al h = do {
     h \<leftarrow> lock_heap h;
     (c, t, ns) \<leftarrow> TreeRemoveKey (hp_elements h) (hp_tree h) (hp_nodes h) (int_before p) (al_temp al);
     let h = h\<lparr>hp_tree := t, hp_nodes := ns\<rparr>;
     if c = None then Some (None, [ReallocFailed file line], unlock_heap h)
     else do {
       s \<leftarrow> get_element h c;
       ev \<leftarrow> checkEyecatchers h p (se_size s);
       let sz = Heap_roundup sz;
       let h = count_up (sz - se_size s) h;
       if al_block al = None then Some (None, ev @ [MemoryError], h)
       else do {
         old \<leftarrow> get_block h (se_ptr s);
         bs \<leftarrow> set_eyecatchers sz (resized (unat (sz + 8)) old);
         h \<leftarrow> move_block (se_ptr s) (al_block al) bs h;
         name \<leftarrow> get_file h (se_file s);
         let space = 32 + (sz + 8 - se_size s) - of_nat (length name) + (of_nat (length file) + 1);
         h \<leftarrow> move_file (se_file s) (al_file al) file h;
         e \<leftarrow> c;
         let h = h\<lparr>hp_elements := (hp_elements h)(e \<mapsto>
           \<lparr>se_file = al_file al, se_line = line, se_ptr = al_block al, se_size = sz\<rparr>)\<rparr>;
         h \<leftarrow> add_element c space al h;
         Some (int_after (al_block al), ev, unlock_heap h)
       }
     }
   }"

section \<open>Looking at the heap\<close>

definition Heap_findItem :: "ptr \<Rightarrow> Heap \<Rightarrow> (ptr \<times> Heap) option" where
  "Heap_findItem p h = do {
     h \<leftarrow> lock_heap h;
     e \<leftarrow> TreeFind (hp_elements h) (hp_tree h) (hp_nodes h) (int_before p);
     c \<leftarrow> found_content (hp_nodes h) e;
     Some (c, unlock_heap h)
   }"

fun scan_elements :: "Heap \<Rightarrow> Node list \<Rightarrow> heap_event list option" where
  "scan_elements h [] = Some []"
| "scan_elements h (n # ns) = do {
     s \<leftarrow> get_element h (nd_content n);
     name \<leftarrow> get_file h (se_file s);
     rest \<leftarrow> scan_elements h ns;
     Some (Scanned (se_size s) (se_line s) name (se_ptr s) # rest)
   }"

definition HeapScan :: "Heap \<Rightarrow> (heap_event list \<times> Heap) option" where
  "HeapScan h = do {
     h \<leftarrow> lock_heap h;
     ns \<leftarrow> elements_from (hp_tree h) (hp_nodes h) None;
     ev \<leftarrow> scan_elements h ns;
     Some (ScanStart (hp_current h) # ev @ [ScanEnd], unlock_heap h)
   }"

definition Heap_terminate :: "Heap \<Rightarrow> (heap_event list \<times> Heap) option" where
  "Heap_terminate h =
     (if hp_current h > 20 then do { (ev, h) \<leftarrow> HeapScan h; Some (NotFreed # ev, h) } else Some ([], h))"

definition Heap_get_info :: "Heap \<Rightarrow> 64 word \<times> 64 word" where
  "Heap_get_info h = (hp_current h, hp_max h)"

text \<open>
  What \<open>HeapDump\<close> writes of an element when every write succeeds: the pointer, the size in the node and as many bytes
  from the pointer on, which have to be in the block.
\<close>

fun dump_elements :: "Heap \<Rightarrow> Node list \<Rightarrow> (ptr \<times> 64 word \<times> bytes) list option" where
  "dump_elements h [] = Some []"
| "dump_elements h (n # ns) = do {
     s \<leftarrow> get_element h (nd_content n);
     bs \<leftarrow> get_block h (se_ptr s);
     if unat (nd_size n) \<le> length bs then do {
       rest \<leftarrow> dump_elements h ns;
       Some ((se_ptr s, nd_size n, take (unat (nd_size n)) bs) # rest)
     }
     else None
   }"

definition HeapDump :: "Heap \<Rightarrow> (ptr \<times> 64 word \<times> bytes) list option" where
  "HeapDump h = Option.bind (elements_from (hp_tree h) (hp_nodes h) None) (dump_elements h)"

end
