(* ===== verification/HeapRuns.thy ===== *)
theory HeapRuns
  imports HeapTracking
begin

text \<open>
  What the tracked heap promises: it is a finite map from the addresses of blocks to what is known of them and their
  bytes. The relation with the state of \<open>lib/Heap.c\<close> and the effect of each function on it.
\<close>

section \<open>The order of the records\<close>

definition element_key :: "elements \<Rightarrow> ptr \<Rightarrow> nat option" where
  "element_key mem c = map_option (\<lambda>x. ptr_value (se_ptr x)) (Option.bind c mem)"

interpretation heap_order: tree_order ptrCompare element_key "\<lambda>mem p. Some (ptr_value p)"
  by unfold_locales (auto simp: ptrCompare_def element_key_def order_sign_simps bind_eq_Some_conv)

text \<open>\<open>K\<close> has the record and the copy of the file name for the address of each block.\<close>

type_synonym registry = "nat \<Rightarrow> (addr \<times> addr) option"

definition record_at :: "registry \<Rightarrow> nat \<Rightarrow> ptr" where
  "record_at K v = map_option fst (K v)"

definition registers :: "elements \<Rightarrow> atree \<Rightarrow> registry \<Rightarrow> bool" where
  "registers els T K \<longleftrightarrow> (\<forall>v. map_option fst (key_map (element_key els) T v) = map_option Some (record_at K v))"

lemma registersD: "registers els T K \<Longrightarrow> map_option fst (key_map (element_key els) T v) = map_option Some (record_at K v)"
  by (simp add: registers_def)

definition in_tree :: "elements \<Rightarrow> elements Tree \<Rightarrow> nodes \<Rightarrow> registry \<Rightarrow> bool" where
  "in_tree els t ns K \<longleftrightarrow> (\<exists>T. heap_order.rep els t ns T \<and> balanced T \<and> registers els T K)"

lemma in_treeE:
  assumes "in_tree els t ns K"
  obtains T where "heap_order.rep els t ns T" "balanced T" "registers els T K"
  using assms unfolding in_tree_def by blast

lemma registers_some: "registers els T K \<Longrightarrow> record_at K v = Some e \<Longrightarrow> \<exists>sz. key_map (element_key els) T v = Some (Some e, sz)"
  using registersD [of els T K v] by (cases "key_map (element_key els) T v") auto

lemma registers_content: "registers els T K \<Longrightarrow> content_of (key_map (element_key els) T v) = record_at K v"
  using registersD [of els T K v] by (cases "key_map (element_key els) T v"; cases "record_at K v") (simp_all add: content_of_def)

lemma registers_none: "registers els T K \<Longrightarrow> key_map (element_key els) T v = None \<longleftrightarrow> record_at K v = None"
  using registersD [of els T K v] by (cases "key_map (element_key els) T v"; cases "record_at K v") simp_all

lemma record_at_simps: "record_at (K(v := None)) w = (if w = v then None else record_at K w)"
  "record_at (K(v \<mapsto> (e, f))) w = (if w = v then Some e else record_at K w)"
  by (simp_all add: record_at_def)

lemma registers_step:
  assumes "registers els T K"
  shows "key_map (element_key els) T' = (key_map (element_key els) T)(v := None) \<Longrightarrow> registers els T' (K(v := None))"
    "key_map (element_key els) T' = (key_map (element_key els) T)(v \<mapsto> (Some e, sz)) \<Longrightarrow> registers els T' (K(v \<mapsto> (e, f)))"
  using assms by (simp_all add: registers_def record_at_simps)

lemma in_tree_content: "in_tree els t ns K \<Longrightarrow> record_at K v = Some e \<Longrightarrow> \<exists>x. els e = Some x \<and> ptr_value (se_ptr x) = v"
proof (elim in_treeE)
  fix T
  assume T: "heap_order.rep els t ns T" "registers els T K" "record_at K v = Some e"
  from registers_some [OF T(2,3)] key_map_items [OF T(1)] have "element_key els (Some e) = Some v" by blast
  then show ?thesis by (auto simp: element_key_def)
qed

lemma in_tree_counts: "in_tree els t ns K \<Longrightarrow> tr_count t = int (card (dom K)) \<and> card (dom ns) = card (dom K) \<and> finite (dom K)"
proof (elim in_treeE)
  fix T
  assume T: "heap_order.rep els t ns T" "registers els T K"
  have "dom K = dom (key_map (element_key els) T)"
    using registers_none [OF T(2)] by (auto simp: dom_def record_at_def)
  moreover have "key_sorted (\<lambda>c. the (element_key els c)) (items T)" using T(1) by (simp add: tree_rep_def)
  ultimately have "card (dom K) = length (items T)" "finite (dom K)"
    using sorted_entries(2) [of "\<lambda>c. the (element_key els c)" T] by (simp_all add: key_map_def tree_map_def finite_dom_map_of)
  moreover have "length (addrs T) = length (items T)" by (induction T) auto
  ultimately show ?thesis using T(1) distinct_card [of "addrs T"] by (simp add: tree_rep_def holds_def)
qed

text \<open>The map only reads where the contents are.\<close>

lemma in_tree_memory:
  assumes "in_tree els t ns K" "\<And>v e. record_at K v = Some e \<Longrightarrow> els' e = els e"
  shows "in_tree els' t ns K"
proof -
  from assms(1) obtain T where T: "heap_order.rep els t ns T" "balanced T" "registers els T K" by (rule in_treeE)
  have same: "element_key els' c = element_key els c" if k: "key_map (element_key els) T k = Some (c, sz)" for k c sz
  proof -
    have "map_option Some (record_at K k) = Some c" using registersD [OF T(3), of k] k by simp
    then obtain e where "c = Some e" "record_at K k = Some e" by auto
    with assms(2) show ?thesis by (simp add: element_key_def)
  qed
  have "heap_order.rep els' t ns T" "key_map (element_key els') T = key_map (element_key els) T"
    by (rule rep_memory [OF T(1)], erule same)+
  with T(2,3) show ?thesis unfolding in_tree_def registers_def by metis
qed

lemma heap_find:
  assumes "in_tree els t ns K"
  shows "\<exists>node. TreeFind els t ns p = Some node \<and> found_content ns node = Some (record_at K (ptr_value p)) \<and>
    (node = None \<longleftrightarrow> record_at K (ptr_value p) = None)"
proof -
  from assms obtain T where T: "heap_order.rep els t ns T" "balanced T" "registers els T K" by (rule in_treeE)
  from heap_order.find [OF T(1) refl, of p] registers_content [OF T(3)] registers_none [OF T(3)] show ?thesis by metis
qed

lemma heap_add:
  assumes "in_tree els t ns K" "els e = Some x" "ptr_value (se_ptr x) = v" "K v = None" "ns a = None"
  shows "\<exists>t' ns'. TreeAdd els t ns (Some e) sz (\<lambda>_. Some a) = Some (None, t', ns') \<and> in_tree els t' ns' (K(v \<mapsto> (e, f)))"
proof -
  from assms(1) obtain T where T: "heap_order.rep els t ns T" "balanced T" "registers els T K" by (rule in_treeE)
  have k: "element_key els (Some e) = Some v" using assms(2,3) by (simp add: element_key_def)
  have n: "key_map (element_key els) T v = None" using registers_none [OF T(3)] assms(4) by (simp add: record_at_def)
  from heap_order.add [OF T(1) k _ assms(5), of sz] n T(2) obtain t' ns' T' where
    T': "TreeAdd els t ns (Some e) sz (\<lambda>_. Some a) = Some (None, t', ns')" "heap_order.rep els t' ns' T'"
    "key_map (element_key els) T' = (key_map (element_key els) T)(v \<mapsto> (Some e, sz))" "balanced T'"
    by (auto simp: content_of_def)
  with registers_step(2) [OF T(3) T'(3)] show ?thesis unfolding in_tree_def by blast
qed

lemma heap_remove_node:
  assumes "in_tree els t ns K" "record_at K (ptr_value p) = Some e" "ns temp = None"
  shows "\<exists>a t' ns'. TreeFind els t ns p = Some (Some a) \<and> map_option nd_content (get_node ns (Some a)) = Some (Some e) \<and>
    TreeRemoveNodeIndex t ns (Some a) 0 temp = Some (Some e, t', ns') \<and> in_tree els t' ns' (K(ptr_value p := None))"
proof -
  let ?v = "ptr_value p"
  from assms(1) obtain T where T: "heap_order.rep els t ns T" "balanced T" "registers els T K" by (rule in_treeE)
  from registers_some [OF T(3) assms(2)] obtain sz where k: "key_map (element_key els) T ?v = Some (Some e, sz)" by blast
  from heap_order.removing [OF T(1) _ k assms(3), of False p] obtain a t' ns' T' where
    a: "TreeFindIndex1 els t ns p 0 False = Some (Some a)" "found_content ns (Some a) = Some (Some e)"
    "TreeRemoveNodeIndex t ns (Some a) 0 temp = Some (Some e, t', ns')" "heap_order.rep els t' ns' T'"
    "key_map (element_key els) T' = (key_map (element_key els) T)(?v := None)" "balanced T'"
    using T(2) by auto
  have "in_tree els t' ns' (K(?v := None))" using a(4,6) registers_step(1) [OF T(3) a(5)] unfolding in_tree_def by blast
  with a(1,2,3) show ?thesis by (auto simp: TreeFind_def TreeFindIndex_def found_content_def)
qed

lemma heap_remove_key:
  assumes "in_tree els t ns K" "ns temp = None"
  shows "\<exists>t' ns'. TreeRemoveKey els t ns p temp = Some (record_at K (ptr_value p), t', ns') \<and> in_tree els t' ns' (K(ptr_value p := None))"
proof -
  let ?v = "ptr_value p"
  from assms(1) obtain T where T: "heap_order.rep els t ns T" "balanced T" "registers els T K" by (rule in_treeE)
  from heap_order.remove_key [OF T(1) refl assms(2), of p] registers_content [OF T(3)] T(2) obtain t' ns' T' where
    a: "TreeRemoveKey els t ns p temp = Some (record_at K ?v, t', ns')" "heap_order.rep els t' ns' T'"
    "key_map (element_key els) T' = (key_map (element_key els) T)(?v := None)" "balanced T'" by auto
  with registers_step(1) [OF T(3) a(3)] show ?thesis unfolding in_tree_def by blast
qed

end
