(* ===== verification/HeapProperties.thy ===== *)
theory HeapProperties
  imports HeapRuns
begin

text \<open>
  Runs of the tracked heap are runs of a finite map of blocks, and what goes wrong when the system has no memory or a
  size is too large.
\<close>

section \<open>The relation\<close>

record tracked =
  tk_file :: string
  tk_line :: int
  tk_size :: "64 word"
  tk_bytes :: bytes

definition live_total :: "(nat \<Rightarrow> tracked option) \<Rightarrow> 64 word" where
  "live_total live = (\<Sum>v\<in>dom live. tk_size (the (live v)))"

definition recorded :: "Heap \<Rightarrow> nat \<Rightarrow> addr \<Rightarrow> addr \<Rightarrow> tracked \<Rightarrow> bool" where
  "recorded h v e f x \<longleftrightarrow> (\<exists>b. v = Suc b \<and> v + 4 < 2 ^ 64 \<and>
     hp_elements h e = Some \<lparr>se_file = Some f, se_line = tk_line x, se_ptr = Some b, se_size = tk_size x\<rparr> \<and>
     hp_files h f = Some (tk_file x) \<and> hp_blocks h b = Some (tk_bytes x) \<and> length (tk_bytes x) = unat (tk_size x) + 8)"

definition registry_ok :: "Heap \<Rightarrow> registry \<Rightarrow> (nat \<Rightarrow> tracked option) \<Rightarrow> bool" where
  "registry_ok h K live \<longleftrightarrow> dom K = dom live \<and>
     (\<forall>v e f. K v = Some (e, f) \<longrightarrow> recorded h v e f (the (live v))) \<and>
     (\<forall>v w e f e' f'. K v = Some (e, f) \<longrightarrow> K w = Some (e', f') \<longrightarrow> e = e' \<or> f = f' \<longrightarrow> v = w) \<and>
     dom (hp_elements h) = fst ` ran K \<and> dom (hp_files h) = snd ` ran K"

definition held :: "Heap \<Rightarrow> (nat \<Rightarrow> tracked option) \<Rightarrow> bool" where
  "held h live \<longleftrightarrow> hp_current h = live_total live \<and> finite (dom live) \<and>
     (\<exists>K. in_tree (hp_elements h) (hp_tree h) (hp_nodes h) K \<and> registry_ok h K live)"

definition heap_rel :: "Heap \<Rightarrow> (nat \<Rightarrow> tracked option) \<times> 64 word \<Rightarrow> bool" where
  "heap_rel h lm \<longleftrightarrow> \<not> hp_locked h \<and> hp_max h = snd lm \<and> held h (fst lm)"

lemma registry_frame [simp]: "registry_ok (h\<lparr>hp_locked := l\<rparr>) K live = registry_ok h K live"
  "registry_ok (h\<lparr>hp_max := mx\<rparr>) K live = registry_ok h K live" "registry_ok (h\<lparr>hp_current := c\<rparr>) K live = registry_ok h K live"
  "registry_ok (h\<lparr>hp_tree := t\<rparr>) K live = registry_ok h K live" "registry_ok (h\<lparr>hp_nodes := ns\<rparr>) K live = registry_ok h K live"
  by (simp_all add: registry_ok_def recorded_def)

lemma held_frame [simp]: "held (h\<lparr>hp_locked := l\<rparr>) live = held h live" "held (h\<lparr>hp_max := mx\<rparr>) live = held h live"
  by (simp_all add: held_def)

lemma heldE:
  assumes "held h live"
  obtains K where "in_tree (hp_elements h) (hp_tree h) (hp_nodes h) K" "registry_ok h K live" "hp_current h = live_total live" "finite (dom live)"
  using assms unfolding held_def by blast

lemma at_address_simps [simp]: "ptr_value (Some b) = Suc b" "ptr_value None = 0" "at_address (Suc b) = Some b"
  "ptr_value (at_address v) = v"
  by (simp_all add: ptr_value_def at_address_def)

lemma int_before_after: "Suc b + 4 < 2 ^ 64 \<Longrightarrow> int_before (int_after (Some b)) = Some b"
proof -
  assume b: "Suc b + 4 < 2 ^ 64"
  have "word_of_nat (Suc b + 4) - 4 = (word_of_nat (Suc b) :: 64 word)" by simp
  moreover have "unat (word_of_nat (Suc b) :: 64 word) = Suc b" using b by (simp add: unsigned_of_nat take_bit_nat_eq_self del: of_nat_Suc)
  ultimately have "unat (word_of_nat (Suc b + 4) - 4 :: 64 word) = Suc b" by (simp only:)
  then show ?thesis by (simp only: int_before_def int_after_def at_address_simps)
qed

lemma total_insert: "finite (dom live) \<Longrightarrow> live v = None \<Longrightarrow> live_total (live(v \<mapsto> x)) = live_total live + tk_size x"
  unfolding live_total_def by (subst dom_fun_upd) (auto intro!: sum.cong simp: add.commute domIff)

lemma total_remove: "finite (dom live) \<Longrightarrow> live v = Some x \<Longrightarrow> live_total (live(v := None)) = live_total live - tk_size x"
proof -
  assume f: "finite (dom live)" and v: "live v = Some x"
  have "live_total ((live(v := None))(v \<mapsto> x)) = live_total (live(v := None)) + tk_size x"
    by (rule total_insert) (use f in simp_all)
  then show ?thesis using v by (simp add: fun_upd_idem)
qed

section \<open>Guards\<close>

text \<open>The bytes of a new block, and of one whose size has changed.\<close>

definition guarded :: "64 word \<Rightarrow> bytes \<Rightarrow> bytes" where
  "guarded sz bs = eyecatcher @ take (unat sz) (drop 4 bs) @ eyecatcher"

definition damage :: "tracked \<Rightarrow> heap_event list" where
  "damage x = (if take 4 (tk_bytes x) \<noteq> eyecatcher then [StartOverwritten] else []) @
     (if drop (unat (tk_size x) + 4) (tk_bytes x) \<noteq> eyecatcher then [EndOverwritten] else [])"

lemma round_up_16: "(n + 15) div 16 * 16 = (if n mod 16 = 0 then n else n + (16 - n mod 16))" for n :: nat
proof -
  obtain q r where "n = 16 * q + r" "r < 16" by (metis mod_less_divisor mult_div_mod_eq zero_less_numeral)
  moreover from this have "(16 * q + r + 15) div 16 = (if r = 0 then q else q + 1)" by (auto intro: div_nat_eqI)
  ultimately show ?thesis by simp
qed

lemma unat_roundup: "unat (Heap_roundup sz) = ((unat sz + 15) div 16 * 16) mod 2 ^ 64"
proof -
  have m: "unat (sz mod 16) = unat sz mod 16" by (simp add: unat_mod)
  have lt: "unat sz < 2 ^ 64" using unsigned_less [of sz] by simp
  show ?thesis
  proof (cases "sz mod 16 = 0")
    case True
    then have 0: "unat sz mod 16 = 0" using m by simp
    with lt True show ?thesis by (simp add: Heap_roundup_def round_up_16)
  next
    case False
    then have n: "unat sz mod 16 \<noteq> 0" using m by (metis unat_eq_zero)
    have "sz mod 16 \<le> 16" using m by (simp add: word_le_nat_alt)
    then have "unat (16 - sz mod 16) = 16 - unat sz mod 16" by (simp add: unat_sub m)
    then have "unat (Heap_roundup sz) = (unat sz + (16 - unat sz mod 16)) mod 2 ^ 64"
      using False by (simp add: Heap_roundup_def unat_word_ariths)
    with n show ?thesis by (simp add: round_up_16)
  qed
qed

lemma roundup_small: "unat (Heap_roundup sz) + 16 \<le> 2 ^ 64"
proof -
  have "unat (Heap_roundup sz) mod 16 = 0" unfolding unat_roundup by (subst mod_mod_cancel) simp_all
  moreover have "unat (Heap_roundup sz) < 2 ^ 64" using unsigned_less [of "Heap_roundup sz"] by simp
  ultimately show ?thesis by (simp, presburger)
qed

lemma roundup_sizes: "unat (Heap_roundup sz + 8) = unat (Heap_roundup sz) + 8" "unat (4 + Heap_roundup sz) = 4 + unat (Heap_roundup sz)"
  using roundup_small [of sz] by (simp_all add: unat_word_ariths)

lemma roundup_le: "unat sz < 2 ^ 62 \<Longrightarrow> unat (Heap_roundup sz) < 2 ^ 62 + 16"
proof -
  assume sz: "unat sz < 2 ^ 62"
  have "unat (Heap_roundup sz) \<le> (unat sz + 15) div 16 * 16" unfolding unat_roundup by (rule mod_less_eq_dividend)
  also have "\<dots> \<le> unat sz + 15" by simp
  finally show ?thesis using sz by simp
qed

lemma length_eyecatcher [simp]: "length eyecatcher = 4"
  by (simp add: eyecatcher_def)

lemma set_eyecatchers_guarded:
  assumes "length bs = unat (Heap_roundup sz) + 8"
  shows "set_eyecatchers (Heap_roundup sz) bs = Some (guarded (Heap_roundup sz) bs)" "length (guarded (Heap_roundup sz) bs) = unat (Heap_roundup sz) + 8"
  using assms roundup_sizes(2) [of sz] by (simp_all add: set_eyecatchers_def write_int_def guarded_def)

lemma check_damage:
  assumes "recorded h v e f x" "int_before p = Some (v - 1)"
  shows "checkEyecatchers h p (tk_size x) = Some (damage x)"
  using assms by (auto simp: recorded_def checkEyecatchers_def get_block_def read_int_def damage_def add.commute)

section \<open>The registry\<close>

lemma recorded_same:
  assumes "recorded h v e f x" "hp_elements h' e = hp_elements h e" "hp_files h' f = hp_files h f"
    "hp_blocks h' (v - 1) = hp_blocks h (v - 1)"
  shows "recorded h' v e f x"
  using assms unfolding recorded_def by (elim exE conjE) simp

lemma registryD:
  assumes "registry_ok h K live"
  shows "live v = None \<longleftrightarrow> K v = None" "K v = Some (e, f) \<Longrightarrow> recorded h v e f (the (live v))"
    "\<lbrakk>K v = Some (e, f); K w = Some (e', f'); e = e' \<or> f = f'\<rbrakk> \<Longrightarrow> v = w"
    "hp_elements h e = None \<Longrightarrow> e \<notin> fst ` ran K" "hp_files h f = None \<Longrightarrow> f \<notin> snd ` ran K"
proof -
  have "dom K = dom live" and ran: "dom (hp_elements h) = fst ` ran K" "dom (hp_files h) = snd ` ran K"
    using assms by (simp_all add: registry_ok_def)
  then show "live v = None \<longleftrightarrow> K v = None" by (metis domIff)
  show "hp_elements h e = None \<Longrightarrow> e \<notin> fst ` ran K" "hp_files h f = None \<Longrightarrow> f \<notin> snd ` ran K"
    unfolding ran [symmetric] by (simp_all add: domIff)
  have rec: "\<forall>v e f. K v = Some (e, f) \<longrightarrow> recorded h v e f (the (live v))"
    using assms unfolding registry_ok_def by (elim conjE)
  show "K v = Some (e, f) \<Longrightarrow> recorded h v e f (the (live v))" using rec [rule_format, of v e f] by simp
  have inj: "\<forall>v w e f e' f'. K v = Some (e, f) \<longrightarrow> K w = Some (e', f') \<longrightarrow> e = e' \<or> f = f' \<longrightarrow> v = w"
    using assms unfolding registry_ok_def by (elim conjE)
  show "\<lbrakk>K v = Some (e, f); K w = Some (e', f'); e = e' \<or> f = f'\<rbrakk> \<Longrightarrow> v = w"
    using inj [rule_format, of v e f w e' f'] by simp
qed

lemma in_ran: "K v = Some (e, f) \<Longrightarrow> e \<in> fst ` ran K \<and> f \<in> snd ` ran K"
  by (force intro: ranI)

lemma registry_insert:
  assumes R: "registry_ok h K live" and K: "K v = None" "e \<notin> fst ` ran K" "f \<notin> snd ` ran K"
    and h': "hp_elements h' = (hp_elements h)(e \<mapsto> s)" "hp_files h' = (hp_files h)(f \<mapsto> name)"
      "\<And>w. K w \<noteq> None \<Longrightarrow> hp_blocks h' (w - 1) = hp_blocks h (w - 1)" "recorded h' v e f x"
  shows "registry_ok h' (K(v \<mapsto> (e, f))) (live(v \<mapsto> x))"
  unfolding registry_ok_def
proof (intro conjI allI impI)
  have ran: "ran (K(v \<mapsto> (e, f))) = insert (e, f) (ran K)" using K(1) by (rule ran_map_upd)
  show "dom (K(v \<mapsto> (e, f))) = dom (live(v \<mapsto> x))" using R by (simp add: registry_ok_def)
  show "dom (hp_elements h') = fst ` ran (K(v \<mapsto> (e, f)))" "dom (hp_files h') = snd ` ran (K(v \<mapsto> (e, f)))"
    using R unfolding ran h' registry_ok_def by simp_all
  fix w e' f'
  assume w: "(K(v \<mapsto> (e, f))) w = Some (e', f')"
  show "recorded h' w e' f' (the ((live(v \<mapsto> x)) w))"
  proof (cases "w = v")
    case True
    then show ?thesis using w h'(4) by simp
  next
    case False
    with w have k: "K w = Some (e', f')" by simp
    have "e' \<noteq> e" "f' \<noteq> f" using in_ran [where K = K and v = w, OF k] K by auto
    with recorded_same [OF registryD(2) [OF R k], of h'] h'(1,2) h'(3) [of w] k False show ?thesis by simp
  qed
next
  fix w w' e1 f1 e2 f2
  assume "(K(v \<mapsto> (e, f))) w = Some (e1, f1)" "(K(v \<mapsto> (e, f))) w' = Some (e2, f2)" "e1 = e2 \<or> f1 = f2"
  then show "w = w'"
    using registryD(3) [OF R, of w e1 f1 w' e2 f2] in_ran [of K w e1 f1] in_ran [of K w' e2 f2] K(2,3) by (auto split: if_splits)
qed

lemma registry_remove:
  assumes R: "registry_ok h K live" and K: "K v = Some (e, f)"
    and h': "hp_elements h' = (hp_elements h)(e := None)" "hp_files h' = (hp_files h)(f := None)"
      "\<And>w. w \<noteq> v \<Longrightarrow> K w \<noteq> None \<Longrightarrow> hp_blocks h' (w - 1) = hp_blocks h (w - 1)"
  shows "registry_ok h' (K(v := None)) (live(v := None))"
  unfolding registry_ok_def
proof (intro conjI allI impI)
  have ran: "fst ` ran (K(v := None)) = fst ` ran K - {e}" "snd ` ran (K(v := None)) = snd ` ran K - {f}"
  proof -
    have one: "w = v" if "K w = Some (e, f)" for w using registryD(3) [OF R K that] by simp
    have m: "ran (K(v := None)) = ran K - {(e, f)}"
    proof (rule set_eqI)
      fix q
      have "q \<in> ran (K(v := None)) \<longleftrightarrow> (\<exists>w. w \<noteq> v \<and> K w = Some q)" by (auto simp: ran_def)
      also have "\<dots> \<longleftrightarrow> (\<exists>w. K w = Some q) \<and> q \<noteq> (e, f)" using one K by (metis option.inject)
      finally show "q \<in> ran (K(v := None)) \<longleftrightarrow> q \<in> ran K - {(e, f)}" by (simp add: ran_def)
    qed
    have "q = (e, f)" if "q \<in> ran K" "fst q = e \<or> snd q = f" for q
    proof -
      obtain w where w: "K w = Some (fst q, snd q)" using \<open>q \<in> ran K\<close> by (auto simp: ran_def)
      with registryD(3) [OF R K w] that(2) K show ?thesis by (cases q) auto
    qed
    then have n: "fst q \<noteq> e \<and> snd q \<noteq> f" if "q \<in> ran K - {(e, f)}" for q using that by blast
    have "fst ` (ran K - {(e, f)}) = fst ` ran K - {e}"
    proof
      show "fst ` (ran K - {(e, f)}) \<subseteq> fst ` ran K - {e}" using n by blast
      show "fst ` ran K - {e} \<subseteq> fst ` (ran K - {(e, f)})" by force
    qed
    moreover have "snd ` (ran K - {(e, f)}) = snd ` ran K - {f}"
    proof
      show "snd ` (ran K - {(e, f)}) \<subseteq> snd ` ran K - {f}" using n by blast
      show "snd ` ran K - {f} \<subseteq> snd ` (ran K - {(e, f)})" by force
    qed
    ultimately show "fst ` ran (K(v := None)) = fst ` ran K - {e}" "snd ` ran (K(v := None)) = snd ` ran K - {f}"
      by (simp_all only: m)
  qed
  show "dom (K(v := None)) = dom (live(v := None))" using R by (simp add: registry_ok_def)
  show "dom (hp_elements h') = fst ` ran (K(v := None))" "dom (hp_files h') = snd ` ran (K(v := None))"
    using R unfolding ran h' registry_ok_def by simp_all
  fix w e' f'
  assume w: "(K(v := None)) w = Some (e', f')"
  then have k: "K w = Some (e', f')" "w \<noteq> v" by (auto split: if_splits)
  then have "e' \<noteq> e" "f' \<noteq> f" using registryD(3) [OF R K k(1)] by auto
  with recorded_same [OF registryD(2) [OF R k(1)], of h'] h'(1,2) h'(3) [of w] k show "recorded h' w e' f' (the ((live(v := None)) w))"
    by simp
next
  fix w w' e1 f1 e2 f2
  assume "(K(v := None)) w = Some (e1, f1)" "(K(v := None)) w' = Some (e2, f2)" "e1 = e2 \<or> f1 = f2"
  then show "w = w'" using registryD(3) [OF R, of w e1 f1 w' e2 f2] by (auto split: if_splits)
qed

section \<open>The functions\<close>

lemma tree_content_used: "in_tree els t ns K \<Longrightarrow> K v = Some (e, f) \<Longrightarrow> els e \<noteq> None"
  using in_tree_content [of els t ns K v e] by (auto simp: record_at_def)

lemma in_tree_other:
  assumes "in_tree els t ns K" "\<And>v f. K v \<noteq> Some (e, f)"
  shows "in_tree (els(e := y)) t ns K"
proof (rule in_tree_memory [OF assms(1)])
  fix v e'
  assume "record_at K v = Some e'"
  then obtain f where "K v = Some (e', f)" by (auto simp: record_at_def)
  with assms(2) have "e' \<noteq> e" by auto
  then show "(els(e := y)) e' = els e'" by simp
qed

lemma add_element_held:
  assumes tree: "in_tree (hp_elements h) (hp_tree h) (hp_nodes h) K" and reg: "registry_ok h K live"
    and new: "K (Suc b) = None" "e \<notin> fst ` ran K" "f \<notin> snd ` ran K" "hp_nodes h a = None" "al_node al = Some a"
    and h1: "h1 = h\<lparr>hp_elements := (hp_elements h)(e \<mapsto> s), hp_files := (hp_files h)(f \<mapsto> name), hp_blocks := bl\<rparr>"
    and bl: "\<And>w. K w \<noteq> None \<Longrightarrow> bl (w - 1) = hp_blocks h (w - 1)" and rec: "recorded h1 (Suc b) e f x"
  obtains t ns where "add_element (Some e) space al h1 = Some (h1\<lparr>hp_tree := t, hp_nodes := ns\<rparr>)"
    "in_tree (hp_elements h1) t ns (K(Suc b \<mapsto> (e, f)))"
    "registry_ok (h1\<lparr>hp_tree := t, hp_nodes := ns\<rparr>) (K(Suc b \<mapsto> (e, f))) (live(Suc b \<mapsto> x))"
proof -
  have s: "ptr_value (se_ptr s) = Suc b" using rec h1 by (auto simp: recorded_def)
  have "K v \<noteq> Some (e, f')" for v f' using in_ran [of K v e f'] new(2) by auto
  from in_tree_other [OF tree this] have "in_tree (hp_elements h1) (hp_tree h) (hp_nodes h) K" by (simp add: h1)
  from heap_add [OF this _ s new(1) new(4), of e space f] obtain t ns where
    t: "TreeAdd (hp_elements h1) (hp_tree h) (hp_nodes h) (Some e) space (\<lambda>_. Some a) = Some (None, t, ns)"
    "in_tree (hp_elements h1) t ns (K(Suc b \<mapsto> (e, f)))" by (auto simp: h1)
  have "add_element (Some e) space al h1 = Some (h1\<lparr>hp_tree := t, hp_nodes := ns\<rparr>)"
    using t(1) new(5) by (simp add: add_element_def h1)
  moreover have "registry_ok (h1\<lparr>hp_tree := t, hp_nodes := ns\<rparr>) (K(Suc b \<mapsto> (e, f))) (live(Suc b \<mapsto> x))"
    by (rule registry_insert [OF reg new(1-3), where s = s and name = name])
      (use bl rec in \<open>simp_all add: h1 recorded_def\<close>)
  ultimately show ?thesis using that t(2) by blast
qed

definition new_block :: "string \<Rightarrow> int \<Rightarrow> 64 word \<Rightarrow> bytes \<Rightarrow> tracked" where
  "new_block file line sz bs = \<lparr>tk_file = file, tk_line = line, tk_size = Heap_roundup sz,
     tk_bytes = guarded (Heap_roundup sz) (resized (unat (Heap_roundup sz) + 8) bs)\<rparr>"

lemma length_resized [simp]: "length (resized n bs) = n"
  by (simp add: resized_def)

lemma mymalloc_held:
  assumes rel: "heap_rel h (live, mx)"
    and al: "al_element al = Some e" "hp_elements h e = None" "al_file al = Some f" "hp_files h f = None"
      "al_block al = Some b" "hp_blocks h b = None" "Suc b + 4 < 2 ^ 64" "al_node al = Some a" "hp_nodes h a = None"
    and l': "live' = live(Suc b \<mapsto> new_block file line sz [])"
  shows "\<exists>h'. mymalloc file line sz al h = Some (int_after (Some b), [], h') \<and> heap_rel h' (live', max mx (live_total live'))"
proof -
  let ?r = "Heap_roundup sz" and ?x = "new_block file line sz []"
  from rel have R: "\<not> hp_locked h" "hp_max h = mx" "held h live" by (simp_all add: heap_rel_def)
  from R(3) obtain K where K: "in_tree (hp_elements h) (hp_tree h) (hp_nodes h) K" "registry_ok h K live" "hp_current h = live_total live"
    "finite (dom live)" by (rule heldE)
  have new: "K (Suc b) = None"
  proof (rule ccontr)
    assume "K (Suc b) \<noteq> None"
    then obtain e' f' where "K (Suc b) = Some (e', f')" by auto
    with registryD(2) [OF K(2)] al(6) show False by (fastforce simp: recorded_def)
  qed
  define h1 where "h1 = h\<lparr>hp_locked := True, hp_elements := (hp_elements h)(e \<mapsto> \<lparr>se_file = Some f, se_line = line, se_ptr = Some b, se_size = ?r\<rparr>),
    hp_files := (hp_files h)(f \<mapsto> file), hp_blocks := (hp_blocks h)(b \<mapsto> tk_bytes ?x)\<rparr>"
  have z: "resized (unat ?r + 8) [] = replicate (unat ?r + 8) 0" by (simp add: resized_def)
  have block: "set_eyecatchers ?r (replicate (unat (?r + 8)) 0) = Some (tk_bytes ?x)" "length (tk_bytes ?x) = unat ?r + 8"
    using set_eyecatchers_guarded [of "replicate (unat ?r + 8) 0" sz] by (simp_all add: new_block_def roundup_sizes z)
  have rec: "recorded h1 (Suc b) e f ?x" using al(7) block(2) by (simp add: recorded_def h1_def new_block_def)
  have K': "in_tree (hp_elements (h\<lparr>hp_locked := True\<rparr>)) (hp_tree (h\<lparr>hp_locked := True\<rparr>)) (hp_nodes (h\<lparr>hp_locked := True\<rparr>)) K"
    "registry_ok (h\<lparr>hp_locked := True\<rparr>) K live" using K(1,2) by (simp_all add: registry_ok_def recorded_def)
  have bl: "((hp_blocks h)(b \<mapsto> tk_bytes ?x)) (w - 1) = hp_blocks (h\<lparr>hp_locked := True\<rparr>) (w - 1)" if "K w \<noteq> None" for w
  proof -
    from that obtain e' f' where "K w = Some (e', f')" by auto
    with registryD(2) [OF K(2) this] new have "w \<noteq> Suc b" "w \<noteq> 0" by (auto simp: recorded_def)
    then show ?thesis by auto
  qed
  have h1: "h1 = (h\<lparr>hp_locked := True\<rparr>)\<lparr>hp_elements := (hp_elements (h\<lparr>hp_locked := True\<rparr>))(e \<mapsto>
      \<lparr>se_file = Some f, se_line = line, se_ptr = Some b, se_size = ?r\<rparr>), hp_files := (hp_files (h\<lparr>hp_locked := True\<rparr>))(f \<mapsto> file),
      hp_blocks := (hp_blocks h)(b \<mapsto> tk_bytes ?x)\<rparr>" by (simp add: h1_def)
  have nodes: "hp_nodes (h\<lparr>hp_locked := True\<rparr>) a = None" using al(9) by simp
  from add_element_held [where space = "32 + (of_nat (length file) + 1) + (?r + 8)", OF K' new registryD(4) [OF K(2) al(2)] registryD(5) [OF K(2) al(4)] nodes al(8) h1 bl rec]
  obtain t ns where t: "add_element (Some e) (32 + (of_nat (length file) + 1) + (?r + 8)) al h1 = Some (h1\<lparr>hp_tree := t, hp_nodes := ns\<rparr>)"
    "in_tree (hp_elements h1) t ns (K(Suc b \<mapsto> (e, f)))" "registry_ok (h1\<lparr>hp_tree := t, hp_nodes := ns\<rparr>) (K(Suc b \<mapsto> (e, f))) live'"
    unfolding l' by blast
  let ?h = "unlock_heap (count_up ?r (h1\<lparr>hp_tree := t, hp_nodes := ns\<rparr>))"
  have run: "mymalloc file line sz al h = Some (int_after (Some b), [], ?h)"
    using R(1) al(1,3,5) block(1) t(1) by (simp add: mymalloc_def lock_heap_def Let_def h1_def)
  have "live (Suc b) = None" using registryD(1) [OF K(2)] new by simp
  then have tot: "live_total live' = live_total live + ?r" unfolding l' using total_insert [OF K(4)] by (simp add: new_block_def)
  have "hp_current ?h = live_total live'" "finite (dom live')" using tot K(3,4) by (simp_all add: unlock_heap_def count_up_def h1_def l')
  moreover have "in_tree (hp_elements ?h) (hp_tree ?h) (hp_nodes ?h) (K(Suc b \<mapsto> (e, f)))" "registry_ok ?h (K(Suc b \<mapsto> (e, f))) live'"
    using t(2,3) by (simp_all add: unlock_heap_def count_up_def)
  ultimately have "held ?h live'" unfolding held_def by blast
  then have "heap_rel ?h (live', max mx (live_total live'))"
    using R(2) K(3) tot by (auto simp: heap_rel_def unlock_heap_def count_up_def h1_def max_def)
  with run show ?thesis by blast
qed

lemma registry_entry:
  assumes "registry_ok h K live" "live v = Some x"
  obtains e f where "K v = Some (e, f)"
proof -
  have "K v \<noteq> None" using registryD(1) [OF assms(1), of v] assms(2) by simp
  with that show ?thesis by auto
qed

lemma check_found:
  assumes "registry_ok h K live" "K v = Some (e, f)" "live v = Some x" "ptr_value (int_before p) = v"
  shows "int_before p = Some (v - 1)" "v = Suc (v - 1)" "hp_blocks h (v - 1) = Some (tk_bytes x)" "hp_files h f = Some (tk_file x)"
    "hp_elements h e = Some \<lparr>se_file = Some f, se_line = tk_line x, se_ptr = Some (v - 1), se_size = tk_size x\<rparr>"
    "checkEyecatchers h p (tk_size x) = Some (damage x)"
proof -
  have r: "recorded h v e f x" using registryD(2) [OF assms(1,2)] assms(3) by simp
  then obtain b where "v = Suc b" "hp_blocks h b = Some (tk_bytes x)" "hp_files h f = Some (tk_file x)"
    "hp_elements h e = Some \<lparr>se_file = Some f, se_line = tk_line x, se_ptr = Some b, se_size = tk_size x\<rparr>"
    unfolding recorded_def by blast
  then show v: "v = Suc (v - 1)" "hp_blocks h (v - 1) = Some (tk_bytes x)" "hp_files h f = Some (tk_file x)"
    "hp_elements h e = Some \<lparr>se_file = Some f, se_line = tk_line x, se_ptr = Some (v - 1), se_size = tk_size x\<rparr>" by simp_all
  then show "int_before p = Some (v - 1)" using assms(4) by (cases "int_before p") auto
  with check_damage [OF r] show "checkEyecatchers h p (tk_size x) = Some (damage x)" by blast
qed

lemma unlink_missing:
  assumes "held h live" "live (ptr_value (int_before p)) = None"
  shows "Internal_heap_unlink fl ln p al h = Some (False, [RemoveFailed fl ln], h)"
proof -
  from assms(1) obtain K where K: "in_tree (hp_elements h) (hp_tree h) (hp_nodes h) K" "registry_ok h K live" by (rule heldE)
  have "record_at K (ptr_value (int_before p)) = None" using registryD(1) [OF K(2)] assms(2) by (simp add: record_at_def)
  with heap_find [OF K(1), of "int_before p"] show ?thesis by (auto simp: Internal_heap_unlink_def)
qed

lemma unlink_held:
  assumes held: "held h live" and x: "live (ptr_value (int_before p)) = Some x" and temp: "hp_nodes h (al_temp al) = None"
  shows "\<exists>h'. Internal_heap_unlink fl ln p al h = Some (True, damage x, h') \<and> held h' (live(ptr_value (int_before p) := None)) \<and>
    hp_blocks h' = hp_blocks h \<and> hp_max h' = hp_max h \<and> hp_locked h' = hp_locked h"
proof -
  let ?v = "ptr_value (int_before p)"
  from held obtain K where K: "in_tree (hp_elements h) (hp_tree h) (hp_nodes h) K" "registry_ok h K live" "hp_current h = live_total live"
    "finite (dom live)" by (rule heldE)
  from K(2) x obtain e f where k: "K ?v = Some (e, f)" by (rule registry_entry)
  note found = check_found [OF K(2) k x refl]
  from heap_remove_node [OF K(1) _ temp, of "int_before p" e] k obtain a t ns where
    a: "TreeFind (hp_elements h) (hp_tree h) (hp_nodes h) (int_before p) = Some (Some a)"
    "map_option nd_content (get_node (hp_nodes h) (Some a)) = Some (Some e)"
    "TreeRemoveNodeIndex (hp_tree h) (hp_nodes h) (Some a) 0 (al_temp al) = Some (Some e, t, ns)"
    "in_tree (hp_elements h) t ns (K(?v := None))" by (auto simp: record_at_def)
  define h' where "h' = h\<lparr>hp_files := (hp_files h)(f := None), hp_current := hp_current h - tk_size x, hp_tree := t, hp_nodes := ns,
    hp_elements := (hp_elements h)(e := None)\<rparr>"
  have "Internal_heap_unlink fl ln p al h = Some (True, damage x, h')"
    by (simp add: Internal_heap_unlink_def a get_element_def found(4,5,6) free_file_def free_element_def h'_def)
  moreover have "held h' (live(?v := None))" unfolding held_def
  proof (intro conjI exI)
    show "hp_current h' = live_total (live(?v := None))" using K(3) total_remove [OF K(4) x] by (simp add: h'_def)
    show "finite (dom (live(?v := None)))" using K(4) by simp
    have "(K(?v := None)) w \<noteq> Some (e, f')" for w f' using registryD(3) [OF K(2) k, of w e f'] by auto
    then have "in_tree ((hp_elements h)(e := None)) t ns (K(?v := None))" by (rule in_tree_other [OF a(4)])
    then show "in_tree (hp_elements h') (hp_tree h') (hp_nodes h') (K(?v := None))" by (simp add: h'_def)
    show "registry_ok h' (K(?v := None)) (live(?v := None))" by (rule registry_remove [OF K(2) k]) (simp_all add: h'_def)
  qed
  ultimately show ?thesis by (auto simp: h'_def)
qed

lemma held_block:
  assumes "held h live" "live (Suc b) = None"
  shows "held (h\<lparr>hp_blocks := (hp_blocks h)(b := y)\<rparr>) live"
proof -
  from assms(1) obtain K where K: "in_tree (hp_elements h) (hp_tree h) (hp_nodes h) K" "registry_ok h K live" "hp_current h = live_total live"
    "finite (dom live)" by (rule heldE)
  have "recorded (h\<lparr>hp_blocks := (hp_blocks h)(b := y)\<rparr>) v e f (the (live v))" if k: "K v = Some (e, f)" for v e f
  proof (rule recorded_same [OF registryD(2) [OF K(2) k]])
    have "v \<noteq> Suc b" "v \<noteq> 0" using registryD(1) [OF K(2), of v] registryD(2) [OF K(2) k] k assms(2) by (auto simp: recorded_def)
    then show "hp_blocks (h\<lparr>hp_blocks := (hp_blocks h)(b := y)\<rparr>) (v - 1) = hp_blocks h (v - 1)" by auto
  qed simp_all
  with K(2) have "registry_ok (h\<lparr>hp_blocks := (hp_blocks h)(b := y)\<rparr>) K live" unfolding registry_ok_def by simp
  with K show ?thesis unfolding held_def by auto
qed

lemma myfree_held:
  assumes rel: "heap_rel h (live, mx)" and temp: "hp_nodes h (al_temp al) = None"
  shows "\<exists>h'. myfree fl ln p al h = Some (case live (ptr_value (int_before p)) of None \<Rightarrow> [RemoveFailed fl ln] | Some x \<Rightarrow> damage x, h') \<and>
    heap_rel h' (live(ptr_value (int_before p) := None), mx)"
proof -
  let ?v = "ptr_value (int_before p)" and ?h = "h\<lparr>hp_locked := True\<rparr>"
  from rel have R: "\<not> hp_locked h" "hp_max h = mx" "held ?h live" by (simp_all add: heap_rel_def)
  show ?thesis
  proof (cases "live ?v")
    case None
    with unlink_missing [OF R(3) None, of fl ln al] R show ?thesis
      by (simp add: myfree_def lock_heap_def heap_rel_def unlock_heap_def fun_upd_idem)
  next
    case (Some x)
    from R(3) obtain K where K: "registry_ok ?h K live" by (rule heldE)
    from K Some obtain e f where k: "K ?v = Some (e, f)" by (rule registry_entry)
    note found = check_found [OF K k Some refl]
    from unlink_held [OF R(3) Some, of al fl ln] temp obtain h' where h': "Internal_heap_unlink fl ln p al ?h = Some (True, damage x, h')"
      "held h' (live(?v := None))" "hp_blocks h' = hp_blocks h" "hp_max h' = mx" using R(2) by auto
    have "held (h'\<lparr>hp_blocks := (hp_blocks h')(?v - 1 := None)\<rparr>) (live(?v := None))"
      using held_block [OF h'(2), of "?v - 1" None] found(2) by simp
    moreover obtain c where "int_before p = Some c" using found(1) by blast
    ultimately show ?thesis using R(1) h'(1,3,4) found(3) Some
      by (simp add: myfree_def lock_heap_def heap_rel_def unlock_heap_def free_block_def)
  qed
qed

lemma Heap_unlink_held:
  assumes rel: "heap_rel h (live, mx)" and temp: "hp_nodes h (al_temp al) = None"
  shows "\<exists>h'. Heap_unlink fl ln p al h = Some (case live (ptr_value (int_before p)) of None \<Rightarrow> [RemoveFailed fl ln] | Some x \<Rightarrow> damage x, h') \<and>
    heap_rel h' (live(ptr_value (int_before p) := None), mx)"
proof -
  let ?v = "ptr_value (int_before p)" and ?h = "h\<lparr>hp_locked := True\<rparr>"
  from rel have R: "\<not> hp_locked h" "hp_max h = mx" "held ?h live" by (simp_all add: heap_rel_def)
  show ?thesis
  proof (cases "live ?v")
    case None
    with unlink_missing [OF R(3) None, of fl ln al] R show ?thesis
      by (simp add: Heap_unlink_def lock_heap_def heap_rel_def unlock_heap_def fun_upd_idem)
  next
    case (Some x)
    from unlink_held [OF R(3) Some, of al fl ln] temp obtain h' where "Internal_heap_unlink fl ln p al ?h = Some (True, damage x, h')"
      "held h' (live(?v := None))" "hp_max h' = mx" using R(2) by auto
    then show ?thesis using R(1) Some by (simp add: Heap_unlink_def lock_heap_def heap_rel_def unlock_heap_def)
  qed
qed

lemma myrealloc_missing:
  assumes rel: "heap_rel h (live, mx)" and temp: "hp_nodes h (al_temp al) = None" and no: "live (ptr_value (int_before p)) = None"
  shows "\<exists>h'. myrealloc fl ln p sz al h = Some (None, [ReallocFailed fl ln], h') \<and> heap_rel h' (live, mx)"
proof -
  let ?v = "ptr_value (int_before p)"
  from rel have R: "\<not> hp_locked h" "hp_max h = mx" "held h live" by (simp_all add: heap_rel_def)
  from R(3) obtain K where K: "in_tree (hp_elements h) (hp_tree h) (hp_nodes h) K" "registry_ok h K live" "hp_current h = live_total live"
    "finite (dom live)" by (rule heldE)
  have k: "K ?v = None" using registryD(1) [OF K(2)] no by simp
  then have "record_at K ?v = None" "K(?v := None) = K" by (simp_all add: record_at_def fun_upd_idem)
  with heap_remove_key [OF K(1) temp, of "int_before p"] obtain t ns where
    t: "TreeRemoveKey (hp_elements h) (hp_tree h) (hp_nodes h) (int_before p) (al_temp al) = Some (None, t, ns)" "in_tree (hp_elements h) t ns K"
    by auto
  let ?h = "unlock_heap (h\<lparr>hp_locked := True, hp_tree := t, hp_nodes := ns\<rparr>)"
  have "held ?h live" unfolding held_def using K t(2) by (auto simp: unlock_heap_def)
  then show ?thesis using R t(1) by (simp add: myrealloc_def lock_heap_def heap_rel_def unlock_heap_def)
qed

lemma myrealloc_held:
  assumes rel: "heap_rel h (live, mx)" and x: "live (ptr_value (int_before p)) = Some x" and temp: "hp_nodes h (al_temp al) = None"
    and al: "al_file al = Some f'" "hp_files h f' = None \<or> get_element h e = Some s \<and> se_file s = Some f'"
      "al_block al = Some b" "hp_blocks h b = None \<or> int_before p = Some b" "Suc b + 4 < 2 ^ 64" "al_node al = Some a"
    and rm: "TreeRemoveKey (hp_elements h) (hp_tree h) (hp_nodes h) (int_before p) (al_temp al) = Some (e, t, ns)" "ns a = None"
    and l': "live' = live(ptr_value (int_before p) := None, Suc b \<mapsto> new_block fl ln sz (tk_bytes x))"
  shows "\<exists>h'. myrealloc fl ln p sz al h = Some (int_after (Some b), damage x, h') \<and> heap_rel h' (live', max mx (live_total live'))"
proof -
  let ?v = "ptr_value (int_before p)" and ?r = "Heap_roundup sz" and ?x = "new_block fl ln sz (tk_bytes x)"
  from rel have R: "\<not> hp_locked h" "hp_max h = mx" "held h live" by (simp_all add: heap_rel_def)
  from R(3) obtain K where K: "in_tree (hp_elements h) (hp_tree h) (hp_nodes h) K" "registry_ok h K live" "hp_current h = live_total live"
    "finite (dom live)" by (rule heldE)
  from K(2) x obtain c f where k: "K ?v = Some (c, f)" by (rule registry_entry)
  note found = check_found [OF K(2) k x refl]
  obtain d where d: "int_before p = Some d" using found(1) by blast
  let ?K = "K(?v := None)" and ?live = "live(?v := None)"
  from heap_remove_key [OF K(1) temp, of "int_before p"] rm k have e: "e = Some c" and tree: "in_tree (hp_elements h) t ns ?K"
    by (auto simp: record_at_def)
  define h0 where "h0 = h\<lparr>hp_locked := True, hp_tree := t, hp_nodes := ns, hp_current := hp_current h + (?r - tk_size x),
    hp_max := max (hp_max h) (hp_current h + (?r - tk_size x)), hp_elements := (hp_elements h)(c := None),
    hp_files := (hp_files h)(f := None), hp_blocks := (hp_blocks h)(d := None)\<rparr>"
  have free: "?K w \<noteq> Some (c, f1)" for w f1 using registryD(3) [OF K(2) k, of w c f1] by auto
  then have "in_tree ((hp_elements h)(c := None)) t ns ?K" by (rule in_tree_other [OF tree])
  then have tree0: "in_tree (hp_elements h0) (hp_tree h0) (hp_nodes h0) ?K" by (simp add: h0_def)
  have reg0: "registry_ok h0 ?K ?live"
  proof (rule registry_remove [OF K(2) k])
    show "hp_blocks h0 (w - 1) = hp_blocks h (w - 1)" if w: "w \<noteq> ?v" "K w \<noteq> None" for w
    proof -
      from w(2) obtain e1 f1 where "K w = Some (e1, f1)" by auto
      with registryD(2) [OF K(2) this] have "w \<noteq> 0" by (auto simp: recorded_def)
      with w(1) d show ?thesis by (auto simp: h0_def)
    qed
  qed (simp_all add: h0_def)
  have nb: "hp_blocks h0 b = None" using al(4) d by (auto simp: h0_def)
  have nf: "hp_files h0 f' = None" using al(2) e found(5) by (auto simp: h0_def get_element_def)
  have new: "?K (Suc b) = None"
  proof (rule ccontr)
    assume "?K (Suc b) \<noteq> None"
    then obtain e1 f1 where "?K (Suc b) = Some (e1, f1)" by fastforce
    with registryD(2) [OF reg0] nb show False by (fastforce simp: recorded_def)
  qed
  define bs where "bs = tk_bytes ?x"
  define h1 where "h1 = h0\<lparr>hp_elements := (hp_elements h0)(c \<mapsto> \<lparr>se_file = Some f', se_line = ln, se_ptr = Some b, se_size = ?r\<rparr>),
    hp_files := (hp_files h0)(f' \<mapsto> fl), hp_blocks := (hp_blocks h0)(b \<mapsto> bs)\<rparr>"
  have block: "set_eyecatchers ?r (resized (unat (?r + 8)) (tk_bytes x)) = Some bs" "length bs = unat ?r + 8"
    using set_eyecatchers_guarded [of "resized (unat ?r + 8) (tk_bytes x)" sz] by (simp_all add: bs_def new_block_def roundup_sizes)
  have rec: "recorded h1 (Suc b) c f' ?x" using al(5) block(2) by (simp add: recorded_def h1_def new_block_def bs_def)
  have bl: "((hp_blocks h0)(b \<mapsto> bs)) (w - 1) = hp_blocks h0 (w - 1)" if "?K w \<noteq> None" for w
  proof -
    from that obtain e1 f1 where "?K w = Some (e1, f1)" by fastforce
    with registryD(2) [OF reg0 this] new have "w \<noteq> Suc b" "w \<noteq> 0" by (auto simp: recorded_def)
    then show ?thesis by auto
  qed
  have unused: "hp_elements h0 c = None" "hp_nodes h0 a = None" using rm(2) by (simp_all add: h0_def)
  let ?space = "32 + (?r + 8 - tk_size x) - of_nat (length (tk_file x)) + (of_nat (length fl) + 1)"
  from add_element_held [where space = ?space, OF tree0 reg0 new registryD(4) [OF reg0 unused(1)] registryD(5) [OF reg0 nf] unused(2) al(6) h1_def bl rec]
  obtain t' ns' where t': "add_element (Some c) ?space al h1 = Some (h1\<lparr>hp_tree := t', hp_nodes := ns'\<rparr>)"
    "in_tree (hp_elements h1) t' ns' (?K(Suc b \<mapsto> (c, f')))"
    "registry_ok (h1\<lparr>hp_tree := t', hp_nodes := ns'\<rparr>) (?K(Suc b \<mapsto> (c, f'))) live'"
    unfolding l' by blast
  let ?h = "unlock_heap (h1\<lparr>hp_tree := t', hp_nodes := ns'\<rparr>)"
  have run: "myrealloc fl ln p sz al h = Some (int_after (Some b), damage x, ?h)"
  proof -
    let ?g = "h\<lparr>hp_locked := True, hp_tree := t, hp_nodes := ns\<rparr>"
    have ck: "checkEyecatchers ?g p (tk_size x) = Some (damage x)" using found(6) by (simp add: checkEyecatchers_def get_block_def)
    have el: "get_element ?g (Some c) = Some \<lparr>se_file = Some f, se_line = tk_line x, se_ptr = Some d, se_size = tk_size x\<rparr>"
      using found(5) d by (simp add: get_element_def)
    have cu: "count_up (?r - tk_size x) ?g = ?g\<lparr>hp_current := hp_current h + (?r - tk_size x), hp_max := max (hp_max h) (hp_current h + (?r - tk_size x))\<rparr>"
      by (auto simp: count_up_def max_def)
    let ?g1 = "?g\<lparr>hp_current := hp_current h + (?r - tk_size x), hp_max := max (hp_max h) (hp_current h + (?r - tk_size x))\<rparr>"
    have gb: "get_block ?g1 (Some d) = Some (tk_bytes x)" using found(3) d by (simp add: get_block_def)
    let ?g2 = "?g1\<lparr>hp_blocks := (hp_blocks h)(d := None, b \<mapsto> bs)\<rparr>"
    have mb: "move_block (Some d) (Some b) bs ?g1 = Some ?g2" using found(3) d by (simp add: move_block_def free_block_def)
    have gf: "get_file ?g2 (Some f) = Some (tk_file x)" using found(4) by (simp add: get_file_def)
    let ?g3 = "?g2\<lparr>hp_files := (hp_files h)(f := None, f' \<mapsto> fl)\<rparr>"
    have mf: "move_file (Some f) (Some f') fl ?g2 = Some ?g3" using found(4) by (simp add: move_file_def free_file_def)
    have g4: "?g3\<lparr>hp_elements := (hp_elements ?g3)(c \<mapsto> \<lparr>se_file = Some f', se_line = ln, se_ptr = Some b, se_size = ?r\<rparr>)\<rparr> = h1"
      by (simp add: h1_def h0_def)
    have rm': "TreeRemoveKey (hp_elements (h\<lparr>hp_locked := True\<rparr>)) (hp_tree (h\<lparr>hp_locked := True\<rparr>)) (hp_nodes (h\<lparr>hp_locked := True\<rparr>))
      (int_before p) (al_temp al) = Some (Some c, t, ns)" using rm(1) e by simp
    have "myrealloc fl ln p sz al h = do {
        h \<leftarrow> add_element (Some c) ?space al h1;
        Some (int_after (Some b), damage x, unlock_heap h)
      }"
      unfolding myrealloc_def lock_heap_def
      by (simp only: R(1) if_False bind.bind_lunit rm' split_conv option.distinct el ck Let_def cu gb block(1) mb gf mf g4 al(1,3) storageElement.simps)
    then show ?thesis using t'(1) by simp
  qed
  have fin: "finite (dom ?live)" using K(4) by simp
  have "?live (Suc b) = None" using registryD(1) [OF reg0] new by simp
  then have tot: "live_total live' = live_total live - tk_size x + ?r" unfolding l' using total_insert [OF fin] total_remove [OF K(4) x] by (simp add: new_block_def)
  then have tot2: "live_total live + (?r - tk_size x) = live_total live'" by simp
  have "hp_current ?h = live_total live'" "finite (dom live')" using tot2 K(3) fin by (simp_all add: unlock_heap_def h1_def h0_def l')
  moreover have "in_tree (hp_elements ?h) (hp_tree ?h) (hp_nodes ?h) (?K(Suc b \<mapsto> (c, f')))" "registry_ok ?h (?K(Suc b \<mapsto> (c, f'))) live'"
    using t'(2,3) by (simp_all add: unlock_heap_def)
  ultimately have "held ?h live'" unfolding held_def by blast
  then have "heap_rel ?h (live', max mx (live_total live'))"
    using R(2) K(3) tot2 by (simp add: heap_rel_def unlock_heap_def h1_def h0_def)
  with run show ?thesis by blast
qed

section \<open>Runs\<close>

text \<open>
  \<open>Store p i y\<close> is the program that writes a byte into the block before \<open>p\<close>; \<open>i\<close> counts from the first byte of the guard.
\<close>

datatype heap_op =
    Malloc string int "64 word" Allocs
  | Free string int ptr Allocs
  | Unlink string int ptr Allocs
  | Realloc string int ptr "64 word" Allocs
  | FindItem ptr
  | ScanHeap
  | Store ptr nat byte

datatype heap_result = Pointer ptr | Known bool | Nothing

definition store_byte :: "ptr \<Rightarrow> nat \<Rightarrow> byte \<Rightarrow> Heap \<Rightarrow> Heap option" where
  "store_byte p i y h = do {
     d \<leftarrow> int_before p;
     bs \<leftarrow> hp_blocks h d;
     if i < length bs then Some (h\<lparr>hp_blocks := (hp_blocks h)(d \<mapsto> bs[i := y])\<rparr>) else None
   }"

fun heap_step :: "Heap \<Rightarrow> heap_op \<Rightarrow> ((heap_result \<times> heap_event list) \<times> Heap) option" where
  "heap_step h (Malloc fl ln sz al) = do { (p, ev, h) \<leftarrow> mymalloc fl ln sz al h; Some ((Pointer p, ev), h) }"
| "heap_step h (Free fl ln p al) = do { (ev, h) \<leftarrow> myfree fl ln p al h; Some ((Nothing, ev), h) }"
| "heap_step h (Unlink fl ln p al) = do { (ev, h) \<leftarrow> Heap_unlink fl ln p al h; Some ((Nothing, ev), h) }"
| "heap_step h (Realloc fl ln p sz al) = do { (q, ev, h) \<leftarrow> myrealloc fl ln p sz al h; Some ((Pointer q, ev), h) }"
| "heap_step h (FindItem p) = do { (c, h) \<leftarrow> Heap_findItem p h; Some ((Known (c \<noteq> None), []), h) }"
| "heap_step h ScanHeap = do { (ev, h) \<leftarrow> HeapScan h; Some ((Nothing, ev), h) }"
| "heap_step h (Store p i y) = do { h \<leftarrow> store_byte p i y h; Some ((Nothing, []), h) }"

type_synonym heap_map = "(nat \<Rightarrow> tracked option) \<times> 64 word"

definition removed :: "string \<Rightarrow> int \<Rightarrow> nat \<Rightarrow> (nat \<Rightarrow> tracked option) \<Rightarrow> heap_event list" where
  "removed fl ln v live = (case live v of None \<Rightarrow> [RemoveFailed fl ln] | Some x \<Rightarrow> damage x)"

definition scan_line :: "(nat \<Rightarrow> tracked option) \<Rightarrow> nat \<Rightarrow> heap_event" where
  "scan_line live v = (let x = the (live v) in Scanned (tk_size x) (tk_line x) (tk_file x) (at_address v))"

fun heap_spec :: "heap_map \<Rightarrow> heap_op \<Rightarrow> (heap_result \<times> heap_event list) \<times> heap_map" where
  "heap_spec (live, mx) (Malloc fl ln sz al) =
     (let live = live(ptr_value (al_block al) \<mapsto> new_block fl ln sz []) in
      ((Pointer (int_after (al_block al)), []), live, max mx (live_total live)))"
| "heap_spec (live, mx) (Free fl ln p al) =
     (let v = ptr_value (int_before p) in ((Nothing, removed fl ln v live), live(v := None), mx))"
| "heap_spec (live, mx) (Unlink fl ln p al) =
     (let v = ptr_value (int_before p) in ((Nothing, removed fl ln v live), live(v := None), mx))"
| "heap_spec (live, mx) (Realloc fl ln p sz al) =
     (let v = ptr_value (int_before p) in
      case live v of
        None \<Rightarrow> ((Pointer None, [ReallocFailed fl ln]), live, mx)
      | Some x \<Rightarrow>
          (let live = live(v := None, ptr_value (al_block al) \<mapsto> new_block fl ln sz (tk_bytes x)) in
           ((Pointer (int_after (al_block al)), damage x), live, max mx (live_total live))))"
| "heap_spec (live, mx) (FindItem p) = ((Known (live (ptr_value (int_before p)) \<noteq> None), []), live, mx)"
| "heap_spec (live, mx) ScanHeap =
     ((Nothing, ScanStart (live_total live) # map (scan_line live) (sorted_list_of_set (dom live)) @ [ScanEnd]), live, mx)"
| "heap_spec (live, mx) (Store p i y) =
     (let v = ptr_value (int_before p) in
      ((Nothing, []), live(v := map_option (\<lambda>x. x\<lparr>tk_bytes := (tk_bytes x)[i := y]\<rparr>) (live v)), mx))"

text \<open>
  What the system owes: memory that is not in use, except what \<open>realloc\<close> and the removal have just given back. The failures
  have theorems of their own. The program writes into allocated memory.
\<close>

definition new_at :: "(addr \<Rightarrow> 'a option) \<Rightarrow> ptr \<Rightarrow> bool" where
  "new_at m p \<longleftrightarrow> (case p of None \<Rightarrow> False | Some a \<Rightarrow> m a = None)"

definition realloc_ok :: "ptr \<Rightarrow> Allocs \<Rightarrow> Heap \<Rightarrow> bool" where
  "realloc_ok p al h \<longleftrightarrow>
     (case TreeRemoveKey (hp_elements h) (hp_tree h) (hp_nodes h) (int_before p) (al_temp al) of
        None \<Rightarrow> True
      | Some (e, t, ns) \<Rightarrow> e = None \<or>
          al_block al \<noteq> None \<and> int (ptr_value (al_block al)) + 4 < 2 ^ 64 \<and> (new_at (hp_blocks h) (al_block al) \<or> al_block al = int_before p) \<and>
          al_file al \<noteq> None \<and> (new_at (hp_files h) (al_file al) \<or> map_option se_file (get_element h e) = Some (al_file al)) \<and>
          new_at ns (al_node al))"

fun op_ok :: "heap_op \<Rightarrow> Heap \<Rightarrow> bool" where
  "op_ok (Malloc fl ln sz al) h \<longleftrightarrow> new_at (hp_elements h) (al_element al) \<and> new_at (hp_files h) (al_file al) \<and>
     new_at (hp_blocks h) (al_block al) \<and> int (ptr_value (al_block al)) + 4 < 2 ^ 64 \<and> new_at (hp_nodes h) (al_node al)"
| "op_ok (Free fl ln p al) h \<longleftrightarrow> hp_nodes h (al_temp al) = None"
| "op_ok (Unlink fl ln p al) h \<longleftrightarrow> hp_nodes h (al_temp al) = None"
| "op_ok (Realloc fl ln p sz al) h \<longleftrightarrow> hp_nodes h (al_temp al) = None \<and> realloc_ok p al h"
| "op_ok (FindItem p) h \<longleftrightarrow> True"
| "op_ok ScanHeap h \<longleftrightarrow> True"
| "op_ok (Store p i y) h \<longleftrightarrow> store_byte p i y h \<noteq> None"

fun heap_ok :: "heap_op list \<Rightarrow> Heap \<Rightarrow> bool" where
  "heap_ok [] h \<longleftrightarrow> True"
| "heap_ok (x # xs) h \<longleftrightarrow> op_ok x h \<and> (case heap_step h x of None \<Rightarrow> True | Some (r, h') \<Rightarrow> heap_ok xs h')"

section \<open>Looking and writing\<close>

lemma find_held:
  assumes "heap_rel h (live, mx)"
  shows "\<exists>c h'. Heap_findItem p h = Some (c, h') \<and> (c \<noteq> None \<longleftrightarrow> live (ptr_value (int_before p)) \<noteq> None) \<and> heap_rel h' (live, mx)"
proof -
  from assms have R: "\<not> hp_locked h" "hp_max h = mx" "held h live" by (simp_all add: heap_rel_def)
  from R(3) obtain K where K: "in_tree (hp_elements h) (hp_tree h) (hp_nodes h) K" "registry_ok h K live" by (rule heldE)
  have "record_at K v = None \<longleftrightarrow> live v = None" for v using registryD(1) [OF K(2)] by (simp add: record_at_def)
  with heap_find [OF K(1), of "int_before p"] R show ?thesis
    by (auto simp: Heap_findItem_def lock_heap_def heap_rel_def unlock_heap_def simp del: not_None_eq)
qed

lemma elements_in_tree:
  assumes "in_tree els t ns K"
  shows "\<exists>l. elements_from t ns None = Some l \<and> map nd_content l = map (record_at K) (sorted_list_of_set (dom K))"
proof -
  from assms obtain T where T: "heap_order.rep els t ns T" "balanced T" "registers els T K" by (rule in_treeE)
  have h: "holds 0 t ns T" "key_sorted (\<lambda>c. the (element_key els c)) (items T)" using T(1) by (simp_all add: tree_rep_def)
  from elements [OF h(1)] obtain l where l: "elements_from t ns None = Some l" "map (\<lambda>n. (nd_content n, nd_size n)) l = map snd (items T)" by blast
  have d: "dom (key_map (element_key els) T) = dom K" using registers_none [OF T(3)] by (auto simp: dom_def record_at_def)
  let ?vs = "sorted_list_of_set (dom K)"
  have "map (\<lambda>v. the (key_map (element_key els) T v)) ?vs = map snd (items T)"
    using sorted_entries(1) [OF h(2)] d by (simp add: key_map_def)
  then have "map fst (map (\<lambda>v. the (key_map (element_key els) T v)) ?vs) = map fst (map (\<lambda>n. (nd_content n, nd_size n)) l)"
    using l(2) by simp
  then have "map nd_content l = map (\<lambda>v. fst (the (key_map (element_key els) T v))) ?vs" by (simp add: comp_def)
  also have "\<dots> = map (record_at K) ?vs"
  proof (rule map_cong [OF refl])
    fix v
    assume "v \<in> set ?vs"
    with in_tree_counts [OF assms] have "K v \<noteq> None" by auto
    then have "key_map (element_key els) T v \<noteq> None" using registers_none [OF T(3), of v] by (simp add: record_at_def)
    then show "fst (the (key_map (element_key els) T v)) = record_at K v" using registers_content [OF T(3), of v] by (auto simp: content_of_def)
  qed
  finally show ?thesis using l(1) by blast
qed

lemma scan_at:
  assumes "registry_ok h K live"
  shows "map nd_content l = map (record_at K) vs \<Longrightarrow> set vs \<subseteq> dom live \<Longrightarrow> scan_elements h l = Some (map (scan_line live) vs)"
proof (induction l arbitrary: vs)
  case (Cons n l)
  then obtain v ws where vs: "vs = v # ws" "nd_content n = record_at K v" "map nd_content l = map (record_at K) ws" by (cases vs) auto
  obtain x where x: "live v = Some x" using Cons.prems(2) vs(1) by auto
  from assms x obtain e f where k: "K v = Some (e, f)" by (rule registry_entry)
  have "recorded h v e f x" using registryD(2) [OF assms k] x by simp
  then obtain b where "v = Suc b" "hp_files h f = Some (tk_file x)"
    "hp_elements h e = Some \<lparr>se_file = Some f, se_line = tk_line x, se_ptr = Some b, se_size = tk_size x\<rparr>"
    unfolding recorded_def by blast
  moreover have "scan_elements h l = Some (map (scan_line live) ws)" using Cons.IH [OF vs(3)] Cons.prems(2) vs(1) by simp
  ultimately show ?case using vs(1,2) k x by (simp add: record_at_def get_element_def get_file_def scan_line_def)
qed simp

lemma scan_held:
  assumes "heap_rel h (live, mx)"
  shows "\<exists>h'. HeapScan h = Some (ScanStart (live_total live) # map (scan_line live) (sorted_list_of_set (dom live)) @ [ScanEnd], h') \<and>
    heap_rel h' (live, mx)"
proof -
  from assms have R: "\<not> hp_locked h" "hp_max h = mx" "held (h\<lparr>hp_locked := True\<rparr>) live" by (simp_all add: heap_rel_def)
  from R(3) obtain K where K: "in_tree (hp_elements (h\<lparr>hp_locked := True\<rparr>)) (hp_tree (h\<lparr>hp_locked := True\<rparr>)) (hp_nodes (h\<lparr>hp_locked := True\<rparr>)) K"
    "registry_ok (h\<lparr>hp_locked := True\<rparr>) K live" "hp_current (h\<lparr>hp_locked := True\<rparr>) = live_total live" "finite (dom live)" by (rule heldE)
  have d: "dom K = dom live" using K(2) by (simp add: registry_ok_def)
  from elements_in_tree [OF K(1)] d obtain l where
    l: "elements_from (hp_tree h) (hp_nodes h) None = Some l" "map nd_content l = map (record_at K) (sorted_list_of_set (dom live))" by auto
  from scan_at [OF K(2) l(2)] K(4) have "scan_elements (h\<lparr>hp_locked := True\<rparr>) l = Some (map (scan_line live) (sorted_list_of_set (dom live)))" by simp
  then show ?thesis using R l(1) K(3) by (simp add: HeapScan_def lock_heap_def heap_rel_def unlock_heap_def)
qed

lemma store_held:
  assumes rel: "heap_rel h (live, mx)" and st: "store_byte p i y h = Some h'"
  shows "heap_rel h' (live(ptr_value (int_before p) := map_option (\<lambda>x. x\<lparr>tk_bytes := (tk_bytes x)[i := y]\<rparr>) (live (ptr_value (int_before p)))), mx)"
proof -
  let ?v = "ptr_value (int_before p)"
  from rel have R: "\<not> hp_locked h" "hp_max h = mx" "held h live" by (simp_all add: heap_rel_def)
  from st obtain d bs where d: "int_before p = Some d" "hp_blocks h d = Some bs" "h' = h\<lparr>hp_blocks := (hp_blocks h)(d \<mapsto> bs[i := y])\<rparr>"
    by (auto simp: store_byte_def bind_eq_Some_conv split: if_splits)
  show ?thesis
  proof (cases "live ?v")
    case None
    with held_block [OF R(3), of d "Some (bs[i := y])"] d R show ?thesis by (simp add: heap_rel_def fun_upd_idem)
  next
    case (Some x)
    let ?x = "x\<lparr>tk_bytes := (tk_bytes x)[i := y]\<rparr>"
    from R(3) obtain K where K: "in_tree (hp_elements h) (hp_tree h) (hp_nodes h) K" "registry_ok h K live" "hp_current h = live_total live"
      "finite (dom live)" by (rule heldE)
    have rec: "recorded h' w e f (the ((live(?v \<mapsto> ?x)) w))" if k: "K w = Some (e, f)" for w e f
    proof (cases "w = ?v")
      case True
      with registryD(2) [OF K(2) k] Some d show ?thesis by (auto simp: recorded_def)
    next
      case False
      have "w \<noteq> 0" using registryD(2) [OF K(2) k] by (auto simp: recorded_def)
      then have "hp_blocks h' (w - 1) = hp_blocks h (w - 1)" using False d by auto
      with recorded_same [OF registryD(2) [OF K(2) k], of h'] d False show ?thesis by simp
    qed
    have "dom (live(?v \<mapsto> ?x)) = dom live" using Some by auto
    then have "registry_ok h' K (live(?v \<mapsto> ?x))" using K(2) rec d(3) unfolding registry_ok_def by simp
    moreover have "live_total (live(?v \<mapsto> ?x)) = live_total live"
      unfolding live_total_def \<open>dom (live(?v \<mapsto> ?x)) = dom live\<close> using Some by (intro sum.cong) auto
    ultimately have "held h' (live(?v \<mapsto> ?x))" using K unfolding held_def by (auto simp: d(3))
    then show ?thesis using R Some d(3) by (simp add: heap_rel_def)
  qed
qed

lemma new_atE: "new_at m p \<Longrightarrow> (\<And>a. p = Some a \<Longrightarrow> m a = None \<Longrightarrow> P) \<Longrightarrow> P"
  by (auto simp: new_at_def split: option.splits)

lemma realloc_held:
  assumes rel: "heap_rel h (live, mx)" and ok: "op_ok (Realloc fl ln p sz al) h"
  shows "\<exists>h'. heap_step h (Realloc fl ln p sz al) = Some (fst (heap_spec (live, mx) (Realloc fl ln p sz al)), h') \<and>
    heap_rel h' (snd (heap_spec (live, mx) (Realloc fl ln p sz al)))"
proof -
  let ?v = "ptr_value (int_before p)"
  have temp: "hp_nodes h (al_temp al) = None" using ok by simp
  show ?thesis
  proof (cases "live ?v")
    case None
    with myrealloc_missing [OF rel temp None, of fl ln sz] show ?thesis by (auto simp: Let_def)
  next
    case (Some x)
    from rel obtain K where K: "in_tree (hp_elements h) (hp_tree h) (hp_nodes h) K" "registry_ok h K live"
      by (auto simp: heap_rel_def elim: heldE)
    from K(2) Some obtain c f where k: "K ?v = Some (c, f)" by (rule registry_entry)
    from heap_remove_key [OF K(1) temp, of "int_before p"] k obtain t ns where
      rm: "TreeRemoveKey (hp_elements h) (hp_tree h) (hp_nodes h) (int_before p) (al_temp al) = Some (Some c, t, ns)"
      by (auto simp: record_at_def)
    have "realloc_ok p al h" using ok by simp
    with rm obtain b f' where al: "al_block al = Some b" "Suc b + 4 < 2 ^ 64" "new_at (hp_blocks h) (Some b) \<or> Some b = int_before p"
      "al_file al = Some f'" "new_at (hp_files h) (Some f') \<or> map_option se_file (get_element h (Some c)) = Some (Some f')" "new_at ns (al_node al)"
      by (auto simp: realloc_ok_def)
    from al(6) obtain a where a: "al_node al = Some a" "ns a = None" by (rule new_atE)
    obtain s where s: "get_element h (Some c) = Some s" using check_found(5) [OF K(2) k Some refl] by (simp add: get_element_def)
    have "hp_files h f' = None \<or> get_element h (Some c) = Some s \<and> se_file s = Some f'" "hp_blocks h b = None \<or> int_before p = Some b"
      using al(3,5) s by (auto simp: new_at_def)
    from myrealloc_held [OF rel Some temp al(4) this(1) al(1) this(2) al(2) a(1) rm a(2) refl, of fl ln sz] show ?thesis
      using Some al(1) by (auto simp: Let_def)
  qed
qed

interpretation heap: simulation heap_rel heap_step heap_spec heap_ok
proof
  fix h lm x xs
  assume rel: "heap_rel h lm" and ok: "heap_ok (x # xs) h"
  obtain live mx where lm: "lm = (live, mx)" by (cases lm)
  note rel' = rel [unfolded lm]
  have op: "op_ok x h" using ok by simp
  have "\<exists>h'. heap_step h x = Some (fst (heap_spec lm x), h') \<and> heap_rel h' (snd (heap_spec lm x))"
  proof (cases x)
    case (Malloc fl ln sz al)
    with op have "new_at (hp_elements h) (al_element al)" "new_at (hp_files h) (al_file al)" "new_at (hp_blocks h) (al_block al)"
      "new_at (hp_nodes h) (al_node al)" and lt: "int (ptr_value (al_block al)) + 4 < 2 ^ 64" by simp_all
    then obtain e f b a where al: "al_element al = Some e" "hp_elements h e = None" "al_file al = Some f" "hp_files h f = None"
      "al_block al = Some b" "hp_blocks h b = None" "al_node al = Some a" "hp_nodes h a = None" by (elim new_atE)
    have "Suc b + 4 < 2 ^ 64" using lt al(5) by simp
    from mymalloc_held [OF rel' al(1-6) this al(7,8) refl, of fl ln sz] show ?thesis
      unfolding Malloc lm using al(5) by (auto simp: Let_def)
  next
    case (Free fl ln p al)
    with myfree_held [OF rel', of al fl ln p] op show ?thesis unfolding lm by (auto simp: Let_def removed_def)
  next
    case (Unlink fl ln p al)
    with Heap_unlink_held [OF rel', of al fl ln p] op show ?thesis unfolding lm by (auto simp: Let_def removed_def)
  next
    case (Realloc fl ln p sz al)
    with realloc_held [OF rel'] op show ?thesis unfolding lm by blast
  next
    case (FindItem p)
    with find_held [OF rel', of p] show ?thesis unfolding lm by auto
  next
    case ScanHeap
    with scan_held [OF rel'] show ?thesis unfolding lm by auto
  next
    case (Store p i y)
    with op obtain h' where h': "store_byte p i y h = Some h'" by auto
    with store_held [OF rel' h'] Store show ?thesis unfolding lm by (simp add: Let_def)
  qed
  with ok show "\<exists>h'. heap_step h x = Some (fst (heap_spec lm x), h') \<and> heap_rel h' (snd (heap_spec lm x)) \<and> heap_ok xs h'"
    by auto
qed

section \<open>Properties\<close>

lemma heap_rel_start: "heap_rel Heap_initialize (Map.empty, 0)"
proof -
  have "tree_rep (element_key Map.empty) ptrCompare ((TreeInitializeNoMalloc ptrCompare)\<lparr>tr_heap_tracking := False\<rparr>) Map.empty Lf"
    using tree_rep_empty [of "element_key Map.empty" ptrCompare] by (simp add: tree_rep_def holds_def)
  then have "in_tree Map.empty ((TreeInitializeNoMalloc ptrCompare)\<lparr>tr_heap_tracking := False\<rparr>) Map.empty Map.empty"
    unfolding in_tree_def by (intro exI [of _ Lf]) (simp add: registers_def record_at_def balanced_def)
  then show ?thesis
    by (auto simp: heap_rel_def held_def Heap_initialize_def live_total_def registry_ok_def intro!: exI [of _ Map.empty])
qed

lemma held_counts:
  assumes "held h live"
  shows "card (dom (hp_nodes h)) = card (dom live)" "card (dom (hp_elements h)) = card (dom live)" "card (dom (hp_files h)) = card (dom live)"
proof -
  from assms obtain K where K: "in_tree (hp_elements h) (hp_tree h) (hp_nodes h) K" "registry_ok h K live" by (rule heldE)
  note R = K(2) [unfolded registry_ok_def]
  have ran: "ran K = (\<lambda>v. the (K v)) ` dom K" by (force simp: ran_def dom_def image_iff)
  have inj: "inj_on (\<lambda>v. fst (the (K v))) (dom K)" "inj_on (\<lambda>v. snd (the (K v))) (dom K)"
    using registryD(3) [OF K(2)] by (auto simp: inj_on_def)
  have "dom K = dom live" using R by simp
  then show "card (dom (hp_nodes h)) = card (dom live)" using in_tree_counts [OF K(1)] by simp
  show "card (dom (hp_elements h)) = card (dom live)" "card (dom (hp_files h)) = card (dom live)"
    using card_image [OF inj(1)] card_image [OF inj(2)] R by (simp_all add: ran image_image)
qed

definition example_allocs :: "nat \<Rightarrow> Allocs" where
  "example_allocs n = \<lparr>al_element = Some n, al_file = Some n, al_block = Some (10 * n), al_node = Some n, al_temp = 9\<rparr>"

definition example_run :: "heap_op list" where
  "example_run = [Malloc ''a.c'' 1 12 (example_allocs 1), Malloc ''b.c'' 2 20 (example_allocs 2), Store (Some 14) 5 7,
     Realloc ''a.c'' 3 (Some 14) 40 (example_allocs 3), Free ''b.c'' 4 (Some 24) (example_allocs 4), Free ''b.c'' 5 (Some 24) (example_allocs 4)]"

lemma example_run_ok: "heap_ok example_run Heap_initialize"
  by code_simp

text \<open>
  C8. As long as the system has memory, any sequence of calls of the tracked heap and of writes of the program behaves as
  a finite map from the addresses of the allocated blocks to their file, line, size and bytes: a block is known exactly
  while it is allocated, freeing an unknown pointer is reported and changes nothing, freeing a block reports exactly
  damaged guards, reallocation keeps the bytes, the size in use and its maximum are right, no call goes through a bad
  pointer or stays in the mutex, and the heap's own memory is one node, one record and one file name for each block.
\<close>

theorem heap_refines:
  assumes "heap_ok xs Heap_initialize"
  shows "\<exists>out live mx h. run_spec heap_spec (Map.empty, 0) xs = (out, live, mx) \<and> run_steps heap_step Heap_initialize xs = Some (out, h) \<and>
    \<not> hp_locked h \<and> Heap_get_info h = (live_total live, mx) \<and> card (dom (hp_nodes h)) = card (dom live) \<and>
    card (dom (hp_elements h)) = card (dom live) \<and> card (dom (hp_files h)) = card (dom live)"
proof -
  obtain out live mx where r: "run_spec heap_spec (Map.empty, 0) xs = (out, live, mx)" by (metis prod_cases3)
  with heap.run_simulates [OF heap_rel_start assms] obtain h where
    h: "run_steps heap_step Heap_initialize xs = Some (out, h)" "heap_rel h (live, mx)" by auto
  then have "held h live" "\<not> hp_locked h" "hp_max h = mx" by (simp_all add: heap_rel_def)
  moreover from this(1) have "hp_current h = live_total live" by (simp add: held_def)
  ultimately show ?thesis using r h(1) held_counts [of h live] by (auto simp: Heap_get_info_def)
qed

theorem heap_refines_witness:
  "\<exists>h. run_steps heap_step Heap_initialize example_run = Some ([(Pointer (Some 14), []), (Pointer (Some 24), []), (Nothing, []),
     (Pointer (Some 34), []), (Nothing, []), (Nothing, [RemoveFailed ''b.c'' 5])], h) \<and> \<not> hp_locked h \<and>
     card (dom (hp_nodes h)) = card (dom (hp_elements h))"
proof -
  have "map_option fst (run_steps heap_step Heap_initialize example_run) = Some [(Pointer (Some 14), []), (Pointer (Some 24), []), (Nothing, []),
     (Pointer (Some 34), []), (Nothing, []), (Nothing, [RemoveFailed ''b.c'' 5])]" by code_simp
  with heap_refines [OF example_run_ok] show ?thesis by auto
qed

lemma eyecatcher_changed: "eyecatcher[i := y] \<noteq> eyecatcher \<longleftrightarrow> i < 4 \<and> y \<noteq> 0x88"
proof -
  have "eyecatcher = replicate 4 0x88" by (simp add: eyecatcher_def numeral_eq_Suc)
  then have "i < 4 \<Longrightarrow> eyecatcher ! i = 0x88" by (metis nth_replicate)
  then show ?thesis using list_update_same_conv [of i eyecatcher y] list_update_beyond [of eyecatcher i y] by (cases "i < 4") auto
qed

lemma damage_store:
  "damage ((new_block fl ln sz bs)\<lparr>tk_bytes := (tk_bytes (new_block fl ln sz bs))[i := y]\<rparr>) =
     (if i < 4 \<and> y \<noteq> 0x88 then [StartOverwritten] else []) @
     (if unat (Heap_roundup sz) + 4 \<le> i \<and> i < unat (Heap_roundup sz) + 8 \<and> y \<noteq> 0x88 then [EndOverwritten] else [])"
proof -
  define r m where "r = unat (Heap_roundup sz)" and "m = take r (drop 4 (resized (r + 8) bs))"
  let ?bs = "eyecatcher @ m @ eyecatcher"
  have m: "length m = r" by (simp add: m_def)
  have nb: "tk_bytes (new_block fl ln sz bs) = ?bs" "tk_size (new_block fl ln sz bs) = Heap_roundup sz"
    by (simp_all add: new_block_def guarded_def r_def m_def)
  have "take 4 (?bs[i := y]) = eyecatcher[i := y]" by (simp add: take_update_swap)
  moreover have "drop (r + 4) (?bs[i := y]) = (if i < r + 4 then eyecatcher else eyecatcher[i - (r + 4) := y])"
    using m by (simp add: drop_update_cancel drop_update_swap)
  moreover have "i - (r + 4) < 4 \<and> \<not> i < r + 4 \<longleftrightarrow> r + 4 \<le> i \<and> i < r + 8" by auto
  ultimately show ?thesis unfolding damage_def nb using eyecatcher_changed [of i y] eyecatcher_changed [of "i - (r + 4)" y]
    by (auto simp: nb r_def [symmetric])
qed

lemma heap_ok_append:
  "heap_ok (xs @ ys) h \<longleftrightarrow> heap_ok xs h \<and> (case run_steps heap_step h xs of None \<Rightarrow> True | Some (out, h') \<Rightarrow> heap_ok ys h')"
  by (induction xs arbitrary: h) (auto split: option.splits bind_splits)

text \<open>
  C33. A program that writes a byte of its block, counted from the guard before it, is reported when the block is freed
  exactly if the byte was one of the guard before or of the guard behind the block and has changed.
\<close>

theorem overrun_reported:
  assumes "heap_ok (xs @ [Malloc fl ln sz al, Store (int_after (al_block al)) i y, Free fl' ln' (int_after (al_block al)) al']) Heap_initialize"
  shows "\<exists>out h. run_steps heap_step Heap_initialize
      (xs @ [Malloc fl ln sz al, Store (int_after (al_block al)) i y, Free fl' ln' (int_after (al_block al)) al']) = Some (out, h) \<and>
    last out = (Nothing, (if i < 4 \<and> y \<noteq> 0x88 then [StartOverwritten] else []) @
      (if unat (Heap_roundup sz) + 4 \<le> i \<and> i < unat (Heap_roundup sz) + 8 \<and> y \<noteq> 0x88 then [EndOverwritten] else []))"
proof -
  let ?q = "int_after (al_block al)" and ?ys = "[Malloc fl ln sz al, Store (int_after (al_block al)) i y, Free fl' ln' (int_after (al_block al)) al']"
  obtain out1 live mx where s: "run_spec heap_spec (Map.empty, 0) xs = (out1, live, mx)" by (metis prod_cases3)
  have "heap_ok xs Heap_initialize" using assms by (simp add: heap_ok_append)
  from heap.run_simulates [OF heap_rel_start this] s obtain h1 where "run_steps heap_step Heap_initialize xs = Some (out1, h1)" by auto
  with assms have "op_ok (Malloc fl ln sz al) h1" by (simp add: heap_ok_append)
  then have "new_at (hp_blocks h1) (al_block al)" "int (ptr_value (al_block al)) + 4 < 2 ^ 64" by simp_all
  then obtain b where b: "al_block al = Some b" "Suc b + 4 < 2 ^ 64" by (elim new_atE) simp
  have q: "int_before ?q = Some b" using int_before_after [OF b(2)] b(1) by simp
  have "fst (run_spec heap_spec (live, mx) ?ys) = [(Pointer ?q, []), (Nothing, []), (Nothing, damage ((new_block fl ln sz [])\<lparr>tk_bytes :=
      (tk_bytes (new_block fl ln sz []))[i := y]\<rparr>))]"
    using q by (simp add: b(1) Let_def removed_def)
  with s have "last (fst (run_spec heap_spec (Map.empty, 0) (xs @ ?ys))) = (Nothing, damage ((new_block fl ln sz [])\<lparr>tk_bytes :=
      (tk_bytes (new_block fl ln sz []))[i := y]\<rparr>))"
    by (simp add: run_spec_append split_beta Let_def del: run_spec.simps)
  with heap.run_simulates [OF heap_rel_start assms] show ?thesis unfolding damage_store by auto
qed

theorem overrun_reported_witness:
  "\<exists>out h. run_steps heap_step Heap_initialize [Malloc ''a.c'' 1 12 (example_allocs 1), Store (Some 14) 20 7,
     Free ''a.c'' 2 (Some 14) (example_allocs 2)] = Some (out, h) \<and> last out = (Nothing, [EndOverwritten])"
proof -
  have p: "int_after (al_block (example_allocs 1)) = Some 14" by (simp add: int_after_def example_allocs_def at_address_def)
  have "heap_ok ([] @ [Malloc ''a.c'' 1 12 (example_allocs 1), Store (int_after (al_block (example_allocs 1))) 20 7,
     Free ''a.c'' 2 (int_after (al_block (example_allocs 1))) (example_allocs 2)]) Heap_initialize" by code_simp
  from overrun_reported [OF this, unfolded p] show ?thesis by (simp add: Heap_roundup_def del: run_steps.simps)
qed

text \<open>
  C38. When the system has no memory for the record, for the copy of the file name or for the block, \<open>mymalloc\<close> returns a null
  pointer without releasing the mutex: every later call of the heap waits for ever.
\<close>

theorem allocation_failure_locks:
  assumes "\<not> hp_locked h" "al_element al = None \<or> al_file al = None \<or> al_block al = None"
  shows "\<exists>h'. mymalloc fl ln sz al h = Some (None, [MemoryError], h') \<and>
    (\<forall>fl ln sz al p. mymalloc fl ln sz al h' = None \<and> myfree fl ln p al h' = None \<and> myrealloc fl ln p sz al h' = None \<and>
       Heap_unlink fl ln p al h' = None \<and> Heap_findItem p h' = None \<and> HeapScan h' = None)"
proof -
  have "mymalloc fl ln sz al h = Some (None, [MemoryError], h\<lparr>hp_locked := True\<rparr>)"
    using assms by (auto simp: mymalloc_def lock_heap_def Let_def split: option.split)
  then show ?thesis
    by (simp add: mymalloc_def myfree_def myrealloc_def Heap_unlink_def Heap_findItem_def HeapScan_def lock_heap_def)
qed

theorem allocation_failure_locks_witness:
  "\<exists>h'. mymalloc ''a.c'' 1 12 (example_allocs 1\<lparr>al_block := None\<rparr>) Heap_initialize = Some (None, [MemoryError], h') \<and> HeapScan h' = None"
  using allocation_failure_locks [of Heap_initialize "example_allocs 1\<lparr>al_block := None\<rparr>" "''a.c''" 1 12]
  by (auto simp: Heap_initialize_def)

text \<open>
  C39. When \<open>realloc\<close> fails, \<open>myrealloc\<close> returns a null pointer with the mutex locked, and the block, which is still allocated,
  is no longer tracked: it is not found any more, although its record, its file name and its new size in the counter stay.
\<close>

theorem realloc_failure_forgets:
  assumes run: "heap_ok xs Heap_initialize" "run_spec heap_spec (Map.empty, 0) xs = (out, live, mx)"
      "run_steps heap_step Heap_initialize xs = Some (out', h)"
    and fails: "live (ptr_value (int_before p)) = Some x" "hp_nodes h (al_temp al) = None" "al_block al = None"
  shows "\<exists>h'. myrealloc fl ln p sz al h = Some (None, damage x @ [MemoryError], h') \<and> hp_locked h' \<and>
    TreeFind (hp_elements h') (hp_tree h') (hp_nodes h') (int_before p) = Some None \<and> hp_blocks h' = hp_blocks h \<and>
    hp_elements h' = hp_elements h \<and> hp_files h' = hp_files h \<and> hp_current h' = live_total live - tk_size x + Heap_roundup sz"
proof -
  let ?v = "ptr_value (int_before p)" and ?d = "Heap_roundup sz - tk_size x"
  from heap.run_simulates [OF heap_rel_start run(1)] run(2,3) have "heap_rel h (live, mx)" by auto
  then have R: "\<not> hp_locked h" "held h live" by (simp_all add: heap_rel_def)
  from R(2) obtain K where K: "in_tree (hp_elements h) (hp_tree h) (hp_nodes h) K" "registry_ok h K live" "hp_current h = live_total live"
    by (rule heldE)
  from K(2) fails(1) obtain c f where k: "K ?v = Some (c, f)" by (rule registry_entry)
  note found = check_found [OF K(2) k fails(1) refl]
  from heap_remove_key [OF K(1) fails(2), of "int_before p"] k obtain t ns where
    rm: "TreeRemoveKey (hp_elements h) (hp_tree h) (hp_nodes h) (int_before p) (al_temp al) = Some (Some c, t, ns)"
    and tree: "in_tree (hp_elements h) t ns (K(?v := None))" by (auto simp: record_at_def)
  let ?g = "h\<lparr>hp_locked := True, hp_tree := t, hp_nodes := ns\<rparr>"
  have ck: "checkEyecatchers ?g p (tk_size x) = Some (damage x)" using found(6) by (simp add: checkEyecatchers_def get_block_def)
  have "myrealloc fl ln p sz al h = Some (None, damage x @ [MemoryError], count_up ?d ?g)"
    using R(1) rm ck found(5) fails(3) by (simp add: myrealloc_def lock_heap_def get_element_def Let_def)
  moreover from heap_find [OF tree, of "int_before p"] have "TreeFind (hp_elements h) t ns (int_before p) = Some None"
    by (auto simp: record_at_simps)
  ultimately show ?thesis using K(3) by (simp add: count_up_def)
qed

theorem realloc_failure_forgets_witness:
  "\<exists>out h h'. run_steps heap_step Heap_initialize [Malloc ''a.c'' 1 12 (example_allocs 1)] = Some (out, h) \<and>
     myrealloc ''a.c'' 2 (Some 14) 40 (example_allocs 2\<lparr>al_block := None\<rparr>) h = Some (None, [MemoryError], h') \<and> hp_locked h' \<and>
     TreeFind (hp_elements h') (hp_tree h') (hp_nodes h') (int_before (Some 14)) = Some None"
proof -
  let ?xs = "[Malloc ''a.c'' 1 12 (example_allocs 1)]" and ?x = "new_block ''a.c'' 1 12 []"
  have ok: "heap_ok ?xs Heap_initialize" by code_simp
  have spec: "run_spec heap_spec (Map.empty, 0) ?xs = ([(Pointer (Some 14), [])], [11 \<mapsto> ?x], max 0 (live_total [11 \<mapsto> ?x]))"
    by (simp add: example_allocs_def int_after_def at_address_def Let_def)
  from heap.run_simulates [OF heap_rel_start ok] spec obtain h where run: "run_steps heap_step Heap_initialize ?xs = Some ([(Pointer (Some 14), [])], h)"
    by (auto simp del: run_steps.simps)
  have "map_option (\<lambda>(out, h). hp_nodes h 9) (run_steps heap_step Heap_initialize ?xs) = Some None" by code_simp
  with run have temp: "hp_nodes h (al_temp (example_allocs 2\<lparr>al_block := None\<rparr>)) = None" by (simp add: example_allocs_def del: run_steps.simps)
  have p: "ptr_value (int_before (Some 14)) = 11" by code_simp
  then have live: "[11 \<mapsto> ?x] (ptr_value (int_before (Some 14))) = Some ?x" by simp
  have "damage ?x = []" by code_simp
  with realloc_failure_forgets [OF ok spec run live temp, of "''a.c''" 2 40] run show ?thesis by (auto simp del: run_steps.simps)
qed

text \<open>
  \<open>Heap_roundup\<close> gives the next multiple of sixteen, except for the last fifteen sizes, which it takes to zero: the
  request for nearly all of the address space gets a block without a byte of its own.
\<close>

theorem roundup_wraps:
  "unat (Heap_roundup sz) mod 16 = 0 \<and>
   (if unat sz \<le> 2 ^ 64 - 16 then unat sz \<le> unat (Heap_roundup sz) \<and> unat (Heap_roundup sz) < unat sz + 16 else Heap_roundup sz = 0)"
proof -
  define n where "n = unat sz"
  have n: "n < 2 ^ 64" using unsigned_less [of sz] by (simp add: n_def)
  have m: "unat (Heap_roundup sz) mod 16 = 0" unfolding unat_roundup by (subst mod_mod_cancel) simp_all
  have up: "n \<le> (n + 15) div 16 * 16" "(n + 15) div 16 * 16 \<le> n + 15" unfolding round_up_16 using mod_less_divisor [of 16 n] by simp_all arith+
  show ?thesis
  proof (cases "n \<le> 2 ^ 64 - 16")
    case True
    then have "unat (Heap_roundup sz) = (n + 15) div 16 * 16" using up(2) unfolding unat_roundup n_def by simp
    then show ?thesis using m up True by (simp add: n_def)
  next
    case False
    then have "(n + 15) div 16 = 2 ^ 60" using n by (intro div_nat_eqI) simp_all
    then have "unat (Heap_roundup sz) = 0" unfolding unat_roundup n_def by simp
    then have "Heap_roundup sz = 0" by (simp add: unat_eq_zero)
    then show ?thesis using False by (simp add: n_def)
  qed
qed

text \<open>
  C40. The size that \<open>mymalloc\<close> gives the node of a record counts the record and the file name as well; \<open>HeapDump\<close> takes it for
  the size of the block and reads behind the end: the dump of any heap that has just got its first block does so.
\<close>

theorem dump_overreads:
  assumes "heap_ok [Malloc fl ln sz al] Heap_initialize" "unat sz < 2 ^ 62" "length fl < 2 ^ 62"
  shows "\<exists>out h. run_steps heap_step Heap_initialize [Malloc fl ln sz al] = Some (out, h) \<and> HeapDump h = None"
proof -
  let ?r = "Heap_roundup sz" and ?x = "new_block fl ln sz []" and ?h0 = "Heap_initialize"
  define space where "space = 32 + (of_nat (length fl) + 1) + (?r + 8)"
  from assms(1) have "new_at (hp_elements ?h0) (al_element al)" "new_at (hp_files ?h0) (al_file al)" "new_at (hp_blocks ?h0) (al_block al)"
    "new_at (hp_nodes ?h0) (al_node al)" by simp_all
  then obtain e f b a where al: "al_element al = Some e" "al_file al = Some f" "al_block al = Some b" "al_node al = Some a" by (elim new_atE)
  let ?s = "\<lparr>se_file = Some f, se_line = ln, se_ptr = Some b, se_size = ?r\<rparr>" and ?t = "hp_tree ?h0"
  have z: "resized (unat ?r + 8) [] = replicate (unat ?r + 8) 0" by (simp add: resized_def)
  have block: "set_eyecatchers ?r (replicate (unat (?r + 8)) 0) = Some (tk_bytes ?x)" "length (tk_bytes ?x) = unat ?r + 8"
    using set_eyecatchers_guarded [of "replicate (unat ?r + 8) 0" sz] by (simp_all add: new_block_def roundup_sizes z)
  have "tree_rep (element_key [e \<mapsto> ?s]) ptrCompare ?t Map.empty Lf"
    using tree_rep_empty [of "element_key [e \<mapsto> ?s]" ptrCompare] by (simp add: tree_rep_def holds_def Heap_initialize_def)
  moreover have "element_key [e \<mapsto> ?s] (Some e) = Some (Suc b)" by (simp add: element_key_def)
  ultimately obtain t ns T where t: "TreeAdd [e \<mapsto> ?s] ?t Map.empty (Some e) space (\<lambda>_. Some a) = Some (None, t, ns)"
    "tree_rep (element_key [e \<mapsto> ?s]) ptrCompare t ns T" "key_map (element_key [e \<mapsto> ?s]) T = [Suc b \<mapsto> (Some e, space)]"
    using heap_order.add [of "[e \<mapsto> ?s]" ?t Map.empty Lf "Some e" "Suc b" a space] by (auto simp: content_of_def)
  have T: "holds 0 t ns T" "key_sorted (\<lambda>c. the (element_key [e \<mapsto> ?s] c)) (items T)" using t(2) by (simp_all add: tree_rep_def)
  have "map snd (items T) = [(Some e, space)]" using sorted_entries(1) [OF T(2)] t(3) by (simp add: key_map_def)
  with elements [OF T(1)] obtain n where n: "elements_from t ns None = Some [n]" "nd_content n = Some e" "nd_size n = space" by auto
  define h where "h = unlock_heap (count_up ?r (?h0\<lparr>hp_locked := True, hp_elements := [e \<mapsto> ?s], hp_files := [f \<mapsto> fl],
    hp_blocks := [b \<mapsto> tk_bytes ?x], hp_tree := t, hp_nodes := ns\<rparr>))"
  have "mymalloc fl ln sz al ?h0 = Some (int_after (Some b), [], h)"
    using al block(1) t(1) [unfolded space_def]
    by (simp add: mymalloc_def lock_heap_def Let_def add_element_def h_def Heap_initialize_def)
  then have run: "run_steps heap_step ?h0 [Malloc fl ln sz al] = Some ([(Pointer (int_after (Some b)), [])], h)" by simp
  have "space = of_nat (length fl + unat ?r + 41)" by (simp add: space_def)
  moreover have "length fl + unat ?r + 41 < 2 ^ 64" using roundup_le [OF assms(2)] assms(3) by simp
  ultimately have "unat space = length fl + unat ?r + 41" by (simp only: unsigned_of_nat) (simp add: take_bit_nat_eq_self)
  then have "HeapDump h = None"
    using n block(2) by (simp add: HeapDump_def h_def unlock_heap_def count_up_def get_element_def get_block_def)
  with run show ?thesis by blast
qed

theorem dump_overreads_witness:
  "\<exists>out h. run_steps heap_step Heap_initialize [Malloc ''a.c'' 1 12 (example_allocs 1)] = Some (out, h) \<and> HeapDump h = None"
proof -
  have "heap_ok [Malloc ''a.c'' 1 12 (example_allocs 1)] Heap_initialize" by code_simp
  then show ?thesis by (rule dump_overreads) simp_all
qed

end
