(* ===== verification/Spec2Isabelle.thy ===== *)
theory Spec2Isabelle
  imports LinkedList Utf8 Clients Packet SocketBuffer Socket Protocol Receiving Sending Upkeep Addresses Recovery
    Survival MessageQueue AsyncProperties JsonRoundtrip AsyncClient Topics Management ReplyThread
    HeapProperties
begin

text \<open>
  A verification library for the device client of the IBM Watson IoT platform and the MQTT client below it.

  \<^bold>\<open>The program.\<close> A device or gateway sends events to the platform, receives commands, and takes part in
  device management. The code has three layers. At the bottom (\<open>lib/*.c\<close>) is an MQTT client in C: lists,
  packets, sockets, the protocol's exchanges of messages, and persistence. Above it is a C++ client
  (\<open>lib/async_client.cpp\<close>, \<open>lib/token.cpp\<close>) that turns its callbacks into tokens that can be waited for. The top
  (\<open>src/*.cpp\<close>) is the client of the platform, whose messages are JSON (\<open>lib/jsoncpp.cpp\<close>).

  \<^bold>\<open>The MQTT client in C.\<close>
  \<^item> \<open>Prelude\<close>: machine types, pointers, undefined behaviour as \<open>None\<close>, the locale \<open>simulation\<close>.
  \<^item> \<open>LinkedList\<close> (\<open>LinkedList.c\<close>): lists on an explicit store of elements; any sequence of operations behaves as
    the abstract list with a cursor (\<open>list_run_refines\<close>).
  \<^item> \<open>Utf8\<close> (\<open>utf-8.c\<close>): validation is equivalent to a definition of well-formed UTF-8, for lengths that an \<open>int\<close> holds.
  \<^item> \<open>Clients\<close> (\<open>Clients.c\<close>, \<open>Clients.h\<close>): the records that the modules share.
  \<^item> \<open>Packet\<close> (\<open>MQTTPacket.c\<close>, \<open>MQTTPacketOut.c\<close>): building and parsing packets on buffers whose bounds
    are checked; round trips, exact lengths, and the packets that make a parser read too far.
  \<^item> \<open>SocketBuffer\<close>, \<open>Socket\<close> (\<open>SocketBuffer.c\<close>, \<open>Socket.c\<close>): interrupted reads and writes. Reading a packet
    is resumed without loss (\<open>packet_resumes\<close>), and a published message arrives (\<open>publish_delivered\<close>).
  \<^item> \<open>Protocol\<close> (\<open>MQTTProtocolClient.c\<close>, \<open>MQTTProtocolOut.c\<close>), with \<open>MessageLists\<close>, \<open>Receiving\<close>, \<open>Sending\<close>,
    \<open>Upkeep\<close> and \<open>Addresses\<close>: message ids, the exchanges of quality of service 1 and 2 in both directions as
    refinements of specifications (\<open>receive_refines\<close>, \<open>send_refines\<close>), exactly once delivery, keep-alive,
    retries, freeing.
  \<^item> \<open>Persistence\<close>, \<open>Recovery\<close>, \<open>Restart\<close>, \<open>FilePersistence\<close>, \<open>Survival\<close> (\<open>MQTTPersistence.c\<close>,
    \<open>MQTTPersistenceDefault.c\<close>): records of messages, on any implementation of the interface and on files; a
    restart at any time restores the session (\<open>session_survives_restart\<close>).
  \<^item> \<open>MessageQueue\<close> (parts of \<open>MQTTClient.c\<close>): the queue of messages for the application and its records.
  \<^item> \<open>AsyncQueue\<close>, \<open>AsyncThreads\<close>, \<open>AsyncApi\<close> (\<open>MQTTAsync.c\<close>): the requests of the application, which become
    commands in a queue; the work of the sending and of the receiving thread; connecting to a list of servers and
    reconnecting. The state is that of \<open>Protocol\<close>, whose world holds the queue, so that the protocol's calls back
    into this layer change it. \<open>AsyncAccount\<close>, \<open>AsyncKeeps\<close>, \<open>AsyncSends\<close>, \<open>AsyncReceives\<close> and \<open>AsyncRuns\<close> prove
    for each operation, and for every run of them, that commands are neither lost, leaked, freed twice nor left
    dangling, as long as writes that were pending are done in the order of the requests (\<open>orderly\<close>);
    \<open>AsyncProperties\<close> has the properties (\<open>requests_accounted\<close>) and the errors, among them what becomes of requests
    when such a write is out of order (\<open>write_complete_drops_first\<close>).
  \<^item> \<open>NodeTree\<close> (\<open>Tree.c\<close>): red-black trees on a store of nodes with parent pointers. \<open>RedBlack\<close> has the same
    algorithms on terms and their balance, \<open>TreeStore\<close> and \<open>TreeRemoval\<close> show that the pointer code computes them,
    \<open>TreeMap\<close>, \<open>TreeOrder\<close> and \<open>TreeSequence\<close> that it is a finite map that can be walked through in order;
    \<open>TreeProperties\<close> has the runs (\<open>tree_refines\<close>).
  \<^item> \<open>HeapTracking\<close>, \<open>HeapRuns\<close>, \<open>HeapProperties\<close> (\<open>Heap.c\<close>): the records of the allocated blocks in such a tree, with
    guards around the blocks; a finite map of the blocks as long as the system has memory (\<open>heap_refines\<close>), what
    happens when it has none, and overruns.

  \<^bold>\<open>The clients in C++.\<close>
  \<^item> \<open>AsyncClient\<close> (\<open>async_client.cpp\<close>, \<open>token.cpp\<close>): every request with its token; a refinement of the set of
    open requests.
  \<^item> \<open>Json\<close>, \<open>JsonReader\<close>, \<open>JsonRoundtrip\<close> (\<open>jsoncpp.cpp\<close>): values, \<open>FastWriter\<close> and \<open>Reader\<close>; the reader ends on
    every text and reads back what the writer writes.
  \<^item> \<open>Topics\<close>, \<open>DeviceData\<close> (\<open>Command.h\<close>, \<open>IOTP_TopicDefinitions.h\<close>, \<open>IOTP_Device.cpp\<close>): the topics, the command that
    is made of one, and the JSON forms of what a device says of itself.
  \<^item> \<open>IotpClient\<close>, \<open>DeviceClient\<close> (\<open>IOTP_Client.cpp\<close>, \<open>IOTP_DeviceClient.cpp\<close>, \<open>IOTP_GatewayClient.cpp\<close> and the
    handlers): subscriptions, arriving messages, requests and responses, configuration, device management.
    \<open>Management\<close> has their properties, with the JSON layer composed in: responses reach their requests, requests of
    the platform get one answer each.
  \<^item> \<open>ReplyThread\<close> (\<open>_send_reply\<close> of \<open>IOTP_Client.cpp\<close>): three threads, a mutex and a condition as a step
    relation; the order of replies, missed notifications, and a deadlock.

  \<^bold>\<open>Interfaces.\<close> \<open>simulation\<close> (\<open>Prelude\<close>) is the contract between a component and its specification: one
  step is simulated, hence every run is; it is interpreted for the lists, the receiving and the sending side,
  the trees, the tracked heap and the C++ client. \<open>packet_source\<close> (\<open>Packet\<close>) is what the parser of packets needs of the network,
  interpreted on the sockets; \<open>message_list\<close> (\<open>MessageLists\<close>) is a list of messages in a client, interpreted on the
  inbound and the outbound one; \<open>key_store\<close> (\<open>Persistence\<close>) is the interface of persistence, interpreted on
  the files. \<open>world_frame\<close> (\<open>WorldFrame\<close>) is what the protocol keeps of the world it works on if the operations below
  it keep it; \<open>net_blind\<close> (\<open>AsyncFrame\<close>), a property of the queue that the network does not look at, is one, and is
  interpreted on the account of the commands (\<open>AsyncAccount\<close>), on the queue and on the heap (\<open>AsyncSends\<close>). \<open>tree_order\<close>
  (\<open>TreeOrder\<close>) is what a tree needs of its comparison function; it is interpreted on those for integers and for
  pointers and on that of the heap's records.

  \<^bold>\<open>Conventions.\<close> Integers of C are unbounded where no overflow is possible in practice (counters of what is in
  memory), words where they wrap (\<open>to_int32\<close>, \<open>64 word\<close> sizes), and a calculation that can overflow an \<open>int\<close> is undefined
  then (\<open>int_value\<close>). Pointers into shared structures are addresses of a store; undefined behaviour of C (a bad
  pointer, an access outside a buffer) is \<open>None\<close>, so that a theorem with \<open>Some\<close> says that there is none. The
  results of \<open>malloc\<close>, of system calls and of library callbacks are arguments. In the C++ part an exception is
  a value (\<open>Inl\<close>), with constructors of their own for a null pointer, a buffer overrun, a missing return, a wait
  without end (\<open>Blocks\<close>) and \<open>std::terminate\<close>.

  \<^bold>\<open>Fuel.\<close> The JSON reader takes fuel because its functions call each other on the rest of the text; two units
  for each character and one more are enough for every text (\<open>parse_json_ends\<close>). The search for a message id and
  other loops that may not end are given the number of their possible states; where the code does not end,
  a theorem says so (\<open>assignMsgId_initial\<close>). Every other function terminates by its measure.

  \<^bold>\<open>Not modelled.\<close> Of \<open>MQTTAsync.c\<close> the loops of the threads, whose bodies are the steps of \<open>AsyncRuns\<close>, and the
  mutexes: each call of the application and each step of a thread is atomic in a run, although \<open>MQTTAsync_send\<close>,
  \<open>MQTTAsync_subscribeMany\<close> and \<open>MQTTAsync_connect\<close> do not hold \<open>mqttasync_mutex\<close> from beginning to end, and no client is
  created or destroyed in it; destroying a client, waiting for a completion, and the version's description. Of
  \<open>MQTTClient.c\<close>, which the device client does not use, everything but the message queue. The model of the C++ client
  takes the answers of \<open>MQTTAsync.c\<close> as arguments. TLS (\<open>SSLSocket.c\<close>), logging and tracing, and the
  threads' wrappers, which do not change the state of the protocol. Of \<open>Tree.c\<close> and \<open>Heap.c\<close> the allocation of a tree's
  header, the dump of a string and the test programs. Of \<open>jsoncpp.cpp\<close> the second reader, the styled
  writers, comments and error texts, which the client does not use. The vendored logging library (log4cpp),
  samples and tests. Floating point numbers are a record of functions (\<open>double_ops\<close>).
\<close>

end
